(* ===== verification/Prelude.thy ===== *)
theory Prelude
  imports Main "HOL-Library.Word" "HOL-Library.Monad_Syntax" "HOL-Library.Multiset"
begin

text \<open>
  Machine integers, byte buffers and the generic list, option and word lemmas that the component
  theories share. A packet is the list of its bytes, as the code sees it through a pointer cast:
  fields are read and written at the offsets of the packed structs. The host is little-endian, and
  \<open>nxs\<close>/\<open>hxs\<close> (src/master/include/nx.h) are \<open>ntohs\<close>/\<open>htons\<close>, so a field that the code converts
  is big-endian in the buffer and a field that it does not convert is little-endian.
\<close>

type_synonym u8 = "8 word"
type_synonym u16 = "16 word"
type_synonym u32 = "32 word"
type_synonym bytes = "8 word list"

named_theorems consts_defs \<open>the numeric constants of the source\<close>
named_theorems inv_intros \<open>preservation of component invariants\<close>
named_theorems frame_simps \<open>fields an operation leaves alone\<close>

section \<open>Words as numbers\<close>

lemma unat_u8_lt [simp]: "unat (w :: u8) < 256"
  using unsigned_less [of w] by simp

lemma unat_u16_lt [simp]: "unat (w :: u16) < 65536"
  using unsigned_less [of w] by simp

lemma unat_u8_le [simp]: "unat (w :: u8) \<le> 255"
  using unat_u8_lt [of w] by linarith

lemma unat_u16_le [simp]: "unat (w :: u16) \<le> 65535"
  using unat_u16_lt [of w] by linarith

lemma unat_of_nat_u8: "unat (of_nat n :: u8) = n mod 256"
  by (simp add: unat_of_nat)

lemma unat_of_nat_u16: "unat (of_nat n :: u16) = n mod 65536"
  by (simp add: unat_of_nat)

lemma unat_word_of_int_u8: "unat (word_of_int k :: u8) = nat (k mod 256)"
  by (simp add: unsigned_of_int take_bit_eq_mod)

lemma unat_word_of_int_u16: "unat (word_of_int k :: u16) = nat (k mod 65536)"
  by (simp add: unsigned_of_int take_bit_eq_mod)

lemma unat_ucast_u16_u8: "unat (ucast (w :: u16) :: u8) = unat w mod 256"
  by (simp add: unsigned_ucast_eq take_bit_eq_mod)

lemma unat_ucast_u8_u16 [simp]: "unat (ucast (w :: u8) :: u16) = unat w"
proof -
  have "unat w < 65536" using unat_u8_le [of w] by linarith
  then show ?thesis by (simp add: unsigned_ucast_eq take_bit_eq_mod)
qed

lemma unat_add_u16: "unat (a + b :: u16) = (unat a + unat b) mod 65536"
  by (simp add: unat_word_ariths)

lemma unat_add_u8: "unat (a + b :: u8) = (unat a + unat b) mod 256"
  by (simp add: unat_word_ariths)

lemma unat_sub_u16: "unat (a - b :: u16) = (unat a + (65536 - unat b)) mod 65536"
proof -
  have eq: "(of_nat (65536 - unat b) :: u16) = - b"
    by (subst of_nat_diff) (simp_all add: less_imp_le [OF unat_u16_lt, THEN order_trans])
  have "a - b = of_nat (unat a + (65536 - unat b))"
    by (simp only: of_nat_add eq) simp
  then show ?thesis by (simp only: unat_of_nat_u16)
qed

lemma unat_diff_u16: "unat b \<le> unat a \<Longrightarrow> unat (a - b :: u16) = unat a - unat b"
  by (simp add: unat_sub word_le_nat_alt)

lemma unat_inc_u16: "unat w < 65535 \<Longrightarrow> unat (w + 1 :: u16) = unat w + 1"
  by (simp add: unat_add_u16)

lemma word_eq_unat: "(a = b) = (unat a = unat b)"
  by (simp add: word_unat_eq_iff)

lemma sint_u8: "sint (w :: u8) = (if unat w < 128 then int (unat w) else int (unat w) - 256)"
proof -
  obtain n where n: "unat w = n" "n < 256" "uint w = int n"
    using unat_u8_lt [of w] by (simp add: uint_nat)
  have d: "n div 128 = (if n < 128 then 0 else 1)"
    using n(2) by (cases "n < 128") (simp_all add: div_nat_eqI)
  have "int n div 128 = int (n div 128)" by (simp add: zdiv_int)
  then have "sint w = take_bit 8 (int n) - 256 * of_bool (odd (n div 128))"
    using n by (simp add: sint_uint signed_take_bit_eq_take_bit_minus bit_iff_odd)
  then show ?thesis using d n by (simp add: take_bit_eq_mod)
qed

lemma sint_u8_inc:
  assumes "0 \<le> sint (w :: u8)" "sint w < 127"
  shows "sint (w + 1) = sint w + 1"
proof -
  obtain n where n: "unat w = n" "n < 256" using unat_u8_lt [of w] by blast
  then have "n < 127" using assms unfolding sint_u8 by (auto split: if_splits)
  then show ?thesis using n unfolding sint_u8 by (simp add: unat_add_u8)
qed

lemmas word_to_nat = word_less_nat_alt word_le_nat_alt word_eq_unat

section \<open>Bytes and 16-bit fields\<close>

definition hi8 :: "u16 \<Rightarrow> u8" where
  "hi8 w = of_nat (unat w div 256)"

definition lo8 :: "u16 \<Rightarrow> u8" where
  "lo8 w = of_nat (unat w mod 256)"

definition mk16 :: "u8 \<Rightarrow> u8 \<Rightarrow> u16" where
  "mk16 h l = of_nat (256 * unat h + unat l)"

lemma unat_mk16: "unat (mk16 h l) = 256 * unat h + unat l"
proof -
  have "256 * unat h + unat l < 65536"
    using unat_u8_le [of h] unat_u8_le [of l] by linarith
  then show ?thesis by (simp only: mk16_def unat_of_nat_u16 mod_less)
qed

lemma unat_hi8: "unat (hi8 w) = unat w div 256"
proof -
  have "unat w div 256 < 256"
    using unat_u16_lt [of w] by (simp add: div_less_iff_less_mult)
  then show ?thesis by (simp add: hi8_def unat_of_nat_u8)
qed

lemma unat_lo8: "unat (lo8 w) = unat w mod 256"
  by (simp add: lo8_def unat_of_nat_u8)

lemma mk16_hi_lo [simp]: "mk16 (hi8 w) (lo8 w) = w"
  by (simp add: word_eq_unat unat_mk16 unat_hi8 unat_lo8)

lemma hi8_mk16 [simp]: "hi8 (mk16 h l) = h"
  by (simp add: word_eq_unat unat_mk16 unat_hi8)

lemma lo8_mk16 [simp]: "lo8 (mk16 h l) = l"
  by (simp add: word_eq_unat unat_mk16 unat_lo8)

text \<open>
  Reading past the end of a buffer yields 0 here; the guards of the code that keep a read inside
  the packet are part of the models, and the lemmas that need an in-range access say so.
\<close>

definition get8 :: "bytes \<Rightarrow> nat \<Rightarrow> u8" where
  "get8 b i = (if i < length b then b ! i else 0)"

definition get16be :: "bytes \<Rightarrow> nat \<Rightarrow> u16" where
  "get16be b i = mk16 (get8 b i) (get8 b (i + 1))"

definition get16le :: "bytes \<Rightarrow> nat \<Rightarrow> u16" where
  "get16le b i = mk16 (get8 b (i + 1)) (get8 b i)"

definition put8 :: "bytes \<Rightarrow> nat \<Rightarrow> u8 \<Rightarrow> bytes" where
  "put8 b i v = b[i := v]"

definition put16be :: "bytes \<Rightarrow> nat \<Rightarrow> u16 \<Rightarrow> bytes" where
  "put16be b i w = b[i := hi8 w, i + 1 := lo8 w]"

definition put16le :: "bytes \<Rightarrow> nat \<Rightarrow> u16 \<Rightarrow> bytes" where
  "put16le b i w = b[i := lo8 w, i + 1 := hi8 w]"

lemma length_put [simp]:
  "length (put8 b i v) = length b"
  "length (put16be b i w) = length b"
  "length (put16le b i w) = length b"
  by (simp_all add: put8_def put16be_def put16le_def)

lemma get8_put8: "get8 (put8 b i v) j = (if j = i \<and> i < length b then v else get8 b j)"
  by (simp add: get8_def put8_def nth_list_update)

lemma get8_put16be:
  "get8 (put16be b i w) j =
    (if j = i \<and> i < length b then hi8 w
     else if j = i + 1 \<and> i + 1 < length b then lo8 w else get8 b j)"
  by (simp add: get8_def put16be_def nth_list_update)

lemma get8_put16le:
  "get8 (put16le b i w) j =
    (if j = i \<and> i < length b then lo8 w
     else if j = i + 1 \<and> i + 1 < length b then hi8 w else get8 b j)"
  by (simp add: get8_def put16le_def nth_list_update)

lemmas get8_puts = get8_put8 get8_put16be get8_put16le

lemma get16be_put16be [simp]: "i + 1 < length b \<Longrightarrow> get16be (put16be b i w) i = w"
  by (simp add: get16be_def get8_put16be)

lemma get16le_put16le [simp]: "i + 1 < length b \<Longrightarrow> get16le (put16le b i w) i = w"
  by (simp add: get16le_def get8_put16le)

section \<open>Tables with a key\<close>

lemma find_key_Some:
  "distinct (map k xs) \<Longrightarrow> find (\<lambda>e. k e = v) xs = Some x \<longleftrightarrow> x \<in> set xs \<and> k x = v"
  by (induction xs) auto

lemma find_key_None: "find (\<lambda>e. k e = v) xs = None \<longleftrightarrow> v \<notin> k ` set xs"
  by (auto simp: find_None_iff)

lemma find_snoc:
  "find P (xs @ [x]) = (case find P xs of None \<Rightarrow> if P x then Some x else None | Some y \<Rightarrow> Some y)"
  by (induction xs) simp_all

lemma distinct_map_mset: "mset xs = mset ys \<Longrightarrow> distinct (map k xs) = distinct (map k ys)"
  by (metis mset_eq_imp_distinct_iff mset_map)

section \<open>Lists as fixed-size arrays\<close>

text \<open>Removal from an array by moving the last element into the hole.\<close>

definition swap_remove :: "nat \<Rightarrow> 'a list \<Rightarrow> 'a list" where
  "swap_remove i xs = butlast (xs[i := last xs])"

lemma length_swap_remove [simp]: "length (swap_remove i xs) = length xs - 1"
  by (simp add: swap_remove_def)

lemma take_swap_remove: "i < length xs \<Longrightarrow> take i (swap_remove i xs) = take i xs"
  by (simp add: swap_remove_def take_butlast)

lemma mset_drop_swap_remove:
  assumes "i < length xs"
  shows "mset (drop i (swap_remove i xs)) = mset (drop (Suc i) xs)"
proof -
  obtain ys z where xs: "xs = ys @ [z]" using assms by (metis append_butlast_last_id list.size(3) not_less_zero)
  show ?thesis
  proof (cases "i < length ys")
    case True
    then have "swap_remove i xs = take i ys @ z # drop (Suc i) ys"
      by (simp add: xs swap_remove_def list_update_append upd_conv_take_nth_drop butlast_append)
    with True show ?thesis by (simp add: xs)
  next
    case False
    then have "i = length ys" using assms xs by simp
    then show ?thesis by (simp add: xs swap_remove_def)
  qed
qed

lemma mset_swap_remove:
  assumes "i < length xs"
  shows "add_mset (xs ! i) (mset (swap_remove i xs)) = mset xs"
proof -
  have "mset (swap_remove i xs) = mset (take i xs) + mset (drop (Suc i) xs)"
    using assms by (metis append_take_drop_id mset_append take_swap_remove mset_drop_swap_remove)
  moreover have "mset xs = mset (take i xs) + add_mset (xs ! i) (mset (drop (Suc i) xs))"
    using assms by (metis Cons_nth_drop_Suc append_take_drop_id mset.simps(2) mset_append)
  ultimately show ?thesis by simp
qed

lemma take_list_update_last:
  "n < length xs \<Longrightarrow> take (Suc n) (xs[n := x]) = take n xs @ [x]"
  by (simp add: take_Suc_conv_app_nth)

lemma nth_take_in_set: "i < n \<Longrightarrow> i < length xs \<Longrightarrow> xs ! i \<in> set (take n xs)"
  by (metis length_take min_less_iff_conj nth_mem nth_take)

lemma set_list_update_subset: "set (xs[i := x]) \<subseteq> insert x (set xs)"
  by (rule set_update_subset_insert)

end
