(* ===== verification/Task_Consts.thy ===== *)
theory Task_Consts
  imports Prelude
begin

text \<open>
  The numbers of the tasking language: identifiers of the tasklets (src/mote/lib/element_map.h), operators and
  types of arguments (src/mote/lib/tenet_task.h) and the camera queries
  (src/mote/lib/cyclops/cyclops_query.h), which masters and motes share. A name that is syntax in HOL has the
  suffix \<open>_op\<close>. The type of a constant is that of the field it is written to.
\<close>

named_theorems task_consts \<open>the numbers of the tasking language\<close>

definition ELEMENT_REBOOT :: u16 where [task_consts]: "ELEMENT_REBOOT = 2"
definition ELEMENT_COUNT :: u16 where [task_consts]: "ELEMENT_COUNT = 3"
definition ELEMENT_SENDPKT :: u16 where [task_consts]: "ELEMENT_SENDPKT = 4"
definition ELEMENT_ISSUE :: u16 where [task_consts]: "ELEMENT_ISSUE = 5"
definition ELEMENT_GET :: u16 where [task_consts]: "ELEMENT_GET = 6"
definition ELEMENT_ACTUATE :: u16 where [task_consts]: "ELEMENT_ACTUATE = 7"
definition ELEMENT_STORAGE :: u16 where [task_consts]: "ELEMENT_STORAGE = 8"
definition ELEMENT_COMPARISON :: u16 where [task_consts]: "ELEMENT_COMPARISON = 9"
definition ELEMENT_STATS :: u16 where [task_consts]: "ELEMENT_STATS = 10"
definition ELEMENT_ARITH :: u16 where [task_consts]: "ELEMENT_ARITH = 11"
definition ELEMENT_LOGICAL :: u16 where [task_consts]: "ELEMENT_LOGICAL = 12"
definition ELEMENT_BIT :: u16 where [task_consts]: "ELEMENT_BIT = 13"
definition ELEMENT_DELETEATTRIBUTEIF :: u16 where [task_consts]: "ELEMENT_DELETEATTRIBUTEIF = 14"
definition ELEMENT_DELETEACTIVETASKIF :: u16 where [task_consts]: "ELEMENT_DELETEACTIVETASKIF = 15"
definition ELEMENT_DELETETASKIF :: u16 where [task_consts]: "ELEMENT_DELETETASKIF = 16"
definition ELEMENT_PACK :: u16 where [task_consts]: "ELEMENT_PACK = 17"
definition ELEMENT_ATTRIBUTE :: u16 where [task_consts]: "ELEMENT_ATTRIBUTE = 18"
definition ELEMENT_SAMPLE :: u16 where [task_consts]: "ELEMENT_SAMPLE = 21"
definition ELEMENT_VOLTAGE :: u16 where [task_consts]: "ELEMENT_VOLTAGE = 22"
definition ELEMENT_SENDSTR :: u16 where [task_consts]: "ELEMENT_SENDSTR = 31"
definition ELEMENT_IMAGE :: u16 where [task_consts]: "ELEMENT_IMAGE = 32"
definition ELEMENT_USERBUTTON :: u16 where [task_consts]: "ELEMENT_USERBUTTON = 33"
definition ELEMENT_SAMPLERSSI :: u16 where [task_consts]: "ELEMENT_SAMPLERSSI = 34"
definition ELEMENT_MEMORYOP :: u16 where [task_consts]: "ELEMENT_MEMORYOP = 35"
definition ELEMENT_SAMPLEMDA400 :: u16 where [task_consts]: "ELEMENT_SAMPLEMDA400 = 37"
definition ELEMENT_ONSETDETECTOR :: u16 where [task_consts]: "ELEMENT_ONSETDETECTOR = 38"
definition ELEMENT_FASTSAMPLE :: u16 where [task_consts]: "ELEMENT_FASTSAMPLE = 39"
definition ELEMENT_SENDRCRT :: u16 where [task_consts]: "ELEMENT_SENDRCRT = 40"
definition ELEMENT_FIRLPFILTER :: u16 where [task_consts]: "ELEMENT_FIRLPFILTER = 41"
definition ELEMENT_SAMPLEMDA300 :: u16 where [task_consts]: "ELEMENT_SAMPLEMDA300 = 42"
definition ELEMENT_RLE :: u16 where [task_consts]: "ELEMENT_RLE = 43"
definition ELEMENT_PACKBITS :: u16 where [task_consts]: "ELEMENT_PACKBITS = 44"
definition ELEMENT_VECTOR :: u16 where [task_consts]: "ELEMENT_VECTOR = 45"
definition TASK_INSTALL :: u8 where [task_consts]: "TASK_INSTALL = 1"
definition TASK_DELETE :: u8 where [task_consts]: "TASK_DELETE = 3"
definition ARGTYPE_CONSTANT :: u8 where [task_consts]: "ARGTYPE_CONSTANT = 0"
definition ARGTYPE_ATTRIBUTE :: u8 where [task_consts]: "ARGTYPE_ATTRIBUTE = 1"
definition ACTUATE_LEDS :: u8 where [task_consts]: "ACTUATE_LEDS = 0"
definition ACTUATE_RADIO :: u8 where [task_consts]: "ACTUATE_RADIO = 1"
definition ACTUATE_SOUNDER :: u8 where [task_consts]: "ACTUATE_SOUNDER = 2"
definition ACTUATE_LEDS_TOGGLE :: u8 where [task_consts]: "ACTUATE_LEDS_TOGGLE = 3"
definition ACTUATE_ROUTE_RESET :: u8 where [task_consts]: "ACTUATE_ROUTE_RESET = 11"
definition ACTUATE_ROUTE_HOLD :: u8 where [task_consts]: "ACTUATE_ROUTE_HOLD = 12"
definition GET_ROUTING_PARENT :: u16 where [task_consts]: "GET_ROUTING_PARENT = 1"
definition GET_GLOBAL_TIME :: u16 where [task_consts]: "GET_GLOBAL_TIME = 2"
definition GET_LOCAL_TIME :: u16 where [task_consts]: "GET_LOCAL_TIME = 3"
definition GET_MEMORY_STATS :: u16 where [task_consts]: "GET_MEMORY_STATS = 4"
definition GET_NUM_TASKS :: u16 where [task_consts]: "GET_NUM_TASKS = 5"
definition GET_NUM_ACTIVE_TASKS :: u16 where [task_consts]: "GET_NUM_ACTIVE_TASKS = 6"
definition GET_ROUTING_CHILDREN :: u16 where [task_consts]: "GET_ROUTING_CHILDREN = 7"
definition GET_NEIGHBORS :: u16 where [task_consts]: "GET_NEIGHBORS = 8"
definition GET_LEDS :: u16 where [task_consts]: "GET_LEDS = 9"
definition GET_RF_POWER :: u16 where [task_consts]: "GET_RF_POWER = 10"
definition GET_RF_CHANNEL :: u16 where [task_consts]: "GET_RF_CHANNEL = 11"
definition GET_IS_TIMESYNC :: u16 where [task_consts]: "GET_IS_TIMESYNC = 12"
definition GET_TOS_LOCAL_ADDRESS :: u16 where [task_consts]: "GET_TOS_LOCAL_ADDRESS = 13"
definition GET_GLOBAL_TIME_MS :: u16 where [task_consts]: "GET_GLOBAL_TIME_MS = 14"
definition GET_LOCAL_TIME_MS :: u16 where [task_consts]: "GET_LOCAL_TIME_MS = 15"
definition GET_ROUTING_PARENT_LINKQUALITY :: u16 where [task_consts]: "GET_ROUTING_PARENT_LINKQUALITY = 16"
definition GET_PLATFORM :: u16 where [task_consts]: "GET_PLATFORM = 17"
definition GET_CLOCK_FREQ :: u16 where [task_consts]: "GET_CLOCK_FREQ = 18"
definition GET_ROUTING_MASTER :: u16 where [task_consts]: "GET_ROUTING_MASTER = 19"
definition GET_ROUTING_HOPCOUNT :: u16 where [task_consts]: "GET_ROUTING_HOPCOUNT = 20"
definition GET_ROUTING_PARENT_RSSI :: u16 where [task_consts]: "GET_ROUTING_PARENT_RSSI = 21"
definition A_ADD :: u8 where [task_consts]: "A_ADD = 1"
definition A_SUB :: u8 where [task_consts]: "A_SUB = 2"
definition A_MULT :: u8 where [task_consts]: "A_MULT = 3"
definition A_DIV :: u8 where [task_consts]: "A_DIV = 4"
definition A_DIFF :: u8 where [task_consts]: "A_DIFF = 5"
definition A_MOD :: u8 where [task_consts]: "A_MOD = 6"
definition A_POW :: u8 where [task_consts]: "A_POW = 7"
definition LT :: u8 where [task_consts]: "LT = 11"
definition GT :: u8 where [task_consts]: "GT = 12"
definition EQ :: u8 where [task_consts]: "EQ = 13"
definition LEQ :: u8 where [task_consts]: "LEQ = 14"
definition GEQ :: u8 where [task_consts]: "GEQ = 15"
definition NEQ :: u8 where [task_consts]: "NEQ = 16"
definition COUNT_LT :: u8 where [task_consts]: "COUNT_LT = 21"
definition COUNT_GT :: u8 where [task_consts]: "COUNT_GT = 22"
definition COUNT_EQ :: u8 where [task_consts]: "COUNT_EQ = 23"
definition COUNT_LEQ :: u8 where [task_consts]: "COUNT_LEQ = 24"
definition COUNT_GEQ :: u8 where [task_consts]: "COUNT_GEQ = 25"
definition COUNT_NEQ :: u8 where [task_consts]: "COUNT_NEQ = 26"
definition AND_op :: u8 where [task_consts]: "AND_op = 1"
definition OR_op :: u8 where [task_consts]: "OR_op = 2"
definition NOT_op :: u8 where [task_consts]: "NOT_op = 3"
definition XOR_op :: u8 where [task_consts]: "XOR_op = 4"
definition NAND_op :: u8 where [task_consts]: "NAND_op = 5"
definition NOR_op :: u8 where [task_consts]: "NOR_op = 6"
definition SHL :: u8 where [task_consts]: "SHL = 7"
definition SHR :: u8 where [task_consts]: "SHR = 8"
definition LAND :: u8 where [task_consts]: "LAND = 1"
definition LOR :: u8 where [task_consts]: "LOR = 2"
definition LNOT :: u8 where [task_consts]: "LNOT = 3"
definition EXIST :: u8 where [task_consts]: "EXIST = 1"
definition NOT_EXIST :: u8 where [task_consts]: "NOT_EXIST = 2"
definition LENGTH_op :: u8 where [task_consts]: "LENGTH_op = 3"
definition SUMM :: u16 where [task_consts]: "SUMM = 1"
definition MIN_op :: u16 where [task_consts]: "MIN_op = 2"
definition MAX_op :: u16 where [task_consts]: "MAX_op = 3"
definition AVG :: u16 where [task_consts]: "AVG = 4"
definition STD :: u16 where [task_consts]: "STD = 5"
definition CNT :: u16 where [task_consts]: "CNT = 6"
definition MEANDEV :: u16 where [task_consts]: "MEANDEV = 7"
definition TYPE_LEN_SZ :: u16 where [task_consts]: "TYPE_LEN_SZ = 4"
definition NEURON_GET_IMAGE :: u8 where [task_consts]: "NEURON_GET_IMAGE = 1"
definition NEURON_SNAP_ONLY :: u8 where [task_consts]: "NEURON_SNAP_ONLY = 2"
definition NEURON_DETECT_OBJECT :: u8 where [task_consts]: "NEURON_DETECT_OBJECT = 3"
definition NEURON_CONFIGURATION :: u8 where [task_consts]: "NEURON_CONFIGURATION = 4"
definition NEURON_ACTIVE_EYE :: u8 where [task_consts]: "NEURON_ACTIVE_EYE = 5"
definition NEURON_GET_RLE_IMAGE :: u8 where [task_consts]: "NEURON_GET_RLE_IMAGE = 6"
definition NEURON_GET_PACKBITS_IMAGE :: u8 where [task_consts]: "NEURON_GET_PACKBITS_IMAGE = 7"
definition NEURON_COPY_IMAGE :: u8 where [task_consts]: "NEURON_COPY_IMAGE = 8"
definition CONFIG_REBOOT :: u8 where [task_consts]: "CONFIG_REBOOT = 1"
definition DETECT_RUN_NEW_IMG :: u8 where [task_consts]: "DETECT_RUN_NEW_IMG = 1"
definition DETECT_RUN_OLD :: u8 where [task_consts]: "DETECT_RUN_OLD = 2"
definition DETECT_RESET_BACKGROUND :: u8 where [task_consts]: "DETECT_RESET_BACKGROUND = 3"
definition DETECT_SET_BACKGROUND :: u8 where [task_consts]: "DETECT_SET_BACKGROUND = 4"
definition DETECT_SET_PARAM :: u8 where [task_consts]: "DETECT_SET_PARAM = 5"
definition ACTIVE_EYE_GET_PARAMS :: int where [task_consts]: "ACTIVE_EYE_GET_PARAMS = 0"
definition ACTIVE_EYE_SET_PARAMS :: int where [task_consts]: "ACTIVE_EYE_SET_PARAMS = 1"
definition CYCLOPS_IMAGE_TYPE_Y :: u8 where [task_consts]: "CYCLOPS_IMAGE_TYPE_Y = 0x10"

end
