(* ===== verification/Task_Elements.thy ===== *)
theory Task_Elements
  imports Task_Consts
begin

text \<open>
  Model of src/master/tasklib/element_construct.c: the constructors that append one tasklet to a task packet.
  A tasklet is a type, a length and a packed struct (src/mote/lib/tenet_task.h,
  src/mote/lib/cyclops/cyclops_query.h), all in the byte order of the host; three newer ones are written
  through \<open>hxs\<close>. A struct is the list of its fields in the order of memory; a byte that the code leaves alone is
  a \<open>Gap\<close>. A constructor gets the buffer, the position and the number of tasklets so far, and returns
  the bytes it added with the new buffer and number, or \<open>None\<close> when it writes past the end of the buffer; a struct
  counts as written past it if any of its bytes, padding included, does not fit.
  The contents of memory from \<open>malloc\<close> are the argument \<open>mem\<close>. Debugging output is left out.
\<close>

named_theorems tp_defs \<open>constructors and functions of the parser\<close>

section \<open>Structs in a buffer\<close>

definition lo16 :: "u32 \<Rightarrow> u16" where
  "lo16 w = of_nat (unat w mod 65536)"

definition hi16 :: "u32 \<Rightarrow> u16" where
  "hi16 w = of_nat (unat w div 65536)"

datatype field = F8 u8 | F16 u16 | F32 u32 | FX16 u16 | Gap nat

text \<open>\<open>FX16\<close> is a 16-bit field written through \<open>hxs\<close>.\<close>

definition le16 :: "u16 \<Rightarrow> u8 option list" where
  "le16 w = [Some (lo8 w), Some (hi8 w)]"

fun field_bytes :: "field \<Rightarrow> u8 option list" where
  "field_bytes (F8 b) = [Some b]"
| "field_bytes (F16 w) = le16 w"
| "field_bytes (F32 w) = le16 (lo16 w) @ le16 (hi16 w)"
| "field_bytes (FX16 w) = [Some (hi8 w), Some (lo8 w)]"
| "field_bytes (Gap n) = replicate n None"

definition struct_bytes :: "field list \<Rightarrow> u8 option list" where
  "struct_bytes fs = concat (map field_bytes fs)"

fun put_bytes :: "bytes \<Rightarrow> nat \<Rightarrow> u8 option list \<Rightarrow> bytes" where
  "put_bytes buf i [] = buf"
| "put_bytes buf i (None # bs) = put_bytes buf (i + 1) bs"
| "put_bytes buf i (Some b # bs) = put_bytes (put8 buf i b) (i + 1) bs"

type_synonym construction = "(nat \<times> bytes \<times> int) option"

definition put_tlv :: "bytes \<Rightarrow> nat \<Rightarrow> int \<Rightarrow> field list \<Rightarrow> field list \<Rightarrow> construction" where
  "put_tlv buf len num_elements hdr fs =
    (let bs = struct_bytes (hdr @ fs)
     in if len + length bs > length buf then None
        else Some (length bs, put_bytes buf len bs, num_elements + 1))"

definition put_element :: "bytes \<Rightarrow> nat \<Rightarrow> int \<Rightarrow> u16 \<Rightarrow> field list \<Rightarrow> construction" where
  "put_element buf len num_elements ty fs =
    put_tlv buf len num_elements [F16 ty, F16 (of_nat (length (struct_bytes fs)))] fs"

definition put_element_nx :: "bytes \<Rightarrow> nat \<Rightarrow> int \<Rightarrow> u16 \<Rightarrow> field list \<Rightarrow> construction" where
  "put_element_nx buf len num_elements ty fs =
    put_tlv buf len num_elements [FX16 ty, FX16 (of_nat (length (struct_bytes fs)))] fs"

section \<open>Beginning and end of a packet\<close>

definition construct_init :: "bytes \<Rightarrow> (nat \<times> bytes) option" where
  "construct_init buf = (if length buf = 0 then None else Some (2, put8 buf 0 TASK_INSTALL))"

definition construct_finalize :: "bytes \<Rightarrow> int \<Rightarrow> (nat \<times> bytes) option" where
  "construct_finalize buf num_elements =
    (if length buf < 2 then None else Some (0, put8 buf 1 (word_of_int num_elements)))"

definition construct_delete :: "bytes \<Rightarrow> (nat \<times> bytes) option" where
  "construct_delete buf = (if length buf < 2 then None else Some (2, put8 (put8 buf 0 TASK_DELETE) 1 0))"

section \<open>Default tasklets\<close>

definition construct_issue :: "bytes \<Rightarrow> nat \<Rightarrow> int \<Rightarrow> u32 \<Rightarrow> u32 \<Rightarrow> u8 \<Rightarrow> construction" where [tp_defs]:
  "construct_issue buf len num_elements starttime period abst =
    put_element buf len num_elements ELEMENT_ISSUE [F32 starttime, F32 period, F8 abst, Gap 1]"

definition construct_count :: "bytes \<Rightarrow> nat \<Rightarrow> int \<Rightarrow> u16 \<Rightarrow> u16 \<Rightarrow> u16 \<Rightarrow> construction" where [tp_defs]:
  "construct_count buf len num_elements tag cnt rate =
    put_element buf len num_elements ELEMENT_COUNT [F16 cnt, F16 rate, F16 tag]"

definition construct_get :: "bytes \<Rightarrow> nat \<Rightarrow> int \<Rightarrow> u16 \<Rightarrow> u16 \<Rightarrow> construction" where [tp_defs]:
  "construct_get buf len num_elements tag val =
    put_element buf len num_elements ELEMENT_GET [F16 tag, F16 val]"

definition construct_actuate :: "bytes \<Rightarrow> nat \<Rightarrow> int \<Rightarrow> u8 \<Rightarrow> u8 \<Rightarrow> u16 \<Rightarrow> construction" where [tp_defs]:
  "construct_actuate buf len num_elements chan argtype arg1 =
    put_element buf len num_elements ELEMENT_ACTUATE [F8 chan, F8 argtype, F16 arg1]"

definition construct_reboot :: "bytes \<Rightarrow> nat \<Rightarrow> int \<Rightarrow> construction" where [tp_defs]:
  "construct_reboot buf len num_elements = put_element buf len num_elements ELEMENT_REBOOT []"

definition construct_logical :: "bytes \<Rightarrow> nat \<Rightarrow> int \<Rightarrow> u16 \<Rightarrow> u16 \<Rightarrow> u8 \<Rightarrow> u8 \<Rightarrow> u16 \<Rightarrow> construction" where [tp_defs]:
  "construct_logical buf len num_elements result tag optype argtype arg1 =
    put_element buf len num_elements ELEMENT_LOGICAL [F16 result, F16 tag, F8 optype, F8 argtype, F16 arg1]"

definition construct_bit :: "bytes \<Rightarrow> nat \<Rightarrow> int \<Rightarrow> u16 \<Rightarrow> u16 \<Rightarrow> u8 \<Rightarrow> u8 \<Rightarrow> u16 \<Rightarrow> construction" where [tp_defs]:
  "construct_bit buf len num_elements result tag optype argtype arg1 =
    put_element buf len num_elements ELEMENT_BIT [F16 result, F16 tag, F8 optype, F8 argtype, F16 arg1]"

definition construct_arith :: "bytes \<Rightarrow> nat \<Rightarrow> int \<Rightarrow> u16 \<Rightarrow> u16 \<Rightarrow> u8 \<Rightarrow> u8 \<Rightarrow> u16 \<Rightarrow> construction" where [tp_defs]:
  "construct_arith buf len num_elements result nAttr optype argtype arg =
    put_element buf len num_elements ELEMENT_ARITH [F16 result, F16 nAttr, F8 optype, F8 argtype, F16 arg]"

definition construct_comparison :: "bytes \<Rightarrow> nat \<Rightarrow> int \<Rightarrow> u16 \<Rightarrow> u16 \<Rightarrow> u8 \<Rightarrow> u8 \<Rightarrow> u16 \<Rightarrow> construction" where [tp_defs]:
  "construct_comparison buf len num_elements result nAttr optype argtype arg =
    put_element buf len num_elements ELEMENT_COMPARISON [F16 result, F16 nAttr, F8 optype, F8 argtype, F16 arg]"

definition construct_stats :: "bytes \<Rightarrow> nat \<Rightarrow> int \<Rightarrow> u16 \<Rightarrow> u16 \<Rightarrow> u16 \<Rightarrow> construction" where [tp_defs]:
  "construct_stats buf len num_elements result nAttr optype =
    put_element buf len num_elements ELEMENT_STATS [F16 result, F16 nAttr, F16 optype]"

definition construct_storage :: "bytes \<Rightarrow> nat \<Rightarrow> int \<Rightarrow> u16 \<Rightarrow> u16 \<Rightarrow> u8 \<Rightarrow> construction" where [tp_defs]:
  "construct_storage buf len num_elements tagIn tagOut store =
    put_element buf len num_elements ELEMENT_STORAGE [F16 tagIn, F16 tagOut, F8 store, F8 0]"

definition construct_pack :: "bytes \<Rightarrow> nat \<Rightarrow> int \<Rightarrow> u16 \<Rightarrow> u16 \<Rightarrow> u8 \<Rightarrow> construction" where [tp_defs]:
  "construct_pack buf len num_elements nAttr sz block =
    put_element buf len num_elements ELEMENT_PACK [F16 nAttr, F16 sz, F8 block, Gap 1]"

definition construct_attribute :: "bytes \<Rightarrow> nat \<Rightarrow> int \<Rightarrow> u16 \<Rightarrow> u16 \<Rightarrow> u8 \<Rightarrow> construction" where [tp_defs]:
  "construct_attribute buf len num_elements result nAttr optype =
    put_element buf len num_elements ELEMENT_ATTRIBUTE [F16 result, F16 nAttr, F8 optype, Gap 1]"

section \<open>Sending\<close>

definition construct_sendpkt :: "bytes \<Rightarrow> nat \<Rightarrow> int \<Rightarrow> u8 \<Rightarrow> construction" where [tp_defs]:
  "construct_sendpkt buf len num_elements e2e_ack =
    put_element buf len num_elements ELEMENT_SENDPKT [F8 e2e_ack, F8 0]"

definition construct_sendstr :: "bytes \<Rightarrow> nat \<Rightarrow> int \<Rightarrow> construction" where [tp_defs]:
  "construct_sendstr buf len num_elements = put_element buf len num_elements ELEMENT_SENDSTR []"

definition construct_sendrcrt :: "bytes \<Rightarrow> nat \<Rightarrow> int \<Rightarrow> u16 \<Rightarrow> construction" where [tp_defs]:
  "construct_sendrcrt buf len num_elements irate =
    put_element buf len num_elements ELEMENT_SENDRCRT [F16 irate]"

definition construct_send :: "bytes \<Rightarrow> nat \<Rightarrow> int \<Rightarrow> u16 \<Rightarrow> construction" where [tp_defs]:
  "construct_send buf len num_elements sendtype =
    (if sendtype = 2 then construct_sendstr buf len num_elements
     else if sendtype = 1 then construct_sendpkt buf len num_elements 1
     else if sendtype = 3 then construct_sendrcrt buf len num_elements 0
     else construct_sendpkt buf len num_elements 0)"

section \<open>Deletion\<close>

definition construct_deleteAttributeIf :: "bytes \<Rightarrow> nat \<Rightarrow> int \<Rightarrow> u16 \<Rightarrow> u8 \<Rightarrow> u16 \<Rightarrow> u8 \<Rightarrow> construction" where [tp_defs]:
  "construct_deleteAttributeIf buf len num_elements arg argtype tag deleteAll =
    put_element buf len num_elements ELEMENT_DELETEATTRIBUTEIF [F16 arg, F16 tag, F8 argtype, F8 deleteAll]"

definition construct_deleteActiveTaskIf :: "bytes \<Rightarrow> nat \<Rightarrow> int \<Rightarrow> u16 \<Rightarrow> u8 \<Rightarrow> construction" where [tp_defs]:
  "construct_deleteActiveTaskIf buf len num_elements arg argtype =
    put_element buf len num_elements ELEMENT_DELETEACTIVETASKIF [F16 arg, F8 argtype, F8 0]"

definition construct_deleteTaskIf :: "bytes \<Rightarrow> nat \<Rightarrow> int \<Rightarrow> u16 \<Rightarrow> u8 \<Rightarrow> construction" where [tp_defs]:
  "construct_deleteTaskIf buf len num_elements arg argtype =
    put_element buf len num_elements ELEMENT_DELETETASKIF [F16 arg, F8 argtype, F8 0]"

section \<open>Sampling and devices\<close>

definition construct_voltage :: "bytes \<Rightarrow> nat \<Rightarrow> int \<Rightarrow> u16 \<Rightarrow> construction" where [tp_defs]:
  "construct_voltage buf len num_elements out0 = put_element buf len num_elements ELEMENT_VOLTAGE [F16 out0]"

definition construct_sample :: "bytes \<Rightarrow> nat \<Rightarrow> int \<Rightarrow> u32 \<Rightarrow> u16 \<Rightarrow> u8 \<Rightarrow> u8 \<Rightarrow> u16 \<Rightarrow> construction" where [tp_defs]:
  "construct_sample buf len num_elements interval cnt rpt ch0 out0 =
    put_element buf len num_elements ELEMENT_SAMPLE [F32 interval, F16 cnt, F16 out0, F8 ch0, F8 rpt]"

text \<open>
  The rate is an enum, four bytes on the host. The fields \<open>repeat\<close> and \<open>pad\<close> are not written.
\<close>

definition construct_fastsample ::
    "bytes \<Rightarrow> nat \<Rightarrow> int \<Rightarrow> int \<Rightarrow> int \<Rightarrow> int \<Rightarrow> int \<Rightarrow> int \<Rightarrow> int \<Rightarrow> int \<Rightarrow> int \<Rightarrow> int \<Rightarrow> construction" where [tp_defs]:
  "construct_fastsample buf len num_elements rate cnt numChannels ch0 out0 ch1 out1 ch2 out2 =
    put_element buf len num_elements ELEMENT_FASTSAMPLE
      [F32 (word_of_int rate), F16 (word_of_int cnt), Gap 1, F8 (word_of_int numChannels), Gap 1,
       F8 (word_of_int ch0), F8 (word_of_int ch1), F8 (word_of_int ch2),
       F16 (word_of_int out0), F16 (word_of_int out1), F16 (word_of_int out2)]"

definition construct_user_button :: "bytes \<Rightarrow> nat \<Rightarrow> int \<Rightarrow> int \<Rightarrow> construction" where [tp_defs]:
  "construct_user_button buf len num_elements rpt =
    put_element buf len num_elements ELEMENT_USERBUTTON [F8 (word_of_int rpt), F8 0]"

definition construct_memoryop :: "bytes \<Rightarrow> nat \<Rightarrow> int \<Rightarrow> int \<Rightarrow> int \<Rightarrow> int \<Rightarrow> int \<Rightarrow> construction" where [tp_defs]:
  "construct_memoryop buf len num_elements addr val op ty =
    put_element buf len num_elements ELEMENT_MEMORYOP
      [F16 (word_of_int addr), F8 (word_of_int val), F8 (word_of_int op), F16 (word_of_int ty)]"

definition construct_mda400 ::
    "bytes \<Rightarrow> nat \<Rightarrow> int \<Rightarrow> u16 \<Rightarrow> u16 \<Rightarrow> u16 \<Rightarrow> u16 \<Rightarrow> u16 \<Rightarrow> u16 \<Rightarrow> u8 \<Rightarrow> u8 \<Rightarrow> construction" where [tp_defs]:
  "construct_mda400 buf len num_elements us_sample_interval num_kilo_samples tag_x tag_y tag_z tag_time
      channel_select samples_per_buffer =
    put_element buf len num_elements ELEMENT_SAMPLEMDA400
      [F16 us_sample_interval, F16 num_kilo_samples, F16 tag_x, F16 tag_y, F16 tag_z, F16 tag_time,
       F8 channel_select, F8 samples_per_buffer]"

definition construct_mda300 :: "bytes \<Rightarrow> nat \<Rightarrow> int \<Rightarrow> u8 \<Rightarrow> u8 \<Rightarrow> u16 \<Rightarrow> u8 \<Rightarrow> construction" where [tp_defs]:
  "construct_mda300 buf len num_elements channel channelType outName param =
    put_element buf len num_elements ELEMENT_SAMPLEMDA300 [F8 channel, F8 channelType, F16 outName, F8 param]"

definition construct_onset_detector ::
    "bytes \<Rightarrow> nat \<Rightarrow> int \<Rightarrow> u8 \<Rightarrow> u8 \<Rightarrow> u16 \<Rightarrow> u16 \<Rightarrow> u16 \<Rightarrow> u16 \<Rightarrow> u8 \<Rightarrow> construction" where [tp_defs]:
  "construct_onset_detector buf len num_elements noiseThresh signalThresh startDelay tag_in tag_out tag_info
      adaptiveMean =
    put_element buf len num_elements ELEMENT_ONSETDETECTOR
      [F8 noiseThresh, F8 signalThresh, F16 startDelay, F16 tag_in, F16 tag_out, F16 tag_info,
       F8 adaptiveMean, Gap 1]"

definition construct_sample_rssi :: "bytes \<Rightarrow> nat \<Rightarrow> int \<Rightarrow> u16 \<Rightarrow> construction" where [tp_defs]:
  "construct_sample_rssi buf len num_elements tag = put_element buf len num_elements ELEMENT_SAMPLERSSI [F16 tag]"

definition construct_firlpfilter :: "bytes \<Rightarrow> nat \<Rightarrow> int \<Rightarrow> u16 \<Rightarrow> u16 \<Rightarrow> construction" where [tp_defs]:
  "construct_firlpfilter buf len num_elements tag_in tag_out =
    put_element buf len num_elements ELEMENT_FIRLPFILTER [F16 tag_in, F16 tag_out]"

section \<open>Images\<close>

text \<open>The query of the camera is memory of its own, copied behind the header of the tasklet.\<close>

definition construct_cyclops :: "bytes \<Rightarrow> nat \<Rightarrow> int \<Rightarrow> u8 \<Rightarrow> u8 \<Rightarrow> bytes \<Rightarrow> u16 \<Rightarrow> construction" where [tp_defs]:
  "construct_cyclops buf len num_elements nModule datalen slaveQuery out0 =
    put_element buf len num_elements ELEMENT_IMAGE
      ([F16 out0, F8 nModule, F8 datalen] @ map F8 (take (unat datalen) slaveQuery))"

text \<open>The memory of a query of \<open>n\<close> bytes after its fields are written.\<close>

definition query :: "(nat \<Rightarrow> u8) \<Rightarrow> field list \<Rightarrow> bytes" where
  "query mem fs = put_bytes (map mem [0..<length (struct_bytes fs)]) 0 (struct_bytes fs)"

definition send_query ::
    "bytes \<Rightarrow> nat \<Rightarrow> int \<Rightarrow> (nat \<Rightarrow> u8) \<Rightarrow> u8 \<Rightarrow> field list \<Rightarrow> u16 \<Rightarrow> construction" where
  "send_query buf len num_elements mem nModule fs out0 =
    construct_cyclops buf len num_elements nModule (of_nat (length (struct_bytes fs))) (query mem fs) out0"

definition construct_image_snap ::
    "bytes \<Rightarrow> nat \<Rightarrow> int \<Rightarrow> (nat \<Rightarrow> u8) \<Rightarrow> u8 \<Rightarrow> u8 \<Rightarrow> u8 \<Rightarrow> u8 \<Rightarrow> u16 \<Rightarrow> construction" where [tp_defs]:
  "construct_image_snap buf len num_elements mem flash imgtype xsize ysize out0 =
    send_query buf len num_elements mem NEURON_SNAP_ONLY [F8 flash, F8 imgtype, F8 xsize, F8 ysize] out0"

definition construct_image_get ::
    "bytes \<Rightarrow> nat \<Rightarrow> int \<Rightarrow> (nat \<Rightarrow> u8) \<Rightarrow> u8 \<Rightarrow> u8 \<Rightarrow> u16 \<Rightarrow> u8 \<Rightarrow> u8 \<Rightarrow> u8 \<Rightarrow> u8 \<Rightarrow> u16 \<Rightarrow> construction" where [tp_defs]:
  "construct_image_get buf len num_elements mem imageAddr fragsize reportRate flash imgtype xsize ysize out0 =
    send_query buf len num_elements mem NEURON_GET_IMAGE
      [F8 imageAddr, F8 fragsize, F16 reportRate, F8 flash, F8 imgtype, F8 xsize, F8 ysize] out0"

text \<open>The parameters of the detection are not written here.\<close>

definition construct_image_detect ::
    "bytes \<Rightarrow> nat \<Rightarrow> int \<Rightarrow> (nat \<Rightarrow> u8) \<Rightarrow> u8 \<Rightarrow> u8 \<Rightarrow> u8 \<Rightarrow> u8 \<Rightarrow> u16 \<Rightarrow> construction" where [tp_defs]:
  "construct_image_detect buf len num_elements mem ty use_segment enableFlash ImgRes out0 =
    send_query buf len num_elements mem NEURON_DETECT_OBJECT
      [F8 ty, F8 use_segment, F8 enableFlash, F8 CYCLOPS_IMAGE_TYPE_Y, F8 ImgRes, F8 ImgRes, Gap 6] out0"

definition construct_image_detect_params ::
    "bytes \<Rightarrow> nat \<Rightarrow> int \<Rightarrow> (nat \<Rightarrow> u8) \<Rightarrow> u8 \<Rightarrow> u8 \<Rightarrow> u8 \<Rightarrow> u8 \<Rightarrow> u8 \<Rightarrow> u8 \<Rightarrow> construction" where [tp_defs]:
  "construct_image_detect_params buf len num_elements mem ImgRes RACoeff skip illCoeff rng detectThresh =
    send_query buf len num_elements mem NEURON_DETECT_OBJECT
      [F8 DETECT_SET_PARAM, F8 0, F8 0, F8 CYCLOPS_IMAGE_TYPE_Y, F8 ImgRes, F8 ImgRes,
       F8 RACoeff, F8 skip, F8 illCoeff, F8 rng, F8 detectThresh, F8 0] 0"

definition construct_image_capture_params ::
    "bytes \<Rightarrow> nat \<Rightarrow> int \<Rightarrow> (nat \<Rightarrow> u8) \<Rightarrow> int \<Rightarrow> u16 \<Rightarrow> u16 \<Rightarrow> u16 \<Rightarrow> u16 \<Rightarrow> u8 \<Rightarrow> u16 \<Rightarrow> u8 \<Rightarrow> u8 \<Rightarrow> u8 \<Rightarrow> u16 \<Rightarrow> u16 \<Rightarrow> u16
      \<Rightarrow> u16 \<Rightarrow> u16 \<Rightarrow> construction" where [tp_defs]:
  "construct_image_capture_params buf len num_elements mem ty offsetx offsety inputx inputy testmode exposure
      a_red a_green a_blue d_red d_green d_blue runtime out0 =
    send_query buf len num_elements mem NEURON_ACTIVE_EYE
      (if ty = ACTIVE_EYE_SET_PARAMS then
         [F8 (word_of_int ACTIVE_EYE_SET_PARAMS), F8 0, F16 offsetx, F16 offsety, F16 inputx, F16 inputy, F16 exposure,
          F8 testmode, F8 a_red, F8 a_green, F8 a_blue, F16 d_red, F16 d_green, F16 d_blue, F16 runtime]
       else [F8 (word_of_int ACTIVE_EYE_GET_PARAMS), F8 0]) out0"

definition construct_image_reboot :: "bytes \<Rightarrow> nat \<Rightarrow> int \<Rightarrow> (nat \<Rightarrow> u8) \<Rightarrow> construction" where [tp_defs]:
  "construct_image_reboot buf len num_elements mem =
    send_query buf len num_elements mem NEURON_CONFIGURATION [F8 CONFIG_REBOOT, Gap 1] 0"

definition construct_image_getRle ::
    "bytes \<Rightarrow> nat \<Rightarrow> int \<Rightarrow> (nat \<Rightarrow> u8) \<Rightarrow> u8 \<Rightarrow> u8 \<Rightarrow> u16 \<Rightarrow> u8 \<Rightarrow> u8 \<Rightarrow> u8 \<Rightarrow> u8 \<Rightarrow> u8 \<Rightarrow> u16 \<Rightarrow> construction" where [tp_defs]:
  "construct_image_getRle buf len num_elements mem imageAddr fragsize reportRate flash imgtype xsize ysize
      threshold out0 =
    send_query buf len num_elements mem NEURON_GET_RLE_IMAGE
      [F8 imageAddr, F8 fragsize, F16 reportRate, F8 threshold, Gap 1, F8 flash, F8 imgtype, F8 xsize, F8 ysize] out0"

definition construct_image_getPackBits ::
    "bytes \<Rightarrow> nat \<Rightarrow> int \<Rightarrow> (nat \<Rightarrow> u8) \<Rightarrow> u8 \<Rightarrow> u8 \<Rightarrow> u16 \<Rightarrow> u8 \<Rightarrow> u8 \<Rightarrow> u8 \<Rightarrow> u8 \<Rightarrow> u8 \<Rightarrow> u16 \<Rightarrow> construction" where [tp_defs]:
  "construct_image_getPackBits buf len num_elements mem imageAddr fragsize reportRate flash imgtype xsize ysize
      threshold out0 =
    send_query buf len num_elements mem NEURON_GET_PACKBITS_IMAGE
      [F8 imageAddr, F8 fragsize, F16 reportRate, F8 threshold, Gap 1, F8 flash, F8 imgtype, F8 xsize, F8 ysize] out0"

definition construct_image_copy ::
    "bytes \<Rightarrow> nat \<Rightarrow> int \<Rightarrow> (nat \<Rightarrow> u8) \<Rightarrow> u8 \<Rightarrow> u8 \<Rightarrow> u8 \<Rightarrow> u8 \<Rightarrow> u8 \<Rightarrow> u8 \<Rightarrow> construction" where [tp_defs]:
  "construct_image_copy buf len num_elements mem fromImageAddr toImageAddr flash imgtype xsize ysize =
    send_query buf len num_elements mem NEURON_COPY_IMAGE
      [F8 fromImageAddr, F8 toImageAddr, F8 flash, F8 imgtype, F8 xsize, F8 ysize] 0"

section \<open>Tasklets written in network byte order\<close>

definition construct_rle :: "bytes \<Rightarrow> nat \<Rightarrow> int \<Rightarrow> u16 \<Rightarrow> u16 \<Rightarrow> u16 \<Rightarrow> construction" where [tp_defs]:
  "construct_rle buf len num_elements result arg thresh =
    put_element_nx buf len num_elements ELEMENT_RLE [FX16 result, FX16 arg, FX16 thresh]"

definition construct_packbits :: "bytes \<Rightarrow> nat \<Rightarrow> int \<Rightarrow> u16 \<Rightarrow> u16 \<Rightarrow> u16 \<Rightarrow> construction" where [tp_defs]:
  "construct_packbits buf len num_elements result arg thresh =
    put_element_nx buf len num_elements ELEMENT_PACKBITS [FX16 result, FX16 arg, FX16 thresh]"

definition construct_vector :: "bytes \<Rightarrow> nat \<Rightarrow> int \<Rightarrow> u16 \<Rightarrow> u16 \<Rightarrow> u16 \<Rightarrow> construction" where [tp_defs]:
  "construct_vector buf len num_elements result vlength pattern =
    put_element_nx buf len num_elements ELEMENT_VECTOR [FX16 vlength, FX16 pattern, FX16 result]"

end
