(* ===== verification/Task_Parser.thy ===== *)
theory Task_Parser
  imports Task_Elements
begin

text \<open>
  Model of src/master/tasklib/tp.c: the task parser that turns a task description into a task packet.
  The globals are the record \<open>tp_state\<close>; \<open>tp_mem\<close> is what \<open>malloc\<close> returns. \<open>exit(1)\<close> and a write past the end of the
  packet buffer are the two failures. \<open>yyparse\<close> and \<open>yylex\<close> are generated; what they do to this code are the
  calls in the actions of src/master/tasklib/parser.y, so a description enters as the list of these calls
  and whether \<open>yyerror\<close> was called. The messages and usages printed are left out.
\<close>

record tp_state =
  tp_packetbuf :: bytes
  tp_length :: nat
  tp_num_elements :: int
  tp_args :: "int list"
  tp_argpos :: int
  tp_is_constant :: bool
  tp_byteString :: "string list"
  tp_arg_byteString :: int
  tp_mem :: "nat \<Rightarrow> u8"

datatype tp_failure = TP_EXIT | TP_UNDEFINED

type_synonym tp_result = "tp_failure + tp_state"

definition TP_MAX_ARGS :: nat where [task_consts]: "TP_MAX_ARGS = 20"
definition TP_MAX_TASKLEN :: nat where [task_consts]: "TP_MAX_TASKLEN = 300"

text \<open>An argument, converted to the type of the parameter it is passed to.\<close>

definition arg :: "tp_state \<Rightarrow> nat \<Rightarrow> 'a::len word" where
  "arg s i = word_of_int (tp_args s ! i)"

definition argtype :: "tp_state \<Rightarrow> u8" where
  "argtype s = (if tp_is_constant s then ARGTYPE_CONSTANT else ARGTYPE_ATTRIBUTE)"

text \<open>Every function below ends by adding what a constructor wrote, most after the same test of the arguments.\<close>

definition tp_emit :: "tp_state \<Rightarrow> (bytes \<Rightarrow> nat \<Rightarrow> int \<Rightarrow> construction) \<Rightarrow> tp_result" where
  "tp_emit s f =
    (case f (tp_packetbuf s) (tp_length s) (tp_num_elements s) of
       None \<Rightarrow> Inl TP_UNDEFINED
     | Some (l, b, n) \<Rightarrow> Inr (s\<lparr>tp_packetbuf := b, tp_length := tp_length s + l, tp_num_elements := n\<rparr>))"

definition with_args :: "int \<Rightarrow> tp_state \<Rightarrow> (bytes \<Rightarrow> nat \<Rightarrow> int \<Rightarrow> construction) \<Rightarrow> tp_result" where
  "with_args k s f = (if tp_argpos s + 1 \<noteq> k then Inl TP_EXIT else tp_emit s f)"

section \<open>Arguments\<close>

definition tp_init_args :: "tp_state \<Rightarrow> tp_state" where
  "tp_init_args s = s\<lparr>tp_args := replicate TP_MAX_ARGS 0, tp_argpos := -1, tp_is_constant := False,
     tp_arg_byteString := 0\<rparr>"

definition tp_add_arg :: "int \<Rightarrow> tp_state \<Rightarrow> tp_result" where
  "tp_add_arg num s =
    (let p = tp_argpos s + 1
     in if p \<ge> int TP_MAX_ARGS then Inl TP_EXIT
        else Inr (s\<lparr>tp_argpos := p, tp_args := (tp_args s)[nat p := num]\<rparr>))"

definition tp_add_byteString :: "string \<Rightarrow> tp_state \<Rightarrow> tp_result" where
  "tp_add_byteString str s =
    (if tp_arg_byteString s + 1 \<ge> int TP_MAX_ARGS then Inl TP_EXIT
     else Inr (s\<lparr>tp_byteString := (tp_byteString s)[nat (tp_arg_byteString s) := str],
                 tp_arg_byteString := tp_arg_byteString s + 1\<rparr>))"

definition tp_set_constant :: "tp_state \<Rightarrow> tp_state" where
  "tp_set_constant s = s\<lparr>tp_is_constant := True\<rparr>"

definition tp_process_init :: "tp_state \<Rightarrow> tp_result" where
  "tp_process_init s =
    (if tp_argpos s + 1 \<noteq> 0 then Inl TP_EXIT
     else (case construct_init (tp_packetbuf s) of
             None \<Rightarrow> Inl TP_UNDEFINED
           | Some (l, b) \<Rightarrow> Inr (s\<lparr>tp_packetbuf := b, tp_length := tp_length s + l\<rparr>)))"

definition tp_process_finalize :: "tp_state \<Rightarrow> tp_result" where
  "tp_process_finalize s =
    (if tp_argpos s + 1 \<noteq> 0 then Inl TP_EXIT
     else (case construct_finalize (tp_packetbuf s) (tp_num_elements s) of
             None \<Rightarrow> Inl TP_UNDEFINED
           | Some (l, b) \<Rightarrow> Inr (s\<lparr>tp_packetbuf := b, tp_length := tp_length s + l\<rparr>)))"

section \<open>Issue\<close>

definition tp_process_issue :: "tp_state \<Rightarrow> tp_result" where [tp_defs]:
  "tp_process_issue s = with_args 3 s (\<lambda>b l n. construct_issue b l n (arg s 0) (arg s 1) (arg s 2))"

definition tp_process_repeat :: "tp_state \<Rightarrow> tp_result" where [tp_defs]:
  "tp_process_repeat s = with_args 1 s (\<lambda>b l n. let period = arg s 0 in construct_issue b l n period period 0)"

definition tp_process_wait :: "tp_state \<Rightarrow> tp_result" where [tp_defs]:
  "tp_process_wait s =
    (if tp_argpos s + 1 = 1 then tp_emit s (\<lambda>b l n. construct_issue b l n (arg s 0) 0 0)
     else if tp_argpos s + 1 = 2 then
       (let period = (if tp_args s ! 1 = 1 then arg s 0 else 0)
        in tp_emit s (\<lambda>b l n. construct_issue b l n (arg s 0) period 0))
     else Inl TP_EXIT)"

definition tp_process_wait_n_repeat :: "tp_state \<Rightarrow> tp_result" where [tp_defs]:
  "tp_process_wait_n_repeat s = with_args 2 s (\<lambda>b l n. construct_issue b l n (arg s 0) (arg s 1) 0)"

definition tp_process_alarm :: "tp_state \<Rightarrow> tp_result" where [tp_defs]:
  "tp_process_alarm s = with_args 1 s (\<lambda>b l n. construct_issue b l n (arg s 0) 0 1)"

definition tp_process_globalrepeat :: "tp_state \<Rightarrow> tp_result" where [tp_defs]:
  "tp_process_globalrepeat s = with_args 2 s (\<lambda>b l n. construct_issue b l n (arg s 0) (arg s 1) 1)"

section \<open>Storage\<close>

definition tp_process_storage :: "tp_state \<Rightarrow> tp_result" where [tp_defs]:
  "tp_process_storage s = with_args 3 s (\<lambda>b l n. construct_storage b l n (arg s 0) (arg s 1) (arg s 2))"

definition tp_process_store :: "tp_state \<Rightarrow> tp_result" where [tp_defs]:
  "tp_process_store s =
    (if tp_argpos s + 1 = 2 then tp_emit s (\<lambda>b l n. construct_storage b l n (arg s 0) (arg s 1) 1)
     else if tp_argpos s + 1 = 1 then tp_emit s (\<lambda>b l n. construct_storage b l n (arg s 0) (arg s 0) 1)
     else Inl TP_EXIT)"

definition tp_process_retrieve :: "tp_state \<Rightarrow> tp_result" where [tp_defs]:
  "tp_process_retrieve s =
    (if tp_argpos s + 1 = 2 then tp_emit s (\<lambda>b l n. construct_storage b l n (arg s 0) (arg s 1) 0)
     else if tp_argpos s + 1 = 1 then tp_emit s (\<lambda>b l n. construct_storage b l n (arg s 0) (arg s 0) 0)
     else Inl TP_EXIT)"

section \<open>Count\<close>

text \<open>The defaults that the code computes for the one-argument form are not what it passes on.\<close>

definition tp_process_count :: "tp_state \<Rightarrow> tp_result" where [tp_defs]:
  "tp_process_count s =
    (if tp_argpos s + 1 = 1 \<or> tp_argpos s + 1 = 3
     then tp_emit s (\<lambda>b l n. construct_count b l n (arg s 0) (arg s 1) (arg s 2))
     else Inl TP_EXIT)"

definition tp_process_constant :: "tp_state \<Rightarrow> tp_result" where [tp_defs]:
  "tp_process_constant s = with_args 2 s (\<lambda>b l n. construct_count b l n (arg s 0) (arg s 1) 0)"

section \<open>Actuate\<close>

definition tp_process_actuate :: "tp_state \<Rightarrow> tp_result" where [tp_defs]:
  "tp_process_actuate s = with_args 2 s (\<lambda>b l n. construct_actuate b l n
      (arg s 0) (argtype s) (arg s 1))"

definition tp_process_set_leds :: "tp_state \<Rightarrow> tp_result" where [tp_defs]:
  "tp_process_set_leds s = with_args 1 s (\<lambda>b l n. construct_actuate b l n
      ACTUATE_LEDS (argtype s) (arg s 0))"

definition tp_process_toggle_leds :: "tp_state \<Rightarrow> tp_result" where [tp_defs]:
  "tp_process_toggle_leds s = with_args 1 s (\<lambda>b l n. construct_actuate b l n
      ACTUATE_LEDS_TOGGLE (argtype s) (arg s 0))"

definition tp_process_leds0toggle :: "tp_state \<Rightarrow> tp_result" where [tp_defs]:
  "tp_process_leds0toggle s =
    tp_process_toggle_leds (s\<lparr>tp_is_constant := True, tp_argpos := 0, tp_args :=
      (tp_args s)[0 := 1]\<rparr>)"

definition tp_process_leds1toggle :: "tp_state \<Rightarrow> tp_result" where [tp_defs]:
  "tp_process_leds1toggle s =
    tp_process_toggle_leds (s\<lparr>tp_is_constant := True, tp_argpos := 0, tp_args :=
      (tp_args s)[0 := 2]\<rparr>)"

definition tp_process_leds2toggle :: "tp_state \<Rightarrow> tp_result" where [tp_defs]:
  "tp_process_leds2toggle s =
    tp_process_toggle_leds (s\<lparr>tp_is_constant := True, tp_argpos := 0, tp_args :=
      (tp_args s)[0 := 4]\<rparr>)"

definition tp_process_set_rfpower :: "tp_state \<Rightarrow> tp_result" where [tp_defs]:
  "tp_process_set_rfpower s = with_args 1 s (\<lambda>b l n. construct_actuate b l n
      ACTUATE_RADIO (argtype s) (arg s 0))"

definition tp_process_sounder :: "tp_state \<Rightarrow> tp_result" where [tp_defs]:
  "tp_process_sounder s = with_args 1 s (\<lambda>b l n. construct_actuate b l n
      ACTUATE_SOUNDER (argtype s) (arg s 0))"

definition tp_process_reset_parent :: "tp_state \<Rightarrow> tp_result" where [tp_defs]:
  "tp_process_reset_parent s = with_args 0 s (\<lambda>b l n. construct_actuate b l n ACTUATE_ROUTE_RESET 0 0)"

definition tp_process_hold_parent :: "tp_state \<Rightarrow> tp_result" where [tp_defs]:
  "tp_process_hold_parent s = with_args 0 s (\<lambda>b l n. construct_actuate b l n ACTUATE_ROUTE_HOLD 0 0)"

section \<open>Logical operations\<close>

definition tp_process_logical :: "tp_state \<Rightarrow> tp_result" where [tp_defs]:
  "tp_process_logical s = with_args 4 s (\<lambda>b l n. construct_logical b l n
      (arg s 0) (arg s 1) (arg s 2) (argtype s) (arg s 3))"

definition tp_process_logical_and :: "tp_state \<Rightarrow> tp_result" where [tp_defs]:
  "tp_process_logical_and s = with_args 3 s (\<lambda>b l n. construct_logical b l n
      (arg s 0) (arg s 1) LAND (argtype s) (arg s 2))"

definition tp_process_logical_or :: "tp_state \<Rightarrow> tp_result" where [tp_defs]:
  "tp_process_logical_or s = with_args 3 s (\<lambda>b l n. construct_logical b l n
      (arg s 0) (arg s 1) LOR (argtype s) (arg s 2))"

definition tp_process_logical_not :: "tp_state \<Rightarrow> tp_result" where [tp_defs]:
  "tp_process_logical_not s = with_args 2 s (\<lambda>b l n. construct_logical b l n
      (arg s 0) (arg s 1) LNOT (argtype s) 1)"

section \<open>Operations on bits\<close>

definition tp_process_bit :: "tp_state \<Rightarrow> tp_result" where [tp_defs]:
  "tp_process_bit s = with_args 4 s (\<lambda>b l n. construct_bit b l n
      (arg s 0) (arg s 1) (arg s 2) (argtype s) (arg s 3))"

definition tp_process_bit_and :: "tp_state \<Rightarrow> tp_result" where [tp_defs]:
  "tp_process_bit_and s = with_args 3 s (\<lambda>b l n. construct_bit b l n
      (arg s 0) (arg s 1) AND_op (argtype s) (arg s 2))"

definition tp_process_bit_or :: "tp_state \<Rightarrow> tp_result" where [tp_defs]:
  "tp_process_bit_or s = with_args 3 s (\<lambda>b l n. construct_bit b l n
      (arg s 0) (arg s 1) OR_op (argtype s) (arg s 2))"

definition tp_process_bit_not :: "tp_state \<Rightarrow> tp_result" where [tp_defs]:
  "tp_process_bit_not s = with_args 2 s (\<lambda>b l n. construct_bit b l n
      (arg s 0) (arg s 1) NOT_op (argtype s) 1)"

definition tp_process_bit_xor :: "tp_state \<Rightarrow> tp_result" where [tp_defs]:
  "tp_process_bit_xor s = with_args 3 s (\<lambda>b l n. construct_bit b l n
      (arg s 0) (arg s 1) XOR_op (argtype s) (arg s 2))"

definition tp_process_bit_nand :: "tp_state \<Rightarrow> tp_result" where [tp_defs]:
  "tp_process_bit_nand s = with_args 3 s (\<lambda>b l n. construct_bit b l n
      (arg s 0) (arg s 1) NAND_op (argtype s) (arg s 2))"

definition tp_process_bit_nor :: "tp_state \<Rightarrow> tp_result" where [tp_defs]:
  "tp_process_bit_nor s = with_args 3 s (\<lambda>b l n. construct_bit b l n
      (arg s 0) (arg s 1) NOR_op (argtype s) (arg s 2))"

definition tp_process_shiftleft :: "tp_state \<Rightarrow> tp_result" where [tp_defs]:
  "tp_process_shiftleft s = with_args 3 s (\<lambda>b l n. construct_bit b l n
      (arg s 0) (arg s 1) SHL (argtype s) (arg s 2))"

definition tp_process_shiftright :: "tp_state \<Rightarrow> tp_result" where [tp_defs]:
  "tp_process_shiftright s = with_args 3 s (\<lambda>b l n. construct_bit b l n
      (arg s 0) (arg s 1) SHR (argtype s) (arg s 2))"

section \<open>Arithmetic\<close>

definition tp_process_arith :: "tp_state \<Rightarrow> tp_result" where [tp_defs]:
  "tp_process_arith s = with_args 4 s (\<lambda>b l n. construct_arith b l n
      (arg s 0) (arg s 1) (arg s 2) (argtype s) (arg s 3))"

definition tp_process_add :: "tp_state \<Rightarrow> tp_result" where [tp_defs]:
  "tp_process_add s = with_args 3 s (\<lambda>b l n. construct_arith b l n
      (arg s 0) (arg s 1) A_ADD (argtype s) (arg s 2))"

definition tp_process_sub :: "tp_state \<Rightarrow> tp_result" where [tp_defs]:
  "tp_process_sub s = with_args 3 s (\<lambda>b l n. construct_arith b l n
      (arg s 0) (arg s 1) A_SUB (argtype s) (arg s 2))"

definition tp_process_mult :: "tp_state \<Rightarrow> tp_result" where [tp_defs]:
  "tp_process_mult s = with_args 3 s (\<lambda>b l n. construct_arith b l n
      (arg s 0) (arg s 1) A_MULT (argtype s) (arg s 2))"

definition tp_process_div :: "tp_state \<Rightarrow> tp_result" where [tp_defs]:
  "tp_process_div s = with_args 3 s (\<lambda>b l n. construct_arith b l n
      (arg s 0) (arg s 1) A_DIV (argtype s) (arg s 2))"

definition tp_process_diff :: "tp_state \<Rightarrow> tp_result" where [tp_defs]:
  "tp_process_diff s = with_args 3 s (\<lambda>b l n. construct_arith b l n
      (arg s 0) (arg s 1) A_DIFF (argtype s) (arg s 2))"

definition tp_process_mod :: "tp_state \<Rightarrow> tp_result" where [tp_defs]:
  "tp_process_mod s = with_args 3 s (\<lambda>b l n. construct_arith b l n
      (arg s 0) (arg s 1) A_MOD (argtype s) (arg s 2))"

definition tp_process_pow :: "tp_state \<Rightarrow> tp_result" where [tp_defs]:
  "tp_process_pow s = with_args 3 s (\<lambda>b l n. construct_arith b l n
      (arg s 0) (arg s 1) A_POW (argtype s) (arg s 2))"

section \<open>Get\<close>

definition tp_process_get :: "tp_state \<Rightarrow> tp_result" where [tp_defs]:
  "tp_process_get s = with_args 2 s (\<lambda>b l n. construct_get b l n (arg s 0) (arg s 1))"

definition tp_process_nexthop :: "tp_state \<Rightarrow> tp_result" where [tp_defs]:
  "tp_process_nexthop s = with_args 1 s (\<lambda>b l n. construct_get b l n (arg s 0) GET_ROUTING_PARENT)"

definition tp_process_neighbors :: "tp_state \<Rightarrow> tp_result" where [tp_defs]:
  "tp_process_neighbors s = with_args 1 s (\<lambda>b l n. construct_get b l n (arg s 0) GET_NEIGHBORS)"

definition tp_process_children :: "tp_state \<Rightarrow> tp_result" where [tp_defs]:
  "tp_process_children s = with_args 1 s (\<lambda>b l n. construct_get b l n (arg s 0) GET_ROUTING_CHILDREN)"

definition tp_process_globaltime :: "tp_state \<Rightarrow> tp_result" where [tp_defs]:
  "tp_process_globaltime s = with_args 1 s (\<lambda>b l n. construct_get b l n (arg s 0) GET_GLOBAL_TIME)"

definition tp_process_globaltime_ms :: "tp_state \<Rightarrow> tp_result" where [tp_defs]:
  "tp_process_globaltime_ms s = with_args 1 s (\<lambda>b l n. construct_get b l n
      (arg s 0) GET_GLOBAL_TIME_MS)"

definition tp_process_localtime :: "tp_state \<Rightarrow> tp_result" where [tp_defs]:
  "tp_process_localtime s = with_args 1 s (\<lambda>b l n. construct_get b l n (arg s 0) GET_LOCAL_TIME)"

definition tp_process_localtime_ms :: "tp_state \<Rightarrow> tp_result" where [tp_defs]:
  "tp_process_localtime_ms s = with_args 1 s (\<lambda>b l n. construct_get b l n (arg s 0) GET_LOCAL_TIME_MS)"

definition tp_process_rfpower :: "tp_state \<Rightarrow> tp_result" where [tp_defs]:
  "tp_process_rfpower s = with_args 1 s (\<lambda>b l n. construct_get b l n (arg s 0) GET_RF_POWER)"

definition tp_process_rfchannel :: "tp_state \<Rightarrow> tp_result" where [tp_defs]:
  "tp_process_rfchannel s = with_args 1 s (\<lambda>b l n. construct_get b l n (arg s 0) GET_RF_CHANNEL)"

definition tp_process_leds :: "tp_state \<Rightarrow> tp_result" where [tp_defs]:
  "tp_process_leds s = with_args 1 s (\<lambda>b l n. construct_get b l n (arg s 0) GET_LEDS)"

definition tp_process_nodeid :: "tp_state \<Rightarrow> tp_result" where [tp_defs]:
  "tp_process_nodeid s = with_args 1 s (\<lambda>b l n. construct_get b l n (arg s 0) GET_TOS_LOCAL_ADDRESS)"

definition tp_process_memory_stats :: "tp_state \<Rightarrow> tp_result" where [tp_defs]:
  "tp_process_memory_stats s = with_args 1 s (\<lambda>b l n. construct_get b l n (arg s 0) GET_MEMORY_STATS)"

definition tp_process_num_tasks :: "tp_state \<Rightarrow> tp_result" where [tp_defs]:
  "tp_process_num_tasks s = with_args 1 s (\<lambda>b l n. construct_get b l n (arg s 0) GET_NUM_TASKS)"

definition tp_process_num_active_tasks :: "tp_state \<Rightarrow> tp_result" where [tp_defs]:
  "tp_process_num_active_tasks s = with_args 1 s (\<lambda>b l n. construct_get b l n
      (arg s 0) GET_NUM_ACTIVE_TASKS)"

definition tp_process_istimesync :: "tp_state \<Rightarrow> tp_result" where [tp_defs]:
  "tp_process_istimesync s = with_args 1 s (\<lambda>b l n. construct_get b l n (arg s 0) GET_IS_TIMESYNC)"

definition tp_process_platform :: "tp_state \<Rightarrow> tp_result" where [tp_defs]:
  "tp_process_platform s = with_args 1 s (\<lambda>b l n. construct_get b l n (arg s 0) GET_PLATFORM)"

definition tp_process_clock_freq :: "tp_state \<Rightarrow> tp_result" where [tp_defs]:
  "tp_process_clock_freq s = with_args 1 s (\<lambda>b l n. construct_get b l n (arg s 0) GET_CLOCK_FREQ)"

definition tp_process_master :: "tp_state \<Rightarrow> tp_result" where [tp_defs]:
  "tp_process_master s = with_args 1 s (\<lambda>b l n. construct_get b l n (arg s 0) GET_ROUTING_MASTER)"

definition tp_process_hopcount :: "tp_state \<Rightarrow> tp_result" where [tp_defs]:
  "tp_process_hopcount s = with_args 1 s (\<lambda>b l n. construct_get b l n (arg s 0) GET_ROUTING_HOPCOUNT)"

definition tp_process_rssi :: "tp_state \<Rightarrow> tp_result" where [tp_defs]:
  "tp_process_rssi s = with_args 1 s (\<lambda>b l n. construct_get b l n (arg s 0) GET_ROUTING_PARENT_RSSI)"

definition tp_process_linkquality :: "tp_state \<Rightarrow> tp_result" where [tp_defs]:
  "tp_process_linkquality s = with_args 1 s (\<lambda>b l n. construct_get b l n
      (arg s 0) GET_ROUTING_PARENT_LINKQUALITY)"

section \<open>Comparison\<close>

definition tp_process_comparison :: "tp_state \<Rightarrow> tp_result" where [tp_defs]:
  "tp_process_comparison s = with_args 4 s (\<lambda>b l n. construct_comparison b l n
      (arg s 0) (arg s 1) (arg s 2) (argtype s) (arg s 3))"

definition tp_process_lt :: "tp_state \<Rightarrow> tp_result" where [tp_defs]:
  "tp_process_lt s = with_args 3 s (\<lambda>b l n. construct_comparison b l n
      (arg s 0) (arg s 1) LT (argtype s) (arg s 2))"

definition tp_process_gt :: "tp_state \<Rightarrow> tp_result" where [tp_defs]:
  "tp_process_gt s = with_args 3 s (\<lambda>b l n. construct_comparison b l n
      (arg s 0) (arg s 1) GT (argtype s) (arg s 2))"

definition tp_process_eq :: "tp_state \<Rightarrow> tp_result" where [tp_defs]:
  "tp_process_eq s = with_args 3 s (\<lambda>b l n. construct_comparison b l n
      (arg s 0) (arg s 1) EQ (argtype s) (arg s 2))"

definition tp_process_leq :: "tp_state \<Rightarrow> tp_result" where [tp_defs]:
  "tp_process_leq s = with_args 3 s (\<lambda>b l n. construct_comparison b l n
      (arg s 0) (arg s 1) LEQ (argtype s) (arg s 2))"

definition tp_process_geq :: "tp_state \<Rightarrow> tp_result" where [tp_defs]:
  "tp_process_geq s = with_args 3 s (\<lambda>b l n. construct_comparison b l n
      (arg s 0) (arg s 1) GEQ (argtype s) (arg s 2))"

definition tp_process_neq :: "tp_state \<Rightarrow> tp_result" where [tp_defs]:
  "tp_process_neq s = with_args 3 s (\<lambda>b l n. construct_comparison b l n
      (arg s 0) (arg s 1) NEQ (argtype s) (arg s 2))"

definition tp_process_count_lt :: "tp_state \<Rightarrow> tp_result" where [tp_defs]:
  "tp_process_count_lt s = with_args 3 s (\<lambda>b l n. construct_comparison b l n
      (arg s 0) (arg s 1) COUNT_LT (argtype s) (arg s 2))"

definition tp_process_count_gt :: "tp_state \<Rightarrow> tp_result" where [tp_defs]:
  "tp_process_count_gt s = with_args 3 s (\<lambda>b l n. construct_comparison b l n
      (arg s 0) (arg s 1) COUNT_GT (argtype s) (arg s 2))"

definition tp_process_count_eq :: "tp_state \<Rightarrow> tp_result" where [tp_defs]:
  "tp_process_count_eq s = with_args 3 s (\<lambda>b l n. construct_comparison b l n
      (arg s 0) (arg s 1) COUNT_EQ (argtype s) (arg s 2))"

definition tp_process_count_leq :: "tp_state \<Rightarrow> tp_result" where [tp_defs]:
  "tp_process_count_leq s = with_args 3 s (\<lambda>b l n. construct_comparison b l n
      (arg s 0) (arg s 1) COUNT_LEQ (argtype s) (arg s 2))"

definition tp_process_count_geq :: "tp_state \<Rightarrow> tp_result" where [tp_defs]:
  "tp_process_count_geq s = with_args 3 s (\<lambda>b l n. construct_comparison b l n
      (arg s 0) (arg s 1) COUNT_GEQ (argtype s) (arg s 2))"

definition tp_process_count_neq :: "tp_state \<Rightarrow> tp_result" where [tp_defs]:
  "tp_process_count_neq s = with_args 3 s (\<lambda>b l n. construct_comparison b l n
      (arg s 0) (arg s 1) COUNT_NEQ (argtype s) (arg s 2))"

section \<open>Statistics\<close>

definition tp_process_stats :: "tp_state \<Rightarrow> tp_result" where [tp_defs]:
  "tp_process_stats s = with_args 3 s (\<lambda>b l n. construct_stats b l n (arg s 0) (arg s 1) (arg s 2))"

definition tp_process_sum :: "tp_state \<Rightarrow> tp_result" where [tp_defs]:
  "tp_process_sum s = with_args 2 s (\<lambda>b l n. construct_stats b l n (arg s 0) (arg s 1) SUMM)"

definition tp_process_min :: "tp_state \<Rightarrow> tp_result" where [tp_defs]:
  "tp_process_min s = with_args 2 s (\<lambda>b l n. construct_stats b l n (arg s 0) (arg s 1) MIN_op)"

definition tp_process_max :: "tp_state \<Rightarrow> tp_result" where [tp_defs]:
  "tp_process_max s = with_args 2 s (\<lambda>b l n. construct_stats b l n (arg s 0) (arg s 1) MAX_op)"

definition tp_process_avg :: "tp_state \<Rightarrow> tp_result" where [tp_defs]:
  "tp_process_avg s = with_args 2 s (\<lambda>b l n. construct_stats b l n (arg s 0) (arg s 1) AVG)"

definition tp_process_std :: "tp_state \<Rightarrow> tp_result" where [tp_defs]:
  "tp_process_std s = with_args 2 s (\<lambda>b l n. construct_stats b l n (arg s 0) (arg s 1) STD)"

definition tp_process_cnt :: "tp_state \<Rightarrow> tp_result" where [tp_defs]:
  "tp_process_cnt s = with_args 2 s (\<lambda>b l n. construct_stats b l n (arg s 0) (arg s 1) CNT)"

definition tp_process_meandev :: "tp_state \<Rightarrow> tp_result" where [tp_defs]:
  "tp_process_meandev s = with_args 2 s (\<lambda>b l n. construct_stats b l n (arg s 0) (arg s 1) MEANDEV)"

section \<open>Attributes\<close>

definition tp_process_attribute :: "tp_state \<Rightarrow> tp_result" where [tp_defs]:
  "tp_process_attribute s = with_args 3 s (\<lambda>b l n. construct_attribute b l n
      (arg s 0) (arg s 1) (arg s 2))"

definition tp_process_exist :: "tp_state \<Rightarrow> tp_result" where [tp_defs]:
  "tp_process_exist s = with_args 2 s (\<lambda>b l n. construct_attribute b l n (arg s 0) (arg s 1) EXIST)"

definition tp_process_not_exist :: "tp_state \<Rightarrow> tp_result" where [tp_defs]:
  "tp_process_not_exist s = with_args 2 s (\<lambda>b l n. construct_attribute b l n
      (arg s 0) (arg s 1) NOT_EXIST)"

definition tp_process_length :: "tp_state \<Rightarrow> tp_result" where [tp_defs]:
  "tp_process_length s = with_args 2 s (\<lambda>b l n. construct_attribute b l n
      (arg s 0) (arg s 1) LENGTH_op)"

section \<open>Reboot, security, packing\<close>

definition tp_process_reboot :: "tp_state \<Rightarrow> tp_result" where [tp_defs]:
  "tp_process_reboot s = with_args 0 s (\<lambda>b l n. construct_reboot b l n)"

text \<open>The constructor call of this one is commented out.\<close>

definition tp_process_security :: "tp_state \<Rightarrow> tp_result" where [tp_defs]:
  "tp_process_security s = (if tp_arg_byteString s \<noteq> 2 then Inl TP_EXIT else Inr s)"

definition tp_process_pack :: "tp_state \<Rightarrow> tp_result" where [tp_defs]:
  "tp_process_pack s =
    (if tp_argpos s + 1 = 2 then tp_emit s (\<lambda>b l n. construct_pack b l n (arg s 0) (arg s 1) 0)
     else if tp_argpos s + 1 = 3 then tp_emit s (\<lambda>b l n. construct_pack b l n (arg s 0) (arg s 1)
      (arg s 2))
     else Inl TP_EXIT)"

definition tp_process_pack_n_wait :: "tp_state \<Rightarrow> tp_result" where [tp_defs]:
  "tp_process_pack_n_wait s = with_args 2 s (\<lambda>b l n. construct_pack b l n (arg s 0) (arg s 1) 1)"

section \<open>Sending\<close>

definition tp_process_send :: "tp_state \<Rightarrow> tp_result" where [tp_defs]:
  "tp_process_send s =
    (if tp_argpos s + 1 = 0 then tp_emit s (\<lambda>b l n. construct_send b l n 0)
     else if tp_argpos s + 1 = 1 then tp_emit s (\<lambda>b l n. construct_send b l n (arg s 0))
     else Inl TP_EXIT)"

definition tp_process_sendpkt :: "tp_state \<Rightarrow> tp_result" where [tp_defs]:
  "tp_process_sendpkt s =
    (if tp_argpos s + 1 \<noteq> 1 then Inl TP_EXIT
     else if tp_args s ! 0 > 1 then Inl TP_EXIT
     else tp_emit s (\<lambda>b l n. construct_sendpkt b l n (arg s 0)))"

definition tp_process_sendstr :: "tp_state \<Rightarrow> tp_result" where [tp_defs]:
  "tp_process_sendstr s = with_args 0 s (\<lambda>b l n. construct_sendstr b l n)"

definition tp_process_sendrcrt :: "tp_state \<Rightarrow> tp_result" where [tp_defs]:
  "tp_process_sendrcrt s = with_args 1 s (\<lambda>b l n. construct_sendrcrt b l n (arg s 0))"

section \<open>Deletion\<close>

definition tp_process_deleteAttributeIf :: "tp_state \<Rightarrow> tp_result" where [tp_defs]:
  "tp_process_deleteAttributeIf s = with_args 2 s (\<lambda>b l n. construct_deleteAttributeIf b l n
      (arg s 0) (argtype s) (arg s 1) 0)"

definition tp_process_deleteAttribute :: "tp_state \<Rightarrow> tp_result" where [tp_defs]:
  "tp_process_deleteAttribute s = with_args 1 s (\<lambda>b l n. construct_deleteAttributeIf b l n
      1 ARGTYPE_CONSTANT (arg s 0) 0)"

definition tp_process_deleteAllAttributeIf :: "tp_state \<Rightarrow> tp_result" where [tp_defs]:
  "tp_process_deleteAllAttributeIf s = with_args 1 s (\<lambda>b l n. construct_deleteAttributeIf b l n
      (arg s 0) (argtype s) 0 1)"

definition tp_process_deleteActiveTaskIf :: "tp_state \<Rightarrow> tp_result" where [tp_defs]:
  "tp_process_deleteActiveTaskIf s = with_args 1 s (\<lambda>b l n. construct_deleteActiveTaskIf b l n
      (arg s 0) (argtype s))"

definition tp_process_deleteTaskIf :: "tp_state \<Rightarrow> tp_result" where [tp_defs]:
  "tp_process_deleteTaskIf s = with_args 1 s (\<lambda>b l n. construct_deleteTaskIf b l n
      (arg s 0) (argtype s))"

section \<open>Sampling\<close>

definition tp_process_sample :: "tp_state \<Rightarrow> tp_result" where [tp_defs]:
  "tp_process_sample s =
    (if tp_argpos s + 1 = 5 then
       tp_emit s (\<lambda>b l n. construct_sample b l n (arg s 0) (arg s 1) (arg s 2) (arg s 3) (arg s 4))
     else if tp_argpos s + 1 = 4 then
       tp_emit s (\<lambda>b l n. construct_sample b l n (arg s 0) (arg s 1) 0 (arg s 2) (arg s 3))
     else if tp_argpos s + 1 = 3 then
       tp_emit s (\<lambda>b l n. construct_sample b l n (arg s 0) 1 1 (arg s 1) (arg s 2))
     else if tp_argpos s + 1 = 2 then
       tp_emit s (\<lambda>b l n. construct_sample b l n 0 1 0 (arg s 0) (arg s 1))
     else Inl TP_EXIT)"

definition tp_process_voltage :: "tp_state \<Rightarrow> tp_result" where [tp_defs]:
  "tp_process_voltage s = with_args 1 s (\<lambda>b l n. construct_voltage b l n (arg s 0))"

definition tp_process_fastsample :: "tp_state \<Rightarrow> tp_result" where [tp_defs]:
  "tp_process_fastsample s = with_args 9 s (\<lambda>b l n. construct_fastsample b l n
      (tp_args s ! 0) (tp_args s ! 1) (tp_args s ! 2) (tp_args s ! 3) (tp_args s ! 4) (tp_args s ! 5)
      (tp_args s ! 6) (tp_args s ! 7) (tp_args s ! 8))"

definition tp_process_user_button :: "tp_state \<Rightarrow> tp_result" where [tp_defs]:
  "tp_process_user_button s = with_args 1 s (\<lambda>b l n. construct_user_button b l n (tp_args s ! 0))"

definition tp_process_memoryop :: "tp_state \<Rightarrow> tp_result" where [tp_defs]:
  "tp_process_memoryop s = with_args 4 s (\<lambda>b l n. construct_memoryop b l n
      (tp_args s ! 0) (tp_args s ! 1) (tp_args s ! 2) (tp_args s ! 3))"

definition tp_process_sample_rssi :: "tp_state \<Rightarrow> tp_result" where [tp_defs]:
  "tp_process_sample_rssi s = with_args 1 s (\<lambda>b l n. construct_sample_rssi b l n (arg s 0))"

definition tp_process_mda400 :: "tp_state \<Rightarrow> tp_result" where [tp_defs]:
  "tp_process_mda400 s = with_args 8 s (\<lambda>b l n. construct_mda400 b l n
      (arg s 0) (arg s 1) (arg s 2) (arg s 3) (arg s 4) (arg s 5) (arg s 6) (arg s 7))"

definition tp_process_onset_detector :: "tp_state \<Rightarrow> tp_result" where [tp_defs]:
  "tp_process_onset_detector s = with_args 7 s (\<lambda>b l n. construct_onset_detector b l n
      (arg s 0) (arg s 1) (arg s 2) (arg s 3) (arg s 4) (arg s 5) (arg s 6))"

definition tp_process_mda300 :: "tp_state \<Rightarrow> tp_result" where [tp_defs]:
  "tp_process_mda300 s = with_args 4 s (\<lambda>b l n. construct_mda300 b l n
      (arg s 0) (arg s 1) (arg s 2) (arg s 3))"

section \<open>Images\<close>

definition tp_process_image :: "tp_state \<Rightarrow> tp_result" where [tp_defs]:
  "tp_process_image s = with_args 7 s (\<lambda>b l n. construct_image_get b l n (tp_mem s)
      0 (arg s 0) (arg s 1) (arg s 2) (arg s 3) (arg s 4) (arg s 5) (arg s 6))"

definition tp_process_image_get :: "tp_state \<Rightarrow> tp_result" where [tp_defs]:
  "tp_process_image_get s = with_args 8 s (\<lambda>b l n. construct_image_get b l n (tp_mem s)
      (arg s 0) (arg s 1) (arg s 2) (arg s 3) (arg s 4) (arg s 5) (arg s 6) (arg s 7))"

definition tp_process_image_snap :: "tp_state \<Rightarrow> tp_result" where [tp_defs]:
  "tp_process_image_snap s = with_args 5 s (\<lambda>b l n. construct_image_snap b l n (tp_mem s)
      (arg s 0) (arg s 1) (arg s 2) (arg s 3) (arg s 4))"

definition tp_process_image_detect :: "tp_state \<Rightarrow> tp_result" where [tp_defs]:
  "tp_process_image_detect s = with_args 5 s (\<lambda>b l n. construct_image_detect b l n (tp_mem s)
      (arg s 0) (arg s 1) (arg s 2) (arg s 3) (arg s 4))"

definition tp_process_image_detect_reset :: "tp_state \<Rightarrow> tp_result" where [tp_defs]:
  "tp_process_image_detect_reset s =
    tp_emit s (\<lambda>b l n. construct_image_detect b l n (tp_mem s) DETECT_RESET_BACKGROUND 0 0 0 0)"

definition tp_process_image_detect_set :: "tp_state \<Rightarrow> tp_result" where [tp_defs]:
  "tp_process_image_detect_set s =
    tp_emit s (\<lambda>b l n. construct_image_detect b l n (tp_mem s) DETECT_SET_BACKGROUND 0 0 0 0)"

definition tp_process_image_detect_params :: "tp_state \<Rightarrow> tp_result" where [tp_defs]:
  "tp_process_image_detect_params s = with_args 6 s (\<lambda>b l n. construct_image_detect_params b l n
      (tp_mem s)
      (arg s 0) (arg s 1) (arg s 2) (arg s 3) (arg s 4) (arg s 5))"

definition tp_process_image_set_capture_params :: "tp_state \<Rightarrow> tp_result" where [tp_defs]:
  "tp_process_image_set_capture_params s = with_args 14 s (\<lambda>b l n. construct_image_capture_params b l n (tp_mem s)
      ACTIVE_EYE_SET_PARAMS (arg s 0) (arg s 1) (arg s 2) (arg s 3) (arg s 4) (arg s 5) (arg s 6)
      (arg s 7) (arg s 8) (arg s 9) (arg s 10) (arg s 11) (arg s 12) (arg s 13))"

definition tp_process_image_get_capture_params :: "tp_state \<Rightarrow> tp_result" where [tp_defs]:
  "tp_process_image_get_capture_params s = with_args 1 s (\<lambda>b l n. construct_image_capture_params b l n (tp_mem s)
      ACTIVE_EYE_GET_PARAMS 0 0 0 0 0 0 0 0 0 0 0 0 0 (arg s 0))"

definition tp_process_image_reboot :: "tp_state \<Rightarrow> tp_result" where [tp_defs]:
  "tp_process_image_reboot s = with_args 0 s (\<lambda>b l n. construct_image_reboot b l n (tp_mem s))"

definition tp_process_image_getRle :: "tp_state \<Rightarrow> tp_result" where [tp_defs]:
  "tp_process_image_getRle s = with_args 9 s (\<lambda>b l n. construct_image_getRle b l n (tp_mem s)
      (arg s 0) (arg s 1) (arg s 2) (arg s 3) (arg s 4) (arg s 5) (arg s 6) (arg s 7) (arg s 8))"

definition tp_process_image_getPackBits :: "tp_state \<Rightarrow> tp_result" where [tp_defs]:
  "tp_process_image_getPackBits s = with_args 9 s (\<lambda>b l n. construct_image_getPackBits b l n (tp_mem s)
      (arg s 0) (arg s 1) (arg s 2) (arg s 3) (arg s 4) (arg s 5) (arg s 6) (arg s 7) (arg s 8))"

definition tp_process_image_copy :: "tp_state \<Rightarrow> tp_result" where [tp_defs]:
  "tp_process_image_copy s = with_args 6 s (\<lambda>b l n. construct_image_copy b l n (tp_mem s)
      (arg s 0) (arg s 1) (arg s 2) (arg s 3) (arg s 4) (arg s 5))"

section \<open>Filters and codes\<close>

definition tp_process_firlpfilter :: "tp_state \<Rightarrow> tp_result" where [tp_defs]:
  "tp_process_firlpfilter s = with_args 2 s (\<lambda>b l n. construct_firlpfilter b l n (arg s 0) (arg s 1))"

definition tp_process_rle :: "tp_state \<Rightarrow> tp_result" where [tp_defs]:
  "tp_process_rle s = with_args 3 s (\<lambda>b l n. construct_rle b l n (arg s 0) (arg s 1) (arg s 2))"

definition tp_process_packbits :: "tp_state \<Rightarrow> tp_result" where [tp_defs]:
  "tp_process_packbits s = with_args 3 s (\<lambda>b l n. construct_packbits b l n
      (arg s 0) (arg s 1) (arg s 2))"

definition tp_process_vector :: "tp_state \<Rightarrow> tp_result" where [tp_defs]:
  "tp_process_vector s = with_args 3 s (\<lambda>b l n. construct_vector b l n (arg s 0) (arg s 1) (arg s 2))"

section \<open>Dispatch\<close>

text \<open>The chain of \<open>if (strcasecmp(..) == 0) .. else\<close>: the first name that is equal up to case.\<close>

definition tolower :: "char \<Rightarrow> char" where
  "tolower c = (let k = of_char c :: nat in if 65 \<le> k \<and> k \<le> 90 then char_of (k + 32) else c)"

definition strcaseeq :: "string \<Rightarrow> string \<Rightarrow> bool" where
  "strcaseeq a b \<longleftrightarrow> map tolower a = map tolower b"

definition tp_tasklets :: "(string \<times> (tp_state \<Rightarrow> tp_result)) list" where
  "tp_tasklets = [
   (''sample'', tp_process_sample),
   (''voltage'', tp_process_voltage),
   (''count'', tp_process_count),
   (''constant'', tp_process_constant),
   (''send'', tp_process_send),
   (''sendpkt'', tp_process_sendpkt),
   (''sendstr'', tp_process_sendstr),
   (''sendrcrt'', tp_process_sendrcrt),
   (''get'', tp_process_get),
   (''parent'', tp_process_nexthop),
   (''nexthop'', tp_process_nexthop),
   (''children'', tp_process_children),
   (''neighbors'', tp_process_neighbors),
   (''rfpower'', tp_process_rfpower),
   (''rfchannel'', tp_process_rfchannel),
   (''localtime'', tp_process_localtime),
   (''globaltime'', tp_process_globaltime),
   (''is_timesync'', tp_process_istimesync),
   (''memory_stats'', tp_process_memory_stats),
   (''leds'', tp_process_leds),
   (''num_tasks'', tp_process_num_tasks),
   (''num_active_tasks'', tp_process_num_active_tasks),
   (''nodeid'', tp_process_nodeid),
   (''local_address'', tp_process_nodeid),
   (''localtime_ms'', tp_process_localtime_ms),
   (''globaltime_ms'', tp_process_globaltime_ms),
   (''platform'', tp_process_platform),
   (''clock_freq'', tp_process_clock_freq),
   (''master'', tp_process_master),
   (''hopcount'', tp_process_hopcount),
   (''rssi'', tp_process_rssi),
   (''linkquality'', tp_process_linkquality),
   (''issue'', tp_process_issue),
   (''repeat'', tp_process_repeat),
   (''wait'', tp_process_wait),
   (''wait_n_repeat'', tp_process_wait_n_repeat),
   (''globalrepeat'', tp_process_globalrepeat),
   (''alarm'', tp_process_alarm),
   (''actuate'', tp_process_actuate),
   (''set_leds'', tp_process_set_leds),
   (''set_rfpower'', tp_process_set_rfpower),
   (''sounder'', tp_process_sounder),
   (''toggle_leds'', tp_process_toggle_leds),
   (''leds0toggle'', tp_process_leds0toggle),
   (''leds1toggle'', tp_process_leds1toggle),
   (''leds2toggle'', tp_process_leds2toggle),
   (''reset_parent'', tp_process_reset_parent),
   (''hold_parent'', tp_process_hold_parent),
   (''storage'', tp_process_storage),
   (''store'', tp_process_store),
   (''retrieve'', tp_process_retrieve),
   (''restore'', tp_process_retrieve),
   (''comparison'', tp_process_comparison),
   (''lt'', tp_process_lt),
   (''gt'', tp_process_gt),
   (''eq'', tp_process_eq),
   (''leq'', tp_process_leq),
   (''geq'', tp_process_geq),
   (''neq'', tp_process_neq),
   (''count_lt'', tp_process_count_lt),
   (''count_gt'', tp_process_count_gt),
   (''count_eq'', tp_process_count_eq),
   (''count_leq'', tp_process_count_leq),
   (''count_geq'', tp_process_count_geq),
   (''count_neq'', tp_process_count_neq),
   (''stats'', tp_process_stats),
   (''sum'', tp_process_sum),
   (''min'', tp_process_min),
   (''max'', tp_process_max),
   (''avg'', tp_process_avg),
   (''std'', tp_process_std),
   (''cnt'', tp_process_cnt),
   (''meandev'', tp_process_meandev),
   (''logical'', tp_process_logical),
   (''logical_and'', tp_process_logical_and),
   (''and'', tp_process_logical_and),
   (''logical_or'', tp_process_logical_or),
   (''or'', tp_process_logical_or),
   (''logical_not'', tp_process_logical_not),
   (''not'', tp_process_logical_not),
   (''bit'', tp_process_bit),
   (''bit_and'', tp_process_bit_and),
   (''bit_or'', tp_process_bit_or),
   (''bit_not'', tp_process_bit_not),
   (''bit_xor'', tp_process_bit_xor),
   (''bit_nand'', tp_process_bit_nand),
   (''bit_nor'', tp_process_bit_nor),
   (''shiftleft'', tp_process_shiftleft),
   (''shiftright'', tp_process_shiftright),
   (''arith'', tp_process_arith),
   (''add'', tp_process_add),
   (''sub'', tp_process_sub),
   (''mult'', tp_process_mult),
   (''div'', tp_process_div),
   (''diff'', tp_process_diff),
   (''mod'', tp_process_mod),
   (''pow'', tp_process_pow),
   (''attribute'', tp_process_attribute),
   (''exist'', tp_process_exist),
   (''not_exist'', tp_process_not_exist),
   (''length'', tp_process_length),
   (''deleteattribute'', tp_process_deleteAttribute),
   (''deleteattributeif'', tp_process_deleteAttributeIf),
   (''deleteallattributeif'', tp_process_deleteAllAttributeIf),
   (''deleteactivetaskif'', tp_process_deleteActiveTaskIf),
   (''deletetaskif'', tp_process_deleteTaskIf),
   (''reboot'', tp_process_reboot),
   (''pack'', tp_process_pack),
   (''pack_n_wait'', tp_process_pack_n_wait),
   (''memoryop'', tp_process_memoryop),
   (''userbutton'', tp_process_user_button),
   (''security'', tp_process_security),
   (''image'', tp_process_image),
   (''image_snap'', tp_process_image_snap),
   (''image_get'', tp_process_image_get),
   (''image_detect'', tp_process_image_detect),
   (''image_detect_params'', tp_process_image_detect_params),
   (''image_detect_reset'', tp_process_image_detect_reset),
   (''image_detect_set'', tp_process_image_detect_set),
   (''image_set_capture_params'', tp_process_image_set_capture_params),
   (''image_get_capture_params'', tp_process_image_get_capture_params),
   (''image_reboot'', tp_process_image_reboot),
   (''image_getRle'', tp_process_image_getRle),
   (''image_getPackBits'', tp_process_image_getPackBits),
   (''image_copy'', tp_process_image_copy),
   (''rle'', tp_process_rle),
   (''packbits'', tp_process_packbits),
   (''vector'', tp_process_vector),
   (''onset_detector'', tp_process_onset_detector),
   (''lpfilter'', tp_process_firlpfilter),
   (''sample_rssi'', tp_process_sample_rssi),
   (''mda400'', tp_process_mda400),
   (''mda300'', tp_process_mda300),
   (''fastsample'', tp_process_fastsample)]"

definition tp_call_constructor :: "string \<Rightarrow> tp_state \<Rightarrow> tp_result" where
  "tp_call_constructor func s =
    (case find (\<lambda>(name, f). strcaseeq func name) tp_tasklets of
       None \<Rightarrow> Inl TP_EXIT
     | Some (name, f) \<Rightarrow> map_sum id tp_init_args (f s))"

section \<open>A description\<close>

datatype tp_action = Add_arg int | Add_byteString string | Set_constant | Init_args | Call_constructor string

fun tp_act :: "tp_action \<Rightarrow> tp_state \<Rightarrow> tp_result" where
  "tp_act (Add_arg k) s = tp_add_arg k s"
| "tp_act (Add_byteString str) s = tp_add_byteString str s"
| "tp_act Set_constant s = Inr (tp_set_constant s)"
| "tp_act Init_args s = Inr (tp_init_args s)"
| "tp_act (Call_constructor f) s = tp_call_constructor f s"

fun tp_acts :: "tp_action list \<Rightarrow> tp_state \<Rightarrow> tp_result" where
  "tp_acts [] s = Inr s"
| "tp_acts (a # as) s = (case tp_act a s of Inl e \<Rightarrow> Inl e | Inr s' \<Rightarrow> tp_acts as s')"

text \<open>\<open>len\<close> is the length of the description, \<open>as\<close> the calls of the parser on it.\<close>

definition tp_doit :: "bytes \<Rightarrow> nat \<Rightarrow> tp_action list \<Rightarrow> tp_state \<Rightarrow> tp_result" where
  "tp_doit taskbuf len as s =
    (if len \<ge> TP_MAX_TASKLEN then Inl TP_EXIT
     else (case tp_process_init (tp_init_args (s\<lparr>tp_packetbuf := taskbuf, tp_length := 0, tp_num_elements := 0\<rparr>)) of
             Inl e \<Rightarrow> Inl e
           | Inr s1 \<Rightarrow> (case tp_acts as s1 of Inl e \<Rightarrow> Inl e | Inr s2 \<Rightarrow> tp_process_finalize s2)))"

definition tp_parse_task :: "bytes \<Rightarrow> nat \<Rightarrow> tp_action list \<Rightarrow> bool \<Rightarrow> tp_state \<Rightarrow> tp_failure + int \<times> tp_state" where
  "tp_parse_task buf len as yyerr s =
    (case tp_doit buf len as s of
       Inl e \<Rightarrow> Inl e
     | Inr s' \<Rightarrow> Inr (if yyerr then -1 else int (tp_length s'), s'))"

text \<open>
  What the actions of the grammar call for a description without a syntax error: the list of its elements, each a
  name with arguments. \<open>node(n)\<close> is a form of its own.
\<close>

datatype task_arg = Number int | Quoted int | Bytes string

datatype task_element = Tasklet string "task_arg list" | Node int

fun arg_actions :: "task_arg \<Rightarrow> tp_action list" where
  "arg_actions (Number k) = [Add_arg k]"
| "arg_actions (Quoted k) = [Add_arg k, Set_constant]"
| "arg_actions (Bytes str) = [Add_byteString str]"

fun element_actions :: "task_element \<Rightarrow> tp_action list" where
  "element_actions (Tasklet f args) = concat (map arg_actions args) @ [Call_constructor f]"
| "element_actions (Node k) =
    [Init_args, Add_arg 4352, Add_arg 2, Add_arg 0, Add_arg 113, Call_constructor ''memoryop'',
     Init_args, Add_arg k, Add_arg 1, Add_arg 113, Add_arg 0, Add_arg 3, Call_constructor ''classify_amplitude'',
     Init_args, Add_arg k, Add_arg 1, Add_arg 113, Add_arg 1, Add_arg 3, Call_constructor ''classify_amplitude'']"

definition chain_actions :: "task_element list \<Rightarrow> tp_action list" where
  "chain_actions es = concat (map element_actions es)"

end
