(* ===== verification/Task_Spec.thy ===== *)
theory Task_Spec
  imports Task_Parser
begin

text \<open>
  What the tasking language means: a reference definition of each tasklet and of the names that
  stand for another tasklet, from the usage texts, and the proof that the functions of the parser implement it except in three places. The list
  of tasklets a description denotes is what its packet holds.
\<close>

named_theorems tspec_defs \<open>reference definitions of the tasklets\<close>

text \<open>A tasklet as it lies in a packet; the flag says that it is in network byte order.\<close>

datatype elem = Elem bool u16 "field list"

text \<open>The meaning of a name: from the numbers, the type of the argument, the number of strings and new memory.\<close>

type_synonym tspec = "int list \<Rightarrow> u8 \<Rightarrow> nat \<Rightarrow> (nat \<Rightarrow> u8) \<Rightarrow> tp_failure + elem list"

definition native :: "nat \<Rightarrow> (int list \<Rightarrow> u8 \<Rightarrow> (nat \<Rightarrow> u8) \<Rightarrow> elem) \<Rightarrow> tspec" where [tspec_defs]:
  "native n d = (\<lambda>as k nb mem. if length as = n then Inr [d as k mem] else Inl TP_EXIT)"

definition same_as :: "nat \<Rightarrow> tspec \<Rightarrow> (int list \<Rightarrow> int list) \<Rightarrow> tspec" where [tspec_defs]:
  "same_as n t g = (\<lambda>as k nb mem. if length as = n then t (g as) k nb mem else Inl TP_EXIT)"

definition wd :: "int list \<Rightarrow> nat \<Rightarrow> 'a::len word" where [tspec_defs]:
  "wd as i = word_of_int (as ! i)"

section \<open>Tasklets of their own\<close>


definition spec_issue :: tspec where [tspec_defs]:
  "spec_issue = native 3 (\<lambda>as k mem. Elem False 5 [F32 (wd as 0), F32 (wd as 1), F8 (wd as 2), Gap 1])"

definition spec_storage :: tspec where [tspec_defs]:
  "spec_storage = native 3 (\<lambda>as k mem. Elem False 8 [F16 (wd as 0), F16 (wd as 1), F8 (wd as 2), F8 0])"

text \<open>With the attribute alone it starts at 0 and is incremented by 1 every time (element_usage.c).\<close>

definition spec_count :: tspec where [tspec_defs]:
  "spec_count as k nb mem =
    (if length as = 3 then Inr [Elem False 3 [F16 (wd as 1), F16 (wd as 2), F16 (wd as 0)]]
     else if length as = 1 then Inr [Elem False 3 [F16 0, F16 1, F16 (wd as 0)]]
     else Inl TP_EXIT)"


definition spec_actuate :: tspec where [tspec_defs]:
  "spec_actuate = native 2 (\<lambda>as k mem. Elem False 7 [F8 (wd as 0), F8 k, F16 (wd as 1)])"

text \<open>The usage text gives the operations the numbers 11 to 13; the motes know them as 1 to 3.\<close>

definition logical_op :: "int \<Rightarrow> u8" where [tspec_defs]:
  "logical_op k = (if k = 11 then 1 else if k = 12 then 2 else if k = 13 then 3 else word_of_int k)"

definition spec_logical :: tspec where [tspec_defs]:
  "spec_logical = native 4 (\<lambda>as k mem. Elem False 12
      [F16 (wd as 0), F16 (wd as 1), F8 (logical_op (as ! 2)), F8 k, F16 (wd as 3)])"

definition spec_bit :: tspec where [tspec_defs]:
  "spec_bit = native 4 (\<lambda>as k mem. Elem False 13
      [F16 (wd as 0), F16 (wd as 1), F8 (wd as 2), F8 k, F16 (wd as 3)])"

definition spec_arith :: tspec where [tspec_defs]:
  "spec_arith = native 4 (\<lambda>as k mem. Elem False 11
      [F16 (wd as 0), F16 (wd as 1), F8 (wd as 2), F8 k, F16 (wd as 3)])"

definition spec_comparison :: tspec where [tspec_defs]:
  "spec_comparison = native 4 (\<lambda>as k mem. Elem False 9
      [F16 (wd as 0), F16 (wd as 1), F8 (wd as 2), F8 k, F16 (wd as 3)])"

definition spec_get :: tspec where [tspec_defs]:
  "spec_get = native 2 (\<lambda>as k mem. Elem False 6 [F16 (wd as 0), F16 (wd as 1)])"

definition spec_stats :: tspec where [tspec_defs]:
  "spec_stats = native 3 (\<lambda>as k mem. Elem False 10 [F16 (wd as 0), F16 (wd as 1), F16 (wd as 2)])"

definition spec_attribute :: tspec where [tspec_defs]:
  "spec_attribute = native 3 (\<lambda>as k mem. Elem False 18
      [F16 (wd as 0), F16 (wd as 1), F8 (wd as 2), Gap 1])"

definition spec_reboot :: tspec where [tspec_defs]:
  "spec_reboot = native 0 (\<lambda>as k mem. Elem False 2 [])"

definition spec_security :: tspec where [tspec_defs]:
  "spec_security as k nb mem = (if nb = 2 then Inr [] else Inl TP_EXIT)"

definition spec_pack :: tspec where [tspec_defs]:
  "spec_pack as k nb mem =
    (if length as = 2 then Inr [Elem False 17 [F16 (wd as 0), F16 (wd as 1), F8 0, Gap 1]]
     else if length as = 3 then Inr [Elem False 17 [F16 (wd as 0), F16 (wd as 1), F8 (wd as 2), Gap 1]]
     else Inl TP_EXIT)"

definition send_elem :: "u16 \<Rightarrow> elem" where [tspec_defs]:
  "send_elem kind =
    (if kind = 1 then Elem False 4 [F8 1, F8 0] else if kind = 2 then Elem False 31 []
     else if kind = 3 then Elem False 40 [F16 0] else Elem False 4 [F8 0, F8 0])"

definition spec_send :: tspec where [tspec_defs]:
  "spec_send as k nb mem =
    (if length as = 0 then Inr [send_elem 0] else if length as = 1 then Inr
      [send_elem (wd as 0)] else Inl TP_EXIT)"

definition spec_sendpkt :: tspec where [tspec_defs]:
  "spec_sendpkt as k nb mem =
    (if length as = 1 \<and> as ! 0 \<le> 1 then Inr [Elem False 4 [F8 (wd as 0), F8 0]] else Inl TP_EXIT)"


definition spec_sendstr :: tspec where [tspec_defs]:
  "spec_sendstr = native 0 (\<lambda>as k mem. Elem False 31 [])"

definition spec_sendrcrt :: tspec where [tspec_defs]:
  "spec_sendrcrt = native 1 (\<lambda>as k mem. Elem False 40 [F16 (wd as 0)])"

definition spec_deleteAttributeIf :: tspec where [tspec_defs]:
  "spec_deleteAttributeIf = native 2 (\<lambda>as k mem. Elem False 14
      [F16 (wd as 0), F16 (wd as 1), F8 k, F8 0])"

definition spec_deleteAttribute :: tspec where [tspec_defs]:
  "spec_deleteAttribute = native 1 (\<lambda>as k mem. Elem False 14 [F16 1, F16 (wd as 0), F8 0, F8 0])"

definition spec_deleteAllAttributeIf :: tspec where [tspec_defs]:
  "spec_deleteAllAttributeIf = native 1 (\<lambda>as k mem. Elem False 14 [F16 (wd as 0), F16 0, F8 k, F8 1])"

definition spec_deleteActiveTaskIf :: tspec where [tspec_defs]:
  "spec_deleteActiveTaskIf = native 1 (\<lambda>as k mem. Elem False 15 [F16 (wd as 0), F8 k, F8 0])"

definition spec_deleteTaskIf :: tspec where [tspec_defs]:
  "spec_deleteTaskIf = native 1 (\<lambda>as k mem. Elem False 16 [F16 (wd as 0), F8 k, F8 0])"

definition sample_elem :: "u32 \<Rightarrow> u16 \<Rightarrow> u8 \<Rightarrow> u8 \<Rightarrow> u16 \<Rightarrow> elem" where [tspec_defs]:
  "sample_elem interval cnt rpt ch out = Elem False 21 [F32 interval, F16 cnt, F16 out, F8 ch, F8 rpt]"

definition spec_sample :: tspec where [tspec_defs]:
  "spec_sample as k nb mem =
    (if length as = 5 then Inr [sample_elem (wd as 0) (wd as 1) (wd as 2) (wd as 3) (wd as 4)]
     else if length as = 4 then Inr [sample_elem (wd as 0) (wd as 1) 0 (wd as 2) (wd as 3)]
     else if length as = 3 then Inr [sample_elem (wd as 0) 1 1 (wd as 1) (wd as 2)]
     else if length as = 2 then Inr [sample_elem 0 1 0 (wd as 0) (wd as 1)]
     else Inl TP_EXIT)"


definition spec_voltage :: tspec where [tspec_defs]:
  "spec_voltage = native 1 (\<lambda>as k mem. Elem False 22 [F16 (wd as 0)])"

definition spec_fastsample :: tspec where [tspec_defs]:
  "spec_fastsample = native 9 (\<lambda>as k mem. Elem False 39
      [F32 (wd as 0), F16 (wd as 1), Gap 1, F8 (wd as 2), Gap 1, F8 (wd as 3), F8 (wd as 5), F8 (wd as 7), F16 (wd as 4), F16 (wd as 6), F16 (wd as 8)])"

definition spec_user_button :: tspec where [tspec_defs]:
  "spec_user_button = native 1 (\<lambda>as k mem. Elem False 33 [F8 (wd as 0), F8 0])"

definition spec_memoryop :: tspec where [tspec_defs]:
  "spec_memoryop = native 4 (\<lambda>as k mem. Elem False 35
      [F16 (wd as 0), F8 (wd as 1), F8 (wd as 2), F16 (wd as 3)])"

definition spec_sample_rssi :: tspec where [tspec_defs]:
  "spec_sample_rssi = native 1 (\<lambda>as k mem. Elem False 34 [F16 (wd as 0)])"

definition spec_mda400 :: tspec where [tspec_defs]:
  "spec_mda400 = native 8 (\<lambda>as k mem. Elem False 37
      [F16 (wd as 0), F16 (wd as 1), F16 (wd as 2), F16 (wd as 3), F16 (wd as 4), F16 (wd as 5), F8 (wd as 6), F8 (wd as 7)])"

definition spec_mda300 :: tspec where [tspec_defs]:
  "spec_mda300 = native 4 (\<lambda>as k mem. Elem False 42
      [F8 (wd as 0), F8 (wd as 1), F16 (wd as 2), F8 (wd as 3)])"

definition spec_onset_detector :: tspec where [tspec_defs]:
  "spec_onset_detector = native 7 (\<lambda>as k mem. Elem False 38
      [F8 (wd as 0), F8 (wd as 1), F16 (wd as 2), F16 (wd as 3), F16 (wd as 4), F16 (wd as 5), F8 (wd as 6), Gap 1])"

definition spec_firlpfilter :: tspec where [tspec_defs]:
  "spec_firlpfilter = native 2 (\<lambda>as k mem. Elem False 41 [F16 (wd as 0), F16 (wd as 1)])"

definition spec_rle :: tspec where [tspec_defs]:
  "spec_rle = native 3 (\<lambda>as k mem. Elem True 43 [FX16 (wd as 0), FX16 (wd as 1), FX16 (wd as 2)])"

definition spec_packbits :: tspec where [tspec_defs]:
  "spec_packbits = native 3 (\<lambda>as k mem. Elem True 44 [FX16 (wd as 0), FX16 (wd as 1), FX16 (wd as 2)])"

definition spec_vector :: tspec where [tspec_defs]:
  "spec_vector = native 3 (\<lambda>as k mem. Elem True 45 [FX16 (wd as 1), FX16 (wd as 2), FX16 (wd as 0)])"

section \<open>Images\<close>

definition image_elem :: "(nat \<Rightarrow> u8) \<Rightarrow> u8 \<Rightarrow> field list \<Rightarrow> u16 \<Rightarrow> elem" where
  "image_elem mem m q out = Elem False 32 ([F16 out, F8 m, F8 (of_nat (length (struct_bytes q)))] @ map F8 (query mem q))"


definition spec_image :: tspec where [tspec_defs]:
  "spec_image = native 7 (\<lambda>as k mem. image_elem mem 1
      [F8 0, F8 (wd as 0), F16 (wd as 1), F8 (wd as 2), F8 (wd as 3), F8 (wd as 4), F8 (wd as 5)] (wd as 6))"

definition spec_image_get :: tspec where [tspec_defs]:
  "spec_image_get = native 8 (\<lambda>as k mem. image_elem mem 1
      [F8 (wd as 0), F8 (wd as 1), F16 (wd as 2), F8 (wd as 3), F8 (wd as 4), F8 (wd as 5), F8 (wd as 6)] (wd as 7))"

definition spec_image_snap :: tspec where [tspec_defs]:
  "spec_image_snap = native 5 (\<lambda>as k mem. image_elem mem 2
      [F8 (wd as 0), F8 (wd as 1), F8 (wd as 2), F8 (wd as 3)] (wd as 4))"

definition spec_image_detect :: tspec where [tspec_defs]:
  "spec_image_detect = native 5 (\<lambda>as k mem. image_elem mem 3
      [F8 (wd as 0), F8 (wd as 1), F8 (wd as 2), F8 0x10, F8 (wd as 3), F8 (wd as 3), Gap 6] (wd as 4))"

definition spec_image_detect_reset :: tspec where [tspec_defs]:
  "spec_image_detect_reset as k nb mem = Inr [image_elem mem 3
      [F8 3, F8 0, F8 0, F8 0x10, F8 0, F8 0, Gap 6] 0]"

definition spec_image_detect_set :: tspec where [tspec_defs]:
  "spec_image_detect_set as k nb mem = Inr [image_elem mem 3 [F8 4, F8 0, F8 0, F8 0x10, F8 0, F8 0, Gap 6] 0]"

definition spec_image_detect_params :: tspec where [tspec_defs]:
  "spec_image_detect_params = native 6 (\<lambda>as k mem. image_elem mem 3
      [F8 5, F8 0, F8 0, F8 0x10, F8 (wd as 0), F8 (wd as 0), F8 (wd as 1), F8 (wd as 2), F8 (wd as 3), F8 (wd as 4), F8 (wd as 5), F8 0] 0)"

definition spec_image_set_capture_params :: tspec where [tspec_defs]:
  "spec_image_set_capture_params = native 14 (\<lambda>as k mem. image_elem mem 5
      [F8 1, F8 0, F16 (wd as 0), F16 (wd as 1), F16 (wd as 2), F16 (wd as 3), F16 (wd as 5), F8 (wd as 4), F8 (wd as 6), F8 (wd as 7), F8 (wd as 8), F16 (wd as 9), F16 (wd as 10), F16 (wd as 11), F16 (wd as 12)] (wd as 13))"

definition spec_image_get_capture_params :: tspec where [tspec_defs]:
  "spec_image_get_capture_params = native 1 (\<lambda>as k mem. image_elem mem 5 [F8 0, F8 0] (wd as 0))"

definition spec_image_reboot :: tspec where [tspec_defs]:
  "spec_image_reboot = native 0 (\<lambda>as k mem. image_elem mem 4 [F8 1, Gap 1] 0)"

definition spec_image_getRle :: tspec where [tspec_defs]:
  "spec_image_getRle = native 9 (\<lambda>as k mem. image_elem mem 6
      [F8 (wd as 0), F8 (wd as 1), F16 (wd as 2), F8 (wd as 7), Gap 1, F8 (wd as 3), F8 (wd as 4), F8 (wd as 5), F8 (wd as 6)] (wd as 8))"

definition spec_image_getPackBits :: tspec where [tspec_defs]:
  "spec_image_getPackBits = native 9 (\<lambda>as k mem. image_elem mem 7
      [F8 (wd as 0), F8 (wd as 1), F16 (wd as 2), F8 (wd as 7), Gap 1, F8 (wd as 3), F8 (wd as 4), F8 (wd as 5), F8 (wd as 6)] (wd as 8))"

definition spec_image_copy :: tspec where [tspec_defs]:
  "spec_image_copy = native 6 (\<lambda>as k mem. image_elem mem 8
      [F8 (wd as 0), F8 (wd as 1), F8 (wd as 2), F8 (wd as 3), F8 (wd as 4), F8 (wd as 5)] 0)"

section \<open>Names for other tasklets\<close>


definition spec_repeat :: tspec where [tspec_defs]: "spec_repeat = same_as 1 spec_issue (\<lambda>as. [as ! 0, as ! 0, 0])"

definition spec_wait_n_repeat :: tspec where [tspec_defs]: "spec_wait_n_repeat = same_as 2 spec_issue (\<lambda>as. [as ! 0, as ! 1, 0])"

definition spec_alarm :: tspec where [tspec_defs]: "spec_alarm = same_as 1 spec_issue (\<lambda>as.
      [as ! 0, 0, 1])"

definition spec_globalrepeat :: tspec where [tspec_defs]: "spec_globalrepeat = same_as 2 spec_issue (\<lambda>as. [as ! 0, as ! 1, 1])"

text \<open>The second argument, which is deprecated, says whether to run every period.\<close>

definition spec_wait :: tspec where [tspec_defs]:
  "spec_wait as k nb mem =
    (if length as = 1 then spec_issue [as ! 0, 0, 0] k nb mem
     else if length as = 2 then spec_issue [as ! 0, if as ! 1 \<noteq> 0 then as ! 0 else 0, 0] k nb mem
     else Inl TP_EXIT)"


definition spec_store :: tspec where [tspec_defs]:
  "spec_store as k nb mem =
    (if length as = 2 then spec_storage [as ! 0, as ! 1, 1] k nb mem
     else if length as = 1 then spec_storage [as ! 0, as ! 0, 1] k nb mem
     else Inl TP_EXIT)"


definition spec_retrieve :: tspec where [tspec_defs]:
  "spec_retrieve as k nb mem =
    (if length as = 2 then spec_storage [as ! 0, as ! 1, 0] k nb mem
     else if length as = 1 then spec_storage [as ! 0, as ! 0, 0] k nb mem
     else Inl TP_EXIT)"


definition spec_constant :: tspec where [tspec_defs]: "spec_constant = same_as 2 spec_count (\<lambda>as. [as ! 0, as ! 1, 0])"

definition spec_set_leds :: tspec where [tspec_defs]: "spec_set_leds = same_as 1 spec_actuate (\<lambda>as. [0, as ! 0])"

definition spec_toggle_leds :: tspec where [tspec_defs]: "spec_toggle_leds = same_as 1 spec_actuate (\<lambda>as. [3, as ! 0])"

definition spec_set_rfpower :: tspec where [tspec_defs]: "spec_set_rfpower = same_as 1 spec_actuate (\<lambda>as. [1, as ! 0])"

definition spec_sounder :: tspec where [tspec_defs]: "spec_sounder = same_as 1 spec_actuate (\<lambda>as. [2, as ! 0])"

definition spec_leds0toggle :: tspec where [tspec_defs]: "spec_leds0toggle as k nb mem = spec_toggle_leds [1] 0 nb mem"


definition spec_leds1toggle :: tspec where [tspec_defs]: "spec_leds1toggle as k nb mem = spec_toggle_leds [2] 0 nb mem"


definition spec_leds2toggle :: tspec where [tspec_defs]: "spec_leds2toggle as k nb mem = spec_toggle_leds [4] 0 nb mem"


definition spec_reset_parent :: tspec where [tspec_defs]:
  "spec_reset_parent as k nb mem = (if as = [] then spec_actuate [11, 0] 0 nb mem else Inl TP_EXIT)"


definition spec_hold_parent :: tspec where [tspec_defs]:
  "spec_hold_parent as k nb mem = (if as = [] then spec_actuate [12, 0] 0 nb mem else Inl TP_EXIT)"


definition spec_logical_and :: tspec where [tspec_defs]: "spec_logical_and = same_as 3 spec_logical (\<lambda>as. [as ! 0, as ! 1, 1, as ! 2])"

definition spec_logical_or :: tspec where [tspec_defs]: "spec_logical_or = same_as 3 spec_logical (\<lambda>as. [as ! 0, as ! 1, 2, as ! 2])"

definition spec_logical_not :: tspec where [tspec_defs]: "spec_logical_not = same_as 2 spec_logical (\<lambda>as. [as ! 0, as ! 1, 3, 1])"

definition spec_bit_and :: tspec where [tspec_defs]: "spec_bit_and = same_as 3 spec_bit (\<lambda>as. [as ! 0, as ! 1, 1, as ! 2])"

definition spec_bit_or :: tspec where [tspec_defs]: "spec_bit_or = same_as 3 spec_bit (\<lambda>as.
      [as ! 0, as ! 1, 2, as ! 2])"

definition spec_bit_xor :: tspec where [tspec_defs]: "spec_bit_xor = same_as 3 spec_bit (\<lambda>as. [as ! 0, as ! 1, 4, as ! 2])"

definition spec_bit_nand :: tspec where [tspec_defs]: "spec_bit_nand = same_as 3 spec_bit (\<lambda>as. [as ! 0, as ! 1, 5, as ! 2])"

definition spec_bit_nor :: tspec where [tspec_defs]: "spec_bit_nor = same_as 3 spec_bit (\<lambda>as. [as ! 0, as ! 1, 6, as ! 2])"

definition spec_shiftleft :: tspec where [tspec_defs]: "spec_shiftleft = same_as 3 spec_bit (\<lambda>as. [as ! 0, as ! 1, 7, as ! 2])"

definition spec_shiftright :: tspec where [tspec_defs]: "spec_shiftright = same_as 3 spec_bit (\<lambda>as. [as ! 0, as ! 1, 8, as ! 2])"

definition spec_bit_not :: tspec where [tspec_defs]: "spec_bit_not = same_as 2 spec_bit (\<lambda>as. [as ! 0, as ! 1, 3, 1])"

definition spec_add :: tspec where [tspec_defs]: "spec_add = same_as 3 spec_arith (\<lambda>as.
      [as ! 0, as ! 1, 1, as ! 2])"

definition spec_sub :: tspec where [tspec_defs]: "spec_sub = same_as 3 spec_arith (\<lambda>as.
      [as ! 0, as ! 1, 2, as ! 2])"

definition spec_mult :: tspec where [tspec_defs]: "spec_mult = same_as 3 spec_arith (\<lambda>as.
      [as ! 0, as ! 1, 3, as ! 2])"

definition spec_div :: tspec where [tspec_defs]: "spec_div = same_as 3 spec_arith (\<lambda>as.
      [as ! 0, as ! 1, 4, as ! 2])"

definition spec_diff :: tspec where [tspec_defs]: "spec_diff = same_as 3 spec_arith (\<lambda>as.
      [as ! 0, as ! 1, 5, as ! 2])"

definition spec_mod :: tspec where [tspec_defs]: "spec_mod = same_as 3 spec_arith (\<lambda>as.
      [as ! 0, as ! 1, 6, as ! 2])"

definition spec_pow :: tspec where [tspec_defs]: "spec_pow = same_as 3 spec_arith (\<lambda>as.
      [as ! 0, as ! 1, 7, as ! 2])"

definition spec_nexthop :: tspec where [tspec_defs]: "spec_nexthop = same_as 1 spec_get (\<lambda>as. [as ! 0, 1])"

definition spec_globaltime :: tspec where [tspec_defs]: "spec_globaltime = same_as 1 spec_get (\<lambda>as. [as ! 0, 2])"

definition spec_localtime :: tspec where [tspec_defs]: "spec_localtime = same_as 1 spec_get (\<lambda>as. [as ! 0, 3])"

definition spec_memory_stats :: tspec where [tspec_defs]: "spec_memory_stats = same_as 1 spec_get (\<lambda>as. [as ! 0, 4])"

definition spec_num_tasks :: tspec where [tspec_defs]: "spec_num_tasks = same_as 1 spec_get (\<lambda>as. [as ! 0, 5])"

definition spec_num_active_tasks :: tspec where [tspec_defs]: "spec_num_active_tasks = same_as 1 spec_get (\<lambda>as. [as ! 0, 6])"

definition spec_children :: tspec where [tspec_defs]: "spec_children = same_as 1 spec_get (\<lambda>as. [as ! 0, 7])"

definition spec_neighbors :: tspec where [tspec_defs]: "spec_neighbors = same_as 1 spec_get (\<lambda>as. [as ! 0, 8])"

definition spec_leds :: tspec where [tspec_defs]: "spec_leds = same_as 1 spec_get (\<lambda>as. [as ! 0, 9])"

definition spec_rfpower :: tspec where [tspec_defs]: "spec_rfpower = same_as 1 spec_get (\<lambda>as. [as ! 0, 10])"

definition spec_rfchannel :: tspec where [tspec_defs]: "spec_rfchannel = same_as 1 spec_get (\<lambda>as. [as ! 0, 11])"

definition spec_istimesync :: tspec where [tspec_defs]: "spec_istimesync = same_as 1 spec_get (\<lambda>as. [as ! 0, 12])"

definition spec_nodeid :: tspec where [tspec_defs]: "spec_nodeid = same_as 1 spec_get (\<lambda>as.
      [as ! 0, 13])"

definition spec_globaltime_ms :: tspec where [tspec_defs]: "spec_globaltime_ms = same_as 1 spec_get (\<lambda>as. [as ! 0, 14])"

definition spec_localtime_ms :: tspec where [tspec_defs]: "spec_localtime_ms = same_as 1 spec_get (\<lambda>as. [as ! 0, 15])"

definition spec_linkquality :: tspec where [tspec_defs]: "spec_linkquality = same_as 1 spec_get (\<lambda>as. [as ! 0, 16])"

definition spec_platform :: tspec where [tspec_defs]: "spec_platform = same_as 1 spec_get (\<lambda>as. [as ! 0, 17])"

definition spec_clock_freq :: tspec where [tspec_defs]: "spec_clock_freq = same_as 1 spec_get (\<lambda>as. [as ! 0, 18])"

definition spec_master :: tspec where [tspec_defs]: "spec_master = same_as 1 spec_get (\<lambda>as.
      [as ! 0, 19])"

definition spec_hopcount :: tspec where [tspec_defs]: "spec_hopcount = same_as 1 spec_get (\<lambda>as. [as ! 0, 20])"

definition spec_rssi :: tspec where [tspec_defs]: "spec_rssi = same_as 1 spec_get (\<lambda>as. [as ! 0, 21])"

definition spec_lt :: tspec where [tspec_defs]: "spec_lt = same_as 3 spec_comparison (\<lambda>as.
      [as ! 0, as ! 1, 11, as ! 2])"

definition spec_count_lt :: tspec where [tspec_defs]: "spec_count_lt = same_as 3 spec_comparison (\<lambda>as. [as ! 0, as ! 1, 21, as ! 2])"

definition spec_gt :: tspec where [tspec_defs]: "spec_gt = same_as 3 spec_comparison (\<lambda>as.
      [as ! 0, as ! 1, 12, as ! 2])"

definition spec_count_gt :: tspec where [tspec_defs]: "spec_count_gt = same_as 3 spec_comparison (\<lambda>as. [as ! 0, as ! 1, 22, as ! 2])"

definition spec_eq :: tspec where [tspec_defs]: "spec_eq = same_as 3 spec_comparison (\<lambda>as.
      [as ! 0, as ! 1, 13, as ! 2])"

definition spec_count_eq :: tspec where [tspec_defs]: "spec_count_eq = same_as 3 spec_comparison (\<lambda>as. [as ! 0, as ! 1, 23, as ! 2])"

definition spec_leq :: tspec where [tspec_defs]: "spec_leq = same_as 3 spec_comparison (\<lambda>as.
      [as ! 0, as ! 1, 14, as ! 2])"

definition spec_count_leq :: tspec where [tspec_defs]: "spec_count_leq = same_as 3 spec_comparison (\<lambda>as. [as ! 0, as ! 1, 24, as ! 2])"

definition spec_geq :: tspec where [tspec_defs]: "spec_geq = same_as 3 spec_comparison (\<lambda>as.
      [as ! 0, as ! 1, 15, as ! 2])"

definition spec_count_geq :: tspec where [tspec_defs]: "spec_count_geq = same_as 3 spec_comparison (\<lambda>as. [as ! 0, as ! 1, 25, as ! 2])"

definition spec_neq :: tspec where [tspec_defs]: "spec_neq = same_as 3 spec_comparison (\<lambda>as.
      [as ! 0, as ! 1, 16, as ! 2])"

definition spec_count_neq :: tspec where [tspec_defs]: "spec_count_neq = same_as 3 spec_comparison (\<lambda>as. [as ! 0, as ! 1, 26, as ! 2])"

definition spec_sum :: tspec where [tspec_defs]: "spec_sum = same_as 2 spec_stats (\<lambda>as.
      [as ! 0, as ! 1, 1])"

definition spec_min :: tspec where [tspec_defs]: "spec_min = same_as 2 spec_stats (\<lambda>as.
      [as ! 0, as ! 1, 2])"

definition spec_max :: tspec where [tspec_defs]: "spec_max = same_as 2 spec_stats (\<lambda>as.
      [as ! 0, as ! 1, 3])"

definition spec_avg :: tspec where [tspec_defs]: "spec_avg = same_as 2 spec_stats (\<lambda>as.
      [as ! 0, as ! 1, 4])"

definition spec_std :: tspec where [tspec_defs]: "spec_std = same_as 2 spec_stats (\<lambda>as.
      [as ! 0, as ! 1, 5])"

definition spec_cnt :: tspec where [tspec_defs]: "spec_cnt = same_as 2 spec_stats (\<lambda>as.
      [as ! 0, as ! 1, 6])"

definition spec_meandev :: tspec where [tspec_defs]: "spec_meandev = same_as 2 spec_stats (\<lambda>as. [as ! 0, as ! 1, 7])"

definition spec_exist :: tspec where [tspec_defs]: "spec_exist = same_as 2 spec_attribute (\<lambda>as. [as ! 0, as ! 1, 1])"

definition spec_not_exist :: tspec where [tspec_defs]: "spec_not_exist = same_as 2 spec_attribute (\<lambda>as. [as ! 0, as ! 1, 2])"

definition spec_length :: tspec where [tspec_defs]: "spec_length = same_as 2 spec_attribute (\<lambda>as. [as ! 0, as ! 1, 3])"

definition spec_pack_n_wait :: tspec where [tspec_defs]: "spec_pack_n_wait = same_as 2 spec_pack (\<lambda>as. [as ! 0, as ! 1, 1])"

definition spec_tasklets :: "(string \<times> tspec) list" where
  "spec_tasklets = [
   (''sample'', spec_sample),
   (''voltage'', spec_voltage),
   (''count'', spec_count),
   (''constant'', spec_constant),
   (''send'', spec_send),
   (''sendpkt'', spec_sendpkt),
   (''sendstr'', spec_sendstr),
   (''sendrcrt'', spec_sendrcrt),
   (''get'', spec_get),
   (''parent'', spec_nexthop),
   (''nexthop'', spec_nexthop),
   (''children'', spec_children),
   (''neighbors'', spec_neighbors),
   (''rfpower'', spec_rfpower),
   (''rfchannel'', spec_rfchannel),
   (''localtime'', spec_localtime),
   (''globaltime'', spec_globaltime),
   (''is_timesync'', spec_istimesync),
   (''memory_stats'', spec_memory_stats),
   (''leds'', spec_leds),
   (''num_tasks'', spec_num_tasks),
   (''num_active_tasks'', spec_num_active_tasks),
   (''nodeid'', spec_nodeid),
   (''local_address'', spec_nodeid),
   (''localtime_ms'', spec_localtime_ms),
   (''globaltime_ms'', spec_globaltime_ms),
   (''platform'', spec_platform),
   (''clock_freq'', spec_clock_freq),
   (''master'', spec_master),
   (''hopcount'', spec_hopcount),
   (''rssi'', spec_rssi),
   (''linkquality'', spec_linkquality),
   (''issue'', spec_issue),
   (''repeat'', spec_repeat),
   (''wait'', spec_wait),
   (''wait_n_repeat'', spec_wait_n_repeat),
   (''globalrepeat'', spec_globalrepeat),
   (''alarm'', spec_alarm),
   (''actuate'', spec_actuate),
   (''set_leds'', spec_set_leds),
   (''set_rfpower'', spec_set_rfpower),
   (''sounder'', spec_sounder),
   (''toggle_leds'', spec_toggle_leds),
   (''leds0toggle'', spec_leds0toggle),
   (''leds1toggle'', spec_leds1toggle),
   (''leds2toggle'', spec_leds2toggle),
   (''reset_parent'', spec_reset_parent),
   (''hold_parent'', spec_hold_parent),
   (''storage'', spec_storage),
   (''store'', spec_store),
   (''retrieve'', spec_retrieve),
   (''restore'', spec_retrieve),
   (''comparison'', spec_comparison),
   (''lt'', spec_lt),
   (''gt'', spec_gt),
   (''eq'', spec_eq),
   (''leq'', spec_leq),
   (''geq'', spec_geq),
   (''neq'', spec_neq),
   (''count_lt'', spec_count_lt),
   (''count_gt'', spec_count_gt),
   (''count_eq'', spec_count_eq),
   (''count_leq'', spec_count_leq),
   (''count_geq'', spec_count_geq),
   (''count_neq'', spec_count_neq),
   (''stats'', spec_stats),
   (''sum'', spec_sum),
   (''min'', spec_min),
   (''max'', spec_max),
   (''avg'', spec_avg),
   (''std'', spec_std),
   (''cnt'', spec_cnt),
   (''meandev'', spec_meandev),
   (''logical'', spec_logical),
   (''logical_and'', spec_logical_and),
   (''and'', spec_logical_and),
   (''logical_or'', spec_logical_or),
   (''or'', spec_logical_or),
   (''logical_not'', spec_logical_not),
   (''not'', spec_logical_not),
   (''bit'', spec_bit),
   (''bit_and'', spec_bit_and),
   (''bit_or'', spec_bit_or),
   (''bit_not'', spec_bit_not),
   (''bit_xor'', spec_bit_xor),
   (''bit_nand'', spec_bit_nand),
   (''bit_nor'', spec_bit_nor),
   (''shiftleft'', spec_shiftleft),
   (''shiftright'', spec_shiftright),
   (''arith'', spec_arith),
   (''add'', spec_add),
   (''sub'', spec_sub),
   (''mult'', spec_mult),
   (''div'', spec_div),
   (''diff'', spec_diff),
   (''mod'', spec_mod),
   (''pow'', spec_pow),
   (''attribute'', spec_attribute),
   (''exist'', spec_exist),
   (''not_exist'', spec_not_exist),
   (''length'', spec_length),
   (''deleteattribute'', spec_deleteAttribute),
   (''deleteattributeif'', spec_deleteAttributeIf),
   (''deleteallattributeif'', spec_deleteAllAttributeIf),
   (''deleteactivetaskif'', spec_deleteActiveTaskIf),
   (''deletetaskif'', spec_deleteTaskIf),
   (''reboot'', spec_reboot),
   (''pack'', spec_pack),
   (''pack_n_wait'', spec_pack_n_wait),
   (''memoryop'', spec_memoryop),
   (''userbutton'', spec_user_button),
   (''security'', spec_security),
   (''image'', spec_image),
   (''image_snap'', spec_image_snap),
   (''image_get'', spec_image_get),
   (''image_detect'', spec_image_detect),
   (''image_detect_params'', spec_image_detect_params),
   (''image_detect_reset'', spec_image_detect_reset),
   (''image_detect_set'', spec_image_detect_set),
   (''image_set_capture_params'', spec_image_set_capture_params),
   (''image_get_capture_params'', spec_image_get_capture_params),
   (''image_reboot'', spec_image_reboot),
   (''image_getRle'', spec_image_getRle),
   (''image_getPackBits'', spec_image_getPackBits),
   (''image_copy'', spec_image_copy),
   (''rle'', spec_rle),
   (''packbits'', spec_packbits),
   (''vector'', spec_vector),
   (''onset_detector'', spec_onset_detector),
   (''lpfilter'', spec_firlpfilter),
   (''sample_rssi'', spec_sample_rssi),
   (''mda400'', spec_mda400),
   (''mda300'', spec_mda300),
   (''fastsample'', spec_fastsample)]"

section \<open>Where the parser builds something else\<close>

text \<open>
  The parser departs from the reference in three places: \<open>count(attr)\<close> is built as \<open>count(attr, 0, 0)\<close>, which never counts,
  \<open>wait(period, repeat)\<close> repeats only if \<open>repeat\<close> is 1, and the number of a logical operation is passed on as it is.
\<close>

definition built_count :: tspec where [tspec_defs]:
  "built_count as = (if length as = 1 then spec_count [as ! 0, 0, 0] else spec_count as)"

definition built_wait :: tspec where [tspec_defs]:
  "built_wait as = (if length as = 2 then spec_wait [as ! 0, if as ! 1 = 1 then 1 else 0] else spec_wait as)"

definition built_logical :: tspec where [tspec_defs]:
  "built_logical = native 4 (\<lambda>as k mem. Elem False 12
      [F16 (wd as 0), F16 (wd as 1), F8 (wd as 2), F8 k, F16 (wd as 3)])"

definition built_tasklets :: "(string \<times> tspec) list" where
  "built_tasklets = map (\<lambda>(n, t). (n, if n = ''count'' then built_count else if n = ''wait'' then built_wait
     else if n = ''logical'' then built_logical else t)) spec_tasklets"

section \<open>The functions of the parser implement the table\<close>

definition put_elem :: "bytes \<Rightarrow> nat \<Rightarrow> int \<Rightarrow> elem \<Rightarrow> construction" where
  "put_elem b l n e = (case e of Elem nx ty fs \<Rightarrow> if nx then put_element_nx b l n ty fs else put_element b l n ty fs)"

fun emit_all :: "tp_state \<Rightarrow> elem list \<Rightarrow> tp_result" where
  "emit_all s [] = Inr s"
| "emit_all s (e # es) =
    (case tp_emit s (\<lambda>b l n. put_elem b l n e) of Inl x \<Rightarrow> Inl x | Inr s' \<Rightarrow> emit_all s' es)"

definition emit_spec :: "tp_state \<Rightarrow> tp_failure + elem list \<Rightarrow> tp_result" where
  "emit_spec s r = (case r of Inl e \<Rightarrow> Inl e | Inr es \<Rightarrow> emit_all s es)"

text \<open>What a call leaves in the arguments is forgotten before the next one. The globals hold the numbers \<open>as\<close>; the rest of the array is 0.\<close>

definition args_are :: "tp_state \<Rightarrow> int list \<Rightarrow> bool" where
  "args_are s as \<longleftrightarrow> length as \<le> 20 \<and> tp_argpos s = int (length as) - 1
    \<and> tp_args s = as @ replicate (20 - length as) 0 \<and> 0 \<le> tp_arg_byteString s"

definition corresponds :: "(tp_state \<Rightarrow> tp_result) \<Rightarrow> tspec \<Rightarrow> bool" where
  "corresponds f t \<longleftrightarrow> (\<forall>s as. args_are s as \<longrightarrow>
     map_sum id tp_init_args (f s)
       = map_sum id tp_init_args (emit_spec s (t as (argtype s) (nat (tp_arg_byteString s)) (tp_mem s))))"

lemma emit_single [simp]: "emit_spec s (Inr [e]) = tp_emit s (\<lambda>b l n. put_elem b l n e)"
  by (simp add: emit_spec_def split: sum.split)

lemma emit_none [simp]: "emit_spec s (Inr []) = Inr s" "emit_spec s (Inl e) = Inl e"
  by (simp_all add: emit_spec_def)

lemma put_elem_Elem [simp]: "put_elem b l n (Elem False ty fs) = put_element b l n ty fs"
  "put_elem b l n (Elem True ty fs) = put_element_nx b l n ty fs"
  by (simp_all add: put_elem_def)

lemma length_put_bytes [simp]: "length (put_bytes b i bs) = length b"
  by (induction b i bs rule: put_bytes.induct) simp_all

lemma struct_bytes_simps [simp]: "struct_bytes [] = []" "struct_bytes (f # fs) = field_bytes f @ struct_bytes fs"
  "struct_bytes (fs @ gs) = struct_bytes fs @ struct_bytes gs"
  by (simp_all add: struct_bytes_def)

lemma length_field_bytes [simp]: "length (field_bytes (F8 b)) = 1" "length (field_bytes (F16 w)) = 2"
  "length (field_bytes (F32 d)) = 4" "length (field_bytes (FX16 w)) = 2" "length (field_bytes (Gap n)) = n"
  by (simp_all add: le16_def)

lemma length_le16 [simp]: "length (le16 w) = 2"
  by (simp add: le16_def)

lemma send_query_elem:
  assumes "length (struct_bytes fs) < 256"
  shows "send_query b l n mem m fs out = put_elem b l n (image_elem mem m fs out)"
proof -
  have "unat (of_nat (length (struct_bytes fs)) :: u8) = length (struct_bytes fs)"
    using assms by (simp add: unat_of_nat_u8)
  then show ?thesis by (simp add: send_query_def construct_cyclops_def image_elem_def query_def task_consts)
qed

lemma args_nth:
  "args_are s as \<Longrightarrow> i < 20 \<Longrightarrow> tp_args s ! i = (if i < length as then as ! i else 0)"
  by (auto simp: args_are_def nth_append)

lemma args_count: "args_are s as \<Longrightarrow> tp_argpos s = int (length as) - 1"
  by (simp add: args_are_def)

lemma byteStrings_nat: "args_are s as \<Longrightarrow> tp_arg_byteString s = int (nat (tp_arg_byteString s))"
  by (simp add: args_are_def)

lemma args_length: "args_are s as \<Longrightarrow> length (tp_args s) = 20"
  by (simp add: args_are_def)

lemmas corr_simps = corresponds_def tp_defs tspec_defs task_consts arg_def args_nth args_count with_args_def Let_def

lemma corr_issue:
  "corresponds tp_process_issue spec_issue"
  "corresponds tp_process_repeat spec_repeat"
  "corresponds tp_process_wait built_wait"
  "corresponds tp_process_wait_n_repeat spec_wait_n_repeat"
  "corresponds tp_process_alarm spec_alarm"
  "corresponds tp_process_globalrepeat spec_globalrepeat"
  "corresponds tp_process_storage spec_storage"
  "corresponds tp_process_store spec_store"
  "corresponds tp_process_retrieve spec_retrieve"
  by (auto simp: corr_simps)

lemma corr_count:
  "corresponds tp_process_count built_count"
  "corresponds tp_process_constant spec_constant"
  "corresponds tp_process_actuate spec_actuate"
  "corresponds tp_process_set_leds spec_set_leds"
  "corresponds tp_process_toggle_leds spec_toggle_leds"
  "corresponds tp_process_set_rfpower spec_set_rfpower"
  "corresponds tp_process_sounder spec_sounder"
  "corresponds tp_process_reset_parent spec_reset_parent"
  "corresponds tp_process_hold_parent spec_hold_parent"
  by (auto simp: corr_simps)

lemma corr_logical:
  "corresponds tp_process_logical built_logical"
  "corresponds tp_process_logical_and spec_logical_and"
  "corresponds tp_process_logical_or spec_logical_or"
  "corresponds tp_process_logical_not spec_logical_not"
  "corresponds tp_process_bit spec_bit"
  "corresponds tp_process_bit_and spec_bit_and"
  "corresponds tp_process_bit_or spec_bit_or"
  "corresponds tp_process_bit_not spec_bit_not"
  "corresponds tp_process_bit_xor spec_bit_xor"
  "corresponds tp_process_bit_nand spec_bit_nand"
  "corresponds tp_process_bit_nor spec_bit_nor"
  "corresponds tp_process_shiftleft spec_shiftleft"
  "corresponds tp_process_shiftright spec_shiftright"
  by (auto simp: corr_simps)

lemma corr_arith:
  "corresponds tp_process_arith spec_arith"
  "corresponds tp_process_add spec_add"
  "corresponds tp_process_sub spec_sub"
  "corresponds tp_process_mult spec_mult"
  "corresponds tp_process_div spec_div"
  "corresponds tp_process_diff spec_diff"
  "corresponds tp_process_mod spec_mod"
  "corresponds tp_process_pow spec_pow"
  by (auto simp: corr_simps)

lemma corr_get:
  "corresponds tp_process_get spec_get"
  "corresponds tp_process_nexthop spec_nexthop"
  "corresponds tp_process_neighbors spec_neighbors"
  "corresponds tp_process_children spec_children"
  "corresponds tp_process_globaltime spec_globaltime"
  "corresponds tp_process_globaltime_ms spec_globaltime_ms"
  "corresponds tp_process_localtime spec_localtime"
  "corresponds tp_process_localtime_ms spec_localtime_ms"
  "corresponds tp_process_rfpower spec_rfpower"
  "corresponds tp_process_rfchannel spec_rfchannel"
  "corresponds tp_process_leds spec_leds"
  "corresponds tp_process_nodeid spec_nodeid"
  "corresponds tp_process_memory_stats spec_memory_stats"
  "corresponds tp_process_num_tasks spec_num_tasks"
  "corresponds tp_process_num_active_tasks spec_num_active_tasks"
  "corresponds tp_process_istimesync spec_istimesync"
  "corresponds tp_process_platform spec_platform"
  "corresponds tp_process_clock_freq spec_clock_freq"
  "corresponds tp_process_master spec_master"
  "corresponds tp_process_hopcount spec_hopcount"
  "corresponds tp_process_rssi spec_rssi"
  "corresponds tp_process_linkquality spec_linkquality"
  by (auto simp: corr_simps)

lemma corr_comparison:
  "corresponds tp_process_comparison spec_comparison"
  "corresponds tp_process_lt spec_lt"
  "corresponds tp_process_gt spec_gt"
  "corresponds tp_process_eq spec_eq"
  "corresponds tp_process_leq spec_leq"
  "corresponds tp_process_geq spec_geq"
  "corresponds tp_process_neq spec_neq"
  "corresponds tp_process_count_lt spec_count_lt"
  "corresponds tp_process_count_gt spec_count_gt"
  "corresponds tp_process_count_eq spec_count_eq"
  "corresponds tp_process_count_leq spec_count_leq"
  "corresponds tp_process_count_geq spec_count_geq"
  "corresponds tp_process_count_neq spec_count_neq"
  by (auto simp: corr_simps)

lemma corr_stats:
  "corresponds tp_process_stats spec_stats"
  "corresponds tp_process_sum spec_sum"
  "corresponds tp_process_min spec_min"
  "corresponds tp_process_max spec_max"
  "corresponds tp_process_avg spec_avg"
  "corresponds tp_process_std spec_std"
  "corresponds tp_process_cnt spec_cnt"
  "corresponds tp_process_meandev spec_meandev"
  "corresponds tp_process_attribute spec_attribute"
  "corresponds tp_process_exist spec_exist"
  "corresponds tp_process_not_exist spec_not_exist"
  "corresponds tp_process_length spec_length"
  by (auto simp: corr_simps)

lemma corr_send:
  "corresponds tp_process_reboot spec_reboot"
  "corresponds tp_process_pack spec_pack"
  "corresponds tp_process_pack_n_wait spec_pack_n_wait"
  "corresponds tp_process_send spec_send"
  "corresponds tp_process_sendpkt spec_sendpkt"
  "corresponds tp_process_sendstr spec_sendstr"
  "corresponds tp_process_sendrcrt spec_sendrcrt"
  "corresponds tp_process_deleteAttributeIf spec_deleteAttributeIf"
  "corresponds tp_process_deleteAttribute spec_deleteAttribute"
  "corresponds tp_process_deleteAllAttributeIf spec_deleteAllAttributeIf"
  "corresponds tp_process_deleteActiveTaskIf spec_deleteActiveTaskIf"
  "corresponds tp_process_deleteTaskIf spec_deleteTaskIf"
  by (auto simp: corr_simps)

lemma corr_sample:
  "corresponds tp_process_sample spec_sample"
  "corresponds tp_process_voltage spec_voltage"
  "corresponds tp_process_fastsample spec_fastsample"
  "corresponds tp_process_user_button spec_user_button"
  "corresponds tp_process_memoryop spec_memoryop"
  "corresponds tp_process_sample_rssi spec_sample_rssi"
  "corresponds tp_process_mda400 spec_mda400"
  "corresponds tp_process_onset_detector spec_onset_detector"
  "corresponds tp_process_mda300 spec_mda300"
  "corresponds tp_process_firlpfilter spec_firlpfilter"
  "corresponds tp_process_rle spec_rle"
  "corresponds tp_process_packbits spec_packbits"
  "corresponds tp_process_vector spec_vector"
  by (auto simp: corr_simps)

lemma corr_image:
  "corresponds tp_process_image spec_image"
  "corresponds tp_process_image_get spec_image_get"
  "corresponds tp_process_image_snap spec_image_snap"
  "corresponds tp_process_image_detect spec_image_detect"
  "corresponds tp_process_image_detect_reset spec_image_detect_reset"
  "corresponds tp_process_image_detect_set spec_image_detect_set"
  "corresponds tp_process_image_detect_params spec_image_detect_params"
  "corresponds tp_process_image_set_capture_params spec_image_set_capture_params"
  "corresponds tp_process_image_get_capture_params spec_image_get_capture_params"
  "corresponds tp_process_image_reboot spec_image_reboot"
  "corresponds tp_process_image_getRle spec_image_getRle"
  "corresponds tp_process_image_getPackBits spec_image_getPackBits"
  "corresponds tp_process_image_copy spec_image_copy"
  by (auto simp: corr_simps send_query_elem)

lemma corr_toggle:
  "corresponds tp_process_leds0toggle spec_leds0toggle"
  "corresponds tp_process_leds1toggle spec_leds1toggle"
  "corresponds tp_process_leds2toggle spec_leds2toggle"
  by (auto simp: corr_simps argtype_def args_length tp_emit_def tp_init_args_def split: option.split)

lemma corr_security:
  "corresponds tp_process_security spec_security"
  by (auto simp: corresponds_def tp_defs tspec_defs args_are_def)

lemma tasklets_correspond:
  "list_all2 (\<lambda>(n, f) (m, t). n = m \<and> corresponds f t) tp_tasklets built_tasklets"
  unfolding tp_tasklets_def built_tasklets_def spec_tasklets_def
  by (simp add: corr_issue corr_count corr_logical corr_arith corr_get corr_comparison corr_stats corr_send
      corr_sample corr_image corr_toggle corr_security)

lemma find_rel:
  "list_all2 (\<lambda>(n, f) (m, t). n = m \<and> P f t) xs ys \<Longrightarrow>
    rel_option (\<lambda>(n, f) (m, t). P f t) (find (\<lambda>(n, f). Q n) xs) (find (\<lambda>(n, t). Q n) ys)"
  by (induction rule: list_all2_induct) auto

section \<open>Meaning of a description\<close>

definition numbers :: "task_arg list \<Rightarrow> int list" where
  "numbers args = concat (map (\<lambda>a. case a of Number k \<Rightarrow> [k] | Quoted k \<Rightarrow> [k] | Bytes b \<Rightarrow> []) args)"

definition is_quoted :: "task_arg \<Rightarrow> bool" where
  "is_quoted a = (case a of Quoted k \<Rightarrow> True | _ \<Rightarrow> False)"

definition strings :: "task_arg list \<Rightarrow> nat" where
  "strings args = length (filter (\<lambda>a. case a of Bytes b \<Rightarrow> True | _ \<Rightarrow> False) args)"

text \<open>The meaning by a table of tasklets: by the reference it is what is documented, by the other table what is built.\<close>

definition tasklet_in :: "(string \<times> tspec) list \<Rightarrow> string \<Rightarrow> task_arg list \<Rightarrow> (nat \<Rightarrow> u8) \<Rightarrow> tp_failure + elem list" where
  "tasklet_in tab f args mem =
    (if length (numbers args) > 20 \<or> strings args > 19 then Inl TP_EXIT
     else (case find (\<lambda>(n, t). strcaseeq f n) tab of
             None \<Rightarrow> Inl TP_EXIT
           | Some (n, t) \<Rightarrow> t (numbers args) (if \<exists>a \<in> set args. is_quoted a then 0 else 1) (strings args) mem))"

fun task_in :: "(string \<times> tspec) list \<Rightarrow> task_element list \<Rightarrow> (nat \<Rightarrow> u8) \<Rightarrow> tp_failure + elem list" where
  "task_in tab [] mem = Inr []"
| "task_in tab (Tasklet f args # es) mem =
    (case tasklet_in tab f args mem of
       Inl e \<Rightarrow> Inl e
     | Inr a \<Rightarrow> (case task_in tab es mem of Inl e \<Rightarrow> Inl e | Inr b \<Rightarrow> Inr (a @ b)))"
| "task_in tab (Node k # es) mem = Inl TP_EXIT"

abbreviation task_meaning :: "task_element list \<Rightarrow> (nat \<Rightarrow> u8) \<Rightarrow> tp_failure + elem list" where
  "task_meaning \<equiv> task_in spec_tasklets"

abbreviation task_built :: "task_element list \<Rightarrow> (nat \<Rightarrow> u8) \<Rightarrow> tp_failure + elem list" where
  "task_built \<equiv> task_in built_tasklets"

text \<open>The tasklets for which the two are the same.\<close>

fun as_documented :: "task_element \<Rightarrow> bool" where
  "as_documented (Tasklet f args) \<longleftrightarrow> \<not> (strcaseeq f ''count'' \<and> length (numbers args) = 1)
    \<and> \<not> (strcaseeq f ''wait'' \<and> length (numbers args) = 2 \<and> numbers args ! 1 \<notin> {0, 1})
    \<and> \<not> (strcaseeq f ''logical'' \<and> length (numbers args) = 4 \<and> numbers args ! 2 \<in> {11, 12, 13})"
| "as_documented (Node k) \<longleftrightarrow> True"

lemma find_built:
  "find (\<lambda>(n, t). Q n) (map (\<lambda>(n, t). (n, g n t)) xs) = map_option (\<lambda>(n, t). (n, g n t)) (find (\<lambda>(n, t). Q n) xs)"
  by (induction xs) auto

lemma tasklet_documented:
  assumes "as_documented (Tasklet f args)"
  shows "tasklet_in built_tasklets f args mem = tasklet_in spec_tasklets f args mem"
proof (cases "find (\<lambda>(n, t). strcaseeq f n) spec_tasklets")
  case None
  then show ?thesis unfolding tasklet_in_def built_tasklets_def find_built by simp
next
  case (Some nt)
  obtain n t where nt: "nt = (n, t)" by (cases nt)
  then have n: "strcaseeq f n" "(n, t) \<in> set spec_tasklets"
    using Some unfolding find_Some_iff by (auto simp: set_conv_nth)
  have "n = ''count'' \<longrightarrow> t = spec_count" "n = ''wait'' \<longrightarrow> t = spec_wait" "n = ''logical'' \<longrightarrow> t = spec_logical"
    using n(2) unfolding spec_tasklets_def by auto
  then have "(if n = ''count'' then built_count else if n = ''wait'' then built_wait
      else if n = ''logical'' then built_logical else t) (numbers args) = t (numbers args)"
    using assms n(1)
    by (auto simp: built_count_def built_wait_def built_logical_def spec_wait_def spec_logical_def native_def logical_op_def wd_def fun_eq_iff)
  then show ?thesis using Some unfolding tasklet_in_def built_tasklets_def find_built nt by simp
qed

lemma task_documented: "\<forall>e \<in> set es. as_documented e \<Longrightarrow> task_built es mem = task_meaning es mem"
proof (induction es)
  case (Cons e es)
  then show ?case by (cases e) (simp_all add: tasklet_documented del: as_documented.simps split: sum.split)
qed simp

section \<open>Arguments of a tasklet\<close>

text \<open>The state in front of a tasklet, and what calls for arguments leave alone.\<close>

definition between :: "tp_state \<Rightarrow> bool" where
  "between s \<longleftrightarrow> args_are s [] \<and> \<not> tp_is_constant s \<and> tp_arg_byteString s = 0"

definition core :: "tp_state \<Rightarrow> bytes \<times> nat \<times> int \<times> (nat \<Rightarrow> u8)" where
  "core s = (tp_packetbuf s, tp_length s, tp_num_elements s, tp_mem s)"

lemma add_arg_are:
  assumes "args_are s as"
  shows "tp_add_arg k s = (if length as \<ge> 20 then Inl TP_EXIT
      else Inr (s\<lparr>tp_argpos := int (length as), tp_args := (tp_args s)[length as := k]\<rparr>))"
    "length as < 20 \<Longrightarrow> args_are (s\<lparr>tp_argpos := int (length as), tp_args := (tp_args s)[length as := k]\<rparr>) (as @ [k])"
proof -
  show "tp_add_arg k s = (if length as \<ge> 20 then Inl TP_EXIT
      else Inr (s\<lparr>tp_argpos := int (length as), tp_args := (tp_args s)[length as := k]\<rparr>))"
    using assms by (simp add: tp_add_arg_def args_are_def Let_def task_consts)
  assume l: "length as < 20"
  then have "replicate (20 - length as) 0 = (0 :: int) # replicate (20 - Suc (length as)) 0"
    by (metis Suc_diff_Suc replicate_Suc)
  then have "(as @ replicate (20 - length as) 0)[length as := k] = as @ k # replicate (20 - Suc (length as)) 0"
    by (simp add: list_update_append)
  then show "args_are (s\<lparr>tp_argpos := int (length as), tp_args := (tp_args s)[length as := k]\<rparr>) (as @ [k])"
    using assms l by (simp add: args_are_def)
qed

lemma acts_args:
  assumes "args_are s as" "tp_is_constant s = q" "tp_arg_byteString s = int nb" "nb \<le> 19"
  shows "if length (as @ numbers args) > 20 \<or> nb + strings args > 19
      then tp_acts (concat (map arg_actions args) @ rest) s = Inl TP_EXIT
      else \<exists>s'. tp_acts (concat (map arg_actions args) @ rest) s = tp_acts rest s'
        \<and> args_are s' (as @ numbers args) \<and> tp_is_constant s' = (q \<or> (\<exists>a \<in> set args. is_quoted a))
        \<and> tp_arg_byteString s' = int (nb + strings args) \<and> core s' = core s"
  using assms
proof (induction args arbitrary: s as q nb)
  case Nil
  have "length as \<le> 20" using Nil.prems(1) by (simp add: args_are_def)
  then show ?case using Nil.prems by (auto simp: numbers_def strings_def)
next
  case (Cons a args)
  have l20: "length as \<le> 20" using Cons.prems(1) by (simp add: args_are_def)
  let ?s = "\<lambda>k. s\<lparr>tp_argpos := int (length as), tp_args := (tp_args s)[length as := k]\<rparr>"
  show ?case
  proof (cases a)
    case (Number k)
    show ?thesis
    proof (cases "length as < 20")
      case True
      show ?thesis
        using Cons.IH [OF add_arg_are(2) [OF Cons.prems(1) True, of k], where q = q and nb = nb] Cons.prems(2-4) True
        by (auto simp: Number add_arg_are(1) [OF Cons.prems(1)] numbers_def strings_def is_quoted_def core_def split: if_splits)
    next
      case False
      then show ?thesis by (simp add: Number add_arg_are(1) [OF Cons.prems(1)] numbers_def)
    qed
  next
    case (Quoted k)
    show ?thesis
    proof (cases "length as < 20")
      case True
      have "args_are (tp_set_constant (?s k)) (as @ [k])"
        using add_arg_are(2) [OF Cons.prems(1) True, of k] by (simp add: args_are_def tp_set_constant_def)
      from Cons.IH [OF this, where q = True and nb = nb] show ?thesis
        using Cons.prems(2-4) True
        by (auto simp: Quoted add_arg_are(1) [OF Cons.prems(1)] numbers_def strings_def is_quoted_def core_def
            tp_set_constant_def split: if_splits)
    next
      case False
      then show ?thesis by (simp add: Quoted add_arg_are(1) [OF Cons.prems(1)] numbers_def)
    qed
  next
    case (Bytes b)
    show ?thesis
    proof (cases "nb + 1 \<le> 19")
      case True
      let ?t = "s\<lparr>tp_byteString := (tp_byteString s)[nb := b], tp_arg_byteString := int nb + 1\<rparr>"
      have "args_are ?t as" using Cons.prems(1) by (simp add: args_are_def)
      from Cons.IH [OF this, where q = q and nb = "nb + 1"] show ?thesis
        using Cons.prems(2-4) True
        by (auto simp: Bytes tp_add_byteString_def task_consts numbers_def strings_def is_quoted_def core_def
            split: if_splits)
    next
      case False
      then show ?thesis using Cons.prems(3,4)
        by (simp add: Bytes tp_add_byteString_def task_consts strings_def)
    qed
  qed
qed

section \<open>The bytes of a description\<close>

fun elem_bytes :: "elem \<Rightarrow> u8 option list" where
  "elem_bytes (Elem nx ty fs) =
    (let n = of_nat (length (struct_bytes fs))
     in struct_bytes ((if nx then [FX16 ty, FX16 n] else [F16 ty, F16 n]) @ fs))"

definition elems_bytes :: "elem list \<Rightarrow> u8 option list" where
  "elems_bytes es = concat (map elem_bytes es)"

lemma elems_bytes_simps [simp]: "elems_bytes [] = []" "elems_bytes (e # es) = elem_bytes e @ elems_bytes es"
  "elems_bytes (es @ es') = elems_bytes es @ elems_bytes es'"
  by (simp_all add: elems_bytes_def)

lemma put_elem_eq:
  "put_elem b l n e = (if l + length (elem_bytes e) > length b then None
    else Some (length (elem_bytes e), put_bytes b l (elem_bytes e), n + 1))"
  by (cases e) (simp add: put_elem_def put_element_def put_element_nx_def put_tlv_def Let_def)

lemma put_bytes_append: "put_bytes b i (xs @ ys) = put_bytes (put_bytes b i xs) (i + length xs) ys"
  by (induction b i xs rule: put_bytes.induct) simp_all

lemma emit_all_eq:
  "tp_length s \<le> length (tp_packetbuf s) \<Longrightarrow>
    emit_all s es =
      (if tp_length s + length (elems_bytes es) \<le> length (tp_packetbuf s)
       then Inr (s\<lparr>tp_packetbuf := put_bytes (tp_packetbuf s) (tp_length s) (elems_bytes es),
              tp_length := tp_length s + length (elems_bytes es), tp_num_elements := tp_num_elements s + int (length es)\<rparr>)
       else Inl TP_UNDEFINED)"
proof (induction es arbitrary: s)
  case (Cons e es)
  let ?n = "length (elem_bytes e)"
  let ?s = "s\<lparr>tp_packetbuf := put_bytes (tp_packetbuf s) (tp_length s) (elem_bytes e),
      tp_length := tp_length s + ?n, tp_num_elements := tp_num_elements s + 1\<rparr>"
  show ?case
  proof (cases "tp_length s + ?n \<le> length (tp_packetbuf s)")
    case True
    have e: "tp_emit s (\<lambda>b l n. put_elem b l n e) = Inr ?s" using True by (simp add: tp_emit_def put_elem_eq)
    have "emit_all ?s es = (if tp_length ?s + length (elems_bytes es) \<le> length (tp_packetbuf ?s)
       then Inr (?s\<lparr>tp_packetbuf := put_bytes (tp_packetbuf ?s) (tp_length ?s) (elems_bytes es),
              tp_length := tp_length ?s + length (elems_bytes es), tp_num_elements := tp_num_elements ?s + int (length es)\<rparr>)
       else Inl TP_UNDEFINED)"
      by (rule Cons.IH) (use True in simp)
    then show ?thesis by (simp add: e put_bytes_append add.assoc)
  next
    case False
    then show ?thesis by (simp add: tp_emit_def put_elem_eq)
  qed
qed simp

section \<open>Running a description\<close>

lemma between_init: "between (tp_init_args s)"
  by (simp add: between_def tp_init_args_def args_are_def task_consts)

lemma core_init [simp]: "core (tp_init_args s) = core s"
  by (simp add: core_def tp_init_args_def)

lemma call_is_spec:
  assumes "args_are s as"
    and t: "(case find (\<lambda>(n, t). strcaseeq f n) built_tasklets of None \<Rightarrow> Inl TP_EXIT
           | Some (n, t) \<Rightarrow> t as (argtype s) (nat (tp_arg_byteString s)) (tp_mem s)) = r"
  shows "tp_call_constructor f s = map_sum id tp_init_args (emit_spec s r)"
proof (cases "find (\<lambda>(n, t). strcaseeq f n) built_tasklets")
  case None
  then have "find (\<lambda>(n, f'). strcaseeq f n) tp_tasklets = None"
    using find_rel [OF tasklets_correspond, of "strcaseeq f"] by (simp add: option_rel_Some2 split: option.splits)
  then show ?thesis using None t by (auto simp: tp_call_constructor_def)
next
  case (Some nt)
  obtain n t' where nt: "nt = (n, t')" by (cases nt)
  obtain n' g where g: "find (\<lambda>(n, f'). strcaseeq f n) tp_tasklets = Some (n', g)" "corresponds g t'"
    using find_rel [OF tasklets_correspond, of "strcaseeq f"] unfolding Some nt
    by (auto simp: option_rel_Some2)
  show ?thesis
    using g assms(1) t unfolding Some nt by (simp add: tp_call_constructor_def corresponds_def)
qed

lemma call_runs:
  assumes "args_are s as" "tp_length s \<le> length (tp_packetbuf s)"
    and t: "(case find (\<lambda>(n, t). strcaseeq f n) built_tasklets of None \<Rightarrow> Inl TP_EXIT
           | Some (n, t) \<Rightarrow> t as (argtype s) (nat (tp_arg_byteString s)) (tp_mem s)) = r"
  shows "case r of Inl e \<Rightarrow> tp_call_constructor f s = Inl e
    | Inr es \<Rightarrow> (if tp_length s + length (elems_bytes es) \<le> length (tp_packetbuf s)
        then \<exists>s'. tp_call_constructor f s = Inr s' \<and> between s'
          \<and> core s' = (put_bytes (tp_packetbuf s) (tp_length s) (elems_bytes es), tp_length s + length (elems_bytes es),
               tp_num_elements s + int (length es), tp_mem s)
        else tp_call_constructor f s = Inl TP_UNDEFINED)"
proof (cases r)
  case (Inr es)
  show ?thesis unfolding call_is_spec [OF assms(1) t] Inr emit_spec_def sum.case emit_all_eq [OF assms(2)]
    using between_init by (auto simp: core_def tp_init_args_def)
qed (simp add: call_is_spec [OF assms(1) t])

lemma acts_append: "tp_acts (as @ bs) s = (case tp_acts as s of Inl e \<Rightarrow> Inl e | Inr s' \<Rightarrow> tp_acts bs s')"
  by (induction as arbitrary: s) (simp_all split: sum.split)

lemma tasklet_runs:
  assumes "between s" "tp_length s \<le> length (tp_packetbuf s)"
  shows "case tasklet_in built_tasklets f args (tp_mem s) of
      Inl e \<Rightarrow> tp_acts (element_actions (Tasklet f args)) s = Inl e
    | Inr es \<Rightarrow> (if tp_length s + length (elems_bytes es) \<le> length (tp_packetbuf s)
        then \<exists>s'. tp_acts (element_actions (Tasklet f args)) s = Inr s' \<and> between s'
          \<and> core s' = (put_bytes (tp_packetbuf s) (tp_length s) (elems_bytes es), tp_length s + length (elems_bytes es),
               tp_num_elements s + int (length es), tp_mem s)
        else tp_acts (element_actions (Tasklet f args)) s = Inl TP_UNDEFINED)"
proof (cases "length (numbers args) > 20 \<or> strings args > 19")
  case True
  have "tp_acts (element_actions (Tasklet f args)) s = Inl TP_EXIT"
    using acts_args [of s "[]" False 0 args "[Call_constructor f]"] assms(1) True by (simp add: between_def)
  then show ?thesis using True by (simp add: tasklet_in_def)
next
  case False
  obtain s' where s': "tp_acts (element_actions (Tasklet f args)) s = tp_acts [Call_constructor f] s'"
    "args_are s' (numbers args)" "tp_is_constant s' = (\<exists>a \<in> set args. is_quoted a)"
    "tp_arg_byteString s' = int (strings args)" "core s' = core s"
    using acts_args [of s "[]" False 0 args "[Call_constructor f]"] assms(1) False by (auto simp: between_def)
  have c: "tp_packetbuf s' = tp_packetbuf s" "tp_length s' = tp_length s" "tp_num_elements s' = tp_num_elements s"
    "tp_mem s' = tp_mem s" using s'(5) by (simp_all add: core_def)
  have arg: "argtype s' = (if \<exists>a \<in> set args. is_quoted a then 0 else 1)"
    by (simp add: argtype_def s'(3) task_consts)
  have len: "tp_length s' \<le> length (tp_packetbuf s')" using assms(2) c by simp
  have m: "(case find (\<lambda>(n, t). strcaseeq f n) built_tasklets of None \<Rightarrow> Inl TP_EXIT
      | Some (n, t) \<Rightarrow> t (numbers args) (argtype s') (nat (tp_arg_byteString s')) (tp_mem s'))
      = tasklet_in built_tasklets f args (tp_mem s)"
    unfolding tasklet_in_def arg s'(4) c(4) nat_int using False by (simp only: if_False)
  have act: "tp_acts [Call_constructor f] s' = tp_call_constructor f s'" by (simp split: sum.split)
  show ?thesis using call_runs [OF s'(2) len m] unfolding s'(1) act c .
qed

lemma chain_runs:
  assumes "between s" "tp_length s \<le> length (tp_packetbuf s)" "task_built es (tp_mem s) = Inr els"
  shows "if tp_length s + length (elems_bytes els) \<le> length (tp_packetbuf s)
      then \<exists>s'. tp_acts (chain_actions es) s = Inr s' \<and> between s'
        \<and> core s' = (put_bytes (tp_packetbuf s) (tp_length s) (elems_bytes els), tp_length s + length (elems_bytes els),
             tp_num_elements s + int (length els), tp_mem s)
      else tp_acts (chain_actions es) s = Inl TP_UNDEFINED"
  using assms
proof (induction es arbitrary: s els)
  case Nil
  then show ?case by (auto simp: chain_actions_def core_def)
next
  case (Cons e es)
  obtain f args where e: "e = Tasklet f args" using Cons.prems(3) by (cases e) auto
  obtain a b where ab: "tasklet_in built_tasklets f args (tp_mem s) = Inr a" "task_built es (tp_mem s) = Inr b" "els = a @ b"
    using Cons.prems(3) unfolding e by (auto split: sum.splits)
  have run: "tp_acts (chain_actions (e # es)) s
      = (case tp_acts (element_actions e) s of Inl x \<Rightarrow> Inl x | Inr s' \<Rightarrow> tp_acts (chain_actions es) s')"
    unfolding chain_actions_def by (simp add: acts_append)
  note one = tasklet_runs [OF Cons.prems(1,2), of f args, unfolded ab(1) sum.case]
  show ?case
  proof (cases "tp_length s + length (elems_bytes a) \<le> length (tp_packetbuf s)")
    case True
    then obtain s' where s': "tp_acts (element_actions e) s = Inr s'" "between s'"
      "core s' = (put_bytes (tp_packetbuf s) (tp_length s) (elems_bytes a), tp_length s + length (elems_bytes a),
               tp_num_elements s + int (length a), tp_mem s)"
      using one unfolding e by auto
    have c: "tp_packetbuf s' = put_bytes (tp_packetbuf s) (tp_length s) (elems_bytes a)"
      "tp_length s' = tp_length s + length (elems_bytes a)" "tp_num_elements s' = tp_num_elements s + int (length a)"
      "tp_mem s' = tp_mem s"
      using s'(3) by (simp_all add: core_def)
    have "tp_length s' \<le> length (tp_packetbuf s')" "task_built es (tp_mem s') = Inr b"
      using True c ab(2) by simp_all
    from Cons.IH [OF s'(2) this] show ?thesis
      unfolding run s'(1) sum.case c ab(3) by (simp add: put_bytes_append add.assoc split: if_splits)
  next
    case False
    then show ?thesis using one unfolding run unfolding e ab(3) by simp
  qed
qed

text \<open>What \<open>count(attr)\<close> becomes: not the documented tasklet, but one that stays at 0.\<close>

lemma tasklet_in_count:
  "tasklet_in built_tasklets ''count'' args mem
    = (if length (numbers args) > 20 \<or> strings args > 19 then Inl TP_EXIT else built_count (numbers args) undefined undefined undefined)"
  "tasklet_in spec_tasklets ''count'' args mem
    = (if length (numbers args) > 20 \<or> strings args > 19 then Inl TP_EXIT else spec_count (numbers args) undefined undefined undefined)"
  by (simp_all add: tasklet_in_def built_tasklets_def spec_tasklets_def strcaseeq_def tolower_def built_count_def spec_count_def)

lemma count_alias_never_counts:
  "task_built [Tasklet ''count'' [Number k]] mem = task_meaning [Tasklet ''count'' [Number k, Number 0, Number 0]] mem
    \<and> task_meaning [Tasklet ''count'' [Number k]] mem = task_meaning [Tasklet ''count'' [Number k, Number 0, Number 1]] mem
    \<and> task_built [Tasklet ''count'' [Number k]] mem \<noteq> task_meaning [Tasklet ''count'' [Number k]] mem"
  by (simp add: tasklet_in_count numbers_def strings_def built_count_def spec_count_def wd_def)

text \<open>The parser on a description without syntax errors, from its caller's buffer to the packet.\<close>

lemma parse_runs:
  assumes "task_built es (tp_mem s) = Inr els" "2 \<le> length buf" "len < 300"
  shows "if 2 + length (elems_bytes els) \<le> length buf
    then \<exists>s'. tp_parse_task buf len (chain_actions es) False s = Inr (2 + int (length (elems_bytes els)), s')
      \<and> tp_packetbuf s' = put8 (put_bytes (put8 buf 0 1) 2 (elems_bytes els)) 1 (of_nat (length els))
    else tp_parse_task buf len (chain_actions es) False s = Inl TP_UNDEFINED"
proof -
  let ?s = "tp_init_args (s\<lparr>tp_packetbuf := buf, tp_length := 0, tp_num_elements := 0\<rparr>)"
  let ?s1 = "?s\<lparr>tp_packetbuf := put8 buf 0 1, tp_length := 2\<rparr>"
  have "buf \<noteq> []" using assms(2) by auto
  then have i: "tp_process_init ?s = Inr ?s1"
    by (simp add: tp_process_init_def construct_init_def tp_init_args_def task_consts)
  have s1: "between ?s1" "tp_length ?s1 \<le> length (tp_packetbuf ?s1)" "task_built es (tp_mem ?s1) = Inr els"
    using between_init [of "s\<lparr>tp_packetbuf := buf, tp_length := 0, tp_num_elements := 0\<rparr>"] assms(1,2)
    by (simp_all add: between_def args_are_def tp_init_args_def)
  have p: "tp_parse_task buf len (chain_actions es) False s
      = (case (case tp_acts (chain_actions es) ?s1 of Inl e \<Rightarrow> Inl e | Inr s2 \<Rightarrow> tp_process_finalize s2) of
           Inl e \<Rightarrow> Inl e | Inr s' \<Rightarrow> Inr (int (tp_length s'), s'))"
    unfolding tp_parse_task_def tp_doit_def i sum.case if_False using assms(3) by (simp add: task_consts)
  show ?thesis
  proof (cases "2 + length (elems_bytes els) \<le> length buf")
    case True
    then obtain s2 where s2: "tp_acts (chain_actions es) ?s1 = Inr s2" "between s2"
      "core s2 = (put_bytes (put8 buf 0 1) 2 (elems_bytes els), 2 + length (elems_bytes els), int (length els), tp_mem s)"
      using chain_runs [OF s1] by (auto simp: tp_init_args_def)
    have c: "tp_packetbuf s2 = put_bytes (put8 buf 0 1) 2 (elems_bytes els)"
      "tp_length s2 = 2 + length (elems_bytes els)" "tp_num_elements s2 = int (length els)"
      using s2(3) by (simp_all add: core_def)
    have "tp_process_finalize s2 = Inr (s2\<lparr>tp_packetbuf := put8 (put_bytes (put8 buf 0 1) 2 (elems_bytes els)) 1 (of_nat (length els))\<rparr>)"
      using s2(2) c assms(2) by (simp add: tp_process_finalize_def construct_finalize_def between_def args_are_def)
    then show ?thesis using True s2(1) c unfolding p by simp
  next
    case False
    then show ?thesis using chain_runs [OF s1] unfolding p by (simp add: tp_init_args_def)
  qed
qed


section \<open>The state of the parser\<close>

text \<open>
  The arrays keep their lengths, the positions stay inside them, the unused arguments are 0 and what is written of the
  packet lies in its buffer, of \<open>n\<close> bytes.
\<close>

definition tp_wf :: "nat \<Rightarrow> tp_state \<Rightarrow> bool" where
  "tp_wf n s \<longleftrightarrow> (\<exists>as. args_are s as) \<and> tp_arg_byteString s \<le> 19 \<and> length (tp_byteString s) = 20
     \<and> length (tp_packetbuf s) = n \<and> tp_length s \<le> n"

lemma call_wf:
  assumes "tp_wf n s" "tp_call_constructor f s = Inr s'"
  shows "tp_wf n s'"
proof -
  obtain as where as: "args_are s as" using assms(1) by (auto simp: tp_wf_def)
  have len: "tp_length s \<le> length (tp_packetbuf s)" using assms(1) by (simp add: tp_wf_def)
  obtain es where es: "map_sum id tp_init_args (emit_all s es) = Inr s'"
    using call_is_spec [OF as refl, of f] assms(2) by (auto simp: emit_spec_def split: sum.splits)
  then have fit: "tp_length s + length (elems_bytes es) \<le> length (tp_packetbuf s)"
    and s': "s' = tp_init_args (s\<lparr>tp_packetbuf := put_bytes (tp_packetbuf s) (tp_length s) (elems_bytes es),
        tp_length := tp_length s + length (elems_bytes es), tp_num_elements := tp_num_elements s + int (length es)\<rparr>)"
    unfolding emit_all_eq [OF len] by (auto split: if_splits)
  have "args_are s' []" using between_init [of "s\<lparr>tp_packetbuf := put_bytes (tp_packetbuf s) (tp_length s) (elems_bytes es),
        tp_length := tp_length s + length (elems_bytes es), tp_num_elements := tp_num_elements s + int (length es)\<rparr>"]
    by (simp add: s' between_def)
  then show ?thesis using assms(1) fit by (auto simp: tp_wf_def s' tp_init_args_def)
qed

lemma act_wf:
  assumes "tp_wf n s" "tp_act a s = Inr s'"
  shows "tp_wf n s'"
proof (cases a)
  case (Add_arg k)
  obtain as where as: "args_are s as" using assms(1) by (auto simp: tp_wf_def)
  have l: "length as < 20" and s': "s' = s\<lparr>tp_argpos := int (length as), tp_args := (tp_args s)[length as := k]\<rparr>"
    using assms(2) add_arg_are(1) [OF as, of k] by (auto simp: Add_arg split: if_splits)
  have "args_are s' (as @ [k])" unfolding s' by (rule add_arg_are(2) [OF as l])
  then show ?thesis using assms(1) by (auto simp: tp_wf_def s')
next
  case (Add_byteString b)
  then show ?thesis using assms by (auto simp: tp_wf_def args_are_def tp_add_byteString_def task_consts split: if_splits)
next
  case Set_constant
  then show ?thesis using assms by (auto simp: tp_wf_def args_are_def tp_set_constant_def)
next
  case Init_args
  then have "args_are s' []" using assms(2) between_init [of s] by (simp add: between_def)
  then show ?thesis using assms Init_args by (auto simp: tp_wf_def tp_init_args_def)
next
  case (Call_constructor f)
  then show ?thesis using assms call_wf by simp
qed

text \<open>
  C23: whatever calls the generated parser makes, in whatever order, for a description or for a text with errors, they either
  stop the program, overrun the packet buffer or leave every array of the parser at its length and every position in it.
\<close>

theorem parser_state_typed:
  assumes "tp_wf n s" "tp_acts as s = Inr s'"
  shows "tp_wf n s' \<and> length (tp_args s') = 20 \<and> -1 \<le> tp_argpos s' \<and> tp_argpos s' < 20
    \<and> 0 \<le> tp_arg_byteString s' \<and> tp_arg_byteString s' < 20"
proof -
  have wf: "tp_wf n s'" using assms
    by (induction as arbitrary: s) (auto dest: act_wf split: sum.splits)
  then show ?thesis by (auto simp: tp_wf_def args_are_def)
qed

theorem parser_state_typed_witness:
  "\<exists>s'. tp_acts [Add_arg 5, Set_constant, Add_byteString ''ab'', Add_arg 6] (tp_init_args
      \<lparr>tp_packetbuf = replicate 300 0, tp_length = 2, tp_num_elements = 0, tp_args = [], tp_argpos = 0, tp_is_constant = False,
       tp_byteString = replicate 20 [], tp_arg_byteString = 0, tp_mem = \<lambda>i. 0\<rparr>) = Inr s'
    \<and> tp_wf 300 s' \<and> tp_argpos s' = 1"
proof -
  let ?s = "tp_init_args \<lparr>tp_packetbuf = replicate 300 0, tp_length = 2, tp_num_elements = 0, tp_args = [], tp_argpos = 0,
       tp_is_constant = False, tp_byteString = replicate 20 [], tp_arg_byteString = 0, tp_mem = \<lambda>i. 0\<rparr>"
  let ?as = "[Add_arg 5, Set_constant, Add_byteString ''ab'', Add_arg 6]"
  have "args_are ?s []" using between_init unfolding between_def by blast
  then have wf: "tp_wf 300 ?s" by (auto simp: tp_wf_def tp_init_args_def)
  obtain s' where s': "tp_acts ?as ?s = Inr s'" "tp_argpos s' = 1"
    by (simp add: tp_add_arg_def tp_set_constant_def tp_add_byteString_def tp_init_args_def task_consts)
  show ?thesis using parser_state_typed [OF wf s'(1)] s' by blast
qed

end
