(* ===== verification/Task_Language.thy ===== *)
theory Task_Language
  imports Task_Spec
begin

text \<open>
  The text of a task description: the rules of src/master/tasklib/lexer.l and the grammar of
  src/master/tasklib/parser.y. The scanner takes the longest match and the earliest rule among equals, as flex does;
  the grammar is the relation it defines between tokens and the calls of its actions. \<open>int\<close> has 32 bits, the
  largest \<open>unsigned long\<close> is an argument.
\<close>

datatype token = T_identifier string | T_number int | T_byteString string | T_rightarrow | T_node | T_quote | T_char char

text \<open>What a rule does: nothing, a token, an overrun of \<open>yylval.string[50]\<close>, an error message.\<close>

datatype lex_action = Lex_skip | Lex_token token | Lex_undefined | Lex_error

type_synonym lex_rule = "(string \<Rightarrow> nat) \<times> (string \<Rightarrow> lex_action)"

section \<open>Characters\<close>

definition code :: "char \<Rightarrow> nat" where "code c = of_char c"

definition is_digit :: "char \<Rightarrow> bool" where
  "is_digit c \<longleftrightarrow> 48 \<le> code c \<and> code c \<le> 57"

definition is_hex :: "char \<Rightarrow> bool" where
  "is_hex c \<longleftrightarrow> is_digit c \<or> (65 \<le> code c \<and> code c \<le> 70) \<or> (97 \<le> code c \<and> code c \<le> 102)"

definition is_alpha :: "char \<Rightarrow> bool" where
  "is_alpha c \<longleftrightarrow> (65 \<le> code c \<and> code c \<le> 90) \<or> (97 \<le> code c \<and> code c \<le> 122)"

definition is_word_char :: "char \<Rightarrow> bool" where
  "is_word_char c \<longleftrightarrow> is_alpha c \<or> is_digit c \<or> c = CHR ''_'' \<or> c = CHR ''.''"

definition hex_value :: "char \<Rightarrow> int" where
  "hex_value c = (if is_digit c then int (code c) - 48 else if code c \<le> 70 then int (code c) - 55 else int (code c) - 87)"

definition number_of :: "int \<Rightarrow> string \<Rightarrow> int" where
  "number_of b str = foldl (\<lambda>n c. b * n + hex_value c) 0 str"

text \<open>Conversion to a signed integer of 32 bits.\<close>

definition to_int :: "int \<Rightarrow> int" where
  "to_int n = (n + 2 ^ 31) mod 2 ^ 32 - 2 ^ 31"

definition atoll :: "string \<Rightarrow> int" where
  "atoll str = min (number_of 10 str) (2 ^ 63 - 1)"

section \<open>The scanner\<close>

definition lit :: "string \<Rightarrow> string \<Rightarrow> nat" where
  "lit w inp = (if take (length w) inp = w then length w else 0)"

definition span_of :: "(char \<Rightarrow> bool) \<Rightarrow> string \<Rightarrow> nat" where
  "span_of p inp = length (takeWhile p inp)"

definition one_of :: "(char \<Rightarrow> bool) \<Rightarrow> string \<Rightarrow> nat" where
  "one_of p inp = (case inp of [] \<Rightarrow> 0 | c # cs \<Rightarrow> if p c then 1 else 0)"

definition match_0x :: "string \<Rightarrow> nat" where
  "match_0x inp = (if lit ''0x'' inp = 2 \<and> span_of is_hex (drop 2 inp) > 0 then 2 + span_of is_hex (drop 2 inp) else 0)"

definition match_identifier :: "string \<Rightarrow> nat" where
  "match_identifier inp = (case inp of [] \<Rightarrow> 0 | c # cs \<Rightarrow> if is_alpha c then 1 + span_of is_word_char cs else 0)"

definition string_token :: "(string \<Rightarrow> token) \<Rightarrow> string \<Rightarrow> lex_action" where
  "string_token t yytext = (if length yytext \<ge> 50 then Lex_undefined else Lex_token (t yytext))"

definition decimal_rule :: "int \<Rightarrow> string \<Rightarrow> lex_action" where
  "decimal_rule ulong_max yytext =
    (if atoll yytext \<le> ulong_max then Lex_token (T_number (to_int (atoll yytext)))
     else string_token T_byteString yytext)"

definition hex_rule :: "string \<Rightarrow> lex_action" where
  "hex_rule yytext =
    (if number_of 16 (drop 2 yytext) < 2 ^ 32 then Lex_token (T_number (to_int (number_of 16 (drop 2 yytext))))
     else Lex_undefined)"

definition operator_rules :: "lex_rule list" where
  "operator_rules = map (\<lambda>(w, op). (lit w, \<lambda>yytext. Lex_token (T_number op)))
    [(''&&'', uint LAND), (''||'', uint LOR), (''<<'', uint SHL), (''>>'', uint SHR), (''+'', uint A_ADD),
     (''-'', uint A_SUB), (''*'', uint A_MULT), (''/'', uint A_DIV), (''%'', uint A_MOD), (''^'', uint A_POW),
     (''<='', uint LEQ), (''>='', uint GEQ), (''!='', uint NEQ), (''>'', uint GT), (''<'', uint LT),
     (''=='', uint EQ), (''&'', uint AND_op), (''|'', uint OR_op), (''!'', uint NOT_op)]"

definition word_rules :: "int \<Rightarrow> lex_rule list" where
  "word_rules ulong_max =
    [(lit ''node'', \<lambda>yytext. Lex_token T_node),
     (lit [CHR 39], \<lambda>yytext. Lex_token T_quote),
     (span_of is_digit, decimal_rule ulong_max),
     (span_of is_hex, string_token T_byteString),
     (match_0x, hex_rule),
     (match_identifier, string_token T_identifier),
     (one_of (\<lambda>c. c \<in> {CHR ''('', CHR '')'', CHR '',''}), \<lambda>yytext. Lex_token (T_char (hd yytext))),
     (lit ''->'', \<lambda>yytext. Lex_token T_rightarrow),
     (one_of (\<lambda>c. c \<in> {CHR '' '', CHR 9, CHR 10}), \<lambda>yytext. Lex_skip),
     (one_of (\<lambda>c. c \<noteq> CHR 10), \<lambda>yytext. Lex_error)]"

definition lex_rules :: "int \<Rightarrow> lex_rule list" where
  "lex_rules ulong_max = operator_rules @ word_rules ulong_max"

fun pick :: "lex_rule list \<Rightarrow> string \<Rightarrow> nat \<times> (string \<Rightarrow> lex_action)" where
  "pick [] inp = (0, \<lambda>yytext. Lex_skip)"
| "pick ((m, a) # rs) inp = (let (n', a') = pick rs inp in if m inp \<ge> n' then (m inp, a) else (n', a'))"

text \<open>The tokens of a text and whether there was an error, or \<open>None\<close> for an overrun.\<close>

function yylex :: "int \<Rightarrow> string \<Rightarrow> (token list \<times> bool) option" where
  "yylex ulong_max inp =
    (if inp = [] then Some ([], False)
     else (let (n, a) = pick (lex_rules ulong_max) inp; rest = yylex ulong_max (drop (max 1 n) inp)
           in case a (take n inp) of
                Lex_undefined \<Rightarrow> None
              | Lex_skip \<Rightarrow> rest
              | Lex_token t \<Rightarrow> map_option (\<lambda>(ts, e). (t # ts, e)) rest
              | Lex_error \<Rightarrow> map_option (\<lambda>(ts, e). (ts, True)) rest))"
  by pat_completeness auto
termination
  by (relation "measure (length \<circ> snd)") (auto simp: Suc_le_eq)

declare yylex.simps [simp del]

section \<open>The grammar\<close>

inductive arglist :: "token list \<Rightarrow> tp_action list \<Rightarrow> bool" where
  "arglist [] []"
| "arglist [T_number k] [Add_arg k]"
| "arglist [T_quote, T_number k, T_quote] [Add_arg k, Set_constant]"
| "arglist [T_byteString b] [Add_byteString b]"
| "arglist ts as \<Longrightarrow> arglist (ts @ [T_char (CHR '',''), T_quote, T_number k, T_quote]) (as @ [Add_arg k, Set_constant])"
| "arglist ts as \<Longrightarrow> arglist (ts @ [T_char (CHR '',''), T_byteString b]) (as @ [Add_byteString b])"
| "arglist ts as \<Longrightarrow> arglist (ts @ [T_char (CHR '',''), T_number k]) (as @ [Add_arg k])"

inductive task_elem :: "token list \<Rightarrow> tp_action list \<Rightarrow> bool" where
  "arglist ts as \<Longrightarrow>
    task_elem (T_identifier f # T_char (CHR ''('') # ts @ [T_char (CHR '')'')]) (as @ [Call_constructor f])"
| "task_elem [T_node, T_char (CHR ''(''), T_number k, T_char (CHR '')'')] (element_actions (Node k))"

inductive task_chain :: "token list \<Rightarrow> tp_action list \<Rightarrow> bool" where
  "task_elem ts as \<Longrightarrow> task_chain ts as"
| "task_chain ts as \<Longrightarrow> task_elem us bs \<Longrightarrow> task_chain (ts @ T_rightarrow # us) (as @ bs)"

section \<open>A decision procedure for the grammar\<close>

text \<open>
  The program's parser is generated from the grammar and not part of the repository. The functions here only decide the
  relation: they evaluate it on examples and show that it is single-valued.
\<close>

fun parse_arg :: "token list \<Rightarrow> (tp_action list \<times> token list) option" where
  "parse_arg (T_quote # T_number k # T_quote # ts) = Some ([Add_arg k, Set_constant], ts)"
| "parse_arg (T_byteString b # ts) = Some ([Add_byteString b], ts)"
| "parse_arg (T_number k # ts) = Some ([Add_arg k], ts)"
| "parse_arg ts = None"

lemma parse_arg_shorter: "parse_arg ts = Some (a, us) \<Longrightarrow> length us < length ts"
  by (induction ts rule: parse_arg.induct) auto

function args_tail :: "token list \<Rightarrow> (tp_action list \<times> token list) option" where
  "args_tail [] = None"
| "args_tail (t # ts) =
    (if t = T_char (CHR '')'') then Some ([], ts)
     else if t = T_char (CHR '','') then
       (case parse_arg ts of
          None \<Rightarrow> None
        | Some (a, us) \<Rightarrow> (case args_tail us of None \<Rightarrow> None | Some (as, r) \<Rightarrow> Some (a @ as, r)))
     else None)"
  by pat_completeness auto
termination
  by (relation "measure length") (auto dest: parse_arg_shorter)

definition parse_args :: "token list \<Rightarrow> (tp_action list \<times> token list) option" where
  "parse_args ts =
    (case parse_arg ts of
       None \<Rightarrow> args_tail ts
     | Some (a, us) \<Rightarrow> (case args_tail us of None \<Rightarrow> None | Some (as, r) \<Rightarrow> Some (a @ as, r)))"

fun parse_elem :: "token list \<Rightarrow> (tp_action list \<times> token list) option" where
  "parse_elem (T_identifier f # T_char c # ts) =
    (if c = CHR ''(''
     then (case parse_args ts of None \<Rightarrow> None | Some (as, r) \<Rightarrow> Some (as @ [Call_constructor f], r)) else None)"
| "parse_elem (T_node # T_char c # T_number k # T_char d # ts) =
    (if c = CHR ''('' \<and> d = CHR '')'' then Some (element_actions (Node k), ts) else None)"
| "parse_elem ts = None"

lemma args_tail_shorter: "args_tail ts = Some (as, r) \<Longrightarrow> length r < length ts"
  by (induction ts arbitrary: as r rule: args_tail.induct)
    (fastforce dest: parse_arg_shorter split: if_splits option.splits)+

lemma parse_args_shorter: "parse_args ts = Some (as, r) \<Longrightarrow> length r < length ts"
  by (fastforce simp: parse_args_def dest: args_tail_shorter parse_arg_shorter split: option.splits)

lemma parse_elem_shorter: "parse_elem ts = Some (as, r) \<Longrightarrow> length r < length ts"
  by (induction ts rule: parse_elem.induct) (auto dest!: parse_args_shorter split: option.splits if_splits)

function chain_tail :: "token list \<Rightarrow> tp_action list option" where
  "chain_tail [] = Some []"
| "chain_tail (t # ts) =
    (if t = T_rightarrow
     then (case parse_elem ts of None \<Rightarrow> None | Some (as, r) \<Rightarrow> map_option (\<lambda>bs. as @ bs) (chain_tail r))
     else None)"
  by pat_completeness auto
termination
  by (relation "measure length") (auto dest: parse_elem_shorter)

definition parse_chain :: "token list \<Rightarrow> tp_action list option" where
  "parse_chain ts =
    (case parse_elem ts of None \<Rightarrow> None | Some (as, r) \<Rightarrow> map_option (\<lambda>bs. as @ bs) (chain_tail r))"

section \<open>The parser and the grammar agree\<close>

lemma parse_args_arglist:
  "arglist ts as \<Longrightarrow> args_tail us = Some (bs, r) \<Longrightarrow> parse_args (ts @ us) = Some (as @ bs, r)"
proof (induction arbitrary: us bs rule: arglist.induct)
  case 1
  then have "parse_arg us = None" by (cases us rule: parse_arg.cases) auto
  then show ?case using 1 by (simp add: parse_args_def)
qed (auto simp: parse_args_def)

lemma parse_elem_task_elem:
  "task_elem ts as \<Longrightarrow> parse_elem (ts @ us) = Some (as, us)"
proof (induction rule: task_elem.induct)
  case (1 ts as f)
  then show ?case using parse_args_arglist [OF 1, of "T_char (CHR '')'') # us" "[]" us] by simp
qed simp

lemma parse_chain_task_chain:
  "task_chain ts as \<Longrightarrow> chain_tail us = Some bs \<Longrightarrow> parse_chain (ts @ us) = Some (as @ bs)"
proof (induction arbitrary: us bs rule: task_chain.induct)
  case (1 ts as)
  then show ?case by (simp add: parse_chain_def parse_elem_task_elem)
next
  case (2 ts as vs cs)
  have "chain_tail (T_rightarrow # vs @ us) = Some (cs @ bs)"
    using 2 by (simp add: parse_elem_task_elem)
  then show ?case using 2(3) [of "T_rightarrow # vs @ us"] by simp
qed

lemma parse_arg_arglist:
  assumes "parse_arg ts = Some (a, us)"
  obtains v where "ts = v @ us" "arglist v a" "\<And>ws bs. arglist ws bs \<Longrightarrow> arglist (ws @ T_char (CHR '','') # v) (bs @ a)"
  using assms by (cases ts rule: parse_arg.cases) (auto intro: arglist.intros)

lemma args_tail_arglist:
  "args_tail us = Some (bs, r) \<Longrightarrow> arglist ts as \<Longrightarrow>
    \<exists>vs. us = vs @ T_char (CHR '')'') # r \<and> arglist (ts @ vs) (as @ bs)"
proof (induction us arbitrary: ts as bs rule: args_tail.induct)
  case (2 t ws)
  show ?case
  proof (cases "t = T_char (CHR '')'')")
    case True
    then show ?thesis using 2 by auto
  next
    case False
    then obtain a us cs where t: "t = T_char (CHR '','')" "parse_arg ws = Some (a, us)" "args_tail us = Some (cs, r)" "bs = a @ cs"
      using 2(2) by (auto split: if_splits option.splits)
    obtain v where v: "ws = v @ us" "\<And>ws bs. arglist ws bs \<Longrightarrow> arglist (ws @ T_char (CHR '','') # v) (bs @ a)"
      using parse_arg_arglist [OF t(2)] by blast
    obtain vs where "us = vs @ T_char (CHR '')'') # r" "arglist ((ts @ T_char (CHR '','') # v) @ vs) ((as @ a) @ cs)"
      using 2(1) [OF False t(1,2) _ t(3) v(2) [OF 2(3)]] by auto
    then show ?thesis using t v(1) by auto
  qed
qed simp

lemma parse_args_sound:
  assumes "parse_args ts = Some (as, r)"
  obtains vs where "ts = vs @ T_char (CHR '')'') # r" "arglist vs as"
proof (cases "parse_arg ts")
  case None
  then show ?thesis using assms args_tail_arglist [OF _ arglist.intros(1), of ts as r] that by (auto simp: parse_args_def)
next
  case (Some p)
  obtain a us where p: "p = (a, us)" by (cases p)
  obtain v where v: "ts = v @ us" "arglist v a" using parse_arg_arglist [OF Some [unfolded p]] by blast
  obtain bs where "args_tail us = Some (bs, r)" "as = a @ bs"
    using assms Some p by (auto simp: parse_args_def split: option.splits)
  then show ?thesis using args_tail_arglist [OF _ v(2), of us bs r] v(1) that by auto
qed

lemma parse_elem_sound: "parse_elem ts = Some (as, r) \<Longrightarrow> \<exists>vs. ts = vs @ r \<and> task_elem vs as"
proof (induction ts rule: parse_elem.induct)
  case (1 f c ts)
  then obtain bs where b: "c = CHR ''(''" "parse_args ts = Some (bs, r)" "as = bs @ [Call_constructor f]"
    by (auto split: if_splits option.splits)
  obtain vs where "ts = vs @ T_char (CHR '')'') # r" "arglist vs bs" using parse_args_sound [OF b(2)] by blast
  then show ?case using b task_elem.intros(1) [of vs bs f] by auto
next
  case (2 c k d ts)
  then show ?case using task_elem.intros(2) [of k] by (auto split: if_splits)
qed auto

lemma chain_tail_sound: "chain_tail us = Some bs \<Longrightarrow> task_chain ts as \<Longrightarrow> task_chain (ts @ us) (as @ bs)"
proof (induction us arbitrary: ts as bs rule: chain_tail.induct)
  case (2 t us)
  then obtain cs r ds where c: "t = T_rightarrow" "parse_elem us = Some (cs, r)" "chain_tail r = Some ds" "bs = cs @ ds"
    by (auto split: if_splits option.splits)
  obtain vs where "us = vs @ r" "task_elem vs cs" using parse_elem_sound [OF c(2)] by blast
  then have v: "task_chain (ts @ T_rightarrow # vs) (as @ cs)" "us = vs @ r" using task_chain.intros(2) 2(2,3) by blast+
  have "task_chain ((ts @ T_rightarrow # vs) @ r) ((as @ cs) @ ds)" by (rule 2(1) [OF c(1,2) refl c(3) v(1)])
  then show ?case using c v(2) by simp
qed simp

lemma parse_chain_grammar:
  "parse_chain ts = Some as \<longleftrightarrow> task_chain ts as"
proof
  assume "parse_chain ts = Some as"
  then obtain bs r cs where b: "parse_elem ts = Some (bs, r)" "chain_tail r = Some cs" "as = bs @ cs"
    by (auto simp: parse_chain_def split: option.splits)
  obtain vs where "ts = vs @ r" "task_elem vs bs" using parse_elem_sound [OF b(1)] by blast
  then show "task_chain ts as" using chain_tail_sound [OF b(2) task_chain.intros(1)] b(3) by blast
next
  assume "task_chain ts as"
  then show "parse_chain ts = Some as" using parse_chain_task_chain [of ts as "[]" "[]"] by simp
qed

section \<open>What the grammar describes\<close>

lemma arglist_args: "arglist ts as \<Longrightarrow> \<exists>args. as = concat (map arg_actions args)"
proof (induction rule: arglist.induct)
  case 1
  show ?case by (rule exI [of _ "[]"]) simp
next
  case (2 k)
  show ?case by (rule exI [of _ "[Number k]"]) simp
next
  case (3 k)
  show ?case by (rule exI [of _ "[Quoted k]"]) simp
next
  case (4 b)
  show ?case by (rule exI [of _ "[Bytes b]"]) simp
next
  case (5 ts as k)
  then obtain args where "as = concat (map arg_actions args)" by blast
  then show ?case by (intro exI [of _ "args @ [Quoted k]"]) simp
next
  case (6 ts as b)
  then obtain args where "as = concat (map arg_actions args)" by blast
  then show ?case by (intro exI [of _ "args @ [Bytes b]"]) simp
next
  case (7 ts as k)
  then obtain args where "as = concat (map arg_actions args)" by blast
  then show ?case by (intro exI [of _ "args @ [Number k]"]) simp
qed

lemma task_elem_element: "task_elem ts as \<Longrightarrow> \<exists>e. as = element_actions e"
proof (induction rule: task_elem.induct)
  case (1 ts as f)
  then obtain args where "as = concat (map arg_actions args)" using arglist_args by blast
  then show ?case by (intro exI [of _ "Tasklet f args"]) simp
qed blast

lemma task_chain_elements: "task_chain ts as \<Longrightarrow> \<exists>es. es \<noteq> [] \<and> as = chain_actions es"
proof (induction rule: task_chain.induct)
  case (1 ts as)
  then obtain e where "as = element_actions e" using task_elem_element by blast
  then show ?case by (intro exI [of _ "[e]"]) (simp add: chain_actions_def)
next
  case (2 ts as us bs)
  then obtain es e where "as = chain_actions es" "bs = element_actions e" using task_elem_element by blast
  then show ?case by (intro exI [of _ "es @ [e]"]) (simp add: chain_actions_def)
qed

text \<open>The calls tell the elements apart.\<close>

lemma args_actions_inj:
  "concat (map arg_actions as) @ Call_constructor f # r = concat (map arg_actions bs) @ Call_constructor g # r'
    \<Longrightarrow> as = bs \<and> f = g \<and> r = r'"
proof (induction as arbitrary: bs)
  case Nil
  then show ?case by (cases bs; cases "hd bs") auto
next
  case (Cons a as)
  have set: "concat (map arg_actions xs) @ Call_constructor h # q \<noteq> Set_constant # q'" for xs h q q'
    by (cases xs; cases "hd xs") auto
  obtain b bs' where bs: "bs = b # bs'" using Cons.prems by (cases bs; cases a) auto
  have "a = b" using Cons.prems set set [symmetric] unfolding bs by (cases a; cases b) auto
  then show ?case using Cons.IH [of bs'] Cons.prems unfolding bs by auto
qed

lemma element_actions_inj:
  assumes "element_actions x @ xs = element_actions y @ ys"
  shows "x = y \<and> xs = ys"
proof -
  have no_init: "concat (map arg_actions as) @ Call_constructor f # r \<noteq> Init_args # r'" for as f r r'
    by (cases as; cases "hd as") auto
  show ?thesis
  proof (cases x)
    case x: (Tasklet f as)
    show ?thesis
    proof (cases y)
      case (Tasklet g bs)
      then show ?thesis using assms x args_actions_inj [of as f xs bs g ys] by simp
    next
      case (Node k)
      then show ?thesis using assms x no_init [of as f xs] by simp
    qed
  next
    case x: (Node k)
    show ?thesis
    proof (cases y)
      case (Tasklet g bs)
      then show ?thesis using assms [symmetric] x no_init [of bs g ys] by simp
    qed (use assms x in simp)
  qed
qed

lemma chain_actions_inj: "chain_actions es = chain_actions fs \<Longrightarrow> es = fs"
proof (induction es arbitrary: fs)
  case Nil
  then show ?case by (cases fs; cases "hd fs") (auto simp: chain_actions_def)
next
  case (Cons e es)
  obtain f fs' where fs: "fs = f # fs'" using Cons.prems by (cases fs; cases e) (auto simp: chain_actions_def)
  have "element_actions e @ chain_actions es = element_actions f @ chain_actions fs'"
    using Cons.prems by (simp add: fs chain_actions_def)
  then show ?case using element_actions_inj Cons.IH fs by blast
qed



section \<open>Which rule of the scanner applies\<close>

lemma lit_Cons: "lit (w # ws) (c # cs) = (if c = w \<and> take (length ws) cs = ws then Suc (length ws) else 0)"
  by (simp add: lit_def)

lemma operators_none:
  assumes "(m, b) \<in> set operator_rules" "c \<notin> set ''&|<>+-*/%^!=''"
  shows "m (c # cs) = 0"
  using assms unfolding operator_rules_def by (auto simp: lit_Cons)

lemma pick_operators:
  assumes "c \<notin> set ''&|<>+-*/%^!=''" "pick (word_rules u) (c # cs) = (n, a)" "0 < n"
  shows "pick (lex_rules u) (c # cs) = (n, a)"
proof -
  have "pick (xs @ word_rules u) (c # cs) = (n, a)" if "\<forall>(m, b) \<in> set xs. m (c # cs) = 0" for xs
    using that by (induction xs) (use assms(2,3) in auto)
  then show ?thesis using operators_none [OF _ assms(1)] unfolding lex_rules_def by blast
qed

definition stops :: "(char \<Rightarrow> bool) \<Rightarrow> string \<Rightarrow> bool" where
  "stops p rest \<longleftrightarrow> (case rest of [] \<Rightarrow> True | c # cs \<Rightarrow> \<not> p c)"

lemma span_whole: "\<forall>c \<in> set w. p c \<Longrightarrow> stops p rest \<Longrightarrow> span_of p (w @ rest) = length w"
  by (cases rest) (simp_all add: span_of_def stops_def takeWhile_append takeWhile_eq_all_conv [THEN iffD2])

lemma span_part: "c \<in> set w \<Longrightarrow> \<not> p c \<Longrightarrow> span_of p (w @ rest) < length w"
  by (induction w) (auto simp: span_of_def)

lemma span_le: "stops q rest \<Longrightarrow> \<forall>c. p c \<longrightarrow> q c \<Longrightarrow> span_of p (w @ rest) \<le> length w"
  by (cases rest) (auto simp: span_of_def stops_def takeWhile_append length_takeWhile_le)

lemma char_classes:
  "is_digit c \<Longrightarrow> is_hex c" "is_digit c \<Longrightarrow> is_word_char c" "is_hex c \<Longrightarrow> is_word_char c"
  "is_alpha c \<Longrightarrow> is_word_char c" "is_hex c \<Longrightarrow> is_digit c \<or> is_alpha c"
  by (auto simp: is_hex_def is_word_char_def is_alpha_def)

lemma char_literals:
  "is_word_char c \<Longrightarrow> c \<notin> set ''&|<>+-*/%^!=''" "is_word_char c \<Longrightarrow> c \<notin> {CHR ''('', CHR '')'', CHR '','', CHR 39, CHR '' '', CHR 9, CHR 10, CHR ''-''}"
  "is_alpha c \<Longrightarrow> c \<noteq> CHR ''0''" "is_digit c \<Longrightarrow> c \<noteq> CHR ''n''" "is_hex c \<Longrightarrow> c \<noteq> CHR ''n''" "is_hex c \<Longrightarrow> c \<noteq> CHR ''x''"
  by (auto simp: is_word_char_def is_alpha_def is_digit_def is_hex_def code_def)

lemma stops_mono: "stops q rest \<Longrightarrow> (\<And>c. p c \<Longrightarrow> q c) \<Longrightarrow> stops p rest"
  by (auto simp: stops_def split: list.splits)

lemma no_0x:
  assumes "w \<noteq> []" "\<forall>c \<in> set w. is_hex c" "stops is_word_char rest"
  shows "match_0x (w @ rest) = 0"
proof -
  obtain c cs where w: "w = c # cs" using assms(1) by (cases w) auto
  have "lit ''0x'' (w @ rest) \<noteq> 2"
  proof (cases cs)
    case Nil
    have "\<not> stops is_word_char (CHR ''x'' # r)" for r by (simp add: stops_def is_word_char_def is_alpha_def code_def)
    then show ?thesis using w Nil assms(3) by (cases rest) (auto simp: lit_def)
  next
    case (Cons d ds)
    then have "d \<noteq> CHR ''x''" using assms(2) w char_literals(6) by auto
    then show ?thesis using w Cons by (auto simp: lit_def)
  qed
  then show ?thesis by (simp add: match_0x_def)
qed

lemma rules_number:
  assumes "w \<noteq> []" "\<forall>c \<in> set w. is_digit c" "stops is_word_char rest"
  shows "pick (lex_rules u) (w @ rest) = (length w, decimal_rule u)"
proof -
  obtain c cs where w: "w = c # cs" "is_digit c" using assms(1,2) by (cases w) auto
  have n: "span_of is_digit (w @ rest) = length w"
    by (rule span_whole [OF assms(2) stops_mono [OF assms(3)]]) (simp add: char_classes)
  have h: "span_of is_hex (w @ rest) \<le> length w" using span_le [OF assms(3), of is_hex w] char_classes(3) by blast
  have x: "match_0x (w @ rest) = 0" by (rule no_0x) (use assms char_classes in auto)
  have l: "c \<notin> set ''&|<>+-*/%^!=''" "c \<noteq> CHR ''n''" "c \<noteq> CHR 39" "c \<noteq> CHR ''-''" "\<not> is_alpha c"
    using w(2) char_literals(1,2,4) [of c] char_classes(2) [of c] by (auto simp: is_digit_def is_alpha_def)
  have m: "lit ''node'' (w @ rest) = 0" "lit [CHR 39] (w @ rest) = 0" "match_identifier (w @ rest) = 0" "lit ''->'' (w @ rest) = 0"
    "one_of p (w @ rest) \<le> length w" for p
    using l by (simp_all add: w(1) lit_Cons match_identifier_def one_of_def)
  have "pick (word_rules u) (w @ rest) = (length w, decimal_rule u)"
    using m h assms(1) by (simp add: word_rules_def n x Let_def)
  then show ?thesis using pick_operators [OF l(1)] assms(1) by (simp add: w(1))
qed

lemma rules_bytes:
  assumes "w \<noteq> []" "\<forall>c \<in> set w. is_hex c" "\<exists>c \<in> set w. \<not> is_digit c" "stops is_word_char rest"
  shows "pick (lex_rules u) (w @ rest) = (length w, string_token T_byteString)"
proof -
  obtain c cs where w: "w = c # cs" "is_hex c" using assms(1,2) by (cases w) auto
  have n: "span_of is_hex (w @ rest) = length w"
    by (rule span_whole [OF assms(2) stops_mono [OF assms(4)]]) (simp add: char_classes)
  have d: "span_of is_digit (w @ rest) < length w" using assms(3) span_part by blast
  have x: "match_0x (w @ rest) = 0" by (rule no_0x) (use assms in auto)
  have i: "match_identifier (w @ rest) \<le> length w"
    using span_le [OF assms(4), of is_word_char cs] by (simp add: w(1) match_identifier_def)
  have l: "c \<notin> set ''&|<>+-*/%^!=''" "c \<noteq> CHR ''n''" "c \<noteq> CHR 39" "c \<noteq> CHR ''-''"
    using w(2) char_literals(1,2,5) [of c] char_classes(3) [of c] by auto
  have m: "lit ''node'' (w @ rest) = 0" "lit [CHR 39] (w @ rest) = 0" "lit ''->'' (w @ rest) = 0" "one_of p (w @ rest) \<le> length w" for p
    using l by (simp_all add: w(1) lit_Cons one_of_def)
  have "pick (word_rules u) (w @ rest) = (length w, string_token T_byteString)"
    using m d i assms(1) by (simp add: word_rules_def n x Let_def)
  then show ?thesis using pick_operators [OF l(1)] assms(1) by (simp add: w(1))
qed

lemma lit_word:
  assumes "\<forall>c \<in> set k. p c" "stops p rest" "w \<noteq> k" "w \<noteq> []"
  shows "lit k (w @ rest) < length w"
proof (cases "take (length k) (w @ rest) = k")
  case True
  then have k: "k = take (length k) w @ take (length k - length w) rest" by simp
  have "length k \<le> length w"
  proof (rule ccontr)
    assume l: "\<not> length k \<le> length w"
    show False
    proof (cases rest)
      case Nil
      then show False using k l by (metis append_Nil2 length_take linorder_not_le min.cobounded1 take_Nil)
    next
      case (Cons c cs)
      then have "c \<in> set (take (length k - length w) rest)" using l by (simp add: take_Cons')
      then have "c \<in> set k" by (subst k) simp
      then show False using assms(1,2) Cons by (simp add: stops_def)
    qed
  qed
  moreover have "length k \<noteq> length w" using k assms(3) calculation by auto
  ultimately show ?thesis using assms(4) by (simp add: lit_def)
qed (simp add: lit_def assms(4))

lemma rules_identifier:
  assumes "w \<noteq> []" "is_alpha (hd w)" "\<forall>c \<in> set w. is_word_char c" "\<exists>c \<in> set w. \<not> is_hex c" "w \<noteq> ''node''"
    and "stops is_word_char rest"
  shows "pick (lex_rules u) (w @ rest) = (length w, string_token T_identifier)"
proof -
  obtain c cs where w: "w = c # cs" "is_alpha c" using assms(1,2) by (cases w) auto
  have n: "match_identifier (w @ rest) = length w"
    using span_whole [OF _ assms(6), of cs] assms(3) w by (simp add: match_identifier_def)
  have h: "span_of is_hex (w @ rest) < length w" using assms(4) span_part by blast
  have d: "span_of is_digit (w @ rest) < length w" using assms(4) span_part char_classes(1) by blast
  have nd: "lit ''node'' (w @ rest) < length w"
    by (rule lit_word [OF _ assms(6,5,1)]) (simp add: is_word_char_def is_alpha_def code_def)
  have x: "match_0x (w @ rest) = 0" using w char_literals(3) by (auto simp: match_0x_def lit_Cons)
  have l: "c \<notin> set ''&|<>+-*/%^!=''" "c \<noteq> CHR 39" "c \<noteq> CHR ''-''"
    using w(2) char_literals(1,2) [of c] char_classes(4) [of c] by auto
  have m: "lit [CHR 39] (w @ rest) = 0" "lit ''->'' (w @ rest) = 0" "one_of p (w @ rest) \<le> length w" for p
    using l by (simp_all add: w(1) lit_Cons one_of_def)
  have "pick (word_rules u) (w @ rest) = (length w, string_token T_identifier)"
    using m d h nd assms(1) by (simp add: word_rules_def n x Let_def)
  then show ?thesis using pick_operators [OF l(1)] assms(1) by (simp add: w(1))
qed

section \<open>Texts and their tokens\<close>

lemma yylex_token:
  assumes "pick (lex_rules u) (w @ rest) = (length w, a)" "w \<noteq> []" "a w = Lex_token t"
  shows "yylex u (w @ rest) = map_option (\<lambda>(ts, e). (t # ts, e)) (yylex u rest)"
proof -
  have "max 1 (length w) = length w" using assms(2) by (cases w) auto
  then show ?thesis using assms by (subst yylex.simps) (simp add: Let_def)
qed

lemma yylex_punctuation:
  assumes "c \<in> {CHR ''('', CHR '')'', CHR '',''}"
  shows "yylex u (c # rest) = map_option (\<lambda>(ts, e). (T_char c # ts, e)) (yylex u rest)"
proof -
  have c: "c \<notin> set ''&|<>+-*/%^!=''" "c \<noteq> CHR ''n''" "c \<noteq> CHR 39" "c \<noteq> CHR ''-''" "c \<noteq> CHR ''0''" "\<not> is_digit c" "\<not> is_hex c" "\<not> is_alpha c"
    using assms by (auto simp: is_digit_def is_hex_def is_alpha_def code_def)
  have "pick (word_rules u) (c # rest) = (1, \<lambda>yytext. Lex_token (T_char (hd yytext)))"
    using c(2-) assms by (simp add: word_rules_def lit_Cons span_of_def match_0x_def match_identifier_def one_of_def Let_def)
  from pick_operators [OF c(1) this] show ?thesis
    using yylex_token [of u "[c]" rest _ "T_char c"] by simp
qed

lemma yylex_quote: "yylex u (CHR 39 # rest) = map_option (\<lambda>(ts, e). (T_quote # ts, e)) (yylex u rest)"
proof -
  have "pick (word_rules u) (CHR 39 # rest) = (1, \<lambda>yytext. Lex_token T_quote)"
    by (simp add: word_rules_def lit_Cons span_of_def match_0x_def match_identifier_def one_of_def Let_def
        is_digit_def is_hex_def is_alpha_def code_def)
  from pick_operators [OF _ this] show ?thesis using yylex_token [of u "[CHR 39]" rest _ T_quote] by simp
qed

lemma yylex_arrow: "yylex u (''->'' @ rest) = map_option (\<lambda>(ts, e). (T_rightarrow # ts, e)) (yylex u rest)"
proof -
  have "pick (lex_rules u) (''->'' @ rest) = (2, \<lambda>yytext. Lex_token T_rightarrow)"
    by (simp add: lex_rules_def operator_rules_def word_rules_def lit_Cons span_of_def match_0x_def match_identifier_def
        one_of_def Let_def is_digit_def is_hex_def is_alpha_def code_def)
  then show ?thesis using yylex_token [of u "''->''" rest _ T_rightarrow] by simp
qed

lemma yylex_node: "stops is_word_char rest \<Longrightarrow> yylex u (''node'' @ rest) = map_option (\<lambda>(ts, e). (T_node # ts, e)) (yylex u rest)"
proof -
  assume r: "stops is_word_char rest"
  then have i: "span_of is_word_char (CHR ''o'' # CHR ''d'' # CHR ''e'' # rest) = 3"
    by (cases rest) (simp_all add: span_of_def stops_def is_word_char_def is_alpha_def code_def)
  have "pick (word_rules u) (''node'' @ rest) = (4, \<lambda>yytext. Lex_token T_node)"
    using i by (simp add: word_rules_def lit_Cons match_0x_def match_identifier_def one_of_def Let_def span_of_def
        is_digit_def is_hex_def is_alpha_def code_def)
  from pick_operators [OF _ this [simplified]] show ?thesis using yylex_token [of u "''node''" rest _ T_node] by simp
qed

section \<open>Writing a description\<close>

fun digits :: "nat \<Rightarrow> string" where
  "digits n = (if n < 10 then [char_of (48 + n)] else digits (n div 10) @ [char_of (48 + n mod 10)])"

declare digits.simps [simp del]

lemma code_digit: "d < 10 \<Longrightarrow> code (char_of (48 + d)) = 48 + d"
  by (simp add: code_def)

lemma digits_number: "digits n \<noteq> [] \<and> (\<forall>c \<in> set (digits n). is_digit c) \<and> number_of 10 (digits n) = int n"
proof (induction n rule: digits.induct)
  case (1 n)
  show ?case
  proof (cases "n < 10")
    case True
    then show ?thesis
      by (simp add: digits.simps [of n] is_digit_def code_digit number_of_def hex_value_def)
  next
    case False
    have "int n = int (n div 10) * 10 + int (n mod 10)" "n mod 10 \<le> 9" by (simp_all add: zdiv_int zmod_int)
    then show ?thesis using 1 False code_digit [of "n mod 10"]
      by (simp add: digits.simps [of n] is_digit_def number_of_def hex_value_def)
  qed
qed

fun show_arg :: "task_arg \<Rightarrow> string" where
  "show_arg (Number k) = digits (nat k)"
| "show_arg (Quoted k) = [CHR 39] @ digits (nat k) @ [CHR 39]"
| "show_arg (Bytes b) = b"

fun show_args :: "task_arg list \<Rightarrow> string" where
  "show_args [] = '')''"
| "show_args (a # as) = '','' @ show_arg a @ show_args as"

definition show_arglist :: "task_arg list \<Rightarrow> string" where
  "show_arglist as = (case as of [] \<Rightarrow> '')'' | a # as' \<Rightarrow> show_arg a @ show_args as')"

fun show_element :: "task_element \<Rightarrow> string" where
  "show_element (Tasklet f args) = f @ ''('' @ show_arglist args"
| "show_element (Node k) = ''node('' @ digits (nat k) @ '')''"

fun show_rest :: "task_element list \<Rightarrow> string" where
  "show_rest [] = []"
| "show_rest (e # es) = ''->'' @ show_element e @ show_rest es"

definition show_task :: "task_element list \<Rightarrow> string" where
  "show_task es = (case es of [] \<Rightarrow> [] | e # es' \<Rightarrow> show_element e @ show_rest es')"

text \<open>What can be written: numbers of an \<open>int\<close>, strings of hexadecimal digits, identifiers that are no such string.\<close>

definition is_name :: "string \<Rightarrow> bool" where
  "is_name f \<longleftrightarrow> f \<noteq> [] \<and> is_alpha (hd f) \<and> (\<forall>c \<in> set f. is_word_char c) \<and> (\<exists>c \<in> set f. \<not> is_hex c)
     \<and> f \<noteq> ''node'' \<and> length f < 50"

fun is_arg :: "task_arg \<Rightarrow> bool" where
  "is_arg (Number k) \<longleftrightarrow> 0 \<le> k \<and> k < 2 ^ 31"
| "is_arg (Quoted k) \<longleftrightarrow> 0 \<le> k \<and> k < 2 ^ 31"
| "is_arg (Bytes b) \<longleftrightarrow> b \<noteq> [] \<and> (\<forall>c \<in> set b. is_hex c) \<and> (\<exists>c \<in> set b. \<not> is_digit c) \<and> length b < 50"

fun is_element :: "task_element \<Rightarrow> bool" where
  "is_element (Tasklet f args) \<longleftrightarrow> is_name f \<and> (\<forall>a \<in> set args. is_arg a)"
| "is_element (Node k) \<longleftrightarrow> 0 \<le> k \<and> k < 2 ^ 31"

fun arg_tokens :: "task_arg \<Rightarrow> token list" where
  "arg_tokens (Number k) = [T_number k]"
| "arg_tokens (Quoted k) = [T_quote, T_number k, T_quote]"
| "arg_tokens (Bytes b) = [T_byteString b]"

fun args_tokens :: "task_arg list \<Rightarrow> token list" where
  "args_tokens [] = [T_char (CHR '')'')]"
| "args_tokens (a # as) = T_char (CHR '','') # arg_tokens a @ args_tokens as"

fun element_tokens :: "task_element \<Rightarrow> token list" where
  "element_tokens (Tasklet f args) = T_identifier f # T_char (CHR ''('') #
     (case args of [] \<Rightarrow> [T_char (CHR '')'')] | a # as \<Rightarrow> arg_tokens a @ args_tokens as)"
| "element_tokens (Node k) = [T_node, T_char (CHR ''(''), T_number k, T_char (CHR '')'')]"

fun rest_tokens :: "task_element list \<Rightarrow> token list" where
  "rest_tokens [] = []"
| "rest_tokens (e # es) = T_rightarrow # element_tokens e @ rest_tokens es"

lemma stops_word [simp]: "stops is_word_char []" "stops is_word_char (CHR ''('' # s)" "stops is_word_char (CHR '')'' # s)"
  "stops is_word_char (CHR '','' # s)" "stops is_word_char (CHR 39 # s)" "stops is_word_char (CHR ''-'' # s)"
  by (simp_all add: stops_def is_word_char_def is_alpha_def is_digit_def code_def)

definition more :: "token list \<Rightarrow> (token list \<times> bool) option \<Rightarrow> (token list \<times> bool) option" where
  "more ts r = map_option (\<lambda>(us, e). (ts @ us, e)) r"

lemma more_simps [simp]: "more ts (more us r) = more (ts @ us) r" "more [] r = r" "more ts (Some (us, e)) = Some (ts @ us, e)"
  by (cases r; simp add: more_def; force)+

lemma yylex_number:
  assumes "0 \<le> k" "k < 2 ^ 31" "2 ^ 31 \<le> u" "stops is_word_char rest"
  shows "yylex u (digits (nat k) @ rest) = more [T_number k] (yylex u rest)"
proof -
  note d = digits_number [of "nat k"]
  have "decimal_rule u (digits (nat k)) = Lex_token (T_number k)"
    using d assms by (simp add: decimal_rule_def atoll_def to_int_def)
  then show ?thesis using yylex_token [OF rules_number [OF _ _ assms(4)]] d by (simp add: more_def)
qed

lemma yylex_one:
  "c \<in> {CHR ''('', CHR '')'', CHR '',''} \<Longrightarrow> yylex u (c # rest) = more [T_char c] (yylex u rest)"
  "yylex u (CHR 39 # rest) = more [T_quote] (yylex u rest)"
  "yylex u (CHR ''-'' # CHR ''>'' # rest) = more [T_rightarrow] (yylex u rest)"
  using yylex_punctuation [of c] yylex_quote yylex_arrow [of u rest] by (simp_all add: more_def)

lemma yylex_name: "is_name f \<Longrightarrow> stops is_word_char rest \<Longrightarrow> yylex u (f @ rest) = more [T_identifier f] (yylex u rest)"
  using yylex_token [OF rules_identifier, where w = f and rest = rest and u = u and t = "T_identifier f"] by (simp add: is_name_def more_def string_token_def)

lemma yylex_arg:
  assumes "is_arg a" "2 ^ 31 \<le> u" "stops is_word_char rest"
  shows "yylex u (show_arg a @ rest) = more (arg_tokens a) (yylex u rest)"
proof (cases a)
  case (Bytes b)
  then show ?thesis using yylex_token [OF rules_bytes, where w = b and rest = rest and u = u and t = "T_byteString b"] assms
    by (simp add: more_def string_token_def)
qed (use assms in \<open>simp_all add: yylex_number yylex_one\<close>)

lemma yylex_args:
  "\<forall>a \<in> set as. is_arg a \<Longrightarrow> 2 ^ 31 \<le> u \<Longrightarrow> yylex u (show_args as @ rest) = more (args_tokens as) (yylex u rest)
    \<and> stops is_word_char (show_args as @ rest)"
  by (induction as) (simp_all add: yylex_one yylex_arg)

lemma yylex_element:
  assumes "is_element e" "2 ^ 31 \<le> u"
  shows "yylex u (show_element e @ rest) = more (element_tokens e) (yylex u rest)"
proof (cases e)
  case (Tasklet f args)
  then show ?thesis using assms
    by (cases args) (simp_all add: yylex_name show_arglist_def yylex_one yylex_arg yylex_args)
next
  case (Node k)
  have "yylex u (''node'' @ CHR ''('' # s) = more [T_node] (yylex u (CHR ''('' # s))" for s
    using yylex_node [of "CHR ''('' # s" u] by (simp add: more_def)
  then show ?thesis using Node assms by (simp add: yylex_number yylex_one)
qed

lemma yylex_rest: "\<forall>e \<in> set es. is_element e \<Longrightarrow> 2 ^ 31 \<le> u \<Longrightarrow> yylex u (show_rest es) = Some (rest_tokens es, False)"
  by (induction es) (simp_all add: yylex_one yylex_element yylex.simps [of u "[]"])

lemma yylex_task:
  "\<forall>e \<in> set (e # es). is_element e \<Longrightarrow> 2 ^ 31 \<le> u \<Longrightarrow>
    yylex u (show_task (e # es)) = Some (element_tokens e @ rest_tokens es, False)"
  by (simp add: show_task_def yylex_element yylex_rest)

lemma parse_arg_tokens: "parse_arg (arg_tokens a @ ts) = Some (arg_actions a, ts)"
  by (cases a) simp_all

lemma args_tail_tokens: "args_tail (args_tokens as @ ts) = Some (concat (map arg_actions as), ts)"
  by (induction as) (simp_all add: parse_arg_tokens)

lemma parse_elem_tokens: "parse_elem (element_tokens e @ ts) = Some (element_actions e, ts)"
proof (cases e)
  case (Tasklet f args)
  then show ?thesis by (cases args) (simp_all add: parse_args_def parse_arg_tokens args_tail_tokens)
qed simp

lemma chain_tail_tokens: "chain_tail (rest_tokens es) = Some (chain_actions es)"
  by (induction es) (simp_all add: parse_elem_tokens chain_actions_def)

text \<open>
  C25: a description that is written down is read back as itself: the text has no lexical error, and the only calls the
  grammar allows for its tokens are those of the description.
\<close>

theorem task_text_roundtrip:
  assumes "es \<noteq> []" "\<forall>e \<in> set es. is_element e" "2 ^ 31 \<le> ulong_max"
  shows "\<exists>ts. yylex ulong_max (show_task es) = Some (ts, False) \<and> (\<forall>as. task_chain ts as \<longleftrightarrow> as = chain_actions es)"
proof -
  obtain e es' where es: "es = e # es'" using assms(1) by (cases es) auto
  have y: "yylex ulong_max (show_task es) = Some (element_tokens e @ rest_tokens es', False)"
    unfolding es by (rule yylex_task) (use assms es in auto)
  have "parse_chain (element_tokens e @ rest_tokens es') = Some (chain_actions es)"
    by (simp add: parse_chain_def parse_elem_tokens chain_tail_tokens es chain_actions_def)
  then have "\<forall>as. task_chain (element_tokens e @ rest_tokens es') as \<longleftrightarrow> as = chain_actions es"
    by (auto simp flip: parse_chain_grammar)
  then show ?thesis using y by blast
qed

theorem task_text_roundtrip_witness:
  "\<exists>ts. yylex (2 ^ 32 - 1) (show_task [Tasklet ''repeat'' [Number 500], Tasklet ''eq'' [Number 7, Quoted 3]]) = Some (ts, False)
    \<and> (\<forall>as. task_chain ts as \<longleftrightarrow> as = chain_actions [Tasklet ''repeat'' [Number 500], Tasklet ''eq'' [Number 7, Quoted 3]])"
  by (rule task_text_roundtrip)
    (simp_all add: is_name_def is_alpha_def is_word_char_def is_hex_def is_digit_def code_def)

section \<open>Names that can be called\<close>

definition identifies :: "(string \<Rightarrow> lex_action) \<Rightarrow> bool" where
  "identifies a \<longleftrightarrow> (\<exists>w f. a w = Lex_token (T_identifier f))"

lemma pick_identifies:
  assumes "\<forall>(m, b) \<in> set xs. \<not> identifies b" "identifies (snd (pick (xs @ ys) inp))"
  shows "pick (xs @ ys) inp = pick ys inp \<and> (\<forall>(m, b) \<in> set xs. m inp < fst (pick ys inp))"
  using assms
proof (induction xs)
  case (Cons x xs)
  obtain m b n a where x: "x = (m, b)" "pick (xs @ ys) inp = (n, a)" by (metis surj_pair)
  have lt: "\<not> n \<le> m inp" using Cons.prems x by auto
  then have p: "pick ((x # xs) @ ys) inp = (n, a)" using x by simp
  have "(n, a) = pick ys inp \<and> (\<forall>(m, b) \<in> set xs. m inp < fst (pick ys inp))"
    using Cons.IH Cons.prems p x(2) by simp
  then show ?case unfolding p using lt x(1) by (auto dest: sym)
qed simp

lemma not_identifies:
  "\<not> identifies (\<lambda>yytext. Lex_token T_node)" "\<not> identifies (\<lambda>yytext. Lex_token T_quote)" "\<not> identifies (decimal_rule u)"
  "\<not> identifies (string_token T_byteString)" "\<not> identifies hex_rule" "\<not> identifies (\<lambda>yytext. Lex_token (T_char (hd yytext)))"
  "\<not> identifies (\<lambda>yytext. Lex_token T_rightarrow)" "\<not> identifies (\<lambda>yytext. Lex_skip)" "\<not> identifies (\<lambda>yytext. Lex_error)"
  by (auto simp: identifies_def decimal_rule_def string_token_def hex_rule_def)

lemma operators_not_identify: "(m, b) \<in> set operator_rules \<Longrightarrow> \<not> identifies b"
  unfolding operator_rules_def by (auto simp: identifies_def)

lemma identifier_rule:
  assumes "pick (lex_rules u) inp = (n, a)" "a (take n inp) = Lex_token (T_identifier f)"
  shows "f = take n inp" "span_of is_hex inp < n" "n = match_identifier inp"
proof -
  let ?xs = "operator_rules @ [(lit ''node'', \<lambda>yytext. Lex_token T_node), (lit [CHR 39], \<lambda>yytext. Lex_token T_quote),
     (span_of is_digit, decimal_rule u), (span_of is_hex, string_token T_byteString), (match_0x, hex_rule)]"
  let ?zs = "[(one_of (\<lambda>c. c \<in> {CHR ''('', CHR '')'', CHR '',''}), \<lambda>yytext. Lex_token (T_char (hd yytext))),
     (lit ''->'', \<lambda>yytext. Lex_token T_rightarrow),
     (one_of (\<lambda>c. c \<in> {CHR '' '', CHR 9, CHR 10}), \<lambda>yytext. Lex_skip),
     (one_of (\<lambda>c. c \<noteq> CHR 10), \<lambda>yytext. Lex_error)]"
  let ?ys = "(match_identifier, string_token T_identifier) # ?zs"
  have rules: "lex_rules u = ?xs @ ?ys" by (simp add: lex_rules_def word_rules_def)
  have a: "identifies a" using assms(2) unfolding identifies_def by blast
  have xs: "\<forall>(m, b) \<in> set ?xs. \<not> identifies b" using operators_not_identify not_identifies by auto
  have p: "pick ?ys inp = (n, a) \<and> (\<forall>(m, b) \<in> set ?xs. m inp < n)"
    using pick_identifies [OF xs, of ?ys inp] assms(1) a unfolding rules by (metis fst_conv snd_conv)
  show "span_of is_hex inp < n" using p by simp
  have z: "\<not> identifies (snd (pick ?zs inp))" using not_identifies(6-9) by (simp add: Let_def)
  then have "n = match_identifier inp \<and> a = string_token T_identifier"
    using p a by (cases "pick ?zs inp") (auto simp only: pick.simps Let_def prod.case prod.inject snd_conv split: if_splits)
  then show "n = match_identifier inp" "f = take n inp"
    using assms(2) by (auto simp: string_token_def split: if_splits)
qed

lemma lexed_identifiers: "yylex u inp = Some (ts, e) \<Longrightarrow> T_identifier f \<in> set ts \<Longrightarrow> \<exists>c \<in> set f. \<not> is_hex c"
proof (induction u inp arbitrary: ts e rule: yylex.induct)
  case (1 u inp)
  have ne: "inp \<noteq> []" using 1(2,3) by (subst (asm) yylex.simps) auto
  obtain n a where na: "pick (lex_rules u) inp = (n, a)" by (cases "pick (lex_rules u) inp")
  have y: "yylex u inp = (let rest = yylex u (drop (max 1 n) inp) in case a (take n inp) of
      Lex_undefined \<Rightarrow> None | Lex_skip \<Rightarrow> rest | Lex_token t \<Rightarrow> map_option (\<lambda>(ts, e). (t # ts, e)) rest
      | Lex_error \<Rightarrow> map_option (\<lambda>(ts, e). (ts, True)) rest)"
    using ne na by (subst yylex.simps) simp
  note IH = 1(1) [OF ne na [symmetric] refl]
  show ?case
  proof (cases "a (take n inp) = Lex_token (T_identifier f)")
    case True
    note r = identifier_rule [OF na True]
    have "\<exists>c \<in> set (take n inp). \<not> is_hex c"
    proof (rule ccontr)
      assume "\<not> (\<exists>c \<in> set (take n inp). \<not> is_hex c)"
      then have "takeWhile is_hex (take n inp @ drop n inp) = take n inp @ takeWhile is_hex (drop n inp)"
        by (intro takeWhile_append2) auto
      then have "length (take n inp) \<le> span_of is_hex inp" by (simp add: span_of_def)
      moreover have "n \<le> length inp"
        unfolding r(3) match_identifier_def span_of_def by (auto split: list.splits intro: length_takeWhile_le)
      ultimately show False using r(2) by simp
    qed
    then show ?thesis by (simp add: r(1))
  next
    case False
    obtain ts' e' where "yylex u (drop (max 1 n) inp) = Some (ts', e')" "T_identifier f \<in> set ts'"
      using 1(2,3) False unfolding y by (auto simp: Let_def split: lex_action.splits)
    then show ?thesis using IH by blast
  qed
qed

lemma letters:
  "is_alpha (CHR ''a'')" "is_alpha (CHR ''b'')" "is_alpha (CHR ''c'')" "is_alpha (CHR ''d'')" "is_alpha (CHR ''e'')"
  "is_alpha (CHR ''f'')" "is_alpha (CHR ''g'')" "is_alpha (CHR ''h'')" "is_alpha (CHR ''i'')" "is_alpha (CHR ''j'')"
  "is_alpha (CHR ''k'')" "is_alpha (CHR ''l'')" "is_alpha (CHR ''m'')" "is_alpha (CHR ''n'')" "is_alpha (CHR ''o'')"
  "is_alpha (CHR ''p'')" "is_alpha (CHR ''q'')" "is_alpha (CHR ''r'')" "is_alpha (CHR ''s'')" "is_alpha (CHR ''t'')"
  "is_alpha (CHR ''u'')" "is_alpha (CHR ''v'')" "is_alpha (CHR ''w'')" "is_alpha (CHR ''x'')" "is_alpha (CHR ''y'')"
  "is_alpha (CHR ''z'')"
  "is_word_char (CHR ''a'')" "is_word_char (CHR ''b'')" "is_word_char (CHR ''c'')" "is_word_char (CHR ''d'')" "is_word_char (CHR ''e'')"
  "is_word_char (CHR ''f'')" "is_word_char (CHR ''g'')" "is_word_char (CHR ''h'')" "is_word_char (CHR ''i'')" "is_word_char (CHR ''j'')"
  "is_word_char (CHR ''k'')" "is_word_char (CHR ''l'')" "is_word_char (CHR ''m'')" "is_word_char (CHR ''n'')" "is_word_char (CHR ''o'')"
  "is_word_char (CHR ''p'')" "is_word_char (CHR ''q'')" "is_word_char (CHR ''r'')" "is_word_char (CHR ''s'')" "is_word_char (CHR ''t'')"
  "is_word_char (CHR ''u'')" "is_word_char (CHR ''v'')" "is_word_char (CHR ''w'')" "is_word_char (CHR ''x'')" "is_word_char (CHR ''y'')"
  "is_word_char (CHR ''z'')" "is_word_char (CHR ''R'')" "is_word_char (CHR ''P'')" "is_word_char (CHR ''B'')" "is_word_char (CHR ''_'')"
  "is_word_char (CHR ''0'')" "is_word_char (CHR ''1'')" "is_word_char (CHR ''2'')" "is_word_char (CHR ''3'')" "is_word_char (CHR ''4'')"
  "is_word_char (CHR ''5'')" "is_word_char (CHR ''6'')" "is_word_char (CHR ''7'')" "is_word_char (CHR ''8'')" "is_word_char (CHR ''9'')"
  "is_hex (CHR ''a'')" "is_hex (CHR ''b'')" "is_hex (CHR ''c'')" "is_hex (CHR ''d'')" "is_hex (CHR ''e'')"
  "is_hex (CHR ''f'')" "\<not> is_hex (CHR ''g'')" "\<not> is_hex (CHR ''h'')" "\<not> is_hex (CHR ''i'')" "\<not> is_hex (CHR ''j'')"
  "\<not> is_hex (CHR ''k'')" "\<not> is_hex (CHR ''l'')" "\<not> is_hex (CHR ''m'')" "\<not> is_hex (CHR ''n'')" "\<not> is_hex (CHR ''o'')"
  "\<not> is_hex (CHR ''p'')" "\<not> is_hex (CHR ''q'')" "\<not> is_hex (CHR ''r'')" "\<not> is_hex (CHR ''s'')" "\<not> is_hex (CHR ''t'')"
  "\<not> is_hex (CHR ''u'')" "\<not> is_hex (CHR ''v'')" "\<not> is_hex (CHR ''w'')" "\<not> is_hex (CHR ''x'')" "\<not> is_hex (CHR ''y'')"
  "\<not> is_hex (CHR ''z'')" "\<not> is_hex (CHR ''R'')" "\<not> is_hex (CHR ''P'')" "is_hex (CHR ''B'')" "\<not> is_hex (CHR ''_'')"
  "is_hex (CHR ''0'')" "is_hex (CHR ''1'')" "is_hex (CHR ''2'')" "is_hex (CHR ''3'')" "is_hex (CHR ''4'')"
  "is_hex (CHR ''5'')" "is_hex (CHR ''6'')" "is_hex (CHR ''7'')" "is_hex (CHR ''8'')" "is_hex (CHR ''9'')"
  by (simp_all add: is_alpha_def is_word_char_def is_hex_def is_digit_def code_def)

lemma tasklet_names: "list_all (\<lambda>name. is_name name \<longleftrightarrow> name \<noteq> ''add'') (map fst tp_tasklets)"
  unfolding tp_tasklets_def by (simp add: is_name_def letters)

text \<open>
  The tasklet add can never be called: in no text is there an identifier that the dispatch would take for it, whatever
  its case, because the rule for strings of hexadecimal digits comes first. The identifiers of all others can be written.
\<close>

theorem add_cannot_be_called:
  "(\<forall>ts e f. yylex ulong_max text = Some (ts, e) \<longrightarrow> T_identifier f \<in> set ts \<longrightarrow> \<not> strcaseeq f ''add'')
    \<and> (\<forall>name \<in> fst ` set tp_tasklets. is_name name \<longleftrightarrow> name \<noteq> ''add'')"
proof (intro conjI allI impI)
  fix ts e f
  assume "yylex ulong_max text = Some (ts, e)" "T_identifier f \<in> set ts"
  then obtain c where c: "c \<in> set f" "\<not> is_hex c" using lexed_identifiers by blast
  show "\<not> strcaseeq f ''add''"
  proof
    assume "strcaseeq f ''add''"
    then have "tolower c \<in> set (map tolower ''add'')"
      using c(1) unfolding strcaseeq_def by (metis image_eqI list.set_map)
    then have "code (tolower c) \<in> {97, 100}" by (auto simp: tolower_def code_def)
    moreover have "code (tolower c) = (if 65 \<le> code c \<and> code c \<le> 90 then code c + 32 else code c)"
      by (simp add: tolower_def code_def Let_def)
    ultimately show False using c(2) by (auto simp: is_hex_def is_digit_def split: if_splits)
  qed
next
  show "\<forall>name \<in> fst ` set tp_tasklets. is_name name \<longleftrightarrow> name \<noteq> ''add''"
    using tasklet_names by (auto simp: list_all_iff)
qed

theorem add_cannot_be_called_witness:
  "yylex (2 ^ 32 - 1) ''wait(7)'' = Some ([T_identifier ''wait'', T_char (CHR ''(''), T_number 7, T_char (CHR '')'')], False)
    \<and> \<not> strcaseeq ''wait'' ''add'' \<and> is_name ''wait''"
proof -
  have "show_element (Tasklet ''wait'' [Number 7]) = ''wait(7)''" by (simp add: show_arglist_def digits.simps char_of_eq_iff take_bit_eq_mod)
  then have y: "yylex (2 ^ 32 - 1) ''wait(7)''
      = Some ([T_identifier ''wait'', T_char (CHR ''(''), T_number 7, T_char (CHR '')'')], False)"
    using yylex_element [of "Tasklet ''wait'' [Number 7]" "2 ^ 32 - 1" "[]"]
    by (simp add: yylex.simps [of _ "[]"] is_name_def letters)
  note t = add_cannot_be_called [of "2 ^ 32 - 1" "''wait(7)''"]
  have "is_name ''wait''"
    using t [THEN conjunct2, rule_format, of "''wait''"] by (simp add: tp_tasklets_def)
  then show ?thesis using y t [THEN conjunct1, rule_format, OF y, of "''wait''"] by simp
qed

section \<open>A text from end to end\<close>

text \<open>\<open>tp_parse_task\<close> on a text without errors; on others the calls depend on the generated parser.\<close>

definition tp_parse_text :: "int \<Rightarrow> bytes \<Rightarrow> string \<Rightarrow> tp_state \<Rightarrow> (tp_failure + int \<times> tp_state) option" where
  "tp_parse_text ulong_max buf task s =
    (case yylex ulong_max task of
       Some (ts, False) \<Rightarrow> map_option (\<lambda>as. tp_parse_task buf (length task) as False s) (parse_chain ts)
     | _ \<Rightarrow> None)"

lemma parse_text_show:
  assumes "es \<noteq> []" "\<forall>e \<in> set es. is_element e" "2 ^ 31 \<le> ulong_max"
  shows "tp_parse_text ulong_max buf (show_task es) s
    = Some (tp_parse_task buf (length (show_task es)) (chain_actions es) False s)"
proof -
  obtain e es' where es: "es = e # es'" using assms(1) by (cases es) auto
  have "yylex ulong_max (show_task es) = Some (element_tokens e @ rest_tokens es', False)"
    unfolding es by (rule yylex_task) (use assms es in auto)
  then show ?thesis
    by (simp add: tp_parse_text_def parse_chain_def parse_elem_tokens chain_tail_tokens es chain_actions_def)
qed

end
