(* ===== verification/Task_Install.thy ===== *)
theory Task_Install
  imports Task_Language
begin

text \<open>
  The other end of the tasking language: \<open>fetch_next_attr\<close>, \<open>build_elements\<close> and the installing case of \<open>parse_msg\<close> of
  the mote (src/mote/lib/TaskInstallerM.nc), which take the packet apart. The motes are little-endian with an \<open>int\<close>
  of 16 bits. Which tasklets are wired into a mote, and whether one accepts its parameters, is the argument
  \<open>constr\<close>. \<open>None\<close> is undefined behaviour or a loop that does not end, \<open>Some None\<close> is FAIL.
\<close>

definition fetch_next_attr :: "bytes \<Rightarrow> u16 \<Rightarrow> (u16 \<times> u16) option" where
  "fetch_next_attr buf buf_len =
    (if buf_len < TYPE_LEN_SZ then None
     else if get16le buf 2 + TYPE_LEN_SZ > buf_len then None
     else Some (get16le buf 0, get16le buf 2))"

text \<open>\<open>slots\<close> is the length of \<open>t->elements\<close>; the list is what has been put there.\<close>

partial_function (option) build_loop ::
    "(u8 \<Rightarrow> bytes \<Rightarrow> bool) \<Rightarrow> nat \<Rightarrow> bytes \<Rightarrow> u16 \<Rightarrow> u16 \<Rightarrow> (u16 \<times> bytes) list \<Rightarrow> (u16 \<times> bytes) list option option" where
  "build_loop constr slots buf buf_len offset els =
    (if offset < buf_len then
       (case fetch_next_attr (drop (unat offset) buf) (buf_len - offset) of
          None \<Rightarrow> Some None
        | Some (ty, l) \<Rightarrow>
            (let v = take (unat l) (drop (unat offset + 4) buf)
             in if \<not> constr (ucast ty) v then Some None
                else if length els \<ge> slots then None
                else build_loop constr slots buf buf_len (offset + (l + TYPE_LEN_SZ)) (els @ [(ty, v)])))
     else Some (Some els))"

definition build_elements ::
    "(u8 \<Rightarrow> bytes \<Rightarrow> bool) \<Rightarrow> nat \<Rightarrow> bytes \<Rightarrow> u16 \<Rightarrow> (u16 \<times> bytes) list option option" where
  "build_elements constr slots buf buf_len = build_loop constr slots buf buf_len 0 []"

definition parse_msg_install :: "(u8 \<Rightarrow> bytes \<Rightarrow> bool) \<Rightarrow> bytes \<Rightarrow> u16 \<Rightarrow> (u16 \<times> bytes) list option option" where
  "parse_msg_install constr data len =
    (if get8 data 0 = TASK_INSTALL
     then build_elements constr (unat (get8 data 1)) (drop 2 data) (len - 2) else Some None)"

section \<open>Bytes that fit\<close>

definition fits :: "u8 option list \<Rightarrow> bytes \<Rightarrow> bool" where
  "fits bs v \<longleftrightarrow> list_all2 (\<lambda>a b. a = None \<or> a = Some b) bs v"

lemma fits_length: "fits bs v \<Longrightarrow> length v = length bs"
  by (simp add: fits_def list_all2_lengthD [symmetric])

lemma fits_append: "fits (as @ bs) v \<longleftrightarrow> (\<exists>v1 v2. v = v1 @ v2 \<and> fits as v1 \<and> fits bs v2)"
  unfolding fits_def by (meson list_all2_append1 list_all2_appendI)

lemma fits_Cons [simp]: "fits (a # bs) v \<longleftrightarrow> (\<exists>b v'. v = b # v' \<and> (a = None \<or> a = Some b) \<and> fits bs v')"
  "fits [] v \<longleftrightarrow> v = []"
  by (auto simp: fits_def list_all2_Cons1)

lemma put_bytes_below: "j < i \<Longrightarrow> put_bytes b i bs ! j = b ! j"
  by (induction b i bs rule: put_bytes.induct) (simp_all add: put8_def)

lemma put_bytes_fits:
  "i + length bs \<le> length b \<Longrightarrow> fits bs (take (length bs) (drop i (put_bytes b i bs)))"
proof (induction b i bs rule: put_bytes.induct)
  case (2 b i bs)
  then have "drop i (put_bytes b (i + 1) bs) = put_bytes b (i + 1) bs ! i # drop (i + 1) (put_bytes b (i + 1) bs)"
    by (simp add: Cons_nth_drop_Suc)
  then show ?case using 2 by simp
next
  case (3 b i x bs)
  let ?p = "put_bytes (put8 b i x) (i + 1) bs"
  have "?p ! i = x" using 3(2) put_bytes_below [of i "i + 1" "put8 b i x" bs] by (simp add: put8_def)
  moreover have "i < length ?p" using 3(2) by simp
  ultimately have "drop i ?p = x # drop (i + 1) ?p" using Cons_nth_drop_Suc [of i ?p] by simp
  then show ?case using 3 by simp
qed simp

section \<open>Reading a packet back\<close>

text \<open>What a tasklet of the reference is on the mote.\<close>

fun built :: "elem \<Rightarrow> u16 \<times> bytes \<Rightarrow> bool" where
  "built (Elem nx ty fs) (t, v) \<longleftrightarrow> \<not> nx \<and> t = ty \<and> fits (struct_bytes fs) v"

fun host_order :: "elem \<Rightarrow> bool" where
  "host_order (Elem nx ty fs) \<longleftrightarrow> \<not> nx"

text \<open>A tasklet the mote knows, with parameters it accepts.\<close>

fun accepted :: "(u8 \<Rightarrow> bytes \<Rightarrow> bool) \<Rightarrow> elem \<Rightarrow> bool" where
  "accepted constr (Elem nx ty fs) \<longleftrightarrow> (\<forall>v. fits (struct_bytes fs) v \<longrightarrow> constr (ucast ty) v)"

lemma get16le_le16: "fits (le16 w) v \<Longrightarrow> get16le (v @ v') 0 = w"
  by (auto simp: le16_def get16le_def get8_def)

lemma get16le_second: "length u = 2 \<Longrightarrow> get16le (u @ v) 2 = get16le v 0"
  by (auto simp: get16le_def get8_def nth_append)

lemma head_of:
  assumes "fits (elem_bytes (Elem nx ty fs)) v"
  obtains h v' where "v = h @ v'" "length h = 4" "fits (struct_bytes fs) v'"
    "\<not> nx \<Longrightarrow> get16le (v @ w) 0 = ty \<and> get16le (v @ w) 2 = of_nat (length (struct_bytes fs))"
    "nx \<Longrightarrow> get16le (v @ w) 2 = mk16 (lo8 (of_nat (length (struct_bytes fs)))) (hi8 (of_nat (length (struct_bytes fs))))"
proof -
  let ?n = "of_nat (length (struct_bytes fs)) :: u16"
  let ?h = "if nx then field_bytes (FX16 ty) @ field_bytes (FX16 ?n) else field_bytes (F16 ty) @ field_bytes (F16 ?n)"
  have "elem_bytes (Elem nx ty fs) = ?h @ struct_bytes fs" by (simp add: Let_def)
  then have "fits (?h @ struct_bytes fs) v" using assms by (simp only:)
  then obtain h v' where v: "v = h @ v'" "fits ?h h" "fits (struct_bytes fs) v'"
    unfolding fits_append by blast
  show ?thesis
  proof (rule that [of h v'])
    show "length h = 4" using fits_length [OF v(2)] by simp
    show "get16le (v @ w) 0 = ty \<and> get16le (v @ w) 2 = ?n" if "\<not> nx"
      using v(1,2) that by (auto simp: le16_def get16le_def get8_def numeral_2_eq_2 numeral_3_eq_3)
    show "get16le (v @ w) 2 = mk16 (lo8 ?n) (hi8 ?n)" if nx
      using v(1,2) that by (auto simp: get16le_def get8_def numeral_2_eq_2 numeral_3_eq_3)
  qed (use v in auto)
qed

lemma of_nat_u16_less: "a < 65536 \<Longrightarrow> b < 65536 \<Longrightarrow> (of_nat a :: u16) < of_nat b \<longleftrightarrow> a < b"
  by (simp add: word_less_nat_alt unat_of_nat_u16)

lemma build_loop_fetch:
  assumes "V = u @ v @ w" "fits (elem_bytes (Elem False ty fs)) v" "length V < 65536"
  shows "(of_nat (length u) :: u16) < of_nat (length V)"
    "fetch_next_attr (drop (unat (of_nat (length u) :: u16)) V) (of_nat (length V) - of_nat (length u))
      = Some (ty, of_nat (length (struct_bytes fs)))"
    "take (unat (of_nat (length (struct_bytes fs)) :: u16)) (drop (unat (of_nat (length u) :: u16) + 4) V) = drop 4 v"
    "of_nat (length u) + (of_nat (length (struct_bytes fs)) + TYPE_LEN_SZ) = (of_nat (length (u @ v)) :: u16)"
proof -
  obtain h v' where v: "v = h @ v'" "length h = 4" "fits (struct_bytes fs) v'"
    "get16le (v @ w) 0 = ty" "get16le (v @ w) 2 = of_nat (length (struct_bytes fs))"
    by (rule head_of [OF assms(2), of w]) auto
  let ?n = "length (struct_bytes fs)"
  have n: "length v = 4 + ?n" using v(1,2) fits_length [OF v(3)] by simp
  have len: "length V = length u + length v + length w" using assms(1) by simp
  show "(of_nat (length u) :: u16) < of_nat (length V)"
    using of_nat_u16_less [of "length u" "length V"] len n assms(3) by simp
  have diff: "(of_nat (length V) - of_nat (length u) :: u16) = of_nat (length v + length w)"
    unfolding len by simp
  have ty: "of_nat ?n + TYPE_LEN_SZ = (of_nat (length v) :: u16)" using n by (simp add: task_consts)
  have nlt: "\<not> (of_nat (length v + length w) :: u16) < of_nat (length v)"
    using of_nat_u16_less [of "length v + length w" "length v"] len assms(3) by simp
  have four: "\<not> (of_nat (length v + length w) :: u16) < TYPE_LEN_SZ"
    using of_nat_u16_less [of "length v + length w" 4] len assms(3) n by (simp add: task_consts)
  have uu: "unat (of_nat (length u) :: u16) = length u" "unat (of_nat ?n :: u16) = ?n"
    using len n assms(3) by (simp_all add: unat_of_nat_u16)
  show "fetch_next_attr (drop (unat (of_nat (length u) :: u16)) V) (of_nat (length V) - of_nat (length u))
      = Some (ty, of_nat ?n)"
    using nlt four v(4,5) ty unfolding uu diff by (simp add: fetch_next_attr_def assms(1))
  show "take (unat (of_nat ?n :: u16)) (drop (unat (of_nat (length u) :: u16) + 4) V) = drop 4 v"
    using v(1,2) fits_length [OF v(3)] unfolding uu by (simp add: assms(1))
  show "of_nat (length u) + (of_nat ?n + TYPE_LEN_SZ) = (of_nat (length (u @ v)) :: u16)"
    unfolding ty by simp
qed

lemma build_loop_step:
  assumes "V = u @ v @ w" "fits (elem_bytes (Elem False ty fs)) v" "length V < 65536"
    and "constr (ucast ty) (drop 4 v)" "length acc < slots"
  shows "build_loop constr slots V (of_nat (length V)) (of_nat (length u)) acc
    = build_loop constr slots V (of_nat (length V)) (of_nat (length (u @ v))) (acc @ [(ty, drop 4 v)])"
proof -
  note f = build_loop_fetch [OF assms(1-3)]
  have room: "(slots \<le> length acc) = False" using assms(5) by simp
  show ?thesis
    by (subst build_loop.simps)
      (simp only: f if_True option.case prod.case Let_def assms(4) not_True_eq_False if_False room)
qed

lemma build_loop_refused:
  assumes "V = u @ v @ w" "fits (elem_bytes (Elem False ty fs)) v" "length V < 65536"
    and "\<not> constr (ucast ty) (drop 4 v)"
  shows "build_loop constr slots V (of_nat (length V)) (of_nat (length u)) acc = Some None"
proof -
  note f = build_loop_fetch [OF assms(1-3)]
  show ?thesis
    by (subst build_loop.simps)
      (simp only: f if_True option.case prod.case Let_def assms(4) not_False_eq_True)
qed

text \<open>A whole packet of tasklets in host byte order.\<close>

lemma build_loop_run:
  assumes "V = u @ v" "fits (elems_bytes els) v" "length V < 65536" "\<forall>e \<in> set els. host_order e"
    and "\<forall>e \<in> set els. accepted constr e" "length acc + length els \<le> slots"
  shows "\<exists>bs. build_loop constr slots V (of_nat (length V)) (of_nat (length u)) acc = Some (Some (acc @ bs))
    \<and> list_all2 built els bs"
  using assms
proof (induction els arbitrary: u v acc)
  case Nil
  then have "v = []" using fits_length by fastforce
  then show ?case using Nil.prems(1)
    by (subst build_loop.simps) simp
next
  case (Cons e els)
  obtain ty fs where e: "e = Elem False ty fs" using Cons.prems(4) by (cases e) auto
  obtain x y where xy: "v = x @ y" "fits (elem_bytes e) x" "fits (elems_bytes els) y"
    using Cons.prems(2) by (auto simp: fits_append)
  obtain h x' where h: "x = h @ x'" "length h = 4" "fits (struct_bytes fs) x'"
    using head_of [of False ty fs x "[]"] xy(2) unfolding e by metis
  have step: "build_loop constr slots V (of_nat (length V)) (of_nat (length u)) acc
    = build_loop constr slots V (of_nat (length V)) (of_nat (length (u @ x))) (acc @ [(ty, drop 4 x)])"
    by (rule build_loop_step [where w = y]) (use Cons.prems xy e h in auto)
  have "\<exists>bs. build_loop constr slots V (of_nat (length V)) (of_nat (length (u @ x))) (acc @ [(ty, drop 4 x)])
      = Some (Some ((acc @ [(ty, drop 4 x)]) @ bs)) \<and> list_all2 built els bs"
    by (rule Cons.IH [of _ y]) (use Cons.prems xy in auto)
  then obtain bs where "build_loop constr slots V (of_nat (length V)) (of_nat (length (u @ x))) (acc @ [(ty, drop 4 x)])
      = Some (Some ((acc @ [(ty, drop 4 x)]) @ bs))" "list_all2 built els bs" by blast
  then show ?case unfolding step using h e by (intro exI [of _ "(ty, drop 4 x) # bs"]) simp
qed

text \<open>A tasklet of six bytes in network byte order: its length reads as 1536.\<close>

lemma build_loop_stops:
  assumes "V = u @ v" "fits (elems_bytes els) v" "length V < 1540"
    and "Elem True ty fs \<in> set els" "\<forall>ty fs. Elem True ty fs \<in> set els \<longrightarrow> length (struct_bytes fs) = 6"
    and "length acc + length els \<le> slots"
  shows "build_loop constr slots V (of_nat (length V)) (of_nat (length u)) acc = Some None"
  using assms
proof (induction els arbitrary: u v acc)
  case (Cons e els)
  obtain nx ty' fs' where e: "e = Elem nx ty' fs'" by (cases e)
  obtain x y where xy: "v = x @ y" "fits (elem_bytes e) x" "fits (elems_bytes els) y"
    using Cons.prems(2) by (auto simp: fits_append)
  have V: "V = u @ x @ y" using Cons.prems(1) xy(1) by simp
  obtain h x' where h: "x = h @ x'" "length h = 4" "fits (struct_bytes fs') x'"
    "nx \<Longrightarrow> get16le (x @ y) 2 = mk16 (lo8 (of_nat (length (struct_bytes fs')))) (hi8 (of_nat (length (struct_bytes fs'))))"
    using head_of [of nx ty' fs' x y] xy(2) unfolding e by metis
  have len: "length V = length u + length x + length y" "4 \<le> length x" using V h by simp_all
  show ?case
  proof (cases nx)
    case True
    have "length (struct_bytes fs') = 6" using Cons.prems(5) True e by auto
    then have g: "get16le (x @ y) 2 = 0x600" using h(4) True by (simp add: word_eq_unat unat_mk16 unat_lo8 unat_hi8)
    have "length u < length V" "length u < 65536" "length V < 65536" using len Cons.prems(3) by linarith+
    then have lt: "(of_nat (length u) :: u16) < of_nat (length V)" by (simp only: of_nat_u16_less)
    have diff: "(of_nat (length V) - of_nat (length u) :: u16) = of_nat (length x + length y)"
      unfolding len by simp
    have uu: "unat (of_nat (length u) :: u16) = length u"
      using len Cons.prems(3) by (simp add: unat_of_nat_u16)
    have "(of_nat (length x + length y) :: u16) < of_nat 1540"
      using of_nat_u16_less [of "length x + length y" 1540] len Cons.prems(3) by simp
    then have none: "fetch_next_attr (drop (unat (of_nat (length u) :: u16)) V) (of_nat (length V) - of_nat (length u)) = None"
      using g uu diff by (simp add: fetch_next_attr_def V task_consts)
    show ?thesis
      by (subst build_loop.simps) (simp only: lt if_True none option.case)
  next
    case False
    then have e': "e = Elem False ty' fs'" by (simp add: e)
    show ?thesis
    proof (cases "constr (ucast ty') (drop 4 x)")
      case True
      have step: "build_loop constr slots V (of_nat (length V)) (of_nat (length u)) acc
        = build_loop constr slots V (of_nat (length V)) (of_nat (length (u @ x))) (acc @ [(ty', drop 4 x)])"
        by (rule build_loop_step [where w = y]) (use Cons.prems xy e' V True in auto)
      show ?thesis unfolding step
        by (rule Cons.IH [of _ y]) (use Cons.prems xy e' in auto)
    next
      case False
      show ?thesis
        by (rule build_loop_refused [where w = y]) (use Cons.prems xy e' V False in auto)
    qed
  qed
qed simp

section \<open>From a description to the tasklets on the mote\<close>

definition nx_six :: "tspec \<Rightarrow> bool" where
  "nx_six t \<longleftrightarrow> (\<forall>as k nb mem els ty fs.
     t as k nb mem = Inr els \<longrightarrow> Elem True ty fs \<in> set els \<longrightarrow> length (struct_bytes fs) = 6)"

lemma nx_six_tasklets: "list_all (\<lambda>(n, t). nx_six t) built_tasklets"
  unfolding built_tasklets_def spec_tasklets_def by (simp add: nx_six_def tspec_defs image_elem_def split: if_splits)

lemma nx_six_meaning:
  "task_built es mem = Inr els \<Longrightarrow> Elem True ty fs \<in> set els \<Longrightarrow> length (struct_bytes fs) = 6"
proof (induction "built_tasklets" es mem arbitrary: els rule: task_in.induct)
  case (2 f args es mem)
  obtain a b where ab: "tasklet_in built_tasklets f args mem = Inr a" "task_built es mem = Inr b" "els = a @ b"
    using 2(2) by (auto split: sum.splits)
  show ?case
  proof (cases "Elem True ty fs \<in> set a")
    case True
    obtain n t where f: "find (\<lambda>(n, t). strcaseeq f n) built_tasklets = Some (n, t)"
      and t: "t (numbers args) (if \<exists>a \<in> set args. is_quoted a then 0 else 1) (strings args) mem = Inr a"
      using ab(1) unfolding tasklet_in_def by (auto split: if_splits option.splits)
    have "(n, t) \<in> set built_tasklets" using f unfolding find_Some_iff by (metis nth_mem)
    then have "nx_six t" using nx_six_tasklets by (auto simp: list_all_iff)
    then show ?thesis using t True unfolding nx_six_def by blast
  next
    case False
    then show ?thesis using 2 ab by auto
  qed
qed auto

text \<open>The packet as the mote gets it.\<close>

lemma packet_on_mote:
  assumes "2 + length bs \<le> length buf" "buf' = put8 (put_bytes (put8 buf 0 1) 2 bs) 1 k"
  shows "get8 (take (2 + length bs) buf') 0 = TASK_INSTALL" "get8 (take (2 + length bs) buf') 1 = k"
    "fits bs (drop 2 (take (2 + length bs) buf'))" "length (drop 2 (take (2 + length bs) buf')) = length bs"
proof -
  have len: "length buf' = length buf" "buf \<noteq> []" using assms by auto
  show "get8 (take (2 + length bs) buf') 0 = TASK_INSTALL" "get8 (take (2 + length bs) buf') 1 = k"
    using assms len(2) put_bytes_below [of 0 2 "put8 buf 0 1" bs] by (auto simp: get8_def put8_def task_consts)
  have "drop 2 buf' = drop 2 (put_bytes (put8 buf 0 1) 2 bs)" by (simp add: assms(2) put8_def)
  then show "fits bs (drop 2 (take (2 + length bs) buf'))"
    using put_bytes_fits [of 2 bs "put8 buf 0 1"] assms(1) by (simp add: drop_take)
  show "length (drop 2 (take (2 + length bs) buf')) = length bs" using assms(1) len by simp
qed

lemma install_builds:
  assumes "length els < 256" "get8 p 0 = TASK_INSTALL" "get8 p 1 = of_nat (length els)"
  shows "parse_msg_install constr p (of_nat (2 + n)) = build_loop constr (length els) (drop 2 p) (of_nat n) 0 []"
proof -
  have "(of_nat (2 + n) :: u16) - 2 = of_nat n" "unat (of_nat (length els) :: u8) = length els"
    using assms(1) by (simp_all add: unat_of_nat_u8)
  then show ?thesis using assms(2,3) by (simp add: parse_msg_install_def build_elements_def)
qed

lemma parse_installs:
  assumes "task_built es (tp_mem s) = Inr els" "\<forall>e \<in> set els. host_order e \<and> accepted constr e"
    and "2 + length (elems_bytes els) \<le> length buf" "length buf < 65536" "len < 300" "length els < 256"
  shows "\<exists>s' bs. tp_parse_task buf len (chain_actions es) False s = Inr (2 + int (length (elems_bytes els)), s')
    \<and> length (tp_packetbuf s') = length buf
    \<and> parse_msg_install constr (take (2 + length (elems_bytes els)) (tp_packetbuf s'))
        (of_nat (2 + length (elems_bytes els))) = Some (Some bs)
    \<and> list_all2 built els bs"
proof -
  let ?n = "length (elems_bytes els)"
  obtain s' where s': "tp_parse_task buf len (chain_actions es) False s = Inr (2 + int ?n, s')"
    "tp_packetbuf s' = put8 (put_bytes (put8 buf 0 1) 2 (elems_bytes els)) 1 (of_nat (length els))"
    using parse_runs [OF assms(1) _ assms(5), of buf] assms(3) by auto
  let ?p = "take (2 + ?n) (tp_packetbuf s')"
  note p = packet_on_mote [OF assms(3) s'(2)]
  have "\<exists>bs. build_loop constr (length els) (drop 2 ?p) (of_nat (length (drop 2 ?p))) (of_nat (length ([] :: bytes))) []
      = Some (Some ([] @ bs)) \<and> list_all2 built els bs"
    by (rule build_loop_run [where v = "drop 2 ?p"]) (use assms p in auto)
  then obtain bs where bs: "build_loop constr (length els) (drop 2 ?p) (of_nat ?n) 0 [] = Some (Some bs)"
    "list_all2 built els bs" unfolding p(4) by auto
  have "parse_msg_install constr ?p (of_nat (2 + ?n)) = Some (Some bs)"
    using bs(1) install_builds [OF assms(6) p(1,2)] by simp
  moreover have "length (tp_packetbuf s') = length buf" using s'(2) by simp
  ultimately show ?thesis using s'(1) bs(2) by blast
qed

text \<open>
  The text of a description of tasklets in host order, if it is shorter than 300 characters and its packet fits the
  caller's buffer, becomes a packet from which the mote rebuilds exactly the tasklets the parser builds, in order, if the mote knows them.
\<close>

theorem tasks_install:
  assumes "task_built es (tp_mem s) = Inr els" "\<forall>e \<in> set els. host_order e \<and> accepted constr e"
    and "es \<noteq> []" "\<forall>e \<in> set es. is_element e" "length (show_task es) < 300" "2 ^ 31 \<le> ulong_max"
    and "2 + length (elems_bytes els) \<le> length buf" "length buf < 65536" "length els < 256"
  shows "\<exists>s' bs. tp_parse_text ulong_max buf (show_task es) s = Some (Inr (2 + int (length (elems_bytes els)), s'))
    \<and> parse_msg_install constr (take (2 + length (elems_bytes els)) (tp_packetbuf s'))
        (of_nat (2 + length (elems_bytes els))) = Some (Some bs)
    \<and> list_all2 built els bs"
  using parse_installs [OF assms(1,2,7,8,5,9)] unfolding parse_text_show [OF assms(3,4,6)] by blast

definition idle_parser :: tp_state where
  "idle_parser = \<lparr>tp_packetbuf = [], tp_length = 0, tp_num_elements = 0, tp_args = [], tp_argpos = 0, tp_is_constant = False,
     tp_byteString = replicate 20 [], tp_arg_byteString = 0, tp_mem = \<lambda>i. 0\<rparr>"

definition sense_and_send :: "task_element list" where
  "sense_and_send = [Tasklet ''repeat'' [Number 500], Tasklet ''Sendpkt'' [Number 1]]"

theorem tasks_install_witness:
  "\<exists>s' bs. tp_parse_text (2 ^ 32 - 1) (replicate 300 0) (show_task sense_and_send) idle_parser = Some (Inr (2 + 20, s'))
    \<and> parse_msg_install (\<lambda>ty v. True) (take 22 (tp_packetbuf s')) 22 = Some (Some bs)
    \<and> list_all2 built [Elem False 5 [F32 500, F32 500, F8 0, Gap 1], Elem False 4 [F8 1, F8 0]] bs"
proof -
  let ?els = "[Elem False 5 [F32 500, F32 500, F8 0, Gap 1], Elem False 4 [F8 1, F8 0]]"
  have m: "task_built sense_and_send (\<lambda>i. 0) = Inr ?els"
    by code_simp
  have t: "show_task sense_and_send = ''repeat(500)->Sendpkt(1)''"
    by (simp add: sense_and_send_def show_task_def show_arglist_def digits.simps char_of_eq_iff take_bit_eq_mod)
  have e: "\<forall>e \<in> set sense_and_send. is_element e"
    by (simp add: sense_and_send_def is_name_def letters) (simp add: is_hex_def is_word_char_def is_alpha_def is_digit_def code_def)
  show ?thesis
    using tasks_install [where es = sense_and_send and els = ?els and constr = "\<lambda>ty v. True" and buf = "replicate 300 0"
        and ulong_max = "2 ^ 32 - 1" and s = idle_parser] m e
    unfolding t by (simp add: idle_parser_def) (simp add: sense_and_send_def)
qed

text \<open>
  C22: a task with an rle, packbits or vector tasklet is refused by every mote, whatever tasklets it knows, although the
  parser makes a packet of it: the header of these is in network byte order and the mote reads a length of 1536.
\<close>

theorem rle_not_installable:
  assumes "task_built es (tp_mem s) = Inr els" "\<exists>e \<in> set els. \<not> host_order e"
    and "2 + length (elems_bytes els) \<le> length buf" "length buf \<le> 300" "len < 300" "length els < 256"
  shows "\<exists>s'. tp_parse_task buf len (chain_actions es) False s = Inr (2 + int (length (elems_bytes els)), s')
    \<and> parse_msg_install constr (take (2 + length (elems_bytes els)) (tp_packetbuf s'))
        (of_nat (2 + length (elems_bytes els))) = Some None"
proof -
  let ?n = "length (elems_bytes els)"
  obtain s' where s': "tp_parse_task buf len (chain_actions es) False s = Inr (2 + int ?n, s')"
    "tp_packetbuf s' = put8 (put_bytes (put8 buf 0 1) 2 (elems_bytes els)) 1 (of_nat (length els))"
    using parse_runs [OF assms(1) _ assms(5), of buf] assms(3) by auto
  let ?p = "take (2 + ?n) (tp_packetbuf s')"
  note p = packet_on_mote [OF assms(3) s'(2)]
  obtain ty fs where nx: "Elem True ty fs \<in> set els"
    using assms(2) by (metis elem.exhaust host_order.simps)
  have "build_loop constr (length els) (drop 2 ?p) (of_nat (length (drop 2 ?p))) (of_nat (length ([] :: bytes))) [] = Some None"
    by (rule build_loop_stops [where v = "drop 2 ?p" and els = els, OF _ _ _ nx])
      (use assms(3,4) p(3,4) nx_six_meaning [OF assms(1)] in auto)
  then have "parse_msg_install constr ?p (of_nat (2 + ?n)) = Some None"
    using install_builds [OF assms(6) p(1,2)] unfolding p(4) by simp
  then show ?thesis using s'(1) by blast
qed

theorem rle_not_installable_witness:
  "\<exists>s'. tp_parse_task (replicate 300 0) 24 (chain_actions [Tasklet ''rle'' [Number 1, Number 2, Number 3]]) False idle_parser
      = Inr (2 + 10, s')
    \<and> parse_msg_install (\<lambda>ty v. True) (take 12 (tp_packetbuf s')) 12 = Some None"
proof -
  let ?els = "[Elem True 43 [FX16 1, FX16 2, FX16 3]]"
  have m: "task_built [Tasklet ''rle'' [Number 1, Number 2, Number 3]] (\<lambda>i. 0) = Inr ?els"
    by code_simp
  show ?thesis
    using rle_not_installable [where es = "[Tasklet ''rle'' [Number 1, Number 2, Number 3]]" and els = ?els
        and constr = "\<lambda>ty v. True" and buf = "replicate 300 0" and len = 24 and s = idle_parser] m
    by (simp add: idle_parser_def)
qed

end
