(* ===== verification/App_Link.thy ===== *)
theory App_Link
  imports Prelude
begin

text \<open>
  The link between an application and the transport daemon: the frames of src/master/transport/trsource.c on the
  socket, the header of src/master/transport/tr_if.c, and the exchange that sends a task. The socket is the stream of
  bytes still to be read; its end is a closed connection. A write succeeds or fails as a whole. \<open>pad\<close> is the byte of the
  header that the code leaves as \<open>malloc\<close> returned it.
\<close>

definition TRANS_TYPE_TASK :: u8 where "TRANS_TYPE_TASK = 0x01"
definition TRANS_TYPE_CMD_RETURN :: u8 where "TRANS_TYPE_CMD_RETURN = 0x02"
definition TRANS_TYPE_CMD_ACK :: u8 where "TRANS_TYPE_CMD_ACK = 0x03"
definition TRANS_TYPE_CMD_NACK :: u8 where "TRANS_TYPE_CMD_NACK = 0x04"
definition TRANS_TYPE_CLOSE :: u8 where "TRANS_TYPE_CLOSE = 0x05"
definition TRANS_TYPE_CLOSE_ACK :: u8 where "TRANS_TYPE_CLOSE_ACK = 0x06"
definition TRANS_TYPE_RESPONSE :: u8 where "TRANS_TYPE_RESPONSE = 0x11"
definition TRANS_TYPE_SERVICE :: u8 where "TRANS_TYPE_SERVICE = 0x22"
definition TRANS_TYPE_PING :: u8 where "TRANS_TYPE_PING = 0x23"
definition TRANS_TYPE_TRACERT :: u8 where "TRANS_TYPE_TRACERT = 0x24"

lemmas trans_types = TRANS_TYPE_TASK_def TRANS_TYPE_CMD_RETURN_def TRANS_TYPE_CMD_ACK_def TRANS_TYPE_CMD_NACK_def
  TRANS_TYPE_CLOSE_def TRANS_TYPE_CLOSE_ACK_def TRANS_TYPE_RESPONSE_def TRANS_TYPE_SERVICE_def TRANS_TYPE_PING_def
  TRANS_TYPE_TRACERT_def

section \<open>Frames\<close>

definition write_tr_packet :: "bytes \<Rightarrow> bytes" where
  "write_tr_packet packet = [of_nat (length packet div 256), of_nat (length packet)] @ packet"

text \<open>The packet, if there is one, and what is left of the stream.\<close>

definition read_tr_packet :: "bytes \<Rightarrow> bytes option \<times> bytes" where
  "read_tr_packet stream =
    (if length stream < 2 then (None, [])
     else (let l2 = unat (stream ! 0) * 256 + unat (stream ! 1); rest = drop 2 stream
           in if length rest < l2 then (None, []) else (Some (take l2 rest), drop l2 rest)))"

section \<open>Messages\<close>

record tr_msg =
  tm_tid :: u16
  tm_addr :: u16
  tm_type :: u8
  tm_data :: bytes

definition tr_if_header :: nat where "tr_if_header = 6"

definition write_transport_msg :: "u8 \<Rightarrow> bytes \<Rightarrow> u8 \<Rightarrow> u16 \<Rightarrow> u16 \<Rightarrow> bytes" where
  "write_transport_msg pad msg tr_type tid addr =
    write_tr_packet ([lo8 tid, hi8 tid, lo8 addr, hi8 addr, tr_type, pad] @ msg)"

definition read_transport_msg :: "bytes \<Rightarrow> tr_msg option \<times> bytes" where
  "read_transport_msg stream =
    (case read_tr_packet stream of
       (None, rest) \<Rightarrow> (None, rest)
     | (Some p, rest) \<Rightarrow>
         (if length p < tr_if_header then (None, rest)
          else (Some \<lparr>tm_tid = get16le p 0, tm_addr = get16le p 2, tm_type = get8 p 4, tm_data = drop tr_if_header p\<rparr>, rest)))"

lemma read_tr_packet_less: "read_tr_packet stream = (r, rest) \<Longrightarrow> stream \<noteq> [] \<Longrightarrow> length rest < length stream"
  by (auto simp: read_tr_packet_def Let_def split: if_splits)

lemma read_transport_msg_less: "read_transport_msg stream = (r, rest) \<Longrightarrow> stream \<noteq> [] \<Longrightarrow> length rest < length stream"
  by (auto simp: read_transport_msg_def dest: read_tr_packet_less split: prod.splits option.splits if_splits)

section \<open>Sending a task\<close>

text \<open>
  The loop that waits for the answer of the daemon. Other messages are read and freed. A closed connection gives NULL for
  ever, so the loop does not end: \<open>None\<close>.
\<close>

function await_tid :: "bytes \<Rightarrow> (int \<times> bytes) option" where
  "await_tid stream =
    (if stream = [] then None
     else (case read_transport_msg stream of
             (None, rest) \<Rightarrow> await_tid rest
           | (Some m, rest) \<Rightarrow>
               if tm_type m = TRANS_TYPE_CMD_NACK then Some (-1, rest)
               else if tm_type m = TRANS_TYPE_CMD_ACK then Some (uint (tm_tid m), rest)
               else if tm_type m = TRANS_TYPE_CMD_RETURN then Some (uint (tm_tid m), rest)
               else await_tid rest))"
  by pat_completeness auto
termination
  by (relation "measure length") (auto dest: read_transport_msg_less [OF sym])

declare await_tid.simps [simp del]

text \<open>What goes out, and the result with what is left of the incoming stream; \<open>ok\<close> is whether the write succeeds, else the program exits.\<close>

definition tr_send_task_uni :: "u8 \<Rightarrow> u16 \<Rightarrow> bytes \<Rightarrow> bytes \<Rightarrow> bytes \<times> (int \<times> bytes) option" where
  "tr_send_task_uni pad addr packet stream =
    (write_transport_msg pad packet TRANS_TYPE_TASK 0 addr, await_tid stream)"

definition tr_send_task :: "u8 \<Rightarrow> bytes \<Rightarrow> bytes \<Rightarrow> bytes \<times> (int \<times> bytes) option" where
  "tr_send_task pad packet stream = tr_send_task_uni pad 0xffff packet stream"

definition tr_close_task_uni :: "u8 \<Rightarrow> u16 \<Rightarrow> u16 \<Rightarrow> bytes" where
  "tr_close_task_uni pad tid addr = write_transport_msg pad [] TRANS_TYPE_CLOSE tid addr"

definition tr_close_task :: "u8 \<Rightarrow> u16 \<Rightarrow> bytes" where
  "tr_close_task pad tid = tr_close_task_uni pad tid 0xffff"

section \<open>Reading what was written\<close>

definition message :: "u8 \<Rightarrow> tr_msg \<Rightarrow> bytes" where
  "message pad m = write_transport_msg pad (tm_data m) (tm_type m) (tm_tid m) (tm_addr m)"

lemma frame_length:
  "unat (of_nat (n div 256) :: u8) * 256 + unat (of_nat n :: u8) = n mod 65536"
proof -
  have "n mod (256 * 256) = 256 * (n div 256 mod 256) + n mod 256" by (rule mod_mult2_eq)
  then show ?thesis by (simp add: unat_of_nat_u8)
qed

lemma read_write_tr_packet:
  "read_tr_packet (write_tr_packet p @ rest) =
    (Some (take (length p mod 65536) p), drop (length p mod 65536) p @ rest)"
proof -
  have "length p mod 65536 \<le> length p" by simp
  then show ?thesis by (simp add: read_tr_packet_def write_tr_packet_def frame_length Let_def)
qed

lemma link_message:
  assumes "length (tm_data m) < 65530"
  shows "read_transport_msg (message pad m @ rest) = (Some m, rest)"
proof -
  let ?p = "[lo8 (tm_tid m), hi8 (tm_tid m), lo8 (tm_addr m), hi8 (tm_addr m), tm_type m, pad] @ tm_data m"
  have "length ?p mod 65536 = length ?p" using assms by simp
  then have "read_tr_packet (message pad m @ rest) = (Some ?p, rest)"
    unfolding message_def write_transport_msg_def read_write_tr_packet by simp
  then show ?thesis
    by (simp add: read_transport_msg_def tr_if_header_def get16le_def get8_def)
qed

text \<open>
  C33: a message written on the socket is read at the other end as the same message, with the stream standing at the next
  one, exactly if its data are shorter than 65530 bytes; else the reader is left inside the message.
\<close>

theorem link_roundtrip_iff:
  "read_transport_msg (message pad m @ rest) = (Some m, rest) \<longleftrightarrow> length (tm_data m) < 65530"
proof
  assume r: "read_transport_msg (message pad m @ rest) = (Some m, rest)"
  let ?p = "[lo8 (tm_tid m), hi8 (tm_tid m), lo8 (tm_addr m), hi8 (tm_addr m), tm_type m, pad] @ tm_data m"
  have "drop (length ?p mod 65536) ?p @ rest = rest"
    using r unfolding read_transport_msg_def message_def write_transport_msg_def read_write_tr_packet
    by (auto split: if_splits)
  then have "length ?p \<le> length ?p mod 65536" by simp
  moreover have "length ?p mod 65536 < 65536" by (rule mod_less_divisor) simp
  ultimately show "length (tm_data m) < 65530" by simp
qed (rule link_message)

definition is_answer :: "tr_msg \<Rightarrow> bool" where
  "is_answer m \<longleftrightarrow> tm_type m \<in> {TRANS_TYPE_CMD_NACK, TRANS_TYPE_CMD_ACK, TRANS_TYPE_CMD_RETURN}"

lemma await_skips:
  "\<forall>(pad, m) \<in> set ms. length (tm_data m) < 65530 \<and> \<not> is_answer m \<Longrightarrow>
    await_tid (concat (map (\<lambda>(pad, m). message pad m) ms) @ rest) = await_tid rest"
proof (induction ms)
  case (Cons x ms)
  obtain pad m where x: "x = (pad, m)" by (cases x)
  have r: "read_transport_msg (message pad m @ s) = (Some m, s)" for s
    using Cons.prems x by (intro link_message) auto
  have "message pad m \<noteq> []" by (simp add: message_def write_transport_msg_def write_tr_packet_def)
  moreover have "\<not> is_answer m" using Cons.prems x by auto
  ultimately show ?case using Cons r by (subst await_tid.simps) (simp add: x is_answer_def)
qed simp

text \<open>
  The answer to a task is the first message that is one: messages in front of it, responses to other tasks included,
  are lost, the stream stands behind the answer, and without one the call never returns.
\<close>

theorem send_task_answer:
  assumes "\<forall>(pad, m) \<in> set ms. length (tm_data m) < 65530 \<and> \<not> is_answer m" "is_answer a" "length (tm_data a) < 65530"
  shows "snd (tr_send_task pad packet (concat (map (\<lambda>(p, m). message p m) ms) @ message q a @ rest))
      = Some (if tm_type a = TRANS_TYPE_CMD_NACK then -1 else uint (tm_tid a), rest)
    \<and> snd (tr_send_task pad packet (concat (map (\<lambda>(p, m). message p m) ms))) = None"
proof
  have "message q a \<noteq> []" by (simp add: message_def write_transport_msg_def write_tr_packet_def)
  then have "await_tid (message q a @ rest) = Some (if tm_type a = TRANS_TYPE_CMD_NACK then -1 else uint (tm_tid a), rest)"
    using assms(2) link_message [OF assms(3)] by (subst await_tid.simps) (auto simp: is_answer_def)
  then show "snd (tr_send_task pad packet (concat (map (\<lambda>(p, m). message p m) ms) @ message q a @ rest))
      = Some (if tm_type a = TRANS_TYPE_CMD_NACK then -1 else uint (tm_tid a), rest)"
    by (simp add: tr_send_task_def tr_send_task_uni_def await_skips [OF assms(1)])
  show "snd (tr_send_task pad packet (concat (map (\<lambda>(p, m). message p m) ms))) = None"
    using await_skips [OF assms(1), of "[]"] by (simp add: tr_send_task_def tr_send_task_uni_def await_tid.simps [of "[]"])
qed

definition lost_response :: tr_msg where
  "lost_response = \<lparr>tm_tid = 7, tm_addr = 3, tm_type = TRANS_TYPE_RESPONSE, tm_data = [1, 2, 3]\<rparr>"

definition task_ack :: tr_msg where
  "task_ack = \<lparr>tm_tid = 9, tm_addr = 0xffff, tm_type = TRANS_TYPE_CMD_ACK, tm_data = []\<rparr>"

theorem send_task_answer_witness:
  "snd (tr_send_task 0 [1, 0] (concat (map (\<lambda>(p, m). message p m) [(0, lost_response)]) @ message 5 task_ack @ []))
      = Some (if tm_type task_ack = TRANS_TYPE_CMD_NACK then -1 else uint (tm_tid task_ack), [])
    \<and> snd (tr_send_task 0 [1, 0] (concat (map (\<lambda>(p, m). message p m) [(0, lost_response)]))) = None"
  by (rule send_task_answer) (simp_all add: lost_response_def task_ack_def is_answer_def trans_types)

end
