(* ===== verification/Response.thy ===== *)
theory Response
  imports Prelude "HOL-Library.Sublist"
begin

text \<open>
  Model of src/master/tasklib/response.c: a response, the list of the attributes a mote has sent, sorted by type. The
  linked list is the list of its nodes; nobody outside holds a pointer into it. \<open>malloc\<close> succeeds. Printing is left out.
\<close>

type_synonym attr_node = "int \<times> int list"

record response =
  r_head :: "attr_node list"
  r_length :: int
  r_tid :: int
  r_mote_addr :: int

definition response_create :: "int \<Rightarrow> int \<Rightarrow> response" where
  "response_create tid mote_addr = \<lparr>r_head = [], r_length = 0, r_tid = tid, r_mote_addr = mote_addr\<rparr>"

definition response_find :: "response \<Rightarrow> int \<Rightarrow> attr_node option" where
  "response_find list ty = find (\<lambda>n. fst n = ty) (r_head list)"

text \<open>The loop over \<open>prev\<close>: behind the first node whose successor is missing or greater.\<close>

fun insert_loop :: "attr_node \<Rightarrow> attr_node list \<Rightarrow> attr_node list" where
  "insert_loop new [] = []"
| "insert_loop new [prev] = [prev, new]"
| "insert_loop new (prev # nxt # ns) =
    (if fst new < fst nxt then prev # new # nxt # ns else prev # insert_loop new (nxt # ns))"

definition response_insert :: "response \<Rightarrow> int \<Rightarrow> int list \<Rightarrow> response" where
  "response_insert list ty value =
    (let node = (ty, value);
         nodes = (case r_head list of
                    [] \<Rightarrow> [node]
                  | h # ns \<Rightarrow> if ty < fst h then node # h # ns else insert_loop node (h # ns))
     in list\<lparr>r_head := nodes, r_length := r_length list + 1\<rparr>)"

fun remove_loop :: "int \<Rightarrow> attr_node list \<Rightarrow> attr_node list option" where
  "remove_loop ty [] = None"
| "remove_loop ty (n # ns) = (if fst n = ty then Some ns else map_option (\<lambda>ms. n # ms) (remove_loop ty ns))"

definition response_remove :: "response \<Rightarrow> int \<Rightarrow> int \<times> response" where
  "response_remove list ty =
    (case remove_loop ty (r_head list) of
       None \<Rightarrow> (0, list)
     | Some ns \<Rightarrow> (1, list\<lparr>r_head := ns, r_length := r_length list - 1\<rparr>))"

text \<open>
  The node that is popped: its type, and its value, which \<open>response_remove\<close> has freed already; \<open>None\<close> is the freed memory.
\<close>

definition response_pop :: "response \<Rightarrow> (int \<times> int list option) option \<times> response" where
  "response_pop list =
    (case r_head list of
       [] \<Rightarrow> (None, list)
     | h # ns \<Rightarrow> (Some (fst h, None), snd (response_remove list (fst h))))"

definition response_length :: "response \<Rightarrow> int" where "response_length list = r_length list"
definition response_tid :: "response \<Rightarrow> int" where "response_tid list = r_tid list"
definition response_mote_addr :: "response \<Rightarrow> int" where "response_mote_addr list = r_mote_addr list"

text \<open>The nodes that \<open>response_delete\<close> frees, in order.\<close>

function response_delete :: "response \<Rightarrow> int list" where
  "response_delete list =
    (case response_pop list of
       (None, l) \<Rightarrow> []
     | (Some (ty, v), l) \<Rightarrow> ty # response_delete l)"
  by pat_completeness auto
termination
  by (relation "measure (length \<circ> r_head)")
    (auto simp: response_pop_def response_remove_def split: list.splits)

declare response_delete.simps [simp del]

section \<open>The list is a stable sort of what was inserted\<close>

definition response_ok :: "response \<Rightarrow> bool" where
  "response_ok list \<longleftrightarrow> sorted (map fst (r_head list)) \<and> r_length list = int (length (r_head list))"

definition insert_all :: "response \<Rightarrow> attr_node list \<Rightarrow> response" where
  "insert_all list ns = foldl (\<lambda>l (ty, v). response_insert l ty v) list ns"

lemma insert_loop_split:
  "ns \<noteq> [] \<Longrightarrow> fst (hd ns) \<le> fst new \<Longrightarrow> sorted (map fst ns) \<Longrightarrow>
    \<exists>us vs. ns = us @ vs \<and> insert_loop new ns = us @ new # vs \<and> (\<forall>u \<in> set us. fst u \<le> fst new) \<and> (\<forall>v \<in> set vs. fst new < fst v)"
proof (induction new ns rule: insert_loop.induct)
  case (2 new prev)
  then show ?case by (intro exI [of _ "[prev]"] exI [of _ "[]"]) simp
next
  case (3 new prev nxt ns)
  show ?case
  proof (cases "fst new < fst nxt")
    case True
    have "\<forall>v \<in> set (nxt # ns). fst new < fst v" using True 3(4) by auto
    then show ?thesis using True 3(3) by (intro exI [of _ "[prev]"] exI [of _ "nxt # ns"]) simp
  next
    case False
    have "sorted (map fst (nxt # ns))" "fst (hd (nxt # ns)) \<le> fst new" using 3(4) False by simp_all
    then obtain us vs where "nxt # ns = us @ vs" "insert_loop new (nxt # ns) = us @ new # vs"
      "\<forall>u \<in> set us. fst u \<le> fst new" "\<forall>v \<in> set vs. fst new < fst v"
      using 3(1) [OF False] by blast
    moreover have "insert_loop new (prev # nxt # ns) = prev # insert_loop new (nxt # ns)" using False by simp
    ultimately show ?thesis using 3(3) by (intro exI [of _ "prev # us"] exI [of _ vs]) auto
  qed
qed simp

lemma insert_split:
  assumes "sorted (map fst (r_head l))"
  obtains us vs where "r_head l = us @ vs" "r_head (response_insert l ty v) = us @ (ty, v) # vs"
    "\<forall>u \<in> set us. fst u \<le> ty" "\<forall>x \<in> set vs. ty < fst x"
proof (cases "r_head l")
  case Nil
  then show ?thesis using that [of "[]" "[]"] by (simp add: response_insert_def)
next
  case (Cons h ns)
  show ?thesis
  proof (cases "ty < fst h")
    case True
    have "\<forall>x \<in> set (h # ns). ty < fst x" using True assms Cons by auto
    then show ?thesis using that [of "[]" "h # ns"] True Cons by (simp add: response_insert_def)
  next
    case False
    then have r: "r_head (response_insert l ty v) = insert_loop (ty, v) (h # ns)"
      using Cons by (simp add: response_insert_def Let_def)
    have "sorted (map fst (h # ns))" "fst (hd (h # ns)) \<le> fst (ty, v)" using assms Cons False by simp_all
    then obtain us vs where "h # ns = us @ vs" "insert_loop (ty, v) (h # ns) = us @ (ty, v) # vs"
      "\<forall>u \<in> set us. fst u \<le> ty" "\<forall>x \<in> set vs. ty < fst x"
      using insert_loop_split [of "h # ns" "(ty, v)"] unfolding fst_conv by blast
    then show ?thesis using that [of us vs] Cons r by simp
  qed
qed

lemma response_insert_ok: "response_ok l \<Longrightarrow> response_ok (response_insert l ty v)"
proof -
  assume ok: "response_ok l"
  then obtain us vs where "r_head l = us @ vs" "r_head (response_insert l ty v) = us @ (ty, v) # vs"
    "\<forall>u \<in> set us. fst u \<le> ty" "\<forall>x \<in> set vs. ty < fst x"
    using insert_split [of l ty v] unfolding response_ok_def by metis
  moreover have "r_length (response_insert l ty v) = r_length l + 1" by (simp add: response_insert_def Let_def)
  ultimately show ?thesis using ok by (auto simp: response_ok_def sorted_append)
qed

lemma insert_same_type:
  assumes "response_ok l"
  shows "filter (\<lambda>n. fst n = k) (r_head (response_insert l ty v)) = filter (\<lambda>n. fst n = k) (r_head l @ [(ty, v)])"
    "mset (r_head (response_insert l ty v)) = mset (r_head l @ [(ty, v)])"
proof -
  obtain us vs where i: "r_head l = us @ vs" "r_head (response_insert l ty v) = us @ (ty, v) # vs"
    "\<forall>x \<in> set vs. ty < fst x"
    using insert_split [of l ty v] assms unfolding response_ok_def by metis
  then have "k = ty \<Longrightarrow> filter (\<lambda>n. fst n = k) vs = []" by (auto simp: filter_empty_conv)
  then show "filter (\<lambda>n. fst n = k) (r_head (response_insert l ty v)) = filter (\<lambda>n. fst n = k) (r_head l @ [(ty, v)])"
    using i by auto
  show "mset (r_head (response_insert l ty v)) = mset (r_head l @ [(ty, v)])" using i by simp
qed

lemma insert_all_ok:
  "response_ok l \<Longrightarrow> response_ok (insert_all l ns)
    \<and> mset (r_head (insert_all l ns)) = mset (r_head l @ ns)
    \<and> (\<forall>k. filter (\<lambda>n. fst n = k) (r_head (insert_all l ns)) = filter (\<lambda>n. fst n = k) (r_head l @ ns))
    \<and> r_tid (insert_all l ns) = r_tid l \<and> r_mote_addr (insert_all l ns) = r_mote_addr l"
proof (induction ns arbitrary: l)
  case (Cons n ns)
  obtain ty v where n: "n = (ty, v)" by (cases n)
  have s: "insert_all l (n # ns) = insert_all (response_insert l ty v) ns" by (simp add: insert_all_def n)
  have "r_tid (response_insert l ty v) = r_tid l" "r_mote_addr (response_insert l ty v) = r_mote_addr l"
    by (simp_all add: response_insert_def Let_def)
  then show ?case
    using Cons.IH [OF response_insert_ok [OF Cons.prems]] insert_same_type [OF Cons.prems]
    unfolding s by (simp add: n)
qed (simp add: insert_all_def)

lemma insert_all_sort:
  "insert_all (response_create tid addr) ns
    = \<lparr>r_head = sort_key fst ns, r_length = int (length ns), r_tid = tid, r_mote_addr = addr\<rparr>"
proof -
  let ?l = "insert_all (response_create tid addr) ns"
  have i: "response_ok ?l \<and> mset (r_head ?l) = mset ns
    \<and> (\<forall>k. filter (\<lambda>n. fst n = k) (r_head ?l) = filter (\<lambda>n. fst n = k) ns)
    \<and> r_tid ?l = tid \<and> r_mote_addr ?l = addr"
    using insert_all_ok [of "response_create tid addr" ns] by (simp add: response_create_def response_ok_def)
  have flip: "(\<lambda>n :: attr_node. fst k = fst n) = (\<lambda>n. fst n = fst k)" for k :: attr_node by auto
  have "response_ok ?l" using insert_all_ok [of "response_create tid addr" ns] by (simp add: response_create_def response_ok_def)
  then have "sort_key fst ns = r_head ?l"
    using i by (intro properties_for_sort_key) (simp_all only: flip response_ok_def)
  moreover have "length (r_head ?l) = length ns" using i by (metis size_mset)
  moreover have "r_length ?l = int (length (r_head ?l))" using \<open>response_ok ?l\<close> by (simp add: response_ok_def)
  ultimately show ?thesis using i by (intro response.equality) simp_all
qed

lemma delete_visits: "response_delete l = map fst (r_head l)"
proof (induction "r_head l" arbitrary: l)
  case Nil
  then have "response_pop l = (None, l)" by (simp add: response_pop_def)
  then show ?case using Nil by (subst response_delete.simps) simp
next
  case (Cons h ns)
  let ?l = "snd (response_remove l (fst h))"
  have "remove_loop (fst h) (r_head l) = Some ns" using Cons(2) by (metis remove_loop.simps(2))
  then have "ns = r_head ?l" by (simp add: response_remove_def)
  then have IH: "response_delete ?l = map fst ns" using Cons(1) by metis
  have "response_pop l = (Some (fst h, None), ?l)" using Cons(2) [symmetric] by (simp add: response_pop_def)
  then have "response_delete l = fst h # response_delete ?l" by (subst response_delete.simps) simp
  then show ?case using IH Cons(2) by (metis list.simps(9))
qed

text \<open>
  Inserting attributes one by one into an empty response gives the stable sort by type: equal types stay in the
  order of arrival, the count is right, and popping until the response is empty visits them in that order.
\<close>

theorem response_sorted:
  "insert_all (response_create tid addr) ns
    = \<lparr>r_head = sort_key fst ns, r_length = int (length ns), r_tid = tid, r_mote_addr = addr\<rparr>
    \<and> response_delete (insert_all (response_create tid addr) ns) = map fst (sort_key fst ns)"
proof -
  show ?thesis by (simp add: insert_all_sort delete_visits)
qed

end
