(* ===== verification/Tenet_Api.thy ===== *)
theory Tenet_Api
  imports Task_Install App_Link Response
begin

text \<open>
  The calls of an application: src/master/tasklib/task_construct.c, tenetAPI.c, transportAPI.c and the error reports of
  task_error.c. The generated parser is the argument \<open>yyparse\<close>: the calls it makes on a text and whether it called
  \<open>yyerror\<close>. The socket is as in the link; \<open>select\<close> is the list of its outcomes. \<open>Inl\<close> is \<open>exit(1)\<close> or undefined
  behaviour, \<open>None\<close> inside \<open>Inr\<close> a call that has not returned when the outcomes or the stream end. Printing is left out.
\<close>

definition ERROR_ATTRIBUTE :: u16 where "ERROR_ATTRIBUTE = 1"
definition TEMPERATURE :: u8 where "TEMPERATURE = 21"
definition NO_ERROR :: int where "NO_ERROR = 1"
definition TIMEOUT :: int where "TIMEOUT = 0"
definition OPEN_TRANSPORT_FAIL_ERROR :: int where "OPEN_TRANSPORT_FAIL_ERROR = -2"
definition TASK_DESCRIPTION_ERROR :: int where "TASK_DESCRIPTION_ERROR = -3"
definition TASK_SEND_ERROR :: int where "TASK_SEND_ERROR = -4"
definition FAILED_TO_SEND_ERROR :: int where "FAILED_TO_SEND_ERROR = -5"
definition SELECT_ERROR :: int where "SELECT_ERROR = -6"
definition TRANSPORT_LAYER_DISCONNECTED_ERROR :: int where "TRANSPORT_LAYER_DISCONNECTED_ERROR = -7"
definition MOTE_ERROR :: int where "MOTE_ERROR = -9"

lemmas api_codes = NO_ERROR_def TIMEOUT_def OPEN_TRANSPORT_FAIL_ERROR_def TASK_DESCRIPTION_ERROR_def TASK_SEND_ERROR_def
  FAILED_TO_SEND_ERROR_def SELECT_ERROR_def TRANSPORT_LAYER_DISCONNECTED_ERROR_def MOTE_ERROR_def

section \<open>Built-in tasks\<close>

fun build_steps ::
    "(bytes \<Rightarrow> nat \<Rightarrow> int \<Rightarrow> construction) list \<Rightarrow> bytes \<Rightarrow> nat \<Rightarrow> int \<Rightarrow> (bytes \<times> nat \<times> int) option" where
  "build_steps [] buf len n = Some (buf, len, n)"
| "build_steps (c # cs) buf len n =
    (case c buf len n of None \<Rightarrow> None | Some (l, buf', n') \<Rightarrow> build_steps cs buf' (len + l) n')"

definition build_packet :: "(bytes \<Rightarrow> nat \<Rightarrow> int \<Rightarrow> construction) list \<Rightarrow> bytes \<Rightarrow> (int \<times> bytes) option" where
  "build_packet cs buf =
    (case construct_init buf of None \<Rightarrow> None
     | Some (l, buf1) \<Rightarrow> (case build_steps cs buf1 l 0 of None \<Rightarrow> None
         | Some (buf2, len, n) \<Rightarrow> (case construct_finalize buf2 n of None \<Rightarrow> None
             | Some (l', buf3) \<Rightarrow> Some (int (len + l'), buf3))))"

definition blink_packet :: "bytes \<Rightarrow> (int \<times> bytes) option" where
  "blink_packet = build_packet
    [\<lambda>b l n. construct_issue b l n 1000 500 0,
     \<lambda>b l n. construct_count b l n 0x111 0 1,
     \<lambda>b l n. construct_actuate b l n ACTUATE_LEDS ARGTYPE_ATTRIBUTE 0x111]"

definition cnt_to_leds_and_rfm_packet :: "bytes \<Rightarrow> (int \<times> bytes) option" where
  "cnt_to_leds_and_rfm_packet = build_packet
    [\<lambda>b l n. construct_issue b l n 1000 500 0,
     \<lambda>b l n. construct_count b l n 0x44 0 1,
     \<lambda>b l n. construct_actuate b l n ACTUATE_LEDS ARGTYPE_ATTRIBUTE 0x44,
     \<lambda>b l n. construct_send b l n 0]"

definition sense_to_rfm_packet :: "bytes \<Rightarrow> (int \<times> bytes) option" where
  "sense_to_rfm_packet = build_packet
    [\<lambda>b l n. construct_issue b l n 1000 500 0,
     \<lambda>b l n. construct_sample b l n 0 1 0 TEMPERATURE 0x55,
     \<lambda>b l n. construct_send b l n 0]"

definition reboot_packet :: "bytes \<Rightarrow> (int \<times> bytes) option" where
  "reboot_packet = build_packet [\<lambda>b l n. construct_reboot b l n]"

definition parse_test_task_string :: "bytes \<Rightarrow> string \<Rightarrow> (int \<times> bytes) option" where
  "parse_test_task_string buf task_name =
    (if strcaseeq task_name ''Blink'' then blink_packet buf
     else if strcaseeq task_name ''CntToLedsAndRfm'' then cnt_to_leds_and_rfm_packet buf
     else if strcaseeq task_name ''SenseToRfm'' then sense_to_rfm_packet buf
     else if strcaseeq task_name ''Reboot'' then reboot_packet buf
     else Some (-1, buf))"

definition construct_task ::
    "(string \<Rightarrow> tp_action list \<times> bool) \<Rightarrow> bytes \<Rightarrow> string \<Rightarrow> tp_state \<Rightarrow> tp_failure + int \<times> bytes" where
  "construct_task yyparse buf task_string s =
    (case parse_test_task_string buf task_string of
       None \<Rightarrow> Inl TP_UNDEFINED
     | Some (l, buf1) \<Rightarrow>
         if l < 0
         then (case tp_parse_task buf1 (length task_string) (fst (yyparse task_string)) (snd (yyparse task_string)) s of
                 Inl e \<Rightarrow> Inl e | Inr (l', s') \<Rightarrow> Inr (l', tp_packetbuf s'))
         else Inr (l, buf1))"

section \<open>Sending\<close>

record api_state =
  tenetErrorCode :: int
  last_err_code :: u16
  last_err_loc :: u16
  last_err_loc2 :: u16

text \<open>The result of a call, what it wrote on the socket and what is left of the incoming stream.\<close>

type_synonym 'a call = "('a \<times> api_state \<times> bytes \<times> bytes) option"

definition send_task_packet :: "bool \<Rightarrow> int \<Rightarrow> u8 \<Rightarrow> bytes \<Rightarrow> bytes \<Rightarrow> api_state \<Rightarrow> int call" where
  "send_task_packet tr_opened open_transport pad packet stream s =
    (if \<not> tr_opened \<and> open_transport < 0 then Some (-1, s\<lparr>tenetErrorCode := OPEN_TRANSPORT_FAIL_ERROR\<rparr>, [], stream)
     else (case tr_send_task pad packet stream of
             (out, None) \<Rightarrow> None
           | (out, Some (s_tid, rest)) \<Rightarrow>
               Some (s_tid, s\<lparr>tenetErrorCode := if s_tid < -1 then TASK_SEND_ERROR
                                else if s_tid < 0 then FAILED_TO_SEND_ERROR else NO_ERROR\<rparr>, out, rest)))"

definition delete_task :: "u8 \<Rightarrow> u16 \<Rightarrow> bytes" where
  "delete_task pad tid = tr_close_task pad tid"

text \<open>\<open>packet\<close> is the array of the caller's frame, 300 bytes of unknown contents.\<close>

definition send_task ::
    "(string \<Rightarrow> tp_action list \<times> bool) \<Rightarrow> tp_state \<Rightarrow> bool \<Rightarrow> int \<Rightarrow> u8 \<Rightarrow> bytes \<Rightarrow> string \<Rightarrow> bytes \<Rightarrow> api_state
      \<Rightarrow> tp_failure + int call" where
  "send_task yyparse tp tr_opened open_transport pad packet task_string stream s =
    (if strcaseeq task_string ''DeleteALL'' then Inr (Some (65535, s, delete_task pad 65535, stream))
     else (case construct_task yyparse packet task_string tp of
             Inl e \<Rightarrow> Inl e
           | Inr (len, packet') \<Rightarrow>
               if len < 0 then Inr (Some (-1, s\<lparr>tenetErrorCode := TASK_DESCRIPTION_ERROR\<rparr>, [], stream))
               else Inr (send_task_packet tr_opened open_transport pad (take (nat len) packet') stream s)))"

section \<open>Receiving\<close>

datatype select_outcome = Interrupted | Select_failed | Timed_out | Readable

text \<open>The packet for the caller, or the message for the handler of its type.\<close>

definition receive_transport_packet :: "tr_msg option \<Rightarrow> (u16 \<times> u16 \<times> bytes) option \<times> tr_msg list" where
  "receive_transport_packet msg =
    (case msg of
       None \<Rightarrow> (None, [])
     | Some m \<Rightarrow>
         if tm_type m = TRANS_TYPE_RESPONSE then (Some (tm_tid m, tm_addr m, tm_data m), [])
         else if tm_type m \<in> {TRANS_TYPE_PING, TRANS_TYPE_TRACERT, TRANS_TYPE_SERVICE, TRANS_TYPE_CLOSE_ACK} then (None, [m])
         else (None, []))"

text \<open>
  The loop. Its test for a closed connection compares the pointer \<open>len\<close>, not the length, with 0, so it never applies.
\<close>

fun receive_loop :: "select_outcome list \<Rightarrow> bytes \<Rightarrow> api_state
    \<Rightarrow> ((u16 \<times> u16 \<times> bytes) option \<times> api_state \<times> tr_msg list \<times> bytes) option" where
  "receive_loop [] stream s = None"
| "receive_loop (Interrupted # es) stream s = Some (None, s, [], stream)"
| "receive_loop (Select_failed # es) stream s = Some (None, s\<lparr>tenetErrorCode := SELECT_ERROR\<rparr>, [], stream)"
| "receive_loop (Timed_out # es) stream s = Some (None, s\<lparr>tenetErrorCode := TIMEOUT\<rparr>, [], stream)"
| "receive_loop (Readable # es) stream s =
    (let (msg, rest) = read_transport_msg stream; (packet, calls) = receive_transport_packet msg
     in if tenetErrorCode s < 0 then Some (None, s, calls, rest)
        else if packet \<noteq> None then Some (packet, s, calls, rest)
        else map_option (\<lambda>(p, s', cs, r). (p, s', calls @ cs, r)) (receive_loop es rest s))"

definition receive_packet_with_timeout :: "select_outcome list \<Rightarrow> bytes \<Rightarrow> api_state
    \<Rightarrow> ((u16 \<times> u16 \<times> bytes) option \<times> api_state \<times> tr_msg list \<times> bytes) option" where
  "receive_packet_with_timeout es stream s = receive_loop es stream (s\<lparr>tenetErrorCode := NO_ERROR\<rparr>)"

section \<open>Responses\<close>

text \<open>Whether a packet is an error report, which is remembered; \<open>None\<close> when the packet ends too early.\<close>

definition check_error_response :: "bytes \<Rightarrow> api_state \<Rightarrow> (bool \<times> api_state) option" where
  "check_error_response packet s =
    (if length packet < 2 then None
     else if get16le packet 0 = ERROR_ATTRIBUTE then
       (if length packet < 10 then None
        else Some (True, s\<lparr>last_err_code := get16le packet 4, last_err_loc := get16le packet 6,
                           last_err_loc2 := get16le packet 8\<rparr>))
     else Some (False, s))"

text \<open>The 16-bit numbers of a value, the odd last byte by itself.\<close>

fun attr_data :: "bytes \<Rightarrow> int list" where
  "attr_data [] = []"
| "attr_data [a] = [uint a]"
| "attr_data (a # b # bs) = uint (mk16 b a) # attr_data bs"

function read_loop :: "bytes \<Rightarrow> nat \<Rightarrow> response \<Rightarrow> response option" where
  "read_loop packet offset list =
    (if offset < length packet then
       (let alen = unat (get16le packet (offset + 2))
        in if offset + 4 > length packet \<or> offset + 4 + alen > length packet then None
           else read_loop packet (offset + 4 + alen)
             (response_insert list (uint (get16le packet offset)) (attr_data (take alen (drop (offset + 4) packet)))))
     else Some list)"
  by pat_completeness auto
termination
  by (relation "measure (\<lambda>(packet, offset, list). length packet - offset)") auto

declare read_loop.simps [simp del]

definition read_response :: "select_outcome list \<Rightarrow> bytes \<Rightarrow> api_state \<Rightarrow>
    tp_failure + (response option \<times> api_state \<times> tr_msg list \<times> bytes) option" where
  "read_response es stream s =
    (case receive_packet_with_timeout es stream s of
       None \<Rightarrow> Inr None
     | Some (packet, s1, calls, rest) \<Rightarrow>
         if tenetErrorCode s1 < 0 then Inr (Some (None, s1, calls, rest))
         else (case packet of
                 None \<Rightarrow> Inr (Some (None, s1, calls, rest))
               | Some (tid, addr, p) \<Rightarrow>
                   (case check_error_response p s1 of
                      None \<Rightarrow> Inl TP_UNDEFINED
                    | Some (True, s2) \<Rightarrow> Inr (Some (None, s2\<lparr>tenetErrorCode := MOTE_ERROR\<rparr>, calls, rest))
                    | Some (False, s2) \<Rightarrow>
                        (case read_loop p 0 (response_create (uint tid) (uint addr)) of
                           None \<Rightarrow> Inl TP_UNDEFINED
                         | Some list \<Rightarrow> Inr (Some (Some list, s2, calls, rest))))))"

section \<open>Built-in tasks are descriptions\<close>

lemma build_steps_emit:
  "emit_all s es = (case build_steps (map (\<lambda>e b l n. put_elem b l n e) es) (tp_packetbuf s) (tp_length s) (tp_num_elements s) of
     None \<Rightarrow> Inl TP_UNDEFINED
   | Some (b, l, n) \<Rightarrow> Inr (s\<lparr>tp_packetbuf := b, tp_length := l, tp_num_elements := n\<rparr>))"
  by (induction es arbitrary: s) (auto simp: tp_emit_def split: option.splits sum.splits)

lemma build_steps_bytes:
  assumes "len \<le> length buf"
  shows "build_steps (map (\<lambda>e b l n. put_elem b l n e) es) buf len n =
    (if len + length (elems_bytes es) \<le> length buf
     then Some (put_bytes buf len (elems_bytes es), len + length (elems_bytes es), n + int (length es)) else None)"
proof -
  let ?s = "\<lparr>tp_packetbuf = buf, tp_length = len, tp_num_elements = n, tp_args = [], tp_argpos = 0, tp_is_constant = False,
     tp_byteString = [], tp_arg_byteString = 0, tp_mem = \<lambda>i. 0\<rparr>"
  show ?thesis using emit_all_eq [of ?s es] build_steps_emit [of ?s es] assms
    by (auto split: option.splits if_splits)
qed

lemma build_is_parse:
  assumes "task_built es (tp_mem s) = Inr els" "2 + length (elems_bytes els) \<le> length buf" "len < 300"
    and "cs = map (\<lambda>e b l n. put_elem b l n e) els"
  shows "\<exists>l s'. build_packet cs buf = Some (l, tp_packetbuf s')
    \<and> tp_parse_task buf len (chain_actions es) False s = Inr (l, s')"
proof -
  have buf: "2 \<le> length buf" "buf \<noteq> []" using assms(2) by auto
  obtain s' where s': "tp_parse_task buf len (chain_actions es) False s = Inr (2 + int (length (elems_bytes els)), s')"
    "tp_packetbuf s' = put8 (put_bytes (put8 buf 0 1) 2 (elems_bytes els)) 1 (of_nat (length els))"
    using parse_runs [OF assms(1) buf(1) assms(3)] assms(2) by auto
  have "build_steps cs (put8 buf 0 1) 2 0
      = Some (put_bytes (put8 buf 0 1) 2 (elems_bytes els), 2 + length (elems_bytes els), int (length els))"
    unfolding assms(4) using build_steps_bytes [of 2 "put8 buf 0 1" els 0] assms(2) by simp
  then have "build_packet cs buf = Some (2 + int (length (elems_bytes els)), tp_packetbuf s')"
    using buf s'(2) assms(2) by (simp add: build_packet_def construct_init_def construct_finalize_def task_consts)
  then show ?thesis using s'(1) by blast
qed

definition builtin_tasks :: "(string \<times> task_element list) list" where
  "builtin_tasks =
    [(''Blink'', [Tasklet ''issue'' [Number 1000, Number 500, Number 0], Tasklet ''count'' [Number 273, Number 0, Number 1],
        Tasklet ''set_leds'' [Number 273]]),
     (''CntToLedsAndRfm'', [Tasklet ''issue'' [Number 1000, Number 500, Number 0],
        Tasklet ''count'' [Number 68, Number 0, Number 1], Tasklet ''set_leds'' [Number 68], Tasklet ''send'' []]),
     (''SenseToRfm'', [Tasklet ''issue'' [Number 1000, Number 500, Number 0],
        Tasklet ''sample'' [Number 0, Number 1, Number 0, Number 21, Number 85], Tasklet ''send'' []]),
     (''Reboot'', [Tasklet ''reboot'' []])]"

lemmas builtin_defs = tp_defs task_consts put_elem_def TEMPERATURE_def

lemma builtin_meanings:
  "task_built [Tasklet ''issue'' [Number 1000, Number 500, Number 0], Tasklet ''count'' [Number 273, Number 0, Number 1],
        Tasklet ''set_leds'' [Number 273]] mem
    = Inr [Elem False 5 [F32 1000, F32 500, F8 0, Gap 1], Elem False 3 [F16 0, F16 1, F16 273], Elem False 7 [F8 0, F8 1, F16 273]]"
  "task_built [Tasklet ''issue'' [Number 1000, Number 500, Number 0], Tasklet ''count'' [Number 68, Number 0, Number 1],
        Tasklet ''set_leds'' [Number 68], Tasklet ''send'' []] mem
    = Inr [Elem False 5 [F32 1000, F32 500, F8 0, Gap 1], Elem False 3 [F16 0, F16 1, F16 68], Elem False 7 [F8 0, F8 1, F16 68],
        Elem False 4 [F8 0, F8 0]]"
  "task_built [Tasklet ''issue'' [Number 1000, Number 500, Number 0],
        Tasklet ''sample'' [Number 0, Number 1, Number 0, Number 21, Number 85], Tasklet ''send'' []] mem
    = Inr [Elem False 5 [F32 1000, F32 500, F8 0, Gap 1], Elem False 21 [F32 0, F16 1, F16 85, F8 21, F8 0], Elem False 4 [F8 0, F8 0]]"
  "task_built [Tasklet ''reboot'' []] mem = Inr [Elem False 2 []]"
  by code_simp+

text \<open>
  Each built-in task is an abbreviation: its packet is the one the parser makes of a description, byte for byte.
\<close>

theorem builtin_tasks_described:
  assumes "(name, es) \<in> set builtin_tasks" "60 \<le> length buf" "len < 300"
  shows "\<exists>l s'. parse_test_task_string buf name = Some (l, tp_packetbuf s')
    \<and> tp_parse_task buf len (chain_actions es) False s = Inr (l, s')"
proof -
  have parts: "(\<lambda>b l n. construct_issue b l n 1000 500 0) = (\<lambda>b l n. put_elem b l n (Elem False 5 [F32 1000, F32 500, F8 0, Gap 1]))"
    "(\<lambda>b l n. construct_count b l n tag 0 1) = (\<lambda>b l n. put_elem b l n (Elem False 3 [F16 0, F16 1, F16 tag]))"
    "(\<lambda>b l n. construct_actuate b l n ACTUATE_LEDS ARGTYPE_ATTRIBUTE tag)
      = (\<lambda>b l n. put_elem b l n (Elem False 7 [F8 0, F8 1, F16 tag]))"
    "(\<lambda>b l n. construct_sample b l n 0 1 0 TEMPERATURE 0x55)
      = (\<lambda>b l n. put_elem b l n (Elem False 21 [F32 0, F16 1, F16 85, F8 21, F8 0]))"
    "(\<lambda>b l n. construct_send b l n 0) = (\<lambda>b l n. put_elem b l n (Elem False 4 [F8 0, F8 0]))"
    "(\<lambda>b l n. construct_reboot b l n) = (\<lambda>b l n. put_elem b l n (Elem False 2 []))" for tag
    by (simp_all add: fun_eq_iff builtin_defs)
  consider (blink) "name = ''Blink''" "es = snd (builtin_tasks ! 0)" | (cnt) "name = ''CntToLedsAndRfm''" "es = snd (builtin_tasks ! 1)"
    | (sense) "name = ''SenseToRfm''" "es = snd (builtin_tasks ! 2)" | (reb) "name = ''Reboot''" "es = snd (builtin_tasks ! 3)"
    using assms(1) by (auto simp: builtin_tasks_def)
  then show ?thesis
  proof cases
    case blink
    then show ?thesis
      using build_is_parse [OF builtin_meanings(1) _ assms(3) refl, of buf s] assms(2)
      by (simp add: builtin_tasks_def parse_test_task_string_def strcaseeq_def blink_packet_def parts)
  next
    case cnt
    then show ?thesis
      using build_is_parse [OF builtin_meanings(2) _ assms(3) refl, of buf s] assms(2)
      by (simp add: builtin_tasks_def parse_test_task_string_def strcaseeq_def tolower_def cnt_to_leds_and_rfm_packet_def parts)
  next
    case sense
    then show ?thesis
      using build_is_parse [OF builtin_meanings(3) _ assms(3) refl, of buf s] assms(2)
      by (simp add: builtin_tasks_def parse_test_task_string_def strcaseeq_def tolower_def sense_to_rfm_packet_def parts)
  next
    case reb
    then show ?thesis
      using build_is_parse [OF builtin_meanings(4) _ assms(3) refl, of buf s] assms(2)
      by (simp add: builtin_tasks_def parse_test_task_string_def strcaseeq_def tolower_def reboot_packet_def parts)
  qed
qed

theorem builtin_tasks_described_witness:
  "\<exists>l s'. parse_test_task_string (replicate 300 0) ''Reboot'' = Some (l, tp_packetbuf s')
    \<and> tp_parse_task (replicate 300 0) 8 (chain_actions [Tasklet ''reboot'' []]) False idle_parser = Inr (l, s')"
  by (rule builtin_tasks_described) (simp_all add: builtin_tasks_def)

section \<open>Reading a response\<close>

definition fresh_api :: api_state where
  "fresh_api = \<lparr>tenetErrorCode = 0, last_err_code = 0, last_err_loc = 0, last_err_loc2 = 0\<rparr>"

definition attr_bytes :: "u16 \<times> bytes \<Rightarrow> bytes" where
  "attr_bytes a = [lo8 (fst a), hi8 (fst a), lo8 (of_nat (length (snd a))), hi8 (of_nat (length (snd a)))] @ snd a"

definition attr_value :: "u16 \<times> bytes \<Rightarrow> attr_node" where
  "attr_value a = (uint (fst a), attr_data (snd a))"

lemma attr_value_pair: "attr_value (t, v) = (uint t, attr_data v)"
  by (simp add: attr_value_def)

lemma attr_header:
  assumes "length v < 65536"
  shows "get16le (pre @ attr_bytes (t, v) @ rest) (length pre) = t"
    "unat (get16le (pre @ attr_bytes (t, v) @ rest) (length pre + 2)) = length v"
  using assms by (simp_all add: get16le_def get8_def attr_bytes_def nth_append unat_of_nat_u16)

lemma read_loop_attr:
  assumes "length v < 65536"
  shows "read_loop (pre @ attr_bytes (t, v) @ rest) (length pre) l
    = read_loop (pre @ attr_bytes (t, v) @ rest) (length (pre @ attr_bytes (t, v))) (response_insert l (uint t) (attr_data v))"
proof -
  let ?p = "pre @ attr_bytes (t, v) @ rest"
  have len: "length (attr_bytes (t, v)) = 4 + length v" by (simp add: attr_bytes_def)
  have v: "take (length v) (drop (length pre + 4) ?p) = v" by (simp add: attr_bytes_def)
  have off: "length pre + 4 + length v = length (pre @ attr_bytes (t, v))" using len by simp
  have c: "length pre < length ?p" "(length pre + 4 > length ?p \<or> length (pre @ attr_bytes (t, v)) > length ?p) = False"
    using len by simp_all
  show ?thesis
    by (subst read_loop.simps) (simp only: c if_True if_False Let_def attr_header [OF assms] v off)
qed

lemma read_loop_attrs:
  "\<forall>a \<in> set as. length (snd a) < 65536 \<Longrightarrow>
    read_loop (pre @ concat (map attr_bytes as)) (length pre) l = Some (insert_all l (map attr_value as))"
proof (induction as arbitrary: pre l)
  case Nil
  then show ?case by (subst read_loop.simps) (simp add: insert_all_def)
next
  case (Cons a as)
  obtain t v where a: "a = (t, v)" by (cases a)
  have "read_loop (pre @ attr_bytes (t, v) @ concat (map attr_bytes as)) (length pre) l
    = Some (insert_all (response_insert l (uint t) (attr_data v)) (map attr_value as))"
    using Cons.IH [of "pre @ attr_bytes (t, v)"] Cons.prems a by (subst read_loop_attr) simp_all
  then show ?case by (simp add: a insert_all_def attr_value_pair)
qed

lemma whole_attributes:
  "read_loop (pre @ q) (length pre) l \<noteq> None \<Longrightarrow> \<exists>as. q = concat (map attr_bytes as) \<and> (\<forall>a \<in> set as. length (snd a) < 65536)"
proof (induction "length q" arbitrary: pre q l rule: less_induct)
  case less
  show ?case
  proof (cases q)
    case (Cons c cs)
    let ?p = "pre @ q"
    let ?n = "unat (get16le ?p (length pre + 2))"
    have fit: "length pre + 4 + ?n \<le> length ?p"
      and next_attr: "read_loop ?p (length pre + 4 + ?n) (response_insert l (uint (get16le ?p (length pre)))
          (attr_data (take ?n (drop (length pre + 4) ?p)))) \<noteq> None"
      using less(2) Cons by (subst (asm) read_loop.simps, auto simp: Let_def split: if_splits)+
    have "q = take 4 q @ take ?n (drop 4 q) @ drop ?n (drop 4 q)" by (simp only: append_take_drop_id)
    moreover have "length (take 4 q) = 4" "length (take ?n (drop 4 q)) = ?n" using fit by simp_all
    ultimately obtain h v r where q: "q = h @ v @ r" "length h = 4" "length v = ?n" by blast
    obtain a b c d where h: "h = [a, b, c, d]" using q(2) by (auto simp: length_Suc_conv numeral_eq_Suc)
    have n: "?n = unat (mk16 d c)" "get16le ?p (length pre) = mk16 b a"
      by (simp_all add: q(1) h get16le_def get8_def nth_append)
    have "q = attr_bytes (mk16 b a, v) @ r"
      using q(3) n(1) by (simp add: q(1) h attr_bytes_def)
    moreover have "read_loop ((pre @ h @ v) @ r) (length (pre @ h @ v)) (response_insert l (uint (get16le ?p (length pre)))
          (attr_data (take ?n (drop (length pre + 4) ?p)))) \<noteq> None"
      using next_attr q by (simp add: add.assoc)
    then obtain as where "r = concat (map attr_bytes as)" "\<forall>a \<in> set as. length (snd a) < 65536"
      using less(1) [of r "pre @ h @ v"] q by fastforce
    moreover have "length v < 65536" using q(3) by simp
    ultimately show ?thesis by (intro exI [of _ "(mk16 b a, v) # as"]) simp
  qed (auto intro: exI [of _ "[]"])
qed

lemma read_response_readable:
  assumes "tm_type m = TRANS_TYPE_RESPONSE" "length (tm_data m) < 65530" "get16le (tm_data m) 0 \<noteq> ERROR_ATTRIBUTE"
  shows "read_response (Readable # es) (message pad m @ rest) s =
    (if length (tm_data m) < 2 then Inl TP_UNDEFINED
     else (case read_loop (tm_data m) 0 (response_create (uint (tm_tid m)) (uint (tm_addr m))) of
             None \<Rightarrow> Inl TP_UNDEFINED
           | Some l \<Rightarrow> Inr (Some (Some l, s\<lparr>tenetErrorCode := NO_ERROR\<rparr>, [], rest))))"
  using assms
  by (simp add: read_response_def receive_packet_with_timeout_def link_message receive_transport_packet_def
      check_error_response_def NO_ERROR_def split: option.split)

lemma read_whole:
  assumes "q = concat (map attr_bytes as)" "\<forall>a \<in> set as. length (snd a) < 65536"
  shows "read_loop q 0 (response_create tid addr)
    = Some \<lparr>r_head = sort_key fst (map attr_value as), r_length = int (length as), r_tid = tid, r_mote_addr = addr\<rparr>"
  using read_loop_attrs [OF assms(2), of "[]"] by (simp add: assms(1) insert_all_sort)

lemma attr_length: "a \<in> set as \<Longrightarrow> 4 + length (snd a) \<le> length (concat (map attr_bytes as))"
  by (induction as) (auto simp: attr_bytes_def)

text \<open>
  C30: a response of whole attributes that comes in over the socket is read as the list of these attributes, sorted by
  type and otherwise in the order of the packet, each value as its numbers of 16 bits; the stream stands behind it.
\<close>

theorem read_response_decodes:
  assumes "tm_type m = TRANS_TYPE_RESPONSE" "tm_data m = concat (map attr_bytes as)" "length (tm_data m) < 65530"
    and "as \<noteq> []" "fst (hd as) \<noteq> ERROR_ATTRIBUTE"
  shows "read_response (Readable # es) (message pad m @ rest) s
    = Inr (Some (Some \<lparr>r_head = sort_key fst (map attr_value as), r_length = int (length as),
                       r_tid = uint (tm_tid m), r_mote_addr = uint (tm_addr m)\<rparr>,
                 s\<lparr>tenetErrorCode := NO_ERROR\<rparr>, [], rest))"
proof -
  have short: "\<forall>a \<in> set as. length (snd a) < 65536" using attr_length assms(2,3) by fastforce
  obtain t v bs where a: "as = (t, v) # bs" using assms(4) by (metis neq_Nil_conv surj_pair)
  have "get16le (tm_data m) 0 = t"
    using attr_header(1) [of v "[]" t "concat (map attr_bytes bs)"] short by (simp add: assms(2) a)
  moreover have "4 \<le> length (tm_data m)" using attr_length [of "(t, v)" as] by (simp add: assms(2) a)
  ultimately show ?thesis
    using read_response_readable [OF assms(1,3)] assms(5) a by (simp add: read_whole [OF assms(2) short])
qed

definition two_attributes :: tr_msg where
  "two_attributes = \<lparr>tm_tid = 7, tm_addr = 3, tm_type = TRANS_TYPE_RESPONSE,
     tm_data = concat (map attr_bytes [(20, [1, 2, 3]), (10, [5, 0])])\<rparr>"

theorem read_response_decodes_witness:
  "read_response [Readable] (message 0 two_attributes) fresh_api
    = Inr (Some (Some \<lparr>r_head = [(10, [5]), (20, [513, 3])], r_length = 2, r_tid = 7, r_mote_addr = 3\<rparr>,
        fresh_api\<lparr>tenetErrorCode := 1\<rparr>, [], []))"
proof -
  have v: "attr_value (20, [1, 2, 3]) = (20, [513, 3])" "attr_value (10, [5, 0]) = (10, [5])"
    by (simp_all add: attr_value_def mk16_def)
  show ?thesis
    using read_response_decodes [of two_attributes "[(20, [1, 2, 3]), (10, [5, 0])]" "[]" 0 "[]"
        "fresh_api"]
    by (simp add: v two_attributes_def attr_bytes_def ERROR_ATTRIBUTE_def NO_ERROR_def)
qed



section \<open>A closed connection\<close>

lemma receive_codes:
  "receive_loop es stream s = Some (p, s', cs, r) \<Longrightarrow> tenetErrorCode s = NO_ERROR \<Longrightarrow>
    tenetErrorCode s' \<in> {NO_ERROR, TIMEOUT, SELECT_ERROR}"
  by (induction es stream s arbitrary: p s' cs r rule: receive_loop.induct)
    (fastforce split: prod.splits if_splits option.splits)+

text \<open>
  When the daemon closes the connection, the call does not return however often \<open>select\<close> reports the socket readable,
  and TRANSPORT_LAYER_DISCONNECTED_ERROR, which the code has for this case, is the result of no run.
\<close>

theorem disconnection_unreported:
  "receive_packet_with_timeout (replicate n Readable) [] s = None
    \<and> (\<forall>es stream. \<nexists>p s' cs r. receive_packet_with_timeout es stream s = Some (p, s', cs, r)
          \<and> tenetErrorCode s' = TRANSPORT_LAYER_DISCONNECTED_ERROR)"
proof
  have "receive_loop (replicate n Readable) [] s = None" if "tenetErrorCode s = 1" for s
    using that by (induction n)
      (simp_all add: read_transport_msg_def read_tr_packet_def receive_transport_packet_def)
  then show "receive_packet_with_timeout (replicate n Readable) [] s = None"
    by (simp add: receive_packet_with_timeout_def NO_ERROR_def)
  show "\<forall>es stream. \<nexists>p s' cs r. receive_packet_with_timeout es stream s = Some (p, s', cs, r)
          \<and> tenetErrorCode s' = TRANSPORT_LAYER_DISCONNECTED_ERROR"
    unfolding receive_packet_with_timeout_def using receive_codes by (fastforce simp: api_codes)
qed

section \<open>A task on its way\<close>

text \<open>The generated parser follows the rules and the grammar it is generated from.\<close>

definition generated_from :: "int \<Rightarrow> (string \<Rightarrow> tp_action list \<times> bool) \<Rightarrow> bool" where
  "generated_from ulong_max yyparse \<longleftrightarrow>
    (\<forall>text ts as. yylex ulong_max text = Some (ts, False) \<longrightarrow> task_chain ts as \<longrightarrow> yyparse text = (as, False))"

lemma show_task_paren: "es \<noteq> [] \<Longrightarrow> CHR ''('' \<in> set (show_task es)"
proof -
  assume "es \<noteq> []"
  then obtain e es' where es: "es = e # es'" by (cases es) auto
  show ?thesis unfolding es by (cases e) (simp_all add: show_task_def)
qed

lemma show_task_names:
  assumes "es \<noteq> []"
  shows "\<not> strcaseeq (show_task es) ''DeleteALL''" "\<not> strcaseeq (show_task es) ''Blink''"
    "\<not> strcaseeq (show_task es) ''CntToLedsAndRfm''" "\<not> strcaseeq (show_task es) ''SenseToRfm''"
    "\<not> strcaseeq (show_task es) ''Reboot''"
proof -
  have code_tolower: "code (tolower c) = (if 65 \<le> code c \<and> code c \<le> 90 then code c + 32 else code c)" for c
    by (simp add: tolower_def code_def Let_def)
  have "code (tolower (CHR ''('')) = 40" unfolding code_tolower by (simp add: code_def)
  moreover have "code (tolower (CHR ''('')) \<in> set (map code (map tolower (show_task es)))"
    using show_task_paren [OF assms] by simp
  ultimately have p: "strcaseeq (show_task es) w \<Longrightarrow> 40 \<in> set (map code (map tolower w))" for w
    unfolding strcaseeq_def by (simp only:)
  show "\<not> strcaseeq (show_task es) ''DeleteALL''" "\<not> strcaseeq (show_task es) ''Blink''"
    "\<not> strcaseeq (show_task es) ''CntToLedsAndRfm''" "\<not> strcaseeq (show_task es) ''SenseToRfm''"
    "\<not> strcaseeq (show_task es) ''Reboot''"
    by (rule notI, drule p, simp only: list.map list.set code_tolower, simp add: code_def)+
qed

lemma construct_shown:
  assumes "generated_from ulong_max yyparse" "es \<noteq> []" "\<forall>e \<in> set es. is_element e" "2 ^ 31 \<le> ulong_max"
  shows "construct_task yyparse buf (show_task es) s =
    (case tp_parse_task buf (length (show_task es)) (chain_actions es) False s of
       Inl e \<Rightarrow> Inl e | Inr (l, s') \<Rightarrow> Inr (l, tp_packetbuf s'))"
proof -
  obtain e es' where es: "es = e # es'" using assms(2) by (cases es) auto
  have y: "yylex ulong_max (show_task es) = Some (element_tokens e @ rest_tokens es', False)"
    unfolding es by (rule yylex_task) (use assms es in auto)
  have "parse_chain (element_tokens e @ rest_tokens es') = Some (chain_actions es)"
    by (simp add: parse_chain_def parse_elem_tokens chain_tail_tokens es chain_actions_def)
  then have "yyparse (show_task es) = (chain_actions es, False)"
    using assms(1) y by (simp add: generated_from_def parse_chain_grammar)
  then show ?thesis
    by (simp add: construct_task_def parse_test_task_string_def show_task_names [OF assms(2)])
qed

lemma elems_count: "4 * length els \<le> length (elems_bytes els)"
proof (induction els)
  case (Cons e els)
  have "4 \<le> length (elem_bytes e)" by (cases e) (simp add: Let_def)
  then show ?case using Cons by simp
qed simp


definition grammar_parser :: "string \<Rightarrow> tp_action list \<times> bool" where
  "grammar_parser text =
    (case yylex (2 ^ 32 - 1) text of
       Some (ts, False) \<Rightarrow> (case parse_chain ts of Some as \<Rightarrow> (as, False) | None \<Rightarrow> ([], True))
     | _ \<Rightarrow> ([], True))"

lemma grammar_parser_generated: "generated_from (2 ^ 32 - 1) grammar_parser"
  unfolding generated_from_def grammar_parser_def by (auto simp flip: parse_chain_grammar)


section \<open>A packet that does not fit\<close>

text \<open>
  C31: a description overruns the packet array of send_task exactly if its tasklets take more than 298 bytes; the parser's
  limit of 299 characters does not prevent it: 22 times wait(1) is a text of 196 characters and a packet of 310 bytes.
\<close>

theorem send_task_overrun_iff:
  assumes "generated_from ulong_max yyparse" "es \<noteq> []" "\<forall>e \<in> set es. is_element e" "2 ^ 31 \<le> ulong_max"
    and "task_built es (tp_mem tp) = Inr els" "length (show_task es) < 300" "length packet = 300"
  shows "send_task yyparse tp tr_opened open_transport pad packet (show_task es) stream s = Inl TP_UNDEFINED
    \<longleftrightarrow> 298 < length (elems_bytes els)"
proof (cases "2 + length (elems_bytes els) \<le> length packet")
  case True
  then obtain l s' where "tp_parse_task packet (length (show_task es)) (chain_actions es) False tp = Inr (l, s')"
    using parse_runs [OF assms(5) _ assms(6), of packet] assms(7) by auto
  then have "send_task yyparse tp tr_opened open_transport pad packet (show_task es) stream s \<noteq> Inl TP_UNDEFINED"
    unfolding send_task_def construct_shown [OF assms(1-4)] by (simp add: show_task_names [OF assms(2)])
  then show ?thesis using True assms(7) by simp
next
  case False
  then have "tp_parse_task packet (length (show_task es)) (chain_actions es) False tp = Inl TP_UNDEFINED"
    using parse_runs [OF assms(5) _ assms(6), of packet] assms(7) by simp
  then have "send_task yyparse tp tr_opened open_transport pad packet (show_task es) stream s = Inl TP_UNDEFINED"
    unfolding send_task_def construct_shown [OF assms(1-4)] by (simp add: show_task_names [OF assms(2)])
  then show ?thesis using False assms(7) by simp
qed

lemma many_waits:
  "task_built (replicate n (Tasklet ''wait'' [Number 1])) mem = Inr (replicate n (Elem False 5 [F32 1, F32 0, F8 0, Gap 1]))"
proof (induction n)
  case (Suc n)
  have "tasklet_in built_tasklets ''wait'' [Number 1] mem = Inr [Elem False 5 [F32 1, F32 0, F8 0, Gap 1]]" by code_simp
  then show ?case using Suc by simp
qed simp

theorem send_task_overrun_iff_witness:
  "length (show_task (replicate 22 (Tasklet ''wait'' [Number 1]))) = 196
    \<and> send_task grammar_parser idle_parser True 0 0 (replicate 300 0) (show_task (replicate 22 (Tasklet ''wait'' [Number 1]))) [] fresh_api
      = Inl TP_UNDEFINED"
proof -
  let ?es = "replicate 22 (Tasklet ''wait'' [Number 1])"
  let ?els = "replicate 22 (Elem False 5 [F32 1, F32 0, F8 0, Gap 1])"
  have r: "length (show_rest (replicate n (Tasklet ''wait'' [Number 1]))) = 9 * n" for n
    by (induction n) (simp_all add: show_arglist_def digits.simps)
  have "?es = Tasklet ''wait'' [Number 1] # replicate 21 (Tasklet ''wait'' [Number 1])" by (simp add: numeral_eq_Suc)
  then have l: "length (show_task ?es) = 196"
    using r [of 21] by (simp only: show_task_def list.case) (simp add: show_arglist_def digits.simps)
  have b: "length (elems_bytes (replicate n (Elem False 5 [F32 1, F32 0, F8 0, Gap 1]))) = 14 * n" for n
    by (induction n) (simp_all add: Let_def)
  have "298 < length (elems_bytes ?els)" unfolding b by simp
  then have "send_task grammar_parser idle_parser True 0 0 (replicate 300 0) (show_task ?es) [] fresh_api = Inl TP_UNDEFINED"
    using send_task_overrun_iff [OF grammar_parser_generated, of ?es idle_parser ?els "replicate 300 0" True 0 0 "[]" fresh_api]
      l many_waits [of 22] by (simp add: is_name_def letters)
  then show ?thesis using l by blast
qed

end
