(* ===== verification/Seqno_Space.thy ===== *)
theory Seqno_Space
  imports Prelude
begin

text \<open>
  The interface that the users of a sequence-number space rely on. Both protocols of the system
  number packets in a circle \<open>1 .. maxs\<close> that skips 0: the transport layer
  (src/mote/lib/transport/tr_seqno.c) and the dissemination layer (src/mote/lib/trd/trd_seqno.c).
  \<open>fwd\<close> is the position \<open>k\<close> steps ahead on the circle. The laws say what the three operations
  promise on it; the lemmas of the locale are what the loops over missing packets need.
\<close>

definition in_space :: "nat \<Rightarrow> u16 \<Rightarrow> bool" where
  "in_space m a \<longleftrightarrow> 1 \<le> unat a \<and> unat a \<le> m"

definition fwd :: "nat \<Rightarrow> u16 \<Rightarrow> nat \<Rightarrow> u16" where
  "fwd m a k = of_nat ((unat a - 1 + k) mod m + 1)"

lemma unat_fwd: "0 < m \<Longrightarrow> m \<le> 65535 \<Longrightarrow> unat (fwd m a k) = (unat a - 1 + k) mod m + 1"
proof -
  assume m: "0 < m" "m \<le> 65535"
  have "(unat a - 1 + k) mod m < m" using m(1) by simp
  with m(2) have "(unat a - 1 + k) mod m + 1 < 65536" by linarith
  then show ?thesis unfolding fwd_def unat_of_nat_u16 by (rule mod_less)
qed

lemma fwd_in_space [simp]: "0 < m \<Longrightarrow> m \<le> 65535 \<Longrightarrow> in_space m (fwd m a k)"
  using mod_less_divisor [of m "unat a - 1 + k"] by (simp add: in_space_def unat_fwd Suc_le_eq)

lemma fwd_0: "m \<le> 65535 \<Longrightarrow> in_space m a \<Longrightarrow> fwd m a 0 = a"
  by (auto simp: in_space_def word_eq_unat unat_fwd)

lemma fwd_fwd: "0 < m \<Longrightarrow> m \<le> 65535 \<Longrightarrow> fwd m (fwd m a j) k = fwd m a (j + k)"
  by (simp add: word_eq_unat unat_fwd mod_add_left_eq add.assoc)

lemma fwd_inj:
  assumes m: "0 < m" "m \<le> 65535" and "j < m" "k < m" "fwd m a j = fwd m a k"
  shows "j = k"
proof -
  have "(unat a - 1 + j) mod m = (unat a - 1 + k) mod m"
    using assms by (simp add: word_eq_unat unat_fwd)
  then have "j mod m = k mod m" by (simp add: nat_mod_eq_iff)
  then show ?thesis using assms by simp
qed

locale seqno_space =
  fixes nxt :: "u16 \<Rightarrow> u16"
    and add :: "u16 \<Rightarrow> u16 \<Rightarrow> u16"
    and cmp :: "u16 \<Rightarrow> u16 \<Rightarrow> int"
    and maxs :: nat
    and win :: nat
  assumes maxs_bounds: "win < maxs" "maxs \<le> 65535" "0 < win"
    and nxt_in_space: "in_space maxs (nxt a)"
    and nxt_fwd: "in_space maxs a \<Longrightarrow> nxt a = fwd maxs a 1"
    and add_fwd: "in_space maxs a \<Longrightarrow> k \<le> win \<Longrightarrow> add a (of_nat k) = fwd maxs a k"
    and cmp_refl: "cmp a a = 0"
    and cmp_ahead: "in_space maxs a \<Longrightarrow> 0 < k \<Longrightarrow> k < win \<Longrightarrow> cmp (fwd maxs a k) a = 1"
    and cmp_antisym: "in_space maxs a \<Longrightarrow> in_space maxs b \<Longrightarrow> cmp b a = - cmp a b"
    and cmp_zero: "in_space maxs a \<Longrightarrow> in_space maxs b \<Longrightarrow> cmp a b = 0 \<Longrightarrow> a = b"
begin

lemma maxs_pos: "0 < maxs"
  using maxs_bounds by linarith

lemma funpow_nxt: "in_space maxs a \<Longrightarrow> (nxt ^^ k) a = fwd maxs a k"
proof (induction k)
  case 0
  then show ?case using maxs_bounds by (simp add: fwd_0)
next
  case (Suc k)
  then show ?case
    using maxs_bounds maxs_pos by (simp add: nxt_fwd fwd_fwd)
qed

lemma cmp_behind:
  "in_space maxs a \<Longrightarrow> 0 < k \<Longrightarrow> k < win \<Longrightarrow> cmp a (fwd maxs a k) = -1"
  using cmp_ahead [of a k] cmp_antisym [of "fwd maxs a k" a] maxs_bounds maxs_pos by simp

lemma cmp_next: "in_space maxs a \<Longrightarrow> 1 < win \<Longrightarrow> cmp (nxt a) a = 1"
  using cmp_ahead [of a 1] by (simp add: nxt_fwd)

lemma cmp_fwd_fwd:
  assumes "in_space maxs a" "j < k" "k - j < win"
  shows "cmp (fwd maxs a k) (fwd maxs a j) = 1"
proof -
  have "fwd maxs a k = fwd maxs (fwd maxs a j) (k - j)"
    using assms maxs_bounds maxs_pos by (simp add: fwd_fwd)
  then show ?thesis
    using assms maxs_bounds maxs_pos by (simp add: cmp_ahead)
qed

lemma distinct_fwd:
  "n \<le> maxs \<Longrightarrow> distinct (map (fwd maxs a) [0..<n])"
  using maxs_bounds maxs_pos
  by (auto simp: distinct_map inj_on_def dest!: fwd_inj [rotated -1])

end

end
