(* ===== verification/Trd_Seqno.thy ===== *)
theory Trd_Seqno
  imports Seqno_Space
begin

text \<open>
  Model of src/mote/lib/trd/trd_seqno.c (constants and packet classes in trd_seqno.h): the sequence
  numbers of dissemination, 1 .. 5000, with two special values \<open>TRD_SEQNO_UNKNOWN\<close> (0) and
  \<open>TRD_SEQNO_OLDEST\<close> (0xfffd), both older than every number.
\<close>

definition TRD_SEQNO_UNKNOWN :: u16 where [consts_defs]: "TRD_SEQNO_UNKNOWN = 0"
definition TRD_SEQNO_FIRST :: u16 where [consts_defs]: "TRD_SEQNO_FIRST = 1"
definition TRD_SEQNO_LAST :: u16 where [consts_defs]: "TRD_SEQNO_LAST = 0x1388"
definition TRD_SEQNO_OLDEST :: u16 where [consts_defs]: "TRD_SEQNO_OLDEST = 0xfffd"
definition TRD_SEQNO_WRAP_WINDOW :: nat where [consts_defs]: "TRD_SEQNO_WRAP_WINDOW = 0x10"

text \<open>\<open>trd_class_t\<close>: the verdict on a packet against the cache of its origin.\<close>

datatype trd_class =
  TRD_CLASS_UNKNOWN | TRD_CLASS_NEXT_NEW | TRD_CLASS_NEWER | TRD_CLASS_TOO_NEW
| TRD_CLASS_IN_LAST | TRD_CLASS_IN_OLD | TRD_CLASS_TOO_OLD | TRD_CLASS_NULL

definition trd_seqno_next :: "u16 \<Rightarrow> u16" where
  "trd_seqno_next a =
    (if a = TRD_SEQNO_UNKNOWN then TRD_SEQNO_FIRST
     else if a \<ge> TRD_SEQNO_LAST then TRD_SEQNO_FIRST
     else a + 1)"

text \<open>The loop \<open>while (c > TRD_SEQNO_LAST) c -= TRD_SEQNO_LAST\<close>, in the addition and twice in the
  comparison.\<close>

function trd_wrap :: "u16 \<Rightarrow> u16" where
  "trd_wrap c = (if c > TRD_SEQNO_LAST then trd_wrap (c - TRD_SEQNO_LAST) else c)"
  by pat_completeness auto
termination
  by (relation "measure unat") (auto simp: consts_defs word_less_nat_alt unat_diff_u16)

declare trd_wrap.simps [simp del]

definition trd_seqno_add :: "u16 \<Rightarrow> u16 \<Rightarrow> u16" where
  "trd_seqno_add a b =
    (let c = trd_wrap (a + b) in if c < TRD_SEQNO_FIRST then TRD_SEQNO_FIRST else c)"

definition trd_seqno_cmp :: "u16 \<Rightarrow> u16 \<Rightarrow> int" where
  "trd_seqno_cmp a0 b0 =
    (if a0 = b0 then 0
     else if b0 = TRD_SEQNO_OLDEST \<or> b0 = TRD_SEQNO_UNKNOWN then 1
     else if a0 = TRD_SEQNO_OLDEST \<or> a0 = TRD_SEQNO_UNKNOWN then -1
     else let a = trd_wrap a0; b = trd_wrap b0 in
       if a = b then 0
       else if a < b then
         (if unat b - unat a \<le> TRD_SEQNO_WRAP_WINDOW then -1
          else if unat (trd_seqno_add a (TRD_SEQNO_LAST - b)) < TRD_SEQNO_WRAP_WINDOW then 1
          else -1)
       else
         (if unat a - unat b \<le> TRD_SEQNO_WRAP_WINDOW then 1
          else if unat (trd_seqno_add b (TRD_SEQNO_LAST - a)) < TRD_SEQNO_WRAP_WINDOW then -1
          else 1))"

section \<open>The operations on numbers\<close>

abbreviation trd_valid :: "u16 \<Rightarrow> bool" where
  "trd_valid \<equiv> in_space 5000"

lemma trd_wrap_id [simp]: "unat c \<le> 5000 \<Longrightarrow> trd_wrap c = c"
  by (simp add: trd_wrap.simps [of c] consts_defs word_less_nat_alt)

lemma unat_trd_wrap:
  "unat (trd_wrap c) = (if unat c = 0 then 0 else (unat c - 1) mod 5000 + 1)"
proof (induction c rule: trd_wrap.induct)
  case (1 c)
  show ?case
  proof (cases "unat c > 5000")
    case True
    then have d: "unat (c - TRD_SEQNO_LAST) = unat c - 5000"
      by (simp add: consts_defs unat_diff_u16)
    have "unat (trd_wrap c) = unat (trd_wrap (c - TRD_SEQNO_LAST))"
      using True by (simp add: trd_wrap.simps [of c] consts_defs word_less_nat_alt)
    also have "\<dots> = (unat c - 5000 - 1) mod 5000 + 1"
      using 1 True d by (simp add: consts_defs word_less_nat_alt)
    also have "(unat c - 5000 - 1) mod 5000 = (unat c - 1) mod 5000"
      using True le_mod_geq [of 5000 "unat c - 1"] by simp
    finally show ?thesis using True by simp
  next
    case False
    then show ?thesis by (auto simp: word_eq_unat)
  qed
qed

lemma unat_trd_seqno_next:
  "unat (trd_seqno_next a) = (if unat a \<ge> 5000 then 1 else unat a + 1)"
  by (auto simp: trd_seqno_next_def consts_defs word_le_nat_alt unat_inc_u16)

lemma trd_seqno_next_valid [simp]: "trd_valid (trd_seqno_next a)"
  by (simp add: in_space_def unat_trd_seqno_next)

lemma trd_valid_special:
  "trd_valid a \<Longrightarrow> a \<noteq> TRD_SEQNO_UNKNOWN" "trd_valid a \<Longrightarrow> a \<noteq> TRD_SEQNO_OLDEST"
  by (auto simp: in_space_def consts_defs)

lemma trd_seqno_next_not_unknown [simp]: "trd_seqno_next a \<noteq> TRD_SEQNO_UNKNOWN"
  using trd_valid_special(1) [OF trd_seqno_next_valid] .

lemma unat_trd_seqno_add:
  "unat a + unat b < 65536 \<Longrightarrow> unat (trd_seqno_add a b) =
    (if unat a + unat b = 0 then 1 else (unat a + unat b - 1) mod 5000 + 1)"
  by (simp add: trd_seqno_add_def Let_def word_less_nat_alt unat_trd_wrap unat_add_u16
      consts_defs)

lemma trd_wrap_diff:
  assumes "unat a < unat b" "unat b \<le> 5000" "0 < unat a"
  shows "unat (trd_seqno_add a (TRD_SEQNO_LAST - b)) = unat a + 5000 - unat b"
proof -
  have "unat (TRD_SEQNO_LAST - b) = 5000 - unat b"
    using assms by (simp add: consts_defs unat_diff_u16)
  then show ?thesis using assms by (simp add: unat_trd_seqno_add)
qed

lemma trd_seqno_cmp_valid:
  assumes "trd_valid a" "trd_valid b"
  shows "trd_seqno_cmp a b =
    (let x = unat a; y = unat b in
     if x = y then 0
     else if x < y then (if y - x \<le> 16 then -1 else if x + 5000 - y < 16 then 1 else -1)
     else (if x - y \<le> 16 then 1 else if y + 5000 - x < 16 then -1 else 1))"
proof -
  have r: "1 \<le> unat a" "unat a \<le> 5000" "1 \<le> unat b" "unat b \<le> 5000"
    using assms by (auto simp: in_space_def)
  show ?thesis
    using r trd_valid_special [OF assms(1)] trd_valid_special [OF assms(2)]
      trd_wrap_diff [of a b] trd_wrap_diff [of b a]
    by (simp add: trd_seqno_cmp_def word_less_nat_alt word_eq_unat [of a b]
        TRD_SEQNO_WRAP_WINDOW_def Let_def)
qed

text \<open>Against the special values, whatever the number.\<close>

lemma trd_seqno_cmp_unknown: "trd_seqno_cmp a TRD_SEQNO_UNKNOWN \<ge> 0"
  by (simp add: trd_seqno_cmp_def)

lemma trd_seqno_cmp_refl [simp]: "trd_seqno_cmp a a = 0"
  by (simp add: trd_seqno_cmp_def)

lemma trd_seqno_cmp_gt_unknown: "a \<noteq> TRD_SEQNO_UNKNOWN \<Longrightarrow> trd_seqno_cmp a TRD_SEQNO_UNKNOWN = 1"
  by (simp add: trd_seqno_cmp_def)

interpretation trds: seqno_space trd_seqno_next trd_seqno_add trd_seqno_cmp 5000 16
proof (unfold_locales, goal_cases)
  case (5 a)
  then have u: "unat a \<ge> 1" "unat a \<le> 5000" by (auto simp: in_space_def)
  show ?case
    using u by (cases "unat a = 5000") (auto simp: word_eq_unat unat_fwd unat_trd_seqno_next)
next
  case (6 a k)
  then have u: "unat a \<ge> 1" "unat a \<le> 5000" by (auto simp: in_space_def)
  have "unat (of_nat k :: u16) = k" using 6 by (simp add: unat_of_nat_u16)
  then show ?case
    using u 6 by (simp add: word_eq_unat unat_fwd unat_trd_seqno_add)
next
  case (8 a k)
  then have u: "unat a \<ge> 1" "unat a \<le> 5000" by (auto simp: in_space_def)
  have f: "unat (fwd 5000 a k) = (if unat a + k > 5000 then unat a + k - 5000 else unat a + k)"
    using u 8 by (auto simp: unat_fwd mod_if)
  show ?case
    using u 8 by (auto simp: trd_seqno_cmp_valid f Let_def)
next
  case (9 a b)
  then show ?case by (auto simp: trd_seqno_cmp_valid Let_def)
next
  case (10 a b)
  then show ?case
    by (auto simp: trd_seqno_cmp_valid Let_def word_eq_unat split: if_splits)
qed (auto simp: trd_seqno_cmp_def)

text \<open>A next number is never older than the number itself.\<close>

lemma trd_seqno_cmp_next_self: "trd_valid a \<Longrightarrow> trd_seqno_cmp (trd_seqno_next a) a = 1"
  by (rule trds.cmp_next) simp_all

section \<open>Properties\<close>

text \<open>
  The dissemination comparison orders the circle 1 .. 5000 inside a window of 15 numbers, across
  the wrap too, and both special values are older than every number.
\<close>

theorem trd_seqno_window_order:
  assumes "trd_valid a" "0 < k" "k < 16"
  shows "trd_seqno_cmp ((trd_seqno_next ^^ k) a) a = 1
    \<and> trd_seqno_cmp a ((trd_seqno_next ^^ k) a) = -1
    \<and> trd_seqno_add a (of_nat k) = (trd_seqno_next ^^ k) a
    \<and> trd_seqno_cmp TRD_SEQNO_UNKNOWN a = -1 \<and> trd_seqno_cmp TRD_SEQNO_OLDEST a = -1"
  using assms trds.cmp_ahead [of a k] trds.cmp_behind [of a k] trds.funpow_nxt [of a k]
    trds.add_fwd [of a k] trd_valid_special [of a]
  by (auto simp: trd_seqno_cmp_def)

theorem trd_seqno_window_order_witness:
  "trd_seqno_cmp ((trd_seqno_next ^^ 15) 4990) 4990 = 1"
  using trd_seqno_window_order [of 4990 15] by (simp add: in_space_def)

text \<open>
  At a distance of exactly the window the comparison is not an order of the circle: the later
  number is newer when no wrap lies in between, and older when one does. The header announces a
  window of 32 and numbers up to 50000; the constants are 16 and 5000.
\<close>

theorem trd_seqno_cmp_edge:
  assumes "trd_valid a"
  shows "trd_seqno_cmp ((trd_seqno_next ^^ 16) a) a = (if unat a + 16 \<le> 5000 then 1 else -1)"
proof -
  have u: "1 \<le> unat a" "unat a \<le> 5000" using assms by (auto simp: in_space_def)
  have f: "unat (fwd 5000 a 16) = (if unat a + 16 > 5000 then unat a + 16 - 5000 else unat a + 16)"
    using u by (auto simp: unat_fwd mod_if)
  show ?thesis
    using u f assms by (auto simp: trds.funpow_nxt trd_seqno_cmp_valid Let_def)
qed

theorem trd_seqno_cmp_edge_witness:
  "trd_seqno_cmp ((trd_seqno_next ^^ 16) 4990) 4990 = -1"
  using trd_seqno_cmp_edge [of 4990] by (simp add: in_space_def)

end
