(* ===== verification/Nodecache.thy ===== *)
theory Nodecache
  imports Trd_Seqno
begin

text \<open>
  Model of src/mote/lib/trd/trd_nodecache.c (types and constants in trd_nodecache.h and trd.h, the
  build for the master): the cache of the last packets of one origin. The array has its fixed
  size, and \<open>live\<close> is the part of it that the loops visit. \<open>num_entries\<close> is an \<open>int8_t\<close>
  between 0 and 5, a number here. An operation whose C execution writes outside the array or never
  returns gives \<open>None\<close>; an index that the code encodes as -1 is an \<open>int\<close>.
\<close>

definition TRD_NODE_ENTRIES :: nat where [consts_defs]: "TRD_NODE_ENTRIES = 5"
definition TRD_CACHE_ENTRIES_PER_NODE :: nat where
  [consts_defs]: "TRD_CACHE_ENTRIES_PER_NODE = 5"
definition TRD_INVALID_INDEX :: int where [consts_defs]: "TRD_INVALID_INDEX = -1"
definition TRD_AGE_MAX :: u16 where [consts_defs]: "TRD_AGE_MAX = 0xfffe"
definition TRD_AGE_IGNORE_OLD :: u16 where [consts_defs]: "TRD_AGE_IGNORE_OLD = 90"
definition TRD_AGE_NO_SUMMARY :: u16 where [consts_defs]: "TRD_AGE_NO_SUMMARY = 120"
definition TRD_AGE_DELETE_OLD :: u16 where [consts_defs]: "TRD_AGE_DELETE_OLD = 150"
definition TRD_NULL_MEMLOC :: u16 where [consts_defs]: "TRD_NULL_MEMLOC = 0xffff"
definition TRD_INVALID_ORIGIN :: u16 where [consts_defs]: "TRD_INVALID_ORIGIN = 0xfffe"

record TRD_CacheEntry =
  ce_memloc :: u16
  ce_seqno :: u16
  ce_age :: u16

record TRD_NodeCache =
  nc_origin :: u16
  nc_num :: nat
  nc_cache :: "TRD_CacheEntry list"

definition blank_entry :: TRD_CacheEntry where
  "blank_entry = \<lparr>ce_memloc = TRD_NULL_MEMLOC, ce_seqno = 0, ce_age = - 1\<rparr>"

definition live :: "TRD_NodeCache \<Rightarrow> TRD_CacheEntry list" where
  "live nc = take (nc_num nc) (nc_cache nc)"

section \<open>Operations\<close>

text \<open>Removal by index: the last entry moves into the hole. \<open>None\<close>: a negative index.\<close>

definition remove_index :: "TRD_NodeCache \<Rightarrow> int \<Rightarrow> (u8 \<times> TRD_NodeCache) option" where
  "remove_index nc local_idx =
    (if nc_num nc \<le> 0 then Some (0, nc)
     else if local_idx \<ge> int (nc_num nc) then Some (0, nc)
     else if local_idx < 0 then None
     else let l = nc_num nc - 1 in
       Some (1, nc\<lparr>nc_cache := (nc_cache nc)[nat local_idx := nc_cache nc ! l, l := blank_entry],
                   nc_num := l\<rparr>))"

definition nodecache_init :: "TRD_NodeCache \<Rightarrow> TRD_NodeCache" where
  "nodecache_init nc = nc\<lparr>nc_cache := replicate TRD_CACHE_ENTRIES_PER_NODE blank_entry,
     nc_num := 0, nc_origin := TRD_INVALID_ORIGIN\<rparr>"

primrec find_index_loop :: "TRD_CacheEntry list \<Rightarrow> u16 \<Rightarrow> int \<Rightarrow> int" where
  "find_index_loop [] s i = -1"
| "find_index_loop (e # es) s i = (if ce_seqno e = s then i else find_index_loop es s (i + 1))"

definition find_index :: "TRD_NodeCache \<Rightarrow> u16 \<Rightarrow> int" where
  "find_index nc s = find_index_loop (live nc) s 0"

primrec find_oldest_seqno_loop ::
    "TRD_CacheEntry list \<Rightarrow> int \<Rightarrow> u16 \<Rightarrow> int \<Rightarrow> u16 \<Rightarrow> int" where
  "find_oldest_seqno_loop [] i oldest_age oldest_idx oldest_seqno = oldest_idx"
| "find_oldest_seqno_loop (e # es) i oldest_age oldest_idx oldest_seqno =
    (if ce_age e > oldest_age then
       find_oldest_seqno_loop es (i + 1) (ce_age e) i oldest_seqno
     else if ce_age e = oldest_age \<and> trd_seqno_cmp (ce_seqno e) oldest_seqno < 0 then
       find_oldest_seqno_loop es (i + 1) (ce_age e) i (ce_seqno e)
     else find_oldest_seqno_loop es (i + 1) oldest_age oldest_idx oldest_seqno)"

definition find_oldest_seqno_index :: "TRD_NodeCache \<Rightarrow> int" where
  "find_oldest_seqno_index nc =
    find_oldest_seqno_loop (live nc) 0 0 TRD_INVALID_INDEX TRD_SEQNO_UNKNOWN"

definition nodecache_getOldestSeqno :: "TRD_NodeCache \<Rightarrow> u16" where
  "nodecache_getOldestSeqno nc =
    (let i = find_oldest_seqno_index nc
     in if i < 0 then TRD_SEQNO_UNKNOWN else ce_seqno (nc_cache nc ! nat i))"

text \<open>
  Insertion: a duplicate is refused, a full cache replaces what \<open>find_oldest_seqno_index\<close> names.
  \<open>None\<close>: it names index -1, and the code writes in front of the array.
\<close>

definition nodecache_insert ::
    "TRD_NodeCache \<Rightarrow> u16 \<Rightarrow> u16 \<Rightarrow> u16 \<Rightarrow> (u8 \<times> TRD_NodeCache) option" where
  "nodecache_insert nc s m a =
    (if find_index nc s \<ge> 0 then Some (0, nc)
     else
       let e = \<lparr>ce_memloc = m, ce_seqno = s, ce_age = a\<rparr> in
       if nc_num nc = TRD_CACHE_ENTRIES_PER_NODE then
         (let i = find_oldest_seqno_index nc in
          if i < 0 then None
          else Some (1, nc\<lparr>nc_cache := (nc_cache nc)[nat i := e]\<rparr>))
       else Some (1, nc\<lparr>nc_cache := (nc_cache nc)[nc_num nc := e], nc_num := nc_num nc + 1\<rparr>))"

definition nodecache_exist :: "TRD_NodeCache \<Rightarrow> u16 \<Rightarrow> bool" where
  "nodecache_exist nc s \<longleftrightarrow> \<not> find_index nc s < 0"

text \<open>The look-ups return \<open>None\<close> where the code returns 0 and leaves the output alone.\<close>

definition nodecache_getMemloc :: "TRD_NodeCache \<Rightarrow> u16 \<Rightarrow> u16 option" where
  "nodecache_getMemloc nc s =
    (let i = find_index nc s in
     if i < 0 then None
     else let e = nc_cache nc ! nat i in
       if ce_memloc e = TRD_NULL_MEMLOC then None else Some (ce_memloc e))"

definition nodecache_getAge :: "TRD_NodeCache \<Rightarrow> u16 \<Rightarrow> u16 option" where
  "nodecache_getAge nc s =
    (let i = find_index nc s in if i < 0 then None else Some (ce_age (nc_cache nc ! nat i)))"

primrec last_seqno_loop :: "TRD_CacheEntry list \<Rightarrow> u16 \<Rightarrow> u16 \<Rightarrow> u16 \<times> u16" where
  "last_seqno_loop [] last_seqno last_age = (last_seqno, last_age)"
| "last_seqno_loop (e # es) last_seqno last_age =
    (if ce_age e < last_age then last_seqno_loop es (ce_seqno e) (ce_age e)
     else if ce_age e = last_age \<and> trd_seqno_cmp (ce_seqno e) last_seqno > 0
     then last_seqno_loop es (ce_seqno e) (ce_age e)
     else last_seqno_loop es last_seqno last_age)"

text \<open>The pair of the returned number and the output parameter \<open>*age\<close>.\<close>

definition nodecache_getLastSeqno :: "TRD_NodeCache \<Rightarrow> u16 \<times> u16" where
  "nodecache_getLastSeqno nc = last_seqno_loop (live nc) TRD_SEQNO_UNKNOWN TRD_AGE_MAX"

definition bump_age :: "TRD_CacheEntry \<Rightarrow> TRD_CacheEntry" where
  "bump_age e = (if ce_age e > 0 \<and> ce_age e < TRD_AGE_MAX then e\<lparr>ce_age := ce_age e + 1\<rparr> else e)"

definition nodecache_incrementAge :: "TRD_NodeCache \<Rightarrow> TRD_NodeCache" where
  "nodecache_incrementAge nc =
    nc\<lparr>nc_cache := map bump_age (live nc) @ drop (nc_num nc) (nc_cache nc)\<rparr>"

text \<open>The first loop of the classification: (exist\_idx, newest\_idx, newest, oldest\_idx, oldest).\<close>

primrec classify_scan :: "TRD_CacheEntry list \<Rightarrow> u16 \<Rightarrow> int \<Rightarrow>
    int \<times> int \<times> u16 \<times> int \<times> u16 \<Rightarrow> int \<times> int \<times> u16 \<times> int \<times> u16" where
  "classify_scan [] s i st = st"
| "classify_scan (e # es) s i st =
    (case st of (exist_idx, newest_idx, newest, oldest_idx, oldest) \<Rightarrow>
      let exist_idx' = (if trd_seqno_cmp (ce_seqno e) s = 0 then i else exist_idx);
          newer = (newest = TRD_SEQNO_UNKNOWN \<or> trd_seqno_cmp (ce_seqno e) newest > 0);
          older = (oldest = TRD_SEQNO_UNKNOWN \<or> trd_seqno_cmp (ce_seqno e) oldest < 0)
      in classify_scan es s (i + 1)
          (exist_idx',
           (if newer then i else newest_idx), (if newer then ce_seqno e else newest),
           (if older then i else oldest_idx), (if older then ce_seqno e else oldest)))"

text \<open>
  The loop that ages the cache until it matches the age of the received packet. The comparison is
  between \<open>int\<close>s; \<open>aging\<close> is a \<open>uint8_t\<close>.
\<close>

partial_function (option) classify_age_loop ::
    "TRD_NodeCache \<Rightarrow> nat \<Rightarrow> u16 \<Rightarrow> u8 \<Rightarrow> (TRD_NodeCache \<times> u8) option" where
  "classify_age_loop nc newest_idx a aging =
    (if int (unat a) - 1 > int (unat (ce_age (nc_cache nc ! newest_idx))) + 1
     then classify_age_loop (nodecache_incrementAge nc) newest_idx a (aging + 1)
     else Some (nc, aging))"

definition nodecache_classifySeqno ::
    "TRD_NodeCache \<Rightarrow> u16 \<Rightarrow> u16 \<Rightarrow> (trd_class \<times> TRD_NodeCache) option" where
  "nodecache_classifySeqno nc s a =
    (if s = TRD_SEQNO_UNKNOWN then Some (TRD_CLASS_UNKNOWN, nc)
     else if s = TRD_SEQNO_OLDEST then Some (TRD_CLASS_TOO_OLD, nc)
     else if nc_num nc = 0 then Some (TRD_CLASS_NULL, nc)
     else case classify_scan (live nc) s 0
         (TRD_INVALID_INDEX, TRD_INVALID_INDEX, TRD_SEQNO_UNKNOWN,
          TRD_INVALID_INDEX, TRD_SEQNO_UNKNOWN) of
       (exist_idx, newest_idx, newest, oldest_idx, oldest) \<Rightarrow>
         if newest \<noteq> TRD_SEQNO_UNKNOWN \<and> s = newest then
           do {
             (nc', aging) \<leftarrow> classify_age_loop nc (nat newest_idx) a 0;
             Some (if unat aging > 1 then TRD_CLASS_IN_OLD else TRD_CLASS_IN_LAST, nc')
           }
         else if newest \<noteq> TRD_SEQNO_UNKNOWN \<and> s = trd_seqno_next newest then
           Some (TRD_CLASS_NEXT_NEW, nc)
         else if newest \<noteq> TRD_SEQNO_UNKNOWN \<and> trd_seqno_cmp s (trd_seqno_next newest) > 0 then
           (if trd_seqno_cmp s (trd_seqno_add newest (of_nat (TRD_CACHE_ENTRIES_PER_NODE - 1))) > 0
            then Some (TRD_CLASS_TOO_NEW, nc)
            else Some (TRD_CLASS_NEWER, nc))
         else if oldest \<noteq> TRD_SEQNO_UNKNOWN \<and> trd_seqno_cmp s oldest < 0 then
           Some (TRD_CLASS_TOO_OLD, nc)
         else if exist_idx \<noteq> TRD_INVALID_INDEX then Some (TRD_CLASS_IN_OLD, nc)
         else Some (TRD_CLASS_UNKNOWN, nc))"

primrec newest_age_loop ::
    "TRD_CacheEntry list \<Rightarrow> int \<Rightarrow> int \<Rightarrow> u16 \<Rightarrow> u16 \<Rightarrow> int" where
  "newest_age_loop [] i newest_idx newest_age newest_seqno = newest_idx"
| "newest_age_loop (e # es) i newest_idx newest_age newest_seqno =
    (if ce_age e < newest_age then newest_age_loop es (i + 1) i (ce_age e) (ce_seqno e)
     else if ce_age e = newest_age \<and> trd_seqno_cmp (ce_seqno e) newest_seqno > 0
     then newest_age_loop es (i + 1) i (ce_age e) (ce_seqno e)
     else newest_age_loop es (i + 1) newest_idx newest_age newest_seqno)"

text \<open>\<open>return -1\<close> in a function of type \<open>uint16_t\<close>.\<close>

definition nodecache_findNewestAge :: "TRD_NodeCache \<Rightarrow> u16" where
  "nodecache_findNewestAge nc =
    (let i = newest_age_loop (live nc) 0 TRD_INVALID_INDEX TRD_AGE_MAX TRD_SEQNO_UNKNOWN
     in if i = TRD_INVALID_INDEX then - 1 else ce_age (nc_cache nc ! nat i))"

section \<open>Invariant\<close>

definition nc_inv :: "TRD_NodeCache \<Rightarrow> bool" where
  "nc_inv nc \<longleftrightarrow> nc_num nc \<le> 5 \<and> length (nc_cache nc) = 5 \<and> distinct (map ce_seqno (live nc))"

definition nc_seqnos :: "TRD_NodeCache \<Rightarrow> u16 set" where
  "nc_seqnos nc = ce_seqno ` set (live nc)"

definition nc_lookup :: "TRD_NodeCache \<Rightarrow> u16 \<Rightarrow> TRD_CacheEntry option" where
  "nc_lookup nc s = find (\<lambda>e. ce_seqno e = s) (live nc)"

lemma length_live [simp]: "nc_inv nc \<Longrightarrow> length (live nc) = nc_num nc"
  by (simp add: nc_inv_def live_def)

lemma nth_live: "i < nc_num nc \<Longrightarrow> live nc ! i = nc_cache nc ! i"
  by (simp add: live_def)

lemma nodecache_init_inv [simp]: "nc_inv (nodecache_init nc)"
  by (simp add: nc_inv_def nodecache_init_def live_def consts_defs)

lemma nodecache_init_live [simp]: "live (nodecache_init nc) = []"
  by (simp add: nodecache_init_def live_def)

lemma live_update_origin [simp]: "live (nc\<lparr>nc_origin := a\<rparr>) = live nc"
  by (simp add: live_def)

lemma nc_inv_update_origin [simp]: "nc_inv (nc\<lparr>nc_origin := a\<rparr>) = nc_inv nc"
  by (simp add: nc_inv_def)

section \<open>Look-up\<close>

lemma find_distinct_key:
  "distinct (map k xs) \<Longrightarrow> x \<in> set xs \<Longrightarrow> k x = v \<Longrightarrow> find (\<lambda>e. k e = v) xs = Some x"
  by (induction xs) auto

lemma find_index_loop_spec:
  "(s \<notin> ce_seqno ` set es \<and> find_index_loop es s i = -1)
   \<or> (\<exists>j < length es. find_index_loop es s i = i + int j \<and> ce_seqno (es ! j) = s
        \<and> find (\<lambda>e. ce_seqno e = s) es = Some (es ! j))"
proof (induction es arbitrary: i)
  case Nil
  then show ?case by simp
next
  case (Cons e es)
  show ?case
  proof (cases "ce_seqno e = s")
    case True
    then show ?thesis by (intro disjI2 exI [of _ 0]) simp
  next
    case False
    from Cons.IH [of "i + 1"] show ?thesis
    proof (elim disjE exE conjE)
      fix j
      assume "j < length es" "find_index_loop es s (i + 1) = i + 1 + int j"
        "ce_seqno (es ! j) = s" "find (\<lambda>e. ce_seqno e = s) es = Some (es ! j)"
      with False show ?thesis by (intro disjI2 exI [of _ "Suc j"]) simp
    qed (use False in auto)
  qed
qed

lemma find_index_cases:
  assumes "nc_inv nc"
  obtains (absent) "s \<notin> nc_seqnos nc" "find_index nc s = -1" "nc_lookup nc s = None"
  | (present) i where "i < nc_num nc" "find_index nc s = int i" "ce_seqno (nc_cache nc ! i) = s"
      "nc_lookup nc s = Some (nc_cache nc ! i)" "s \<in> nc_seqnos nc"
proof -
  consider "s \<notin> nc_seqnos nc" "find_index nc s = -1"
    | j where "j < nc_num nc" "find_index nc s = int j" "ce_seqno (live nc ! j) = s"
        "nc_lookup nc s = Some (live nc ! j)"
    using find_index_loop_spec [of s "live nc" 0] assms
    by (auto simp: find_index_def nc_seqnos_def nc_lookup_def)
  then show thesis
  proof cases
    case 1
    then have "nc_lookup nc s = None"
      by (auto simp: nc_lookup_def nc_seqnos_def find_None_iff)
    with 1 absent show thesis by blast
  next
    case (2 j)
    then have "s \<in> nc_seqnos nc"
      using assms by (metis length_live image_eqI nth_mem nc_seqnos_def)
    with 2 present show thesis by (simp add: nth_live)
  qed
qed

lemma find_index_neg: "nc_inv nc \<Longrightarrow> find_index nc s < 0 \<longleftrightarrow> s \<notin> nc_seqnos nc"
  by (cases rule: find_index_cases [of nc s]) auto

lemma nodecache_exist_iff: "nc_inv nc \<Longrightarrow> nodecache_exist nc s \<longleftrightarrow> s \<in> nc_seqnos nc"
  by (simp add: nodecache_exist_def find_index_neg)

lemma nodecache_getAge_eq: "nc_inv nc \<Longrightarrow> nodecache_getAge nc s = map_option ce_age (nc_lookup nc s)"
  by (cases rule: find_index_cases [of nc s]) (auto simp: nodecache_getAge_def)

lemma nodecache_getMemloc_eq:
  "nc_inv nc \<Longrightarrow> nodecache_getMemloc nc s =
    (case nc_lookup nc s of None \<Rightarrow> None
     | Some e \<Rightarrow> if ce_memloc e = TRD_NULL_MEMLOC then None else Some (ce_memloc e))"
  by (cases rule: find_index_cases [of nc s]) (auto simp: nodecache_getMemloc_def Let_def)

section \<open>The oldest entry\<close>

text \<open>
  \<open>oldest_seqno\<close> is \<open>TRD_SEQNO_UNKNOWN\<close> for the whole loop, because nothing is older than it: the
  tie-break on sequence numbers never happens.
\<close>

lemma find_oldest_seqno_loop_spec:
  "((\<forall>e \<in> set es. ce_age e \<le> oa) \<and> find_oldest_seqno_loop es i oa oi TRD_SEQNO_UNKNOWN = oi)
   \<or> (\<exists>j < length es. find_oldest_seqno_loop es i oa oi TRD_SEQNO_UNKNOWN = i + int j
        \<and> ce_age (es ! j) > oa \<and> (\<forall>e \<in> set es. ce_age e \<le> ce_age (es ! j))
        \<and> (\<forall>k < j. ce_age (es ! k) < ce_age (es ! j)))"
proof (induction es arbitrary: i oa oi)
  case Nil
  then show ?case by simp
next
  case (Cons e es)
  have tie: "\<not> trd_seqno_cmp (ce_seqno e) TRD_SEQNO_UNKNOWN < 0"
    using trd_seqno_cmp_unknown [of "ce_seqno e"] by simp
  show ?case
  proof (cases "ce_age e > oa")
    case True
    from Cons.IH [of "ce_age e" "i + 1" i] show ?thesis
    proof (elim disjE exE conjE)
      assume "\<forall>x \<in> set es. ce_age x \<le> ce_age e"
        and "find_oldest_seqno_loop es (i + 1) (ce_age e) i TRD_SEQNO_UNKNOWN = i"
      with True show ?thesis by (intro disjI2 exI [of _ 0]) auto
    next
      fix j
      assume j: "j < length es"
        "find_oldest_seqno_loop es (i + 1) (ce_age e) i TRD_SEQNO_UNKNOWN = i + 1 + int j"
        "ce_age e < ce_age (es ! j)" "\<forall>x \<in> set es. ce_age x \<le> ce_age (es ! j)"
        "\<forall>k < j. ce_age (es ! k) < ce_age (es ! j)"
      with True show ?thesis
        by (intro disjI2 exI [of _ "Suc j"]) (auto simp: less_Suc_eq_0_disj nth_Cons')
    qed
  next
    case False
    then have le: "ce_age e \<le> oa" by simp
    have step: "find_oldest_seqno_loop (e # es) i oa oi TRD_SEQNO_UNKNOWN =
        find_oldest_seqno_loop es (i + 1) oa oi TRD_SEQNO_UNKNOWN"
      using False tie by simp
    from Cons.IH [of oa "i + 1" oi] show ?thesis
    proof (elim disjE exE conjE)
      assume "\<forall>x \<in> set es. ce_age x \<le> oa"
        and "find_oldest_seqno_loop es (i + 1) oa oi TRD_SEQNO_UNKNOWN = oi"
      with le step show ?thesis by simp
    next
      fix j
      assume j: "j < length es"
        "find_oldest_seqno_loop es (i + 1) oa oi TRD_SEQNO_UNKNOWN = i + 1 + int j"
        "oa < ce_age (es ! j)" "\<forall>x \<in> set es. ce_age x \<le> ce_age (es ! j)"
        "\<forall>k < j. ce_age (es ! k) < ce_age (es ! j)"
      with le step show ?thesis
        by (intro disjI2 exI [of _ "Suc j"])
          (auto simp: less_Suc_eq_0_disj intro: le_less_trans less_imp_le order.strict_trans1)
    qed
  qed
qed

lemma find_oldest_index_cases:
  assumes "nc_inv nc"
  obtains (none) "\<forall>e \<in> set (live nc). ce_age e = 0" "find_oldest_seqno_index nc = -1"
  | (oldest) i where "i < nc_num nc" "find_oldest_seqno_index nc = int i"
      "0 < ce_age (nc_cache nc ! i)" "\<forall>e \<in> set (live nc). ce_age e \<le> ce_age (nc_cache nc ! i)"
      "\<forall>k < i. ce_age (nc_cache nc ! k) < ce_age (nc_cache nc ! i)"
proof -
  have "(\<forall>e \<in> set (live nc). ce_age e \<le> 0) \<and> find_oldest_seqno_index nc = -1
    \<or> (\<exists>j < nc_num nc. find_oldest_seqno_index nc = int j \<and> ce_age (live nc ! j) > 0
        \<and> (\<forall>e \<in> set (live nc). ce_age e \<le> ce_age (live nc ! j))
        \<and> (\<forall>k < j. ce_age (live nc ! k) < ce_age (live nc ! j)))"
    using find_oldest_seqno_loop_spec [of "live nc" 0 0 TRD_INVALID_INDEX] assms
    by (simp add: find_oldest_seqno_index_def TRD_INVALID_INDEX_def)
  then show thesis
  proof (elim disjE exE conjE)
    assume "\<forall>e \<in> set (live nc). ce_age e \<le> 0" "find_oldest_seqno_index nc = -1"
    with none show thesis by simp
  next
    fix j
    assume "j < nc_num nc" "find_oldest_seqno_index nc = int j" "0 < ce_age (live nc ! j)"
      "\<forall>e \<in> set (live nc). ce_age e \<le> ce_age (live nc ! j)"
      "\<forall>k < j. ce_age (live nc ! k) < ce_age (live nc ! j)"
    then show thesis by (intro oldest [of j]) (auto simp: nth_live)
  qed
qed

section \<open>Insertion\<close>

text \<open>The new cache, by case; the \<open>None\<close> case is a full cache in which every age is 0.\<close>

lemma nodecache_insert_cases:
  assumes inv: "nc_inv nc"
  obtains (dup) "s \<in> nc_seqnos nc" "nodecache_insert nc s m a = Some (0, nc)"
  | (room) nc' where "s \<notin> nc_seqnos nc" "nc_num nc < 5"
      "nodecache_insert nc s m a = Some (1, nc')" "nc_inv nc'" "nc_origin nc' = nc_origin nc"
      "live nc' = live nc @ [\<lparr>ce_memloc = m, ce_seqno = s, ce_age = a\<rparr>]"
  | (evict) i nc' where "s \<notin> nc_seqnos nc" "nc_num nc = 5" "i < 5"
      "\<forall>e \<in> set (live nc). ce_age e \<le> ce_age (live nc ! i)"
      "nodecache_insert nc s m a = Some (1, nc')" "nc_inv nc'" "nc_origin nc' = nc_origin nc"
      "live nc' = (live nc)[i := \<lparr>ce_memloc = m, ce_seqno = s, ce_age = a\<rparr>]"
  | (undef) "s \<notin> nc_seqnos nc" "nc_num nc = 5" "\<forall>e \<in> set (live nc). ce_age e = 0"
      "nodecache_insert nc s m a = None"
proof (cases "s \<in> nc_seqnos nc")
  case True
  then have "\<not> find_index nc s < 0" using inv by (simp add: find_index_neg)
  then show thesis using dup True by (simp add: nodecache_insert_def)
next
  case False
  let ?e = "\<lparr>ce_memloc = m, ce_seqno = s, ce_age = a\<rparr>"
  have neg: "find_index nc s < 0" using False inv by (simp add: find_index_neg)
  have le: "nc_num nc \<le> 5" "length (nc_cache nc) = 5" and d: "distinct (map ce_seqno (live nc))"
    using inv by (auto simp: nc_inv_def)
  show thesis
  proof (cases "nc_num nc = 5")
    case nofull: False
    define nc' where "nc' = nc\<lparr>nc_cache := (nc_cache nc)[nc_num nc := ?e], nc_num := nc_num nc + 1\<rparr>"
    have live': "live nc' = live nc @ [?e]"
      using le nofull by (simp add: nc'_def live_def take_list_update_last)
    have "nc_inv nc'"
      unfolding nc_inv_def live' using le nofull d False by (auto simp: nc'_def nc_seqnos_def)
    moreover have "nodecache_insert nc s m a = Some (1, nc')"
      using neg nofull by (simp add: nodecache_insert_def nc'_def consts_defs)
    ultimately show thesis
      using room [of nc'] False nofull le live' by (simp add: nc'_def)
  next
    case full: True
    show thesis
    proof (cases rule: find_oldest_index_cases [OF inv])
      case 1
      then show thesis
        using undef False full neg by (simp add: nodecache_insert_def Let_def consts_defs)
    next
      case (2 i)
      define nc' where "nc' = nc\<lparr>nc_cache := (nc_cache nc)[i := ?e]\<rparr>"
      have live': "live nc' = (live nc)[i := ?e]"
        using full le by (simp add: nc'_def live_def)
      have "distinct ((map ce_seqno (live nc))[i := s])"
        using d False by (auto simp: nc_seqnos_def intro!: distinct_list_update)
      then have "nc_inv nc'"
        unfolding nc_inv_def live' using le by (simp add: nc'_def map_update)
      moreover have "nodecache_insert nc s m a = Some (1, nc')"
        using neg full 2 by (simp add: nodecache_insert_def nc'_def consts_defs)
      ultimately show thesis
        using evict [of i nc'] False full 2 live' by (simp add: nc'_def nth_live)
    qed
  qed
qed

lemma nodecache_insert_inv [inv_intros]:
  assumes "nc_inv nc" "nodecache_insert nc s m a = Some (r, nc')"
  shows "nc_inv nc'" "nc_origin nc' = nc_origin nc"
proof -
  have "nc_inv nc' \<and> nc_origin nc' = nc_origin nc"
    using assms
    by (cases rule: nodecache_insert_cases [OF assms(1), of s m a]) auto
  then show "nc_inv nc'" "nc_origin nc' = nc_origin nc" by simp_all
qed

text \<open>What is inserted is found.\<close>

lemma nodecache_insert_lookup:
  assumes inv: "nc_inv nc" and ins: "nodecache_insert nc s m a = Some (1, nc')"
  shows "nc_lookup nc' s = Some \<lparr>ce_memloc = m, ce_seqno = s, ce_age = a\<rparr>"
proof -
  let ?e = "\<lparr>ce_memloc = m, ce_seqno = s, ce_age = a\<rparr>"
  have "nc_inv nc'" using nodecache_insert_inv [OF inv ins] by simp
  then have d: "distinct (map ce_seqno (live nc'))" by (simp add: nc_inv_def)
  have "?e \<in> set (live nc')"
  proof (cases rule: nodecache_insert_cases [OF inv, of s m a])
    case (3 i nc'')
    then have "nc' = nc''" "i < length (live nc)" using ins inv by simp_all
    then show ?thesis using 3 by (simp add: set_update_memI)
  qed (use ins in simp_all)
  with d show ?thesis unfolding nc_lookup_def by (simp add: find_distinct_key)
qed

section \<open>Ageing\<close>

lemma bump_age_simps [simp]:
  "ce_seqno (bump_age e) = ce_seqno e" "ce_memloc (bump_age e) = ce_memloc e"
  by (simp_all add: bump_age_def)

lemma unat_bump_age:
  "unat (ce_age (bump_age e)) =
    (if 0 < unat (ce_age e) \<and> unat (ce_age e) < 65534 then unat (ce_age e) + 1
     else unat (ce_age e))"
  by (auto simp: bump_age_def consts_defs word_less_nat_alt unat_inc_u16 word_neq_0_conv)

lemma live_incrementAge: "nc_inv nc \<Longrightarrow> live (nodecache_incrementAge nc) = map bump_age (live nc)"
  by (simp add: live_def nodecache_incrementAge_def nc_inv_def)

lemma incrementAge_frame [frame_simps]:
  "nc_num (nodecache_incrementAge nc) = nc_num nc"
  "nc_origin (nodecache_incrementAge nc) = nc_origin nc"
  by (simp_all add: nodecache_incrementAge_def)

lemma map_seqno_incrementAge:
  "nc_inv nc \<Longrightarrow> map ce_seqno (live (nodecache_incrementAge nc)) = map ce_seqno (live nc)"
  "nc_inv nc \<Longrightarrow> map ce_memloc (live (nodecache_incrementAge nc)) = map ce_memloc (live nc)"
  by (simp_all add: live_incrementAge comp_def)

lemma nodecache_incrementAge_inv [inv_intros]: "nc_inv nc \<Longrightarrow> nc_inv (nodecache_incrementAge nc)"
  unfolding nc_inv_def
  by (metis incrementAge_frame(1) map_seqno_incrementAge(1) nc_inv_def nodecache_incrementAge_def
      TRD_NodeCache.select_convs(3) TRD_NodeCache.surjective TRD_NodeCache.update_convs(3)
      append_take_drop_id length_append length_map live_def)

text \<open>
  What every step of the age loop keeps: same origin, numbers and places; only ages move, and only
  upwards.
\<close>

definition same_keys :: "TRD_NodeCache \<Rightarrow> TRD_NodeCache \<Rightarrow> bool" where
  "same_keys nc nc' \<longleftrightarrow> nc_origin nc' = nc_origin nc \<and> nc_num nc' = nc_num nc
    \<and> map ce_seqno (live nc') = map ce_seqno (live nc)
    \<and> map ce_memloc (live nc') = map ce_memloc (live nc)"

lemma same_keys_refl [simp]: "same_keys nc nc"
  by (simp add: same_keys_def)

lemma same_keys_trans: "same_keys a b \<Longrightarrow> same_keys b c \<Longrightarrow> same_keys a c"
  by (simp add: same_keys_def)

lemma same_keys_incrementAge: "nc_inv nc \<Longrightarrow> same_keys nc (nodecache_incrementAge nc)"
  by (simp add: same_keys_def frame_simps map_seqno_incrementAge)

lemma same_keys_seqnos: "same_keys nc nc' \<Longrightarrow> nc_seqnos nc' = nc_seqnos nc"
  unfolding same_keys_def nc_seqnos_def by (metis set_map)

text \<open>The loop returns unless the newest entry has age 0 and the packet claims age 3 or more.\<close>

lemma classify_age_loop_returns:
  assumes "nc_inv nc" "i < nc_num nc" "0 < unat (ce_age (live nc ! i)) \<or> unat a \<le> 2"
  shows "\<exists>nc' g'. classify_age_loop nc i a g = Some (nc', g') \<and> nc_inv nc' \<and> same_keys nc nc'"
  using assms
proof (induction "65535 - unat (ce_age (live nc ! i))" arbitrary: nc g rule: less_induct)
  case less
  let ?e = "live nc ! i" and ?nc = "nodecache_incrementAge nc"
  show ?case
  proof (cases "int (unat a) - 1 > int (unat (ce_age ?e)) + 1")
    case False
    then show ?thesis
      using less.prems by (subst classify_age_loop.simps) (simp add: nth_live)
  next
    case True
    have pos: "0 < unat (ce_age ?e)" "unat (ce_age ?e) < 65534"
      using True less.prems(3) unat_u16_le [of a] by linarith+
    have e': "live ?nc ! i = bump_age ?e"
      using less.prems by (simp add: live_incrementAge)
    have u: "unat (ce_age (live ?nc ! i)) = unat (ce_age ?e) + 1"
      using pos by (simp add: e' unat_bump_age)
    have inv: "nc_inv ?nc" and num: "i < nc_num ?nc"
      using less.prems by (simp_all add: nodecache_incrementAge_inv frame_simps)
    have lt: "65535 - unat (ce_age (live ?nc ! i)) < 65535 - unat (ce_age ?e)"
      using u pos by linarith
    have or: "0 < unat (ce_age (live ?nc ! i)) \<or> unat a \<le> 2" using u by linarith
    obtain nc' g' where "classify_age_loop ?nc i a (g + 1) = Some (nc', g')" "nc_inv nc'"
      "same_keys ?nc nc'"
      using less.hyps [OF lt inv num or] by blast
    moreover have "same_keys nc nc'"
      using same_keys_trans [OF same_keys_incrementAge \<open>same_keys ?nc nc'\<close>] less.prems by blast
    moreover have "classify_age_loop nc i a g = classify_age_loop ?nc i a (g + 1)"
      using True less.prems by (subst classify_age_loop.simps) (simp add: nth_live)
    ultimately show ?thesis by auto
  qed
qed

lemma classify_age_loop_stuck:
  assumes "classify_age_loop nc i a g = Some r" "nc_inv nc" "i < nc_num nc"
  shows "0 < unat (ce_age (live nc ! i)) \<or> unat a \<le> 2"
proof -
  have "nc_inv nc \<longrightarrow> i < nc_num nc \<longrightarrow> \<not> (unat (ce_age (live nc ! i)) = 0 \<and> 3 \<le> unat a)"
  proof (rule classify_age_loop.raw_induct [where P = "\<lambda>nc i a g r. nc_inv nc \<longrightarrow> i < nc_num nc \<longrightarrow>
      \<not> (unat (ce_age (live nc ! i)) = 0 \<and> 3 \<le> unat a)", OF _ assms(1)], intro impI)
    fix f nc i a g r
    assume IH: "\<And>nc i a g r. f nc i a g = Some r \<Longrightarrow> nc_inv nc \<longrightarrow> i < nc_num nc \<longrightarrow>
        \<not> (unat (ce_age (live nc ! i)) = 0 \<and> 3 \<le> unat a)"
      and eq: "(if int (unat a) - 1 > int (unat (ce_age (nc_cache nc ! i))) + 1
        then f (nodecache_incrementAge nc) i a (g + 1) else Some (nc, g)) = Some r"
      and inv: "nc_inv nc" and i: "i < nc_num nc"
    show "\<not> (unat (ce_age (live nc ! i)) = 0 \<and> 3 \<le> unat a)"
    proof
      assume z: "unat (ce_age (live nc ! i)) = 0 \<and> 3 \<le> unat a"
      then have "int (unat (ce_age (nc_cache nc ! i))) = 0" "3 \<le> int (unat a)"
        using i by (simp_all only: nth_live of_nat_0 of_nat_0_le_iff) linarith
      then have "int (unat a) - 1 > int (unat (ce_age (nc_cache nc ! i))) + 1" by linarith
      then have "f (nodecache_incrementAge nc) i a (g + 1) = Some r"
        using eq by (simp only: if_P)
      from IH [OF this] inv i z show False
        by (simp add: nodecache_incrementAge_inv frame_simps live_incrementAge unat_bump_age)
    qed
  qed
  with assms show ?thesis by auto
qed

section \<open>The newest age\<close>

definition nc_known :: "TRD_NodeCache \<Rightarrow> bool" where
  "nc_known nc \<longleftrightarrow> (\<forall>e \<in> set (live nc). ce_seqno e \<noteq> TRD_SEQNO_UNKNOWN)"

lemma newest_age_loop_spec:
  "(newest_age_loop es i ni na ns = ni \<and> (\<forall>e \<in> set es. na \<le> ce_age e
      \<and> (ns = TRD_SEQNO_UNKNOWN \<and> ce_seqno e \<noteq> TRD_SEQNO_UNKNOWN \<longrightarrow> na < ce_age e)))
   \<or> (\<exists>j < length es. newest_age_loop es i ni na ns = i + int j \<and> ce_age (es ! j) \<le> na
        \<and> (\<forall>e \<in> set es. ce_age (es ! j) \<le> ce_age e))"
proof (induction es arbitrary: i ni na ns)
  case Nil
  then show ?case by simp
next
  case (Cons e es)
  have shift: "\<exists>j < length (e # es). i + 1 + int j0 = i + int j \<and> ce_age ((e # es) ! j) \<le> na
      \<and> (\<forall>x \<in> set (e # es). ce_age ((e # es) ! j) \<le> ce_age x)"
    if "j0 < length es" "ce_age (es ! j0) \<le> na" "ce_age (es ! j0) \<le> ce_age e"
      "\<forall>x \<in> set es. ce_age (es ! j0) \<le> ce_age x" for j0
    using that by (intro exI [of _ "Suc j0"]) auto
  show ?case
  proof (cases "ce_age e < na \<or> (ce_age e = na \<and> trd_seqno_cmp (ce_seqno e) ns > 0)")
    case True
    then have eq: "newest_age_loop (e # es) i ni na ns =
        newest_age_loop es (i + 1) i (ce_age e) (ce_seqno e)" and le: "ce_age e \<le> na"
      by auto
    from Cons.IH [of "i + 1" i "ce_age e" "ce_seqno e"] show ?thesis
    proof (elim disjE exE conjE)
      fix j0
      assume "j0 < length es" "ce_age (es ! j0) \<le> ce_age e"
        "newest_age_loop es (i + 1) i (ce_age e) (ce_seqno e) = i + 1 + int j0"
        "\<forall>x \<in> set es. ce_age (es ! j0) \<le> ce_age x"
      with shift [of j0] le show ?thesis by (simp only: eq) (meson order_trans)
    next
      assume "newest_age_loop es (i + 1) i (ce_age e) (ce_seqno e) = i"
        "\<forall>x \<in> set es. ce_age e \<le> ce_age x \<and> (ce_seqno e = TRD_SEQNO_UNKNOWN \<and>
          ce_seqno x \<noteq> TRD_SEQNO_UNKNOWN \<longrightarrow> ce_age e < ce_age x)"
      with le show ?thesis unfolding eq by (intro disjI2 exI [of _ 0]) auto
    qed
  next
    case False
    then have eq: "newest_age_loop (e # es) i ni na ns = newest_age_loop es (i + 1) ni na ns"
      and le: "na \<le> ce_age e"
      by auto
    have strict: "na < ce_age e" if "ns = TRD_SEQNO_UNKNOWN" "ce_seqno e \<noteq> TRD_SEQNO_UNKNOWN"
      using False le that by (auto simp: trd_seqno_cmp_gt_unknown)
    from Cons.IH [of "i + 1" ni na ns] show ?thesis
    proof (elim disjE exE conjE)
      fix j0
      assume "j0 < length es" "newest_age_loop es (i + 1) ni na ns = i + 1 + int j0"
        "ce_age (es ! j0) \<le> na" "\<forall>x \<in> set es. ce_age (es ! j0) \<le> ce_age x"
      with shift [of j0] le show ?thesis by (simp only: eq) (meson order_trans)
    next
      assume "newest_age_loop es (i + 1) ni na ns = ni"
        "\<forall>x \<in> set es. na \<le> ce_age x \<and> (ns = TRD_SEQNO_UNKNOWN \<and>
          ce_seqno x \<noteq> TRD_SEQNO_UNKNOWN \<longrightarrow> na < ce_age x)"
      with le strict show ?thesis unfolding eq by auto
    qed
  qed
qed

lemma unat_all_ones: "unat (- 1 :: u16) = 65535"
  by (simp add: unsigned_minus_1_eq_mask mask_eq_exp_minus_1)

text \<open>The least age of the cache, and the all-ones age for a cache without entries.\<close>

lemma findNewestAge_cases:
  assumes "nc_inv nc" "nc_known nc"
  obtains (none) "nodecache_findNewestAge nc = - 1" "\<forall>e \<in> set (live nc). ce_age e = - 1"
  | (newest) e where "e \<in> set (live nc)" "nodecache_findNewestAge nc = ce_age e"
      "\<forall>x \<in> set (live nc). ce_age e \<le> ce_age x"
proof -
  let ?r = "newest_age_loop (live nc) 0 TRD_INVALID_INDEX TRD_AGE_MAX TRD_SEQNO_UNKNOWN"
  have "(?r = TRD_INVALID_INDEX \<and> (\<forall>e \<in> set (live nc). TRD_AGE_MAX < ce_age e))
    \<or> (\<exists>j < nc_num nc. ?r = int j \<and> (\<forall>e \<in> set (live nc). ce_age (live nc ! j) \<le> ce_age e))"
    using newest_age_loop_spec [of "live nc" 0 TRD_INVALID_INDEX TRD_AGE_MAX TRD_SEQNO_UNKNOWN]
      assms by (auto simp: nc_known_def)
  then show thesis
  proof (elim disjE exE conjE)
    assume r: "?r = TRD_INVALID_INDEX" and all: "\<forall>e \<in> set (live nc). TRD_AGE_MAX < ce_age e"
    have "ce_age e = - 1" if "e \<in> set (live nc)" for e
    proof -
      have "65534 < unat (ce_age e)"
        using all that by (simp add: consts_defs word_less_nat_alt)
      then have "unat (ce_age e) = 65535" using unat_u16_le [of "ce_age e"] by linarith
      with unat_all_ones show ?thesis by (simp add: word_eq_unat)
    qed
    with r none show thesis by (simp add: nodecache_findNewestAge_def)
  next
    fix j
    assume j: "j < nc_num nc" "?r = int j"
      "\<forall>e \<in> set (live nc). ce_age (live nc ! j) \<le> ce_age e"
    have "live nc ! j \<in> set (live nc)" using j assms by simp
    then show thesis
      using newest [of "live nc ! j"] j
      by (simp add: nodecache_findNewestAge_def TRD_INVALID_INDEX_def nth_live)
  qed
qed

section \<open>Classification\<close>

text \<open>
  The intended verdict, for a cache whose numbers lie at the positions \<open>js\<close> of a window of 15
  consecutive numbers, on the number at position \<open>k\<close> of that window or just behind it. At a
  distance of 16 the comparison depends on whether the numbers wrap in between.
\<close>

definition class_spec :: "nat set \<Rightarrow> nat \<Rightarrow> trd_class set" where
  "class_spec js k =
    (if k = Max js then {TRD_CLASS_IN_LAST, TRD_CLASS_IN_OLD}
     else if k = Max js + 1 then {TRD_CLASS_NEXT_NEW}
     else if k > Max js + 4 then {TRD_CLASS_TOO_NEW}
     else if k > Max js then {TRD_CLASS_NEWER}
     else if k < Min js then {TRD_CLASS_TOO_OLD}
     else if k \<in> js then {TRD_CLASS_IN_OLD}
     else {TRD_CLASS_UNKNOWN})"

definition in_window :: "TRD_NodeCache \<Rightarrow> u16 \<Rightarrow> nat list \<Rightarrow> bool" where
  "in_window nc b js \<longleftrightarrow> trd_valid b \<and> map ce_seqno (live nc) = map (fwd 5000 b) js
    \<and> (\<forall>j \<in> set js. j < 15)"

lemma cmp_window:
  assumes "trd_valid b" "i < j + 16" "j < i + 16"
  shows "trd_seqno_cmp (fwd 5000 b i) (fwd 5000 b j) = sgn (int i - int j)"
proof (cases i j rule: linorder_cases)
  case less
  have "fwd 5000 b j = fwd 5000 (fwd 5000 b i) (j - i)" using less by (simp add: fwd_fwd)
  with less assms show ?thesis by (simp add: trds.cmp_behind)
next
  case greater
  have "fwd 5000 b i = fwd 5000 (fwd 5000 b j) (i - j)" using greater by (simp add: fwd_fwd)
  with greater assms show ?thesis by (simp add: trds.cmp_ahead)
qed simp

lemma fwd_window_inj: "i < 5000 \<Longrightarrow> j < 5000 \<Longrightarrow> fwd 5000 b i = fwd 5000 b j \<longleftrightarrow> i = j"
  using fwd_inj [of 5000 i j b] by auto

lemma fwd_known [simp]: "fwd 5000 b k \<noteq> TRD_SEQNO_UNKNOWN" "fwd 5000 b k \<noteq> TRD_SEQNO_OLDEST"
  by (rule trd_valid_special, simp)+

lemma classify_scan_append:
  "classify_scan (xs @ [e]) s i st = classify_scan [e] s (i + int (length xs)) (classify_scan xs s i st)"
  by (induction xs arbitrary: i st) (auto simp: Let_def algebra_simps split: prod.splits)

text \<open>The scan ends with the newest and the oldest number, the place of the newest, and whether the
  number of the packet is there.\<close>

lemma classify_scan_window:
  assumes b: "trd_valid b" and k: "k < 16"
  shows "es \<noteq> [] \<Longrightarrow> map ce_seqno es = map (fwd 5000 b) js \<Longrightarrow> \<forall>j \<in> set js. j < 16 \<Longrightarrow>
    \<exists>ex ni oi. classify_scan es (fwd 5000 b k) 0 (-1, -1, TRD_SEQNO_UNKNOWN, -1, TRD_SEQNO_UNKNOWN)
        = (ex, int ni, fwd 5000 b (Max (set js)), oi, fwd 5000 b (Min (set js)))
      \<and> ni < length es \<and> (ex \<noteq> -1 \<longleftrightarrow> k \<in> set js)"
proof (induction es arbitrary: js rule: rev_induct)
  case Nil
  then show ?case by simp
next
  case (snoc e es)
  from snoc.prems(2) obtain js0 j where js: "js = js0 @ [j]"
    "map ce_seqno es = map (fwd 5000 b) js0" "ce_seqno e = fwd 5000 b j"
    by (cases js rule: rev_cases) auto
  have j: "j < 16" and js0: "\<forall>j \<in> set js0. j < 16" using snoc.prems(3) js by auto
  have ex: "trd_seqno_cmp (fwd 5000 b j) (fwd 5000 b k) = 0 \<longleftrightarrow> j = k"
    using cmp_window [OF b, of j k] j k by (auto simp: sgn_if)
  show ?case
  proof (cases "es = []")
    case True
    then have "js0 = []" using js(2) by simp
    with True js ex show ?thesis by auto
  next
    case False
    then have ne: "set js0 \<noteq> {}" "finite (set js0)" using js(2) by auto
    then have m: "Max (set js0) < 16" "Min (set js0) < 16" using js0 by auto
    obtain ex0 ni oi where IH: "classify_scan es (fwd 5000 b k) 0
        (-1, -1, TRD_SEQNO_UNKNOWN, -1, TRD_SEQNO_UNKNOWN)
        = (ex0, int ni, fwd 5000 b (Max (set js0)), oi, fwd 5000 b (Min (set js0)))"
      "ni < length es" "ex0 \<noteq> -1 \<longleftrightarrow> k \<in> set js0"
      using snoc.IH [OF False js(2) js0] by blast
    have newer: "trd_seqno_cmp (fwd 5000 b j) (fwd 5000 b (Max (set js0))) > 0 \<longleftrightarrow> Max (set js0) < j"
      using cmp_window [OF b, of j "Max (set js0)"] j m by (auto simp: sgn_if)
    have older: "trd_seqno_cmp (fwd 5000 b j) (fwd 5000 b (Min (set js0))) < 0 \<longleftrightarrow> j < Min (set js0)"
      using cmp_window [OF b, of j "Min (set js0)"] j m by (auto simp: sgn_if)
    have mm: "Max (set js) = max j (Max (set js0))" "Min (set js) = min j (Min (set js0))"
      using ne js(1) by simp_all
    show ?thesis
      unfolding classify_scan_append IH(1) mm
      using newer older ex IH(2,3) js(1,3)
      by (auto simp: Let_def max_def min_def intro!: exI [of _ "length es"] exI [of _ ni])
  qed
qed

lemma classify_loop_class:
  assumes "nc_inv nc" "i < nc_num nc" "0 < unat (ce_age (live nc ! i)) \<or> unat a \<le> 2"
  shows "\<exists>c nc'. do { (nc', aging) \<leftarrow> classify_age_loop nc i a g;
      Some (if unat aging > 1 then TRD_CLASS_IN_OLD else TRD_CLASS_IN_LAST, nc') } = Some (c, nc')
    \<and> c \<in> {TRD_CLASS_IN_LAST, TRD_CLASS_IN_OLD} \<and> nc_inv nc' \<and> same_keys nc nc'"
  using classify_age_loop_returns [OF assms, of g] by auto

lemma nodecache_classify_eval:
  assumes inv: "nc_inv nc" and win: "in_window nc b js" and ne: "nc_num nc \<noteq> 0" and k: "k < 16"
  obtains ni where "ni < nc_num nc" "nodecache_classifySeqno nc (fwd 5000 b k) a =
    (if k = Max (set js) then do { (nc', aging) \<leftarrow> classify_age_loop nc ni a 0;
        Some (if unat aging > 1 then TRD_CLASS_IN_OLD else TRD_CLASS_IN_LAST, nc') }
     else if k = Max (set js) + 1 then Some (TRD_CLASS_NEXT_NEW, nc)
     else if k > Max (set js) + 1
     then Some (if k > Max (set js) + 4 then TRD_CLASS_TOO_NEW else TRD_CLASS_NEWER, nc)
     else if k < Min (set js) then Some (TRD_CLASS_TOO_OLD, nc)
     else Some (if k \<in> set js then TRD_CLASS_IN_OLD else TRD_CLASS_UNKNOWN, nc))"
proof -
  let ?s = "fwd 5000 b k" and ?M = "Max (set js)" and ?m = "Min (set js)"
  have b: "trd_valid b" and keys: "map ce_seqno (live nc) = map (fwd 5000 b) js"
    and js: "\<forall>j \<in> set js. j < 15"
    using win by (auto simp: in_window_def)
  have live: "live nc \<noteq> []" using inv ne by (metis length_live list.size(3))
  then have jne: "set js \<noteq> {}" using keys by auto
  then have M: "?M < 15" "?m < 15" using js by auto
  have js16: "\<forall>j \<in> set js. j < 16" using js by auto
  obtain ex ni oi where scan: "classify_scan (live nc) ?s 0
      (TRD_INVALID_INDEX, TRD_INVALID_INDEX, TRD_SEQNO_UNKNOWN, TRD_INVALID_INDEX, TRD_SEQNO_UNKNOWN)
      = (ex, int ni, fwd 5000 b ?M, oi, fwd 5000 b ?m)" "ni < nc_num nc" "ex \<noteq> -1 \<longleftrightarrow> k \<in> set js"
    using classify_scan_window [OF b k live keys js16] inv by (auto simp: TRD_INVALID_INDEX_def)
  have nxt: "trd_seqno_next (fwd 5000 b ?M) = fwd 5000 b (?M + 1)"
    by (simp add: trds.nxt_fwd fwd_fwd)
  have add: "trd_seqno_add (fwd 5000 b ?M) (of_nat (TRD_CACHE_ENTRIES_PER_NODE - 1))
      = fwd 5000 b (?M + 4)"
    using trds.add_fwd [of "fwd 5000 b ?M" 4] by (simp add: fwd_fwd consts_defs)
  have eqs: "?s = fwd 5000 b ?M \<longleftrightarrow> k = ?M" "?s = fwd 5000 b (?M + 1) \<longleftrightarrow> k = ?M + 1"
    using k M by (simp_all add: fwd_window_inj)
  have gt: "trd_seqno_cmp ?s (fwd 5000 b (?M + 1)) > 0 \<longleftrightarrow> k > ?M + 1"
    using cmp_window [OF b, of k "?M + 1"] k M by (auto simp: sgn_if)
  have gt4: "trd_seqno_cmp ?s (fwd 5000 b (?M + 4)) > 0 \<longleftrightarrow> k > ?M + 4" if "k > ?M + 1"
    using cmp_window [OF b, of k "?M + 4"] k M that by (auto simp: sgn_if)
  have lt: "trd_seqno_cmp ?s (fwd 5000 b ?m) < 0 \<longleftrightarrow> k < ?m"
    using cmp_window [OF b, of k ?m] k M by (auto simp: sgn_if)
  show thesis
  proof (rule that [OF scan(2)])
    show "nodecache_classifySeqno nc ?s a =
    (if k = ?M then do { (nc', aging) \<leftarrow> classify_age_loop nc ni a 0;
        Some (if unat aging > 1 then TRD_CLASS_IN_OLD else TRD_CLASS_IN_LAST, nc') }
     else if k = ?M + 1 then Some (TRD_CLASS_NEXT_NEW, nc)
     else if k > ?M + 1 then Some (if k > ?M + 4 then TRD_CLASS_TOO_NEW else TRD_CLASS_NEWER, nc)
     else if k < ?m then Some (TRD_CLASS_TOO_OLD, nc)
     else Some (if k \<in> set js then TRD_CLASS_IN_OLD else TRD_CLASS_UNKNOWN, nc))"
      unfolding nodecache_classifySeqno_def scan(1) prod.case nxt add eqs gt lt
      using gt4 scan(3) by (simp add: ne TRD_INVALID_INDEX_def)
  qed
qed

lemma nodecache_classify_window:
  assumes inv: "nc_inv nc" and win: "in_window nc b js" and ne: "nc_num nc \<noteq> 0" and k: "k < 16"
    and age: "(\<forall>e \<in> set (live nc). 0 < unat (ce_age e)) \<or> unat a \<le> 2"
  shows "\<exists>c nc'. nodecache_classifySeqno nc (fwd 5000 b k) a = Some (c, nc')
    \<and> c \<in> class_spec (set js) k \<and> nc_inv nc' \<and> same_keys nc nc'"
proof (rule nodecache_classify_eval [OF inv win ne k, of a])
  fix ni
  assume ni: "ni < nc_num nc" and eval: "nodecache_classifySeqno nc (fwd 5000 b k) a =
    (if k = Max (set js) then do { (nc', aging) \<leftarrow> classify_age_loop nc ni a 0;
        Some (if unat aging > 1 then TRD_CLASS_IN_OLD else TRD_CLASS_IN_LAST, nc') }
     else if k = Max (set js) + 1 then Some (TRD_CLASS_NEXT_NEW, nc)
     else if k > Max (set js) + 1
     then Some (if k > Max (set js) + 4 then TRD_CLASS_TOO_NEW else TRD_CLASS_NEWER, nc)
     else if k < Min (set js) then Some (TRD_CLASS_TOO_OLD, nc)
     else Some (if k \<in> set js then TRD_CLASS_IN_OLD else TRD_CLASS_UNKNOWN, nc))"
  have loop_age: "0 < unat (ce_age (live nc ! ni)) \<or> unat a \<le> 2"
    using age ni inv by (metis length_live nth_mem)
  show ?thesis
  proof (cases "k = Max (set js)")
    case True
    then show ?thesis
      using classify_loop_class [OF inv ni loop_age, of 0] unfolding eval by (simp add: class_spec_def)
  next
    case False
    then show ?thesis using inv unfolding eval by (auto simp: class_spec_def)
  qed
qed

text \<open>A verdict that is given is the intended one, whatever the ages.\<close>

lemma nodecache_classify_class:
  assumes "nc_inv nc" "in_window nc b js" "nc_num nc \<noteq> 0" "k < 16"
    and c: "nodecache_classifySeqno nc (fwd 5000 b k) a = Some (c, nc')"
  shows "c \<in> class_spec (set js) k"
proof (rule nodecache_classify_eval [OF assms(1-4), of a])
  fix ni
  assume eval: "nodecache_classifySeqno nc (fwd 5000 b k) a =
    (if k = Max (set js) then do { (nc', aging) \<leftarrow> classify_age_loop nc ni a 0;
        Some (if unat aging > 1 then TRD_CLASS_IN_OLD else TRD_CLASS_IN_LAST, nc') }
     else if k = Max (set js) + 1 then Some (TRD_CLASS_NEXT_NEW, nc)
     else if k > Max (set js) + 1
     then Some (if k > Max (set js) + 4 then TRD_CLASS_TOO_NEW else TRD_CLASS_NEWER, nc)
     else if k < Min (set js) then Some (TRD_CLASS_TOO_OLD, nc)
     else Some (if k \<in> set js then TRD_CLASS_IN_OLD else TRD_CLASS_UNKNOWN, nc))"
  show ?thesis
    using c unfolding eval by (auto simp: class_spec_def split: if_splits bind_splits)
qed

section \<open>Properties\<close>

text \<open>
  An insertion into a well-formed cache keeps it well-formed. A number that is there already is
  refused; with room, or with an entry of positive age to replace, the new entry is found
  afterwards; in a full cache the victim is an entry of greatest age, and every other entry stays.
\<close>

theorem nodecache_insert_correct:
  assumes inv: "nc_inv nc" and ins: "nodecache_insert nc s m a = Some (r, nc')"
  shows "nc_inv nc' \<and>
    (if s \<in> nc_seqnos nc then r = 0 \<and> nc' = nc
     else r = 1 \<and> nc_lookup nc' s = Some \<lparr>ce_memloc = m, ce_seqno = s, ce_age = a\<rparr>
       \<and> (if nc_num nc < 5 then nc_seqnos nc' = insert s (nc_seqnos nc)
          else \<exists>v \<in> set (live nc). (\<forall>e \<in> set (live nc). ce_age e \<le> ce_age v)
            \<and> nc_seqnos nc' = insert s (nc_seqnos nc - {ce_seqno v})))"
proof (cases rule: nodecache_insert_cases [OF inv, of s m a])
  case 1
  then show ?thesis using inv ins by simp
next
  case (2 nc'')
  then show ?thesis
    using ins nodecache_insert_lookup [OF inv, of s m a nc''] by (simp add: nc_seqnos_def)
next
  case (3 i nc'')
  have i: "i < length (live nc)" using 3 inv by simp
  have d: "distinct (map ce_seqno (live nc))" using inv by (simp add: nc_inv_def)
  have "nc_seqnos nc'' = insert s (nc_seqnos nc - {ce_seqno (live nc ! i)})"
    unfolding nc_seqnos_def list.set_map [symmetric] 3(8) map_update
    using i by (subst set_update_distinct [OF d]) simp_all
  moreover have "live nc ! i \<in> set (live nc)" using i by simp
  ultimately show ?thesis
    using ins 3 nodecache_insert_lookup [OF inv, of s m a nc''] by auto
next
  case 4
  then show ?thesis using ins by simp
qed

theorem nodecache_insert_correct_witness:
  "nc_inv (snd (the (nodecache_insert (nodecache_init \<lparr>nc_origin = 1, nc_num = 0, nc_cache = []\<rparr>)
    4 2 1)))"
proof -
  let ?nc = "nodecache_init \<lparr>nc_origin = 1, nc_num = 0, nc_cache = []\<rparr>"
  obtain nc' where "nodecache_insert ?nc 4 2 1 = Some (1, nc')"
    by (simp add: nodecache_insert_def find_index_def nodecache_init_def live_def consts_defs)
  with nodecache_insert_correct [OF _ this] show ?thesis by simp
qed

text \<open>
  When every entry of a full cache has age 0 (five packets generated within a second), the
  insertion of a new number writes in front of the array, and in no other case.
\<close>

theorem nodecache_insert_undefined_iff:
  assumes "nc_inv nc"
  shows "nodecache_insert nc s m a = None \<longleftrightarrow>
    s \<notin> nc_seqnos nc \<and> nc_num nc = 5 \<and> (\<forall>e \<in> set (live nc). ce_age e = 0)"
proof (cases rule: nodecache_insert_cases [OF assms, of s m a])
  case (3 i nc')
  then have i: "live nc ! i \<in> set (live nc)" using assms by simp
  show ?thesis
  proof (rule ccontr)
    assume "\<not> ?thesis"
    then have z: "\<forall>e \<in> set (live nc). ce_age e = 0" using 3 by simp
    then have "find_oldest_seqno_index nc = -1"
      using z by (cases rule: find_oldest_index_cases [OF assms])
        (auto simp: nth_live [symmetric] assms)
    then show False
      using 3 assms by (auto simp: nodecache_insert_def Let_def consts_defs find_index_neg
          split: if_splits)
  qed
qed auto

theorem nodecache_insert_undefined_iff_witness:
  "nodecache_insert \<lparr>nc_origin = 1, nc_num = 5,
    nc_cache = map (\<lambda>s. \<lparr>ce_memloc = 0, ce_seqno = of_nat s, ce_age = 0\<rparr>) [1..<6]\<rparr> 6 0 0 = None"
  by (subst nodecache_insert_undefined_iff) (simp_all add: nc_inv_def live_def upt_rec nc_seqnos_def)



text \<open>
  The ageing loop of the classification never ends when the newest entry was generated here
  within the last second (age 0) and a packet with the same number claims an age of 3 or more.
\<close>

theorem classify_age_zero_hangs:
  assumes "nc_inv nc" "in_window nc b js" "nc_num nc \<noteq> 0"
    and "\<forall>e \<in> set (live nc). ce_age e = 0" "3 \<le> unat a"
  shows "nodecache_classifySeqno nc (fwd 5000 b (Max (set js))) a = None"
proof -
  have b: "trd_valid b" and keys: "map ce_seqno (live nc) = map (fwd 5000 b) js"
    and js: "\<forall>j \<in> set js. j < 15"
    using assms by (auto simp: in_window_def)
  have live: "live nc \<noteq> []" using assms by (metis length_live list.size(3))
  then have "set js \<noteq> {}" using keys by auto
  then have M: "Max (set js) < 16" using js by (metis Max_in List.finite_set less_trans_Suc numeral_eq_Suc
        pred_numeral_simps(2) less_Suc_eq semiring_norm(28) semiring_norm(26) semiring_norm(27))
  obtain ex ni oi where scan: "classify_scan (live nc) (fwd 5000 b (Max (set js))) 0
      (TRD_INVALID_INDEX, TRD_INVALID_INDEX, TRD_SEQNO_UNKNOWN, TRD_INVALID_INDEX, TRD_SEQNO_UNKNOWN)
      = (ex, int ni, fwd 5000 b (Max (set js)), oi, fwd 5000 b (Min (set js)))" "ni < nc_num nc"
    using classify_scan_window [OF b M live keys] js assms(1) by (fastforce simp: TRD_INVALID_INDEX_def)
  have "live nc ! ni \<in> set (live nc)" using scan(2) assms(1) by simp
  then have "classify_age_loop nc ni a 0 = None"
    using classify_age_loop_stuck [of nc ni a 0] assms scan(2)
    by (cases "classify_age_loop nc ni a 0") auto
  then show ?thesis
    using scan assms(3) by (simp add: nodecache_classifySeqno_def)
qed

theorem classify_age_zero_hangs_witness:
  "nodecache_classifySeqno \<lparr>nc_origin = 1, nc_num = 1,
    nc_cache = replicate 5 \<lparr>ce_memloc = 0, ce_seqno = 7, ce_age = 0\<rparr>\<rparr> 7 3 = None"
  using classify_age_zero_hangs [of "\<lparr>nc_origin = 1, nc_num = 1,
    nc_cache = replicate 5 \<lparr>ce_memloc = 0, ce_seqno = 7, ce_age = 0\<rparr>\<rparr>" 7 "[0]" 3]
  by (simp add: in_window_def live_def in_space_def fwd_0 nc_inv_def)

end
