(* ===== verification/Trd_Table.thy ===== *)
theory Trd_Table
  imports Nodecache "HOL-Library.Multiset"
begin

text \<open>
  Model of src/mote/lib/trd/trd_table.c (the build for the master): the node caches of up to
  \<open>TRD_NODE_ENTRIES\<close> origins, in an array of which the first \<open>tt_num\<close> places are used
  (\<open>tlive\<close>). Summaries are byte buffers with the layout of \<open>TRD_ControlMsg\<close> (see theory Checksum).
  The callers of \<open>trd_table_remove_node_index\<close> pass -1 or an index below \<open>num_entries\<close>, so its array
  accesses are inside the array there.
\<close>

record TRD_Table =
  tt_num :: nat
  tt_ncache :: "TRD_NodeCache list"

definition tlive :: "TRD_Table \<Rightarrow> TRD_NodeCache list" where
  "tlive t = take (tt_num t) (tt_ncache t)"

definition TRD_SUMMARY_ENTRIES :: nat where [consts_defs]: "TRD_SUMMARY_ENTRIES = TRD_NODE_ENTRIES"
definition TRD_REQUEST_ENTRIES :: nat where [consts_defs]: "TRD_REQUEST_ENTRIES = TRD_NODE_ENTRIES"

section \<open>Operations\<close>

definition trd_table_init :: "TRD_Table \<Rightarrow> TRD_Table" where
  "trd_table_init t = t\<lparr>tt_num := 0,
     tt_ncache := map nodecache_init (take TRD_NODE_ENTRIES (tt_ncache t))
       @ drop TRD_NODE_ENTRIES (tt_ncache t)\<rparr>"

definition trd_table_numEntries :: "TRD_Table \<Rightarrow> nat" where
  "trd_table_numEntries t = tt_num t"

definition trd_table_isFull :: "TRD_Table \<Rightarrow> bool" where
  "trd_table_isFull t \<longleftrightarrow> tt_num t \<ge> TRD_NODE_ENTRIES"

definition trd_table_remove_node_index :: "TRD_Table \<Rightarrow> int \<Rightarrow> u8 \<times> TRD_Table" where
  "trd_table_remove_node_index t idx =
    (if idx < 0 then (0, t)
     else let l = tt_num t - 1; last = tt_ncache t ! l;
              moved = (if idx \<noteq> int l then (tt_ncache t)[nat idx := last] else tt_ncache t)
          in (1, t\<lparr>tt_num := l, tt_ncache := moved[l := nodecache_init last]\<rparr>))"

primrec find_oldest_node_loop :: "TRD_NodeCache list \<Rightarrow> int \<Rightarrow> u16 \<Rightarrow> int \<Rightarrow> int" where
  "find_oldest_node_loop [] i oldest_age oldest_idx = oldest_idx"
| "find_oldest_node_loop (nc # ncs) i oldest_age oldest_idx =
    (if nc_origin nc = TRD_INVALID_ORIGIN then find_oldest_node_loop ncs (i + 1) oldest_age oldest_idx
     else let newest_age = nodecache_findNewestAge nc in
       if newest_age > oldest_age then find_oldest_node_loop ncs (i + 1) newest_age i
       else find_oldest_node_loop ncs (i + 1) oldest_age oldest_idx)"

definition find_oldest_node_index :: "TRD_Table \<Rightarrow> int" where
  "find_oldest_node_index t = find_oldest_node_loop (tlive t) 0 0 (-1)"

definition trd_table_removeOldest :: "TRD_Table \<Rightarrow> u8 \<times> TRD_Table" where
  "trd_table_removeOldest t =
    (if tt_num t < TRD_NODE_ENTRIES then (1, t)
     else trd_table_remove_node_index t (find_oldest_node_index t))"

definition TRD_Table_findOldestOrigin :: "TRD_Table \<Rightarrow> u16" where
  "TRD_Table_findOldestOrigin t =
    (let i = find_oldest_node_index t
     in if i < 0 then TRD_INVALID_ORIGIN else nc_origin (tt_ncache t ! nat i))"

primrec origin_index_loop :: "TRD_NodeCache list \<Rightarrow> u16 \<Rightarrow> int \<Rightarrow> int" where
  "origin_index_loop [] a i = -1"
| "origin_index_loop (nc # ncs) a i =
    (if nc_origin nc = a then i else origin_index_loop ncs a (i + 1))"

definition get_origin_index :: "TRD_Table \<Rightarrow> u16 \<Rightarrow> int" where
  "get_origin_index t a = origin_index_loop (tlive t) a 0"

text \<open>The loop index steps back after a removal, which is to stay where it is.\<close>

function table_age_loop :: "TRD_Table \<Rightarrow> nat \<Rightarrow> TRD_Table" where
  "table_age_loop t i =
    (if i < tt_num t then
       let nc = nodecache_incrementAge (tt_ncache t ! i);
           t' = t\<lparr>tt_ncache := (tt_ncache t)[i := nc]\<rparr>
       in if nodecache_findNewestAge nc > TRD_AGE_DELETE_OLD
          then table_age_loop (snd (trd_table_remove_node_index t' (int i))) i
          else table_age_loop t' (i + 1)
     else t)"
  by pat_completeness auto
termination
  by (relation "measure (\<lambda>(t, i). tt_num t - i)")
    (auto simp: trd_table_remove_node_index_def Let_def)

declare table_age_loop.simps [simp del]

definition trd_table_incrementAge :: "TRD_Table \<Rightarrow> TRD_Table" where
  "trd_table_incrementAge t = table_age_loop t 0"

definition trd_table_removeNode :: "TRD_Table \<Rightarrow> u16 \<Rightarrow> u8 \<times> TRD_Table" where
  "trd_table_removeNode t a = trd_table_remove_node_index t (get_origin_index t a)"

text \<open>An unknown origin is added first, and stays when the insertion of the number fails.\<close>

definition trd_table_insert ::
    "TRD_Table \<Rightarrow> u16 \<Rightarrow> u16 \<Rightarrow> u16 \<Rightarrow> u16 \<Rightarrow> (u8 \<times> TRD_Table) option" where
  "trd_table_insert t a s m g =
    (let idx = get_origin_index t a in
     if idx < 0 \<and> \<not> tt_num t < TRD_NODE_ENTRIES then Some (0, t)
     else
       let (k, t1) = (if idx < 0 then
             (tt_num t,
              t\<lparr>tt_ncache := (tt_ncache t)[tt_num t :=
                   (nodecache_init (tt_ncache t ! tt_num t))\<lparr>nc_origin := a\<rparr>],
                tt_num := tt_num t + 1\<rparr>)
           else (nat idx, t))
       in do {
         (r, nc) \<leftarrow> nodecache_insert (tt_ncache t1 ! k) s m g;
         Some (r, t1\<lparr>tt_ncache := (tt_ncache t1)[k := nc]\<rparr>)
       })"

definition trd_table_getMemloc :: "TRD_Table \<Rightarrow> u16 \<Rightarrow> u16 \<Rightarrow> u16 option" where
  "trd_table_getMemloc t a s =
    (let idx = get_origin_index t a
     in if idx < 0 then None else nodecache_getMemloc (tt_ncache t ! nat idx) s)"

definition trd_table_getAge :: "TRD_Table \<Rightarrow> u16 \<Rightarrow> u16 \<Rightarrow> u16 option" where
  "trd_table_getAge t a s =
    (let idx = get_origin_index t a
     in if idx < 0 then None else nodecache_getAge (tt_ncache t ! nat idx) s)"

definition trd_table_exist :: "TRD_Table \<Rightarrow> u16 \<Rightarrow> u16 \<Rightarrow> bool" where
  "trd_table_exist t a s =
    (let idx = get_origin_index t a
     in if idx < 0 then False else nodecache_exist (tt_ncache t ! nat idx) s)"

definition trd_table_getOldestSeqno :: "TRD_Table \<Rightarrow> u16 \<Rightarrow> u16" where
  "trd_table_getOldestSeqno t a =
    (let idx = get_origin_index t a
     in if idx < 0 then TRD_SEQNO_UNKNOWN else nodecache_getOldestSeqno (tt_ncache t ! nat idx))"

text \<open>The callers of the next operation do not use the age it leaves.\<close>

definition trd_table_getLastSeqno :: "TRD_Table \<Rightarrow> u16 \<Rightarrow> u16" where
  "trd_table_getLastSeqno t a =
    (let idx = get_origin_index t a
     in if idx < 0 then TRD_SEQNO_UNKNOWN else fst (nodecache_getLastSeqno (tt_ncache t ! nat idx)))"

text \<open>One entry of a control message: three 16-bit fields in network order.\<close>

definition put_meta :: "bytes \<Rightarrow> nat \<Rightarrow> u16 \<Rightarrow> u16 \<Rightarrow> u16 \<Rightarrow> bytes" where
  "put_meta b k a s g =
    put16be (put16be (put16be b (6 + 6 * k) a) (6 + 6 * k + 2) s) (6 + 6 * k + 4) g"

definition get_meta :: "bytes \<Rightarrow> nat \<Rightarrow> u16 \<times> u16 \<times> u16" where
  "get_meta b k = (get16be b (6 + 6 * k), get16be b (6 + 6 * k + 2), get16be b (6 + 6 * k + 4))"

primrec summarize_loop ::
    "TRD_NodeCache list \<Rightarrow> bool \<Rightarrow> bytes \<Rightarrow> nat \<Rightarrow> bytes \<times> nat" where
  "summarize_loop [] ignore_old b n = (b, n)"
| "summarize_loop (nc # ncs) ignore_old b n =
    (case nodecache_getLastSeqno nc of (s, g) \<Rightarrow>
       if s \<noteq> TRD_SEQNO_UNKNOWN \<and> (\<not> ignore_old \<or> g < TRD_AGE_NO_SUMMARY) then
         (let b' = put_meta b n (nc_origin nc) s g
          in if n + 1 = TRD_SUMMARY_ENTRIES then (b', n + 1)
             else summarize_loop ncs ignore_old b' (n + 1))
       else summarize_loop ncs ignore_old b n)"

text \<open>The result, the message and its length.\<close>

definition trd_table_summarize :: "TRD_Table \<Rightarrow> bytes \<Rightarrow> bool \<Rightarrow> bool \<times> bytes \<times> nat" where
  "trd_table_summarize t b ignore_old =
    (case summarize_loop (tlive t) ignore_old b 0 of (b', n) \<Rightarrow>
       (n \<noteq> 0, put8 b' 2 (of_nat n), 6 + n * 6))"

definition trd_table_classify ::
    "TRD_Table \<Rightarrow> u16 \<Rightarrow> u16 \<Rightarrow> u16 \<Rightarrow> (trd_class \<times> TRD_Table) option" where
  "trd_table_classify t a s g =
    (let idx = get_origin_index t a in
     if idx < 0 then Some (TRD_CLASS_NULL, t)
     else do {
       (c, nc) \<leftarrow> nodecache_classifySeqno (tt_ncache t ! nat idx) s g;
       Some (c, t\<lparr>tt_ncache := (tt_ncache t)[nat idx := nc]\<rparr>)
     })"

text \<open>
  The inner loop of \<open>trd_table_ignoreSummary\<close>, with the number of rounds left: it looks at
  \<open>metadata[i]\<close>, the entry of the outer loop's index, in every round.
\<close>

primrec ignore_scan :: "bytes \<Rightarrow> u16 \<Rightarrow> nat \<Rightarrow> nat \<Rightarrow> nat \<Rightarrow> nat" where
  "ignore_scan b a i 0 j = j"
| "ignore_scan b a i (Suc r) j =
    (if a = get16be b (6 + 6 * i) then j else ignore_scan b a i r (j + 1))"

primrec ignore_loop :: "TRD_NodeCache list \<Rightarrow> bytes \<Rightarrow> nat \<Rightarrow> bool" where
  "ignore_loop [] b i = True"
| "ignore_loop (nc # ncs) b i =
    (let n = sint (get8 b 2); j = ignore_scan b (nc_origin nc) i (nat n) 0
     in if int j = n \<and> nodecache_findNewestAge nc < TRD_AGE_IGNORE_OLD then False
        else ignore_loop ncs b (i + 1))"

definition trd_table_ignoreSummary :: "TRD_Table \<Rightarrow> bytes \<Rightarrow> bool" where
  "trd_table_ignoreSummary t b = ignore_loop (tlive t) b 0"

section \<open>Invariant\<close>

definition tt_inv :: "TRD_Table \<Rightarrow> bool" where
  "tt_inv t \<longleftrightarrow> tt_num t \<le> 5 \<and> length (tt_ncache t) = 5
    \<and> (\<forall>nc \<in> set (tlive t). nc_inv nc) \<and> distinct (map nc_origin (tlive t))"

definition tt_lookup :: "TRD_Table \<Rightarrow> u16 \<Rightarrow> TRD_NodeCache option" where
  "tt_lookup t a = find (\<lambda>nc. nc_origin nc = a) (tlive t)"

definition tt_origins :: "TRD_Table \<Rightarrow> u16 set" where
  "tt_origins t = nc_origin ` set (tlive t)"

lemma length_tlive [simp]: "tt_inv t \<Longrightarrow> length (tlive t) = tt_num t"
  by (simp add: tt_inv_def tlive_def)

lemma nth_tlive: "i < tt_num t \<Longrightarrow> tlive t ! i = tt_ncache t ! i"
  by (simp add: tlive_def)

lemma trd_table_init_inv: "length (tt_ncache t) = 5 \<Longrightarrow> tt_inv (trd_table_init t)"
  by (simp add: tt_inv_def trd_table_init_def tlive_def consts_defs)

lemma trd_table_init_tlive [simp]: "tlive (trd_table_init t) = []"
  by (simp add: trd_table_init_def tlive_def)

section \<open>The table as a map from origins to caches\<close>

lemma tt_inv_distinct: "tt_inv t \<Longrightarrow> distinct (map nc_origin (tlive t))"
  by (simp add: tt_inv_def)

lemma tt_lookup_Some: "tt_inv t \<Longrightarrow> tt_lookup t a = Some nc \<longleftrightarrow> nc \<in> set (tlive t) \<and> nc_origin nc = a"
  by (simp add: tt_lookup_def find_key_Some tt_inv_distinct)

lemma tt_origins_eq: "tt_origins t = set (map nc_origin (tlive t))"
  by (simp add: tt_origins_def)

lemma tt_lookup_None: "tt_lookup t a = None \<longleftrightarrow> a \<notin> tt_origins t"
  by (simp add: tt_lookup_def find_key_None tt_origins_def)

lemma tt_lookup_inv: "tt_inv t \<Longrightarrow> tt_lookup t a = Some nc \<Longrightarrow> nc_inv nc \<and> nc_origin nc = a"
  by (auto simp: tt_lookup_Some tt_inv_def)

lemma tt_lookup_cong:
  assumes "tt_inv t" "tt_inv t'" "set (tlive t') = set (tlive t)"
  shows "tt_lookup t' = tt_lookup t"
proof
  fix a
  show "tt_lookup t' a = tt_lookup t a"
  proof (cases "tt_lookup t a")
    case None
    then have "tt_lookup t' a = None" using assms(3) by (simp add: tt_lookup_None tt_origins_def)
    with None show ?thesis by simp
  next
    case (Some nc)
    then have "tt_lookup t' a = Some nc" using assms by (simp add: tt_lookup_Some)
    with Some show ?thesis by simp
  qed
qed

lemma origin_index_loop_spec:
  "(a \<notin> nc_origin ` set ncs \<and> origin_index_loop ncs a i = -1)
   \<or> (\<exists>j < length ncs. origin_index_loop ncs a i = i + int j \<and> nc_origin (ncs ! j) = a
        \<and> find (\<lambda>nc. nc_origin nc = a) ncs = Some (ncs ! j))"
proof (induction ncs arbitrary: i)
  case (Cons nc ncs)
  show ?case
  proof (cases "nc_origin nc = a")
    case True
    then show ?thesis by (intro disjI2 exI [of _ 0]) simp
  next
    case False
    from Cons.IH [of "i + 1"] show ?thesis
    proof (elim disjE exE conjE)
      fix j
      assume "j < length ncs" "origin_index_loop ncs a (i + 1) = i + 1 + int j"
        "nc_origin (ncs ! j) = a" "find (\<lambda>nc. nc_origin nc = a) ncs = Some (ncs ! j)"
      with False show ?thesis by (intro disjI2 exI [of _ "Suc j"]) simp
    qed (use False in auto)
  qed
qed simp

lemma get_origin_cases:
  assumes "tt_inv t"
  obtains (unknown) "tt_lookup t a = None" "get_origin_index t a = -1"
  | (known) i where "i < tt_num t" "get_origin_index t a = int i"
      "tt_lookup t a = Some (tt_ncache t ! i)" "nc_origin (tt_ncache t ! i) = a"
      "nc_inv (tt_ncache t ! i)"
proof -
  from origin_index_loop_spec [of a "tlive t" 0] show thesis
  proof (elim disjE exE conjE)
    assume "a \<notin> nc_origin ` set (tlive t)" "origin_index_loop (tlive t) a 0 = -1"
    then show thesis using unknown by (simp add: get_origin_index_def tt_lookup_None tt_origins_def)
  next
    fix j
    assume j: "j < length (tlive t)" "origin_index_loop (tlive t) a 0 = 0 + int j"
      "nc_origin (tlive t ! j) = a" "find (\<lambda>nc. nc_origin nc = a) (tlive t) = Some (tlive t ! j)"
    then have "nc_inv (tlive t ! j)" "j < tt_num t" using assms by (simp_all add: tt_inv_def)
    then show thesis
      using known [of j] j assms by (simp add: get_origin_index_def tt_lookup_def nth_tlive)
  qed
qed

text \<open>The look-ups in terms of the map.\<close>

lemma trd_table_lookups:
  assumes "tt_inv t"
  shows "trd_table_exist t a s = (case tt_lookup t a of None \<Rightarrow> False | Some nc \<Rightarrow> nodecache_exist nc s)"
    and "trd_table_getMemloc t a s = (case tt_lookup t a of None \<Rightarrow> None | Some nc \<Rightarrow> nodecache_getMemloc nc s)"
    and "trd_table_getAge t a s = (case tt_lookup t a of None \<Rightarrow> None | Some nc \<Rightarrow> nodecache_getAge nc s)"
    and "trd_table_getLastSeqno t a =
      (case tt_lookup t a of None \<Rightarrow> TRD_SEQNO_UNKNOWN | Some nc \<Rightarrow> fst (nodecache_getLastSeqno nc))"
    and "trd_table_getOldestSeqno t a =
      (case tt_lookup t a of None \<Rightarrow> TRD_SEQNO_UNKNOWN | Some nc \<Rightarrow> nodecache_getOldestSeqno nc)"
  by (cases rule: get_origin_cases [OF assms, of a];
    simp add: trd_table_exist_def trd_table_getMemloc_def trd_table_getAge_def
      trd_table_getLastSeqno_def trd_table_getOldestSeqno_def)+

section \<open>Replacing one cache\<close>

lemma tt_replace:
  assumes inv: "tt_inv t" and i: "i < tt_num t" and nc: "nc_inv nc" "nc_origin nc = nc_origin (tt_ncache t ! i)"
  defines "t' \<equiv> t\<lparr>tt_ncache := (tt_ncache t)[i := nc]\<rparr>"
  shows "tt_inv t'" "tt_lookup t' = (tt_lookup t)(nc_origin nc \<mapsto> nc)" "tt_num t' = tt_num t"
proof -
  have l: "length (tlive t) = tt_num t" using inv by simp
  have live: "tlive t' = (tlive t)[i := nc]" by (simp add: t'_def tlive_def take_update_swap)
  have keys: "map nc_origin (tlive t') = map nc_origin (tlive t)"
    using i l nc by (simp add: live map_update nth_tlive) (metis i l list_update_id nth_map nth_tlive)
  show inv': "tt_inv t'"
    using inv keys nc set_list_update_subset [of "tlive t" i nc]
    unfolding tt_inv_def live [symmetric] by (auto simp: t'_def)
  show "tt_num t' = tt_num t" by (simp add: t'_def)
  show "tt_lookup t' = (tt_lookup t)(nc_origin nc \<mapsto> nc)"
  proof
    fix b
    show "tt_lookup t' b = ((tt_lookup t)(nc_origin nc \<mapsto> nc)) b"
    proof (cases "b = nc_origin nc")
      case True
      have "nc \<in> set (tlive t')" using i l by (simp add: live set_update_memI)
      with True show ?thesis using inv' by (simp add: tt_lookup_Some)
    next
      case neq: False
      show ?thesis
      proof (cases "tt_lookup t b")
        case None
        moreover have "tt_origins t' = tt_origins t" by (simp only: tt_origins_eq keys)
        ultimately have "tt_lookup t' b = None" by (simp add: tt_lookup_None)
        with None neq show ?thesis by simp
      next
        case (Some x)
        then obtain k where k: "k < tt_num t" "tlive t ! k = x" "nc_origin x = b"
          using inv l by (auto simp: tt_lookup_Some in_set_conv_nth)
        then have "k \<noteq> i" using neq nc nth_tlive i by auto
        then have "x \<in> set (tlive t')" using k l by (auto simp: live in_set_conv_nth intro!: exI [of _ k])
        with neq Some k inv' show ?thesis by (simp add: tt_lookup_Some)
      qed
    qed
  qed
qed

section \<open>Classification, insertion and removal on the map\<close>

lemma table_classify_spec:
  assumes "tt_inv t"
  shows "trd_table_classify t a s g =
    (case tt_lookup t a of None \<Rightarrow> Some (TRD_CLASS_NULL, t)
     | Some nc \<Rightarrow> map_option (\<lambda>(c, nc'). (c, t\<lparr>tt_ncache :=
         (tt_ncache t)[nat (get_origin_index t a) := nc']\<rparr>)) (nodecache_classifySeqno nc s g))"
  by (cases rule: get_origin_cases [OF assms, of a])
    (auto simp: trd_table_classify_def split: option.splits prod.splits bind_splits)

text \<open>What a classification that returns does to the cache: it keeps numbers and places.\<close>

lemma classify_age_loop_inv:
  assumes "classify_age_loop nc i a g = Some r" "nc_inv nc"
  shows "nc_inv (fst r) \<and> same_keys nc (fst r)"
proof -
  have "nc_inv nc \<longrightarrow> nc_inv (fst r) \<and> same_keys nc (fst r)"
  proof (rule classify_age_loop.raw_induct [where P = "\<lambda>nc i a g r. nc_inv nc \<longrightarrow>
      nc_inv (fst r) \<and> same_keys nc (fst r)", OF _ assms(1)], intro impI)
    fix f nc i a g r
    assume IH: "\<And>nc i a g r. f nc i a g = Some r \<Longrightarrow> nc_inv nc \<longrightarrow> nc_inv (fst r) \<and> same_keys nc (fst r)"
      and eq: "(if int (unat a) - 1 > int (unat (ce_age (nc_cache nc ! i))) + 1
        then f (nodecache_incrementAge nc) i a (g + 1) else Some (nc, g)) = Some r"
      and inv: "nc_inv nc"
    show "nc_inv (fst r) \<and> same_keys nc (fst r)"
    proof (cases "int (unat a) - 1 > int (unat (ce_age (nc_cache nc ! i))) + 1")
      case True
      with eq have "f (nodecache_incrementAge nc) i a (g + 1) = Some r" by simp
      from IH [OF this] show ?thesis
        using inv nodecache_incrementAge_inv same_keys_trans [OF same_keys_incrementAge [OF inv]] by blast
    next
      case False
      with eq inv show ?thesis by auto
    qed
  qed
  with assms show ?thesis by blast
qed

lemma nodecache_classify_keeps:
  assumes "nodecache_classifySeqno nc s a = Some (c, nc')" "nc_inv nc"
  shows "nc_inv nc'" "same_keys nc nc'"
proof -
  have "nc_inv nc' \<and> same_keys nc nc'"
    using assms by (auto simp: nodecache_classifySeqno_def split: if_splits prod.splits bind_splits
        dest!: classify_age_loop_inv)
  then show "nc_inv nc'" "same_keys nc nc'" by simp_all
qed

lemma table_classify_keeps [inv_intros]:
  assumes inv: "tt_inv t" and c: "trd_table_classify t a s g = Some (c, t')"
  shows "tt_inv t'" "tt_num t' = tt_num t"
    "rel_option same_keys (tt_lookup t b) (tt_lookup t' b)"
    "b \<noteq> a \<Longrightarrow> tt_lookup t' b = tt_lookup t b"
proof -
  have "tt_inv t' \<and> tt_num t' = tt_num t \<and> rel_option same_keys (tt_lookup t b) (tt_lookup t' b)
    \<and> (b \<noteq> a \<longrightarrow> tt_lookup t' b = tt_lookup t b)"
  proof (cases rule: get_origin_cases [OF inv, of a])
    case 1
    then have "t' = t" using c by (simp add: trd_table_classify_def)
    then show ?thesis using inv by (simp add: option.rel_refl)
  next
    case (2 i)
    then obtain nc' where n: "nodecache_classifySeqno (tt_ncache t ! i) s g = Some (c, nc')"
      "t' = t\<lparr>tt_ncache := (tt_ncache t)[i := nc']\<rparr>"
      using c by (auto simp: trd_table_classify_def split: bind_splits)
    then have k: "nc_inv nc'" "same_keys (tt_ncache t ! i) nc'"
      using nodecache_classify_keeps 2 by blast+
    then have o: "nc_origin nc' = nc_origin (tt_ncache t ! i)" by (simp add: same_keys_def)
    from tt_replace [OF inv 2(1) k(1) o] show ?thesis
      using 2 o k by (auto simp: n(2) option.rel_refl)
  qed
  then show "tt_inv t'" "tt_num t' = tt_num t"
    "rel_option same_keys (tt_lookup t b) (tt_lookup t' b)"
    "b \<noteq> a \<Longrightarrow> tt_lookup t' b = tt_lookup t b" by simp_all
qed

definition fresh_cache :: "TRD_Table \<Rightarrow> u16 \<Rightarrow> TRD_NodeCache" where
  "fresh_cache t a = (nodecache_init (tt_ncache t ! tt_num t))\<lparr>nc_origin := a\<rparr>"

lemma fresh_cache_simps [simp]:
  "nc_inv (fresh_cache t a)" "nc_origin (fresh_cache t a) = a" "live (fresh_cache t a) = []"
  by (simp_all add: fresh_cache_def)

lemma tt_append:
  assumes inv: "tt_inv t" and n: "tt_num t < 5" and nc: "nc_inv nc" "tt_lookup t (nc_origin nc) = None"
  defines "t' \<equiv> t\<lparr>tt_ncache := (tt_ncache t)[tt_num t := nc], tt_num := tt_num t + 1\<rparr>"
  shows "tt_inv t'" "tt_lookup t' = (tt_lookup t)(nc_origin nc \<mapsto> nc)"
proof -
  have live: "tlive t' = tlive t @ [nc]"
    using inv n by (simp add: t'_def tlive_def tt_inv_def take_list_update_last)
  show inv': "tt_inv t'"
    using inv n nc by (auto simp: tt_inv_def live tt_lookup_None tt_origins_def)
      (simp_all add: t'_def)
  show "tt_lookup t' = (tt_lookup t)(nc_origin nc \<mapsto> nc)"
  proof
    fix b
    show "tt_lookup t' b = ((tt_lookup t)(nc_origin nc \<mapsto> nc)) b"
      using nc(2) by (auto simp: tt_lookup_def live find_snoc split: option.splits)
  qed
qed

text \<open>
  An insertion that returns: an unknown origin in a full table changes nothing; otherwise the cache
  of the origin (a fresh one, if it is unknown) is replaced by the result of the insertion there.
\<close>

lemma table_insert_spec:
  assumes inv: "tt_inv t"
  shows "trd_table_insert t a s m g =
      (if tt_lookup t a = None \<and> tt_num t = 5 then Some (0, t)
       else let k = (if tt_lookup t a = None then tt_num t else nat (get_origin_index t a));
                old = (case tt_lookup t a of None \<Rightarrow> fresh_cache t a | Some nc \<Rightarrow> nc)
            in map_option (\<lambda>(r, nc). (r, t\<lparr>tt_ncache := (tt_ncache t)[k := nc],
                  tt_num := tt_num t + (if tt_lookup t a = None then 1 else 0)\<rparr>))
                (nodecache_insert old s m g))"
proof (cases rule: get_origin_cases [OF inv, of a])
  case 1
  have "tt_num t \<le> 5" "length (tt_ncache t) = 5" using inv by (simp_all add: tt_inv_def)
  with 1 show ?thesis
    by (auto simp: trd_table_insert_def consts_defs fresh_cache_def Let_def
        split: option.splits prod.splits bind_splits)
next
  case (2 i)
  then show ?thesis
    by (auto simp: trd_table_insert_def Let_def split: option.splits prod.splits bind_splits)
qed

lemma table_insert_cases:
  assumes inv: "tt_inv t" and ins: "trd_table_insert t a s m g = Some (r, t')"
  obtains (full) "tt_lookup t a = None" "tt_num t = 5" "r = 0" "t' = t"
  | (new) nc where "tt_lookup t a = None" "tt_num t < 5" "r = 1" "tt_num t' = tt_num t + 1"
      "nodecache_insert (fresh_cache t a) s m g = Some (1, nc)" "nc_inv nc" "nc_origin nc = a"
      "tt_inv t'" "tt_lookup t' = (tt_lookup t)(a \<mapsto> nc)"
      "live nc = [\<lparr>ce_memloc = m, ce_seqno = s, ce_age = g\<rparr>]"
  | (known) nc0 nc where "tt_lookup t a = Some nc0" "tt_num t' = tt_num t"
      "nodecache_insert nc0 s m g = Some (r, nc)" "nc_inv nc" "nc_origin nc = a"
      "tt_inv t'" "tt_lookup t' = (tt_lookup t)(a \<mapsto> nc)"
proof (cases "tt_lookup t a")
  case None
  have le: "tt_num t \<le> 5" using inv by (simp add: tt_inv_def)
  show thesis
  proof (cases "tt_num t = 5")
    case True
    then show thesis using full None ins by (simp add: table_insert_spec [OF inv])
  next
    case False
    then have lt: "tt_num t < 5" using le by simp
    obtain nc where n: "nodecache_insert (fresh_cache t a) s m g = Some (r, nc)"
      "t' = t\<lparr>tt_ncache := (tt_ncache t)[tt_num t := nc], tt_num := tt_num t + 1\<rparr>"
      using ins False None by (auto simp: table_insert_spec [OF inv] Let_def)
    have i: "nc_inv nc" "nc_origin nc = a" using nodecache_insert_inv [OF _ n(1)] by simp_all
    have r: "r = 1 \<and> live nc = [\<lparr>ce_memloc = m, ce_seqno = s, ce_age = g\<rparr>]"
    proof (cases rule: nodecache_insert_cases [OF fresh_cache_simps(1) [of t a], of s m g])
      case (3 i nc')
      then show ?thesis using length_live [OF fresh_cache_simps(1), of t a] by simp
    qed (use n in \<open>auto simp: nc_seqnos_def dest: length_live [symmetric]\<close>)
    show thesis
      using new [of nc] None lt n i r tt_append [OF inv lt i(1)] by simp
  qed
next
  case (Some nc0)
  from get_origin_cases [OF inv, of a] Some obtain i where i: "i < tt_num t"
    "get_origin_index t a = int i" "tt_ncache t ! i = nc0" "nc_origin nc0 = a" "nc_inv nc0"
    by (metis option.inject option.distinct(1))
  obtain nc where n: "nodecache_insert nc0 s m g = Some (r, nc)"
    "t' = t\<lparr>tt_ncache := (tt_ncache t)[i := nc]\<rparr>"
    using ins Some i by (auto simp: table_insert_spec [OF inv] Let_def)
  have k: "nc_inv nc" "nc_origin nc = a" using nodecache_insert_inv [OF i(5) n(1)] i by simp_all
  show thesis
    using known [of nc0 nc] Some n k i tt_replace [OF inv i(1) k(1)] by simp
qed

section \<open>Removal and ageing\<close>

lemma remove_index_tlive:
  assumes "length (tt_ncache t) = 5" "tt_num t \<le> 5" "i < tt_num t"
  defines "t' \<equiv> snd (trd_table_remove_node_index t (int i))"
  shows "tlive t' = swap_remove i (tlive t)" "tt_num t' = tt_num t - 1" "length (tt_ncache t') = 5"
proof -
  let ?l = "tt_num t - 1" and ?xs = "tt_ncache t"
  have l: "tt_num t = Suc ?l" "?l < length ?xs" using assms by simp_all
  have num: "tt_num t' = ?l" by (simp add: t'_def trd_table_remove_node_index_def Let_def)
  have "tlive t = take ?l ?xs @ [?xs ! ?l]"
    unfolding tlive_def by (subst l(1)) (rule take_Suc_conv_app_nth [OF l(2)])
  then have last: "last (tlive t) = ?xs ! ?l" by simp
  have "tlive t' = take ?l (?xs[i := ?xs ! ?l])"
    by (auto simp: t'_def trd_table_remove_node_index_def tlive_def Let_def)
  also have "\<dots> = swap_remove i (tlive t)"
    using l by (simp add: swap_remove_def last butlast_list_update)
      (simp add: tlive_def take_update_swap butlast_take)
  finally show "tlive t' = swap_remove i (tlive t)" .
  show "tt_num t' = tt_num t - 1" by (fact num)
  show "length (tt_ncache t') = 5"
    using assms by (simp add: t'_def trd_table_remove_node_index_def Let_def)
qed

lemma tt_remove:
  assumes inv: "tt_inv t" and i: "i < tt_num t"
  defines "t' \<equiv> snd (trd_table_remove_node_index t (int i))"
  shows "tt_inv t'" "tt_num t' = tt_num t - 1"
    "tt_lookup t' = (tt_lookup t)(nc_origin (tt_ncache t ! i) := None)"
proof -
  let ?v = "tlive t ! i"
  have len: "length (tt_ncache t) = 5" "tt_num t \<le> 5" using inv by (simp_all add: tt_inv_def)
  note r = remove_index_tlive [OF len i, folded t'_def]
  have ms: "add_mset ?v (mset (tlive t')) = mset (tlive t)"
    using mset_swap_remove [of i "tlive t"] i inv r(1) by simp
  have d: "distinct (map nc_origin (?v # tlive t'))"
    using distinct_map_mset [of "?v # tlive t'" "tlive t" nc_origin] ms inv by (simp add: tt_inv_def)
  have set: "set (tlive t) = insert ?v (set (tlive t'))"
    using ms by (metis set_mset_add_mset_insert set_mset_mset)
  show inv': "tt_inv t'"
    using inv d set r by (auto simp: tt_inv_def)
  show "tt_num t' = tt_num t - 1" by (fact r(2))
  show "tt_lookup t' = (tt_lookup t)(nc_origin (tt_ncache t ! i) := None)"
  proof
    fix b
    show "tt_lookup t' b = ((tt_lookup t)(nc_origin (tt_ncache t ! i) := None)) b"
    proof (cases "tt_lookup t' b")
      case None
      then show ?thesis
        using set i by (auto simp: tt_lookup_None tt_origins_def nth_tlive)
          (metis (no_types, lifting) imageI tt_lookup_None tt_origins_def insertE image_insert)
    next
      case (Some nc)
      then have "nc \<in> set (tlive t)" "nc_origin nc = b" "b \<noteq> nc_origin ?v"
        using inv' set d by (auto simp: tt_lookup_Some) (metis imageI)
      then have "tt_lookup t b = Some nc" using inv by (simp add: tt_lookup_Some)
      with Some \<open>b \<noteq> nc_origin ?v\<close> i show ?thesis by (simp add: nth_tlive)
    qed
  qed
qed

lemma table_removeNode_spec:
  fixes a :: u16
  assumes "tt_inv t"
  defines "t' \<equiv> snd (trd_table_removeNode t a)"
  shows "tt_inv t'" "tt_lookup t' = (tt_lookup t)(a := None)"
    "tt_num t' = (if tt_lookup t a = None then tt_num t else tt_num t - 1)"
proof -
  have "tt_inv t' \<and> tt_lookup t' = (tt_lookup t)(a := None) \<and>
    tt_num t' = (if tt_lookup t a = None then tt_num t else tt_num t - 1)"
  proof (cases rule: get_origin_cases [OF assms(1), of a])
    case 1
    then have "t' = t" by (simp add: t'_def trd_table_removeNode_def trd_table_remove_node_index_def)
    then show ?thesis using 1 assms(1) by auto
  next
    case (2 i)
    then show ?thesis
      using tt_remove [OF assms(1) 2(1)] by (simp add: t'_def trd_table_removeNode_def)
  qed
  then show "tt_inv t'" "tt_lookup t' = (tt_lookup t)(a := None)"
    "tt_num t' = (if tt_lookup t a = None then tt_num t else tt_num t - 1)" by simp_all
qed

text \<open>Ageing keeps a cache exactly when its newest packet is not too old afterwards.\<close>

definition young_cache :: "TRD_NodeCache \<Rightarrow> bool" where
  "young_cache nc \<longleftrightarrow> \<not> nodecache_findNewestAge nc > TRD_AGE_DELETE_OLD"

lemma table_age_loop_mset:
  "length (tt_ncache t) = 5 \<Longrightarrow> tt_num t \<le> 5 \<Longrightarrow> i \<le> tt_num t \<Longrightarrow>
    length (tt_ncache (table_age_loop t i)) = 5 \<and> tt_num (table_age_loop t i) \<le> tt_num t \<and>
    mset (tlive (table_age_loop t i)) = mset (take i (tlive t))
      + filter_mset young_cache (image_mset nodecache_incrementAge (mset (drop i (tlive t))))"
proof (induction t i rule: table_age_loop.induct)
  case (1 t i)
  let ?nc = "nodecache_incrementAge (tt_ncache t ! i)"
  let ?t = "t\<lparr>tt_ncache := (tt_ncache t)[i := ?nc]\<rparr>"
  show ?case
  proof (cases "i < tt_num t")
    case False
    then show ?thesis using 1 by (simp add: table_age_loop.simps [of t] tlive_def)
  next
    case True
    have l: "length (tlive t) = tt_num t" using 1 by (simp add: tlive_def)
    have live: "tlive ?t = (tlive t)[i := ?nc]" by (simp add: tlive_def take_update_swap)
    have drop: "drop i (tlive t) = tt_ncache t ! i # drop (Suc i) (tlive t)"
      using True l by (simp add: Cons_nth_drop_Suc [symmetric] nth_tlive)
    show ?thesis
    proof (cases "young_cache ?nc")
      case False
      let ?t' = "snd (trd_table_remove_node_index ?t (int i))"
      have r: "tlive ?t' = swap_remove i (tlive ?t)" "tt_num ?t' = tt_num t - 1"
          "length (tt_ncache ?t') = 5"
        using remove_index_tlive [of ?t i] 1 True by simp_all
      have step: "table_age_loop t i = table_age_loop ?t' i"
        using True False by (simp add: table_age_loop.simps [of t i] young_cache_def)
      have "take i (tlive ?t') = take i (tlive t)"
        using True l by (simp add: r live take_swap_remove)
      moreover have "mset (drop i (tlive ?t')) = mset (drop (Suc i) (tlive t))"
        using True l by (simp add: r live mset_drop_swap_remove drop_update_swap)
      moreover have old: "nodecache_findNewestAge ?nc > TRD_AGE_DELETE_OLD"
        using False by (simp add: young_cache_def)
      moreover have le: "tt_num ?t' \<le> 5" "i \<le> tt_num ?t'" using 1 True r(2) by linarith+
      moreover note IH = 1(1) [OF True refl refl old r(3) le]
      ultimately show ?thesis
        using 1 True False r(2) unfolding step drop by auto
    next
      case young: True
      have step: "table_age_loop t i = table_age_loop ?t (i + 1)"
        using True young by (simp add: table_age_loop.simps [of t i] young_cache_def)
      have "take (i + 1) (tlive ?t) = take i (tlive t) @ [?nc]"
        using True l by (simp add: live take_list_update_last)
      moreover have "drop (i + 1) (tlive ?t) = drop (Suc i) (tlive t)"
        by (simp add: live)
      ultimately show ?thesis
        using 1(2) [OF True refl refl] 1 True young unfolding step drop
        by (simp add: young_cache_def)
    qed
  qed
qed

lemma table_incrementAge_spec:
  assumes inv: "tt_inv t"
  defines "t' \<equiv> trd_table_incrementAge t"
  shows "tt_inv t'" "tt_num t' \<le> tt_num t"
    "tt_lookup t' a = (case tt_lookup t a of None \<Rightarrow> None
      | Some nc \<Rightarrow> if young_cache (nodecache_incrementAge nc) then Some (nodecache_incrementAge nc) else None)"
proof -
  have r: "length (tt_ncache t') = 5" "tt_num t' \<le> tt_num t"
    "mset (tlive t') = filter_mset young_cache (image_mset nodecache_incrementAge (mset (tlive t)))"
    using table_age_loop_mset [of t 0] inv by (simp_all add: t'_def trd_table_incrementAge_def tt_inv_def)
  then have ms: "mset (tlive t') = mset (filter young_cache (map nodecache_incrementAge (tlive t)))"
    by simp
  have "distinct (map nc_origin (filter young_cache (map nodecache_incrementAge (tlive t))))"
    using inv by (intro distinct_map_filter) (simp add: comp_def frame_simps tt_inv_def)
  then have d: "distinct (map nc_origin (tlive t'))" by (simp only: distinct_map_mset [OF ms])
  have set: "set (tlive t') = {nc \<in> nodecache_incrementAge ` set (tlive t). young_cache nc}"
    using arg_cong [OF ms, of set_mset] by simp
  show inv': "tt_inv t'"
    using r d inv by (auto simp: tt_inv_def set nodecache_incrementAge_inv)
  show "tt_num t' \<le> tt_num t" by (fact r)
  show "tt_lookup t' a = (case tt_lookup t a of None \<Rightarrow> None
    | Some nc \<Rightarrow> if young_cache (nodecache_incrementAge nc) then Some (nodecache_incrementAge nc) else None)"
  proof (cases "tt_lookup t a")
    case None
    then have "tt_lookup t' a = None"
      by (auto simp: tt_lookup_None tt_origins_def set frame_simps)
    with None show ?thesis by simp
  next
    case (Some nc)
    then have nc: "nc \<in> set (tlive t)" "nc_origin nc = a" using inv by (simp_all add: tt_lookup_Some)
    have uniq: "x = nc" if "x \<in> set (tlive t)" "nc_origin x = a" for x
      using that Some inv by (metis option.inject tt_lookup_Some)
    show ?thesis
    proof (cases "young_cache (nodecache_incrementAge nc)")
      case True
      then have "tt_lookup t' a = Some (nodecache_incrementAge nc)"
        using nc inv' by (simp add: tt_lookup_Some set frame_simps)
      with Some True show ?thesis by simp
    next
      case False
      then have "tt_lookup t' a = None"
        using uniq by (auto simp: tt_lookup_None tt_origins_def set frame_simps)
      with Some False show ?thesis by simp
    qed
  qed
qed

section \<open>Summaries\<close>

lemma length_put_meta [simp]: "length (put_meta b k a s g) = length b"
  by (simp add: put_meta_def)

lemma get_put_meta:
  assumes "6 + 6 * k + 6 \<le> length b"
  shows "get_meta (put_meta b k a s g) j = (if j = k then (a, s, g) else get_meta b j)"
proof (cases "j = k")
  case True
  then show ?thesis using assms by (simp add: get_meta_def put_meta_def get16be_def get8_puts)
next
  case False
  then have "6 + 6 * j + n \<noteq> 6 + 6 * k + m" if "n < 6" "m < 6" for n m using that by presburger
  from this [of 0] this [of 1] this [of 2] this [of 3] this [of 4] this [of 5] False show ?thesis
    by (simp add: get_meta_def put_meta_def get16be_def get8_puts)
qed

lemma get8_put_meta: "i < 6 \<Longrightarrow> get8 (put_meta b k a s g) i = get8 b i"
  by (simp add: put_meta_def get8_puts)

text \<open>The entries a summary should hold.\<close>

definition summary_of :: "TRD_NodeCache \<Rightarrow> u16 \<times> u16 \<times> u16" where
  "summary_of nc = (nc_origin nc, nodecache_getLastSeqno nc)"

definition summarized :: "bool \<Rightarrow> TRD_NodeCache \<Rightarrow> bool" where
  "summarized ignore_old nc \<longleftrightarrow> fst (nodecache_getLastSeqno nc) \<noteq> TRD_SEQNO_UNKNOWN
     \<and> (\<not> ignore_old \<or> snd (nodecache_getLastSeqno nc) < TRD_AGE_NO_SUMMARY)"

definition summary_entries :: "TRD_Table \<Rightarrow> bool \<Rightarrow> (u16 \<times> u16 \<times> u16) list" where
  "summary_entries t ignore_old = map summary_of (filter (summarized ignore_old) (tlive t))"

lemma summarize_loop_spec:
  "n + length ncs \<le> 5 \<Longrightarrow> 36 \<le> length b \<Longrightarrow> summarize_loop ncs ig b n = (b', n') \<Longrightarrow>
    n' = n + length (filter (summarized ig) ncs) \<and> length b' = length b
    \<and> (\<forall>j < n. get_meta b' j = get_meta b j) \<and> (\<forall>i < 6. get8 b' i = get8 b i)
    \<and> (\<forall>j < length (filter (summarized ig) ncs). get_meta b' (n + j)
          = summary_of (filter (summarized ig) ncs ! j))"
proof (induction ncs arbitrary: b n)
  case (Cons nc ncs)
  obtain s g where sg: "nodecache_getLastSeqno nc = (s, g)" by (cases "nodecache_getLastSeqno nc")
  have step: "summarize_loop (nc # ncs) ig b n =
      (if summarized ig nc then (let b' = put_meta b n (nc_origin nc) s g
          in if n + 1 = 5 then (b', n + 1) else summarize_loop ncs ig b' (n + 1))
       else summarize_loop ncs ig b n)"
    by (simp add: summarized_def sg consts_defs)
  show ?case
  proof (cases "summarized ig nc")
    case False
    then show ?thesis using Cons.IH [of n b] Cons.prems step by simp
  next
    case True
    let ?b = "put_meta b n (nc_origin nc) s g"
    have so: "summary_of nc = (nc_origin nc, s, g)" by (simp add: summary_of_def sg)
    have put: "get_meta ?b j = (if j = n then summary_of nc else get_meta b j)" for j
      using Cons.prems by (simp add: get_put_meta so)
    show ?thesis
    proof (cases "n + 1 = 5")
      case last: True
      then have "ncs = []" using Cons.prems by simp
      then show ?thesis
        using True last Cons.prems put step by (auto simp: get8_put_meta)
    next
      case False
      then have "summarize_loop ncs ig ?b (n + 1) = (b', n')"
        using Cons.prems True False by (simp only: step Let_def if_True if_False)
      from Cons.IH [OF _ _ this] Cons.prems have IH: "n' = n + 1 + length (filter (summarized ig) ncs)"
        "length b' = length b" "\<forall>j < n + 1. get_meta b' j = get_meta ?b j"
        "\<forall>i < 6. get8 b' i = get8 ?b i" "\<forall>j < length (filter (summarized ig) ncs).
          get_meta b' (n + 1 + j) = summary_of (filter (summarized ig) ncs ! j)"
        by auto
      have "get_meta b' (n + j) = summary_of ((nc # filter (summarized ig) ncs) ! j)"
        if "j < Suc (length (filter (summarized ig) ncs))" for j
        using that IH(3,5) put by (cases j) (auto simp: less_Suc_eq)
      with IH True put show ?thesis by (auto simp: get8_put_meta)
    qed
  qed
qed simp

lemma trd_table_summarize_spec:
  assumes "tt_inv t" "36 \<le> length b" "trd_table_summarize t b ig = (r, b', len)"
  shows "length b' = length b" "sint (get8 b' 2) = int (length (summary_entries t ig))"
    "len = 6 + 6 * length (summary_entries t ig)" "r \<longleftrightarrow> summary_entries t ig \<noteq> []"
    "\<forall>j < length (summary_entries t ig). get_meta b' j = summary_entries t ig ! j"
    "length (summary_entries t ig) \<le> 5"
proof -
  obtain b0 n where l: "summarize_loop (tlive t) ig b 0 = (b0, n)"
    by (cases "summarize_loop (tlive t) ig b 0")
  have num: "length (tlive t) \<le> 5" using assms(1) by (simp add: tt_inv_def tlive_def)
  have le: "length (filter (summarized ig) (tlive t)) \<le> 5"
    using num length_filter_le [of "summarized ig" "tlive t"] by linarith
  have s: "n = length (summary_entries t ig)" "length b0 = length b"
    "\<forall>j < n. get_meta b0 j = summary_entries t ig ! j"
    using summarize_loop_spec [OF _ assms(2) l] num by (auto simp: summary_entries_def)
  have b': "b' = put8 b0 2 (of_nat n)" "r = (n \<noteq> 0)" "len = 6 + n * 6"
    using assms(3) l by (auto simp: trd_table_summarize_def)
  have n5: "n \<le> 5" using le s(1) by (simp add: summary_entries_def)
  show "length b' = length b" using b' s by simp
  have "2 < length b0" using s assms(2) by simp
  then have "get8 b' 2 = of_nat n" by (simp add: b' get8_put8)
  moreover have "sint (of_nat n :: u8) = int n"
    using n5 by (simp add: le_Suc_eq numeral_eq_Suc) auto
  ultimately show "sint (get8 b' 2) = int (length (summary_entries t ig))" using s by simp
  show "len = 6 + 6 * length (summary_entries t ig)" "r \<longleftrightarrow> summary_entries t ig \<noteq> []"
    using b' s by auto
  have "get_meta b' j = get_meta b0 j" for j
    by (simp add: b' get_meta_def get16be_def get8_put8)
  with s show "\<forall>j < length (summary_entries t ig). get_meta b' j = summary_entries t ig ! j" by simp
  show "length (summary_entries t ig) \<le> 5" using n5 s by simp
qed

section \<open>Ignoring a summary\<close>

lemma ignore_scan_eq:
  "ignore_scan b a i r j = (if r \<noteq> 0 \<and> a = get16be b (6 + 6 * i) then j else j + r)"
  by (induction r arbitrary: j) auto

lemma ignore_loop_spec:
  assumes "0 < sint (get8 b 2)"
  shows "ignore_loop ncs b i \<longleftrightarrow>
    (\<forall>k < length ncs. nc_origin (ncs ! k) = fst (get_meta b (i + k))
        \<or> TRD_AGE_IGNORE_OLD \<le> nodecache_findNewestAge (ncs ! k))"
proof (induction ncs arbitrary: i)
  case (Cons nc ncs)
  have "ignore_loop (nc # ncs) b i \<longleftrightarrow>
    (nc_origin nc = get16be b (6 + 6 * i) \<or> TRD_AGE_IGNORE_OLD \<le> nodecache_findNewestAge nc)
    \<and> ignore_loop ncs b (i + 1)"
    using assms by (auto simp: ignore_scan_eq Let_def not_less)
  then show ?case
    unfolding Cons.IH by (auto simp: get_meta_def less_Suc_eq_0_disj)
qed simp

section \<open>The contract the dissemination state relies on\<close>

definition in_map :: "(u16 \<Rightarrow> TRD_NodeCache option) \<Rightarrow> u16 \<Rightarrow> u16 \<Rightarrow> bool" where
  "in_map f a s \<longleftrightarrow> (\<exists>nc. f a = Some nc \<and> s \<in> nc_seqnos nc)"

locale cache_map =
  fixes lookup :: "'t \<Rightarrow> u16 \<Rightarrow> TRD_NodeCache option"
    and inv :: "'t \<Rightarrow> bool"
    and classify :: "'t \<Rightarrow> u16 \<Rightarrow> u16 \<Rightarrow> u16 \<Rightarrow> (trd_class \<times> 't) option"
    and insert :: "'t \<Rightarrow> u16 \<Rightarrow> u16 \<Rightarrow> u16 \<Rightarrow> u16 \<Rightarrow> (u8 \<times> 't) option"
    and remove :: "'t \<Rightarrow> u16 \<Rightarrow> 't"
    and age :: "'t \<Rightarrow> 't"
  assumes classify_keeps: "inv t \<Longrightarrow> classify t a s g = Some (c, t') \<Longrightarrow>
      inv t' \<and> rel_option same_keys (lookup t b) (lookup t' b)"
    and insert_lookup: "inv t \<Longrightarrow> insert t a s m g = Some (r, t') \<Longrightarrow> inv t' \<and>
      (b \<noteq> a \<longrightarrow> lookup t' b = lookup t b) \<and>
      (r = 1 \<longrightarrow> (\<exists>nc. lookup t' a = Some nc \<and> nc_inv nc
         \<and> nc_lookup nc s = Some \<lparr>ce_memloc = m, ce_seqno = s, ce_age = g\<rparr>))"
    and remove_lookup: "inv t \<Longrightarrow> inv (remove t a) \<and> lookup (remove t a) = (lookup t)(a := None)"
    and age_lookup: "inv t \<Longrightarrow> inv (age t) \<and> lookup (age t) b = (case lookup t b of None \<Rightarrow> None
      | Some nc \<Rightarrow> if young_cache (nodecache_incrementAge nc)
                   then Some (nodecache_incrementAge nc) else None)"
    and caches_inv: "inv t \<Longrightarrow> lookup t a = Some nc \<Longrightarrow> nc_inv nc \<and> nc_origin nc = a"
begin

lemma classify_in_map:
  assumes "inv t" "classify t a s g = Some (c, t')"
  shows "in_map (lookup t') b x = in_map (lookup t) b x"
proof -
  have "rel_option same_keys (lookup t b) (lookup t' b)" using classify_keeps [OF assms] by blast
  then show ?thesis
    by (cases "lookup t b"; cases "lookup t' b") (auto simp: in_map_def dest: same_keys_seqnos)
qed

lemma insert_in_map:
  assumes "inv t" "insert t a s m g = Some (1, t')"
  shows "in_map (lookup t') a s"
proof -
  obtain nc where "lookup t' a = Some nc" "nc_lookup nc s \<noteq> None"
    using insert_lookup [OF assms] by (metis option.distinct(1))
  then show ?thesis
    by (auto simp: in_map_def nc_lookup_def nc_seqnos_def find_None_iff)
qed

lemma remove_in_map: "inv t \<Longrightarrow> in_map (lookup (remove t a)) b x \<longleftrightarrow> b \<noteq> a \<and> in_map (lookup t) b x"
  by (simp add: in_map_def remove_lookup)

lemma age_in_map: "inv t \<Longrightarrow> in_map (lookup (age t)) b x \<Longrightarrow> in_map (lookup t) b x"
  using age_lookup [of t b] caches_inv [of t b]
  by (fastforce simp: in_map_def nc_seqnos_def live_incrementAge split: option.splits if_splits)

end

interpretation tab: cache_map tt_lookup tt_inv trd_table_classify trd_table_insert
  "\<lambda>t a. snd (trd_table_removeNode t a)" trd_table_incrementAge
proof (unfold_locales, goal_cases)
  case (1 t a s g c t' b)
  then show ?case using table_classify_keeps by blast
next
  case (2 t a s m g r t' b)
  show ?case
  proof (cases rule: table_insert_cases [OF 2])
    case 1
    then show ?thesis using 2 by simp
  next
    case (2 nc)
    then show ?thesis using nodecache_insert_lookup [OF fresh_cache_simps(1) 2(5)] by simp
  next
    case (3 nc0 nc)
    have "nc_inv nc0" using tt_lookup_inv [OF 2(1) 3(1)] by simp
    then have "r = 1 \<longrightarrow> nc_lookup nc s = Some \<lparr>ce_memloc = m, ce_seqno = s, ce_age = g\<rparr>"
      using nodecache_insert_lookup 3(3) by blast
    with 3 show ?thesis by simp
  qed
next
  case (3 t a)
  then show ?case using table_removeNode_spec(1,2) [OF 3, of a] by simp
next
  case (4 t b)
  then show ?case using table_incrementAge_spec [OF 4] by blast
next
  case (5 t a nc)
  then show ?case by (rule tt_lookup_inv)
qed

lemma trd_table_exist_iff: "tt_inv t \<Longrightarrow> trd_table_exist t a s \<longleftrightarrow> in_map (tt_lookup t) a s"
  by (auto simp: trd_table_lookups in_map_def nodecache_exist_iff tt_lookup_inv split: option.splits)

text \<open>An insertion makes the packet known unless the origin is unknown and the table full; a number
  that is refused as a duplicate is known already.\<close>

lemma table_insert_known:
  assumes inv: "tt_inv t" and ins: "trd_table_insert t a s m g = Some (q, t')"
    and room: "tt_lookup t a \<noteq> None \<or> tt_num t < 5"
  shows "in_map (tt_lookup t') a s"
proof (cases rule: table_insert_cases [OF inv ins])
  case 1
  then show ?thesis using room by simp
next
  case (2 nc)
  then show ?thesis by (simp add: in_map_def nc_seqnos_def)
next
  case (3 nc0 nc)
  have i0: "nc_inv nc0" using tt_lookup_inv [OF inv 3(1)] by simp
  have "s \<in> nc_seqnos nc"
    using nodecache_insert_cases [OF i0, of s m g]
  proof (cases rule: nodecache_insert_cases [OF i0, of s m g, case_names dup room evict undef])
    case (evict i nc')
    then show ?thesis
      using 3(3) length_live [OF i0] by (auto simp: nc_seqnos_def set_update_memI
          intro!: image_eqI [of _ _ "\<lparr>ce_memloc = m, ce_seqno = s, ce_age = g\<rparr>"])
  qed (use 3(3) in \<open>auto simp: nc_seqnos_def\<close>)
  with 3 show ?thesis by (simp add: in_map_def)
qed

lemma trd_table_getMemloc_Some:
  "tt_inv t \<Longrightarrow> trd_table_getMemloc t a s = Some m \<longleftrightarrow>
    (\<exists>nc e. tt_lookup t a = Some nc \<and> nc_lookup nc s = Some e \<and> ce_memloc e = m \<and> m \<noteq> TRD_NULL_MEMLOC)"
  by (auto simp: trd_table_lookups nodecache_getMemloc_eq tt_lookup_inv split: option.splits if_splits)

text \<open>The classification of a packet is that of the cache of its origin, which alone may change.\<close>

lemma table_classify_map:
  assumes inv: "tt_inv t"
  shows "map_option (\<lambda>(c, t2). (c, tt_lookup t2)) (trd_table_classify t a s g)
    = (case tt_lookup t a of None \<Rightarrow> Some (TRD_CLASS_NULL, tt_lookup t)
       | Some nc \<Rightarrow> map_option (\<lambda>(c, nc'). (c, (tt_lookup t)(a \<mapsto> nc'))) (nodecache_classifySeqno nc s g))"
proof (cases rule: get_origin_cases [OF inv, of a])
  case 1
  then show ?thesis by (simp add: trd_table_classify_def)
next
  case (2 i)
  show ?thesis
  proof (cases "nodecache_classifySeqno (tt_ncache t ! i) s g")
    case None
    then show ?thesis using 2 by (simp add: trd_table_classify_def)
  next
    case (Some x)
    obtain c nc' where x: "x = (c, nc')" by (cases x)
    have k: "nc_inv nc'" "same_keys (tt_ncache t ! i) nc'"
      using nodecache_classify_keeps Some x 2 by blast+
    then have o: "nc_origin nc' = nc_origin (tt_ncache t ! i)" by (simp add: same_keys_def)
    from tt_replace(2) [OF inv 2(1) k(1) o] show ?thesis using 2 Some x o by (simp add: trd_table_classify_def)
  qed
qed

section \<open>Properties\<close>

text \<open>
  C8: the table implements a map from origins to caches. A packet is classified by the cache of its
  origin, and as one of an unknown origin where there is none, with or without an end, and only this cache
  may change. An insertion that reports success makes
  the packet known with its place and age, touches no other origin and keeps the table well-formed;
  a removal forgets the one origin; ageing a table ages every cache once and forgets those whose
  newest packet is then older than \<open>TRD_AGE_DELETE_OLD\<close>, although it removes by swapping while it
  walks over the array.
\<close>

theorem trd_table_refines_map:
  assumes "tt_inv t"
  shows "map_option (\<lambda>(c, t2). (c, tt_lookup t2)) (trd_table_classify t a s g)
      = (case tt_lookup t a of None \<Rightarrow> Some (TRD_CLASS_NULL, tt_lookup t)
         | Some nc \<Rightarrow> map_option (\<lambda>(c, nc'). (c, (tt_lookup t)(a \<mapsto> nc'))) (nodecache_classifySeqno nc s g))
    \<and> (trd_table_insert t a s m g = Some (1, t1) \<longrightarrow>
        tt_inv t1 \<and> trd_table_getAge t1 a s = Some g \<and> trd_table_exist t1 a s
        \<and> (\<forall>b. b \<noteq> a \<longrightarrow> tt_lookup t1 b = tt_lookup t b))
    \<and> tt_lookup (snd (trd_table_removeNode t a)) = (tt_lookup t)(a := None)
    \<and> tt_lookup (trd_table_incrementAge t) = (\<lambda>b. case tt_lookup t b of None \<Rightarrow> None
        | Some nc \<Rightarrow> if nodecache_findNewestAge (nodecache_incrementAge nc) \<le> TRD_AGE_DELETE_OLD
                     then Some (nodecache_incrementAge nc) else None)"
proof (intro conjI impI)
  show "map_option (\<lambda>(c, t2). (c, tt_lookup t2)) (trd_table_classify t a s g)
      = (case tt_lookup t a of None \<Rightarrow> Some (TRD_CLASS_NULL, tt_lookup t)
         | Some nc \<Rightarrow> map_option (\<lambda>(c, nc'). (c, (tt_lookup t)(a \<mapsto> nc'))) (nodecache_classifySeqno nc s g))"
    by (rule table_classify_map [OF assms])
next
  assume ins: "trd_table_insert t a s m g = Some (1, t1)"
  show inv1: "tt_inv t1" using tab.insert_lookup [OF assms ins] by blast
  obtain nc where "tt_lookup t1 a = Some nc" "nc_inv nc"
    "nc_lookup nc s = Some \<lparr>ce_memloc = m, ce_seqno = s, ce_age = g\<rparr>"
    using tab.insert_lookup [OF assms ins] by blast
  then show "trd_table_getAge t1 a s = Some g"
    using inv1 by (simp add: trd_table_lookups nodecache_getAge_eq)
  show "trd_table_exist t1 a s"
    using tab.insert_in_map [OF assms ins] inv1 by (simp add: trd_table_exist_iff)
  show "\<forall>b. b \<noteq> a \<longrightarrow> tt_lookup t1 b = tt_lookup t b"
    using tab.insert_lookup [OF assms ins] by blast
next
  show "tt_lookup (snd (trd_table_removeNode t a)) = (tt_lookup t)(a := None)"
    using tab.remove_lookup [OF assms] by blast
  show "tt_lookup (trd_table_incrementAge t) = (\<lambda>b. case tt_lookup t b of None \<Rightarrow> None
      | Some nc \<Rightarrow> if nodecache_findNewestAge (nodecache_incrementAge nc) \<le> TRD_AGE_DELETE_OLD
                   then Some (nodecache_incrementAge nc) else None)"
    using tab.age_lookup [OF assms] unfolding young_cache_def not_less by (intro ext) blast
qed

definition sample_table :: TRD_Table where
  "sample_table = trd_table_init \<lparr>tt_num = 0,
     tt_ncache = replicate 5 \<lparr>nc_origin = 0, nc_num = 0, nc_cache = replicate 5 blank_entry\<rparr>\<rparr>"

lemma sample_table_inv [simp]: "tt_inv sample_table"
  unfolding sample_table_def by (rule trd_table_init_inv) simp

theorem trd_table_refines_map_witness:
  "trd_table_exist (snd (the (trd_table_insert sample_table 3 7 0 1))) 3 7"
proof -
  obtain t1 where "trd_table_insert sample_table 3 7 0 1 = Some (1, t1)"
    by (simp add: trd_table_insert_def sample_table_def trd_table_init_def get_origin_index_def
        tlive_def nodecache_insert_def find_index_def nodecache_init_def live_def consts_defs Let_def)
  with trd_table_refines_map [OF sample_table_inv, of 3 7 1 0 t1] show ?thesis by simp
qed

text \<open>
  A summary holds exactly one entry, read back without loss, for each origin whose newest
  packet is known and, if old ones are to be left out, younger than \<open>TRD_AGE_NO_SUMMARY\<close>; the count
  and the length fit.
\<close>

theorem trd_table_summary_readable:
  assumes "tt_inv t" "36 \<le> length b" "trd_table_summarize t b ig = (r, b', len)"
  shows "map (get_meta b') [0..<nat (sint (get8 b' 2))] =
      map (\<lambda>nc. (nc_origin nc, nodecache_getLastSeqno nc))
        (filter (\<lambda>nc. fst (nodecache_getLastSeqno nc) \<noteq> TRD_SEQNO_UNKNOWN
           \<and> (\<not> ig \<or> snd (nodecache_getLastSeqno nc) < TRD_AGE_NO_SUMMARY)) (tlive t))
    \<and> int len = 6 + 6 * sint (get8 b' 2) \<and> (r \<longleftrightarrow> get8 b' 2 \<noteq> 0)"
proof -
  note s = trd_table_summarize_spec [OF assms]
  let ?es = "summary_entries t ig"
  have "get8 b' 2 = 0 \<longleftrightarrow> ?es = []"
    using s(2) by (metis length_0_conv of_nat_eq_0_iff signed_0 signed_eq_0_iff)
  moreover have "map (get_meta b') [0..<length ?es] = ?es"
    using s(5) by (intro nth_equalityI) auto
  ultimately show ?thesis
    using s by (simp add: summary_entries_def summary_of_def [abs_def] summarized_def [abs_def])
qed

theorem trd_table_summary_readable_witness:
  "fst (trd_table_summarize sample_table (replicate 128 0) True) = False"
  using trd_table_summary_readable [OF sample_table_inv, of "replicate 128 0" True False
      "put8 (replicate 128 0) 2 0" 6]
  by (simp add: trd_table_summarize_def sample_table_def)

text \<open>
  Whether a received summary may be ignored is decided by position: the code compares the
  origin of the i-th cache with the i-th entry of the summary only, so a summary that mentions every
  origin in another order is not ignored.
\<close>

theorem trd_table_ignoreSummary_positional:
  assumes "tt_inv t" "0 < sint (get8 b 2)"
  shows "trd_table_ignoreSummary t b \<longleftrightarrow>
    (\<forall>k < tt_num t. nc_origin (tt_ncache t ! k) = fst (get_meta b k)
        \<or> TRD_AGE_IGNORE_OLD \<le> nodecache_findNewestAge (tt_ncache t ! k))"
  using assms by (simp add: trd_table_ignoreSummary_def ignore_loop_spec nth_tlive)

theorem trd_table_ignoreSummary_positional_witness:
  "trd_table_ignoreSummary sample_table (put8 (replicate 128 0) 2 1)"
  using trd_table_ignoreSummary_positional [OF sample_table_inv, of "put8 (replicate 128 0) 2 1"]
  by (simp add: get8_put8 sample_table_def trd_table_init_def)

end
