(* ===== verification/Trd_Memory.thy ===== *)
theory Trd_Memory
  imports Trd_Table
begin

text \<open>
  Model of src/master/trd/trd_memory.c: the ring of 25 packet slots of the master, the counterpart
  of a mote's flash. A slot keeps 128 bytes and the length that was written (an \<open>int\<close>); copying a
  packet leaves the bytes behind it alone. A negative result of the code is \<open>None\<close>.
\<close>

definition TRD_MEM_NUM_PKTS :: nat where
  [consts_defs]: "TRD_MEM_NUM_PKTS = TRD_NODE_ENTRIES * TRD_CACHE_ENTRIES_PER_NODE"

record TRD_MemoryEntry =
  mm_len :: int
  mm_packet :: bytes

record TRD_Memory =
  mem_array :: "TRD_MemoryEntry list"
  curr_mem_ptr :: int

definition trd_memory_init :: "TRD_Memory \<Rightarrow> TRD_Memory" where
  "trd_memory_init mem = mem\<lparr>
     mem_array := map (mm_len_update (\<lambda>_. 0)) (take TRD_MEM_NUM_PKTS (mem_array mem))
       @ drop TRD_MEM_NUM_PKTS (mem_array mem),
     curr_mem_ptr := 0\<rparr>"

definition trd_memory_write :: "TRD_Memory \<Rightarrow> bytes \<Rightarrow> int \<Rightarrow> (u16 \<times> TRD_Memory) option" where
  "trd_memory_write mem data len =
    (if curr_mem_ptr mem < 0 \<or> curr_mem_ptr mem \<ge> int TRD_MEM_NUM_PKTS then None
     else if len \<le> 0 \<or> len \<ge> 128 then None
     else
       let p = nat (curr_mem_ptr mem); e = mem_array mem ! p;
           e' = e\<lparr>mm_packet := take (nat len) data @ drop (nat len) (mm_packet e), mm_len := len\<rparr>;
           q = curr_mem_ptr mem + 1
       in Some (of_nat p, mem\<lparr>mem_array := (mem_array mem)[p := e'],
            curr_mem_ptr := (if q \<ge> int TRD_MEM_NUM_PKTS then 0 else q)\<rparr>))"

definition trd_memory_read :: "TRD_Memory \<Rightarrow> u16 \<Rightarrow> (bytes \<times> int) option" where
  "trd_memory_read mem memloc =
    (if unat memloc \<ge> TRD_MEM_NUM_PKTS then None
     else let e = mem_array mem ! unat memloc in
       if mm_len e \<le> 0 then None else Some (mm_packet e, mm_len e))"

section \<open>Invariant and laws\<close>

definition mem_inv :: "TRD_Memory \<Rightarrow> bool" where
  "mem_inv mem \<longleftrightarrow> length (mem_array mem) = 25 \<and> 0 \<le> curr_mem_ptr mem \<and> curr_mem_ptr mem < 25
    \<and> (\<forall>e \<in> set (mem_array mem). length (mm_packet e) = 128 \<and> mm_len e < 128)"

lemma mem_num_pkts [simp]: "TRD_MEM_NUM_PKTS = 25"
  by (simp add: consts_defs)

lemma trd_memory_init_inv:
  "length (mem_array mem) = 25 \<Longrightarrow> \<forall>e \<in> set (mem_array mem). length (mm_packet e) = 128 \<Longrightarrow>
    mem_inv (trd_memory_init mem)"
  by (auto simp: mem_inv_def trd_memory_init_def)

lemma trd_memory_write_cases:
  assumes inv: "mem_inv mem" and len: "len \<le> int (length data)"
  obtains (bad) "len \<le> 0 \<or> 128 \<le> len" "trd_memory_write mem data len = None"
  | (ok) mem' where "0 < len" "len < 128"
      "trd_memory_write mem data len = Some (of_nat (nat (curr_mem_ptr mem)), mem')" "mem_inv mem'"
      "trd_memory_read mem' (of_nat (nat (curr_mem_ptr mem)))
         = Some (take (nat len) data @ drop (nat len)
             (mm_packet (mem_array mem ! nat (curr_mem_ptr mem))), len)"
      "\<And>m. unat m \<noteq> nat (curr_mem_ptr mem) \<Longrightarrow> trd_memory_read mem' m = trd_memory_read mem m"
      "nat (curr_mem_ptr mem') = (nat (curr_mem_ptr mem) + 1) mod 25"
      "mem_array mem' = (mem_array mem)[nat (curr_mem_ptr mem) :=
         (mem_array mem ! nat (curr_mem_ptr mem))\<lparr>mm_packet := take (nat len) data @ drop (nat len)
             (mm_packet (mem_array mem ! nat (curr_mem_ptr mem))), mm_len := len\<rparr>]"
proof (cases "len \<le> 0 \<or> 128 \<le> len")
  case True
  then show thesis using bad inv by (simp add: trd_memory_write_def mem_inv_def)
next
  case False
  let ?p = "nat (curr_mem_ptr mem)"
  have p: "?p < 25" "length (mem_array mem) = 25" "0 \<le> curr_mem_ptr mem" "curr_mem_ptr mem < 25"
    using inv by (auto simp: mem_inv_def)
  let ?e = "mem_array mem ! ?p"
  let ?e' = "?e\<lparr>mm_packet := take (nat len) data @ drop (nat len) (mm_packet ?e), mm_len := len\<rparr>"
  define mem' where "mem' = mem\<lparr>mem_array := (mem_array mem)[?p := ?e'],
    curr_mem_ptr := (if curr_mem_ptr mem + 1 \<ge> 25 then 0 else curr_mem_ptr mem + 1)\<rparr>"
  have u: "unat (of_nat ?p :: u16) = ?p" using p(1) by (simp add: unat_of_nat_u16)
  have e: "?e \<in> set (mem_array mem)" using p by simp
  have "mem_inv mem'"
    using inv p False len e set_list_update_subset [of "mem_array mem" ?p ?e']
    by (auto simp: mem_inv_def mem'_def)
  moreover have "trd_memory_write mem data len = Some (of_nat (nat (curr_mem_ptr mem)), mem')"
    using p False by (simp add: trd_memory_write_def mem'_def Let_def)
  moreover have "nat (curr_mem_ptr mem') = (?p + 1) mod 25"
  proof -
    obtain n where "curr_mem_ptr mem = int n" "n < 25" using p by (metis nat_0_le)
    then show ?thesis by (cases "n = 24") (auto simp: mem'_def nat_add_distrib)
  qed
  ultimately show thesis
    using ok [of mem'] False p u by (simp add: trd_memory_read_def mem'_def)
qed

text \<open>A ring of packet slots: the contract of the store.\<close>

locale packet_ring =
  fixes wr :: "'m \<Rightarrow> bytes \<Rightarrow> int \<Rightarrow> (u16 \<times> 'm) option"
    and rd :: "'m \<Rightarrow> u16 \<Rightarrow> (bytes \<times> int) option"
    and inv :: "'m \<Rightarrow> bool"
    and ptr :: "'m \<Rightarrow> nat"
    and slots :: nat
  assumes write_ok: "inv m \<Longrightarrow> len \<le> int (length d) \<Longrightarrow> 0 < len \<Longrightarrow> len < 128 \<Longrightarrow>
      \<exists>m'. wr m d len = Some (of_nat (ptr m), m') \<and> inv m' \<and> ptr m' = (ptr m + 1) mod slots
        \<and> (\<exists>p. rd m' (of_nat (ptr m)) = Some (p, len) \<and> take (nat len) p = take (nat len) d)
        \<and> (\<forall>x. unat x \<noteq> ptr m \<longrightarrow> rd m' x = rd m x)"
    and ptr_less: "inv m \<Longrightarrow> ptr m < slots"
    and slots_small: "slots < 65536"
begin

text \<open>A packet survives the next \<open>slots - 1\<close> writes.\<close>

lemma survives:
  assumes "\<forall>(d, len) \<in> set ws. len \<le> int (length d) \<and> 0 < len \<and> len < 128"
  shows "inv m \<Longrightarrow> x < slots \<Longrightarrow> (\<forall>k < length ws. (ptr m + k) mod slots \<noteq> x) \<Longrightarrow>
    rd (fold (\<lambda>(d, len) m. snd (the (wr m d len))) ws m) (of_nat x) = rd m (of_nat x)"
  using assms
proof (induction ws arbitrary: m)
  case (Cons w ws)
  obtain d len where w: "w = (d, len)" by (cases w)
  obtain m' where m': "wr m d len = Some (of_nat (ptr m), m')" "inv m'"
    "ptr m' = (ptr m + 1) mod slots" "\<forall>x. unat x \<noteq> ptr m \<longrightarrow> rd m' x = rd m x"
    using write_ok [of m len d] Cons.prems w by auto
  have ne: "ptr m \<noteq> x" using Cons.prems ptr_less [of m] by (auto dest: spec [of _ 0])
  have "\<forall>k < length ws. (ptr m' + k) mod slots \<noteq> x"
    using Cons.prems(3) unfolding m'(3) by (auto simp: mod_add_left_eq dest: spec [of _ "Suc _"])
  then have "rd (fold (\<lambda>(d, len) m. snd (the (wr m d len))) ws m') (of_nat x) = rd m' (of_nat x)"
    using Cons.IH [of m'] Cons.prems m' by auto
  moreover have "unat (of_nat x :: u16) = x"
    using Cons.prems(2) slots_small by (simp add: unat_of_nat_u16)
  ultimately show ?case using m' ne by (simp add: w)
qed simp

end

interpretation ring: packet_ring trd_memory_write trd_memory_read mem_inv
  "\<lambda>m. nat (curr_mem_ptr m)" 25
proof (unfold_locales, goal_cases)
  case (1 m len d)
  show ?case
  proof (cases rule: trd_memory_write_cases [OF 1(1,2)])
    case (2 m')
    have "\<exists>p. trd_memory_read m' (of_nat (nat (curr_mem_ptr m))) = Some (p, len)
        \<and> take (nat len) p = take (nat len) d"
      unfolding 2(5) using 1(2,3) by simp
    with 2 show ?thesis by simp
  qed (use 1 in simp)
next
  case (2 m)
  then show ?case by (simp add: mem_inv_def nat_less_iff)
qed simp

lemma ring_gap: "x < 25 \<Longrightarrow> k < 24 \<Longrightarrow> (x + 1 + k) mod 25 \<noteq> (x :: nat)"
  by (cases "x + 1 + k < 25") (auto simp: mod_if)

section \<open>Properties\<close>

text \<open>
  What is written to the packet store is read back from the returned place, and keeps being
  read back from it as long as at most 24 further packets are written; the next one overwrites it,
  whether or not a table entry still names the place.
\<close>

theorem trd_memory_survives_24_writes:
  assumes inv: "mem_inv mem" and len: "0 < len" "len < 128" "len \<le> int (length d)"
    and ws: "\<forall>(d, len) \<in> set ws. len \<le> int (length d) \<and> 0 < len \<and> len < 128" "length ws \<le> 24"
  shows "\<exists>m mem' p. trd_memory_write mem d len = Some (m, mem')
    \<and> trd_memory_read (fold (\<lambda>(d, len) mem. snd (the (trd_memory_write mem d len))) ws mem') m
        = Some (p, len) \<and> take (nat len) p = take (nat len) d"
proof -
  let ?x = "nat (curr_mem_ptr mem)"
  obtain mem' p where w: "trd_memory_write mem d len = Some (of_nat ?x, mem')" "mem_inv mem'"
    "nat (curr_mem_ptr mem') = (?x + 1) mod 25" "trd_memory_read mem' (of_nat ?x) = Some (p, len)"
    "take (nat len) p = take (nat len) d"
    using ring.write_ok [OF inv len(3,1,2)] by blast
  have x: "?x < 25" using inv by (rule ring.ptr_less)
  have "(?x + 1 + k) mod 25 \<noteq> ?x" if "k < length ws" for k
    using ring_gap [OF x, of k] that ws(2) by simp
  then have "\<forall>k < length ws. (nat (curr_mem_ptr mem') + k) mod 25 \<noteq> ?x"
    unfolding w(3) by (simp add: mod_add_left_eq)
  from ring.survives [OF ws(1) w(2) x this] w show ?thesis
    by (intro exI [of _ "of_nat ?x"] exI [of _ mem'] exI [of _ p]) simp
qed

definition sample_mem :: TRD_Memory where
  "sample_mem = trd_memory_init
     \<lparr>mem_array = replicate 25 \<lparr>mm_len = 0, mm_packet = replicate 128 0\<rparr>, curr_mem_ptr = 0\<rparr>"

lemma sample_mem_inv [simp]: "mem_inv sample_mem"
  unfolding sample_mem_def by (rule trd_memory_init_inv) simp_all

theorem trd_memory_survives_24_writes_witness:
  "\<exists>m mem' p. trd_memory_write sample_mem [1, 2, 3] 3 = Some (m, mem')
    \<and> trd_memory_read (snd (the (trd_memory_write mem' [9] 1))) m = Some (p, 3)"
  using trd_memory_survives_24_writes [OF sample_mem_inv, of 3 "[1, 2, 3]" "[([9], 1)]"] by auto

end
