(* ===== verification/Timeval.thy ===== *)
theory Timeval
  imports Prelude
begin

text \<open>
  Model of src/master/include/timeval.c: arithmetic on \<open>struct timeval\<close>, which every timer of the
  master runs on. Seconds and microseconds are \<open>long\<close> in the code and \<open>int\<close> here (no value of the
  program comes near their bounds); intervals are \<open>unsigned long\<close> milliseconds, \<open>nat\<close> here. An
  output parameter is the result. \<open>usecs\<close> is the number a \<open>timeval\<close> stands for.
\<close>

record timeval =
  tv_sec :: int
  tv_usec :: int

text \<open>\<open>compare_timeval\<close>: 1, -1 or 0 by seconds first and microseconds next.\<close>

definition compare_timeval :: "timeval \<Rightarrow> timeval \<Rightarrow> int" where
  "compare_timeval a b =
    (if tv_sec a > tv_sec b then 1
     else if tv_sec a < tv_sec b then -1
     else if tv_usec a > tv_usec b then 1
     else if tv_usec a < tv_usec b then -1
     else 0)"

definition copy_timeval :: "timeval \<Rightarrow> timeval" where
  "copy_timeval src = \<lparr>tv_sec = tv_sec src, tv_usec = tv_usec src\<rparr>"

text \<open>The result is \<open>None\<close> where the code returns -1 and leaves the output alone.\<close>

definition subtract_timeval :: "timeval \<Rightarrow> timeval \<Rightarrow> timeval option" where
  "subtract_timeval to frm =
    (if compare_timeval to frm < 0 then None
     else let s = tv_sec to - tv_sec frm; u = tv_usec to - tv_usec frm
          in if u < 0 then Some \<lparr>tv_sec = s - 1, tv_usec = u + 1000000\<rparr>
             else Some \<lparr>tv_sec = s, tv_usec = u\<rparr>)"

definition add_timeval :: "timeval \<Rightarrow> timeval \<Rightarrow> timeval" where
  "add_timeval a b =
    (let s = tv_sec a + tv_sec b; u = tv_usec a + tv_usec b
     in if u > 1000000 then \<lparr>tv_sec = s + 1, tv_usec = u - 1000000\<rparr>
        else \<lparr>tv_sec = s, tv_usec = u\<rparr>)"

definition add_ms_to_timeval :: "timeval \<Rightarrow> nat \<Rightarrow> timeval" where
  "add_ms_to_timeval a interval_ms =
    (let s = tv_sec a + int (interval_ms div 1000);
         u = tv_usec a + int ((interval_ms mod 1000) * 1000)
     in if u > 1000000 then \<lparr>tv_sec = s + 1, tv_usec = u - 1000000\<rparr>
        else \<lparr>tv_sec = s, tv_usec = u\<rparr>)"

text \<open>C division of a non-negative value; the result is an \<open>unsigned long\<close>.\<close>

definition tv2ms :: "timeval \<Rightarrow> nat" where
  "tv2ms a = nat (tv_sec a * 1000 + tv_usec a div 1000)"

definition ms2tv :: "nat \<Rightarrow> timeval" where
  "ms2tv interval_ms =
    \<lparr>tv_sec = int (interval_ms div 1000), tv_usec = int ((interval_ms mod 1000) * 1000)\<rparr>"

definition clear_timeval :: timeval where
  "clear_timeval = \<lparr>tv_sec = 0, tv_usec = 0\<rparr>"

text \<open>The reading of the clock is the argument.\<close>

definition gettimeofday_ms :: "timeval \<Rightarrow> nat" where
  "gettimeofday_ms now = tv2ms now"

section \<open>What the operations compute\<close>

definition usecs :: "timeval \<Rightarrow> int" where
  "usecs t = 1000000 * tv_sec t + tv_usec t"

definition tv_ok :: "timeval \<Rightarrow> bool" where
  "tv_ok t \<longleftrightarrow> 0 \<le> tv_sec t \<and> 0 \<le> tv_usec t \<and> tv_usec t < 1000000"

text \<open>What the additions really give: the carry is taken only above a million.\<close>

definition tv_weak :: "timeval \<Rightarrow> bool" where
  "tv_weak t \<longleftrightarrow> 0 \<le> tv_sec t \<and> 0 \<le> tv_usec t \<and> tv_usec t \<le> 1000000"

lemma tv_ok_weak: "tv_ok t \<Longrightarrow> tv_weak t"
  by (simp add: tv_ok_def tv_weak_def)

lemma compare_timeval_range: "compare_timeval a b \<in> {-1, 0, 1}"
  by (simp add: compare_timeval_def)

lemma compare_timeval_refl [simp]: "compare_timeval a a = 0"
  by (simp add: compare_timeval_def)

lemma compare_timeval_antisym: "compare_timeval b a = - compare_timeval a b"
  by (simp add: compare_timeval_def)

lemma compare_timeval_usecs:
  assumes "tv_ok a" "tv_ok b"
  shows "compare_timeval a b = sgn (usecs a - usecs b)"
  using assms by (auto simp: compare_timeval_def usecs_def tv_ok_def sgn_if)

lemma compare_timeval_le_trans:
  "compare_timeval a b \<le> 0 \<Longrightarrow> compare_timeval b c \<le> 0 \<Longrightarrow> compare_timeval a c \<le> 0"
  by (auto simp: compare_timeval_def split: if_splits)

lemma usecs_add_timeval: "usecs (add_timeval a b) = usecs a + usecs b"
  by (simp add: usecs_def add_timeval_def Let_def)

lemma add_timeval_weak: "tv_ok a \<Longrightarrow> tv_ok b \<Longrightarrow> tv_weak (add_timeval a b)"
  by (auto simp: tv_ok_def tv_weak_def add_timeval_def Let_def)

lemma usecs_add_ms: "usecs (add_ms_to_timeval a ms) = usecs a + 1000 * int ms"
proof -
  have "int ms = 1000 * int (ms div 1000) + int (ms mod 1000)"
    by (metis mult_div_mod_eq of_nat_add of_nat_mult of_nat_numeral)
  then show ?thesis by (simp add: usecs_def add_ms_to_timeval_def Let_def)
qed

lemma add_ms_weak:
  assumes "tv_ok a"
  shows "tv_weak (add_ms_to_timeval a ms)"
proof -
  have "int ((ms mod 1000) * 1000) \<le> 999000"
    using mod_less_divisor [of 1000 ms] by linarith
  with assms show ?thesis
    by (auto simp: tv_ok_def tv_weak_def add_ms_to_timeval_def Let_def)
qed

lemma tv2ms_ms2tv [simp]: "tv2ms (ms2tv ms) = ms"
proof -
  have "int ms = 1000 * int (ms div 1000) + int (ms mod 1000)"
    by (metis mult_div_mod_eq of_nat_add of_nat_mult of_nat_numeral)
  then show ?thesis by (simp add: tv2ms_def ms2tv_def)
qed

lemma ms2tv_ok: "tv_ok (ms2tv ms)"
  using mod_less_divisor [of 1000 ms] by (simp add: tv_ok_def ms2tv_def)

lemma subtract_timeval_None: "subtract_timeval to frm = None \<longleftrightarrow> compare_timeval to frm < 0"
  by (auto simp: subtract_timeval_def Let_def)

lemma subtract_timeval_Some:
  assumes "tv_ok a" "tv_ok b" "subtract_timeval a b = Some r"
  shows "usecs r = usecs a - usecs b" "tv_ok r"
  using assms
  by (auto simp: subtract_timeval_def usecs_def tv_ok_def compare_timeval_def Let_def
      split: if_splits)

text \<open>
  An armed alarm: the polling loops treat \<open>(0, 0)\<close> as "not running".
\<close>

definition alarm_armed :: "timeval \<Rightarrow> bool" where
  "alarm_armed t \<longleftrightarrow> tv_sec t > 0 \<or> tv_usec t > 0"

definition alarm_due :: "timeval \<Rightarrow> timeval \<Rightarrow> bool" where
  "alarm_due t now \<longleftrightarrow> alarm_armed t \<and> compare_timeval t now \<le> 0"

lemma clear_timeval_not_armed [simp]: "\<not> alarm_armed clear_timeval"
  by (simp add: alarm_armed_def clear_timeval_def)

lemma clear_timeval_not_due [simp]: "\<not> alarm_due clear_timeval now"
  by (simp add: alarm_due_def)

lemma add_ms_armed: "tv_ok now \<Longrightarrow> 0 < ms \<Longrightarrow> alarm_armed (add_ms_to_timeval now ms)"
  using usecs_add_ms [of now ms]
  by (auto simp: alarm_armed_def tv_ok_def usecs_def)

text \<open>An alarm set \<open>ms\<close> ahead is not due before then.\<close>

lemma add_ms_not_due_before:
  assumes "tv_ok now" "tv_ok t" "usecs t + 1 < usecs now + 1000 * int ms"
  shows "\<not> alarm_due (add_ms_to_timeval now ms) t"
proof -
  let ?a = "add_ms_to_timeval now ms"
  have w: "tv_weak ?a" by (rule add_ms_weak [OF assms(1)])
  have u: "usecs ?a > usecs t + 1" using assms(3) by (simp add: usecs_add_ms)
  have "compare_timeval ?a t = 1"
    using w u assms(2)
    by (auto simp: compare_timeval_def usecs_def tv_weak_def tv_ok_def)
  then show ?thesis by (simp add: alarm_due_def)
qed

section \<open>Properties\<close>

text \<open>
  On normalised times, a difference exists exactly when it is not negative, and then it is the
  exact number of microseconds, normalised again.
\<close>

theorem subtract_timeval_exact:
  assumes "tv_ok a" "tv_ok b"
  shows "subtract_timeval a b =
    (if usecs a < usecs b then None
     else Some \<lparr>tv_sec = (usecs a - usecs b) div 1000000, tv_usec = (usecs a - usecs b) mod 1000000\<rparr>)"
proof (cases "compare_timeval a b < 0")
  case True
  then show ?thesis
    using compare_timeval_usecs [OF assms] by (simp add: subtract_timeval_def sgn_if split: if_splits)
next
  case False
  then obtain r where r: "subtract_timeval a b = Some r"
    using subtract_timeval_None [of a b] by (cases "subtract_timeval a b") auto
  have "usecs r div 1000000 = tv_sec r" "usecs r mod 1000000 = tv_usec r"
    using subtract_timeval_Some(2) [OF assms r] by (auto simp: usecs_def tv_ok_def)
  moreover have "\<not> usecs a < usecs b"
    using False compare_timeval_usecs [OF assms] by (simp add: sgn_if split: if_splits)
  ultimately show ?thesis using r subtract_timeval_Some [OF assms r] by simp
qed

theorem subtract_timeval_exact_witness:
  "subtract_timeval \<lparr>tv_sec = 5, tv_usec = 10\<rparr> \<lparr>tv_sec = 3, tv_usec = 20\<rparr>
    = Some \<lparr>tv_sec = 1, tv_usec = 999990\<rparr>"
  using subtract_timeval_exact [of "\<lparr>tv_sec = 5, tv_usec = 10\<rparr>" "\<lparr>tv_sec = 3, tv_usec = 20\<rparr>"]
  by (simp add: tv_ok_def usecs_def)

lemma mod_zero_two_laps:
  assumes "0 \<le> x" "x < 2 * (m :: int)"
  shows "x mod m = 0 \<longleftrightarrow> x = 0 \<or> x = m"
proof (cases "x < m")
  case True
  then show ?thesis using assms by simp
next
  case False
  then have "x mod m = x - m"
    using assms mod_pos_pos_trivial [of "x - m" m] minus_mod_self2 [of x m] by simp
  then show ?thesis using False assms by auto
qed

text \<open>
  Adding milliseconds to a normalised time is exact, but the carry is missed in exactly one
  case: when the microseconds come to a million, the result is not normalised.
\<close>

theorem add_ms_exact_unnormalised:
  assumes "tv_ok a"
  shows "usecs (add_ms_to_timeval a ms) = usecs a + 1000 * int ms
    \<and> (tv_ok (add_ms_to_timeval a ms) \<longleftrightarrow> (usecs a + 1000 * int ms) mod 1000000 \<noteq> 0
        \<or> tv_usec a = 0 \<and> ms mod 1000 = 0)"
proof -
  have e: "1000 * int ms = 1000000 * int (ms div 1000) + 1000 * int (ms mod 1000)"
    using mult_div_mod_eq [of 1000 ms] by linarith
  have m: "0 \<le> 1000 * int (ms mod 1000)" "1000 * int (ms mod 1000) \<le> 999000"
    using mod_less_divisor [of 1000 ms] by linarith+
  have u: "(usecs a + 1000 * int ms) mod 1000000 = (tv_usec a + 1000 * int (ms mod 1000)) mod 1000000"
  proof -
    have "usecs a + 1000 * int ms =
        tv_usec a + 1000 * int (ms mod 1000) + 1000000 * (tv_sec a + int (ms div 1000))"
      unfolding e usecs_def by (simp add: algebra_simps)
    then show ?thesis by (simp only: mod_mult_self2)
  qed
  have z: "(tv_usec a + 1000 * int (ms mod 1000)) mod 1000000 = 0 \<longleftrightarrow>
      tv_usec a + 1000 * int (ms mod 1000) = 0 \<or> tv_usec a + 1000 * int (ms mod 1000) = 1000000"
    using mod_zero_two_laps [of "tv_usec a + 1000 * int (ms mod 1000)" 1000000] assms m
    by (simp add: tv_ok_def)
  show ?thesis
    using usecs_add_ms [of a ms] assms m unfolding u z
    by (auto simp: add_ms_to_timeval_def Let_def tv_ok_def)
qed

theorem add_ms_exact_unnormalised_witness:
  "\<not> tv_ok (add_ms_to_timeval \<lparr>tv_sec = 7, tv_usec = 999000\<rparr> 1)"
  using add_ms_exact_unnormalised [of "\<lparr>tv_sec = 7, tv_usec = 999000\<rparr>" 1]
  by (simp add: tv_ok_def usecs_def)

end
