(* ===== verification/Trd_Timer.thy ===== *)
theory Trd_Timer
  imports Timeval
begin

text \<open>
  Model of src/master/trd/trd_timer.c (constants in src/mote/lib/trd/trickle_timer.h): the Trickle
  timer of the dissemination layer. The globals of the file are the fields of a record. The values
  of \<open>lrand48()\<close> and of the clock are arguments. \<open>trickleFired\<close> calls back into the state machine
  (theory Trd\_State) when the announce time is reached; here the flag of \<open>trickle_count\<close> says so.
\<close>

definition TRD_TIMER_PERIOD :: nat where [consts_defs]: "TRD_TIMER_PERIOD = 100"
definition TRD_MIN_INTERVAL :: u8 where [consts_defs]: "TRD_MIN_INTERVAL = 1"
definition TRD_MAX_INTERVAL :: u8 where [consts_defs]: "TRD_MAX_INTERVAL = 15"

datatype trd_process = TRD_PRE_PROCESS | TRD_POST_PROCESS

record trickle =
  trickleAnnounce :: u16
  trickleCountdown :: u16
  trickleStage :: u8
  trickleSuppress :: bool
  trickleState :: trd_process
  trickle_alarm_time :: timeval

text \<open>\<open>1 << trickleStage\<close> is computed as an \<open>int\<close> and cut to 16 bits.\<close>

definition trickleSet :: "trickle \<Rightarrow> nat \<Rightarrow> trickle" where
  "trickleSet t rnd =
    (let cd = of_nat (2 ^ unat (trickleStage t)) :: u16;
         rand = of_nat (rnd mod 65536 mod 65535) :: u16
     in t\<lparr>trickleCountdown := cd, trickleAnnounce := (if cd < 4 then 0 else rand mod (cd div 2)),
          trickleSuppress := False, trickleState := TRD_PRE_PROCESS\<rparr>)"

definition updateCounters :: "trickle \<Rightarrow> nat \<Rightarrow> trickle" where
  "updateCounters t0 rnd =
    (let t = (if trickleCountdown t0 > 0 then t0\<lparr>trickleCountdown := trickleCountdown t0 - 1\<rparr> else t0)
     in if trickleCountdown t \<le> trickleAnnounce t \<and> trickleState t = TRD_PRE_PROCESS then
          (if trickleSuppress t then t\<lparr>trickleState := TRD_POST_PROCESS\<rparr> else t)
        else if trickleCountdown t = 0 then
          trickleSet (if trickleStage t < TRD_MAX_INTERVAL
                      then t\<lparr>trickleStage := trickleStage t + 1\<rparr> else t) rnd
        else t)"

definition trd_timer_processed :: "trickle \<Rightarrow> trickle" where
  "trd_timer_processed t = t\<lparr>trickleState := TRD_POST_PROCESS\<rparr>"

definition trd_timer_suppress :: "trickle \<Rightarrow> trickle" where
  "trd_timer_suppress t = t\<lparr>trickleSuppress := True\<rparr>"

definition trickleReset :: "trickle \<Rightarrow> nat \<Rightarrow> trickle" where
  "trickleReset t rnd = trickleSet (t\<lparr>trickleStage := TRD_MIN_INTERVAL\<rparr>) rnd"

definition trd_timer_reset :: "trickle \<Rightarrow> nat \<Rightarrow> trickle" where
  "trd_timer_reset t rnd = trickleReset t rnd"

text \<open>The loop \<open>while ((countdown >> stage) > 0) stage++\<close>.\<close>

function stage_loop :: "nat \<Rightarrow> nat \<Rightarrow> nat" where
  "stage_loop countdown stage =
    (if countdown div 2 ^ stage > 0 then stage_loop countdown (stage + 1) else stage)"
  by pat_completeness auto
termination
proof (relation "measure (\<lambda>(c, s). c div 2 ^ s)", goal_cases)
  case (2 c s)
  then have "c div 2 ^ s div 2 < c div 2 ^ s" by simp
  moreover have "c div 2 ^ (s + 1) = c div 2 ^ s div 2"
    by (simp add: div_mult2_eq [symmetric] mult.commute)
  ultimately show ?case by simp
qed simp

declare stage_loop.simps [simp del]

definition trd_timer_set :: "trickle \<Rightarrow> u32 \<Rightarrow> nat \<Rightarrow> trickle" where
  "trd_timer_set t interval rnd =
    (let countdown = unat interval div TRD_TIMER_PERIOD mod 65536
     in trickleSet (t\<lparr>trickleStage := of_nat (stage_loop countdown 1)\<rparr>) rnd)"

definition trickleStart :: "trickle \<Rightarrow> timeval \<Rightarrow> nat \<Rightarrow> trickle" where
  "trickleStart t now interval_ms = t\<lparr>trickle_alarm_time := add_ms_to_timeval now interval_ms\<rparr>"

definition trickleStop :: "trickle \<Rightarrow> trickle" where
  "trickleStop t = t\<lparr>trickle_alarm_time := clear_timeval\<rparr>"

definition trd_timer_init :: "trickle \<Rightarrow> timeval \<Rightarrow> nat \<Rightarrow> trickle" where
  "trd_timer_init t now rnd =
    (let t' = trickleReset t rnd in
     if tv_sec (trickle_alarm_time t') = 0 \<and> tv_usec (trickle_alarm_time t') = 0
     then trickleStart t' now (TRD_TIMER_PERIOD * 1000 div 1024) else t')"

text \<open>The first half of \<open>trickleFired\<close>: the counters, and whether the user is called.\<close>

definition trickle_count :: "trickle \<Rightarrow> nat \<Rightarrow> bool \<times> trickle" where
  "trickle_count t rnd =
    (let t' = updateCounters t rnd
     in (trickleCountdown t' \<le> trickleAnnounce t' \<and> trickleState t' = TRD_PRE_PROCESS, t'))"

text \<open>The second half: the next alarm, 100 to 149 ms ahead.\<close>

definition trickle_rearm :: "trickle \<Rightarrow> timeval \<Rightarrow> nat \<Rightarrow> trickle" where
  "trickle_rearm t now rnd =
    trickleStart t now (TRD_TIMER_PERIOD + rnd mod (TRD_TIMER_PERIOD div 2))"

definition trickle_due :: "trickle \<Rightarrow> timeval \<Rightarrow> bool" where
  "trickle_due t now \<longleftrightarrow> (tv_sec (trickle_alarm_time t) > 0 \<or> tv_usec (trickle_alarm_time t) > 0)
     \<and> compare_timeval (trickle_alarm_time t) now \<le> 0"

section \<open>Lemmas\<close>

text \<open>The announce time lies in the lower half of the interval.\<close>

definition trickle_inv :: "trickle \<Rightarrow> bool" where
  "trickle_inv t \<longleftrightarrow> 1 \<le> unat (trickleStage t) \<and> unat (trickleStage t) \<le> 15
     \<and> (unat (trickleAnnounce t) < 2 ^ unat (trickleStage t) div 2)
     \<and> unat (trickleCountdown t) \<le> 2 ^ unat (trickleStage t)"

lemma unat_pow_u16: "s \<le> 15 \<Longrightarrow> unat (of_nat (2 ^ s) :: u16) = 2 ^ s"
proof -
  assume "s \<le> 15"
  then have "(2 :: nat) ^ s \<le> 2 ^ 15" by (rule power_increasing) simp
  then have "(2 :: nat) ^ s < 65536" by simp
  then show ?thesis unfolding unat_of_nat_u16 by (rule mod_less)
qed

lemma trickleSet_frame [frame_simps]:
  "trickleStage (trickleSet t r) = trickleStage t"
  "trickle_alarm_time (trickleSet t r) = trickle_alarm_time t"
  "trickleState (trickleSet t r) = TRD_PRE_PROCESS"
  "trickleSuppress (trickleSet t r) = False"
  by (simp_all add: trickleSet_def Let_def)

lemma trickleSet_spec:
  assumes "1 \<le> unat (trickleStage t)" "unat (trickleStage t) \<le> 15"
  shows "unat (trickleCountdown (trickleSet t r)) = 2 ^ unat (trickleStage t)"
    and "unat (trickleAnnounce (trickleSet t r)) < 2 ^ unat (trickleStage t) div 2"
    and "trickle_inv (trickleSet t r)"
proof -
  let ?s = "unat (trickleStage t)"
  show cd: "unat (trickleCountdown (trickleSet t r)) = 2 ^ ?s"
    using unat_pow_u16 [OF assms(2)] by (simp add: trickleSet_def Let_def)
  have p: "(2 :: nat) ^ ?s = 2 * 2 ^ (?s - 1)" using assms(1) by (cases ?s) auto
  show an: "unat (trickleAnnounce (trickleSet t r)) < 2 ^ ?s div 2"
  proof (cases "(of_nat (2 ^ ?s) :: u16) < 4")
    case True
    then show ?thesis using p by (simp add: trickleSet_def)
  next
    case False
    then have "unat (trickleAnnounce (trickleSet t r)) =
        unat (of_nat (r mod 65536 mod 65535) :: u16) mod (unat (of_nat (2 ^ ?s) :: u16) div 2)"
      by (simp add: trickleSet_def unat_mod unat_div Let_def)
    then show ?thesis unfolding unat_pow_u16 [OF assms(2)] using p by simp
  qed
  show "trickle_inv (trickleSet t r)"
    unfolding trickle_inv_def trickleSet_frame cd using assms an by simp
qed

lemma updateCounters_inv [inv_intros]:
  assumes "trickle_inv t"
  shows "trickle_inv (updateCounters t r)"
proof -
  let ?t = "if trickleCountdown t > 0 then t\<lparr>trickleCountdown := trickleCountdown t - 1\<rparr> else t"
  have le: "unat (trickleCountdown ?t) \<le> unat (trickleCountdown t)"
    by (auto simp: word_less_nat_alt unat_diff_u16)
  then have t: "trickle_inv ?t" using assms by (auto simp: trickle_inv_def)
  have up: "1 \<le> unat (trickleStage (if trickleStage ?t < TRD_MAX_INTERVAL
        then ?t\<lparr>trickleStage := trickleStage ?t + 1\<rparr> else ?t))
    \<and> unat (trickleStage (if trickleStage ?t < TRD_MAX_INTERVAL
        then ?t\<lparr>trickleStage := trickleStage ?t + 1\<rparr> else ?t)) \<le> 15"
    using assms by (auto simp: trickle_inv_def consts_defs word_less_nat_alt unat_add_u8)
  show ?thesis
    using t trickleSet_spec(3) [OF conjunct1 [OF up] conjunct2 [OF up], of r]
    by (auto simp: updateCounters_def Let_def trickle_inv_def split: if_splits)
qed

lemma stage_loop_spec:
  "s0 \<le> stage_loop c s0 \<and> c < 2 ^ stage_loop c s0
    \<and> (stage_loop c s0 = s0 \<or> 2 ^ (stage_loop c s0 - 1) \<le> c)"
proof (induction c s0 rule: stage_loop.induct)
  case (1 c s)
  show ?case
  proof (cases "c div 2 ^ s > 0")
    case True
    then have "2 ^ s \<le> c" by (simp add: div_greater_zero_iff)
    moreover have "stage_loop c s = stage_loop c (s + 1)" using True by (simp add: stage_loop.simps [of c s])
    ultimately show ?thesis using 1 [OF True] by auto
  next
    case False
    then show ?thesis by (simp add: stage_loop.simps [of c s] div_eq_0_iff)
  qed
qed

section \<open>One interval of the timer\<close>

text \<open>A tick as the users see it: when the timer fires, \<open>trd_timer_fired\<close> ends with
  \<open>trd_timer_processed\<close>.\<close>

definition trickle_step :: "trickle \<Rightarrow> nat \<Rightarrow> bool \<times> trickle" where
  "trickle_step t rnd = (case trickle_count t rnd of (fire, t') \<Rightarrow>
     (fire, if fire then trd_timer_processed t' else t'))"

primrec trickle_run :: "trickle \<Rightarrow> nat list \<Rightarrow> bool list \<times> trickle" where
  "trickle_run t [] = ([], t)"
| "trickle_run t (r # rs) = (case trickle_step t r of (f, t') \<Rightarrow>
     case trickle_run t' rs of (fs, t'') \<Rightarrow> (f # fs, t''))"

lemma trickle_run_append:
  "trickle_run t (rs @ rs') = (case trickle_run t rs of (fs, t') \<Rightarrow>
     case trickle_run t' rs' of (fs', t'') \<Rightarrow> (fs @ fs', t''))"
  by (induction rs arbitrary: t) (auto split: prod.splits)

lemma unat_pred_u16: "unat (w :: u16) = Suc n \<Longrightarrow> unat (w - 1) = n"
  by (subst unat_diff_u16) simp_all

lemma trickle_step_wait:
  assumes "unat (trickleCountdown t) = Suc n" "trickleState t = TRD_PRE_PROCESS"
    "unat (trickleAnnounce t) < n"
  shows "trickle_step t r = (False, t\<lparr>trickleCountdown := trickleCountdown t - 1\<rparr>)"
  using assms unat_pred_u16 [OF assms(1)]
  by (auto simp: trickle_step_def trickle_count_def updateCounters_def Let_def word_to_nat)

lemma trickle_step_fire:
  assumes "unat (trickleCountdown t) = Suc (unat (trickleAnnounce t))"
    "trickleState t = TRD_PRE_PROCESS"
  shows "trickle_step t r = (\<not> trickleSuppress t,
    t\<lparr>trickleCountdown := trickleAnnounce t, trickleState := TRD_POST_PROCESS\<rparr>)"
proof -
  have "trickleCountdown t - 1 = trickleAnnounce t"
    using unat_pred_u16 [OF assms(1)] by (simp add: word_eq_unat)
  moreover have "trickleCountdown t > 0" using assms by (simp add: word_less_nat_alt)
  ultimately show ?thesis
    using assms(2)
    by (simp add: trickle_step_def trickle_count_def updateCounters_def Let_def trd_timer_processed_def)
qed

lemma trickle_step_post:
  assumes "unat (trickleCountdown t) = Suc (Suc n)" "trickleState t = TRD_POST_PROCESS"
  shows "trickle_step t r = (False, t\<lparr>trickleCountdown := trickleCountdown t - 1\<rparr>)"
  using assms unat_pred_u16 [OF assms(1)]
  by (auto simp: trickle_step_def trickle_count_def updateCounters_def Let_def word_to_nat)

definition next_stage :: "u8 \<Rightarrow> u8" where
  "next_stage s = (if s < TRD_MAX_INTERVAL then s + 1 else s)"

lemma next_stage_range:
  "1 \<le> unat s \<Longrightarrow> unat s \<le> 15 \<Longrightarrow> 1 \<le> unat (next_stage s) \<and> unat (next_stage s) \<le> 15"
  by (auto simp: next_stage_def consts_defs word_less_nat_alt unat_add_u8)

lemma trickle_step_last:
  assumes inv: "trickle_inv t" and cd: "unat (trickleCountdown t) \<le> 1"
    and st: "trickleState t = TRD_POST_PROCESS"
  shows "fst (trickle_step t r) = False"
    "\<exists>t0. snd (trickle_step t r) = trickleSet t0 r \<and> trickleStage t0 = next_stage (trickleStage t)"
proof -
  let ?t = "if trickleCountdown t > 0 then t\<lparr>trickleCountdown := trickleCountdown t - 1\<rparr> else t"
  have z: "trickleCountdown ?t = 0"
  proof (cases "unat (trickleCountdown t)")
    case (Suc n)
    then have "n = 0" using cd by simp
    with Suc unat_pred_u16 [OF Suc] show ?thesis by (simp add: word_to_nat)
  qed (simp add: word_to_nat)
  define t0 where "t0 = (if trickleStage ?t < TRD_MAX_INTERVAL
      then ?t\<lparr>trickleStage := trickleStage ?t + 1\<rparr> else ?t)"
  have s0: "trickleStage t0 = next_stage (trickleStage t)" by (auto simp: t0_def next_stage_def)
  have up: "updateCounters t r = trickleSet t0 r"
    using z st by (simp add: updateCounters_def Let_def t0_def)
  have range: "1 \<le> unat (trickleStage t0)" "unat (trickleStage t0) \<le> 15"
    using next_stage_range [of "trickleStage t"] inv by (simp_all add: s0 trickle_inv_def)
  have "\<not> trickleCountdown (trickleSet t0 r) \<le> trickleAnnounce (trickleSet t0 r)"
  proof -
    have "(2 :: nat) ^ unat (trickleStage t0) div 2 \<le> 2 ^ unat (trickleStage t0)" by simp
    then show ?thesis using trickleSet_spec(1,2) [OF range, of r] by (simp add: word_le_nat_alt)
  qed
  then have "trickle_step t r = (False, trickleSet t0 r)"
    by (simp add: trickle_step_def trickle_count_def up)
  with s0 show "fst (trickle_step t r) = False"
    "\<exists>t0. snd (trickle_step t r) = trickleSet t0 r \<and> trickleStage t0 = next_stage (trickleStage t)"
    by auto
qed

lemma trickle_run_wait:
  "trickleState t = TRD_PRE_PROCESS \<Longrightarrow>
    unat (trickleCountdown t) = length rs + Suc (unat (trickleAnnounce t)) \<Longrightarrow>
    trickle_run t rs = (replicate (length rs) False,
      t\<lparr>trickleCountdown := trickleCountdown t - of_nat (length rs)\<rparr>)"
proof (induction rs arbitrary: t)
  case (Cons r rs)
  have cd: "unat (trickleCountdown t) = Suc (length rs + Suc (unat (trickleAnnounce t)))"
    using Cons.prems by simp
  from trickle_step_wait [OF cd Cons.prems(1), of r]
    Cons.IH [of "t\<lparr>trickleCountdown := trickleCountdown t - 1\<rparr>"] Cons.prems unat_pred_u16 [OF cd]
  show ?case by (simp add: algebra_simps)
qed simp

lemma trickle_run_post:
  "trickleState t = TRD_POST_PROCESS \<Longrightarrow> unat (trickleCountdown t) = Suc (length rs) \<Longrightarrow>
    trickle_run t rs = (replicate (length rs) False,
      t\<lparr>trickleCountdown := trickleCountdown t - of_nat (length rs)\<rparr>)"
proof (induction rs arbitrary: t)
  case (Cons r rs)
  have cd: "unat (trickleCountdown t) = Suc (Suc (length rs))" using Cons.prems by simp
  from trickle_step_post [OF cd Cons.prems(1), of r]
    Cons.IH [of "t\<lparr>trickleCountdown := trickleCountdown t - 1\<rparr>"] Cons.prems unat_pred_u16 [OF cd]
  show ?case by (simp add: algebra_simps)
qed simp

text \<open>From the announcement to the end of the interval: \<open>a - 1\<close> silent ticks and the new interval.\<close>

lemma trickle_run_tail:
  assumes inv: "trickle_inv t" and st: "trickleState t = TRD_POST_PROCESS"
    and a: "unat (trickleCountdown t) = a" and len: "length rs = (if a = 0 then 1 else a)"
  shows "fst (trickle_run t rs) = replicate (length rs) False
    \<and> (\<exists>t0 r. snd (trickle_run t rs) = trickleSet t0 r
         \<and> trickleStage t0 = next_stage (trickleStage t))"
proof -
  obtain rs0 r where rs: "rs = rs0 @ [r]" using len by (metis append_butlast_last_id list.size(3) zero_neq_one)
  show ?thesis
  proof (cases "a \<le> 1")
    case True
    then have "rs0 = []" using len rs by (auto split: if_splits)
    then show ?thesis
      using trickle_step_last [OF inv _ st, of r] a True rs
      by (cases "trickle_step t r") auto
  next
    case False
    let ?t = "t\<lparr>trickleCountdown := trickleCountdown t - of_nat (length rs0)\<rparr>"
    have l0: "unat (trickleCountdown t) = Suc (length rs0)" using len rs False a by simp
    have u: "unat (of_nat (length rs0) :: u16) = length rs0"
      using l0 unat_u16_lt [of "trickleCountdown t"] by (simp add: unat_of_nat_u16)
    have one: "unat (trickleCountdown ?t) \<le> 1" using l0 u by (simp add: unat_diff_u16)
    then have "trickle_inv ?t"
      using inv l0 by (auto simp: trickle_inv_def intro: order_trans)
    from trickle_step_last [OF this one, of r] st trickle_run_post [OF st l0]
    show ?thesis
      by (cases "trickle_step ?t r")
        (auto simp: rs trickle_run_append replicate_append_same)
  qed
qed

section \<open>Properties\<close>

text \<open>
  In every interval the timer calls its user at most once: exactly at the announce tick, unless
  it has been suppressed, in which case not at all. The interval ends with the next one, one stage
  longer up to the maximum. An announce time of 0 makes the interval one tick longer.
\<close>

theorem trickle_interval_fires_once:
  assumes inv: "trickle_inv t" and st: "trickleState t = TRD_PRE_PROCESS"
    and c: "c = unat (trickleCountdown t)" and a: "a = unat (trickleAnnounce t)" "a < c"
    and len: "length rs = (if a = 0 then c + 1 else c)"
  shows "fst (trickle_run t rs) =
      replicate (c - a - 1) False @ [\<not> trickleSuppress t] @ replicate (length rs - (c - a)) False
    \<and> (let t' = snd (trickle_run t rs) in trickleState t' = TRD_PRE_PROCESS \<and> \<not> trickleSuppress t'
        \<and> trickleStage t' = next_stage (trickleStage t)
        \<and> unat (trickleCountdown t') = 2 ^ unat (trickleStage t')
        \<and> unat (trickleAnnounce t') < 2 ^ unat (trickleStage t') div 2)"
proof -
  define n where "n = c - a - 1"
  have n: "c = n + Suc a" "n < c" using a by (simp_all add: n_def)
  obtain rs1 r rs2 where rs: "rs = rs1 @ [r] @ rs2" "length rs1 = n" "length rs2 = length rs - Suc n"
  proof (rule that [of "take n rs" "rs ! n" "drop (Suc n) rs"])
    show "rs = take n rs @ [rs ! n] @ drop (Suc n) rs"
      using id_take_nth_drop [of n rs] len n by (auto split: if_splits)
  qed (use len n in auto)
  let ?t1 = "t\<lparr>trickleCountdown := trickleCountdown t - of_nat n\<rparr>"
  let ?t2 = "t\<lparr>trickleCountdown := trickleAnnounce t, trickleState := TRD_POST_PROCESS\<rparr>"
  have r1: "trickle_run t rs1 = (replicate n False, ?t1)"
    using trickle_run_wait [OF st, of rs1] rs(2) n a(1) c by simp
  have u: "unat (of_nat n :: u16) = n"
  proof -
    have "n < 65536" using n c unat_u16_lt [of "trickleCountdown t"] by linarith
    then show ?thesis by (simp add: unat_of_nat_u16)
  qed
  have "unat (trickleCountdown t - of_nat n) = c - n"
    by (subst unat_diff_u16) (use u c n in simp_all)
  then have "unat (trickleCountdown ?t1) = Suc (unat (trickleAnnounce ?t1))"
    using a(1) n by simp
  from trickle_step_fire [OF this, of r] st
  have r2: "trickle_step ?t1 r = (\<not> trickleSuppress t, ?t2)" by simp
  have len2: "length rs2 = (if a = 0 then 1 else a)" using rs len n by auto
  have "trickle_inv ?t2" using inv a c by (auto simp: trickle_inv_def)
  from trickle_run_tail [OF this _ _ len2] a
  obtain t0 r0 where r3: "fst (trickle_run ?t2 rs2) = replicate (length rs2) False"
    "snd (trickle_run ?t2 rs2) = trickleSet t0 r0" "trickleStage t0 = next_stage (trickleStage t)"
    by auto
  have range: "1 \<le> unat (trickleStage t0)" "unat (trickleStage t0) \<le> 15"
    using next_stage_range [of "trickleStage t"] inv by (simp_all add: r3 trickle_inv_def)
  have run: "trickle_run t rs = (replicate n False @ [\<not> trickleSuppress t]
      @ replicate (length rs2) False, trickleSet t0 r0)"
    using r3(1,2) by (cases "trickle_run ?t2 rs2") (simp add: rs(1) trickle_run_append r1 r2)
  show ?thesis
    using trickleSet_spec(1,2) [OF range, of r0] r3(3)
    by (simp add: run rs(3) trickleSet_frame Let_def n(1))
qed

theorem trickle_interval_fires_once_witness:
  "fst (trickle_run (trickleReset \<lparr>trickleAnnounce = 0, trickleCountdown = 0, trickleStage = 9,
      trickleSuppress = False, trickleState = TRD_POST_PROCESS, trickle_alarm_time = clear_timeval\<rparr> 0)
    [5, 6, 7]) = [False, True, False]"
proof -
  let ?t = "trickleReset \<lparr>trickleAnnounce = 0, trickleCountdown = 0, trickleStage = 9,
      trickleSuppress = False, trickleState = TRD_POST_PROCESS, trickle_alarm_time = clear_timeval\<rparr> 0"
  have "trickle_inv ?t"
    unfolding trickleReset_def by (rule trickleSet_spec) (simp_all add: consts_defs)
  moreover have "unat (trickleCountdown ?t) = 2" "unat (trickleAnnounce ?t) = 0"
    "trickleState ?t = TRD_PRE_PROCESS" "\<not> trickleSuppress ?t"
    by (simp_all add: trickleReset_def trickleSet_def consts_defs Let_def)
  ultimately show ?thesis
    using trickle_interval_fires_once [of ?t 2 0 "[5, 6, 7]"] by (simp add: numeral_eq_Suc)
qed

text \<open>
  Setting the timer to an interval picks the least stage, at least 1, whose power of two exceeds
  the interval in ticks; the loop that looks for it ends.
\<close>

theorem trd_timer_set_least_stage:
  assumes "unat interval div 100 < 2 ^ 15"
  shows "let n = unat interval div 100; s = unat (trickleStage (trd_timer_set t interval rnd))
    in 1 \<le> s \<and> s \<le> 15 \<and> n < 2 ^ s \<and> (s = 1 \<or> 2 ^ (s - 1) \<le> n)
      \<and> trickle_inv (trd_timer_set t interval rnd)"
proof -
  let ?n = "unat interval div 100"
  let ?s = "stage_loop ?n 1"
  have n: "?n mod 65536 = ?n" using assms by simp
  have s: "1 \<le> ?s" "?n < 2 ^ ?s" "?s = 1 \<or> 2 ^ (?s - 1) \<le> ?n"
    using stage_loop_spec [of 1 ?n] by auto
  have "?s \<le> 15"
  proof (rule ccontr)
    assume "\<not> ?s \<le> 15"
    then have "2 ^ 15 \<le> (2 :: nat) ^ (?s - 1)" by (intro power_increasing) auto
    with s(3) assms \<open>\<not> ?s \<le> 15\<close> show False by auto
  qed
  then have u: "unat (of_nat ?s :: u8) = ?s" by (simp add: unat_of_nat_u8)
  have "trickle_inv (trickleSet (t\<lparr>trickleStage := of_nat ?s\<rparr>) rnd)"
    using s \<open>?s \<le> 15\<close> u by (intro trickleSet_spec) simp_all
  then show ?thesis
    using s \<open>?s \<le> 15\<close> u n by (simp add: trd_timer_set_def trickleSet_frame TRD_TIMER_PERIOD_def Let_def)
qed

theorem trd_timer_set_least_stage_witness:
  "unat (trickleStage (trd_timer_set \<lparr>trickleAnnounce = 0, trickleCountdown = 0, trickleStage = 9,
    trickleSuppress = False, trickleState = TRD_POST_PROCESS, trickle_alarm_time = clear_timeval\<rparr>
    600 0)) \<le> 15"
  using trd_timer_set_least_stage [of 600 "\<lparr>trickleAnnounce = 0, trickleCountdown = 0,
    trickleStage = 9, trickleSuppress = False, trickleState = TRD_POST_PROCESS,
    trickle_alarm_time = clear_timeval\<rparr>" 0]
  by (simp add: Let_def)

end
