(* ===== verification/Metalist.thy ===== *)
theory Metalist
  imports Prelude
begin

text \<open>
  Model of src/mote/lib/trd/trd_metalist.c: a ring buffer of (origin, seqno) pairs, the queue of
  packets that a node has been asked to retransmit. The \<open>uint8_t\<close> indices never exceed
  \<open>max_size\<close>, so they are numbers. The search is a do-while loop over the ring that stops at
  \<open>head_p\<close>; \<open>None\<close> is a search that never stops, which the invariant excludes. The locale
  \<open>recover_queue\<close> is the contract of the list that the state machine relies on.
\<close>

record MetaListEntry =
  me_origin :: u16
  me_seqno :: u16

record MetaList =
  head_p :: nat
  tail_p :: nat
  ml_length :: nat
  max_size :: nat
  item :: "MetaListEntry list"

definition metalist_clear :: "MetaList \<Rightarrow> MetaList" where
  "metalist_clear rlist = rlist\<lparr>head_p := 0, tail_p := 0, ml_length := 0,
     item := map (\<lambda>i. if i < max_size rlist then (item rlist ! i)\<lparr>me_origin := 0\<rparr>
                      else item rlist ! i) [0..<length (item rlist)]\<rparr>"

definition metalist_init :: "MetaListEntry list \<Rightarrow> nat \<Rightarrow> MetaList" where
  "metalist_init buf list_size =
    metalist_clear \<lparr>head_p = 0, tail_p = 0, ml_length = 0, max_size = list_size, item = buf\<rparr>"

definition ml_next_index :: "MetaList \<Rightarrow> nat \<Rightarrow> nat" where
  "ml_next_index rlist i = (if i + 1 = max_size rlist then 0 else i + 1)"

partial_function (option) metalist_find_loop ::
    "MetaList \<Rightarrow> u16 \<Rightarrow> u16 \<Rightarrow> nat \<Rightarrow> int option" where
  "metalist_find_loop rlist origin seqno i =
    (if me_origin (item rlist ! i) = origin \<and> me_seqno (item rlist ! i) = seqno
     then Some (int i)
     else if ml_next_index rlist i \<noteq> head_p rlist
     then metalist_find_loop rlist origin seqno (ml_next_index rlist i)
     else Some (-1))"

definition metalist_findIndex :: "MetaList \<Rightarrow> u16 \<Rightarrow> u16 \<Rightarrow> int option" where
  "metalist_findIndex rlist origin seqno =
    (if ml_length rlist = 0 then Some (-1)
     else metalist_find_loop rlist origin seqno (tail_p rlist))"

definition metalist_isInList :: "MetaList \<Rightarrow> u16 \<Rightarrow> u16 \<Rightarrow> bool option" where
  "metalist_isInList rlist origin seqno =
    map_option (\<lambda>i. \<not> i < 0) (metalist_findIndex rlist origin seqno)"

definition metalist_insert :: "MetaList \<Rightarrow> u16 \<Rightarrow> u16 \<Rightarrow> MetaList option" where
  "metalist_insert rlist origin seqno =
    (if ml_length rlist < max_size rlist then
       do {
         i \<leftarrow> metalist_findIndex rlist origin seqno;
         Some (if i < 0 then
           rlist\<lparr>item := (item rlist)[head_p rlist := \<lparr>me_origin = origin, me_seqno = seqno\<rparr>],
                 head_p := (if head_p rlist + 1 = max_size rlist then 0 else head_p rlist + 1),
                 ml_length := ml_length rlist + 1\<rparr>
         else rlist)
       }
     else Some rlist)"

definition metalist_deleteFirst :: "MetaList \<Rightarrow> MetaListEntry option \<times> MetaList" where
  "metalist_deleteFirst rlist =
    (if ml_length rlist = 0 then (None, rlist)
     else (Some (item rlist ! tail_p rlist),
           rlist\<lparr>tail_p := (if tail_p rlist + 1 = max_size rlist then 0 else tail_p rlist + 1),
                 ml_length := ml_length rlist - 1\<rparr>))"

definition metalist_isFull :: "MetaList \<Rightarrow> bool" where
  "metalist_isFull rlist \<longleftrightarrow> ml_length rlist = max_size rlist"

definition metalist_isEmpty :: "MetaList \<Rightarrow> bool" where
  "metalist_isEmpty rlist \<longleftrightarrow> ml_length rlist = 0"

definition metalist_getFirst :: "MetaList \<Rightarrow> MetaListEntry option" where
  "metalist_getFirst rlist =
    (if ml_length rlist = 0 then None else Some (item rlist ! tail_p rlist))"

section \<open>Invariant and contents\<close>

definition ml_inv :: "MetaList \<Rightarrow> bool" where
  "ml_inv rl \<longleftrightarrow> 0 < max_size rl \<and> max_size rl \<le> length (item rl)
    \<and> tail_p rl < max_size rl \<and> ml_length rl \<le> max_size rl
    \<and> head_p rl = (tail_p rl + ml_length rl) mod max_size rl"

definition ml_pair :: "MetaListEntry \<Rightarrow> u16 \<times> u16" where
  "ml_pair e = (me_origin e, me_seqno e)"

definition ml_at :: "MetaList \<Rightarrow> nat \<Rightarrow> u16 \<times> u16" where
  "ml_at rl k = ml_pair (item rl ! ((tail_p rl + k) mod max_size rl))"

definition ml_contents :: "MetaList \<Rightarrow> (u16 \<times> u16) list" where
  "ml_contents rl = map (ml_at rl) [0..<ml_length rl]"

text \<open>The contract: a bounded queue of distinct pairs.\<close>

locale recover_queue =
  fixes insert :: "'q \<Rightarrow> u16 \<Rightarrow> u16 \<Rightarrow> 'q option"
    and deleteFirst :: "'q \<Rightarrow> MetaListEntry option \<times> 'q"
    and getFirst :: "'q \<Rightarrow> MetaListEntry option"
    and isFull :: "'q \<Rightarrow> bool"
    and isEmpty :: "'q \<Rightarrow> bool"
    and contents :: "'q \<Rightarrow> (u16 \<times> u16) list"
    and capacity :: "'q \<Rightarrow> nat"
    and inv :: "'q \<Rightarrow> bool"
  assumes insert_ex: "inv q \<Longrightarrow> \<exists>q'. insert q a s = Some q' \<and> inv q' \<and> capacity q' = capacity q
      \<and> contents q' = (if isFull q \<or> (a, s) \<in> set (contents q) then contents q
                      else contents q @ [(a, s)])"
    and delete_contents: "inv q \<Longrightarrow> contents (snd (deleteFirst q)) = tl (contents q)"
    and delete_inv: "inv q \<Longrightarrow> inv (snd (deleteFirst q))"
    and delete_capacity: "capacity (snd (deleteFirst q)) = capacity q"
    and first_contents: "inv q \<Longrightarrow> map_option ml_pair (getFirst q) =
      (case contents q of [] \<Rightarrow> None | p # _ \<Rightarrow> Some p)"
    and delete_first: "fst (deleteFirst q) = getFirst q"
    and full_iff: "inv q \<Longrightarrow> isFull q \<longleftrightarrow> length (contents q) = capacity q"
    and empty_iff: "inv q \<Longrightarrow> isEmpty q \<longleftrightarrow> contents q = []"
begin

lemma insert_distinct:
  "inv q \<Longrightarrow> distinct (contents q) \<Longrightarrow> insert q a s = Some q' \<Longrightarrow> distinct (contents q')"
  using insert_ex [of q a s] by auto

lemma insert_inv: "inv q \<Longrightarrow> insert q a s = Some q' \<Longrightarrow> inv q'"
  using insert_ex [of q a s] by auto

lemma insert_mem: "inv q \<Longrightarrow> \<not> isFull q \<Longrightarrow> insert q a s = Some q' \<Longrightarrow> (a, s) \<in> set (contents q')"
  using insert_ex [of q a s] by auto

lemma insert_set: "inv q \<Longrightarrow> insert q a s = Some q' \<Longrightarrow>
    set (contents q') \<subseteq> Set.insert (a, s) (set (contents q))"
  using insert_ex [of q a s] by auto

lemma empty_first: "inv q \<Longrightarrow> isEmpty q \<longleftrightarrow> getFirst q = None"
  using first_contents [of q] by (auto simp: empty_iff split: list.splits)

lemma first_mem: "inv q \<Longrightarrow> getFirst q = Some e \<Longrightarrow> ml_pair e \<in> set (contents q)"
  using first_contents [of q] by (auto split: list.splits)

lemma delete_distinct:
  "inv q \<Longrightarrow> distinct (contents q) \<Longrightarrow> distinct (contents (snd (deleteFirst q)))"
  by (simp add: delete_contents distinct_tl)

end

section \<open>The ring buffer meets the contract\<close>

lemma ml_next_mod:
  "0 < m \<Longrightarrow> (if (t + k) mod m + 1 = m then 0 else (t + k) mod m + 1) = (t + k + 1) mod (m :: nat)"
  using mod_Suc [of "t + k" m] by simp

lemma mod_add_eq_iff:
  assumes "a \<le> b" "b - a < (m :: nat)"
  shows "(t + a) mod m = (t + b) mod m \<longleftrightarrow> a = b"
proof
  assume "(t + a) mod m = (t + b) mod m"
  then have "a mod m = b mod m" by (simp add: nat_mod_eq_iff)
  then have "m dvd b - a" using assms(1) by (metis mod_eq_dvd_iff_nat)
  then have "b - a = 0" using assms(2) by (metis dvd_imp_le not_gr_zero not_less)
  with assms(1) show "a = b" by simp
qed simp

lemma metalist_find_loop_spec:
  assumes "ml_inv rl"
  shows "k < ml_length rl \<Longrightarrow>
    \<exists>i. metalist_find_loop rl a s ((tail_p rl + k) mod max_size rl) = Some i
      \<and> (i < 0 \<longleftrightarrow> (\<forall>j \<in> {k..<ml_length rl}. ml_at rl j \<noteq> (a, s)))"
proof (induction "ml_length rl - k" arbitrary: k)
  case 0
  then show ?case by simp
next
  case (Suc n)
  let ?i = "(tail_p rl + k) mod max_size rl"
  have m: "0 < max_size rl" using assms by (simp add: ml_inv_def)
  have nxt: "ml_next_index rl ?i = (tail_p rl + (k + 1)) mod max_size rl"
    using ml_next_mod [OF m] by (simp add: ml_next_index_def)
  have head: "ml_next_index rl ?i = head_p rl \<longleftrightarrow> k + 1 = ml_length rl"
    using assms Suc.prems unfolding nxt
    by (subst mod_add_eq_iff [symmetric, of "k + 1" "ml_length rl" "max_size rl" "tail_p rl"])
      (auto simp: ml_inv_def)
  show ?case
  proof (cases "ml_at rl k = (a, s)")
    case True
    then have "metalist_find_loop rl a s ?i = Some (int ?i)"
      by (subst metalist_find_loop.simps) (simp add: ml_at_def ml_pair_def)
    with True Suc.prems show ?thesis by (auto intro!: bexI [of _ k])
  next
    case False
    then have step: "metalist_find_loop rl a s ?i =
        (if k + 1 \<noteq> ml_length rl
         then metalist_find_loop rl a s (ml_next_index rl ?i) else Some (-1))"
      by (subst metalist_find_loop.simps) (auto simp: ml_at_def ml_pair_def head)
    have range: "{k..<ml_length rl} = Set.insert k {k + 1..<ml_length rl}"
      using Suc.prems by auto
    show ?thesis
    proof (cases "k + 1 = ml_length rl")
      case True
      then show ?thesis using False step range by auto
    next
      case neq: False
      then have "k + 1 < ml_length rl" using Suc.prems by simp
      with Suc.hyps(1) [of "k + 1"] Suc.hyps(2) obtain i where
        "metalist_find_loop rl a s ((tail_p rl + (k + 1)) mod max_size rl) = Some i"
        "(i < 0) = (\<forall>j \<in> {k + 1..<ml_length rl}. ml_at rl j \<noteq> (a, s))"
        using Suc.hyps(2) by (metis (no_types, lifting) Suc_eq_plus1 diff_Suc_1 diff_Suc_eq_diff_pred
            diff_commute)
      then show ?thesis using False neq step range unfolding nxt by auto
    qed
  qed
qed

lemma metalist_findIndex_spec:
  assumes "ml_inv rl"
  shows "\<exists>i. metalist_findIndex rl a s = Some i \<and> (i < 0 \<longleftrightarrow> (a, s) \<notin> set (ml_contents rl))"
proof (cases "ml_length rl = 0")
  case True
  then show ?thesis by (simp add: metalist_findIndex_def ml_contents_def)
next
  case False
  have t: "tail_p rl mod max_size rl = tail_p rl" using assms by (simp add: ml_inv_def)
  show ?thesis
    using metalist_find_loop_spec [OF assms, of 0 a s] False
    by (force simp: metalist_findIndex_def ml_contents_def t)
qed

lemma ml_insert_raw:
  fixes a s
  assumes inv: "ml_inv rl" and room: "ml_length rl < max_size rl"
  defines "rl' \<equiv> rl\<lparr>item := (item rl)[head_p rl := \<lparr>me_origin = a, me_seqno = s\<rparr>],
      head_p := (if head_p rl + 1 = max_size rl then 0 else head_p rl + 1),
      ml_length := ml_length rl + 1\<rparr>"
  shows "ml_inv rl'" "ml_contents rl' = ml_contents rl @ [(a, s)]"
proof -
  have m: "0 < max_size rl" using inv by (simp add: ml_inv_def)
  have hlt: "head_p rl < max_size rl" using inv by (simp add: ml_inv_def)
  show "ml_inv rl'"
    using inv room by (simp add: ml_inv_def rl'_def mod_Suc)
  have "ml_at rl' (ml_length rl) = (a, s)"
  proof -
    have "(tail_p rl + ml_length rl) mod max_size rl = head_p rl" "head_p rl < length (item rl)"
      using inv hlt unfolding ml_inv_def by (simp, linarith)
    then show ?thesis by (simp add: ml_at_def ml_pair_def rl'_def)
  qed
  moreover have "ml_at rl' k = ml_at rl k" if "k < ml_length rl" for k
  proof -
    have "(tail_p rl + k) mod max_size rl \<noteq> head_p rl"
      using mod_add_eq_iff [of k "ml_length rl" "max_size rl" "tail_p rl"] that room inv
      by (simp add: ml_inv_def)
    then show ?thesis by (simp add: ml_at_def rl'_def)
  qed
  ultimately show "ml_contents rl' = ml_contents rl @ [(a, s)]"
    by (simp add: ml_contents_def rl'_def)
qed

lemma metalist_insert_spec:
  assumes "ml_inv rl"
  shows "\<exists>rl'. metalist_insert rl a s = Some rl' \<and> ml_inv rl' \<and> max_size rl' = max_size rl
    \<and> ml_contents rl' = (if metalist_isFull rl \<or> (a, s) \<in> set (ml_contents rl)
        then ml_contents rl else ml_contents rl @ [(a, s)])"
proof (cases "ml_length rl < max_size rl")
  case False
  then have "metalist_isFull rl" using assms by (simp add: ml_inv_def metalist_isFull_def)
  with False assms show ?thesis by (simp add: metalist_insert_def)
next
  case True
  obtain i where "metalist_findIndex rl a s = Some i" "i < 0 \<longleftrightarrow> (a, s) \<notin> set (ml_contents rl)"
    using metalist_findIndex_spec [OF assms] by blast
  then show ?thesis
    using True assms ml_insert_raw [OF assms True, of a s]
    by (simp add: metalist_insert_def metalist_isFull_def)
qed

lemma ml_delete_spec:
  assumes "ml_inv rl"
  shows "ml_inv (snd (metalist_deleteFirst rl))"
    and "ml_contents (snd (metalist_deleteFirst rl)) = tl (ml_contents rl)"
proof -
  let ?rl = "snd (metalist_deleteFirst rl)"
  have m: "0 < max_size rl" using assms by (simp add: ml_inv_def)
  have tp: "tail_p ?rl = (tail_p rl + 1) mod max_size rl" if "ml_length rl \<noteq> 0"
    using that assms ml_next_mod [OF m, of "tail_p rl" 0]
    by (auto simp: metalist_deleteFirst_def ml_inv_def mod_Suc)
  show "ml_inv ?rl"
  proof (cases "ml_length rl")
    case 0
    then show ?thesis using assms by (simp add: metalist_deleteFirst_def)
  next
    case (Suc n)
    then have len: "ml_length ?rl = n" "head_p ?rl = head_p rl" "max_size ?rl = max_size rl"
        "item ?rl = item rl"
      by (simp_all add: metalist_deleteFirst_def)
    have "(tail_p ?rl + n) mod max_size rl = (tail_p rl + Suc n) mod max_size rl"
      using tp Suc by (simp add: mod_add_left_eq)
    then show ?thesis using assms Suc len m tp by (simp add: ml_inv_def)
  qed
  have at: "ml_at ?rl k = ml_at rl (Suc k)" if "ml_length rl \<noteq> 0" for k
    using tp [OF that] that by (simp add: ml_at_def metalist_deleteFirst_def mod_add_left_eq)
  show "ml_contents ?rl = tl (ml_contents rl)"
  proof (cases "ml_length rl")
    case 0
    then show ?thesis by (simp add: metalist_deleteFirst_def ml_contents_def)
  next
    case (Suc n)
    then have "ml_length ?rl = n" by (simp add: metalist_deleteFirst_def)
    with Suc at show ?thesis
      by (simp add: ml_contents_def map_Suc_upt [symmetric] upt_conv_Cons del: upt_Suc)
  qed
qed

lemma length_ml_contents [simp]: "length (ml_contents rl) = ml_length rl"
  by (simp add: ml_contents_def)

interpretation mlq: recover_queue metalist_insert metalist_deleteFirst metalist_getFirst
  metalist_isFull metalist_isEmpty ml_contents max_size ml_inv
proof (unfold_locales, goal_cases)
  case (1 q a s)
  then show ?case by (rule metalist_insert_spec)
next
  case (2 q)
  then show ?case by (rule ml_delete_spec)
next
  case (3 q)
  then show ?case by (rule ml_delete_spec)
next
  case (4 q)
  then show ?case by (simp add: metalist_deleteFirst_def)
next
  case (5 q)
  then show ?case
    by (cases "ml_length q")
      (auto simp: metalist_getFirst_def ml_contents_def ml_at_def ml_inv_def upt_conv_Cons
        simp del: upt_Suc)
next
  case (6 q)
  then show ?case by (simp add: metalist_deleteFirst_def metalist_getFirst_def)
next
  case (7 q)
  then show ?case by (simp add: metalist_isFull_def)
next
  case (8 q)
  then show ?case by (auto simp: metalist_isEmpty_def ml_contents_def)
qed

lemma metalist_init_inv:
  "0 < n \<Longrightarrow> n \<le> length buf \<Longrightarrow> ml_inv (metalist_init buf n)"
  by (simp add: metalist_init_def metalist_clear_def ml_inv_def)

lemma metalist_init_contents [simp]: "ml_contents (metalist_init buf n) = []"
  by (simp add: metalist_init_def metalist_clear_def ml_contents_def)

section \<open>Properties\<close>

text \<open>
  The recover list is a bounded first-in first-out queue of distinct pairs: an insertion always
  returns, appends a pair that is not there while there is room and changes nothing otherwise, and
  removal returns the pairs in the order of their insertion.
\<close>

theorem metalist_fifo:
  assumes "ml_inv rl"
  shows "\<exists>rl'. metalist_insert rl a s = Some rl' \<and> ml_inv rl'
      \<and> ml_contents rl' = (if ml_length rl = max_size rl \<or> (a, s) \<in> set (ml_contents rl)
            then ml_contents rl else ml_contents rl @ [(a, s)])
      \<and> ml_contents (snd (metalist_deleteFirst rl')) = tl (ml_contents rl')
      \<and> map_option ml_pair (metalist_getFirst rl')
          = (case ml_contents rl' of [] \<Rightarrow> None | p # _ \<Rightarrow> Some p)"
proof -
  obtain rl' where "metalist_insert rl a s = Some rl'" "ml_inv rl'"
    "ml_contents rl' = (if metalist_isFull rl \<or> (a, s) \<in> set (ml_contents rl)
        then ml_contents rl else ml_contents rl @ [(a, s)])"
    using mlq.insert_ex [OF assms] by blast
  then show ?thesis
    using mlq.delete_contents mlq.first_contents by (auto simp: metalist_isFull_def)
qed

theorem metalist_fifo_witness:
  "\<exists>rl'. metalist_insert (metalist_init [\<lparr>me_origin = 0, me_seqno = 0\<rparr>] 1) 5 9 = Some rl'
    \<and> ml_contents rl' = [(5, 9)]"
proof -
  let ?rl = "metalist_init [\<lparr>me_origin = 0, me_seqno = 0\<rparr>] 1"
  have "ml_inv ?rl" by (rule metalist_init_inv) simp_all
  from metalist_fifo [OF this, of 5 9] show ?thesis
    by (auto simp: metalist_init_def metalist_clear_def ml_contents_def)
qed

end
