(* ===== verification/Checksum.thy ===== *)
theory Checksum
  imports Prelude
begin

unbundle bit_operations_syntax

text \<open>
  Models of src/mote/lib/transport/tr_packet.c and tr_checksum.c (the header and the checksum of a
  \<open>TransportMsg\<close>) and of src/mote/lib/trd/trd_checksum.c (the checksums of \<open>TRD_Msg\<close> and
  \<open>TRD_ControlMsg\<close>). Offsets are those of the packed structs:
  TransportMsg (transport.h): tid 0, seqno 2, flag 4, checksum 5, data 6, in host byte order;
  TRD_Msg (trd.h): origin 0, seqno 2, age 4 (network order), sender 6 (host order), length 8,
  checksum 9, data 10; TRD_ControlMsg: sender 0, num\_entries 2, control\_type 3, unused 4,
  checksum 5, metadata 6. The locale \<open>checksum_field\<close> is the contract the three checksums share.
\<close>

section \<open>The contract of a checksum byte\<close>

definition sum8 :: "bytes \<Rightarrow> nat \<Rightarrow> u8" where
  "sum8 m n = sum_list (map (get8 m) [0..<n])"

lemma sum8_0 [simp]: "sum8 m 0 = 0"
  by (simp add: sum8_def)

lemma sum8_Suc: "sum8 m (Suc n) = sum8 m n + get8 m n"
  by (simp add: sum8_def)

lemma sum8_all: "length m = n \<Longrightarrow> sum8 m n = sum_list m"
proof -
  assume n: "length m = n"
  then have "map (get8 m) [0..<n] = map ((!) m) [0..<length m]" by (simp add: get8_def)
  then show ?thesis unfolding sum8_def map_nth by simp
qed

lemma sum8_put8:
  "j < length m \<Longrightarrow>
    sum8 (put8 m j v) n = (if j < n then sum8 m n - get8 m j + v else sum8 m n)"
  by (induction n) (auto simp: sum8_Suc get8_put8 less_Suc_eq algebra_simps)

locale checksum_field =
  fixes calc :: "bytes \<Rightarrow> u8"
    and pos :: nat
    and cov :: "bytes \<Rightarrow> nat"
    and wf :: "bytes \<Rightarrow> bool"
  assumes calc_eq: "wf m \<Longrightarrow> calc m = get8 m pos - sum8 m (cov m)"
    and pos_cov: "wf m \<Longrightarrow> pos < cov m" "wf m \<Longrightarrow> cov m \<le> length m"
    and put_pos: "wf m \<Longrightarrow> wf (put8 m pos c)" "wf m \<Longrightarrow> cov (put8 m pos c) = cov m"
begin

lemma calc_ignores_field: "wf m \<Longrightarrow> calc (put8 m pos c) = calc m"
  using pos_cov [of m] by (simp add: calc_eq put_pos sum8_put8 get8_put8)

text \<open>A sender zeroes the byte, computes, and stores: what it sends passes.\<close>

lemma sealed_passes:
  "wf m \<Longrightarrow> m' = put8 m pos (calc (put8 m pos 0)) \<Longrightarrow> calc m' = get8 m' pos"
  using pos_cov [of m] by (simp add: calc_ignores_field get8_put8)

lemma passes_iff_sum: "wf m \<Longrightarrow> calc m = get8 m pos \<longleftrightarrow> sum8 m (cov m) = 0"
  by (auto simp: calc_eq)

text \<open>One changed byte never passes.\<close>

lemma one_byte_corruption:
  assumes "wf m" "calc m = get8 m pos" "j < cov m" "j \<noteq> pos" "v \<noteq> get8 m j"
    and "wf (put8 m j v)" "cov (put8 m j v) = cov m"
  shows "calc (put8 m j v) \<noteq> get8 (put8 m j v) pos"
proof -
  have "sum8 m (cov m) = 0" using assms(1,2) by (simp add: passes_iff_sum)
  moreover have "sum8 (put8 m j v) (cov m) = sum8 m (cov m) - get8 m j + v"
    using assms pos_cov [of m] by (simp add: sum8_put8)
  ultimately show ?thesis using assms by (simp add: passes_iff_sum)
qed

end

section \<open>TransportMsg: header and checksum\<close>

definition tr_packet_setHeader :: "bytes \<Rightarrow> u16 \<Rightarrow> u16 \<Rightarrow> u8 \<Rightarrow> u8 \<Rightarrow> bytes" where
  "tr_packet_setHeader m tid seqno flag checksum =
    put8 (put8 (put16le (put16le m 0 tid) 2 seqno) 4 flag) 5 checksum"

definition tr_packet_getTid :: "bytes \<Rightarrow> u16" where
  "tr_packet_getTid m = get16le m 0"

definition tr_packet_getSeqno :: "bytes \<Rightarrow> u16" where
  "tr_packet_getSeqno m = get16le m 2"

definition tr_packet_getFlag :: "bytes \<Rightarrow> u8" where
  "tr_packet_getFlag m = get8 m 4"

definition tr_packet_getChecksum :: "bytes \<Rightarrow> u8" where
  "tr_packet_getChecksum m = get8 m 5"

definition tr_packet_getPayload :: "bytes \<Rightarrow> bytes" where
  "tr_packet_getPayload m = drop 6 m"

lemma length_setHeader [simp]: "length (tr_packet_setHeader m t s f c) = length m"
  by (simp add: tr_packet_setHeader_def)

lemma tr_packet_header_roundtrip:
  assumes "6 \<le> length m"
  shows "tr_packet_getTid (tr_packet_setHeader m t s f c) = t"
    and "tr_packet_getSeqno (tr_packet_setHeader m t s f c) = s"
    and "tr_packet_getFlag (tr_packet_setHeader m t s f c) = f"
    and "tr_packet_getChecksum (tr_packet_setHeader m t s f c) = c"
proof -
  have "m \<noteq> []" "1 < length m" "2 < length m" "3 < length m" "4 < length m" "5 < length m"
    using assms by auto
  then show "tr_packet_getTid (tr_packet_setHeader m t s f c) = t"
    and "tr_packet_getSeqno (tr_packet_setHeader m t s f c) = s"
    and "tr_packet_getFlag (tr_packet_setHeader m t s f c) = f"
    and "tr_packet_getChecksum (tr_packet_setHeader m t s f c) = c"
    by (simp_all add: tr_packet_getTid_def tr_packet_getSeqno_def tr_packet_getFlag_def
        tr_packet_getChecksum_def tr_packet_setHeader_def get16le_def get8_puts)
qed

lemma getPayload_setHeader [simp]:
  "tr_packet_getPayload (tr_packet_setHeader m t s f c) = tr_packet_getPayload m"
  by (simp add: tr_packet_getPayload_def tr_packet_setHeader_def put8_def put16le_def)

text \<open>
  The loop \<open>for (i = 0; i < offsetof(TransportMsg, data) + datalen; i++)\<close> counts in a \<open>uint8_t\<close>
  against a bound of up to 261: above 255 it never ends, which is \<open>None\<close>.
\<close>

partial_function (option) tr_sum_loop :: "bytes \<Rightarrow> nat \<Rightarrow> u8 \<Rightarrow> u8 \<Rightarrow> u8 option" where
  "tr_sum_loop msg bound i acc =
    (if unat i < bound then tr_sum_loop msg bound (i + 1) (acc + get8 msg (unat i))
     else Some acc)"

definition tr_calculate_checksum :: "bytes \<Rightarrow> u8 \<Rightarrow> u8 option" where
  "tr_calculate_checksum msg datalen =
    map_option (\<lambda>s. NOT (s - get8 msg 5) + 1) (tr_sum_loop msg (6 + unat datalen) 0 0)"

definition tr_checksum_check :: "bytes \<Rightarrow> u8 \<Rightarrow> int option" where
  "tr_checksum_check msg len =
    map_option (\<lambda>c. if c = get8 msg 5 then 1 else if get8 msg 5 = 0xff then 1 else -1)
      (tr_calculate_checksum msg len)"

lemma tr_sum_loop_value:
  fixes i :: u8
  assumes "bound \<le> 255"
  shows "unat i \<le> bound \<Longrightarrow>
    tr_sum_loop msg bound i acc = Some (acc + (sum8 msg bound - sum8 msg (unat i)))"
proof (induction "bound - unat i" arbitrary: i acc)
  case 0
  then show ?case by (simp add: tr_sum_loop.simps [of _ _ i])
next
  case (Suc k)
  then have lt: "unat i < bound" by simp
  then have u: "unat (i + 1) = Suc (unat i)"
    using assms by (simp add: unat_add_u8)
  show ?case
    using Suc lt u by (simp add: tr_sum_loop.simps [of _ _ i] sum8_Suc algebra_simps)
qed

lemma tr_sum_loop_diverges:
  assumes "tr_sum_loop msg bound i acc = Some r"
  shows "bound \<le> 255"
proof (rule tr_sum_loop.raw_induct [where P = "\<lambda>msg bound i acc r. bound \<le> 255", OF _ assms])
  fix f msg bound acc r and i :: u8
  assume IH: "\<And>msg bound i acc r. f msg bound i acc = Some r \<Longrightarrow> bound \<le> 255"
    and eq: "(if unat i < bound then f msg bound (i + 1) (acc + get8 msg (unat i))
      else Some acc) = Some r"
  show "bound \<le> 255"
  proof (cases "unat i < bound")
    case True
    with eq have "f msg bound (i + 1) (acc + get8 msg (unat i)) = Some r" by simp
    then show ?thesis by (rule IH)
  next
    case False
    then show ?thesis using unat_u8_le [of i] by linarith
  qed
qed

lemma not_plus_1 [simp]: "NOT (x :: 'a::len word) + 1 = - x"
  by (simp add: minus_eq_not_plus_1)

lemma tr_calculate_checksum_eq:
  "unat datalen < 250 \<Longrightarrow>
    tr_calculate_checksum msg datalen = Some (get8 msg 5 - sum8 msg (6 + unat datalen))"
  using tr_sum_loop_value [of "6 + unat datalen" 0 msg 0]
  by (simp add: tr_calculate_checksum_def)

lemma tr_calculate_checksum_None:
  "250 \<le> unat datalen \<Longrightarrow> tr_calculate_checksum msg datalen = None"
  using tr_sum_loop_diverges [of msg "6 + unat datalen" 0 0]
  by (cases "tr_sum_loop msg (6 + unat datalen) 0 0") (auto simp: tr_calculate_checksum_def)

text \<open>The transport checksum of a packet of which \<open>n\<close> data bytes are covered.\<close>

interpretation tr_sum: checksum_field
  "\<lambda>m. the (tr_calculate_checksum m n)" 5 "\<lambda>m. 6 + unat n"
  "\<lambda>m. unat n < 250 \<and> 6 + unat n \<le> length m"
  for n :: u8
  by unfold_locales (auto simp: tr_calculate_checksum_eq)

section \<open>The checksums of dissemination packets\<close>

definition trd_bytes_sum :: "bytes \<Rightarrow> nat \<Rightarrow> u16" where
  "trd_bytes_sum m n = sum_list (map (\<lambda>i. ucast (get8 m i)) [0..<n])"

definition trd_finish_sum :: "u16 \<Rightarrow> u8 \<Rightarrow> u8" where
  "trd_finish_sum s c = ucast ((NOT (s - ucast c) + 1) AND 0x00ff)"

text \<open>\<open>len\<close> is a \<open>uint8_t\<close>: the sum of header and payload length is cut to 8 bits.\<close>

definition trd_calculate_checksum :: "bytes \<Rightarrow> u8" where
  "trd_calculate_checksum msg =
    (let len = 10 + get8 msg 8 in trd_finish_sum (trd_bytes_sum msg (unat len)) (get8 msg 9))"

text \<open>\<open>num_entries\<close> is an \<open>int8_t\<close>, sign-extended before the product is cut to 8 bits.\<close>

definition trd_control_calculate_checksum :: "bytes \<Rightarrow> u8" where
  "trd_control_calculate_checksum msg =
    (let len = word_of_int (6 + sint (get8 msg 2) * 6) :: u8
     in trd_finish_sum (trd_bytes_sum msg (unat len)) (get8 msg 5))"

definition trd_checksum_check :: "bytes \<Rightarrow> int" where
  "trd_checksum_check msg =
    (if trd_calculate_checksum msg = get8 msg 9 then 1
     else if get8 msg 9 = 0xff then 1 else -1)"

definition trd_control_checksum_check :: "bytes \<Rightarrow> int" where
  "trd_control_checksum_check msg =
    (if trd_control_calculate_checksum msg = get8 msg 5 then 1
     else if get8 msg 5 = 0xff then 1 else -1)"

lemma ucast_u8_add: "(ucast (a + b :: u16) :: u8) = ucast a + ucast b"
  by (simp add: word_eq_unat unat_ucast_u16_u8 unat_add_u16 unat_add_u8 mod_simps mod_mod_cancel)

lemma ucast_u8_minus: "(ucast (a - b :: u16) :: u8) = ucast a - ucast b"
  using ucast_u8_add [of "a - b" b] by (simp add: algebra_simps)

lemma ucast_u8_u16 [simp]: "(ucast (ucast (c :: u8) :: u16) :: u8) = c"
  by (simp add: word_eq_unat unat_ucast_u16_u8)

lemma ucast_trd_bytes_sum: "ucast (trd_bytes_sum m n) = sum8 m n"
  by (induction n) (simp_all add: trd_bytes_sum_def sum8_Suc ucast_u8_add)

lemma trd_finish_sum_eq: "trd_finish_sum s c = c - ucast s"
proof -
  have "ucast (x AND 0x00ff) = (ucast x :: u8)" for x :: u16
  proof -
    have "x AND 0x00ff = take_bit 8 x"
      by (simp add: take_bit_eq_mask mask_eq_exp_minus_1)
    then show ?thesis
      by (simp add: word_eq_unat unat_ucast_u16_u8 take_bit_eq_mod unat_mod)
  qed
  then show ?thesis
    using ucast_u8_minus [of "ucast c" s] by (simp add: trd_finish_sum_def)
qed

lemma trd_calculate_checksum_eq:
  "trd_calculate_checksum m = get8 m 9 - sum8 m (unat (10 + get8 m 8))"
  by (simp add: trd_calculate_checksum_def Let_def trd_finish_sum_eq ucast_trd_bytes_sum)

lemma trd_control_calculate_checksum_eq:
  "trd_control_calculate_checksum m =
    get8 m 5 - sum8 m (unat (word_of_int (6 + sint (get8 m 2) * 6) :: u8))"
  by (simp add: trd_control_calculate_checksum_def Let_def trd_finish_sum_eq ucast_trd_bytes_sum)

text \<open>A well-formed dissemination message: the buffer holds the header and the whole payload.\<close>

definition trd_msg_ok :: "bytes \<Rightarrow> bool" where
  "trd_msg_ok m \<longleftrightarrow> 10 + unat (get8 m 8) \<le> 255 \<and> 10 + unat (get8 m 8) = length m"

interpretation trd_sum: checksum_field
  trd_calculate_checksum 9 "\<lambda>m. unat (10 + get8 m 8)" trd_msg_ok
proof (unfold_locales, goal_cases)
  case (1 m)
  then show ?case by (simp add: trd_calculate_checksum_eq)
next
  case (2 m)
  then show ?case by (simp add: trd_msg_ok_def unat_add_u8)
next
  case (3 m)
  then show ?case by (simp add: trd_msg_ok_def unat_add_u8)
qed (auto simp: trd_msg_ok_def get8_put8)

definition trd_control_cov :: "bytes \<Rightarrow> nat" where
  "trd_control_cov m = unat (word_of_int (6 + sint (get8 m 2) * 6) :: u8)"

definition trd_control_ok :: "bytes \<Rightarrow> bool" where
  "trd_control_ok m \<longleftrightarrow> 0 \<le> sint (get8 m 2) \<and> 6 + sint (get8 m 2) * 6 \<le> 255
    \<and> 6 + sint (get8 m 2) * 6 = int (length m)"

interpretation trd_ctl: checksum_field
  trd_control_calculate_checksum 5 trd_control_cov trd_control_ok
proof (unfold_locales, goal_cases)
  case (1 m)
  then show ?case by (simp add: trd_control_calculate_checksum_eq trd_control_cov_def)
next
  case (2 m)
  then have "unat (word_of_int (6 + sint (get8 m 2) * 6) :: u8) = nat (6 + sint (get8 m 2) * 6)"
    unfolding unat_word_of_int_u8 by (intro arg_cong [where f = nat] mod_pos_pos_trivial)
      (auto simp: trd_control_ok_def)
  with 2 show ?case by (simp add: trd_control_ok_def trd_control_cov_def)
next
  case (3 m)
  then have "unat (word_of_int (6 + sint (get8 m 2) * 6) :: u8) = nat (6 + sint (get8 m 2) * 6)"
    unfolding unat_word_of_int_u8 by (intro arg_cong [where f = nat] mod_pos_pos_trivial)
      (auto simp: trd_control_ok_def)
  with 3 show ?case by (simp add: trd_control_ok_def trd_control_cov_def)
qed (auto simp: trd_control_ok_def trd_control_cov_def get8_put8)

text \<open>
  With \<open>num_entries = -1\<close>, which a node that is still initialising sends, no byte is covered: the
  computed value is the stored one, whatever the packet holds.
\<close>

lemma trd_control_minus_one_vacuous:
  "get8 m 2 = 255 \<Longrightarrow> trd_control_checksum_check m = 1"
  by (simp add: trd_control_checksum_check_def trd_control_calculate_checksum_eq)

section \<open>Properties\<close>

text \<open>
  A transport packet that carries the computed checksum passes the check, and with any one
  covered byte changed it is refused, unless the change makes the stored byte 0xff, the value that
  switches the check off.
\<close>

theorem tr_checksum_detects_one_byte:
  assumes n: "unat n < 250" "6 + unat n \<le> length m"
    and sealed: "tr_calculate_checksum m n = Some c" "m' = put8 m 5 c"
    and j: "j < 6 + unat n" "j \<noteq> 5" "v \<noteq> get8 m j"
  shows "tr_checksum_check m' n = Some 1
    \<and> tr_checksum_check (put8 m' j v) n = Some (if c = 0xff then 1 else -1)"
proof -
  have c: "c = the (tr_calculate_checksum m n)" using sealed by simp
  have g5: "get8 m' 5 = c" using n sealed by (simp add: get8_put8)
  have gj: "get8 m' j = get8 m j" using sealed j by (simp add: get8_put8)
  have ok: "the (tr_calculate_checksum m' n) = get8 m' 5"
    using tr_sum.calc_ignores_field [of n m c] n sealed(2) c g5 by simp
  have "the (tr_calculate_checksum (put8 m' j v) n) \<noteq> get8 (put8 m' j v) 5"
    using n j sealed by (intro tr_sum.one_byte_corruption [OF _ ok]) (simp_all add: get8_put8)
  moreover have g: "get8 (put8 m' j v) 5 = c" using g5 j by (simp add: get8_put8)
  moreover obtain d where d: "tr_calculate_checksum (put8 m' j v) n = Some d"
    using n by (simp add: tr_calculate_checksum_eq)
  ultimately have "d \<noteq> c" by simp
  moreover have "tr_calculate_checksum m' n = Some c"
    using ok n g5 by (simp add: tr_calculate_checksum_eq)
  ultimately show ?thesis
    using g g5 d by (simp add: tr_checksum_check_def)
qed

theorem tr_checksum_detects_one_byte_witness:
  "tr_checksum_check (put8 (put8 [1, 0, 2, 0, 0, 0, 9] 5 244) 6 8) 1 = Some (-1)"
proof -
  have c: "tr_calculate_checksum [1, 0, 2, 0, 0, 0, 9] 1 = Some 244"
    by (simp add: tr_calculate_checksum_eq sum8_def get8_def upt_rec)
  show ?thesis
    using tr_checksum_detects_one_byte [of 1 "[1, 0, 2, 0, 0, 0, 9]" 244 _ 6 8, OF _ _ c refl]
    by (simp add: get8_def)
qed

text \<open>
  The transport checksum returns exactly when the data are shorter than 250 bytes: the loop
  counter has 8 bits and the bound has not.
\<close>

theorem tr_checksum_check_terminates_iff:
  "tr_checksum_check m n \<noteq> None \<longleftrightarrow> unat n < 250"
  by (cases "unat n < 250")
    (simp_all add: tr_checksum_check_def tr_calculate_checksum_eq tr_calculate_checksum_None)

text \<open>
  A sealed dissemination message passes its check, and one changed byte, other than the length
  and the checksum, is detected.
\<close>

theorem trd_checksum_detects_one_byte:
  assumes ok: "trd_msg_ok m" and sealed: "m' = put8 m 9 (trd_calculate_checksum (put8 m 9 0))"
    and j: "j < length m" "j \<noteq> 8" "j \<noteq> 9" "v \<noteq> get8 m j" "get8 m' 9 \<noteq> 0xff"
  shows "trd_checksum_check m' = 1 \<and> trd_checksum_check (put8 m' j v) = -1"
proof -
  have ok': "trd_msg_ok m'" using ok by (simp add: sealed trd_sum.put_pos)
  have pass: "trd_calculate_checksum m' = get8 m' 9" by (rule trd_sum.sealed_passes [OF ok sealed])
  have "trd_calculate_checksum (put8 m' j v) \<noteq> get8 (put8 m' j v) 9"
  proof (rule trd_sum.one_byte_corruption [OF ok' pass])
    show "j < unat (10 + get8 m' 8)"
      using ok' j(1) sealed by (auto simp: trd_msg_ok_def unat_add_u8)
    show "v \<noteq> get8 m' j" using j by (simp add: sealed get8_put8)
  qed (use j ok' in \<open>simp_all add: trd_msg_ok_def get8_put8\<close>)
  then show ?thesis using pass j by (simp add: trd_checksum_check_def get8_put8)
qed

theorem trd_checksum_detects_one_byte_witness:
  "trd_checksum_check (put8 (put8 [0, 7, 0, 1, 0, 3, 9, 0, 1, 5, 77] 9
    (trd_calculate_checksum (put8 [0, 7, 0, 1, 0, 3, 9, 0, 1, 5, 77] 9 0))) 10 78) = -1"
proof -
  let ?m = "[0, 7, 0, 1, 0, 3, 9, 0, 1, 5, 77] :: bytes"
  have "get8 (put8 ?m 9 (trd_calculate_checksum (put8 ?m 9 0))) 9 \<noteq> 0xff"
    by (simp add: trd_calculate_checksum_eq sum8_def get8_def put8_def upt_rec)
  then show ?thesis
    using trd_checksum_detects_one_byte [of ?m _ 10 78, OF _ refl]
    by (simp add: get8_def trd_msg_ok_def)
qed

text \<open>
  A control message that announces -1 entries, which a node sends while it initialises, passes
  its check whatever its other bytes are: no byte is covered.
\<close>

theorem trd_control_init_unprotected:
  assumes "get8 m 2 = 255" "j \<noteq> 2"
  shows "trd_control_checksum_check (put8 m j v) = 1"
  using assms by (intro trd_control_minus_one_vacuous) (simp add: get8_put8)

theorem trd_control_init_unprotected_witness:
  "trd_control_checksum_check (put8 [1, 2, 255, 0, 0, 17] 5 99) = 1"
  using trd_control_init_unprotected [of "[1, 2, 255, 0, 0, 17]" 5 99] by (simp add: get8_def)

end
