(* ===== verification/Trd_State.thy ===== *)
theory Trd_State
  imports Trd_Memory Trd_Timer Metalist Checksum
begin

text \<open>
  Model of src/master/trd/trd_state.c, the state machine of the dissemination protocol on a master,
  and of the sending half of src/master/trd/trd.c that it calls. The globals of both files are one
  record; \<open>outbox\<close> is what has been written to the mote cloud: AM type, address and bytes, oldest
  first. A handler gets what the environment supplies to the call in an \<open>env\<close>: the clock, the
  values of \<open>lrand48()\<close>, and the contents of uninitialised locals. \<open>None\<close> means that the C code
  writes outside an array or does not return. Printing is left out.
\<close>

definition TRD_S_DISCONNECTED :: u8 where [consts_defs]: "TRD_S_DISCONNECTED = 0x00"
definition TRD_S_INIT_0 :: u8 where [consts_defs]: "TRD_S_INIT_0 = 0x11"
definition TRD_S_INIT :: u8 where [consts_defs]: "TRD_S_INIT = 0x01"
definition TRD_S_INIT_READY :: u8 where [consts_defs]: "TRD_S_INIT_READY = 0x21"
definition TRD_S_STEADY :: u8 where [consts_defs]: "TRD_S_STEADY = 0x02"
definition TRD_S_RX :: u8 where [consts_defs]: "TRD_S_RX = 0x04"
definition TRD_S_TX :: u8 where [consts_defs]: "TRD_S_TX = 0x08"
definition TRD_S_FAST_PACKET :: u8 where [consts_defs]: "TRD_S_FAST_PACKET = 0x10"
definition TRD_FAST_RETX_COUNT :: int where [consts_defs]: "TRD_FAST_RETX_COUNT = 1"
definition TRD_RECOVER_LIST_SIZE :: nat where
  [consts_defs]: "TRD_RECOVER_LIST_SIZE = TRD_CACHE_ENTRIES_PER_NODE"
definition TRD_RETRY_TIME :: nat where [consts_defs]: "TRD_RETRY_TIME = 100"
definition TRD_RX_WAIT_TIME :: nat where [consts_defs]: "TRD_RX_WAIT_TIME = 200"
definition TRD_AGE_UNITTIME :: nat where [consts_defs]: "TRD_AGE_UNITTIME = 10240"
definition AM_TRD_MSG :: u8 where [consts_defs]: "AM_TRD_MSG = 0x75"
definition AM_TRD_CONTROL :: u8 where [consts_defs]: "AM_TRD_CONTROL = 0x73"
definition TRD_CONTROL_SUMMARY :: u8 where [consts_defs]: "TRD_CONTROL_SUMMARY = 0xcc"
definition TRD_CONTROL_REQUEST :: u8 where [consts_defs]: "TRD_CONTROL_REQUEST = 0xdd"
definition TOS_BCAST_ADDR :: u16 where [consts_defs]: "TOS_BCAST_ADDR = 0xffff"

record env =
  e_now :: timeval
  e_rnd :: nat
  e_rnd2 :: nat
  e_buf :: bytes
  e_age :: u16

record trd_state =
  m_state :: u8
  m_table :: TRD_Table
  m_mem :: TRD_Memory
  lastpacket :: bytes
  lastmeta_origin :: u16
  lastmeta_seqno :: u16
  m_fast_retx_count :: int
  recover_alarm_time :: timeval
  aging_alarm_time :: timeval
  init_alarm_time :: timeval
  bootup_time :: timeval
  init_loop_cnt :: int
  init_done :: bool
  m_recoverlist :: MetaList
  m_rlistbuf :: "MetaListEntry list"
  m_seqno :: u16
  trickle_timer :: trickle
  TRD_LOCAL_ADDRESS :: u16
  ms_fd :: int
  outbox :: "(u8 \<times> u16 \<times> bytes) list"
  delivered :: "(u16 \<times> bytes) list"

section \<open>Sending (trd.c)\<close>

text \<open>The result of \<open>send_to_mote_cloud\<close> is -1 when there is no socket.\<close>

definition send_to_mote_cloud ::
    "nat \<Rightarrow> bytes \<Rightarrow> u8 \<Rightarrow> u16 \<Rightarrow> trd_state \<Rightarrow> int \<times> trd_state" where
  "send_to_mote_cloud len msg ty addr st =
    (if ms_fd st = 0 then (-1, st)
     else (1, st\<lparr>outbox := outbox st @ [(ty, addr, take len msg)]\<rparr>))"

text \<open>The message is completed in place: the new message is part of the result.\<close>

definition trd_rebroadcast :: "nat \<Rightarrow> bytes \<Rightarrow> trd_state \<Rightarrow> bytes \<times> trd_state" where
  "trd_rebroadcast len rmsg st =
    (let m1 = put8 (put16le rmsg 6 (TRD_LOCAL_ADDRESS st)) 9 0;
         m2 = put8 m1 9 (trd_calculate_checksum m1)
     in (m2, snd (send_to_mote_cloud len m2 AM_TRD_MSG TOS_BCAST_ADDR st)))"

definition trd_send_control :: "nat \<Rightarrow> bytes \<Rightarrow> u16 \<Rightarrow> trd_state \<Rightarrow> trd_state" where
  "trd_send_control len cmsg toAddr st =
    (let m1 = put8 (put8 cmsg 4 0) 5 0;
         m2 = put8 m1 5 (trd_control_calculate_checksum m1)
     in snd (send_to_mote_cloud len m2 AM_TRD_CONTROL toAddr st))"

definition trd_send_summary :: "nat \<Rightarrow> bytes \<Rightarrow> trd_state \<Rightarrow> trd_state" where
  "trd_send_summary len smsg st =
    trd_send_control len (put8 smsg 3 TRD_CONTROL_SUMMARY) TOS_BCAST_ADDR st"

definition trd_send_request :: "nat \<Rightarrow> bytes \<Rightarrow> u16 \<Rightarrow> trd_state \<Rightarrow> trd_state" where
  "trd_send_request len qmsg toAddr st =
    trd_send_control len (put8 qmsg 3 TRD_CONTROL_REQUEST) toAddr st"

section \<open>Timers of the state machine\<close>

definition recovertimer_init :: "trd_state \<Rightarrow> trd_state" where
  "recovertimer_init st = st\<lparr>recover_alarm_time := clear_timeval\<rparr>"

definition recovertimer_start :: "env \<Rightarrow> nat \<Rightarrow> trd_state \<Rightarrow> trd_state" where
  "recovertimer_start e ms st = st\<lparr>recover_alarm_time := add_ms_to_timeval (e_now e) ms\<rparr>"

definition recovertimer_stop :: "trd_state \<Rightarrow> trd_state" where
  "recovertimer_stop st = recovertimer_init st"

definition inittimer_init :: "trd_state \<Rightarrow> trd_state" where
  "inittimer_init st = st\<lparr>init_alarm_time := clear_timeval\<rparr>"

definition inittimer_start :: "env \<Rightarrow> nat \<Rightarrow> trd_state \<Rightarrow> trd_state" where
  "inittimer_start e ms st = st\<lparr>init_alarm_time := add_ms_to_timeval (e_now e) ms\<rparr>"

definition inittimer_stop :: "trd_state \<Rightarrow> trd_state" where
  "inittimer_stop st = inittimer_init st"

definition agingtimer_init :: "trd_state \<Rightarrow> trd_state" where
  "agingtimer_init st = st\<lparr>aging_alarm_time := clear_timeval\<rparr>"

definition agingtimer_start :: "env \<Rightarrow> nat \<Rightarrow> trd_state \<Rightarrow> trd_state" where
  "agingtimer_start e ms st = st\<lparr>aging_alarm_time := add_ms_to_timeval (e_now e) ms\<rparr>"

definition timer_reset :: "env \<Rightarrow> trd_state \<Rightarrow> trd_state" where
  "timer_reset e st = st\<lparr>trickle_timer := trd_timer_reset (trickle_timer st) (e_rnd e)\<rparr>"

definition timer_processed :: "trd_state \<Rightarrow> trd_state" where
  "timer_processed st = st\<lparr>trickle_timer := trd_timer_processed (trickle_timer st)\<rparr>"

definition timer_suppress :: "trd_state \<Rightarrow> trd_state" where
  "timer_suppress st = st\<lparr>trickle_timer := trd_timer_suppress (trickle_timer st)\<rparr>"

definition inittimer_fired :: "env \<Rightarrow> trd_state \<Rightarrow> trd_state" where
  "inittimer_fired e st0 =
    (let st = inittimer_stop st0 in
     if m_state st = TRD_S_DISCONNECTED then
       (let st1 = timer_reset e (inittimer_start e 20000 st);
            old = init_loop_cnt st1; st2 = st1\<lparr>init_loop_cnt := old + 1\<rparr>
        in if old \<ge> 2 then st2\<lparr>m_state := TRD_S_INIT_0\<rparr> else st2)
     else if m_state st = TRD_S_INIT_0 then
       timer_reset e ((inittimer_start e 4000 st)\<lparr>m_state := TRD_S_INIT\<rparr>)
     else if m_state st = TRD_S_INIT then
       inittimer_start e 10000 (st\<lparr>m_state := TRD_S_INIT_READY\<rparr>)
     else if m_state st = TRD_S_INIT_READY then
       st\<lparr>m_state := TRD_S_STEADY, init_done := True\<rparr>
     else if (m_state st AND TRD_S_RX) \<noteq> 0 then inittimer_start e 1000 st
     else st)"

definition age_unittime :: nat where
  [consts_defs]: "age_unittime = TRD_AGE_UNITTIME * 1000 div 1024"

lemma age_unittime_eq: "age_unittime = 10000"
  by (simp add: consts_defs)

text \<open>The \<open>do .. while\<close> loop of \<open>agingtimer_fired\<close>.\<close>

function aging_loop :: "TRD_Table \<Rightarrow> nat \<Rightarrow> TRD_Table" where
  "aging_loop t late =
    (let t' = trd_table_incrementAge t;
         late' = (if late > age_unittime then late - age_unittime else late)
     in if late' > age_unittime then aging_loop t' late' else t')"
  by pat_completeness auto
termination
  by (relation "measure snd") (auto simp: age_unittime_eq split: if_splits)

declare aging_loop.simps [simp del]

definition agingtimer_fired :: "env \<Rightarrow> nat \<Rightarrow> trd_state \<Rightarrow> trd_state" where
  "agingtimer_fired e time_late_ms st =
    (let st1 = agingtimer_start e age_unittime st
     in st1\<lparr>m_table := aging_loop (m_table st1) time_late_ms\<rparr>)"

section \<open>Start and sending state\<close>

definition trd_state_init :: "env \<Rightarrow> trd_state \<Rightarrow> trd_state" where
  "trd_state_init e st0 =
    (let st1 = (agingtimer_init (recovertimer_init (inittimer_init st0)))
           \<lparr>bootup_time := e_now e, m_state := TRD_S_DISCONNECTED\<rparr>;
         st2 = st1\<lparr>m_table := trd_table_init (m_table st1),
           trickle_timer := trd_timer_init (trickle_timer st1) (e_now e) (e_rnd e),
           m_mem := trd_memory_init (m_mem st1),
           m_recoverlist := metalist_init (m_rlistbuf st1) TRD_RECOVER_LIST_SIZE\<rparr>;
         st3 = agingtimer_start e age_unittime (inittimer_start e 10000 st2)
     in st3\<lparr>lastmeta_origin := TRD_INVALID_ORIGIN, lastmeta_seqno := TRD_SEQNO_UNKNOWN,
            init_loop_cnt := 0, init_done := False\<rparr>)"

definition trd_state_sendReady :: "trd_state \<Rightarrow> bool" where
  "trd_state_sendReady st \<longleftrightarrow> init_done st"

definition trd_state_getNextSeqno :: "trd_state \<Rightarrow> u16 \<times> trd_state" where
  "trd_state_getNextSeqno st =
    (let s0 = trd_table_getLastSeqno (m_table st) (TRD_LOCAL_ADDRESS st);
         s1 = (if s0 = TRD_SEQNO_UNKNOWN then m_seqno st else s0);
         s2 = trd_seqno_next s1
     in (s2, st\<lparr>m_seqno := s2\<rparr>))"

section \<open>Receiving a dissemination packet\<close>

text \<open>
  The common tail of the cases \<open>TOO_NEW\<close>, \<open>NULL\<close> and \<open>NEXT_NEW\<close>. The copy into \<open>lastpacket\<close> is
  not guarded: a packet longer than its 200 bytes gives \<open>None\<close>.
\<close>

definition remember_packet :: "bytes \<Rightarrow> trd_state \<Rightarrow> trd_state" where
  "remember_packet rmsg st =
    (let len = unat (get8 rmsg 8) + 10
     in st\<lparr>lastpacket := take len rmsg @ drop len (lastpacket st),
           lastmeta_origin := get16be rmsg 0, lastmeta_seqno := get16be rmsg 2\<rparr>)"

definition enter_fast :: "trd_state \<Rightarrow> trd_state" where
  "enter_fast st =
    (if m_state st = TRD_S_STEADY
     then st\<lparr>m_state := TRD_S_FAST_PACKET, m_fast_retx_count := TRD_FAST_RETX_COUNT\<rparr> else st)"

text \<open>Whether the packet is passed up; while initialising, and after a jump in the sequence numbers,
  only if it was generated after the start of this node.\<close>

definition newMsg_signal :: "env \<Rightarrow> u16 \<Rightarrow> u16 \<Rightarrow> bool \<Rightarrow> trd_state \<Rightarrow> int \<times> trd_state" where
  "newMsg_signal e origin age check_age st =
    (let signal = (if origin \<noteq> TRD_LOCAL_ADDRESS st then 1 else 0) in
     if (m_state st AND TRD_S_INIT) \<noteq> 0 \<or> check_age then
       (let ct = (case subtract_timeval (e_now e) (bootup_time st) of
                    None \<Rightarrow> e_now e | Some d \<Rightarrow> d);
            ct_age = of_nat (tv2ms ct div TRD_AGE_UNITTIME) + 1 :: u16
        in if age < TRD_AGE_IGNORE_OLD \<and> ct_age \<ge> age
           then (signal, st\<lparr>m_state := TRD_S_INIT_READY\<rparr>) else (0, st))
     else (signal, st))"

definition newMsg_accept ::
    "env \<Rightarrow> bytes \<Rightarrow> bool \<Rightarrow> trd_state \<Rightarrow> (int \<times> bytes \<times> trd_state) option" where
  "newMsg_accept e rmsg check_age st =
    (let origin = get16be rmsg 0; seqno = get16be rmsg 2; age = get16be rmsg 4;
         len = unat (get8 rmsg 8) + 10
     in if len > length (lastpacket st) then None
     else case trd_memory_write (m_mem (remember_packet rmsg st)) rmsg (int len) of
         None \<Rightarrow> Some (0, rmsg, remember_packet rmsg st)
       | Some (memloc, mem) \<Rightarrow> do {
           (r, tab) \<leftarrow> trd_table_insert (m_table (remember_packet rmsg st)) origin seqno memloc age;
           let st2 = (remember_packet rmsg st)\<lparr>m_mem := mem, m_table := tab\<rparr>;
           let (rmsg', st3) = (if origin \<noteq> TRD_LOCAL_ADDRESS st2 then trd_rebroadcast len rmsg st2
                               else (rmsg, st2));
           let (ok, st4) = newMsg_signal e origin age check_age (enter_fast (timer_reset e st3));
           Some (ok, rmsg', st4)
         })"

definition newMsg_connect :: "env \<Rightarrow> trd_state \<Rightarrow> trd_state" where
  "newMsg_connect e st =
    (if m_state st = TRD_S_DISCONNECTED
     then inittimer_start e 4000 (st\<lparr>m_state := TRD_S_INIT_0\<rparr>) else st)"

definition trd_state_newMsg :: "env \<Rightarrow> bytes \<Rightarrow> trd_state \<Rightarrow> (int \<times> bytes \<times> trd_state) option" where
  "trd_state_newMsg e rmsg st0 =
    (let st = newMsg_connect e st0;
         origin = get16be rmsg 0; seqno = get16be rmsg 2; age = get16be rmsg 4
     in do {
       (c, tab) \<leftarrow> trd_table_classify (m_table st) origin seqno age;
       let st1 = st\<lparr>m_table := tab\<rparr>;
       (case c of
          TRD_CLASS_UNKNOWN \<Rightarrow> Some (0, rmsg, st1)
        | TRD_CLASS_TOO_OLD \<Rightarrow> Some (0, rmsg, st1)
        | TRD_CLASS_IN_OLD \<Rightarrow> Some (0, rmsg, st1)
        | TRD_CLASS_IN_LAST \<Rightarrow>
            Some (0, rmsg,
              (if origin = lastmeta_origin st1 \<and> lastmeta_origin st1 \<noteq> TRD_INVALID_ORIGIN
                 \<and> seqno = lastmeta_seqno st1 \<and> lastmeta_seqno st1 \<noteq> TRD_SEQNO_UNKNOWN
                 \<and> m_state st1 \<noteq> TRD_S_FAST_PACKET
               then timer_suppress st1 else st1))
        | TRD_CLASS_NEWER \<Rightarrow> Some (0, rmsg, timer_reset e st1)
        | TRD_CLASS_TOO_NEW \<Rightarrow>
            (let st2 = st1\<lparr>m_table := snd (trd_table_removeNode (m_table st1) origin)\<rparr>
             in if trd_table_isFull (m_table st2)
                then Some (0, rmsg, st2\<lparr>m_table := trd_table_incrementAge (m_table st2)\<rparr>)
                else newMsg_accept e rmsg True st2)
        | TRD_CLASS_NULL \<Rightarrow>
            (if trd_table_isFull (m_table st1)
             then Some (0, rmsg, st1\<lparr>m_table := trd_table_incrementAge (m_table st1)\<rparr>)
             else newMsg_accept e rmsg False st1)
        | TRD_CLASS_NEXT_NEW \<Rightarrow> newMsg_accept e rmsg False st1)
     })"

section \<open>Summaries and the fast packet\<close>

text \<open>The header and the entries of the local buffer are all written before it is sent.\<close>

definition send_summary :: "env \<Rightarrow> bool \<Rightarrow> trd_state \<Rightarrow> trd_state" where
  "send_summary e ignore_old st =
    (case trd_table_summarize (m_table st) (e_buf e) ignore_old of (r, smsg, len) \<Rightarrow>
       let smsg1 = (if m_state st = TRD_S_DISCONNECTED \<or> (m_state st AND TRD_S_INIT) \<noteq> 0
                    then put8 smsg 2 0xff else smsg);
           smsg2 = put16le smsg1 0 (TRD_LOCAL_ADDRESS st)
       in trd_send_summary len smsg2 st)"

definition send_fast_packet :: "trd_state \<Rightarrow> trd_state" where
  "send_fast_packet st =
    (let rmsg = lastpacket st; len = unat (get8 rmsg 8) + 10;
         (rmsg', st1) = trd_rebroadcast len rmsg st;
         st2 = st1\<lparr>lastpacket := rmsg'\<rparr>;
         old = m_fast_retx_count st2; st3 = st2\<lparr>m_fast_retx_count := old - 1\<rparr>
     in if old \<le> 0 then st3\<lparr>m_state := TRD_S_STEADY\<rparr> else st3)"

definition trd_timer_fired :: "env \<Rightarrow> trd_state \<Rightarrow> trd_state" where
  "trd_timer_fired e st =
    timer_processed
      (if m_state st = TRD_S_FAST_PACKET then send_fast_packet st
       else if (m_state st AND TRD_S_RX) \<noteq> 0 then st\<lparr>m_state := m_state st AND NOT TRD_S_RX\<rparr>
       else if m_state st = TRD_S_STEADY then send_summary e True st
       else if (m_state st AND TRD_S_INIT) \<noteq> 0 then send_summary e True st
       else if m_state st = TRD_S_DISCONNECTED then send_summary e True st
       else st)"

text \<open>What the loop over a received summary computes: table, request, and two decisions.\<close>

record sum_acc =
  sa_table :: TRD_Table
  sa_req :: bytes
  sa_imm :: bool
  sa_sup :: bool

definition add_request :: "bytes \<Rightarrow> u16 \<Rightarrow> u16 \<Rightarrow> bytes" where
  "add_request req origin seqno =
    (let jj = nat (sint (get8 req 2)); req1 = put8 req 2 (get8 req 2 + 1)
     in put16be (put16be req1 (6 + 6 * jj) origin) (6 + 6 * jj + 2) seqno)"

definition summary_entry :: "bytes \<Rightarrow> nat \<Rightarrow> sum_acc \<Rightarrow> sum_acc option" where
  "summary_entry smsg i acc =
    (case get_meta smsg i of (origin, seqno, age) \<Rightarrow> do {
       (c, tab) \<leftarrow> trd_table_classify (sa_table acc) origin seqno age;
       let acc1 = acc\<lparr>sa_table := tab\<rparr>;
       let room = sint (get8 (sa_req acc1) 2) < int TRD_REQUEST_ENTRIES;
       let want_all = (\<lambda>a. if room then a\<lparr>sa_req := add_request (sa_req a) origin TRD_SEQNO_OLDEST\<rparr>
                           else a);
       let want_next = (let reqseqno = trd_table_getLastSeqno (sa_table acc1) origin
          in if trd_seqno_cmp reqseqno seqno < 0 \<and> room
             then acc1\<lparr>sa_req := add_request (sa_req acc1) origin (trd_seqno_next reqseqno)\<rparr>
             else acc1);
       Some (case c of
          TRD_CLASS_IN_LAST \<Rightarrow> acc1\<lparr>sa_sup := True\<rparr>
        | TRD_CLASS_NEXT_NEW \<Rightarrow> want_next
        | TRD_CLASS_NEWER \<Rightarrow> want_next
        | TRD_CLASS_TOO_NEW \<Rightarrow>
            want_all (acc1\<lparr>sa_table := snd (trd_table_removeNode (sa_table acc1) origin)\<rparr>)
        | TRD_CLASS_NULL \<Rightarrow> want_all acc1
        | TRD_CLASS_UNKNOWN \<Rightarrow> want_all acc1
        | TRD_CLASS_IN_OLD \<Rightarrow> acc1\<lparr>sa_imm := True\<rparr>
        | TRD_CLASS_TOO_OLD \<Rightarrow> acc1\<lparr>sa_imm := True\<rparr>)
     })"

primrec summary_loop :: "bytes \<Rightarrow> nat list \<Rightarrow> sum_acc \<Rightarrow> sum_acc option" where
  "summary_loop smsg [] acc = Some acc"
| "summary_loop smsg (i # is) acc = do {
     acc' \<leftarrow> summary_entry smsg i acc;
     summary_loop smsg is acc'
   }"

text \<open>What follows the loop.\<close>

definition summary_react :: "env \<Rightarrow> bytes \<Rightarrow> u16 \<Rightarrow> sum_acc \<Rightarrow> trd_state \<Rightarrow> trd_state" where
  "summary_react e smsg reqaddr acc st0 =
    (let st = st0\<lparr>m_table := sa_table acc\<rparr>;
         imm = (sa_imm acc \<or> (int (trd_table_numEntries (m_table st)) > sint (get8 smsg 2)
                  \<and> \<not> trd_table_ignoreSummary (m_table st) smsg));
         n = sint (get8 (sa_req acc) 2)
     in if n > 0 then
          (if (m_state st AND TRD_S_RX) = 0 then
             (let st1 = trd_send_request (nat (6 + 6 * n)) (sa_req acc)
                    (if (m_state st AND TRD_S_INIT) \<noteq> 0 then TOS_BCAST_ADDR else reqaddr) st
              in if m_state st1 = TRD_S_STEADY \<or> (m_state st1 AND TRD_S_INIT) \<noteq> 0
                 then st1\<lparr>trickle_timer := trd_timer_set (trickle_timer st1)
                          (of_int (n * int TRD_RX_WAIT_TIME)) (e_rnd e),
                        m_state := m_state st1 OR TRD_S_RX\<rparr>
                 else st1)
           else st)
        else if imm then timer_processed (timer_reset e (send_summary e True st))
        else if sa_sup acc then
          (let st1 = timer_suppress st
           in if m_state st1 = TRD_S_INIT_READY \<and> trd_table_numEntries (m_table st1) > 0
              then inittimer_stop (st1\<lparr>m_state := TRD_S_STEADY, init_done := True\<rparr>) else st1)
        else st)"

definition trd_state_summaryReceived :: "env \<Rightarrow> bytes \<Rightarrow> trd_state \<Rightarrow> trd_state option" where
  "trd_state_summaryReceived e smsg0 st0 =
    (let st = newMsg_connect e st0;
         reqaddr = get16le smsg0 0;
         req = put16le (put8 (e_buf e) 2 0) 0 (TRD_LOCAL_ADDRESS st);
         n0 = sint (get8 smsg0 2);
         smsg = (if n0 < 0 then put8 smsg0 2 0 else smsg0);
         st1 = (if n0 < 0 \<and> trd_table_numEntries (m_table st) > 0 \<and> m_state st = TRD_S_STEADY
                then send_summary e False st else st);
         sup = (n0 = 0 \<and> trd_table_numEntries (m_table st) = 0 \<and> m_state st = TRD_S_STEADY)
     in do {
       acc \<leftarrow> summary_loop smsg [0..<nat (sint (get8 smsg 2))]
         \<lparr>sa_table = m_table st1, sa_req = req, sa_imm = False, sa_sup = sup\<rparr>;
       Some (summary_react e smsg reqaddr acc st1)
     })"

section \<open>Recovery requests\<close>

text \<open>
  \<open>read_memory\<close> completes the packet inside the store. If the packet there is not in the table any
  more, the local \<open>age\<close> is uninitialised.
\<close>

definition read_memory :: "env \<Rightarrow> trd_state \<Rightarrow> trd_state" where
  "read_memory e st =
    (case metalist_getFirst (m_recoverlist st) of
       None \<Rightarrow> recovertimer_stop st
     | Some entry \<Rightarrow>
       (let dropped = st\<lparr>m_recoverlist := snd (metalist_deleteFirst (m_recoverlist st))\<rparr>
        in case trd_table_getMemloc (m_table st) (me_origin entry) (me_seqno entry) of
           None \<Rightarrow> dropped
         | Some memloc \<Rightarrow>
           (case trd_memory_read (m_mem st) memloc of
              None \<Rightarrow> dropped
            | Some (packet, mlen) \<Rightarrow>
              (let len = unat (get8 packet 8) + 10;
                   age = (case trd_table_getAge (m_table st) (get16be packet 0) (get16be packet 2) of
                            None \<Rightarrow> e_age e | Some a \<Rightarrow> a);
                   rmsg = put16be packet 4 age;
                   (rmsg', st1) = trd_rebroadcast len rmsg dropped;
                   slot = mem_array (m_mem st1) ! unat memloc;
                   st2 = st1\<lparr>m_mem := (m_mem st1)\<lparr>mem_array :=
                     (mem_array (m_mem st1))[unat memloc := slot\<lparr>mm_packet := rmsg'\<rparr>]\<rparr>\<rparr>;
                   st3 = (if metalist_isEmpty (m_recoverlist st2) then
                       recovertimer_stop
                         (if m_state st2 = TRD_S_TX then st2\<lparr>m_state := TRD_S_STEADY\<rparr> else st2)
                     else st2)
               in recovertimer_start e TRD_RETRY_TIME st3))))"

definition recovertimer_fired :: "env \<Rightarrow> trd_state \<Rightarrow> trd_state" where
  "recovertimer_fired e st = read_memory e st"

text \<open>The inner loop of \<open>trd_state_requestReceived\<close>.\<close>

partial_function (option) request_fill ::
    "TRD_Table \<Rightarrow> u16 \<Rightarrow> u16 \<Rightarrow> MetaList \<Rightarrow> MetaList option" where
  "request_fill t origin seqno rl =
    (if \<not> metalist_isFull rl \<and> trd_table_exist t origin seqno
     then do {
       rl' \<leftarrow> metalist_insert rl origin seqno;
       request_fill t origin (trd_seqno_next seqno) rl'
     }
     else Some rl)"

primrec request_loop :: "TRD_Table \<Rightarrow> bytes \<Rightarrow> nat list \<Rightarrow> MetaList \<Rightarrow> MetaList option" where
  "request_loop t qmsg [] rl = Some rl"
| "request_loop t qmsg (i # is) rl =
    (case get_meta qmsg i of (origin, seqno0, _) \<Rightarrow>
       let seqno = (if seqno0 = TRD_SEQNO_OLDEST then trd_table_getOldestSeqno t origin else seqno0)
       in if seqno = TRD_SEQNO_UNKNOWN \<or> seqno > TRD_SEQNO_LAST then Some rl
          else do {
            rl' \<leftarrow> request_fill t origin seqno rl;
            request_loop t qmsg is rl'
          })"

definition trd_state_requestReceived :: "env \<Rightarrow> bytes \<Rightarrow> trd_state \<Rightarrow> trd_state option" where
  "trd_state_requestReceived e qmsg st = do {
     rl \<leftarrow> request_loop (m_table st) qmsg [0..<nat (sint (get8 qmsg 2))] (m_recoverlist st);
     let st1 = st\<lparr>m_recoverlist := rl\<rparr>;
     let st2 = (if m_state st1 = TRD_S_STEADY \<and> \<not> metalist_isEmpty rl
                then st1\<lparr>m_state := TRD_S_TX\<rparr> else st1);
     Some (recovertimer_start e TRD_RETRY_TIME (read_memory e st2))
   }"

section \<open>Polling\<close>

definition alarm_check :: "timeval \<Rightarrow> env \<Rightarrow> bool" where
  "alarm_check alarm e \<longleftrightarrow> (tv_sec alarm > 0 \<or> tv_usec alarm > 0)
     \<and> compare_timeval alarm (e_now e) \<le> 0"

definition trickleFired :: "env \<Rightarrow> trd_state \<Rightarrow> trd_state" where
  "trickleFired e st =
    (let (fire, t) = trickle_count (trickle_timer st) (e_rnd e);
         st1 = st\<lparr>trickle_timer := t\<rparr>;
         st2 = (if fire then trd_timer_fired e st1 else st1)
     in st2\<lparr>trickle_timer := trickle_rearm (trickle_timer st2) (e_now e) (e_rnd2 e)\<rparr>)"

definition poll_trickle_timer :: "env \<Rightarrow> trd_state \<Rightarrow> trd_state" where
  "poll_trickle_timer e st =
    (if trickle_due (trickle_timer st) (e_now e) then trickleFired e st else st)"

text \<open>
  The code reads the clock once for the three alarms and once more in each function it calls; the
  second \<open>env\<close> is for the calls after the trickle timer.
\<close>

definition polling_trd_state_timer :: "env \<Rightarrow> env \<Rightarrow> trd_state \<Rightarrow> trd_state" where
  "polling_trd_state_timer e1 e2 st0 =
    (let st1 = poll_trickle_timer e1 st0;
         st2 = (if alarm_check (init_alarm_time st1) e2 then inittimer_fired e2 st1 else st1);
         st3 = (if alarm_check (recover_alarm_time st2) e2 then recovertimer_fired e2 st2 else st2)
     in if alarm_check (aging_alarm_time st3) e2 then
          (case subtract_timeval (e_now e2) (aging_alarm_time st3) of
             Some diff \<Rightarrow> agingtimer_fired e2 (tv2ms diff) st3
           | None \<Rightarrow> st3)
        else st3)"

section \<open>What is sent is sealed\<close>

lemma get8_take: "i < n \<Longrightarrow> get8 (take n b) i = get8 b i"
  by (simp add: get8_def)

lemma sum8_take: "k \<le> n \<Longrightarrow> sum8 (take n b) k = sum8 b k"
  by (induction k) (simp_all add: sum8_Suc get8_take)

definition msg_len :: "bytes \<Rightarrow> nat" where
  "msg_len m = unat (get8 m 8) + 10"

text \<open>A message that leaves the master: a dissemination message or a control message with the address
  of the master and a checksum that passes.\<close>

definition out_ok :: "u16 \<Rightarrow> u8 \<times> u16 \<times> bytes \<Rightarrow> bool" where
  "out_ok a x = (case x of (ty, to, b) \<Rightarrow>
     (ty = AM_TRD_MSG \<and> trd_checksum_check b = 1 \<and> get16le b 6 = a \<and> length b = msg_len b)
   \<or> (ty = AM_TRD_CONTROL \<and> trd_control_checksum_check b = 1 \<and> get16le b 0 = a))"

lemma sealed_msg:
  fixes a to :: u16
  assumes len: "n = msg_len m" "n \<le> length m" "n \<le> 255"
  defines "m1 \<equiv> put8 (put16le m 6 a) 9 0"
  defines "m2 \<equiv> put8 m1 9 (trd_calculate_checksum m1)"
  shows "out_ok a (AM_TRD_MSG, to, take n m2)"
proof -
  have n10: "10 \<le> n" "10 \<le> length m" using len by (auto simp: msg_len_def)
  have h: "get8 m2 8 = get8 m 8" "get8 m1 8 = get8 m 8"
    by (simp_all add: m2_def m1_def get8_puts)
  have bound: "unat (10 + get8 m 8) = n"
    using len by (simp add: msg_len_def unat_add_u8)
  have c: "trd_calculate_checksum m2 = trd_calculate_checksum m1"
    using n10 bound
    by (simp add: trd_calculate_checksum_eq h m2_def sum8_put8 get8_put8) (simp add: m1_def get8_puts)
  have t: "trd_calculate_checksum (take n m2) = trd_calculate_checksum m2"
    using n10 bound by (simp add: trd_calculate_checksum_eq get8_take h sum8_take)
  have "get8 (take n m2) 9 = trd_calculate_checksum m1"
    using n10 by (simp add: get8_take m2_def get8_put8 m1_def)
  then have "trd_checksum_check (take n m2) = 1" by (simp add: trd_checksum_check_def t c)
  moreover have "get16le (take n m2) 6 = a"
    using n10 by (simp add: get16le_def get8_take m2_def m1_def get8_puts)
  moreover have "length (take n m2) = msg_len (take n m2)"
    using n10 len by (simp add: msg_len_def get8_take h) (simp add: m2_def m1_def)
  ultimately show ?thesis by (simp add: out_ok_def)
qed

lemma trd_control_calc_take:
  assumes "6 \<le> n" "trd_control_cov m \<le> n"
  shows "trd_control_calculate_checksum (take n m) = trd_control_calculate_checksum m"
  using assms by (simp add: trd_control_calculate_checksum_eq trd_control_cov_def get8_take sum8_take)

lemma sealed_control:
  fixes a to :: u16
  assumes len: "6 \<le> n" "n \<le> length m" "trd_control_cov m \<le> n" "get16le m 0 = a"
    and cov: "trd_control_cov m = 0 \<or> 5 < trd_control_cov m"
  defines "m1 \<equiv> put8 (put8 m 4 0) 5 0"
  defines "m2 \<equiv> put8 m1 5 (trd_control_calculate_checksum m1)"
  shows "out_ok a (AM_TRD_CONTROL, to, take n m2)"
proof -
  have "get8 m2 2 = get8 m 2" "get8 m1 2 = get8 m 2" by (simp_all add: m2_def m1_def get8_puts)
  then have c: "trd_control_cov m2 = trd_control_cov m" "trd_control_cov m1 = trd_control_cov m"
    by (simp_all add: trd_control_cov_def)
  have g5: "get8 m2 5 = trd_control_calculate_checksum m1" "get8 m1 5 = 0"
    using len by (simp_all add: m2_def m1_def get8_puts)
  have l5: "5 < length m1" using len by (simp add: m1_def)
  have eq: "trd_control_calculate_checksum x = get8 x 5 - sum8 x (trd_control_cov x)" for x
    by (simp add: trd_control_calculate_checksum_eq trd_control_cov_def)
  have pass: "trd_control_calculate_checksum m2 = get8 m2 5"
    using cov
  proof
    assume "5 < trd_control_cov m"
    then have "sum8 m2 (trd_control_cov m) = sum8 m1 (trd_control_cov m) + trd_control_calculate_checksum m1"
      using l5 g5(2) by (simp add: m2_def sum8_put8)
    then show ?thesis using g5 unfolding eq [of m2] c by (simp add: eq [of m1] c)
  qed (simp add: eq [of m2] c)
  have "trd_control_calculate_checksum (take n m2) = get8 (take n m2) 5"
    using len pass by (simp add: trd_control_calc_take c get8_take)
  moreover have "get16le (take n m2) 0 = a"
    using len by (simp add: get16le_def get8_take m2_def m1_def get8_puts)
  ultimately show ?thesis by (simp add: out_ok_def trd_control_checksum_check_def)
qed

section \<open>Invariant\<close>

definition trd_states :: "u8 set" where
  "trd_states = {0x00, 0x11, 0x01, 0x21, 0x02, 0x08, 0x10, 0x15, 0x05, 0x25, 0x06}"

text \<open>A stored packet has the length its header announces; so has the last one in the fast state.\<close>

definition stored_ok :: "TRD_Memory \<Rightarrow> bool" where
  "stored_ok mem \<longleftrightarrow> (\<forall>e \<in> set (mem_array mem). 0 < mm_len e \<longrightarrow> mm_len e = int (msg_len (mm_packet e)))"

definition st_inv :: "trd_state \<Rightarrow> bool" where
  "st_inv st \<longleftrightarrow> tt_inv (m_table st) \<and> mem_inv (m_mem st) \<and> stored_ok (m_mem st)
     \<and> ml_inv (m_recoverlist st) \<and> length (lastpacket st) = 200 \<and> m_state st \<in> trd_states
     \<and> (m_state st = TRD_S_FAST_PACKET \<longrightarrow> msg_len (lastpacket st) \<le> 200)
     \<and> (\<forall>x \<in> set (outbox st). out_ok (TRD_LOCAL_ADDRESS st) x)"

text \<open>The parts of the state that sending leaves alone.\<close>

lemma send_to_mote_cloud_cases:
  obtains xs where "snd (send_to_mote_cloud n m ty a st) = st\<lparr>outbox := outbox st @ xs\<rparr>"
    "set xs \<subseteq> {(ty, a, take n m)}"
proof (cases "ms_fd st = 0")
  case True
  then show thesis using that [of "[]"] by (simp add: send_to_mote_cloud_def)
next
  case False
  then show thesis using that [of "[(ty, a, take n m)]"] by (simp add: send_to_mote_cloud_def)
qed

lemma rebroadcast_cases:
  assumes "trd_rebroadcast n m st = (m', st')" "n = msg_len m" "n \<le> length m" "n \<le> 255"
  obtains xs where "st' = st\<lparr>outbox := outbox st @ xs\<rparr>"
    "\<forall>x \<in> set xs. out_ok (TRD_LOCAL_ADDRESS st) x" "length m' = length m"
    "\<forall>i. i < 6 \<or> i = 8 \<or> 10 \<le> i \<longrightarrow> get8 m' i = get8 m i"
proof -
  let ?m1 = "put8 (put16le m 6 (TRD_LOCAL_ADDRESS st)) 9 0"
  let ?m2 = "put8 ?m1 9 (trd_calculate_checksum ?m1)"
  have m': "m' = ?m2" "st' = snd (send_to_mote_cloud n ?m2 AM_TRD_MSG TOS_BCAST_ADDR st)"
    using assms(1) by (auto simp: trd_rebroadcast_def Let_def)
  obtain xs where xs: "st' = st\<lparr>outbox := outbox st @ xs\<rparr>"
    "set xs \<subseteq> {(AM_TRD_MSG, TOS_BCAST_ADDR, take n ?m2)}"
    unfolding m'(2) by (rule send_to_mote_cloud_cases)
  moreover have "out_ok (TRD_LOCAL_ADDRESS st) (AM_TRD_MSG, TOS_BCAST_ADDR, take n ?m2)"
    by (rule sealed_msg [OF assms(2-4)])
  ultimately show thesis
    by (intro that [of xs]) (auto simp: m' get8_puts)
qed

lemma send_control_cases:
  assumes "6 \<le> n" "n \<le> length m" "trd_control_cov m \<le> n"
    "trd_control_cov m = 0 \<or> 5 < trd_control_cov m" "get16le m 0 = TRD_LOCAL_ADDRESS st"
  obtains xs where "trd_send_control n m to st = st\<lparr>outbox := outbox st @ xs\<rparr>"
    "\<forall>x \<in> set xs. out_ok (TRD_LOCAL_ADDRESS st) x"
proof -
  let ?m1 = "put8 (put8 m 4 0) 5 0"
  let ?m2 = "put8 ?m1 5 (trd_control_calculate_checksum ?m1)"
  obtain xs where xs: "trd_send_control n m to st = st\<lparr>outbox := outbox st @ xs\<rparr>"
    "set xs \<subseteq> {(AM_TRD_CONTROL, to, take n ?m2)}"
    using send_to_mote_cloud_cases [of n ?m2 AM_TRD_CONTROL to st]
    by (auto simp: trd_send_control_def Let_def)
  moreover have "out_ok (TRD_LOCAL_ADDRESS st) (AM_TRD_CONTROL, to, take n ?m2)"
    by (rule sealed_control [OF assms(1-3,5,4)])
  ultimately show thesis by (intro that [of xs]) auto
qed

lemma cov_of_entries:
  assumes "sint (get8 m 2) = int k" "k \<le> 5"
  shows "trd_control_cov m = 6 + 6 * k"
proof -
  have "(6 + int k * 6) mod 256 = 6 + int k * 6" using assms(2) by simp
  then show ?thesis unfolding trd_control_cov_def assms(1) unat_word_of_int_u8 by simp
qed

lemma cov_init: "get8 m 2 = 255 \<Longrightarrow> trd_control_cov m = 0"
  by (simp add: trd_control_cov_def)

lemma send_summary_cases:
  assumes "tt_inv (m_table st)" "length (e_buf e) = 128"
  obtains xs where "send_summary e ig st = st\<lparr>outbox := outbox st @ xs\<rparr>"
    "\<forall>x \<in> set xs. out_ok (TRD_LOCAL_ADDRESS st) x"
proof -
  obtain r b len where s: "trd_table_summarize (m_table st) (e_buf e) ig = (r, b, len)"
    by (cases "trd_table_summarize (m_table st) (e_buf e) ig")
  note sp = trd_table_summarize_spec [OF assms(1) _ s]
  let ?n = "length (summary_entries (m_table st) ig)"
  let ?init = "m_state st = TRD_S_DISCONNECTED \<or> (m_state st AND TRD_S_INIT) \<noteq> 0"
  let ?b2 = "put8 (put16le (if ?init then put8 b 2 0xff else b) 0 (TRD_LOCAL_ADDRESS st)) 3 TRD_CONTROL_SUMMARY"
  have len: "length b = 128" "len = 6 + 6 * ?n" "?n \<le> 5" using sp assms by simp_all
  have send: "send_summary e ig st = trd_send_control len ?b2 TOS_BCAST_ADDR st"
    by (simp add: send_summary_def s trd_send_summary_def Let_def)
  have g2: "get8 ?b2 2 = (if ?init then 255 else get8 b 2)"
    using len by (simp add: get8_puts)
  have cov: "trd_control_cov ?b2 = (if ?init then 0 else len)"
  proof (cases ?init)
    case True
    then show ?thesis using g2 by (simp add: cov_init)
  next
    case False
    then have "sint (get8 ?b2 2) = int ?n" using g2 sp assms by simp
    then show ?thesis using False len cov_of_entries [of ?b2 ?n] by simp
  qed
  have l2: "length ?b2 = 128" using len by simp
  have a: "get16le ?b2 0 = TRD_LOCAL_ADDRESS st"
  proof -
    have "get16le (put8 x 3 v) 0 = get16le x 0" for x v by (simp add: get16le_def get8_put8)
    then show ?thesis using len by simp
  qed
  show thesis
    by (rule send_control_cases [of len ?b2 st TOS_BCAST_ADDR])
      (use len l2 cov a that in \<open>simp_all add: send split: if_splits\<close>)
qed

section \<open>Every handler preserves the invariant\<close>

lemma st_inv_outbox:
  "st_inv st \<Longrightarrow> \<forall>x \<in> set xs. out_ok (TRD_LOCAL_ADDRESS st) x \<Longrightarrow> st_inv (st\<lparr>outbox := outbox st @ xs\<rparr>)"
  by (auto simp: st_inv_def)

lemma st_inv_trickle [simp]: "st_inv (st\<lparr>trickle_timer := t\<rparr>) = st_inv st"
  by (simp add: st_inv_def)

lemma st_inv_alarms [simp]:
  "st_inv (st\<lparr>recover_alarm_time := a\<rparr>) = st_inv st"
  "st_inv (st\<lparr>init_alarm_time := a\<rparr>) = st_inv st"
  "st_inv (st\<lparr>aging_alarm_time := a\<rparr>) = st_inv st"
  "st_inv (st\<lparr>init_loop_cnt := c\<rparr>) = st_inv st"
  "st_inv (st\<lparr>init_done := d\<rparr>) = st_inv st"
  "st_inv (st\<lparr>m_fast_retx_count := c\<rparr>) = st_inv st"
  "st_inv (st\<lparr>m_seqno := s\<rparr>) = st_inv st"
  "st_inv (st\<lparr>delivered := l\<rparr>) = st_inv st"
  by (simp_all add: st_inv_def)

lemma st_inv_state:
  "st_inv st \<Longrightarrow> s \<in> trd_states \<Longrightarrow> s \<noteq> TRD_S_FAST_PACKET \<Longrightarrow> st_inv (st\<lparr>m_state := s\<rparr>)"
  by (simp add: st_inv_def)

lemma st_inv_table: "st_inv st \<Longrightarrow> tt_inv t \<Longrightarrow> st_inv (st\<lparr>m_table := t\<rparr>)"
  by (simp add: st_inv_def)

lemma st_inv_recover: "st_inv st \<Longrightarrow> ml_inv l \<Longrightarrow> st_inv (st\<lparr>m_recoverlist := l\<rparr>)"
  by (simp add: st_inv_def)

lemmas timer_ops = recovertimer_init_def recovertimer_start_def recovertimer_stop_def
  inittimer_init_def inittimer_start_def inittimer_stop_def agingtimer_init_def
  agingtimer_start_def timer_reset_def timer_processed_def timer_suppress_def

lemma states_simps [simp]:
  "TRD_S_DISCONNECTED \<in> trd_states" "TRD_S_INIT_0 \<in> trd_states" "TRD_S_INIT \<in> trd_states"
  "TRD_S_INIT_READY \<in> trd_states" "TRD_S_STEADY \<in> trd_states" "TRD_S_TX \<in> trd_states"
  "TRD_S_FAST_PACKET \<in> trd_states"
  by (simp_all add: trd_states_def consts_defs)

lemma states_not_fast [simp]:
  "TRD_S_DISCONNECTED \<noteq> TRD_S_FAST_PACKET" "TRD_S_INIT_0 \<noteq> TRD_S_FAST_PACKET"
  "TRD_S_INIT \<noteq> TRD_S_FAST_PACKET" "TRD_S_INIT_READY \<noteq> TRD_S_FAST_PACKET"
  "TRD_S_STEADY \<noteq> TRD_S_FAST_PACKET" "TRD_S_TX \<noteq> TRD_S_FAST_PACKET"
  "TRD_S_STEADY \<noteq> TRD_S_INIT_READY"
  by (simp_all add: consts_defs)

lemma states_rx:
  "s \<in> trd_states \<Longrightarrow> s = TRD_S_STEADY \<or> (s AND TRD_S_INIT) \<noteq> 0 \<Longrightarrow>
    s OR TRD_S_RX \<in> trd_states \<and> s OR TRD_S_RX \<noteq> TRD_S_FAST_PACKET"
  by (auto simp: trd_states_def consts_defs)

lemma states_unrx:
  "s \<in> trd_states \<Longrightarrow> (s AND TRD_S_RX) \<noteq> 0 \<Longrightarrow>
    s AND NOT TRD_S_RX \<in> trd_states \<and> s AND NOT TRD_S_RX \<noteq> TRD_S_FAST_PACKET"
  by (auto simp: trd_states_def consts_defs)

lemma inittimer_fired_inv [inv_intros]: "st_inv st \<Longrightarrow> st_inv (inittimer_fired e st)"
  by (simp add: inittimer_fired_def timer_ops Let_def st_inv_state)

lemma aging_loop_inv: "tt_inv t \<Longrightarrow> tt_inv (aging_loop t late)"
proof (induction t late rule: aging_loop.induct)
  case (1 t late)
  have "tt_inv (trd_table_incrementAge t)" using 1(2) tab.age_lookup by blast
  then show ?case using 1(1) by (subst aging_loop.simps) (simp add: Let_def)
qed

lemma agingtimer_fired_inv [inv_intros]: "st_inv st \<Longrightarrow> st_inv (agingtimer_fired e late st)"
  unfolding agingtimer_fired_def Let_def agingtimer_start_def
  by (rule st_inv_table) (simp_all add: aging_loop_inv st_inv_def)

lemma send_summary_inv [inv_intros]:
  "st_inv st \<Longrightarrow> length (e_buf e) = 128 \<Longrightarrow> st_inv (send_summary e ig st)"
  by (rule send_summary_cases [of st e ig]) (auto simp: st_inv_outbox, simp add: st_inv_def)

lemma send_summary_frame:
  assumes "tt_inv (m_table st)" "length (e_buf e) = 128"
  shows "m_table (send_summary e ig st) = m_table st" "m_state (send_summary e ig st) = m_state st"
    "TRD_LOCAL_ADDRESS (send_summary e ig st) = TRD_LOCAL_ADDRESS st"
    "m_mem (send_summary e ig st) = m_mem st" "delivered (send_summary e ig st) = delivered st"
  by (rule send_summary_cases [OF assms, of ig]; simp)+

lemma send_fast_packet_inv [inv_intros]:
  assumes inv: "st_inv st" and fast: "m_state st = TRD_S_FAST_PACKET"
  shows "st_inv (send_fast_packet st)"
proof -
  let ?m = "lastpacket st"
  have len: "length ?m = 200" "msg_len ?m \<le> 200" using assms by (simp_all add: st_inv_def)
  have b: "msg_len ?m \<le> length ?m" "msg_len ?m \<le> 255" using len by simp_all
  obtain m' st1 where rb: "trd_rebroadcast (msg_len ?m) ?m st = (m', st1)"
    by (cases "trd_rebroadcast (msg_len ?m) ?m st")
  obtain xs where xs: "st1 = st\<lparr>outbox := outbox st @ xs\<rparr>"
    "\<forall>x \<in> set xs. out_ok (TRD_LOCAL_ADDRESS st) x" "length m' = length ?m"
    "\<forall>i. i < 6 \<or> i = 8 \<or> 10 \<le> i \<longrightarrow> get8 m' i = get8 ?m i"
    by (rule rebroadcast_cases [OF rb refl b])
  have "st_inv (st1\<lparr>lastpacket := m'\<rparr>)"
    using inv len xs by (auto simp: st_inv_def msg_len_def)
  then show ?thesis
    using rb by (simp add: send_fast_packet_def msg_len_def Let_def st_inv_state)
qed

lemma trd_timer_fired_inv [inv_intros]:
  assumes "st_inv st" "length (e_buf e) = 128"
  shows "st_inv (trd_timer_fired e st)"
proof -
  have "st_inv (st\<lparr>m_state := m_state st AND NOT TRD_S_RX\<rparr>)" if "(m_state st AND TRD_S_RX) \<noteq> 0"
    using st_inv_state [OF assms(1)] states_unrx [OF _ that] assms(1) by (simp add: st_inv_def)
  then show ?thesis
    using assms send_fast_packet_inv [of st] send_summary_inv [of st e True]
    unfolding trd_timer_fired_def timer_processed_def st_inv_trickle by presburger
qed

text \<open>The request under construction: its length, the sender, and a count between 0 and 5.\<close>

definition req_ok :: "u16 \<Rightarrow> bytes \<Rightarrow> bool" where
  "req_ok a req \<longleftrightarrow> length req = 128 \<and> get16le req 0 = a \<and> 0 \<le> sint (get8 req 2) \<and> sint (get8 req 2) \<le> 5"

lemma add_request_ok:
  assumes "req_ok a req" "sint (get8 req 2) < int TRD_REQUEST_ENTRIES"
  shows "req_ok a (add_request req x y)"
proof -
  let ?j = "nat (sint (get8 req 2))"
  have g2: "get8 (add_request req x y) 2 = get8 req 2 + 1"
    using assms by (simp add: add_request_def Let_def get8_puts req_ok_def)
  have "get16le (add_request req x y) 0 = get16le req 0"
    by (simp add: add_request_def Let_def get16le_def get8_puts)
  moreover have "length (add_request req x y) = length req" by (simp add: add_request_def Let_def)
  ultimately show ?thesis
    using assms sint_u8_inc [of "get8 req 2"] by (simp add: req_ok_def g2 consts_defs)
qed

lemma summary_entry_keeps:
  assumes "summary_entry smsg i acc = Some acc'" "tt_inv (sa_table acc)" "req_ok a (sa_req acc)"
  shows "tt_inv (sa_table acc') \<and> req_ok a (sa_req acc')"
proof -
  obtain x s g where m: "get_meta smsg i = (x, s, g)" by (cases "get_meta smsg i")
  obtain c tab where c: "trd_table_classify (sa_table acc) x s g = Some (c, tab)"
    using assms(1) by (auto simp: summary_entry_def m split: bind_splits)
  have tab: "tt_inv tab" using table_classify_keeps(1) [OF assms(2) c] .
  have "tt_inv (snd (trd_table_removeNode tab x))" using tab.remove_lookup [OF tab] by blast
  then show ?thesis
    using assms(1,3) tab add_request_ok [OF assms(3)]
    by (cases c) (auto simp: summary_entry_def m c Let_def split: if_splits)
qed

lemma summary_loop_keeps:
  "summary_loop smsg is acc = Some acc' \<Longrightarrow> tt_inv (sa_table acc) \<Longrightarrow> req_ok a (sa_req acc) \<Longrightarrow>
    tt_inv (sa_table acc') \<and> req_ok a (sa_req acc')"
proof (induction "is" arbitrary: acc)
  case (Cons i js)
  then obtain acc1 where "summary_entry smsg i acc = Some acc1" "summary_loop smsg js acc1 = Some acc'"
    by (auto split: bind_splits)
  with Cons summary_entry_keeps [of smsg i acc acc1 a] show ?case by blast
qed simp

lemma send_request_cases:
  assumes "req_ok (TRD_LOCAL_ADDRESS st) req"
  obtains xs where "trd_send_request (nat (6 + 6 * sint (get8 req 2))) req to st
      = st\<lparr>outbox := outbox st @ xs\<rparr>" "\<forall>x \<in> set xs. out_ok (TRD_LOCAL_ADDRESS st) x"
proof -
  let ?q = "put8 req 3 TRD_CONTROL_REQUEST" and ?k = "nat (sint (get8 req 2))"
  have q: "length ?q = 128" "get16le ?q 0 = TRD_LOCAL_ADDRESS st" "sint (get8 ?q 2) = int ?k" "?k \<le> 5"
    using assms by (auto simp: req_ok_def get16le_def get8_put8 nat_le_iff)
  have n: "nat (6 + 6 * sint (get8 req 2)) = 6 + 6 * ?k" using assms by (simp add: req_ok_def nat_add_distrib nat_mult_distrib)
  show thesis
    unfolding trd_send_request_def n
    by (rule send_control_cases [of "6 + 6 * ?k" ?q st to])
      (use q cov_of_entries [OF q(3,4)] that in \<open>simp_all add: trd_send_request_def n\<close>)
qed

lemma newMsg_connect_inv [inv_intros]: "st_inv st \<Longrightarrow> st_inv (newMsg_connect e st)"
  by (simp add: newMsg_connect_def inittimer_start_def st_inv_state)

lemma newMsg_connect_frame [frame_simps]:
  "m_table (newMsg_connect e st) = m_table st" "m_mem (newMsg_connect e st) = m_mem st"
  "outbox (newMsg_connect e st) = outbox st" "delivered (newMsg_connect e st) = delivered st"
  "TRD_LOCAL_ADDRESS (newMsg_connect e st) = TRD_LOCAL_ADDRESS st"
  "lastpacket (newMsg_connect e st) = lastpacket st"
  by (simp_all add: newMsg_connect_def inittimer_start_def)

lemma summary_react_inv [inv_intros]:
  assumes inv: "st_inv st" and buf: "length (e_buf e) = 128"
    and acc: "tt_inv (sa_table acc)" "req_ok (TRD_LOCAL_ADDRESS st) (sa_req acc)"
  shows "st_inv (summary_react e smsg a acc st)"
proof -
  let ?st = "st\<lparr>m_table := sa_table acc\<rparr>"
  have inv1: "st_inv ?st" using inv acc by (intro st_inv_table)
  have req: "req_ok (TRD_LOCAL_ADDRESS ?st) (sa_req acc)" using acc by simp
  let ?to = "if (m_state ?st AND TRD_S_INIT) \<noteq> 0 then TOS_BCAST_ADDR else a"
  obtain xs where xs: "trd_send_request (nat (6 + 6 * sint (get8 (sa_req acc) 2))) (sa_req acc) ?to ?st
      = ?st\<lparr>outbox := outbox ?st @ xs\<rparr>" "\<forall>x \<in> set xs. out_ok (TRD_LOCAL_ADDRESS ?st) x"
    by (rule send_request_cases [OF req])
  have inv2: "st_inv (?st\<lparr>outbox := outbox ?st @ xs\<rparr>)" by (rule st_inv_outbox [OF inv1 xs(2)])
  have rx: "st_inv (?st\<lparr>outbox := outbox ?st @ xs, trickle_timer := t,
      m_state := m_state ?st OR TRD_S_RX\<rparr>)"
    if "m_state ?st = TRD_S_STEADY \<or> (m_state ?st AND TRD_S_INIT) \<noteq> 0" for t
  proof (rule st_inv_state)
    show "st_inv (?st\<lparr>outbox := outbox ?st @ xs, trickle_timer := t\<rparr>)" using inv2 by simp
    have "m_state ?st OR TRD_S_RX \<in> trd_states \<and> m_state ?st OR TRD_S_RX \<noteq> TRD_S_FAST_PACKET"
      by (rule states_rx [OF _ that]) (use inv in \<open>simp add: st_inv_def\<close>)
    then show "m_state ?st OR TRD_S_RX \<in> trd_states" "m_state ?st OR TRD_S_RX \<noteq> TRD_S_FAST_PACKET"
      by simp_all
  qed
  have steady: "st_inv (?st\<lparr>trickle_timer := t, m_state := TRD_S_STEADY\<rparr>)" for t
    using inv1 by (intro st_inv_state) simp_all
  have sum: "st_inv (send_summary e True ?st)" by (rule send_summary_inv [OF inv1 buf])
  show ?thesis
    using inv1 inv2 sum unfolding summary_react_def Let_def xs(1) timer_ops
    by (auto simp: rx [simplified] steady [simplified])
qed

lemma summaryReceived_inv [inv_intros]:
  assumes "trd_state_summaryReceived e smsg st = Some st'" "st_inv st" "length (e_buf e) = 128"
  shows "st_inv st'"
proof -
  let ?st = "newMsg_connect e st"
  let ?req = "put16le (put8 (e_buf e) 2 0) 0 (TRD_LOCAL_ADDRESS ?st)"
  let ?smsg = "if sint (get8 smsg 2) < 0 then put8 smsg 2 0 else smsg"
  let ?st1 = "if sint (get8 smsg 2) < 0 \<and> trd_table_numEntries (m_table ?st) > 0
      \<and> m_state ?st = TRD_S_STEADY then send_summary e False ?st else ?st"
  obtain acc sup where l: "summary_loop ?smsg [0..<nat (sint (get8 ?smsg 2))]
        \<lparr>sa_table = m_table ?st1, sa_req = ?req, sa_imm = False, sa_sup = sup\<rparr> = Some acc"
    and st': "st' = summary_react e ?smsg (get16le smsg 0) acc ?st1"
    using assms(1) by (auto simp: trd_state_summaryReceived_def Let_def split: bind_splits)
  have inv: "st_inv ?st" using assms newMsg_connect_inv by blast
  then have t: "tt_inv (m_table ?st)" by (simp add: st_inv_def)
  have inv1: "st_inv ?st1" using inv assms(3) by (simp add: send_summary_inv)
  have addr: "TRD_LOCAL_ADDRESS ?st1 = TRD_LOCAL_ADDRESS ?st"
    using send_summary_frame [OF t assms(3)] by simp
  have "req_ok (TRD_LOCAL_ADDRESS ?st1) ?req"
    unfolding addr using assms(3) by (simp add: req_ok_def get8_puts)
  then have "tt_inv (sa_table acc) \<and> req_ok (TRD_LOCAL_ADDRESS ?st1) (sa_req acc)"
    using summary_loop_keeps [OF l] inv1 by (simp add: st_inv_def)
  then show ?thesis
    unfolding st' using summary_react_inv [OF inv1 assms(3)] by blast
qed

lemma msg_len_pos: "0 < msg_len m"
  by (simp add: msg_len_def)

lemma stored_ok_update:
  assumes "stored_ok mem" "mm_len e > 0 \<longrightarrow> mm_len e = int (msg_len (mm_packet e))"
  shows "stored_ok (mem\<lparr>mem_array := (mem_array mem)[p := e]\<rparr>)"
  using assms set_list_update_subset [of "mem_array mem" p e] by (auto simp: stored_ok_def)

lemma mem_inv_update:
  assumes "mem_inv mem" "length (mm_packet e) = 128" "mm_len e < 128"
  shows "mem_inv (mem\<lparr>mem_array := (mem_array mem)[p := e]\<rparr>)"
  using assms set_list_update_subset [of "mem_array mem" p e] by (auto simp: mem_inv_def)

lemma msg_len_eq: "get8 m' 8 = get8 m 8 \<Longrightarrow> msg_len m' = msg_len m"
  by (simp add: msg_len_def)

lemma get8_take_append: "i < n \<Longrightarrow> n \<le> length d \<Longrightarrow> get8 (take n d @ r) i = get8 d i"
  by (simp add: get8_def nth_append)

lemma memory_write_st:
  assumes inv: "mem_inv mem" "stored_ok mem" and r: "length rmsg = msg_len rmsg"
    and w: "trd_memory_write mem rmsg (int (msg_len rmsg)) = Some (memloc, mem')"
  shows "mem_inv mem'" "stored_ok mem'" "msg_len rmsg < 128"
proof -
  let ?p = "nat (curr_mem_ptr mem)" and ?n = "msg_len rmsg"
  have len: "int ?n \<le> int (length rmsg)" using r by simp
  have "mem_inv mem' \<and> stored_ok mem' \<and> ?n < 128"
  proof (cases rule: trd_memory_write_cases [OF inv(1) len])
    case 1
    then show ?thesis using w by simp
  next
    case (2 mem'')
    let ?e = "(mem_array mem ! ?p)\<lparr>mm_packet := take ?n rmsg @ drop ?n (mm_packet (mem_array mem ! ?p)),
        mm_len := int ?n\<rparr>"
    have m'': "mem'' = mem'" using 2 w by simp
    have "8 < ?n" by (simp add: msg_len_def)
    then have "msg_len (mm_packet ?e) = ?n"
      using get8_take_append [of 8 ?n rmsg] r by (intro msg_len_eq) simp
    then have "stored_ok (mem\<lparr>mem_array := (mem_array mem)[?p := ?e]\<rparr>)"
      by (intro stored_ok_update [OF inv(2)]) simp
    then have "stored_ok mem''" using 2(8) by (simp add: stored_ok_def)
    then show ?thesis using 2 m'' by simp
  qed
  then show "mem_inv mem'" "stored_ok mem'" "?n < 128" by simp_all
qed

lemma read_memory_inv [inv_intros]:
  assumes inv: "st_inv st"
  shows "st_inv (read_memory e st)"
proof (cases "metalist_getFirst (m_recoverlist st)")
  case None
  then show ?thesis using inv by (simp add: read_memory_def timer_ops)
next
  case (Some entry)
  let ?rl = "snd (metalist_deleteFirst (m_recoverlist st))"
  let ?d = "st\<lparr>m_recoverlist := ?rl\<rparr>"
  have d: "st_inv ?d" using inv ml_delete_spec(1) by (intro st_inv_recover) (simp_all add: st_inv_def)
  show ?thesis
  proof (cases "trd_table_getMemloc (m_table st) (me_origin entry) (me_seqno entry)")
    case None
    with Some d show ?thesis by (simp add: read_memory_def)
  next
    case mem: (Some memloc)
    show ?thesis
    proof (cases "trd_memory_read (m_mem st) memloc")
      case None
      with Some mem d show ?thesis by (simp add: read_memory_def)
    next
      case rd: (Some pl)
      obtain packet mlen where pl: "pl = (packet, mlen)" by (cases pl)
      let ?slot = "mem_array (m_mem st) ! unat memloc"
      have slot: "unat memloc < 25" "packet = mm_packet ?slot" "mlen = mm_len ?slot" "0 < mlen"
        using rd pl by (auto simp: trd_memory_read_def Let_def split: if_splits)
      have "?slot \<in> set (mem_array (m_mem st))" using slot inv by (simp add: st_inv_def mem_inv_def)
      then have p: "length packet = 128" "mlen < 128" "mlen = int (msg_len packet)"
        using inv slot by (auto simp: st_inv_def mem_inv_def stored_ok_def)
      let ?age = "case trd_table_getAge (m_table st) (get16be packet 0) (get16be packet 2) of
          None \<Rightarrow> e_age e | Some a \<Rightarrow> a"
      let ?m = "put16be packet 4 ?age"
      have m: "msg_len ?m = msg_len packet" by (intro msg_len_eq) (simp add: get8_puts)
      have b: "msg_len packet = msg_len ?m" "msg_len packet \<le> length ?m" "msg_len packet \<le> 255"
        using p m by simp_all
      obtain m' st1 where rb: "trd_rebroadcast (msg_len packet) ?m ?d = (m', st1)"
        by (cases "trd_rebroadcast (msg_len packet) ?m ?d")
      obtain xs where xs: "st1 = ?d\<lparr>outbox := outbox ?d @ xs\<rparr>"
        "\<forall>x \<in> set xs. out_ok (TRD_LOCAL_ADDRESS ?d) x" "length m' = length ?m"
        "\<forall>i. i < 6 \<or> i = 8 \<or> 10 \<le> i \<longrightarrow> get8 m' i = get8 ?m i"
        by (rule rebroadcast_cases [OF rb b])
      have inv1: "st_inv st1" unfolding xs(1) by (rule st_inv_outbox [OF d xs(2)])
      have m': "length m' = 128" "msg_len m' = msg_len packet"
        using xs(3,4) p m msg_len_eq [of m' ?m] by simp_all
      let ?mem = "(m_mem st)\<lparr>mem_array := (mem_array (m_mem st))[unat memloc := ?slot\<lparr>mm_packet := m'\<rparr>]\<rparr>"
      have memok: "mem_inv ?mem" "stored_ok ?mem"
        using inv p m' slot by (auto intro!: mem_inv_update stored_ok_update simp: st_inv_def)
      let ?st2 = "st1\<lparr>m_mem := ?mem\<rparr>"
      have inv2: "st_inv ?st2" using inv1 memok by (simp add: st_inv_def)
      have st1: "m_mem st1 = m_mem st" "m_recoverlist st1 = ?rl" "m_state st1 = m_state st"
        by (simp_all add: xs(1))
      have "st_inv (if m_state ?st2 = TRD_S_TX then ?st2\<lparr>m_state := TRD_S_STEADY\<rparr> else ?st2)"
        using inv2 st_inv_state [OF inv2, of TRD_S_STEADY] by simp
      moreover have "read_memory e st = recovertimer_start e TRD_RETRY_TIME
          (if metalist_isEmpty ?rl then recovertimer_stop
             (if m_state ?st2 = TRD_S_TX then ?st2\<lparr>m_state := TRD_S_STEADY\<rparr> else ?st2)
           else ?st2)"
        by (simp only: read_memory_def Some mem rd pl option.case prod.case Let_def
            msg_len_def [symmetric] rb st1) (simp add: st1)
      ultimately show ?thesis using inv2 by (simp add: timer_ops)
    qed
  qed
qed

text \<open>An accepted packet: what is in table, store and outbox afterwards.\<close>

lemma newMsg_signal_cases:
  assumes "newMsg_signal e o' g chk st = (r, st')"
  shows "(st' = st \<or> st' = st\<lparr>m_state := TRD_S_INIT_READY\<rparr>)
    \<and> (r = 0 \<or> r = 1 \<and> o' \<noteq> TRD_LOCAL_ADDRESS st)"
  using assms by (auto simp: newMsg_signal_def Let_def split: if_splits)

lemma remember_packet_inv:
  assumes "st_inv st" "length rmsg = msg_len rmsg" "msg_len rmsg \<le> 200"
  shows "st_inv (remember_packet rmsg st)" "msg_len (lastpacket (remember_packet rmsg st)) \<le> 200"
proof -
  have "8 < msg_len rmsg" by (simp add: msg_len_def)
  then have "msg_len (take (msg_len rmsg) rmsg @ drop (msg_len rmsg) (lastpacket st)) = msg_len rmsg"
    using assms(2) by (intro msg_len_eq get8_take_append) simp_all
  then show "st_inv (remember_packet rmsg st)" "msg_len (lastpacket (remember_packet rmsg st)) \<le> 200"
    using assms by (simp_all add: remember_packet_def Let_def msg_len_def [of rmsg, symmetric] st_inv_def)
qed

lemma remember_packet_frame [simp]:
  "m_table (remember_packet rmsg st) = m_table st" "m_mem (remember_packet rmsg st) = m_mem st"
  "delivered (remember_packet rmsg st) = delivered st"
  "TRD_LOCAL_ADDRESS (remember_packet rmsg st) = TRD_LOCAL_ADDRESS st"
  by (simp_all add: remember_packet_def Let_def)

lemma enter_fast_inv: "st_inv st \<Longrightarrow> msg_len (lastpacket st) \<le> 200 \<Longrightarrow> st_inv (enter_fast st)"
  by (simp add: enter_fast_def st_inv_def)

lemma enter_fast_frame [simp]:
  "m_table (enter_fast st) = m_table st" "m_mem (enter_fast st) = m_mem st"
  "delivered (enter_fast st) = delivered st" "TRD_LOCAL_ADDRESS (enter_fast st) = TRD_LOCAL_ADDRESS st"
  by (simp_all add: enter_fast_def)

lemma newMsg_accept_cases:
  assumes acc: "newMsg_accept e rmsg chk st = Some (r, rmsg', st')"
    and inv: "st_inv st" and len: "length rmsg = msg_len rmsg"
  obtains (full) "r = 0" "rmsg' = rmsg" "128 \<le> msg_len rmsg" "st_inv st'" "m_table st' = m_table st"
      "delivered st' = delivered st" "TRD_LOCAL_ADDRESS st' = TRD_LOCAL_ADDRESS st"
  | (stored) m q tab mem where "msg_len rmsg < 128" "st_inv st'" "delivered st' = delivered st"
      "TRD_LOCAL_ADDRESS st' = TRD_LOCAL_ADDRESS st"
      "trd_memory_write (m_mem st) rmsg (int (msg_len rmsg)) = Some (m, mem)" "m_mem st' = mem"
      "trd_table_insert (m_table st) (get16be rmsg 0) (get16be rmsg 2) m (get16be rmsg 4) = Some (q, tab)"
      "m_table st' = tab" "r = 0 \<or> r = 1 \<and> get16be rmsg 0 \<noteq> TRD_LOCAL_ADDRESS st"
      "\<forall>i. i < 6 \<or> i = 8 \<or> 10 \<le> i \<longrightarrow> get8 rmsg' i = get8 rmsg i" "length rmsg' = length rmsg"
proof -
  let ?n = "msg_len rmsg" and ?o = "get16be rmsg 0"
  let ?st1 = "remember_packet rmsg st"
  note unfold = newMsg_accept_def Let_def msg_len_def [of rmsg, symmetric]
  have n: "\<not> length (lastpacket st) < ?n" using acc by (auto simp: unfold split: if_splits)
  then have n200: "?n \<le> 200" using inv by (simp add: st_inv_def)
  note inv1 = remember_packet_inv [OF inv len n200]
  have mi: "mem_inv (m_mem st)" "stored_ok (m_mem st)" "int ?n \<le> int (length rmsg)"
    using inv len by (simp_all add: st_inv_def)
  show thesis
  proof (cases "trd_memory_write (m_mem st) rmsg (int ?n)")
    case None
    have "128 \<le> ?n"
      by (rule trd_memory_write_cases [OF mi(1,3)]) (use None msg_len_pos [of rmsg] in auto)
    moreover have "r = 0 \<and> rmsg' = rmsg \<and> st' = ?st1"
      using acc n None by (auto simp: unfold)
    ultimately show thesis using full inv1 by simp
  next
    case (Some pm)
    obtain m mem where pm: "pm = (m, mem)" by (cases pm)
    obtain q tab where ins: "trd_table_insert (m_table st) ?o (get16be rmsg 2) m (get16be rmsg 4) = Some (q, tab)"
      using acc n Some pm by (auto simp: unfold split: bind_splits)
    have tab: "tt_inv tab" using tab.insert_lookup [OF _ ins] inv by (simp add: st_inv_def)
    have mem: "mem_inv mem" "stored_ok mem" "?n < 128"
      using memory_write_st [OF mi(1,2) len, of m mem] Some pm by simp_all
    let ?st2 = "?st1\<lparr>m_mem := mem, m_table := tab\<rparr>"
    have inv2: "st_inv ?st2" using inv1(1) tab mem by (simp add: st_inv_def)
    obtain p3 st3 where rb: "(if ?o \<noteq> TRD_LOCAL_ADDRESS ?st2 then trd_rebroadcast ?n rmsg ?st2
        else (rmsg, ?st2)) = (p3, st3)" by fastforce
    have "\<exists>xs. st3 = ?st2\<lparr>outbox := outbox ?st2 @ xs\<rparr> \<and> (\<forall>x \<in> set xs. out_ok (TRD_LOCAL_ADDRESS ?st2) x)
      \<and> length p3 = length rmsg \<and> (\<forall>i. i < 6 \<or> i = 8 \<or> 10 \<le> i \<longrightarrow> get8 p3 i = get8 rmsg i)"
    proof (cases "?o = TRD_LOCAL_ADDRESS ?st2")
      case True
      then show ?thesis using rb by (intro exI [of _ "[]"]) auto
    next
      case False
      then have rb': "trd_rebroadcast ?n rmsg ?st2 = (p3, st3)" using rb by simp
      show ?thesis
        by (rule rebroadcast_cases [OF rb' refl]) (use len n200 in auto)
    qed
    then obtain xs where xs: "st3 = ?st2\<lparr>outbox := outbox ?st2 @ xs\<rparr>"
      "\<forall>x \<in> set xs. out_ok (TRD_LOCAL_ADDRESS ?st2) x" "length p3 = length rmsg"
      "\<forall>i. i < 6 \<or> i = 8 \<or> 10 \<le> i \<longrightarrow> get8 p3 i = get8 rmsg i" by blast
    have inv3: "st_inv st3" unfolding xs(1) by (rule st_inv_outbox [OF inv2 xs(2)])
    let ?st4 = "enter_fast (timer_reset e st3)"
    have inv4: "st_inv ?st4"
      using inv3 inv1(2) by (intro enter_fast_inv) (simp_all add: timer_ops xs(1))
    have frame4: "m_table ?st4 = tab" "m_mem ?st4 = mem" "delivered ?st4 = delivered st"
      "TRD_LOCAL_ADDRESS ?st4 = TRD_LOCAL_ADDRESS st"
      by (simp_all add: timer_ops xs(1))
    have sig: "newMsg_signal e ?o (get16be rmsg 4) chk ?st4 = (r, st')" "rmsg' = p3"
      using acc n Some pm ins rb by (auto simp: unfold split: prod.splits)
    note c = newMsg_signal_cases [OF sig(1), unfolded frame4]
    have inv': "st_inv st'" using c inv4 st_inv_state [OF inv4, of TRD_S_INIT_READY] by auto
    show thesis
      by (rule stored [of m mem q tab]) (use mem inv' c sig(2) frame4 Some pm ins xs in auto)
  qed
qed

text \<open>The whole reception: invariant, and what it does to the message.\<close>

lemma newMsg_result:
  assumes r: "trd_state_newMsg e rmsg st = Some (r, rmsg', st')"
    and inv: "st_inv st" and len: "length rmsg = msg_len rmsg"
  shows "st_inv st'" "delivered st' = delivered st" "TRD_LOCAL_ADDRESS st' = TRD_LOCAL_ADDRESS st"
    "length rmsg' = length rmsg" "\<forall>i. i < 6 \<or> i = 8 \<or> 10 \<le> i \<longrightarrow> get8 rmsg' i = get8 rmsg i"
    "r = 0 \<or> r = 1 \<and> get16be rmsg 0 \<noteq> TRD_LOCAL_ADDRESS st"
proof -
  let ?st = "newMsg_connect e st" and ?o = "get16be rmsg 0"
  obtain c tab where c: "trd_table_classify (m_table ?st) ?o (get16be rmsg 2) (get16be rmsg 4) = Some (c, tab)"
    using r by (auto simp: trd_state_newMsg_def Let_def split: bind_splits)
  have inv0: "st_inv ?st" by (rule newMsg_connect_inv [OF inv])
  have tab: "tt_inv tab" using table_classify_keeps(1) [OF _ c] inv0 by (simp add: st_inv_def)
  let ?st1 = "?st\<lparr>m_table := tab\<rparr>"
  have inv1: "st_inv ?st1" by (rule st_inv_table [OF inv0 tab])
  have rem: "tt_inv (snd (trd_table_removeNode tab ?o))" using tab.remove_lookup [OF tab] by blast
  let ?st2 = "?st1\<lparr>m_table := snd (trd_table_removeNode tab ?o)\<rparr>"
  have inv2: "st_inv ?st2" by (rule st_inv_table [OF inv1 rem])
  have age: "tt_inv (trd_table_incrementAge tab)"
    "tt_inv (trd_table_incrementAge (snd (trd_table_removeNode tab ?o)))"
    using tab.age_lookup tab rem by blast+
  have fr: "delivered ?st = delivered st" "TRD_LOCAL_ADDRESS ?st = TRD_LOCAL_ADDRESS st"
    by (simp_all add: frame_simps)
  have "st_inv st' \<and> delivered st' = delivered st \<and> TRD_LOCAL_ADDRESS st' = TRD_LOCAL_ADDRESS st
    \<and> length rmsg' = length rmsg \<and> (\<forall>i. i < 6 \<or> i = 8 \<or> 10 \<le> i \<longrightarrow> get8 rmsg' i = get8 rmsg i)
    \<and> (r = 0 \<or> r = 1 \<and> ?o \<noteq> TRD_LOCAL_ADDRESS st)"
  proof -
    have accept: ?thesis if "newMsg_accept e rmsg chk x = Some (r, rmsg', st')" "st_inv x"
      "delivered x = delivered st" "TRD_LOCAL_ADDRESS x = TRD_LOCAL_ADDRESS st" for chk x
      by (rule newMsg_accept_cases [OF that(1,2) len]) (use that(3,4) in auto)
    have inc: "st_inv (?st1\<lparr>m_table := trd_table_incrementAge tab\<rparr>)"
      "st_inv (?st2\<lparr>m_table := trd_table_incrementAge (m_table ?st2)\<rparr>)"
      using st_inv_table [OF inv1 age(1)] st_inv_table [OF inv2] age(2) by simp_all
    show ?thesis
      using r c accept [OF _ inv1] accept [OF _ inv2] inv1 inc fr
      by (cases c) (auto simp: trd_state_newMsg_def Let_def timer_ops split: if_splits)
  qed
  then show "st_inv st'" "delivered st' = delivered st" "TRD_LOCAL_ADDRESS st' = TRD_LOCAL_ADDRESS st"
    "length rmsg' = length rmsg" "\<forall>i. i < 6 \<or> i = 8 \<or> 10 \<le> i \<longrightarrow> get8 rmsg' i = get8 rmsg i"
    "r = 0 \<or> r = 1 \<and> ?o \<noteq> TRD_LOCAL_ADDRESS st" by simp_all
qed

section \<open>Requests\<close>

lemma missing_within_six:
  assumes inv: "tt_inv t" and s: "trd_valid s"
  shows "\<exists>k \<le> 5. \<not> trd_table_exist t a ((trd_seqno_next ^^ k) s)"
proof (rule ccontr)
  assume "\<not> ?thesis"
  then have all: "\<forall>k \<le> 5. in_map (tt_lookup t) a (fwd 5000 s k)"
    using inv s by (simp add: trd_table_exist_iff trds.funpow_nxt)
  then obtain nc where nc: "tt_lookup t a = Some nc" by (auto simp: in_map_def dest: spec [of _ 0])
  then have ni: "nc_inv nc" using tt_lookup_inv [OF inv] by blast
  have sub: "set (map (fwd 5000 s) [0..<6]) \<subseteq> set (map ce_seqno (live nc))"
    using all nc by (auto simp: in_map_def nc_seqnos_def)
  have "card (set (map (fwd 5000 s) [0..<6])) = length (map (fwd 5000 s) [0..<6])"
    by (rule distinct_card) (rule trds.distinct_fwd, simp)
  moreover have "card (set (map ce_seqno (live nc))) \<le> length (map ce_seqno (live nc))"
    by (rule card_length)
  moreover have "length (live nc) \<le> 5" using ni by (simp add: nc_inv_def live_def)
  moreover have "card (set (map (fwd 5000 s) [0..<6])) \<le> card (set (map ce_seqno (live nc)))"
    by (rule card_mono [OF _ sub]) simp
  ultimately show False by simp
qed

text \<open>The loop returns, keeps the list well-formed, and adds only packets of the table.\<close>

lemma request_fill_returns:
  assumes inv: "tt_inv t"
  shows "ml_inv rl \<Longrightarrow> \<exists>k \<le> n. \<not> trd_table_exist t a ((trd_seqno_next ^^ k) s) \<Longrightarrow>
    \<exists>rl'. request_fill t a s rl = Some rl' \<and> ml_inv rl' \<and> max_size rl' = max_size rl
      \<and> set (ml_contents rl) \<subseteq> set (ml_contents rl')
      \<and> set (ml_contents rl') \<subseteq> set (ml_contents rl) \<union> {(a, x) | x. trd_table_exist t a x}"
proof (induction n arbitrary: s rl)
  case 0
  then show ?case by (subst request_fill.simps) auto
next
  case (Suc n)
  show ?case
  proof (cases "\<not> metalist_isFull rl \<and> trd_table_exist t a s")
    case False
    then show ?thesis using Suc.prems by (subst request_fill.simps) auto
  next
    case True
    obtain rl1 where rl1: "metalist_insert rl a s = Some rl1" "ml_inv rl1" "max_size rl1 = max_size rl"
      "ml_contents rl1 = (if (a, s) \<in> set (ml_contents rl) then ml_contents rl
          else ml_contents rl @ [(a, s)])"
      using mlq.insert_ex [OF Suc.prems(1), of a s] True by auto
    obtain k where k: "k \<le> Suc n" "\<not> trd_table_exist t a ((trd_seqno_next ^^ k) s)"
      using Suc.prems(2) by blast
    then obtain k' where "k = Suc k'" using True by (cases k) auto
    with k have "\<exists>k \<le> n. \<not> trd_table_exist t a ((trd_seqno_next ^^ k) (trd_seqno_next s))"
      by (intro exI [of _ k']) (simp add: funpow_swap1)
    from Suc.IH [OF rl1(2) this] obtain rl' where
      "request_fill t a (trd_seqno_next s) rl1 = Some rl'" "ml_inv rl'" "max_size rl' = max_size rl1"
      "set (ml_contents rl1) \<subseteq> set (ml_contents rl')"
      "set (ml_contents rl') \<subseteq> set (ml_contents rl1) \<union> {(a, x) | x. trd_table_exist t a x}" by blast
    with True rl1 show ?thesis
      by (subst request_fill.simps) (auto split: if_splits)
  qed
qed

lemma request_loop_returns:
  assumes inv: "tt_inv t"
  shows "ml_inv rl \<Longrightarrow> \<exists>rl'. request_loop t q is rl = Some rl' \<and> ml_inv rl'
      \<and> max_size rl' = max_size rl \<and> set (ml_contents rl) \<subseteq> set (ml_contents rl')
      \<and> (\<forall>(a, x) \<in> set (ml_contents rl'). (a, x) \<in> set (ml_contents rl) \<or> trd_table_exist t a x)"
proof (induction "is" arbitrary: rl)
  case (Cons i js)
  obtain a s0 g where m: "get_meta q i = (a, s0, g)" by (cases "get_meta q i")
  let ?s = "if s0 = TRD_SEQNO_OLDEST then trd_table_getOldestSeqno t a else s0"
  show ?case
  proof (cases "?s = TRD_SEQNO_UNKNOWN \<or> ?s > TRD_SEQNO_LAST")
    case True
    then have "request_loop t q (i # js) rl = Some rl" by (simp add: m Let_def)
    with Cons.prems show ?thesis by auto
  next
    case False
    then have "unat ?s \<noteq> 0 \<and> unat ?s \<le> 5000" by (simp add: consts_defs word_less_nat_alt word_eq_unat)
    then have "trd_valid ?s" by (simp add: in_space_def)
    from request_fill_returns [OF inv Cons.prems missing_within_six [OF inv this]]
    obtain rl1 where rl1: "request_fill t a ?s rl = Some rl1" "ml_inv rl1" "max_size rl1 = max_size rl"
      "set (ml_contents rl) \<subseteq> set (ml_contents rl1)"
      "set (ml_contents rl1) \<subseteq> set (ml_contents rl) \<union> {(a, x) | x. trd_table_exist t a x}" by blast
    from Cons.IH [OF rl1(2)] obtain rl' where
      "request_loop t q js rl1 = Some rl'" "ml_inv rl'" "max_size rl' = max_size rl1"
      "set (ml_contents rl1) \<subseteq> set (ml_contents rl')"
      "\<forall>(a, x) \<in> set (ml_contents rl'). (a, x) \<in> set (ml_contents rl1) \<or> trd_table_exist t a x" by blast
    moreover have "request_loop t q (i # js) rl = request_loop t q js rl1"
      using False rl1(1) by (simp add: m Let_def)
    ultimately show ?thesis using rl1 by fastforce
  qed
qed auto

lemma requestReceived_returns:
  assumes "st_inv st"
  shows "\<exists>st'. trd_state_requestReceived e q st = Some st' \<and> st_inv st'"
proof -
  have t: "tt_inv (m_table st)" "ml_inv (m_recoverlist st)" using assms by (simp_all add: st_inv_def)
  obtain rl where rl: "request_loop (m_table st) q [0..<nat (sint (get8 q 2))] (m_recoverlist st) = Some rl"
    "ml_inv rl" using request_loop_returns [OF t] by blast
  let ?st1 = "st\<lparr>m_recoverlist := rl\<rparr>"
  have inv1: "st_inv ?st1" by (rule st_inv_recover [OF assms rl(2)])
  have "st_inv (if m_state ?st1 = TRD_S_STEADY \<and> \<not> metalist_isEmpty rl
      then ?st1\<lparr>m_state := TRD_S_TX\<rparr> else ?st1)" (is "st_inv ?st2")
    using inv1 st_inv_state [OF inv1, of TRD_S_TX] by simp
  then have "st_inv (recovertimer_start e TRD_RETRY_TIME (read_memory e ?st2))"
    using read_memory_inv by (simp add: timer_ops)
  then show ?thesis by (simp add: trd_state_requestReceived_def rl(1) Let_def)
qed

section \<open>Polling and start\<close>

lemma trickleFired_inv [inv_intros]:
  assumes "st_inv st" "length (e_buf e) = 128"
  shows "st_inv (trickleFired e st)"
proof -
  obtain f t where ft: "trickle_count (trickle_timer st) (e_rnd e) = (f, t)"
    by (cases "trickle_count (trickle_timer st) (e_rnd e)")
  have "st_inv (st\<lparr>trickle_timer := t\<rparr>)" using assms by simp
  then show ?thesis
    using trd_timer_fired_inv [of "st\<lparr>trickle_timer := t\<rparr>" e] assms(2) by (simp add: trickleFired_def ft Let_def)
qed

lemma polling_inv [inv_intros]:
  assumes inv: "st_inv st" and buf: "length (e_buf e1) = 128" "length (e_buf e2) = 128"
  shows "st_inv (polling_trd_state_timer e1 e2 st)"
proof -
  let ?st1 = "poll_trickle_timer e1 st"
  have i1: "st_inv ?st1" using inv buf trickleFired_inv by (simp add: poll_trickle_timer_def)
  let ?st2 = "if alarm_check (init_alarm_time ?st1) e2 then inittimer_fired e2 ?st1 else ?st1"
  have i2: "st_inv ?st2" using i1 inittimer_fired_inv by simp
  let ?st3 = "if alarm_check (recover_alarm_time ?st2) e2 then recovertimer_fired e2 ?st2 else ?st2"
  have i3: "st_inv ?st3" using i2 read_memory_inv by (simp add: recovertimer_fired_def)
  then show ?thesis
    unfolding polling_trd_state_timer_def Let_def
    by (auto split: option.splits intro!: agingtimer_fired_inv)
qed

definition trd_state_shape :: "trd_state \<Rightarrow> bool" where
  "trd_state_shape st \<longleftrightarrow> length (tt_ncache (m_table st)) = 5 \<and> length (mem_array (m_mem st)) = 25
     \<and> (\<forall>x \<in> set (mem_array (m_mem st)). length (mm_packet x) = 128)
     \<and> length (lastpacket st) = 200 \<and> length (m_rlistbuf st) = 10 \<and> outbox st = []"

lemma trd_state_init_inv:
  assumes "trd_state_shape st"
  shows "st_inv (trd_state_init e st)"
proof -
  have "ml_inv (metalist_init (m_rlistbuf st) TRD_RECOVER_LIST_SIZE)"
    using assms by (intro metalist_init_inv) (simp_all add: trd_state_shape_def consts_defs)
  moreover have "mem_inv (trd_memory_init (m_mem st))"
    using assms by (intro trd_memory_init_inv) (simp_all add: trd_state_shape_def)
  moreover have "stored_ok (trd_memory_init (m_mem st))"
    using assms by (auto simp: stored_ok_def trd_memory_init_def trd_state_shape_def)
  moreover have "tt_inv (trd_table_init (m_table st))"
    using assms by (intro trd_table_init_inv) (simp add: trd_state_shape_def)
  ultimately show ?thesis
    using assms by (simp add: trd_state_init_def timer_ops Let_def st_inv_def trd_state_shape_def)
qed

text \<open>How often a late ageing timer ages the table.\<close>

lemma aging_loop_iterates:
  "aging_loop t late = (trd_table_incrementAge ^^ (max 1 ((late - 1) div 10000))) t"
proof (induction t late rule: aging_loop.induct)
  case (1 t late)
  show ?case
  proof (cases "late - 10000 > 10000")
    case True
    then have "(late - 1) div 10000 = Suc ((late - 10000 - 1) div 10000)"
      using le_div_geq [of 10000 "late - 1"] by simp
    moreover have "1 \<le> (late - 10000 - 1) div 10000" using True by simp
    ultimately have n: "max 1 ((late - 1) div 10000) = Suc (max 1 ((late - 10000 - 1) div 10000))" by simp
    have "aging_loop t late = aging_loop (trd_table_incrementAge t) (late - 10000)"
      using True by (subst aging_loop.simps) (simp add: age_unittime_eq)
    also have "\<dots> = (trd_table_incrementAge ^^ max 1 ((late - 10000 - 1) div 10000)) (trd_table_incrementAge t)"
    proof -
      have "(if age_unittime < late then late - age_unittime else late) = late - 10000"
      proof -
        have "10000 < late" using True by linarith
        then show ?thesis by (simp add: age_unittime_eq)
      qed
      then show ?thesis using 1 [OF refl refl] True by (simp only: age_unittime_eq)
    qed
    finally show ?thesis unfolding n by (simp add: funpow_swap1)
  next
    case False
    then have "max 1 ((late - 1) div 10000) = 1"
      using div_le_mono [of "late - 1" 19999 10000] by simp
    moreover have "aging_loop t late = trd_table_incrementAge t"
      using False by (subst aging_loop.simps) (simp add: age_unittime_eq)
    ultimately show ?thesis by simp
  qed
qed

section \<open>Properties\<close>

text \<open>
  A request for recovery is always answered: the loops over the table end for every request,
  although sequence numbers are walked in a circle, the state stays well-formed, and no packet is
  put on the recover list that is not in the table.
\<close>

theorem request_always_returns:
  assumes "st_inv st"
  shows "\<exists>st' rl. trd_state_requestReceived e q st = Some st' \<and> st_inv st'
    \<and> request_loop (m_table st) q [0..<nat (sint (get8 q 2))] (m_recoverlist st) = Some rl
    \<and> (\<forall>(a, s) \<in> set (ml_contents rl). (a, s) \<in> set (ml_contents (m_recoverlist st))
          \<or> trd_table_exist (m_table st) a s)"
proof -
  have "tt_inv (m_table st)" "ml_inv (m_recoverlist st)" using assms by (simp_all add: st_inv_def)
  from request_loop_returns [OF this, of q "[0..<nat (sint (get8 q 2))]"] obtain rl where
    "request_loop (m_table st) q [0..<nat (sint (get8 q 2))] (m_recoverlist st) = Some rl"
    "\<forall>(a, s) \<in> set (ml_contents rl). (a, s) \<in> set (ml_contents (m_recoverlist st))
          \<or> trd_table_exist (m_table st) a s" by blast
  moreover obtain st' where "trd_state_requestReceived e q st = Some st'" "st_inv st'"
    using requestReceived_returns [OF assms] by blast
  ultimately show ?thesis by blast
qed

definition sample_env :: env where
  "sample_env = \<lparr>e_now = \<lparr>tv_sec = 1000, tv_usec = 0\<rparr>, e_rnd = 0, e_rnd2 = 0,
     e_buf = replicate 128 0, e_age = 0\<rparr>"

definition sample_state :: trd_state where
  "sample_state = trd_state_init sample_env
     \<lparr>m_state = 0, m_table = sample_table, m_mem = sample_mem, lastpacket = replicate 200 0,
      lastmeta_origin = 0, lastmeta_seqno = 0, m_fast_retx_count = 0,
      recover_alarm_time = clear_timeval, aging_alarm_time = clear_timeval,
      init_alarm_time = clear_timeval, bootup_time = clear_timeval, init_loop_cnt = 0,
      init_done = False,
      m_recoverlist = \<lparr>head_p = 0, tail_p = 0, ml_length = 0, max_size = 0, item = []\<rparr>,
      m_rlistbuf = replicate 10 \<lparr>me_origin = 0, me_seqno = 0\<rparr>, m_seqno = 0,
      trickle_timer = \<lparr>trickleAnnounce = 0, trickleCountdown = 0, trickleStage = 0,
        trickleSuppress = False, trickleState = TRD_PRE_PROCESS, trickle_alarm_time = clear_timeval\<rparr>,
      TRD_LOCAL_ADDRESS = 9, ms_fd = 3, outbox = [], delivered = []\<rparr>"

lemma sample_state_inv [simp]: "st_inv sample_state"
  unfolding sample_state_def
  by (rule trd_state_init_inv)
    (simp add: trd_state_shape_def sample_table_def sample_mem_def trd_table_init_def
      trd_memory_init_def consts_defs)

lemma sample_env_buf [simp]: "length (e_buf sample_env) = 128"
  by (simp add: sample_env_def)

theorem request_always_returns_witness:
  "\<exists>st'. trd_state_requestReceived sample_env [1, 0, 1, 0xdd, 0, 0, 0, 3, 0xff, 0xfd, 0, 0] sample_state
    = Some st'"
  using request_always_returns [OF sample_state_inv] by blast

text \<open>
  The ageing timer makes up for lateness one unit short: with a delay of \<open>n\<close> whole units and
  more it ages the table \<open>n\<close> times and not \<open>n + 1\<close> times, and once for any delay of up to two units.
\<close>

theorem aging_rounds:
  "m_table (agingtimer_fired e late st)
    = (trd_table_incrementAge ^^ (max 1 ((late - 1) div 10000))) (m_table st)"
  by (simp add: agingtimer_fired_def agingtimer_start_def aging_loop_iterates)

lemma newMsg_accepts_unknown:
  assumes inv: "st_inv st" and len: "length rmsg = msg_len rmsg" "msg_len rmsg < 128"
    and room: "tt_lookup (m_table st) (get16be rmsg 0) = None" "tt_num (m_table st) < 5"
    and other: "get16be rmsg 0 \<noteq> TRD_LOCAL_ADDRESS st"
    and ready: "m_state st \<noteq> TRD_S_DISCONNECTED" "m_state st AND TRD_S_INIT = 0"
  shows "\<exists>rmsg' st'. trd_state_newMsg e rmsg st = Some (1, rmsg', st')"
proof -
  let ?o = "get16be rmsg 0" and ?s = "get16be rmsg 2" and ?g = "get16be rmsg 4"
  have t: "tt_inv (m_table st)" "mem_inv (m_mem st)" using inv by (simp_all add: st_inv_def)
  have con: "newMsg_connect e st = st" using ready by (simp add: newMsg_connect_def)
  have cls: "trd_table_classify (m_table st) ?o ?s ?g = Some (TRD_CLASS_NULL, m_table st)"
    by (simp add: table_classify_spec [OF t(1)] room)
  have nf: "\<not> trd_table_isFull (m_table st)" using room by (simp add: trd_table_isFull_def consts_defs)
  have li: "int (msg_len rmsg) \<le> int (length rmsg)" using len by simp
  obtain m mem where w: "trd_memory_write (m_mem st) rmsg (int (msg_len rmsg)) = Some (m, mem)"
    using ring.write_ok [OF t(2) li] len msg_len_pos [of rmsg] by auto
  have "\<exists>nc. nodecache_insert (fresh_cache (m_table st) ?o) ?s m ?g = Some (1, nc)"
    by (rule nodecache_insert_cases [OF fresh_cache_simps(1) [of "m_table st" ?o], of ?s m ?g])
      (use length_live [OF fresh_cache_simps(1), of "m_table st" ?o] in \<open>auto simp: nc_seqnos_def\<close>)
  then obtain tab where ins: "trd_table_insert (m_table st) ?o ?s m ?g = Some (1, tab)"
    using room by (auto simp: table_insert_spec [OF t(1)] Let_def)
  have n: "\<not> length (lastpacket st) < msg_len rmsg" using len inv by (simp add: st_inv_def)
  let ?st2 = "(remember_packet rmsg st)\<lparr>m_mem := mem, m_table := tab\<rparr>"
  obtain m3 st3 where rb: "trd_rebroadcast (msg_len rmsg) rmsg ?st2 = (m3, st3)"
    by (cases "trd_rebroadcast (msg_len rmsg) rmsg ?st2")
  have st3: "m_state st3 = m_state st" "TRD_LOCAL_ADDRESS st3 = TRD_LOCAL_ADDRESS st"
    using rb by (auto simp: trd_rebroadcast_def send_to_mote_cloud_def remember_packet_def Let_def)
  let ?st4 = "enter_fast (timer_reset e st3)"
  have st4: "m_state ?st4 AND TRD_S_INIT = 0" "TRD_LOCAL_ADDRESS ?st4 = TRD_LOCAL_ADDRESS st"
    using st3 ready by (auto simp: enter_fast_def timer_ops consts_defs)
  have sig: "newMsg_signal e ?o ?g False ?st4 = (1, ?st4)"
    using st4 other by (simp add: newMsg_signal_def Let_def)
  have "newMsg_accept e rmsg False st = Some (1, m3, ?st4)"
    using n w ins rb sig other by (simp add: newMsg_accept_def Let_def msg_len_def [of rmsg, symmetric])
  then show ?thesis
    using cls nf by (simp add: trd_state_newMsg_def con Let_def)
qed

definition sample_msg :: bytes where
  "sample_msg = [0, 4, 0, 7, 0, 1, 4, 0, 2, 0xff, 65, 66]"

lemma sample_msg_len: "length sample_msg = msg_len sample_msg" "msg_len sample_msg < 128"
  by (simp_all add: sample_msg_def msg_len_def get8_def)

definition steady_state :: trd_state where
  "steady_state = sample_state\<lparr>m_state := TRD_S_STEADY\<rparr>"

lemma steady_state_inv [simp]: "st_inv steady_state"
  unfolding steady_state_def by (rule st_inv_state) simp_all

lemma steady_state_room:
  "tt_lookup (m_table steady_state) a = None" "tt_num (m_table steady_state) < 5"
  by (simp_all add: steady_state_def sample_state_def trd_state_init_def timer_ops Let_def
      tt_lookup_None tt_origins_def) (simp add: trd_table_init_def)

lemma steady_state_accepts:
  "\<exists>rmsg' st'. trd_state_newMsg sample_env sample_msg steady_state = Some (1, rmsg', st')"
  by (rule newMsg_accepts_unknown [OF steady_state_inv sample_msg_len steady_state_room])
    (simp_all add: steady_state_def sample_state_def trd_state_init_def timer_ops Let_def
      sample_msg_def get16be_def get8_def mk16_def consts_defs)

text \<open>A packet of another node that is passed up is sent on once, in the call that passes it up.\<close>

lemma newMsg_sends_once:
  assumes "trd_state_newMsg e m st = Some (1, m', st')" "get16be m 0 \<noteq> TRD_LOCAL_ADDRESS st"
  shows "outbox st' = outbox st @ (if ms_fd st = 0 then [] else [(AM_TRD_MSG, TOS_BCAST_ADDR, take (msg_len m) m')])
    \<and> m' = (let m1 = put8 (put16le m 6 (TRD_LOCAL_ADDRESS st)) 9 0 in put8 m1 9 (trd_calculate_checksum m1))
    \<and> msg_len m \<le> length (lastpacket st)"
proof -
  have accept: "outbox y = outbox x @ (if ms_fd x = 0 then [] else [(AM_TRD_MSG, TOS_BCAST_ADDR, take (msg_len m) m')])
      \<and> m' = (let m1 = put8 (put16le m 6 (TRD_LOCAL_ADDRESS x)) 9 0 in put8 m1 9 (trd_calculate_checksum m1))
      \<and> msg_len m \<le> length (lastpacket x)"
    if "newMsg_accept e m chk x = Some (1, m', y)" "get16be m 0 \<noteq> TRD_LOCAL_ADDRESS x" for chk x y
    using that
    by (auto simp: newMsg_accept_def Let_def remember_packet_def enter_fast_def timer_ops newMsg_signal_def msg_len_def
        trd_rebroadcast_def send_to_mote_cloud_def split: if_splits option.splits prod.splits bind_splits)
  obtain c tab where "trd_table_classify (m_table (newMsg_connect e st)) (get16be m 0) (get16be m 2)
      (get16be m 4) = Some (c, tab)"
    using assms(1) by (auto simp: trd_state_newMsg_def Let_def split: bind_splits)
  moreover have "outbox (newMsg_connect e st) = outbox st" "ms_fd (newMsg_connect e st) = ms_fd st"
    "TRD_LOCAL_ADDRESS (newMsg_connect e st) = TRD_LOCAL_ADDRESS st" "lastpacket (newMsg_connect e st) = lastpacket st"
    by (simp_all add: newMsg_connect_def inittimer_start_def)
  ultimately show ?thesis using assms
    by (cases c) (auto simp: trd_state_newMsg_def Let_def timer_ops split: if_splits dest!: accept)
qed

lemma newMsg_sends_sealed:
  assumes new: "trd_state_newMsg e m st = Some (1, m', st')" and inv: "st_inv st" and len: "length m = msg_len m"
  shows "outbox st' = outbox st @ (if ms_fd st = 0 then [] else [(AM_TRD_MSG, TOS_BCAST_ADDR, m')])"
    "trd_checksum_check m' = 1" "get16le m' 6 = TRD_LOCAL_ADDRESS st"
proof -
  have o: "get16be m 0 \<noteq> TRD_LOCAL_ADDRESS st" using newMsg_result(6) [OF new inv len] by simp
  note s = newMsg_sends_once [OF new o]
  have t: "take (msg_len m) m' = m'" using newMsg_result(4) [OF new inv len] len by simp
  show "outbox st' = outbox st @ (if ms_fd st = 0 then [] else [(AM_TRD_MSG, TOS_BCAST_ADDR, m')])" using s t by simp
  have "msg_len m \<le> 200" using s inv by (simp add: st_inv_def)
  then have "out_ok (TRD_LOCAL_ADDRESS st) (AM_TRD_MSG, TOS_BCAST_ADDR, take (msg_len m) m')"
    using sealed_msg [OF refl, of m "TRD_LOCAL_ADDRESS st" TOS_BCAST_ADDR] len s by (simp add: Let_def)
  then show "trd_checksum_check m' = 1" "get16le m' 6 = TRD_LOCAL_ADDRESS st"
    unfolding t by (simp_all add: out_ok_def consts_defs)
qed

text \<open>
  C27: a packet that the node passes up was generated elsewhere, is in its table afterwards, with its bytes in the packet
  store, and was broadcast exactly once in the same call, if there is a socket: with the address of the node as its sender and
  a checksum that passes, and otherwise as it came.
\<close>

theorem newMsg_delivers_stored:
  assumes inv: "st_inv st" and len: "length rmsg = msg_len rmsg"
    and new: "trd_state_newMsg e rmsg st = Some (1, rmsg', st')"
  shows "trd_table_exist (m_table st') (get16be rmsg 0) (get16be rmsg 2)
    \<and> get16be rmsg 0 \<noteq> TRD_LOCAL_ADDRESS st
    \<and> (\<exists>m p. trd_memory_read (m_mem st') m = Some (p, int (length rmsg)) \<and> take (length rmsg) p = rmsg)
    \<and> outbox st' = outbox st @ (if ms_fd st = 0 then [] else [(AM_TRD_MSG, TOS_BCAST_ADDR, rmsg')])
    \<and> trd_checksum_check rmsg' = 1 \<and> get16le rmsg' 6 = TRD_LOCAL_ADDRESS st
    \<and> length rmsg' = length rmsg \<and> (\<forall>i. i < 6 \<or> i = 8 \<or> 10 \<le> i \<longrightarrow> get8 rmsg' i = get8 rmsg i)"
proof -
  let ?st = "newMsg_connect e st" and ?o = "get16be rmsg 0" and ?s = "get16be rmsg 2"
  obtain c tab where c: "trd_table_classify (m_table ?st) ?o ?s (get16be rmsg 4) = Some (c, tab)"
    using new by (auto simp: trd_state_newMsg_def Let_def split: bind_splits)
  have inv0: "st_inv ?st" by (rule newMsg_connect_inv [OF inv])
  have tab: "tt_inv tab" using table_classify_keeps(1) [OF _ c] inv0 by (simp add: st_inv_def)
  have rem: "tt_inv (snd (trd_table_removeNode tab ?o))" using tab.remove_lookup [OF tab] by blast
  have known: "tt_lookup tab ?o \<noteq> None" if "c = TRD_CLASS_NEXT_NEW"
  proof -
    have t0: "tt_inv (m_table ?st)" using inv0 by (simp add: st_inv_def)
    have "tt_lookup (m_table ?st) ?o \<noteq> None"
    proof
      assume "tt_lookup (m_table ?st) ?o = None"
      then show False using c that by (simp add: table_classify_spec [OF t0])
    qed
    then show ?thesis using table_classify_keeps(3) [OF t0 c, of ?o] by (auto elim: option.rel_cases)
  qed
  have room: "tt_num x < 5" if "tt_inv x" "\<not> trd_table_isFull x" for x
    using that by (simp add: trd_table_isFull_def consts_defs)
  have "\<exists>chk x. newMsg_accept e rmsg chk x = Some (1, rmsg', st') \<and> st_inv x
    \<and> (tt_lookup (m_table x) ?o \<noteq> None \<or> tt_num (m_table x) < 5)"
  proof (cases c)
    case TRD_CLASS_TOO_NEW
    with new c st_inv_table [OF st_inv_table [OF inv0 tab] rem] room [OF rem] show ?thesis
      by (fastforce simp: trd_state_newMsg_def Let_def split: if_splits)
  next
    case TRD_CLASS_NULL
    with new c st_inv_table [OF inv0 tab] room [OF tab] show ?thesis
      by (fastforce simp: trd_state_newMsg_def Let_def split: if_splits)
  next
    case TRD_CLASS_NEXT_NEW
    with new c st_inv_table [OF inv0 tab] known show ?thesis
      by (fastforce simp: trd_state_newMsg_def Let_def split: if_splits)
  qed (use new c in \<open>auto simp: trd_state_newMsg_def Let_def split: if_splits\<close>)
  then obtain chk x where x: "newMsg_accept e rmsg chk x = Some (1, rmsg', st')" "st_inv x"
    "tt_lookup (m_table x) ?o \<noteq> None \<or> tt_num (m_table x) < 5" by blast
  have xt: "tt_inv (m_table x)" "mem_inv (m_mem x)" using x(2) by (simp_all add: st_inv_def)
  have li: "int (msg_len rmsg) \<le> int (length rmsg)" using len by simp
  show ?thesis
  proof (cases rule: newMsg_accept_cases [OF x(1,2) len])
    case 1
    then show ?thesis by simp
  next
    case (2 m q t mem)
    have t: "tt_inv t" using tab.insert_lookup [OF xt(1) 2(7)] by blast
    have "in_map (tt_lookup t) ?o ?s" by (rule table_insert_known [OF xt(1) 2(7) x(3)])
    then have ex: "trd_table_exist (m_table st') ?o ?s" using t 2(8) by (simp add: trd_table_exist_iff)
    have "\<exists>m p. trd_memory_read mem m = Some (p, int (msg_len rmsg)) \<and> take (msg_len rmsg) p = rmsg"
      using ring.write_ok [OF xt(2) li] 2(1,5) len msg_len_pos [of rmsg] by auto
    then show ?thesis using ex 2(6) newMsg_result(4,5,6) [OF new inv len] newMsg_sends_sealed [OF new inv len] len by auto
  qed
qed

theorem newMsg_delivers_stored_witness:
  "\<exists>rmsg' st'. trd_state_newMsg sample_env sample_msg steady_state = Some (1, rmsg', st')
    \<and> trd_table_exist (m_table st') (get16be sample_msg 0) (get16be sample_msg 2)
    \<and> outbox st' = outbox steady_state @ (if ms_fd steady_state = 0 then [] else [(AM_TRD_MSG, TOS_BCAST_ADDR, rmsg')])"
proof -
  obtain rmsg' st' where r: "trd_state_newMsg sample_env sample_msg steady_state = Some (1, rmsg', st')"
    using steady_state_accepts by blast
  from newMsg_delivers_stored [OF steady_state_inv sample_msg_len(1) this] r show ?thesis by blast
qed

text \<open>
  Outside initialisation, with room in the table, the first packet of an unknown other origin is
  always passed up.
\<close>

theorem newMsg_unknown_origin_delivered:
  assumes "st_inv st" "length rmsg = msg_len rmsg" "msg_len rmsg < 128"
    and "get16be rmsg 0 \<notin> tt_origins (m_table st)" "tt_num (m_table st) < 5"
    and "get16be rmsg 0 \<noteq> TRD_LOCAL_ADDRESS st"
    and "m_state st \<noteq> TRD_S_DISCONNECTED" "m_state st AND TRD_S_INIT = 0"
  shows "\<exists>rmsg' st'. trd_state_newMsg e rmsg st = Some (1, rmsg', st') \<and> st_inv st'"
proof -
  have "tt_lookup (m_table st) (get16be rmsg 0) = None" using assms(4) by (simp add: tt_lookup_None)
  from newMsg_accepts_unknown [OF assms(1-3) this assms(5-8)] newMsg_result(1) [OF _ assms(1,2)]
  show ?thesis by blast
qed

theorem newMsg_unknown_origin_delivered_witness:
  "\<exists>rmsg' st'. trd_state_newMsg sample_env sample_msg steady_state = Some (1, rmsg', st')"
proof -
  have "get16be sample_msg 0 \<notin> tt_origins (m_table steady_state)"
    using steady_state_room(1) by (simp add: tt_lookup_None)
  moreover have "get16be sample_msg 0 \<noteq> TRD_LOCAL_ADDRESS steady_state"
    "m_state steady_state \<noteq> TRD_S_DISCONNECTED" "m_state steady_state AND TRD_S_INIT = 0"
    by (simp_all add: steady_state_def sample_state_def trd_state_init_def timer_ops Let_def
      sample_msg_def get16be_def get8_def mk16_def consts_defs)
  ultimately show ?thesis
    using newMsg_unknown_origin_delivered [OF steady_state_inv sample_msg_len _ steady_state_room(2)]
    by blast
qed

text \<open>
  A packet whose number is in the table is never passed up again and causes no transmission: the
  reception returns, if the numbers of its origin lie in one window and no entry has age 0 or the
  packet is at most two units old.
\<close>

theorem newMsg_duplicate_suppressed:
  assumes inv: "st_inv st"
    and nc: "tt_lookup (m_table st) (get16be rmsg 0) = Some nc" "in_window nc b js"
    and s: "k \<in> set js" "get16be rmsg 2 = fwd 5000 b k"
    and age: "(\<forall>e \<in> set (live nc). 0 < unat (ce_age e)) \<or> unat (get16be rmsg 4) \<le> 2"
  shows "\<exists>st'. trd_state_newMsg e rmsg st = Some (0, rmsg, st') \<and> outbox st' = outbox st
    \<and> delivered st' = delivered st"
proof -
  let ?st = "newMsg_connect e st" and ?o = "get16be rmsg 0" and ?s = "get16be rmsg 2"
  have t: "tt_inv (m_table st)" using inv by (simp add: st_inv_def)
  have nci: "nc_inv nc" using tt_lookup_inv [OF t nc(1)] by simp
  have k: "k < 16" using nc(2) s(1) by (auto simp: in_window_def)
  have "js \<noteq> []" using s(1) by auto
  then have "live nc \<noteq> []" using nc(2) by (auto simp: in_window_def)
  then have num: "nc_num nc \<noteq> 0" by (auto simp: live_def)
  obtain c nc' where n: "nodecache_classifySeqno nc (fwd 5000 b k) (get16be rmsg 4) = Some (c, nc')"
    "c \<in> class_spec (set js) k"
    using nodecache_classify_window [OF nci nc(2) num k age] by blast
  have M: "k \<le> Max (set js)" "Min (set js) \<le> k" using s(1) by simp_all
  then have "k \<noteq> Max (set js) + 1" "\<not> Max (set js) + 4 < k" "\<not> Max (set js) < k" "\<not> k < Min (set js)"
    by linarith+
  then have "c \<in> {TRD_CLASS_IN_LAST, TRD_CLASS_IN_OLD}"
    using n(2) s(1) unfolding class_spec_def by (auto split: if_splits)
  moreover have "\<exists>tab. trd_table_classify (m_table st) ?o ?s (get16be rmsg 4) = Some (c, tab)"
    using n(1) nc(1) s(2) by (simp add: table_classify_spec [OF t])
  ultimately show ?thesis
    by (auto simp: trd_state_newMsg_def Let_def timer_ops frame_simps)
qed

definition one_cache :: TRD_NodeCache where
  "one_cache = \<lparr>nc_origin = 4, nc_num = 1,
     nc_cache = replicate 5 \<lparr>ce_memloc = 0, ce_seqno = 7, ce_age = 1\<rparr>\<rparr>"

theorem newMsg_duplicate_suppressed_witness:
  "\<exists>st'. trd_state_newMsg sample_env sample_msg
      (steady_state\<lparr>m_table := \<lparr>tt_num = 1, tt_ncache = replicate 5 one_cache\<rparr>\<rparr>)
    = Some (0, sample_msg, st')"
proof -
  let ?t = "\<lparr>tt_num = 1, tt_ncache = replicate 5 one_cache\<rparr>"
  have "tt_inv ?t"
    by (simp add: tt_inv_def tlive_def one_cache_def nc_inv_def live_def)
  then have "st_inv (steady_state\<lparr>m_table := ?t\<rparr>)" by (intro st_inv_table) simp_all
  moreover have "get16be sample_msg 0 = 4" "get16be sample_msg 2 = 7" "get16be sample_msg 4 = 1"
    by (simp_all add: sample_msg_def get16be_def get8_def mk16_def)
  moreover have "tt_lookup ?t 4 = Some one_cache" by (simp add: tt_lookup_def tlive_def one_cache_def)
  moreover have "in_window one_cache 7 [0]"
    by (simp add: in_window_def one_cache_def live_def in_space_def fwd_0)
  ultimately show ?thesis
    using newMsg_duplicate_suppressed [of "steady_state\<lparr>m_table := ?t\<rparr>" sample_msg one_cache 7 "[0]" 0
      sample_env] by (auto simp: in_space_def fwd_0)
qed

text \<open>
  C26: every transmission of the state machine is sealed: whatever a reception, a summary, a request
  or a timer makes the node send carries its address and a checksum that passes, and the state stays
  one of the eleven states of the protocol.
\<close>

theorem handlers_keep_invariant:
  assumes inv: "st_inv st" and buf: "length (e_buf e1) = 128" "length (e_buf e2) = 128"
  shows "(\<forall>rmsg r rmsg' st'. length rmsg = msg_len rmsg \<longrightarrow>
        trd_state_newMsg e1 rmsg st = Some (r, rmsg', st') \<longrightarrow> st_inv st')
    \<and> (\<forall>smsg st'. trd_state_summaryReceived e1 smsg st = Some st' \<longrightarrow> st_inv st')
    \<and> (\<forall>q. \<exists>st'. trd_state_requestReceived e1 q st = Some st' \<and> st_inv st')
    \<and> st_inv (polling_trd_state_timer e1 e2 st)"
  using newMsg_result(1) [OF _ inv] summaryReceived_inv [OF _ inv buf(1)]
    requestReceived_returns [OF inv] polling_inv [OF inv buf] by blast

theorem handlers_keep_invariant_witness:
  "st_inv (polling_trd_state_timer sample_env sample_env steady_state)"
  using handlers_keep_invariant [OF steady_state_inv sample_env_buf sample_env_buf] by blast

end
