(* ===== verification/Trd.thy ===== *)
theory Trd
  imports Trd_State
begin

text \<open>
  Model of src/master/trd/trd.c (the receiving half and \<open>trd_send\<close>; the sending half is in theory
  Trd\_State) and of \<open>is_trd_packet\<close> in trd\_misc.c. A \<open>TOS_Msg\<close> has the format the master is
  built with (\<open>OLD_TOS_MSG_FORMAT\<close> in src/master/include/Makerules): addr 0, type 2, group 3,
  length 4, data 5. \<open>delivered\<close> collects the calls of \<open>receive_trd\<close>: sender and payload. Buffers
  are as long as the \<open>len\<close> that comes with them.
\<close>

definition trd_init :: "env \<Rightarrow> int \<Rightarrow> u16 \<Rightarrow> trd_state \<Rightarrow> trd_state" where
  "trd_init e sf_fd local_addr st =
    trd_state_init e (st\<lparr>ms_fd := sf_fd, TRD_LOCAL_ADDRESS := local_addr\<rparr>)"

definition is_trd_sendReady :: "trd_state \<Rightarrow> bool" where
  "is_trd_sendReady st = trd_state_sendReady st"

definition polling_trd_timer :: "env \<Rightarrow> env \<Rightarrow> trd_state \<Rightarrow> trd_state" where
  "polling_trd_timer e1 e2 st = polling_trd_state_timer e1 e2 st"

text \<open>
  \<open>send_to_mote_cloud\<close> returns 1 or -1, both true in the test \<open>if (ok)\<close>: the own packet enters the
  table and the store even when nothing was sent. The result is the sequence number.
\<close>

definition trd_send :: "env \<Rightarrow> bytes \<Rightarrow> trd_state \<Rightarrow> (u16 \<times> trd_state) option" where
  "trd_send e msg st0 =
    (let (seqno, st) = trd_state_getNextSeqno st0;
         p0 = replicate 10 0 @ msg;
         p1 = put16be (put16be (put16be p0 0 (TRD_LOCAL_ADDRESS st)) 2 seqno) 4 1;
         p2 = put16le (put8 p1 8 (of_nat (length msg))) 6 (TRD_LOCAL_ADDRESS st);
         p3 = put8 p2 9 0;
         rmsg = put8 p3 9 (trd_calculate_checksum p3);
         (ok, st1) = send_to_mote_cloud (length msg + 10) rmsg AM_TRD_MSG TOS_BCAST_ADDR st
     in if ok \<noteq> 0 then do {
          (r, rmsg', st2) \<leftarrow> trd_state_newMsg e rmsg st1;
          Some (seqno, st2)
        } else Some (seqno, st1))"

definition trd_receive_msg :: "env \<Rightarrow> bytes \<Rightarrow> trd_state \<Rightarrow> (int \<times> trd_state) option" where
  "trd_receive_msg e msg st =
    (let len = int (length msg); paylen = len - 10; exlen = 10 + int (unat (get8 msg 8))
     in if paylen \<le> 0 then Some (-1, st)
        else if len \<noteq> exlen then Some (-1, st)
        else if trd_checksum_check msg < 0 then Some (-1, st)
        else do {
          (r, rmsg, st1) \<leftarrow> trd_state_newMsg e msg st;
          Some (1, if r \<noteq> 0
                   then st1\<lparr>delivered := delivered st1 @ [(get16be rmsg 0, take (nat paylen) (drop 10 rmsg))]\<rparr>
                   else st1)
        })"

definition trd_receive_summary :: "env \<Rightarrow> bytes \<Rightarrow> trd_state \<Rightarrow> (int \<times> trd_state) option" where
  "trd_receive_summary e msg st = map_option (\<lambda>st'. (1, st')) (trd_state_summaryReceived e msg st)"

definition trd_receive_request :: "env \<Rightarrow> bytes \<Rightarrow> trd_state \<Rightarrow> (int \<times> trd_state) option" where
  "trd_receive_request e msg st = map_option (\<lambda>st'. (1, st')) (trd_state_requestReceived e msg st)"

definition trd_receive_control :: "env \<Rightarrow> bytes \<Rightarrow> trd_state \<Rightarrow> (int \<times> trd_state) option" where
  "trd_receive_control e msg st =
    (let len = int (length msg); n = sint (get8 msg 2)
     in if len < 6 then Some (-1, st)
        else if n \<ge> 0 \<and> len \<noteq> 6 + n * 6 then Some (-1, st)
        else if trd_control_checksum_check msg < 0 then Some (-1, st)
        else if get8 msg 3 = TRD_CONTROL_SUMMARY then trd_receive_summary e msg st
        else if get8 msg 3 = TRD_CONTROL_REQUEST then trd_receive_request e msg st
        else Some (1, st))"

definition trd_receive :: "env \<Rightarrow> bytes \<Rightarrow> trd_state \<Rightarrow> (int \<times> trd_state) option" where
  "trd_receive e msg st =
    (if length msg < 5 then Some (-1, st)
     else if get8 msg 2 = AM_TRD_MSG then trd_receive_msg e (drop 5 msg) st
     else if get8 msg 2 = AM_TRD_CONTROL then trd_receive_control e (drop 5 msg) st
     else Some (-1, st))"

definition is_trd_packet :: "bytes \<Rightarrow> bool" where
  "is_trd_packet msg \<longleftrightarrow>
    \<not> length msg < 5 \<and> (get8 msg 2 = AM_TRD_MSG \<or> get8 msg 2 = AM_TRD_CONTROL)"

section \<open>The node as a transition system\<close>

text \<open>What the transport process does with a node after \<open>trd_init\<close>: it hands over every packet from
  the mote cloud, polls the timers, and sends.\<close>

inductive trd_step :: "trd_state \<Rightarrow> trd_state \<Rightarrow> bool" where
  receive: "trd_receive e msg st = Some (r, st') \<Longrightarrow> length (e_buf e) = 128 \<Longrightarrow> trd_step st st'"
| poll: "length (e_buf e1) = 128 \<Longrightarrow> length (e_buf e2) = 128 \<Longrightarrow>
    trd_step st (polling_trd_timer e1 e2 st)"
| send: "trd_send e msg st = Some (s, st') \<Longrightarrow> length msg \<le> 245 \<Longrightarrow> trd_step st st'"

inductive trd_reachable :: "u16 \<Rightarrow> trd_state \<Rightarrow> bool" for a :: u16 where
  start: "trd_state_shape st \<Longrightarrow> delivered st = [] \<Longrightarrow> trd_reachable a (trd_init e fd a st)"
| step: "trd_reachable a st \<Longrightarrow> trd_step st st' \<Longrightarrow> trd_reachable a st'"

inductive_cases trd_stepE: "trd_step st st'"

definition node_inv :: "u16 \<Rightarrow> trd_state \<Rightarrow> bool" where
  "node_inv a st \<longleftrightarrow> st_inv st \<and> TRD_LOCAL_ADDRESS st = a \<and> (\<forall>(x, d) \<in> set (delivered st). x \<noteq> a)"

lemma newMsg_node_inv:
  assumes "node_inv a st" "trd_state_newMsg e m st = Some (r, m', st')" "length m = msg_len m"
  shows "node_inv a st'" "r \<noteq> 0 \<longrightarrow> get16be m' 0 \<noteq> a"
proof -
  have inv: "st_inv st" using assms by (simp add: node_inv_def)
  note n = newMsg_result [OF assms(2) inv assms(3)]
  have "get16be m' 0 = get16be m 0" using n(5) by (simp add: get16be_def)
  then show "node_inv a st'" "r \<noteq> 0 \<longrightarrow> get16be m' 0 \<noteq> a"
    using n assms(1) by (auto simp: node_inv_def)
qed

text \<open>Sending and polling do not touch the upcalls.\<close>

lemma read_memory_frame [simp]:
  "delivered (read_memory e st) = delivered st"
  "TRD_LOCAL_ADDRESS (read_memory e st) = TRD_LOCAL_ADDRESS st"
  by (auto simp: read_memory_def timer_ops Let_def trd_rebroadcast_def send_to_mote_cloud_def
      split: option.splits prod.splits)

lemma send_control_frame [simp]:
  "delivered (trd_send_control n m to st) = delivered st"
  "TRD_LOCAL_ADDRESS (trd_send_control n m to st) = TRD_LOCAL_ADDRESS st"
  by (simp_all add: trd_send_control_def send_to_mote_cloud_def Let_def)

lemma send_summary_keeps [simp]:
  "delivered (send_summary e ig st) = delivered st"
  "TRD_LOCAL_ADDRESS (send_summary e ig st) = TRD_LOCAL_ADDRESS st"
  by (simp_all add: send_summary_def trd_send_summary_def Let_def split: prod.splits)

lemma summary_react_frame [simp]:
  "delivered (summary_react e m a acc st) = delivered st"
  "TRD_LOCAL_ADDRESS (summary_react e m a acc st) = TRD_LOCAL_ADDRESS st"
  unfolding summary_react_def Let_def timer_ops trd_send_request_def by simp_all

lemma summaryReceived_frame:
  assumes "trd_state_summaryReceived e m st = Some st'"
  shows "delivered st' = delivered st \<and> TRD_LOCAL_ADDRESS st' = TRD_LOCAL_ADDRESS st"
proof -
  obtain b a acc st1 where "st' = summary_react e b a acc st1"
    "st1 = newMsg_connect e st \<or> st1 = send_summary e False (newMsg_connect e st)"
    using assms unfolding trd_state_summaryReceived_def Let_def
    by (auto split: bind_splits if_splits)
  then show ?thesis by (auto simp: frame_simps)
qed

lemma requestReceived_frame:
  assumes "trd_state_requestReceived e m st = Some st'"
  shows "delivered st' = delivered st \<and> TRD_LOCAL_ADDRESS st' = TRD_LOCAL_ADDRESS st"
  using assms by (auto simp: trd_state_requestReceived_def Let_def timer_ops split: bind_splits)

lemma trd_timer_fired_frame [simp]:
  "delivered (trd_timer_fired e st) = delivered st"
  "TRD_LOCAL_ADDRESS (trd_timer_fired e st) = TRD_LOCAL_ADDRESS st"
  by (simp_all add: trd_timer_fired_def timer_ops send_fast_packet_def trd_rebroadcast_def
      send_to_mote_cloud_def Let_def)

lemma inittimer_fired_frame [simp]:
  "delivered (inittimer_fired e st) = delivered st"
  "TRD_LOCAL_ADDRESS (inittimer_fired e st) = TRD_LOCAL_ADDRESS st"
  by (simp_all add: inittimer_fired_def timer_ops Let_def)

lemma polling_frame:
  "delivered (polling_trd_state_timer e1 e2 st) = delivered st
    \<and> TRD_LOCAL_ADDRESS (polling_trd_state_timer e1 e2 st) = TRD_LOCAL_ADDRESS st"
proof -
  have t: "delivered (poll_trickle_timer e1 st) = delivered st"
    "TRD_LOCAL_ADDRESS (poll_trickle_timer e1 st) = TRD_LOCAL_ADDRESS st"
    by (auto simp: poll_trickle_timer_def trickleFired_def Let_def split: prod.splits)
  show ?thesis
    by (auto simp: polling_trd_state_timer_def recovertimer_fired_def agingtimer_fired_def
        agingtimer_start_def Let_def t split: option.splits)
qed

lemma trd_receive_inv:
  assumes "trd_receive e msg st = Some (r, st')" "node_inv a st" "length (e_buf e) = 128"
  shows "node_inv a st'"
proof -
  let ?m = "drop 5 msg"
  have inv: "st_inv st" using assms by (simp add: node_inv_def)
  have msg: ?thesis if "trd_receive_msg e ?m st = Some (r, st')"
  proof (cases "st' = st")
    case False
    with that obtain q m' st1 where q: "trd_state_newMsg e ?m st = Some (q, m', st1)"
      and len: "int (length ?m) = 10 + int (unat (get8 ?m 8))"
      and st': "st' = (if q \<noteq> 0 then st1\<lparr>delivered := delivered st1 @
          [(get16be m' 0, take (nat (int (length ?m) - 10)) (drop 10 m'))]\<rparr> else st1)"
      by (auto simp: trd_receive_msg_def Let_def split: if_splits bind_splits)
    have "length ?m = msg_len ?m" using len unfolding msg_len_def by linarith
    from newMsg_node_inv [OF assms(2) q this] st' show ?thesis
      by (simp add: node_inv_def split: if_splits)
  qed (use assms in simp)
  have ctl: ?thesis if "trd_receive_control e ?m st = Some (r, st')"
  proof (cases "st' = st")
    case False
    with that consider "trd_state_summaryReceived e ?m st = Some st'"
      | "trd_state_requestReceived e ?m st = Some st'"
      by (auto simp: trd_receive_control_def trd_receive_summary_def trd_receive_request_def Let_def
          split: if_splits)
    then show ?thesis
    proof cases
      case 1
      with summaryReceived_inv [OF 1 inv assms(3)] summaryReceived_frame [OF 1] assms(2)
      show ?thesis by (simp add: node_inv_def)
    next
      case 2
      with requestReceived_returns [OF inv, of e ?m] requestReceived_frame [OF 2] assms(2)
      show ?thesis by (auto simp: node_inv_def)
    qed
  qed (use assms in simp)
  show ?thesis
    using assms(1,2) msg ctl by (auto simp: trd_receive_def split: if_splits)
qed

lemma trd_send_inv:
  assumes "trd_send e msg st = Some (s, st')" "node_inv a st" "length msg \<le> 245"
  shows "node_inv a st'"
proof -
  obtain q st0 where q: "trd_state_getNextSeqno st = (q, st0)" by (cases "trd_state_getNextSeqno st")
  then have st0: "st0 = st\<lparr>m_seqno := q\<rparr>" by (auto simp: trd_state_getNextSeqno_def Let_def)
  let ?a = "TRD_LOCAL_ADDRESS st0" and ?n = "length msg + 10"
  let ?p1 = "put16be (put16be (put16be (replicate 10 0 @ msg) 0 ?a) 2 q) 4 1"
  let ?m = "put8 ?p1 8 (of_nat (length msg))"
  let ?m1 = "put8 (put16le ?m 6 ?a) 9 0"
  let ?m2 = "put8 ?m1 9 (trd_calculate_checksum ?m1)"
  have "unat (get8 ?m 8) = length msg"
    using assms(3) by (simp add: get8_put8 unat_of_nat_u8)
  then have len: "?n = msg_len ?m" "?n \<le> length ?m" "?n \<le> 255"
    using assms(3) by (simp_all add: msg_len_def)
  have "get8 ?m2 8 = get8 ?m 8" by (simp add: get8_puts)
  then have len2: "length ?m2 = msg_len ?m2" using len msg_len_eq [of ?m2 ?m] by simp
  have ok: "out_ok ?a (AM_TRD_MSG, TOS_BCAST_ADDR, take ?n ?m2)" by (rule sealed_msg [OF len])
  obtain k st1 where k: "send_to_mote_cloud ?n ?m2 AM_TRD_MSG TOS_BCAST_ADDR st0 = (k, st1)"
    by (cases "send_to_mote_cloud ?n ?m2 AM_TRD_MSG TOS_BCAST_ADDR st0")
  then have k0: "k \<noteq> 0" and st1: "st1 = st0 \<or> st1 = st0\<lparr>outbox := outbox st0 @ [(AM_TRD_MSG, TOS_BCAST_ADDR, take ?n ?m2)]\<rparr>"
    by (auto simp: send_to_mote_cloud_def split: if_splits)
  have i0: "node_inv a st0" using assms(2) by (simp add: node_inv_def st0)
  then have i1: "node_inv a st1"
    using st1 ok st_inv_outbox [of st0 "[(AM_TRD_MSG, TOS_BCAST_ADDR, take ?n ?m2)]"]
    by (auto simp: node_inv_def)
  obtain r m' st2 where "trd_state_newMsg e ?m2 st1 = Some (r, m', st2)" "st' = st2"
    using assms(1) k0 by (auto simp: trd_send_def q k Let_def split: bind_splits)
  with newMsg_node_inv(1) [OF i1 _ len2] show ?thesis by blast
qed

lemma trd_step_inv: "trd_step st st' \<Longrightarrow> node_inv a st \<Longrightarrow> node_inv a st'"
proof (erule trd_stepE)
  fix e1 e2 :: env
  assume "node_inv a st" "st' = polling_trd_timer e1 e2 st" "length (e_buf e1) = 128" "length (e_buf e2) = 128"
  then show "node_inv a st'"
    using polling_inv [of st e1 e2] polling_frame [of e1 e2 st]
    by (simp add: node_inv_def polling_trd_timer_def)
qed (blast intro: trd_receive_inv trd_send_inv)+

lemma trd_reachable_inv: "trd_reachable a st \<Longrightarrow> node_inv a st"
proof (induction rule: trd_reachable.induct)
  case (start st e fd)
  have "trd_state_shape (st\<lparr>ms_fd := fd, TRD_LOCAL_ADDRESS := a\<rparr>)"
    using start by (simp add: trd_state_shape_def)
  from trd_state_init_inv [OF this, of e] start show ?case
    by (simp add: node_inv_def trd_init_def) (simp add: trd_state_init_def timer_ops Let_def)
qed (rule trd_step_inv)

section \<open>Properties\<close>

text \<open>
  C7: in every reachable state of a node, its protocol state is one of the eleven, its table, store
  and recover list are well-formed, everything it has sent carries its address and a checksum that
  passes, and everything it has passed up was generated by another node.
\<close>

theorem trd_node_safe:
  assumes "trd_reachable a st"
  shows "m_state st \<in> {0x00, 0x11, 0x01, 0x21, 0x02, 0x08, 0x10, 0x15, 0x05, 0x25, 0x06}
    \<and> tt_inv (m_table st) \<and> mem_inv (m_mem st) \<and> ml_inv (m_recoverlist st)
    \<and> (\<forall>(ty, to, b) \<in> set (outbox st).
        (ty = AM_TRD_MSG \<and> trd_checksum_check b = 1 \<and> get16le b 6 = a)
      \<or> (ty = AM_TRD_CONTROL \<and> trd_control_checksum_check b = 1 \<and> get16le b 0 = a))
    \<and> (\<forall>(x, d) \<in> set (delivered st). x \<noteq> a)"
proof -
  have n: "st_inv st" "TRD_LOCAL_ADDRESS st = a" "\<forall>(x, d) \<in> set (delivered st). x \<noteq> a"
    using trd_reachable_inv [OF assms] by (simp_all add: node_inv_def)
  have "\<forall>x \<in> set (outbox st). out_ok a x" using n(1,2) by (simp add: st_inv_def)
  then have "\<forall>(ty, to, b) \<in> set (outbox st).
        (ty = AM_TRD_MSG \<and> trd_checksum_check b = 1 \<and> get16le b 6 = a)
      \<or> (ty = AM_TRD_CONTROL \<and> trd_control_checksum_check b = 1 \<and> get16le b 0 = a)"
    by (auto simp: out_ok_def)
  then show ?thesis using n by (simp add: st_inv_def trd_states_def)
qed

definition blank_state :: trd_state where
  "blank_state = sample_state\<lparr>ms_fd := 0\<rparr>"

lemma sample_reachable: "trd_reachable 9 (trd_init sample_env 3 9 blank_state)"
  by (rule trd_reachable.start)
    (simp_all add: blank_state_def sample_state_def trd_state_init_def timer_ops Let_def
      trd_state_shape_def sample_table_def sample_mem_def trd_table_init_def trd_memory_init_def
      consts_defs)

theorem trd_node_safe_witness:
  "tt_inv (m_table (trd_init sample_env 3 9 blank_state))"
  using trd_node_safe [OF sample_reachable] by blast

text \<open>
  A damaged packet is dropped: a dissemination message in which one byte other than length and
  checksum has changed since it was sealed returns -1 and leaves the node as it was.
\<close>

theorem trd_receive_drops_damaged:
  assumes ok: "trd_msg_ok m" "trd_calculate_checksum m = get8 m 9" "get8 m 9 \<noteq> 0xff"
    and j: "j < length m" "j \<noteq> 8" "j \<noteq> 9" "v \<noteq> get8 m j"
    and hdr: "length h = 5" "get8 h 2 = AM_TRD_MSG"
  shows "trd_receive e (h @ put8 m j v) st = Some (-1, st)"
proof -
  let ?m = "put8 m j v"
  have "trd_calculate_checksum ?m \<noteq> get8 ?m 9"
  proof (rule trd_sum.one_byte_corruption [OF ok(1,2)])
    show "j < unat (10 + get8 m 8)" using ok(1) j(1) by (auto simp: trd_msg_ok_def unat_add_u8)
  qed (use j ok(1) in \<open>simp_all add: trd_msg_ok_def get8_put8\<close>)
  moreover have "get8 ?m 9 \<noteq> 0xff" using ok(3) j by (simp add: get8_put8)
  ultimately have "trd_checksum_check ?m < 0" by (simp add: trd_checksum_check_def)
  then have "trd_receive_msg e ?m st = Some (-1, st)" by (simp add: trd_receive_msg_def Let_def)
  then show ?thesis
    using hdr by (simp add: trd_receive_def get8_def nth_append)
qed

theorem trd_receive_drops_damaged_witness:
  "trd_receive sample_env ([0xff, 0xff, 0x75, 0, 11] @ put8 [0, 7, 0, 1, 0, 3, 9, 0, 1, 0x9e, 77] 10 78)
    sample_state = Some (-1, sample_state)"
  by (rule trd_receive_drops_damaged)
    (simp_all add: trd_msg_ok_def get8_def trd_calculate_checksum_eq sum8_def upt_rec consts_defs)

end
