(* ===== verification/Trd_Fragment.thy ===== *)
theory Trd_Fragment
  imports Trd
begin

text \<open>
  Model of src/master/trd/trd_fragment.c and of the header in src/mote/lib/trd/trd_fragmentmsg.h:
  a message longer than one packet is cut into numbered fragments, each sent as a dissemination
  packet of its own, and put together again at the receiver. A fragment starts with
  its index (from 1), the number of fragments, its length, a pad byte and the total length in
  network order. The reassembly buffer is a list of bytes, the pointer into it an offset; the
  contents of freshly allocated memory are an argument. \<open>None\<close> is a copy outside the buffer.
  Allocation does not fail.
\<close>

definition TOSH_DATA_LENGTH :: nat where [consts_defs]: "TOSH_DATA_LENGTH = 76"

definition frag_maxlen :: nat where
  [consts_defs]: "frag_maxlen = (TOSH_DATA_LENGTH - 6) - (6 + 10)"

lemma frag_maxlen_eq [simp]: "frag_maxlen = 54"
  by (simp add: consts_defs)

section \<open>Sending\<close>

text \<open>Length of the last fragment and number of fragments.\<close>

function frag_count :: "nat \<Rightarrow> nat \<Rightarrow> nat \<times> nat" where
  "frag_count tmplen num_frag =
    (if tmplen > frag_maxlen then frag_count (tmplen - frag_maxlen) (num_frag + 1)
     else (tmplen, num_frag))"
  by pat_completeness auto
termination by (relation "measure fst") simp_all

declare frag_count.simps [simp del]

definition TRD_FragmentMsg :: "nat \<Rightarrow> nat \<Rightarrow> nat \<Rightarrow> bytes \<Rightarrow> bytes" where
  "TRD_FragmentMsg index tot_fragment tot_bytes data =
    [of_nat index, of_nat tot_fragment, of_nat (length data), 0xAB,
     hi8 (of_nat tot_bytes), lo8 (of_nat tot_bytes)] @ data"

primrec frag_loop ::
    "(nat \<Rightarrow> env) \<Rightarrow> nat \<Rightarrow> nat \<Rightarrow> nat \<Rightarrow> nat list \<Rightarrow> bytes \<Rightarrow> int \<Rightarrow> trd_state
      \<Rightarrow> (int \<times> trd_state) option" where
  "frag_loop es num_frag tmplen totlen [] nextptr seqno st = Some (seqno, st)"
| "frag_loop es num_frag tmplen totlen (i # is) nextptr seqno st =
    (let thislen = (if i = num_frag then tmplen else frag_maxlen);
         fmsg = TRD_FragmentMsg i num_frag totlen (take thislen nextptr)
     in do {
       (s, st') \<leftarrow> trd_send (es i) fmsg st;
       frag_loop es num_frag tmplen totlen is (drop thislen nextptr) (int (unat s)) st'
     })"

definition trd_fragment_send ::
    "(nat \<Rightarrow> env) \<Rightarrow> bytes \<Rightarrow> trd_state \<Rightarrow> (int \<times> trd_state) option" where
  "trd_fragment_send es msg st =
    (if length msg = 0 then Some (-31, st)
     else case frag_count (length msg) 1 of (tmplen, num_frag) \<Rightarrow>
       frag_loop es num_frag tmplen (length msg) [1..<num_frag + 1] msg (-1) st)"

section \<open>Receiving\<close>

record frag_state =
  m_fragmented_packet :: "bytes option"
  m_next_fragment_ptr :: nat
  m_tot_fragment :: u8
  m_tot_bytes :: u16

definition trd_fragment_init :: "frag_state \<Rightarrow> frag_state" where
  "trd_fragment_init fs = fs\<lparr>m_fragmented_packet := None, m_next_fragment_ptr := 0,
     m_tot_fragment := 0, m_tot_bytes := 0\<rparr>"

definition fresh_bytes :: "bytes \<Rightarrow> nat \<Rightarrow> bytes" where
  "fresh_bytes heap n = map (get8 heap) [0..<n]"

text \<open>\<open>memcpy\<close> into a buffer at an offset.\<close>

definition copy_at :: "bytes \<Rightarrow> nat \<Rightarrow> bytes \<Rightarrow> bytes option" where
  "copy_at buf off data =
    (if off + length data \<le> length buf
     then Some (take off buf @ data @ drop (off + length data) buf) else None)"

text \<open>The packet that goes up with its sender, if any, and the new state.\<close>

definition receive_trd ::
    "bytes \<Rightarrow> u16 \<Rightarrow> bytes \<Rightarrow> frag_state \<Rightarrow> ((u16 \<times> bytes) option \<times> frag_state) option" where
  "receive_trd heap sender msg fs =
    (let index = get8 msg 0; tot_fragment = get8 msg 1; thislen = get8 msg 2;
         tot_bytes = get16be msg 4; len = int (length msg) - 6; data = drop 6 msg
     in if len \<noteq> int (unat thislen) then Some (None, fs)
        else if index \<noteq> 1 \<and> m_fragmented_packet fs = None then Some (None, fs)
        else do {
          fs1 \<leftarrow> (if index = 1 then do {
                  buf \<leftarrow> copy_at (fresh_bytes heap (unat tot_bytes)) 0 data;
                  Some (fs\<lparr>m_fragmented_packet := Some buf, m_next_fragment_ptr := length data,
                           m_tot_fragment := tot_fragment, m_tot_bytes := tot_bytes\<rparr>)
                } else do {
                  buf0 \<leftarrow> m_fragmented_packet fs;
                  buf \<leftarrow> copy_at buf0 (m_next_fragment_ptr fs) data;
                  Some (fs\<lparr>m_fragmented_packet := Some buf,
                           m_next_fragment_ptr := m_next_fragment_ptr fs + length data\<rparr>)
                });
          if tot_fragment = index then do {
            buf \<leftarrow> m_fragmented_packet fs1;
            Some (Some (sender, take (unat (m_tot_bytes fs1)) buf),
              fs1\<lparr>m_fragmented_packet := None, m_tot_bytes := 0, m_tot_fragment := 0,
                  m_next_fragment_ptr := 0\<rparr>)
          } else Some (None, fs1)
        })"

text \<open>A sequence of packets from one sender.\<close>

primrec receive_all ::
    "bytes \<Rightarrow> u16 \<Rightarrow> bytes list \<Rightarrow> frag_state \<Rightarrow> ((u16 \<times> bytes) list \<times> frag_state) option" where
  "receive_all heap a [] fs = Some ([], fs)"
| "receive_all heap a (p # ps) fs = do {
     (d, fs1) \<leftarrow> receive_trd heap a p fs;
     (ds, fs2) \<leftarrow> receive_all heap a ps fs1;
     Some ((case d of None \<Rightarrow> ds | Some x \<Rightarrow> x # ds), fs2)
   }"

section \<open>What is sent\<close>

lemma frag_count_spec:
  "frag_count n k = (t, m) \<Longrightarrow> 0 < n \<Longrightarrow> k \<le> m \<and> n = (m - k) * 54 + t \<and> 0 < t \<and> t \<le> 54"
proof (induction n k arbitrary: t m rule: frag_count.induct)
  case (1 n k)
  show ?case
  proof (cases "n > 54")
    case True
    then have c: "frag_count (n - 54) (k + 1) = (t, m)"
      using 1(2) by (subst (asm) frag_count.simps) simp
    have "k + 1 \<le> m \<and> n - 54 = (m - (k + 1)) * 54 + t \<and> 0 < t \<and> t \<le> 54"
      using 1(1) [of t m] c True by simp
    then obtain j where "m = k + 1 + j" "n - 54 = j * 54 + t" "0 < t" "t \<le> 54"
      by (metis add_diff_cancel_left' le_iff_add)
    then show ?thesis using True by simp
  next
    case False
    then have "t = n" "m = k" using 1(2) by (simp_all add: frag_count.simps [of n k])
    then show ?thesis using False 1(3) by simp
  qed
qed

text \<open>The fragments of a message without the sending.\<close>

primrec frag_list :: "nat \<Rightarrow> nat \<Rightarrow> nat \<Rightarrow> nat list \<Rightarrow> bytes \<Rightarrow> bytes list" where
  "frag_list m t tot [] rest = []"
| "frag_list m t tot (i # is) rest =
    (let k = (if i = m then t else 54)
     in TRD_FragmentMsg i m tot (take k rest) # frag_list m t tot is (drop k rest))"

definition frag_packets :: "bytes \<Rightarrow> bytes list" where
  "frag_packets msg = (case frag_count (length msg) 1 of (t, m) \<Rightarrow>
     frag_list m t (length msg) [1..<m + 1] msg)"

text \<open>The payload of a broadcast dissemination packet.\<close>

definition payload_of :: "u8 \<times> u16 \<times> bytes \<Rightarrow> bytes" where
  "payload_of p = drop 10 (snd (snd p))"

section \<open>Putting a message together\<close>

lemma fragment_fields:
  "get8 (TRD_FragmentMsg i m tot d) 0 = of_nat i"
  "get8 (TRD_FragmentMsg i m tot d) 1 = of_nat m"
  "get8 (TRD_FragmentMsg i m tot d) (Suc 0) = of_nat m"
  "get8 (TRD_FragmentMsg i m tot d) 2 = of_nat (length d)"
  "get16be (TRD_FragmentMsg i m tot d) 4 = of_nat tot"
  "drop 6 (TRD_FragmentMsg i m tot d) = d"
  "length (TRD_FragmentMsg i m tot d) = 6 + length d"
  by (simp_all add: TRD_FragmentMsg_def get8_def get16be_def)

lemma index_eq:
  assumes "0 < i" "i \<le> m" "m \<le> 256"
  shows "(of_nat m :: u8) = of_nat i \<longleftrightarrow> i = m"
proof -
  have "(of_nat m :: u8) = of_nat i \<longleftrightarrow> m mod 256 = i mod 256"
    by (simp only: word_eq_unat unat_of_nat_u8)
  also have "\<dots> \<longleftrightarrow> i = m" using assms by (cases "m = 256"; cases "i = 256") auto
  finally show ?thesis .
qed

lemma index_one: "0 < i \<Longrightarrow> i \<le> 256 \<Longrightarrow> (of_nat i :: u8) = 1 \<longleftrightarrow> i = 1"
  using index_eq [of 1 i] by auto

lemma length_fresh [simp]: "length (fresh_bytes heap n) = n"
  by (simp add: fresh_bytes_def)

lemma receive_fragment:
  assumes "length d \<le> 54" "0 < i" "i \<le> m" "m \<le> 256" "tot < 65536"
    and "if i = 1 then off = 0 \<and> buf = fresh_bytes heap tot
         else m_fragmented_packet fs = Some buf \<and> m_next_fragment_ptr fs = off
           \<and> m_tot_bytes fs = of_nat tot"
    and "off + length d \<le> length buf" "length buf = tot"
  shows "\<exists>fs'. receive_trd heap a (TRD_FragmentMsg i m tot d) fs =
      Some (if i = m then (Some (a, take off buf @ d @ drop (off + length d) buf), trd_fragment_init fs')
            else (None, fs'))
    \<and> m_fragmented_packet fs' = Some (take off buf @ d @ drop (off + length d) buf)
    \<and> m_next_fragment_ptr fs' = off + length d \<and> m_tot_bytes fs' = of_nat tot"
proof -
  have u: "unat (of_nat (length d) :: u8) = length d" "unat (of_nat tot :: u16) = tot"
    using assms by (simp_all only: unat_of_nat_u8 unat_of_nat_u16) simp_all
  have i: "(of_nat i :: u8) = 1 \<longleftrightarrow> i = 1" "(of_nat m :: u8) = of_nat i \<longleftrightarrow> i = m"
    using index_one [of i] index_eq [of i m] assms by simp_all
  define fs' where "fs' = fs\<lparr>m_fragmented_packet := Some (take off buf @ d @ drop (off + length d) buf),
    m_next_fragment_ptr := off + length d, m_tot_bytes := of_nat tot,
    m_tot_fragment := (if i = 1 then of_nat m else m_tot_fragment fs)\<rparr>"
  have "receive_trd heap a (TRD_FragmentMsg i m tot d) fs =
      Some (if i = m then (Some (a, take off buf @ d @ drop (off + length d) buf), trd_fragment_init fs')
            else (None, fs'))"
    using assms unfolding receive_trd_def Let_def fragment_fields i u fs'_def
    by (cases "i = 1"; cases "i = m")
      (auto simp: copy_at_def trd_fragment_init_def i u)
  then show ?thesis unfolding fs'_def by auto
qed

lemma trd_fragment_init_same: "trd_fragment_init fs = trd_fragment_init fs'"
  by (simp add: trd_fragment_init_def)

lemma chunk_append:
  "take p buf = take p msg \<Longrightarrow> length buf = length msg \<Longrightarrow> p + k \<le> length msg \<Longrightarrow>
    take (p + k) (take p buf @ take k (drop p msg) @ drop (p + k) buf) = take (p + k) msg"
  by (simp add: take_add)

lemma reassemble_step:
  assumes "i + k = m" "0 < i" "m \<le> 256" "length msg = (m - 1) * 54 + t" "0 < t" "t \<le> 54"
    and "if i = 1 then buf = fresh_bytes heap (length msg)
         else m_fragmented_packet fs = Some buf \<and> m_next_fragment_ptr fs = (i - 1) * 54
           \<and> m_tot_bytes fs = of_nat (length msg) \<and> length buf = length msg
           \<and> take ((i - 1) * 54) buf = take ((i - 1) * 54) msg"
  shows "receive_all heap a (frag_list m t (length msg) [i..<m + 1] (drop ((i - 1) * 54) msg)) fs
    = Some ([(a, msg)], trd_fragment_init fs)"
  using assms
proof (induction k arbitrary: i fs buf)
  case 0
  define p where "p = (i - 1) * 54"
  have m: "m = i" using 0 by simp
  have lb: "length buf = length msg" "take p buf = take p msg"
    using 0(7) by (auto simp: p_def split: if_splits)
  have pt: "length msg = p + t" "(i - 1) * 54 = p" using 0 by (simp_all add: p_def m)
  then have lt: "length (take t (drop p msg)) = t" by simp
  have "length msg < 65536" using 0(3,6) pt by (simp add: p_def m)
  moreover have "if i = 1 then p = 0 \<and> buf = fresh_bytes heap (length msg)
         else m_fragmented_packet fs = Some buf \<and> m_next_fragment_ptr fs = p
           \<and> m_tot_bytes fs = of_nat (length msg)"
    using 0(7) by (auto simp: p_def split: if_splits)
  ultimately obtain fs' where r: "receive_trd heap a (TRD_FragmentMsg i m (length msg) (take t (drop p msg))) fs
      = Some (Some (a, take p buf @ take t (drop p msg) @ drop (p + t) buf), trd_fragment_init fs')"
    using receive_fragment [of "take t (drop p msg)" i m "length msg" p buf heap fs a] 0(2,3,6) lt lb pt m
    by auto
  have "take p buf @ take t (drop p msg) @ drop (p + t) buf = msg"
    using lb pt by simp
  then show ?case using r unfolding pt(2)
    by (simp add: m trd_fragment_init_same [of fs' fs])
next
  case (Suc k)
  define p where "p = (i - 1) * 54"
  have m: "i < m" "i \<noteq> m" "i \<le> m" using Suc(2) by simp_all
  have lb: "length buf = length msg" "take p buf = take p msg"
    using Suc(8) by (auto simp: p_def split: if_splits)
  obtain j where "i = Suc j" using Suc(3) gr0_implies_Suc by blast
  then have j: "i = Suc j" "p = j * 54" "m = Suc (Suc (j + k))"
    using Suc(2) by (simp_all add: p_def)
  have pt: "p + 54 + t \<le> length msg" "(i - 1) * 54 = p" "(Suc i - 1) * 54 = p + 54"
    using Suc(5) by (simp_all add: j)
  then have lt: "length (take 54 (drop p msg)) = 54" by simp
  have bound: "length msg < 65536" using Suc(4,5,7) j by simp
  have "if i = 1 then p = 0 \<and> buf = fresh_bytes heap (length msg)
         else m_fragmented_packet fs = Some buf \<and> m_next_fragment_ptr fs = p
           \<and> m_tot_bytes fs = of_nat (length msg)"
    using Suc(8) by (auto simp: p_def split: if_splits)
  moreover define buf' where "buf' = take p buf @ take 54 (drop p msg) @ drop (p + 54) buf"
  ultimately obtain fs' where r: "receive_trd heap a (TRD_FragmentMsg i m (length msg) (take 54 (drop p msg))) fs
      = Some (None, fs')"
      and fs': "m_fragmented_packet fs' = Some buf'" "m_next_fragment_ptr fs' = p + 54"
        "m_tot_bytes fs' = of_nat (length msg)"
    using receive_fragment [of "take 54 (drop p msg)" i m "length msg" p buf heap fs a]
      Suc(3,4) lt lb pt m bound by auto
  have b': "length buf' = length msg" "take (p + 54) buf' = take (p + 54) msg"
    using lb pt chunk_append [of p buf msg 54] by (simp_all add: buf'_def)
  have "receive_all heap a (frag_list m t (length msg) [Suc i..<m + 1] (drop ((Suc i - 1) * 54) msg)) fs'
      = Some ([(a, msg)], trd_fragment_init fs')"
    by (rule Suc.IH [of "Suc i" buf']) (use Suc(2-7) fs' b' pt in auto)
  then have ih: "receive_all heap a (frag_list m t (length msg) [Suc i..<m + 1] (drop (p + 54) msg)) fs'
      = Some ([(a, msg)], trd_fragment_init fs')"
    unfolding pt(3) .
  have "[i..<m + 1] = i # [Suc i..<m + 1]" using m by (simp add: upt_conv_Cons del: upt_Suc)
  moreover have "drop 54 (drop p msg) = drop (p + 54) msg" by (simp add: add.commute)
  ultimately show ?case using r ih m unfolding pt(2)
    by (simp add: trd_fragment_init_same [of fs' fs] del: upt_Suc drop_drop)
qed

lemma reassemble:
  assumes "0 < length msg" "length msg \<le> 13824"
  shows "receive_all heap a (frag_packets msg) fs = Some ([(a, msg)], trd_fragment_init fs)"
proof -
  obtain t m where c: "frag_count (length msg) 1 = (t, m)" by fastforce
  have s: "1 \<le> m" "length msg = (m - 1) * 54 + t" "0 < t" "t \<le> 54"
    using frag_count_spec [OF c] assms by auto
  then have "m \<le> 256" using assms by linarith
  then show ?thesis
    using reassemble_step [of 1 "m - 1" m msg t "fresh_bytes heap (length msg)" heap fs a] s c
    by (simp add: frag_packets_def del: upt_Suc)
qed

section \<open>Every fragment is broadcast once\<close>

lemma newMsg_own_frame:
  assumes "trd_state_newMsg e m st = Some (r, m', st')" "get16be m 0 = TRD_LOCAL_ADDRESS st"
  shows "outbox st' = outbox st \<and> ms_fd st' = ms_fd st \<and> init_done st' = init_done st
    \<and> TRD_LOCAL_ADDRESS st' = TRD_LOCAL_ADDRESS st"
proof -
  have accept: "outbox y = outbox x \<and> ms_fd y = ms_fd x \<and> init_done y = init_done x
      \<and> TRD_LOCAL_ADDRESS y = TRD_LOCAL_ADDRESS x"
    if "newMsg_accept e m chk x = Some (r, m', y)" "TRD_LOCAL_ADDRESS x = get16be m 0" for chk x y
    using that
    by (auto simp: newMsg_accept_def Let_def remember_packet_def enter_fast_def timer_ops newMsg_signal_def
        split: if_splits option.splits prod.splits bind_splits)
  obtain c tab where "trd_table_classify (m_table (newMsg_connect e st)) (get16be m 0) (get16be m 2)
      (get16be m 4) = Some (c, tab)"
    using assms(1) by (auto simp: trd_state_newMsg_def Let_def split: bind_splits)
  moreover have "outbox (newMsg_connect e st) = outbox st" "ms_fd (newMsg_connect e st) = ms_fd st"
    "init_done (newMsg_connect e st) = init_done st" "TRD_LOCAL_ADDRESS (newMsg_connect e st) = TRD_LOCAL_ADDRESS st"
    by (simp_all add: newMsg_connect_def inittimer_start_def)
  ultimately show ?thesis using assms
    by (cases c) (auto simp: trd_state_newMsg_def Let_def timer_ops split: if_splits dest!: accept)
qed

lemma drop_put:
  "i < k \<Longrightarrow> drop k (put8 b i v) = drop k b"
  "i + 1 < k \<Longrightarrow> drop k (put16be b i w) = drop k b"
  "i + 1 < k \<Longrightarrow> drop k (put16le b i w) = drop k b"
  by (simp_all add: put8_def put16be_def put16le_def)

lemma trd_send_payload:
  assumes "trd_send e msg st = Some (s, st')" "ms_fd st \<noteq> 0"
  shows "\<exists>p. outbox st' = outbox st @ [p] \<and> payload_of p = msg \<and> ms_fd st' = ms_fd st
    \<and> init_done st' = init_done st"
proof -
  obtain q st0 where q: "trd_state_getNextSeqno st = (q, st0)" by (cases "trd_state_getNextSeqno st")
  then have st0: "st0 = st\<lparr>m_seqno := q\<rparr>" by (auto simp: trd_state_getNextSeqno_def Let_def)
  let ?a = "TRD_LOCAL_ADDRESS st0" and ?n = "length msg + 10"
  let ?p0 = "put16be (put16be (put16be (replicate 10 0 @ msg) 0 ?a) 2 q) 4 1"
  let ?p3 = "put8 (put16le (put8 ?p0 8 (of_nat (length msg))) 6 ?a) 9 0"
  define m where "m = put8 ?p3 9 (trd_calculate_checksum ?p3)"
  let ?st1 = "st0\<lparr>outbox := outbox st0 @ [(AM_TRD_MSG, TOS_BCAST_ADDR, take ?n m)]\<rparr>"
  have cloud: "send_to_mote_cloud ?n m AM_TRD_MSG TOS_BCAST_ADDR st0 = (1, ?st1)"
    using assms(2) st0 by (simp add: send_to_mote_cloud_def)
  obtain r m' where "trd_state_newMsg e m ?st1 = Some (r, m', st')"
    using assms(1) cloud by (auto simp: trd_send_def q Let_def m_def split: bind_splits)
  moreover have "get16be m 0 = TRD_LOCAL_ADDRESS ?st1"
    by (simp add: m_def get16be_def get8_puts)
  ultimately have "outbox st' = outbox ?st1 \<and> ms_fd st' = ms_fd ?st1 \<and> init_done st' = init_done ?st1"
    using newMsg_own_frame by blast
  moreover have "take ?n m = m" by (simp add: m_def)
  moreover have "drop 10 m = msg" by (simp add: m_def drop_put)
  ultimately show ?thesis by (simp add: payload_of_def st0)
qed

lemma frag_loop_payloads:
  "frag_loop es m t tot is rest q st = Some (s, st') \<Longrightarrow> ms_fd st \<noteq> 0 \<Longrightarrow>
    \<exists>out. outbox st' = outbox st @ out \<and> map payload_of out = frag_list m t tot is rest
      \<and> ms_fd st' = ms_fd st \<and> init_done st' = init_done st"
proof (induction "is" arbitrary: rest q st)
  case (Cons i "is")
  let ?k = "if i = m then t else 54"
  obtain s1 st1 where s1: "trd_send (es i) (TRD_FragmentMsg i m tot (take ?k rest)) st = Some (s1, st1)"
    "frag_loop es m t tot is (drop ?k rest) (int (unat s1)) st1 = Some (s, st')"
    using Cons.prems(1) unfolding frag_loop.simps frag_maxlen_eq Let_def
    by (auto split: bind_splits)
  obtain p where p: "outbox st1 = outbox st @ [p]" "payload_of p = TRD_FragmentMsg i m tot (take ?k rest)"
    "ms_fd st1 = ms_fd st" "init_done st1 = init_done st" using trd_send_payload [OF s1(1) Cons.prems(2)] by blast
  obtain out where "outbox st' = outbox st1 @ out" "map payload_of out = frag_list m t tot is (drop ?k rest)"
    "ms_fd st' = ms_fd st1" "init_done st' = init_done st1"
    using Cons.IH [OF s1(2)] p(3) Cons.prems(2) by auto
  then show ?case using p by (intro exI [of _ "p # out"]) (simp add: Let_def)
qed simp

lemma fragment_send_payloads:
  assumes "trd_fragment_send es msg st = Some (s, st')" "ms_fd st \<noteq> 0" "0 < length msg"
  shows "\<exists>out. outbox st' = outbox st @ out \<and> map payload_of out = frag_packets msg
    \<and> ms_fd st' = ms_fd st \<and> init_done st' = init_done st"
  using assms frag_loop_payloads
  by (auto simp: trd_fragment_send_def frag_packets_def split: prod.splits)

end
