(* ===== verification/Trd_Transport.thy ===== *)
theory Trd_Transport
  imports Trd_Fragment
begin

text \<open>
  Model of src/master/trd/trd_transport.c: the task identifier in front of a disseminated message
  (src/mote/lib/trd/trd\_transportmsg.h), on top of the fragmentation. The receiving side is the
  composition of the dissemination protocol, the reassembly and the removal of the identifier. The
  flag \<open>ignore_sendReady\<close> is an argument, and so are the environments of the single sends.
\<close>

definition trd_transport_init ::
    "env \<Rightarrow> int \<Rightarrow> u16 \<Rightarrow> trd_state \<times> frag_state \<Rightarrow> trd_state \<times> frag_state" where
  "trd_transport_init e fd local_addr = (\<lambda>(st, fs). (trd_init e fd local_addr st, trd_fragment_init fs))"

text \<open>The result is kept in a \<open>uint16_t\<close> before it is returned.\<close>

definition trd_transport_send ::
    "(nat \<Rightarrow> env) \<Rightarrow> bool \<Rightarrow> u16 \<Rightarrow> bytes \<Rightarrow> trd_state \<Rightarrow> (int \<times> trd_state) option" where
  "trd_transport_send es ignore_sendReady tid msg st =
    (if length msg = 0 then Some (-22, st)
     else if \<not> trd_state_sendReady st \<and> \<not> ignore_sendReady then Some (-23, st)
     else do {
       (s, st') \<leftarrow> trd_fragment_send es (put16be ([0, 0] @ msg) 0 tid) st;
       Some (int (unat (word_of_int s :: u16)), st')
     })"

text \<open>What \<open>receive_trd_fragment\<close> hands to \<open>receive_trd_transport\<close>: identifier, sender, length, data.\<close>

definition receive_trd_fragment :: "u16 \<Rightarrow> bytes \<Rightarrow> u16 \<times> u16 \<times> int \<times> bytes" where
  "receive_trd_fragment sender msg = (get16be msg 0, sender, int (length msg) - 2, drop 2 msg)"

text \<open>\<open>trd_receive\<close> calls \<open>receive_trd\<close> for what it delivers.\<close>

definition trd_transport_receive ::
    "bytes \<Rightarrow> env \<Rightarrow> bytes \<Rightarrow> trd_state \<times> frag_state
      \<Rightarrow> (int \<times> (u16 \<times> u16 \<times> int \<times> bytes) option \<times> trd_state \<times> frag_state) option" where
  "trd_transport_receive heap e msg = (\<lambda>(st, fs). do {
     (r, st') \<leftarrow> trd_receive e msg st;
     (case drop (length (delivered st)) (delivered st') of
        [] \<Rightarrow> Some (r, None, st', fs)
      | (a, p) # _ \<Rightarrow> do {
          (d, fs') \<leftarrow> receive_trd heap a p fs;
          Some (r, map_option (\<lambda>(b, q). receive_trd_fragment b q) d, st', fs')
        })
   })"

definition is_trd_transport_packet :: "bytes \<Rightarrow> bool" where
  "is_trd_transport_packet msg = is_trd_packet msg"

definition is_trd_transport_sendReady :: "trd_state \<Rightarrow> bool" where
  "is_trd_transport_sendReady st = trd_state_sendReady st"

definition polling_trd_transport_timer :: "env \<Rightarrow> env \<Rightarrow> trd_state \<Rightarrow> trd_state" where
  "polling_trd_transport_timer e1 e2 st = polling_trd_timer e1 e2 st"

section \<open>Lemmas\<close>

lemma newMsg_accepts_own:
  assumes inv: "st_inv st" and len: "length rmsg = msg_len rmsg" "msg_len rmsg < 128"
    and room: "tt_lookup (m_table st) (get16be rmsg 0) = None" "tt_num (m_table st) < 5"
    and own: "get16be rmsg 0 = TRD_LOCAL_ADDRESS st" and conn: "m_state st \<noteq> TRD_S_DISCONNECTED"
  shows "\<exists>r rmsg' st'. trd_state_newMsg e rmsg st = Some (r, rmsg', st')"
proof -
  let ?o = "get16be rmsg 0" and ?s = "get16be rmsg 2" and ?g = "get16be rmsg 4"
  have t: "tt_inv (m_table st)" "mem_inv (m_mem st)" using inv by (simp_all add: st_inv_def)
  have con: "newMsg_connect e st = st" using conn by (simp add: newMsg_connect_def)
  have cls: "trd_table_classify (m_table st) ?o ?s ?g = Some (TRD_CLASS_NULL, m_table st)"
    by (simp add: table_classify_spec [OF t(1)] room)
  have nf: "\<not> trd_table_isFull (m_table st)" using room by (simp add: trd_table_isFull_def consts_defs)
  have li: "int (msg_len rmsg) \<le> int (length rmsg)" using len by simp
  obtain m mem where w: "trd_memory_write (m_mem st) rmsg (int (msg_len rmsg)) = Some (m, mem)"
    using ring.write_ok [OF t(2) li] len msg_len_pos [of rmsg] by auto
  have "\<exists>nc. nodecache_insert (fresh_cache (m_table st) ?o) ?s m ?g = Some (1, nc)"
    by (rule nodecache_insert_cases [OF fresh_cache_simps(1) [of "m_table st" ?o], of ?s m ?g])
      (use length_live [OF fresh_cache_simps(1), of "m_table st" ?o] in \<open>auto simp: nc_seqnos_def\<close>)
  then obtain tab where ins: "trd_table_insert (m_table st) ?o ?s m ?g = Some (1, tab)"
    using room by (auto simp: table_insert_spec [OF t(1)] Let_def)
  have n: "\<not> length (lastpacket st) < msg_len rmsg" using len inv by (simp add: st_inv_def)
  have "\<exists>r rmsg' st'. newMsg_accept e rmsg False st = Some (r, rmsg', st')"
    using n w ins own
    by (auto simp: newMsg_accept_def Let_def msg_len_def [of rmsg, symmetric] split: prod.splits)
  then show ?thesis using cls nf by (simp add: trd_state_newMsg_def con Let_def)
qed

lemma frag_packets_single:
  "0 < length msg \<Longrightarrow> length msg \<le> 54 \<Longrightarrow> frag_count (length msg) 1 = (length msg, 1)"
  by (subst frag_count.simps) simp

lemma trd_send_returns:
  assumes inv: "st_inv st" and len: "length msg < 118" and conn: "m_state st \<noteq> TRD_S_DISCONNECTED"
    and room: "tt_lookup (m_table st) (TRD_LOCAL_ADDRESS st) = None" "tt_num (m_table st) < 5"
  shows "\<exists>s st'. trd_send e msg st = Some (s, st')"
proof -
  obtain q st0 where q: "trd_state_getNextSeqno st = (q, st0)" by (cases "trd_state_getNextSeqno st")
  then have st0: "st0 = st\<lparr>m_seqno := q\<rparr>" by (auto simp: trd_state_getNextSeqno_def Let_def)
  let ?a = "TRD_LOCAL_ADDRESS st0" and ?n = "length msg + 10"
  let ?p1 = "put16be (put16be (put16be (replicate 10 0 @ msg) 0 ?a) 2 q) 4 1"
  let ?m = "put8 ?p1 8 (of_nat (length msg))"
  let ?m1 = "put8 (put16le ?m 6 ?a) 9 0"
  let ?m2 = "put8 ?m1 9 (trd_calculate_checksum ?m1)"
  have "unat (get8 ?m 8) = length msg"
    using len by (simp add: get8_put8 unat_of_nat_u8)
  then have ml: "?n = msg_len ?m" "?n \<le> length ?m" "?n \<le> 255" using len by (simp_all add: msg_len_def)
  have ok: "out_ok ?a (AM_TRD_MSG, TOS_BCAST_ADDR, take ?n ?m2)" by (rule sealed_msg [OF ml])
  have "get8 ?m2 8 = get8 ?m 8" by (simp add: get8_puts)
  then have len2: "length ?m2 = msg_len ?m2" "msg_len ?m2 < 128"
    using ml msg_len_eq [of ?m2 ?m] len by simp_all
  have org: "get16be ?m2 0 = ?a" by (simp add: get16be_def get8_puts)
  obtain k st1 where k: "send_to_mote_cloud ?n ?m2 AM_TRD_MSG TOS_BCAST_ADDR st0 = (k, st1)"
    by (cases "send_to_mote_cloud ?n ?m2 AM_TRD_MSG TOS_BCAST_ADDR st0")
  then have st1: "st1 = st0 \<or> st1 = st0\<lparr>outbox := outbox st0 @ [(AM_TRD_MSG, TOS_BCAST_ADDR, take ?n ?m2)]\<rparr>"
    by (auto simp: send_to_mote_cloud_def split: if_splits)
  have "st_inv st0" using inv by (simp add: st0)
  then have inv1: "st_inv st1"
    using st1 ok st_inv_outbox [of st0 "[(AM_TRD_MSG, TOS_BCAST_ADDR, take ?n ?m2)]"] by auto
  have fr: "m_table st1 = m_table st" "m_state st1 = m_state st" "TRD_LOCAL_ADDRESS st1 = TRD_LOCAL_ADDRESS st"
    using st1 by (auto simp: st0)
  have "\<exists>r rmsg' st'. trd_state_newMsg e ?m2 st1 = Some (r, rmsg', st')"
    by (rule newMsg_accepts_own [OF inv1 len2]) (use room conn fr org in \<open>simp_all add: st0\<close>)
  then show ?thesis by (auto simp: trd_send_def q k Let_def)
qed

definition ready_state :: trd_state where
  "ready_state = steady_state\<lparr>init_done := True\<rparr>"

lemma ready_state_props:
  "st_inv ready_state" "trd_state_sendReady ready_state" "ms_fd ready_state = 3"
  "tt_lookup (m_table ready_state) a = None" "tt_num (m_table ready_state) < 5"
  "m_state ready_state \<noteq> TRD_S_DISCONNECTED"
proof -
  show "st_inv ready_state" using steady_state_inv unfolding ready_state_def st_inv_def by simp
  show "ms_fd ready_state = 3"
    by (simp add: ready_state_def steady_state_def sample_state_def trd_state_init_def timer_ops Let_def)
qed (use steady_state_room in
    \<open>simp_all add: ready_state_def trd_state_sendReady_def steady_state_def consts_defs\<close>)

lemma sample_send_any:
  "\<exists>s st'. trd_transport_send (\<lambda>_. sample_env) False tid [65, 66] ready_state = Some (s, st')"
proof -
  obtain s st' where "trd_send sample_env (TRD_FragmentMsg 1 1 4 (put16be [0, 0, 65, 66] 0 tid)) ready_state
      = Some (s, st')"
    using trd_send_returns [OF ready_state_props(1), of "TRD_FragmentMsg 1 1 4 (put16be [0, 0, 65, 66] 0 tid)" sample_env]
      ready_state_props by (auto simp: fragment_fields)
  moreover have "frag_count (Suc (Suc (Suc (Suc 0)))) (Suc 0) = (4, 1)" by (simp add: frag_count.simps)
  ultimately show ?thesis
    using ready_state_props(2) by (simp add: trd_transport_send_def trd_fragment_send_def numeral_eq_Suc)
qed

lemmas sample_transport_send = sample_send_any [of 5]

section \<open>Properties\<close>

text \<open>The fragments \<open>out\<close> of a message: every receiver puts them together again.\<close>

definition delivers :: "u16 \<Rightarrow> bytes \<Rightarrow> (u8 \<times> u16 \<times> bytes) list \<Rightarrow> bool" where
  "delivers tid msg out \<longleftrightarrow>
    (\<forall>heap a fs. \<exists>p. receive_all heap a (map payload_of out) fs = Some ([(a, p)], trd_fragment_init fs)
          \<and> receive_trd_fragment a p = (tid, a, int (length msg), msg))"

lemma sent_message_delivers:
  assumes "trd_transport_send es ign tid msg st = Some (s, st')"
    and "trd_state_sendReady st \<or> ign" "ms_fd st \<noteq> 0" "0 < length msg" "length msg \<le> 13822"
  shows "\<exists>out. outbox st' = outbox st @ out \<and> delivers tid msg out \<and> ms_fd st' = ms_fd st \<and> init_done st' = init_done st"
proof -
  let ?p = "put16be ([0, 0] @ msg) 0 tid"
  obtain q where "trd_fragment_send es ?p st = Some (q, st')"
    using assms(1,2,4) by (auto simp: trd_transport_send_def split: bind_splits if_splits)
  then obtain out where out: "outbox st' = outbox st @ out" "map payload_of out = frag_packets ?p"
    "ms_fd st' = ms_fd st" "init_done st' = init_done st"
    using fragment_send_payloads [OF _ assms(3), of es ?p q st'] by auto
  have r: "receive_all heap a (frag_packets ?p) fs = Some ([(a, ?p)], trd_fragment_init fs)" for heap a fs
    by (rule reassemble) (use assms(5) in simp_all)
  have "receive_trd_fragment a ?p = (tid, a, int (length msg), msg)" for a
    by (simp add: receive_trd_fragment_def drop_put del: append_Cons append_Nil)
  then show ?thesis using out r by (intro exI [of _ out]) (auto simp: delivers_def)
qed

lemma sent_message_received:
  assumes "trd_transport_send es ign tid msg st = Some (s, st')"
    and "trd_state_sendReady st \<or> ign" "ms_fd st \<noteq> 0" "0 < length msg" "length msg \<le> 13822"
  shows "\<exists>out. outbox st' = outbox st @ out
    \<and> (\<forall>heap a fs. \<exists>p. receive_all heap a (map payload_of out) fs = Some ([(a, p)], trd_fragment_init fs)
          \<and> receive_trd_fragment a p = (tid, a, int (length msg), msg))"
  using sent_message_delivers [OF assms] unfolding delivers_def by blast

text \<open>
  C5: what \<open>trd_transport_send\<close> broadcasts for a message of up to 13822 bytes is, fragment by
  fragment, what the reassembly at a receiver turns back into exactly one message with the task
  identifier, the origin, and the bytes that were sent, from whatever state the reassembly is in.
\<close>

theorem trd_transport_roundtrip:
  assumes "trd_transport_send es ign tid msg st = Some (s, st')"
    and "trd_state_sendReady st \<or> ign" "ms_fd st \<noteq> 0" "0 < length msg" "length msg \<le> 13822"
  shows "\<exists>out. outbox st' = outbox st @ out
    \<and> (\<forall>heap a fs. \<exists>p. receive_all heap a (map payload_of out) fs = Some ([(a, p)], trd_fragment_init fs)
          \<and> receive_trd_fragment a p = (tid, a, int (length msg), msg))"
  by (rule sent_message_received [OF assms])

theorem trd_transport_roundtrip_witness:
  "\<exists>s st' out. trd_transport_send (\<lambda>_. sample_env) False 5 [65, 66] ready_state = Some (s, st')
    \<and> outbox st' = outbox ready_state @ out"
proof -
  obtain s st' where s: "trd_transport_send (\<lambda>_. sample_env) False 5 [65, 66] ready_state = Some (s, st')"
    using sample_transport_send by blast
  from trd_transport_roundtrip [OF s] ready_state_props(2,3)
  have "\<exists>out. outbox st' = outbox ready_state @ out" by auto
  then show ?thesis using s by blast
qed

text \<open>
  A fragment is copied outside the reassembly buffer exactly when a first fragment is
  longer than the total it announces, or a later one does not fit behind what has arrived: the code has
  no check of its own.
\<close>

theorem receive_trd_overflow_iff:
  "receive_trd heap a msg fs = None \<longleftrightarrow>
    int (length msg) - 6 = int (unat (get8 msg 2))
    \<and> (get8 msg 0 = 1 \<and> length msg - 6 > unat (get16be msg 4)
       \<or> get8 msg 0 \<noteq> 1 \<and> (\<exists>buf. m_fragmented_packet fs = Some buf
            \<and> m_next_fragment_ptr fs + (length msg - 6) > length buf))"
  by (cases "get8 msg 0 = 1"; cases "m_fragmented_packet fs")
    (auto simp: receive_trd_def Let_def copy_at_def split: bind_splits)

end
