(* ===== verification/Tr_Seqno.thy ===== *)
theory Tr_Seqno
  imports Seqno_Space
begin

text \<open>
  Model of src/mote/lib/transport/tr_seqno.c (constants in tr_seqno.h): the sequence numbers of the
  packet, stream and rate-controlled transports, 1 .. 50000 with 0 skipped. All values are
  \<open>uint16_t\<close>; a difference of two of them is an \<open>int\<close> in C, which is the subtraction of the
  numbers here because the code subtracts the smaller one.
\<close>

definition TR_FIRST_SEQNO :: u16 where [consts_defs]: "TR_FIRST_SEQNO = 1"
definition TR_MAX_SEQNO :: u16 where [consts_defs]: "TR_MAX_SEQNO = 50000"
definition TR_VALID_RANGE :: nat where [consts_defs]: "TR_VALID_RANGE = 200"

definition tr_seqno_diff :: "u16 \<Rightarrow> u16 \<Rightarrow> u16" where
  "tr_seqno_diff seq2 seq1 =
    (if seq1 > seq2 then TR_MAX_SEQNO + seq2 - seq1 else seq2 - seq1)"

definition tr_seqno_next :: "u16 \<Rightarrow> u16" where
  "tr_seqno_next seq = (if seq \<ge> TR_MAX_SEQNO then TR_FIRST_SEQNO else seq + 1)"

definition tr_seqno_prev :: "u16 \<Rightarrow> u16" where
  "tr_seqno_prev seq = (if seq \<le> TR_FIRST_SEQNO then TR_MAX_SEQNO else seq - 1)"

text \<open>The loop \<open>while (c > TR_MAX_SEQNO) c -= TR_MAX_SEQNO\<close>.\<close>

function tr_add_wrap :: "u16 \<Rightarrow> u16" where
  "tr_add_wrap c = (if c > TR_MAX_SEQNO then tr_add_wrap (c - TR_MAX_SEQNO) else c)"
  by pat_completeness auto
termination
  by (relation "measure unat") (auto simp: consts_defs word_less_nat_alt unat_diff_u16)

declare tr_add_wrap.simps [simp del]

definition tr_seqno_add :: "u16 \<Rightarrow> u16 \<Rightarrow> u16" where
  "tr_seqno_add a b =
    (let c = tr_add_wrap (a + b) in if c < TR_FIRST_SEQNO then TR_FIRST_SEQNO else c)"

definition tr_seqno_cmp :: "u16 \<Rightarrow> u16 \<Rightarrow> int" where
  "tr_seqno_cmp a b =
    (if a = b then 0
     else if a < b then
       (if unat b - unat a \<le> TR_VALID_RANGE then -1
        else if unat (tr_seqno_add a (TR_MAX_SEQNO - b)) < TR_VALID_RANGE then 1
        else -1)
     else
       (if unat a - unat b \<le> TR_VALID_RANGE then 1
        else if unat (tr_seqno_add b (TR_MAX_SEQNO - a)) < TR_VALID_RANGE then -1
        else 1))"

section \<open>The operations on numbers\<close>

abbreviation tr_valid :: "u16 \<Rightarrow> bool" where
  "tr_valid \<equiv> in_space 50000"

lemma unat_tr_add_wrap:
  "unat (tr_add_wrap c) = (if unat c > 50000 then unat c - 50000 else unat c)"
proof -
  have "unat (c - 50000) = unat c - 50000" if "unat c > 50000"
    using that by (simp add: unat_diff_u16)
  moreover have "unat c - 50000 \<le> 50000" using unat_u16_lt [of c] by linarith
  ultimately show ?thesis
    by (simp add: tr_add_wrap.simps [of c] tr_add_wrap.simps [of "c - 50000"] consts_defs
        word_less_nat_alt)
qed

lemma unat_tr_seqno_add:
  "unat (tr_seqno_add a b) =
    (let c = (unat a + unat b) mod 65536
     in if c = 0 then 1 else if c > 50000 then c - 50000 else c)"
  by (auto simp: tr_seqno_add_def Let_def word_less_nat_alt unat_tr_add_wrap unat_add_u16
      consts_defs)

lemma unat_tr_seqno_next:
  "unat (tr_seqno_next a) = (if unat a \<ge> 50000 then 1 else unat a + 1)"
  by (auto simp: tr_seqno_next_def consts_defs word_le_nat_alt unat_inc_u16)

lemma tr_seqno_next_valid [simp]: "tr_valid (tr_seqno_next a)"
  by (simp add: in_space_def unat_tr_seqno_next)

lemma tr_seqno_add_valid [simp]: "tr_valid (tr_seqno_add a b)"
proof -
  have "(unat a + unat b) mod 65536 < 65536" by simp
  then have "(unat a + unat b) mod 65536 - 50000 \<le> 50000" by linarith
  then show ?thesis by (auto simp: in_space_def unat_tr_seqno_add Let_def)
qed

lemma tr_wrap_diff:
  assumes "unat a < unat b" "unat b \<le> 50000" "0 < unat a"
  shows "unat (tr_seqno_add a (TR_MAX_SEQNO - b)) = unat a + 50000 - unat b"
proof -
  have "unat (TR_MAX_SEQNO - b) = 50000 - unat b"
    using assms by (simp add: consts_defs unat_diff_u16)
  then show ?thesis using assms by (simp add: unat_tr_seqno_add Let_def)
qed

text \<open>On valid numbers the comparison is a function of the distance on the circle.\<close>

lemma tr_seqno_cmp_valid:
  assumes "tr_valid a" "tr_valid b"
  shows "tr_seqno_cmp a b =
    (let x = unat a; y = unat b in
     if x = y then 0
     else if x < y then (if y - x \<le> 200 then -1 else if x + 50000 - y < 200 then 1 else -1)
     else (if x - y \<le> 200 then 1 else if y + 50000 - x < 200 then -1 else 1))"
  using assms tr_wrap_diff [of a b] tr_wrap_diff [of b a]
  by (auto simp: tr_seqno_cmp_def in_space_def word_to_nat TR_VALID_RANGE_def Let_def)

interpretation trs: seqno_space tr_seqno_next tr_seqno_add tr_seqno_cmp 50000 200
proof (unfold_locales, goal_cases)
  case (5 a)
  then have u: "unat a \<ge> 1" "unat a \<le> 50000" by (auto simp: in_space_def)
  show ?case
    using u by (cases "unat a = 50000") (auto simp: word_eq_unat unat_fwd unat_tr_seqno_next)
next
  case (6 a k)
  then have u: "unat a \<ge> 1" "unat a \<le> 50000" by (auto simp: in_space_def)
  show ?case
    using u 6
    by (cases "unat a + k > 50000")
      (auto simp: word_eq_unat unat_fwd unat_tr_seqno_add unat_of_nat_u16 Let_def mod_if)
next
  case (8 a k)
  then have u: "unat a \<ge> 1" "unat a \<le> 50000" by (auto simp: in_space_def)
  have f: "unat (fwd 50000 a k) = (if unat a + k > 50000 then unat a + k - 50000 else unat a + k)"
    using u 8 by (auto simp: unat_fwd mod_if)
  show ?case
    using u 8 by (auto simp: tr_seqno_cmp_valid f Let_def)
next
  case (9 a b)
  then show ?case by (auto simp: tr_seqno_cmp_valid Let_def)
next
  case (10 a b)
  then show ?case
    by (auto simp: tr_seqno_cmp_valid Let_def word_eq_unat split: if_splits)
qed (auto simp: tr_seqno_cmp_def)

lemma unat_tr_seqno_prev:
  "unat (tr_seqno_prev a) = (if unat a \<le> 1 then 50000 else unat a - 1)"
  using unat_u16_lt [of a]
  by (auto simp: tr_seqno_prev_def consts_defs word_le_nat_alt unat_diff_u16)

lemma tr_seqno_prev_next: "tr_valid a \<Longrightarrow> tr_seqno_prev (tr_seqno_next a) = a"
  by (auto simp: word_eq_unat unat_tr_seqno_prev unat_tr_seqno_next in_space_def)

lemma tr_seqno_next_prev: "tr_valid a \<Longrightarrow> tr_seqno_next (tr_seqno_prev a) = a"
  by (auto simp: word_eq_unat unat_tr_seqno_prev unat_tr_seqno_next in_space_def)

lemma tr_seqno_diff_fwd:
  assumes "tr_valid a" "k < 50000"
  shows "unat (tr_seqno_diff (fwd 50000 a k) a) = k"
proof -
  have u: "unat a \<ge> 1" "unat a \<le> 50000" using assms by (auto simp: in_space_def)
  have f: "unat (fwd 50000 a k) = (if unat a + k > 50000 then unat a + k - 50000 else unat a + k)"
    using u assms(2) by (auto simp: unat_fwd mod_if)
  show ?thesis
  proof (cases "unat a + k > 50000")
    case True
    have eq: "TR_MAX_SEQNO + fwd 50000 a k - a = TR_MAX_SEQNO - (a - fwd 50000 a k)"
      by simp
    show ?thesis
      using True u f assms(2)
      by (simp add: tr_seqno_diff_def word_less_nat_alt eq)
        (simp add: consts_defs unat_diff_u16)
  next
    case False
    then show ?thesis
      using u f assms(2)
      by (simp add: tr_seqno_diff_def word_less_nat_alt unat_diff_u16)
  qed
qed

section \<open>Properties\<close>

text \<open>
  The transport comparison orders the circle of numbers inside its window: the number \<open>k\<close> calls
  of \<open>tr_seqno_next\<close> ahead is newer for every \<open>k\<close> below 200, also across the wrap from 50000 to 1,
  the comparison is antisymmetric, and \<open>tr_seqno_add\<close> and \<open>tr_seqno_diff\<close> agree with it.
\<close>

theorem tr_seqno_window_order:
  assumes "tr_valid a" "0 < k" "k < 200"
  shows "tr_seqno_cmp ((tr_seqno_next ^^ k) a) a = 1
    \<and> tr_seqno_cmp a ((tr_seqno_next ^^ k) a) = -1
    \<and> tr_seqno_add a (of_nat k) = (tr_seqno_next ^^ k) a
    \<and> unat (tr_seqno_diff ((tr_seqno_next ^^ k) a) a) = k"
  using assms trs.cmp_ahead [of a k] trs.cmp_behind [of a k] trs.funpow_nxt [of a k]
    trs.add_fwd [of a k] tr_seqno_diff_fwd [of a k]
  by simp

theorem tr_seqno_window_order_witness:
  "tr_seqno_cmp ((tr_seqno_next ^^ 3) 49999) 49999 = 1"
  using tr_seqno_window_order [of 49999 3] by (simp add: in_space_def)

end
