(* ===== verification/Connection_List.thy ===== *)
theory Connection_List
  imports Timeval Tr_Seqno Checksum
begin

text \<open>
  Model of the list part of src/master/transport/connectionlist.c (the record in connectionlist.h):
  the connections of a transport protocol, found by task identifier and address. The protocols extend
  the record. A list is what hangs on the list pointer; a function that returns a pointer to a
  connection returns the connection, and a change through the pointer is \<open>upd_connection\<close> at
  its key. The floating-point estimates of rate and loss in the record do not feed back
  into the stream and the packet protocol; they are the subject of theory Estimators. Further the packets that consist of a transport header only.
\<close>

record connection =
  c_addr :: u16
  c_tid :: u16
  connection_type :: int
  lastRecvSeqNo :: u16
  totalLostPackets :: nat
  totalRecvPackets :: nat
  alarm_time :: timeval

definition is_connection :: "u16 \<Rightarrow> u16 \<Rightarrow> 'a connection_scheme \<Rightarrow> bool" where
  "is_connection tid addr c \<longleftrightarrow> c_tid c = tid \<and> c_addr c = addr"

definition add_connection ::
    "'a connection_scheme list \<Rightarrow> 'a connection_scheme \<Rightarrow> u16 \<Rightarrow> u16 \<Rightarrow> 'a connection_scheme list" where
  "add_connection cs c tid addr =
    c\<lparr>c_tid := tid, c_addr := addr, connection_type := 0, lastRecvSeqNo := 0, totalLostPackets := 0,
      totalRecvPackets := 0, alarm_time := clear_timeval\<rparr> # cs"

text \<open>The memory that \<open>malloc\<close> returns is the argument \<open>c\<close>.\<close>

definition create_connection ::
    "'a connection_scheme list \<Rightarrow> 'a connection_scheme \<Rightarrow> u16 \<Rightarrow> u16 \<Rightarrow> 'a connection_scheme list" where
  "create_connection cs c tid addr = add_connection cs c tid addr"

definition rem_connection :: "'a connection_scheme list \<Rightarrow> nat \<Rightarrow> 'a connection_scheme list" where
  "rem_connection cs i = take i cs @ drop (Suc i) cs"

text \<open>A pointer to a link is the position of the connection behind it.\<close>

fun find_connection_ptr :: "'a connection_scheme list \<Rightarrow> u16 \<Rightarrow> u16 \<Rightarrow> nat option" where
  "find_connection_ptr [] tid addr = None"
| "find_connection_ptr (c # cs) tid addr =
    (if is_connection tid addr c then Some 0 else map_option Suc (find_connection_ptr cs tid addr))"

definition find_connection :: "'a connection_scheme list \<Rightarrow> u16 \<Rightarrow> u16 \<Rightarrow> 'a connection_scheme option" where
  "find_connection cs tid addr = map_option ((!) cs) (find_connection_ptr cs tid addr)"

definition remove_connection :: "'a connection_scheme list \<Rightarrow> u16 \<Rightarrow> u16 \<Rightarrow> 'a connection_scheme list" where
  "remove_connection cs tid addr =
    (case find_connection_ptr cs tid addr of None \<Rightarrow> cs | Some i \<Rightarrow> rem_connection cs i)"

fun delete_all_connection :: "'a connection_scheme list \<Rightarrow> 'a connection_scheme list" where
  "delete_all_connection [] = []"
| "delete_all_connection (c # cs) = delete_all_connection cs"

definition upd_connection ::
    "'a connection_scheme list \<Rightarrow> 'a connection_scheme \<Rightarrow> 'a connection_scheme list" where
  "upd_connection cs c =
    (case find_connection_ptr cs (c_tid c) (c_addr c) of None \<Rightarrow> cs | Some i \<Rightarrow> cs[i := c])"

text \<open>A packet of the header alone, sealed; the six bytes of the allocation are all written.\<close>

definition header_packet :: "u16 \<Rightarrow> u16 \<Rightarrow> u8 \<Rightarrow> bytes option" where
  "header_packet tid seqno flag = do {
     let p = tr_packet_setHeader (replicate 6 0) tid seqno flag 0;
     c \<leftarrow> tr_calculate_checksum p 0;
     Some (put8 p 5 c)
   }"

definition alarm_due_now :: "'a connection_scheme \<Rightarrow> timeval \<Rightarrow> bool" where
  "alarm_due_now c now \<longleftrightarrow> (tv_sec (alarm_time c) > 0 \<or> tv_usec (alarm_time c) > 0)
     \<and> compare_timeval (alarm_time c) now \<le> 0"

section \<open>Lemmas\<close>

abbreviation conn_keys :: "'a connection_scheme list \<Rightarrow> (u16 \<times> u16) list" where
  "conn_keys \<equiv> map (\<lambda>c. (c_tid c, c_addr c))"

lemma find_connection_eq: "find_connection cs tid addr = find (is_connection tid addr) cs"
  unfolding find_connection_def
  by (induction cs) (auto simp: option.map_comp comp_def)

lemma find_connection_Nil [simp]: "find_connection [] tid addr = None"
  by (simp add: find_connection_eq)

lemma find_connection_Cons [simp]:
  "find_connection (c # cs) tid addr = (if is_connection tid addr c then Some c else find_connection cs tid addr)"
  by (simp add: find_connection_eq)

lemma find_connection_Some:
  "find_connection cs tid addr = Some c \<Longrightarrow> c \<in> set cs \<and> c_tid c = tid \<and> c_addr c = addr"
  by (auto simp: find_connection_eq find_Some_iff is_connection_def)

lemma find_connection_None:
  "find_connection cs tid addr = None \<longleftrightarrow> (tid, addr) \<notin> set (conn_keys cs)"
  by (auto simp: find_connection_eq find_None_iff is_connection_def)

lemma upd_connection_Nil [simp]: "upd_connection [] c = []"
  by (simp add: upd_connection_def)

lemma upd_connection_Cons [simp]:
  "upd_connection (x # xs) c = (if is_connection (c_tid c) (c_addr c) x then c # xs else x # upd_connection xs c)"
  by (simp add: upd_connection_def split: option.splits)

lemma upd_connection_keys [simp]: "conn_keys (upd_connection cs c) = conn_keys cs"
  by (induction cs) (auto simp: is_connection_def)

lemma find_upd_connection:
  "find_connection cs (c_tid c) (c_addr c) \<noteq> None \<Longrightarrow>
    find_connection (upd_connection cs c) tid addr
      = (if is_connection tid addr c then Some c else find_connection cs tid addr)"
  by (induction cs) (auto simp: is_connection_def)

lemma upd_upd_connection [simp]:
  "c_tid c' = c_tid c \<Longrightarrow> c_addr c' = c_addr c \<Longrightarrow>
    upd_connection (upd_connection cs c) c' = upd_connection cs c'"
  by (induction cs) (auto simp: is_connection_def)

lemma remove_connection_Nil [simp]: "remove_connection [] tid addr = []"
  by (simp add: remove_connection_def)

lemma remove_connection_Cons [simp]:
  "remove_connection (x # xs) tid addr
    = (if is_connection tid addr x then xs else x # remove_connection xs tid addr)"
  by (simp add: remove_connection_def rem_connection_def split: option.splits)

lemma remove_connection_set: "set (remove_connection cs tid addr) \<subseteq> set cs"
  by (induction cs) auto

lemma remove_connection_keys:
  "distinct (conn_keys cs) \<Longrightarrow>
    conn_keys (remove_connection cs tid addr) = removeAll (tid, addr) (conn_keys cs)"
proof (induction cs)
  case (Cons c cs)
  then show ?case by (auto simp: is_connection_def intro: removeAll_id [symmetric])
qed simp

lemma delete_all_connection_Nil [simp]: "delete_all_connection cs = []"
  by (induction cs) simp_all

lemma set_upd_connection: "set (upd_connection cs c) \<subseteq> insert c (set cs)"
  by (induction cs) auto

lemma sum8_cong: "(\<And>i. i < n \<Longrightarrow> get8 a i = get8 b i) \<Longrightarrow> sum8 a n = sum8 b n"
  by (induction n) (simp_all add: sum8_Suc)

lemma header_packet_sealed:
  "\<exists>p. header_packet tid seqno flag = Some p \<and> length p = 6 \<and> tr_packet_getTid p = tid
    \<and> tr_packet_getSeqno p = seqno \<and> tr_packet_getFlag p = flag \<and> tr_checksum_check p 0 = Some 1"
proof -
  let ?h = "tr_packet_setHeader (replicate 6 0) tid seqno flag 0"
  obtain c where c: "tr_calculate_checksum ?h 0 = Some c" by (simp add: tr_calculate_checksum_eq)
  let ?p = "put8 ?h 5 c"
  have "?p = tr_packet_setHeader (replicate 6 0) tid seqno flag c"
    by (simp add: tr_packet_setHeader_def put8_def)
  then have f: "tr_packet_getTid ?p = tid" "tr_packet_getSeqno ?p = seqno" "tr_packet_getFlag ?p = flag"
    by (simp_all add: tr_packet_header_roundtrip)
  have "the (tr_calculate_checksum ?p 0) = get8 ?p 5"
    using tr_sum.calc_ignores_field [of 0 ?h c] c by (simp add: get8_put8)
  moreover have "tr_calculate_checksum ?p 0 \<noteq> None" by (simp add: tr_calculate_checksum_eq)
  ultimately have "tr_checksum_check ?p 0 = Some 1" by (auto simp: tr_checksum_check_def)
  then show ?thesis using f c by (simp add: header_packet_def)
qed

text \<open>Sealing a packet of header and \<open>n\<close> data bytes.\<close>

lemma seal_packet:
  assumes "length p = 6 + unat n" "unat n < 250"
  shows "\<exists>s q. tr_calculate_checksum (tr_packet_setHeader p tid seqno flag 0) n = Some s
    \<and> q = put8 (tr_packet_setHeader p tid seqno flag 0) 5 s \<and> tr_checksum_check q n = Some 1
    \<and> tr_packet_getTid q = tid \<and> tr_packet_getSeqno q = seqno \<and> tr_packet_getFlag q = flag
    \<and> tr_packet_getPayload q = drop 6 p \<and> length q = length p"
proof -
  let ?h = "tr_packet_setHeader p tid seqno flag 0"
  obtain s where s: "tr_calculate_checksum ?h n = Some s" using assms by (simp add: tr_calculate_checksum_eq)
  let ?q = "put8 ?h 5 s"
  have q: "?q = tr_packet_setHeader p tid seqno flag s" by (simp add: tr_packet_setHeader_def put8_def)
  have "the (tr_calculate_checksum ?q n) = get8 ?q 5"
    using tr_sum.calc_ignores_field [of n ?h s] s assms by (simp add: get8_put8)
  moreover have "tr_calculate_checksum ?q n \<noteq> None" using assms by (simp add: tr_calculate_checksum_eq)
  ultimately have "tr_checksum_check ?q n = Some 1" by (auto simp: tr_checksum_check_def)
  moreover have "6 \<le> length p" using assms by simp
  then have "tr_packet_getTid ?q = tid" "tr_packet_getSeqno ?q = seqno" "tr_packet_getFlag ?q = flag"
    "tr_packet_getPayload ?q = drop 6 p"
    unfolding q by (simp_all add: tr_packet_header_roundtrip) (simp add: tr_packet_getPayload_def)
  ultimately show ?thesis using s by (intro exI [of _ s] exI [of _ ?q]) simp
qed

lemma checksum_eval:
  "length p = 6 + unat n \<Longrightarrow> unat n < 250 \<Longrightarrow> get8 p 5 \<noteq> 0xff \<Longrightarrow> sum_list p = 0 \<Longrightarrow> tr_checksum_check p n = Some 1"
  by (simp add: tr_checksum_check_def tr_calculate_checksum_eq sum8_all)

end
