(* ===== verification/U16list.thy ===== *)
theory U16list
  imports Prelude
begin

text \<open>
  Model of src/master/transport/uint16list.c: the singly linked list with a tail pointer in which a
  receiver keeps the sequence numbers it misses. A node is its address and its value; \<open>ul_chain\<close> are
  the nodes reached from \<open>head\<close>, \<open>ul_tail\<close> is the address in \<open>tail\<close>, \<open>ul_heap\<close> the next
  address that \<open>malloc\<close> returns. \<open>None\<close> is a null or dangling pointer followed. The
  value 0xffff is the result for "not there".
\<close>

record u16list_entry =
  ue_addr :: nat
  ue_value :: u16

record uint16list =
  ul_length :: int
  ul_chain :: "u16list_entry list"
  ul_tail :: "nat option"
  ul_heap :: nat

definition u16list_init :: "uint16list \<Rightarrow> uint16list" where
  "u16list_init l = l\<lparr>ul_chain := [], ul_tail := None, ul_length := 0\<rparr>"

definition u16list_isEmpty :: "uint16list \<Rightarrow> bool" where
  "u16list_isEmpty l \<longleftrightarrow> ul_length l = 0"

definition u16list_getLength :: "uint16list \<Rightarrow> u16" where
  "u16list_getLength l = word_of_int (ul_length l)"

definition u16list_find :: "uint16list \<Rightarrow> u16 \<Rightarrow> u16" where
  "u16list_find l x =
    (case find (\<lambda>e. ue_value e = x) (ul_chain l) of Some e \<Rightarrow> ue_value e | None \<Rightarrow> 0xffff)"

text \<open>The loop with the two pointers: from \<open>prev\<close> on, the node before, the node removed, the rest.\<close>

fun u16list_delete_loop ::
    "u16list_entry \<Rightarrow> u16list_entry list \<Rightarrow> u16
      \<Rightarrow> (u16list_entry \<times> u16list_entry \<times> u16list_entry list) option" where
  "u16list_delete_loop prev [] x = None"
| "u16list_delete_loop prev (e # es) x =
    (if ue_value e = x then Some (prev, e, prev # es)
     else map_option (\<lambda>(p, d, c). (p, d, prev # c)) (u16list_delete_loop e es x))"

definition u16list_delete :: "uint16list \<Rightarrow> u16 \<Rightarrow> (u16 \<times> uint16list) option" where
  "u16list_delete l x =
    (if u16list_isEmpty l then Some (0xffff, l)
     else case ul_chain l of
       [] \<Rightarrow> None
     | e # es \<Rightarrow>
         if ue_value e = x then
           Some (x, l\<lparr>ul_chain := es, ul_length := ul_length l - 1,
                      ul_tail := (if ul_tail l = Some (ue_addr e) then None else ul_tail l)\<rparr>)
         else (case u16list_delete_loop e es x of
             None \<Rightarrow> Some (0xffff, l)
           | Some (p, d, c) \<Rightarrow>
               Some (x, l\<lparr>ul_chain := c, ul_length := ul_length l - 1,
                 ul_tail := (if ul_tail l = Some (ue_addr d) then Some (ue_addr p) else ul_tail l)\<rparr>)))"

text \<open>What hangs behind the node that \<open>tail\<close> points to is cut off by the assignment to its \<open>next\<close>.\<close>

fun append_after :: "u16list_entry list \<Rightarrow> nat \<Rightarrow> u16list_entry \<Rightarrow> u16list_entry list option" where
  "append_after [] t n = None"
| "append_after (e # es) t n =
    (if ue_addr e = t then Some [e, n] else map_option ((#) e) (append_after es t n))"

definition u16list_insert :: "uint16list \<Rightarrow> u16 \<Rightarrow> uint16list option" where
  "u16list_insert l x =
    (if u16list_find l x = 0xffff then
       (let n = \<lparr>ue_addr = ul_heap l, ue_value = x\<rparr>;
            l' = l\<lparr>ul_heap := ul_heap l + 1, ul_length := ul_length l + 1, ul_tail := Some (ue_addr n)\<rparr>
        in if u16list_isEmpty l then Some (l'\<lparr>ul_chain := [n]\<rparr>)
           else do {
             t \<leftarrow> ul_tail l;
             c \<leftarrow> append_after (ul_chain l) t n;
             Some (l'\<lparr>ul_chain := c\<rparr>)
           })
     else Some l)"

definition u16list_deleteFirst :: "uint16list \<Rightarrow> (u16 \<times> uint16list) option" where
  "u16list_deleteFirst l =
    (if ul_length l = 0 then Some (0xffff, l)
     else case ul_chain l of
       [] \<Rightarrow> None
     | e # es \<Rightarrow> Some (ue_value e, l\<lparr>ul_chain := es, ul_length := ul_length l - 1\<rparr>))"

definition u16list_getFirst :: "uint16list \<Rightarrow> u16 option" where
  "u16list_getFirst l = (case ul_chain l of [] \<Rightarrow> None | e # _ \<Rightarrow> Some (ue_value e))"

text \<open>The walk of \<open>i - 1\<close> steps; positions count from 1.\<close>

definition u16list_get_ith :: "uint16list \<Rightarrow> u16 \<Rightarrow> u16 option" where
  "u16list_get_ith l i =
    (if ul_length l < int (unat i) then Some 0xffff
     else if unat i - 1 < length (ul_chain l) then Some (ue_value (ul_chain l ! (unat i - 1)))
     else None)"

text \<open>All nodes are freed; \<open>head\<close>, \<open>tail\<close> and \<open>length\<close> keep their values. The result is what is freed.\<close>

definition u16list_clearList :: "uint16list \<Rightarrow> nat list" where
  "u16list_clearList l = map ue_addr (ul_chain l)"

section \<open>Invariant and laws\<close>

definition ul_values :: "uint16list \<Rightarrow> u16 list" where
  "ul_values l = map ue_value (ul_chain l)"

definition ul_inv :: "uint16list \<Rightarrow> bool" where
  "ul_inv l \<longleftrightarrow> ul_length l = int (length (ul_chain l)) \<and> distinct (map ue_addr (ul_chain l))
    \<and> (\<forall>e \<in> set (ul_chain l). ue_addr e < ul_heap l) \<and> distinct (ul_values l)
    \<and> 0xffff \<notin> set (ul_values l)
    \<and> (ul_chain l \<noteq> [] \<longrightarrow> ul_tail l = Some (ue_addr (last (ul_chain l))))"

lemma ul_init_inv [simp]: "ul_inv (u16list_init l)" "ul_values (u16list_init l) = []"
  by (simp_all add: ul_inv_def u16list_init_def ul_values_def)

lemma ul_isEmpty: "ul_inv l \<Longrightarrow> u16list_isEmpty l \<longleftrightarrow> ul_values l = []"
  by (simp add: ul_inv_def u16list_isEmpty_def ul_values_def)

lemma ul_find: "ul_inv l \<Longrightarrow> u16list_find l x = (if x \<in> set (ul_values l) then x else 0xffff)"
  by (auto simp: u16list_find_def ul_values_def find_None_iff find_Some_iff split: option.splits)

lemma append_after_last:
  "c \<noteq> [] \<Longrightarrow> distinct (map ue_addr c) \<Longrightarrow> append_after c (ue_addr (last c)) n = Some (c @ [n])"
proof (induction c)
  case (Cons e es)
  then show ?case by (cases es) auto
qed simp

lemma ul_insert:
  assumes "ul_inv l" "x \<noteq> 0xffff"
  shows "\<exists>l'. u16list_insert l x = Some l' \<and> ul_inv l'
    \<and> ul_values l' = (if x \<in> set (ul_values l) then ul_values l else ul_values l @ [x])"
proof (cases "x \<in> set (ul_values l)")
  case True
  then show ?thesis using assms by (simp add: u16list_insert_def ul_find)
next
  case False
  let ?n = "\<lparr>ue_addr = ul_heap l, ue_value = x\<rparr>"
  let ?l = "l\<lparr>ul_heap := ul_heap l + 1, ul_length := ul_length l + 1, ul_tail := Some (ul_heap l),
      ul_chain := ul_chain l @ [?n]\<rparr>"
  have "u16list_insert l x = Some ?l"
  proof (cases "ul_chain l = []")
    case True
    then show ?thesis using assms False
      by (simp add: u16list_insert_def ul_find u16list_isEmpty_def ul_inv_def)
  next
    case ne: False
    then have "append_after (ul_chain l) (ue_addr (last (ul_chain l))) ?n = Some (ul_chain l @ [?n])"
      using assms(1) by (intro append_after_last) (simp_all add: ul_inv_def)
    moreover have "ul_tail l = Some (ue_addr (last (ul_chain l)))" "\<not> u16list_isEmpty l"
      using assms(1) ne by (simp_all add: ul_inv_def u16list_isEmpty_def)
    ultimately show ?thesis using assms(1) False
      by (simp add: u16list_insert_def ul_find Let_def)
  qed
  moreover have "ul_inv ?l"
    using assms False by (auto simp: ul_inv_def ul_values_def less_Suc_eq)
  ultimately show ?thesis using False by (simp add: ul_values_def)
qed

lemma last_addr: "es \<noteq> [] \<Longrightarrow> a \<notin> ue_addr ` set es \<Longrightarrow> ue_addr (last es) \<noteq> a"
  by auto

lemma delete_loop_None: "u16list_delete_loop prev es x = None \<longleftrightarrow> x \<notin> ue_value ` set es"
  by (induction prev es x rule: u16list_delete_loop.induct) auto

lemma delete_loop_Some:
  "u16list_delete_loop prev es x = Some (p, d, c) \<Longrightarrow> distinct (map ue_addr (prev # es)) \<Longrightarrow>
    d \<in> set es \<and> length c = length es \<and> set c \<subseteq> insert prev (set es)
    \<and> map ue_value c = ue_value prev # remove1 x (map ue_value es)
    \<and> distinct (map ue_addr c) \<and> c \<noteq> [] \<and> hd c = prev
    \<and> last c = (if ue_addr (last es) = ue_addr d then p else last es)"
proof (induction prev es x arbitrary: p d c rule: u16list_delete_loop.induct)
  case (2 prev e es x)
  show ?case
  proof (cases "ue_value e = x")
    case True
    then show ?thesis using 2(2,3) last_addr [of es] by (cases "es = []") auto
  next
    case False
    then obtain c' where c': "u16list_delete_loop e es x = Some (p, d, c')" "c = prev # c'"
      using 2(2) by auto
    note ih = 2(1) [OF False c'(1)]
    show ?thesis using ih 2(3) False c'(2) by (cases "es = []") auto
  qed
qed simp

lemma ul_delete:
  assumes "ul_inv l"
  shows "\<exists>l'. u16list_delete l x = Some (if x \<in> set (ul_values l) then x else 0xffff, l')
    \<and> ul_inv l' \<and> ul_values l' = remove1 x (ul_values l)"
proof (cases "ul_chain l")
  case Nil
  then show ?thesis using assms
    by (simp add: u16list_delete_def u16list_isEmpty_def ul_inv_def ul_values_def)
next
  case (Cons e es)
  then have ne: "\<not> u16list_isEmpty l" using assms by (simp add: u16list_isEmpty_def ul_inv_def)
  show ?thesis
  proof (cases "ue_value e = x")
    case True
    then show ?thesis using assms Cons ne last_addr [of es]
      by (cases "es = []") (auto simp: u16list_delete_def ul_inv_def ul_values_def)
  next
    case ex: False
    show ?thesis
    proof (cases "u16list_delete_loop e es x")
      case None
      then have "x \<notin> set (ul_values l)" using ex Cons by (auto simp: delete_loop_None ul_values_def)
      then show ?thesis using assms Cons ne ex None
        by (simp add: u16list_delete_def remove1_idem)
    next
      case (Some pdc)
      obtain p d c where pdc: "u16list_delete_loop e es x = Some (p, d, c)" by (metis Some prod_cases3)
      have di: "distinct (map ue_addr (e # es))" using assms Cons by (simp add: ul_inv_def)
      note s = delete_loop_Some [OF pdc di]
      have x: "x \<in> set (ul_values l)"
        using pdc Cons delete_loop_None [of e es x] by (auto simp: ul_values_def)
      have es: "es \<noteq> []" using s by auto
      let ?l = "l\<lparr>ul_chain := c, ul_length := ul_length l - 1,
                 ul_tail := (if ul_tail l = Some (ue_addr d) then Some (ue_addr p) else ul_tail l)\<rparr>"
      have "u16list_delete l x = Some (x, ?l)"
        using Cons ne ex pdc by (simp add: u16list_delete_def)
      moreover have v: "ul_values ?l = remove1 x (ul_values l)"
        using s Cons ex by (simp add: ul_values_def)
      moreover have "ul_inv ?l"
      proof -
        have "distinct (ul_values ?l)" "0xffff \<notin> set (ul_values ?l)"
          using assms unfolding v by (auto simp: ul_inv_def dest: notin_set_remove1)
        moreover have "\<forall>n \<in> set c. ue_addr n < ul_heap l"
          using assms Cons s by (auto simp: ul_inv_def)
        ultimately show ?thesis using assms Cons s es by (auto simp: ul_inv_def)
      qed
      ultimately show ?thesis using x by auto
    qed
  qed
qed

lemma ul_deleteFirst:
  assumes "ul_inv l"
  shows "\<exists>l'. u16list_deleteFirst l = Some (case ul_values l of [] \<Rightarrow> 0xffff | v # _ \<Rightarrow> v, l')
    \<and> ul_inv l' \<and> ul_values l' = tl (ul_values l)"
  using assms by (cases "ul_chain l") (auto simp: u16list_deleteFirst_def ul_inv_def ul_values_def)

lemma ul_get_ith:
  assumes "ul_inv l" "0 < i" "i \<le> length (ul_values l)" "i < 65536"
  shows "u16list_get_ith l (of_nat i) = Some (ul_values l ! (i - 1))"
proof -
  have "unat (of_nat i :: u16) = i" using assms(4) by (simp only: unat_of_nat_u16 mod_less)
  then show ?thesis using assms(1-3) unfolding u16list_get_ith_def by (simp add: ul_inv_def ul_values_def)
qed

section \<open>Properties\<close>

text \<open>
  On a well-formed list the pointer operations implement a list without duplicates: insertion at
  the end unless present, removal of a value wherever it is, removal of the first, and access by
  position; none follows a null or dangling pointer, and clearing frees every node once.
\<close>

theorem u16list_refines_list:
  assumes "ul_inv l"
  shows "(\<forall>x. x \<noteq> 0xffff \<longrightarrow> (\<exists>l'. u16list_insert l x = Some l' \<and> ul_inv l'
        \<and> ul_values l' = (if x \<in> set (ul_values l) then ul_values l else ul_values l @ [x])))
    \<and> (\<forall>x. \<exists>l'. u16list_delete l x = Some (if x \<in> set (ul_values l) then x else 0xffff, l')
        \<and> ul_inv l' \<and> ul_values l' = remove1 x (ul_values l))
    \<and> (\<exists>l'. u16list_deleteFirst l = Some (case ul_values l of [] \<Rightarrow> 0xffff | v # _ \<Rightarrow> v, l')
        \<and> ul_inv l' \<and> ul_values l' = tl (ul_values l))
    \<and> (\<forall>i. 0 < i \<and> i \<le> length (ul_values l) \<and> i < 65536 \<longrightarrow>
        u16list_get_ith l (of_nat i) = Some (ul_values l ! (i - 1)))
    \<and> distinct (u16list_clearList l)"
  using assms ul_insert ul_delete ul_deleteFirst ul_get_ith
  by (simp add: u16list_clearList_def) (simp add: ul_inv_def)

theorem u16list_refines_list_witness:
  "\<exists>l'. u16list_deleteFirst (u16list_init \<lparr>ul_length = 3, ul_chain = [], ul_tail = None, ul_heap = 7\<rparr>)
    = Some (0xffff, l')"
proof -
  let ?l = "u16list_init \<lparr>ul_length = 3, ul_chain = [], ul_tail = None, ul_heap = 7\<rparr>"
  have "ul_inv ?l" by simp
  from u16list_refines_list [OF this] show ?thesis by auto
qed

end
