(* ===== verification/Packet_List.thy ===== *)
theory Packet_List
  imports Tr_Seqno
begin

text \<open>
  Model of src/master/transport/sortedpacketlist.c: the list of packets that arrived out of order,
  sorted by sequence number with the wrap-around of the number circle. \<open>spl_chain\<close> are the
  nodes reached from \<open>head\<close>; a node owns its packet. Numbers are \<open>int\<close> as in the code. \<open>None\<close> is a null
  pointer followed.
\<close>

record SPList_entry =
  sp_value :: int
  sp_len :: int
  sp_packet :: bytes

record SortedPacketList =
  spl_length :: int
  spl_chain :: "SPList_entry list"

definition SPList_init :: "SortedPacketList \<Rightarrow> SortedPacketList" where
  "SPList_init l = l\<lparr>spl_chain := [], spl_length := 0\<rparr>"

definition SPList_find :: "SortedPacketList \<Rightarrow> int \<Rightarrow> int" where
  "SPList_find l value =
    (case find (\<lambda>e. sp_value e = value) (spl_chain l) of Some e \<Rightarrow> sp_value e | None \<Rightarrow> -1)"

text \<open>The comparison of both branches: \<open>a\<close> goes before \<open>b\<close>.\<close>

definition spl_before :: "int \<Rightarrow> int \<Rightarrow> bool" where
  "spl_before a b \<longleftrightarrow> (a < b \<or> a > b + 50000 div 2) \<and> a + 50000 div 2 > b"

fun spl_insert_loop :: "SPList_entry \<Rightarrow> SPList_entry list \<Rightarrow> SPList_entry list" where
  "spl_insert_loop n [] = []"
| "spl_insert_loop n [e] = [e, n]"
| "spl_insert_loop n (e # e' # es) =
    (if spl_before (sp_value n) (sp_value e') then e # n # e' # es
     else e # spl_insert_loop n (e' # es))"

definition SPList_insert ::
    "SortedPacketList \<Rightarrow> int \<Rightarrow> bytes \<Rightarrow> int \<Rightarrow> SortedPacketList option" where
  "SPList_insert l value packet len =
    (if SPList_find l value \<ge> 0 then Some l
     else
       let n = \<lparr>sp_value = value, sp_len = len, sp_packet = packet\<rparr>;
           l' = l\<lparr>spl_length := spl_length l + 1\<rparr>
       in if spl_length l = 0 then Some (l'\<lparr>spl_chain := [n]\<rparr>)
          else case spl_chain l of
            [] \<Rightarrow> None
          | e # es \<Rightarrow>
              if spl_before value (sp_value e) then Some (l'\<lparr>spl_chain := n # e # es\<rparr>)
              else Some (l'\<lparr>spl_chain := spl_insert_loop n (e # es)\<rparr>))"

definition SPList_getFirstValue :: "SortedPacketList \<Rightarrow> int option" where
  "SPList_getFirstValue l =
    (if spl_length l = 0 then Some (-1)
     else case spl_chain l of [] \<Rightarrow> None | e # _ \<Rightarrow> Some (sp_value e))"

text \<open>The packet (none when the list is empty), its number and its length.\<close>

definition SPList_deleteFirstPacket ::
    "SortedPacketList \<Rightarrow> (bytes option \<times> int \<times> int \<times> SortedPacketList) option" where
  "SPList_deleteFirstPacket l =
    (if spl_length l = 0 then Some (None, 0, 0, l)
     else case spl_chain l of
       [] \<Rightarrow> None
     | e # es \<Rightarrow> Some (Some (sp_packet e), sp_value e, sp_len e,
                     l\<lparr>spl_chain := es, spl_length := spl_length l - 1\<rparr>))"

definition SPList_isEmpty :: "SortedPacketList \<Rightarrow> bool" where
  "SPList_isEmpty l \<longleftrightarrow> spl_length l = 0"

definition SPList_getLength :: "SortedPacketList \<Rightarrow> int" where
  "SPList_getLength l = spl_length l"

text \<open>Every node and its packet are freed, \<open>head\<close> and \<open>length\<close> keep their values: what is freed.\<close>

definition SPList_clearList :: "SortedPacketList \<Rightarrow> (int \<times> bytes) list" where
  "SPList_clearList l = map (\<lambda>e. (sp_value e, sp_packet e)) (spl_chain l)"

section \<open>The order on the circle\<close>

text \<open>The number \<open>k\<close> steps after \<open>b\<close>, as the code stores it.\<close>

definition seq_at :: "u16 \<Rightarrow> nat \<Rightarrow> int" where
  "seq_at b k = int (unat (fwd 50000 b k))"

lemma seq_at_eq: "seq_at b k = int ((unat b - 1 + k) mod 50000) + 1"
  by (simp add: seq_at_def unat_fwd)

lemma seq_at_range: "1 \<le> seq_at b k" "seq_at b k \<le> 50000"
  using mod_less_divisor [of 50000 "unat b - 1 + k"] by (simp_all add: seq_at_eq)

lemma seq_at_step:
  "seq_at b (j + d) = (if seq_at b j + int (d mod 50000) \<le> 50000 then seq_at b j + int (d mod 50000)
    else seq_at b j + int (d mod 50000) - 50000)"
proof -
  have m: "(x + y) mod 50000 = (if x + y < 50000 then x + y else x + y - 50000)"
    if "x < 50000" "y < 50000" for x y :: nat
    using that by (simp add: le_mod_geq)
  let ?x = "(unat b - 1 + j) mod 50000"
  have "(unat b - 1 + (j + d)) mod 50000 = (?x + d mod 50000) mod 50000"
    by (simp add: mod_add_eq add.assoc)
  also have "\<dots> = (if ?x + d mod 50000 < 50000 then ?x + d mod 50000 else ?x + d mod 50000 - 50000)"
    by (rule m) simp_all
  finally show ?thesis by (auto simp: seq_at_eq)
qed

lemma spl_before_seq_at:
  assumes "i < j + 25000" "j < i + 25000"
  shows "spl_before (seq_at b i) (seq_at b j) \<longleftrightarrow> i < j" "seq_at b i = seq_at b j \<longleftrightarrow> i = j"
proof -
  have "(spl_before (seq_at b i) (seq_at b j) \<longleftrightarrow> i < j) \<and> (seq_at b i = seq_at b j \<longleftrightarrow> i = j)"
  proof (cases "i \<le> j")
    case True
    then obtain d where d: "j = i + d" by (metis le_iff_add)
    then have "d < 25000" using assms by simp
    then show ?thesis using seq_at_range [of b i] unfolding d seq_at_step spl_before_def by auto
  next
    case False
    then obtain d where d: "i = j + d" "0 < d" by (metis less_imp_add_positive not_le)
    then have "d < 25000" using assms by simp
    then show ?thesis using seq_at_range [of b j] d(2) unfolding d(1) seq_at_step spl_before_def by auto
  qed
  then show "spl_before (seq_at b i) (seq_at b j) \<longleftrightarrow> i < j" "seq_at b i = seq_at b j \<longleftrightarrow> i = j"
    by simp_all
qed

section \<open>Sorted lists\<close>

text \<open>
  The list holds, in this order, the packets whose numbers are \<open>ks\<close> steps after \<open>b\<close>; \<open>data\<close> gives
  their contents.
\<close>

definition spl_holds :: "SortedPacketList \<Rightarrow> u16 \<Rightarrow> (nat \<Rightarrow> bytes) \<Rightarrow> nat list \<Rightarrow> bool" where
  "spl_holds l b data ks \<longleftrightarrow> spl_length l = int (length (spl_chain l))
    \<and> spl_chain l = map (\<lambda>k. \<lparr>sp_value = seq_at b k, sp_len = int (length (data k)), sp_packet = data k\<rparr>) ks
    \<and> sorted_wrt (<) ks"

abbreviation near :: "nat \<Rightarrow> nat list \<Rightarrow> bool" where
  "near k ks \<equiv> \<forall>j \<in> set ks. k < j + 25000 \<and> j < k + 25000"

lemma spl_find_holds:
  assumes "spl_holds l b data ks" "near k ks"
  shows "SPList_find l (seq_at b k) = (if k \<in> set ks then seq_at b k else -1)"
proof -
  have "(\<exists>j \<in> set ks. seq_at b j = seq_at b k) \<longleftrightarrow> k \<in> set ks"
    using assms(2) spl_before_seq_at(2) [of _ k b] by auto
  then show ?thesis
    using assms(1)
    by (auto simp: SPList_find_def spl_holds_def find_None_iff find_Some_iff split: option.splits)
qed

lemma spl_insert_loop_sorted:
  fixes f :: "nat \<Rightarrow> SPList_entry"
  assumes "\<forall>j. sp_value (f j) = seq_at b j" "near k (i # ks)" "sorted_wrt (<) (i # ks)" "i < k" "k \<notin> set ks"
  shows "spl_insert_loop (f k) (map f (i # ks)) = map f (i # insort k ks)"
  using assms(2-)
proof (induction ks arbitrary: i)
  case (Cons j ks)
  have "spl_before (seq_at b k) (seq_at b j) \<longleftrightarrow> k < j"
    using Cons.prems(1) by (intro spl_before_seq_at) auto
  then show ?case using Cons assms(1) by auto
qed (simp add: assms)

lemma sorted_wrt_insort:
  "sorted_wrt (<) ks \<Longrightarrow> (k :: nat) \<notin> set ks \<Longrightarrow> sorted_wrt (<) (insort k ks)"
  by (simp add: strict_sorted_iff distinct_insort sorted_insort)

lemma spl_insert_holds:
  assumes h: "spl_holds l b data ks" and n: "near k ks"
  shows "\<exists>l'. SPList_insert l (seq_at b k) (data k) (int (length (data k))) = Some l'
    \<and> spl_holds l' b data (if k \<in> set ks then ks else insort k ks)"
proof (cases "k \<in> set ks")
  case True
  then show ?thesis using assms seq_at_range(1) [of b k]
    by (simp add: SPList_insert_def spl_find_holds [OF h n])
next
  case False
  let ?f = "\<lambda>k. \<lparr>sp_value = seq_at b k, sp_len = int (length (data k)), sp_packet = data k\<rparr>"
  have c: "spl_chain l = map ?f ks" "spl_length l = int (length ks)" "sorted_wrt (<) ks"
    using h by (simp_all add: spl_holds_def)
  have nf: "\<not> SPList_find l (seq_at b k) \<ge> 0" using False by (simp add: spl_find_holds [OF h n])
  have s: "sorted_wrt (<) (insort k ks)" using c(3) False by (rule sorted_wrt_insort)
  show ?thesis
  proof (cases ks)
    case Nil
    then show ?thesis using c nf by (simp add: SPList_insert_def spl_holds_def)
  next
    case (Cons i js)
    have b: "spl_before (seq_at b k) (seq_at b i) \<longleftrightarrow> k < i"
      using n Cons by (intro spl_before_seq_at) auto
    have "i \<noteq> k" using False Cons by auto
    have "spl_insert_loop (?f k) (map ?f (i # js)) = map ?f (insort k (i # js))" if "\<not> k < i"
      using spl_insert_loop_sorted [where f = ?f and b = b and k = k and i = i and ks = js] n c(3) False that \<open>i \<noteq> k\<close> unfolding Cons by simp
    moreover have "insort k (i # js) = k # i # js" if "k < i" using that by simp
    ultimately have "SPList_insert l (seq_at b k) (data k) (int (length (data k)))
        = Some (l\<lparr>spl_length := spl_length l + 1, spl_chain := map ?f (insort k ks)\<rparr>)"
      using nf c b Cons by (simp add: SPList_insert_def Let_def)
    then show ?thesis using c(2) s False by (simp add: spl_holds_def)
  qed
qed

lemma spl_delete_holds:
  assumes "spl_holds l b data (k # ks)"
  shows "\<exists>l'. SPList_deleteFirstPacket l = Some (Some (data k), seq_at b k, int (length (data k)), l')
    \<and> spl_holds l' b data ks"
  using assms by (auto simp: SPList_deleteFirstPacket_def spl_holds_def)

lemma spl_first_holds:
  "spl_holds l b data ks \<Longrightarrow>
    SPList_getFirstValue l = Some (case ks of [] \<Rightarrow> -1 | k # _ \<Rightarrow> seq_at b k)"
  by (cases ks) (simp_all add: SPList_getFirstValue_def spl_holds_def)

section \<open>Properties\<close>

text \<open>
  C29: as long as the numbers lie within half the circle, insertion keeps the packets in the order in
  which they were sent, across the wrap-around of the numbers, ignores a number that is
  there, and the deletion of the first yields the oldest.
\<close>

theorem SPList_sorted:
  assumes "spl_holds l b data ks" "\<forall>j \<in> set ks. k < j + 25000 \<and> j < k + 25000"
  shows "(\<exists>l'. SPList_insert l (seq_at b k) (data k) (int (length (data k))) = Some l'
      \<and> spl_holds l' b data (if k \<in> set ks then ks else insort k ks))
    \<and> (\<exists>l'. SPList_deleteFirstPacket l
        = Some (case ks of [] \<Rightarrow> (None, 0, 0, l)
                | j # _ \<Rightarrow> (Some (data j), seq_at b j, int (length (data j)), l'))
      \<and> (ks \<noteq> [] \<longrightarrow> spl_holds l' b data (tl ks)))"
  using spl_insert_holds [OF assms] spl_delete_holds assms(1)
  by (cases ks) (auto simp: SPList_deleteFirstPacket_def spl_holds_def)

theorem SPList_sorted_witness:
  "\<exists>l'. SPList_insert \<lparr>spl_length = 1, spl_chain = [\<lparr>sp_value = 3, sp_len = 2, sp_packet = [5, 5]\<rparr>]\<rparr>
      49999 [1, 1] 2 = Some l'
    \<and> spl_holds l' 49998 (\<lambda>k. of_nat k # [of_nat k]) [1, 5]"
proof -
  have "spl_holds \<lparr>spl_length = 1, spl_chain = [\<lparr>sp_value = 3, sp_len = 2, sp_packet = [5, 5]\<rparr>]\<rparr>
      49998 (\<lambda>k. of_nat k # [of_nat k]) [5]"
    by (simp add: spl_holds_def seq_at_eq)
  then show ?thesis using SPList_sorted [of _ 49998 "\<lambda>k. of_nat k # [of_nat k]" "[5]" 1]
    by (simp add: seq_at_eq)
qed

end
