(* ===== verification/Stream_Transport.thy ===== *)
theory Stream_Transport
  imports Connection_List U16list Packet_List
begin

text \<open>
  Model of src/master/transport/streamtransport.c: the receiving end of the reliable stream protocol
  (constants in src/mote/lib/transport/streamtransport.h). A connection keeps the numbers it misses,
  the number it hands up next, and the packets that arrived too early. The world is the list of
  connections, what was given to the routing layer (\<open>write_routing_msg\<close>), what went up to the
  application (\<open>receive_streamtransport\<close>) and the calls of \<open>streamtransport_tid_delete_done\<close>. A handler works
  on the connection and writes it back. Logging and the estimates of rate and loss are left out. The
  clock is an argument. \<open>None\<close> is undefined behaviour or a loop that does not end.
\<close>

datatype str_c_state = STR_C_S_PASSIVE | STR_C_S_NACK_WAIT | STR_C_S_FIN_NACK_WAIT | STR_C_S_FINISHED

record strclist = connection +
  missingList :: uint16list
  str_state :: str_c_state
  deletePending :: bool
  timeoutCount :: int
  nextExpectedSeqNo :: u16
  plist :: SortedPacketList

record str_world =
  m_strcs :: "strclist list"
  str_sent :: "(u16 \<times> bytes) list"
  str_up :: "(u16 \<times> u16 \<times> bytes) list"
  str_deleted :: "u16 list"

definition STR_FLAG_DATA :: u8 where [consts_defs]: "STR_FLAG_DATA = 0x01"
definition STR_FLAG_SYN :: u8 where [consts_defs]: "STR_FLAG_SYN = 0x02"
definition STR_FLAG_FIN :: u8 where [consts_defs]: "STR_FLAG_FIN = 0x04"
definition STR_FLAG_NACK :: u8 where [consts_defs]: "STR_FLAG_NACK = 0x10"
definition STR_FLAG_RETX :: u8 where [consts_defs]: "STR_FLAG_RETX = 0x20"
definition STR_FLAG_DATA_RETX :: u8 where [consts_defs]: "STR_FLAG_DATA_RETX = 0x21"
definition STR_FLAG_SYN_ACK :: u8 where [consts_defs]: "STR_FLAG_SYN_ACK = 0x0a"
definition STR_FLAG_FIN_ACK :: u8 where [consts_defs]: "STR_FLAG_FIN_ACK = 0x0c"
definition STR_NACK_MLIST_LEN :: nat where [consts_defs]: "STR_NACK_MLIST_LEN = 5"
definition STR_NACK_TIMEOUT :: nat where [consts_defs]: "STR_NACK_TIMEOUT = 3000"
definition MAX_TIMEOUT_COUNT :: int where [consts_defs]: "MAX_TIMEOUT_COUNT = 50"
definition STR_CONNECTION_TIMEOUT :: nat where [consts_defs]: "STR_CONNECTION_TIMEOUT = 120000"
definition PROTOCOL_STREAM_TRANSPORT :: int where [consts_defs]: "PROTOCOL_STREAM_TRANSPORT = 0x20"

section \<open>Writing\<close>

definition str_write :: "u16 \<Rightarrow> bytes \<Rightarrow> str_world \<Rightarrow> str_world" where
  "str_write addr p w = w\<lparr>str_sent := str_sent w @ [(addr, p)]\<rparr>"

definition str_put :: "strclist \<Rightarrow> str_world \<Rightarrow> str_world" where
  "str_put c w = w\<lparr>m_strcs := upd_connection (m_strcs w) c\<rparr>"

definition s_send_SYN_ACK :: "strclist \<Rightarrow> str_world \<Rightarrow> str_world option" where
  "s_send_SYN_ACK c w = do {
     p \<leftarrow> header_packet (c_tid c) 0 STR_FLAG_SYN_ACK;
     Some (str_write (c_addr c) p w)
   }"

definition s_send_FIN_ACK_to :: "u16 \<Rightarrow> u16 \<Rightarrow> u16 \<Rightarrow> str_world \<Rightarrow> str_world option" where
  "s_send_FIN_ACK_to tid addr seqno w = do {
     p \<leftarrow> header_packet tid seqno STR_FLAG_FIN_ACK;
     Some (str_write addr p w)
   }"

definition s_send_FIN_ACK :: "strclist \<Rightarrow> str_world \<Rightarrow> str_world option" where
  "s_send_FIN_ACK c w = s_send_FIN_ACK_to (c_tid c) (c_addr c) (lastRecvSeqNo c) w"

text \<open>
  The loop over the first five missing numbers; one that has fallen behind by the window is deleted and
  the position is looked at again.
\<close>

partial_function (option) nack_loop :: "u16 \<Rightarrow> uint16list \<Rightarrow> bytes \<Rightarrow> nat \<Rightarrow> (uint16list \<times> bytes) option" where
  "nack_loop seq ml p i =
    (if i < STR_NACK_MLIST_LEN then
       (if int i < ul_length ml then do {
          mitem \<leftarrow> u16list_get_ith ml (of_nat (i + 1));
          (if tr_seqno_cmp seq (tr_seqno_add mitem (of_nat TR_VALID_RANGE)) \<ge> 0 then do {
             r \<leftarrow> u16list_delete ml mitem;
             nack_loop seq (snd r) p i
           } else nack_loop seq ml (put16le p (6 + 2 * i) mitem) (i + 1))
        } else nack_loop seq ml (put8 (put8 p (6 + 2 * i) 0) (6 + 2 * i + 1) 0) (i + 1))
     else Some (ml, p))"

definition send_NACK :: "strclist \<Rightarrow> str_world \<Rightarrow> (int \<times> strclist \<times> str_world) option" where
  "send_NACK c w =
    (if u16list_isEmpty (missingList c) then Some (0, c, w)
     else do {
       (ml, p) \<leftarrow> nack_loop (lastRecvSeqNo c) (missingList c) (replicate (6 + 2 * STR_NACK_MLIST_LEN) 0) 0;
       let h = tr_packet_setHeader p (c_tid c) (lastRecvSeqNo c) STR_FLAG_NACK 0;
       s \<leftarrow> tr_calculate_checksum h (of_nat (2 * STR_NACK_MLIST_LEN));
       Some (1, c\<lparr>missingList := ml\<rparr>, str_write (c_addr c) (put8 h 5 s) w)
     })"

section \<open>Missing packets\<close>

text \<open>The \<open>do .. while\<close> loop: the list and the number of insertions.\<close>

partial_function (option) detect_loop :: "u16 \<Rightarrow> u16 \<Rightarrow> uint16list \<Rightarrow> nat \<Rightarrow> (uint16list \<times> nat) option" where
  "detect_loop seqno lastSeqNo ml n = do {
     ml' \<leftarrow> u16list_insert ml (tr_seqno_next lastSeqNo);
     (if tr_seqno_cmp seqno (tr_seqno_next (tr_seqno_next lastSeqNo)) > 0
      then detect_loop seqno (tr_seqno_next lastSeqNo) ml' (n + 1) else Some (ml', n + 1))
   }"

definition detectMissingPacket :: "u16 \<Rightarrow> strclist \<Rightarrow> (nat \<times> strclist) option" where
  "detectMissingPacket seqno c =
    (if tr_seqno_cmp seqno (tr_seqno_next (lastRecvSeqNo c)) > 0 then do {
       (ml, n) \<leftarrow> detect_loop seqno (lastRecvSeqNo c) (missingList c) 0;
       Some (n, c\<lparr>missingList := ml, totalLostPackets := totalLostPackets c + n\<rparr>)
     } else Some (0, c))"

section \<open>Handing up in order\<close>

definition receive_streamtransport :: "strclist \<Rightarrow> int \<Rightarrow> bytes \<Rightarrow> str_world \<Rightarrow> str_world" where
  "receive_streamtransport c len p w =
    w\<lparr>str_up := str_up w @ [(c_tid c, c_addr c, take (nat len) p)]\<rparr>"

text \<open>The \<open>while (1)\<close> loop over the sorted list.\<close>

partial_function (option) str_dispatch ::
    "u16 \<Rightarrow> strclist \<Rightarrow> str_world \<Rightarrow> (strclist \<times> str_world) option" where
  "str_dispatch seqno c w = do {
     first \<leftarrow> SPList_getFirstValue (plist c);
     (if first = -1 then Some (c, w)
      else if tr_seqno_cmp (word_of_int first) (nextExpectedSeqNo c) = 0 then do {
        (ptr, v, len, pl) \<leftarrow> SPList_deleteFirstPacket (plist c);
        p \<leftarrow> ptr;
        str_dispatch seqno (c\<lparr>plist := pl, nextExpectedSeqNo := tr_seqno_next (nextExpectedSeqNo c)\<rparr>)
          (receive_streamtransport c len p w)
      }
      else if tr_seqno_cmp (word_of_int first) (nextExpectedSeqNo c) < 0 then do {
        (ptr, v, len, pl) \<leftarrow> SPList_deleteFirstPacket (plist c);
        str_dispatch seqno (c\<lparr>plist := pl\<rparr>) w
      }
      else if tr_seqno_cmp seqno (word_of_int first) \<le> 0 then Some (c, w)
      else if tr_seqno_cmp seqno (tr_seqno_add (word_of_int first) (of_nat TR_VALID_RANGE)) \<ge> 0 then do {
        (ptr, v, len, pl) \<leftarrow> SPList_deleteFirstPacket (plist c);
        p \<leftarrow> ptr;
        str_dispatch seqno (c\<lparr>plist := pl, nextExpectedSeqNo := tr_seqno_next (word_of_int first)\<rparr>)
          (receive_streamtransport c len p w)
      }
      else Some (c, w))
   }"

definition receive_str_msg :: "strclist \<Rightarrow> u16 \<Rightarrow> bytes \<Rightarrow> str_world \<Rightarrow> (strclist \<times> str_world) option" where
  "receive_str_msg c0 seqno msg w =
    (let c = c0\<lparr>timeoutCount := 0\<rparr>; len = int (length msg)
     in if tr_seqno_cmp seqno (nextExpectedSeqNo c) = 0 then
          str_dispatch seqno (c\<lparr>nextExpectedSeqNo := tr_seqno_next (nextExpectedSeqNo c)\<rparr>)
            (receive_streamtransport c len msg w)
        else if tr_seqno_cmp seqno (nextExpectedSeqNo c) < 0 then str_dispatch seqno c w
        else if SPList_find (plist c) (int (unat seqno)) < 0 then do {
          pl \<leftarrow> SPList_insert (plist c) (int (unat seqno)) msg len;
          str_dispatch seqno (c\<lparr>plist := pl\<rparr>) w
        }
        else str_dispatch seqno c w)"

section \<open>Connections\<close>

text \<open>
  A connection that exists already would be put in front of the list while it is still linked, which
  closes a cycle (\<open>None\<close>); the callers have looked before. All fields of the new memory are written.
\<close>

definition create_str_connection :: "u16 \<Rightarrow> u16 \<Rightarrow> u16 \<Rightarrow> strclist \<Rightarrow> str_world \<Rightarrow> (strclist \<times> str_world) option" where
  "create_str_connection tid srcAddr seqno mem w =
    (if find_connection (m_strcs w) tid srcAddr \<noteq> None then None
     else
       let cs = add_connection (m_strcs w) mem tid srcAddr;
           c = (hd cs)\<lparr>connection_type := PROTOCOL_STREAM_TRANSPORT, lastRecvSeqNo := seqno,
                 str_state := STR_C_S_PASSIVE, deletePending := False, timeoutCount := 0,
                 nextExpectedSeqNo := seqno + 1, missingList := u16list_init (missingList mem),
                 plist := SPList_init (plist mem)\<rparr>
       in Some (c, w\<lparr>m_strcs := c # tl cs\<rparr>))"

text \<open>Deletion frees the two lists with the connection.\<close>

definition delete_str_connection :: "strclist \<Rightarrow> str_world \<Rightarrow> str_world" where
  "delete_str_connection c w = w\<lparr>m_strcs := remove_connection (m_strcs w) (c_tid c) (c_addr c)\<rparr>"

fun str_terminate_loop :: "strclist list \<Rightarrow> strclist list" where
  "str_terminate_loop [] = []"
| "str_terminate_loop (c # cs) = str_terminate_loop cs"

definition streamtransport_terminate :: "str_world \<Rightarrow> str_world" where
  "streamtransport_terminate w = w\<lparr>m_strcs := str_terminate_loop (m_strcs w)\<rparr>"

text \<open>The result and the list: 0 without a match, -1 if a match is left pending, else 1.\<close>

fun str_delete_loop :: "u16 \<Rightarrow> strclist list \<Rightarrow> int \<Rightarrow> int \<times> strclist list" where
  "str_delete_loop tid [] result = (result, [])"
| "str_delete_loop tid (c # cs) result =
    (if c_tid c = tid then
       (let r = (if result = 0 then 1 else result)
        in if str_state c = STR_C_S_FINISHED then str_delete_loop tid cs r
           else (case str_delete_loop tid cs (-1) of (r', cs') \<Rightarrow> (r', c\<lparr>deletePending := True\<rparr> # cs')))
     else (case str_delete_loop tid cs result of (r', cs') \<Rightarrow> (r', c # cs')))"

definition streamtransport_delete_tid :: "u16 \<Rightarrow> str_world \<Rightarrow> int \<times> str_world" where
  "streamtransport_delete_tid tid w =
    (case str_delete_loop tid (m_strcs w) 0 of (r, cs) \<Rightarrow> (r, w\<lparr>m_strcs := cs\<rparr>))"

fun str_alive_loop :: "u16 \<Rightarrow> strclist list \<Rightarrow> bool" where
  "str_alive_loop tid [] = False"
| "str_alive_loop tid (c # cs) =
    (if c_tid c = tid \<and> str_state c \<noteq> STR_C_S_FINISHED then True else str_alive_loop tid cs)"

definition streamtransport_tid_is_alive :: "u16 \<Rightarrow> str_world \<Rightarrow> bool" where
  "streamtransport_tid_is_alive tid w = str_alive_loop tid (m_strcs w)"

definition STR_Timer_start :: "timeval \<Rightarrow> nat \<Rightarrow> strclist \<Rightarrow> strclist" where
  "STR_Timer_start now ms c = c\<lparr>alarm_time := add_ms_to_timeval now ms\<rparr>"

definition STR_Timer_stop :: "strclist \<Rightarrow> strclist" where
  "STR_Timer_stop c = c\<lparr>alarm_time := clear_timeval\<rparr>"

section \<open>Handlers\<close>

text \<open>What three places do when nothing is missing any more.\<close>

definition str_finish :: "timeval \<Rightarrow> strclist \<Rightarrow> str_world \<Rightarrow> str_world option" where
  "str_finish now c w = do {
     w1 \<leftarrow> s_send_FIN_ACK c w;
     let c1 = c\<lparr>str_state := STR_C_S_FINISHED\<rparr>;
     let w2 = str_put c1 w1;
     let w3 = (if deletePending c1 \<and> \<not> streamtransport_tid_is_alive (c_tid c1) w2
               then w2\<lparr>str_deleted := str_deleted w2 @ [c_tid c1]\<rparr> else w2);
     Some (str_put (STR_Timer_start now STR_CONNECTION_TIMEOUT c1) w3)
   }"

definition str_receive_syn :: "timeval \<Rightarrow> u16 \<Rightarrow> u16 \<Rightarrow> u16 \<Rightarrow> strclist \<Rightarrow> str_world \<Rightarrow> str_world option" where
  "str_receive_syn now tid srcAddr seqno mem w0 = do {
     (c, w) \<leftarrow> (case find_connection (m_strcs w0) tid srcAddr of
                 None \<Rightarrow> create_str_connection tid srcAddr seqno mem w0
               | Some c \<Rightarrow> Some (c, w0));
     w1 \<leftarrow> s_send_SYN_ACK c w;
     Some (str_put (STR_Timer_start now STR_CONNECTION_TIMEOUT c) w1)
   }"

definition str_receive_fin :: "timeval \<Rightarrow> u16 \<Rightarrow> u16 \<Rightarrow> u16 \<Rightarrow> str_world \<Rightarrow> str_world option" where
  "str_receive_fin now tid srcAddr seqno w =
    (case find_connection (m_strcs w) tid srcAddr of
       None \<Rightarrow> s_send_FIN_ACK_to tid srcAddr seqno w
     | Some c0 \<Rightarrow> do {
         c \<leftarrow> (if tr_seqno_cmp seqno (lastRecvSeqNo c0) > 0 then do {
                 (n, c1) \<leftarrow> detectMissingPacket seqno c0;
                 Some (c1\<lparr>lastRecvSeqNo := seqno\<rparr>)
               } else Some c0);
         (if u16list_isEmpty (missingList c) then str_finish now c w
          else do {
            (r, c1, w1) \<leftarrow> send_NACK (c\<lparr>timeoutCount := 0\<rparr>) w;
            Some (str_put (STR_Timer_start now STR_NACK_TIMEOUT (c1\<lparr>str_state := STR_C_S_FIN_NACK_WAIT\<rparr>)) w1)
          })
       })"

definition str_receive_data ::
    "timeval \<Rightarrow> u8 \<Rightarrow> u16 \<Rightarrow> u16 \<Rightarrow> u16 \<Rightarrow> bytes \<Rightarrow> str_world \<Rightarrow> str_world option" where
  "str_receive_data now flag tid srcAddr seqno msg w =
    (case find_connection (m_strcs w) tid srcAddr of
       None \<Rightarrow> Some w
     | Some c0 \<Rightarrow> do {
         (missingCnt, c1) \<leftarrow> (if tr_seqno_cmp seqno (lastRecvSeqNo c0) > 0 then do {
                 (n, c) \<leftarrow> detectMissingPacket seqno c0;
                 Some (n, c\<lparr>lastRecvSeqNo := seqno\<rparr>)
               } else Some (0, c0));
         let newpkt = (tr_seqno_cmp seqno (nextExpectedSeqNo c1) \<ge> 0
                       \<and> SPList_find (plist c1) (int (unat seqno)) < 0);
         c2 \<leftarrow> (if (flag AND STR_FLAG_RETX) \<noteq> 0 then do {
                  r \<leftarrow> u16list_delete (missingList c1) seqno;
                  Some (c1\<lparr>missingList := snd r\<rparr>)
                } else Some c1);
         (c3, w3) \<leftarrow> receive_str_msg c2 seqno msg w;
         let c4 = (if newpkt then c3\<lparr>totalRecvPackets := totalRecvPackets c3 + 1\<rparr> else c3);
         (if missingCnt > 0 then do {
            (r, c5, w5) \<leftarrow> send_NACK
              (if str_state c4 = STR_C_S_PASSIVE then c4\<lparr>str_state := STR_C_S_NACK_WAIT\<rparr> else c4) w3;
            Some (str_put (STR_Timer_start now STR_NACK_TIMEOUT c5) w5)
          }
          else if u16list_isEmpty (missingList c4) then
            (if str_state c4 = STR_C_S_FIN_NACK_WAIT then str_finish now c4 w3
             else if str_state c4 = STR_C_S_NACK_WAIT then
               Some (str_put (STR_Timer_start now STR_CONNECTION_TIMEOUT (c4\<lparr>str_state := STR_C_S_PASSIVE\<rparr>)) w3)
             else Some (str_put c4 w3))
          else Some (str_put c4 w3))
       })"

text \<open>\<open>mem\<close> is the memory for a new connection; the length goes to the checksum as a \<open>uint8_t\<close>.\<close>

definition streamtransport_receive ::
    "timeval \<Rightarrow> strclist \<Rightarrow> bytes \<Rightarrow> u16 \<Rightarrow> str_world \<Rightarrow> str_world option" where
  "streamtransport_receive now mem packet srcAddr w =
    (if length packet < 6 then Some w
     else do {
       ok \<leftarrow> tr_checksum_check packet (of_nat (length packet - 6));
       let seqno = tr_packet_getSeqno packet;
       let tid = tr_packet_getTid packet;
       let flag = tr_packet_getFlag packet;
       (if ok < 0 then Some w
        else if flag = STR_FLAG_SYN then str_receive_syn now tid srcAddr seqno mem w
        else if flag = STR_FLAG_FIN then str_receive_fin now tid srcAddr seqno w
        else if flag = STR_FLAG_DATA \<or> flag = STR_FLAG_DATA_RETX
        then str_receive_data now flag tid srcAddr seqno (tr_packet_getPayload packet) w
        else Some w)
     })"

definition STR_Timer_fired :: "timeval \<Rightarrow> strclist \<Rightarrow> str_world \<Rightarrow> str_world option" where
  "STR_Timer_fired now c w =
    (if str_state c = STR_C_S_FINISHED then Some (delete_str_connection c w)
     else if str_state c = STR_C_S_NACK_WAIT \<or> str_state c = STR_C_S_FIN_NACK_WAIT then
       (let c1 = c\<lparr>timeoutCount := timeoutCount c + 1\<rparr>
        in if timeoutCount c1 \<ge> MAX_TIMEOUT_COUNT then Some (delete_str_connection c1 w)
           else if \<not> u16list_isEmpty (missingList c1) then do {
             (r, c2, w2) \<leftarrow> send_NACK c1 w;
             Some (str_put (STR_Timer_start now STR_NACK_TIMEOUT c2) w2)
           }
           else if str_state c1 = STR_C_S_NACK_WAIT then
             Some (str_put (STR_Timer_start now STR_CONNECTION_TIMEOUT (c1\<lparr>str_state := STR_C_S_PASSIVE\<rparr>)) w)
           else str_finish now c1 w)
     else if deletePending c then Some (delete_str_connection c w)
     else Some w)"

definition polling_streamtransport_timer :: "timeval \<Rightarrow> str_world \<Rightarrow> str_world option" where
  "polling_streamtransport_timer now w =
    (case find (\<lambda>c. alarm_due_now c now) (m_strcs w) of
       None \<Rightarrow> Some w
     | Some c \<Rightarrow> STR_Timer_fired now c w)"

section \<open>Order on a window\<close>

lemma tr_cmp_at:
  assumes "in_space 50000 b" "i < j + 200" "j < i + 200"
  shows "tr_seqno_cmp (fwd 50000 b i) (fwd 50000 b j) = (if i = j then 0 else if i < j then -1 else 1)"
proof -
  have less: "tr_seqno_cmp (fwd 50000 b j) (fwd 50000 b i) = 1" if "i < j" "j < i + 200" for i j
    using trs.cmp_fwd_fwd [OF assms(1) that(1)] that by (simp add: consts_defs)
  have anti: "tr_seqno_cmp (fwd 50000 b i) (fwd 50000 b j) = - tr_seqno_cmp (fwd 50000 b j) (fwd 50000 b i)"
    using trs.cmp_antisym [of "fwd 50000 b j" "fwd 50000 b i"] by simp
  show ?thesis
    using less [of i j] less [of j i] anti assms(2,3) trs.cmp_refl by (cases i j rule: linorder_cases) auto
qed

lemma tr_next_at: "in_space 50000 b \<Longrightarrow> tr_seqno_next (fwd 50000 b n) = fwd 50000 b (Suc n)"
  by (simp add: trs.nxt_fwd fwd_fwd)

lemma tr_add_at: "in_space 50000 b \<Longrightarrow> tr_seqno_add (fwd 50000 b n) (of_nat TR_VALID_RANGE) = fwd 50000 b (n + 200)"
  using trs.add_fwd [of "fwd 50000 b n" 200] by (simp add: fwd_fwd consts_defs)

lemma word_seq_at [simp]: "word_of_int (seq_at b k) = fwd 50000 b k"
  by (simp add: seq_at_def)

lemma seq_at_not_minus [simp]: "seq_at b k \<noteq> -1"
  using seq_at_range(1) [of b k] by linarith

section \<open>Delivery in order\<close>

text \<open>
  \<open>b\<close> is the first number of the stream, \<open>n\<close> the position that is handed up next, \<open>ks\<close> the positions
  of the early packets.
\<close>

definition str_holds :: "strclist \<Rightarrow> u16 \<Rightarrow> (nat \<Rightarrow> bytes) \<Rightarrow> nat \<Rightarrow> nat list \<Rightarrow> bool" where
  "str_holds c b data n ks \<longleftrightarrow> in_space 50000 b \<and> nextExpectedSeqNo c = fwd 50000 b n
    \<and> spl_holds (plist c) b data ks \<and> (\<forall>j \<in> set ks. n \<le> j \<and> j < n + 200)"

definition str_near :: "nat \<Rightarrow> nat list \<Rightarrow> nat \<Rightarrow> bool" where
  "str_near n ks k \<longleftrightarrow> n < k + 200 \<and> k < n + 200 \<and> (\<forall>j \<in> set ks. j < k + 200)"

text \<open>A run of consecutive positions from \<open>n\<close> on, and what is left.\<close>

fun run_end :: "nat \<Rightarrow> nat list \<Rightarrow> nat" where
  "run_end n [] = n"
| "run_end n (j # js) = (if j = n then run_end (Suc n) js else n)"

lemma run_end_ge: "n \<le> run_end n ks"
  by (induction n ks rule: run_end.induct) auto

lemma run_end_set:
  "sorted_wrt (<) ks \<Longrightarrow> \<forall>j \<in> set ks. n \<le> j \<Longrightarrow>
    set [n..<run_end n ks] \<subseteq> set ks \<and> run_end n ks \<notin> set ks"
proof (induction n ks rule: run_end.induct)
  case (2 n j js)
  show ?case
  proof (cases "j = n")
    case True
    then have "\<forall>i \<in> set js. Suc n \<le> i" using 2(2) by auto
    then have ih: "set [Suc n..<run_end (Suc n) js] \<subseteq> set js" "run_end (Suc n) js \<notin> set js"
      using 2(1) [OF True] 2(2) by auto
    have "n < run_end (Suc n) js" using run_end_ge [of "Suc n" js] by simp
    then have "[n..<run_end (Suc n) js] = n # [Suc n..<run_end (Suc n) js]" by (rule upt_conv_Cons)
    then show ?thesis using True ih \<open>n < run_end (Suc n) js\<close> by auto
  next
    case False
    then have "n < j" using 2(3) by auto
    then show ?thesis using False 2(2) by auto
  qed
qed simp

definition ups :: "strclist \<Rightarrow> (nat \<Rightarrow> bytes) \<Rightarrow> nat list \<Rightarrow> (u16 \<times> u16 \<times> bytes) list" where
  "ups c data ks = map (\<lambda>k. (c_tid c, c_addr c, data k)) ks"

lemma str_dispatch_run:
  assumes "str_holds c b data n ks" "k < n + 200" "\<forall>j \<in> set ks. j < k + 200"
  shows "\<exists>pl. str_dispatch (fwd 50000 b k) c w
      = Some (c\<lparr>plist := pl, nextExpectedSeqNo := fwd 50000 b (run_end n ks)\<rparr>,
              w\<lparr>str_up := str_up w @ ups c data [n..<run_end n ks]\<rparr>)
    \<and> spl_holds pl b data (filter (\<lambda>j. run_end n ks \<le> j) ks)"
  using assms
proof (induction ks arbitrary: c n w)
  case Nil
  then have "SPList_getFirstValue (plist c) = Some (-1)"
    using spl_first_holds [of "plist c" b data "[]"] by (simp add: str_holds_def)
  then show ?case using Nil(1)
    by (intro exI [of _ "plist c"])
      (simp add: str_dispatch.simps [of _ c] str_holds_def ups_def)
next
  case (Cons j js)
  have h: "in_space 50000 b" "nextExpectedSeqNo c = fwd 50000 b n" "spl_holds (plist c) b data (j # js)"
    "n \<le> j" "j < n + 200" "sorted_wrt (<) (j # js)"
    using Cons.prems(1) by (auto simp: str_holds_def spl_holds_def)
  have first: "SPList_getFirstValue (plist c) = Some (seq_at b j)"
    using spl_first_holds [OF h(3)] by simp
  have cmp: "tr_seqno_cmp (fwd 50000 b j) (fwd 50000 b n) = (if j = n then 0 else 1)"
    using tr_cmp_at [OF h(1), of j n] h by simp
  show ?case
  proof (cases "j = n")
    case True
    obtain l where l: "SPList_deleteFirstPacket (plist c)
        = Some (Some (data j), seq_at b j, int (length (data j)), l)" "spl_holds l b data js"
      using spl_delete_holds [OF h(3)] by blast
    let ?c = "c\<lparr>plist := l, nextExpectedSeqNo := fwd 50000 b (Suc n)\<rparr>"
    let ?w = "receive_streamtransport c (int (length (data j))) (data j) w"
    have "str_holds ?c b data (Suc n) js"
      using l(2) h(1,6) Cons.prems(1) True by (auto simp: str_holds_def)
    moreover have "k < Suc n + 200" "\<forall>j \<in> set js. j < k + 200" using Cons.prems by auto
    ultimately obtain pl where pl: "str_dispatch (fwd 50000 b k) ?c ?w
      = Some (?c\<lparr>plist := pl, nextExpectedSeqNo := fwd 50000 b (run_end (Suc n) js)\<rparr>,
              ?w\<lparr>str_up := str_up ?w @ ups ?c data [Suc n..<run_end (Suc n) js]\<rparr>)"
      "spl_holds pl b data (filter (\<lambda>j. run_end (Suc n) js \<le> j) js)"
      using Cons.IH [of ?c "Suc n" ?w] by blast
    have "n < run_end (Suc n) js" using run_end_ge [of "Suc n" js] by simp
    then have upt: "[n..<run_end (Suc n) js] = n # [Suc n..<run_end (Suc n) js]" by (rule upt_conv_Cons)
    show ?thesis
      using first cmp True l(1) pl h(1,2) \<open>n < run_end (Suc n) js\<close>
      by (intro exI [of _ pl])
        (simp add: str_dispatch.simps [of _ c] tr_next_at receive_streamtransport_def upt ups_def)
  next
    case False
    have "k \<le> j \<or> tr_seqno_cmp (fwd 50000 b k) (fwd 50000 b (j + 200)) = -1"
      using tr_cmp_at [OF h(1), of k "j + 200"] Cons.prems(2) h(4) by (cases "k \<le> j") auto
    moreover have "tr_seqno_cmp (fwd 50000 b k) (fwd 50000 b j) \<le> 0" if "k \<le> j"
      using tr_cmp_at [OF h(1), of k j] that Cons.prems by auto
    ultimately have "str_dispatch (fwd 50000 b k) c w = Some (c, w)"
      using first cmp False h(1,2) by (auto simp: str_dispatch.simps [of _ c] tr_add_at)
    moreover have "filter (\<lambda>i. n \<le> i) (j # js) = j # js"
      using h(4,6) by (auto intro!: filter_True)
    ultimately show ?thesis using False h(2,3)
      by (intro exI [of _ "plist c"]) (simp add: ups_def)
  qed
qed

text \<open>The whole reception of a packet at position \<open>k\<close>.\<close>

lemma ups_timeout [simp]: "ups (c\<lparr>timeoutCount := t\<rparr>) data ks = ups c data ks"
  "ups (c\<lparr>plist := l\<rparr>) data ks = ups c data ks" "ups (c\<lparr>nextExpectedSeqNo := s\<rparr>) data ks = ups c data ks"
  by (simp_all add: ups_def)

definition arrived :: "nat \<Rightarrow> nat list \<Rightarrow> nat \<Rightarrow> nat list" where
  "arrived n ks k = (if k < n \<or> k \<in> set ks then ks else insort k ks)"

lemma receive_str_msg_step:
  assumes h: "str_holds c b data n ks" and n: "n \<notin> set ks" and k: "str_near n ks k"
  defines "n' \<equiv> run_end n (arrived n ks k)"
  shows "\<exists>pl. receive_str_msg c (fwd 50000 b k) (data k) w
      = Some (c\<lparr>timeoutCount := 0, plist := pl, nextExpectedSeqNo := fwd 50000 b n'\<rparr>,
              w\<lparr>str_up := str_up w @ ups c data [n..<n']\<rparr>)
    \<and> spl_holds pl b data (filter (\<lambda>j. n' \<le> j) (arrived n ks k))"
proof -
  let ?c = "c\<lparr>timeoutCount := 0\<rparr>"
  have b: "in_space 50000 b" "nextExpectedSeqNo c = fwd 50000 b n" "spl_holds (plist c) b data ks"
    "sorted_wrt (<) ks" "\<forall>j \<in> set ks. n < j \<and> j < n + 200"
    using h n by (auto simp: str_holds_def spl_holds_def order_le_less)
  have hc: "str_holds ?c b data n ks" using h by (simp add: str_holds_def)
  have near: "\<forall>j \<in> set ks. j < k + 200" "k < n + 200" "n < k + 200" using k by (simp_all add: str_near_def)
  have cmp: "tr_seqno_cmp (fwd 50000 b k) (fwd 50000 b n) = (if k = n then 0 else if k < n then -1 else 1)"
    using near by (intro tr_cmp_at [OF b(1)])
  have uint_at: "uint (fwd 50000 b k) = seq_at b k" by (simp add: seq_at_def)
  note def = receive_str_msg_def Let_def b(2) cmp uint_at trs.cmp_refl
  consider (eq) "k = n" | (old) "k < n" | (dup) "n < k" "k \<in> set ks" | (new) "n < k" "k \<notin> set ks" by linarith
  then show ?thesis
  proof cases
    case eq
    have arr: "arrived n ks k = k # ks"
      using eq n b(5) by (cases ks) (auto simp: arrived_def)
    let ?c1 = "?c\<lparr>nextExpectedSeqNo := fwd 50000 b (Suc n)\<rparr>"
    have "str_holds ?c1 b data (Suc n) ks" using b by (auto simp: str_holds_def)
    from str_dispatch_run [OF this, of k "receive_streamtransport ?c (int (length (data k))) (data k) w"]
    obtain pl where pl: "str_dispatch (fwd 50000 b k) ?c1 (receive_streamtransport ?c (int (length (data k))) (data k) w)
      = Some (?c1\<lparr>plist := pl, nextExpectedSeqNo := fwd 50000 b (run_end (Suc n) ks)\<rparr>,
          w\<lparr>str_up := (str_up w @ [(c_tid c, c_addr c, data k)]) @ ups ?c1 data [Suc n..<run_end (Suc n) ks]\<rparr>)"
      "spl_holds pl b data (filter (\<lambda>j. run_end (Suc n) ks \<le> j) ks)"
      using near by (auto simp: receive_streamtransport_def)
    have n': "n' = run_end (Suc n) ks" "n < n'"
      using run_end_ge [of "Suc n" ks] eq unfolding n'_def arr by simp_all
    then have "[n..<n'] = n # [Suc n..<n']" by (simp add: upt_conv_Cons)
    then show ?thesis using pl n' eq unfolding arr
      by (intro exI [of _ pl]) (simp add: def tr_next_at b(1) ups_def)
  next
    case old
    then have arr: "arrived n ks k = ks" by (simp add: arrived_def)
    show ?thesis using str_dispatch_run [OF hc near(2,1), of w] old unfolding n'_def arr
      by (simp add: def)
  next
    case dup
    then have arr: "arrived n ks k = ks" by (simp add: arrived_def)
    have "SPList_find (plist c) (seq_at b k) = seq_at b k"
      using spl_find_holds [OF b(3), of k] b(5) near dup by fastforce
    then have "\<not> SPList_find (plist c) (seq_at b k) < 0" using seq_at_range(1) [of b k] by simp
    then show ?thesis using str_dispatch_run [OF hc near(2,1), of w] dup unfolding n'_def arr
      by (simp add: def)
  next
    case new
    have arr: "arrived n ks k = insort k ks" using new by (simp add: arrived_def)
    have nr: "near k ks" using b(5) near by fastforce
    have "SPList_find (plist c) (seq_at b k) < 0" using spl_find_holds [OF b(3) nr] new by simp
    moreover obtain l where l: "SPList_insert (plist c) (seq_at b k) (data k) (int (length (data k))) = Some l"
      "spl_holds l b data (insort k ks)" using spl_insert_holds [OF b(3) nr] new by auto
    moreover have "str_holds (?c\<lparr>plist := l\<rparr>) b data n (insort k ks)"
      using b l(2) new near by (auto simp: str_holds_def set_insort_key)
    moreover have "\<forall>j \<in> set (insort k ks). j < k + 200" using near by (simp add: set_insort_key)
    ultimately show ?thesis
      using str_dispatch_run [of "?c\<lparr>plist := l\<rparr>" b data n "insort k ks" k w] near(2) new
      unfolding n'_def arr by (simp add: def)
  qed
qed

section \<open>A sequence of arrivals\<close>

primrec str_feed ::
    "u16 \<Rightarrow> (nat \<Rightarrow> bytes) \<Rightarrow> nat list \<Rightarrow> strclist \<Rightarrow> str_world \<Rightarrow> (strclist \<times> str_world) option" where
  "str_feed b data [] c w = Some (c, w)"
| "str_feed b data (k # arr) c w = do {
     (c', w') \<leftarrow> receive_str_msg c (fwd 50000 b k) (data k) w;
     str_feed b data arr c' w'
   }"

text \<open>The first position that has not arrived.\<close>

definition first_gap :: "nat set \<Rightarrow> nat" where
  "first_gap R = (LEAST n. n \<notin> R)"

lemma first_gap_eqI: "(\<And>i. i < n \<Longrightarrow> i \<in> R) \<Longrightarrow> n \<notin> R \<Longrightarrow> first_gap R = n"
  unfolding first_gap_def by (rule Least_equality) (use not_le in blast)+

lemma first_gap_not_in:
  assumes "finite R"
  shows "first_gap R \<notin> R"
proof -
  obtain m where "m \<notin> R" using assms ex_new_if_finite infinite_UNIV_nat by blast
  then show ?thesis unfolding first_gap_def by (rule LeastI)
qed

lemma below_first_gap: "i < first_gap R \<Longrightarrow> i \<in> R"
  unfolding first_gap_def using not_less_Least by blast

lemma first_gap_mono: "finite S \<Longrightarrow> R \<subseteq> S \<Longrightarrow> first_gap R \<le> first_gap S"
  using below_first_gap [of "first_gap S" R] first_gap_not_in [of S] by (auto simp: not_less [symmetric])

definition str_window :: "nat set \<Rightarrow> nat \<Rightarrow> bool" where
  "str_window R k \<longleftrightarrow> first_gap R < k + 200 \<and> k < first_gap R + 199 \<and> (\<forall>j \<in> R. j < k + 200)"

lemma arrived_set:
  assumes "set ks = {j \<in> R. n < j}" "n \<notin> R" "\<And>i. i < n \<Longrightarrow> i \<in> R"
  shows "set (arrived n ks k) = {j \<in> insert k R. n \<le> j}"
proof -
  have ge: "n \<le> j \<longleftrightarrow> n < j" if "j \<in> R" for j using that assms(2) by (cases "j = n") auto
  consider "k < n" "k \<in> R" | "n \<le> k" "k \<in> set ks" | "n \<le> k" "k \<notin> set ks"
    using assms(3) [of k] by linarith
  then show ?thesis
  proof cases
    case 1
    then show ?thesis using assms(1) ge by (auto simp: arrived_def)
  next
    case 2
    then show ?thesis using assms(1) ge by (auto simp: arrived_def)
  next
    case 3
    then have "set (arrived n ks k) = insert k (set ks)"
      by (simp add: arrived_def set_insort_key)
    then show ?thesis using 3 ge unfolding assms(1) by auto
  qed
qed

lemma arrived_run:
  fixes k :: nat
  assumes "set ks = {j \<in> R. first_gap R < j}" "sorted_wrt (<) ks" "finite R"
  defines "n' \<equiv> run_end (first_gap R) (arrived (first_gap R) ks k)"
  shows "first_gap (insert k R) = n'"
    "set (filter (\<lambda>j. n' \<le> j) (arrived (first_gap R) ks k)) = {j \<in> insert k R. n' < j}"
proof -
  let ?n = "first_gap R" and ?a = "arrived (first_gap R) ks k"
  have s: "set ?a = {j \<in> insert k R. ?n \<le> j}" 
    by (rule arrived_set [OF assms(1) first_gap_not_in [OF assms(3)] below_first_gap])
  have "sorted_wrt (<) ?a"
    using assms(2) by (auto simp: arrived_def intro: sorted_wrt_insort)
  then have r: "set [?n..<n'] \<subseteq> set ?a" "n' \<notin> set ?a"
    using run_end_set [of ?a ?n] s unfolding n'_def by auto
  have ge: "?n \<le> n'" unfolding n'_def by (rule run_end_ge)
  then have out: "n' \<notin> insert k R" using r(2) unfolding s by blast
  show "first_gap (insert k R) = n'"
  proof (rule first_gap_eqI [OF _ out])
    fix i assume "i < n'"
    then have "i < ?n \<or> i \<in> set ?a" using r(1) by (auto simp: subset_iff not_less)
    then show "i \<in> insert k R" using below_first_gap [of i R] unfolding s by auto
  qed
  show "set (filter (\<lambda>j. n' \<le> j) ?a) = {j \<in> insert k R. n' < j}"
    using out ge unfolding set_filter s by (auto simp: order_le_less)
qed

text \<open>The whole reception as a step on the set of positions that have arrived.\<close>

lemma receive_str_msg_set:
  assumes h: "str_holds c b data (first_gap R) ks" "set ks = {j \<in> R. first_gap R < j}" "finite R"
    and win: "str_window R k"
  shows "\<exists>pl ks'. receive_str_msg c (fwd 50000 b k) (data k) w
      = Some (c\<lparr>timeoutCount := 0, plist := pl, nextExpectedSeqNo := fwd 50000 b (first_gap (insert k R))\<rparr>,
              w\<lparr>str_up := str_up w @ ups c data [first_gap R..<first_gap (insert k R)]\<rparr>)
    \<and> first_gap R \<le> first_gap (insert k R)
    \<and> str_holds (c\<lparr>timeoutCount := 0, plist := pl, nextExpectedSeqNo := fwd 50000 b (first_gap (insert k R))\<rparr>)
        b data (first_gap (insert k R)) ks'
    \<and> set ks' = {j \<in> insert k R. first_gap (insert k R) < j}"
proof -
  have near: "str_near (first_gap R) ks k"
    using win h(2) by (auto simp: str_window_def str_near_def)
  have n: "first_gap R \<notin> set ks" using h(2) by simp
  have srt: "sorted_wrt (<) ks" using h(1) by (simp add: str_holds_def spl_holds_def)
  let ?a = "arrived (first_gap R) ks k" and ?R = "insert k R"
  define n' where "n' = run_end (first_gap R) ?a"
  have g: "first_gap ?R = n'" "set (filter (\<lambda>j. n' \<le> j) ?a) = {j \<in> ?R. n' < j}"
    using arrived_run [OF h(2) srt h(3)] unfolding n'_def by blast+
  obtain pl where pl: "receive_str_msg c (fwd 50000 b k) (data k) w
      = Some (c\<lparr>timeoutCount := 0, plist := pl, nextExpectedSeqNo := fwd 50000 b n'\<rparr>,
              w\<lparr>str_up := str_up w @ ups c data [first_gap R..<n']\<rparr>)"
    "spl_holds pl b data (filter (\<lambda>j. n' \<le> j) ?a)"
    using receive_str_msg_step [OF h(1) n near] unfolding n'_def by blast
  let ?c = "c\<lparr>timeoutCount := 0, plist := pl, nextExpectedSeqNo := fwd 50000 b n'\<rparr>"
  have le: "first_gap R \<le> n'" unfolding n'_def by (rule run_end_ge)
  have "\<forall>j \<in> ?R. first_gap R \<le> j \<longrightarrow> j < first_gap R + 200"
    using h(1,2) win by (auto simp: str_holds_def str_window_def order_le_less)
  then have "\<forall>j \<in> {j \<in> ?R. n' < j}. n' \<le> j \<and> j < n' + 200" using le by fastforce
  then have "str_holds ?c b data n' (filter (\<lambda>j. n' \<le> j) ?a)"
    using h(1) pl(2) unfolding str_holds_def g(2) by simp
  then show ?thesis using pl(1) le g(2) unfolding g(1)
    by (intro exI [of _ pl] exI [of _ "filter (\<lambda>j. n' \<le> j) ?a"]) simp
qed

lemma ups_append:
  "a \<le> m \<Longrightarrow> m \<le> e \<Longrightarrow> ups c data [a..<m] @ ups c data [m..<e] = ups c data [a..<e]"
  using upt_add_eq_append [of a m "e - m"] by (simp add: ups_def flip: map_append)

lemma str_feed_in_order:
  assumes "str_holds c b data (first_gap R) ks" "set ks = {j \<in> R. first_gap R < j}" "finite R"
    and "\<forall>i < length arr. str_window (R \<union> set (take i arr)) (arr ! i)"
  shows "\<exists>c' w' ks'. str_feed b data arr c w = Some (c', w')
    \<and> str_holds c' b data (first_gap (R \<union> set arr)) ks'
    \<and> set ks' = {j \<in> R \<union> set arr. first_gap (R \<union> set arr) < j}
    \<and> str_up w' = str_up w @ ups c data [first_gap R..<first_gap (R \<union> set arr)]
    \<and> first_gap R \<le> first_gap (R \<union> set arr)
    \<and> c_tid c' = c_tid c \<and> c_addr c' = c_addr c"
  using assms
proof (induction arr arbitrary: R c w ks)
  case Nil
  then show ?case by (auto simp: ups_def)
next
  case (Cons k arr)
  let ?R = "insert k R"
  have win: "str_window R k" using Cons.prems(4) by (auto dest: spec [of _ 0])
  from receive_str_msg_set [OF Cons.prems(1-3) win, of w]
  obtain pl ks1 where pl: "receive_str_msg c (fwd 50000 b k) (data k) w
      = Some (c\<lparr>timeoutCount := 0, plist := pl, nextExpectedSeqNo := fwd 50000 b (first_gap ?R)\<rparr>,
              w\<lparr>str_up := str_up w @ ups c data [first_gap R..<first_gap ?R]\<rparr>)"
    "first_gap R \<le> first_gap ?R"
    "str_holds (c\<lparr>timeoutCount := 0, plist := pl, nextExpectedSeqNo := fwd 50000 b (first_gap ?R)\<rparr>)
        b data (first_gap ?R) ks1"
    "set ks1 = {j \<in> ?R. first_gap ?R < j}"
    by (elim exE conjE) (rule that)
  let ?c = "c\<lparr>timeoutCount := 0, plist := pl, nextExpectedSeqNo := fwd 50000 b (first_gap ?R)\<rparr>"
  let ?w = "w\<lparr>str_up := str_up w @ ups c data [first_gap R..<first_gap ?R]\<rparr>"
  have fin: "finite ?R" using Cons.prems(3) by simp
  have w': "\<forall>i < length arr. str_window (?R \<union> set (take i arr)) (arr ! i)"
    using Cons.prems(4) by (auto dest: spec [of _ "Suc _"])
  obtain c' w' ks' where r: "str_feed b data arr ?c ?w = Some (c', w')"
    "str_holds c' b data (first_gap (?R \<union> set arr)) ks'"
    "set ks' = {j \<in> ?R \<union> set arr. first_gap (?R \<union> set arr) < j}"
    "str_up w' = str_up ?w @ ups ?c data [first_gap ?R..<first_gap (?R \<union> set arr)]"
    "first_gap ?R \<le> first_gap (?R \<union> set arr)" "c_tid c' = c_tid ?c" "c_addr c' = c_addr ?c"
    using Cons.IH [OF pl(3,4) fin w', of ?w] by (elim exE conjE) (rule that)
  show ?case using r pl(1,2) ups_append [OF pl(2) r(5), of c data]
    by (intro exI [of _ c'] exI [of _ w'] exI [of _ ks']) simp
qed

section \<open>Detection of missing packets\<close>

lemma fwd_not_ffff [simp]: "fwd 50000 b k \<noteq> 0xffff"
proof
  assume "fwd 50000 b k = 0xffff"
  then have "unat (fwd 50000 b k) = 65535" by simp
  then show False using fwd_in_space [of 50000 b k] by (simp add: in_space_def)
qed

lemma detect_loop_spec:
  assumes "in_space 50000 b" "tr_seqno_next lastSeqNo = fwd 50000 b m" "m < k" "k < m + 200" "ul_inv ml"
    and "\<forall>i \<in> {m..<k}. fwd 50000 b i \<notin> set (ul_values ml)"
  shows "\<exists>ml'. detect_loop (fwd 50000 b k) lastSeqNo ml n = Some (ml', n + (k - m)) \<and> ul_inv ml'
    \<and> ul_values ml' = ul_values ml @ map (fwd 50000 b) [m..<k]"
  using assms(2-)
proof (induction "k - m" arbitrary: m lastSeqNo ml n)
  case (Suc d)
  have nx: "tr_seqno_next (fwd 50000 b m) = fwd 50000 b (Suc m)" by (rule tr_next_at [OF assms(1)])
  obtain l where l: "u16list_insert ml (fwd 50000 b m) = Some l" "ul_inv l"
    "ul_values l = ul_values ml @ [fwd 50000 b m]"
    using ul_insert [OF Suc.prems(4), of "fwd 50000 b m"] Suc.prems(2,5) by auto
  have cmp: "tr_seqno_cmp (fwd 50000 b k) (fwd 50000 b (Suc m)) = (if k = Suc m then 0 else 1)"
    using tr_cmp_at [OF assms(1), of k "Suc m"] Suc.prems(2,3) by auto
  show ?case
  proof (cases "k = Suc m")
    case True
    then show ?thesis using l cmp Suc.prems(1) nx by (simp add: detect_loop.simps [of _ lastSeqNo])
  next
    case False
    have "fwd 50000 b i \<noteq> fwd 50000 b m" if "i \<in> {Suc m..<k}" for i
      using tr_cmp_at [OF assms(1), of i m] that Suc.prems(3) trs.cmp_refl [of "fwd 50000 b m"] by auto
    then have new: "\<forall>i \<in> {Suc m..<k}. fwd 50000 b i \<notin> set (ul_values l)"
      using Suc.prems(5) l(3) by auto
    have "d = k - Suc m" "Suc m < k" "k < Suc m + 200" using Suc.hyps(2) Suc.prems(2,3) False by auto
    from Suc.hyps(1) [OF this(1) nx this(2,3) l(2) new, of "n + 1"]
    obtain ml' where r: "detect_loop (fwd 50000 b k) (fwd 50000 b m) l (n + 1) = Some (ml', n + 1 + (k - Suc m))"
      "ul_inv ml'" "ul_values ml' = ul_values l @ map (fwd 50000 b) [Suc m..<k]" by blast
    have "[m..<k] = m # [Suc m..<k]" using Suc.prems(2) by (simp add: upt_conv_Cons)
    moreover have "n + 1 + (k - Suc m) = n + (k - m)" using Suc.prems(2) by simp
    moreover have "detect_loop (fwd 50000 b k) lastSeqNo ml n = detect_loop (fwd 50000 b k) (fwd 50000 b m) l (n + 1)"
      using l(1) cmp False Suc.prems(1) nx by (simp add: detect_loop.simps [of _ lastSeqNo])
    ultimately show ?thesis using r l(3) by simp
  qed
qed simp

section \<open>The contents of a NACK\<close>

abbreviation nack_void :: "u16 \<Rightarrow> u16 \<Rightarrow> bool" where
  "nack_void seq v \<equiv> tr_seqno_cmp seq (tr_seqno_add v (of_nat TR_VALID_RANGE)) \<ge> 0"

lemma ul_length_values: "ul_inv l \<Longrightarrow> ul_length l = int (length (ul_values l))"
  by (simp add: ul_inv_def ul_values_def)

lemma get16le_put16le_other:
  "i + 1 < j \<or> j + 1 < i \<Longrightarrow> get16le (put16le p i v) j = get16le p j"
  by (auto simp: get16le_def get8_put16le)

lemma get16le_put8_other:
  "i < j \<or> j + 1 < i \<Longrightarrow> get16le (put8 p i v) j = get16le p j"
  by (auto simp: get16le_def get8_put8)

lemma nack_loop_fill:
  assumes "ul_inv ml" "\<forall>v \<in> set (ul_values ml). \<not> nack_void seq v" "length p = 16" "i \<le> 5"
  shows "\<exists>p'. nack_loop seq ml p i = Some (ml, p') \<and> length p' = 16
    \<and> (\<forall>j < i. get16le p' (6 + 2 * j) = get16le p (6 + 2 * j))
    \<and> (\<forall>j \<in> {i..<5}. get16le p' (6 + 2 * j)
          = (if j < length (ul_values ml) then ul_values ml ! j else 0))"
  using assms(3,4)
proof (induction "5 - i" arbitrary: i p)
  case 0
  then show ?case by (intro exI [of _ p]) (simp add: nack_loop.simps [of seq ml p 5] consts_defs)
next
  case (Suc d)
  have i: "i < 5" "d = 5 - Suc i" using Suc.hyps(2) by auto
  define q where "q = (if i < length (ul_values ml) then put16le p (6 + 2 * i) (ul_values ml ! i)
    else put8 (put8 p (6 + 2 * i) 0) (6 + 2 * i + 1) 0)"
  have q: "length q = 16" using Suc.prems by (simp add: q_def)
  have "nack_loop seq ml p i = nack_loop seq ml q (Suc i)"
  proof (cases "i < length (ul_values ml)")
    case True
    have "u16list_get_ith ml (of_nat (i + 1)) = Some (ul_values ml ! i)"
      using ul_get_ith [OF assms(1), of "i + 1"] True i by simp
    moreover have "\<not> nack_void seq (ul_values ml ! i)" using True assms(2) by simp
    ultimately show ?thesis using True i ul_length_values [OF assms(1)]
      by (simp add: nack_loop.simps [of seq ml p i] q_def consts_defs)
  next
    case False
    then show ?thesis using i ul_length_values [OF assms(1)]
      by (simp add: nack_loop.simps [of seq ml p i] q_def consts_defs)
  qed
  moreover obtain p' where p': "nack_loop seq ml q (Suc i) = Some (ml, p')" "length p' = 16"
    "\<forall>j < Suc i. get16le p' (6 + 2 * j) = get16le q (6 + 2 * j)"
    "\<forall>j \<in> {Suc i..<5}. get16le p' (6 + 2 * j) = (if j < length (ul_values ml) then ul_values ml ! j else 0)"
    using Suc.hyps(1) [OF i(2) q] i by auto
  moreover have "get16le q (6 + 2 * j) = get16le p (6 + 2 * j)" if "j < i" for j
    using that by (simp add: q_def get16le_put16le_other get16le_put8_other)
  moreover have "get16le q (6 + 2 * i) = (if i < length (ul_values ml) then ul_values ml ! i else 0)"
    using Suc.prems i by (simp add: q_def) (simp add: get16le_def get8_put8 mk16_def)
  moreover have "j = i \<or> j \<in> {Suc i..<5}" if "j \<in> {i..<5}" for j using that by auto
  ultimately show ?case by (intro exI [of _ p']) (metis lessI less_SucI)
qed

lemma nack_loop_drop:
  assumes "ul_inv ml" "\<forall>v \<in> set (dropWhile (nack_void seq) (ul_values ml)). \<not> nack_void seq v"
    and "length p = 16"
  shows "\<exists>ml' p'. nack_loop seq ml p 0 = Some (ml', p') \<and> length p' = 16 \<and> ul_inv ml'
    \<and> ul_values ml' = dropWhile (nack_void seq) (ul_values ml)
    \<and> (\<forall>j < 5. get16le p' (6 + 2 * j)
          = (if j < length (ul_values ml') then ul_values ml' ! j else 0))"
  using assms(1,2)
proof (induction "length (ul_values ml)" arbitrary: ml)
  case 0
  then show ?case using nack_loop_fill [of ml seq p 0] assms(3) by auto
next
  case (Suc d)
  obtain v vs where v: "ul_values ml = v # vs" using Suc.hyps(2) by (cases "ul_values ml") auto
  show ?case
  proof (cases "nack_void seq v")
    case True
    have get: "u16list_get_ith ml (of_nat (0 + 1)) = Some v"
      using ul_get_ith [OF Suc.prems(1), of 1] v by simp
    obtain l where l: "u16list_delete ml v = Some (v, l)" "ul_inv l" "ul_values l = vs"
      using ul_delete [OF Suc.prems(1), of v] v by auto
    have d: "d = length (ul_values l)" using Suc.hyps(2) v l(3) by simp
    have dw: "dropWhile (nack_void seq) (ul_values ml) = dropWhile (nack_void seq) vs"
      unfolding v by (rule dropWhile.simps(2) [THEN trans]) (simp add: True)
    have nv: "\<forall>x \<in> set (dropWhile (nack_void seq) (ul_values l)). \<not> nack_void seq x"
      using Suc.prems(2) unfolding dw l(3) .
    obtain ml' p' where r: "nack_loop seq l p 0 = Some (ml', p')" "length p' = 16" "ul_inv ml'"
      "ul_values ml' = dropWhile (nack_void seq) vs"
      "\<forall>j < 5. get16le p' (6 + 2 * j) = (if j < length (ul_values ml') then ul_values ml' ! j else 0)"
      using Suc.hyps(1) [OF d l(2) nv, unfolded l(3)] by (elim exE conjE) (rule that)
    have "nack_loop seq ml p 0 = nack_loop seq l p 0"
      using get True l(1) ul_length_values [OF Suc.prems(1)] v
      by (simp add: nack_loop.simps [of seq ml p 0] consts_defs)
    then show ?thesis using r unfolding dw by (intro exI [of _ ml'] exI [of _ p']) simp
  next
    case False
    then have dw: "dropWhile (nack_void seq) (ul_values ml) = ul_values ml" by (simp add: v)
    have "\<forall>x \<in> set (ul_values ml). \<not> nack_void seq x" using Suc.prems(2) unfolding dw .
    from nack_loop_fill [OF Suc.prems(1) this assms(3), of 0]
    obtain p' where "nack_loop seq ml p 0 = Some (ml, p')" "length p' = 16"
      "\<forall>j \<in> {0..<5}. get16le p' (6 + 2 * j) = (if j < length (ul_values ml) then ul_values ml ! j else 0)"
      by auto
    then show ?thesis using Suc.prems(1) unfolding dw by (intro exI [of _ ml] exI [of _ p']) auto
  qed
qed

lemma nack_void_at:
  assumes "in_space 50000 b" "i < L" "L < i + 400"
  shows "nack_void (fwd 50000 b L) (fwd 50000 b i) \<longleftrightarrow> i + 200 \<le> L"
  using tr_cmp_at [OF assms(1), of L "i + 200"] assms(2,3) by (simp add: tr_add_at assms(1))

lemma dropWhile_filter_sorted:
  "sorted_wrt (<) (ms :: nat list) \<Longrightarrow> dropWhile (\<lambda>i. i + k \<le> n) ms = filter (\<lambda>i. n < i + k) ms"
proof (induction ms)
  case (Cons i ms)
  show ?case
  proof (cases "i + k \<le> n")
    case False
    then have "\<forall>j \<in> set (i # ms). n < j + k" using Cons.prems by auto
    then show ?thesis using False by (metis filter_True dropWhile.simps(2))
  qed (use Cons in simp)
qed simp

lemma send_NACK_spec:
  assumes b: "in_space 50000 b" and ml: "ul_inv (missingList c)" "ul_values (missingList c) = map (fwd 50000 b) ms"
    and ms: "sorted_wrt (<) ms" "ms \<noteq> []" "\<forall>i \<in> set ms. i < L \<and> L < i + 400"
    and L: "lastRecvSeqNo c = fwd 50000 b L"
  defines "ks \<equiv> filter (\<lambda>i. L < i + 200) ms"
  shows "\<exists>l p. send_NACK c w = Some (1, c\<lparr>missingList := l\<rparr>, str_write (c_addr c) p w)
    \<and> ul_inv l \<and> ul_values l = map (fwd 50000 b) ks
    \<and> tr_packet_getTid p = c_tid c \<and> tr_packet_getSeqno p = fwd 50000 b L
    \<and> tr_packet_getFlag p = STR_FLAG_NACK \<and> tr_checksum_check p 10 = Some 1
    \<and> (\<forall>j < 5. get16le p (6 + 2 * j) = (if j < length ks then fwd 50000 b (ks ! j) else 0))"
proof -
  let ?v = "nack_void (fwd 50000 b L)"
  have "dropWhile ?v (map (fwd 50000 b) ms) = map (fwd 50000 b) (dropWhile (?v \<circ> fwd 50000 b) ms)"
    by (rule dropWhile_map)
  also have "dropWhile (?v \<circ> fwd 50000 b) ms = dropWhile (\<lambda>i. i + 200 \<le> L) ms"
    using nack_void_at [OF b] ms(3) by (intro dropWhile_cong) auto
  also have "\<dots> = ks" unfolding ks_def by (rule dropWhile_filter_sorted [OF ms(1)])
  finally have dw: "dropWhile ?v (ul_values (missingList c)) = map (fwd 50000 b) ks" unfolding ml(2) .
  have "\<forall>i \<in> set ks. \<not> ?v (fwd 50000 b i)"
    using nack_void_at [OF b] ms(3) unfolding ks_def by auto
  then have nv: "\<forall>x \<in> set (dropWhile ?v (ul_values (missingList c))). \<not> ?v x" unfolding dw by simp
  have "length (replicate 16 (0 :: u8)) = 16" by simp
  from nack_loop_drop [OF ml(1) nv this]
  obtain l p where lp: "nack_loop (fwd 50000 b L) (missingList c) (replicate 16 0) 0 = Some (l, p)"
    "length p = 16" "ul_inv l" "ul_values l = map (fwd 50000 b) ks"
    "\<forall>j < 5. get16le p (6 + 2 * j) = (if j < length (ul_values l) then ul_values l ! j else 0)"
    unfolding dw by (elim exE conjE) (rule that)
  have "length p = 6 + unat (10 :: u8)" "unat (10 :: u8) < 250" using lp(2) by simp_all
  from seal_packet [OF this, of "c_tid c" "fwd 50000 b L" STR_FLAG_NACK]
  obtain s q where sq: "tr_calculate_checksum (tr_packet_setHeader p (c_tid c) (fwd 50000 b L) STR_FLAG_NACK 0) 10 = Some s"
    "q = put8 (tr_packet_setHeader p (c_tid c) (fwd 50000 b L) STR_FLAG_NACK 0) 5 s"
    "tr_checksum_check q 10 = Some 1" "tr_packet_getTid q = c_tid c" "tr_packet_getSeqno q = fwd 50000 b L"
    "tr_packet_getFlag q = STR_FLAG_NACK" "tr_packet_getPayload q = drop 6 p" "length q = length p"
    by (elim exE conjE) (rule that)
  have "\<not> u16list_isEmpty (missingList c)" using ul_isEmpty [OF ml(1)] ml(2) ms(2) by simp
  then have send: "send_NACK c w = Some (1, c\<lparr>missingList := l\<rparr>, str_write (c_addr c) q w)"
    using lp(1) sq(1,2) by (simp add: send_NACK_def L STR_NACK_MLIST_LEN_def)
  have same: "get16le q (6 + 2 * j) = get16le p (6 + 2 * j)" for j
    unfolding sq(2) tr_packet_setHeader_def by (simp add: get16le_def get8_puts)
  have "\<forall>j < 5. get16le q (6 + 2 * j) = (if j < length ks then fwd 50000 b (ks ! j) else 0)"
    using lp(5) unfolding same lp(4) by simp
  then show ?thesis using send lp(3,4) sq(3-6) by (intro exI [of _ l] exI [of _ q]) simp
qed

section \<open>A connection that has received the positions R\<close>

definition seen :: "nat set \<Rightarrow> nat" where
  "seen R = (if R = {} then 0 else Suc (Max R))"

text \<open>The last number received is the one before position \<open>m\<close>; 0 before the first number 1.\<close>

definition last_at :: "u16 \<Rightarrow> u16 \<Rightarrow> nat \<Rightarrow> bool" where
  "last_at seqno b m \<longleftrightarrow>
    (if m = 0 then b = 1 \<and> seqno = 0 \<or> seqno = fwd 50000 b 49999 else seqno = fwd 50000 b (m - 1))"

definition str_conn :: "strclist \<Rightarrow> u16 \<Rightarrow> (nat \<Rightarrow> bytes) \<Rightarrow> nat set \<Rightarrow> bool" where
  "str_conn c b data R \<longleftrightarrow> finite R \<and> last_at (lastRecvSeqNo c) b (seen R)
    \<and> (\<exists>ks. str_holds c b data (first_gap R) ks \<and> set ks = {j \<in> R. first_gap R < j})
    \<and> ul_inv (missingList c)
    \<and> (\<exists>ms. ul_values (missingList c) = map (fwd 50000 b) ms \<and> sorted_wrt (<) ms
          \<and> set ms = {..<seen R} - R)"

lemma seen_bound: "finite R \<Longrightarrow> j \<in> R \<Longrightarrow> j < seen R"
  by (auto simp: seen_def less_Suc_eq_le)

lemma seen_not_in: "finite R \<Longrightarrow> seen R \<notin> R"
  using seen_bound by blast

lemma first_gap_le_seen: "finite R \<Longrightarrow> first_gap R \<le> seen R"
  using below_first_gap [of "seen R" R] seen_not_in [of R] by (cases "seen R < first_gap R") auto

lemma seen_insert: "finite R \<Longrightarrow> seen (insert k R) = max (seen R) (Suc k)"
  by (cases "R = {}") (simp_all add: seen_def max.commute)

lemma seen_in: "0 < seen R \<Longrightarrow> finite R \<Longrightarrow> seen R - 1 \<in> R"
  by (auto simp: seen_def split: if_splits)

lemma fwd_round: "fwd 50000 (fwd 50000 b 49999) (Suc k) = fwd 50000 b k"
proof -
  have "unat b - 1 + (50000 + k) = (unat b - 1 + k) + 50000" by simp
  then have "(unat b - 1 + (50000 + k)) mod 50000 = (unat b - 1 + k) mod 50000"
    by (metis mod_add_self2)
  then show ?thesis by (simp add: fwd_fwd word_eq_unat unat_fwd)
qed

lemma last_at_cmp:
  assumes b: "in_space 50000 b" and l: "last_at s b m" and k: "k < m + 199" "m < k + 201"
  shows "tr_seqno_cmp (fwd 50000 b k) s > 0 \<longleftrightarrow> m \<le> k" "tr_seqno_next s = fwd 50000 b m"
proof -
  have "(tr_seqno_cmp (fwd 50000 b k) s > 0 \<longleftrightarrow> m \<le> k) \<and> tr_seqno_next s = fwd 50000 b m"
  proof (cases m)
    case (Suc i)
    then show ?thesis
      using l k tr_cmp_at [OF b, of k i] tr_next_at [OF b, of i] by (auto simp: last_at_def)
  next
    case 0
    then consider "b = 1" "s = 0" | "s = fwd 50000 b 49999" using l by (auto simp: last_at_def)
    then show ?thesis
    proof cases
      case 1
      have u: "unat (fwd 50000 1 k) = Suc k" using k 0 by (simp add: unat_fwd)
      then have "fwd 50000 1 k \<noteq> 0" "\<not> fwd 50000 1 k < 0" by auto
      then have "tr_seqno_cmp (fwd 50000 1 k) 0 = 1"
        using u k 0 by (simp add: tr_seqno_cmp_def consts_defs)
      moreover have "tr_seqno_next 0 = fwd 50000 1 0"
        by (simp add: word_eq_unat unat_fwd unat_tr_seqno_next)
      ultimately show ?thesis using 1 0 by simp
    next
      case 2
      let ?b = "fwd 50000 b 49999"
      have "tr_seqno_cmp (fwd 50000 ?b (Suc k)) (fwd 50000 ?b 0) = 1"
        using tr_cmp_at [of ?b "Suc k" 0] k 0 by simp
      then have "tr_seqno_cmp (fwd 50000 b k) ?b = 1" using b by (simp add: fwd_round fwd_0)
      moreover have "tr_seqno_next ?b = fwd 50000 b 0"
        using tr_next_at [OF b, of 49999] fwd_round [of b 0] b by (simp add: fwd_fwd)
      ultimately show ?thesis using 2 0 by simp
    qed
  qed
  then show "tr_seqno_cmp (fwd 50000 b k) s > 0 \<longleftrightarrow> m \<le> k" "tr_seqno_next s = fwd 50000 b m"
    by simp_all
qed

lemma fwd_eq_near: "in_space 50000 b \<Longrightarrow> i < j + 200 \<Longrightarrow> j < i + 200 \<Longrightarrow>
    fwd 50000 b i = fwd 50000 b j \<longleftrightarrow> i = j"
  using tr_cmp_at [of b i j] trs.cmp_refl [of "fwd 50000 b j"] by (auto split: if_splits)

lemma remove1_map_fwd:
  assumes "in_space 50000 b" "\<forall>i \<in> set ms. i < k + 200 \<and> k < i + 200"
  shows "remove1 (fwd 50000 b k) (map (fwd 50000 b) ms) = map (fwd 50000 b) (remove1 k ms)"
  using assms(2)
proof (induction ms)
  case (Cons i ms)
  then show ?case using fwd_eq_near [OF assms(1), of i k] by auto
qed simp

text \<open>First half of the handler: what is missing after the packet at \<open>k\<close>.\<close>

lemma data_detect:
  assumes c: "str_conn c b data R" and win: "str_window R k"
  shows "\<exists>n l. (if tr_seqno_cmp (fwd 50000 b k) (lastRecvSeqNo c) > 0 then do {
             (n, c1) \<leftarrow> detectMissingPacket (fwd 50000 b k) c;
             Some (n, c1\<lparr>lastRecvSeqNo := fwd 50000 b k\<rparr>)
           } else Some (0, c))
      = Some (n, c\<lparr>missingList := l, totalLostPackets := totalLostPackets c + n,
                  lastRecvSeqNo := (if seen R \<le> k then fwd 50000 b k else lastRecvSeqNo c)\<rparr>)
    \<and> n = k - seen R \<and> ul_inv l \<and> (\<exists>ms. ul_values l = map (fwd 50000 b) ms \<and> sorted_wrt (<) ms
        \<and> set ms = ({..<seen R} \<union> {seen R..<k}) - R)"
proof -
  obtain ks ms where h: "in_space 50000 b" "finite R" "last_at (lastRecvSeqNo c) b (seen R)"
    "ul_inv (missingList c)" "ul_values (missingList c) = map (fwd 50000 b) ms" "sorted_wrt (<) ms"
    "set ms = {..<seen R} - R"
    using c by (auto simp: str_conn_def str_holds_def)
  have gap: "first_gap R \<le> seen R" by (rule first_gap_le_seen [OF h(2)])
  have sk: "seen R < k + 201"
  proof (cases "seen R = 0")
    case False
    then show ?thesis using seen_in [of R] h(2) win by (auto simp: str_window_def dest!: bspec)
  qed simp
  have k: "k < seen R + 199" "first_gap R < k + 200" "k < first_gap R + 199"
    using win gap by (simp_all add: str_window_def)
  note lc = last_at_cmp [OF h(1,3) k(1) sk]
  show ?thesis
  proof (cases "seen R < k")
    case True
    have cmp: "tr_seqno_cmp (fwd 50000 b k) (fwd 50000 b (seen R)) = 1"
      using tr_cmp_at [OF h(1), of k "seen R"] True k by simp
    have "fwd 50000 b i \<noteq> fwd 50000 b j" if "i \<in> {seen R..<k}" "j \<in> set ms" for i j
    proof -
      have "first_gap R \<le> j" using that(2) below_first_gap [of j R] h(7) by (auto simp: not_less [symmetric])
      then show ?thesis using fwd_eq_near [OF h(1), of i j] that k h(7) by auto
    qed
    then have new: "\<forall>i \<in> {seen R..<k}. fwd 50000 b i \<notin> set (ul_values (missingList c))"
      unfolding h(5) by auto
    have lt: "k < seen R + 200" using k by simp
    obtain l where l: "detect_loop (fwd 50000 b k) (lastRecvSeqNo c) (missingList c) 0 = Some (l, 0 + (k - seen R))"
      "ul_inv l" "ul_values l = ul_values (missingList c) @ map (fwd 50000 b) [seen R..<k]"
      using detect_loop_spec [OF h(1) lc(2) True lt h(4) new] by blast
    have "sorted_wrt (<) (ms @ [seen R..<k])" using h(6,7) by (auto simp: sorted_wrt_append)
    moreover have "set (ms @ [seen R..<k]) = ({..<seen R} \<union> {seen R..<k}) - R"
      using h(7) seen_bound [OF h(2)] by fastforce
    moreover have "ul_values l = map (fwd 50000 b) (ms @ [seen R..<k])" using l(3) h(5) by simp
    ultimately have ex: "\<exists>ms. ul_values l = map (fwd 50000 b) ms \<and> sorted_wrt (<) ms
        \<and> set ms = ({..<seen R} \<union> {seen R..<k}) - R" by blast
    show ?thesis using lc l(1,2) True cmp
      by (intro exI [of _ "k - seen R"] exI [of _ l] conjI ex) (auto simp: detectMissingPacket_def)
  next
    case False
    then have "\<not> tr_seqno_cmp (fwd 50000 b k) (fwd 50000 b (seen R)) > 0" if "seen R \<le> k"
      using that trs.cmp_refl by (simp add: order_le_less)
    then show ?thesis using lc h(4-7) False
      by (intro exI [of _ 0] exI [of _ "missingList c"]) (auto simp: detectMissingPacket_def)
  qed
qed

text \<open>Second: the number itself leaves the list.\<close>

lemma missing_near:
  assumes "finite R" "str_window R k" "i \<in> ({..<seen R} \<union> {seen R..<k}) - R"
  shows "i < k + 200" "k < i + 200" "first_gap R \<le> i"
proof -
  show g: "first_gap R \<le> i" using assms(3) below_first_gap [of i R] by (auto simp: not_less [symmetric])
  then show "k < i + 200" using assms(2) by (simp add: str_window_def)
  show "i < k + 200"
  proof (cases "i < seen R")
    case True
    then have "seen R - 1 \<in> R" using seen_in [of R] assms(1) by simp
    then have "seen R - 1 < k + 200" using assms(2) by (simp add: str_window_def)
    then show ?thesis using True by simp
  qed (use assms(3) in auto)
qed

lemma data_delete:
  assumes b: "in_space 50000 b" and R: "finite R" "str_window R k"
    and l: "ul_inv (missingList c)" "ul_values (missingList c) = map (fwd 50000 b) ms" "sorted_wrt (<) ms"
      "set ms = ({..<seen R} \<union> {seen R..<k}) - R"
    and retx: "retx \<or> seen R \<le> k \<or> k \<in> R"
  shows "\<exists>l. (if retx then do {
           r \<leftarrow> u16list_delete (missingList c) (fwd 50000 b k);
           Some (c\<lparr>missingList := snd r\<rparr>)
         } else Some c) = Some (c\<lparr>missingList := l\<rparr>)
    \<and> ul_inv l \<and> (\<exists>ms. ul_values l = map (fwd 50000 b) ms \<and> sorted_wrt (<) ms
        \<and> set ms = {..<seen (insert k R)} - insert k R)"
proof -
  have near: "\<forall>i \<in> set ms. i < k + 200 \<and> k < i + 200"
    using missing_near [OF R] unfolding l(4) by blast
  have dist: "distinct ms" using l(3) by (simp add: strict_sorted_iff)
  have set': "set ms - {k} = {..<seen (insert k R)} - insert k R"
    unfolding l(4) seen_insert [OF R(1)] by auto
  show ?thesis
  proof (cases retx)
    case True
    obtain l' where l': "u16list_delete (missingList c) (fwd 50000 b k)
        = Some (if fwd 50000 b k \<in> set (ul_values (missingList c)) then fwd 50000 b k else 0xffff, l')"
      "ul_inv l'" "ul_values l' = remove1 (fwd 50000 b k) (ul_values (missingList c))"
      using ul_delete [OF l(1)] by blast
    have "ul_values l' = map (fwd 50000 b) (remove1 k ms)"
      using l'(3) remove1_map_fwd [OF b near] l(2) by simp
    moreover have "sorted_wrt (<) (remove1 k ms)"
      using l(3) by (simp add: strict_sorted_iff sorted_remove1)
    moreover have "set (remove1 k ms) = {..<seen (insert k R)} - insert k R"
      using set_remove1_eq [OF dist] set' by simp
    ultimately have ex: "\<exists>ms. ul_values l' = map (fwd 50000 b) ms \<and> sorted_wrt (<) ms
        \<and> set ms = {..<seen (insert k R)} - insert k R" by blast
    show ?thesis by (intro exI [of _ l'] conjI ex l'(2)) (simp add: True l'(1))
  next
    case False
    then have "k \<notin> set ms" using retx unfolding l(4) by auto
    then have "set ms = {..<seen (insert k R)} - insert k R" using set' by simp
    then have ex: "\<exists>ms. ul_values (missingList c) = map (fwd 50000 b) ms \<and> sorted_wrt (<) ms
        \<and> set ms = {..<seen (insert k R)} - insert k R" using l(2,3) by blast
    show ?thesis by (intro exI [of _ "missingList c"] conjI ex l(1)) (simp add: False)
  qed
qed

text \<open>Last: what follows the delivery. Only state, alarm and the buffers of the world change.\<close>

definition lists_missing :: "bytes \<Rightarrow> u16 \<Rightarrow> nat list \<Rightarrow> bool" where
  "lists_missing p b ms \<longleftrightarrow> tr_packet_getFlag p = STR_FLAG_NACK \<and> tr_checksum_check p 10 = Some 1
    \<and> (\<forall>j < 5. get16le p (6 + 2 * j) = (if j < length ms then fwd 50000 b (ms ! j) else 0))"

lemma str_finish_frame:
  "\<exists>p dl. str_finish now c w = Some (w\<lparr>m_strcs := upd_connection (m_strcs w)
        (c\<lparr>str_state := STR_C_S_FINISHED, alarm_time := add_ms_to_timeval now 120000\<rparr>),
      str_sent := str_sent w @ [(c_addr c, p)], str_deleted := str_deleted w @ dl\<rparr>)
    \<and> tr_packet_getFlag p = STR_FLAG_FIN_ACK \<and> tr_packet_getTid p = c_tid c"
proof -
  obtain p where p: "header_packet (c_tid c) (lastRecvSeqNo c) STR_FLAG_FIN_ACK = Some p"
    "tr_packet_getFlag p = STR_FLAG_FIN_ACK" "tr_packet_getTid p = c_tid c"
    using header_packet_sealed by blast
  let ?c = "c\<lparr>str_state := STR_C_S_FINISHED\<rparr>"
  let ?w = "str_put ?c (str_write (c_addr c) p w)"
  let ?dl = "if deletePending c \<and> \<not> streamtransport_tid_is_alive (c_tid c) ?w then [c_tid c] else []"
  have "str_finish now c w = Some (w\<lparr>m_strcs := upd_connection (m_strcs w)
        (c\<lparr>str_state := STR_C_S_FINISHED, alarm_time := add_ms_to_timeval now 120000\<rparr>),
      str_sent := str_sent w @ [(c_addr c, p)], str_deleted := str_deleted w @ ?dl\<rparr>)"
    using p(1)
    by (simp add: str_finish_def s_send_FIN_ACK_def s_send_FIN_ACK_to_def Let_def str_put_def str_write_def
        STR_Timer_start_def STR_CONNECTION_TIMEOUT_def)
  then show ?thesis using p(2,3) by blast
qed

lemma str_swap:
  "c\<lparr>missingList := l, alarm_time := a\<rparr> = c\<lparr>alarm_time := a, missingList := l\<rparr>"
  "w\<lparr>str_sent := t, m_strcs := cs\<rparr> = w\<lparr>m_strcs := cs, str_sent := t\<rparr>"
  by simp_all

text \<open>The branches after the delivery, as in the handler.\<close>

definition data_tail :: "timeval \<Rightarrow> nat \<Rightarrow> strclist \<Rightarrow> str_world \<Rightarrow> str_world option" where
  "data_tail now missingCnt c w =
    (if missingCnt > 0 then do {
       (r, c5, w5) \<leftarrow> send_NACK
         (if str_state c = STR_C_S_PASSIVE then c\<lparr>str_state := STR_C_S_NACK_WAIT\<rparr> else c) w;
       Some (str_put (STR_Timer_start now STR_NACK_TIMEOUT c5) w5)
     }
     else if u16list_isEmpty (missingList c) then
       (if str_state c = STR_C_S_FIN_NACK_WAIT then str_finish now c w
        else if str_state c = STR_C_S_NACK_WAIT then
          Some (str_put (STR_Timer_start now STR_CONNECTION_TIMEOUT (c\<lparr>str_state := STR_C_S_PASSIVE\<rparr>)) w)
        else Some (str_put c w))
     else Some (str_put c w))"

definition tail_ok :: "nat \<Rightarrow> u16 \<Rightarrow> nat list \<Rightarrow> strclist \<Rightarrow> str_world \<Rightarrow> str_world \<Rightarrow> bool" where
  "tail_ok n b ms c w w' \<longleftrightarrow>
    (\<exists>s a l snt dl. w' = w\<lparr>m_strcs := upd_connection (m_strcs w)
          (c\<lparr>str_state := s, alarm_time := a, missingList := l\<rparr>),
        str_sent := str_sent w @ snt, str_deleted := str_deleted w @ dl\<rparr>
      \<and> ul_inv l \<and> ul_values l = ul_values (missingList c)
      \<and> (n > 0 \<longrightarrow> (\<exists>p. snt = [(c_addr c, p)] \<and> tr_packet_getTid p = c_tid c \<and> lists_missing p b ms)))"

lemma data_tail_frame:
  assumes c: "str_conn c b data R" and ms: "ul_values (missingList c) = map (fwd 50000 b) ms"
      "sorted_wrt (<) ms" "set ms = {..<seen R} - R"
    and n: "n > 0 \<longrightarrow> ms \<noteq> [] \<and> lastRecvSeqNo c = fwd 50000 b (seen R - 1)"
  shows "\<exists>w'. data_tail now n c w = Some w' \<and> tail_ok n b ms c w w'"
proof -
  have h: "in_space 50000 b" "finite R" "ul_inv (missingList c)" using c by (auto simp: str_conn_def str_holds_def)
  have keep: "tail_ok n b ms c w (w\<lparr>m_strcs := upd_connection (m_strcs w) (c\<lparr>str_state := s, alarm_time := a\<rparr>)\<rparr>)"
    if "n = 0" for s a
    unfolding tail_ok_def
    by (rule exI [of _ s], rule exI [of _ a], rule exI [of _ "missingList c"], rule exI [of _ "[]"], rule exI [of _ "[]"])
      (use that h(3) in simp)
  have fin: "tail_ok n b ms c w (w\<lparr>m_strcs := upd_connection (m_strcs w) (c\<lparr>str_state := s, alarm_time := a\<rparr>),
      str_sent := str_sent w @ [(c_addr c, p)], str_deleted := str_deleted w @ dl\<rparr>)"
    if "n = 0" for s a p dl
    unfolding tail_ok_def
    by (rule exI [of _ s], rule exI [of _ a], rule exI [of _ "missingList c"], rule exI [of _ "[(c_addr c, p)]"],
        rule exI [of _ dl])
      (use that h(3) in simp)
  show ?thesis
  proof (cases "n > 0")
    case True
    let ?c = "if str_state c = STR_C_S_PASSIVE then c\<lparr>str_state := STR_C_S_NACK_WAIT\<rparr> else c"
    let ?L = "seen R - 1"
    have last: "lastRecvSeqNo ?c = fwd 50000 b ?L" "ms \<noteq> []" using True n by auto
    have bound: "\<forall>i \<in> set ms. i < ?L \<and> ?L < i + 200"
    proof
      fix i assume i: "i \<in> set ms"
      then have s: "0 < seen R" "?L \<in> R" using seen_in [OF _ h(2)] ms(3) by auto
      have "i \<noteq> ?L" "i < seen R" using i s ms(3) by auto
      moreover have "first_gap R \<le> i" using below_first_gap [of i R] i ms(3) by (auto simp: not_less [symmetric])
      moreover have "?L < first_gap R + 200"
      proof (cases "first_gap R < ?L")
        case True
        then show ?thesis using c s by (auto simp: str_conn_def str_holds_def)
      qed simp
      ultimately show "i < ?L \<and> ?L < i + 200" by linarith
    qed
    then have all: "filter (\<lambda>i. ?L < i + 200) ms = ms" by simp
    have mlc: "ul_inv (missingList ?c)" "ul_values (missingList ?c) = map (fwd 50000 b) ms" using h(3) ms(1) by simp_all
    have bound': "\<forall>i \<in> set ms. i < ?L \<and> ?L < i + 400" using bound by fastforce
    from send_NACK_spec [OF h(1) mlc ms(2) last(2) bound' last(1), of w, unfolded all]
    obtain l p where lp: "send_NACK ?c w = Some (1, ?c\<lparr>missingList := l\<rparr>, str_write (c_addr ?c) p w)"
      "ul_inv l" "ul_values l = map (fwd 50000 b) ms" "tr_packet_getTid p = c_tid ?c"
      "tr_packet_getSeqno p = fwd 50000 b ?L" "tr_packet_getFlag p = STR_FLAG_NACK" "tr_checksum_check p 10 = Some 1"
      "\<forall>j < 5. get16le p (6 + 2 * j) = (if j < length ms then fwd 50000 b (ms ! j) else 0)"
      by (elim exE conjE) (rule that)
    have lists: "lists_missing p b ms" using lp(6-8) by (simp add: lists_missing_def)
    let ?s = "str_state ?c" and ?a = "add_ms_to_timeval now STR_NACK_TIMEOUT"
    have w': "data_tail now n c w = Some (w\<lparr>m_strcs := upd_connection (m_strcs w)
          (c\<lparr>str_state := ?s, alarm_time := ?a, missingList := l\<rparr>), str_sent := str_sent w @ [(c_addr c, p)]\<rparr>)"
      using True lp(1)
      by (simp add: data_tail_def str_put_def STR_Timer_start_def str_write_def str_swap)
    have "tail_ok n b ms c w (w\<lparr>m_strcs := upd_connection (m_strcs w)
          (c\<lparr>str_state := ?s, alarm_time := ?a, missingList := l\<rparr>), str_sent := str_sent w @ [(c_addr c, p)]\<rparr>)"
      unfolding tail_ok_def
      by (rule exI [of _ ?s], rule exI [of _ ?a], rule exI [of _ l], rule exI [of _ "[(c_addr c, p)]"],
          rule exI [of _ "[]"])
        (use lp(2-4) lists ms(1) in simp)
    then show ?thesis using w' by blast
  next
    case False
    then show ?thesis
      using keep [where s = STR_C_S_PASSIVE and a = "add_ms_to_timeval now STR_CONNECTION_TIMEOUT"]
        keep [where s = "str_state c" and a = "alarm_time c"] fin str_finish_frame [of now c w]
      by (auto simp: data_tail_def str_put_def STR_Timer_start_def)
  qed
qed

text \<open>The whole handler.\<close>

lemma str_receive_data_tail:
  assumes "find_connection (m_strcs w) tid addr = Some c"
    "(if tr_seqno_cmp seqno (lastRecvSeqNo c) > 0 then do {
        (n, c1) \<leftarrow> detectMissingPacket seqno c;
        Some (n, c1\<lparr>lastRecvSeqNo := seqno\<rparr>)
      } else Some (0, c)) = Some (n, c1)"
    "(if (flag AND STR_FLAG_RETX) \<noteq> 0 then do {
        r \<leftarrow> u16list_delete (missingList c1) seqno;
        Some (c1\<lparr>missingList := snd r\<rparr>)
      } else Some c1) = Some c2"
    "receive_str_msg c2 seqno msg w = Some (c3, w3)"
  shows "\<exists>t. str_receive_data now flag tid addr seqno msg w = data_tail now n (c3\<lparr>totalRecvPackets := t\<rparr>) w3"
proof -
  let ?new = "tr_seqno_cmp seqno (nextExpectedSeqNo c1) \<ge> 0 \<and> SPList_find (plist c1) (int (unat seqno)) < 0"
  let ?t = "if ?new then totalRecvPackets c3 + 1 else totalRecvPackets c3"
  have t: "(if ?new then c3\<lparr>totalRecvPackets := totalRecvPackets c3 + 1\<rparr> else c3) = c3\<lparr>totalRecvPackets := ?t\<rparr>"
    by simp
  have "str_receive_data now flag tid addr seqno msg w
      = data_tail now n (if ?new then c3\<lparr>totalRecvPackets := totalRecvPackets c3 + 1\<rparr> else c3) w3"
    unfolding str_receive_data_def data_tail_def assms(1) option.case assms(2)
      bind.bind_lunit prod.case Let_def assms(3) assms(4) ..
  then show ?thesis unfolding t by blast
qed

lemma str_conn_fields:
  assumes "str_conn c b data R"
  shows "in_space 50000 b" "finite R" "ul_inv (missingList c)"
  using assms by (auto simp: str_conn_def str_holds_def)

lemma last_at_insert:
  assumes "finite R" "last_at s b (seen R)"
  shows "last_at (if seen R \<le> k then fwd 50000 b k else s) b (seen (insert k R))"
proof (cases "seen R \<le> k")
  case True
  then show ?thesis by (simp add: seen_insert [OF assms(1)] last_at_def max_def)
next
  case False
  then have "max (seen R) (Suc k) = seen R" by simp
  then show ?thesis using False assms by (simp add: seen_insert)
qed

text \<open>
  One data packet at position \<open>k\<close>: everything from the first gap on that is now complete goes up, the
  list of missing numbers stays exact, and a gap is answered with the missing numbers.
\<close>

lemma data_step:
  assumes f: "find_connection (m_strcs w) tid addr = Some c" and c: "str_conn c b data R"
    and win: "str_window R k" and retx: "(flag AND STR_FLAG_RETX) \<noteq> 0 \<or> seen R \<le> k \<or> k \<in> R"
  shows "\<exists>w' c' snt. str_receive_data now flag tid addr (fwd 50000 b k) (data k) w = Some w'
    \<and> m_strcs w' = upd_connection (m_strcs w) c' \<and> c_tid c' = tid \<and> c_addr c' = addr
    \<and> str_conn c' b data (insert k R)
    \<and> str_up w' = str_up w @ ups c data [first_gap R..<first_gap (insert k R)]
    \<and> str_sent w' = str_sent w @ snt
    \<and> (seen R < k \<longrightarrow> (\<exists>p. snt = [(addr, p)] \<and> tr_packet_getTid p = tid
        \<and> lists_missing p b (sorted_list_of_set ({..<k} - R))))"
proof -
  note s = str_conn_fields [OF c]
  let ?R = "insert k R"
  obtain ks where ks: "str_holds c b data (first_gap R) ks" "set ks = {j \<in> R. first_gap R < j}"
    "last_at (lastRecvSeqNo c) b (seen R)"
    using c by (auto simp: str_conn_def)
  from data_detect [OF c win]
  obtain n l ms where d: "(if tr_seqno_cmp (fwd 50000 b k) (lastRecvSeqNo c) > 0 then do {
             (n, c1) \<leftarrow> detectMissingPacket (fwd 50000 b k) c;
             Some (n, c1\<lparr>lastRecvSeqNo := fwd 50000 b k\<rparr>)
           } else Some (0, c))
      = Some (n, c\<lparr>missingList := l, totalLostPackets := totalLostPackets c + n,
                  lastRecvSeqNo := (if seen R \<le> k then fwd 50000 b k else lastRecvSeqNo c)\<rparr>)"
    "n = k - seen R" "ul_inv l" "ul_values l = map (fwd 50000 b) ms" "sorted_wrt (<) ms"
    "set ms = ({..<seen R} \<union> {seen R..<k}) - R"
    by (elim exE conjE) (rule that)
  let ?s = "if seen R \<le> k then fwd 50000 b k else lastRecvSeqNo c"
  let ?c1 = "c\<lparr>missingList := l, totalLostPackets := totalLostPackets c + n, lastRecvSeqNo := ?s\<rparr>"
  have l1: "ul_inv (missingList ?c1)" "ul_values (missingList ?c1) = map (fwd 50000 b) ms" using d(3,4) by simp_all
  from data_delete [OF s(1,2) win l1 d(5,6) retx]
  obtain l2 ms2 where e: "(if (flag AND STR_FLAG_RETX) \<noteq> 0 then do {
           r \<leftarrow> u16list_delete (missingList ?c1) (fwd 50000 b k);
           Some (?c1\<lparr>missingList := snd r\<rparr>)
         } else Some ?c1) = Some (?c1\<lparr>missingList := l2\<rparr>)"
    "ul_inv l2" "ul_values l2 = map (fwd 50000 b) ms2" "sorted_wrt (<) ms2"
    "set ms2 = {..<seen ?R} - ?R"
    by (elim exE conjE) (rule that)
  let ?c2 = "?c1\<lparr>missingList := l2\<rparr>"
  have h2: "str_holds ?c2 b data (first_gap R) ks" using ks(1) by (simp add: str_holds_def)
  from receive_str_msg_set [OF h2 ks(2) s(2) win, of w]
  obtain pl ks' where r: "receive_str_msg ?c2 (fwd 50000 b k) (data k) w
      = Some (?c2\<lparr>timeoutCount := 0, plist := pl, nextExpectedSeqNo := fwd 50000 b (first_gap ?R)\<rparr>,
              w\<lparr>str_up := str_up w @ ups ?c2 data [first_gap R..<first_gap ?R]\<rparr>)"
    "first_gap R \<le> first_gap ?R"
    "str_holds (?c2\<lparr>timeoutCount := 0, plist := pl, nextExpectedSeqNo := fwd 50000 b (first_gap ?R)\<rparr>)
        b data (first_gap ?R) ks'"
    "set ks' = {j \<in> ?R. first_gap ?R < j}"
    by (elim exE conjE) (rule that)
  let ?c3 = "?c2\<lparr>timeoutCount := 0, plist := pl, nextExpectedSeqNo := fwd 50000 b (first_gap ?R)\<rparr>"
  let ?w3 = "w\<lparr>str_up := str_up w @ ups ?c2 data [first_gap R..<first_gap ?R]\<rparr>"
  obtain t where t: "str_receive_data now flag tid addr (fwd 50000 b k) (data k) w
      = data_tail now n (?c3\<lparr>totalRecvPackets := t\<rparr>) ?w3"
    using str_receive_data_tail [OF f d(1) e(1) r(1)] by blast
  define c4 where "c4 = ?c3\<lparr>totalRecvPackets := t\<rparr>"
  have m4: "ul_inv (missingList c4)" "ul_values (missingList c4) = map (fwd 50000 b) ms2"
    "lastRecvSeqNo c4 = ?s" "c_tid c4 = tid" "c_addr c4 = addr"
    using e(2,3) find_connection_Some [OF f] by (simp_all add: c4_def)
  have h4: "str_holds c4 b data (first_gap ?R) ks'" using r(3) by (simp add: c4_def str_holds_def)
  have c4: "str_conn (c4\<lparr>str_state := st, alarm_time := a, missingList := l'\<rparr>) b data ?R"
    if "ul_inv l'" "ul_values l' = map (fwd 50000 b) ms2" for st a l'
  proof -
    have "str_holds (c4\<lparr>str_state := st, alarm_time := a, missingList := l'\<rparr>) b data (first_gap ?R) ks'"
      using h4 by (simp add: str_holds_def)
    moreover have "last_at ?s b (seen ?R)" by (rule last_at_insert [OF s(2) ks(3)])
    ultimately show ?thesis
      using that e(4,5) r(4) s(2) m4(3) unfolding str_conn_def by auto
  qed
  have "str_conn c4 b data ?R" using c4 [where st = "str_state c4" and a = "alarm_time c4", OF m4(1,2)] by simp
  moreover have "n > 0 \<longrightarrow> ms2 \<noteq> [] \<and> lastRecvSeqNo c4 = fwd 50000 b (seen ?R - 1)"
  proof
    assume "n > 0"
    then have k: "seen R < k" using d(2) by simp
    then have "seen ?R = Suc k" using seen_insert [OF s(2)] by simp
    moreover have "seen R \<in> set ms2"
      unfolding e(5) using k seen_not_in [OF s(2)] \<open>seen ?R = Suc k\<close> by simp
    ultimately show "ms2 \<noteq> [] \<and> lastRecvSeqNo c4 = fwd 50000 b (seen ?R - 1)"
      using k m4(3) by auto
  qed
  ultimately obtain w' where w': "data_tail now n c4 ?w3 = Some w'" "tail_ok n b ms2 c4 ?w3 w'"
    using data_tail_frame [OF _ m4(2) e(4,5), where n = n and now = now and w = ?w3] by blast
  from w'(2) [unfolded tail_ok_def]
  obtain st a l' snt dl where z: "w' = ?w3\<lparr>m_strcs := upd_connection (m_strcs ?w3)
          (c4\<lparr>str_state := st, alarm_time := a, missingList := l'\<rparr>),
        str_sent := str_sent ?w3 @ snt, str_deleted := str_deleted ?w3 @ dl\<rparr>"
      "ul_inv l'" "ul_values l' = ul_values (missingList c4)"
      "n > 0 \<longrightarrow> (\<exists>p. snt = [(c_addr c4, p)] \<and> tr_packet_getTid p = c_tid c4 \<and> lists_missing p b ms2)"
    by (elim exE conjE) (rule that)
  have "ms2 = sorted_list_of_set ({..<k} - R)" if "seen R < k"
  proof -
    have "seen ?R = Suc k" using that seen_insert [OF s(2)] by simp
    then have "set ms2 = {..<k} - R" unfolding e(5) by auto
    then show ?thesis using e(4) by (metis sorted_list_of_set.idem_if_sorted_distinct strict_sorted_iff)
  qed
  moreover have "ups ?c2 data js = ups c data js" for js by (simp add: ups_def)
  ultimately show ?thesis
    using t w'(1) z c4 [where st = st and a = a, OF z(2)] m4 d(2) unfolding c4_def [symmetric]
    by (intro exI [of _ w'] exI [of _ "c4\<lparr>str_state := st, alarm_time := a, missingList := l'\<rparr>"] exI [of _ snt])
      simp
qed

section \<open>A stream through the receiver\<close>

text \<open>A data packet as the sender seals it.\<close>

definition str_data_packet :: "u16 \<Rightarrow> u16 \<Rightarrow> bytes \<Rightarrow> bytes \<Rightarrow> bool" where
  "str_data_packet tid seqno msg p \<longleftrightarrow> 6 \<le> length p \<and> tr_checksum_check p (of_nat (length p - 6)) = Some 1
    \<and> tr_packet_getTid p = tid \<and> tr_packet_getSeqno p = seqno \<and> tr_packet_getPayload p = msg
    \<and> (tr_packet_getFlag p = STR_FLAG_DATA \<or> tr_packet_getFlag p = STR_FLAG_DATA_RETX)"

definition str_syn_packet :: "u16 \<Rightarrow> u16 \<Rightarrow> bytes \<Rightarrow> bool" where
  "str_syn_packet tid seqno p \<longleftrightarrow> 6 \<le> length p \<and> tr_checksum_check p (of_nat (length p - 6)) = Some 1
    \<and> tr_packet_getTid p = tid \<and> tr_packet_getSeqno p = seqno \<and> tr_packet_getFlag p = STR_FLAG_SYN"

text \<open>
  Arrivals, each a position of the stream with its packet: any order within the window, losses and
  repetitions included. What fills a gap is marked as retransmitted.
\<close>

fun str_schedule :: "u16 \<Rightarrow> u16 \<Rightarrow> (nat \<Rightarrow> bytes) \<Rightarrow> nat set \<Rightarrow> (nat \<times> bytes) list \<Rightarrow> bool" where
  "str_schedule tid b data R [] = True"
| "str_schedule tid b data R ((k, p) # xs) = (str_window R k
     \<and> str_data_packet tid (fwd 50000 b k) (data k) p
     \<and> (tr_packet_getFlag p = STR_FLAG_DATA_RETX \<or> seen R \<le> k \<or> k \<in> R)
     \<and> str_schedule tid b data (insert k R) xs)"

primrec str_receive_all ::
    "timeval \<Rightarrow> strclist \<Rightarrow> u16 \<Rightarrow> bytes list \<Rightarrow> str_world \<Rightarrow> str_world option" where
  "str_receive_all now mem addr [] w = Some w"
| "str_receive_all now mem addr (p # ps) w = do {
     w' \<leftarrow> streamtransport_receive now mem p addr w;
     str_receive_all now mem addr ps w'
   }"

lemma str_receive_data_packet:
  "str_data_packet tid seqno msg p \<Longrightarrow>
    streamtransport_receive now mem p addr w
      = str_receive_data now (tr_packet_getFlag p) tid addr seqno msg w"
  by (auto simp: str_data_packet_def streamtransport_receive_def consts_defs simp del: of_nat_diff)

lemma retx_flag [simp]: "STR_FLAG_DATA_RETX AND STR_FLAG_RETX \<noteq> 0"
  by (simp add: consts_defs)

lemma str_receive_all_conn:
  assumes "find_connection (m_strcs w) tid addr = Some c" "str_conn c b data R" "str_schedule tid b data R xs"
  shows "\<exists>w' c'. str_receive_all now mem addr (map snd xs) w = Some w'
    \<and> find_connection (m_strcs w') tid addr = Some c' \<and> str_conn c' b data (R \<union> fst ` set xs)
    \<and> first_gap R \<le> first_gap (R \<union> fst ` set xs)
    \<and> str_up w' = str_up w @ ups c data [first_gap R..<first_gap (R \<union> fst ` set xs)]"
  using assms
proof (induction xs arbitrary: R c w)
  case Nil
  then show ?case by (simp add: ups_def)
next
  case (Cons x xs)
  obtain k p where x: "x = (k, p)" by (cases x)
  let ?R = "insert k R"
  have s: "str_window R k" "str_data_packet tid (fwd 50000 b k) (data k) p"
    "(tr_packet_getFlag p AND STR_FLAG_RETX) \<noteq> 0 \<or> seen R \<le> k \<or> k \<in> R" "str_schedule tid b data ?R xs"
    using Cons.prems(3) x by auto
  from data_step [OF Cons.prems(1,2) s(1,3), of now]
  obtain w1 c1 where d: "str_receive_data now (tr_packet_getFlag p) tid addr (fwd 50000 b k) (data k) w = Some w1"
    "m_strcs w1 = upd_connection (m_strcs w) c1" "c_tid c1 = tid" "c_addr c1 = addr" "str_conn c1 b data ?R"
    "str_up w1 = str_up w @ ups c data [first_gap R..<first_gap ?R]"
    by (elim exE conjE) (rule that)
  have f1: "find_connection (m_strcs w1) tid addr = Some c1"
    using find_upd_connection [of "m_strcs w" c1] Cons.prems(1) d(2-4) by (simp add: is_connection_def)
  from Cons.IH [OF f1 d(5) s(4)]
  obtain w' c' where r: "str_receive_all now mem addr (map snd xs) w1 = Some w'"
    "find_connection (m_strcs w') tid addr = Some c'" "str_conn c' b data (?R \<union> fst ` set xs)"
    "first_gap ?R \<le> first_gap (?R \<union> fst ` set xs)"
    "str_up w' = str_up w1 @ ups c1 data [first_gap ?R..<first_gap (?R \<union> fst ` set xs)]"
    by (elim exE conjE) (rule that)
  have le: "first_gap R \<le> first_gap ?R"
    by (rule first_gap_mono [OF str_conn_fields(2) [OF d(5)]]) auto
  have "ups c1 data js = ups c data js" for js
    using find_connection_Some [OF Cons.prems(1)] d(3,4) by (simp add: ups_def)
  then show ?case
    using r d(1,6) x le ups_append [OF le r(4), of c data] str_receive_data_packet [OF s(2)]
    by (intro exI [of _ w'] exI [of _ c']) simp
qed

lemma str_receive_syn_new:
  assumes "str_syn_packet tid seqno p" "find_connection (m_strcs w) tid addr = None" "unat seqno < 50000"
  shows "\<exists>w' c a. streamtransport_receive now mem p addr w = Some w'
    \<and> find_connection (m_strcs w') tid addr = Some c \<and> str_conn c (seqno + 1) data {}
    \<and> str_up w' = str_up w \<and> str_sent w' = str_sent w @ [(addr, a)]
    \<and> tr_packet_getFlag a = STR_FLAG_SYN_ACK \<and> tr_packet_getTid a = tid"
proof -
  obtain a where a: "header_packet tid 0 STR_FLAG_SYN_ACK = Some a"
    "tr_packet_getFlag a = STR_FLAG_SYN_ACK" "tr_packet_getTid a = tid"
    using header_packet_sealed by blast
  have rcv: "streamtransport_receive now mem p addr w = str_receive_syn now tid addr seqno mem w"
    using assms(1) by (simp add: str_syn_packet_def streamtransport_receive_def del: of_nat_diff)
  have u: "unat (seqno + 1) = unat seqno + 1" using assms(3) by (simp add: unat_word_ariths)
  then have b: "in_space 50000 (seqno + 1)" using assms(3) by (simp add: in_space_def)
  have last: "last_at seqno (seqno + 1) 0"
  proof (cases "seqno = 0")
    case False
    then have "unat seqno \<noteq> 0" by (simp add: unat_eq_0)
    then have "seqno = fwd 50000 (seqno + 1) 49999"
      using u assms(3) by (simp add: word_eq_unat unat_fwd mod_if) linarith
    then show ?thesis by (simp add: last_at_def)
  qed (simp add: last_at_def)
  have gap: "first_gap {} = 0" by (rule first_gap_eqI) simp_all
  let ?c = "(hd (add_connection (m_strcs w) mem tid addr))
      \<lparr>connection_type := PROTOCOL_STREAM_TRANSPORT, lastRecvSeqNo := seqno,
                 str_state := STR_C_S_PASSIVE, deletePending := False, timeoutCount := 0,
                 nextExpectedSeqNo := seqno + 1, missingList := u16list_init (missingList mem),
                 plist := SPList_init (plist mem)\<rparr>"
  let ?c' = "STR_Timer_start now STR_CONNECTION_TIMEOUT ?c"
  have key: "c_tid ?c = tid" "c_addr ?c = addr" by (simp_all add: add_connection_def)
  have "str_receive_syn now tid addr seqno mem w
      = Some (w\<lparr>m_strcs := ?c' # m_strcs w, str_sent := str_sent w @ [(addr, a)]\<rparr>)"
    using assms(2) a(1) key
    by (simp add: str_receive_syn_def create_str_connection_def s_send_SYN_ACK_def str_put_def str_write_def
        STR_Timer_start_def is_connection_def add_connection_def Let_def)
  moreover have "str_conn ?c' (seqno + 1) data {}"
    using b last gap
    by (simp add: str_conn_def str_holds_def seen_def STR_Timer_start_def fwd_0 spl_holds_def SPList_init_def)
  ultimately show ?thesis using rcv a key
    by (intro exI [of _ "w\<lparr>m_strcs := ?c' # m_strcs w, str_sent := str_sent w @ [(addr, a)]\<rparr>"] exI [of _ ?c'] exI [of _ a])
      (simp add: is_connection_def STR_Timer_start_def)
qed

lemma str_session:
  assumes "find_connection (m_strcs w) tid addr = None" "str_syn_packet tid seqno syn" "unat seqno < 50000"
    and "str_schedule tid (seqno + 1) data {} xs"
  shows "\<exists>w' c. str_receive_all now mem addr (syn # map snd xs) w = Some w'
    \<and> find_connection (m_strcs w') tid addr = Some c \<and> str_conn c (seqno + 1) data (fst ` set xs)
    \<and> str_up w' = str_up w @ map (\<lambda>k. (tid, addr, data k)) [0..<first_gap (fst ` set xs)]"
proof -
  obtain w1 c a where s: "streamtransport_receive now mem syn addr w = Some w1"
    "find_connection (m_strcs w1) tid addr = Some c" "str_conn c (seqno + 1) data {}" "str_up w1 = str_up w"
    "str_sent w1 = str_sent w @ [(addr, a)]" "tr_packet_getFlag a = STR_FLAG_SYN_ACK" "tr_packet_getTid a = tid"
    using str_receive_syn_new [OF assms(2,1,3), of now mem data] by (elim exE conjE) (rule that)
  have gap: "first_gap {} = 0" by (rule first_gap_eqI) simp_all
  from str_receive_all_conn [OF s(2,3) assms(4), of now mem]
  obtain w' c' where r: "str_receive_all now mem addr (map snd xs) w1 = Some w'"
    "find_connection (m_strcs w') tid addr = Some c'" "str_conn c' (seqno + 1) data ({} \<union> fst ` set xs)"
    "first_gap {} \<le> first_gap ({} \<union> fst ` set xs)"
    "str_up w' = str_up w1 @ ups c data [first_gap {}..<first_gap ({} \<union> fst ` set xs)]"
    by (elim exE conjE) (rule that)
  show ?thesis using s(1,4) r find_connection_Some [OF s(2)] gap
    by (intro exI [of _ w'] exI [of _ c']) (simp add: ups_def)
qed

lemma first_gap_sample: "first_gap {} = 0" "first_gap {0} = 1" "first_gap {0, 2} = 1" "first_gap {0, 1, 2} = 3"
  by (rule first_gap_eqI; force)+

text \<open>A connection request of task 7 that announces number 49999, and three data packets, the last retransmitted.\<close>

definition sample_syn :: bytes where
  "sample_syn = [7, 0, 0x4f, 0xc3, 0x02, 0xe5]"

definition sample_packet :: "nat \<Rightarrow> bytes" where
  "sample_packet k = (if k = 0 then [7, 0, 0x50, 0xc3, 0x01, 0xa4, 65]
     else if k = 1 then [7, 0, 1, 0, 0x21, 0x95, 66] else [7, 0, 2, 0, 0x01, 0xb3, 67])"

definition sample_data :: "nat \<Rightarrow> bytes" where
  "sample_data k = tr_packet_getPayload (sample_packet k)"

definition sample_mem :: strclist where
  "sample_mem = \<lparr>c_addr = 0, c_tid = 0, connection_type = 0, lastRecvSeqNo = 0, totalLostPackets = 0,
     totalRecvPackets = 0, alarm_time = clear_timeval,
     missingList = \<lparr>ul_length = 3, ul_chain = [], ul_tail = None, ul_heap = 7\<rparr>,
     str_state = STR_C_S_PASSIVE, deletePending = False, timeoutCount = 0, nextExpectedSeqNo = 0,
     plist = \<lparr>spl_length = 0, spl_chain = []\<rparr>\<rparr>"

lemma sample_mem_fields: "str_state sample_mem = STR_C_S_PASSIVE" "deletePending sample_mem = False"
  by (simp_all add: sample_mem_def)

lemmas sample_eval = sample_syn_def sample_packet_def tr_packet_getTid_def tr_packet_getSeqno_def
  tr_packet_getFlag_def tr_packet_getPayload_def get16le_def get8_def consts_defs

lemma sample_packets:
  "str_syn_packet 7 49999 sample_syn" "str_data_packet 7 50000 [65] (sample_packet 0)"
  "str_data_packet 7 1 [66] (sample_packet 1)" "str_data_packet 7 2 [67] (sample_packet 2)"
  unfolding str_syn_packet_def str_data_packet_def
  by (simp_all add: sample_eval checksum_eval word_eq_unat unat_mk16)

lemma sample_fwd: "fwd 50000 50000 0 = 50000" "fwd 50000 50000 (Suc 0) = 1" "fwd 50000 50000 2 = 2"
  by (simp_all add: word_eq_unat unat_fwd)

lemma sample_flags: "tr_packet_getFlag (sample_packet (Suc 0)) = STR_FLAG_DATA_RETX"
  "tr_packet_getPayload (sample_packet 0) = [65]" "tr_packet_getPayload (sample_packet (Suc 0)) = [66]"
  "tr_packet_getPayload (sample_packet 2) = [67]"
  by (simp_all add: sample_eval)

lemma sample_schedule:
  "str_schedule 7 50000 sample_data {} [(0, sample_packet 0), (2, sample_packet 2)]"
  "str_schedule 7 50000 sample_data {} [(0, sample_packet 0), (2, sample_packet 2), (1, sample_packet 1)]"
  using sample_packets sample_fwd first_gap_sample sample_flags
  by (simp_all add: str_window_def seen_def sample_data_def insert_commute)

section \<open>Properties\<close>

text \<open>
  C6: from the connection request on, whatever the order, the losses and the repetitions in the
  window, the application gets exactly the data of the positions before the first one that never arrived,
  each once and in the order of the stream; no list operation of the receiver fails.
\<close>

theorem stream_in_order:
  assumes "find_connection (m_strcs w) tid addr = None" "str_syn_packet tid seqno syn" "unat seqno < 50000"
    and "str_schedule tid (seqno + 1) data {} xs"
  shows "\<exists>w'. str_receive_all now mem addr (syn # map snd xs) w = Some w'
    \<and> str_up w' = str_up w @ map (\<lambda>k. (tid, addr, data k)) [0..<first_gap (fst ` set xs)]"
  using str_session [OF assms] by blast

theorem stream_in_order_witness:
  "\<exists>w'. str_receive_all \<lparr>tv_sec = 1, tv_usec = 0\<rparr> sample_mem 3
        [sample_syn, sample_packet 0, sample_packet 2, sample_packet 1] \<lparr>m_strcs = [], str_sent = [], str_up = [], str_deleted = []\<rparr>
      = Some w'
    \<and> str_up w' = [(7, 3, [65]), (7, 3, [66]), (7, 3, [67])]"
proof -
  have "[0..<3] = [0, Suc 0, 2]" by (simp add: upt_rec)
  then show ?thesis
    using stream_in_order [of "\<lparr>m_strcs = [], str_sent = [], str_up = [], str_deleted = []\<rparr>" 7 3 49999 sample_syn
        sample_data "[(0, sample_packet 0), (2, sample_packet 2), (1, sample_packet 1)]"
        "\<lparr>tv_sec = 1, tv_usec = 0\<rparr>" sample_mem]
      sample_packets(1) sample_schedule(2) first_gap_sample sample_flags
    by (simp add: insert_commute sample_data_def)
qed

text \<open>
  A packet that leaves a gap is answered at once with one NACK that carries, in order, the first
  five of all numbers missing so far, zeros when there are fewer, under a correct checksum.
\<close>

theorem stream_gap_nack:
  assumes "find_connection (m_strcs w) tid addr = None" "str_syn_packet tid seqno syn" "unat seqno < 50000"
    and "str_schedule tid (seqno + 1) data {} xs" "str_window (fst ` set xs) k" "seen (fst ` set xs) < k"
    and "str_data_packet tid (fwd 50000 (seqno + 1) k) (data k) p"
  shows "\<exists>w1 w2 nack. str_receive_all now mem addr (syn # map snd xs) w = Some w1
    \<and> streamtransport_receive now mem p addr w1 = Some w2
    \<and> str_sent w2 = str_sent w1 @ [(addr, nack)] \<and> tr_packet_getTid nack = tid
    \<and> lists_missing nack (seqno + 1) (sorted_list_of_set ({..<k} - fst ` set xs))"
proof -
  obtain w1 c where s: "str_receive_all now mem addr (syn # map snd xs) w = Some w1"
    "find_connection (m_strcs w1) tid addr = Some c" "str_conn c (seqno + 1) data (fst ` set xs)"
    using str_session [OF assms(1-4), of now mem] by blast
  have "(tr_packet_getFlag p AND STR_FLAG_RETX) \<noteq> 0 \<or> seen (fst ` set xs) \<le> k \<or> k \<in> fst ` set xs"
    using assms(6) by simp
  from data_step [OF s(2,3) assms(5) this, of now] show ?thesis
    using s(1) str_receive_data_packet [OF assms(7)] assms(6) by auto
qed

theorem stream_gap_nack_witness:
  "\<exists>w1 w2 nack. str_receive_all \<lparr>tv_sec = 1, tv_usec = 0\<rparr> sample_mem 3 [sample_syn, sample_packet 0]
        \<lparr>m_strcs = [], str_sent = [], str_up = [], str_deleted = []\<rparr> = Some w1
    \<and> streamtransport_receive \<lparr>tv_sec = 1, tv_usec = 0\<rparr> sample_mem (sample_packet 2) 3 w1 = Some w2
    \<and> str_sent w2 = str_sent w1 @ [(3, nack)] \<and> get16le nack 6 = 1"
proof -
  have "str_schedule 7 50000 sample_data {} [(0, sample_packet 0)]" "str_window {0} 2" "seen {0} = 1"
    using sample_schedule(1) by (simp_all add: seen_def)
  moreover have "{..<2} - {0} = {Suc 0}" by auto
  ultimately show ?thesis
    using stream_gap_nack [of "\<lparr>m_strcs = [], str_sent = [], str_up = [], str_deleted = []\<rparr>" 7 3 49999 sample_syn
        sample_data "[(0, sample_packet 0)]" 2 "sample_packet 2" "\<lparr>tv_sec = 1, tv_usec = 0\<rparr>" sample_mem]
      sample_packets(1,4) sample_fwd sample_flags
    by (auto simp: lists_missing_def sample_data_def dest!: spec [of _ 0])
qed

text \<open>
  The timer loop stops at the first connection that is due. A passive one that nobody wants deleted
  is neither rearmed nor removed when its time is over, so it stays first: as long as nothing before it is
  due, the timers of all connections behind it never fire.
\<close>

theorem stream_passive_blocks_polling:
  assumes "m_strcs w = pre @ c # rest" "str_state c = STR_C_S_PASSIVE" "\<not> deletePending c"
    and "alarm_due_now c now" "compare_timeval now later \<le> 0" "\<forall>d \<in> set pre. \<not> alarm_due_now d later"
  shows "polling_streamtransport_timer later w = Some w"
proof -
  have "alarm_due_now c later"
    using assms(4,5) compare_timeval_le_trans by (auto simp: alarm_due_now_def)
  then have "find (\<lambda>c. alarm_due_now c later) (pre @ c # rest) = Some c"
    using assms(6) by (induction pre) simp_all
  then have "find (\<lambda>c. alarm_due_now c later) (m_strcs w) = Some c" unfolding assms(1) .
  then show ?thesis using assms(2,3) by (simp add: polling_streamtransport_timer_def STR_Timer_fired_def)
qed

theorem stream_passive_blocks_polling_witness:
  "polling_streamtransport_timer \<lparr>tv_sec = 500, tv_usec = 0\<rparr>
      \<lparr>m_strcs = [sample_mem\<lparr>alarm_time := \<lparr>tv_sec = 120, tv_usec = 0\<rparr>\<rparr>,
         sample_mem\<lparr>c_tid := 1, str_state := STR_C_S_NACK_WAIT, alarm_time := \<lparr>tv_sec = 3, tv_usec = 0\<rparr>\<rparr>],
       str_sent = [], str_up = [], str_deleted = []\<rparr>
    = Some \<lparr>m_strcs = [sample_mem\<lparr>alarm_time := \<lparr>tv_sec = 120, tv_usec = 0\<rparr>\<rparr>,
         sample_mem\<lparr>c_tid := 1, str_state := STR_C_S_NACK_WAIT, alarm_time := \<lparr>tv_sec = 3, tv_usec = 0\<rparr>\<rparr>],
       str_sent = [], str_up = [], str_deleted = []\<rparr>"
proof -
  let ?c = "sample_mem\<lparr>alarm_time := \<lparr>tv_sec = 120, tv_usec = 0\<rparr>\<rparr>"
  let ?d = "sample_mem\<lparr>c_tid := 1, str_state := STR_C_S_NACK_WAIT, alarm_time := \<lparr>tv_sec = 3, tv_usec = 0\<rparr>\<rparr>"
  have "alarm_due_now ?c \<lparr>tv_sec = 200, tv_usec = 0\<rparr>" by (simp add: alarm_due_now_def compare_timeval_def)
  moreover have "compare_timeval \<lparr>tv_sec = 200, tv_usec = 0\<rparr> \<lparr>tv_sec = 500, tv_usec = 0\<rparr> \<le> 0"
    by (simp add: compare_timeval_def)
  ultimately show ?thesis
    using stream_passive_blocks_polling [of "\<lparr>m_strcs = [?c, ?d], str_sent = [], str_up = [], str_deleted = []\<rparr>"
        "[]" ?c "[?d]" "\<lparr>tv_sec = 200, tv_usec = 0\<rparr>" "\<lparr>tv_sec = 500, tv_usec = 0\<rparr>"]
    by (simp add: sample_mem_fields)
qed

end
