(* ===== verification/Packet_Transport.thy ===== *)
theory Packet_Transport
  imports Connection_List
begin

text \<open>
  Model of src/master/transport/packettransport.c: single packets with an end-to-end acknowledgement
  (constants in src/mote/lib/transport/packettransport.h). A connection keeps the last packet sent to
  its address for retransmission. The world is the list of connections, what was given to the routing
  layer (\<open>write_routing_msg\<close>), what went up (\<open>receive_packettransport\<close>) and the reports of
  \<open>senddone_packettransport\<close>, whose packet is missing when the code passes a pointer made from NULL.
  Logging and the estimates of rate and loss are left out. The clock and the contents of new memory
  are arguments. \<open>None\<close> is undefined behaviour or a loop that does not end.
\<close>

record ptrclist = connection +
  sentSeqNo :: u16
  pc_len :: u8
  pc_packet :: "bytes option"
  retxCount :: int

record ptr_world =
  m_ptrcs :: "ptrclist list"
  ptr_sent :: "(u16 \<times> bytes) list"
  ptr_up :: "(u16 \<times> u16 \<times> bytes) list"
  ptr_done :: "(u16 \<times> u16 \<times> u8 \<times> bytes option \<times> bool) list"

definition PTR_MAX_NUM_RETX :: int where [consts_defs]: "PTR_MAX_NUM_RETX = 5"
definition PTR_FLAG_SEND :: u8 where [consts_defs]: "PTR_FLAG_SEND = 0x40"
definition PTR_FLAG_ACK :: u8 where [consts_defs]: "PTR_FLAG_ACK = 0x48"
definition PTR_FLAG_NOACK_SEND :: u8 where [consts_defs]: "PTR_FLAG_NOACK_SEND = 0xff"
definition PTR_ACK_TIMEOUT :: nat where [consts_defs]: "PTR_ACK_TIMEOUT = 3000"
definition PROTOCOL_PACKET_TRANSPORT :: int where [consts_defs]: "PROTOCOL_PACKET_TRANSPORT = 0x10"

definition ptr_write :: "u16 \<Rightarrow> bytes \<Rightarrow> ptr_world \<Rightarrow> ptr_world" where
  "ptr_write addr p w = w\<lparr>ptr_sent := ptr_sent w @ [(addr, p)]\<rparr>"

definition ptr_put :: "ptrclist \<Rightarrow> ptr_world \<Rightarrow> ptr_world" where
  "ptr_put c w = w\<lparr>m_ptrcs := upd_connection (m_ptrcs w) c\<rparr>"

section \<open>Missing packets\<close>

text \<open>The \<open>do .. while\<close> loop counts; it changes nothing else.\<close>

partial_function (option) ptr_detect_loop :: "u16 \<Rightarrow> u16 \<Rightarrow> nat \<Rightarrow> nat option" where
  "ptr_detect_loop seqno lastSeqNo n =
    (if tr_seqno_cmp seqno (tr_seqno_next (tr_seqno_next lastSeqNo)) > 0
     then ptr_detect_loop seqno (tr_seqno_next lastSeqNo) (n + 1) else Some (n + 1))"

definition ptr_detectMissingPacket :: "u16 \<Rightarrow> ptrclist \<Rightarrow> (nat \<times> ptrclist) option" where
  "ptr_detectMissingPacket seqno c =
    (if tr_seqno_cmp seqno (tr_seqno_next (lastRecvSeqNo c)) > 0 then do {
       n \<leftarrow> ptr_detect_loop seqno (lastRecvSeqNo c) 0;
       Some (n, c\<lparr>totalLostPackets := totalLostPackets c + n\<rparr>)
     } else Some (0, c))"

section \<open>Connections and timers\<close>

text \<open>As in the stream transport, an existing connection would be linked twice (\<open>None\<close>).\<close>

definition create_ptr_connection :: "u16 \<Rightarrow> u16 \<Rightarrow> u16 \<Rightarrow> ptrclist \<Rightarrow> ptr_world \<Rightarrow> (ptrclist \<times> ptr_world) option" where
  "create_ptr_connection tid addr seqno mem w =
    (if find_connection (m_ptrcs w) tid addr \<noteq> None then None
     else
       let cs = add_connection (m_ptrcs w) mem tid addr;
           c = (hd cs)\<lparr>connection_type := PROTOCOL_PACKET_TRANSPORT, lastRecvSeqNo := seqno,
                 sentSeqNo := 0, retxCount := 0, pc_packet := None\<rparr>
       in Some (c, w\<lparr>m_ptrcs := c # tl cs\<rparr>))"

definition PTR_Timer_start :: "timeval \<Rightarrow> nat \<Rightarrow> ptrclist \<Rightarrow> ptrclist" where
  "PTR_Timer_start now ms c = c\<lparr>alarm_time := add_ms_to_timeval now ms\<rparr>"

definition PTR_Timer_stop :: "ptrclist \<Rightarrow> ptrclist" where
  "PTR_Timer_stop c = c\<lparr>alarm_time := clear_timeval\<rparr>"

fun ptr_terminate_loop :: "ptrclist list \<Rightarrow> ptrclist list" where
  "ptr_terminate_loop [] = []"
| "ptr_terminate_loop (c # cs) = ptr_terminate_loop cs"

text \<open>The log file is closed without a check that it is open.\<close>

definition packettransport_terminate :: "bool \<Rightarrow> ptr_world \<Rightarrow> ptr_world option" where
  "packettransport_terminate log_open w =
    (if log_open then Some (w\<lparr>m_ptrcs := ptr_terminate_loop (m_ptrcs w)\<rparr>) else None)"

fun ptr_delete_loop :: "u16 \<Rightarrow> ptrclist list \<Rightarrow> int \<Rightarrow> int \<times> ptrclist list" where
  "ptr_delete_loop tid [] result = (result, [])"
| "ptr_delete_loop tid (c # cs) result =
    (if c_tid c = tid then ptr_delete_loop tid cs 1
     else (case ptr_delete_loop tid cs result of (r, cs') \<Rightarrow> (r, c # cs')))"

definition packettransport_delete_tid :: "u16 \<Rightarrow> ptr_world \<Rightarrow> int \<times> ptr_world" where
  "packettransport_delete_tid tid w =
    (case ptr_delete_loop tid (m_ptrcs w) 0 of (r, cs) \<Rightarrow> (r, w\<lparr>m_ptrcs := cs\<rparr>))"

fun ptr_alive_loop :: "u16 \<Rightarrow> ptrclist list \<Rightarrow> int" where
  "ptr_alive_loop tid [] = 0"
| "ptr_alive_loop tid (c # cs) = (if c_tid c = tid then 1 else ptr_alive_loop tid cs)"

definition packettransport_tid_is_alive :: "u16 \<Rightarrow> ptr_world \<Rightarrow> int" where
  "packettransport_tid_is_alive tid w = ptr_alive_loop tid (m_ptrcs w)"

section \<open>Sending\<close>

definition send_PTR_ACK :: "u16 \<Rightarrow> u16 \<Rightarrow> u16 \<Rightarrow> ptr_world \<Rightarrow> ptr_world option" where
  "send_PTR_ACK tid addr seqno w = do {
     p \<leftarrow> header_packet tid seqno PTR_FLAG_ACK;
     Some (ptr_write addr p w)
   }"

text \<open>The length is a \<open>uint8_t\<close>, also when the header is added to it.\<close>

definition packettransport_send ::
    "timeval \<Rightarrow> ptrclist \<Rightarrow> u16 \<Rightarrow> u16 \<Rightarrow> u8 \<Rightarrow> bytes \<Rightarrow> ptr_world \<Rightarrow> (int \<times> ptr_world) option" where
  "packettransport_send now mem tid addr len msg w0 = do {
     (c, w) \<leftarrow> (case find_connection (m_ptrcs w0) tid addr of
                 None \<Rightarrow> create_ptr_connection tid addr 0 mem w0
               | Some c \<Rightarrow> Some (c, w0));
     (if length msg < unat len then None
      else do {
        let c1 = c\<lparr>pc_len := len, retxCount := 0, sentSeqNo := sentSeqNo c + 1\<rparr>;
        let h = tr_packet_setHeader (replicate 6 0 @ take (unat len) msg) tid (sentSeqNo c1) PTR_FLAG_SEND 0;
        s \<leftarrow> tr_calculate_checksum h len;
        let p = put8 h 5 s;
        Some (1, ptr_put (PTR_Timer_start now PTR_ACK_TIMEOUT (c1\<lparr>pc_packet := Some p\<rparr>))
                   (ptr_write addr (take (unat (len + 6)) p) w))
      })
   }"

definition retx_PTR :: "ptrclist \<Rightarrow> ptr_world \<Rightarrow> (ptrclist \<times> ptr_world) option" where
  "retx_PTR c w = do {
     p \<leftarrow> pc_packet c;
     let h = tr_packet_setHeader p (c_tid c) (sentSeqNo c) PTR_FLAG_SEND 0;
     s \<leftarrow> tr_calculate_checksum h (pc_len c);
     let q = put8 h 5 s;
     Some (c\<lparr>pc_packet := Some q\<rparr>, ptr_write (c_addr c) (take (unat (pc_len c) + 6) q) w)
   }"

definition send_PTR_Done :: "ptrclist \<Rightarrow> bool \<Rightarrow> ptr_world \<Rightarrow> ptr_world" where
  "send_PTR_Done c success w =
    (ptr_put (c\<lparr>pc_packet := None\<rparr>) w)
      \<lparr>ptr_done := ptr_done w @
        [(c_tid c, c_addr c, pc_len c, map_option tr_packet_getPayload (pc_packet c), success)]\<rparr>"

section \<open>Receiving\<close>

definition receive_packettransport :: "u16 \<Rightarrow> u16 \<Rightarrow> bytes \<Rightarrow> ptr_world \<Rightarrow> ptr_world" where
  "receive_packettransport tid addr p w = w\<lparr>ptr_up := ptr_up w @ [(tid, addr, p)]\<rparr>"

definition ptr_receive_packet ::
    "u8 \<Rightarrow> u16 \<Rightarrow> u16 \<Rightarrow> u16 \<Rightarrow> ptrclist \<Rightarrow> bytes \<Rightarrow> ptr_world \<Rightarrow> ptr_world option" where
  "ptr_receive_packet flag tid addr seqno mem msg w0 = do {
     (c, w) \<leftarrow> (case find_connection (m_ptrcs w0) tid addr of
                 None \<Rightarrow> create_ptr_connection tid addr seqno mem w0
               | Some c \<Rightarrow> Some (c, w0));
     w1 \<leftarrow> (if tr_seqno_cmp seqno (lastRecvSeqNo c) > 0 then do {
              (missingCnt, c1) \<leftarrow> ptr_detectMissingPacket seqno c;
              Some (ptr_put (c1\<lparr>lastRecvSeqNo := seqno, totalRecvPackets := totalRecvPackets c1 + 1\<rparr>) w)
            } else Some w);
     w2 \<leftarrow> (if flag = PTR_FLAG_SEND then send_PTR_ACK tid addr seqno w1 else Some w1);
     Some (receive_packettransport tid addr msg w2)
   }"

text \<open>The length goes to the checksum as a \<open>uint8_t\<close>.\<close>

definition packettransport_receive :: "ptrclist \<Rightarrow> bytes \<Rightarrow> u16 \<Rightarrow> ptr_world \<Rightarrow> ptr_world option" where
  "packettransport_receive mem packet addr w =
    (if length packet < 6 then Some w
     else do {
       ok \<leftarrow> tr_checksum_check packet (of_nat (length packet - 6));
       let seqno = tr_packet_getSeqno packet;
       let tid = tr_packet_getTid packet;
       let flag = tr_packet_getFlag packet;
       (if ok < 0 then Some w
        else if flag = PTR_FLAG_ACK then
          (case find_connection (m_ptrcs w) tid addr of
             None \<Rightarrow> Some w
           | Some c \<Rightarrow> Some (send_PTR_Done (PTR_Timer_stop c) True w))
        else if flag = PTR_FLAG_SEND \<or> flag = PTR_FLAG_NOACK_SEND then
          ptr_receive_packet flag tid addr seqno mem (tr_packet_getPayload packet) w
        else Some w)
     })"

section \<open>Retransmission\<close>

definition PTR_Timer_fired :: "timeval \<Rightarrow> ptrclist \<Rightarrow> ptr_world \<Rightarrow> ptr_world option" where
  "PTR_Timer_fired now c w =
    (if retxCount c < PTR_MAX_NUM_RETX then do {
       (c1, w1) \<leftarrow> retx_PTR (c\<lparr>retxCount := retxCount c + 1\<rparr>) w;
       Some (ptr_put (PTR_Timer_start now PTR_ACK_TIMEOUT c1) w1)
     } else Some (send_PTR_Done c False w))"

definition polling_packettransport_timer :: "timeval \<Rightarrow> ptr_world \<Rightarrow> ptr_world option" where
  "polling_packettransport_timer now w =
    (case find (\<lambda>c. alarm_due_now c now) (m_ptrcs w) of
       None \<Rightarrow> Some w
     | Some c \<Rightarrow> PTR_Timer_fired now c w)"

primrec ptr_polls :: "timeval list \<Rightarrow> ptr_world \<Rightarrow> ptr_world option" where
  "ptr_polls [] w = Some w"
| "ptr_polls (t # ts) w = do {
     w' \<leftarrow> polling_packettransport_timer t w;
     ptr_polls ts w'
   }"

section \<open>The counting loop ends on every number of the wire\<close>

lemma tr_seqno_cmp_low:
  "\<exists>t. in_space 50000 t \<and> tr_seqno_cmp s t \<le> 0"
proof -
  consider (zero) "s = 0" | (in') "in_space 50000 s" | (out) "unat s > 50000"
    using not_less [of "50000 :: nat"] by (cases "unat s = 0") (auto simp: in_space_def word_eq_unat)
  then show ?thesis
  proof cases
    case zero
    have "tr_seqno_cmp 0 1 \<le> 0" by (simp add: tr_seqno_cmp_def consts_defs)
    then show ?thesis using zero by (intro exI [of _ 1]) (simp add: in_space_def)
  next
    case in'
    then show ?thesis using trs.cmp_refl [of s] by (intro exI [of _ s]) simp
  next
    case out
    let ?t = "s - 50000"
    have t: "unat ?t = unat s - 50000" using out by (simp add: unat_diff_u16)
    have s: "unat s < 65536" by (rule unat_u16_lt)
    have "unat (TR_MAX_SEQNO - s) = 115536 - unat s"
      using out s by (simp add: consts_defs unat_sub_if_size word_size)
    moreover have "unat s - 50000 + (115536 - unat s) = 65536" using out s by linarith
    ultimately have "unat (tr_seqno_add ?t (TR_MAX_SEQNO - s)) = 1"
      using t unfolding unat_tr_seqno_add by simp
    moreover have "\<not> s < ?t" "s \<noteq> ?t" using t out by (auto simp: word_to_nat)
    ultimately have "tr_seqno_cmp s ?t = -1"
      using t out unfolding tr_seqno_cmp_def by (simp add: consts_defs)
    moreover have "in_space 50000 ?t" unfolding in_space_def t using out s by linarith
    ultimately show ?thesis by (intro exI [of _ ?t]) simp
  qed
qed

lemma ptr_detect_loop_ends:
  assumes "tr_seqno_cmp s ((tr_seqno_next ^^ Suc (Suc m)) l) \<le> 0"
  shows "\<exists>k. ptr_detect_loop s l n = Some k"
  using assms
proof (induction m arbitrary: l n)
  case 0
  then show ?case by (simp add: ptr_detect_loop.simps [of s l n])
next
  case (Suc m)
  have "tr_seqno_cmp s ((tr_seqno_next ^^ Suc (Suc m)) (tr_seqno_next l)) \<le> 0"
    using Suc.prems by (simp only: funpow_swap1 funpow.simps(2) o_apply)
  from Suc.IH [OF this, of "n + 1"] show ?case
    by (simp add: ptr_detect_loop.simps [of s l n])
qed

lemma reach_number:
  assumes "in_space 50000 a" "in_space 50000 t"
  shows "\<exists>m. fwd 50000 a (Suc m) = t"
proof -
  let ?j = "unat t + 99999 - unat a"
  have "unat a - 1 + Suc ?j = unat t - 1 + 2 * 50000"
    using assms by (auto simp: in_space_def)
  moreover have "(unat t - 1 + 2 * 50000) mod 50000 = unat t - 1"
    unfolding mod_mult_self1 using assms(2) by (auto simp: in_space_def)
  ultimately have "(unat a - 1 + Suc ?j) mod 50000 = unat t - 1" by metis
  then have "fwd 50000 a (Suc ?j) = t"
    using assms by (simp add: word_eq_unat unat_fwd in_space_def)
  then show ?thesis by blast
qed

lemma ptr_detect_total: "\<exists>n. ptr_detectMissingPacket s c = Some (n, c\<lparr>totalLostPackets := totalLostPackets c + n\<rparr>)"
proof -
  let ?l = "lastRecvSeqNo c"
  obtain t where t: "in_space 50000 t" "tr_seqno_cmp s t \<le> 0" using tr_seqno_cmp_low by blast
  obtain m where "fwd 50000 (tr_seqno_next ?l) (Suc m) = t" using reach_number [OF tr_seqno_next_valid t(1)] by blast
  then have "(tr_seqno_next ^^ Suc m) (tr_seqno_next ?l) = t"
    using trs.funpow_nxt [of "tr_seqno_next ?l" "Suc m"] by simp
  then have "(tr_seqno_next ^^ Suc (Suc m)) ?l = t" by (simp only: funpow_Suc_right o_apply)
  then obtain k where k: "ptr_detect_loop s ?l 0 = Some k"
    using ptr_detect_loop_ends [of s m ?l 0] t(2) by auto
  show ?thesis
  proof (cases "tr_seqno_cmp s (tr_seqno_next ?l) > 0")
    case True
    then show ?thesis using k by (intro exI [of _ k]) (simp add: ptr_detectMissingPacket_def)
  next
    case False
    then show ?thesis by (intro exI [of _ 0]) (simp add: ptr_detectMissingPacket_def)
  qed
qed

section \<open>Receiving, once more\<close>

lemma ptr_receive_delivers:
  assumes "flag = PTR_FLAG_SEND \<or> flag = PTR_FLAG_NOACK_SEND"
  shows "\<exists>w' acks. ptr_receive_packet flag tid addr seqno mem msg w = Some w'
    \<and> ptr_up w' = ptr_up w @ [(tid, addr, msg)] \<and> ptr_sent w' = ptr_sent w @ acks \<and> ptr_done w' = ptr_done w
    \<and> (if flag = PTR_FLAG_SEND then \<exists>a. acks = [(addr, a)] \<and> tr_packet_getFlag a = PTR_FLAG_ACK
          \<and> tr_packet_getTid a = tid \<and> tr_packet_getSeqno a = seqno \<and> tr_checksum_check a 0 = Some 1
        else acks = [])"
proof -
  obtain a where a: "header_packet tid seqno PTR_FLAG_ACK = Some a" "tr_packet_getFlag a = PTR_FLAG_ACK"
    "tr_packet_getTid a = tid" "tr_packet_getSeqno a = seqno" "tr_checksum_check a 0 = Some 1"
    using header_packet_sealed by blast
  obtain c w1 where c: "(case find_connection (m_ptrcs w) tid addr of
                 None \<Rightarrow> create_ptr_connection tid addr seqno mem w
               | Some c \<Rightarrow> Some (c, w)) = Some (c, w1)"
    and s1: "ptr_up w1 = ptr_up w" "ptr_sent w1 = ptr_sent w" "ptr_done w1 = ptr_done w"
    by (cases "find_connection (m_ptrcs w) tid addr") (simp_all add: create_ptr_connection_def Let_def)
  obtain n where n: "ptr_detectMissingPacket seqno c = Some (n, c\<lparr>totalLostPackets := totalLostPackets c + n\<rparr>)"
    using ptr_detect_total by blast
  define w2 where "w2 = (if tr_seqno_cmp seqno (lastRecvSeqNo c) > 0
      then ptr_put (c\<lparr>totalLostPackets := totalLostPackets c + n, lastRecvSeqNo := seqno,
             totalRecvPackets := totalRecvPackets c + 1\<rparr>) w1 else w1)"
  have w2: "(if tr_seqno_cmp seqno (lastRecvSeqNo c) > 0 then do {
              (missingCnt, c1) \<leftarrow> ptr_detectMissingPacket seqno c;
              Some (ptr_put (c1\<lparr>lastRecvSeqNo := seqno, totalRecvPackets := totalRecvPackets c1 + 1\<rparr>) w1)
            } else Some w1) = Some w2"
    using n by (simp add: w2_def)
  have s2: "ptr_up w2 = ptr_up w" "ptr_sent w2 = ptr_sent w" "ptr_done w2 = ptr_done w"
    using s1 by (simp_all add: w2_def ptr_put_def)
  have "ptr_receive_packet flag tid addr seqno mem msg w
      = (if flag = PTR_FLAG_SEND then send_PTR_ACK tid addr seqno w2 else Some w2)
          \<bind> (\<lambda>w. Some (receive_packettransport tid addr msg w))"
    unfolding ptr_receive_packet_def c bind.bind_lunit prod.case w2 ..
  then show ?thesis using a s2
    by (simp add: send_PTR_ACK_def ptr_write_def receive_packettransport_def)
qed

lemma ptr_receive_sends_ack:
  assumes "header_packet tid seqno PTR_FLAG_ACK = Some a"
  shows "\<exists>w'. ptr_receive_packet PTR_FLAG_SEND tid addr seqno mem msg w = Some w'
    \<and> ptr_up w' = ptr_up w @ [(tid, addr, msg)] \<and> ptr_sent w' = ptr_sent w @ [(addr, a)]"
proof -
  obtain c w1 where c: "(case find_connection (m_ptrcs w) tid addr of
                 None \<Rightarrow> create_ptr_connection tid addr seqno mem w
               | Some c \<Rightarrow> Some (c, w)) = Some (c, w1)"
    and s1: "ptr_up w1 = ptr_up w" "ptr_sent w1 = ptr_sent w"
    by (cases "find_connection (m_ptrcs w) tid addr") (simp_all add: create_ptr_connection_def Let_def)
  obtain n where "ptr_detectMissingPacket seqno c = Some (n, c\<lparr>totalLostPackets := totalLostPackets c + n\<rparr>)"
    using ptr_detect_total by blast
  then show ?thesis using c s1 assms
    by (simp add: ptr_receive_packet_def send_PTR_ACK_def ptr_write_def receive_packettransport_def ptr_put_def)
qed

section \<open>Retransmission and giving up\<close>

text \<open>Sealing the stored packet once more changes nothing.\<close>

lemma nth_update_at: "j < length xs \<Longrightarrow> xs[i := x] ! j = (if i = j then x else xs ! j)"
  by (auto simp: nth_list_update)

lemma setHeader_again:
  "tr_packet_setHeader (put8 (tr_packet_setHeader p t s f 0) 5 c) t s f 0 = tr_packet_setHeader p t s f 0"
  by (rule nth_equalityI) (simp_all add: tr_packet_setHeader_def put8_def put16le_def nth_update_at)

definition ptr_holds :: "ptrclist \<Rightarrow> bytes \<Rightarrow> bool" where
  "ptr_holds c p \<longleftrightarrow> pc_packet c = Some p \<and> length p = unat (pc_len c) + 6
    \<and> (\<exists>q s. p = put8 (tr_packet_setHeader q (c_tid c) (sentSeqNo c) PTR_FLAG_SEND 0) 5 s
        \<and> tr_calculate_checksum (tr_packet_setHeader q (c_tid c) (sentSeqNo c) PTR_FLAG_SEND 0) (pc_len c) = Some s)"

lemma retx_same:
  assumes "ptr_holds c p"
  shows "retx_PTR c w = Some (c, ptr_write (c_addr c) p w)"
proof -
  obtain q s where q: "p = put8 (tr_packet_setHeader q (c_tid c) (sentSeqNo c) PTR_FLAG_SEND 0) 5 s"
    "tr_calculate_checksum (tr_packet_setHeader q (c_tid c) (sentSeqNo c) PTR_FLAG_SEND 0) (pc_len c) = Some s"
    using assms by (auto simp: ptr_holds_def)
  have "tr_packet_setHeader p (c_tid c) (sentSeqNo c) PTR_FLAG_SEND 0
      = tr_packet_setHeader q (c_tid c) (sentSeqNo c) PTR_FLAG_SEND 0"
    unfolding q(1) by (rule setHeader_again)
  then show ?thesis using assms q by (simp add: retx_PTR_def ptr_holds_def Let_def)
qed

text \<open>Polls, each at least the timeout after the one before.\<close>

fun polls_due :: "timeval \<Rightarrow> timeval list \<Rightarrow> bool" where
  "polls_due t0 [] = True"
| "polls_due t0 (t # ts) = (tv_ok t \<and> compare_timeval (add_ms_to_timeval t0 PTR_ACK_TIMEOUT) t \<le> 0
     \<and> polls_due t ts)"

lemma alarm_due_now_eq: "alarm_due_now c now = alarm_due (alarm_time c) now"
  by (auto simp: alarm_due_now_def alarm_due_def alarm_armed_def)

lemma polls_given_up:
  assumes "m_ptrcs w = c # rest" "\<forall>t \<in> set ts. alarm_due_now c t" "\<not> retxCount c < PTR_MAX_NUM_RETX"
    "pc_packet c = None"
  shows "ptr_polls ts w = Some (w\<lparr>ptr_done := ptr_done w
      @ replicate (length ts) (c_tid c, c_addr c, pc_len c, None, False)\<rparr>)"
  using assms
proof (induction ts arbitrary: w)
  case (Cons t ts)
  let ?w = "w\<lparr>ptr_done := ptr_done w @ [(c_tid c, c_addr c, pc_len c, None, False)]\<rparr>"
  have "c\<lparr>pc_packet := None\<rparr> = c" using Cons.prems(4) by simp
  then have "ptr_put (c\<lparr>pc_packet := None\<rparr>) w = w"
    using Cons.prems(1) by (simp add: ptr_put_def is_connection_def)
  then have "polling_packettransport_timer t w = Some ?w"
    using Cons.prems by (simp add: polling_packettransport_timer_def PTR_Timer_fired_def send_PTR_Done_def)
  moreover have "ptr_polls ts ?w = Some (?w\<lparr>ptr_done := ptr_done ?w
      @ replicate (length ts) (c_tid c, c_addr c, pc_len c, None, False)\<rparr>)"
    using Cons.prems by (intro Cons.IH) simp_all
  ultimately show ?case by simp
qed simp

lemma compare_add_ack: "tv_ok t \<Longrightarrow> compare_timeval t (add_ms_to_timeval t PTR_ACK_TIMEOUT) \<le> 0"
  by (simp add: compare_timeval_def add_ms_to_timeval_def Let_def consts_defs)

lemma polls_due_all:
  "polls_due t0 ts \<Longrightarrow> \<forall>t \<in> set ts. compare_timeval (add_ms_to_timeval t0 PTR_ACK_TIMEOUT) t \<le> 0"
proof (induction ts arbitrary: t0)
  case (Cons t ts)
  then show ?case
    using compare_timeval_le_trans compare_add_ack [of t] by (auto; blast)
qed simp

lemma ack_alarm_due:
  "tv_ok t0 \<Longrightarrow> compare_timeval (add_ms_to_timeval t0 PTR_ACK_TIMEOUT) t \<le> 0 \<Longrightarrow>
    alarm_time c = add_ms_to_timeval t0 PTR_ACK_TIMEOUT \<Longrightarrow> alarm_due_now c t"
  using add_ms_armed [of t0 PTR_ACK_TIMEOUT] by (simp add: alarm_due_now_eq alarm_due_def consts_defs)

lemma polls_retx:
  assumes "m_ptrcs w = c # rest" "ptr_holds c p" "alarm_time c = add_ms_to_timeval t0 PTR_ACK_TIMEOUT"
    "tv_ok t0" "retxCount c = int r" "r \<le> 5" "polls_due t0 ts"
  shows "\<exists>w'. ptr_polls ts w = Some w'
    \<and> ptr_sent w' = ptr_sent w @ replicate (min (length ts) (5 - r)) (c_addr c, p)
    \<and> ptr_done w' = ptr_done w @ (if length ts \<le> 5 - r then []
        else (c_tid c, c_addr c, pc_len c, Some (tr_packet_getPayload p), False)
          # replicate (length ts - (6 - r)) (c_tid c, c_addr c, pc_len c, None, False))"
  using assms
proof (induction ts arbitrary: w c t0 r)
  case (Cons t ts)
  have t: "tv_ok t" "compare_timeval (add_ms_to_timeval t0 PTR_ACK_TIMEOUT) t \<le> 0" "polls_due t ts"
    using Cons.prems(7) by simp_all
  have due: "find (\<lambda>c. alarm_due_now c t) (m_ptrcs w) = Some c"
    using ack_alarm_due [OF Cons.prems(4) t(2) Cons.prems(3)] Cons.prems(1) by simp
  show ?case
  proof (cases "r < 5")
    case True
    let ?c = "c\<lparr>retxCount := int (Suc r), alarm_time := add_ms_to_timeval t PTR_ACK_TIMEOUT\<rparr>"
    let ?w = "w\<lparr>m_ptrcs := ?c # rest, ptr_sent := ptr_sent w @ [(c_addr c, p)]\<rparr>"
    have "ptr_holds (c\<lparr>retxCount := int (Suc r)\<rparr>) p" using Cons.prems(2) by (simp add: ptr_holds_def)
    from retx_same [OF this, of w]
    have "polling_packettransport_timer t w = Some ?w"
      using due True Cons.prems(1,5)
      by (simp add: polling_packettransport_timer_def PTR_Timer_fired_def PTR_MAX_NUM_RETX_def ptr_write_def
          PTR_Timer_start_def ptr_put_def is_connection_def add.commute)
    moreover have "\<exists>w'. ptr_polls ts ?w = Some w'
      \<and> ptr_sent w' = ptr_sent ?w @ replicate (min (length ts) (5 - Suc r)) (c_addr ?c, p)
      \<and> ptr_done w' = ptr_done ?w @ (if length ts \<le> 5 - Suc r then []
        else (c_tid ?c, c_addr ?c, pc_len ?c, Some (tr_packet_getPayload p), False)
          # replicate (length ts - (6 - Suc r)) (c_tid ?c, c_addr ?c, pc_len ?c, None, False))"
      using Cons.prems(2) t True
      by (intro Cons.IH [where r = "Suc r" and ?t0.0 = t]) (simp_all add: ptr_holds_def)
    moreover have "min (Suc (length ts)) (5 - r) = Suc (min (length ts) (5 - Suc r))"
      "Suc (length ts) \<le> 5 - r \<longleftrightarrow> length ts \<le> 5 - Suc r" "Suc (length ts) - (6 - r) = length ts - (6 - Suc r)"
      using True by linarith+
    ultimately show ?thesis by auto
  next
    case False
    then have r: "r = 5" using Cons.prems(6) by simp
    let ?c = "c\<lparr>pc_packet := None\<rparr>"
    let ?w = "w\<lparr>m_ptrcs := ?c # rest,
        ptr_done := ptr_done w @ [(c_tid c, c_addr c, pc_len c, Some (tr_packet_getPayload p), False)]\<rparr>"
    have "polling_packettransport_timer t w = Some ?w"
      using due r Cons.prems(1,2,5)
      by (simp add: polling_packettransport_timer_def PTR_Timer_fired_def PTR_MAX_NUM_RETX_def
          send_PTR_Done_def ptr_put_def is_connection_def ptr_holds_def)
    moreover have "\<forall>t \<in> set ts. alarm_due_now ?c t"
      using polls_due_all [OF Cons.prems(7)] ack_alarm_due [OF Cons.prems(4), of _ ?c] Cons.prems(3) by simp
    then have "ptr_polls ts ?w = Some (?w\<lparr>ptr_done := ptr_done ?w
      @ replicate (length ts) (c_tid ?c, c_addr ?c, pc_len ?c, None, False)\<rparr>)"
      using Cons.prems(5) r by (intro polls_given_up) (simp_all add: PTR_MAX_NUM_RETX_def)
    ultimately show ?thesis using r by simp
  qed
qed simp

text \<open>What the call leaves behind on a new connection.\<close>

lemma send_new:
  assumes "find_connection (m_ptrcs w) tid addr = None" "unat len < 250" "unat len \<le> length msg"
  shows "\<exists>c p w'. packettransport_send now mem tid addr len msg w = Some (1, w')
    \<and> m_ptrcs w' = c # m_ptrcs w \<and> ptr_sent w' = ptr_sent w @ [(addr, p)] \<and> ptr_done w' = ptr_done w
    \<and> ptr_holds c p \<and> alarm_time c = add_ms_to_timeval now PTR_ACK_TIMEOUT \<and> retxCount c = 0
    \<and> c_tid c = tid \<and> c_addr c = addr \<and> pc_len c = len
    \<and> tr_packet_getPayload p = take (unat len) msg \<and> tr_packet_getTid p = tid
    \<and> tr_packet_getFlag p = PTR_FLAG_SEND \<and> tr_packet_getSeqno p = 1 \<and> tr_checksum_check p len = Some 1"
proof -
  let ?q = "replicate 6 0 @ take (unat len) msg"
  have "length ?q = 6 + unat len" using assms(3) by simp
  from seal_packet [OF this assms(2), of tid 1 PTR_FLAG_SEND]
  obtain s p where p: "tr_calculate_checksum (tr_packet_setHeader ?q tid 1 PTR_FLAG_SEND 0) len = Some s"
    "p = put8 (tr_packet_setHeader ?q tid 1 PTR_FLAG_SEND 0) 5 s" "tr_checksum_check p len = Some 1"
    "tr_packet_getTid p = tid" "tr_packet_getSeqno p = 1" "tr_packet_getFlag p = PTR_FLAG_SEND"
    "tr_packet_getPayload p = drop 6 ?q" "length p = length ?q"
    by (elim exE conjE) (rule that)
  have len: "unat (len + 6) = unat len + 6" using assms(2) by (simp add: unat_word_ariths)
  let ?c = "(hd (add_connection (m_ptrcs w) mem tid addr))
      \<lparr>connection_type := PROTOCOL_PACKET_TRANSPORT, lastRecvSeqNo := 0, sentSeqNo := 1, retxCount := 0,
       pc_packet := Some p, pc_len := len, alarm_time := add_ms_to_timeval now PTR_ACK_TIMEOUT\<rparr>"
  let ?w = "w\<lparr>m_ptrcs := ?c # m_ptrcs w, ptr_sent := ptr_sent w @ [(addr, p)]\<rparr>"
  have "packettransport_send now mem tid addr len msg w = Some (1, ?w)"
    using assms p(1,2,8) len
    by (simp add: packettransport_send_def create_ptr_connection_def Let_def ptr_put_def ptr_write_def
        PTR_Timer_start_def add_connection_def is_connection_def)
  moreover have "ptr_holds ?c p"
    using p(1,2,8) assms(3) unfolding ptr_holds_def
    by (intro conjI exI [of _ ?q] exI [of _ s]) (simp_all add: add_connection_def)
  ultimately show ?thesis using p(3-7)
    by (intro exI [of _ ?c] exI [of _ p] exI [of _ ?w]) (simp add: add_connection_def)
qed

section \<open>Properties\<close>

text \<open>
  Whatever the numbers on the wire, a packet with a correct checksum that is to be acknowledged is
  handed up once per reception and answered by exactly one acknowledgement that carries its task and
  number; a best-effort packet is handed up without an answer. The loop that counts losses always ends.
\<close>

theorem packet_delivered:
  assumes "6 \<le> length p" "tr_checksum_check p (of_nat (length p - 6)) = Some 1"
    "tr_packet_getFlag p = PTR_FLAG_SEND \<or> tr_packet_getFlag p = PTR_FLAG_NOACK_SEND"
  shows "\<exists>w' acks. packettransport_receive mem p addr w = Some w'
    \<and> ptr_up w' = ptr_up w @ [(tr_packet_getTid p, addr, tr_packet_getPayload p)]
    \<and> ptr_sent w' = ptr_sent w @ acks \<and> ptr_done w' = ptr_done w
    \<and> (if tr_packet_getFlag p = PTR_FLAG_SEND
        then \<exists>a. acks = [(addr, a)] \<and> tr_packet_getFlag a = PTR_FLAG_ACK
          \<and> tr_packet_getTid a = tr_packet_getTid p \<and> tr_packet_getSeqno a = tr_packet_getSeqno p
          \<and> tr_checksum_check a 0 = Some 1
        else acks = [])"
proof -
  have "packettransport_receive mem p addr w
      = ptr_receive_packet (tr_packet_getFlag p) (tr_packet_getTid p) addr (tr_packet_getSeqno p) mem
          (tr_packet_getPayload p) w"
    using assms by (auto simp: packettransport_receive_def consts_defs simp del: of_nat_diff)
  then show ?thesis using ptr_receive_delivers [OF assms(3)] by simp
qed

definition sample_ptr_mem :: ptrclist where
  "sample_ptr_mem = \<lparr>c_addr = 9, c_tid = 9, connection_type = 9, lastRecvSeqNo = 9, totalLostPackets = 9,
     totalRecvPackets = 9, alarm_time = clear_timeval, sentSeqNo = 9, pc_len = 9, pc_packet = None, retxCount = 9\<rparr>"

abbreviation sample_ptr_world :: ptr_world where
  "sample_ptr_world \<equiv> \<lparr>m_ptrcs = [], ptr_sent = [], ptr_up = [], ptr_done = []\<rparr>"

theorem packet_delivered_witness:
  "\<exists>w'. packettransport_receive sample_ptr_mem [7, 0, 0x60, 0xea, 0x40, 0x2e, 65] 3 sample_ptr_world = Some w'
    \<and> ptr_up w' = [(7, 3, [65])]"
proof -
  let ?p = "[7, 0, 0x60, 0xea, 0x40, 0x2e, 65] :: bytes"
  have "tr_checksum_check ?p 1 = Some 1"
    by (rule checksum_eval) (simp_all add: get8_def)
  moreover have "tr_packet_getFlag ?p = PTR_FLAG_SEND" "tr_packet_getTid ?p = 7" "tr_packet_getPayload ?p = [65]"
    by (simp_all add: tr_packet_getFlag_def tr_packet_getTid_def tr_packet_getPayload_def get16le_def get8_def
        consts_defs word_eq_unat unat_mk16)
  ultimately show ?thesis
    using packet_delivered [of ?p sample_ptr_mem 3 sample_ptr_world] by auto
qed

text \<open>
  C19: the whole exchange. The packet sent on a new connection reaches the application of
  the other end unchanged and once; its acknowledgement makes the sender report success with the bytes
  that were sent, and the timer of the connection is off.
\<close>

theorem packet_exchange:
  assumes "find_connection (m_ptrcs w) tid addr = None" "unat len < 250" "unat len \<le> length msg"
  shows "\<exists>w1 w2 p v' a c. packettransport_send now mem tid addr len msg w = Some (1, w1)
    \<and> ptr_sent w1 = ptr_sent w @ [(addr, p)]
    \<and> packettransport_receive mem' p from v = Some v'
    \<and> ptr_up v' = ptr_up v @ [(tid, from, take (unat len) msg)] \<and> ptr_sent v' = ptr_sent v @ [(from, a)]
    \<and> packettransport_receive mem'' a addr w1 = Some w2
    \<and> ptr_done w2 = ptr_done w @ [(tid, addr, len, Some (take (unat len) msg), True)]
    \<and> m_ptrcs w2 = c # m_ptrcs w \<and> alarm_time c = clear_timeval"
proof -
  from send_new [OF assms, of now mem]
  obtain c p w1 where s: "packettransport_send now mem tid addr len msg w = Some (1, w1)"
    "m_ptrcs w1 = c # m_ptrcs w" "ptr_sent w1 = ptr_sent w @ [(addr, p)]" "ptr_done w1 = ptr_done w"
    "ptr_holds c p" "alarm_time c = add_ms_to_timeval now PTR_ACK_TIMEOUT" "retxCount c = 0"
    "c_tid c = tid" "c_addr c = addr" "pc_len c = len"
    "tr_packet_getPayload p = take (unat len) msg" "tr_packet_getTid p = tid"
    "tr_packet_getFlag p = PTR_FLAG_SEND" "tr_packet_getSeqno p = 1" "tr_checksum_check p len = Some 1"
    by (elim exE conjE) (rule that)
  have "packettransport_receive mem' p from v
      = ptr_receive_packet PTR_FLAG_SEND tid from 1 mem' (take (unat len) msg) v"
    using s(5,10-15) by (simp add: packettransport_receive_def ptr_holds_def consts_defs)
  moreover obtain a where a: "header_packet tid 1 PTR_FLAG_ACK = Some a" "length a = 6"
    "tr_packet_getTid a = tid" "tr_packet_getFlag a = PTR_FLAG_ACK" "tr_checksum_check a 0 = Some 1"
    using header_packet_sealed by blast
  moreover obtain v' where "ptr_receive_packet PTR_FLAG_SEND tid from 1 mem' (take (unat len) msg) v = Some v'"
    "ptr_up v' = ptr_up v @ [(tid, from, take (unat len) msg)]" "ptr_sent v' = ptr_sent v @ [(from, a)]"
    using ptr_receive_sends_ack [OF a(1)] by blast
  moreover have "packettransport_receive mem'' a addr w1 = Some (send_PTR_Done (PTR_Timer_stop c) True w1)"
    using a(2-5) s(2,8,9) by (simp add: packettransport_receive_def is_connection_def)
  moreover have "ptr_done (send_PTR_Done (PTR_Timer_stop c) True w1)
      = ptr_done w @ [(tid, addr, len, Some (take (unat len) msg), True)]"
    "m_ptrcs (send_PTR_Done (PTR_Timer_stop c) True w1)
      = c\<lparr>alarm_time := clear_timeval, pc_packet := None\<rparr> # m_ptrcs w"
    using s(2,4,5,8-11)
    by (simp_all add: send_PTR_Done_def PTR_Timer_stop_def ptr_put_def is_connection_def ptr_holds_def)
  ultimately show ?thesis using s(1,3)
    by (intro exI [of _ w1] exI [of _ "send_PTR_Done (PTR_Timer_stop c) True w1"] exI [of _ p] exI [of _ v'] exI [of _ a]
        exI [of _ "c\<lparr>alarm_time := clear_timeval, pc_packet := None\<rparr>"]) simp
qed

theorem packet_exchange_witness:
  "\<exists>w1 w2 p v' a. packettransport_send \<lparr>tv_sec = 1, tv_usec = 0\<rparr> sample_ptr_mem 7 3 2 [65, 66] sample_ptr_world
      = Some (1, w1) \<and> ptr_sent w1 = [(3, p)]
    \<and> packettransport_receive sample_ptr_mem p 8 sample_ptr_world = Some v' \<and> ptr_up v' = [(7, 8, [65, 66])]
    \<and> packettransport_receive sample_ptr_mem a 3 w1 = Some w2 \<and> ptr_done w2 = [(7, 3, 2, Some [65, 66], True)]"
  using packet_exchange [of sample_ptr_world 7 3 2 "[65, 66]" "\<lparr>tv_sec = 1, tv_usec = 0\<rparr>" sample_ptr_mem sample_ptr_mem
      8 sample_ptr_world sample_ptr_mem]
  by (auto; blast)

text \<open>
  Without an acknowledgement the packet is sent at most six times, byte for byte the same, one copy
  per expired timer. Then failure is reported with the packet; the alarm is left as it is, so
  every later poll reports the failure again, now with no packet, and looks at no connection behind.
\<close>

theorem packet_gives_up:
  assumes "find_connection (m_ptrcs w) tid addr = None" "unat len < 250" "unat len \<le> length msg"
    and "tv_ok now" "polls_due now ts"
  shows "\<exists>w1 w' p. packettransport_send now mem tid addr len msg w = Some (1, w1) \<and> ptr_polls ts w1 = Some w'
    \<and> ptr_sent w' = ptr_sent w @ replicate (min (length ts + 1) 6) (addr, p)
    \<and> tr_packet_getPayload p = take (unat len) msg \<and> tr_checksum_check p len = Some 1
    \<and> ptr_done w' = ptr_done w @ (if length ts \<le> 5 then []
        else (tid, addr, len, Some (take (unat len) msg), False)
          # replicate (length ts - 6) (tid, addr, len, None, False))"
proof -
  from send_new [OF assms(1-3), of now mem]
  obtain c p w1 where s: "packettransport_send now mem tid addr len msg w = Some (1, w1)"
    "m_ptrcs w1 = c # m_ptrcs w" "ptr_sent w1 = ptr_sent w @ [(addr, p)]" "ptr_done w1 = ptr_done w"
    "ptr_holds c p" "alarm_time c = add_ms_to_timeval now PTR_ACK_TIMEOUT" "retxCount c = 0"
    "c_tid c = tid" "c_addr c = addr" "pc_len c = len"
    "tr_packet_getPayload p = take (unat len) msg" "tr_packet_getTid p = tid"
    "tr_packet_getFlag p = PTR_FLAG_SEND" "tr_packet_getSeqno p = 1" "tr_checksum_check p len = Some 1"
    by (elim exE conjE) (rule that)
  have zero: "retxCount c = int 0" using s(7) by simp
  from polls_retx [OF s(2,5,6) assms(4) zero _ assms(5)]
  obtain w' where r: "ptr_polls ts w1 = Some w'"
    "ptr_sent w' = ptr_sent w1 @ replicate (min (length ts) (5 - 0)) (c_addr c, p)"
    "ptr_done w' = ptr_done w1 @ (if length ts \<le> 5 - 0 then []
        else (c_tid c, c_addr c, pc_len c, Some (tr_packet_getPayload p), False)
          # replicate (length ts - (6 - 0)) (c_tid c, c_addr c, pc_len c, None, False))"
    by auto
  have "min (length ts + 1) 6 = Suc (min (length ts) 5)" by linarith
  then show ?thesis using s r
    by (intro exI [of _ w1] exI [of _ w'] exI [of _ p]) simp
qed

theorem packet_gives_up_witness:
  "\<exists>w1 w' p. packettransport_send \<lparr>tv_sec = 1, tv_usec = 0\<rparr> sample_ptr_mem 7 3 1 [65] sample_ptr_world = Some (1, w1)
    \<and> ptr_polls (map (\<lambda>s. \<lparr>tv_sec = s, tv_usec = 0\<rparr>) [4, 7, 10, 13, 16, 19, 22]) w1 = Some w'
    \<and> ptr_sent w' = [(3, p), (3, p), (3, p), (3, p), (3, p), (3, p)]
    \<and> ptr_done w' = [(7, 3, 1, Some [65], False), (7, 3, 1, None, False)]"
proof -
  have "polls_due \<lparr>tv_sec = 1, tv_usec = 0\<rparr> (map (\<lambda>s. \<lparr>tv_sec = s, tv_usec = 0\<rparr>) [4, 7, 10, 13, 16, 19, 22])"
    by (simp add: tv_ok_def compare_timeval_def add_ms_to_timeval_def Let_def consts_defs)
  then show ?thesis
    using packet_gives_up [of sample_ptr_world 7 3 1 "[65]" "\<lparr>tv_sec = 1, tv_usec = 0\<rparr>"
        "map (\<lambda>s. \<lparr>tv_sec = s, tv_usec = 0\<rparr>) [4, 7, 10, 13, 16, 19, 22]" sample_ptr_mem]
    by (auto simp: tv_ok_def)
qed

end
