(* ===== verification/Tid_List.thy ===== *)
theory Tid_List
  imports Prelude
begin

text \<open>
  Model of src/master/transport/tidlist.c, the part that keeps the table of transactions: which task identifier belongs
  to which client of the transport daemon. The linked list is the list of its nodes, newest first; the time stamp,
  which nothing reads, is left out, and so is printing. The file that keeps the next identifier over a restart is a
  field of the state: \<open>None\<close> when there is none, \<open>Some None\<close> when it holds no number. \<open>None\<close> as the result of
  \<open>assign_new_tid\<close> is a loop that does not end.
\<close>

definition ALL_TID :: u16 where [consts_defs]: "ALL_TID = 0xffff"
definition MAX_TID :: u16 where [consts_defs]: "MAX_TID = 0xc350"
definition MIN_TID :: u16 where [consts_defs]: "MIN_TID = 1"

record tid_list =
  tl_tid :: u16
  tl_addr :: u16
  tl_type :: u8
  tl_fd :: int

record tid_state =
  tids :: "tid_list list"
  num_tids :: int
  myTID :: u16
  tid_file :: "u16 option option"
  tid_writable :: bool

section \<open>The file\<close>

definition store_tid :: "tid_state \<Rightarrow> tid_state" where
  "store_tid s = (if tid_writable s then s\<lparr>tid_file := Some (Some (myTID s))\<rparr> else s)"

definition tidlist_terminate :: "tid_state \<Rightarrow> tid_state" where
  "tidlist_terminate s = store_tid s"

definition tidlist_init :: "tid_state \<Rightarrow> u16 \<times> tid_state" where
  "tidlist_init s0 =
    (let s = s0\<lparr>num_tids := 0\<rparr>;
         s' = (case tid_file s of
                 None \<Rightarrow> store_tid (s\<lparr>myTID := 1\<rparr>)
               | Some None \<Rightarrow> s
               | Some (Some n) \<Rightarrow> s\<lparr>myTID := n\<rparr>)
     in (myTID s', s'))"

section \<open>The list\<close>

definition tidlist_find_tid :: "tid_state \<Rightarrow> u16 \<Rightarrow> tid_list option" where
  "tidlist_find_tid s tid = find (\<lambda>t. tl_tid t = tid) (tids s)"

definition find_client_fd :: "tid_state \<Rightarrow> u16 \<Rightarrow> int" where
  "find_client_fd s tid = (case tidlist_find_tid s tid of None \<Rightarrow> -1 | Some t \<Rightarrow> tl_fd t)"

text \<open>An identifier that is in the list keeps its entry.\<close>

definition tidlist_add_tid :: "u16 \<Rightarrow> u16 \<Rightarrow> u8 \<Rightarrow> int \<Rightarrow> tid_state \<Rightarrow> tid_state" where
  "tidlist_add_tid tid addr type fd s =
    (case tidlist_find_tid s tid of
       Some t \<Rightarrow> s
     | None \<Rightarrow> s\<lparr>tids := \<lparr>tl_tid = tid, tl_addr = addr, tl_type = type, tl_fd = fd\<rparr> # tids s,
                 num_tids := num_tids s + 1\<rparr>)"

fun rem_first_tid :: "u16 \<Rightarrow> tid_list list \<Rightarrow> tid_list list" where
  "rem_first_tid tid [] = []"
| "rem_first_tid tid (t # ts) = (if tl_tid t = tid then ts else t # rem_first_tid tid ts)"

definition tidlist_remove_tid :: "u16 \<Rightarrow> tid_state \<Rightarrow> tid_state" where
  "tidlist_remove_tid tid s =
    (case tidlist_find_tid s tid of
       None \<Rightarrow> s
     | Some t \<Rightarrow> s\<lparr>tids := rem_first_tid tid (tids s), num_tids := num_tids s - 1\<rparr>)"

definition tidlist_num_tids :: "tid_state \<Rightarrow> int" where
  "tidlist_num_tids s = num_tids s"

text \<open>A change of the type through the pointer that \<open>tidlist_find_tid\<close> returned.\<close>

fun set_first_type :: "u16 \<Rightarrow> u8 \<Rightarrow> tid_list list \<Rightarrow> tid_list list" where
  "set_first_type tid ty [] = []"
| "set_first_type tid ty (t # ts) =
    (if tl_tid t = tid then t\<lparr>tl_type := ty\<rparr> # ts else t # set_first_type tid ty ts)"

definition set_tid_type :: "u16 \<Rightarrow> u8 \<Rightarrow> tid_state \<Rightarrow> tid_state" where
  "set_tid_type tid ty s = s\<lparr>tids := set_first_type tid ty (tids s)\<rparr>"

section \<open>A new identifier\<close>

definition tid_free :: "tid_state \<Rightarrow> u16 \<Rightarrow> bool" where
  "tid_free s tid \<longleftrightarrow> tid \<noteq> 0 \<and> tid \<ge> MIN_TID \<and> tid \<le> MAX_TID \<and> tidlist_find_tid s tid = None"

partial_function (option) assign_loop :: "u16 \<Rightarrow> tid_state \<Rightarrow> (u16 \<times> tid_state) option" where
  "assign_loop tid s =
    (if tid_free s tid then Some (tid, s)
     else assign_loop (if myTID s > MAX_TID then MIN_TID else myTID s) (s\<lparr>myTID := myTID s + 1\<rparr>))"

definition assign_new_tid :: "u16 \<Rightarrow> tid_state \<Rightarrow> (u16 \<times> tid_state) option" where
  "assign_new_tid tid0 s0 = do {
     (tid, s) \<leftarrow> assign_loop tid0 s0;
     let s1 = s\<lparr>myTID := tid + 1\<rparr>;
     let s2 = (if myTID s1 > MAX_TID then s1\<lparr>myTID := MIN_TID\<rparr> else s1);
     Some (tid, store_tid s2)
   }"

section \<open>Lemmas\<close>

definition tid_inv :: "tid_state \<Rightarrow> bool" where
  "tid_inv s \<longleftrightarrow> distinct (map tl_tid (tids s)) \<and> num_tids s = int (length (tids s))"

lemma tidlist_find_None: "tidlist_find_tid s tid = None \<longleftrightarrow> tid \<notin> tl_tid ` set (tids s)"
  unfolding tidlist_find_tid_def by (rule find_key_None)

lemma tidlist_find_Some:
  "tid_inv s \<Longrightarrow> tidlist_find_tid s tid = Some t \<longleftrightarrow> t \<in> set (tids s) \<and> tl_tid t = tid"
  unfolding tidlist_find_tid_def tid_inv_def by (rule find_key_Some) simp

lemma tidlist_find_SomeD: "tidlist_find_tid s tid = Some t \<Longrightarrow> t \<in> set (tids s) \<and> tl_tid t = tid"
  by (auto simp: tidlist_find_tid_def find_Some_iff)

lemma rem_first_tid_eq:
  "distinct (map tl_tid ts) \<Longrightarrow> rem_first_tid tid ts = filter (\<lambda>t. tl_tid t \<noteq> tid) ts"
proof (induction ts)
  case (Cons t ts)
  have "tid \<notin> tl_tid ` set ts \<Longrightarrow> filter (\<lambda>t. tl_tid t \<noteq> tid) ts = ts" by (rule filter_True) auto
  then show ?case using Cons by (cases "tl_tid t = tid") auto
qed simp

lemma rem_first_tid_set: "set (rem_first_tid tid ts) \<subseteq> set ts"
  by (induction ts) auto

lemma length_rem_first_tid:
  "tid \<in> tl_tid ` set ts \<Longrightarrow> Suc (length (rem_first_tid tid ts)) = length ts"
  by (induction ts) auto

lemma distinct_rem_first_tid:
  "distinct (map tl_tid ts) \<Longrightarrow> distinct (map tl_tid (rem_first_tid tid ts))"
  by (simp add: rem_first_tid_eq distinct_map_filter)

lemma set_first_type_keys [simp]:
  "map tl_tid (set_first_type tid ty ts) = map tl_tid ts"
  "length (set_first_type tid ty ts) = length ts"
  by (induction ts) simp_all

lemma set_first_type_in:
  "t \<in> set (set_first_type tid ty ts) \<Longrightarrow> t \<in> set ts \<or> (\<exists>u \<in> set ts. tl_tid u = tid \<and> t = u\<lparr>tl_type := ty\<rparr>)"
  by (induction ts) (auto split: if_splits)

lemma tid_inv_add: "tid_inv s \<Longrightarrow> tid_inv (tidlist_add_tid tid addr ty fd s)"
  by (auto simp: tid_inv_def tidlist_add_tid_def tidlist_find_None split: option.splits)

lemma tid_inv_remove:
  assumes "tid_inv s"
  shows "tid_inv (tidlist_remove_tid tid s)"
proof (cases "tidlist_find_tid s tid")
  case None
  then show ?thesis using assms by (simp add: tidlist_remove_tid_def)
next
  case (Some t)
  then have "tid \<in> tl_tid ` set (tids s)" by (auto dest: tidlist_find_SomeD)
  from length_rem_first_tid [OF this] show ?thesis
    using assms Some by (simp add: tidlist_remove_tid_def tid_inv_def distinct_rem_first_tid)
qed

lemma tid_inv_type: "tid_inv s \<Longrightarrow> tid_inv (set_tid_type tid ty s)"
  by (simp add: tid_inv_def set_tid_type_def)

lemma assign_loop_frame:
  assumes "assign_loop tid s = Some r"
  shows "tid_free s (fst r) \<and> (\<exists>m. snd r = s\<lparr>myTID := m\<rparr>)"
proof (rule assign_loop.raw_induct [OF _ assms])
  fix f :: "u16 \<Rightarrow> tid_state \<Rightarrow> (u16 \<times> tid_state) option" and tid s r
  assume IH: "\<And>tid s r. f tid s = Some r \<Longrightarrow> tid_free s (fst r) \<and> (\<exists>m. snd r = s\<lparr>myTID := m\<rparr>)"
  assume r: "(if tid_free s tid then Some (tid, s)
     else f (if myTID s > MAX_TID then MIN_TID else myTID s) (s\<lparr>myTID := myTID s + 1\<rparr>)) = Some r"
  show "tid_free s (fst r) \<and> (\<exists>m. snd r = s\<lparr>myTID := m\<rparr>)"
  proof (cases "tid_free s tid")
    case True
    then show ?thesis using r by (auto intro: exI [of _ "myTID s"])
  next
    case False
    then have "tid_free (s\<lparr>myTID := myTID s + 1\<rparr>) (fst r) \<and> (\<exists>m. snd r = s\<lparr>myTID := myTID s + 1, myTID := m\<rparr>)"
      using r by (intro IH) simp
    then show ?thesis by (auto simp: tid_free_def tidlist_find_tid_def)
  qed
qed

lemma assign_loop_ends:
  assumes "tid_free s t"
  shows "assign_loop tid s \<noteq> None"
  using assms
proof (induction "unat (t - myTID s)" arbitrary: tid s)
  case 0
  then have t: "t = myTID s" by (simp add: unat_eq_0)
  then have "\<not> myTID s > MAX_TID" using 0(2) by (simp add: tid_free_def not_less)
  then have "assign_loop (if myTID s > MAX_TID then MIN_TID else myTID s) (s\<lparr>myTID := myTID s + 1\<rparr>) \<noteq> None"
    using 0(2) t by (subst assign_loop.simps) (simp add: tid_free_def tidlist_find_tid_def)
  then show ?case by (subst assign_loop.simps) simp
next
  case (Suc n)
  let ?s = "s\<lparr>myTID := myTID s + 1\<rparr>"
  have "t - myTID s \<noteq> 0" using Suc(2) by (metis nat.distinct(1) unat_0)
  then have "n = unat (t - myTID ?s)"
    using Suc(2) unat_minus_one [of "t - myTID s"] by (simp add: diff_diff_add)
  moreover have "tid_free ?s t" using Suc(3) by (simp add: tid_free_def tidlist_find_tid_def)
  ultimately have "assign_loop (if myTID s > MAX_TID then MIN_TID else myTID s) ?s \<noteq> None"
    by (rule Suc(1))
  then show ?case by (subst assign_loop.simps) simp
qed

lemma assign_new_tid_result:
  assumes "assign_new_tid tid0 s = Some (t, s')"
  shows "tid_free s t \<and> tids s' = tids s \<and> num_tids s' = num_tids s
    \<and> myTID s' = (if t = MAX_TID then MIN_TID else t + 1)
    \<and> (tid_writable s \<longrightarrow> tid_file s' = Some (Some (myTID s')))"
proof -
  obtain s1 where l: "assign_loop tid0 s = Some (t, s1)"
    using assms by (auto simp: assign_new_tid_def Let_def split: bind_splits)
  from assign_loop_frame [OF l] obtain m where f: "tid_free s t" "s1 = s\<lparr>myTID := m\<rparr>" by auto
  have "unat t \<le> 50000" using f(1) by (simp add: tid_free_def consts_defs word_le_nat_alt)
  then have "t + 1 > MAX_TID \<longleftrightarrow> t = MAX_TID"
    by (simp add: consts_defs word_to_nat unat_add_u16) linarith
  then show ?thesis using assms f l
    by (auto simp: assign_new_tid_def Let_def store_tid_def)
qed

text \<open>
  A request for a new identifier is answered exactly if one of the 50000 is free, and otherwise the daemon hangs;
  the answer is free, lies in 1..50000, leaves the table alone, and the next search starts behind it, also after a
  restart when the file can be written.
\<close>

theorem assign_new_tid_correct:
  "(assign_new_tid 0 s \<noteq> None \<longleftrightarrow> (\<exists>t. 1 \<le> unat t \<and> unat t \<le> 50000 \<and> t \<notin> tl_tid ` set (tids s))) \<and>
   (case assign_new_tid 0 s of None \<Rightarrow> True | Some (t, s') \<Rightarrow>
      1 \<le> unat t \<and> unat t \<le> 50000 \<and> t \<notin> tl_tid ` set (tids s) \<and> tids s' = tids s \<and> num_tids s' = num_tids s
      \<and> myTID s' = (if t = 50000 then 1 else t + 1)
      \<and> (if tid_writable s then myTID (snd (tidlist_init s')) = myTID s' else True))"
proof -
  have free: "tid_free s t \<longleftrightarrow> 1 \<le> unat t \<and> unat t \<le> 50000 \<and> t \<notin> tl_tid ` set (tids s)" for t
    unfolding tid_free_def tidlist_find_None consts_defs
    by (auto simp: word_le_nat_alt word_eq_unat)
  have "assign_new_tid 0 s \<noteq> None \<longleftrightarrow> (\<exists>t. tid_free s t)"
  proof
    assume "assign_new_tid 0 s \<noteq> None"
    then obtain t s' where "assign_new_tid 0 s = Some (t, s')" by auto
    then show "\<exists>t. tid_free s t" using assign_new_tid_result by blast
  next
    assume "\<exists>t. tid_free s t"
    then obtain t where "tid_free s t" ..
    then have "assign_loop 0 s \<noteq> None" by (rule assign_loop_ends)
    then show "assign_new_tid 0 s \<noteq> None" by (auto simp: assign_new_tid_def Let_def)
  qed
  moreover have "case assign_new_tid 0 s of None \<Rightarrow> True | Some (t, s') \<Rightarrow>
      tid_free s t \<and> tids s' = tids s \<and> num_tids s' = num_tids s
      \<and> myTID s' = (if t = 50000 then 1 else t + 1)
      \<and> (if tid_writable s then myTID (snd (tidlist_init s')) = myTID s' else True)"
  proof (cases "assign_new_tid 0 s")
    case (Some r)
    obtain t s' where "r = (t, s')" by (cases r)
    with Some have r: "assign_new_tid 0 s = Some (t, s')" by simp
    have "myTID (snd (tidlist_init s')) = myTID s'" if "tid_file s' = Some (Some (myTID s'))"
      using that by (simp add: tidlist_init_def Let_def)
    then show ?thesis using assign_new_tid_result [OF r]
      unfolding r option.case prod.case by (simp add: MAX_TID_def MIN_TID_def)
  qed simp
  ultimately show ?thesis unfolding free by (simp only: conj_assoc)
qed

end
