(* ===== verification/Routing_Layer.thy ===== *)
theory Routing_Layer
  imports Prelude
begin

text \<open>
  The packets of the master below the transport protocols: the routing header of
  src/master/transport/routinglayer.c (structure in src/mote/lib/router/routinglayer.h) and the link header of
  \<open>send_TOS_Msg\<close> in src/master/include/tosmsg.c (the old format of five bytes, which src/master/include/Makerules
  chooses). \<open>me\<close> is \<open>TOS_LOCAL_ADDRESS()\<close>. What is handed to the socket of the router is the result; a failing
  write ends the program and is left out.
\<close>

unbundle bit_operations_syntax

definition TOS_DEFAULT_GROUP :: u8 where [consts_defs]: "TOS_DEFAULT_GROUP = 0x7d"
definition AM_TENET_ROUTING :: u8 where [consts_defs]: "AM_TENET_ROUTING = 0x77"
definition AM_BS_SERVICE :: u8 where [consts_defs]: "AM_BS_SERVICE = 0xBB"
definition RT_PROTOCOL_PACKET :: u8 where [consts_defs]: "RT_PROTOCOL_PACKET = 0x10"
definition RT_PROTOCOL_STREAM :: u8 where [consts_defs]: "RT_PROTOCOL_STREAM = 0x20"
definition RT_PROTOCOL_RCR :: u8 where [consts_defs]: "RT_PROTOCOL_RCR = 0x50"
definition PROTOCOL_TCMP :: u8 where [consts_defs]: "PROTOCOL_TCMP = 0x04"
definition PROTOCOL_MASK :: u8 where [consts_defs]: "PROTOCOL_MASK = 0xfc"
definition PROTOCOL_DOWNLINK_BIT :: u8 where [consts_defs]: "PROTOCOL_DOWNLINK_BIT = 0x02"
definition RT_DEFAULT_TTL :: u8 where [consts_defs]: "RT_DEFAULT_TTL = 20"

section \<open>The link header\<close>

definition send_TOS_Msg :: "bytes \<Rightarrow> u8 \<Rightarrow> u16 \<Rightarrow> u8 \<Rightarrow> bytes" where
  "send_TOS_Msg data type addr grp =
    [lo8 addr, hi8 addr, type, grp, of_nat (length data)] @ data"

section \<open>The routing header\<close>

record routing_msg =
  rm_payload :: bytes
  rm_srcAddr :: u16
  rm_dstAddr :: u16
  rm_prevhop :: u16
  rm_protocol :: u8
  rm_ttl :: u8

text \<open>Nothing is sent for an empty message.\<close>

definition write_routing_msg :: "u16 \<Rightarrow> bytes \<Rightarrow> u8 \<Rightarrow> u16 \<Rightarrow> u8 \<Rightarrow> bytes option" where
  "write_routing_msg me msg protocol addr ttl =
    (if length msg = 0 then None
     else Some (send_TOS_Msg
       ([lo8 me, hi8 me, lo8 addr, hi8 addr, lo8 me, hi8 me, ttl, protocol OR PROTOCOL_DOWNLINK_BIT] @ msg)
       AM_TENET_ROUTING addr TOS_DEFAULT_GROUP))"

text \<open>The length in the link header must fit the packet, cover the routing header, and the packet must not be longer than 128 bytes.\<close>

definition read_routing_msg :: "bytes \<Rightarrow> routing_msg option" where
  "read_routing_msg packet =
    (let len = length packet; tos_length = unat (get8 packet 4)
     in if get8 packet 2 \<noteq> AM_TENET_ROUTING then None
        else if len \<noteq> 5 + tos_length \<or> tos_length < 8 \<or> len > 128 \<or> len < 8 then None
        else Some \<lparr>rm_payload = drop 13 packet, rm_srcAddr = get16le packet 5, rm_dstAddr = get16le packet 7,
                   rm_prevhop = get16le packet 9, rm_protocol = get8 packet 12, rm_ttl = get8 packet 11\<rparr>)"

section \<open>Reading what was written\<close>

lemma get_Cons [simp]:
  "get8 (x # xs) 0 = x" "get8 (x # xs) (Suc n) = get8 xs n"
  by (simp_all add: get8_def)

lemma get8_Cons_num: "get8 (x # xs) (numeral n) = get8 xs (pred_numeral n)"
  by (simp only: numeral_eq_Suc get_Cons)

lemma written_fields:
  assumes "p = [lo8 addr, hi8 addr, AM_TENET_ROUTING, g, n] @
      [lo8 me, hi8 me, lo8 addr, hi8 addr, lo8 me, hi8 me, ttl, pr] @ msg"
  shows "get8 p 2 = AM_TENET_ROUTING" "get8 p 4 = n" "drop 13 p = msg" "length p = 13 + length msg"
    "get16le p 5 = me" "get16le p 7 = addr" "get16le p 9 = me" "get8 p 11 = ttl" "get8 p 12 = pr"
  by (simp_all add: assms get16le_def get8_Cons_num)

lemma write_routing_msg_Some: "msg \<noteq> [] \<Longrightarrow> write_routing_msg me msg pr addr ttl = Some
    ([lo8 addr, hi8 addr, AM_TENET_ROUTING, TOS_DEFAULT_GROUP, of_nat (8 + length msg)] @
      [lo8 me, hi8 me, lo8 addr, hi8 addr, lo8 me, hi8 me, ttl, pr OR PROTOCOL_DOWNLINK_BIT] @ msg)"
  by (simp add: write_routing_msg_def send_TOS_Msg_def)

lemma routing_written:
  assumes "write_routing_msg me msg pr addr ttl = Some p"
  shows "read_routing_msg p = (if length msg \<le> 115 then Some \<lparr>rm_payload = msg, rm_srcAddr = me,
    rm_dstAddr = addr, rm_prevhop = me, rm_protocol = pr OR PROTOCOL_DOWNLINK_BIT, rm_ttl = ttl\<rparr> else None)"
proof -
  have "msg \<noteq> []" using assms by (auto simp: write_routing_msg_def)
  then have p: "p = [lo8 addr, hi8 addr, AM_TENET_ROUTING, TOS_DEFAULT_GROUP, of_nat (8 + length msg)] @
      [lo8 me, hi8 me, lo8 addr, hi8 addr, lo8 me, hi8 me, ttl, pr OR PROTOCOL_DOWNLINK_BIT] @ msg"
    using assms by (simp add: write_routing_msg_Some)
  note f = written_fields [OF p]
  have n: "unat (of_nat (8 + length msg) :: u8) = (8 + length msg) mod 256" by (rule unat_of_nat_u8)
  show ?thesis unfolding read_routing_msg_def Let_def f n by auto
qed

text \<open>
  A message that the transport hands to the routing layer is read at the next master as the same message with
  its addresses, protocol and hop limit exactly if it has 1 to 115 bytes; an empty one is not sent, and a longer
  one is sent, but no master accepts it.
\<close>

theorem routing_roundtrip:
  "(case write_routing_msg me msg pr addr ttl of
      None \<Rightarrow> msg = []
    | Some p \<Rightarrow> msg \<noteq> [] \<and> length p = 13 + length msg \<and>
        (if length msg \<le> 115 then read_routing_msg p = Some \<lparr>rm_payload = msg, rm_srcAddr = me,
            rm_dstAddr = addr, rm_prevhop = me, rm_protocol = pr OR PROTOCOL_DOWNLINK_BIT, rm_ttl = ttl\<rparr>
         else read_routing_msg p = None))"
proof (cases "msg = []")
  case True
  then show ?thesis by (simp add: write_routing_msg_def)
next
  case False
  from write_routing_msg_Some [OF False, of me pr addr ttl] obtain p where
    p: "write_routing_msg me msg pr addr ttl = Some p" "length p = 13 + length msg" by simp
  then show ?thesis using False routing_written [OF p(1)] by simp
qed

end
