(* ===== verification/Tcmp.thy ===== *)
theory Tcmp
  imports Connection_List
begin

text \<open>
  Model of src/master/transport/tcmp.c (records and constants in tcmp.h): ping and trace route. The world is the list of
  running requests, the packets given to the routing layer with their destination and hop limit, and the calls that go
  up in their order: an answer for the application, or the release of the task identifier. A pointer to a request is
  its position in the list. Clock, contents of new memory, the byte of a packet that nobody writes, and the result
  that \<open>subtract_timeval\<close> leaves alone when the clock ran backwards are arguments; debugging output is left out.
\<close>

definition TCMP_FLAG_PING :: u8 where [consts_defs]: "TCMP_FLAG_PING = 0x10"
definition TCMP_FLAG_PING_ACK :: u8 where [consts_defs]: "TCMP_FLAG_PING_ACK = 0x18"
definition TCMP_FLAG_TRACERT :: u8 where [consts_defs]: "TCMP_FLAG_TRACERT = 0x20"
definition TCMP_FLAG_TRACERT_ACK :: u8 where [consts_defs]: "TCMP_FLAG_TRACERT_ACK = 0x28"
definition TCMP_DEFAULT_NUM_PING :: nat where [consts_defs]: "TCMP_DEFAULT_NUM_PING = 5"
definition TCMP_DEFAULT_NUM_TRACERT :: nat where [consts_defs]: "TCMP_DEFAULT_NUM_TRACERT = 3"
definition TCMP_TIMEOUT :: nat where [consts_defs]: "TCMP_TIMEOUT = 5000"
definition TCMP_BCAST_ADDR :: u16 where [consts_defs]: "TCMP_BCAST_ADDR = 0xffff"
definition TCMP_DEFAULT_TTL :: u8 where [consts_defs]: "TCMP_DEFAULT_TTL = 20"

record tcmplist =
  tc_type :: u8
  tc_tid :: u16
  tc_addr :: u16
  tc_seqno :: u16
  tc_ttl :: u8
  tc_sent :: timeval
  tc_alarm :: timeval

datatype tcmp_event =
  Ping_Ack u16 u16 bytes
| Tracert_Ack u16 u16 bytes
| Remove_Tid u16

record tcmp_world =
  tcmps :: "tcmplist list"
  tc_out :: "(u16 \<times> u8 \<times> bytes) list"
  tc_events :: "tcmp_event list"

record tcmp_env =
  t_now :: timeval
  t_mem :: tcmplist
  t_byte :: u8
  t_rtt :: timeval

section \<open>The list of requests\<close>

definition add_tcmp :: "tcmp_env \<Rightarrow> u16 \<Rightarrow> u16 \<Rightarrow> u8 \<Rightarrow> tcmp_world \<Rightarrow> tcmp_world" where
  "add_tcmp e tid addr ty w =
    w\<lparr>tcmps := (t_mem e)\<lparr>tc_type := ty, tc_tid := tid, tc_addr := addr, tc_seqno := 1, tc_ttl := 1,
      tc_alarm := clear_timeval\<rparr> # tcmps w\<rparr>"

definition tcmp_matches :: "u16 \<Rightarrow> u16 \<Rightarrow> tcmplist \<Rightarrow> bool" where
  "tcmp_matches tid addr t \<longleftrightarrow>
    tc_tid t = tid \<and> (tc_addr t = addr \<or> tc_addr t = TCMP_BCAST_ADDR \<or> addr = TCMP_BCAST_ADDR)"

fun find_tcmp :: "tcmplist list \<Rightarrow> u16 \<Rightarrow> u16 \<Rightarrow> nat option" where
  "find_tcmp [] tid addr = None"
| "find_tcmp (t # ts) tid addr =
    (if tcmp_matches tid addr t then Some 0 else map_option Suc (find_tcmp ts tid addr))"

definition find_tcmp_by_tid :: "tcmplist list \<Rightarrow> u16 \<Rightarrow> nat option" where
  "find_tcmp_by_tid ts tid = find_tcmp ts tid TCMP_BCAST_ADDR"

definition rem_tcmp :: "nat \<Rightarrow> tcmplist list \<Rightarrow> tcmplist list" where
  "rem_tcmp i ts = take i ts @ drop (Suc i) ts"

definition remove_tcmp :: "u16 \<Rightarrow> u16 \<Rightarrow> tcmp_world \<Rightarrow> tcmp_world" where
  "remove_tcmp tid addr w =
    (case find_tcmp (tcmps w) tid addr of None \<Rightarrow> w | Some i \<Rightarrow> w\<lparr>tcmps := rem_tcmp i (tcmps w)\<rparr>)"

definition TCMP_Timer_start :: "timeval \<Rightarrow> nat \<Rightarrow> tcmplist \<Rightarrow> tcmplist" where
  "TCMP_Timer_start now ms t = t\<lparr>tc_alarm := add_ms_to_timeval now ms\<rparr>"

definition TCMP_Timer_stop :: "tcmplist \<Rightarrow> tcmplist" where
  "TCMP_Timer_stop t = t\<lparr>tc_alarm := clear_timeval\<rparr>"

section \<open>Packets\<close>

definition tcmp_packet :: "tcmp_env \<Rightarrow> u16 \<Rightarrow> u16 \<Rightarrow> u8 \<Rightarrow> bytes" where
  "tcmp_packet e tid seqno flag = [lo8 tid, hi8 tid, lo8 seqno, hi8 seqno, flag, t_byte e]"

definition tcmp_write :: "u16 \<Rightarrow> u8 \<Rightarrow> bytes \<Rightarrow> tcmp_world \<Rightarrow> tcmp_world" where
  "tcmp_write addr ttl p w = w\<lparr>tc_out := tc_out w @ [(addr, ttl, p)]\<rparr>"

definition tcmp_up :: "tcmp_event \<Rightarrow> tcmp_world \<Rightarrow> tcmp_world" where
  "tcmp_up ev w = w\<lparr>tc_events := tc_events w @ [ev]\<rparr>"

definition tcmp_put :: "nat \<Rightarrow> tcmplist \<Rightarrow> tcmp_world \<Rightarrow> tcmp_world" where
  "tcmp_put i t w = w\<lparr>tcmps := (tcmps w)[i := t]\<rparr>"

definition le32 :: "int \<Rightarrow> bytes" where
  "le32 n = map (\<lambda>k. word_of_int (n div 2 ^ (8 * k))) [0..<4]"

text \<open>The answer that goes to the application, \<open>PingMsg\<close>.\<close>

definition PingMsg :: "timeval \<Rightarrow> u16 \<Rightarrow> u16 \<Rightarrow> bytes" where
  "PingMsg rtt seqno node = le32 (tv_sec rtt) @ le32 (tv_usec rtt) @ [lo8 seqno, hi8 seqno, lo8 node, hi8 node]"

definition send_PING_ACK :: "tcmp_env \<Rightarrow> u16 \<Rightarrow> u16 \<Rightarrow> u16 \<Rightarrow> tcmp_world \<Rightarrow> tcmp_world" where
  "send_PING_ACK e tid addr seqno w =
    tcmp_write addr TCMP_DEFAULT_TTL (tcmp_packet e tid seqno TCMP_FLAG_PING_ACK) w"

definition send_TRACERT_ACK :: "tcmp_env \<Rightarrow> u16 \<Rightarrow> u16 \<Rightarrow> u16 \<Rightarrow> tcmp_world \<Rightarrow> tcmp_world" where
  "send_TRACERT_ACK e tid addr seqno w =
    tcmp_write addr TCMP_DEFAULT_TTL (tcmp_packet e tid seqno TCMP_FLAG_TRACERT_ACK) w"

section \<open>Sending requests\<close>

text \<open>The request at a position, found or new.\<close>

definition tcmp_request :: "tcmp_env \<Rightarrow> u16 \<Rightarrow> u16 \<Rightarrow> u8 \<Rightarrow> tcmp_world \<Rightarrow> nat \<times> tcmp_world" where
  "tcmp_request e tid addr ty w =
    (case find_tcmp (tcmps w) tid addr of Some i \<Rightarrow> (i, w) | None \<Rightarrow> (0, add_tcmp e tid addr ty w))"

definition tcmp_mark_sent :: "tcmp_env \<Rightarrow> tcmplist \<Rightarrow> tcmplist" where
  "tcmp_mark_sent e t = TCMP_Timer_start (t_now e) TCMP_TIMEOUT (t\<lparr>tc_sent := copy_timeval (t_now e)\<rparr>)"

definition TCMP_send_ping :: "tcmp_env \<Rightarrow> u16 \<Rightarrow> u16 \<Rightarrow> tcmp_world \<Rightarrow> tcmp_world" where
  "TCMP_send_ping e tid addr w0 =
    (case tcmp_request e tid addr TCMP_FLAG_PING w0 of (i, w) \<Rightarrow>
       let t = tcmps w ! i
       in tcmp_write addr TCMP_DEFAULT_TTL (tcmp_packet e (tc_tid t) (tc_seqno t) (tc_type t))
            (tcmp_put i (tcmp_mark_sent e t) w))"

definition TCMP_send_tracert :: "tcmp_env \<Rightarrow> u16 \<Rightarrow> u16 \<Rightarrow> tcmp_world \<Rightarrow> tcmp_world" where
  "TCMP_send_tracert e tid addr w0 =
    (case tcmp_request e tid addr TCMP_FLAG_TRACERT w0 of (i, w) \<Rightarrow>
       let t = tcmps w ! i
       in tcmp_write addr (tc_ttl t) (tcmp_packet e tid (tc_seqno t) (tc_type t))
            (tcmp_put i (tcmp_mark_sent e t) w))"

section \<open>Answers\<close>

definition tcmp_rtt :: "tcmp_env \<Rightarrow> timeval \<Rightarrow> timeval" where
  "tcmp_rtt e sent =
    (let rtt = (case subtract_timeval (t_now e) sent of None \<Rightarrow> t_rtt e | Some d \<Rightarrow> d)
     in if tv_sec rtt \<ge> int TCMP_TIMEOUT div 1000 - 1 then \<lparr>tv_sec = -1, tv_usec = 0\<rparr> else rtt)"

definition receive_PING_ACK :: "tcmp_env \<Rightarrow> u16 \<Rightarrow> u16 \<Rightarrow> u16 \<Rightarrow> tcmp_world \<Rightarrow> tcmp_world" where
  "receive_PING_ACK e tid addr seqno w =
    (case find_tcmp (tcmps w) tid addr of
       None \<Rightarrow> w
     | Some i \<Rightarrow>
         let t = tcmps w ! i in
         if seqno \<noteq> tc_seqno t \<and> tc_addr t \<noteq> TCMP_BCAST_ADDR then w
         else
           let rtt = (if addr = TCMP_BCAST_ADDR then \<lparr>tv_sec = -1, tv_usec = 0\<rparr> else tcmp_rtt e (tc_sent t));
               w1 = (if tc_addr t \<noteq> TCMP_BCAST_ADDR \<or> tv_sec rtt \<noteq> -1
                     then tcmp_up (Ping_Ack tid addr (PingMsg rtt (tc_seqno t) addr))
                            (tcmp_put i (t\<lparr>tc_seqno := tc_seqno t + 1\<rparr>) w)
                     else w)
           in if tc_addr t = TCMP_BCAST_ADDR \<and> tv_sec rtt \<noteq> -1 then w1
              else if (if tc_addr t = TCMP_BCAST_ADDR then TCMP_DEFAULT_NUM_PING else unat seqno) < TCMP_DEFAULT_NUM_PING
              then TCMP_send_ping e tid (tc_addr t) w1
              else tcmp_up (Remove_Tid tid) (remove_tcmp tid (tc_addr t) w1))"

text \<open>The hop limit is a byte.\<close>

definition receive_TRACERT_ACK :: "tcmp_env \<Rightarrow> u16 \<Rightarrow> u16 \<Rightarrow> u16 \<Rightarrow> tcmp_world \<Rightarrow> tcmp_world" where
  "receive_TRACERT_ACK e tid addr seqno w =
    (case find_tcmp_by_tid (tcmps w) tid of
       None \<Rightarrow> w
     | Some i \<Rightarrow>
         let t = tcmps w ! i; dst = tc_addr t in
         if seqno \<noteq> tc_seqno t then w
         else
           let t1 = t\<lparr>tc_seqno := tc_seqno t + 1\<rparr>;
               w1 = tcmp_up (Tracert_Ack tid dst (PingMsg (tcmp_rtt e (tc_sent t)) (tc_seqno t) addr)) (tcmp_put i t1 w)
           in if unat seqno < TCMP_DEFAULT_NUM_TRACERT * unat (tc_ttl t) then TCMP_send_tracert e tid dst w1
              else if addr \<noteq> dst then TCMP_send_tracert e tid dst (tcmp_put i (t1\<lparr>tc_ttl := tc_ttl t + 1\<rparr>) w1)
              else tcmp_up (Remove_Tid tid) (remove_tcmp tid dst w1))"

text \<open>\<open>me\<close> is the local address; a packet that ends before its flag is read past its end (\<open>None\<close>).\<close>

definition TCMP_receive :: "tcmp_env \<Rightarrow> u16 \<Rightarrow> bytes \<Rightarrow> u16 \<Rightarrow> u16 \<Rightarrow> tcmp_world \<Rightarrow> tcmp_world option" where
  "TCMP_receive e me packet src dst w =
    (if length packet < 5 then None
     else
       let flag = get8 packet 4; tid = get16le packet 0; seqno = get16le packet 2
       in if flag = TCMP_FLAG_PING then Some (send_PING_ACK e tid src seqno w)
          else if flag = TCMP_FLAG_PING_ACK then
            Some (if dst \<noteq> me then w else receive_PING_ACK e tid src seqno w)
          else if flag = TCMP_FLAG_TRACERT then Some (send_TRACERT_ACK e tid src seqno w)
          else if flag = TCMP_FLAG_TRACERT_ACK then
            Some (if dst \<noteq> me then w else receive_TRACERT_ACK e tid src seqno w)
          else Some w)"

section \<open>Timers\<close>

definition TCMP_Timer_fired :: "tcmp_env \<Rightarrow> tcmplist \<Rightarrow> tcmp_world \<Rightarrow> tcmp_world" where
  "TCMP_Timer_fired e t w =
    (if tc_type t = TCMP_FLAG_PING then receive_PING_ACK e (tc_tid t) (tc_addr t) (tc_seqno t) w
     else if tc_type t = TCMP_FLAG_TRACERT then receive_TRACERT_ACK e (tc_tid t) (tc_addr t) (tc_seqno t) w
     else w)"

definition tcmp_due :: "timeval \<Rightarrow> tcmplist \<Rightarrow> bool" where
  "tcmp_due now t \<longleftrightarrow>
    (tv_sec (tc_alarm t) > 0 \<or> tv_usec (tc_alarm t) > 0) \<and> compare_timeval (tc_alarm t) now \<le> 0"

definition polling_tcmp_timer :: "tcmp_env \<Rightarrow> tcmp_world \<Rightarrow> tcmp_world" where
  "polling_tcmp_timer e w =
    (case find (tcmp_due (t_now e)) (tcmps w) of None \<Rightarrow> w | Some t \<Rightarrow> TCMP_Timer_fired e t w)"

section \<open>A ping\<close>

text \<open>
  What can happen while a ping is out: the node answers it, its timeout is polled, or a packet arrives that answers
  another number. The first two are progress.
\<close>

datatype ping_round = Answered tcmp_env | Timed_Out tcmp_env | Stray tcmp_env u16

fun progress :: "ping_round list \<Rightarrow> (tcmp_env \<times> bool) list" where
  "progress [] = []"
| "progress (Answered e # rs) = (e, True) # progress rs"
| "progress (Timed_Out e # rs) = (e, False) # progress rs"
| "progress (Stray e q # rs) = progress rs"

fun ping_run :: "u16 \<Rightarrow> u16 \<Rightarrow> u16 \<Rightarrow> nat \<Rightarrow> ping_round list \<Rightarrow> tcmp_world \<Rightarrow> tcmp_world option" where
  "ping_run me tid addr k [] w = Some w"
| "ping_run me tid addr k (Answered e # rs) w =
    TCMP_receive e me (tcmp_packet e tid (of_nat k) TCMP_FLAG_PING_ACK) addr me w \<bind> ping_run me tid addr (Suc k) rs"
| "ping_run me tid addr k (Timed_Out e # rs) w = ping_run me tid addr (Suc k) rs (polling_tcmp_timer e w)"
| "ping_run me tid addr k (Stray e q # rs) w =
    TCMP_receive e me (tcmp_packet e tid q TCMP_FLAG_PING_ACK) addr me w \<bind> ping_run me tid addr k rs"

text \<open>The timeouts really have expired, and a stray packet does not carry the number that is awaited.\<close>

fun ping_rounds_ok :: "nat \<Rightarrow> timeval \<Rightarrow> ping_round list \<Rightarrow> bool" where
  "ping_rounds_ok k sent [] = True"
| "ping_rounds_ok k sent (Answered e # rs) = (tv_ok (t_now e) \<and> ping_rounds_ok (Suc k) (t_now e) rs)"
| "ping_rounds_ok k sent (Timed_Out e # rs) = (tv_ok (t_now e)
    \<and> compare_timeval (add_ms_to_timeval sent TCMP_TIMEOUT) (t_now e) \<le> 0 \<and> ping_rounds_ok (Suc k) (t_now e) rs)"
| "ping_rounds_ok k sent (Stray e q # rs) = (q \<noteq> of_nat k \<and> ping_rounds_ok k sent rs)"

fun ping_rtts :: "timeval \<Rightarrow> (tcmp_env \<times> bool) list \<Rightarrow> timeval list" where
  "ping_rtts sent [] = []"
| "ping_rtts sent ((e, answered) # ps) =
    (if answered then tcmp_rtt e sent else \<lparr>tv_sec = -1, tv_usec = 0\<rparr>) # ping_rtts (t_now e) ps"

lemma packet_fields:
  "get8 (tcmp_packet e tid q f) 4 = f" "get16le (tcmp_packet e tid q f) 0 = tid"
  "get16le (tcmp_packet e tid q f) 2 = q" "length (tcmp_packet e tid q f) = 6"
  by (simp_all add: tcmp_packet_def get8_def get16le_def)

lemma receive_ping_packet:
  "TCMP_receive e me (tcmp_packet e' tid q TCMP_FLAG_PING_ACK) addr me w = Some (receive_PING_ACK e tid addr q w)"
  by (simp add: TCMP_receive_def packet_fields Let_def) (simp add: consts_defs)

lemma receive_tracert_packet:
  "TCMP_receive e me (tcmp_packet e' tid q TCMP_FLAG_TRACERT_ACK) addr me w = Some (receive_TRACERT_ACK e tid addr q w)"
  by (simp add: TCMP_receive_def packet_fields Let_def) (simp add: consts_defs)

lemmas tcmp_ops = tcmp_up_def tcmp_put_def tcmp_write_def remove_tcmp_def rem_tcmp_def tcmp_request_def
  tcmp_mark_sent_def TCMP_Timer_start_def copy_timeval_def

lemma ping_step:
  assumes "tcmps w = [t]" "tc_tid t = tid" "tc_addr t = addr" "addr \<noteq> TCMP_BCAST_ADDR"
    "tc_seqno t = of_nat k" "k \<le> 5"
  shows "receive_PING_ACK e tid addr (of_nat k) w =
    w\<lparr>tcmps := (if k < 5 then [tcmp_mark_sent e (t\<lparr>tc_seqno := of_nat (Suc k)\<rparr>)] else []),
      tc_out := tc_out w @ (if k < 5 then [(addr, TCMP_DEFAULT_TTL, tcmp_packet e tid (of_nat (Suc k)) (tc_type t))] else []),
      tc_events := tc_events w @ Ping_Ack tid addr (PingMsg (tcmp_rtt e (tc_sent t)) (of_nat k) addr)
        # (if k < 5 then [] else [Remove_Tid tid])\<rparr>"
proof -
  have k: "unat (of_nat k :: u16) = k" using assms(6) by (simp add: unat_of_nat_u16)
  have m: "tcmp_matches tid addr (t\<lparr>tc_seqno := q\<rparr>)" "tcmp_matches tid addr t" for q
    using assms by (simp_all add: tcmp_matches_def)
  show ?thesis using assms
    by (auto simp: receive_PING_ACK_def m k Let_def TCMP_send_ping_def tcmp_ops TCMP_DEFAULT_NUM_PING_def add.commute)
qed

lemma ping_stray:
  assumes "tcmps w = [] \<or> (\<exists>t. tcmps w = [t] \<and> tc_addr t \<noteq> TCMP_BCAST_ADDR \<and> tc_seqno t \<noteq> q)"
  shows "receive_PING_ACK e tid addr q w = w"
  using assms by (auto simp: receive_PING_ACK_def Let_def)

lemma rtt_expired:
  assumes "tv_ok sent" "tv_ok (t_now e)" "compare_timeval (add_ms_to_timeval sent TCMP_TIMEOUT) (t_now e) \<le> 0"
  shows "tcmp_rtt e sent = \<lparr>tv_sec = -1, tv_usec = 0\<rparr>"
  using assms
  by (auto simp: tcmp_rtt_def compare_timeval_def add_ms_to_timeval_def subtract_timeval_def tv_ok_def Let_def
      consts_defs split: if_splits)

lemma alarm_after_start:
  assumes "tv_ok sent" "tc_alarm t = add_ms_to_timeval sent TCMP_TIMEOUT"
    "compare_timeval (add_ms_to_timeval sent TCMP_TIMEOUT) now \<le> 0"
  shows "tcmp_due now t"
  using assms by (auto simp: tcmp_due_def add_ms_to_timeval_def tv_ok_def Let_def consts_defs)

lemma ping_poll:
  assumes "tcmps w = [t]" "tcmp_due (t_now e) t" "tc_type t = TCMP_FLAG_PING"
  shows "polling_tcmp_timer e w = receive_PING_ACK e (tc_tid t) (tc_addr t) (tc_seqno t) w"
  using assms by (simp add: polling_tcmp_timer_def TCMP_Timer_fired_def)

definition ping_state :: "u16 \<Rightarrow> u16 \<Rightarrow> nat \<Rightarrow> timeval \<Rightarrow> tcmp_world \<Rightarrow> bool" where
  "ping_state tid addr k sent w \<longleftrightarrow> (\<exists>t. tcmps w = [t] \<and> tc_tid t = tid \<and> tc_addr t = addr \<and> addr \<noteq> TCMP_BCAST_ADDR
    \<and> tc_type t = TCMP_FLAG_PING \<and> tc_seqno t = of_nat k \<and> tc_sent t = sent
    \<and> tc_alarm t = add_ms_to_timeval sent TCMP_TIMEOUT)"

definition ping_done :: "u16 \<Rightarrow> u16 \<Rightarrow> nat \<Rightarrow> timeval \<Rightarrow> (tcmp_env \<times> bool) list \<Rightarrow> tcmp_world \<Rightarrow> tcmp_world \<Rightarrow> bool" where
  "ping_done tid addr k sent ps w w' \<longleftrightarrow> tcmps w' = []
    \<and> tc_events w' = tc_events w @ map (\<lambda>(j, r). Ping_Ack tid addr (PingMsg r (of_nat j) addr))
        (zip [k..<6] (ping_rtts sent ps)) @ [Remove_Tid tid]
    \<and> tc_out w' = tc_out w @ map (\<lambda>(j, e, b). (addr, TCMP_DEFAULT_TTL, tcmp_packet e tid (of_nat j) TCMP_FLAG_PING))
        (zip [Suc k..<6] ps)"

lemma ping_run_idle: "tcmps w = [] \<Longrightarrow> progress rs = [] \<Longrightarrow> ping_run me tid addr k rs w = Some w"
  by (induction rs rule: progress.induct) (simp_all add: receive_ping_packet ping_stray)

lemma ping_advance:
  assumes st: "ping_state tid addr k sent w" and k: "k \<le> 5" "k + length ps = 5"
    and w1: "w1 = receive_PING_ACK e tid addr (of_nat k) w" and r: "ping_rtts sent ((e, b) # ps) = tcmp_rtt e sent # rs"
    and rest: "k < 5 \<Longrightarrow> ping_state tid addr (Suc k) (t_now e) w1 \<Longrightarrow>
      \<exists>w'. run w1 = Some w' \<and> ping_done tid addr (Suc k) (t_now e) ps w1 w'"
    and last: "k = 5 \<Longrightarrow> tcmps w1 = [] \<Longrightarrow> run w1 = Some w1"
  shows "\<exists>w'. run w1 = Some w' \<and> ping_done tid addr k sent ((e, b) # ps) w w'"
proof -
  obtain t where t: "tcmps w = [t]" "tc_tid t = tid" "tc_addr t = addr" "addr \<noteq> TCMP_BCAST_ADDR"
    "tc_type t = TCMP_FLAG_PING" "tc_seqno t = of_nat k" "tc_sent t = sent"
    using st by (auto simp: ping_state_def)
  note w1' = w1 [unfolded ping_step [OF t(1-4,6) k(1)]]
  have rs: "rs = ping_rtts (t_now e) ps" using r by (auto split: if_splits)
  show ?thesis
  proof (cases "k < 5")
    case True
    have "ping_state tid addr (Suc k) (t_now e) w1"
      using True t by (simp add: w1' ping_state_def tcmp_ops)
    from rest [OF True this] obtain w' where "run w1 = Some w'" "ping_done tid addr (Suc k) (t_now e) ps w1 w'" by blast
    moreover have "[k..<6] = k # [Suc k..<6]" "[Suc k..<6] = Suc k # [Suc (Suc k)..<6]"
      using True by (simp_all add: upt_rec [of k] upt_rec [of "Suc k"])
    ultimately show ?thesis using True t r rs by (simp add: ping_done_def w1')
  next
    case False
    then have "k = 5" "ps = []" using k by simp_all
    moreover have "run w1 = Some w1" using \<open>k = 5\<close> by (intro last) (simp_all add: w1')
    ultimately show ?thesis using t r rs by (simp add: ping_done_def w1' upt_rec)
  qed
qed

lemma ping_run_completes:
  "ping_state tid addr k sent w \<Longrightarrow> k + length (progress rs) = 6 \<Longrightarrow> k \<le> 5 \<Longrightarrow> tv_ok sent \<Longrightarrow>
    ping_rounds_ok k sent rs \<Longrightarrow>
    \<exists>w'. ping_run me tid addr k rs w = Some w' \<and> ping_done tid addr k sent (progress rs) w w'"
proof (induction rs arbitrary: k sent w)
  case (Cons r rs)
  obtain t where t: "tcmps w = [t]" "tc_tid t = tid" "tc_addr t = addr" "addr \<noteq> TCMP_BCAST_ADDR"
    "tc_type t = TCMP_FLAG_PING" "tc_seqno t = of_nat k" "tc_alarm t = add_ms_to_timeval sent TCMP_TIMEOUT"
    using Cons.prems(1) by (auto simp: ping_state_def)
  show ?case
  proof (cases r)
    case (Answered e)
    have "\<exists>w'. ping_run me tid addr (Suc k) rs (receive_PING_ACK e tid addr (of_nat k) w) = Some w' \<and>
        ping_done tid addr k sent ((e, True) # progress rs) w w'"
      using Cons.prems Answered
      by (intro ping_advance [OF _ _ _ refl, where rs = "ping_rtts (t_now e) (progress rs)"] Cons.IH ping_run_idle) auto
    then show ?thesis by (simp add: Answered receive_ping_packet)
  next
    case (Timed_Out e)
    note ok = Cons.prems(5) [unfolded Timed_Out, simplified]
    have "tcmp_due (t_now e) t" using ok by (intro alarm_after_start [OF Cons.prems(4) t(7)]) blast
    then have "polling_tcmp_timer e w = receive_PING_ACK e tid addr (of_nat k) w" using ping_poll t by simp
    moreover have "tcmp_rtt e sent = \<lparr>tv_sec = -1, tv_usec = 0\<rparr>" using ok by (intro rtt_expired [OF Cons.prems(4)]) blast+
    then have "\<exists>w'. ping_run me tid addr (Suc k) rs (receive_PING_ACK e tid addr (of_nat k) w) = Some w' \<and>
        ping_done tid addr k sent ((e, False) # progress rs) w w'"
      using Cons.prems Timed_Out
      by (intro ping_advance [OF _ _ _ refl, where rs = "ping_rtts (t_now e) (progress rs)"] Cons.IH ping_run_idle) auto
    ultimately show ?thesis by (simp add: Timed_Out)
  next
    case (Stray e q)
    have "receive_PING_ACK e tid addr q w = w" using Cons.prems(5) t Stray by (intro ping_stray) auto
    then show ?thesis using Cons Stray by (simp add: receive_ping_packet)
  qed
qed simp

text \<open>
  A ping of one node always comes to its end: whatever mix of answers and expired timeouts its five rounds are, and
  whatever packets with other numbers arrive in between, five packets numbered 1 to 5 go out, the application gets
  exactly five reports in that order, each with its round-trip time or the mark of a timeout, and then the request and
  its identifier are released.
\<close>

theorem ping_completes:
  assumes "addr \<noteq> 0xffff" "tcmps w = []" "tv_ok (t_now e)" "length (progress rs) = 5" "ping_rounds_ok 1 (t_now e) rs"
  shows "\<exists>w'. ping_run me tid addr 1 rs (TCMP_send_ping e tid addr w) = Some w' \<and> tcmps w' = []
    \<and> tc_events w' = tc_events w @ map (\<lambda>(j, r). Ping_Ack tid addr (PingMsg r (of_nat j) addr))
        (zip [1..<6] (ping_rtts (t_now e) (progress rs))) @ [Remove_Tid tid]
    \<and> tc_out w' = tc_out w @ map (\<lambda>(j, e, b). (addr, 20, tcmp_packet e tid (of_nat j) 0x10))
        (zip [1..<6] ((e, True) # progress rs))"
proof -
  let ?w = "TCMP_send_ping e tid addr w"
  have w: "ping_state tid addr 1 (t_now e) ?w" "tc_events ?w = tc_events w"
    "tc_out ?w = tc_out w @ [(addr, 20, tcmp_packet e tid 1 0x10)]"
    using assms by (simp_all add: TCMP_send_ping_def ping_state_def tcmp_ops add_tcmp_def Let_def consts_defs)
  obtain w' where "ping_run me tid addr 1 rs ?w = Some w'" "ping_done tid addr 1 (t_now e) (progress rs) ?w w'"
    using ping_run_completes [OF w(1)] assms by auto
  moreover have "[Suc (Suc 0)..<6] = [2, 3, 4, 5]" "[Suc 0..<6] = [1, 2, 3, 4, 5]"
    by (simp_all add: upt_rec numeral_2_eq_2 [symmetric])
  ultimately show ?thesis using w(2,3) by (simp add: ping_done_def consts_defs)
qed

definition sample_request :: tcmplist where
  "sample_request = \<lparr>tc_type = 0, tc_tid = 0, tc_addr = 0, tc_seqno = 0, tc_ttl = 0, tc_sent = clear_timeval,
    tc_alarm = clear_timeval\<rparr>"

definition at_second :: "int \<Rightarrow> tcmp_env" where
  "at_second s = \<lparr>t_now = \<lparr>tv_sec = s, tv_usec = 7\<rparr>, t_mem = sample_request, t_byte = 0xaa, t_rtt = clear_timeval\<rparr>"

definition sample_rounds :: "ping_round list" where
  "sample_rounds = [Answered (at_second 101), Stray (at_second 102) 1, Timed_Out (at_second 107), Answered (at_second 108),
    Answered (at_second 110), Timed_Out (at_second 115), Stray (at_second 116) 5]"

theorem ping_completes_witness:
  "\<exists>w'. ping_run 1 9 33 1 sample_rounds (TCMP_send_ping (at_second 100) 9 33 \<lparr>tcmps = [], tc_out = [], tc_events = []\<rparr>) = Some w'
    \<and> tcmps w' = []
    \<and> tc_events w' = tc_events \<lparr>tcmps = [], tc_out = [], tc_events = []\<rparr> @ map (\<lambda>(j, r). Ping_Ack 9 33 (PingMsg r (of_nat j) 33))
        (zip [1..<6] (ping_rtts (t_now (at_second 100)) (progress sample_rounds))) @ [Remove_Tid 9]
    \<and> tc_out w' = tc_out \<lparr>tcmps = [], tc_out = [], tc_events = []\<rparr> @ map (\<lambda>(j, e, b). (33, 20, tcmp_packet e 9 (of_nat j) 0x10))
        (zip [1..<6] ((at_second 100, True) # progress sample_rounds))"
  by (rule ping_completes)
    (simp_all add: sample_rounds_def at_second_def tv_ok_def consts_defs compare_timeval_def add_ms_to_timeval_def)

section \<open>A trace route\<close>

text \<open>The probes of a trace in order: each is answered by a node, or its timeout is polled.\<close>

fun trace_run :: "u16 \<Rightarrow> u16 \<Rightarrow> nat \<Rightarrow> (tcmp_env \<times> u16 option) list \<Rightarrow> tcmp_world \<Rightarrow> tcmp_world option" where
  "trace_run me tid k [] w = Some w"
| "trace_run me tid k ((e, Some node) # rs) w =
    TCMP_receive e me (tcmp_packet e tid (of_nat k) TCMP_FLAG_TRACERT_ACK) node me w \<bind> trace_run me tid (Suc k) rs"
| "trace_run me tid k ((e, None) # rs) w = trace_run me tid (Suc k) rs (polling_tcmp_timer e w)"

fun trace_ok :: "timeval \<Rightarrow> (tcmp_env \<times> u16 option) list \<Rightarrow> bool" where
  "trace_ok sent [] = True"
| "trace_ok sent ((e, node) # rs) = (tv_ok (t_now e) \<and>
    (if node = None then compare_timeval (add_ms_to_timeval sent TCMP_TIMEOUT) (t_now e) \<le> 0 else True) \<and> trace_ok (t_now e) rs)"

fun trace_reports :: "u16 \<Rightarrow> timeval \<Rightarrow> (tcmp_env \<times> u16 option) list \<Rightarrow> (timeval \<times> u16) list" where
  "trace_reports dst sent [] = []"
| "trace_reports dst sent ((e, node) # rs) =
    (case node of None \<Rightarrow> (\<lparr>tv_sec = -1, tv_usec = 0\<rparr>, dst) | Some a \<Rightarrow> (tcmp_rtt e sent, a)) # trace_reports dst (t_now e) rs"

definition trace_state :: "u16 \<Rightarrow> u16 \<Rightarrow> nat \<Rightarrow> nat \<Rightarrow> timeval \<Rightarrow> tcmp_world \<Rightarrow> bool" where
  "trace_state tid dst k ttl sent w \<longleftrightarrow> (\<exists>t. tcmps w = [t] \<and> tc_tid t = tid \<and> tc_addr t = dst \<and> tc_type t = TCMP_FLAG_TRACERT
    \<and> tc_seqno t = of_nat k \<and> tc_ttl t = of_nat ttl \<and> tc_sent t = sent \<and> tc_alarm t = add_ms_to_timeval sent TCMP_TIMEOUT)"

text \<open>One report for the application, then the next probe, of the next hop after every third, or the end.\<close>

lemma trace_step:
  assumes st: "trace_state tid dst k ttl sent w" and b: "ttl < 256" "k \<le> 3 * ttl"
    and w1: "w1 = receive_TRACERT_ACK e tid node (of_nat k) w"
  shows "tc_events w1 = tc_events w @ Tracert_Ack tid dst (PingMsg (tcmp_rtt e sent) (of_nat k) node)
      # (if k < 3 * ttl \<or> node \<noteq> dst then [] else [Remove_Tid tid])"
    and "tc_out w1 = tc_out w @ (if k < 3 * ttl \<or> node \<noteq> dst
      then [(dst, of_nat (if k < 3 * ttl then ttl else Suc ttl), tcmp_packet e tid (of_nat (Suc k)) TCMP_FLAG_TRACERT)] else [])"
    and "if k < 3 * ttl \<or> node \<noteq> dst then trace_state tid dst (Suc k) (if k < 3 * ttl then ttl else Suc ttl) (t_now e) w1
      else tcmps w1 = []"
proof -
  obtain t where t: "tcmps w = [t]" "tc_tid t = tid" "tc_addr t = dst" "tc_type t = TCMP_FLAG_TRACERT"
    "tc_seqno t = of_nat k" "tc_ttl t = of_nat ttl" "tc_sent t = sent"
    using st by (auto simp: trace_state_def)
  have k: "unat (of_nat k :: u16) = k" "unat (of_nat ttl :: u8) = ttl" using b by (simp_all add: unat_of_nat)
  note s = w1 [unfolded receive_TRACERT_ACK_def find_tcmp_by_tid_def]
  show "tc_events w1 = tc_events w @ Tracert_Ack tid dst (PingMsg (tcmp_rtt e sent) (of_nat k) node)
      # (if k < 3 * ttl \<or> node \<noteq> dst then [] else [Remove_Tid tid])"
    using t k by (simp add: s Let_def tcmp_matches_def TCMP_send_tracert_def tcmp_ops TCMP_DEFAULT_NUM_TRACERT_def)
  show "tc_out w1 = tc_out w @ (if k < 3 * ttl \<or> node \<noteq> dst
      then [(dst, of_nat (if k < 3 * ttl then ttl else Suc ttl), tcmp_packet e tid (of_nat (Suc k)) TCMP_FLAG_TRACERT)] else [])"
    using t k by (simp add: s Let_def tcmp_matches_def TCMP_send_tracert_def tcmp_ops TCMP_DEFAULT_NUM_TRACERT_def add.commute)
  show "if k < 3 * ttl \<or> node \<noteq> dst then trace_state tid dst (Suc k) (if k < 3 * ttl then ttl else Suc ttl) (t_now e) w1
      else tcmps w1 = []"
    using t k by (auto simp: s Let_def tcmp_matches_def TCMP_send_tracert_def tcmp_ops TCMP_DEFAULT_NUM_TRACERT_def
        trace_state_def add.commute)
qed

text \<open>The third probe of each hop decides: a node on the way that answers it leads to the next hop, the destination or nobody ends the trace.\<close>

definition passes :: "u16 \<Rightarrow> u16 option \<Rightarrow> bool" where
  "passes dst node \<longleftrightarrow> node \<noteq> None \<and> node \<noteq> Some dst"

definition trace_done :: "u16 \<Rightarrow> u16 \<Rightarrow> nat \<Rightarrow> nat \<Rightarrow> timeval \<Rightarrow> (tcmp_env \<times> u16 option) list \<Rightarrow> tcmp_world \<Rightarrow> tcmp_world \<Rightarrow> bool" where
  "trace_done tid dst n k sent rs w w' \<longleftrightarrow> tcmps w' = []
    \<and> tc_events w' = tc_events w @ map (\<lambda>(j, r, a). Tracert_Ack tid dst (PingMsg r (of_nat j) a))
        (zip [k..<Suc (3 * n)] (trace_reports dst sent rs)) @ [Remove_Tid tid]
    \<and> tc_out w' = tc_out w @ map (\<lambda>(j, e, a). (dst, of_nat ((j + 2) div 3), tcmp_packet e tid (of_nat j) TCMP_FLAG_TRACERT))
        (zip [Suc k..<Suc (3 * n)] rs)"

lemma trace_poll:
  assumes "trace_state tid dst k ttl sent w" "tv_ok sent"
    "compare_timeval (add_ms_to_timeval sent TCMP_TIMEOUT) (t_now e) \<le> 0"
  shows "polling_tcmp_timer e w = receive_TRACERT_ACK e tid dst (of_nat k) w"
proof -
  obtain t where t: "tcmps w = [t]" "tc_tid t = tid" "tc_addr t = dst" "tc_type t = TCMP_FLAG_TRACERT"
    "tc_seqno t = of_nat k" "tc_alarm t = add_ms_to_timeval sent TCMP_TIMEOUT"
    using assms(1) by (auto simp: trace_state_def)
  have "tcmp_due (t_now e) t" by (rule alarm_after_start [OF assms(2) t(6) assms(3)])
  then show ?thesis using t
    by (simp add: polling_tcmp_timer_def TCMP_Timer_fired_def) (simp add: consts_defs)
qed

lemma trace_round:
  assumes "trace_state tid dst k ttl sent w" "tv_ok sent" "trace_ok sent ((e, node) # rs)"
  shows "trace_run me tid k ((e, node) # rs) w
      = trace_run me tid (Suc k) rs (receive_TRACERT_ACK e tid (case node of None \<Rightarrow> dst | Some a \<Rightarrow> a) (of_nat k) w)"
    "trace_reports dst sent ((e, node) # rs)
      = (tcmp_rtt e sent, case node of None \<Rightarrow> dst | Some a \<Rightarrow> a) # trace_reports dst (t_now e) rs"
proof -
  show "trace_run me tid k ((e, node) # rs) w
      = trace_run me tid (Suc k) rs (receive_TRACERT_ACK e tid (case node of None \<Rightarrow> dst | Some a \<Rightarrow> a) (of_nat k) w)"
    using trace_poll [OF assms(1,2), of e] assms(3) by (cases node) (simp_all add: receive_tracert_packet)
  show "trace_reports dst sent ((e, node) # rs)
      = (tcmp_rtt e sent, case node of None \<Rightarrow> dst | Some a \<Rightarrow> a) # trace_reports dst (t_now e) rs"
    using rtt_expired [OF assms(2), of e] assms(3) by (cases node) simp_all
qed

lemma trace_run_completes:
  "trace_state tid dst k ((k + 2) div 3) sent w \<Longrightarrow> k + length rs = Suc (3 * n) \<Longrightarrow> 0 < k \<Longrightarrow> k \<le> 3 * n \<Longrightarrow> n < 256 \<Longrightarrow>
    tv_ok sent \<Longrightarrow> trace_ok sent rs \<Longrightarrow> (\<forall>i < length rs. (k + i) mod 3 = 0 \<longrightarrow> (passes dst (snd (rs ! i)) \<longleftrightarrow> k + i < 3 * n)) \<Longrightarrow>
    \<exists>w'. trace_run me tid k rs w = Some w' \<and> trace_done tid dst n k sent rs w w'"
proof (induction rs arbitrary: k sent w)
  case (Cons x rs)
  obtain e node where x: "x = (e, node)" by (cases x)
  let ?a = "case node of None \<Rightarrow> dst | Some a \<Rightarrow> a" and ?ttl = "(k + 2) div 3"
  define w1 where "w1 = receive_TRACERT_ACK e tid ?a (of_nat k) w"
  note st = Cons.prems(1)
  have ttl: "?ttl < 256" "k \<le> 3 * ?ttl" "?ttl \<le> n" "k < 3 * ?ttl \<longleftrightarrow> k mod 3 \<noteq> 0" using Cons.prems(4,5) by presburger+
  have a: "?a = dst \<longleftrightarrow> \<not> passes dst node" by (cases node) (auto simp: passes_def)
  have go: "(k < 3 * ?ttl \<or> ?a \<noteq> dst) \<longleftrightarrow> k < 3 * n"
  proof (cases "k mod 3 = 0")
    case True
    then have "passes dst node \<longleftrightarrow> k < 3 * n" using spec [OF Cons.prems(8), of 0] x by simp
    then show ?thesis using True a ttl(4) by simp
  next
    case False
    then show ?thesis using ttl Cons.prems(4) by auto
  qed
  note step = trace_step [OF st ttl(1,2) w1_def, unfolded go]
  note round = trace_round(1) [OF st Cons.prems(6) Cons.prems(7) [unfolded x], of me]
    trace_round(2) [OF st Cons.prems(6) Cons.prems(7) [unfolded x]]
  show ?case
  proof (cases "k < 3 * n")
    case True
    have "(if k < 3 * ?ttl then ?ttl else Suc ?ttl) = (Suc k + 2) div 3" using ttl by presburger
    then have st1: "trace_state tid dst (Suc k) ((Suc k + 2) div 3) (t_now e) w1"
      and out: "tc_out w1 = tc_out w @ [(dst, of_nat ((Suc k + 2) div 3), tcmp_packet e tid (of_nat (Suc k)) TCMP_FLAG_TRACERT)]"
      using step True by simp_all
    have "\<forall>i < length rs. (Suc k + i) mod 3 = 0 \<longrightarrow> (passes dst (snd (rs ! i)) \<longleftrightarrow> Suc k + i < 3 * n)"
      using Cons.prems(8) by (metis Suc_less_eq add_Suc_shift length_Cons nth_Cons_Suc)
    then obtain w' where w': "trace_run me tid (Suc k) rs w1 = Some w'" "trace_done tid dst n (Suc k) (t_now e) rs w1 w'"
      using Cons.IH [OF st1] Cons.prems True x by auto
    have "[k..<Suc (3 * n)] = k # [Suc k..<Suc (3 * n)]" "[Suc k..<Suc (3 * n)] = Suc k # [Suc (Suc k)..<Suc (3 * n)]"
      using True by (simp_all only: upt_conv_Cons)
    then show ?thesis using w' round step(1) True out by (simp add: x trace_done_def w1_def)
  next
    case False
    then have "k = 3 * n" "rs = []" using Cons.prems(2,4) by simp_all
    then show ?thesis using round step False by (simp add: x trace_done_def w1_def)
  qed
qed simp

text \<open>
  A trace route sends three probes to every hop, numbered consecutively, reports each one in order, and ends, with
  request and identifier released, at the first hop whose third probe is answered by the destination or by nobody: a
  silent hop in the middle of the route ends the trace, and its timeouts are reported under the address of the destination.
\<close>

theorem trace_completes:
  assumes "tcmps w = []" "tv_ok (t_now e)" "trace_ok (t_now e) rs" "length rs = 3 * n" "0 < n" "n < 256"
    "\<forall>i < n. passes dst (snd (rs ! (3 * i + 2))) \<longleftrightarrow> Suc i < n"
  shows "\<exists>w'. trace_run me tid 1 rs (TCMP_send_tracert e tid dst w) = Some w' \<and> tcmps w' = []
    \<and> tc_events w' = tc_events w @ map (\<lambda>(j, r, a). Tracert_Ack tid dst (PingMsg r (of_nat j) a))
        (zip [1..<Suc (3 * n)] (trace_reports dst (t_now e) rs)) @ [Remove_Tid tid]
    \<and> tc_out w' = tc_out w @ map (\<lambda>(j, e, a). (dst, of_nat ((j + 2) div 3), tcmp_packet e tid (of_nat j) 0x20))
        (zip [1..<Suc (3 * n)] ((e, None) # rs))"
proof -
  let ?w = "TCMP_send_tracert e tid dst w"
  have w: "trace_state tid dst 1 ((1 + 2) div 3) (t_now e) ?w" "tc_events ?w = tc_events w"
    "tc_out ?w = tc_out w @ [(dst, 1, tcmp_packet e tid 1 0x20)]"
    using assms(1) by (simp_all add: TCMP_send_tracert_def trace_state_def tcmp_ops add_tcmp_def Let_def consts_defs)
  have "passes dst (snd (rs ! i)) \<longleftrightarrow> 1 + i < 3 * n" if "i < length rs" "(1 + i) mod 3 = 0" for i
  proof -
    define j where "j = i div 3"
    have "i = 3 * j + 2" "j < n" "Suc j < n \<longleftrightarrow> 1 + i < 3 * n" using that assms(4) unfolding j_def by presburger+
    then show ?thesis using spec [OF assms(7), of j] by simp
  qed
  then obtain w' where "trace_run me tid 1 rs ?w = Some w'" "trace_done tid dst n 1 (t_now e) rs ?w w'"
    using trace_run_completes [OF w(1), of rs n me] assms by auto
  moreover have "[1..<Suc (3 * n)] = 1 # [Suc 1..<Suc (3 * n)]" using assms(5) by (intro upt_conv_Cons) simp
  ultimately show ?thesis using w(2,3) by (simp add: trace_done_def consts_defs)
qed

definition sample_trace :: "(tcmp_env \<times> u16 option) list" where
  "sample_trace = [(at_second 101, Some 11), (at_second 102, Some 11), (at_second 103, Some 11),
    (at_second 104, Some 12), (at_second 109, None), (at_second 114, None)]"

theorem trace_completes_witness:
  "\<exists>w'. trace_run 1 9 1 sample_trace (TCMP_send_tracert (at_second 100) 9 33 \<lparr>tcmps = [], tc_out = [], tc_events = []\<rparr>) = Some w'
    \<and> tcmps w' = []
    \<and> tc_events w' = tc_events \<lparr>tcmps = [], tc_out = [], tc_events = []\<rparr> @ map (\<lambda>(j, r, a). Tracert_Ack 9 33 (PingMsg r (of_nat j) a))
        (zip [1..<Suc (3 * 2)] (trace_reports 33 (t_now (at_second 100)) sample_trace)) @ [Remove_Tid 9]
    \<and> tc_out w' = tc_out \<lparr>tcmps = [], tc_out = [], tc_events = []\<rparr> @ map (\<lambda>(j, e, a). (33, of_nat ((j + 2) div 3), tcmp_packet e 9 (of_nat j) 0x20))
        (zip [1..<Suc (3 * 2)] ((at_second 100, None) # sample_trace))"
proof (rule trace_completes)
  show "\<forall>i < 2. passes 33 (snd (sample_trace ! (3 * i + 2))) \<longleftrightarrow> Suc i < 2"
    unfolding numeral_2_eq_2 All_less_Suc by (simp add: sample_trace_def passes_def)
qed (simp_all add: sample_trace_def at_second_def tv_ok_def consts_defs compare_timeval_def add_ms_to_timeval_def)

end
