(* ===== verification/Daemon.thy ===== *)
theory Daemon
  imports Task_Consts App_Link Tid_List Routing_Layer Tcmp Trd_Transport Stream_Transport Packet_Transport
begin

text \<open>
  The transport daemon: src/master/transport/transportmain.c with client.c, service.c and the part of tidlist.c that
  talks to clients, on top of the transports. A client is its descriptor; a frame for a client is logged with the
  descriptor it was written to. \<open>n_writes\<close> tells for which descriptors \<open>write_tr_packet\<close> succeeds, and it succeeds
  or fails as a whole. The transports call back into the daemon: what they pass up in one call is taken from their
  logs and handled, in order, when the call returns. That is the order of the code, where such a call back is the last
  thing that touches the transport, except that a stream transport with several packets to deliver could in between
  lose connections of a client that goes away while it is written to under \<open>ALL_TID\<close>. The rate-controlled transport
  is not modelled: which of its identifiers are alive, and what it passes up for a packet, are arguments. Clock, new
  memory and the byte of a header that nobody writes are arguments, printing is left out. \<open>None\<close> is undefined
  behaviour or a loop that does not end.
\<close>

definition TRANS_TYPE_NULL :: u8 where "TRANS_TYPE_NULL = 0x00"
definition TRANS_TYPE_BCAST :: u8 where "TRANS_TYPE_BCAST = 0x30"
definition TRANS_TYPE_SNOOP :: u8 where "TRANS_TYPE_SNOOP = 0x31"

lemmas daemon_types = trans_types TRANS_TYPE_NULL_def TRANS_TYPE_BCAST_def TRANS_TYPE_SNOOP_def

record daemon =
  d_tids :: tid_state
  d_clients :: "int list"
  d_num_clients :: int
  d_app :: "(int \<times> bytes) list"
  d_trd :: trd_state
  d_frag :: frag_state
  d_ptr :: ptr_world
  d_str :: str_world
  d_tcmp :: tcmp_world
  d_bs :: "bytes list"
  d_rcrt :: "u16 list"
  d_me :: u16
  d_ready :: bool

record daemon_env =
  n_now :: timeval
  n_trd :: "nat \<Rightarrow> env"
  n_ignore :: bool
  n_ptr :: ptrclist
  n_str :: strclist
  n_tcmp :: tcmp_env
  n_writes :: "int \<Rightarrow> bool"
  n_pad :: u8
  n_heap :: bytes
  n_rcrt :: "u16 \<Rightarrow> bool"
  n_rcrt_up :: "(u16 \<times> u16 \<times> bytes) list"
  n_rcrt_done :: "u16 list"

section \<open>Sending to the motes\<close>

definition tr_send_packet :: "daemon_env \<Rightarrow> u16 \<Rightarrow> u16 \<Rightarrow> bytes \<Rightarrow> daemon \<Rightarrow> (int \<times> daemon) option" where
  "tr_send_packet e tid addr packet d =
    (if addr = TOS_BCAST_ADDR then do {
       (seqno, st) \<leftarrow> trd_transport_send (n_trd e) (n_ignore e) tid packet (d_trd d);
       Some (if seqno < 0 then -1 else 1, d\<lparr>d_trd := st\<rparr>)
     } else do {
       (cid, w) \<leftarrow> packettransport_send (n_now e) (n_ptr e) tid addr (of_nat (length packet)) packet (d_ptr d);
       Some (if cid < 0 then -1 else 2, d\<lparr>d_ptr := w\<rparr>)
     })"

definition tr_send_close_task :: "daemon_env \<Rightarrow> u16 \<Rightarrow> u16 \<Rightarrow> daemon \<Rightarrow> (int \<times> daemon) option" where
  "tr_send_close_task e tid addr d = tr_send_packet e tid addr [TASK_DELETE, 0] d"

definition close_transport_connections :: "u16 \<Rightarrow> daemon \<Rightarrow> daemon" where
  "close_transport_connections tid d =
    d\<lparr>d_ptr := snd (packettransport_delete_tid tid (d_ptr d)),
      d_str := snd (streamtransport_delete_tid tid (d_str d)), d_rcrt := d_rcrt d @ [tid]\<rparr>"

definition check_transport_connections :: "daemon_env \<Rightarrow> u16 \<Rightarrow> daemon \<Rightarrow> int" where
  "check_transport_connections e tid d =
    (if packettransport_tid_is_alive tid (d_ptr d) \<noteq> 0 then 1
     else if streamtransport_tid_is_alive tid (d_str d) then 1
     else if n_rcrt e tid then 1 else 0)"

section \<open>Clients\<close>

text \<open>The entries of a client are taken out of the list while the tasks are closed.\<close>

primrec close_tids_loop :: "daemon_env \<Rightarrow> int \<Rightarrow> tid_list list \<Rightarrow> daemon \<Rightarrow> (tid_list list \<times> daemon) option" where
  "close_tids_loop e fd [] d = Some ([], d)"
| "close_tids_loop e fd (t # ts) d =
    (if fd = tl_fd t \<and> (tl_type t = TRANS_TYPE_TASK \<or> tl_type t = TRANS_TYPE_CLOSE) then do {
       (ok, d1) \<leftarrow> tr_send_close_task e (tl_tid t) (tl_addr t) d;
       let d2 = close_transport_connections (tl_tid t) d1;
       close_tids_loop e fd ts (d2\<lparr>d_tids := (d_tids d2)\<lparr>num_tids := num_tids (d_tids d2) - 1\<rparr>\<rparr>)
     } else do {
       (us, d1) \<leftarrow> close_tids_loop e fd ts d;
       Some (t # us, d1)
     })"

definition close_all_tid_for_a_client :: "daemon_env \<Rightarrow> int \<Rightarrow> daemon \<Rightarrow> daemon option" where
  "close_all_tid_for_a_client e fd d = do {
     (us, d1) \<leftarrow> close_tids_loop e fd (tids (d_tids d)) d;
     Some (d1\<lparr>d_tids := (d_tids d1)\<lparr>tids := us\<rparr>\<rparr>)
   }"

definition add_client :: "int \<Rightarrow> daemon \<Rightarrow> daemon" where
  "add_client fd d = d\<lparr>d_clients := fd # d_clients d, d_num_clients := d_num_clients d + 1\<rparr>"

definition rem_client :: "daemon_env \<Rightarrow> int \<Rightarrow> daemon \<Rightarrow> daemon option" where
  "rem_client e fd d = do {
     d1 \<leftarrow> close_all_tid_for_a_client e fd d;
     Some (d1\<lparr>d_clients := remove1 fd (d_clients d1), d_num_clients := d_num_clients d1 - 1\<rparr>)
   }"

text \<open>\<open>ok\<close> is the result of the handshake in \<open>init_tr_source\<close>.\<close>

definition new_client :: "int \<Rightarrow> bool \<Rightarrow> daemon \<Rightarrow> daemon" where
  "new_client fd ok d = (if ok then add_client fd d else d)"

definition check_new_client :: "int \<Rightarrow> bool \<Rightarrow> daemon \<Rightarrow> daemon" where
  "check_new_client clientfd ok d = (if clientfd \<ge> 0 then new_client clientfd ok d else d)"

primrec rem_client_list_loop :: "daemon_env \<Rightarrow> int list \<Rightarrow> daemon \<Rightarrow> daemon option" where
  "rem_client_list_loop e [] d = Some d"
| "rem_client_list_loop e (c # cs) d = do {
     d1 \<leftarrow> rem_client e c d;
     rem_client_list_loop e cs d1
   }"

definition rem_client_list :: "daemon_env \<Rightarrow> daemon \<Rightarrow> daemon option" where
  "rem_client_list e d = rem_client_list_loop e (d_clients d) d"

definition write_client :: "int \<Rightarrow> bytes \<Rightarrow> daemon \<Rightarrow> daemon" where
  "write_client fd frame d = d\<lparr>d_app := d_app d @ [(fd, frame)]\<rparr>"

primrec dispatch_loop :: "daemon_env \<Rightarrow> bytes \<Rightarrow> int list \<Rightarrow> daemon \<Rightarrow> daemon option" where
  "dispatch_loop e frame [] d = Some d"
| "dispatch_loop e frame (c # cs) d =
    (if n_writes e c then dispatch_loop e frame cs (write_client c frame d)
     else do {
       d1 \<leftarrow> rem_client e c d;
       dispatch_loop e frame cs d1
     })"

definition dispatch_packet :: "daemon_env \<Rightarrow> bytes \<Rightarrow> daemon \<Rightarrow> daemon option" where
  "dispatch_packet e frame d = dispatch_loop e frame (d_clients d) d"

definition send_to_tid :: "daemon_env \<Rightarrow> bytes \<Rightarrow> u16 \<Rightarrow> daemon \<Rightarrow> (int \<times> daemon) option" where
  "send_to_tid e frame tid d =
    (let fd = find_client_fd (d_tids d) tid
     in if tid = ALL_TID then do {
          d1 \<leftarrow> dispatch_packet e frame d;
          Some (0, d1)
        }
        else if fd < 0 then Some (-1, d)
        else if n_writes e fd then Some (0, write_client fd frame d)
        else Some (-1, d\<lparr>d_tids := tidlist_remove_tid tid (d_tids d)\<rparr>))"

definition send_toApp :: "daemon_env \<Rightarrow> bytes \<Rightarrow> u8 \<Rightarrow> u16 \<Rightarrow> u16 \<Rightarrow> daemon \<Rightarrow> daemon option" where
  "send_toApp e msg type tid addr d =
    (let frame = write_transport_msg (n_pad e) msg type tid addr
     in if tid = ALL_TID then dispatch_packet e frame d
        else do {
          (ok, d1) \<leftarrow> send_to_tid e frame tid d;
          Some d1
        })"

section \<open>Closing\<close>

definition check_close_done :: "daemon_env \<Rightarrow> u16 \<Rightarrow> daemon \<Rightarrow> daemon option" where
  "check_close_done e tid d =
    (case tidlist_find_tid (d_tids d) tid of
       None \<Rightarrow> Some d
     | Some t \<Rightarrow>
         if check_transport_connections e tid d = 0 then do {
           d1 \<leftarrow> send_toApp e [] TRANS_TYPE_CLOSE_ACK tid (tl_addr t) d;
           Some (d1\<lparr>d_tids := tidlist_remove_tid tid (d_tids d1)\<rparr>)
         } else Some d)"

section \<open>Services of the base station\<close>

definition BS_SERVICE_TIME :: u16 where [consts_defs]: "BS_SERVICE_TIME = 0xC1"
definition BS_SERVICE_ID :: u16 where [consts_defs]: "BS_SERVICE_ID = 0xC2"
definition BS_SERVICE_POWER :: u16 where [consts_defs]: "BS_SERVICE_POWER = 0xC3"

text \<open>The identifier is written into the message; the fields that are only printed must be there (\<open>None\<close>).\<close>

definition service_send_request :: "u16 \<Rightarrow> bytes \<Rightarrow> daemon \<Rightarrow> daemon option" where
  "service_send_request tid msg d =
    (if length msg < 4 then None
     else
       let m = put16le msg 0 tid; ty = get16le m 2;
           sent = Some (d\<lparr>d_bs := d_bs d @ [send_TOS_Msg m AM_BS_SERVICE (d_me d) TOS_DEFAULT_GROUP]\<rparr>)
       in if ty = BS_SERVICE_TIME then (if length msg < 8 then None else sent)
          else if ty = BS_SERVICE_ID \<or> ty = BS_SERVICE_POWER then (if length msg < 6 then None else sent)
          else Some d)"

text \<open>The contents of the new memory are written completely.\<close>

definition base_id_request :: "daemon \<Rightarrow> daemon option" where
  "base_id_request d = service_send_request 0 (put16le (put16le (put16le (replicate 6 0) 0 0) 2 BS_SERVICE_ID) 4 (d_me d)) d"

definition set_rfpower_request :: "u16 \<Rightarrow> daemon \<Rightarrow> daemon option" where
  "set_rfpower_request pw d =
    service_send_request 0 (put16le (put16le (put16le (replicate 6 0) 0 0) 2 BS_SERVICE_POWER) 4 pw) d"

definition get_rfpower_request :: "daemon \<Rightarrow> daemon option" where
  "get_rfpower_request d = set_rfpower_request 0 d"

text \<open>\<open>len\<close> bytes are copied from \<open>packet\<close>.\<close>

definition service_receive_response :: "daemon_env \<Rightarrow> nat \<Rightarrow> bytes \<Rightarrow> daemon \<Rightarrow> daemon option" where
  "service_receive_response e len packet d =
    (if length packet < 4 then None
     else
       let tid = get16le packet 0; ty = get16le packet 2; t = tidlist_find_tid (d_tids d) tid;
           respond = do {
             d1 \<leftarrow> send_toApp e (take len packet) TRANS_TYPE_SERVICE tid (d_me d) d;
             Some (if t \<noteq> None then d1\<lparr>d_tids := tidlist_remove_tid tid (d_tids d1)\<rparr> else d1)
           }
       in if ty = BS_SERVICE_TIME then (if length packet < 14 \<or> length packet < len then None else respond)
          else if ty = BS_SERVICE_ID then (if length packet < 6 then None else Some d)
          else if ty = BS_SERVICE_POWER then (if length packet < 6 \<or> length packet < len then None else respond)
          else Some d)"

section \<open>Messages of the clients\<close>

definition reply :: "daemon_env \<Rightarrow> u8 \<Rightarrow> u16 \<Rightarrow> u16 \<Rightarrow> daemon \<Rightarrow> daemon option" where
  "reply e type tid addr d = send_toApp e [] type tid addr d"

definition new_tid_for :: "u16 \<Rightarrow> u8 \<Rightarrow> int \<Rightarrow> daemon \<Rightarrow> (u16 \<times> daemon) option" where
  "new_tid_for addr type fd d = do {
     (tid, s) \<leftarrow> assign_new_tid 0 (d_tids d);
     Some (tid, d\<lparr>d_tids := tidlist_add_tid tid addr type fd s\<rparr>)
   }"

definition client_task :: "daemon_env \<Rightarrow> int \<Rightarrow> u16 \<Rightarrow> bytes \<Rightarrow> daemon \<Rightarrow> daemon option" where
  "client_task e fd addr payload d = do {
     (tid, d1) \<leftarrow> new_tid_for addr TRANS_TYPE_TASK fd d;
     (ok, d2) \<leftarrow> tr_send_packet e tid addr payload d1;
     (if ok < 0 then do {
        d3 \<leftarrow> reply e TRANS_TYPE_CMD_NACK tid addr d2;
        Some (d3\<lparr>d_tids := tidlist_remove_tid tid (d_tids d3)\<rparr>)
      }
      else if addr = TOS_BCAST_ADDR then reply e TRANS_TYPE_CMD_ACK tid addr d2
      else reply e TRANS_TYPE_CMD_RETURN tid addr d2)
   }"

definition client_close :: "daemon_env \<Rightarrow> u16 \<Rightarrow> u16 \<Rightarrow> daemon \<Rightarrow> daemon option" where
  "client_close e tid addr d =
    (case tidlist_find_tid (d_tids d) tid of
       None \<Rightarrow> Some d
     | Some t \<Rightarrow> do {
         (ok, d1) \<leftarrow> tr_send_close_task e tid addr (d\<lparr>d_tids := set_tid_type tid TRANS_TYPE_CLOSE (d_tids d)\<rparr>);
         check_close_done e tid (close_transport_connections tid d1)
       })"

definition client_msg :: "daemon_env \<Rightarrow> int \<Rightarrow> tr_msg \<Rightarrow> daemon \<Rightarrow> daemon option" where
  "client_msg e fd m d =
    (let type = tm_type m; tid = tm_tid m; addr = tm_addr m; payload = tm_data m
     in if type = TRANS_TYPE_TASK then client_task e fd addr payload d
        else if type = TRANS_TYPE_CLOSE then client_close e tid addr d
        else if type = TRANS_TYPE_SERVICE then do {
          (t, d1) \<leftarrow> new_tid_for (d_me d) type fd d;
          service_send_request t payload d1
        }
        else if type = TRANS_TYPE_PING then do {
          (t, d1) \<leftarrow> new_tid_for addr type fd d;
          Some (d1\<lparr>d_tcmp := TCMP_send_ping (n_tcmp e) t addr (d_tcmp d1)\<rparr>)
        }
        else if type = TRANS_TYPE_TRACERT then do {
          (t, d1) \<leftarrow> new_tid_for addr type fd d;
          Some (d1\<lparr>d_tcmp := TCMP_send_tracert (n_tcmp e) t addr (d_tcmp d1)\<rparr>)
        }
        else if type = TRANS_TYPE_SNOOP then
          Some (d\<lparr>d_tids := tidlist_add_tid ALL_TID TOS_BCAST_ADDR type fd (d_tids d)\<rparr>)
        else Some d)"

text \<open>
  The loop over the clients. \<open>inp\<close> gives for a descriptor that is ready the message that is read, or none. A message
  under \<open>ALL_TID\<close> can remove clients while the loop stands at one of them; \<open>prev\<close> is the client whose link the loop
  holds. If that one is gone the loop goes on in freed memory, and behind the last client it reads through a null pointer.
\<close>

definition links_after :: "int option \<Rightarrow> int list \<Rightarrow> int list option" where
  "links_after prev cs =
    (case prev of None \<Rightarrow> Some cs
     | Some p \<Rightarrow> if p \<in> set cs then Some (tl (dropWhile (\<lambda>c. c \<noteq> p) cs)) else None)"

partial_function (option) clients_loop ::
    "daemon_env \<Rightarrow> (int \<Rightarrow> tr_msg option option) \<Rightarrow> int option \<Rightarrow> int list \<Rightarrow> daemon \<Rightarrow> daemon option" where
  "clients_loop e inp prev cs d =
    (case cs of
       [] \<Rightarrow> Some d
     | c # cs' \<Rightarrow>
         (case inp c of
            None \<Rightarrow> clients_loop e inp (Some c) cs' d
          | Some None \<Rightarrow> do {
              d1 \<leftarrow> rem_client e c d;
              clients_loop e inp prev cs' d1
            }
          | Some (Some m) \<Rightarrow> do {
              d1 \<leftarrow> client_msg e c m d;
              rest \<leftarrow> links_after prev (d_clients d1);
              (case rest of [] \<Rightarrow> None | x # xs \<Rightarrow> clients_loop e inp (Some x) xs d1)
            }))"

definition check_clients :: "daemon_env \<Rightarrow> (int \<Rightarrow> tr_msg option option) \<Rightarrow> daemon \<Rightarrow> daemon option" where
  "check_clients e inp d = clients_loop e inp None (d_clients d) d"

section \<open>What the transports pass up\<close>

definition receive_trd_transport :: "daemon_env \<Rightarrow> u16 \<Rightarrow> u16 \<Rightarrow> int \<Rightarrow> bytes \<Rightarrow> daemon \<Rightarrow> daemon option" where
  "receive_trd_transport e tid addr len msg d =
    (if len < 0 then None else send_toApp e msg TRANS_TYPE_BCAST tid addr d)"

primrec send_ups :: "daemon_env \<Rightarrow> (u16 \<times> u16 \<times> bytes) list \<Rightarrow> daemon \<Rightarrow> daemon option" where
  "send_ups e [] d = Some d"
| "send_ups e (u # us) d = (case u of (tid, addr, msg) \<Rightarrow> do {
     d1 \<leftarrow> send_toApp e msg TRANS_TYPE_RESPONSE tid addr d;
     send_ups e us d1
   })"

definition senddone_packettransport :: "daemon_env \<Rightarrow> u16 \<Rightarrow> u16 \<Rightarrow> bool \<Rightarrow> daemon \<Rightarrow> daemon option" where
  "senddone_packettransport e tid addr success d =
    (case tidlist_find_tid (d_tids d) tid of
       None \<Rightarrow> Some d
     | Some t \<Rightarrow>
         if tl_type t = TRANS_TYPE_CLOSE then check_close_done e tid d
         else if success then reply e TRANS_TYPE_CMD_ACK tid addr d
         else do {
           d1 \<leftarrow> reply e TRANS_TYPE_CMD_NACK tid addr d;
           Some (d1\<lparr>d_tids := tidlist_remove_tid tid (d_tids d1)\<rparr>)
         })"

primrec send_dones :: "daemon_env \<Rightarrow> (u16 \<times> u16 \<times> u8 \<times> bytes option \<times> bool) list \<Rightarrow> daemon \<Rightarrow> daemon option" where
  "send_dones e [] d = Some d"
| "send_dones e (x # xs) d = (case x of (tid, addr, len, msg, success) \<Rightarrow> do {
     d1 \<leftarrow> senddone_packettransport e tid addr success d;
     send_dones e xs d1
   })"

primrec tids_deleted :: "daemon_env \<Rightarrow> u16 list \<Rightarrow> daemon \<Rightarrow> daemon option" where
  "tids_deleted e [] d = Some d"
| "tids_deleted e (t # ts) d = do {
     d1 \<leftarrow> check_close_done e t d;
     tids_deleted e ts d1
   }"

primrec tcmp_ups :: "daemon_env \<Rightarrow> tcmp_event list \<Rightarrow> daemon \<Rightarrow> daemon option" where
  "tcmp_ups e [] d = Some d"
| "tcmp_ups e (x # xs) d = do {
     d1 \<leftarrow> (case x of
        Ping_Ack tid addr msg \<Rightarrow> send_toApp e msg TRANS_TYPE_PING tid addr d
      | Tracert_Ack tid addr msg \<Rightarrow> send_toApp e msg TRANS_TYPE_TRACERT tid addr d
      | Remove_Tid tid \<Rightarrow> Some (d\<lparr>d_tids := tidlist_remove_tid tid (d_tids d)\<rparr>));
     tcmp_ups e xs d1
   }"

definition after_ptr :: "daemon_env \<Rightarrow> ptr_world \<Rightarrow> daemon \<Rightarrow> daemon option" where
  "after_ptr e w d = do {
     let us = drop (length (ptr_up (d_ptr d))) (ptr_up w);
     let xs = drop (length (ptr_done (d_ptr d))) (ptr_done w);
     d1 \<leftarrow> send_ups e us (d\<lparr>d_ptr := w\<rparr>);
     send_dones e xs d1
   }"

definition after_str :: "daemon_env \<Rightarrow> str_world \<Rightarrow> daemon \<Rightarrow> daemon option" where
  "after_str e w d = do {
     let us = drop (length (str_up (d_str d))) (str_up w);
     let ts = drop (length (str_deleted (d_str d))) (str_deleted w);
     d1 \<leftarrow> send_ups e us (d\<lparr>d_str := w\<rparr>);
     tids_deleted e ts d1
   }"

definition after_tcmp :: "daemon_env \<Rightarrow> tcmp_world \<Rightarrow> daemon \<Rightarrow> daemon option" where
  "after_tcmp e w d = tcmp_ups e (drop (length (tc_events (d_tcmp d))) (tc_events w)) (d\<lparr>d_tcmp := w\<rparr>)"

section \<open>Packets of the router\<close>

definition router_trd :: "daemon_env \<Rightarrow> bytes \<Rightarrow> daemon \<Rightarrow> daemon option" where
  "router_trd e packet d = do {
     (r, up, st, fs) \<leftarrow> trd_transport_receive (n_heap e) (n_trd e 0) packet (d_trd d, d_frag d);
     let d1 = d\<lparr>d_trd := st, d_frag := fs\<rparr>;
     (case up of None \<Rightarrow> Some d1 | Some (tid, addr, len, msg) \<Rightarrow> receive_trd_transport e tid addr len msg d1)
   }"

definition router_routed :: "daemon_env \<Rightarrow> routing_msg \<Rightarrow> daemon \<Rightarrow> daemon option" where
  "router_routed e m d =
    (let protocol = rm_protocol m AND PROTOCOL_MASK; payload = rm_payload m; src = rm_srcAddr m
     in if payload = [] then Some d
        else if protocol = RT_PROTOCOL_PACKET then do {
          w \<leftarrow> packettransport_receive (n_ptr e) payload src (d_ptr d);
          after_ptr e w d
        }
        else if protocol = RT_PROTOCOL_STREAM then do {
          w \<leftarrow> streamtransport_receive (n_now e) (n_str e) payload src (d_str d);
          after_str e w d
        }
        else if protocol = RT_PROTOCOL_RCR then do {
          d1 \<leftarrow> send_ups e (n_rcrt_up e) d;
          tids_deleted e (n_rcrt_done e) d1
        }
        else if protocol = PROTOCOL_TCMP then do {
          w \<leftarrow> TCMP_receive (n_tcmp e) (d_me d) payload src (rm_dstAddr m) (d_tcmp d);
          after_tcmp e w d
        }
        else Some d)"

text \<open>The length that goes with the data of a service packet is that of the whole packet.\<close>

definition check_router :: "daemon_env \<Rightarrow> bytes option \<Rightarrow> daemon \<Rightarrow> daemon option" where
  "check_router e p d =
    (case p of
       None \<Rightarrow> Some d
     | Some packet \<Rightarrow>
         if length packet < 3 then None
         else if get8 packet 2 = AM_BS_SERVICE then service_receive_response e (length packet) (drop 5 packet) d
         else if is_trd_transport_packet packet then router_trd e packet d
         else if get8 packet 2 = AM_TENET_ROUTING then
           (if length packet < 5 then None
            else case read_routing_msg packet of None \<Rightarrow> Some d | Some m \<Rightarrow> router_routed e m d)
         else Some d)"

section \<open>The main loop\<close>

text \<open>Without the option that makes the daemon a base station.\<close>

definition check_timer :: "daemon_env \<Rightarrow> daemon \<Rightarrow> daemon option" where
  "check_timer e d = do {
     w \<leftarrow> polling_packettransport_timer (n_now e) (d_ptr d);
     d1 \<leftarrow> after_ptr e w d;
     v \<leftarrow> polling_streamtransport_timer (n_now e) (d_str d1);
     d2 \<leftarrow> after_str e v d1;
     d3 \<leftarrow> send_ups e (n_rcrt_up e) d2;
     d4 \<leftarrow> tids_deleted e (n_rcrt_done e) d3;
     let d5 = d4\<lparr>d_trd := polling_trd_transport_timer (n_trd e 0) (n_trd e 1) (d_trd d4)\<rparr>;
     after_tcmp e (polling_tcmp_timer (n_tcmp e) (d_tcmp d5)) d5
   }"

text \<open>The process that goes on after the fork is the child.\<close>

definition check_init :: "daemon \<Rightarrow> daemon" where
  "check_init d =
    (if \<not> d_ready d \<and> is_trd_transport_sendReady (d_trd d) then d\<lparr>d_ready := True\<rparr> else d)"

definition initialize_transport :: "daemon_env \<Rightarrow> int \<Rightarrow> daemon \<Rightarrow> daemon option" where
  "initialize_transport e rt_fd d =
    (case trd_transport_init (n_trd e 0) rt_fd (d_me d) (d_trd d, d_frag d) of
       (st, fs) \<Rightarrow> base_id_request (d\<lparr>d_tids := snd (tidlist_init (d_tids d)), d_trd := st, d_frag := fs\<rparr>))"

text \<open>One round of the loop: nothing within 49 ms, or a packet of the router, a new client and messages of clients.\<close>

datatype loop_event = Idle | Ready "bytes option" "(int \<times> bool) option" "int \<Rightarrow> tr_msg option option"

text \<open>Each of the three parts of a round has its own environment.\<close>

fun main_step :: "(nat \<Rightarrow> daemon_env) \<Rightarrow> loop_event \<Rightarrow> nat \<times> daemon \<Rightarrow> (nat \<times> daemon) option" where
  "main_step es Idle (timeout, d) = do {
     d1 \<leftarrow> check_timer (es 2) d;
     Some (0, check_init d1)
   }"
| "main_step es (Ready p c inp) (timeout, d) = do {
     d1 \<leftarrow> check_router (es 0) p d;
     let d2 = (case c of None \<Rightarrow> d1 | Some (fd, ok) \<Rightarrow> check_new_client fd ok d1);
     d3 \<leftarrow> check_clients (es 1) inp d2;
     (if timeout + 1 > 9 then do {
        d4 \<leftarrow> check_timer (es 2) d3;
        Some (0, d4)
      } else Some (timeout + 1, d3))
   }"

text \<open>The end of the daemon; \<open>log_open\<close> is whether the packet transport has its log file open.\<close>

definition sig_int_handler :: "daemon_env \<Rightarrow> bool \<Rightarrow> daemon \<Rightarrow> daemon option" where
  "sig_int_handler e log_open d = do {
     d1 \<leftarrow> rem_client_list e (d\<lparr>d_tids := tidlist_terminate (d_tids d)\<rparr>);
     w \<leftarrow> packettransport_terminate log_open (d_ptr d1);
     Some (d1\<lparr>d_ptr := w, d_str := streamtransport_terminate (d_str d1)\<rparr>)
   }"

section \<open>Closing the tasks of a client\<close>

abbreviation owned :: "int \<Rightarrow> tid_list \<Rightarrow> bool" where
  "owned fd t \<equiv> fd = tl_fd t \<and> (tl_type t = TRANS_TYPE_TASK \<or> tl_type t = TRANS_TYPE_CLOSE)"

lemma tr_send_packet_frame:
  assumes "tr_send_packet e tid addr p d = Some (r, d')"
  shows "\<exists>st w. d' = d\<lparr>d_trd := st, d_ptr := w\<rparr>"
proof (cases "addr = TOS_BCAST_ADDR")
  case True
  then have "\<exists>st. d' = d\<lparr>d_trd := st\<rparr>" using assms by (auto simp: tr_send_packet_def split: bind_splits)
  then obtain st where "d' = d\<lparr>d_trd := st\<rparr>" ..
  then have "d' = d\<lparr>d_trd := st, d_ptr := d_ptr d\<rparr>" by simp
  then show ?thesis by blast
next
  case False
  then have "\<exists>w. d' = d\<lparr>d_ptr := w\<rparr>" using assms by (auto simp: tr_send_packet_def split: bind_splits)
  then obtain w where "d' = d\<lparr>d_ptr := w\<rparr>" ..
  then have "d' = d\<lparr>d_trd := d_trd d, d_ptr := w\<rparr>" by simp
  then show ?thesis by blast
qed

text \<open>What a step leaves alone: everything but the transports and the number of identifiers.\<close>

definition same_front :: "daemon \<Rightarrow> daemon \<Rightarrow> bool" where
  "same_front d d' \<longleftrightarrow> tids (d_tids d') = tids (d_tids d) \<and> d_clients d' = d_clients d
    \<and> d_num_clients d' = d_num_clients d \<and> d_app d' = d_app d"

lemma same_front_trans: "same_front a b \<Longrightarrow> same_front b c \<Longrightarrow> same_front a c"
  by (simp add: same_front_def)

lemma close_tids_loop_spec:
  "close_tids_loop e fd ts d = Some (us, d') \<Longrightarrow>
    us = filter (\<lambda>t. \<not> owned fd t) ts \<and> same_front d d'
    \<and> num_tids (d_tids d') = num_tids (d_tids d) - int (length (filter (owned fd) ts))"
proof (induction ts arbitrary: us d)
  case (Cons t ts)
  show ?case
  proof (cases "owned fd t")
    case True
    obtain r d1 where s: "tr_send_close_task e (tl_tid t) (tl_addr t) d = Some (r, d1)"
      using Cons.prems True by (auto split: bind_splits)
    define d2 where "d2 = close_transport_connections (tl_tid t) d1"
    define d3 where "d3 = d2\<lparr>d_tids := (d_tids d2)\<lparr>num_tids := num_tids (d_tids d2) - 1\<rparr>\<rparr>"
    have "close_tids_loop e fd ts d3 = Some (us, d')"
      using Cons.prems True s by (simp add: d2_def [symmetric] Let_def d3_def)
    note ih = Cons.IH [OF this]
    obtain st w where "d1 = d\<lparr>d_trd := st, d_ptr := w\<rparr>"
      using tr_send_packet_frame s unfolding tr_send_close_task_def by blast
    then have "same_front d d3" "num_tids (d_tids d3) = num_tids (d_tids d) - 1"
      by (simp_all add: d3_def d2_def close_transport_connections_def same_front_def)
    then show ?thesis using True ih same_front_trans by auto
  next
    case False
    then have "close_tids_loop e fd (t # ts) d
        = close_tids_loop e fd ts d \<bind> (\<lambda>(us, d1). Some (t # us, d1))" by auto
    then obtain vs where "close_tids_loop e fd ts d = Some (vs, d')" "us = t # vs"
      using Cons.prems by (auto split: bind_splits)
    then show ?thesis using Cons.IH False by auto
  qed
qed (simp add: same_front_def)

lemma rem_client_spec:
  assumes "rem_client e fd d = Some d'"
  shows "tids (d_tids d') = filter (\<lambda>t. \<not> owned fd t) (tids (d_tids d))
    \<and> num_tids (d_tids d') = num_tids (d_tids d) - int (length (filter (owned fd) (tids (d_tids d))))
    \<and> d_clients d' = remove1 fd (d_clients d) \<and> d_num_clients d' = d_num_clients d - 1 \<and> d_app d' = d_app d"
proof -
  obtain us d1 where "close_tids_loop e fd (tids (d_tids d)) d = Some (us, d1)"
    "d' = d1\<lparr>d_tids := (d_tids d1)\<lparr>tids := us\<rparr>, d_clients := remove1 fd (d_clients d1), d_num_clients := d_num_clients d1 - 1\<rparr>"
    using assms by (auto simp: rem_client_def close_all_tid_for_a_client_def split: bind_splits)
  then show ?thesis using close_tids_loop_spec by (auto simp: same_front_def)
qed

end
