(* ===== verification/Daemon_Safety.thy ===== *)
theory Daemon_Safety
  imports Daemon
begin

text \<open>
  What every round of the transport daemon keeps. A property of the daemon is stable if each of the primitive changes
  keeps it: new states of the transports, a frame written to a client, an identifier added, released or marked as
  closing, a client that comes or goes. The locale shows once that every operation of the daemon, up to a round of the
  main loop, then keeps it too; it is interpreted for the invariant of the tables and for the form of the frames.
\<close>

definition is_frame :: "bytes \<Rightarrow> bool" where
  "is_frame f \<longleftrightarrow> (\<exists>pad m. f = message pad m)"

lemma write_transport_msg_frame: "is_frame (write_transport_msg pad msg type tid addr)"
proof -
  have "write_transport_msg pad msg type tid addr
      = message pad \<lparr>tm_tid = tid, tm_addr = addr, tm_type = type, tm_data = msg\<rparr>" by (simp add: message_def)
  then show ?thesis unfolding is_frame_def by blast
qed

locale daemon_stable =
  fixes P :: "daemon \<Rightarrow> bool"
  assumes transports: "P d \<Longrightarrow> d_tids d' = d_tids d \<Longrightarrow> d_clients d' = d_clients d \<Longrightarrow> d_num_clients d' = d_num_clients d
      \<Longrightarrow> d_app d' = d_app d \<Longrightarrow> P d'"
    and written: "P d \<Longrightarrow> is_frame f \<Longrightarrow> fd \<in> set (d_clients d) \<or> fd \<in> tl_fd ` set (tids (d_tids d)) \<Longrightarrow> P (write_client fd f d)"
    and new_tid: "P d \<Longrightarrow> assign_new_tid 0 (d_tids d) = Some (tid, s') \<Longrightarrow> fd \<in> set (d_clients d)
      \<Longrightarrow> P (d\<lparr>d_tids := tidlist_add_tid tid addr ty fd s'\<rparr>)"
    and snoop: "P d \<Longrightarrow> fd \<in> set (d_clients d) \<Longrightarrow> P (d\<lparr>d_tids := tidlist_add_tid ALL_TID addr TRANS_TYPE_SNOOP fd (d_tids d)\<rparr>)"
    and released: "P d \<Longrightarrow> P (d\<lparr>d_tids := tidlist_remove_tid tid (d_tids d)\<rparr>)"
    and closing: "P d \<Longrightarrow> P (d\<lparr>d_tids := set_tid_type tid TRANS_TYPE_CLOSE (d_tids d)\<rparr>)"
    and left: "P d \<Longrightarrow> fd \<in> set (d_clients d) \<Longrightarrow> rem_client e fd d = Some d' \<Longrightarrow> P d'"
    and joined: "P d \<Longrightarrow> fd \<ge> 0 \<Longrightarrow> fd \<notin> set (d_clients d) \<Longrightarrow> P (add_client fd d)"
    and clients_distinct: "P d \<Longrightarrow> distinct (d_clients d)"
begin

lemma sent: "P d \<Longrightarrow> tr_send_packet e tid addr p d = Some (r, d') \<Longrightarrow> P d' \<and> d_clients d' = d_clients d"
proof -
  assume "P d" "tr_send_packet e tid addr p d = Some (r, d')"
  then obtain st w where "d' = d\<lparr>d_trd := st, d_ptr := w\<rparr>" using tr_send_packet_frame by blast
  then show ?thesis using transports [OF \<open>P d\<close>, of d'] by simp
qed

lemma closed_connections: "P d \<Longrightarrow> P (close_transport_connections tid d)"
  by (erule transports) (simp_all add: close_transport_connections_def)

lemma dispatched:
  "P d \<Longrightarrow> is_frame f \<Longrightarrow> set cs \<subseteq> set (d_clients d) \<Longrightarrow> distinct cs \<Longrightarrow> dispatch_loop e f cs d = Some d' \<Longrightarrow> P d'"
proof (induction cs arbitrary: d)
  case (Cons c cs)
  show ?case
  proof (cases "n_writes e c")
    case True
    then show ?thesis using Cons.prems written by (intro Cons.IH [of "write_client c f d"]) (auto simp: write_client_def)
  next
    case False
    then obtain d1 where d1: "rem_client e c d = Some d1" "dispatch_loop e f cs d1 = Some d'"
      using Cons.prems(5) by (auto split: bind_splits)
    moreover have "set cs \<subseteq> set (d_clients d1)"
      using rem_client_spec [OF d1(1)] Cons.prems clients_distinct by auto
    ultimately show ?thesis using Cons.prems left by (intro Cons.IH [of d1]) auto
  qed
qed simp

lemma to_app: "P d \<Longrightarrow> send_toApp e msg ty tid addr d = Some d' \<Longrightarrow> P d'"
proof -
  assume P: "P d" and s: "send_toApp e msg ty tid addr d = Some d'"
  let ?f = "write_transport_msg (n_pad e) msg ty tid addr"
  show ?thesis
  proof (cases "tid = ALL_TID")
    case True
    then show ?thesis
      using s dispatched [OF P write_transport_msg_frame _ clients_distinct [OF P]]
      by (auto simp: send_toApp_def dispatch_packet_def)
  next
    case False
    have "find_client_fd (d_tids d) tid \<in> tl_fd ` set (tids (d_tids d))" if "find_client_fd (d_tids d) tid \<ge> 0"
      using that by (auto simp: find_client_fd_def dest: tidlist_find_SomeD split: option.splits)
    then show ?thesis using s False P released written [OF P write_transport_msg_frame]
      by (auto simp: send_toApp_def send_to_tid_def Let_def split: if_splits)
  qed
qed

lemma close_checked: "P d \<Longrightarrow> check_close_done e tid d = Some d' \<Longrightarrow> P d'"
  using to_app released by (auto simp: check_close_done_def split: option.splits if_splits bind_splits)

lemma new_tid_assigned:
  "P d \<Longrightarrow> fd \<in> set (d_clients d) \<Longrightarrow> new_tid_for addr ty fd d = Some (tid, d') \<Longrightarrow> P d' \<and> d_clients d' = d_clients d"
  using new_tid by (auto simp: new_tid_for_def split: bind_splits)

lemma service_sent: "P d \<Longrightarrow> service_send_request tid msg d = Some d' \<Longrightarrow> P d'"
  by (auto simp: service_send_request_def Let_def split: if_splits elim!: transports)

lemma service_received: "P d \<Longrightarrow> service_receive_response e n p d = Some d' \<Longrightarrow> P d'"
  using to_app released by (auto simp: service_receive_response_def Let_def split: if_splits bind_splits)

lemma task_handled:
  assumes "P d" "fd \<in> set (d_clients d)" "client_task e fd addr payload d = Some d'"
  shows "P d'"
proof -
  obtain tid d1 r d2 where d1: "new_tid_for addr TRANS_TYPE_TASK fd d = Some (tid, d1)"
    and d2: "tr_send_packet e tid addr payload d1 = Some (r, d2)"
    and rest: "(if r < 0 then do {
        d3 \<leftarrow> reply e TRANS_TYPE_CMD_NACK tid addr d2;
        Some (d3\<lparr>d_tids := tidlist_remove_tid tid (d_tids d3)\<rparr>)
      }
      else if addr = TOS_BCAST_ADDR then reply e TRANS_TYPE_CMD_ACK tid addr d2
      else reply e TRANS_TYPE_CMD_RETURN tid addr d2) = Some d'"
    using assms(3) by (auto simp: client_task_def split: bind_splits)
  have "P d2" using new_tid_assigned [OF assms(1,2) d1] sent d2 by blast
  then show ?thesis using rest to_app released by (auto simp: reply_def split: if_splits bind_splits)
qed

lemma close_handled: "P d \<Longrightarrow> client_close e tid addr d = Some d' \<Longrightarrow> P d'"
proof -
  assume P: "P d" and c: "client_close e tid addr d = Some d'"
  show ?thesis
  proof (cases "tidlist_find_tid (d_tids d) tid")
    case (Some t)
    then obtain r d1 where "tr_send_close_task e tid addr (d\<lparr>d_tids := set_tid_type tid TRANS_TYPE_CLOSE (d_tids d)\<rparr>) = Some (r, d1)"
      and d1: "check_close_done e tid (close_transport_connections tid d1) = Some d'"
      using c by (auto simp: client_close_def split: bind_splits)
    then have "P d1" using sent [OF closing [OF P]] unfolding tr_send_close_task_def by blast
    then show ?thesis using closed_connections close_checked d1 by blast
  qed (use P c in \<open>simp add: client_close_def\<close>)
qed

lemma pinged: "P d \<Longrightarrow> P (d\<lparr>d_tcmp := w\<rparr>)"
  by (erule transports) simp_all

lemma message_handled:
  assumes "P d" "fd \<in> set (d_clients d)" "client_msg e fd m d = Some d'"
  shows "P d'"
  using assms(1,3)
  by (auto simp: client_msg_def Let_def split: if_split_asm bind_splits
      intro: task_handled [OF assms(1,2)] close_handled [OF assms(1)] service_sent pinged snoop [OF assms(1,2)] assms(1)
      dest: new_tid_assigned [OF assms(1,2)])

lemma links_after_in: "links_after prev cs = Some xs \<Longrightarrow> distinct cs \<Longrightarrow> set xs \<subseteq> set cs \<and> distinct xs"
proof (cases prev)
  case (Some p)
  define ys where "ys = dropWhile (\<lambda>c. c \<noteq> p) cs"
  assume "links_after prev cs = Some xs" "distinct cs"
  then have xs: "xs = tl ys" using Some by (simp add: links_after_def ys_def split: if_splits)
  have "set ys \<subseteq> set cs" "distinct ys" using \<open>distinct cs\<close> unfolding ys_def by (auto dest: set_dropWhileD)
  then show ?thesis unfolding xs by (cases ys) auto
qed (simp add: links_after_def)

lemma clients_handled:
  assumes "P d" "clients_loop e inp prev cs d = Some d'" "distinct cs" "set cs \<subseteq> set (d_clients d)"
  shows "P d'"
proof -
  have "P d \<longrightarrow> distinct cs \<longrightarrow> set cs \<subseteq> set (d_clients d) \<longrightarrow> P d'"
  proof (rule clients_loop.raw_induct [OF _ assms(2)])
    fix f :: "daemon_env \<Rightarrow> (int \<Rightarrow> tr_msg option option) \<Rightarrow> int option \<Rightarrow> int list \<Rightarrow> daemon \<Rightarrow> daemon option"
      and e inp prev cs d d'
    assume IH: "\<And>e inp prev cs d d'. f e inp prev cs d = Some d' \<Longrightarrow>
        P d \<longrightarrow> distinct cs \<longrightarrow> set cs \<subseteq> set (d_clients d) \<longrightarrow> P d'"
    assume r: "(case cs of [] \<Rightarrow> Some d | c # cs' \<Rightarrow>
         (case inp c of
            None \<Rightarrow> f e inp (Some c) cs' d
          | Some None \<Rightarrow> rem_client e c d \<bind> f e inp prev cs'
          | Some (Some m) \<Rightarrow> client_msg e c m d \<bind> (\<lambda>d1. links_after prev (d_clients d1) \<bind>
              (\<lambda>rest. case rest of [] \<Rightarrow> None | x # xs \<Rightarrow> f e inp (Some x) xs d1)))) = Some d'"
    show "P d \<longrightarrow> distinct cs \<longrightarrow> set cs \<subseteq> set (d_clients d) \<longrightarrow> P d'"
    proof (intro impI)
      assume P: "P d" and cs: "distinct cs" "set cs \<subseteq> set (d_clients d)"
      show "P d'"
      proof (cases cs)
        case Nil
        then show ?thesis using r P by simp
      next
        case (Cons c cs')
        consider "inp c = None" | "inp c = Some None" | m where "inp c = Some (Some m)" by (metis not_Some_eq)
        then show ?thesis
        proof cases
          case 1
          then show ?thesis using IH [of e inp "Some c" cs' d d'] r P cs Cons by simp
        next
          case 2
          then obtain d1 where d1: "rem_client e c d = Some d1" "f e inp prev cs' d1 = Some d'"
            using r Cons by (auto split: bind_splits)
          have "P d1" using left [OF P _ d1(1)] cs Cons by simp
          moreover have "set cs' \<subseteq> set (d_clients d1)"
            using rem_client_spec [OF d1(1)] cs Cons clients_distinct [OF P] by auto
          ultimately show ?thesis using IH [OF d1(2)] cs Cons by simp
        next
          case 3
          then obtain d1 x xs where d1: "client_msg e c m d = Some d1" "links_after prev (d_clients d1) = Some (x # xs)"
            "f e inp (Some x) xs d1 = Some d'"
            using r Cons by (auto split: bind_splits list.splits)
          have "P d1" using message_handled [OF P _ d1(1)] cs Cons by simp
          then show ?thesis using IH [OF d1(3)] links_after_in [OF d1(2) clients_distinct] by auto
        qed
      qed
    qed
  qed
  then show ?thesis using assms by blast
qed

lemma ups_sent: "P d \<Longrightarrow> send_ups e us d = Some d' \<Longrightarrow> P d'"
proof (induction us arbitrary: d)
  case (Cons u us)
  then show ?case using to_app by (cases u) (auto split: bind_splits, blast)
qed simp

lemma done_sent: "P d \<Longrightarrow> senddone_packettransport e tid addr success d = Some d' \<Longrightarrow> P d'"
  by (auto simp: senddone_packettransport_def reply_def split: option.splits if_split_asm bind_splits
      intro: close_checked to_app released)

lemma dones_sent: "P d \<Longrightarrow> send_dones e xs d = Some d' \<Longrightarrow> P d'"
proof (induction xs arbitrary: d)
  case (Cons x xs)
  then show ?case using done_sent by (cases x) (auto split: bind_splits, blast)
qed simp

lemma deletions_sent: "P d \<Longrightarrow> tids_deleted e ts d = Some d' \<Longrightarrow> P d'"
  by (induction ts arbitrary: d) (auto split: bind_splits dest: close_checked)

lemma tcmp_sent: "P d \<Longrightarrow> tcmp_ups e xs d = Some d' \<Longrightarrow> P d'"
proof (induction xs arbitrary: d)
  case (Cons x xs)
  then show ?case by (cases x) (auto split: bind_splits dest: to_app intro: released)
qed simp

lemma ptr_after: "P d \<Longrightarrow> after_ptr e w d = Some d' \<Longrightarrow> P d'"
proof -
  assume P: "P d" and a: "after_ptr e w d = Some d'"
  have "P (d\<lparr>d_ptr := w\<rparr>)" by (rule transports [OF P]) simp_all
  then show ?thesis using a by (auto simp: after_ptr_def Let_def split: bind_splits intro: ups_sent dones_sent)
qed

lemma str_after: "P d \<Longrightarrow> after_str e w d = Some d' \<Longrightarrow> P d'"
proof -
  assume P: "P d" and a: "after_str e w d = Some d'"
  have "P (d\<lparr>d_str := w\<rparr>)" by (rule transports [OF P]) simp_all
  then show ?thesis using a by (auto simp: after_str_def Let_def split: bind_splits intro: ups_sent deletions_sent)
qed

lemma tcmp_after: "P d \<Longrightarrow> after_tcmp e w d = Some d' \<Longrightarrow> P d'"
  unfolding after_tcmp_def by (rule tcmp_sent [OF pinged])

lemma trd_routed: "P d \<Longrightarrow> router_trd e p d = Some d' \<Longrightarrow> P d'"
proof -
  assume P: "P d" and r: "router_trd e p d = Some d'"
  have q: "P (d\<lparr>d_trd := st, d_frag := fs\<rparr>)" for st fs by (rule transports [OF P]) simp_all
  then show ?thesis using r to_app [OF q]
    by (auto simp: router_trd_def receive_trd_transport_def Let_def split: bind_splits option.splits if_split_asm)
qed

lemma routed: "P d \<Longrightarrow> router_routed e m d = Some d' \<Longrightarrow> P d'"
  by (auto simp: router_routed_def Let_def split: bind_splits if_split_asm
      intro: ptr_after str_after tcmp_after ups_sent deletions_sent)

lemma router_checked: "P d \<Longrightarrow> check_router e p d = Some d' \<Longrightarrow> P d'"
  by (auto simp: check_router_def split: option.splits if_split_asm intro: service_received trd_routed routed)

lemma timer_checked:
  assumes "P d" "check_timer e d = Some d'"
  shows "P d'"
proof -
  obtain w d1 v d2 d3 d4 where
    s: "after_ptr e w d = Some d1" "after_str e v d1 = Some d2" "send_ups e (n_rcrt_up e) d2 = Some d3"
       "tids_deleted e (n_rcrt_done e) d3 = Some d4" and
    t: "after_tcmp e (polling_tcmp_timer (n_tcmp e) (d_tcmp d4))
         (d4\<lparr>d_trd := polling_trd_transport_timer (n_trd e 0) (n_trd e 1) (d_trd d4)\<rparr>) = Some d'"
    using assms(2) by (auto simp: check_timer_def Let_def split: bind_splits)
  have "P d4" using deletions_sent [OF ups_sent [OF str_after [OF ptr_after [OF assms(1) s(1)] s(2)] s(3)] s(4)] .
  then have "P (d4\<lparr>d_trd := polling_trd_transport_timer (n_trd e 0) (n_trd e 1) (d_trd d4)\<rparr>)"
    by (rule transports) simp_all
  then show ?thesis using tcmp_after t by blast
qed

lemma clients_checked: "P d \<Longrightarrow> check_clients e inp d = Some d' \<Longrightarrow> P d'"
  unfolding check_clients_def by (rule clients_handled) (auto intro: clients_distinct)

lemma init_checked: "P d \<Longrightarrow> P (check_init d)"
  by (erule transports) (simp_all add: check_init_def)

text \<open>The system gives a new client a descriptor that is not in use.\<close>

lemma client_checked: "P d \<Longrightarrow> fd \<notin> set (d_clients d) \<Longrightarrow> P (check_new_client fd ok d)"
  by (simp add: check_new_client_def new_client_def joined)

end

section \<open>Rounds\<close>

fun fresh_descriptor :: "(nat \<Rightarrow> daemon_env) \<Rightarrow> loop_event \<Rightarrow> daemon \<Rightarrow> bool" where
  "fresh_descriptor es (Ready p (Some (fd, ok)) inp) d =
    (case check_router (es 0) p d of None \<Rightarrow> True | Some d1 \<Rightarrow> fd \<notin> set (d_clients d1))"
| "fresh_descriptor es ev d = True"

inductive daemon_reachable :: "nat \<times> daemon \<Rightarrow> bool" where
  start: "tids (d_tids d0) = [] \<Longrightarrow> d_clients d0 = [] \<Longrightarrow> d_num_clients d0 = 0 \<Longrightarrow> d_app d0 = []
    \<Longrightarrow> initialize_transport e rt_fd d0 = Some d \<Longrightarrow> daemon_reachable (0, d)"
| step: "daemon_reachable (n, d) \<Longrightarrow> fresh_descriptor es ev d \<Longrightarrow> main_step es ev (n, d) = Some (m, d')
    \<Longrightarrow> daemon_reachable (m, d')"

context daemon_stable
begin

lemma stepped:
  assumes "P d" "fresh_descriptor es ev d" "main_step es ev (n, d) = Some (m, d')"
  shows "P d'"
proof (cases ev)
  case Idle
  then obtain d1 where "check_timer (es 2) d = Some d1" "d' = check_init d1"
    using assms(3) by (auto split: bind_splits)
  then show ?thesis using timer_checked [OF assms(1)] init_checked by blast
next
  case (Ready p c inp)
  then obtain d1 where d1: "check_router (es 0) p d = Some d1" using assms(3) by (auto split: bind_splits)
  define d2 where "d2 = (case c of None \<Rightarrow> d1 | Some (fd, ok) \<Rightarrow> check_new_client fd ok d1)"
  obtain d3 where d3: "check_clients (es 1) inp d2 = Some d3"
    and rest: "d' = d3 \<or> check_timer (es 2) d3 = Some d'"
    using assms(3) d1 Ready by (auto simp: d2_def [symmetric] Let_def split: bind_splits if_split_asm)
  have "P d1" using router_checked [OF assms(1) d1] .
  then have "P d2" using assms(2) d1 Ready client_checked by (auto simp: d2_def split: option.splits)
  then have "P d3" using clients_checked d3 by blast
  then show ?thesis using rest timer_checked by blast
qed

lemma reached:
  assumes "daemon_reachable nd" and "\<And>d. tids (d_tids d) = [] \<Longrightarrow> num_tids (d_tids d) = 0 \<Longrightarrow> d_clients d = [] \<Longrightarrow> d_num_clients d = 0
      \<Longrightarrow> d_app d = [] \<Longrightarrow> P d"
  shows "P (snd nd)"
  using assms(1)
proof (induction rule: daemon_reachable.induct)
  case (start d0 e rt_fd d)
  obtain st fs where "base_id_request (d0\<lparr>d_tids := snd (tidlist_init (d_tids d0)), d_trd := st, d_frag := fs\<rparr>) = Some d"
    using start by (auto simp: initialize_transport_def split: prod.splits)
  moreover have "tids (snd (tidlist_init (d_tids d0))) = tids (d_tids d0)" "num_tids (snd (tidlist_init (d_tids d0))) = 0"
    by (auto simp: tidlist_init_def store_tid_def Let_def split: option.splits)
  then have "P (d0\<lparr>d_tids := snd (tidlist_init (d_tids d0)), d_trd := st, d_frag := fs\<rparr>)"
    using start by (intro assms(2)) simp_all
  ultimately show ?case using service_sent by (auto simp: base_id_request_def)
next
  case (step n d es ev m d')
  then show ?case using stepped by simp
qed

end

section \<open>The tables\<close>

definition entry_ok :: "int list \<Rightarrow> tid_list \<Rightarrow> bool" where
  "entry_ok cs t \<longleftrightarrow> tl_fd t \<ge> 0 \<and> (tl_type t = TRANS_TYPE_TASK \<longrightarrow> tl_fd t \<in> set cs)
    \<and> (1 \<le> unat (tl_tid t) \<and> unat (tl_tid t) \<le> 50000 \<or> tl_tid t = ALL_TID)"

definition table_inv :: "daemon \<Rightarrow> bool" where
  "table_inv d \<longleftrightarrow> tid_inv (d_tids d) \<and> distinct (d_clients d) \<and> d_num_clients d = int (length (d_clients d))
    \<and> (\<forall>c \<in> set (d_clients d). c \<ge> 0)
    \<and> (\<forall>t \<in> set (tids (d_tids d)). entry_ok (d_clients d) t)"

lemma table_inv_tids:
  assumes "table_inv d" "tid_inv s" "set (tids s) \<subseteq> insert t (set (tids (d_tids d)))"
    "tl_fd t \<in> set (d_clients d)" "1 \<le> unat (tl_tid t) \<and> unat (tl_tid t) \<le> 50000 \<or> tl_tid t = ALL_TID"
  shows "table_inv (d\<lparr>d_tids := s\<rparr>)"
proof -
  have "\<forall>u \<in> insert t (set (tids (d_tids d))). entry_ok (d_clients d) u"
    using assms(1,4,5) by (simp add: table_inv_def entry_ok_def)
  then show ?thesis using assms(1-3) by (auto simp: table_inv_def subset_iff)
qed

lemma tids_add: "set (tids (tidlist_add_tid tid addr ty fd s))
    \<subseteq> insert \<lparr>tl_tid = tid, tl_addr = addr, tl_type = ty, tl_fd = fd\<rparr> (set (tids s))"
  by (auto simp: tidlist_add_tid_def split: option.splits)

lemma tids_remove: "set (tids (tidlist_remove_tid tid s)) \<subseteq> set (tids s)"
  using rem_first_tid_set by (auto simp: tidlist_remove_tid_def split: option.splits)

lemma assign_inv: "tid_inv s \<Longrightarrow> assign_new_tid 0 s = Some (tid, s') \<Longrightarrow> tid_inv s'"
  using assign_new_tid_result by (auto simp: tid_inv_def)

lemma table_inv_new_tid:
  assumes "table_inv d" "assign_new_tid 0 (d_tids d) = Some (tid, s')" "fd \<in> set (d_clients d)"
  shows "table_inv (d\<lparr>d_tids := tidlist_add_tid tid addr ty fd s'\<rparr>)"
proof -
  from assign_new_tid_result [OF assms(2)] have r: "tid_free (d_tids d) tid" "tids s' = tids (d_tids d)" by blast+
  have inv: "tid_inv s'" using assms(1,2) assign_inv by (auto simp: table_inv_def)
  have "1 \<le> unat tid" "unat tid \<le> 50000" using r(1) by (simp_all add: tid_free_def consts_defs word_le_nat_alt)
  then show ?thesis using assms(1,3) tid_inv_add [OF inv] tids_add [of tid addr ty fd s'] r(2)
    by (intro table_inv_tids [where t = "\<lparr>tl_tid = tid, tl_addr = addr, tl_type = ty, tl_fd = fd\<rparr>"]) simp_all
qed

lemma table_inv_left:
  assumes "table_inv d" "fd \<in> set (d_clients d)" "rem_client e fd d = Some d'"
  shows "table_inv d'"
proof -
  note r = rem_client_spec [OF assms(3)]
  let ?ts = "tids (d_tids d)"
  have n: "length (filter (\<lambda>t. \<not> owned fd t) ?ts) + length (filter (owned fd) ?ts) = length ?ts"
    using sum_length_filter_compl [of "owned fd" ?ts] by simp
  have inv: "tid_inv (d_tids d')"
    using assms(1) r n by (auto simp: table_inv_def tid_inv_def distinct_map_filter)
  have "length (d_clients d) = Suc (length (remove1 fd (d_clients d)))"
    using assms(2) length_pos_if_in_set [OF assms(2)] by (simp add: length_remove1)
  then have len: "d_num_clients d' = int (length (d_clients d'))" using assms(1) r by (simp add: table_inv_def)
  have "entry_ok (d_clients d') t" if "entry_ok (d_clients d) t" "\<not> owned fd t" for t
    using that assms(1) r by (auto simp: entry_ok_def table_inv_def)
  then show ?thesis using assms(1) r inv len by (auto simp: table_inv_def)
qed

lemma table_inv_closing:
  assumes "table_inv d"
  shows "table_inv (d\<lparr>d_tids := set_tid_type tid TRANS_TYPE_CLOSE (d_tids d)\<rparr>)"
proof -
  have ty: "entry_ok cs u \<Longrightarrow> entry_ok cs (u\<lparr>tl_type := TRANS_TYPE_CLOSE\<rparr>)" for cs u
    by (simp add: entry_ok_def trans_types)
  have "entry_ok (d_clients d) t"
    if "t \<in> set (set_first_type tid TRANS_TYPE_CLOSE (tids (d_tids d)))" for t
    using set_first_type_in [OF that] assms ty unfolding table_inv_def by blast
  then show ?thesis using assms tid_inv_type unfolding table_inv_def by (simp add: set_tid_type_def)
qed

interpretation tables: daemon_stable table_inv
proof
  fix d s' tid fd addr ty f e
  show "distinct (d_clients d)" if "table_inv d" for d using that by (simp add: table_inv_def)
  show "table_inv d'" if "table_inv d" "d_tids d' = d_tids d" "d_clients d' = d_clients d" "d_num_clients d' = d_num_clients d" for d d'
    using that by (simp add: table_inv_def)
  show "table_inv (write_client fd f d)" if "table_inv d" using that by (simp add: table_inv_def write_client_def)
  show "table_inv (d\<lparr>d_tids := tidlist_add_tid tid addr ty fd s'\<rparr>)"
    if "table_inv d" "assign_new_tid 0 (d_tids d) = Some (tid, s')" "fd \<in> set (d_clients d)"
    using table_inv_new_tid that by blast
  show "table_inv (d\<lparr>d_tids := tidlist_add_tid ALL_TID addr TRANS_TYPE_SNOOP fd (d_tids d)\<rparr>)"
    if "table_inv d" "fd \<in> set (d_clients d)"
    using that tids_add [of ALL_TID addr TRANS_TYPE_SNOOP fd "d_tids d"] tid_inv_add
    by (intro table_inv_tids [where t = "\<lparr>tl_tid = ALL_TID, tl_addr = addr, tl_type = TRANS_TYPE_SNOOP, tl_fd = fd\<rparr>"])
      (simp_all add: table_inv_def)
  show "table_inv (d\<lparr>d_tids := tidlist_remove_tid tid (d_tids d)\<rparr>)" if "table_inv d"
    using that tids_remove [of tid "d_tids d"] tid_inv_remove by (auto simp: table_inv_def)
  show "table_inv (d\<lparr>d_tids := set_tid_type tid TRANS_TYPE_CLOSE (d_tids d)\<rparr>)" if "table_inv d"
    using table_inv_closing that by blast
  show "table_inv d'" if "table_inv d" "fd \<in> set (d_clients d)" "rem_client e fd d = Some d'" for d'
    using table_inv_left that by blast
  show "table_inv (add_client fd d)" if "table_inv d" "fd \<ge> 0" "fd \<notin> set (d_clients d)"
    using that by (auto simp: table_inv_def entry_ok_def add_client_def)
qed

text \<open>
  C4: in every state that the daemon reaches, each identifier has one entry and lies in 1..50000 (or is the one that
  snoops), the counters are the lengths of the lists, and a running task belongs to a client that is connected.
\<close>

theorem daemon_tables_safe:
  assumes "daemon_reachable (n, d)"
  shows "distinct (map tl_tid (tids (d_tids d))) \<and> num_tids (d_tids d) = int (length (tids (d_tids d)))
    \<and> distinct (d_clients d) \<and> d_num_clients d = int (length (d_clients d))
    \<and> (\<forall>t \<in> set (tids (d_tids d)). tl_type t = TRANS_TYPE_TASK \<longrightarrow> tl_fd t \<in> set (d_clients d))
    \<and> (\<forall>t \<in> set (tids (d_tids d)). 1 \<le> unat (tl_tid t) \<and> unat (tl_tid t) \<le> 50000 \<or> tl_tid t = ALL_TID)"
proof -
  have "table_inv d" using tables.reached [OF assms] by (simp add: table_inv_def tid_inv_def)
  then show ?thesis by (auto simp: table_inv_def tid_inv_def entry_ok_def)
qed

definition blank_daemon :: daemon where
  "blank_daemon = \<lparr>d_tids = \<lparr>tids = [], num_tids = 0, myTID = 0, tid_file = None, tid_writable = True\<rparr>,
    d_clients = [], d_num_clients = 0, d_app = [], d_trd = ready_state,
    d_frag = \<lparr>m_fragmented_packet = None, m_next_fragment_ptr = 0, m_tot_fragment = 0, m_tot_bytes = 0\<rparr>,
    d_ptr = \<lparr>m_ptrcs = [], ptr_sent = [], ptr_up = [], ptr_done = []\<rparr>,
    d_str = \<lparr>m_strcs = [], str_sent = [], str_up = [], str_deleted = []\<rparr>,
    d_tcmp = \<lparr>tcmps = [], tc_out = [], tc_events = []\<rparr>, d_bs = [], d_rcrt = [], d_me = 1, d_ready = False\<rparr>"

definition sample_denv :: daemon_env where
  "sample_denv = \<lparr>n_now = \<lparr>tv_sec = 100, tv_usec = 7\<rparr>, n_trd = (\<lambda>_. sample_env), n_ignore = False, n_ptr = sample_ptr_mem,
    n_str = sample_mem, n_tcmp = at_second 100, n_writes = (\<lambda>_. True), n_pad = 0, n_heap = [], n_rcrt = (\<lambda>_. False),
    n_rcrt_up = [], n_rcrt_done = []\<rparr>"

text \<open>A daemon with one client that has a task for node 3 and a ping of node 33.\<close>

definition sample_daemon :: daemon where
  "sample_daemon = blank_daemon\<lparr>d_tids := \<lparr>tids = [\<lparr>tl_tid = 8, tl_addr = 33, tl_type = TRANS_TYPE_PING, tl_fd = 5\<rparr>,
      \<lparr>tl_tid = 7, tl_addr = 3, tl_type = TRANS_TYPE_TASK, tl_fd = 5\<rparr>],
    num_tids = 2, myTID = 9, tid_file = None, tid_writable = True\<rparr>, d_clients := [5], d_num_clients := 1\<rparr>"

text \<open>The daemon after its start and the arrival of a client.\<close>

lemma sample_client_reachable: "\<exists>d. daemon_reachable (1, d) \<and> d_clients d = [5]"
proof -
  have "\<exists>d. initialize_transport sample_denv 3 blank_daemon = Some d \<and> d_clients d = []"
    by (simp add: initialize_transport_def trd_transport_init_def base_id_request_def service_send_request_def Let_def
        put16le_def get16le_def get8_def blank_daemon_def BS_SERVICE_ID_def BS_SERVICE_TIME_def)
  then obtain d where d: "initialize_transport sample_denv 3 blank_daemon = Some d" "d_clients d = []" by blast
  then have r: "daemon_reachable (0, d)" by (intro daemon_reachable.start) (simp_all add: blank_daemon_def)
  let ?ev = "Ready None (Some (5, True)) (\<lambda>_. None)"
  have f: "fresh_descriptor (\<lambda>_. sample_denv) ?ev d" by (simp add: check_router_def d)
  have "main_step (\<lambda>_. sample_denv) ?ev (0, d) = Some (1, add_client 5 d)"
    using d(2) by (simp add: check_router_def check_new_client_def new_client_def check_clients_def add_client_def
        clients_loop.simps [of _ _ _ "[5]"] clients_loop.simps [of _ _ _ "[]"])
  from daemon_reachable.step [OF r f this] show ?thesis using d(2) by (auto simp: add_client_def)
qed

theorem daemon_tables_safe_witness:
  "\<exists>d. daemon_reachable (1, d) \<and> distinct (map tl_tid (tids (d_tids d))) \<and> distinct (d_clients d)
    \<and> d_num_clients d = int (length (d_clients d)) \<and> d_clients d = [5]"
proof -
  obtain d where d: "daemon_reachable (1, d)" "d_clients d = [5]" using sample_client_reachable by blast
  then show ?thesis using daemon_tables_safe [OF d(1)] by blast
qed

section \<open>Frames\<close>

definition frames_inv :: "daemon \<Rightarrow> bool" where
  "frames_inv d \<longleftrightarrow> table_inv d \<and> (\<forall>x \<in> set (d_app d). is_frame (snd x) \<and> fst x \<ge> 0)"

interpretation frames: daemon_stable frames_inv
proof
  fix d s' tid fd addr ty f e
  have t: "frames_inv d \<Longrightarrow> table_inv d" for d by (simp add: frames_inv_def)
  have k: "frames_inv d \<Longrightarrow> table_inv d' \<Longrightarrow> d_app d' = d_app d \<Longrightarrow> frames_inv d'" for d d'
    by (simp add: frames_inv_def)
  show "distinct (d_clients d)" if "frames_inv d" for d using tables.clients_distinct [OF t [OF that]] .
  show "frames_inv d'" if "frames_inv d" "d_tids d' = d_tids d" "d_clients d' = d_clients d" "d_num_clients d' = d_num_clients d"
    "d_app d' = d_app d" for d d' using k [OF that(1) tables.transports [OF t [OF that(1)]]] that by simp
  show "frames_inv (write_client fd f d)"
    if "frames_inv d" "is_frame f" "fd \<in> set (d_clients d) \<or> fd \<in> tl_fd ` set (tids (d_tids d))"
  proof -
    have "fd \<ge> 0" using t [OF that(1)] that(3) by (auto simp: table_inv_def entry_ok_def)
    then show ?thesis using that(1,2) tables.written [OF t [OF that(1)] that(2,3)]
      by (auto simp: frames_inv_def write_client_def)
  qed
  show "frames_inv (d\<lparr>d_tids := tidlist_add_tid tid addr ty fd s'\<rparr>)"
    if "frames_inv d" "assign_new_tid 0 (d_tids d) = Some (tid, s')" "fd \<in> set (d_clients d)"
    using k [OF that(1) tables.new_tid [OF t [OF that(1)] that(2,3)]] by simp
  show "frames_inv (d\<lparr>d_tids := tidlist_add_tid ALL_TID addr TRANS_TYPE_SNOOP fd (d_tids d)\<rparr>)"
    if "frames_inv d" "fd \<in> set (d_clients d)" using k [OF that(1) tables.snoop [OF t [OF that(1)] that(2)]] by simp
  show "frames_inv (d\<lparr>d_tids := tidlist_remove_tid tid (d_tids d)\<rparr>)" if "frames_inv d"
    using k [OF that tables.released [OF t [OF that]]] by simp
  show "frames_inv (d\<lparr>d_tids := set_tid_type tid TRANS_TYPE_CLOSE (d_tids d)\<rparr>)" if "frames_inv d"
    using k [OF that tables.closing [OF t [OF that]]] by simp
  show "frames_inv d'" if "frames_inv d" "fd \<in> set (d_clients d)" "rem_client e fd d = Some d'" for d'
    using k [OF that(1) tables.left [OF t [OF that(1)] that(2,3)]] rem_client_spec [OF that(3)] by simp
  show "frames_inv (add_client fd d)" if "frames_inv d" "fd \<ge> 0" "fd \<notin> set (d_clients d)"
    using k [OF that(1) tables.joined [OF t [OF that(1)] that(2,3)]] by (simp add: add_client_def)
qed

text \<open>What a client reads is a sequence of whole messages: the first is read back, and the stream stands at the next.\<close>

definition client_stream :: "int \<Rightarrow> daemon \<Rightarrow> bytes" where
  "client_stream fd d = concat (map snd (filter (\<lambda>x. fst x = fd) (d_app d)))"

lemma client_stream_messages:
  assumes "daemon_reachable (n, d)"
  shows "\<exists>ms. client_stream fd d = concat (map (\<lambda>(pad, m). message pad m) ms)"
proof -
  have "frames_inv d" using frames.reached [OF assms] by (simp add: frames_inv_def table_inv_def tid_inv_def)
  then have "\<forall>x \<in> set (d_app d). \<exists>pad m. snd x = message pad m" by (auto simp: frames_inv_def is_frame_def)
  moreover have "\<forall>x \<in> set xs. \<exists>pad m. snd x = message pad m \<Longrightarrow>
      \<exists>ms. concat (map snd (filter (\<lambda>x. fst x = fd) xs)) = concat (map (\<lambda>(pad, m). message pad m) ms)"
    for xs :: "(int \<times> bytes) list"
  proof (induction xs)
    case (Cons x xs)
    then obtain ms pad m where "concat (map snd (filter (\<lambda>x. fst x = fd) xs)) = concat (map (\<lambda>(pad, m). message pad m) ms)"
      "snd x = message pad m" by auto
    then show ?case by (intro exI [of _ "if fst x = fd then (pad, m) # ms else ms"]) simp
  qed (auto intro: exI [of _ "[]"])
  ultimately show ?thesis unfolding client_stream_def by blast
qed

end
