(* ===== verification/Daemon_Sessions.thy ===== *)
theory Daemon_Sessions
  imports Daemon_Safety
begin

text \<open>
  What the transport daemon does for its clients: the answer to a task, the way of a response from the motes to the
  application that owns its task, and what closing and disconnecting leave behind. The statements compose the models of
  the daemon, of the transports and of the link to the applications.
\<close>

section \<open>Frames\<close>

lemma send_toApp_owner:
  assumes "tid \<noteq> ALL_TID"
  shows "send_toApp e msg ty tid addr d = Some
    (case tidlist_find_tid (d_tids d) tid of
       None \<Rightarrow> d
     | Some t \<Rightarrow>
         if tl_fd t < 0 then d
         else if n_writes e (tl_fd t) then write_client (tl_fd t) (write_transport_msg (n_pad e) msg ty tid addr) d
         else d\<lparr>d_tids := tidlist_remove_tid tid (d_tids d)\<rparr>)"
  using assms by (auto simp: send_toApp_def send_to_tid_def find_client_fd_def Let_def split: option.splits)

text \<open>A client that is connected and reads its end of the socket.\<close>

definition serves :: "daemon_env \<Rightarrow> daemon \<Rightarrow> u16 \<Rightarrow> int \<Rightarrow> bool" where
  "serves e d tid fd \<longleftrightarrow> tid \<noteq> ALL_TID \<and> fd \<ge> 0 \<and> n_writes e fd
    \<and> (\<exists>t. tidlist_find_tid (d_tids d) tid = Some t \<and> tl_fd t = fd)"

lemma send_toApp_serves:
  "serves e d tid fd \<Longrightarrow> send_toApp e msg ty tid addr d
    = Some (write_client fd (write_transport_msg (n_pad e) msg ty tid addr) d)"
  by (auto simp: serves_def send_toApp_owner)

lemma serves_write [simp]: "serves e (write_client c f d) tid fd = serves e d tid fd"
  by (simp add: serves_def write_client_def)

definition response_frame :: "daemon_env \<Rightarrow> int \<Rightarrow> u16 \<times> u16 \<times> bytes \<Rightarrow> int \<times> bytes" where
  "response_frame e fd u = (case u of (tid, addr, msg) \<Rightarrow> (fd, write_transport_msg (n_pad e) msg TRANS_TYPE_RESPONSE tid addr))"

lemma send_ups_serves:
  "serves e d tid fd \<Longrightarrow> \<forall>u \<in> set us. fst u = tid \<Longrightarrow>
    send_ups e us d = Some (d\<lparr>d_app := d_app d @ map (response_frame e fd) us\<rparr>)"
proof (induction us arbitrary: d)
  case (Cons u us)
  obtain addr msg where u: "u = (tid, addr, msg)" using Cons.prems(2) by (cases u) auto
  show ?case using Cons.prems(2)
    by (simp add: u send_toApp_serves [OF Cons.prems(1)] Cons.IH [OF serves_write [THEN iffD2, OF Cons.prems(1)]])
      (simp add: write_client_def response_frame_def)
qed simp

section \<open>A stream transport without deletions\<close>

definition none_pending :: "str_world \<Rightarrow> bool" where
  "none_pending w \<longleftrightarrow> (\<forall>c \<in> set (m_strcs w). \<not> deletePending c)"

text \<open>A step that only hands up, sends, and changes connections that are not to be deleted.\<close>

definition grows :: "str_world \<Rightarrow> str_world \<Rightarrow> bool" where
  "grows w w' \<longleftrightarrow> str_deleted w' = str_deleted w \<and> (\<exists>us. str_up w' = str_up w @ us)"

lemma grows_refl [simp]: "grows w w"
  by (simp add: grows_def)

lemma grows_trans: "grows a b \<Longrightarrow> grows b c \<Longrightarrow> grows a c"
  by (auto simp: grows_def)

lemma grows_sent [simp]: "grows w (str_write a p w')  = grows w w'" "m_strcs (str_write a p w) = m_strcs w"
  by (simp_all add: grows_def str_write_def)

lemma grows_put [simp]: "grows w (str_put c w') = grows w w'"
  by (simp add: grows_def str_put_def)

lemma none_pending_put: "none_pending w \<Longrightarrow> \<not> deletePending c \<Longrightarrow> none_pending (str_put c w)"
  using set_upd_connection [of "m_strcs w" c] by (auto simp: none_pending_def str_put_def)

lemma none_pending_cong: "m_strcs w' = m_strcs w \<Longrightarrow> none_pending w' = none_pending w"
  by (simp add: none_pending_def)

lemma send_NACK_grows:
  "send_NACK c w = Some (r, c', w') \<Longrightarrow> grows w w' \<and> m_strcs w' = m_strcs w \<and> deletePending c' = deletePending c"
  by (auto simp: send_NACK_def Let_def split: if_splits bind_splits)

lemma detectMissingPacket_pending: "detectMissingPacket q c = Some (n, c') \<Longrightarrow> deletePending c' = deletePending c"
  by (auto simp: detectMissingPacket_def split: if_splits bind_splits)

lemma str_dispatch_grows:
  assumes "str_dispatch q c w = Some r"
  shows "grows w (snd r) \<and> m_strcs (snd r) = m_strcs w \<and> deletePending (fst r) = deletePending c"
proof (rule str_dispatch.raw_induct [OF _ assms])
  fix f :: "u16 \<Rightarrow> strclist \<Rightarrow> str_world \<Rightarrow> (strclist \<times> str_world) option" and q c w r
  assume IH: "\<And>q c w r. f q c w = Some r \<Longrightarrow>
    grows w (snd r) \<and> m_strcs (snd r) = m_strcs w \<and> deletePending (fst r) = deletePending c"
  have up: "grows w (snd r) \<and> m_strcs (snd r) = m_strcs w \<and> deletePending (fst r) = deletePending c"
    if "f q (c\<lparr>plist := pl, nextExpectedSeqNo := x\<rparr>) (receive_streamtransport c n p w) = Some r" for pl x n p
    using IH [OF that] by (auto simp: grows_def receive_streamtransport_def)
  have old: "grows w (snd r) \<and> m_strcs (snd r) = m_strcs w \<and> deletePending (fst r) = deletePending c"
    if "f q (c\<lparr>plist := pl\<rparr>) w = Some r" for pl
    using IH [OF that] by simp
  assume "do {
     first \<leftarrow> SPList_getFirstValue (plist c);
     (if first = -1 then Some (c, w)
      else if tr_seqno_cmp (word_of_int first) (nextExpectedSeqNo c) = 0 then do {
        (ptr, v, len, pl) \<leftarrow> SPList_deleteFirstPacket (plist c);
        p \<leftarrow> ptr;
        f q (c\<lparr>plist := pl, nextExpectedSeqNo := tr_seqno_next (nextExpectedSeqNo c)\<rparr>)
          (receive_streamtransport c len p w)
      }
      else if tr_seqno_cmp (word_of_int first) (nextExpectedSeqNo c) < 0 then do {
        (ptr, v, len, pl) \<leftarrow> SPList_deleteFirstPacket (plist c);
        f q (c\<lparr>plist := pl\<rparr>) w
      }
      else if tr_seqno_cmp q (word_of_int first) \<le> 0 then Some (c, w)
      else if tr_seqno_cmp q (tr_seqno_add (word_of_int first) (of_nat TR_VALID_RANGE)) \<ge> 0 then do {
        (ptr, v, len, pl) \<leftarrow> SPList_deleteFirstPacket (plist c);
        p \<leftarrow> ptr;
        f q (c\<lparr>plist := pl, nextExpectedSeqNo := tr_seqno_next (word_of_int first)\<rparr>)
          (receive_streamtransport c len p w)
      }
      else Some (c, w))
   } = Some r"
  then show "grows w (snd r) \<and> m_strcs (snd r) = m_strcs w \<and> deletePending (fst r) = deletePending c"
    by (auto split: bind_splits if_split_asm dest: up old)
qed

lemma receive_str_msg_grows:
  assumes "receive_str_msg c q msg w = Some (c', w')"
  shows "grows w w' \<and> m_strcs w' = m_strcs w \<and> deletePending c' = deletePending c"
proof -
  have d: "grows a w' \<and> m_strcs w' = m_strcs a \<and> deletePending c' = deletePending b"
    if "str_dispatch q b a = Some (c', w')" for a b using str_dispatch_grows [OF that] by simp
  have r: "grows w (receive_streamtransport b n p w)" "m_strcs (receive_streamtransport b n p w) = m_strcs w" for b n p
    by (simp_all add: grows_def receive_streamtransport_def)
  show ?thesis using assms d r grows_trans
    by (auto simp: receive_str_msg_def Let_def split: if_split_asm bind_splits; fastforce)
qed

lemma s_send_grows:
  "s_send_SYN_ACK c w = Some w' \<Longrightarrow> grows w w' \<and> m_strcs w' = m_strcs w"
  "s_send_FIN_ACK_to t a q w = Some w' \<Longrightarrow> grows w w' \<and> m_strcs w' = m_strcs w"
  "s_send_FIN_ACK c w = Some w' \<Longrightarrow> grows w w' \<and> m_strcs w' = m_strcs w"
  by (auto simp: s_send_SYN_ACK_def s_send_FIN_ACK_to_def s_send_FIN_ACK_def split: bind_splits)

lemma str_finish_grows:
  assumes "str_finish now c w = Some w'" "\<not> deletePending c" "none_pending w"
  shows "grows w w' \<and> none_pending w'"
proof -
  obtain w1 where w1: "s_send_FIN_ACK c w = Some w1" using assms(1) by (auto simp: str_finish_def split: bind_splits)
  let ?c = "c\<lparr>str_state := STR_C_S_FINISHED\<rparr>"
  have w': "w' = str_put (STR_Timer_start now STR_CONNECTION_TIMEOUT ?c) (str_put ?c w1)"
    using assms(1,2) w1 by (simp add: str_finish_def Let_def)
  have "none_pending w1" using s_send_grows(3) [OF w1] assms(3) none_pending_cong by blast
  then have "none_pending w'" unfolding w' using assms(2) by (intro none_pending_put) (simp_all add: STR_Timer_start_def)
  then show ?thesis using s_send_grows(3) [OF w1] by (simp add: w')
qed

lemma found_not_pending: "find_connection (m_strcs w) tid addr = Some c \<Longrightarrow> none_pending w \<Longrightarrow> \<not> deletePending c"
  by (auto simp: none_pending_def dest: find_connection_Some)

lemma str_receive_syn_grows:
  assumes "str_receive_syn now tid addr q mem w = Some w'" "none_pending w"
  shows "grows w w' \<and> none_pending w'"
proof -
  obtain c w1 w2 where c: "(case find_connection (m_strcs w) tid addr of
       None \<Rightarrow> create_str_connection tid addr q mem w | Some c \<Rightarrow> Some (c, w)) = Some (c, w1)"
    and w2: "s_send_SYN_ACK c w1 = Some w2" "w' = str_put (STR_Timer_start now STR_CONNECTION_TIMEOUT c) w2"
    using assms(1) by (auto simp: str_receive_syn_def split: bind_splits)
  have "grows w w1 \<and> none_pending w1 \<and> \<not> deletePending c"
  proof (cases "find_connection (m_strcs w) tid addr")
    case None
    then show ?thesis using c assms(2)
      by (auto simp: create_str_connection_def add_connection_def Let_def none_pending_def grows_def)
  next
    case (Some b)
    then show ?thesis using c assms(2) found_not_pending by auto
  qed
  moreover have "grows w1 w2" "none_pending w2 = none_pending w1"
    using s_send_grows(1) [OF w2(1)] none_pending_cong by blast+
  ultimately show ?thesis
    using w2(2) grows_trans none_pending_put [of w2 "STR_Timer_start now STR_CONNECTION_TIMEOUT c"]
    by (auto simp: STR_Timer_start_def)
qed

lemma str_nack_put_grows:
  assumes "send_NACK c w = Some (r, c1, w1)" "\<not> deletePending c" "none_pending w" "deletePending b = deletePending c1"
  shows "grows w (str_put b w1) \<and> none_pending (str_put b w1)"
proof -
  have "none_pending w1" using none_pending_cong [of w1 w] send_NACK_grows [OF assms(1)] assms(3) by simp
  then show ?thesis using none_pending_put [of w1 b] send_NACK_grows [OF assms(1)] assms(2,4) by simp
qed

lemma str_receive_fin_grows:
  assumes "str_receive_fin now tid addr q w = Some w'" "none_pending w"
  shows "grows w w' \<and> none_pending w'"
proof (cases "find_connection (m_strcs w) tid addr")
  case None
  then have "s_send_FIN_ACK_to tid addr q w = Some w'" using assms(1) by (simp add: str_receive_fin_def)
  from s_send_grows(2) [OF this] show ?thesis using assms(2) none_pending_cong by blast
next
  case (Some c0)
  have p0: "\<not> deletePending c0" using found_not_pending [OF Some assms(2)] .
  let ?o = "if tr_seqno_cmp q (lastRecvSeqNo c0) > 0 then do {
                 (n, c1) \<leftarrow> detectMissingPacket q c0;
                 Some (c1\<lparr>lastRecvSeqNo := q\<rparr>)
               } else Some c0"
  let ?rest = "\<lambda>c. if u16list_isEmpty (missingList c) then str_finish now c w
          else do {
            (r, c1, w1) \<leftarrow> send_NACK (c\<lparr>timeoutCount := 0\<rparr>) w;
            Some (str_put (STR_Timer_start now STR_NACK_TIMEOUT (c1\<lparr>str_state := STR_C_S_FIN_NACK_WAIT\<rparr>)) w1)
          }"
  have "?o \<bind> ?rest = Some w'" using assms(1) unfolding str_receive_fin_def Some option.case .
  then obtain c where c: "?o = Some c" and rest: "?rest c = Some w'" unfolding bind_eq_Some_conv by blast
  have p: "\<not> deletePending c"
    using c p0 by (auto split: if_split_asm bind_splits prod.split_asm dest: detectMissingPacket_pending)
  show ?thesis
  proof (cases "u16list_isEmpty (missingList c)")
    case True
    then show ?thesis using rest str_finish_grows p assms(2) by auto
  next
    case False
    then obtain r c1 w1 where "send_NACK (c\<lparr>timeoutCount := 0\<rparr>) w = Some (r, c1, w1)"
      "w' = str_put (STR_Timer_start now STR_NACK_TIMEOUT (c1\<lparr>str_state := STR_C_S_FIN_NACK_WAIT\<rparr>)) w1"
      using rest by (auto split: bind_splits)
    then show ?thesis
      using str_nack_put_grows [of "c\<lparr>timeoutCount := 0\<rparr>" w r c1 w1] p assms(2) by (simp add: STR_Timer_start_def)
  qed
qed

lemma data_tail_grows:
  assumes "data_tail now n c w = Some w'" "\<not> deletePending c" "none_pending w"
  shows "grows w w' \<and> none_pending w'"
proof -
  let ?c = "if str_state c = STR_C_S_PASSIVE then c\<lparr>str_state := STR_C_S_NACK_WAIT\<rparr> else c"
  consider (nack) r c1 w1 where "send_NACK ?c w = Some (r, c1, w1)" "w' = str_put (STR_Timer_start now STR_NACK_TIMEOUT c1) w1"
    | (finish) "str_finish now c w = Some w'" | (put) b where "w' = str_put b w" "deletePending b = deletePending c"
    using assms(1) by (auto simp: data_tail_def STR_Timer_start_def split: if_split_asm bind_splits)
  then show ?thesis
  proof cases
    case nack
    have "\<not> deletePending ?c" using assms(2) by simp
    from str_nack_put_grows [OF nack(1) this assms(3), of "STR_Timer_start now STR_NACK_TIMEOUT c1"]
    show ?thesis by (simp add: nack(2) STR_Timer_start_def)
  next
    case finish
    then show ?thesis using str_finish_grows assms(2,3) by blast
  next
    case put
    then show ?thesis using none_pending_put assms(2,3) by simp
  qed
qed

lemma str_receive_data_grows:
  assumes "str_receive_data now flag tid addr q msg w = Some w'" "none_pending w"
  shows "grows w w' \<and> none_pending w'"
proof (cases "find_connection (m_strcs w) tid addr")
  case None
  then show ?thesis using assms by (simp add: str_receive_data_def)
next
  case (Some c0)
  have p0: "\<not> deletePending c0" using found_not_pending [OF Some assms(2)] .
  obtain n c1 where c1: "(if tr_seqno_cmp q (lastRecvSeqNo c0) > 0 then do {
                 (n, c) \<leftarrow> detectMissingPacket q c0;
                 Some (n, c\<lparr>lastRecvSeqNo := q\<rparr>)
               } else Some (0, c0)) = Some (n, c1)"
    using assms(1) Some by (auto simp: str_receive_data_def split: bind_splits)
  obtain c2 where c2: "(if (flag AND STR_FLAG_RETX) \<noteq> 0 then do {
                  r \<leftarrow> u16list_delete (missingList c1) q;
                  Some (c1\<lparr>missingList := snd r\<rparr>)
                } else Some c1) = Some c2"
    using assms(1) Some c1 by (auto simp: str_receive_data_def Let_def split: bind_splits)
  obtain c3 w3 where c3: "receive_str_msg c2 q msg w = Some (c3, w3)"
    using assms(1) Some c1 c2 by (auto simp: str_receive_data_def Let_def split: bind_splits)
  obtain c4 where c4: "data_tail now n c4 w3 = Some w'" "deletePending c4 = deletePending c3"
    using assms(1) Some c1 c2 c3
    by (auto simp: str_receive_data_def data_tail_def Let_def split: if_split_asm)
  have "\<not> deletePending c1" using c1 p0 by (auto split: if_split_asm bind_splits dest: detectMissingPacket_pending)
  then have "\<not> deletePending c2" using c2 by (auto split: if_split_asm bind_splits)
  then have "\<not> deletePending c4" using receive_str_msg_grows [OF c3] c4(2) by simp
  moreover have "none_pending w3" "grows w w3" using receive_str_msg_grows [OF c3] assms(2) none_pending_cong by blast+
  ultimately show ?thesis using data_tail_grows [OF c4(1)] grows_trans by blast
qed

lemma streamtransport_receive_grows:
  assumes "streamtransport_receive now mem p addr w = Some w'" "none_pending w"
  shows "grows w w' \<and> none_pending w'"
  using assms str_receive_syn_grows str_receive_fin_grows str_receive_data_grows
  by (auto simp: streamtransport_receive_def Let_def split: if_split_asm bind_splits)

section \<open>From the motes to the owner of a task\<close>

text \<open>A packet of the router whose payload comes from a node under a protocol.\<close>

definition routed_from :: "u16 \<Rightarrow> u8 \<Rightarrow> bytes \<Rightarrow> bytes \<Rightarrow> bool" where
  "routed_from addr protocol p q \<longleftrightarrow> q \<noteq> [] \<and> (\<exists>m. read_routing_msg p = Some m \<and> rm_srcAddr m = addr
    \<and> rm_protocol m AND PROTOCOL_MASK = protocol \<and> rm_payload m = q)"

primrec daemon_receives :: "daemon_env \<Rightarrow> bytes list \<Rightarrow> daemon \<Rightarrow> daemon option" where
  "daemon_receives e [] d = Some d"
| "daemon_receives e (p # ps) d = do {
     d' \<leftarrow> check_router e (Some p) d;
     daemon_receives e ps d'
   }"

lemma check_router_routed:
  assumes "read_routing_msg p = Some m"
  shows "check_router e (Some p) d = router_routed e m d"
proof -
  have t: "get8 p 2 = AM_TENET_ROUTING" "length p = 5 + unat (get8 p 4)"
    using assms by (auto simp: read_routing_msg_def Let_def split: if_split_asm)
  have "\<not> is_trd_transport_packet p" using t(1)
    by (simp add: is_trd_transport_packet_def is_trd_packet_def) (simp add: consts_defs)
  moreover have "AM_TENET_ROUTING \<noteq> AM_BS_SERVICE" by (simp add: consts_defs)
  ultimately show ?thesis using t assms by (simp add: check_router_def)
qed

lemma stream_packet_handled:
  assumes "routed_from addr RT_PROTOCOL_STREAM p q" "streamtransport_receive (n_now e) (n_str e) q addr (d_str d) = Some w"
    and "none_pending (d_str d)" "serves e d tid fd" "str_up w = str_up (d_str d) @ us" "\<forall>u \<in> set us. fst u = tid"
  shows "check_router e (Some p) d = Some (d\<lparr>d_str := w, d_app := d_app d @ map (response_frame e fd) us\<rparr>)"
proof -
  obtain m where m: "read_routing_msg p = Some m" "rm_srcAddr m = addr"
    "rm_protocol m AND PROTOCOL_MASK = RT_PROTOCOL_STREAM" "rm_payload m = q" "q \<noteq> []"
    using assms(1) by (auto simp: routed_from_def)
  have "str_deleted w = str_deleted (d_str d)"
    using streamtransport_receive_grows [OF assms(2,3)] by (simp add: grows_def)
  moreover have "serves e (d\<lparr>d_str := w\<rparr>) tid fd" using assms(4) by (simp add: serves_def)
  note send_ups_serves [OF this assms(6)]
  moreover have "RT_PROTOCOL_STREAM \<noteq> RT_PROTOCOL_PACKET" by (simp add: consts_defs)
  ultimately show ?thesis using m assms(2,5)
    by (simp add: check_router_routed [OF m(1)] router_routed_def after_str_def Let_def)
qed

lemma stream_run_handled:
  assumes "list_all2 (routed_from addr RT_PROTOCOL_STREAM) ps qs"
    and "str_receive_all (n_now e) (n_str e) addr qs (d_str d) = Some w"
    and "none_pending (d_str d)" "serves e d tid fd" "str_up w = str_up (d_str d) @ us" "\<forall>u \<in> set us. fst u = tid"
  shows "daemon_receives e ps d = Some (d\<lparr>d_str := w, d_app := d_app d @ map (response_frame e fd) us\<rparr>)"
  using assms
proof (induction ps qs arbitrary: d us rule: list_all2_induct)
  case Nil
  then show ?case by simp
next
  case (Cons p ps q qs)
  obtain v where v: "streamtransport_receive (n_now e) (n_str e) q addr (d_str d) = Some v"
    "str_receive_all (n_now e) (n_str e) addr qs v = Some w"
    using Cons.prems(1) by (auto split: bind_splits)
  have pv: "none_pending v" "grows (d_str d) v" using streamtransport_receive_grows [OF v(1) Cons.prems(2)] by simp_all
  have all: "str_receive_all (n_now e) (n_str e) addr qs v = Some w \<Longrightarrow> none_pending v \<Longrightarrow> \<exists>us. str_up w = str_up v @ us" for v
  proof (induction qs arbitrary: v)
    case (Cons q qs)
    then obtain x where "streamtransport_receive (n_now e) (n_str e) q addr v = Some x"
      "str_receive_all (n_now e) (n_str e) addr qs x = Some w" by (auto split: bind_splits)
    then show ?case using Cons streamtransport_receive_grows by (fastforce simp: grows_def)
  qed simp
  obtain us1 us2 where u: "str_up v = str_up (d_str d) @ us1" "str_up w = str_up v @ us2"
    using pv(2) all [OF v(2) pv(1)] by (auto simp: grows_def)
  then have us: "us = us1 @ us2" using Cons.prems(4) by simp
  let ?d = "d\<lparr>d_str := v, d_app := d_app d @ map (response_frame e fd) us1\<rparr>"
  have "check_router e (Some p) d = Some ?d"
    using stream_packet_handled [OF Cons.hyps(1) v(1) Cons.prems(2,3) u(1)] Cons.prems(5) us by simp
  moreover have "serves e ?d tid fd" using Cons.prems(3) by (simp add: serves_def)
  then have "daemon_receives e ps ?d = Some (?d\<lparr>d_str := w, d_app := d_app ?d @ map (response_frame e fd) us2\<rparr>)"
    using v(2) pv(1) u(2) Cons.prems(5) us by (intro Cons.IH) simp_all
  ultimately show ?case by (simp add: us)
qed

text \<open>
  C2: the readings that a mote streams for a task reach the application that owns the task, and no other client, each
  once, in the order of the stream and without a gap, whatever packets are lost, repeated or out of order on the way.
\<close>

theorem responses_reach_owner:
  assumes "find_connection (m_strcs (d_str d)) tid addr = None" "none_pending (d_str d)"
    and "str_syn_packet tid seqno syn" "unat seqno < 50000" "str_schedule tid (seqno + 1) data {} xs"
    and "list_all2 (routed_from addr RT_PROTOCOL_STREAM) ps (syn # map snd xs)"
    and "serves e d tid fd"
  shows "\<exists>d'. daemon_receives e ps d = Some d' \<and> d_tids d' = d_tids d \<and> d_clients d' = d_clients d
    \<and> d_app d' = d_app d @ map (\<lambda>k. (fd, write_transport_msg (n_pad e) (data k) TRANS_TYPE_RESPONSE tid addr))
        [0..<first_gap (fst ` set xs)]"
proof -
  obtain w where w: "str_receive_all (n_now e) (n_str e) addr (syn # map snd xs) (d_str d) = Some w"
    "str_up w = str_up (d_str d) @ map (\<lambda>k. (tid, addr, data k)) [0..<first_gap (fst ` set xs)]"
    using str_session [OF assms(1,3,4,5), of "n_now e" "n_str e"] by blast
  from stream_run_handled [OF assms(6) w(1) assms(2,7) w(2)] show ?thesis
    by (simp add: response_frame_def comp_def)
qed

lemma sample_routed:
  "q \<noteq> [] \<Longrightarrow> length q \<le> 115 \<Longrightarrow> pr \<in> {RT_PROTOCOL_PACKET, RT_PROTOCOL_STREAM} \<Longrightarrow>
    routed_from 3 pr (the (write_routing_msg 3 q pr 1 10)) q"
  using write_routing_msg_Some [of q 3 pr 1 10] routing_written [of 3 q pr 1 10]
  by (auto simp: routed_from_def consts_defs)

lemma sample_serves: "serves sample_denv sample_daemon 7 5"
  by (simp add: serves_def sample_denv_def sample_daemon_def tidlist_find_tid_def ALL_TID_def)

theorem responses_reach_owner_witness:
  "\<exists>d'. daemon_receives sample_denv (map (\<lambda>q. the (write_routing_msg 3 q RT_PROTOCOL_STREAM 1 10))
        [sample_syn, sample_packet 0, sample_packet 2, sample_packet 1]) sample_daemon = Some d'
    \<and> d_app d' = map (\<lambda>b. (5, write_transport_msg 0 [b] TRANS_TYPE_RESPONSE 7 3)) [65, 66, 67]"
proof -
  let ?xs = "[(0 :: nat, sample_packet 0), (2, sample_packet 2), (1, sample_packet 1)]"
  have r: "list_all2 (routed_from 3 RT_PROTOCOL_STREAM) (map (\<lambda>q. the (write_routing_msg 3 q RT_PROTOCOL_STREAM 1 10))
      (sample_syn # map snd ?xs)) (sample_syn # map snd ?xs)"
    using sample_routed [of sample_syn] sample_routed [of "sample_packet 0"] sample_routed [of "sample_packet 2"]
      sample_routed [of "sample_packet 1"]
    by (simp add: sample_syn_def sample_packet_def)
  have d: "find_connection (m_strcs (d_str sample_daemon)) 7 3 = None" "none_pending (d_str sample_daemon)"
    "d_app sample_daemon = []" "n_pad sample_denv = 0"
    by (simp_all add: sample_daemon_def blank_daemon_def none_pending_def sample_denv_def)
  have i: "[0..<3] = [0, Suc 0, 2]" by (simp add: upt_rec)
  have "unat (49999 :: u16) < 50000" "(49999 :: u16) + 1 = 50000" by simp_all
  from responses_reach_owner [OF d(1,2) sample_packets(1) this(1), unfolded this(2), OF sample_schedule(2) r sample_serves]
  show ?thesis using d(3,4) i first_gap_sample sample_flags by (auto simp: insert_commute sample_data_def)
qed

section \<open>A task for all motes\<close>

lemma new_tid_for_spec:
  assumes "new_tid_for addr ty fd d = Some (tid, d1)"
  shows "tid_free (d_tids d) tid \<and> (\<exists>s. d1 = d\<lparr>d_tids := s\<rparr>
    \<and> tids s = \<lparr>tl_tid = tid, tl_addr = addr, tl_type = ty, tl_fd = fd\<rparr> # tids (d_tids d))"
proof -
  obtain s' where s': "assign_new_tid 0 (d_tids d) = Some (tid, s')" "d1 = d\<lparr>d_tids := tidlist_add_tid tid addr ty fd s'\<rparr>"
    using assms by (auto simp: new_tid_for_def split: bind_splits)
  from assign_new_tid_result [OF s'(1)] have r: "tid_free (d_tids d) tid" "tids s' = tids (d_tids d)" by blast+
  then have "tidlist_find_tid s' tid = None" by (simp add: tid_free_def tidlist_find_tid_def)
  then show ?thesis using r s'(2)
    by (intro conjI exI [of _ "tidlist_add_tid tid addr ty fd s'"]) (simp_all add: tidlist_add_tid_def)
qed

lemma tid_free_not_all: "tid_free s tid \<Longrightarrow> tid \<noteq> ALL_TID"
  by (auto simp: tid_free_def consts_defs)

lemma new_tid_serves:
  assumes "new_tid_for addr ty fd d = Some (tid, d1)" "fd \<ge> 0" "n_writes e fd"
  shows "serves e d1 tid fd"
  using new_tid_for_spec [OF assms(1)] assms(2,3) by (auto simp: serves_def tidlist_find_tid_def dest: tid_free_not_all)

lemma serves_cong: "d_tids d' = d_tids d \<Longrightarrow> serves e d' tid fd = serves e d tid fd"
  by (simp add: serves_def)

lemma await_answer:
  assumes "ty \<in> {TRANS_TYPE_CMD_ACK, TRANS_TYPE_CMD_RETURN, TRANS_TYPE_CMD_NACK}"
  shows "await_tid (write_transport_msg pad [] ty tid addr @ rest)
    = Some (if ty = TRANS_TYPE_CMD_NACK then -1 else uint tid, rest)"
proof -
  let ?m = "\<lparr>tm_tid = tid, tm_addr = addr, tm_type = ty, tm_data = []\<rparr>"
  have f: "write_transport_msg pad [] ty tid addr = message pad ?m" by (simp add: message_def)
  have "message pad ?m @ rest \<noteq> []" by (simp add: message_def write_transport_msg_def write_tr_packet_def)
  then show ?thesis unfolding f using assms link_message [of ?m pad rest]
    by (subst await_tid.simps) (auto simp: trans_types)
qed

definition task_msg :: "u16 \<Rightarrow> bytes \<Rightarrow> tr_msg" where
  "task_msg addr task = \<lparr>tm_tid = 0, tm_addr = addr, tm_type = TRANS_TYPE_TASK, tm_data = task\<rparr>"

lemma client_msg_task: "client_msg e fd (task_msg addr task) d = client_task e fd addr task d"
  by (simp add: client_msg_def task_msg_def Let_def)

lemma send_none_below: "trd_transport_send es ign tid msg st = Some (s, st') \<Longrightarrow> trd_state_sendReady st \<or> ign \<Longrightarrow>
    0 < length msg \<Longrightarrow> 0 \<le> s"
  by (auto simp: trd_transport_send_def split: if_split_asm bind_splits)

text \<open>A task of the sample client.\<close>

lemma sample_new_tid:
  "\<exists>s. new_tid_for addr ty fd sample_daemon = Some (9, sample_daemon\<lparr>d_tids := s\<rparr>)"
  by (simp add: new_tid_for_def assign_new_tid_def sample_daemon_def blank_daemon_def assign_loop.simps [of 0]
      assign_loop.simps [of 9] tid_free_def tidlist_find_tid_def MAX_TID_def MIN_TID_def)

lemma sample_answer:
  "tid \<noteq> ALL_TID \<Longrightarrow> \<exists>d'. send_toApp sample_denv m ty tid addr d = Some d'"
  by (auto simp: send_toApp_owner sample_denv_def split: option.splits)

lemma sample_task:
  assumes "\<And>s. \<exists>r d2. tr_send_packet sample_denv 9 addr task (sample_daemon\<lparr>d_tids := s\<rparr>) = Some (r, d2)"
  shows "\<exists>d'. client_msg sample_denv 5 (task_msg addr task) sample_daemon = Some d'"
proof -
  obtain s where s: "new_tid_for addr TRANS_TYPE_TASK 5 sample_daemon = Some (9, sample_daemon\<lparr>d_tids := s\<rparr>)"
    using sample_new_tid by blast
  obtain r d2 where t: "tr_send_packet sample_denv 9 addr task (sample_daemon\<lparr>d_tids := s\<rparr>) = Some (r, d2)"
    using assms by blast
  have "(9 :: u16) \<noteq> ALL_TID" by (simp add: consts_defs)
  then have a: "\<exists>d'. reply sample_denv ty 9 a d = Some d'" for ty a d
    unfolding reply_def by (rule sample_answer)
  obtain n where n: "reply sample_denv TRANS_TYPE_CMD_NACK 9 addr d2 = Some n" using a by blast
  obtain m where m: "reply sample_denv TRANS_TYPE_CMD_ACK 9 addr d2 = Some m" using a by blast
  obtain k where k: "reply sample_denv TRANS_TYPE_CMD_RETURN 9 addr d2 = Some k" using a by blast
  show ?thesis unfolding client_msg_task client_task_def s bind.bind_lunit prod.case t using a by (auto simp: n)
qed

lemma sample_trd: "n_trd sample_denv = (\<lambda>_. sample_env)" "n_ignore sample_denv = False" "d_trd sample_daemon = ready_state"
  "n_writes sample_denv fd"
  by (simp_all add: sample_denv_def sample_daemon_def blank_daemon_def)

lemma sample_task_all:
  "\<exists>d'. client_msg sample_denv 5 (task_msg 0xffff [65, 66]) sample_daemon = Some d'"
proof (rule sample_task)
  fix s
  obtain q st where "trd_transport_send (\<lambda>_. sample_env) False 9 [65, 66] ready_state = Some (q, st)"
    using sample_send_any by blast
  moreover have "(0xffff :: u16) = TOS_BCAST_ADDR" by (simp add: consts_defs)
  ultimately show "\<exists>r d2. tr_send_packet sample_denv 9 0xffff [65, 66] (sample_daemon\<lparr>d_tids := s\<rparr>) = Some (r, d2)"
    by (simp add: tr_send_packet_def sample_trd)
qed

lemma sample_task_none: "\<exists>d'. client_msg sample_denv 5 (task_msg 0xffff []) sample_daemon = Some d'"
proof (rule sample_task)
  fix s
  have "(0xffff :: u16) = TOS_BCAST_ADDR" by (simp add: consts_defs)
  then show "\<exists>r d2. tr_send_packet sample_denv 9 0xffff [] (sample_daemon\<lparr>d_tids := s\<rparr>) = Some (r, d2)"
    by (simp add: tr_send_packet_def sample_trd trd_transport_send_def)
qed

text \<open>
  C3: a task that an application sends to all motes while the daemon is ready gets an identifier that no other task
  has; the application, which waits for its answer, gets exactly that identifier; the entry that routes responses names this
  client; and what goes out is, fragment by fragment, what every mote puts together again as the task under the identifier.
\<close>

theorem task_reaches_motes:
  assumes "client_msg e fd (task_msg 0xffff task) d = Some d'" "fd \<ge> 0" "n_writes e fd"
    and "trd_state_sendReady (d_trd d) \<or> n_ignore e" "ms_fd (d_trd d) \<noteq> 0" "0 < length task" "length task \<le> 13822"
  shows "\<exists>tid frame out. tid \<notin> tl_tid ` set (tids (d_tids d)) \<and> serves e d' tid fd
    \<and> d_app d' = d_app d @ [(fd, frame)] \<and> await_tid frame = Some (uint tid, [])
    \<and> outbox (d_trd d') = outbox (d_trd d) @ out
    \<and> (\<forall>heap a fs. \<exists>p. receive_all heap a (map payload_of out) fs = Some ([(a, p)], trd_fragment_init fs)
          \<and> receive_trd_fragment a p = (tid, a, int (length task), task))"
proof -
  obtain tid d1 r d2 where d1: "new_tid_for 0xffff TRANS_TYPE_TASK fd d = Some (tid, d1)"
    and d2: "tr_send_packet e tid 0xffff task d1 = Some (r, d2)"
    and rest: "(if r < 0 then do {
        d3 \<leftarrow> reply e TRANS_TYPE_CMD_NACK tid 0xffff d2;
        Some (d3\<lparr>d_tids := tidlist_remove_tid tid (d_tids d3)\<rparr>)
      }
      else if (0xffff :: u16) = TOS_BCAST_ADDR then reply e TRANS_TYPE_CMD_ACK tid 0xffff d2
      else reply e TRANS_TYPE_CMD_RETURN tid 0xffff d2) = Some d'"
    using assms(1) unfolding client_msg_task by (auto simp: client_task_def split: bind_splits)
  have bc: "(0xffff :: u16) = TOS_BCAST_ADDR" by (simp add: consts_defs)
  obtain s where s: "d1 = d\<lparr>d_tids := s\<rparr>" using new_tid_for_spec [OF d1] by blast
  obtain q st where t: "trd_transport_send (n_trd e) (n_ignore e) tid task (d_trd d) = Some (q, st)"
    and r: "r = (if q < 0 then -1 else 1)" "d2 = d1\<lparr>d_trd := st\<rparr>"
    using d2 s by (auto simp: tr_send_packet_def bc split: bind_splits)
  have "0 \<le> q" by (rule send_none_below [OF t assms(4,6)])
  then have rep: "reply e TRANS_TYPE_CMD_ACK tid 0xffff d2 = Some d'" using rest r bc by simp
  have "serves e d1 tid fd" by (rule new_tid_serves [OF d1 assms(2,3)])
  then have sv: "serves e d2 tid fd" using r by (simp add: serves_def)
  let ?f = "write_transport_msg (n_pad e) [] TRANS_TYPE_CMD_ACK tid 0xffff"
  have d': "d' = write_client fd ?f d2" using rep send_toApp_serves [OF sv] by (simp add: reply_def)
  have "tid \<notin> tl_tid ` set (tids (d_tids d))"
    using new_tid_for_spec [OF d1] by (simp add: tid_free_def tidlist_find_None)
  moreover have "await_tid ?f = Some (uint tid, [])"
    using await_answer [of TRANS_TYPE_CMD_ACK "n_pad e" tid "0xffff" "[]"] by (simp add: trans_types)
  moreover obtain out where "outbox st = outbox (d_trd d) @ out"
    "\<forall>heap a fs. \<exists>p. receive_all heap a (map payload_of out) fs = Some ([(a, p)], trd_fragment_init fs)
          \<and> receive_trd_fragment a p = (tid, a, int (length task), task)"
    using sent_message_received [OF t assms(4-7)] by blast
  ultimately show ?thesis using sv r s
    by (intro exI [of _ tid] exI [of _ ?f] exI [of _ out]) (simp add: d' write_client_def serves_def)
qed

theorem task_reaches_motes_witness:
  "\<exists>tid d' out. client_msg sample_denv 5 (task_msg 0xffff [65, 66]) sample_daemon = Some d' \<and> serves sample_denv d' tid 5
    \<and> outbox (d_trd d') = outbox ready_state @ out
    \<and> (\<exists>p. receive_all [] 1 (map payload_of out) (d_frag d') = Some ([(1, p)], trd_fragment_init (d_frag d'))
          \<and> receive_trd_fragment 1 p = (tid, 1, 2, [65, 66]))"
proof -
  obtain d' where d': "client_msg sample_denv 5 (task_msg 0xffff [65, 66]) sample_daemon = Some d'"
    using sample_task_all by blast
  have s: "d_trd sample_daemon = ready_state" "n_writes sample_denv 5" by (simp_all add: sample_trd)
  have "0 \<le> (5 :: int)" "trd_state_sendReady (d_trd sample_daemon) \<or> n_ignore sample_denv" "ms_fd (d_trd sample_daemon) \<noteq> 0"
    "0 < length [65, 66 :: u8]" "length [65, 66 :: u8] \<le> 13822"
    using s ready_state_props(2,3) by simp_all
  from task_reaches_motes [OF d' this(1) s(2) this(2-5)] obtain tid out where "serves sample_denv d' tid 5"
    "outbox (d_trd d') = outbox ready_state @ out"
    "\<forall>heap a fs. \<exists>p. receive_all heap a (map payload_of out) fs = Some ([(a, p)], trd_fragment_init fs)
          \<and> receive_trd_fragment a p = (tid, a, int (length [65, 66 :: u8]), [65, 66])"
    unfolding s(1) by blast
  then show ?thesis using d' by (intro exI [of _ tid] exI [of _ d'] exI [of _ out]) simp
qed

text \<open>
  C36: a task for all motes is refused exactly if it is empty or the dissemination is not ready: then the
  application learns it, nothing goes out, and its identifier is released.
\<close>

theorem task_refused:
  assumes "client_msg e fd (task_msg 0xffff task) d = Some d'" "fd \<ge> 0" "n_writes e fd"
  shows "(if task = [] \<or> \<not> (trd_state_sendReady (d_trd d) \<or> n_ignore e)
    then tids (d_tids d') = tids (d_tids d) \<and> d_trd d' = d_trd d
      \<and> (\<exists>frame. d_app d' = d_app d @ [(fd, frame)] \<and> await_tid frame = Some (-1, []))
    else \<exists>tid frame. serves e d' tid fd \<and> d_app d' = d_app d @ [(fd, frame)] \<and> await_tid frame = Some (uint tid, []))"
proof -
  have bc: "(0xffff :: u16) = TOS_BCAST_ADDR" by (simp add: consts_defs)
  obtain tid d1 r d2 where d1: "new_tid_for 0xffff TRANS_TYPE_TASK fd d = Some (tid, d1)"
    and d2: "tr_send_packet e tid 0xffff task d1 = Some (r, d2)"
    and rest: "(if r < 0 then do {
        d3 \<leftarrow> reply e TRANS_TYPE_CMD_NACK tid 0xffff d2;
        Some (d3\<lparr>d_tids := tidlist_remove_tid tid (d_tids d3)\<rparr>)
      }
      else if (0xffff :: u16) = TOS_BCAST_ADDR then reply e TRANS_TYPE_CMD_ACK tid 0xffff d2
      else reply e TRANS_TYPE_CMD_RETURN tid 0xffff d2) = Some d'"
    using assms(1) unfolding client_msg_task by (auto simp: client_task_def split: bind_splits)
  obtain s where s: "d1 = d\<lparr>d_tids := s\<rparr>"
      "tids s = \<lparr>tl_tid = tid, tl_addr = 0xffff, tl_type = TRANS_TYPE_TASK, tl_fd = fd\<rparr> # tids (d_tids d)"
    using new_tid_for_spec [OF d1] by blast
  obtain q st where t: "trd_transport_send (n_trd e) (n_ignore e) tid task (d_trd d) = Some (q, st)"
    and r: "r = (if q < 0 then -1 else 1)" "d2 = d1\<lparr>d_trd := st\<rparr>"
    using d2 s by (auto simp: tr_send_packet_def bc split: bind_splits)
  have "serves e d1 tid fd" by (rule new_tid_serves [OF d1 assms(2,3)])
  then have sv: "serves e d2 tid fd" using r by (simp add: serves_def)
  note rep = send_toApp_serves [OF sv, folded reply_def]
  show ?thesis
  proof (cases "task = [] \<or> \<not> (trd_state_sendReady (d_trd d) \<or> n_ignore e)")
    case True
    then have "q < 0" "st = d_trd d" using t by (auto simp: trd_transport_send_def split: if_split_asm)
    let ?f = "write_transport_msg (n_pad e) [] TRANS_TYPE_CMD_NACK tid 0xffff"
    have "d' = (write_client fd ?f d2)\<lparr>d_tids := tidlist_remove_tid tid (d_tids d2)\<rparr>"
      using rest r \<open>q < 0\<close> rep by (simp add: write_client_def reply_def)
    moreover have "await_tid ?f = Some (-1, [])"
      using await_answer [of TRANS_TYPE_CMD_NACK "n_pad e" tid "0xffff" "[]"] by simp
    ultimately show ?thesis using True s r \<open>st = d_trd d\<close>
      by (simp add: write_client_def tidlist_remove_tid_def tidlist_find_tid_def)
  next
    case False
    then have "0 \<le> q" using send_none_below [OF t] by auto
    let ?f = "write_transport_msg (n_pad e) [] TRANS_TYPE_CMD_ACK tid 0xffff"
    have "d' = write_client fd ?f d2" using rest r \<open>0 \<le> q\<close> bc rep by (simp add: reply_def)
    moreover have "await_tid ?f = Some (uint tid, [])"
      using await_answer [of TRANS_TYPE_CMD_ACK "n_pad e" tid "0xffff" "[]"] by (simp add: trans_types)
    ultimately show ?thesis using False sv r s by (auto simp: write_client_def serves_def)
  qed
qed

theorem task_refused_witness:
  "\<exists>d' frame. client_msg sample_denv 5 (task_msg 0xffff []) sample_daemon = Some d' \<and> tids (d_tids d') = tids (d_tids sample_daemon)
    \<and> d_app d' = [(5, frame)] \<and> await_tid frame = Some (-1, [])"
proof -
  obtain d' where d': "client_msg sample_denv 5 (task_msg 0xffff []) sample_daemon = Some d'" using sample_task_none by blast
  have "n_writes sample_denv 5" "d_app sample_daemon = []"
    by (simp_all add: sample_denv_def sample_daemon_def blank_daemon_def)
  then show ?thesis using task_refused [OF d'] d' by auto
qed

end
