(* ===== verification/Daemon_Closing.thy ===== *)
theory Daemon_Closing
  imports Daemon_Sessions
begin

text \<open>
  The daemon and single nodes: a task sent to one node with its acknowledgement, closing a task, a client that
  disconnects and what it leaves behind, and the answers of the base station.
\<close>

section \<open>Packets to one node\<close>

lemma find_connection_ex: "find_connection cs tid addr \<noteq> None \<longleftrightarrow> (tid, addr) \<in> set (conn_keys cs)"
  by (simp only: find_connection_None not_not)

lemma upd_keys_image:
  "(\<lambda>c. (c_tid c, c_addr c)) ` set (upd_connection cs c) = (\<lambda>c. (c_tid c, c_addr c)) ` set cs"
  using arg_cong [OF upd_connection_keys [of cs c], of set] unfolding set_map .

text \<open>Whatever connection there is, a message is sent at once, sealed, and the connection waits for its acknowledgement.\<close>

lemma packettransport_send_total:
  assumes "unat len < 250" "unat len \<le> length msg"
  shows "\<exists>p w'. packettransport_send now mem tid addr len msg w = Some (1, w')
    \<and> ptr_sent w' = ptr_sent w @ [(addr, p)] \<and> ptr_up w' = ptr_up w \<and> ptr_done w' = ptr_done w
    \<and> set (conn_keys (m_ptrcs w')) = insert (tid, addr) (set (conn_keys (m_ptrcs w)))
    \<and> tr_packet_getPayload p = take (unat len) msg \<and> tr_packet_getTid p = tid"
proof -
  let ?q = "replicate 6 0 @ take (unat len) msg"
  have lq: "length ?q = 6 + unat len" using assms(2) by simp
  have l6: "unat (len + 6) = unat len + 6" using assms(1) by (simp add: unat_word_ariths)
  obtain c w1 where c: "(case find_connection (m_ptrcs w) tid addr of
         None \<Rightarrow> create_ptr_connection tid addr 0 mem w | Some c \<Rightarrow> Some (c, w)) = Some (c, w1)"
    and key: "c_tid c = tid" "c_addr c = addr"
    and w1: "ptr_sent w1 = ptr_sent w" "ptr_up w1 = ptr_up w" "ptr_done w1 = ptr_done w"
      "set (conn_keys (m_ptrcs w1)) = insert (tid, addr) (set (conn_keys (m_ptrcs w)))"
  proof (cases "find_connection (m_ptrcs w) tid addr")
    case None
    then show ?thesis using that by (simp add: create_ptr_connection_def add_connection_def Let_def)
  next
    case (Some b)
    then have "(tid, addr) \<in> set (conn_keys (m_ptrcs w))" using find_connection_ex by fastforce
    then show ?thesis using that Some find_connection_Some [OF Some] by (simp add: insert_absorb)
  qed
  obtain s p where p: "tr_calculate_checksum (tr_packet_setHeader ?q tid (sentSeqNo c + 1) PTR_FLAG_SEND 0) len = Some s"
    "p = put8 (tr_packet_setHeader ?q tid (sentSeqNo c + 1) PTR_FLAG_SEND 0) 5 s"
    "tr_packet_getTid p = tid" "tr_packet_getPayload p = drop 6 ?q" "length p = length ?q"
    using seal_packet [OF lq assms(1), of tid "sentSeqNo c + 1" PTR_FLAG_SEND] by (elim exE conjE) (rule that)
  show ?thesis
    unfolding packettransport_send_def c bind.bind_lunit prod.case
    using assms(2) p l6 key w1
    by (simp add: Let_def ptr_put_def ptr_write_def PTR_Timer_start_def upd_keys_image)
qed

lemma ptr_delete_loop_eq: "snd (ptr_delete_loop tid cs r) = filter (\<lambda>c. c_tid c \<noteq> tid) cs"
  by (induction cs arbitrary: r) (auto simp: case_prod_beta)

lemma ptr_alive_loop_eq: "ptr_alive_loop tid cs = (if tid \<in> c_tid ` set cs then 1 else 0)"
  by (induction cs) auto

lemma str_delete_loop_in:
  "c \<in> set (snd (str_delete_loop tid cs r)) \<Longrightarrow> (c_tid c = tid \<longrightarrow> deletePending c)
    \<and> (\<exists>b \<in> set cs. c_tid b = c_tid c \<and> (deletePending b \<longrightarrow> deletePending c))"
proof (induction cs arbitrary: r)
  case (Cons x cs)
  then show ?case
    by (auto simp: Let_def split: if_split_asm prod.splits; metis (no_types, lifting) snd_conv)
qed simp

lemma ptr_tids_closed:
  "c_tid ` set (m_ptrcs (d_ptr (close_transport_connections tid d))) = c_tid ` set (m_ptrcs (d_ptr d)) - {tid}"
  unfolding close_transport_connections_def packettransport_delete_tid_def case_prod_beta
  by (auto simp: ptr_delete_loop_eq)

section \<open>A task for one node\<close>

lemma tr_send_packet_one:
  assumes "addr \<noteq> TOS_BCAST_ADDR" "length msg < 250"
  shows "\<exists>p w. tr_send_packet e tid addr msg d = Some (2, d\<lparr>d_ptr := w\<rparr>)
    \<and> ptr_sent w = ptr_sent (d_ptr d) @ [(addr, p)] \<and> ptr_up w = ptr_up (d_ptr d) \<and> ptr_done w = ptr_done (d_ptr d)
    \<and> set (conn_keys (m_ptrcs w)) = insert (tid, addr) (set (conn_keys (m_ptrcs (d_ptr d))))
    \<and> tr_packet_getPayload p = msg \<and> tr_packet_getTid p = tid"
proof -
  have n: "unat (of_nat (length msg) :: u8) = length msg" using assms(2) by (simp add: unat_of_nat_u8)
  have "unat (of_nat (length msg) :: u8) < 250" "unat (of_nat (length msg) :: u8) \<le> length msg" using assms(2) n by simp_all
  from packettransport_send_total [OF this, of "n_now e" "n_ptr e" tid addr "d_ptr d"]
  obtain p w where w: "packettransport_send (n_now e) (n_ptr e) tid addr (of_nat (length msg)) msg (d_ptr d) = Some (1, w)"
    "ptr_sent w = ptr_sent (d_ptr d) @ [(addr, p)] \<and> ptr_up w = ptr_up (d_ptr d) \<and> ptr_done w = ptr_done (d_ptr d)
    \<and> set (conn_keys (m_ptrcs w)) = insert (tid, addr) (set (conn_keys (m_ptrcs (d_ptr d))))
    \<and> tr_packet_getPayload p = take (unat (of_nat (length msg) :: u8)) msg \<and> tr_packet_getTid p = tid"
    by (elim exE conjE) (rule that, assumption, intro conjI)
  then show ?thesis using assms(1) n by (intro exI [of _ p] exI [of _ w]) (simp add: tr_send_packet_def)
qed

text \<open>An acknowledgement of the node for what the daemon sent under an identifier.\<close>

definition node_ack :: "u16 \<Rightarrow> bytes \<Rightarrow> bool" where
  "node_ack tid a \<longleftrightarrow> length a = 6 \<and> tr_checksum_check a 0 = Some 1 \<and> tr_packet_getTid a = tid \<and> tr_packet_getFlag a = PTR_FLAG_ACK"

lemma node_ack_received:
  assumes "node_ack tid a" "find_connection (m_ptrcs w) tid addr = Some c"
  shows "packettransport_receive mem a addr w = Some (send_PTR_Done (PTR_Timer_stop c) True w)"
  using assms by (simp add: packettransport_receive_def node_ack_def Let_def)

text \<open>
  C20: a task for one node is sent at once and answered with its identifier; when the node acknowledges it, the
  application that sent it, and nobody else, is told so under that identifier.
\<close>

theorem unicast_task_acknowledged:
  assumes "client_msg e fd (task_msg addr task) d = Some d1" "fd \<ge> 0" "n_writes e fd" "addr \<noteq> 0xffff" "length task < 250"
  shows "\<exists>tid p frame. tid \<notin> tl_tid ` set (tids (d_tids d)) \<and> serves e d1 tid fd
    \<and> d_app d1 = d_app d @ [(fd, frame)] \<and> await_tid frame = Some (uint tid, [])
    \<and> ptr_sent (d_ptr d1) = ptr_sent (d_ptr d) @ [(addr, p)] \<and> tr_packet_getPayload p = task \<and> tr_packet_getTid p = tid
    \<and> (\<forall>e2 pk a. routed_from addr RT_PROTOCOL_PACKET pk a \<and> node_ack tid a \<and> n_writes e2 fd \<longrightarrow>
        (\<exists>d2. check_router e2 (Some pk) d1 = Some d2 \<and> d_tids d2 = d_tids d1
          \<and> d_app d2 = d_app d1 @ [(fd, write_transport_msg (n_pad e2) [] TRANS_TYPE_CMD_ACK tid addr)]))"
proof -
  have bc: "addr \<noteq> TOS_BCAST_ADDR" using assms(4) by (simp add: consts_defs)
  obtain tid d0 where d0: "new_tid_for addr TRANS_TYPE_TASK fd d = Some (tid, d0)"
    using assms(1) unfolding client_msg_task by (auto simp: client_task_def split: bind_splits)
  obtain p w where w: "tr_send_packet e tid addr task d0 = Some (2, d0\<lparr>d_ptr := w\<rparr>)"
    "ptr_sent w = ptr_sent (d_ptr d0) @ [(addr, p)]"
    "set (conn_keys (m_ptrcs w)) = insert (tid, addr) (set (conn_keys (m_ptrcs (d_ptr d0))))"
    "tr_packet_getPayload p = task" "tr_packet_getTid p = tid"
    using tr_send_packet_one [OF bc assms(5), of e tid d0] by blast
  have sv0: "serves e d0 tid fd" by (rule new_tid_serves [OF d0 assms(2,3)])
  then have sv: "serves e (d0\<lparr>d_ptr := w\<rparr>) tid fd" by (simp add: serves_def)
  let ?f = "write_transport_msg (n_pad e) [] TRANS_TYPE_CMD_RETURN tid addr"
  have d1: "d1 = write_client fd ?f (d0\<lparr>d_ptr := w\<rparr>)"
    using assms(1) d0 w(1) send_toApp_serves [OF sv] bc unfolding client_msg_task
    by (simp add: client_task_def reply_def)
  obtain s where s: "d0 = d\<lparr>d_tids := s\<rparr>"
      "tids s = \<lparr>tl_tid = tid, tl_addr = addr, tl_type = TRANS_TYPE_TASK, tl_fd = fd\<rparr> # tids (d_tids d)"
    using new_tid_for_spec [OF d0] by blast
  have "\<exists>d2. check_router e2 (Some pk) d1 = Some d2 \<and> d_tids d2 = d_tids d1
          \<and> d_app d2 = d_app d1 @ [(fd, write_transport_msg (n_pad e2) [] TRANS_TYPE_CMD_ACK tid addr)]"
    if pk: "routed_from addr RT_PROTOCOL_PACKET pk a" and a: "node_ack tid a" and wr: "n_writes e2 fd" for e2 pk a
  proof -
    obtain m where m: "read_routing_msg pk = Some m" "rm_srcAddr m = addr"
      "rm_protocol m AND PROTOCOL_MASK = RT_PROTOCOL_PACKET" "rm_payload m = a" "a \<noteq> []"
      using pk by (auto simp: routed_from_def)
    have "find_connection (m_ptrcs w) tid addr \<noteq> None" unfolding find_connection_ex w(3) by simp
    then obtain c where c: "find_connection (m_ptrcs w) tid addr = Some c" by blast
    let ?w = "send_PTR_Done (PTR_Timer_stop c) True w"
    let ?b = "\<lparr>tl_tid = tid, tl_addr = addr, tl_type = TRANS_TYPE_TASK, tl_fd = fd\<rparr>"
    have sv2: "serves e2 (d1\<lparr>d_ptr := ?w\<rparr>) tid fd" using sv wr by (simp add: d1 serves_def write_client_def)
    have f: "tidlist_find_tid (d_tids (d1\<lparr>d_ptr := ?w\<rparr>)) tid = Some ?b"
      by (simp add: d1 s write_client_def tidlist_find_tid_def)
    have ty: "TRANS_TYPE_TASK \<noteq> TRANS_TYPE_CLOSE" by (simp add: trans_types)
    have "drop (length (ptr_up w)) (ptr_up ?w) = []"
      "drop (length (ptr_done w)) (ptr_done ?w) = [(tid, addr, pc_len c, map_option tr_packet_getPayload (pc_packet c), True)]"
      using find_connection_Some [OF c] by (simp_all add: send_PTR_Done_def ptr_put_def PTR_Timer_stop_def)
    then have "after_ptr e2 ?w d1 = senddone_packettransport e2 tid addr True (d1\<lparr>d_ptr := ?w\<rparr>)"
      by (simp add: after_ptr_def d1 write_client_def)
    also have "\<dots> = Some (write_client fd (write_transport_msg (n_pad e2) [] TRANS_TYPE_CMD_ACK tid addr) (d1\<lparr>d_ptr := ?w\<rparr>))"
      using ty send_toApp_serves [OF sv2] by (simp only: senddone_packettransport_def f option.case reply_def) simp
    finally have "router_routed e2 m d1
        = Some (write_client fd (write_transport_msg (n_pad e2) [] TRANS_TYPE_CMD_ACK tid addr) (d1\<lparr>d_ptr := ?w\<rparr>))"
      using m node_ack_received [OF a c] by (simp add: router_routed_def d1 write_client_def)
    then show ?thesis unfolding check_router_routed [OF m(1)] by (simp add: write_client_def)
  qed
  moreover have "tid \<notin> tl_tid ` set (tids (d_tids d))"
    using new_tid_for_spec [OF d0] by (simp add: tid_free_def tidlist_find_None)
  moreover have "await_tid ?f = Some (uint tid, [])"
    using await_answer [of TRANS_TYPE_CMD_RETURN "n_pad e" tid addr "[]"] by (simp add: trans_types)
  moreover have "serves e d1 tid fd" "d_app d1 = d_app d @ [(fd, ?f)]" "ptr_sent (d_ptr d1) = ptr_sent (d_ptr d) @ [(addr, p)]"
    using sv w(2) s(1) by (simp_all add: d1) (simp_all add: write_client_def)
  ultimately show ?thesis using w(4,5)
    by (intro exI [of _ tid] exI [of _ p] exI [of _ ?f]) blast
qed

lemma sample_task_one: "\<exists>d1. client_msg sample_denv 5 (task_msg 3 [65, 66]) sample_daemon = Some d1"
proof (rule sample_task)
  have bc: "(3 :: u16) \<noteq> TOS_BCAST_ADDR" by (simp add: consts_defs)
  show "\<exists>r d2. tr_send_packet sample_denv 9 3 [65, 66] (sample_daemon\<lparr>d_tids := s\<rparr>) = Some (r, d2)" for s
    using tr_send_packet_one [OF bc, of "[65, 66]" sample_denv 9 "sample_daemon\<lparr>d_tids := s\<rparr>"] by auto
qed

theorem unicast_task_acknowledged_witness:
  "\<exists>d1 tid p pk d2 f g. client_msg sample_denv 5 (task_msg 3 [65, 66]) sample_daemon = Some d1 \<and> serves sample_denv d1 tid 5
    \<and> ptr_sent (d_ptr d1) = [(3, p)] \<and> tr_packet_getPayload p = [65, 66] \<and> tr_packet_getTid p = tid
    \<and> check_router sample_denv (Some pk) d1 = Some d2 \<and> d_app d2 = [(5, f), (5, g)]"
proof -
  obtain d1 where d1: "client_msg sample_denv 5 (task_msg 3 [65, 66]) sample_daemon = Some d1" using sample_task_one by blast
  have s: "0 \<le> (5 :: int)" "n_writes sample_denv 5" "(3 :: u16) \<noteq> 0xffff" "length [65, 66 :: u8] < 250"
    "ptr_sent (d_ptr sample_daemon) = []" "d_app sample_daemon = []"
    by (simp_all add: sample_trd sample_daemon_def blank_daemon_def)
  from unicast_task_acknowledged [OF d1 s(1-4)] obtain tid p frame where r: "serves sample_denv d1 tid 5"
    "d_app d1 = [(5, frame)]" "ptr_sent (d_ptr d1) = [(3, p)]" "tr_packet_getPayload p = [65, 66]" "tr_packet_getTid p = tid"
    "\<And>pk a. routed_from 3 RT_PROTOCOL_PACKET pk a \<Longrightarrow> node_ack tid a \<Longrightarrow>
      \<exists>d2. check_router sample_denv (Some pk) d1 = Some d2
        \<and> d_app d2 = d_app d1 @ [(5, write_transport_msg (n_pad sample_denv) [] TRANS_TYPE_CMD_ACK tid 3)]"
    unfolding s(5,6) append_Nil using s(2) by (elim exE conjE) (rule that; blast)
  obtain a where a: "node_ack tid a" "a \<noteq> []" "length a \<le> 115"
    using header_packet_sealed [of tid 1 PTR_FLAG_ACK] by (force simp: node_ack_def)
  from r(6) [OF sample_routed [OF a(2,3)] a(1)] show ?thesis using d1 r(1-5) by (simp; blast)
qed

section \<open>Closing a task\<close>

definition close_msg :: "u16 \<Rightarrow> u16 \<Rightarrow> tr_msg" where
  "close_msg tid addr = \<lparr>tm_tid = tid, tm_addr = addr, tm_type = TRANS_TYPE_CLOSE, tm_data = []\<rparr>"

lemma client_msg_close: "client_msg e c (close_msg tid addr) d = client_close e tid addr d"
  by (simp add: client_msg_def close_msg_def Let_def trans_types)

lemma find_set_type:
  "tidlist_find_tid (set_tid_type tid ty s) tid = map_option (\<lambda>t. t\<lparr>tl_type := ty\<rparr>) (tidlist_find_tid s tid)"
proof -
  have "find (\<lambda>t. tl_tid t = tid) (set_first_type tid ty ts) = map_option (\<lambda>t. t\<lparr>tl_type := ty\<rparr>) (find (\<lambda>t. tl_tid t = tid) ts)" for ts
    by (induction ts) auto
  then show ?thesis by (simp add: tidlist_find_tid_def set_tid_type_def)
qed

lemma find_removed: "tid_inv s \<Longrightarrow> tidlist_find_tid (tidlist_remove_tid tid s) tid = None"
  unfolding tidlist_find_None
  by (auto simp: tidlist_remove_tid_def tid_inv_def rem_first_tid_eq tidlist_find_None split: option.splits)

text \<open>
  Whoever asks to close a task of one node, the task is closed: its owner is told that it is closed
  at once, before the node can have answered, and the one packet that tells the node to delete the task is never
  repeated, because its connection is deleted right after it was sent.
\<close>

theorem close_is_not_awaited:
  assumes "tid_inv (d_tids d)" "serves e d tid fd" "addr \<noteq> 0xffff"
    and "\<not> streamtransport_tid_is_alive tid (snd (streamtransport_delete_tid tid (d_str d)))" "\<not> n_rcrt e tid"
  shows "\<exists>d' a p. client_msg e c (close_msg tid addr) d = Some d'
    \<and> d_app d' = d_app d @ [(fd, write_transport_msg (n_pad e) [] TRANS_TYPE_CLOSE_ACK tid a)]
    \<and> ptr_sent (d_ptr d') = ptr_sent (d_ptr d) @ [(addr, p)] \<and> tr_packet_getPayload p = [TASK_DELETE, 0]
    \<and> tr_packet_getTid p = tid \<and> packettransport_tid_is_alive tid (d_ptr d') = 0
    \<and> tidlist_find_tid (d_tids d') tid = None"
proof -
  have bc: "addr \<noteq> TOS_BCAST_ADDR" using assms(3) by (simp add: consts_defs)
  obtain t where t: "tidlist_find_tid (d_tids d) tid = Some t" "tl_fd t = fd" "tid \<noteq> ALL_TID" "fd \<ge> 0" "n_writes e fd"
    using assms(2) by (auto simp: serves_def)
  let ?d = "d\<lparr>d_tids := set_tid_type tid TRANS_TYPE_CLOSE (d_tids d)\<rparr>"
  obtain p w where w: "tr_send_packet e tid addr [TASK_DELETE, 0] ?d = Some (2, ?d\<lparr>d_ptr := w\<rparr>)"
    "ptr_sent w = ptr_sent (d_ptr d) @ [(addr, p)]" "tr_packet_getPayload p = [TASK_DELETE, 0]" "tr_packet_getTid p = tid"
    using tr_send_packet_one [OF bc, of "[TASK_DELETE, 0]" e tid ?d] by auto
  define d2 where "d2 = close_transport_connections tid (?d\<lparr>d_ptr := w\<rparr>)"
  have ptr: "packettransport_tid_is_alive tid (d_ptr d2) = 0"
    by (auto simp: d2_def close_transport_connections_def packettransport_tid_is_alive_def
        packettransport_delete_tid_def case_prod_beta ptr_delete_loop_eq ptr_alive_loop_eq)
  moreover have "\<not> streamtransport_tid_is_alive tid (d_str d2)"
    using assms(4) by (simp add: d2_def close_transport_connections_def)
  ultimately have chk: "check_transport_connections e tid d2 = 0"
    using assms(5) by (simp add: check_transport_connections_def)
  have f: "tidlist_find_tid (d_tids d2) tid = Some (t\<lparr>tl_type := TRANS_TYPE_CLOSE\<rparr>)"
    using t(1) by (simp add: d2_def close_transport_connections_def find_set_type)
  then have sv: "serves e d2 tid fd" using t by (simp add: serves_def)
  let ?f = "write_transport_msg (n_pad e) [] TRANS_TYPE_CLOSE_ACK tid (tl_addr t)"
  have "check_close_done e tid d2 = Some ((write_client fd ?f d2)\<lparr>d_tids := tidlist_remove_tid tid (d_tids d2)\<rparr>)"
    using chk send_toApp_serves [OF sv] by (simp add: check_close_done_def f) (simp add: write_client_def)
  then have "client_msg e c (close_msg tid addr) d
      = Some ((write_client fd ?f d2)\<lparr>d_tids := tidlist_remove_tid tid (d_tids d2)\<rparr>)"
    using w(1) t(1) by (simp add: client_msg_close client_close_def tr_send_close_task_def d2_def)
  moreover have "tid_inv (d_tids d2)" using tid_inv_type [OF assms(1)] by (simp add: d2_def close_transport_connections_def)
  note find_removed [OF this, of tid]
  moreover have "ptr_sent (d_ptr d2) = ptr_sent w" "d_app d2 = d_app d"
    by (simp_all add: d2_def close_transport_connections_def packettransport_delete_tid_def case_prod_beta)
  ultimately show ?thesis using w(2-4) ptr
    by (intro exI [of _ "(write_client fd ?f d2)\<lparr>d_tids := tidlist_remove_tid tid (d_tids d2)\<rparr>"] exI [of _ "tl_addr t"] exI [of _ p])
      (simp add: write_client_def)
qed

lemma sample_tids_inv: "tid_inv (d_tids sample_daemon)"
  by (simp add: tid_inv_def sample_daemon_def)

theorem close_is_not_awaited_witness:
  "\<exists>d'. client_msg sample_denv 99 (close_msg 7 3) sample_daemon = Some d' \<and> tidlist_find_tid (d_tids d') 7 = None
    \<and> packettransport_tid_is_alive 7 (d_ptr d') = 0 \<and> (\<exists>p. ptr_sent (d_ptr d') = [(3, p)])"
proof -
  have "(3 :: u16) \<noteq> 0xffff" "\<not> n_rcrt sample_denv 7"
    "\<not> streamtransport_tid_is_alive 7 (snd (streamtransport_delete_tid 7 (d_str sample_daemon)))"
    "ptr_sent (d_ptr sample_daemon) = []"
    by (simp_all add: sample_denv_def sample_daemon_def blank_daemon_def streamtransport_tid_is_alive_def
        streamtransport_delete_tid_def)
  with close_is_not_awaited [OF sample_tids_inv sample_serves this(1,3,2), of 99] show ?thesis by auto
qed

section \<open>A client that disconnects\<close>

text \<open>What the loop over the identifiers of a client does to the transports.\<close>

definition tids_closed :: "u16 set \<Rightarrow> daemon \<Rightarrow> bool" where
  "tids_closed T d \<longleftrightarrow> c_tid ` set (m_ptrcs (d_ptr d)) \<inter> T = {}
    \<and> (\<forall>c \<in> set (m_strcs (d_str d)). c_tid c \<in> T \<longrightarrow> deletePending c)"

lemma sent_keys:
  assumes "tr_send_close_task e tid addr d = Some (r, d1)"
  shows "c_tid ` set (m_ptrcs (d_ptr d1)) \<subseteq> insert tid (c_tid ` set (m_ptrcs (d_ptr d))) \<and> d_str d1 = d_str d
    \<and> d_rcrt d1 = d_rcrt d \<and> (\<exists>out. ptr_sent (d_ptr d1) = ptr_sent (d_ptr d) @ out
        \<and> (addr \<noteq> TOS_BCAST_ADDR \<longrightarrow> (\<exists>p. out = [(addr, p)] \<and> tr_packet_getTid p = tid \<and> tr_packet_getPayload p = [TASK_DELETE, 0])))"
proof (cases "addr = TOS_BCAST_ADDR")
  case True
  then show ?thesis using assms by (auto simp: tr_send_close_task_def tr_send_packet_def split: bind_splits)
next
  case False
  obtain p w where w: "tr_send_packet e tid addr [TASK_DELETE, 0] d = Some (2, d\<lparr>d_ptr := w\<rparr>)"
    "ptr_sent w = ptr_sent (d_ptr d) @ [(addr, p)]"
    "set (conn_keys (m_ptrcs w)) = insert (tid, addr) (set (conn_keys (m_ptrcs (d_ptr d))))"
    "tr_packet_getPayload p = [TASK_DELETE, 0]" "tr_packet_getTid p = tid"
    using tr_send_packet_one [OF False, of "[TASK_DELETE, 0]" e tid d] by auto
  have keys: "c_tid ` set cs = fst ` set (conn_keys cs)" for cs :: "ptrclist list" by force
  have "d1 = d\<lparr>d_ptr := w\<rparr>" using assms w(1) by (simp add: tr_send_close_task_def)
  then show ?thesis using w(2,4,5) unfolding keys by (simp add: w(3) del: set_map)
qed

lemma closing_step:
  assumes "tr_send_close_task e tid addr d = Some (r, d1)" "tids_closed T d"
  shows "tids_closed (insert tid T) (close_transport_connections tid d1)"
proof -
  have "c_tid ` set (m_ptrcs (d_ptr (close_transport_connections tid d1))) \<inter> insert tid T = {}"
    using sent_keys [OF assms(1)] assms(2) unfolding ptr_tids_closed by (auto simp: tids_closed_def)
  moreover have "c_tid c \<in> insert tid T \<longrightarrow> deletePending c"
    if "c \<in> set (m_strcs (d_str (close_transport_connections tid d1)))" for c
  proof -
    have c: "c \<in> set (snd (str_delete_loop tid (m_strcs (d_str d)) 0))"
      using that sent_keys [OF assms(1)]
      by (simp add: close_transport_connections_def streamtransport_delete_tid_def case_prod_beta)
    show ?thesis using str_delete_loop_in [OF c] assms(2) by (auto simp: tids_closed_def)
  qed
  ultimately show ?thesis by (simp add: tids_closed_def)
qed

lemma close_tids_loop_closes:
  "close_tids_loop e fd ts d = Some (us, d') \<Longrightarrow> tids_closed T d \<Longrightarrow>
    tids_closed (T \<union> tl_tid ` set (filter (owned fd) ts)) d'
    \<and> d_rcrt d' = d_rcrt d @ map tl_tid (filter (owned fd) ts)
    \<and> (\<exists>out. ptr_sent (d_ptr d') = ptr_sent (d_ptr d) @ out
        \<and> (\<forall>t \<in> set (filter (owned fd) ts). tl_addr t \<noteq> TOS_BCAST_ADDR \<longrightarrow>
            (\<exists>p. (tl_addr t, p) \<in> set out \<and> tr_packet_getTid p = tl_tid t \<and> tr_packet_getPayload p = [TASK_DELETE, 0])))"
proof (induction ts arbitrary: us d T)
  case (Cons t ts)
  show ?case
  proof (cases "owned fd t")
    case True
    obtain r d1 where s: "tr_send_close_task e (tl_tid t) (tl_addr t) d = Some (r, d1)"
      using Cons.prems True by (auto split: bind_splits)
    define d2 where "d2 = close_transport_connections (tl_tid t) d1"
    define d3 where "d3 = d2\<lparr>d_tids := (d_tids d2)\<lparr>num_tids := num_tids (d_tids d2) - 1\<rparr>\<rparr>"
    have l: "close_tids_loop e fd ts d3 = Some (us, d')"
      using Cons.prems True s by (simp add: d2_def [symmetric] Let_def d3_def)
    have "tids_closed (insert (tl_tid t) T) d3"
      using closing_step [OF s Cons.prems(2)] by (simp add: d3_def d2_def tids_closed_def)
    note ih = Cons.IH [OF l this]
    have d3: "d_rcrt d3 = d_rcrt d @ [tl_tid t]" "ptr_sent (d_ptr d3) = ptr_sent (d_ptr d1)"
      using sent_keys [OF s]
      by (simp_all add: d3_def d2_def close_transport_connections_def packettransport_delete_tid_def case_prod_beta)
    obtain o1 where o1: "ptr_sent (d_ptr d1) = ptr_sent (d_ptr d) @ o1"
      "tl_addr t \<noteq> TOS_BCAST_ADDR \<longrightarrow> (\<exists>p. o1 = [(tl_addr t, p)] \<and> tr_packet_getTid p = tl_tid t \<and> tr_packet_getPayload p = [TASK_DELETE, 0])"
      using sent_keys [OF s] by blast
    obtain o2 where o2: "ptr_sent (d_ptr d') = ptr_sent (d_ptr d3) @ o2"
      "\<forall>t \<in> set (filter (owned fd) ts). tl_addr t \<noteq> TOS_BCAST_ADDR \<longrightarrow>
            (\<exists>p. (tl_addr t, p) \<in> set o2 \<and> tr_packet_getTid p = tl_tid t \<and> tr_packet_getPayload p = [TASK_DELETE, 0])"
      using ih by blast
    have "\<forall>u \<in> set (filter (owned fd) (t # ts)). tl_addr u \<noteq> TOS_BCAST_ADDR \<longrightarrow>
            (\<exists>p. (tl_addr u, p) \<in> set (o1 @ o2) \<and> tr_packet_getTid p = tl_tid u \<and> tr_packet_getPayload p = [TASK_DELETE, 0])"
    proof
      fix u
      assume "u \<in> set (filter (owned fd) (t # ts))"
      then consider "u = t" | "u \<in> set (filter (owned fd) ts)" using True by auto
      then show "tl_addr u \<noteq> TOS_BCAST_ADDR \<longrightarrow>
            (\<exists>p. (tl_addr u, p) \<in> set (o1 @ o2) \<and> tr_packet_getTid p = tl_tid u \<and> tr_packet_getPayload p = [TASK_DELETE, 0])"
      proof cases
        case 1
        then show ?thesis using o1(2) by auto
      next
        case 2
        then show ?thesis using o2(2) by fastforce
      qed
    qed
    moreover have "ptr_sent (d_ptr d') = ptr_sent (d_ptr d) @ (o1 @ o2)" using o1(1) o2(1) d3(2) by simp
    moreover have "T \<union> tl_tid ` set (filter (owned fd) (t # ts)) = insert (tl_tid t) T \<union> tl_tid ` set (filter (owned fd) ts)"
      using True by simp
    ultimately show ?thesis using ih d3(1) True by auto
  next
    case False
    then have "close_tids_loop e fd (t # ts) d = close_tids_loop e fd ts d \<bind> (\<lambda>(us, d1). Some (t # us, d1))" by auto
    then obtain vs where "close_tids_loop e fd ts d = Some (vs, d')" using Cons.prems(1) by (auto split: bind_splits)
    from Cons.IH [OF this Cons.prems(2)] show ?thesis using False by simp
  qed
qed (auto intro: exI [of _ "[]"])

text \<open>While the dissemination works, a task of all motes is closed by a message to all of them.\<close>

definition disseminates :: "daemon_env \<Rightarrow> daemon \<Rightarrow> bool" where
  "disseminates e d \<longleftrightarrow> (trd_state_sendReady (d_trd d) \<or> n_ignore e) \<and> ms_fd (d_trd d) \<noteq> 0"

lemma close_task_all:
  assumes "tr_send_close_task e tid addr d = Some (r, d1)" "disseminates e d"
  shows "\<exists>out. outbox (d_trd d1) = outbox (d_trd d) @ out \<and> (addr = TOS_BCAST_ADDR \<longrightarrow> delivers tid [TASK_DELETE, 0] out)
    \<and> disseminates e d1"
proof (cases "addr = TOS_BCAST_ADDR")
  case True
  then obtain q st where t: "trd_transport_send (n_trd e) (n_ignore e) tid [TASK_DELETE, 0] (d_trd d) = Some (q, st)"
    "d1 = d\<lparr>d_trd := st\<rparr>"
    using assms(1) by (auto simp: tr_send_close_task_def tr_send_packet_def split: bind_splits)
  have "trd_state_sendReady (d_trd d) \<or> n_ignore e" "ms_fd (d_trd d) \<noteq> 0" using assms(2) by (simp_all add: disseminates_def)
  from sent_message_delivers [OF t(1) this] obtain out where "outbox st = outbox (d_trd d) @ out" "delivers tid [TASK_DELETE, 0] out"
    "ms_fd st = ms_fd (d_trd d)" "init_done st = init_done (d_trd d)" by auto
  then show ?thesis using assms(2) t(2) by (auto simp: disseminates_def trd_state_sendReady_def)
next
  case False
  obtain w where "d1 = d\<lparr>d_ptr := w\<rparr>"
    using tr_send_packet_one [OF False, of "[TASK_DELETE, 0]" e tid d] assms(1) by (auto simp: tr_send_close_task_def)
  then show ?thesis using assms(2) False by (simp add: disseminates_def)
qed

lemma close_tids_loop_tells_all:
  "close_tids_loop e fd ts d = Some (us, d') \<Longrightarrow> disseminates e d \<Longrightarrow>
    \<exists>outs. outbox (d_trd d') = outbox (d_trd d) @ concat outs
      \<and> (\<forall>t \<in> set (filter (owned fd) ts). tl_addr t = TOS_BCAST_ADDR \<longrightarrow> (\<exists>out \<in> set outs. delivers (tl_tid t) [TASK_DELETE, 0] out))"
proof (induction ts arbitrary: us d)
  case (Cons t ts)
  show ?case
  proof (cases "owned fd t")
    case True
    obtain r d1 where s: "tr_send_close_task e (tl_tid t) (tl_addr t) d = Some (r, d1)"
      using Cons.prems True by (auto split: bind_splits)
    define d2 where "d2 = close_transport_connections (tl_tid t) d1"
    define d3 where "d3 = d2\<lparr>d_tids := (d_tids d2)\<lparr>num_tids := num_tids (d_tids d2) - 1\<rparr>\<rparr>"
    have l: "close_tids_loop e fd ts d3 = Some (us, d')"
      using Cons.prems True s by (simp add: d2_def [symmetric] Let_def d3_def)
    have d3: "d_trd d3 = d_trd d1" by (simp add: d3_def d2_def close_transport_connections_def)
    obtain out where out: "outbox (d_trd d1) = outbox (d_trd d) @ out"
      "tl_addr t = TOS_BCAST_ADDR \<longrightarrow> delivers (tl_tid t) [TASK_DELETE, 0] out" "disseminates e d1"
      using close_task_all [OF s Cons.prems(2)] by blast
    then have "disseminates e d3" using d3 by (simp add: disseminates_def)
    from Cons.IH [OF l this] obtain outs where outs: "outbox (d_trd d') = outbox (d_trd d3) @ concat outs"
      "\<forall>t \<in> set (filter (owned fd) ts). tl_addr t = TOS_BCAST_ADDR \<longrightarrow> (\<exists>out \<in> set outs. delivers (tl_tid t) [TASK_DELETE, 0] out)"
      by blast
    show ?thesis using out(1,2) outs d3 True by (intro exI [of _ "out # outs"]) auto
  next
    case False
    then have "close_tids_loop e fd (t # ts) d = close_tids_loop e fd ts d \<bind> (\<lambda>(us, d1). Some (t # us, d1))" by auto
    then obtain vs where "close_tids_loop e fd ts d = Some (vs, d')" using Cons.prems(1) by (auto split: bind_splits)
    from Cons.IH [OF this Cons.prems(2)] show ?thesis using False by (simp only: filter.simps if_False)
  qed
qed (auto intro: exI [of _ "[]"])

text \<open>
  C21: when a client disconnects, exactly its tasks and pending closes leave the table, no packet connection remains for them and
  every stream of theirs is to be deleted. Each of its tasks for one node is told to stop with a packet to that node, and each of
  its tasks for all motes with a message that every receiver puts together again, provided the dissemination is ready when
  the client leaves.
\<close>

theorem client_leaves:
  assumes "rem_client e fd d = Some d'"
  shows "tids (d_tids d') = filter (\<lambda>t. \<not> owned fd t) (tids (d_tids d)) \<and> d_clients d' = remove1 fd (d_clients d)
    \<and> (\<forall>t \<in> set (tids (d_tids d)). owned fd t \<longrightarrow> packettransport_tid_is_alive (tl_tid t) (d_ptr d') = 0
        \<and> (\<forall>c \<in> set (m_strcs (d_str d')). c_tid c = tl_tid t \<longrightarrow> deletePending c) \<and> tl_tid t \<in> set (d_rcrt d'))
    \<and> (\<exists>out. ptr_sent (d_ptr d') = ptr_sent (d_ptr d) @ out
        \<and> (\<forall>t \<in> set (tids (d_tids d)). owned fd t \<and> tl_addr t \<noteq> 0xffff \<longrightarrow>
            (\<exists>p. (tl_addr t, p) \<in> set out \<and> tr_packet_getTid p = tl_tid t \<and> tr_packet_getPayload p = [3, 0])))
    \<and> (disseminates e d \<longrightarrow> (\<exists>outs. outbox (d_trd d') = outbox (d_trd d) @ concat outs
        \<and> (\<forall>t \<in> set (tids (d_tids d)). owned fd t \<and> tl_addr t = 0xffff \<longrightarrow>
            (\<exists>out \<in> set outs. delivers (tl_tid t) [3, 0] out))))"
proof -
  obtain us d1 where l: "close_tids_loop e fd (tids (d_tids d)) d = Some (us, d1)"
    and d': "d' = d1\<lparr>d_tids := (d_tids d1)\<lparr>tids := us\<rparr>, d_clients := remove1 fd (d_clients d1), d_num_clients := d_num_clients d1 - 1\<rparr>"
    using assms by (auto simp: rem_client_def close_all_tid_for_a_client_def split: bind_splits)
  have "tids_closed {} d" by (simp add: tids_closed_def)
  note c = close_tids_loop_closes [OF l this]
  have "packettransport_tid_is_alive (tl_tid t) (d_ptr d') = 0
        \<and> (\<forall>c \<in> set (m_strcs (d_str d')). c_tid c = tl_tid t \<longrightarrow> deletePending c) \<and> tl_tid t \<in> set (d_rcrt d')"
    if "t \<in> set (tids (d_tids d))" "owned fd t" for t
  proof -
    have t: "tl_tid t \<in> tl_tid ` set (filter (owned fd) (tids (d_tids d)))" using that by auto
    then have "tl_tid t \<notin> c_tid ` set (m_ptrcs (d_ptr d'))" "\<forall>c \<in> set (m_strcs (d_str d')). c_tid c = tl_tid t \<longrightarrow> deletePending c"
      using c unfolding tids_closed_def d' by auto
    moreover have "tl_tid t \<in> set (d_rcrt d')" using c t by (simp add: d')
    ultimately show ?thesis by (simp add: packettransport_tid_is_alive_def ptr_alive_loop_eq)
  qed
  moreover have num: "TASK_DELETE = 3" "TOS_BCAST_ADDR = 0xffff" by (simp_all add: TASK_DELETE_def consts_defs)
  then have "\<exists>out. ptr_sent (d_ptr d') = ptr_sent (d_ptr d) @ out
        \<and> (\<forall>t \<in> set (tids (d_tids d)). owned fd t \<and> tl_addr t \<noteq> 0xffff \<longrightarrow>
            (\<exists>p. (tl_addr t, p) \<in> set out \<and> tr_packet_getTid p = tl_tid t \<and> tr_packet_getPayload p = [3, 0]))"
    using c by (simp add: d') blast
  moreover have "\<exists>outs. outbox (d_trd d') = outbox (d_trd d) @ concat outs
        \<and> (\<forall>t \<in> set (tids (d_tids d)). owned fd t \<and> tl_addr t = 0xffff \<longrightarrow> (\<exists>out \<in> set outs. delivers (tl_tid t) [3, 0] out))"
    if "disseminates e d"
    using close_tids_loop_tells_all [OF l that] unfolding num d' by simp blast
  ultimately show ?thesis using rem_client_spec [OF assms] by blast
qed

lemma sample_leaves: "\<exists>d'. rem_client sample_denv 5 sample_daemon = Some d'"
proof -
  have bc: "(3 :: u16) \<noteq> TOS_BCAST_ADDR" by (simp add: consts_defs)
  obtain d1 where "tr_send_close_task sample_denv 7 3 sample_daemon = Some (2, d1)"
    using tr_send_packet_one [OF bc, of "[TASK_DELETE, 0]" sample_denv 7 sample_daemon] by (auto simp: tr_send_close_task_def)
  moreover have "tids (d_tids sample_daemon) = [\<lparr>tl_tid = 8, tl_addr = 33, tl_type = TRANS_TYPE_PING, tl_fd = 5\<rparr>,
      \<lparr>tl_tid = 7, tl_addr = 3, tl_type = TRANS_TYPE_TASK, tl_fd = 5\<rparr>]"
    by (simp add: sample_daemon_def)
  moreover have "TRANS_TYPE_PING \<noteq> TRANS_TYPE_TASK" "TRANS_TYPE_PING \<noteq> TRANS_TYPE_CLOSE" by (simp_all add: trans_types)
  ultimately show ?thesis by (simp add: rem_client_def close_all_tid_for_a_client_def Let_def)
qed

theorem client_leaves_witness:
  "\<exists>d' out p. rem_client sample_denv 5 sample_daemon = Some d' \<and> map tl_tid (tids (d_tids d')) = [8]
    \<and> packettransport_tid_is_alive 7 (d_ptr d') = 0 \<and> ptr_sent (d_ptr d') = out \<and> (3, p) \<in> set out
    \<and> tr_packet_getPayload p = [3, 0]"
proof -
  obtain d' where d': "rem_client sample_denv 5 sample_daemon = Some d'" using sample_leaves by blast
  have "tids (d_tids sample_daemon) = [\<lparr>tl_tid = 8, tl_addr = 33, tl_type = TRANS_TYPE_PING, tl_fd = 5\<rparr>,
      \<lparr>tl_tid = 7, tl_addr = 3, tl_type = TRANS_TYPE_TASK, tl_fd = 5\<rparr>]" "ptr_sent (d_ptr sample_daemon) = []"
    by (simp_all add: sample_daemon_def blank_daemon_def)
  moreover have "TRANS_TYPE_PING \<noteq> TRANS_TYPE_TASK" "TRANS_TYPE_PING \<noteq> TRANS_TYPE_CLOSE" by (simp_all add: trans_types)
  ultimately show ?thesis using client_leaves [OF d'] d' by auto
qed

text \<open>
  C38: a ping, trace or service request outlives the client that made it: when the next client gets the same
  descriptor, which the system gives out again, it receives the answers under an identifier that it never asked for.
\<close>

theorem answers_reach_stranger:
  assumes "tidlist_find_tid (d_tids d) tid = Some t" "tl_fd t = fd" "fd \<ge> 0" "tid_inv (d_tids d)" "tid \<noteq> ALL_TID"
    and "tl_type t = TRANS_TYPE_PING \<or> tl_type t = TRANS_TYPE_TRACERT \<or> tl_type t = TRANS_TYPE_SERVICE"
    and "rem_client e fd d = Some d1" "n_writes e2 fd"
  shows "send_toApp e2 msg ty tid addr (check_new_client fd True d1)
    = Some (write_client fd (write_transport_msg (n_pad e2) msg ty tid addr) (check_new_client fd True d1))"
proof -
  have "\<not> owned fd t" using assms(6) by (auto simp: trans_types)
  moreover have "t \<in> set (tids (d_tids d))" "tl_tid t = tid" using tidlist_find_SomeD [OF assms(1)] by simp_all
  ultimately have "t \<in> set (tids (d_tids d1))" using rem_client_spec [OF assms(7)] by simp
  moreover have "distinct (map tl_tid (tids (d_tids d1)))"
    using rem_client_spec [OF assms(7)] assms(4) by (simp add: tid_inv_def distinct_map_filter)
  ultimately have "tidlist_find_tid (d_tids d1) tid = Some t"
    unfolding tidlist_find_tid_def using find_key_Some [of tl_tid _ tid t] \<open>tl_tid t = tid\<close> by simp
  then have "serves e2 (check_new_client fd True d1) tid fd"
    using assms(2,3,5,8) by (simp add: serves_def check_new_client_def new_client_def add_client_def)
  then show ?thesis by (rule send_toApp_serves)
qed

theorem answers_reach_stranger_witness:
  "\<exists>d1. rem_client sample_denv 5 sample_daemon = Some d1 \<and> send_toApp sample_denv [1] TRANS_TYPE_PING 8 33 (check_new_client 5 True d1)
    = Some (write_client 5 (write_transport_msg (n_pad sample_denv) [1] TRANS_TYPE_PING 8 33) (check_new_client 5 True d1))"
proof -
  obtain d1 where d1: "rem_client sample_denv 5 sample_daemon = Some d1" using sample_leaves by blast
  let ?t = "\<lparr>tl_tid = 8, tl_addr = 33, tl_type = TRANS_TYPE_PING, tl_fd = 5\<rparr> :: tid_list"
  have "tidlist_find_tid (d_tids sample_daemon) 8 = Some ?t" "tl_fd ?t = 5" "0 \<le> (5 :: int)" "(8 :: u16) \<noteq> ALL_TID"
    "tl_type ?t = TRANS_TYPE_PING \<or> tl_type ?t = TRANS_TYPE_TRACERT \<or> tl_type ?t = TRANS_TYPE_SERVICE"
    by (simp_all add: sample_daemon_def tidlist_find_tid_def ALL_TID_def)
  from answers_reach_stranger [OF this(1-3) sample_tids_inv this(4,5) d1 sample_trd(4)] show ?thesis using d1 by blast
qed

section \<open>Answers of the base station\<close>

text \<open>
  Every answer of the base station to a request for its time or its radio power makes the daemon read behind the end of the
  packet: it passes the length of the whole packet with a pointer to its data. Of the service packets only
  complete identity reports and packets of an unknown type are handled soundly.
\<close>

theorem service_answer_overread_iff:
  assumes "3 \<le> length p" "get8 p 2 = AM_BS_SERVICE"
  shows "check_router e (Some p) d = None \<longleftrightarrow>
    length p < 9 \<or> get16le p 7 = BS_SERVICE_TIME \<or> get16le p 7 = BS_SERVICE_POWER
    \<or> get16le p 7 = BS_SERVICE_ID \<and> length p < 11"
proof -
  have g: "get16le (drop 5 p) 2 = get16le p 7" if "\<not> length p < 9" using that by (auto simp: get16le_def get8_def)
  have n: "BS_SERVICE_TIME \<noteq> BS_SERVICE_ID" "BS_SERVICE_POWER \<noteq> BS_SERVICE_ID" by (simp_all add: consts_defs)
  have "check_router e (Some p) d = service_receive_response e (length p) (drop 5 p) d"
    using assms by (simp add: check_router_def)
  then show ?thesis using n g by (cases "length p < 9") (auto simp: service_receive_response_def Let_def)
qed

theorem service_answer_overread_iff_witness:
  "check_router sample_denv (Some [0xff, 0xff, AM_BS_SERVICE, 0x7d, 6, 9, 0, 0xC3, 0, 31, 0]) sample_daemon = None
    \<and> check_router sample_denv (Some [0xff, 0xff, AM_BS_SERVICE, 0x7d, 6, 9, 0, 0xC2, 0, 1, 0]) sample_daemon \<noteq> None"
proof -
  let ?p = "\<lambda>x. [0xff, 0xff, AM_BS_SERVICE, 0x7d, 6, 9, 0, x, 0, 31, 0] :: bytes"
  have "get16le (?p x) 7 = mk16 0 x" "get8 (?p x) 2 = AM_BS_SERVICE" "3 \<le> length (?p x)" for x
    by (simp_all add: get16le_def get8_def)
  then show ?thesis
    using service_answer_overread_iff [of "?p 0xC3" sample_denv sample_daemon]
      service_answer_overread_iff [of "[0xff, 0xff, AM_BS_SERVICE, 0x7d, 6, 9, 0, 0xC2, 0, 1, 0]" sample_denv sample_daemon]
    by (simp add: get16le_def get8_def consts_defs word_eq_unat unat_mk16)
qed

end
