(* ===== verification/Floating.thy ===== *)
theory Floating
  imports Complex_Main Prelude
begin

text \<open>
  Floating-point numbers as the rate control of the master uses them. A number is a rational or one of the special
  values; an operation handles the special values as IEEE 754 says and rounds the exact result. How it is rounded
  (precision, mode, the extended registers of the x87) is a field of the record \<open>fpu\<close>, and so is what a conversion to an
  integer gives when the number does not fit, which C leaves undefined. The sign of a zero is not kept: no division of the
  program can see it, because what it divides by is a converted unsigned integer, a value that was compared with
  zero before, or positive.
\<close>

datatype dbl = Fin rat | PInf | MInf | NaN

record fpu =
  f_rd :: "rat \<Rightarrow> dbl"
  f_cvt :: "dbl \<Rightarrow> int"

section \<open>Operations\<close>

fun dneg :: "dbl \<Rightarrow> dbl" where
  "dneg (Fin a) = Fin (- a)"
| "dneg PInf = MInf"
| "dneg MInf = PInf"
| "dneg NaN = NaN"

fun dadd :: "fpu \<Rightarrow> dbl \<Rightarrow> dbl \<Rightarrow> dbl" where
  "dadd F (Fin a) (Fin b) = f_rd F (a + b)"
| "dadd F NaN y = NaN"
| "dadd F x NaN = NaN"
| "dadd F PInf MInf = NaN"
| "dadd F MInf PInf = NaN"
| "dadd F PInf y = PInf"
| "dadd F MInf y = MInf"
| "dadd F x y = y"

definition dsub :: "fpu \<Rightarrow> dbl \<Rightarrow> dbl \<Rightarrow> dbl" where
  "dsub F x y = dadd F x (dneg y)"

text \<open>The sign of a number, none for \<open>NaN\<close>.\<close>

fun dsgn :: "dbl \<Rightarrow> rat" where
  "dsgn (Fin a) = sgn a"
| "dsgn PInf = 1"
| "dsgn MInf = -1"
| "dsgn NaN = 0"

definition inf_of :: "rat \<Rightarrow> dbl" where
  "inf_of s = (if s > 0 then PInf else if s < 0 then MInf else NaN)"

fun dmul :: "fpu \<Rightarrow> dbl \<Rightarrow> dbl \<Rightarrow> dbl" where
  "dmul F (Fin a) (Fin b) = f_rd F (a * b)"
| "dmul F x y = inf_of (dsgn x * dsgn y)"

fun ddiv :: "fpu \<Rightarrow> dbl \<Rightarrow> dbl \<Rightarrow> dbl" where
  "ddiv F (Fin a) (Fin b) = (if b = 0 then inf_of a else f_rd F (a / b))"
| "ddiv F NaN y = NaN"
| "ddiv F x NaN = NaN"
| "ddiv F (Fin a) y = Fin 0"
| "ddiv F x (Fin b) = inf_of (dsgn x * (if b < 0 then -1 else 1))"
| "ddiv F x y = NaN"

fun dless :: "dbl \<Rightarrow> dbl \<Rightarrow> bool" where
  "dless (Fin a) (Fin b) = (a < b)"
| "dless NaN y = False"
| "dless x NaN = False"
| "dless MInf y = (y \<noteq> MInf)"
| "dless x PInf = (x \<noteq> PInf)"
| "dless x y = False"

definition deq :: "dbl \<Rightarrow> dbl \<Rightarrow> bool" where
  "deq x y \<longleftrightarrow> x \<noteq> NaN \<and> x = y"

definition dle :: "dbl \<Rightarrow> dbl \<Rightarrow> bool" where
  "dle x y \<longleftrightarrow> dless x y \<or> deq x y"

section \<open>Conversions\<close>

text \<open>An integer of at most 32 bits is exact; a decimal constant is rounded.\<close>

definition d_int :: "int \<Rightarrow> dbl" where
  "d_int n = Fin (of_int n)"

definition d_lit :: "fpu \<Rightarrow> rat \<Rightarrow> dbl" where
  "d_lit F q = f_rd F q"

definition d_trunc :: "rat \<Rightarrow> int" where
  "d_trunc a = (if a \<ge> 0 then \<lfloor>a\<rfloor> else \<lceil>a\<rceil>)"

definition d_to_uint :: "fpu \<Rightarrow> int \<Rightarrow> dbl \<Rightarrow> int" where
  "d_to_uint F bound x =
    (case x of Fin a \<Rightarrow> if -1 < a \<and> a < of_int bound then d_trunc a else f_cvt F x | _ \<Rightarrow> f_cvt F x)"

definition d_to_u16 :: "fpu \<Rightarrow> dbl \<Rightarrow> u16" where
  "d_to_u16 F x = word_of_int (d_to_uint F 65536 x)"

definition d_to_u32 :: "fpu \<Rightarrow> dbl \<Rightarrow> u32" where
  "d_to_u32 F x = word_of_int (d_to_uint F 4294967296 x)"

section \<open>Rounding\<close>

text \<open>
  The laws of rounding to a number of binary digits that holds every integer of 32 bits, as long as the exponents
  stay in range: it is monotone, exact on these integers and on its own results, and commutes with doubling. The exact arithmetic obeys them.
\<close>

definition rounds :: "fpu \<Rightarrow> (rat \<Rightarrow> rat) \<Rightarrow> bool" where
  "rounds F r \<longleftrightarrow> f_rd F = (\<lambda>q. Fin (r q)) \<and> mono r \<and> (\<forall>n. \<bar>n\<bar> \<le> 2 ^ 32 \<longrightarrow> r (of_int n) = of_int n)
    \<and> (\<forall>q. r (r q) = r q) \<and> (\<forall>q. r (2 * q) = 2 * r q)"

definition exact :: fpu where
  "exact = \<lparr>f_rd = Fin, f_cvt = (\<lambda>x. 0)\<rparr>"

lemma rounds_exact: "rounds exact (\<lambda>q. q)"
  by (simp add: rounds_def exact_def mono_def)

lemma exact_simps [simp]: "f_rd exact q = Fin q" "f_cvt exact x = 0"
  by (simp_all add: exact_def)

lemma rounds_rd: "rounds F r \<Longrightarrow> f_rd F q = Fin (r q)"
  by (simp add: rounds_def)

lemma rounds_mono: "rounds F r \<Longrightarrow> x \<le> y \<Longrightarrow> r x \<le> r y"
  by (auto simp: rounds_def mono_def)

lemma rounds_int: "rounds F r \<Longrightarrow> \<bar>n\<bar> \<le> 2 ^ 32 \<Longrightarrow> r (of_int n) = of_int n"
  by (simp add: rounds_def)

lemma rounds_double: "rounds F r \<Longrightarrow> r (2 * q) = 2 * r q"
  by (simp add: rounds_def)

lemma rounds_idem: "rounds F r \<Longrightarrow> r (r q) = r q"
  by (simp add: rounds_def)

lemma rounds_num [simp]:
  assumes "rounds F r"
  shows "r 0 = 0" "r 1 = 1" "(numeral n :: int) \<le> 2 ^ 32 \<Longrightarrow> r (numeral n) = numeral n"
  using rounds_int [OF assms, of 0] rounds_int [OF assms, of 1] rounds_int [OF assms, of "numeral n"] by simp_all

lemma rounds_ge_int: "rounds F r \<Longrightarrow> \<bar>n\<bar> \<le> 2 ^ 32 \<Longrightarrow> of_int n \<le> q \<Longrightarrow> of_int n \<le> r q"
  using rounds_mono [of F r "of_int n" q] rounds_int [of F r n] by simp

lemma rounds_le_int: "rounds F r \<Longrightarrow> \<bar>n\<bar> \<le> 2 ^ 32 \<Longrightarrow> q \<le> of_int n \<Longrightarrow> r q \<le> of_int n"
  using rounds_mono [of F r q "of_int n"] rounds_int [of F r n] by simp

lemma rounds_nonneg: "rounds F r \<Longrightarrow> 0 \<le> q \<Longrightarrow> 0 \<le> r q"
  using rounds_ge_int [of F r 0 q] by simp

lemma rounds_half: "rounds F r \<Longrightarrow> r (q / 2) = r q / 2"
  using rounds_double [of F r "q / 2"] by simp

lemma dless_Fin [simp]: "dless (Fin a) (Fin b) = (a < b)" "deq (Fin a) (Fin b) = (a = b)" "dle (Fin a) (Fin b) = (a \<le> b)"
  by (auto simp: deq_def dle_def)

end
