(* ===== verification/Estimators.thy ===== *)
theory Estimators
  imports Floating Timeval Tr_Seqno
begin

text \<open>
  Model of the estimators in src/master/transport/connectionlist.c (records in connectionlist.h): the rate of
  packets and the loss rate of a connection, as a moving average over epochs and as an average over the intervals
  between losses. Each is a field of the connection; \<open>last\<close> is the connection's \<open>lastRecvSeqNo\<close>. The clock and the
  contents of the local \<open>tv_interval\<close>, which stays as it is when the clock has run backwards, are arguments. Printing
  is left out.
\<close>

record rate_info =
  first_arrival_time :: timeval
  last_arrival_time :: timeval
  cumm_recv_cnt :: u32
  avg_arrival_interval :: dbl
  r_Ravg :: dbl
  r_Rcumm :: dbl
  r_restart :: bool

record loss_ewma_info =
  last_update_time :: timeval
  last_update_seqno :: u16
  epoch_recv_cnt :: u32
  e_Di :: dbl
  e_Davg :: dbl
  e_Lavg :: dbl
  e_restart :: bool

record loss_ali_info =
  last_loss_seqno :: u16
  ali_s :: "u32 list"
  s_head :: int
  s_len :: int
  a_Savg :: dbl
  a_Lavg :: dbl
  a_restart :: bool

definition ali_n :: int where [consts_defs]: "ali_n = 8"
definition loss_ewma_epoch_window :: nat where [consts_defs]: "loss_ewma_epoch_window = 10"
definition loss_ewma_epoch_interval :: nat where [consts_defs]: "loss_ewma_epoch_interval = 10"

definition rate_alpha :: "fpu \<Rightarrow> dbl" where "rate_alpha F = d_lit F (5 / 100)"
definition loss_ewma_alpha :: "fpu \<Rightarrow> dbl" where "loss_ewma_alpha F = d_lit F (1 / 10)"

definition ali_w :: "fpu \<Rightarrow> dbl list" where
  "ali_w F = map (d_lit F) [1, 1, 1, 1, 8 / 10, 6 / 10, 4 / 10, 2 / 10]"

section \<open>The rate of packets\<close>

definition init_packetrate :: rate_info where
  "init_packetrate = \<lparr>first_arrival_time = clear_timeval, last_arrival_time = clear_timeval, cumm_recv_cnt = 0,
     avg_arrival_interval = Fin 0, r_Ravg = Fin 0, r_Rcumm = Fin 0, r_restart = False\<rparr>"

definition restart_averaging_packetrate :: "rate_info \<Rightarrow> rate_info" where
  "restart_averaging_packetrate r = r\<lparr>r_restart := True\<rparr>"

definition elapsed :: "timeval \<Rightarrow> timeval \<Rightarrow> timeval \<Rightarrow> timeval" where
  "elapsed now since junk = (case subtract_timeval now since of None \<Rightarrow> junk | Some d \<Rightarrow> d)"

definition interval_ms :: "timeval \<Rightarrow> u32" where
  "interval_ms tv = (let i = of_nat (tv2ms tv) in if i < 20 then 20 else i)"

definition update_packetrate :: "fpu \<Rightarrow> timeval \<Rightarrow> timeval \<Rightarrow> int \<Rightarrow> rate_info \<Rightarrow> rate_info" where
  "update_packetrate F now junk pkt_cnt r0 =
    (let r = r0\<lparr>cumm_recv_cnt := cumm_recv_cnt r0 + of_int pkt_cnt\<rparr>
     in if tv_sec (first_arrival_time r) = 0
        then r\<lparr>first_arrival_time := copy_timeval now, last_arrival_time := copy_timeval now\<rparr>
        else
          let tv1 = elapsed now (first_arrival_time r) junk; i1 = interval_ms tv1;
              few = cumm_recv_cnt r \<le> 5;
              cumm = ddiv F (dsub F (d_int (uint (cumm_recv_cnt r))) (d_int 1)) (ddiv F (d_int (uint i1)) (d_int 1000));
              tv2 = elapsed now (last_arrival_time r) tv1; i2 = interval_ms tv2;
              per = ddiv F (d_int (uint i2)) (d_int pkt_cnt);
              fresh = deq (avg_arrival_interval r) (Fin 0) \<or> r_restart r;
              avg = (if fresh then per
                     else dadd F (dmul F (rate_alpha F) per)
                            (dmul F (dsub F (d_int 1) (rate_alpha F)) (avg_arrival_interval r)))
          in r\<lparr>r_Rcumm := (if few then Fin 0 else cumm), avg_arrival_interval := avg,
               r_restart := (if fresh then False else r_restart r),
               r_Ravg := (if few then Fin 0 else ddiv F (d_int 1000) avg), last_arrival_time := copy_timeval now\<rparr>)"

section \<open>The loss rate over epochs\<close>

definition init_loss_ewma :: loss_ewma_info where
  "init_loss_ewma = \<lparr>last_update_time = clear_timeval, last_update_seqno = 0, epoch_recv_cnt = 0, e_Di = Fin 1,
     e_Davg = Fin 1, e_Lavg = Fin 0, e_restart = False\<rparr>"

definition restart_averaging_loss_ewma :: "loss_ewma_info \<Rightarrow> loss_ewma_info" where
  "restart_averaging_loss_ewma l = l\<lparr>e_Davg := Fin 1, e_Lavg := Fin 0, e_restart := True\<rparr>"

definition update_loss_ewma :: "fpu \<Rightarrow> timeval \<Rightarrow> timeval \<Rightarrow> u16 \<Rightarrow> u16 \<Rightarrow> loss_ewma_info \<Rightarrow> loss_ewma_info" where
  "update_loss_ewma F now junk lastRecv seqno l0 =
    (if tr_seqno_cmp seqno lastRecv \<le> 0 then l0
     else
       let l = l0\<lparr>epoch_recv_cnt := epoch_recv_cnt l0 + 1\<rparr>;
           closed = (\<lambda>l. l\<lparr>last_update_time := copy_timeval now, last_update_seqno := seqno, epoch_recv_cnt := 0\<rparr>)
       in if tv_sec (last_update_time l) = 0 then
            (let di = ddiv F (d_int 1) (d_int (uint seqno))
             in closed (l\<lparr>e_Di := di, e_Davg := di, e_Lavg := dsub F (d_int 1) di\<rparr>))
          else
            let seq_diff = tr_seqno_diff seqno (last_update_seqno l);
                time_diff = (of_nat (tv2ms (elapsed now (last_update_time l) junk)) :: u32) div 1000
            in if unat seq_diff \<ge> loss_ewma_epoch_window \<or> unat time_diff > loss_ewma_epoch_interval then
                 (if epoch_recv_cnt l > 0 then
                    let di = ddiv F (d_int (uint (epoch_recv_cnt l))) (d_int (uint seq_diff));
                        davg = (if e_restart l then di
                                else dadd F (dmul F (loss_ewma_alpha F) di)
                                       (dmul F (dsub F (d_int 1) (loss_ewma_alpha F)) (e_Davg l)))
                    in closed (l\<lparr>e_Di := di, e_Davg := davg, e_restart := False, e_Lavg := dsub F (d_int 1) davg\<rparr>)
                  else closed l)
               else l)"

section \<open>The loss rate from the intervals between losses\<close>

text \<open>The contents of the array \<open>s\<close> stay as they are; nothing reads them before they are written.\<close>

definition init_loss_ali :: "loss_ali_info \<Rightarrow> loss_ali_info" where
  "init_loss_ali mem = \<lparr>last_loss_seqno = 0, ali_s = ali_s mem, s_head = -1, s_len = 0, a_Savg = Fin 0, a_Lavg = Fin 0,
     a_restart = False\<rparr>"

definition restart_averaging_loss_ali :: "loss_ali_info \<Rightarrow> loss_ali_info" where
  "restart_averaging_loss_ali l = l\<lparr>s_len := 0, a_Savg := Fin 0, a_Lavg := Fin 0\<rparr>"

text \<open>A new loss: the interval since the one before, within bounds.\<close>

definition loss_interval :: "u16 \<Rightarrow> u16 \<Rightarrow> u32" where
  "loss_interval lastRecv last_loss =
    (let i = ucast (tr_seqno_diff lastRecv last_loss) + 1
     in if last_loss = 0 then (if lastRecv = 0 then 2 else if i > 10 then 10 else i)
        else if i < 2 then 2 else if i > 20 then 20 else i)"

text \<open>The index of the interval \<open>k\<close> losses ago.\<close>

definition ali_at :: "loss_ali_info \<Rightarrow> nat \<Rightarrow> u32" where
  "ali_at l k = ali_s l ! nat ((s_head l + ali_n - int k) mod ali_n)"

definition weighted :: "fpu \<Rightarrow> (nat \<Rightarrow> u32) \<Rightarrow> nat \<Rightarrow> nat list \<Rightarrow> dbl \<times> dbl \<Rightarrow> dbl \<times> dbl" where
  "weighted F s off ks acc =
    fold (\<lambda>k (wssum, wsum). (dadd F wssum (dmul F (ali_w F ! (k + off)) (d_int (uint (s k)))), dadd F wsum (ali_w F ! (k + off))))
      ks acc"

definition update_loss_ali :: "fpu \<Rightarrow> u16 \<Rightarrow> u16 \<Rightarrow> loss_ali_info \<Rightarrow> loss_ali_info" where
  "update_loss_ali F lastRecv seqno l0 =
    (let l = (if tr_seqno_cmp seqno (tr_seqno_next lastRecv) > 0 then
                (let h = (s_head l0 + 1) mod ali_n
                 in l0\<lparr>last_loss_seqno := tr_seqno_prev seqno, s_head := h,
                      ali_s := (ali_s l0)[nat h := loss_interval lastRecv (last_loss_seqno l0)],
                      s_len := (if s_len l0 < ali_n then s_len l0 + 1 else s_len l0)\<rparr>)
              else l0);
         s0 = (ucast (tr_seqno_diff seqno (last_loss_seqno l)) :: u32)
     in if s_len l > 0 then
          (let (ws, w) = weighted F (ali_at l) 0 [0..<nat (s_len l)] (Fin 0, Fin 0);
               avg_n = ddiv F ws w;
               (vs, v) = weighted F (ali_at l) 1 [0..<nat (s_len l) - 1]
                           (dmul F (ali_w F ! 0) (d_int (uint s0)), ali_w F ! 0);
               avg_n1 = (if s_len l > 1 then ddiv F vs v else Fin 0);
               savg = (if dless avg_n avg_n1 then avg_n1 else avg_n)
           in l\<lparr>a_Savg := savg, a_Lavg := ddiv F (d_int 1) savg\<rparr>)
        else l)"

section \<open>The loss rate never exceeds one half\<close>

lemma unat_ucast_Suc: "unat (ucast (d :: u16) + 1 :: u32) = unat d + 1"
proof -
  have "unat d < 65536" by simp
  then have "unat d < 4294967296" "unat d + 1 < 4294967296" by linarith+
  then show ?thesis by (simp add: unat_word_ariths unsigned_ucast_eq take_bit_eq_mod)
qed

lemma loss_interval_ge: "2 \<le> unat (loss_interval lastRecv last_loss)"
proof -
  have "lastRecv \<noteq> 0 \<Longrightarrow> 1 \<le> unat (tr_seqno_diff lastRecv 0)"
    by (simp add: tr_seqno_diff_def) (metis One_nat_def Suc_leI unat_gt_0)
  then show ?thesis
    by (auto simp: loss_interval_def Let_def word_less_nat_alt unat_ucast_Suc)
qed

lemma ali_w_Fin:
  assumes "rounds F r" "k < 8"
  shows "\<exists>q. ali_w F ! k = Fin q \<and> r q = q \<and> 0 \<le> q"
proof -
  let ?xs = "[1, 1, 1, 1, 8 / 10, 6 / 10, 4 / 10, 2 / 10 :: rat]"
  have k: "k < length ?xs" using assms(2) by simp
  have "\<forall>x \<in> set ?xs. 0 \<le> x" by simp
  then have "0 \<le> ?xs ! k" using nth_mem [OF k] by blast
  moreover have "ali_w F ! k = Fin (r (?xs ! k))"
    unfolding ali_w_def nth_map [OF k] by (simp add: d_lit_def rounds_rd [OF assms(1)])
  ultimately show ?thesis using rounds_idem [OF assms(1)] rounds_nonneg [OF assms(1)] by blast
qed

lemma weighted_Fin:
  assumes "rounds F r" "\<forall>k \<in> set ks. k + off < 8" "0 \<le> b" "r b = b"
  shows "\<exists>a' b'. weighted F s off ks (Fin a, Fin b) = (Fin a', Fin b') \<and> b \<le> b'
    \<and> (2 * b \<le> a \<and> (\<forall>k \<in> set ks. 2 \<le> unat (s k)) \<longrightarrow> 2 * b' \<le> a')"
  using assms(2-4)
proof (induction ks arbitrary: a b)
  case Nil
  then show ?case by (simp add: weighted_def)
next
  case (Cons k ks)
  obtain q where q: "ali_w F ! (k + off) = Fin q" "r q = q" "0 \<le> q"
    using ali_w_Fin [OF assms(1), of "k + off"] Cons.prems(1) by auto
  define p where "p = r (q * of_nat (unat (s k)))"
  define a1 where "a1 = r (a + p)"
  define b1 where "b1 = r (b + q)"
  have st: "weighted F s off (k # ks) (Fin a, Fin b) = weighted F s off ks (Fin a1, Fin b1)"
    by (simp add: weighted_def q(1) d_int_def rounds_rd [OF assms(1)] p_def a1_def b1_def)
  have b1: "b \<le> b1" "r b1 = b1"
    using rounds_mono [OF assms(1), of b "b + q"] q(3) Cons.prems(3) rounds_idem [OF assms(1)] by (simp_all add: b1_def)
  have up: "2 * b1 \<le> a1" if "2 * b \<le> a" "2 \<le> unat (s k)"
  proof -
    have "(2 :: rat) \<le> of_nat (unat (s k))" using that(2) of_nat_le_iff [of 2 "unat (s k)", where 'a = rat] by simp
    then have "2 * q \<le> q * of_nat (unat (s k))" using q(3) by (simp add: mult.commute mult_left_mono)
    then have "r (2 * q) \<le> p" unfolding p_def by (rule rounds_mono [OF assms(1)])
    then have "2 * q \<le> p" using rounds_double [OF assms(1)] q(2) by simp
    then have "r (2 * (b + q)) \<le> a1" unfolding a1_def using that(1) by (intro rounds_mono [OF assms(1)]) simp
    then show ?thesis using rounds_double [OF assms(1), of "b + q"] by (simp only: b1_def)
  qed
  have "\<forall>k \<in> set ks. k + off < 8" "0 \<le> b1" using Cons.prems b1(1) by auto
  from Cons.IH [OF this b1(2), of a1] obtain a' b' where
    "weighted F s off ks (Fin a1, Fin b1) = (Fin a', Fin b')" "b1 \<le> b'"
    "2 * b1 \<le> a1 \<and> (\<forall>k \<in> set ks. 2 \<le> unat (s k)) \<longrightarrow> 2 * b' \<le> a'" by blast
  then show ?case using st b1(1) up by (intro exI [of _ a'] exI [of _ b']) auto
qed

definition ali_inv :: "loss_ali_info \<Rightarrow> bool" where
  "ali_inv l \<longleftrightarrow> length (ali_s l) = 8 \<and> -1 \<le> s_head l \<and> s_head l < 8 \<and> 0 \<le> s_len l \<and> s_len l \<le> 8
    \<and> (0 < s_len l \<longrightarrow> 0 \<le> s_head l) \<and> (\<forall>k. int k < s_len l \<longrightarrow> 2 \<le> unat (ali_at l k))
    \<and> (\<exists>q. a_Lavg l = Fin q \<and> 0 \<le> q \<and> q \<le> 1 / 2)"

lemma ali_inv_init: "length (ali_s mem) = 8 \<Longrightarrow> ali_inv (init_loss_ali mem)"
  by (simp add: ali_inv_def init_loss_ali_def)

lemma ali_inv_restart: "ali_inv l \<Longrightarrow> ali_inv (restart_averaging_loss_ali l)"
  by (simp add: ali_inv_def restart_averaging_loss_ali_def)

text \<open>The intervals after a new one was put in.\<close>

lemma ali_at_push:
  assumes "length (ali_s l) = 8" "-1 \<le> s_head l" "s_head l < 8" "k < 8"
    and "l' = l\<lparr>last_loss_seqno := x, s_head := (s_head l + 1) mod ali_n,
      ali_s := (ali_s l)[nat ((s_head l + 1) mod ali_n) := i], s_len := n\<rparr>"
  shows "ali_at l' k = (case k of 0 \<Rightarrow> i | Suc j \<Rightarrow> ali_at l j)"
proof -
  define h where "h = (s_head l + 1) mod 8"
  have h: "0 \<le> h" "h < 8" by (simp_all add: h_def)
  have at: "ali_at l' k = (ali_s l)[nat h := i] ! nat ((h + 8 - int k) mod 8)"
    by (simp add: ali_at_def assms(5) ali_n_def h_def)
  show ?thesis
  proof (cases k)
    case 0
    then show ?thesis using at h assms(1) by simp
  next
    case (Suc j)
    have "(h + 8 - int k) mod 8 = (s_head l + 8 - int j) mod 8"
    proof -
      have "h + 8 - int k = h + (7 - int j)" "s_head l + 8 - int j = s_head l + 1 + (7 - int j)" using Suc by simp_all
      then show ?thesis by (simp only: h_def mod_add_left_eq)
    qed
    moreover have "(h + 8 - int k) mod 8 \<noteq> h" using h assms(4) Suc by presburger
    moreover have "0 \<le> (h + 8 - int k) mod 8" by simp
    ultimately show ?thesis using at Suc h by (simp add: ali_at_def ali_n_def nat_eq_iff2)
  qed
qed

lemma ali_push_inv:
  assumes "ali_inv l"
    and "l' = l\<lparr>last_loss_seqno := x, s_head := (s_head l + 1) mod ali_n,
      ali_s := (ali_s l)[nat ((s_head l + 1) mod ali_n) := i],
      s_len := (if s_len l < ali_n then s_len l + 1 else s_len l)\<rparr>" "2 \<le> unat i"
  shows "ali_inv l'"
proof -
  have i: "length (ali_s l) = 8" "-1 \<le> s_head l" "s_head l < 8" "0 \<le> s_len l" "s_len l \<le> 8"
    using assms(1) by (simp_all add: ali_inv_def)
  have "2 \<le> unat (ali_at l' k)" if "int k < s_len l'" for k
  proof -
    have k: "k < 8" using that i by (simp add: assms(2) ali_n_def split: if_splits)
    have "k = 0 \<or> (\<exists>j. k = Suc j \<and> int j < s_len l)"
      using that by (cases k) (auto simp: assms(2) split: if_splits)
    then show ?thesis using ali_at_push [OF i(1-3) k assms(2)] assms(1,3) by (auto simp: ali_inv_def)
  qed
  moreover have "-1 \<le> (s_head l + 1) mod 8" by (rule order_trans [of _ 0]) simp_all
  ultimately show ?thesis using assms(1) i by (simp add: ali_inv_def assms(2) ali_n_def)
qed

lemma update_loss_ali_inv:
  assumes "rounds F r" "ali_inv l0"
  shows "ali_inv (update_loss_ali F lastRecv seqno l0)"
proof -
  define l where "l = (if tr_seqno_cmp seqno (tr_seqno_next lastRecv) > 0 then
                (let h = (s_head l0 + 1) mod ali_n
                 in l0\<lparr>last_loss_seqno := tr_seqno_prev seqno, s_head := h,
                      ali_s := (ali_s l0)[nat h := loss_interval lastRecv (last_loss_seqno l0)],
                      s_len := (if s_len l0 < ali_n then s_len l0 + 1 else s_len l0)\<rparr>)
              else l0)"
  have inv: "ali_inv l"
  proof (cases "tr_seqno_cmp seqno (tr_seqno_next lastRecv) > 0")
    case True
    show ?thesis by (rule ali_push_inv [OF assms(2) _ loss_interval_ge]) (simp add: l_def True Let_def)
  next
    case False
    then show ?thesis using assms(2) by (simp add: l_def)
  qed
  show ?thesis
  proof (cases "s_len l > 0")
    case False
    then show ?thesis using inv by (simp add: update_loss_ali_def l_def [symmetric] Let_def)
  next
    case True
    let ?s0 = "ucast (tr_seqno_diff seqno (last_loss_seqno l)) :: u32"
    have len: "s_len l \<le> 8" using inv by (simp add: ali_inv_def)
    have w0: "ali_w F ! 0 = Fin 1" using rounds_int [OF assms(1), of 1] rounds_rd [OF assms(1)]
      by (simp add: ali_w_def d_lit_def)
    have one: "(0 :: rat) \<le> 1" "r 1 = 1" using rounds_int [OF assms(1), of 1] by simp_all
    have at: "\<forall>k \<in> set [0..<nat (s_len l)]. 2 \<le> unat (ali_at l k)" using inv by (auto simp: ali_inv_def)
    define a0 where "a0 = r (of_nat (unat (ali_at l 0)))"
    have "2 \<le> (of_nat (unat (ali_at l 0)) :: rat)"
      using at True of_nat_le_iff [of 2 "unat (ali_at l 0)", where 'a = rat] by simp
    then have a0: "2 * 1 \<le> r a0" using rounds_ge_int [OF assms(1), of 2] by (simp add: a0_def)
    have "[0..<nat (s_len l)] = 0 # [1..<nat (s_len l)]" using True by (simp add: upt_conv_Cons)
    then have first: "weighted F (ali_at l) 0 [0..<nat (s_len l)] (Fin 0, Fin 0)
        = weighted F (ali_at l) 0 [1..<nat (s_len l)] (Fin (r a0), Fin 1)"
      by (simp add: weighted_def w0 d_int_def rounds_rd [OF assms(1)] one a0_def)
    have "\<forall>k \<in> set [1..<nat (s_len l)]. k + 0 < 8" using len by auto
    from weighted_Fin [OF assms(1) this one, of "ali_at l" "r a0"] obtain a b where
      ab: "weighted F (ali_at l) 0 [0..<nat (s_len l)] (Fin 0, Fin 0) = (Fin a, Fin b)" "1 \<le> b" "2 * b \<le> a"
      unfolding first using a0 at by auto
    have "2 \<le> a / b" using ab(2,3) by (simp add: pos_le_divide_eq)
    then have n: "ddiv F (Fin a) (Fin b) = Fin (r (a / b))" "2 \<le> r (a / b)"
      using ab(2) rounds_rd [OF assms(1)] rounds_ge_int [OF assms(1), of 2 "a / b"] by simp_all
    have "\<forall>k \<in> set [0..<nat (s_len l) - 1]. k + 1 < 8" using len by auto
    from weighted_Fin [OF assms(1) this one, of "ali_at l" "r (1 * of_int (uint ?s0))"] obtain v w where
      vw: "weighted F (ali_at l) 1 [0..<nat (s_len l) - 1] (dmul F (ali_w F ! 0) (d_int (uint ?s0)), ali_w F ! 0)
        = (Fin v, Fin w)" "1 \<le> w"
      unfolding w0 by (auto simp: d_int_def rounds_rd [OF assms(1)])
    define sv where "sv = (if s_len l > 1 \<and> r (a / b) < r (v / w) then r (v / w) else r (a / b))"
    have sv: "2 \<le> sv" using n(2) by (simp add: sv_def)
    have upd: "update_loss_ali F lastRecv seqno l0 = l\<lparr>a_Savg := Fin sv, a_Lavg := Fin (r (1 / sv))\<rparr>"
      using True ab(1) vw n(1) n(2) sv rounds_rd [OF assms(1)]
      by (simp add: update_loss_ali_def l_def [symmetric] Let_def sv_def d_int_def)
    have "0 \<le> r (1 / sv)" using sv by (intro rounds_nonneg [OF assms(1)]) simp
    moreover have "r (1 / sv) \<le> r (1 / 2)" using sv by (intro rounds_mono [OF assms(1)]) (simp add: field_simps)
    then have "r (1 / sv) \<le> 1 / 2" using rounds_half [OF assms(1), of 1] one(2) by simp
    ultimately show ?thesis using inv unfolding upd by (simp add: ali_inv_def ali_at_def)
  qed
qed

text \<open>
  Whatever packets arrive, the loss rate that the rate control gets is at least 0 and at most one half, because no
  interval between losses counts for less than two packets; a link that loses more looks like one that loses every
  second packet.
\<close>

theorem loss_rate_at_most_half:
  assumes "rounds F r" "length (ali_s mem) = 8"
  shows "\<exists>q. a_Lavg (fold (\<lambda>(lastRecv, seqno). update_loss_ali F lastRecv seqno) xs (init_loss_ali mem)) = Fin q
    \<and> 0 \<le> q \<and> q \<le> 1 / 2"
proof -
  have "ali_inv l \<Longrightarrow> ali_inv (fold (\<lambda>(lastRecv, seqno). update_loss_ali F lastRecv seqno) xs l)" for l
    using update_loss_ali_inv [OF assms(1)] by (induction xs arbitrary: l) auto
  from this [OF ali_inv_init [OF assms(2)]] show ?thesis by (simp add: ali_inv_def)
qed

theorem loss_rate_at_most_half_witness:
  "\<exists>q. a_Lavg (fold (\<lambda>(lastRecv, seqno). update_loss_ali exact lastRecv seqno) [(0, 1), (1, 40), (40, 90)]
      (init_loss_ali \<lparr>last_loss_seqno = 3, ali_s = replicate 8 7, s_head = 0, s_len = 0, a_Savg = NaN, a_Lavg = NaN,
        a_restart = True\<rparr>)) = Fin q \<and> q \<le> 1 / 2"
  using loss_rate_at_most_half [OF rounds_exact, of "\<lparr>last_loss_seqno = 3, ali_s = replicate 8 7, s_head = 0, s_len = 0,
      a_Savg = NaN, a_Lavg = NaN, a_restart = True\<rparr>" "[(0, 1), (1, 40), (40, 90)]"] by auto

end
