(* ===== verification/Rcrt_Rates.thy ===== *)
theory Rcrt_Rates
  imports Connection_List U16list Packet_List Estimators Stream_Transport
begin

text \<open>
  The state of src/master/transport/rcrtransport.c, the rate-controlled reliable transport, and its rate control
  (structures in rcrtmaster.h and src/mote/lib/transport/rcrtransport.h); the packets and timers are in theory \<open>Rcrt\<close>. A connection keeps, beside what the stream transport keeps, the interval in
  milliseconds at which the mote asked to send and the one it is allowed, an estimate of the round-trip time from
  numbered feedback packets, and a level of congestion. The total rate \<open>m_R\<close> grows and shrinks with congestion and is
  shared out among the connections under a policy. The world holds the globals, what was given to the routing layer,
  what went up, and the calls of \<open>rcrtransport_tid_delete_done\<close>. The environment has the clock, read once, the contents of
  new memory and of the local \<open>tv_interval\<close>, the arithmetic, and the outcomes of the two tests \<open>drand48() > 0.5\<close>. Of the
  log only the read of two data bytes is kept; its file can be opened. A time in milliseconds is an
  \<open>unsigned long\<close> of 32 bits. \<open>None\<close> is undefined behaviour or a loop that does not end.
\<close>

unbundle bit_operations_syntax

datatype rcrt_state = RCRT_S_ACTIVE | RCRT_S_NACK_WAIT | RCRT_S_FIN_RETX_WAIT

record rcrt_conn = connection +
  pktrate :: rate_info
  goodput :: rate_info
  loss_ewma :: loss_ewma_info
  loss_ali :: loss_ali_info
  rc_state :: rcrt_state
  rc_deletePending :: bool
  rc_timeoutCount :: int
  lastSentAckSeqNo :: u16
  nextAckSeqNo :: u16
  rc_nextExpectedSeqNo :: u16
  rc_plist :: SortedPacketList
  rc_missingList :: uint16list
  next_nack_idx :: int
  req_irate :: u16
  cur_irate :: u16
  rc_alloc :: bool
  congestion_ewma :: dbl
  feedback_fid :: u16
  feedback_fid_list :: "u16 list"
  feedback_fid_mote :: u16
  feedback_senttime :: "u32 list"
  last_feedback_time :: u32
  feedback_idx :: int
  rc_rtt :: dbl
  rc_rttvar :: dbl
  fcount :: u32
  totalRetxPackets :: u32

record rcr_world =
  m_rcrtcs :: "rcrt_conn list"
  m_num_rtrc :: int
  m_N :: int
  m_D :: dbl
  m_R :: dbl
  m_rho :: dbl
  m_slowstart :: bool
  last_rate_increase_time_ms :: u32
  last_rate_decrease_time_ms :: u32
  last_congestion_level :: dbl
  last_dec_p :: dbl
  bootup_time_ms :: u32
  fairness_policy :: int
  rcr_sent :: "(u16 \<times> bytes) list"
  rcr_up :: "(u16 \<times> u16 \<times> bytes) list"
  rcr_deleted :: "u16 list"

record rcr_env =
  v_now :: timeval
  v_mem :: rcrt_conn
  v_junk :: timeval
  v_fpu :: fpu
  v_coin_rate :: bool
  v_coin_ack :: bool

definition RCRT_FLAG_DATA :: u8 where [consts_defs]: "RCRT_FLAG_DATA = 0x01"
definition RCRT_FLAG_SYN :: u8 where [consts_defs]: "RCRT_FLAG_SYN = 0x02"
definition RCRT_FLAG_FIN :: u8 where [consts_defs]: "RCRT_FLAG_FIN = 0x04"
definition RCRT_FLAG_FEEDBACK :: u8 where [consts_defs]: "RCRT_FLAG_FEEDBACK = 0x08"
definition RCRT_FLAG_RETX :: u8 where [consts_defs]: "RCRT_FLAG_RETX = 0x20"
definition RCRT_FLAG_ACK_REQ :: u8 where [consts_defs]: "RCRT_FLAG_ACK_REQ = 0x40"
definition RCRT_FLAG_DATA_RETX :: u8 where [consts_defs]: "RCRT_FLAG_DATA_RETX = 0x21"
definition RCRT_FLAG_SYN_ACK :: u8 where [consts_defs]: "RCRT_FLAG_SYN_ACK = 0x12"
definition RCRT_FLAG_FIN_ACK :: u8 where [consts_defs]: "RCRT_FLAG_FIN_ACK = 0x14"
definition RCRT_FEEDBACK_TIMEOUT :: nat where [consts_defs]: "RCRT_FEEDBACK_TIMEOUT = 5000"
definition RCRT_CONNECTION_TIMEOUT :: nat where [consts_defs]: "RCRT_CONNECTION_TIMEOUT = 60000"
definition RCRT_MAX_ALIVE_TIMEOUT :: int where [consts_defs]: "RCRT_MAX_ALIVE_TIMEOUT = 5"
definition RCRT_NACK_MLIST_LEN :: nat where [consts_defs]: "RCRT_NACK_MLIST_LEN = 10"
definition FID_LIST_LEN :: nat where [consts_defs]: "FID_LIST_LEN = 5"
definition PROTOCOL_RCR_TRANSPORT :: int where [consts_defs]: "PROTOCOL_RCR_TRANSPORT = 0x50"
definition RCRT_FAIR_RATIO :: int where [consts_defs]: "RCRT_FAIR_RATIO = 1"
definition RCRT_FAIR_RATE :: int where [consts_defs]: "RCRT_FAIR_RATE = 2"
definition RCRT_FAIR_RATE_W_D :: int where [consts_defs]: "RCRT_FAIR_RATE_W_D = 3"
definition RCRT_FAIR_GOODPUT :: int where [consts_defs]: "RCRT_FAIR_GOODPUT = 4"

definition RTT_EWMA_ALPHA :: "fpu \<Rightarrow> dbl" where "RTT_EWMA_ALPHA F = d_lit F (125 / 1000)"
definition RTT_EWMA_BETA :: "fpu \<Rightarrow> dbl" where "RTT_EWMA_BETA F = d_lit F (25 / 100)"
definition CONGESTION_EWMA_ALPHA :: "fpu \<Rightarrow> dbl" where "CONGESTION_EWMA_ALPHA F = d_lit F (5 / 10)"
definition CONGESTION_L_THRESH :: "fpu \<Rightarrow> dbl" where "CONGESTION_L_THRESH F = d_lit F (2 / 10)"
definition CONGESTION_H_THRESH :: dbl where "CONGESTION_H_THRESH = d_int 2"
definition R_ADDITIVE_INCREMENT :: dbl where "R_ADDITIVE_INCREMENT = d_int 1"
definition RCRT_INIT_RATE :: "fpu \<Rightarrow> dbl" where "RCRT_INIT_RATE F = d_lit F (5 / 10)"

section \<open>Rates\<close>

text \<open>The C remainder has the sign of the setting.\<close>

definition rcrt_configure :: "int \<Rightarrow> rcr_world \<Rightarrow> rcr_world" where
  "rcrt_configure setting w = w\<lparr>fairness_policy := sgn setting * (\<bar>setting\<bar> mod 10)\<rparr>"

definition rate2interval :: "fpu \<Rightarrow> dbl \<Rightarrow> u16" where
  "rate2interval F rate =
    (if dless (ddiv F (d_int 1000) rate) (d_int 65534) then d_to_u16 F (ddiv F (d_int 1000) rate) else 65534)"

definition gettime_ms :: "timeval \<Rightarrow> rcr_world \<Rightarrow> u32" where
  "gettime_ms now w = of_nat (gettimeofday_ms now) - bootup_time_ms w"

definition log_rcrt_packet :: "bytes \<Rightarrow> unit option" where
  "log_rcrt_packet data = (if length data < 4 then None else Some ())"

definition recalculate_rho :: "fpu \<Rightarrow> rcr_world \<Rightarrow> rcr_world" where
  "recalculate_rho F w = w\<lparr>m_rho := (if deq (m_D w) (d_int 0) then d_int 1 else ddiv F (m_R w) (m_D w))\<rparr>"

text \<open>The rate of an interval.\<close>

definition per_second :: "fpu \<Rightarrow> u16 \<Rightarrow> dbl" where
  "per_second F irate = ddiv F (d_int 1000) (d_int (uint irate))"

definition recalculate_R :: "fpu \<Rightarrow> rcr_world \<Rightarrow> dbl" where
  "recalculate_R F w =
    fold (\<lambda>c total. if cur_irate c \<noteq> 0 then dadd F total (per_second F (cur_irate c)) else total) (m_rcrtcs w) (d_int 0)"

section \<open>Congestion and feedback\<close>

definition get_congestion_level :: "rcrt_conn \<Rightarrow> dbl" where
  "get_congestion_level c = congestion_ewma c"

definition update_congestion_level :: "fpu \<Rightarrow> rcrt_conn \<Rightarrow> rcrt_conn" where
  "update_congestion_level F c =
    (let ll = (if ul_length (rc_missingList c) > 0
               then d_int ((spl_length (rc_plist c) - 1) + (ul_length (rc_missingList c) - 1)) else d_int 0);
         rtt = (if dless (d_int (int RCRT_FEEDBACK_TIMEOUT)) (rc_rtt c) then d_int (int RCRT_FEEDBACK_TIMEOUT) else rc_rtt c);
         n = ddiv F rtt (d_int (uint (cur_irate c)));
         nrm = (if dless n (d_lit F (1 / 10)) then d_lit F (1 / 10) else n);
         cl = dadd F (ddiv F ll nrm) (d_int (rc_timeoutCount c))
     in c\<lparr>congestion_ewma := dadd F (dmul F (CONGESTION_EWMA_ALPHA F) cl)
           (dmul F (dsub F (d_int 1) (CONGESTION_EWMA_ALPHA F)) (congestion_ewma c))\<rparr>)"

definition update_feedback_send_info :: "timeval \<Rightarrow> rcr_world \<Rightarrow> rcrt_conn \<Rightarrow> u16 \<times> rcrt_conn" where
  "update_feedback_send_info now w c =
    (let fid = (if feedback_fid c + 1 = 0 then 1 else feedback_fid c + 1);
         idx = (if feedback_idx c + 1 = int FID_LIST_LEN then 0 else feedback_idx c + 1);
         t = gettime_ms now w
     in (fid, c\<lparr>feedback_fid := fid, feedback_idx := idx, feedback_fid_list := (feedback_fid_list c)[nat idx := fid],
           feedback_senttime := (feedback_senttime c)[nat idx := t], last_feedback_time := t\<rparr>))"

definition feedback_timeout :: "fpu \<Rightarrow> rcrt_conn \<Rightarrow> u32" where
  "feedback_timeout F c =
    (if deq (rc_rtt c) (d_int 0) then of_nat RCRT_FEEDBACK_TIMEOUT
     else d_to_u32 F (dadd F (dadd F (rc_rtt c) (dmul F (d_int 4) (rc_rttvar c))) (d_int 100)))"

definition is_feedback_time_ok :: "fpu \<Rightarrow> timeval \<Rightarrow> rcr_world \<Rightarrow> rcrt_conn \<Rightarrow> bool" where
  "is_feedback_time_ok F now w c \<longleftrightarrow>
    feedback_fid_mote c = feedback_fid c
    \<or> \<not> (last_feedback_time c > 0
         \<and> gettime_ms now w < last_feedback_time c + 2 * feedback_timeout F c + 2 * ucast (cur_irate c))"

definition wait_time :: "fpu \<Rightarrow> rcrt_conn \<Rightarrow> u32" where
  "wait_time F c =
    (let t = 2 * feedback_timeout F c + 3 * ucast (cur_irate c)
     in if u16list_isEmpty (rc_missingList c) then t else t + (3 * feedback_timeout F c + 2 * ucast (cur_irate c)))"

definition is_all_connection_update_time_ok :: "fpu \<Rightarrow> timeval \<Rightarrow> int \<Rightarrow> rcr_world \<Rightarrow> bool" where
  "is_all_connection_update_time_ok F now inc_dec w =
    (let m = fold (\<lambda>c m. if m < wait_time F c then wait_time F c else m) (m_rcrtcs w) 0;
         m' = (if m > 20000 then 20000 else m);
         last_t = (if inc_dec > 0 \<and> \<not> last_rate_decrease_time_ms w > last_rate_increase_time_ms w
                 then last_rate_increase_time_ms w else last_rate_decrease_time_ms w)
     in \<not> gettime_ms now w < last_t + m')"

section \<open>Sharing out the total rate\<close>

definition allocate_R_over_N :: "fpu \<Rightarrow> dbl \<Rightarrow> rcr_world \<Rightarrow> rcr_world" where
  "allocate_R_over_N F R w =
    (if m_N w = 0 \<or> deq R (d_int 0) then w
     else w\<lparr>m_rcrtcs := map (\<lambda>c. c\<lparr>cur_irate := rate2interval F (ddiv F R (d_int (m_N w)))\<rparr>) (m_rcrtcs w)\<rparr>)"

text \<open>One pass: the connections that ask for no more than \<open>t\<close> get what they ask for.\<close>

fun distribute_pass :: "fpu \<Rightarrow> dbl \<Rightarrow> rcrt_conn list \<Rightarrow> dbl \<times> int \<times> bool \<Rightarrow> rcrt_conn list \<times> dbl \<times> int \<times> bool" where
  "distribute_pass F t [] (aR, aN, one) = ([], aR, aN, one)"
| "distribute_pass F t (c # cs) (aR, aN, one) =
    (if \<not> (req_irate c = 0 \<or> rc_alloc c) \<and> dle (per_second F (req_irate c)) t
     then (case distribute_pass F t cs (dsub F aR (per_second F (req_irate c)), aN - 1, True) of
             (cs', r) \<Rightarrow> (c\<lparr>cur_irate := req_irate c, rc_alloc := True\<rparr> # cs', r))
     else (case distribute_pass F t cs (aR, aN, one) of (cs', r) \<Rightarrow> (c # cs', r)))"

partial_function (option) distribute_loop :: "fpu \<Rightarrow> rcrt_conn list \<Rightarrow> dbl \<Rightarrow> int \<Rightarrow> (rcrt_conn list \<times> dbl \<times> int) option" where
  "distribute_loop F cs aR aN =
    (case distribute_pass F (ddiv F aR (d_int aN)) cs (aR, aN, False) of
       (cs', aR', aN', one) \<Rightarrow> if one then distribute_loop F cs' aR' aN' else Some (cs', aR', aN'))"

definition distribute_R :: "fpu \<Rightarrow> dbl \<Rightarrow> rcr_world \<Rightarrow> rcr_world option" where
  "distribute_R F R w =
    (if m_N w = 0 then Some w
     else do {
       (cs, aR, aN) \<leftarrow> distribute_loop F (map (\<lambda>c. c\<lparr>rc_alloc := False\<rparr>) (m_rcrtcs w)) R (m_N w);
       Some (w\<lparr>m_rcrtcs :=
         (if aN > 0
          then map (\<lambda>c. if rc_alloc c then c
                 else c\<lparr>cur_irate := rate2interval F (ddiv F aR (d_int aN)), rc_alloc := True\<rparr>) cs
          else cs)\<rparr>)
     })"

definition allocate_rate_by_rho :: "fpu \<Rightarrow> dbl \<Rightarrow> rcr_world \<Rightarrow> rcr_world" where
  "allocate_rate_by_rho F rho w =
    (if deq rho (d_int 0) then w
     else w\<lparr>m_rcrtcs := map (\<lambda>c. if req_irate c = 0 then c
        else c\<lparr>cur_irate := rate2interval F (dmul F rho (per_second F (req_irate c)))\<rparr>) (m_rcrtcs w)\<rparr>)"

definition append_dR_by_goodput :: "fpu \<Rightarrow> dbl \<Rightarrow> rcr_world \<Rightarrow> rcr_world" where
  "append_dR_by_goodput F dR w =
    (let g = (\<lambda>c. r_Rcumm (goodput c)); d = (\<lambda>c. per_second F (req_irate c));
         tot = fold (\<lambda>c tot. if req_irate c \<noteq> 0 \<and> dless (g c) (d c) then dadd F tot (dsub F (d c) (g c)) else tot)
                 (m_rcrtcs w) (d_int 0)
     in if deq tot (d_int 0) then w
        else w\<lparr>m_rcrtcs := map (\<lambda>c. if req_irate c = 0 then c
          else (let r = per_second F (cur_irate c);
                    r' = (if dless (g c) (d c) then dadd F r (dmul F dR (ddiv F (dsub F (d c) (g c)) tot)) else r)
                in c\<lparr>cur_irate := rate2interval F r'\<rparr>)) (m_rcrtcs w)\<rparr>)"

text \<open>Names and comments of two policies are exchanged.\<close>

definition allocate_rate_fairly :: "fpu \<Rightarrow> rcr_world \<Rightarrow> rcr_world option" where
  "allocate_rate_fairly F w =
    (let prev_R = recalculate_R F w
     in if fairness_policy w = RCRT_FAIR_RATIO then Some (allocate_rate_by_rho F (m_rho w) w)
        else if fairness_policy w = RCRT_FAIR_RATE then distribute_R F (m_R w) w
        else if fairness_policy w = RCRT_FAIR_RATE_W_D then Some (allocate_R_over_N F (m_R w) w)
        else if fairness_policy w = RCRT_FAIR_GOODPUT \<and> dless prev_R (m_R w)
        then Some (append_dR_by_goodput F (dsub F (m_R w) prev_R) w)
        else Some (allocate_rate_by_rho F (m_rho w) w))"

section \<open>Adapting the total rate\<close>

definition decrease_all_rate :: "fpu \<Rightarrow> timeval \<Rightarrow> dbl \<Rightarrow> rcr_world \<Rightarrow> (bool \<times> rcr_world) option" where
  "decrease_all_rate F now loss_rate w =
    (let p0 = dsub F (d_int 1) loss_rate;
         p = (if dless p0 (last_dec_p w) then ddiv F p0 (last_dec_p w) else d_int 1);
         q = ddiv F p (dsub F (d_int 2) p);
         q1 = (if dless q (d_lit F (5 / 10)) then d_lit F (5 / 10) else q);
         dec = (if dless (d_lit F (98 / 100)) q1 then d_int 1 else q1);
         R1 = dmul F dec (m_R w);
         least = ddiv F (d_int (m_N w)) (d_int 30);
         R2 = (if dless R1 least then least else R1);
         w1 = w\<lparr>last_dec_p := p, m_R := R2\<rparr>
     in if deq R2 (m_R w) then Some (False, w1)
        else do {
          w2 \<leftarrow> allocate_rate_fairly F (recalculate_rho F w1);
          Some (True, w2\<lparr>m_slowstart := False, last_rate_decrease_time_ms := gettime_ms now w2\<rparr>)
        })"

definition increase_all_rate :: "fpu \<Rightarrow> timeval \<Rightarrow> rcr_world \<Rightarrow> (bool \<times> rcr_world) option" where
  "increase_all_rate F now w =
    (let R1 = dadd F (m_R w) (if m_slowstart w then dmul F (d_int 2) R_ADDITIVE_INCREMENT else R_ADDITIVE_INCREMENT);
         R2 = (if dless (m_D w) R1 \<and> dless (d_int 0) (m_D w) then m_D w else R1);
         w1 = recalculate_rho F (w\<lparr>m_R := R2\<rparr>)
     in if deq R2 (m_R w) then Some (False, w1)
        else do {
          w2 \<leftarrow> allocate_rate_fairly F w1;
          Some (True, w2\<lparr>last_dec_p := d_int 1, last_rate_increase_time_ms := gettime_ms now w2\<rparr>)
        })"

definition is_all_connection_increasable :: "fpu \<Rightarrow> rcr_world \<Rightarrow> bool" where
  "is_all_connection_increasable F w \<longleftrightarrow>
    (\<forall>c \<in> set (m_rcrtcs w). \<not> dle (CONGESTION_L_THRESH F) (get_congestion_level c) \<and> \<not> ul_length (rc_missingList c) > 1)"

definition number_of_congested_flows :: "fpu \<Rightarrow> rcr_world \<Rightarrow> nat" where
  "number_of_congested_flows F w =
    length (filter (\<lambda>c. dle (CONGESTION_L_THRESH F) (get_congestion_level c)) (m_rcrtcs w))"

definition congestion_should_decrease_rate :: "rcrt_conn \<Rightarrow> rcr_world \<Rightarrow> bool" where
  "congestion_should_decrease_rate c w \<longleftrightarrow> \<not> u16list_isEmpty (rc_missingList c)
    \<and> dle CONGESTION_H_THRESH (get_congestion_level c) \<and> dless (last_congestion_level w) (get_congestion_level c)"

definition do_rate_control :: "fpu \<Rightarrow> timeval \<Rightarrow> rcrt_conn \<Rightarrow> u16 \<Rightarrow> rcr_world \<Rightarrow> (int \<times> rcr_world) option" where
  "do_rate_control F now c used_irate w =
    (if used_irate \<noteq> cur_irate c then Some (0, w)
     else if is_all_connection_update_time_ok F now (-1) w \<and> congestion_should_decrease_rate c w then do {
       (ok, w1) \<leftarrow> decrease_all_rate F now (a_Lavg (loss_ali c)) w;
       Some (if ok then (-1, w1\<lparr>last_congestion_level := get_congestion_level c\<rparr>) else (0, w1))
     }
     else if is_all_connection_update_time_ok F now 1 w \<and> is_all_connection_increasable F w then do {
       (ok, w1) \<leftarrow> increase_all_rate F now w;
       Some (if ok then (1, w1\<lparr>last_congestion_level := d_int 0\<rparr>) else (0, w1))
     }
     else Some (0, w))"

end
