(* ===== verification/Rcrt.thy ===== *)
theory Rcrt
  imports Rcrt_Rates
begin

text \<open>
  Model of src/master/transport/rcrtransport.c, second part: packets, connections and timers of the rate-controlled
  transport. A handler works on the connection and puts it back before it calls what goes over all
  connections; what it needs afterwards it reads again. A field of a packet that is read behind its end is \<open>None\<close>.
\<close>

section \<open>Writing\<close>

definition rcr_write :: "u16 \<Rightarrow> bytes \<Rightarrow> rcr_world \<Rightarrow> rcr_world" where
  "rcr_write addr p w = w\<lparr>rcr_sent := rcr_sent w @ [(addr, p)]\<rparr>"

definition rcr_put :: "rcrt_conn \<Rightarrow> rcr_world \<Rightarrow> rcr_world" where
  "rcr_put c w = w\<lparr>m_rcrtcs := upd_connection (m_rcrtcs w) c\<rparr>"

definition rcr_again :: "rcrt_conn \<Rightarrow> rcr_world \<Rightarrow> rcrt_conn option" where
  "rcr_again c w = find_connection (m_rcrtcs w) (c_tid c) (c_addr c)"

definition RCRT_Timer_start :: "timeval \<Rightarrow> u32 \<Rightarrow> rcrt_conn \<Rightarrow> rcrt_conn" where
  "RCRT_Timer_start now ms c = c\<lparr>alarm_time := add_ms_to_timeval now (unat ms)\<rparr>"

definition RCRT_Timer_stop :: "rcrt_conn \<Rightarrow> rcrt_conn" where
  "RCRT_Timer_stop c = c\<lparr>alarm_time := clear_timeval\<rparr>"

text \<open>The fields of a feedback packet, which are all written, behind the transport header.\<close>

definition feedback_fields :: "u16 \<Rightarrow> u16 \<Rightarrow> u16 \<Rightarrow> u16 \<Rightarrow> u16 \<Rightarrow> bytes \<Rightarrow> bytes" where
  "feedback_fields rate fid rtt cack nack_len p =
    put16le (put16le (put16le (put16le (put16le p 6 rate) 8 fid) 10 rtt) 12 cack) 14 nack_len"

definition r_send_SYN_ACK :: "timeval \<Rightarrow> rcrt_conn \<Rightarrow> rcr_world \<Rightarrow> (rcrt_conn \<times> rcr_world) option" where
  "r_send_SYN_ACK now c w =
    (case update_feedback_send_info now w c of (fid, c1) \<Rightarrow> do {
       let p = feedback_fields (cur_irate c) fid (of_nat RCRT_FEEDBACK_TIMEOUT) 0 0 (replicate 16 0);
       let h = tr_packet_setHeader p (c_tid c) 0 RCRT_FLAG_SYN_ACK 0;
       s \<leftarrow> tr_calculate_checksum h 10;
       Some (c1, rcr_write (c_addr c) (put8 h 5 s) w)
     })"

definition r_send_FIN_ACK_to :: "u16 \<Rightarrow> u16 \<Rightarrow> u16 \<Rightarrow> rcr_world \<Rightarrow> rcr_world option" where
  "r_send_FIN_ACK_to tid addr seqno w = do {
     p \<leftarrow> header_packet tid seqno RCRT_FLAG_FIN_ACK;
     Some (rcr_write addr p w)
   }"

definition r_send_FIN_ACK :: "rcrt_conn \<Rightarrow> rcr_world \<Rightarrow> rcr_world option" where
  "r_send_FIN_ACK c w = r_send_FIN_ACK_to (c_tid c) (c_addr c) (lastRecvSeqNo c) w"

text \<open>
  The loop over the first ten missing numbers with the count of those written; one that has fallen behind by the window
  is deleted and the position is looked at again.
\<close>

partial_function (option) feedback_loop ::
    "u16 \<Rightarrow> uint16list \<Rightarrow> bytes \<Rightarrow> nat \<Rightarrow> nat \<Rightarrow> (uint16list \<times> bytes \<times> nat) option" where
  "feedback_loop seq ml p i cnt =
    (if i < RCRT_NACK_MLIST_LEN then
       (if int i < ul_length ml then do {
          mitem \<leftarrow> u16list_get_ith ml (of_nat (i + 1));
          (if tr_seqno_cmp seq (tr_seqno_add mitem (of_nat TR_VALID_RANGE)) \<ge> 0 then do {
             r \<leftarrow> u16list_delete ml mitem;
             feedback_loop seq (snd r) p i cnt
           } else feedback_loop seq ml (put16le p (16 + 2 * i) mitem) (i + 1) (cnt + 1))
        } else feedback_loop seq ml (put16le p (16 + 2 * i) 0) (i + 1) cnt)
     else Some (ml, p, cnt))"

text \<open>Only the numbers written are sent.\<close>

definition send_FEEDBACK :: "fpu \<Rightarrow> timeval \<Rightarrow> rcrt_conn \<Rightarrow> rcr_world \<Rightarrow> (rcrt_conn \<times> rcr_world) option" where
  "send_FEEDBACK F now c w =
    (case update_feedback_send_info now w c of (fid, c1) \<Rightarrow> do {
       let rtt = (if deq (rc_rtt c) (d_int 0) then of_nat RCRT_FEEDBACK_TIMEOUT else d_to_u16 F (rc_rtt c));
       (ml, q, cnt) \<leftarrow> feedback_loop (lastRecvSeqNo c) (rc_missingList c) (replicate 36 0) 0 0;
       let p = take (16 + 2 * cnt) (feedback_fields (cur_irate c) fid rtt (nextAckSeqNo c) (of_nat cnt) q);
       let h = tr_packet_setHeader p (c_tid c) (lastRecvSeqNo c) RCRT_FLAG_FEEDBACK 0;
       s \<leftarrow> tr_calculate_checksum h (of_nat (10 + 2 * cnt));
       Some (c1\<lparr>fcount := fcount c + 1, rc_missingList := ml,
                next_nack_idx := (if ul_length ml \<le> 1 then 0 else (next_nack_idx c + int cnt) mod ul_length ml),
                lastSentAckSeqNo := nextAckSeqNo c\<rparr>,
             rcr_write (c_addr c) (put8 h 5 s) w)
     })"

section \<open>Receiving\<close>

text \<open>The loop of the stream transport: \<open>detect_loop\<close>.\<close>

definition r_detectMissingPacket :: "u16 \<Rightarrow> rcrt_conn \<Rightarrow> (nat \<times> rcrt_conn) option" where
  "r_detectMissingPacket seqno c =
    (if tr_seqno_cmp seqno (tr_seqno_next (lastRecvSeqNo c)) > 0 then do {
       (ml, n) \<leftarrow> detect_loop seqno (lastRecvSeqNo c) (rc_missingList c) 0;
       Some (n, c\<lparr>rc_missingList := ml, totalLostPackets := totalLostPackets c + n\<rparr>)
     } else Some (0, c))"

definition receive_rcrtransport :: "rcrt_conn \<Rightarrow> int \<Rightarrow> bytes \<Rightarrow> rcr_world \<Rightarrow> rcr_world" where
  "receive_rcrtransport c len p w = w\<lparr>rcr_up := rcr_up w @ [(c_tid c, c_addr c, take (nat len) p)]\<rparr>"

partial_function (option) rcr_dispatch ::
    "u16 \<Rightarrow> rcrt_conn \<Rightarrow> rcr_world \<Rightarrow> (rcrt_conn \<times> rcr_world) option" where
  "rcr_dispatch seqno c w = do {
     first \<leftarrow> SPList_getFirstValue (rc_plist c);
     (if first = -1 then Some (c, w)
      else if tr_seqno_cmp (word_of_int first) (rc_nextExpectedSeqNo c) = 0 then do {
        (ptr, v, len, pl) \<leftarrow> SPList_deleteFirstPacket (rc_plist c);
        p \<leftarrow> ptr;
        rcr_dispatch seqno (c\<lparr>rc_plist := pl, nextAckSeqNo := word_of_int first,
            rc_nextExpectedSeqNo := tr_seqno_next (rc_nextExpectedSeqNo c)\<rparr>)
          (receive_rcrtransport c len p w)
      }
      else if tr_seqno_cmp (word_of_int first) (rc_nextExpectedSeqNo c) < 0 then do {
        (ptr, v, len, pl) \<leftarrow> SPList_deleteFirstPacket (rc_plist c);
        rcr_dispatch seqno (c\<lparr>rc_plist := pl\<rparr>) w
      }
      else if tr_seqno_cmp seqno (word_of_int first) \<le> 0 then Some (c, w)
      else if tr_seqno_cmp seqno (tr_seqno_add (word_of_int first) (of_nat TR_VALID_RANGE)) \<ge> 0 then do {
        (ptr, v, len, pl) \<leftarrow> SPList_deleteFirstPacket (rc_plist c);
        p \<leftarrow> ptr;
        rcr_dispatch seqno (c\<lparr>rc_plist := pl, nextAckSeqNo := seqno,
            rc_nextExpectedSeqNo := tr_seqno_next (word_of_int first)\<rparr>)
          (receive_rcrtransport c len p w)
      }
      else Some (c, w))
   }"

definition receive_rtr_msg :: "rcrt_conn \<Rightarrow> u16 \<Rightarrow> bytes \<Rightarrow> rcr_world \<Rightarrow> (rcrt_conn \<times> rcr_world) option" where
  "receive_rtr_msg c seqno msg w =
    (let len = int (length msg)
     in if tr_seqno_cmp seqno (rc_nextExpectedSeqNo c) = 0 then
          rcr_dispatch seqno (c\<lparr>nextAckSeqNo := seqno, rc_nextExpectedSeqNo := tr_seqno_next (rc_nextExpectedSeqNo c)\<rparr>)
            (receive_rcrtransport c len msg w)
        else if tr_seqno_cmp seqno (rc_nextExpectedSeqNo c) < 0 then rcr_dispatch seqno c w
        else if SPList_find (rc_plist c) (int (unat seqno)) < 0 then do {
          pl \<leftarrow> SPList_insert (rc_plist c) (int (unat seqno)) msg len;
          rcr_dispatch seqno (c\<lparr>rc_plist := pl\<rparr>) w
        }
        else rcr_dispatch seqno c w)"

definition abs_d :: "fpu \<Rightarrow> dbl \<Rightarrow> dbl" where
  "abs_d F a = (if dless (d_int 0) a then a else dmul F (d_int (-1)) a)"

definition find_fid :: "u16 \<Rightarrow> rcrt_conn \<Rightarrow> nat option" where
  "find_fid fid c =
    find (\<lambda>i. feedback_senttime c ! i \<noteq> 0 \<and> feedback_fid_list c ! i \<noteq> 0 \<and> fid = feedback_fid_list c ! i) [0..<FID_LIST_LEN]"

definition update_rtt_estimate :: "fpu \<Rightarrow> timeval \<Rightarrow> u32 \<Rightarrow> u16 \<Rightarrow> rcr_world \<Rightarrow> rcrt_conn \<Rightarrow> rcrt_conn" where
  "update_rtt_estimate F now interval fid w c =
    (case find_fid fid c of
       None \<Rightarrow> c
     | Some i \<Rightarrow>
         let diff = gettime_ms now w - feedback_senttime c ! i
         in if interval = 0 \<or> interval > diff
            then c\<lparr>feedback_fid_list := (feedback_fid_list c)[i := 0], feedback_senttime := (feedback_senttime c)[i := 0]\<rparr>
            else
              let est = diff - interval; e = d_int (uint est);
                  c1 = (if fid > feedback_fid_mote c \<and> uint fid - uint (feedback_fid_mote c) < 20
                        then c\<lparr>feedback_fid_mote := fid\<rparr> else c)
              in if est > 30000 then c1
                 else if deq (rc_rtt c1) (d_int 0) then c1\<lparr>rc_rtt := e, rc_rttvar := d_int 0\<rparr>
                 else if number_of_congested_flows F w = 0 then
                   (let rtt = dadd F (dmul F (RTT_EWMA_ALPHA F) e)
                                (dmul F (dsub F (d_int 1) (RTT_EWMA_ALPHA F)) (rc_rtt c1))
                    in c1\<lparr>rc_rtt := rtt,
                         rc_rttvar := dadd F (dmul F (RTT_EWMA_BETA F) (abs_d F (dsub F e rtt)))
                           (dmul F (dsub F (d_int 1) (RTT_EWMA_BETA F)) (rc_rttvar c1))\<rparr>)
                 else c1)"

section \<open>Connections\<close>

definition rcrtransport_tid_is_alive :: "u16 \<Rightarrow> rcr_world \<Rightarrow> bool" where
  "rcrtransport_tid_is_alive tid w \<longleftrightarrow> list_ex (\<lambda>c. c_tid c = tid) (m_rcrtcs w)"

definition adjust_rates_at_node_join :: "fpu \<Rightarrow> timeval \<Rightarrow> u16 \<Rightarrow> rcr_world \<Rightarrow> rcr_world option" where
  "adjust_rates_at_node_join F now req w =
    (let w1 = (if deq (m_R w) (d_int 0) \<or> m_N w = 0 \<or> m_slowstart w \<and> dle (m_R w) (d_int 25)
               then w\<lparr>m_R := dadd F (m_R w)
                 (if dless (d_int (uint req)) (ddiv F (d_int 1000) (RCRT_INIT_RATE F)) then RCRT_INIT_RATE F
                  else per_second F req)\<rparr>
               else w);
         w2 = (if req \<noteq> 0 then w1\<lparr>m_D := dadd F (m_D w1) (per_second F req)\<rparr> else w1);
         w3 = recalculate_rho F w2
     in do {
       w4 \<leftarrow> allocate_rate_fairly F (w3\<lparr>m_N := m_N w3 + 1\<rparr>);
       Some (w4\<lparr>last_rate_increase_time_ms := gettime_ms now w4\<rparr>)
     })"

text \<open>
  As for the stream transport, a connection that exists already would close a cycle. The record \<open>loss_ali\<close> and the fields that
  nobody writes, \<open>feedback_fid_mote\<close> and at first \<open>cur_irate\<close>, keep what \<open>malloc\<close> returned.
\<close>

definition create_rcrt_connection :: "rcr_env \<Rightarrow> u16 \<Rightarrow> u16 \<Rightarrow> u16 \<Rightarrow> rcr_world \<Rightarrow> rcr_world option" where
  "create_rcrt_connection e tid srcAddr req_rate w =
    (if find_connection (m_rcrtcs w) tid srcAddr \<noteq> None then None
     else
       let w1 = (if bootup_time_ms w = 0 then w\<lparr>bootup_time_ms := of_nat (gettimeofday_ms (v_now e)) - 1\<rparr> else w);
           req = (if req_rate = 0 then 20 else req_rate);
           cs = add_connection (m_rcrtcs w1) (v_mem e) tid srcAddr;
           c = (hd cs)\<lparr>pktrate := init_packetrate, goodput := init_packetrate, loss_ewma := init_loss_ewma,
                 loss_ali := init_loss_ali (loss_ali (v_mem e)), connection_type := PROTOCOL_RCR_TRANSPORT,
                 lastRecvSeqNo := 0, lastSentAckSeqNo := 0, nextAckSeqNo := 0, rc_nextExpectedSeqNo := 1,
                 rc_state := RCRT_S_ACTIVE, rc_deletePending := False, rc_timeoutCount := 0, congestion_ewma := d_int 0,
                 feedback_fid_list := replicate FID_LIST_LEN 0, feedback_senttime := replicate FID_LIST_LEN 0,
                 feedback_fid := 0, feedback_idx := -1, last_feedback_time := 0, next_nack_idx := 0,
                 rc_rtt := d_int 0, rc_rttvar := d_int 0, rc_alloc := False, fcount := 0, totalRetxPackets := 0,
                 rc_missingList := u16list_init (rc_missingList (v_mem e)), rc_plist := SPList_init (rc_plist (v_mem e)),
                 req_irate := req\<rparr>
       in adjust_rates_at_node_join (v_fpu e) (v_now e) req
            (w1\<lparr>m_rcrtcs := c # tl cs, m_num_rtrc := m_num_rtrc w1 + 1\<rparr>))"

definition finish_rcrt_connection :: "fpu \<Rightarrow> timeval \<Rightarrow> rcrt_conn \<Rightarrow> rcr_world \<Rightarrow> rcr_world" where
  "finish_rcrt_connection F now c w =
    (let w1 = (if rc_deletePending c \<and> \<not> rcrtransport_tid_is_alive (c_tid c) w
               then w\<lparr>rcr_deleted := rcr_deleted w @ [c_tid c]\<rparr> else w);
         w2 = w1\<lparr>m_R := dsub F (m_R w1) (per_second F (cur_irate c))\<rparr>;
         w3 = (if fairness_policy w2 \<noteq> RCRT_FAIR_RATE \<and> req_irate c \<noteq> 0 then
                 (let d = dsub F (m_D w2) (per_second F (req_irate c))
                  in w2\<lparr>m_D := d, m_R := (if dless d (m_R w2) then d else m_R w2)\<rparr>)
               else w2);
         w4 = w3\<lparr>m_N := m_N w3 - 1\<rparr>;
         w5 = (if m_N w4 = 0 then w4\<lparr>m_slowstart := True, m_D := d_int 0, m_R := d_int 0\<rparr> else w4);
         w6 = recalculate_rho F w5
     in w6\<lparr>last_rate_decrease_time_ms := gettime_ms now w6\<rparr>)"

definition delete_rcrt_connection :: "fpu \<Rightarrow> timeval \<Rightarrow> rcrt_conn \<Rightarrow> rcr_world \<Rightarrow> rcr_world" where
  "delete_rcrt_connection F now c w =
    (let w1 = finish_rcrt_connection F now c w
     in w1\<lparr>m_num_rtrc := m_num_rtrc w1 - 1, m_rcrtcs := remove_connection (m_rcrtcs w1) (c_tid c) (c_addr c)\<rparr>)"

fun rcr_terminate_loop :: "rcrt_conn list \<Rightarrow> int \<Rightarrow> rcrt_conn list \<times> int" where
  "rcr_terminate_loop [] n = ([], n)"
| "rcr_terminate_loop (c # cs) n = rcr_terminate_loop cs (n - 1)"

definition rcrtransport_terminate :: "rcr_world \<Rightarrow> rcr_world" where
  "rcrtransport_terminate w =
    (case rcr_terminate_loop (m_rcrtcs w) (m_num_rtrc w) of (cs, n) \<Rightarrow> w\<lparr>m_rcrtcs := cs, m_num_rtrc := n\<rparr>)"

text \<open>The loop stands at a position of the list; a deleted connection leaves it where it is.\<close>

partial_function (option) rcr_delete_loop ::
    "fpu \<Rightarrow> timeval \<Rightarrow> u16 \<Rightarrow> nat \<Rightarrow> int \<Rightarrow> rcr_world \<Rightarrow> (int \<times> rcr_world) option" where
  "rcr_delete_loop F now tid i result w =
    (if i < length (m_rcrtcs w) then
       (let c = m_rcrtcs w ! i; r = (if result = 0 then 1 else result)
        in if c_tid c = tid then
             (if totalRecvPackets c = 0 then rcr_delete_loop F now tid i r (delete_rcrt_connection F now c w)
              else rcr_delete_loop F now tid (i + 1) (-1)
                (w\<lparr>m_rcrtcs := (m_rcrtcs w)[i :=
                   (if tv_sec (alarm_time c) = 0 then RCRT_Timer_start now (of_nat RCRT_CONNECTION_TIMEOUT) c else c)
                     \<lparr>rc_deletePending := True\<rparr>]\<rparr>))
           else rcr_delete_loop F now tid (i + 1) result w)
     else Some (result, w))"

definition rcrtransport_delete_tid :: "rcr_env \<Rightarrow> u16 \<Rightarrow> rcr_world \<Rightarrow> (int \<times> rcr_world) option" where
  "rcrtransport_delete_tid e tid w =
    (if m_num_rtrc w = 0 then Some (0, w) else rcr_delete_loop (v_fpu e) (v_now e) tid 0 0 w)"

section \<open>Handlers\<close>

text \<open>The fields of a data packet behind the transport header: rate, feedback number, interval, data.\<close>

definition get32le :: "bytes \<Rightarrow> nat \<Rightarrow> u32" where
  "get32le p i = of_nat (unat (get16le p i) + 65536 * unat (get16le p (i + 2)))"

definition rmsg_rate :: "bytes \<Rightarrow> u16 option" where
  "rmsg_rate payload = (if length payload < 2 then None else Some (get16le payload 0))"

definition rcr_receive_syn :: "rcr_env \<Rightarrow> u16 \<Rightarrow> u16 \<Rightarrow> bytes \<Rightarrow> rcr_world \<Rightarrow> rcr_world option" where
  "rcr_receive_syn e tid srcAddr payload w = do {
     w1 \<leftarrow> (case find_connection (m_rcrtcs w) tid srcAddr of
              Some c \<Rightarrow> Some w
            | None \<Rightarrow> do {
                rate \<leftarrow> rmsg_rate payload;
                create_rcrt_connection e tid srcAddr rate w
              });
     c \<leftarrow> find_connection (m_rcrtcs w1) tid srcAddr;
     (c1, w2) \<leftarrow> r_send_SYN_ACK (v_now e) c w1;
     Some (rcr_put c1 w2)
   }"

definition rcr_receive_fin :: "rcr_env \<Rightarrow> u16 \<Rightarrow> u16 \<Rightarrow> u16 \<Rightarrow> rcr_world \<Rightarrow> rcr_world option" where
  "rcr_receive_fin e tid srcAddr seqno w =
    (case find_connection (m_rcrtcs w) tid srcAddr of
       None \<Rightarrow> r_send_FIN_ACK_to tid srcAddr seqno w
     | Some c0 \<Rightarrow> do {
         c \<leftarrow> (if tr_seqno_cmp seqno (lastRecvSeqNo c0) > 0 then do {
                 (n, c1) \<leftarrow> r_detectMissingPacket seqno c0;
                 Some (c1\<lparr>lastRecvSeqNo := seqno\<rparr>)
               } else Some c0);
         (if u16list_isEmpty (rc_missingList c) then do {
            w1 \<leftarrow> r_send_FIN_ACK c w;
            Some (delete_rcrt_connection (v_fpu e) (v_now e) c (rcr_put c w1))
          }
          else do {
            (c1, w1) \<leftarrow> send_FEEDBACK (v_fpu e) (v_now e)
              (if rc_state c \<noteq> RCRT_S_FIN_RETX_WAIT
               then c\<lparr>rc_state := RCRT_S_FIN_RETX_WAIT, rc_timeoutCount := 0\<rparr> else c) w;
            Some (rcr_put (RCRT_Timer_start (v_now e) (feedback_timeout (v_fpu e) c1) c1) w1)
          })
       })"

text \<open>What every packet changes before its data are looked at: missing numbers and estimates.\<close>

definition rcr_note_seqno :: "rcr_env \<Rightarrow> u8 \<Rightarrow> u16 \<Rightarrow> rcrt_conn \<Rightarrow> (nat \<times> rcrt_conn) option" where
  "rcr_note_seqno e flag seqno c = do {
     c1 \<leftarrow> (if (flag AND RCRT_FLAG_RETX) \<noteq> 0 \<or> tr_seqno_cmp seqno (lastRecvSeqNo c) < 0 then do {
              r \<leftarrow> u16list_delete (rc_missingList c) seqno;
              Some (c\<lparr>rc_missingList := snd r\<rparr>)
            } else Some c);
     (if tr_seqno_cmp seqno (lastRecvSeqNo c1) > 0 then do {
        (n, c2) \<leftarrow> r_detectMissingPacket seqno c1;
        Some (n, c2\<lparr>pktrate := update_packetrate (v_fpu e) (v_now e) (v_junk e) (int n + 1) (pktrate c2),
          loss_ewma := update_loss_ewma (v_fpu e) (v_now e) (v_junk e) (lastRecvSeqNo c2) seqno (loss_ewma c2),
          loss_ali := update_loss_ali (v_fpu e) (lastRecvSeqNo c2) seqno (loss_ali c2), lastRecvSeqNo := seqno\<rparr>)
      } else Some (0, c1))
   }"

text \<open>
  A packet that is new: it is handed up or kept, and its rate may change all rates. Shorter than its fields it has a
  negative length, and the log reads its first four data bytes.
\<close>

definition rcr_new_packet ::
    "rcr_env \<Rightarrow> u8 \<Rightarrow> u16 \<Rightarrow> bytes \<Rightarrow> rcrt_conn \<Rightarrow> rcr_world \<Rightarrow> (int \<times> rcrt_conn \<times> rcr_world) option" where
  "rcr_new_packet e flag seqno payload c w =
    (if length payload < 8 then None
     else
       let F = v_fpu e; now = v_now e;
           c1 = update_rtt_estimate F now (get32le payload 4) (get16le payload 2) (rcr_put c w)
                  (c\<lparr>rc_timeoutCount := 0\<rparr>)
       in do {
         (c2, w2) \<leftarrow> receive_rtr_msg c1 seqno (drop 8 payload) w;
         let c3 = update_congestion_level F (c2\<lparr>goodput := update_packetrate F now (v_junk e) 1 (goodput c2),
                    totalRetxPackets := (if (flag AND RCRT_FLAG_RETX) \<noteq> 0 then totalRetxPackets c2 + 1
                                         else totalRetxPackets c2)\<rparr>);
         let w3 = rcr_put c3 w2;
         (r, w4) \<leftarrow> (if (flag AND RCRT_FLAG_RETX) = 0 then do_rate_control F now c3 (get16le payload 0) w3
                     else Some (0, w3));
         c4 \<leftarrow> rcr_again c3 w4;
         _ \<leftarrow> log_rcrt_packet (drop 8 payload);
         Some (r, c4, w4)
       })"

definition rcr_wants_feedback ::
    "rcr_env \<Rightarrow> u8 \<Rightarrow> u16 \<Rightarrow> bytes \<Rightarrow> nat \<Rightarrow> int \<Rightarrow> rcrt_conn \<Rightarrow> rcr_world \<Rightarrow> bool option" where
  "rcr_wants_feedback e flag seqno payload missingCnt rate_control c w =
    (if missingCnt > 0 \<or> rate_control < 0 then Some True
     else if is_feedback_time_ok (v_fpu e) (v_now e) w c then
       (if tr_seqno_cmp seqno (lastSentAckSeqNo c) \<le> 0 then Some True
        else do {
          rate \<leftarrow> rmsg_rate payload;
          Some (if cur_irate c \<noteq> rate \<and> v_coin_rate e then True
                else (flag AND RCRT_FLAG_ACK_REQ) \<noteq> 0 \<and> v_coin_ack e)
        })
     else Some False)"

definition rcr_data_tail :: "rcr_env \<Rightarrow> bool \<Rightarrow> rcrt_conn \<Rightarrow> rcr_world \<Rightarrow> rcr_world option" where
  "rcr_data_tail e send c w =
    (if u16list_isEmpty (rc_missingList c) \<and> rc_state c = RCRT_S_FIN_RETX_WAIT then do {
       w1 \<leftarrow> r_send_FIN_ACK c w;
       Some (delete_rcrt_connection (v_fpu e) (v_now e) c (rcr_put c w1))
     }
     else
       let c1 = (if u16list_isEmpty (rc_missingList c)
                 then (if rc_state c = RCRT_S_NACK_WAIT then c\<lparr>rc_state := RCRT_S_ACTIVE\<rparr> else c)
                 else (if rc_state c = RCRT_S_ACTIVE then c\<lparr>rc_state := RCRT_S_NACK_WAIT\<rparr> else c))
       in if send then do {
            (c2, w2) \<leftarrow> send_FEEDBACK (v_fpu e) (v_now e) c1 w;
            Some (rcr_put (if tv_sec (alarm_time c2) = 0
              then RCRT_Timer_start (v_now e) (feedback_timeout (v_fpu e) c2) c2 else c2) w2)
          }
          else Some (rcr_put c1 w))"

definition rcr_receive_data :: "rcr_env \<Rightarrow> u8 \<Rightarrow> u16 \<Rightarrow> u16 \<Rightarrow> u16 \<Rightarrow> bytes \<Rightarrow> rcr_world \<Rightarrow> rcr_world option" where
  "rcr_receive_data e flag tid srcAddr seqno payload w =
    (case find_connection (m_rcrtcs w) tid srcAddr of
       None \<Rightarrow> Some w
     | Some c0 \<Rightarrow>
         if tr_seqno_cmp seqno (lastRecvSeqNo c0) > 0 \<and> tr_seqno_diff seqno (lastRecvSeqNo c0) > 100 then Some w
         else do {
           let newpkt = (tr_seqno_cmp seqno (rc_nextExpectedSeqNo c0) \<ge> 0 \<and> SPList_find (rc_plist c0) (int (unat seqno)) < 0);
           let c1 = (if newpkt then c0\<lparr>totalRecvPackets := totalRecvPackets c0 + 1\<rparr> else c0);
           (missingCnt, c2) \<leftarrow> rcr_note_seqno e flag seqno c1;
           (rate_control, c3, w3) \<leftarrow> (if newpkt then rcr_new_packet e flag seqno payload c2 w else Some (0, c2, w));
           send \<leftarrow> rcr_wants_feedback e flag seqno payload missingCnt rate_control c3 w3;
           rcr_data_tail e send c3 w3
         })"

text \<open>The length goes to the checksum as a \<open>uint8_t\<close>.\<close>

definition rcrtransport_receive :: "rcr_env \<Rightarrow> bytes \<Rightarrow> u16 \<Rightarrow> rcr_world \<Rightarrow> rcr_world option" where
  "rcrtransport_receive e packet srcAddr w =
    (if length packet < 6 then Some w
     else do {
       ok \<leftarrow> tr_checksum_check packet (of_nat (length packet - 6));
       let seqno = tr_packet_getSeqno packet;
       let tid = tr_packet_getTid packet;
       let flag = tr_packet_getFlag packet;
       let payload = tr_packet_getPayload packet;
       (if ok < 0 then Some w
        else if flag = RCRT_FLAG_SYN then rcr_receive_syn e tid srcAddr payload w
        else if flag = RCRT_FLAG_FIN then rcr_receive_fin e tid srcAddr seqno w
        else if flag \<in> {RCRT_FLAG_DATA, RCRT_FLAG_DATA OR RCRT_FLAG_ACK_REQ,
            RCRT_FLAG_DATA_RETX, RCRT_FLAG_DATA_RETX OR RCRT_FLAG_ACK_REQ}
        then rcr_receive_data e flag tid srcAddr seqno payload w
        else Some w)
     })"

section \<open>Timers\<close>

text \<open>
  While numbers are missing a timeout asks for them again. In the state ACTIVE only a connection that is to be deleted counts
  its timeouts; when it is deleted the handler goes on in its freed memory.
\<close>

definition RCRT_Timer_fired :: "rcr_env \<Rightarrow> rcrt_conn \<Rightarrow> rcr_world \<Rightarrow> rcr_world option" where
  "RCRT_Timer_fired e c0 w =
    (let F = v_fpu e; now = v_now e; c = RCRT_Timer_stop c0 in
     if rc_state c = RCRT_S_ACTIVE then
       (if rc_deletePending c then
          (let c1 = c\<lparr>rc_timeoutCount := rc_timeoutCount c + 1\<rparr>
           in if rc_timeoutCount c1 \<ge> RCRT_MAX_ALIVE_TIMEOUT \<or> totalRecvPackets c1 = 0 then None
              else Some (rcr_put (RCRT_Timer_start now (of_nat RCRT_CONNECTION_TIMEOUT) c1) w))
        else Some (rcr_put c w))
     else
       let c1 = c\<lparr>rc_timeoutCount := rc_timeoutCount c + 1\<rparr> in
       if rc_deletePending c1 then
         Some (if rc_timeoutCount c1 \<ge> RCRT_MAX_ALIVE_TIMEOUT then delete_rcrt_connection F now c1 (rcr_put c1 w)
               else rcr_put (RCRT_Timer_start now (of_nat RCRT_CONNECTION_TIMEOUT) c1) w)
       else do {
         let c2 = update_congestion_level F c1;
         let w2 = rcr_put c2 w;
         (c3, w3) \<leftarrow> (if rc_timeoutCount c2 \<ge> 2 \<and> is_all_connection_update_time_ok F now (-1) w2
                        \<and> congestion_should_decrease_rate c2 w2
                      then do {
                        (ok, v) \<leftarrow> decrease_all_rate F now (a_Lavg (loss_ali c2)) w2;
                        c3 \<leftarrow> rcr_again c2 v;
                        Some (c3\<lparr>rc_timeoutCount := 0\<rparr>,
                              (if ok then v\<lparr>last_congestion_level := get_congestion_level c2\<rparr> else v))
                      } else Some (c2, w2));
         (c4, w4) \<leftarrow> send_FEEDBACK F now c3 w3;
         Some (rcr_put (RCRT_Timer_start now (feedback_timeout F c4) c4) w4)
       })"

definition polling_rcrtransport_timer :: "rcr_env \<Rightarrow> rcr_world \<Rightarrow> rcr_world option" where
  "polling_rcrtransport_timer e w =
    (case find (\<lambda>c. tv_sec (alarm_time c) > 0 \<and> compare_timeval (alarm_time c) (v_now e) \<le> 0) (m_rcrtcs w) of
       None \<Rightarrow> Some w
     | Some c \<Rightarrow> RCRT_Timer_fired e c w)"

end
