(* ===== verification/Rcrt_Control.thy ===== *)
theory Rcrt_Control
  imports Rcrt
begin

text \<open>
  What the rate control of src/master/transport/rcrtransport.c guarantees: the sharing of the total rate ends, whatever the
  arithmetic, and is max-min fair when the arithmetic is exact; the total rate stays within its bounds.
\<close>

section \<open>Sharing out\<close>

abbreviation unserved :: "rcrt_conn list \<Rightarrow> nat" where
  "unserved cs \<equiv> length (filter (\<lambda>c. \<not> rc_alloc c) cs)"

lemma distribute_pass_unserved:
  "distribute_pass F t cs (aR, aN, one) = (cs', aR', aN', one') \<Longrightarrow>
    unserved cs' \<le> unserved cs \<and> (one' \<longrightarrow> one \<or> unserved cs' < unserved cs)"
proof (induction cs arbitrary: aR aN one cs')
  case (Cons c cs)
  then show ?case
    by (fastforce split: if_split_asm prod.split_asm)
qed simp

lemma distribute_loop_total: "\<exists>r. distribute_loop F cs aR aN = Some r"
proof (induction "unserved cs" arbitrary: cs aR aN rule: less_induct)
  case less
  obtain cs' aR' aN' one where p:
    "distribute_pass F (ddiv F aR (d_int aN)) cs (aR, aN, False) = (cs', aR', aN', one)"
    by (metis prod_cases4)
  show ?case
  proof (cases one)
    case True
    then have "unserved cs' < unserved cs" using distribute_pass_unserved [OF p] by simp
    then show ?thesis using less [of cs' aR' aN'] p True by (simp add: distribute_loop.simps [of F cs])
  qed (simp add: distribute_loop.simps [of F cs] p)
qed

lemma distribute_R_total: "\<exists>w'. distribute_R F R w = Some w'"
  using distribute_loop_total [of F "map (\<lambda>c. c\<lparr>rc_alloc := False\<rparr>) (m_rcrtcs w)" R "m_N w"]
  by (auto simp: distribute_R_def)


text \<open>With exact arithmetic: what a connection asks for per second, and whether a share satisfies it.\<close>

definition wish :: "rcrt_conn \<Rightarrow> rat" where
  "wish c = 1000 / of_int (uint (req_irate c))"

definition content :: "rat \<Rightarrow> rcrt_conn \<Rightarrow> bool" where
  "content s c \<longleftrightarrow> req_irate c \<noteq> 0 \<and> wish c \<le> s"

definition share :: "rat \<Rightarrow> rcrt_conn \<Rightarrow> rat" where
  "share s c = (if content s c then wish c else s)"

definition serve :: "rat \<Rightarrow> rcrt_conn \<Rightarrow> rcrt_conn" where
  "serve t c = (if \<not> rc_alloc c \<and> content t c then c\<lparr>cur_irate := req_irate c, rc_alloc := True\<rparr> else c)"

lemma per_second_exact: "irate \<noteq> 0 \<Longrightarrow> per_second exact irate = Fin (1000 / of_int (uint irate))"
  by (simp add: per_second_def d_int_def unsigned_eq_0_iff)

abbreviation newly :: "rat \<Rightarrow> rcrt_conn list \<Rightarrow> rcrt_conn list" where
  "newly t cs \<equiv> filter (\<lambda>c. \<not> rc_alloc c \<and> content t c) cs"

lemma distribute_pass_exact:
  "distribute_pass exact (Fin t) cs (Fin a, n, one)
    = (map (serve t) cs, Fin (a - sum_list (map wish (newly t cs))), n - int (length (newly t cs)),
       one \<or> newly t cs \<noteq> [])"
proof (induction cs arbitrary: a n one)
  case (Cons c cs)
  have ps: "per_second exact (req_irate c) = Fin (wish c)" if "req_irate c \<noteq> 0"
    using that by (simp add: per_second_exact wish_def)
  show ?case
    by (cases "rc_alloc c"; cases "req_irate c = 0"; cases "wish c \<le> t")
      (simp_all add: Cons ps dsub_def content_def serve_def algebra_simps)
qed simp

lemma distribute_pass_served:
  "unserved cs = 0 \<Longrightarrow> distribute_pass F t cs (aR, aN, one) = (cs, aR, aN, one)"
  by (induction cs) (auto split: if_split_asm)

lemma sum_list_le: "\<forall>x \<in> set xs. f x \<le> (t :: rat) \<Longrightarrow> sum_list (map f xs) \<le> of_nat (length xs) * t"
  by (induction xs) (auto simp: algebra_simps)

definition served_ok :: "rat \<Rightarrow> rcrt_conn list \<Rightarrow> rat \<Rightarrow> bool" where
  "served_ok R cs a \<longleftrightarrow> 0 \<le> a
    \<and> a + sum_list (map wish (filter rc_alloc cs)) = R
    \<and> (\<forall>c \<in> set cs. rc_alloc c \<longrightarrow> cur_irate c = req_irate c \<and> req_irate c \<noteq> 0 \<and> wish c * of_nat (unserved cs) \<le> a)"

lemma unserved_serve: "unserved cs = length (newly t cs) + unserved (map (serve t) cs)"
  by (induction cs) (auto simp: serve_def)

lemma sum_serve: "sum_list (map wish (filter rc_alloc (map (serve t) cs)))
    = sum_list (map wish (filter rc_alloc cs)) + sum_list (map wish (newly t cs))"
  by (induction cs) (auto simp: serve_def wish_def)

lemma serve_ok:
  assumes ok: "served_ok R cs a" and n: "unserved cs > 0"
  defines "t \<equiv> a / of_nat (unserved cs)"
  shows "served_ok R (map (serve t) cs) (a - sum_list (map wish (newly t cs)))"
proof -
  let ?n = "of_nat (unserved cs) :: rat" and ?k = "of_nat (length (newly t cs)) :: rat"
    and ?m = "of_nat (unserved (map (serve t) cs)) :: rat"
  have a: "a = ?n * t" using n by (simp add: t_def)
  have nk: "?n = ?k + ?m" using unserved_serve [of cs t] by simp
  have t0: "0 \<le> t" using ok by (simp add: served_ok_def t_def)
  have le: "sum_list (map wish (newly t cs)) \<le> ?k * t"
    by (rule sum_list_le) (simp add: content_def)
  have rest: "?m * t \<le> a - sum_list (map wish (newly t cs))"
    using le nk a by (simp add: algebra_simps)
  have "wish c * ?m \<le> ?m * t" "cur_irate c = req_irate c" "req_irate c \<noteq> 0"
    if c: "c \<in> set (map (serve t) cs)" "rc_alloc c" for c
  proof -
    obtain d where d: "d \<in> set cs" "c = serve t d" using c(1) by auto
    have "wish c \<le> t \<and> cur_irate c = req_irate c \<and> req_irate c \<noteq> 0"
    proof (cases "rc_alloc d")
      case True
      then have "wish d * ?n \<le> a" "cur_irate d = req_irate d" "req_irate d \<noteq> 0"
        using ok d(1) unfolding served_ok_def by blast+
      moreover have "0 < ?n" using n by simp
      ultimately show ?thesis using True d(2) by (simp add: serve_def t_def field_simps)
    next
      case False
      then have "content t d" using c(2) d(2) by (auto simp: serve_def split: if_split_asm)
      then show ?thesis using False d(2) by (simp add: serve_def content_def wish_def)
    qed
    then show "wish c * ?m \<le> ?m * t" "cur_irate c = req_irate c" "req_irate c \<noteq> 0"
      using mult_right_mono [of "wish c" t ?m, OF _ of_nat_0_le_iff] unfolding mult.commute [of ?m] by blast+
  qed
  then have "\<forall>c \<in> set (map (serve t) cs). rc_alloc c \<longrightarrow> cur_irate c = req_irate c \<and> req_irate c \<noteq> 0
      \<and> wish c * ?m \<le> a - sum_list (map wish (newly t cs))"
    using rest order_trans by blast
  moreover have "0 \<le> ?m * t" using t0 by (intro mult_nonneg_nonneg of_nat_0_le_iff)
  then have "0 \<le> a - sum_list (map wish (newly t cs))" using rest by (rule order_trans)
  moreover have "a - sum_list (map wish (newly t cs)) + sum_list (map wish (filter rc_alloc (map (serve t) cs))) = R"
    using ok unfolding sum_serve served_ok_def by linarith
  ultimately show ?thesis unfolding served_ok_def by blast
qed


text \<open>The loop ends with a share that leaves exactly the rest discontent.\<close>

abbreviation unrated :: "rcrt_conn \<Rightarrow> rcrt_conn" where
  "unrated c \<equiv> c\<lparr>cur_irate := 0, rc_alloc := True\<rparr>"

lemma unrated_serve [simp]: "unrated (serve t c) = unrated c"
  by (simp add: serve_def)

lemma distribute_loop_exact:
  assumes "served_ok R cs a"
  shows "\<exists>cs' a'. distribute_loop exact cs (Fin a) (int (unserved cs)) = Some (cs', Fin a', int (unserved cs'))
    \<and> served_ok R cs' a' \<and> (\<forall>c \<in> set cs'. \<not> rc_alloc c \<longrightarrow> \<not> content (a' / of_nat (unserved cs')) c)
    \<and> map unrated cs' = map unrated cs"
  using assms
proof (induction "unserved cs" arbitrary: cs a rule: less_induct)
  case less
  let ?n = "unserved cs"
  let ?t = "a / of_nat ?n"
  show ?case
  proof (cases "?n > 0")
    case False
    then have all: "\<forall>c \<in> set cs. rc_alloc c" by (simp add: filter_empty_conv)
    have "distribute_loop exact cs (Fin a) (int ?n) = Some (cs, Fin a, int ?n)"
      using False distribute_pass_served [of cs] by (simp add: distribute_loop.simps [of exact cs])
    then show ?thesis using less.prems all by (intro exI [of _ cs] exI [of _ a]) simp
  next
    case True
    have t: "ddiv exact (Fin a) (d_int (int ?n)) = Fin ?t" using True by (simp add: d_int_def)
    let ?cs = "map (serve ?t) cs" and ?a = "a - sum_list (map wish (newly ?t cs))"
    have n: "int ?n - int (length (newly ?t cs)) = int (unserved ?cs)"
      using unserved_serve [of cs ?t] by simp
    have pass: "distribute_pass exact (Fin ?t) cs (Fin a, int ?n, False)
        = (?cs, Fin ?a, int (unserved ?cs), newly ?t cs \<noteq> [])"
      using distribute_pass_exact [of ?t cs a "int ?n" False] unfolding n by simp
    have ok: "served_ok R ?cs ?a" by (rule serve_ok [OF less.prems True])
    have same: "map unrated ?cs = map unrated cs" by (simp add: comp_def del: filter_map)
    show ?thesis
    proof (cases "newly ?t cs = []")
      case True
      then have cs: "?cs = cs" by (auto simp: filter_empty_conv serve_def intro!: map_idI)
      have "distribute_loop exact cs (Fin a) (int ?n) = Some (cs, Fin a, int ?n)"
        using pass True unfolding cs by (simp add: distribute_loop.simps [of exact cs] t)
      then show ?thesis using less.prems True
        by (intro exI [of _ cs] exI [of _ a]) (auto simp: filter_empty_conv)
    next
      case False
      then have "0 < length (newly ?t cs)" by (rule length_greater_0_conv [THEN iffD2])
      then have "unserved ?cs < ?n" using unserved_serve [of cs ?t] by linarith
      from less.hyps [OF this ok] obtain cs' a' where r:
        "distribute_loop exact ?cs (Fin ?a) (int (unserved ?cs)) = Some (cs', Fin a', int (unserved cs'))"
        "served_ok R cs' a'" "\<forall>c \<in> set cs'. \<not> rc_alloc c \<longrightarrow> \<not> content (a' / of_nat (unserved cs')) c"
        "map unrated cs' = map unrated cs"
        unfolding same by (elim exE conjE) (rule that)
      have "distribute_loop exact cs (Fin a) (int ?n) = distribute_loop exact ?cs (Fin ?a) (int (unserved ?cs))"
        unfolding distribute_loop.simps [of exact cs] t pass using False by simp
      then show ?thesis using r by (intro exI [of _ cs'] exI [of _ a']) simp
    qed
  qed
qed

definition fair_rates :: "rat \<Rightarrow> rcrt_conn list \<Rightarrow> rcrt_conn list" where
  "fair_rates s cs = map (\<lambda>c. c\<lparr>cur_irate := (if content s c then req_irate c else rate2interval exact (Fin s)),
      rc_alloc := True\<rparr>) cs"

lemma content_cong [simp]: "content s (c\<lparr>cur_irate := r\<rparr>) = content s c" "content s (c\<lparr>rc_alloc := b\<rparr>) = content s c"
  "share s (c\<lparr>cur_irate := r\<rparr>) = share s c" "share s (c\<lparr>rc_alloc := b\<rparr>) = share s c"
  by (simp_all add: content_def wish_def share_def)

lemma fair_rates_unrated: "fair_rates s cs = fair_rates s (map unrated cs)"
  by (simp add: fair_rates_def)

lemma shares_unrated: "map (share s) cs = map (share s) (map unrated cs)"
  by simp

lemma shares_sum:
  assumes "\<forall>c \<in> set cs. rc_alloc c \<longleftrightarrow> content s c"
  shows "sum_list (map (share s) cs) = sum_list (map wish (filter rc_alloc cs)) + of_nat (unserved cs) * s"
  using assms by (induction cs) (auto simp: share_def algebra_simps)

lemma distribute_R_fair:
  assumes "m_N w = int (length (m_rcrtcs w))" "0 \<le> R"
  shows "\<exists>s. distribute_R exact (Fin R) w = Some (w\<lparr>m_rcrtcs := fair_rates s (m_rcrtcs w)\<rparr>)
    \<and> sum_list (map (share s) (m_rcrtcs w)) \<le> R
    \<and> ((\<exists>c \<in> set (m_rcrtcs w). \<not> content s c) \<longrightarrow> sum_list (map (share s) (m_rcrtcs w)) = R)"
proof -
  let ?cs = "map (\<lambda>c. c\<lparr>rc_alloc := False\<rparr>) (m_rcrtcs w)"
  have ok: "served_ok R ?cs R" using assms(2) by (auto simp: served_ok_def filter_map comp_def)
  have n: "int (unserved ?cs) = m_N w" using assms(1) by (simp add: filter_map comp_def)
  obtain cs' a' where r: "distribute_loop exact ?cs (Fin R) (m_N w) = Some (cs', Fin a', int (unserved cs'))"
    "served_ok R cs' a'" "\<forall>c \<in> set cs'. \<not> rc_alloc c \<longrightarrow> \<not> content (a' / of_nat (unserved cs')) c"
    "map unrated cs' = map unrated ?cs"
    using distribute_loop_exact [OF ok] unfolding n by (elim exE conjE) (rule that)
  have un: "map unrated cs' = map unrated (m_rcrtcs w)" using r(4) by (simp add: comp_def)
  define s where "s = (if unserved cs' > 0 then a' / of_nat (unserved cs') else Max (insert 0 (wish ` set cs')))"
  have alloc: "rc_alloc c \<longleftrightarrow> content s c" "rc_alloc c \<Longrightarrow> cur_irate c = req_irate c" if c: "c \<in> set cs'" for c
  proof -
    show "rc_alloc c \<Longrightarrow> cur_irate c = req_irate c" using r(2) c by (simp add: served_ok_def)
    show "rc_alloc c \<longleftrightarrow> content s c"
    proof (cases "unserved cs' > 0")
      case True
      have "content s c" if "rc_alloc c"
      proof -
        have "wish c * of_nat (unserved cs') \<le> a'" "req_irate c \<noteq> 0"
          using r(2) c that unfolding served_ok_def by blast+
        then show ?thesis using True by (simp add: content_def s_def field_simps)
      qed
      then show ?thesis using r(3) c True by (auto simp: s_def)
    next
      case False
      then have "rc_alloc c" using c by (simp add: filter_empty_conv)
      moreover have "wish c \<le> s" using False c by (simp add: s_def)
      ultimately show ?thesis using r(2) c by (simp add: served_ok_def content_def)
    qed
  qed
  have sum: "sum_list (map (share s) (m_rcrtcs w)) = sum_list (map wish (filter rc_alloc cs')) + of_nat (unserved cs') * s"
    using shares_sum [of cs' s] alloc(1) shares_unrated [of s cs', unfolded un, folded shares_unrated] by simp
  have a: "0 \<le> a'" "a' + sum_list (map wish (filter rc_alloc cs')) = R" using r(2) by (simp_all add: served_ok_def)
  have us: "of_nat (unserved cs') * s = (if unserved cs' > 0 then a' else 0)" by (simp add: s_def)
  have fair: "(if int (unserved cs') > 0
      then map (\<lambda>c. if rc_alloc c then c else c\<lparr>cur_irate := rate2interval exact (ddiv exact (Fin a') (d_int (int (unserved cs')))),
             rc_alloc := True\<rparr>) cs'
      else cs') = fair_rates s cs'"
  proof (cases "unserved cs' > 0")
    case True
    then have "ddiv exact (Fin a') (d_int (int (unserved cs'))) = Fin s" by (simp add: d_int_def s_def)
    then show ?thesis using True alloc by (auto simp: fair_rates_def intro!: map_cong)
  next
    case False
    then have "\<forall>c \<in> set cs'. rc_alloc c" by (simp add: filter_empty_conv)
    then have "fair_rates s cs' = map (\<lambda>c. c) cs'" unfolding fair_rates_def using alloc by (intro map_cong) auto
    then show ?thesis using False by simp
  qed
  have "distribute_R exact (Fin R) w = Some (w\<lparr>m_rcrtcs := fair_rates s (m_rcrtcs w)\<rparr>)"
  proof (cases "m_N w = 0")
    case True
    then have "m_rcrtcs w = []" using assms(1) by simp
    then show ?thesis using True by (simp add: distribute_R_def fair_rates_def)
  next
    case False
    then show ?thesis
      using fair fair_rates_unrated [of s cs'] fair_rates_unrated [of s "m_rcrtcs w"] un
      by (simp add: distribute_R_def r(1))
  qed
  moreover have "unserved cs' > 0" if "c \<in> set (m_rcrtcs w)" "\<not> content s c" for c
  proof (rule ccontr)
    assume "\<not> unserved cs' > 0"
    then have "\<forall>c \<in> set cs'. content s c" using alloc by (simp add: filter_empty_conv)
    then have "\<forall>c \<in> set (map unrated cs'). content s c" by auto
    then show False using that unfolding un by auto
  qed
  ultimately show ?thesis using sum a us by (intro exI [of _ s]) auto
qed


section \<open>Frames\<close>

text \<open>The policies change nothing but the intervals granted, and always give a result.\<close>

lemma distribute_pass_unrated:
  "distribute_pass F t cs (aR, aN, one) = (cs', r) \<Longrightarrow> map unrated cs' = map unrated cs"
  by (induction cs arbitrary: aR aN one cs' r) (auto split: if_split_asm prod.split_asm)

lemma distribute_loop_unrated:
  assumes "distribute_loop F cs aR aN = Some (cs', r)"
  shows "map unrated cs' = map unrated cs"
  using assms
proof (induction "unserved cs" arbitrary: cs aR aN rule: less_induct)
  case less
  obtain cs1 aR' aN' one where p:
    "distribute_pass F (ddiv F aR (d_int aN)) cs (aR, aN, False) = (cs1, aR', aN', one)"
    by (metis prod_cases4)
  show ?case
  proof (cases one)
    case True
    then have "unserved cs1 < unserved cs" using distribute_pass_unserved [OF p] by simp
    then have "map unrated cs' = map unrated cs1"
      using less p True by (simp add: distribute_loop.simps [of F cs])
    then show ?thesis using distribute_pass_unrated [OF p] by simp
  next
    case False
    then show ?thesis using less.prems p distribute_pass_unrated [OF p]
      by (simp add: distribute_loop.simps [of F cs])
  qed
qed

definition same_but_rates :: "rcr_world \<Rightarrow> rcr_world \<Rightarrow> bool" where
  "same_but_rates w w' \<longleftrightarrow> map unrated (m_rcrtcs w') = map unrated (m_rcrtcs w)
    \<and> w' = w\<lparr>m_rcrtcs := m_rcrtcs w'\<rparr>"

lemma same_but_ratesI: "map unrated cs = map unrated (m_rcrtcs w) \<Longrightarrow> same_but_rates w (w\<lparr>m_rcrtcs := cs\<rparr>)"
  by (simp add: same_but_rates_def)

lemma same_but_rates_refl: "same_but_rates w w"
  by (simp add: same_but_rates_def)

lemma map_unrated_if:
  "map (\<lambda>x. unrated (if P x then x else x\<lparr>cur_irate := r, rc_alloc := True\<rparr>)) cs = map unrated cs"
  by (induction cs) auto

lemma distribute_R_same:
  assumes "distribute_R F R w = Some w'"
  shows "same_but_rates w w'"
proof (cases "m_N w = 0")
  case True
  then show ?thesis using assms by (simp add: distribute_R_def same_but_rates_refl)
next
  case False
  obtain cs aR aN where l:
    "distribute_loop F (map (\<lambda>c. c\<lparr>rc_alloc := False\<rparr>) (m_rcrtcs w)) R (m_N w) = Some (cs, aR, aN)"
    by (metis distribute_loop_total prod_cases3)
  have un: "map unrated cs = map unrated (m_rcrtcs w)"
    using distribute_loop_unrated [OF l] by (simp add: comp_def)
  show ?thesis
    using False assms l un map_unrated_if [of rc_alloc "rate2interval F (ddiv F aR (d_int aN))" cs]
    by (auto simp: distribute_R_def comp_def intro!: same_but_ratesI)
qed

lemma allocate_rate_fairly_total: "\<exists>w'. allocate_rate_fairly F w = Some w'"
  using distribute_R_total [of F "m_R w" w] by (simp add: allocate_rate_fairly_def Let_def)

lemma map_unrated_rates:
  "map (\<lambda>c. unrated (if P c then c else c\<lparr>cur_irate := f c\<rparr>)) cs = map unrated cs"
  "map (\<lambda>c. unrated (c\<lparr>cur_irate := f c\<rparr>)) cs = map unrated cs"
  by (induction cs) auto

lemma allocate_rate_fairly_same:
  assumes "allocate_rate_fairly F w = Some w'"
  shows "same_but_rates w w'"
proof -
  have "same_but_rates w (allocate_rate_by_rho F rho w)" for rho
    by (auto simp: allocate_rate_by_rho_def same_but_rates_refl map_unrated_rates comp_def intro!: same_but_ratesI)
  moreover have "same_but_rates w (allocate_R_over_N F R w)" for R
    by (auto simp: allocate_R_over_N_def same_but_rates_refl comp_def intro!: same_but_ratesI)
  moreover have "same_but_rates w (append_dR_by_goodput F dR w)" for dR
    by (auto simp: append_dR_by_goodput_def Let_def same_but_rates_refl map_unrated_rates comp_def intro!: same_but_ratesI)
  ultimately show ?thesis
    using assms distribute_R_same by (auto simp: allocate_rate_fairly_def Let_def split: if_split_asm)
qed

text \<open>What the rate control leaves alone.\<close>

definition rated :: "rcr_world \<Rightarrow> rcr_world \<Rightarrow> bool" where
  "rated w w' \<longleftrightarrow> map unrated (m_rcrtcs w') = map unrated (m_rcrtcs w) \<and> rcr_sent w' = rcr_sent w \<and> rcr_up w' = rcr_up w
    \<and> rcr_deleted w' = rcr_deleted w \<and> m_num_rtrc w' = m_num_rtrc w \<and> m_N w' = m_N w \<and> m_D w' = m_D w
    \<and> bootup_time_ms w' = bootup_time_ms w \<and> fairness_policy w' = fairness_policy w"

lemma same_but_rates_rated:
  assumes "same_but_rates w w'"
  shows "rated w w'"
proof -
  have w: "w' = w\<lparr>m_rcrtcs := m_rcrtcs w'\<rparr>" "map unrated (m_rcrtcs w') = map unrated (m_rcrtcs w)"
    using assms by (simp_all add: same_but_rates_def)
  show ?thesis unfolding rated_def by (subst (1 2 3 4 5 6 7 8 9) w(1)) (simp add: w(2))
qed

lemma rated_trans: "rated u v \<Longrightarrow> rated v w \<Longrightarrow> rated u w"
  by (simp add: rated_def)

lemma rated_refl: "rated w w"
  by (simp add: rated_def)

section \<open>Bounds of the adaptation\<close>

text \<open>The ratio of a decrease lies between a half and one, and so does the loss it remembers.\<close>

definition dec_state :: "dbl \<Rightarrow> bool" where
  "dec_state x \<longleftrightarrow> (\<exists>p. x = Fin p \<and> 1 / 2 \<le> p \<and> p \<le> 1)"

lemma lit_half: "rounds F r \<Longrightarrow> d_lit F (5 / 10) = Fin (1 / 2)"
  using rounds_half [of F r 1] by (simp add: d_lit_def rounds_rd)

lemma recalculate_rho_fields [simp]: "m_R (recalculate_rho F w) = m_R w" "m_D (recalculate_rho F w) = m_D w"
  "m_rcrtcs (recalculate_rho F w) = m_rcrtcs w" "last_dec_p (recalculate_rho F w) = last_dec_p w"
  by (simp_all add: recalculate_rho_def)

lemma recalculate_rho_rated: "rated w (recalculate_rho F w)"
  by (simp add: rated_def recalculate_rho_def)

lemma same_but_rates_fields:
  assumes "same_but_rates w w'"
  shows "m_R w' = m_R w" "m_D w' = m_D w" "last_dec_p w' = last_dec_p w" "m_N w' = m_N w"
proof -
  have w: "w' = w\<lparr>m_rcrtcs := m_rcrtcs w'\<rparr>" using assms by (simp add: same_but_rates_def)
  show "m_R w' = m_R w" "m_D w' = m_D w" "last_dec_p w' = last_dec_p w" "m_N w' = m_N w" by (subst w, simp)+
qed

lemma decrease_all_rate_bounds:
  assumes F: "rounds F r" and R: "m_R w = Fin R" "r R = R" "0 \<le> R"
    and d: "dec_state (last_dec_p w)" and l: "0 \<le> l" "l \<le> 1 / 2"
  shows "\<exists>ok w' R'. decrease_all_rate F now (Fin l) w = Some (ok, w') \<and> m_R w' = Fin R' \<and> dec_state (last_dec_p w')
    \<and> max (R / 2) (r (of_int (m_N w) / 30)) \<le> R' \<and> R' \<le> max R (r (of_int (m_N w) / 30))
    \<and> (ok \<longleftrightarrow> R' \<noteq> R) \<and> rated w w'"
proof -
  obtain d where d: "last_dec_p w = Fin d" "1 / 2 \<le> d" "d \<le> 1" using d by (auto simp: dec_state_def)
  have half: "r (1 / 2) = 1 / 2" using rounds_half [OF F, of 1] F by simp
  define pl where "pl = r (1 - l)"
  have p0: "1 / 2 \<le> pl" "pl \<le> 1"
    unfolding pl_def using rounds_mono [OF F, of "1 / 2" "1 - l"] rounds_le_int [OF F, of 1 "1 - l"] l half by simp_all
  define p where "p = (if pl < d then r (pl / d) else 1)"
  have p: "1 / 2 \<le> p" "p \<le> 1"
  proof -
    have "1 / 2 \<le> pl / d" using p0 d(2,3) by (simp add: field_simps)
    then have "1 / 2 \<le> r (pl / d)" using rounds_mono [OF F, of "1 / 2"] half by metis
    then show "1 / 2 \<le> p" by (simp add: p_def)
    have "pl / d \<le> 1" if "pl < d" using that d(2) by simp
    then show "p \<le> 1" using rounds_le_int [OF F, of 1 "pl / d"] by (simp add: p_def)
  qed
  have two: "1 \<le> r (2 - p)" using rounds_ge_int [OF F, of 1 "2 - p"] p by simp
  define q where "q = r (p / r (2 - p))"
  have q: "q \<le> 1" using rounds_le_int [OF F, of 1 "p / r (2 - p)"] p two by (simp add: q_def field_simps)
  define q1 where "q1 = (if q < 1 / 2 then 1 / 2 else q)"
  define dec where "dec = (if r (98 / 100) < q1 then 1 else q1)"
  have dec: "1 / 2 \<le> dec" "dec \<le> 1" using q by (auto simp: dec_def q1_def)
  define R1 where "R1 = r (dec * R)" 
  define least where "least = r (of_int (m_N w) / 30)"
  have R1: "R / 2 \<le> R1" "R1 \<le> R"
  proof -
    have "1 / 2 * R \<le> dec * R" "dec * R \<le> 1 * R" using dec R(3) by (intro mult_right_mono; simp)+
    then have "r (R / 2) \<le> R1" "R1 \<le> r R" unfolding R1_def using rounds_mono [OF F] by simp_all
    then show "R / 2 \<le> R1" "R1 \<le> R" using rounds_half [OF F, of R] R(2) by simp_all
  qed
  define R2 where "R2 = (if R1 < least then least else R1)"
  let ?w1 = "w\<lparr>last_dec_p := Fin p, m_R := Fin R2\<rparr>"
  have e1: "dsub F (d_int 1) (Fin l) = Fin pl" by (simp add: dsub_def d_int_def rounds_rd [OF F] pl_def)
  have e2: "(if dless (Fin pl) (Fin d) then ddiv F (Fin pl) (Fin d) else d_int 1) = Fin p"
    using d(2) by (simp add: p_def d_int_def rounds_rd [OF F])
  have e3: "ddiv F (Fin p) (dsub F (d_int 2) (Fin p)) = Fin q"
    using two by (simp add: dsub_def d_int_def rounds_rd [OF F] q_def)
  have e4: "(if dless (Fin q) (Fin (1 / 2)) then Fin (1 / 2) else Fin q) = Fin q1" by (simp add: q1_def)
  have e5: "(if dless (d_lit F (98 / 100)) (Fin q1) then d_int 1 else Fin q1) = Fin dec"
    by (simp add: dec_def d_lit_def d_int_def rounds_rd [OF F])
  have e6: "dmul F (Fin dec) (Fin R) = Fin R1" by (simp add: R1_def rounds_rd [OF F])
  have e7: "ddiv F (d_int (m_N w)) (d_int 30) = Fin least" by (simp add: least_def d_int_def rounds_rd [OF F])
  have e8: "(if dless (Fin R1) (Fin least) then Fin least else Fin R1) = Fin R2" by (simp add: R2_def)
  have body: "decrease_all_rate F now (Fin l) w
      = (if R2 = R then Some (False, ?w1)
         else do {
           w2 \<leftarrow> allocate_rate_fairly F (recalculate_rho F ?w1);
           Some (True, w2\<lparr>m_slowstart := False, last_rate_decrease_time_ms := gettime_ms now w2\<rparr>)
         })"
    unfolding decrease_all_rate_def Let_def R(1) d(1) lit_half [OF F] e1 e2 e3 e4 e5 e6 e7 e8 dless_Fin(2) ..
  have w1: "m_R ?w1 = Fin R2" "dec_state (last_dec_p ?w1)" "rated w ?w1"
    using p by (auto simp: dec_state_def rated_def)
  have b: "max (R / 2) least \<le> R2" "R2 \<le> max R least" using R1 by (auto simp: R2_def)
  show ?thesis
  proof (cases "R2 = R")
    case True
    then show ?thesis using body w1 b [unfolded least_def]
      by (intro exI [of _ False] exI [of _ ?w1] exI [of _ R2]) simp
  next
    case False
    obtain w2 where w2: "allocate_rate_fairly F (recalculate_rho F ?w1) = Some w2"
      using allocate_rate_fairly_total by blast
    note same = allocate_rate_fairly_same [OF w2]
    let ?w3 = "w2\<lparr>m_slowstart := False, last_rate_decrease_time_ms := gettime_ms now w2\<rparr>"
    have "m_R ?w3 = Fin R2" "dec_state (last_dec_p ?w3)"
      using same_but_rates_fields [OF same] w1(1,2) by simp_all
    moreover have "rated w ?w3"
      using rated_trans [OF w1(3) rated_trans [OF recalculate_rho_rated same_but_rates_rated [OF same]]]
      by (simp add: rated_def)
    moreover have "decrease_all_rate F now (Fin l) w = Some (True, ?w3)"
      unfolding body using False w2 by simp
    ultimately show ?thesis using b [unfolded least_def] False
      by (intro exI [of _ True] exI [of _ ?w3] exI [of _ R2]) simp
  qed
qed

lemma increase_all_rate_bounds:
  assumes F: "rounds F r" and R: "m_R w = Fin R" "r R = R" and D: "m_D w = Fin D" and d: "dec_state (last_dec_p w)"
  shows "\<exists>ok w' R'. increase_all_rate F now w = Some (ok, w') \<and> m_R w' = Fin R' \<and> dec_state (last_dec_p w')
    \<and> min R D \<le> R' \<and> R' \<le> r (R + 2) \<and> (D > 0 \<longrightarrow> R' \<le> D) \<and> (D \<le> 0 \<longrightarrow> R \<le> R')
    \<and> (ok \<longleftrightarrow> R' \<noteq> R) \<and> rated w w'"
proof -
  let ?inc = "if m_slowstart w then 2 else 1 :: rat"
  let ?R1 = "r (R + ?inc)"
  have R1: "R \<le> ?R1" "?R1 \<le> r (R + 2)"
    using rounds_mono [OF F, of R "R + ?inc"] rounds_mono [OF F, of "R + ?inc" "R + 2"] R(2) by simp_all
  let ?R2 = "if D < ?R1 \<and> 0 < D then D else ?R1"
  let ?w1 = "recalculate_rho F (w\<lparr>m_R := Fin ?R2\<rparr>)"
  have inc: "(if m_slowstart w then dmul F (d_int 2) R_ADDITIVE_INCREMENT else R_ADDITIVE_INCREMENT) = Fin ?inc"
    using rounds_int [OF F, of 2] by (simp add: R_ADDITIVE_INCREMENT_def d_int_def rounds_rd [OF F])
  have "dadd F (Fin R) (Fin ?inc) = Fin ?R1" by (simp add: rounds_rd [OF F])
  then have body: "increase_all_rate F now w
      = (if ?R2 = R then Some (False, ?w1)
         else do {
           w2 \<leftarrow> allocate_rate_fairly F ?w1;
           Some (True, w2\<lparr>last_dec_p := d_int 1, last_rate_increase_time_ms := gettime_ms now w2\<rparr>)
         })"
    unfolding increase_all_rate_def Let_def inc R(1) D
    by (simp only: d_int_def of_int_0 dless_Fin if_distrib [of Fin, symmetric])
  have w1: "m_R ?w1 = Fin ?R2" "dec_state (last_dec_p ?w1)" "rated w ?w1"
    using d by (auto simp: rated_def recalculate_rho_def)
  have b: "min R D \<le> ?R2" "?R2 \<le> r (R + 2)" "D > 0 \<longrightarrow> ?R2 \<le> D" "D \<le> 0 \<longrightarrow> R \<le> ?R2" using R1 by auto
  show ?thesis
  proof (cases "?R2 = R")
    case True
    then show ?thesis using body w1 b
      by (intro exI [of _ False] exI [of _ ?w1] exI [of _ ?R2]) simp
  next
    case False
    obtain w2 where w2: "allocate_rate_fairly F ?w1 = Some w2" using allocate_rate_fairly_total by blast
    note same = allocate_rate_fairly_same [OF w2]
    let ?w3 = "w2\<lparr>last_dec_p := d_int 1, last_rate_increase_time_ms := gettime_ms now w2\<rparr>"
    have "m_R ?w3 = Fin ?R2" "dec_state (last_dec_p ?w3)"
      using same_but_rates_fields [OF same] w1(1) by (simp_all add: dec_state_def d_int_def)
    moreover have "rated w ?w3"
      using rated_trans [OF w1(3) same_but_rates_rated [OF same]] by (simp add: rated_def)
    moreover have "increase_all_rate F now w = Some (True, ?w3)" unfolding body using False w2 by simp
    ultimately show ?thesis using b False
      by (intro exI [of _ True] exI [of _ ?w3] exI [of _ ?R2]) simp
  qed
qed

lemma do_rate_control_bounds:
  assumes F: "rounds F r" and R: "m_R w = Fin R" "r R = R" "0 \<le> R" and D: "m_D w = Fin D"
    and d: "dec_state (last_dec_p w)" and l: "a_Lavg (loss_ali c) = Fin l" "0 \<le> l" "l \<le> 1 / 2"
  shows "\<exists>res w' R'. do_rate_control F now c used w = Some (res, w') \<and> m_R w' = Fin R' \<and> dec_state (last_dec_p w')
    \<and> rated w w' \<and> (if res = -1 then R' \<noteq> R \<and> max (R / 2) (r (of_int (m_N w) / 30)) \<le> R'
             \<and> R' \<le> max R (r (of_int (m_N w) / 30))
           else if res = 1 then R' \<noteq> R \<and> min R D \<le> R' \<and> R' \<le> r (R + 2) \<and> (D > 0 \<longrightarrow> R' \<le> D) \<and> (D \<le> 0 \<longrightarrow> R \<le> R')
           else res = 0 \<and> R' = R)"
proof -
  from decrease_all_rate_bounds [OF F R d l(2,3), of now] obtain ok w1 R1 where
    dec: "decrease_all_rate F now (Fin l) w = Some (ok, w1)" "m_R w1 = Fin R1" "dec_state (last_dec_p w1)"
      "max (R / 2) (r (of_int (m_N w) / 30)) \<le> R1" "R1 \<le> max R (r (of_int (m_N w) / 30))" "ok \<longleftrightarrow> R1 \<noteq> R" "rated w w1"
    by (elim exE conjE) (rule that)
  from increase_all_rate_bounds [OF F R(1,2) D d, of now] obtain ok2 w2 R2 where
    inc: "increase_all_rate F now w = Some (ok2, w2)" "m_R w2 = Fin R2" "dec_state (last_dec_p w2)"
      "min R D \<le> R2" "R2 \<le> r (R + 2)" "D > 0 \<longrightarrow> R2 \<le> D" "D \<le> 0 \<longrightarrow> R \<le> R2" "ok2 \<longleftrightarrow> R2 \<noteq> R" "rated w w2"
    by (elim exE conjE) (rule that)
  have lv: "rated w (v\<lparr>last_congestion_level := x\<rparr>)" if "rated w v" for v x using that by (simp add: rated_def)
  have none: ?thesis if "do_rate_control F now c used w = Some (0, w)"
    using that R(1) d by (intro exI [of _ 0] exI [of _ w] exI [of _ R]) (simp add: rated_refl)
  have down: ?thesis if "do_rate_control F now c used w
      = Some (if ok then (-1, w1\<lparr>last_congestion_level := get_congestion_level c\<rparr>) else (0, w1))"
    using that dec lv [OF dec(7), of "get_congestion_level c"] by (cases ok) (fastforce, auto)
  have up: ?thesis if "do_rate_control F now c used w
      = Some (if ok2 then (1, w2\<lparr>last_congestion_level := d_int 0\<rparr>) else (0, w2))"
    using that inc lv [OF inc(9), of "d_int 0"] by (cases ok2) (fastforce, auto)
  show ?thesis
    using none down up unfolding do_rate_control_def l(1) dec(1) inc(1) by (auto split: if_split_asm)
qed

section \<open>Properties\<close>

definition rcr_sample_mem :: rcrt_conn where
  "rcr_sample_mem = \<lparr>c_addr = 0, c_tid = 0, connection_type = 0, lastRecvSeqNo = 0, totalLostPackets = 0,
     totalRecvPackets = 0, alarm_time = clear_timeval, pktrate = init_packetrate, goodput = init_packetrate,
     loss_ewma = init_loss_ewma, loss_ali = init_loss_ali \<lparr>last_loss_seqno = 3, ali_s = replicate 8 7, s_head = 0,
       s_len = 0, a_Savg = NaN, a_Lavg = NaN, a_restart = True\<rparr>, rc_state = RCRT_S_ACTIVE, rc_deletePending = False,
     rc_timeoutCount = 0, lastSentAckSeqNo = 0, nextAckSeqNo = 0, rc_nextExpectedSeqNo = 1,
     rc_plist = \<lparr>spl_length = 3, spl_chain = []\<rparr>,
     rc_missingList = \<lparr>ul_length = 0, ul_chain = [], ul_tail = None, ul_heap = 7\<rparr>, next_nack_idx = 0, req_irate = 0,
     cur_irate = 0, rc_alloc = False, congestion_ewma = d_int 0, feedback_fid = 0, feedback_fid_list = replicate 5 0,
     feedback_fid_mote = 0, feedback_senttime = replicate 5 0, last_feedback_time = 0, feedback_idx = -1,
     rc_rtt = d_int 0, rc_rttvar = d_int 0, fcount = 0, totalRetxPackets = 0\<rparr>"

definition rcr_empty :: rcr_world where
  "rcr_empty = \<lparr>m_rcrtcs = [], m_num_rtrc = 0, m_N = 0, m_D = d_int 0, m_R = d_int 0, m_rho = d_int 1,
     m_slowstart = True, last_rate_increase_time_ms = 0, last_rate_decrease_time_ms = 0,
     last_congestion_level = d_int 0, last_dec_p = d_int 1, bootup_time_ms = 0, fairness_policy = 1,
     rcr_sent = [], rcr_up = [], rcr_deleted = []\<rparr>"

definition rcr_pair :: rcr_world where
  "rcr_pair = rcr_empty\<lparr>m_N := 2, m_rcrtcs := [rcr_sample_mem\<lparr>req_irate := 1000\<rparr>, rcr_sample_mem\<lparr>req_irate := 50\<rparr>]\<rparr>"

lemma rcr_pair_fields:
  "m_N rcr_pair = int (length (m_rcrtcs rcr_pair))"
  "m_rcrtcs rcr_pair = [rcr_sample_mem\<lparr>req_irate := 1000\<rparr>, rcr_sample_mem\<lparr>req_irate := 50\<rparr>]"
  by (simp_all add: rcr_pair_def)

text \<open>
  C28: under every fairness policy, whatever the floating-point arithmetic gives, sharing the total rate among the
  connections ends and changes nothing but the intervals granted and the mark of who has been served.
\<close>

theorem rate_sharing_ends:
  "\<exists>w'. allocate_rate_fairly F w = Some w' \<and> map unrated (m_rcrtcs w') = map unrated (m_rcrtcs w)
    \<and> w' = w\<lparr>m_rcrtcs := m_rcrtcs w'\<rparr>"
  using allocate_rate_fairly_total [of F w] allocate_rate_fairly_same [of F w] by (auto simp: same_but_rates_def)

text \<open>
  C13: the distribution of a total rate is max-min fair, with exact arithmetic: there is a share such that every connection
  that asks for no more than the share gets the interval it asked for, every other one the interval of the share; these
  rates together never exceed the total rate, and use it up as soon as one connection gets less than it asked for.
\<close>

theorem rate_sharing_max_min:
  assumes "m_N w = int (length (m_rcrtcs w))" "0 \<le> R"
  shows "\<exists>s. distribute_R exact (Fin R) w
      = Some (w\<lparr>m_rcrtcs := map (\<lambda>c. c\<lparr>cur_irate := (if content s c then req_irate c else rate2interval exact (Fin s)),
          rc_alloc := True\<rparr>) (m_rcrtcs w)\<rparr>)
    \<and> sum_list (map (share s) (m_rcrtcs w)) \<le> R
    \<and> ((\<exists>c \<in> set (m_rcrtcs w). \<not> content s c) \<longrightarrow> sum_list (map (share s) (m_rcrtcs w)) = R)"
  using distribute_R_fair [OF assms] by (simp add: fair_rates_def)

theorem rate_sharing_max_min_witness:
  "\<exists>s. distribute_R exact (Fin 9) rcr_pair
      = Some (rcr_pair\<lparr>m_rcrtcs := map (\<lambda>c. c\<lparr>cur_irate := (if content s c then req_irate c
          else rate2interval exact (Fin s)), rc_alloc := True\<rparr>) (m_rcrtcs rcr_pair)\<rparr>)
    \<and> sum_list (map (share s) (m_rcrtcs rcr_pair)) = 9"
proof -
  have "sum_list (map (share s) (m_rcrtcs rcr_pair)) = 21" if "\<forall>c \<in> set (m_rcrtcs rcr_pair). content s c" for s
    using that by (simp add: rcr_pair_fields(2) share_def wish_def)
  note all = this
  have "(0 :: rat) \<le> 9" by simp
  from rate_sharing_max_min [OF rcr_pair_fields(1) this]
  obtain s where s: "distribute_R exact (Fin 9) rcr_pair
      = Some (rcr_pair\<lparr>m_rcrtcs := map (\<lambda>c. c\<lparr>cur_irate := (if content s c then req_irate c
          else rate2interval exact (Fin s)), rc_alloc := True\<rparr>) (m_rcrtcs rcr_pair)\<rparr>)"
    "sum_list (map (share s) (m_rcrtcs rcr_pair)) \<le> 9"
    "(\<exists>c \<in> set (m_rcrtcs rcr_pair). \<not> content s c) \<longrightarrow> sum_list (map (share s) (m_rcrtcs rcr_pair)) = 9"
    by (elim exE conjE) (rule that)
  have "\<not> (\<forall>c \<in> set (m_rcrtcs rcr_pair). content s c)"
  proof
    assume "\<forall>c \<in> set (m_rcrtcs rcr_pair). content s c"
    then have "sum_list (map (share s) (m_rcrtcs rcr_pair)) = 21" by (rule all)
    then show False using s(2) by (simp only:)
  qed
  then show ?thesis using s(1,3) by blast
qed

text \<open>
  C12: a step of the rate control always gives a result, and keeps the total rate within bounds, under any rounding
  that obeys the laws of binary arithmetic: a decrease takes away at most half of it and
  never leaves less than one packet in thirty seconds for each connection, an increase adds at most two packets per second and
  does not go beyond what is demanded, and otherwise the rate stays. The remembered loss, by which the next
  decrease divides, stays between one half and one.
\<close>

theorem rate_control_bounds:
  assumes "rounds F r" "m_R w = Fin R" "r R = R" "0 \<le> R" "m_D w = Fin D" "dec_state (last_dec_p w)"
    "a_Lavg (loss_ali c) = Fin l" "0 \<le> l" "l \<le> 1 / 2"
  shows "\<exists>res w' R'. do_rate_control F now c used w = Some (res, w') \<and> m_R w' = Fin R' \<and> dec_state (last_dec_p w')
    \<and> (if res = -1 then R' \<noteq> R \<and> max (R / 2) (r (of_int (m_N w) / 30)) \<le> R'
             \<and> R' \<le> max R (r (of_int (m_N w) / 30))
       else if res = 1 then R' \<noteq> R \<and> min R D \<le> R' \<and> R' \<le> r (R + 2) \<and> (D > 0 \<longrightarrow> R' \<le> D) \<and> (D \<le> 0 \<longrightarrow> R \<le> R')
       else res = 0 \<and> R' = R)"
  using do_rate_control_bounds [OF assms, of now used] by blast

theorem rate_control_bounds_witness:
  "\<exists>res w' R'. do_rate_control exact \<lparr>tv_sec = 90, tv_usec = 0\<rparr> rcr_sample_mem 0
      (rcr_empty\<lparr>m_R := Fin 7, m_D := Fin 8\<rparr>) = Some (res, w') \<and> m_R w' = Fin R' \<and> dec_state (last_dec_p w')
    \<and> (if res = -1 then R' \<noteq> 7 \<and> max (7 / 2) (of_int (m_N (rcr_empty\<lparr>m_R := Fin 7, m_D := Fin 8\<rparr>)) / 30) \<le> R'
             \<and> R' \<le> max 7 (of_int (m_N (rcr_empty\<lparr>m_R := Fin 7, m_D := Fin 8\<rparr>)) / 30)
       else if res = 1 then R' \<noteq> 7 \<and> min 7 8 \<le> R' \<and> R' \<le> 7 + 2 \<and> ((8 :: rat) > 0 \<longrightarrow> R' \<le> 8)
         \<and> ((8 :: rat) \<le> 0 \<longrightarrow> 7 \<le> R')
       else res = 0 \<and> R' = 7)"
proof (rule rate_control_bounds [OF rounds_exact])
  show "dec_state (last_dec_p (rcr_empty\<lparr>m_R := Fin 7, m_D := Fin 8\<rparr>))"
    by (simp add: rcr_empty_def dec_state_def d_int_def)
  show "a_Lavg (loss_ali rcr_sample_mem) = Fin 0" by (simp add: rcr_sample_mem_def init_loss_ali_def d_int_def)
qed simp_all

end
