(* ===== verification/Rcrt_Closing.thy ===== *)
theory Rcrt_Closing
  imports Rcrt_Control
begin

text \<open>
  What every event keeps in src/master/transport/rcrtransport.c: the list of connections and its counters agree, each
  connection is well-formed, and the daemon is never told that a connection is gone.
\<close>

unbundle bit_operations_syntax

section \<open>Well-formed connections and worlds\<close>

definition rcr_conn_ok :: "rcrt_conn \<Rightarrow> bool" where
  "rcr_conn_ok c \<longleftrightarrow> ul_inv (rc_missingList c) \<and> ali_inv (loss_ali c)
    \<and> length (feedback_fid_list c) = FID_LIST_LEN \<and> length (feedback_senttime c) = FID_LIST_LEN
    \<and> -1 \<le> feedback_idx c \<and> feedback_idx c < int FID_LIST_LEN"

definition rcr_ok :: "rcr_world \<Rightarrow> bool" where
  "rcr_ok w \<longleftrightarrow> distinct (conn_keys (m_rcrtcs w)) \<and> (\<forall>c \<in> set (m_rcrtcs w). rcr_conn_ok c)
    \<and> m_num_rtrc w = int (length (m_rcrtcs w)) \<and> m_N w = int (length (m_rcrtcs w))"

text \<open>A change of one connection, and a change of the world that keeps who is connected.\<close>

definition conn_step :: "rcrt_conn \<Rightarrow> rcrt_conn \<Rightarrow> bool" where
  "conn_step c c' \<longleftrightarrow> c_tid c' = c_tid c \<and> c_addr c' = c_addr c \<and> (rcr_conn_ok c \<longrightarrow> rcr_conn_ok c')"

definition rcr_frame :: "rcr_world \<Rightarrow> rcr_world \<Rightarrow> bool" where
  "rcr_frame w w' \<longleftrightarrow> conn_keys (m_rcrtcs w') = conn_keys (m_rcrtcs w) \<and> m_num_rtrc w' = m_num_rtrc w
    \<and> m_N w' = m_N w \<and> rcr_deleted w' = rcr_deleted w
    \<and> ((\<forall>c \<in> set (m_rcrtcs w). rcr_conn_ok c) \<longrightarrow> (\<forall>c \<in> set (m_rcrtcs w'). rcr_conn_ok c))"

lemma conn_step_refl [simp]: "conn_step c c"
  by (simp add: conn_step_def)

lemma conn_step_trans [trans]: "conn_step a b \<Longrightarrow> conn_step b c \<Longrightarrow> conn_step a c"
  by (simp add: conn_step_def)

lemma rcr_frame_refl [simp]: "rcr_frame w w"
  by (simp add: rcr_frame_def)

lemma rcr_frame_trans [trans]: "rcr_frame u v \<Longrightarrow> rcr_frame v w \<Longrightarrow> rcr_frame u w"
  by (simp add: rcr_frame_def)

lemma rcr_frame_ok:
  assumes "rcr_frame w w'" "rcr_ok w"
  shows "rcr_ok w'"
proof -
  have "length (conn_keys (m_rcrtcs w')) = length (conn_keys (m_rcrtcs w))" using assms(1) by (simp add: rcr_frame_def)
  then show ?thesis using assms by (simp add: rcr_frame_def rcr_ok_def)
qed

lemma conn_ok_unrated: "rcr_conn_ok (unrated c) = rcr_conn_ok c"
  by (simp add: rcr_conn_ok_def)

lemma rated_frame:
  assumes "rated w w'"
  shows "rcr_frame w w'"
proof -
  have m: "map unrated (m_rcrtcs w') = map unrated (m_rcrtcs w)" using assms by (simp add: rated_def)
  have "conn_keys (m_rcrtcs w') = conn_keys (m_rcrtcs w)"
    using arg_cong [OF m, of conn_keys] by (simp add: comp_def)
  moreover have "(\<forall>c \<in> set (m_rcrtcs w'). rcr_conn_ok c) = (\<forall>c \<in> set (m_rcrtcs w). rcr_conn_ok c)"
    using arg_cong [OF m, of "\<lambda>cs. \<forall>c \<in> set cs. rcr_conn_ok c"] by (simp add: conn_ok_unrated)
  ultimately show ?thesis using assms by (simp add: rcr_frame_def rated_def)
qed

lemma rcr_put_frame: "rcr_conn_ok c \<Longrightarrow> rcr_frame w (rcr_put c w)"
  using set_upd_connection [of "m_rcrtcs w" c] by (auto simp: rcr_frame_def rcr_put_def)

lemma rcr_write_frame [simp]: "rcr_frame w (rcr_write a p w)" "rcr_frame w (receive_rcrtransport c n p w)"
  by (simp_all add: rcr_frame_def rcr_write_def receive_rcrtransport_def)

lemma rcr_again_ok:
  "rcr_again c w = Some c' \<Longrightarrow> c' \<in> set (m_rcrtcs w) \<and> c_tid c' = c_tid c \<and> c_addr c' = c_addr c"
  unfolding rcr_again_def by (rule find_connection_Some)

section \<open>The parts of the handlers\<close>

lemma Timer_conn_step [simp]: "conn_step c (RCRT_Timer_start now ms c)" "conn_step c (RCRT_Timer_stop c)"
  by (simp_all add: conn_step_def rcr_conn_ok_def RCRT_Timer_start_def RCRT_Timer_stop_def)

lemma feedback_info_step: "conn_step c (snd (update_feedback_send_info now w c))"
  by (auto simp: update_feedback_send_info_def Let_def conn_step_def rcr_conn_ok_def consts_defs)

lemma congestion_step: "conn_step c (update_congestion_level F c)"
  by (simp add: update_congestion_level_def Let_def conn_step_def rcr_conn_ok_def)

lemma rtt_step: "conn_step c (update_rtt_estimate F now interval fid w c)"
  by (cases "find_fid fid c") (simp_all add: update_rtt_estimate_def Let_def conn_step_def rcr_conn_ok_def)

lemma feedback_loop_inv:
  assumes "feedback_loop seq ml p i cnt = Some (ml', p', cnt')"
  shows "ul_inv ml \<longrightarrow> ul_inv ml'"
proof -
  define P where "P = (\<lambda>(ml :: uint16list) (x :: uint16list \<times> bytes \<times> nat). ul_inv ml \<longrightarrow> ul_inv (fst x))"
  have "P ml (ml', p', cnt')"
  proof (rule feedback_loop.raw_induct [OF _ assms, of "\<lambda>seq ml p i cnt x. P ml x"])
    fix f seq ml p i cnt y
    assume ih: "\<And>seq ml p i cnt y. f seq ml p i cnt = Some y \<Longrightarrow> P ml y"
      and s: "(if i < RCRT_NACK_MLIST_LEN then
       (if int i < ul_length ml then do {
          mitem \<leftarrow> u16list_get_ith ml (of_nat (i + 1));
          (if tr_seqno_cmp seq (tr_seqno_add mitem (of_nat TR_VALID_RANGE)) \<ge> 0 then do {
             r \<leftarrow> u16list_delete ml mitem;
             f seq (snd r) p i cnt
           } else f seq ml (put16le p (16 + 2 * i) mitem) (i + 1) (cnt + 1))
        } else f seq ml (put16le p (16 + 2 * i) 0) (i + 1) cnt)
     else Some (ml, p, cnt)) = Some (y :: uint16list \<times> bytes \<times> nat)"
    show "P ml y"
    proof (cases "ul_inv ml")
      case True
      have del: "u16list_delete ml x = Some r \<Longrightarrow> ul_inv (snd r)" for x r
        using ul_delete [OF True, of x] by auto
      show ?thesis using s ih del by (auto simp: P_def split: if_split_asm bind_splits)
    qed (simp add: P_def)
  qed
  then show ?thesis by (simp add: P_def)
qed

lemma send_FEEDBACK_step:
  assumes "send_FEEDBACK F now c w = Some (c', w')"
  shows "conn_step c c'" "rcr_frame w w'" "m_rcrtcs w' = m_rcrtcs w"
proof -
  obtain fid c1 where u: "update_feedback_send_info now w c = (fid, c1)" by fastforce
  have c1: "conn_step c c1" using feedback_info_step [of c now w] u by simp
  note s = assms [unfolded send_FEEDBACK_def u]
  show "conn_step c c'"
    using s c1 feedback_loop_inv by (auto simp: conn_step_def rcr_conn_ok_def Let_def split: bind_splits)
  show "rcr_frame w w'" using s by (auto simp: Let_def split: bind_splits)
  show "m_rcrtcs w' = m_rcrtcs w" using s by (auto simp: Let_def rcr_write_def split: bind_splits)
qed

lemma send_SYN_ACK_step:
  assumes "r_send_SYN_ACK now c w = Some (c', w')"
  shows "conn_step c c'" "rcr_frame w w'"
  using assms feedback_info_step [of c now w]
  by (auto simp: r_send_SYN_ACK_def Let_def split: bind_splits prod.split_asm)

lemma send_FIN_ACK_frame: "r_send_FIN_ACK_to tid addr seqno w = Some w' \<Longrightarrow> rcr_frame w w'"
  "r_send_FIN_ACK c w = Some w' \<Longrightarrow> rcr_frame w w'"
  by (auto simp: r_send_FIN_ACK_def r_send_FIN_ACK_to_def split: bind_splits)

lemma tr_next_not_ffff: "tr_seqno_next s \<noteq> 0xffff"
proof
  assume "tr_seqno_next s = 0xffff"
  then have "unat (tr_seqno_next s) = 65535" by simp
  moreover have "unat (tr_seqno_next s) \<le> 50000"
    by (cases "s \<ge> TR_MAX_SEQNO") (auto simp: tr_seqno_next_def consts_defs word_le_nat_alt unat_word_ariths)
  ultimately show False by simp
qed

lemma detect_loop_inv:
  assumes "detect_loop seqno lastSeqNo ml n = Some (ml', n')"
  shows "ul_inv ml \<longrightarrow> ul_inv ml'"
proof -
  define P where "P = (\<lambda>(ml :: uint16list) (x :: uint16list \<times> nat). ul_inv ml \<longrightarrow> ul_inv (fst x))"
  have "P ml (ml', n')"
  proof (rule detect_loop.raw_induct [OF _ assms, of "\<lambda>seqno lastSeqNo ml n x. P ml x"])
    fix f seqno lastSeqNo ml n y
    assume ih: "\<And>seqno lastSeqNo ml n y. f seqno lastSeqNo ml n = Some y \<Longrightarrow> P ml y"
      and s: "do {
     ml' \<leftarrow> u16list_insert ml (tr_seqno_next lastSeqNo);
     (if tr_seqno_cmp seqno (tr_seqno_next (tr_seqno_next lastSeqNo)) > 0
      then f seqno (tr_seqno_next lastSeqNo) ml' (n + 1) else Some (ml', n + 1))
     } = Some (y :: uint16list \<times> nat)"
    show "P ml y"
    proof (cases "ul_inv ml")
      case True
      then obtain l where l: "u16list_insert ml (tr_seqno_next lastSeqNo) = Some l" "ul_inv l"
        using ul_insert [OF True tr_next_not_ffff] by blast
      show ?thesis using s ih [of seqno "tr_seqno_next lastSeqNo" l "n + 1" y] l
        by (auto simp: P_def split: if_split_asm)
    qed (simp add: P_def)
  qed
  then show ?thesis by (simp add: P_def)
qed

lemma r_detect_step: "r_detectMissingPacket seqno c = Some (n, c') \<Longrightarrow> conn_step c c'"
  using detect_loop_inv
  by (fastforce simp: r_detectMissingPacket_def conn_step_def rcr_conn_ok_def split: if_split_asm bind_splits)

text \<open>The loop hands packets up and changes nothing else but the connection it works on.\<close>

definition up_step :: "rcrt_conn \<Rightarrow> rcr_world \<Rightarrow> rcrt_conn \<times> rcr_world \<Rightarrow> bool" where
  "up_step c w x \<longleftrightarrow> conn_step c (fst x) \<and> (\<exists>ups. snd x = w\<lparr>rcr_up := ups\<rparr>)"

lemma up_stepI [intro]: "up_step (c\<lparr>rc_plist := pl\<rparr>) w x \<Longrightarrow> up_step c w x"
  "up_step (c\<lparr>rc_plist := pl, nextAckSeqNo := a, rc_nextExpectedSeqNo := s\<rparr>) (receive_rcrtransport c' len p w) x
    \<Longrightarrow> up_step c w x"
  "up_step (c\<lparr>nextAckSeqNo := a, rc_nextExpectedSeqNo := s\<rparr>) (receive_rcrtransport c' len p w) x
    \<Longrightarrow> up_step c w x"
  by (auto simp: up_step_def conn_step_def rcr_conn_ok_def receive_rcrtransport_def)

lemma up_step_refl [simp]: "up_step c w (c, w)"
  by (auto simp: up_step_def intro: exI [of _ "rcr_up w"])

lemma rcr_dispatch_step:
  assumes "rcr_dispatch seqno c w = Some x"
  shows "up_step c w x"
proof (rule rcr_dispatch.raw_induct [OF _ assms, of "\<lambda>seqno c w x. up_step c w x"])
  fix f :: "u16 \<Rightarrow> rcrt_conn \<Rightarrow> rcr_world \<Rightarrow> (rcrt_conn \<times> rcr_world) option" and seqno c w y
  assume ih: "\<And>seqno c w y. f seqno c w = Some y \<Longrightarrow> up_step c w y"
    and s: "do {
     first \<leftarrow> SPList_getFirstValue (rc_plist c);
     (if first = -1 then Some (c, w)
      else if tr_seqno_cmp (word_of_int first) (rc_nextExpectedSeqNo c) = 0 then do {
        (ptr, v, len, pl) \<leftarrow> SPList_deleteFirstPacket (rc_plist c);
        p \<leftarrow> ptr;
        f seqno (c\<lparr>rc_plist := pl, nextAckSeqNo := word_of_int first,
            rc_nextExpectedSeqNo := tr_seqno_next (rc_nextExpectedSeqNo c)\<rparr>)
          (receive_rcrtransport c len p w)
      }
      else if tr_seqno_cmp (word_of_int first) (rc_nextExpectedSeqNo c) < 0 then do {
        (ptr, v, len, pl) \<leftarrow> SPList_deleteFirstPacket (rc_plist c);
        f seqno (c\<lparr>rc_plist := pl\<rparr>) w
      }
      else if tr_seqno_cmp seqno (word_of_int first) \<le> 0 then Some (c, w)
      else if tr_seqno_cmp seqno (tr_seqno_add (word_of_int first) (of_nat TR_VALID_RANGE)) \<ge> 0 then do {
        (ptr, v, len, pl) \<leftarrow> SPList_deleteFirstPacket (rc_plist c);
        p \<leftarrow> ptr;
        f seqno (c\<lparr>rc_plist := pl, nextAckSeqNo := seqno,
            rc_nextExpectedSeqNo := tr_seqno_next (word_of_int first)\<rparr>)
          (receive_rcrtransport c len p w)
      }
      else Some (c, w))
   } = Some y"
  show "up_step c w y"
    using s by (auto split: bind_splits if_split_asm prod.split_asm dest!: ih)
qed

lemma receive_rtr_msg_step: "receive_rtr_msg c seqno msg w = Some x \<Longrightarrow> up_step c w x"
  by (auto simp: receive_rtr_msg_def Let_def split: if_split_asm bind_splits dest!: rcr_dispatch_step)

lemma up_step_frame: "up_step c w (c', w') \<Longrightarrow> conn_step c c' \<and> rcr_frame w w'"
  by (auto simp: up_step_def rcr_frame_def)

section \<open>The rate control\<close>

lemma rated_upd [simp]: "rated w (v\<lparr>m_R := x\<rparr>) = rated w v" "rated w (v\<lparr>last_dec_p := x\<rparr>) = rated w v"
  "rated w (v\<lparr>m_slowstart := b\<rparr>) = rated w v" "rated w (v\<lparr>last_rate_decrease_time_ms := t\<rparr>) = rated w v"
  "rated w (v\<lparr>last_rate_increase_time_ms := t\<rparr>) = rated w v" "rated w (v\<lparr>last_congestion_level := x\<rparr>) = rated w v"
  "rated w (v\<lparr>m_rho := x\<rparr>) = rated w v"
  by (simp_all add: rated_def)

lemma allocate_rated: "allocate_rate_fairly F v = Some w' \<Longrightarrow> rated w v \<Longrightarrow> rated w w'"
  using same_but_rates_rated [OF allocate_rate_fairly_same] rated_trans by blast

lemma rho_rated: "rated w v \<Longrightarrow> rated w (recalculate_rho F v)"
  by (simp add: recalculate_rho_def)

lemma decrease_rated: "decrease_all_rate F now l w = Some (ok, w') \<Longrightarrow> rated w w'"
  by (auto simp: decrease_all_rate_def Let_def rated_refl split: if_split_asm bind_splits
      dest!: allocate_rated [of F _ _ w] intro: rho_rated)

lemma alloc_then: "\<exists>ok w'. (if b then Some (x, u) else do { v \<leftarrow> allocate_rate_fairly F z; Some (y, f v) }) = Some (ok, w')"
  using allocate_rate_fairly_total [of F z] by auto

lemma decrease_all_rate_total: "\<exists>ok w'. decrease_all_rate F now l w = Some (ok, w')"
  unfolding decrease_all_rate_def Let_def by (rule alloc_then)

lemma increase_rated: "increase_all_rate F now w = Some (ok, w') \<Longrightarrow> rated w w'"
  by (auto simp: increase_all_rate_def Let_def rated_refl split: if_split_asm bind_splits
      dest!: allocate_rated [of F _ _ w] intro: rho_rated)

lemma do_rate_control_rated: "do_rate_control F now c used w = Some (res, w') \<Longrightarrow> rated w w'"
  by (auto simp: do_rate_control_def rated_refl split: if_split_asm bind_splits
      dest!: decrease_rated increase_rated)

section \<open>Deletion and creation\<close>

text \<open>The connection is still in the list when the test for others with its identifier is made.\<close>

lemma finish_not_reported:
  assumes "(c_tid c, c_addr c) \<in> set (conn_keys (m_rcrtcs w))"
  shows "rcr_deleted (finish_rcrt_connection F now c w) = rcr_deleted w"
    "m_rcrtcs (finish_rcrt_connection F now c w) = m_rcrtcs w"
    "m_num_rtrc (finish_rcrt_connection F now c w) = m_num_rtrc w"
    "m_N (finish_rcrt_connection F now c w) = m_N w - 1"
proof -
  have "rcrtransport_tid_is_alive (c_tid c) w"
    using assms by (auto simp: rcrtransport_tid_is_alive_def list_ex_iff)
  then show "rcr_deleted (finish_rcrt_connection F now c w) = rcr_deleted w"
    "m_rcrtcs (finish_rcrt_connection F now c w) = m_rcrtcs w"
    "m_num_rtrc (finish_rcrt_connection F now c w) = m_num_rtrc w"
    "m_N (finish_rcrt_connection F now c w) = m_N w - 1"
    by (simp_all add: finish_rcrt_connection_def Let_def recalculate_rho_def)
qed

lemma delete_keeps:
  assumes ok: "rcr_ok w" and c: "(c_tid c, c_addr c) \<in> set (conn_keys (m_rcrtcs w))"
  shows "rcr_ok (delete_rcrt_connection F now c w)"
    "rcr_deleted (delete_rcrt_connection F now c w) = rcr_deleted w"
    "length (m_rcrtcs (delete_rcrt_connection F now c w)) < length (m_rcrtcs w)"
proof -
  let ?w = "delete_rcrt_connection F now c w"
  note fin = finish_not_reported [OF c, of F now]
  have d: "distinct (conn_keys (m_rcrtcs w))" using ok by (simp add: rcr_ok_def)
  have cs: "m_rcrtcs ?w = remove_connection (m_rcrtcs w) (c_tid c) (c_addr c)"
    "m_num_rtrc ?w = m_num_rtrc w - 1" "m_N ?w = m_N w - 1"
    using fin by (simp_all add: delete_rcrt_connection_def Let_def)
  have k: "conn_keys (m_rcrtcs ?w) = removeAll (c_tid c, c_addr c) (conn_keys (m_rcrtcs w))"
    unfolding cs(1) by (rule remove_connection_keys [OF d])
  have "length (removeAll (c_tid c, c_addr c) (conn_keys (m_rcrtcs w))) = length (conn_keys (m_rcrtcs w)) - 1"
    using length_remove1 [of "(c_tid c, c_addr c)"] c unfolding distinct_remove1_removeAll [OF d, symmetric] by presburger
  then have len: "length (m_rcrtcs ?w) = length (m_rcrtcs w) - 1" using arg_cong [OF k, of length] by simp
  have pos: "0 < length (m_rcrtcs w)" using c by (cases "m_rcrtcs w") auto
  then have int: "int (length (m_rcrtcs ?w)) = int (length (m_rcrtcs w)) - 1" using len by linarith
  then show "length (m_rcrtcs ?w) < length (m_rcrtcs w)" using len by simp
  have "distinct (conn_keys (m_rcrtcs ?w))" unfolding k using d by (rule distinct_removeAll)
  moreover have "\<forall>x \<in> set (m_rcrtcs ?w). rcr_conn_ok x"
    using ok remove_connection_set [of "m_rcrtcs w" "c_tid c" "c_addr c"] unfolding cs(1) rcr_ok_def by blast
  ultimately show "rcr_ok ?w" using ok cs(2,3) unfolding rcr_ok_def int by simp
  show "rcr_deleted ?w = rcr_deleted w" using fin(1) by (simp add: delete_rcrt_connection_def Let_def)
qed

text \<open>What an event does to the world.\<close>

definition rcr_good :: "rcr_world \<Rightarrow> rcr_world \<Rightarrow> bool" where
  "rcr_good w w' \<longleftrightarrow> rcr_ok w' \<and> rcr_deleted w' = rcr_deleted w"

lemma rcr_frame_good: "rcr_frame w w' \<Longrightarrow> rcr_ok w \<Longrightarrow> rcr_good w w'"
  using rcr_frame_ok by (auto simp: rcr_good_def rcr_frame_def)

lemma rcr_good_trans: "rcr_good u v \<Longrightarrow> rcr_good v w \<Longrightarrow> rcr_good u w"
  by (simp add: rcr_good_def)

lemma adjust_rates_keeps:
  "adjust_rates_at_node_join F now req w = Some w' \<Longrightarrow>
    map unrated (m_rcrtcs w') = map unrated (m_rcrtcs w) \<and> m_num_rtrc w' = m_num_rtrc w \<and> m_N w' = m_N w + 1
      \<and> rcr_deleted w' = rcr_deleted w"
  by (auto simp: adjust_rates_at_node_join_def Let_def recalculate_rho_def rated_def split: bind_splits
      dest!: same_but_rates_rated [OF allocate_rate_fairly_same])

lemma create_keeps:
  assumes ok: "rcr_ok w" and mem: "length (ali_s (loss_ali (v_mem e))) = 8"
    and s: "create_rcrt_connection e tid addr req w = Some w'"
  shows "rcr_good w w'"
proof -
  have new: "(tid, addr) \<notin> set (conn_keys (m_rcrtcs w))"
    using s by (simp add: create_rcrt_connection_def find_connection_None split: if_split_asm)
  then have f: "\<not> find_connection (m_rcrtcs w) tid addr \<noteq> None" by (simp add: find_connection_None)
  note s' = s [unfolded create_rcrt_connection_def Let_def if_not_P [OF f]]
  obtain v where h: "c_tid (hd (m_rcrtcs v)) = tid" "c_addr (hd (m_rcrtcs v)) = addr" "rcr_conn_ok (hd (m_rcrtcs v))"
      "m_rcrtcs v \<noteq> []" "tl (m_rcrtcs v) = m_rcrtcs w"
    and v: "m_num_rtrc v = m_num_rtrc w + 1" "m_N v = m_N w" "rcr_deleted v = rcr_deleted w"
    and a: "adjust_rates_at_node_join (v_fpu e) (v_now e) (if req = 0 then 20 else req) v = Some w'"
    by (rule that [OF _ _ _ _ _ _ _ _ s'])
      (simp_all add: add_connection_def rcr_conn_ok_def FID_LIST_LEN_def ali_inv_init [OF mem])
  define c where "c = hd (m_rcrtcs v)"
  have c: "c_tid c = tid" "c_addr c = addr" "rcr_conn_ok c" "m_rcrtcs v = c # m_rcrtcs w"
    using h hd_Cons_tl [OF h(4)] by (simp_all add: c_def)
  have k: "conn_keys (m_rcrtcs w') = conn_keys (m_rcrtcs v)"
    using arg_cong [OF conjunct1 [OF adjust_rates_keeps [OF a]], of conn_keys] by (simp add: comp_def)
  have o: "(\<forall>c \<in> set (m_rcrtcs w'). rcr_conn_ok c) = (\<forall>c \<in> set (m_rcrtcs v). rcr_conn_ok c)"
    using arg_cong [OF conjunct1 [OF adjust_rates_keeps [OF a]], of "\<lambda>cs. \<forall>c \<in> set cs. rcr_conn_ok c"]
    by (simp add: conn_ok_unrated)
  have "length (m_rcrtcs w') = Suc (length (m_rcrtcs w))" using arg_cong [OF k, of length] c(4) by simp
  then show ?thesis using ok new c v adjust_rates_keeps [OF a] k o by (simp add: rcr_good_def rcr_ok_def)
qed

section \<open>The handlers\<close>

lemma rcr_note_seqno_step:
  assumes "rounds (v_fpu e) r" "rcr_note_seqno e flag seqno c = Some (n, c')"
  shows "conn_step c c'"
proof -
  have del: "conn_step c (c\<lparr>rc_missingList := snd x\<rparr>)" if "u16list_delete (rc_missingList c) seqno = Some x" for x
    using that ul_delete [of "rc_missingList c" seqno] by (auto simp: conn_step_def rcr_conn_ok_def)
  have upd: "conn_step c2 (c2\<lparr>pktrate := p, loss_ewma := l,
      loss_ali := update_loss_ali (v_fpu e) a b (loss_ali c2), lastRecvSeqNo := s\<rparr>)" for c2 p l a b s
    using update_loss_ali_inv [OF assms(1)] by (simp add: conn_step_def rcr_conn_ok_def)
  obtain c1 where c1: "conn_step c c1" and rest: "(if tr_seqno_cmp seqno (lastRecvSeqNo c1) > 0 then do {
        (n, c2) \<leftarrow> r_detectMissingPacket seqno c1;
        Some (n, c2\<lparr>pktrate := update_packetrate (v_fpu e) (v_now e) (v_junk e) (int n + 1) (pktrate c2),
          loss_ewma := update_loss_ewma (v_fpu e) (v_now e) (v_junk e) (lastRecvSeqNo c2) seqno (loss_ewma c2),
          loss_ali := update_loss_ali (v_fpu e) (lastRecvSeqNo c2) seqno (loss_ali c2), lastRecvSeqNo := seqno\<rparr>)
      } else Some (0, c1)) = Some (n, c')"
  proof (cases "(flag AND RCRT_FLAG_RETX) \<noteq> 0 \<or> tr_seqno_cmp seqno (lastRecvSeqNo c) < 0")
    case True
    obtain x l where x: "u16list_delete (rc_missingList c) seqno = Some (x, l)"
      using assms(2) True by (auto simp: rcr_note_seqno_def split: bind_splits)
    show thesis
      by (rule that [OF del [OF x] assms(2) [unfolded rcr_note_seqno_def if_P [OF True] x bind.bind_lunit]])
  next
    case False
    show thesis
      by (rule that [OF conn_step_refl assms(2) [unfolded rcr_note_seqno_def if_not_P [OF False] bind.bind_lunit]])
  qed
  show ?thesis
    using c1 rest upd by (auto split: if_split_asm bind_splits dest!: r_detect_step elim!: conn_step_trans)
qed

lemma rcr_new_packet_step:
  assumes s: "rcr_new_packet e flag seqno payload c w = Some (res, c', w')" and c: "rcr_conn_ok c"
  shows "rcr_frame w w' \<and> c' \<in> set (m_rcrtcs w') \<and> c_tid c' = c_tid c \<and> c_addr c' = c_addr c"
proof -
  let ?F = "v_fpu e" and ?now = "v_now e"
  let ?c0 = "c\<lparr>rc_timeoutCount := 0\<rparr>"
  define c1 where "c1 = update_rtt_estimate ?F ?now (get32le payload 4) (get16le payload 2) (rcr_put c w) ?c0"
  have "conn_step c ?c0" by (simp add: conn_step_def rcr_conn_ok_def)
  then have c1: "conn_step c c1" using rtt_step [of ?c0] unfolding c1_def by (rule conn_step_trans)
  obtain c2 w2 where r2: "receive_rtr_msg c1 seqno (drop 8 payload) w = Some (c2, w2)"
    using s by (auto simp: rcr_new_packet_def Let_def c1_def split: if_split_asm bind_splits)
  have c2: "conn_step c1 c2" "rcr_frame w w2" using up_step_frame [OF receive_rtr_msg_step [OF r2]] by simp_all
  let ?c2 = "c2\<lparr>goodput := update_packetrate ?F ?now (v_junk e) 1 (goodput c2),
      totalRetxPackets := (if (flag AND RCRT_FLAG_RETX) \<noteq> 0 then totalRetxPackets c2 + 1 else totalRetxPackets c2)\<rparr>"
  define c3 where "c3 = update_congestion_level ?F ?c2"
  have "conn_step c2 ?c2" by (simp add: conn_step_def rcr_conn_ok_def)
  then have "conn_step c2 c3" using congestion_step unfolding c3_def by (rule conn_step_trans)
  then have c3: "conn_step c c3" using c1 c2(1) conn_step_trans by blast
  then have put: "rcr_frame w (rcr_put c3 w2)"
    using c2(2) rcr_put_frame [of c3 w2] c by (auto simp: conn_step_def intro: rcr_frame_trans)
  obtain w4 where w4: "w4 = w'" "rcr_again c3 w4 = Some c'"
    "w4 = rcr_put c3 w2 \<or> rated (rcr_put c3 w2) w4"
  proof -
    have len: "\<not> length payload < 8" using s by (auto simp: rcr_new_packet_def split: if_split_asm)
    note t = s [unfolded rcr_new_packet_def if_not_P [OF len] Let_def c1_def [symmetric] r2 bind.bind_lunit prod.case
        c3_def [symmetric]]
    show thesis
    proof (cases "(flag AND RCRT_FLAG_RETX) = 0")
      case True
      from t [unfolded if_P [OF True] bind_eq_Some_conv]
      obtain x where x: "do_rate_control ?F ?now c3 (get16le payload 0) (rcr_put c3 w2) = Some x"
        "rcr_again c3 (snd x) = Some c'" "x = (res, w')"
        by (elim exE conjE) (erule that, auto simp add: split_beta bind_eq_Some_conv prod_eq_iff)
      then show thesis using that [of w'] do_rate_control_rated by simp
    next
      case False
      have "rcr_again c3 (rcr_put c3 w2) = Some c' \<and> rcr_put c3 w2 = w'"
        using t [unfolded if_not_P [OF False] bind.bind_lunit prod.case bind_eq_Some_conv] by (elim exE conjE) simp
      then show thesis using that [of w'] by auto
    qed
  qed
  have "rcr_frame (rcr_put c3 w2) w'" using w4(1,3) rated_frame by auto
  then show ?thesis using rcr_frame_trans [OF put] rcr_again_ok [OF w4(2)] w4(1) c3 by (auto simp: conn_step_def)
qed

lemma conn_step_key: "conn_step c c' \<Longrightarrow> (c_tid c', c_addr c') = (c_tid c, c_addr c)"
  by (simp add: conn_step_def)

lemma frame_keys: "rcr_frame w w' \<Longrightarrow> k \<in> set (conn_keys (m_rcrtcs w)) \<Longrightarrow> k \<in> set (conn_keys (m_rcrtcs w'))"
  unfolding rcr_frame_def by metis

lemma put_good: "rcr_ok w \<Longrightarrow> rcr_frame w v \<Longrightarrow> rcr_conn_ok c \<Longrightarrow> rcr_good w (rcr_put c v)"
  using rcr_frame_good rcr_frame_trans rcr_put_frame by blast

lemma delete_good:
  assumes "rcr_ok w" "rcr_frame w v" "(c_tid c, c_addr c) \<in> set (conn_keys (m_rcrtcs w))"
  shows "rcr_good w (delete_rcrt_connection F now c v)"
  using delete_keeps [OF rcr_frame_ok [OF assms(2,1)] frame_keys [OF assms(2,3)], of F now] assms(2)
  by (simp add: rcr_good_def rcr_frame_def)

lemma rcr_data_tail_good:
  assumes s: "rcr_data_tail e send c w = Some w'" and ok: "rcr_ok w" and c: "rcr_conn_ok c"
    and k: "(c_tid c, c_addr c) \<in> set (conn_keys (m_rcrtcs w))"
  shows "rcr_good w w'"
proof (cases "u16list_isEmpty (rc_missingList c) \<and> rc_state c = RCRT_S_FIN_RETX_WAIT")
  case True
  then obtain w1 where w1: "r_send_FIN_ACK c w = Some w1" "w' = delete_rcrt_connection (v_fpu e) (v_now e) c (rcr_put c w1)"
    using s by (auto simp: rcr_data_tail_def split: bind_splits)
  have "rcr_frame w (rcr_put c w1)" using rcr_frame_trans [OF send_FIN_ACK_frame(2) [OF w1(1)] rcr_put_frame [OF c]] .
  then show ?thesis unfolding w1(2) using delete_good [OF ok _ k] by blast
next
  case False
  define c1 where "c1 = (if u16list_isEmpty (rc_missingList c)
                 then (if rc_state c = RCRT_S_NACK_WAIT then c\<lparr>rc_state := RCRT_S_ACTIVE\<rparr> else c)
                 else (if rc_state c = RCRT_S_ACTIVE then c\<lparr>rc_state := RCRT_S_NACK_WAIT\<rparr> else c))"
  have c1: "rcr_conn_ok c1" using c by (simp add: c1_def rcr_conn_ok_def)
  show ?thesis
  proof (cases send)
    case True
    then obtain c2 w2 where f: "send_FEEDBACK (v_fpu e) (v_now e) c1 w = Some (c2, w2)"
      "w' = rcr_put (if tv_sec (alarm_time c2) = 0
              then RCRT_Timer_start (v_now e) (feedback_timeout (v_fpu e) c2) c2 else c2) w2"
      using s unfolding rcr_data_tail_def if_not_P [OF False] Let_def c1_def [symmetric] by (auto split: bind_splits)
    have "rcr_conn_ok c2" using send_FEEDBACK_step(1) [OF f(1)] c1 by (simp add: conn_step_def)
    then have "rcr_conn_ok (if tv_sec (alarm_time c2) = 0
        then RCRT_Timer_start (v_now e) (feedback_timeout (v_fpu e) c2) c2 else c2)"
      using Timer_conn_step(1) by (simp add: conn_step_def)
    then show ?thesis unfolding f(2) by (rule put_good [OF ok send_FEEDBACK_step(2) [OF f(1)]])
  next
    case no: False
    then have "w' = rcr_put c1 w"
      using s unfolding rcr_data_tail_def if_not_P [OF False] Let_def c1_def [symmetric] by simp
    then show ?thesis using put_good [OF ok rcr_frame_refl c1] by simp
  qed
qed

lemma found_ok:
  "rcr_ok w \<Longrightarrow> find_connection (m_rcrtcs w) tid addr = Some c \<Longrightarrow>
    rcr_conn_ok c \<and> (c_tid c, c_addr c) \<in> set (conn_keys (m_rcrtcs w))"
  by (auto simp: rcr_ok_def dest: find_connection_Some)

lemma rcr_receive_data_good:
  assumes F: "rounds (v_fpu e) r" and s: "rcr_receive_data e flag tid addr seqno payload w = Some w'" and ok: "rcr_ok w"
  shows "rcr_good w w'"
proof (cases "find_connection (m_rcrtcs w) tid addr")
  case None
  then show ?thesis using s ok by (simp add: rcr_receive_data_def rcr_good_def)
next
  case (Some c0)
  note f = found_ok [OF ok Some]
  show ?thesis
  proof (cases "tr_seqno_cmp seqno (lastRecvSeqNo c0) > 0 \<and> tr_seqno_diff seqno (lastRecvSeqNo c0) > 100")
    case True
    then show ?thesis using s ok Some by (simp add: rcr_receive_data_def rcr_good_def)
  next
    case False
    let ?new = "tr_seqno_cmp seqno (rc_nextExpectedSeqNo c0) \<ge> 0 \<and> SPList_find (rc_plist c0) (int (unat seqno)) < 0"
    let ?c1 = "if ?new then c0\<lparr>totalRecvPackets := totalRecvPackets c0 + 1\<rparr> else c0"
    have c1: "conn_step c0 ?c1" by (simp add: conn_step_def rcr_conn_ok_def)
    obtain n c2 send res c3 w3 where r: "rcr_note_seqno e flag seqno ?c1 = Some (n, c2)"
      "(if ?new then rcr_new_packet e flag seqno payload c2 w else Some (0, c2, w)) = Some (res, c3, w3)"
      "rcr_data_tail e send c3 w3 = Some w'"
      using s False Some by (auto simp: rcr_receive_data_def Let_def split: bind_splits)
    have c2: "conn_step c0 c2" using c1 rcr_note_seqno_step [OF F r(1)] by (rule conn_step_trans)
    then have c2': "rcr_conn_ok c2" using f by (simp add: conn_step_def)
    have "rcr_frame w w3 \<and> rcr_conn_ok c3 \<and> (c_tid c3, c_addr c3) = (c_tid c2, c_addr c2)"
    proof (cases ?new)
      case True
      then show ?thesis using rcr_new_packet_step [OF _ c2', of e flag seqno payload w res c3 w3] r(2) ok
        by (auto simp: rcr_frame_def rcr_ok_def)
    next
      case False
      then show ?thesis using r(2) c2' by auto
    qed
    then have w3: "rcr_frame w w3" "rcr_conn_ok c3" "(c_tid c3, c_addr c3) = (c_tid c0, c_addr c0)"
      using conn_step_key [OF c2] by auto
    have "(c_tid c3, c_addr c3) \<in> set (conn_keys (m_rcrtcs w3))" using frame_keys [OF w3(1)] f unfolding w3(3) by blast
    from rcr_data_tail_good [OF r(3) rcr_frame_ok [OF w3(1) ok] w3(2) this]
    show ?thesis using rcr_good_trans rcr_frame_good [OF w3(1) ok] by blast
  qed
qed

lemma rcr_receive_syn_good:
  assumes mem: "length (ali_s (loss_ali (v_mem e))) = 8" and ok: "rcr_ok w"
    and s: "rcr_receive_syn e tid addr payload w = Some w'"
  shows "rcr_good w w'"
proof -
  obtain w1 c c1 w2 where r: "(case find_connection (m_rcrtcs w) tid addr of Some c \<Rightarrow> Some w
      | None \<Rightarrow> do { rate \<leftarrow> rmsg_rate payload; create_rcrt_connection e tid addr rate w }) = Some w1"
    "find_connection (m_rcrtcs w1) tid addr = Some c" "r_send_SYN_ACK (v_now e) c w1 = Some (c1, w2)" "w' = rcr_put c1 w2"
    using s by (auto simp: rcr_receive_syn_def split: bind_splits)
  have w1: "rcr_good w w1"
  proof (cases "find_connection (m_rcrtcs w) tid addr")
    case None
    then show ?thesis using r(1) create_keeps [OF ok mem] by (auto split: bind_splits)
  next
    case (Some x)
    then show ?thesis using r(1) ok by (simp add: rcr_good_def)
  qed
  then have ok1: "rcr_ok w1" by (simp add: rcr_good_def)
  have "rcr_conn_ok c1" using send_SYN_ACK_step(1) [OF r(3)] found_ok [OF ok1 r(2)] by (simp add: conn_step_def)
  from put_good [OF ok1 send_SYN_ACK_step(2) [OF r(3)] this] show ?thesis
    unfolding r(4) using w1 rcr_good_trans by blast
qed

lemma rcr_receive_fin_good:
  assumes ok: "rcr_ok w" and s: "rcr_receive_fin e tid addr seqno w = Some w'"
  shows "rcr_good w w'"
proof (cases "find_connection (m_rcrtcs w) tid addr")
  case None
  then show ?thesis using s rcr_frame_good [OF send_FIN_ACK_frame(1) ok] by (simp add: rcr_receive_fin_def)
next
  case (Some c0)
  note f = found_ok [OF ok Some]
  have lst: "conn_step c0 (c0\<lparr>lastRecvSeqNo := seqno\<rparr>)" for c0 by (simp add: conn_step_def rcr_conn_ok_def)
  obtain c where c: "(if tr_seqno_cmp seqno (lastRecvSeqNo c0) > 0 then do {
                 (n, c1) \<leftarrow> r_detectMissingPacket seqno c0;
                 Some (c1\<lparr>lastRecvSeqNo := seqno\<rparr>)
               } else Some c0) = Some c"
    using s Some by (cases "tr_seqno_cmp seqno (lastRecvSeqNo c0) > 0") (auto simp: rcr_receive_fin_def split: bind_splits)
  then have "conn_step c0 c"
    using lst by (auto split: if_split_asm bind_splits dest!: r_detect_step elim!: conn_step_trans)
  then have cok: "rcr_conn_ok c" and ckey: "(c_tid c, c_addr c) \<in> set (conn_keys (m_rcrtcs w))"
    using f by (simp_all add: conn_step_def)
  note t = s [unfolded rcr_receive_fin_def Some option.case c bind.bind_lunit]
  show ?thesis
  proof (cases "u16list_isEmpty (rc_missingList c)")
    case True
    then obtain w1 where w1: "r_send_FIN_ACK c w = Some w1" "w' = delete_rcrt_connection (v_fpu e) (v_now e) c (rcr_put c w1)"
      using t by (auto split: bind_splits)
    have "rcr_frame w (rcr_put c w1)" using rcr_frame_trans [OF send_FIN_ACK_frame(2) [OF w1(1)] rcr_put_frame [OF cok]] .
    then show ?thesis unfolding w1(2) using delete_good [OF ok _ ckey] by blast
  next
    case False
    let ?c = "if rc_state c \<noteq> RCRT_S_FIN_RETX_WAIT
               then c\<lparr>rc_state := RCRT_S_FIN_RETX_WAIT, rc_timeoutCount := 0\<rparr> else c"
    obtain c1 w1 where r: "send_FEEDBACK (v_fpu e) (v_now e) ?c w = Some (c1, w1)"
      "w' = rcr_put (RCRT_Timer_start (v_now e) (feedback_timeout (v_fpu e) c1) c1) w1"
      using t [unfolded if_not_P [OF False]] by (auto split: bind_splits)
    have "rcr_conn_ok ?c" using cok by (simp add: rcr_conn_ok_def)
    then have "rcr_conn_ok (RCRT_Timer_start (v_now e) (feedback_timeout (v_fpu e) c1) c1)"
      using send_FEEDBACK_step(1) [OF r(1)] Timer_conn_step(1) by (auto simp: conn_step_def)
    then show ?thesis unfolding r(2) by (rule put_good [OF ok send_FEEDBACK_step(2) [OF r(1)]])
  qed
qed

lemma rcrtransport_receive_good:
  assumes "rounds (v_fpu e) r" "length (ali_s (loss_ali (v_mem e))) = 8" "rcr_ok w"
    and "rcrtransport_receive e packet addr w = Some w'"
  shows "rcr_good w w'"
  using assms rcr_receive_syn_good [OF assms(2,3)] rcr_receive_fin_good [OF assms(3)] rcr_receive_data_good [OF assms(1) _ assms(3)]
  by (auto simp: rcrtransport_receive_def Let_def rcr_good_def split: if_split_asm bind_splits)

text \<open>The loop over the list ends, because a step deletes a connection or moves on.\<close>

lemma rcr_delete_loop_good:
  assumes "rcr_ok w"
  shows "\<exists>res w'. rcr_delete_loop F now tid i result w = Some (res, w') \<and> rcr_good w w'"
  using assms
proof (induction "length (m_rcrtcs w) - i" arbitrary: w i result rule: less_induct)
  case less
  show ?case
  proof (cases "i < length (m_rcrtcs w)")
    case False
    then show ?thesis using less.prems by (simp add: rcr_delete_loop.simps [of F now tid i] rcr_good_def)
  next
    case True
    let ?c = "m_rcrtcs w ! i" and ?r = "if result = 0 then 1 else result"
    have mem: "?c \<in> set (m_rcrtcs w)" using True by simp
    have nxt: "length (m_rcrtcs w) - (i + 1) < length (m_rcrtcs w) - i" using True by simp
    have k: "(c_tid ?c, c_addr ?c) \<in> set (conn_keys (m_rcrtcs w))" using mem by auto
    consider "c_tid ?c \<noteq> tid" | "c_tid ?c = tid" "totalRecvPackets ?c = 0" | "c_tid ?c = tid" "totalRecvPackets ?c \<noteq> 0"
      by blast
    then show ?thesis
    proof cases
      case 1
      then show ?thesis using less.hyps [OF nxt less.prems] True by (simp add: rcr_delete_loop.simps [of F now tid i])
    next
      case 2
      let ?w = "delete_rcrt_connection F now ?c w"
      note d = delete_keeps [OF less.prems k, of F now]
      have "length (m_rcrtcs ?w) - i < length (m_rcrtcs w) - i" using d(3) True by linarith
      from less.hyps [OF this d(1), of ?r] obtain res w' where
        "rcr_delete_loop F now tid i ?r ?w = Some (res, w')" "rcr_good ?w w'" by blast
      moreover have "rcr_good w ?w" using d by (simp add: rcr_good_def)
      ultimately show ?thesis using 2 True rcr_good_trans
        by (intro exI [of _ res] exI [of _ w']) (auto simp: rcr_delete_loop.simps [of F now tid i])
    next
      case 3
      let ?c' = "(if tv_sec (alarm_time ?c) = 0 then RCRT_Timer_start now (of_nat RCRT_CONNECTION_TIMEOUT) ?c else ?c)
                     \<lparr>rc_deletePending := True\<rparr>"
      let ?w = "w\<lparr>m_rcrtcs := (m_rcrtcs w)[i := ?c']\<rparr>"
      have c': "c_tid ?c' = c_tid ?c" "c_addr ?c' = c_addr ?c" "rcr_conn_ok ?c'"
        using less.prems mem by (auto simp: RCRT_Timer_start_def rcr_ok_def rcr_conn_ok_def)
      have keys: "conn_keys ((m_rcrtcs w)[i := ?c']) = conn_keys (m_rcrtcs w)"
        using True c'(1,2) by (simp add: map_update) (metis (no_types, lifting) list_update_id nth_map)
      have "rcr_frame w ?w" unfolding rcr_frame_def
        using keys c'(3) set_update_subset_insert [of "m_rcrtcs w" i ?c'] by auto
      note g = rcr_frame_good [OF this less.prems]
      then have ok: "rcr_ok ?w" by (simp add: rcr_good_def)
      have "length (m_rcrtcs ?w) - (i + 1) < length (m_rcrtcs w) - i" using nxt by simp
      from less.hyps [OF this ok, of "-1"] obtain res w' where
        "rcr_delete_loop F now tid (i + 1) (-1) ?w = Some (res, w')" "rcr_good ?w w'" by blast
      then show ?thesis using 3 True rcr_good_trans [OF g]
        by (intro exI [of _ res] exI [of _ w']) (simp add: rcr_delete_loop.simps [of F now tid i] Let_def)
    qed
  qed
qed

section \<open>Timers\<close>

lemma feedback_loop_total:
  assumes "ul_inv ml" "i \<le> 10" "cnt \<le> i"
  shows "\<exists>ml' p' cnt'. feedback_loop seq ml p i cnt = Some (ml', p', cnt') \<and> cnt' \<le> 10 \<and> length p' = length p
    \<and> ((\<forall>v \<in> set (ul_values ml). \<not> nack_void seq v) \<longrightarrow> ml' = ml)"
  using assms
proof (induction "(10 - i) + length (ul_values ml)" arbitrary: ml i cnt p rule: less_induct)
  case less
  show ?case
  proof (cases "i < 10")
    case False
    then have "feedback_loop seq ml p i cnt = Some (ml, p, cnt)"
      by (simp add: feedback_loop.simps [of seq ml p i] consts_defs)
    then show ?thesis using less.prems by auto
  next
    case i: True
    have step: "\<exists>ml' p' cnt'. feedback_loop seq ml q (i + 1) k = Some (ml', p', cnt') \<and> cnt' \<le> 10 \<and> length p' = length q
        \<and> ((\<forall>v \<in> set (ul_values ml). \<not> nack_void seq v) \<longrightarrow> ml' = ml)"
      if "k \<le> i + 1" for q k
      using less.hyps [of "i + 1" ml k q] i less.prems(1) that by simp
    show ?thesis
    proof (cases "int i < ul_length ml")
      case False
      then show ?thesis using i step [of cnt "put16le p (16 + 2 * i) 0"] less.prems(3)
        by (simp add: feedback_loop.simps [of seq ml p i] consts_defs)
    next
      case True
      define v where "v = ul_values ml ! i"
      have len: "i < length (ul_values ml)" using True ul_length_values [OF less.prems(1)] by simp
      have g: "u16list_get_ith ml (of_nat (i + 1)) = Some v"
        using ul_get_ith [OF less.prems(1), of "i + 1"] len i by (simp add: v_def)
      show ?thesis
      proof (cases "tr_seqno_cmp seq (tr_seqno_add v (of_nat TR_VALID_RANGE)) \<ge> 0")
        case False
        then show ?thesis using i True g step [of "cnt + 1" "put16le p (16 + 2 * i) v"] less.prems(3)
          by (simp add: feedback_loop.simps [of seq ml p i] consts_defs)
      next
        case void: True
        have v: "v \<in> set (ul_values ml)" using len by (simp add: v_def)
        obtain l where l: "u16list_delete ml v = Some (v, l)" "ul_inv l" "ul_values l = remove1 v (ul_values ml)"
          using ul_delete [OF less.prems(1), of v] v by auto
        have "10 - i + length (ul_values l) < 10 - i + length (ul_values ml)"
          using l(3) v len by (simp add: length_remove1)
        from less.hyps [OF this l(2) less.prems(2,3), of p] 
        obtain ml' p' cnt' where r: "feedback_loop seq l p i cnt = Some (ml', p', cnt')" "cnt' \<le> 10" "length p' = length p"
          by blast
        have "feedback_loop seq ml p i cnt = Some (ml', p', cnt')"
          using i True g void l(1) r(1) by (simp add: feedback_loop.simps [of seq ml p i] consts_defs)
        then show ?thesis using r(2,3) v void by blast
      qed
    qed
  qed
qed

lemma send_FEEDBACK_total:
  assumes "ul_inv (rc_missingList c)"
  shows "\<exists>c' w'. send_FEEDBACK F now c w = Some (c', w')"
proof -
  obtain fid c1 where u: "update_feedback_send_info now w c = (fid, c1)" by fastforce
  obtain ml q cnt where l: "feedback_loop (lastRecvSeqNo c) (rc_missingList c) (replicate 36 0) 0 0 = Some (ml, q, cnt)"
    "cnt \<le> 10" "length q = 36"
    using feedback_loop_total [OF assms, of 0 0 "lastRecvSeqNo c" "replicate 36 0"] by auto
  have "unat (of_nat (10 + 2 * cnt) :: u8) = 10 + 2 * cnt"
    using l(2) by (simp only: unat_of_nat_u8) simp
  then have ck: "tr_calculate_checksum h (of_nat (10 + 2 * cnt)) = Some (get8 h 5 - sum8 h (6 + unat (of_nat (10 + 2 * cnt) :: u8)))" for h
    using l(2) by (intro tr_calculate_checksum_eq) simp
  show ?thesis
    unfolding send_FEEDBACK_def u prod.case Let_def l(1) bind.bind_lunit ck by blast
qed

lemma RCRT_Timer_fired_good:
  assumes ok: "rcr_ok w" and c: "c0 \<in> set (m_rcrtcs w)" and s: "RCRT_Timer_fired e c0 w = Some w'"
  shows "rcr_good w w'"
proof -
  let ?F = "v_fpu e" and ?now = "v_now e"
  let ?c = "RCRT_Timer_stop c0"
  let ?c1 = "?c\<lparr>rc_timeoutCount := rc_timeoutCount ?c + 1\<rparr>"
  have c0: "rcr_conn_ok c0" "(c_tid c0, c_addr c0) \<in> set (conn_keys (m_rcrtcs w))"
    using ok c by (auto simp: rcr_ok_def)
  have okc: "rcr_conn_ok ?c" "rcr_conn_ok ?c1" using c0(1) by (simp_all add: rcr_conn_ok_def RCRT_Timer_stop_def)
  have start: "rcr_conn_ok (RCRT_Timer_start ?now ms c)" if "rcr_conn_ok c" for ms c
    using that Timer_conn_step(1) [of c] by (simp add: conn_step_def)
  have put: "rcr_good w (rcr_put c w)" if "rcr_conn_ok c" for c by (rule put_good [OF ok rcr_frame_refl that])
  have key: "(c_tid ?c1, c_addr ?c1) \<in> set (conn_keys (m_rcrtcs w))" using c0(2) by (simp add: RCRT_Timer_stop_def)
  have del: "rcr_good w (delete_rcrt_connection ?F ?now ?c1 (rcr_put ?c1 w))"
    by (rule delete_good [OF ok rcr_put_frame [OF okc(2)] key])
  show ?thesis
  proof (cases "rc_state ?c = RCRT_S_ACTIVE \<or> rc_deletePending ?c1")
    case True
    then show ?thesis using s put okc start [OF okc(2)] del
      by (auto simp: RCRT_Timer_fired_def Let_def split: if_split_asm)
  next
    case False
    then have n: "\<not> rc_state ?c = RCRT_S_ACTIVE" "\<not> rc_deletePending ?c1" by auto
    let ?c2 = "update_congestion_level ?F ?c1"
    let ?w2 = "rcr_put ?c2 w"
    have c2: "rcr_conn_ok ?c2" using congestion_step [of ?c1] okc(2) by (simp add: conn_step_def)
    note g2 = put [OF c2]
    then have ok2: "rcr_ok ?w2" by (simp add: rcr_good_def)
    obtain c3 w3 c4 w4 where r: "(if rc_timeoutCount ?c2 \<ge> 2 \<and> is_all_connection_update_time_ok ?F ?now (-1) ?w2
                        \<and> congestion_should_decrease_rate ?c2 ?w2
                      then do {
                        (ok, v) \<leftarrow> decrease_all_rate ?F ?now (a_Lavg (loss_ali ?c2)) ?w2;
                        c3 \<leftarrow> rcr_again ?c2 v;
                        Some (c3\<lparr>rc_timeoutCount := 0\<rparr>,
                              (if ok then v\<lparr>last_congestion_level := get_congestion_level ?c2\<rparr> else v))
                      } else Some (?c2, ?w2)) = Some (c3, w3)"
      "send_FEEDBACK ?F ?now c3 w3 = Some (c4, w4)"
      "w' = rcr_put (RCRT_Timer_start ?now (feedback_timeout ?F c4) c4) w4"
      using s unfolding RCRT_Timer_fired_def Let_def if_not_P [OF n(1)] if_not_P [OF n(2)]
      by (auto split: bind_splits)
    have "rcr_frame ?w2 w3 \<and> rcr_conn_ok c3"
    proof (cases "rc_timeoutCount ?c2 \<ge> 2 \<and> is_all_connection_update_time_ok ?F ?now (-1) ?w2
        \<and> congestion_should_decrease_rate ?c2 ?w2")
      case True
      obtain b v c where d: "decrease_all_rate ?F ?now (a_Lavg (loss_ali ?c2)) ?w2 = Some (b, v)" "rcr_again ?c2 v = Some c"
        "c3 = c\<lparr>rc_timeoutCount := 0\<rparr>" "w3 = (if b then v\<lparr>last_congestion_level := get_congestion_level ?c2\<rparr> else v)"
        using r(1) [unfolded if_P [OF True]] by (auto split: bind_splits)
      have "rated ?w2 w3" using decrease_rated [OF d(1)] d(4) by simp
      moreover have "rcr_ok v" using rcr_frame_ok [OF rated_frame [OF decrease_rated [OF d(1)]] ok2] .
      then have "rcr_conn_ok c" using rcr_again_ok [OF d(2)] by (simp add: rcr_ok_def)
      ultimately show ?thesis using rated_frame d(3) by (simp add: rcr_conn_ok_def)
    next
      case False
      show ?thesis using r(1) [unfolded if_not_P [OF False]] c2 by auto
    qed
    then have w3: "rcr_frame ?w2 w3" "rcr_conn_ok c3" by auto
    have "rcr_conn_ok c4" using send_FEEDBACK_step(1) [OF r(2)] w3(2) by (simp add: conn_step_def)
    from put_good [OF rcr_frame_ok [OF w3(1) ok2] send_FEEDBACK_step(2) [OF r(2)] start [OF this]]
    show ?thesis unfolding r(3) using g2 rcr_frame_good [OF w3(1) ok2] rcr_good_trans by blast
  qed
qed

text \<open>In the state ACTIVE the handler goes on in the connection it has just freed; nowhere else does it fail.\<close>

lemma RCRT_Timer_fired_undefined:
  assumes ok: "rcr_ok w" and c: "c0 \<in> set (m_rcrtcs w)"
  shows "RCRT_Timer_fired e c0 w = None \<longleftrightarrow> rc_state c0 = RCRT_S_ACTIVE \<and> rc_deletePending c0
    \<and> (rc_timeoutCount c0 + 1 \<ge> RCRT_MAX_ALIVE_TIMEOUT \<or> totalRecvPackets c0 = 0)"
proof -
  let ?F = "v_fpu e" and ?now = "v_now e"
  let ?c = "RCRT_Timer_stop c0"
  let ?c1 = "?c\<lparr>rc_timeoutCount := rc_timeoutCount ?c + 1\<rparr>"
  have f: "rc_state ?c = rc_state c0" "rc_deletePending ?c = rc_deletePending c0" "rc_timeoutCount ?c = rc_timeoutCount c0"
    "totalRecvPackets ?c = totalRecvPackets c0"
    by (simp_all add: RCRT_Timer_stop_def)
  show ?thesis
  proof (cases "rc_state c0 = RCRT_S_ACTIVE \<or> rc_deletePending c0")
    case True
    then show ?thesis by (simp add: RCRT_Timer_fired_def Let_def RCRT_Timer_stop_def) blast
  next
    case False
    then have n: "\<not> rc_state ?c = RCRT_S_ACTIVE" "\<not> rc_deletePending ?c1" using f by auto
    let ?c2 = "update_congestion_level ?F ?c1"
    let ?w2 = "rcr_put ?c2 w"
    have c0: "rcr_conn_ok c0" "(c_tid c0, c_addr c0) \<in> set (conn_keys (m_rcrtcs w))" using ok c by (auto simp: rcr_ok_def)
    have "conn_step c0 ?c1" by (simp add: conn_step_def rcr_conn_ok_def RCRT_Timer_stop_def)
    then have st: "conn_step c0 ?c2" using congestion_step by (rule conn_step_trans)
    then have c2: "rcr_conn_ok ?c2" "(c_tid ?c2, c_addr ?c2) = (c_tid c0, c_addr c0)"
      using c0(1) by (simp_all add: conn_step_def)
    have ok2: "rcr_ok ?w2" using rcr_frame_ok [OF rcr_put_frame [OF c2(1)] ok] .
    have "\<exists>c3 w3. (if rc_timeoutCount ?c2 \<ge> 2 \<and> is_all_connection_update_time_ok ?F ?now (-1) ?w2
                        \<and> congestion_should_decrease_rate ?c2 ?w2
                      then do {
                        (ok, v) \<leftarrow> decrease_all_rate ?F ?now (a_Lavg (loss_ali ?c2)) ?w2;
                        c3 \<leftarrow> rcr_again ?c2 v;
                        Some (c3\<lparr>rc_timeoutCount := 0\<rparr>,
                              (if ok then v\<lparr>last_congestion_level := get_congestion_level ?c2\<rparr> else v))
                      } else Some (?c2, ?w2)) = Some (c3, w3) \<and> rcr_conn_ok c3"
    proof (cases "rc_timeoutCount ?c2 \<ge> 2 \<and> is_all_connection_update_time_ok ?F ?now (-1) ?w2
        \<and> congestion_should_decrease_rate ?c2 ?w2")
      case True
      obtain b v where d: "decrease_all_rate ?F ?now (a_Lavg (loss_ali ?c2)) ?w2 = Some (b, v)"
        using decrease_all_rate_total by blast
      note fr = rated_frame [OF decrease_rated [OF d]]
      have "(c_tid ?c2, c_addr ?c2) \<in> set (conn_keys (m_rcrtcs v))"
        using frame_keys [OF rcr_frame_trans [OF rcr_put_frame [OF c2(1)] fr]] c0(2) unfolding c2(2) by blast
      then have "find_connection (m_rcrtcs v) (c_tid ?c2) (c_addr ?c2) \<noteq> None" unfolding find_connection_None by blast
      then obtain c' where a: "rcr_again ?c2 v = Some c'" unfolding rcr_again_def by blast
      have "rcr_conn_ok (c'\<lparr>rc_timeoutCount := 0\<rparr>)"
        using rcr_again_ok [OF a] rcr_frame_ok [OF fr ok2] by (simp add: rcr_ok_def rcr_conn_ok_def)
      then show ?thesis unfolding if_P [OF True] d bind.bind_lunit prod.case a by blast
    next
      case False
      show ?thesis unfolding if_not_P [OF False] using c2(1) by blast
    qed
    then obtain c3 w3 where r: "(if rc_timeoutCount ?c2 \<ge> 2 \<and> is_all_connection_update_time_ok ?F ?now (-1) ?w2
                        \<and> congestion_should_decrease_rate ?c2 ?w2
                      then do {
                        (ok, v) \<leftarrow> decrease_all_rate ?F ?now (a_Lavg (loss_ali ?c2)) ?w2;
                        c3 \<leftarrow> rcr_again ?c2 v;
                        Some (c3\<lparr>rc_timeoutCount := 0\<rparr>,
                              (if ok then v\<lparr>last_congestion_level := get_congestion_level ?c2\<rparr> else v))
                      } else Some (?c2, ?w2)) = Some (c3, w3)" "ul_inv (rc_missingList c3)"
      unfolding rcr_conn_ok_def by blast
    obtain c4 w4 where "send_FEEDBACK ?F ?now c3 w3 = Some (c4, w4)" using send_FEEDBACK_total [OF r(2)] by blast
    then have "RCRT_Timer_fired e c0 w \<noteq> None"
      unfolding RCRT_Timer_fired_def Let_def if_not_P [OF n(1)] if_not_P [OF n(2)] r(1) by simp
    then show ?thesis using False by auto
  qed
qed

section \<open>Events\<close>

inductive rcr_event :: "rcr_world \<Rightarrow> rcr_world \<Rightarrow> bool" where
  received: "rounds (v_fpu e) r \<Longrightarrow> length (ali_s (loss_ali (v_mem e))) = 8
    \<Longrightarrow> rcrtransport_receive e p addr w = Some w' \<Longrightarrow> rcr_event w w'"
| closed: "rcrtransport_delete_tid e tid w = Some (res, w') \<Longrightarrow> rcr_event w w'"
| ticked: "polling_rcrtransport_timer e w = Some w' \<Longrightarrow> rcr_event w w'"
| configured: "rcr_event w (rcrt_configure setting w)"

lemma polling_due:
  assumes "polling_rcrtransport_timer e w = r" "r \<noteq> Some w"
  shows "\<exists>c \<in> set (m_rcrtcs w). RCRT_Timer_fired e c w = r"
  using assms by (auto simp: polling_rcrtransport_timer_def find_Some_iff split: option.split_asm)

lemma rcr_event_good:
  assumes "rcr_event w w'" "rcr_ok w"
  shows "rcr_good w w'"
  using assms
proof (induction rule: rcr_event.induct)
  case (received e r p addr w w')
  then show ?case using rcrtransport_receive_good by blast
next
  case (closed e tid w res w')
  then show ?case using rcr_delete_loop_good [of w "v_fpu e" "v_now e" tid 0 0]
    by (auto simp: rcrtransport_delete_tid_def rcr_good_def split: if_split_asm)
next
  case (ticked e w w')
  show ?case
  proof (cases "w' = w")
    case True
    then show ?thesis using ticked by (simp add: rcr_good_def)
  next
    case False
    then show ?thesis using polling_due [OF ticked(1)] RCRT_Timer_fired_good [OF ticked(2)] by blast
  qed
next
  case (configured w setting)
  then show ?case by (simp add: rcrt_configure_def rcr_good_def rcr_ok_def)
qed

lemma rcr_events_good: "rcr_event\<^sup>*\<^sup>* w w' \<Longrightarrow> rcr_ok w \<Longrightarrow> rcr_good w w'"
  by (induction rule: rtranclp_induct) (auto simp: rcr_good_def dest: rcr_event_good)

section \<open>Properties\<close>

definition rcr_sample_env :: rcr_env where
  "rcr_sample_env = \<lparr>v_now = \<lparr>tv_sec = 90, tv_usec = 0\<rparr>, v_mem = rcr_sample_mem, v_junk = clear_timeval, v_fpu = exact,
     v_coin_rate = False, v_coin_ack = False\<rparr>"

definition rcr_dying :: "rcrt_state \<Rightarrow> rcrt_conn" where
  "rcr_dying s = rcr_sample_mem\<lparr>rc_state := s, rc_deletePending := True, rc_timeoutCount := 4, totalRecvPackets := 3,
     alarm_time := \<lparr>tv_sec = 80, tv_usec = 0\<rparr>, req_irate := 50, cur_irate := 50\<rparr>"

definition rcr_dying_world :: "rcrt_state \<Rightarrow> rcr_world" where
  "rcr_dying_world s = rcr_empty\<lparr>m_rcrtcs := [rcr_dying s], m_num_rtrc := 1, m_N := 1\<rparr>"

lemma rcr_dying_ok: "rcr_ok (rcr_dying_world s)"
  by (simp add: rcr_dying_world_def rcr_dying_def rcr_ok_def rcr_conn_ok_def rcr_sample_mem_def ul_inv_def ul_values_def
      ali_inv_init FID_LIST_LEN_def)

lemma rcr_dying_find:
  "find (\<lambda>c. tv_sec (alarm_time c) > 0 \<and> compare_timeval (alarm_time c) (v_now rcr_sample_env) \<le> 0)
    (m_rcrtcs (rcr_dying_world s)) = Some (rcr_dying s)"
  by (simp add: rcr_dying_world_def rcr_dying_def rcr_sample_env_def compare_timeval_def)

text \<open>
  C11: whatever packets arrive, tasks are closed, timers fire and policies are set, the list of connections stays without
  duplicates, agrees with both of its counters, and every connection in it is well-formed; and the daemon is
  never told that the connections of a closed task are gone: the test whether another one is alive
  finds the one that is being deleted, so rcrtransport_tid_delete_done is not called.
\<close>

theorem close_never_reported:
  assumes "rcr_ok w" "rcr_event\<^sup>*\<^sup>* w w'"
  shows "rcr_ok w' \<and> rcr_deleted w' = rcr_deleted w"
  using rcr_events_good [OF assms(2,1)] by (simp add: rcr_good_def)

theorem close_never_reported_witness:
  "\<exists>w'. rcr_event\<^sup>*\<^sup>* (rcr_dying_world RCRT_S_NACK_WAIT) w' \<and> m_rcrtcs w' = [] \<and> rcr_ok w' \<and> rcr_deleted w' = []"
proof -
  obtain w' where w': "polling_rcrtransport_timer rcr_sample_env (rcr_dying_world RCRT_S_NACK_WAIT) = Some w'"
    "m_rcrtcs w' = []"
    unfolding polling_rcrtransport_timer_def rcr_dying_find option.case
    by (simp add: rcr_dying_def rcr_dying_world_def RCRT_Timer_fired_def Let_def RCRT_Timer_stop_def RCRT_MAX_ALIVE_TIMEOUT_def
        delete_rcrt_connection_def finish_rcrt_connection_def recalculate_rho_def rcr_put_def is_connection_def)
  then have run: "rcr_event\<^sup>*\<^sup>* (rcr_dying_world RCRT_S_NACK_WAIT) w'" using ticked by blast
  then show ?thesis using close_never_reported [OF rcr_dying_ok run] w'(2)
    by (intro exI [of _ w']) (simp add: rcr_dying_world_def rcr_empty_def)
qed

text \<open>
  C39: polling the timers uses freed memory exactly when the first connection that is due is in the state ACTIVE, its task has
  been closed, and either five timeouts have passed without a packet or there never was one: the handler deletes it and goes on
  to start its timer. In every other case polling gives a result.
\<close>

theorem timer_use_after_free_iff:
  assumes "rcr_ok w"
  shows "polling_rcrtransport_timer e w = None \<longleftrightarrow>
    (case find (\<lambda>c. tv_sec (alarm_time c) > 0 \<and> compare_timeval (alarm_time c) (v_now e) \<le> 0) (m_rcrtcs w) of
       None \<Rightarrow> False
     | Some c \<Rightarrow> rc_state c = RCRT_S_ACTIVE \<and> rc_deletePending c
         \<and> (rc_timeoutCount c + 1 \<ge> RCRT_MAX_ALIVE_TIMEOUT \<or> totalRecvPackets c = 0))"
proof (cases "find (\<lambda>c. tv_sec (alarm_time c) > 0 \<and> compare_timeval (alarm_time c) (v_now e) \<le> 0) (m_rcrtcs w)")
  case None
  then show ?thesis by (simp add: polling_rcrtransport_timer_def)
next
  case (Some c)
  then have "c \<in> set (m_rcrtcs w)" by (auto simp: find_Some_iff)
  then show ?thesis using Some RCRT_Timer_fired_undefined [OF assms] by (simp add: polling_rcrtransport_timer_def)
qed

theorem timer_use_after_free_iff_witness:
  "polling_rcrtransport_timer rcr_sample_env (rcr_dying_world RCRT_S_ACTIVE) = None
    \<and> polling_rcrtransport_timer rcr_sample_env (rcr_dying_world RCRT_S_NACK_WAIT) \<noteq> None"
  unfolding timer_use_after_free_iff [OF rcr_dying_ok] rcr_dying_find
  by (simp add: rcr_dying_def RCRT_MAX_ALIVE_TIMEOUT_def)

end
