(* ===== verification/Rcrt_Delivery.thy ===== *)
theory Rcrt_Delivery
  imports Rcrt_Closing
begin

text \<open>
  The rate-controlled transport as a refinement of the stream transport: seen through \<open>as_stream\<close> its receiver keeps
  the same lists, so the data of a mote go up in order and without gaps, whatever the rate control computes.
\<close>

unbundle bit_operations_syntax

section \<open>The stream in a connection\<close>

definition as_stream :: "rcrt_conn \<Rightarrow> strclist" where
  "as_stream c = \<lparr>c_addr = c_addr c, c_tid = c_tid c, connection_type = 0, lastRecvSeqNo = lastRecvSeqNo c,
     totalLostPackets = 0, totalRecvPackets = 0, alarm_time = clear_timeval, missingList = rc_missingList c,
     str_state = STR_C_S_PASSIVE, deletePending = False, timeoutCount = 0,
     nextExpectedSeqNo = rc_nextExpectedSeqNo c, plist = rc_plist c\<rparr>"

definition as_world :: "rcr_world \<Rightarrow> str_world" where
  "as_world w = \<lparr>m_strcs = [], str_sent = [], str_up = rcr_up w, str_deleted = []\<rparr>"

lemma as_stream_sel [simp]: "c_addr (as_stream c) = c_addr c" "c_tid (as_stream c) = c_tid c"
  "lastRecvSeqNo (as_stream c) = lastRecvSeqNo c" "missingList (as_stream c) = rc_missingList c"
  "nextExpectedSeqNo (as_stream c) = rc_nextExpectedSeqNo c" "plist (as_stream c) = rc_plist c"
  "timeoutCount (as_stream c) = 0"
  by (simp_all add: as_stream_def)

definition same_stream :: "rcrt_conn \<Rightarrow> rcrt_conn \<Rightarrow> bool" where
  "same_stream c c' \<longleftrightarrow> as_stream c' = as_stream c \<and> rc_state c' = rc_state c"

lemma same_stream_refl [simp]: "same_stream c c"
  by (simp add: same_stream_def)

lemma same_stream_trans [trans]: "same_stream a b \<Longrightarrow> same_stream b c \<Longrightarrow> same_stream a c"
  by (simp add: same_stream_def)

lemma same_stream_key: "same_stream c c' \<Longrightarrow> c_tid c' = c_tid c \<and> c_addr c' = c_addr c"
  by (simp add: same_stream_def as_stream_def)

section \<open>Handing up\<close>

text \<open>The loop of one receiver follows the loop of the other.\<close>

definition dispatch_sim :: "u16 \<Rightarrow> strclist \<Rightarrow> str_world \<Rightarrow> strclist \<times> str_world \<Rightarrow> bool" where
  "dispatch_sim seqno sc sw x \<longleftrightarrow> (\<forall>c w. sc = as_stream c \<longrightarrow> sw = as_world w \<longrightarrow>
    (\<exists>c'. rcr_dispatch seqno c w = Some (c', w\<lparr>rcr_up := str_up (snd x)\<rparr>) \<and> as_stream c' = fst x \<and> rc_state c' = rc_state c))"

lemma as_stream_upd:
  "(as_stream c)\<lparr>plist := pl, nextExpectedSeqNo := s\<rparr> = as_stream (c\<lparr>rc_plist := pl, nextAckSeqNo := a, rc_nextExpectedSeqNo := s\<rparr>)"
  "(as_stream c)\<lparr>plist := pl\<rparr> = as_stream (c\<lparr>rc_plist := pl\<rparr>)"
  "(as_stream c)\<lparr>nextExpectedSeqNo := s\<rparr> = as_stream (c\<lparr>nextAckSeqNo := a, rc_nextExpectedSeqNo := s\<rparr>)"
  "receive_streamtransport (as_stream c) len p (as_world w) = as_world (receive_rcrtransport c len p w)"
  by (simp_all add: as_stream_def as_world_def receive_streamtransport_def receive_rcrtransport_def)

lemma str_dispatch_sim:
  assumes "str_dispatch seqno sc sw = Some x"
  shows "dispatch_sim seqno sc sw x"
proof (rule str_dispatch.raw_induct [OF _ assms, of dispatch_sim])
  fix f :: "u16 \<Rightarrow> strclist \<Rightarrow> str_world \<Rightarrow> (strclist \<times> str_world) option" and seqno sc sw x
  assume ih: "\<And>seqno c w y. f seqno c w = Some y \<Longrightarrow> dispatch_sim seqno c w y"
    and s: "do {
     first \<leftarrow> SPList_getFirstValue (plist sc);
     (if first = -1 then Some (sc, sw)
      else if tr_seqno_cmp (word_of_int first) (nextExpectedSeqNo sc) = 0 then do {
        (ptr, v, len, pl) \<leftarrow> SPList_deleteFirstPacket (plist sc);
        p \<leftarrow> ptr;
        f seqno (sc\<lparr>plist := pl, nextExpectedSeqNo := tr_seqno_next (nextExpectedSeqNo sc)\<rparr>)
          (receive_streamtransport sc len p sw)
      }
      else if tr_seqno_cmp (word_of_int first) (nextExpectedSeqNo sc) < 0 then do {
        (ptr, v, len, pl) \<leftarrow> SPList_deleteFirstPacket (plist sc);
        f seqno (sc\<lparr>plist := pl\<rparr>) sw
      }
      else if tr_seqno_cmp seqno (word_of_int first) \<le> 0 then Some (sc, sw)
      else if tr_seqno_cmp seqno (tr_seqno_add (word_of_int first) (of_nat TR_VALID_RANGE)) \<ge> 0 then do {
        (ptr, v, len, pl) \<leftarrow> SPList_deleteFirstPacket (plist sc);
        p \<leftarrow> ptr;
        f seqno (sc\<lparr>plist := pl, nextExpectedSeqNo := tr_seqno_next (word_of_int first)\<rparr>)
          (receive_streamtransport sc len p sw)
      }
      else Some (sc, sw))
   } = Some x"
  show "dispatch_sim seqno sc sw x"
    unfolding dispatch_sim_def
  proof (intro allI impI)
    fix c w assume c: "sc = as_stream c" "sw = as_world w"
    obtain first where first: "SPList_getFirstValue (rc_plist c) = Some first" using s c by (auto split: bind_splits)
    note t = s [unfolded c as_stream_sel first bind.bind_lunit]
    note u = rcr_dispatch.simps [of seqno c w, unfolded first bind.bind_lunit]
    let ?e = "rc_nextExpectedSeqNo c" and ?f = "word_of_int first :: u16"
    let ?G = "\<exists>c'. rcr_dispatch seqno c w = Some (c', w\<lparr>rcr_up := str_up (snd x)\<rparr>) \<and> as_stream c' = fst x
      \<and> rc_state c' = rc_state c"
    have stop: ?G if "x = (as_stream c, as_world w)" "rcr_dispatch seqno c w = Some (c, w)"
      using that by (intro exI [of _ c]) (simp add: as_world_def)
    have go: ?G if "f seqno (as_stream c1) (as_world w1) = Some x" "rcr_dispatch seqno c w = rcr_dispatch seqno c1 w1"
      "rc_state c1 = rc_state c" "w1\<lparr>rcr_up := str_up (snd x)\<rparr> = w\<lparr>rcr_up := str_up (snd x)\<rparr>" for c1 w1
      using ih [OF that(1), unfolded dispatch_sim_def, rule_format, OF refl refl] that(2-4) by auto
    have up: "(receive_rcrtransport c len p w)\<lparr>rcr_up := u\<rparr> = w\<lparr>rcr_up := u\<rparr>" for len p u
      by (simp add: receive_rcrtransport_def)
    consider "first = -1" | "first \<noteq> -1" "tr_seqno_cmp ?f ?e = 0" | "first \<noteq> -1" "tr_seqno_cmp ?f ?e < 0"
      | "first \<noteq> -1" "tr_seqno_cmp ?f ?e > 0" "tr_seqno_cmp seqno ?f \<le> 0"
      | "first \<noteq> -1" "tr_seqno_cmp ?f ?e > 0" "tr_seqno_cmp seqno ?f > 0"
        "tr_seqno_cmp seqno (tr_seqno_add ?f (of_nat TR_VALID_RANGE)) \<ge> 0"
      | "first \<noteq> -1" "tr_seqno_cmp ?f ?e > 0" "tr_seqno_cmp seqno ?f > 0"
        "tr_seqno_cmp seqno (tr_seqno_add ?f (of_nat TR_VALID_RANGE)) < 0"
      by linarith
    then show ?G
    proof cases
      case 1
      then show ?thesis using t u by (intro stop) simp_all
    next
      case 2
      then obtain p v len pl where d: "SPList_deleteFirstPacket (rc_plist c) = Some (Some p, v, len, pl)"
        using t by (auto split: bind_splits)
      show ?thesis
        by (rule go [of "c\<lparr>rc_plist := pl, nextAckSeqNo := ?f, rc_nextExpectedSeqNo := tr_seqno_next ?e\<rparr>"
              "receive_rcrtransport c len p w"])
          (use t u d 2 in \<open>simp_all add: as_stream_upd(1) [where c = c and a = "?f"] as_stream_upd(4) up\<close>)
    next
      case 3
      then obtain p v len pl where d: "SPList_deleteFirstPacket (rc_plist c) = Some (p, v, len, pl)"
        using t by (auto split: bind_splits)
      show ?thesis
        by (rule go [of "c\<lparr>rc_plist := pl\<rparr>" w]) (use t u d 3 in \<open>simp_all add: as_stream_upd(2)\<close>)
    next
      case 4
      then show ?thesis using t u by (intro stop) simp_all
    next
      case 5
      then obtain p v len pl where d: "SPList_deleteFirstPacket (rc_plist c) = Some (Some p, v, len, pl)"
        using t by (auto split: bind_splits)
      show ?thesis
        by (rule go [of "c\<lparr>rc_plist := pl, nextAckSeqNo := seqno, rc_nextExpectedSeqNo := tr_seqno_next ?f\<rparr>"
              "receive_rcrtransport c len p w"])
          (use t u d 5 in \<open>simp_all add: as_stream_upd(1) [where c = c and a = seqno] as_stream_upd(4) up\<close>)
    next
      case 6
      then show ?thesis using t u by (intro stop) simp_all
    qed
  qed
qed

lemma receive_rtr_msg_sim:
  assumes "receive_str_msg (as_stream c) seqno msg (as_world w) = Some (sc, sw)"
  shows "\<exists>c'. receive_rtr_msg c seqno msg w = Some (c', w\<lparr>rcr_up := str_up sw\<rparr>) \<and> as_stream c' = sc \<and> rc_state c' = rc_state c"
proof -
  let ?len = "int (length msg)" and ?e = "rc_nextExpectedSeqNo c"
  let ?G = "\<exists>c'. receive_rtr_msg c seqno msg w = Some (c', w\<lparr>rcr_up := str_up sw\<rparr>) \<and> as_stream c' = sc \<and> rc_state c' = rc_state c"
  have zero: "(as_stream c)\<lparr>timeoutCount := 0\<rparr> = as_stream c" by (simp add: as_stream_def)
  note t = assms [unfolded receive_str_msg_def zero Let_def as_stream_sel]
  have go: ?G if "str_dispatch seqno (as_stream c1) (as_world w1) = Some (sc, sw)"
    "receive_rtr_msg c seqno msg w = rcr_dispatch seqno c1 w1"
    "rc_state c1 = rc_state c" "w1\<lparr>rcr_up := str_up sw\<rparr> = w\<lparr>rcr_up := str_up sw\<rparr>" for c1 w1
    using str_dispatch_sim [OF that(1), unfolded dispatch_sim_def, rule_format, OF refl refl] that(2-4) by auto
  have up: "(receive_rcrtransport c len p w)\<lparr>rcr_up := u\<rparr> = w\<lparr>rcr_up := u\<rparr>" for len p u
    by (simp add: receive_rcrtransport_def)
  consider (eq) "tr_seqno_cmp seqno ?e = 0" | (old) "tr_seqno_cmp seqno ?e < 0"
    | (new) "tr_seqno_cmp seqno ?e > 0" "SPList_find (rc_plist c) (int (unat seqno)) < 0"
    | (dup) "tr_seqno_cmp seqno ?e > 0" "\<not> SPList_find (rc_plist c) (int (unat seqno)) < 0"
    by linarith
  then show ?thesis
  proof cases
    case eq
    show ?thesis
      by (rule go [of "c\<lparr>nextAckSeqNo := seqno, rc_nextExpectedSeqNo := tr_seqno_next ?e\<rparr>" "receive_rcrtransport c ?len msg w"])
        (use t eq in \<open>simp_all add: as_stream_upd(3) [where a = seqno] as_stream_upd(4) up receive_rtr_msg_def\<close>)
  next
    case old
    show ?thesis by (rule go [of c w]) (use t old in \<open>simp_all add: receive_rtr_msg_def\<close>)
  next
    case new
    obtain pl where pl: "SPList_insert (rc_plist c) (int (unat seqno)) msg ?len = Some pl"
      using t new by (auto split: bind_splits)
    show ?thesis
      by (rule go [of "c\<lparr>rc_plist := pl\<rparr>" w]) (use t new pl in \<open>simp_all add: as_stream_upd(2) receive_rtr_msg_def\<close>)
  next
    case dup
    show ?thesis by (rule go [of c w]) (use t dup in \<open>simp_all add: receive_rtr_msg_def\<close>)
  qed
qed

section \<open>Missing numbers\<close>

lemma r_detect_sim:
  assumes "detectMissingPacket seqno (as_stream c) = Some (n, sc)"
  shows "r_detectMissingPacket seqno c = Some (n, c\<lparr>rc_missingList := missingList sc, totalLostPackets := totalLostPackets c + n\<rparr>)"
proof (cases "tr_seqno_cmp seqno (tr_seqno_next (lastRecvSeqNo c)) > 0")
  case True
  obtain ml m where d: "detect_loop seqno (lastRecvSeqNo c) (rc_missingList c) 0 = Some (ml, m)"
    using assms True by (auto simp: detectMissingPacket_def split: bind_splits)
  have "n = m" "missingList sc = ml"
    using assms [unfolded detectMissingPacket_def as_stream_sel if_P [OF True] d] by auto
  then show ?thesis using True d by (simp add: r_detectMissingPacket_def)
next
  case False
  have "n = 0" "missingList sc = rc_missingList c"
    using assms [unfolded detectMissingPacket_def as_stream_sel if_not_P [OF False]] by auto
  then show ?thesis using False by (simp add: r_detectMissingPacket_def)
qed

text \<open>The list of missing numbers stays exact: a number leaves it before new ones are found.\<close>

definition noted :: "rcrt_conn \<Rightarrow> rcrt_conn \<Rightarrow> nat set \<Rightarrow> nat \<Rightarrow> bool" where
  "noted c c' R k \<longleftrightarrow> c_tid c' = c_tid c \<and> c_addr c' = c_addr c \<and> rc_plist c' = rc_plist c
    \<and> rc_nextExpectedSeqNo c' = rc_nextExpectedSeqNo c \<and> rc_state c' = rc_state c
    \<and> lastRecvSeqNo c' = (if seen R \<le> k then fwd 50000 1 k else lastRecvSeqNo c)
    \<and> ul_inv (rc_missingList c') \<and> (\<exists>ms. ul_values (rc_missingList c') = map (fwd 50000 1) ms \<and> sorted_wrt (<) ms
        \<and> set ms = {..<seen (insert k R)} - insert k R)"

lemma str_conn_same_values:
  assumes "str_conn (as_stream c) b data R" "ul_inv l" "ul_values l = ul_values (rc_missingList c)"
  shows "str_conn (as_stream (c\<lparr>rc_missingList := l\<rparr>)) b data R"
proof -
  have "str_holds (as_stream (c\<lparr>rc_missingList := l\<rparr>)) b data n ks = str_holds (as_stream c) b data n ks" for n ks
    by (simp add: str_holds_def)
  then show ?thesis using assms(1,2) unfolding str_conn_def by (simp add: assms(3))
qed

lemma one_in_space [simp]: "in_space 50000 1"
  by (simp add: in_space_def)

lemma note_seqno_stream:
  assumes c: "str_conn (as_stream c) 1 data R" and win: "str_window R k"
  shows "\<exists>n c'. rcr_note_seqno e flag (fwd 50000 1 k) c = Some (n, c') \<and> noted c c' R k"
proof -
  let ?s = "fwd 50000 1 k" and ?last = "lastRecvSeqNo c"
  let ?del = "(flag AND RCRT_FLAG_RETX) \<noteq> 0 \<or> tr_seqno_cmp ?s ?last < 0"
  obtain ms where h: "finite R" "last_at ?last 1 (seen R)" "ul_inv (rc_missingList c)"
    "ul_values (rc_missingList c) = map (fwd 50000 1) ms" "sorted_wrt (<) ms" "set ms = {..<seen R} - R"
    using c by (auto simp: str_conn_def)
  have sk: "seen R < k + 201"
  proof (cases "seen R = 0")
    case False
    then show ?thesis using seen_in [of R] h(1) win by (auto simp: str_window_def dest!: bspec)
  qed simp
  have k: "k < seen R + 199" using win first_gap_le_seen [OF h(1)] by (simp add: str_window_def)
  note lc = last_at_cmp [OF one_in_space h(2) k sk]
  have del: "\<exists>x l. u16list_delete (rc_missingList c) ?s = Some (x, l) \<and> ul_inv l
      \<and> ul_values l = remove1 ?s (ul_values (rc_missingList c))"
    using ul_delete [OF h(3), of ?s] by blast
  show ?thesis
  proof (cases "seen R \<le> k")
    case True
    have "k \<notin> set ms" using True h(6) by auto
    moreover have "\<forall>i \<in> set ms. i < k + 200 \<and> k < i + 200"
      using missing_near [OF h(1) win] h(6) by blast
    ultimately have "remove1 ?s (ul_values (rc_missingList c)) = ul_values (rc_missingList c)"
      using remove1_map_fwd [OF one_in_space, of ms k] h(4) by (simp add: remove1_idem)
    then obtain c1 l where c1: "(if ?del then do {
              r \<leftarrow> u16list_delete (rc_missingList c) ?s;
              Some (c\<lparr>rc_missingList := snd r\<rparr>)
            } else Some c) = Some c1" "c1 = c\<lparr>rc_missingList := l\<rparr>" "ul_inv l"
        "ul_values l = ul_values (rc_missingList c)"
    proof (cases ?del)
      case True
      then show thesis using that del \<open>remove1 ?s (ul_values (rc_missingList c)) = ul_values (rc_missingList c)\<close> by auto
    next
      case F: False
      show thesis
        by (rule that [of c "rc_missingList c"]) (use F h(3) in simp_all)
    qed
    have s1: "str_conn (as_stream c1) 1 data R" unfolding c1(2) by (rule str_conn_same_values [OF c c1(3,4)])
    have cmp: "tr_seqno_cmp ?s (lastRecvSeqNo c1) > 0" using lc(1) True c1(2) by simp
    from data_detect [OF s1 win, unfolded as_stream_sel if_P [OF cmp]]
    obtain n l' ms' where d: "do {
             (n, c1) \<leftarrow> detectMissingPacket ?s (as_stream c1);
             Some (n, c1\<lparr>lastRecvSeqNo := ?s\<rparr>)
           } = Some (n, (as_stream c1)\<lparr>missingList := l', totalLostPackets := totalLostPackets (as_stream c1) + n,
                  lastRecvSeqNo := (if seen R \<le> k then ?s else lastRecvSeqNo c1)\<rparr>)"
      "ul_inv l'" "ul_values l' = map (fwd 50000 1) ms'" "sorted_wrt (<) ms'"
      "set ms' = ({..<seen R} \<union> {seen R..<k}) - R"
      by (elim exE conjE) (rule that)
    obtain sc where sc: "detectMissingPacket ?s (as_stream c1) = Some (n, sc)" "missingList sc = l'"
    proof -
      obtain m sc where m: "detectMissingPacket ?s (as_stream c1) = Some (m, sc)" using d(1) by (auto split: bind_splits)
      have "m = n" "missingList (sc\<lparr>lastRecvSeqNo := ?s\<rparr>) = l'" using d(1) unfolding m by simp_all
      then show thesis using that m by simp
    qed
    have "set ms' = {..<seen (insert k R)} - insert k R"
      using True seen_insert [OF h(1), of k] unfolding d(5) by auto
    then have ex: "\<exists>ms. ul_values l' = map (fwd 50000 1) ms \<and> sorted_wrt (<) ms
        \<and> set ms = {..<seen (insert k R)} - insert k R" using d(3,4) by blast
    show ?thesis
      unfolding rcr_note_seqno_def c1(1) bind.bind_lunit if_P [OF cmp] r_detect_sim [OF sc(1)] prod.case noted_def
      using c1(2) sc(2) d(2) True ex by auto
  next
    case False
    have near: "k < seen R - 1 + 200" "seen R - 1 < k + 200" using k sk False by auto
    have last: "?last = fwd 50000 1 (seen R - 1)" using h(2) False by (simp add: last_at_def)
    have "k \<noteq> seen R - 1 \<Longrightarrow> tr_seqno_cmp ?s ?last = -1"
      using tr_cmp_at [OF one_in_space near] False last by simp
    moreover have "seen R - 1 \<in> R" using seen_in [of R] h(1) False by simp
    ultimately have or: "?del \<or> seen R \<le> k \<or> k \<in> R" by (cases "k = seen R - 1") auto
    have "set ms = ({..<seen R} \<union> {seen R..<k}) - R" using h(6) False by auto
    from data_delete [OF one_in_space h(1) win, of "as_stream c", unfolded as_stream_sel, OF h(3,4,5) this or]
    obtain l ms' where l: "(if ?del then do {
           r \<leftarrow> u16list_delete (rc_missingList c) ?s;
           Some ((as_stream c)\<lparr>missingList := snd r\<rparr>)
         } else Some (as_stream c)) = Some ((as_stream c)\<lparr>missingList := l\<rparr>)"
      "ul_inv l" "ul_values l = map (fwd 50000 1) ms'" "sorted_wrt (<) ms'" "set ms' = {..<seen (insert k R)} - insert k R"
      by (elim exE conjE) (rule that)
    have c1: "(if ?del then do {
              r \<leftarrow> u16list_delete (rc_missingList c) ?s;
              Some (c\<lparr>rc_missingList := snd r\<rparr>)
            } else Some c) = Some (c\<lparr>rc_missingList := l\<rparr>)"
    proof (cases ?del)
      case True
      then obtain r where r: "u16list_delete (rc_missingList c) ?s = Some r" using del by blast
      have "missingList ((as_stream c)\<lparr>missingList := snd r\<rparr>) = missingList ((as_stream c)\<lparr>missingList := l\<rparr>)"
        using l(1) [unfolded if_P [OF True] r] by simp
      then show ?thesis using True r by simp
    next
      case F: False
      have "missingList (as_stream c) = missingList ((as_stream c)\<lparr>missingList := l\<rparr>)"
        using l(1) [unfolded if_not_P [OF F]] by simp
      then show ?thesis using F by simp
    qed
    have cmp: "\<not> tr_seqno_cmp ?s (lastRecvSeqNo (c\<lparr>rc_missingList := l\<rparr>)) > 0" using lc(1) False by simp
    have ex: "\<exists>ms. ul_values l = map (fwd 50000 1) ms \<and> sorted_wrt (<) ms
        \<and> set ms = {..<seen (insert k R)} - insert k R" using l(3-5) by blast
    show ?thesis unfolding rcr_note_seqno_def c1 bind.bind_lunit if_not_P [OF cmp] noted_def
      using False l(2) ex by auto
  qed
qed

section \<open>One data packet\<close>

lemma same_stream_simps [simp]:
  "same_stream c (update_congestion_level F d) = same_stream c d"
  "same_stream c (update_rtt_estimate F now iv fid w d) = same_stream c d"
  "same_stream c (d\<lparr>rc_timeoutCount := t\<rparr>) = same_stream c d"
  "same_stream c (d\<lparr>totalRecvPackets := n\<rparr>) = same_stream c d"
  "same_stream c (d\<lparr>goodput := g, totalRetxPackets := m\<rparr>) = same_stream c d"
  "same_stream c (RCRT_Timer_start now ms d) = same_stream c d"
  "same_stream c (unrated d) = same_stream c d"
  by (simp_all add: same_stream_def as_stream_def update_congestion_level_def update_rtt_estimate_def Let_def
      RCRT_Timer_start_def split: option.split)

lemma feedback_info_stream: "same_stream c (snd (update_feedback_send_info now w c))"
  by (simp add: update_feedback_send_info_def Let_def same_stream_def as_stream_def)

text \<open>No missing number has fallen behind by the window.\<close>

definition none_void :: "rcrt_conn \<Rightarrow> bool" where
  "none_void c \<longleftrightarrow> (\<forall>v \<in> set (ul_values (rc_missingList c)). \<not> nack_void (lastRecvSeqNo c) v)"

lemma send_FEEDBACK_stream:
  assumes "ul_inv (rc_missingList c)" "none_void c"
  shows "\<exists>c' w'. send_FEEDBACK F now c w = Some (c', w') \<and> same_stream c c' \<and> m_rcrtcs w' = m_rcrtcs w \<and> rcr_up w' = rcr_up w"
proof -
  obtain c' w' where s: "send_FEEDBACK F now c w = Some (c', w')" using send_FEEDBACK_total [OF assms(1)] by blast
  obtain fid c1 where u: "update_feedback_send_info now w c = (fid, c1)" by fastforce
  then have c1: "same_stream c c1" using feedback_info_stream [of c now w] by simp
  obtain ml q cnt where l: "feedback_loop (lastRecvSeqNo c) (rc_missingList c) (replicate 36 0) 0 0 = Some (ml, q, cnt)"
    "ml = rc_missingList c"
    using feedback_loop_total [OF assms(1), of 0 0 "lastRecvSeqNo c" "replicate 36 0"] assms(2) by (auto simp: none_void_def)
  have "same_stream c c'" "rcr_up w' = rcr_up w"
    using s [unfolded send_FEEDBACK_def u prod.case l(1) bind.bind_lunit Let_def] c1 l(2)
    by (auto simp: same_stream_def as_stream_def rcr_write_def split: bind_splits)
  then show ?thesis using s send_FEEDBACK_step(3) [OF s] by blast
qed

lemma stream_none_void:
  assumes c: "str_conn (as_stream c) 1 data R" and r: "R \<noteq> {}"
  shows "none_void c"
proof -
  obtain ms ks where h: "finite R" "last_at (lastRecvSeqNo c) 1 (seen R)"
    "ul_values (rc_missingList c) = map (fwd 50000 1) ms" "set ms = {..<seen R} - R"
    "str_holds (as_stream c) 1 data (first_gap R) ks" "set ks = {j \<in> R. first_gap R < j}"
    using c by (auto simp: str_conn_def)
  let ?L = "seen R - 1"
  have pos: "0 < seen R" using r by (simp add: seen_def)
  then have last: "lastRecvSeqNo c = fwd 50000 1 ?L" "?L \<in> R" using h(1,2) seen_in by (auto simp: last_at_def)
  show ?thesis unfolding none_void_def h(3)
  proof
    fix v assume "v \<in> set (map (fwd 50000 1) ms)"
    then obtain i where i: "i \<in> set ms" and v: "v = fwd 50000 1 i" by auto
    then have "i \<noteq> ?L" "i < seen R" "first_gap R \<le> i"
      using last(2) h(4) below_first_gap [of i R] by (auto simp: not_less [symmetric])
    moreover have "?L < first_gap R + 200"
    proof (cases "first_gap R < ?L")
      case True
      then show ?thesis using h(5,6) last(2) by (auto simp: str_holds_def)
    qed simp
    ultimately have "?L < i + 200" "i < ?L" by linarith+
    then have "tr_seqno_cmp (lastRecvSeqNo c) (tr_seqno_add (fwd 50000 1 i) (of_nat TR_VALID_RANGE)) = -1"
      using tr_cmp_at [OF one_in_space, of ?L "i + 200"] last(1) by (simp add: tr_add_at)
    then show "\<not> nack_void (lastRecvSeqNo c) v" unfolding v by simp
  qed
qed

text \<open>The rate control changes the granted interval of the connection at most.\<close>

lemma find_unrated:
  "map unrated cs' = map unrated cs \<Longrightarrow> find_connection cs tid addr = Some c \<Longrightarrow>
    \<exists>c'. find_connection cs' tid addr = Some c' \<and> unrated c' = unrated c"
proof (induction cs arbitrary: cs')
  case (Cons x cs)
  then obtain y ys where y: "cs' = y # ys" "unrated y = unrated x" "map unrated ys = map unrated cs" by auto
  have "c_tid (unrated y) = c_tid (unrated x)" "c_addr (unrated y) = c_addr (unrated x)" using y(2) by simp_all
  then have "is_connection tid addr y = is_connection tid addr x" by (simp add: is_connection_def)
  then show ?case using Cons.prems(2) Cons.IH [OF y(3)] y(1,2) by (auto split: if_split_asm)
qed simp

lemma rated_again:
  assumes "rated w w'" "find_connection (m_rcrtcs w) (c_tid c) (c_addr c) = Some c"
  shows "\<exists>c'. rcr_again c w' = Some c' \<and> same_stream c c'"
proof -
  have "map unrated (m_rcrtcs w') = map unrated (m_rcrtcs w)" using assms(1) by (simp add: rated_def)
  from find_unrated [OF this assms(2)] obtain c' where c': "rcr_again c w' = Some c'" "unrated c' = unrated c"
    unfolding rcr_again_def by blast
  have "same_stream (unrated c) c'" using same_stream_simps(7) [of "unrated c" c'] unfolding c'(2) by simp
  then show ?thesis using c'(1) by (auto simp: same_stream_def as_stream_def)
qed

lemma do_rate_control_total: "\<exists>res w'. do_rate_control F now c used w = Some (res, w')"
proof -
  obtain b1 v1 where d: "decrease_all_rate F now (a_Lavg (loss_ali c)) w = Some (b1, v1)"
    using decrease_all_rate_total by blast
  have "\<exists>ok v. increase_all_rate F now w = Some (ok, v)" unfolding increase_all_rate_def Let_def by (rule alloc_then)
  then obtain b2 v2 where i: "increase_all_rate F now w = Some (b2, v2)" by blast
  show ?thesis by (cases b1; cases b2) (simp_all add: do_rate_control_def d i)
qed

lemma new_packet_stream:
  assumes h: "str_holds (as_stream c) 1 data (first_gap R) ks" "set ks = {j \<in> R. first_gap R < j}" "finite R"
    and win: "str_window R k" and p: "12 \<le> length payload" "drop 8 payload = data k"
    and f: "find_connection (m_rcrtcs w) (c_tid c) (c_addr c) \<noteq> None"
  shows "\<exists>res c' w' ks'. rcr_new_packet e flag (fwd 50000 1 k) payload c w = Some (res, c', w')
    \<and> find_connection (m_rcrtcs w') (c_tid c) (c_addr c) = Some c' \<and> rc_state c' = rc_state c
    \<and> rc_missingList c' = rc_missingList c \<and> lastRecvSeqNo c' = lastRecvSeqNo c
    \<and> str_holds (as_stream c') 1 data (first_gap (insert k R)) ks' \<and> set ks' = {j \<in> insert k R. first_gap (insert k R) < j}
    \<and> rcr_up w' = rcr_up w @ ups (as_stream c) data [first_gap R..<first_gap (insert k R)]"
proof -
  let ?F = "v_fpu e" and ?now = "v_now e" and ?n' = "first_gap (insert k R)"
  define c1 where "c1 = update_rtt_estimate ?F ?now (get32le payload 4) (get16le payload 2) (rcr_put c w) (c\<lparr>rc_timeoutCount := 0\<rparr>)"
  have c1: "same_stream c c1" by (simp add: c1_def)
  then have a1: "as_stream c1 = as_stream c" "rc_state c1 = rc_state c" by (simp_all add: same_stream_def)
  obtain pl ks' where r: "receive_str_msg (as_stream c) (fwd 50000 1 k) (data k) (as_world w)
      = Some ((as_stream c)\<lparr>timeoutCount := 0, plist := pl, nextExpectedSeqNo := fwd 50000 1 ?n'\<rparr>,
              (as_world w)\<lparr>str_up := str_up (as_world w) @ ups (as_stream c) data [first_gap R..<?n']\<rparr>)"
    "str_holds ((as_stream c)\<lparr>timeoutCount := 0, plist := pl, nextExpectedSeqNo := fwd 50000 1 ?n'\<rparr>) 1 data ?n' ks'"
    "set ks' = {j \<in> insert k R. ?n' < j}"
    using receive_str_msg_set [OF h win, of "as_world w"] by (elim exE conjE) (rule that)
  let ?sc = "(as_stream c)\<lparr>timeoutCount := 0, plist := pl, nextExpectedSeqNo := fwd 50000 1 ?n'\<rparr>"
  let ?w2 = "w\<lparr>rcr_up := rcr_up w @ ups (as_stream c) data [first_gap R..<?n']\<rparr>"
  from receive_rtr_msg_sim [of c1, unfolded a1, OF r(1)]
  obtain c3 where c3: "receive_rtr_msg c1 (fwd 50000 1 k) (data k) w = Some (c3, ?w2)" "as_stream c3 = ?sc"
    "rc_state c3 = rc_state c"
    using a1(2) by (auto simp: as_world_def)
  define c4 where "c4 = update_congestion_level ?F (c3\<lparr>goodput := update_packetrate ?F ?now (v_junk e) 1 (goodput c3),
      totalRetxPackets := (if (flag AND RCRT_FLAG_RETX) \<noteq> 0 then totalRetxPackets c3 + 1 else totalRetxPackets c3)\<rparr>)"
  have s4: "same_stream c3 c4" by (simp add: c4_def)
  have k4: "c_tid c4 = c_tid c" "c_addr c4 = c_addr c"
    using same_stream_key [OF s4] c3(2) as_stream_sel(1,2) [of c3] by simp_all
  have f3: "find_connection (m_rcrtcs (rcr_put c4 ?w2)) (c_tid c4) (c_addr c4) = Some c4"
    using find_upd_connection [of "m_rcrtcs w" c4] f k4 by (simp add: rcr_put_def is_connection_def)
  obtain res w4 where w4: "(if (flag AND RCRT_FLAG_RETX) = 0 then do_rate_control ?F ?now c4 (get16le payload 0) (rcr_put c4 ?w2)
      else Some (0, rcr_put c4 ?w2)) = Some (res, w4)" "rated (rcr_put c4 ?w2) w4"
  proof (cases "(flag AND RCRT_FLAG_RETX) = 0")
    case True
    obtain res w4 where d: "do_rate_control ?F ?now c4 (get16le payload 0) (rcr_put c4 ?w2) = Some (res, w4)"
      using do_rate_control_total by blast
    show thesis by (rule that [of res w4]) (use True d do_rate_control_rated [OF d] in simp_all)
  next
    case False
    show thesis by (rule that [of 0 "rcr_put c4 ?w2"]) (use False in \<open>simp_all add: rated_refl\<close>)
  qed
  obtain c5 where c5: "rcr_again c4 w4 = Some c5" "same_stream c4 c5" using rated_again [OF w4(2) f3] by blast
  have s5: "as_stream c5 = ?sc" "rc_state c5 = rc_state c"
    using s4 c5(2) c3(2,3) by (simp_all add: same_stream_def)
  have len: "\<not> length payload < 8" and log: "log_rcrt_packet (data k) = Some ()"
    using p by (auto simp: log_rcrt_packet_def simp flip: p(2))
  have new: "rcr_new_packet e flag (fwd 50000 1 k) payload c w = Some (res, c5, w4)"
    unfolding rcr_new_packet_def if_not_P [OF len] Let_def p(2) c1_def [symmetric] c3(1) bind.bind_lunit prod.case
      c4_def [symmetric] w4(1) c5(1) log ..
  have "rcr_up w4 = rcr_up ?w2" using w4(2) by (simp add: rated_def rcr_put_def)
  moreover have "find_connection (m_rcrtcs w4) (c_tid c) (c_addr c) = Some c5"
    using c5(1) k4 by (simp add: rcr_again_def)
  moreover have "rc_missingList c5 = rc_missingList c" "lastRecvSeqNo c5 = lastRecvSeqNo c"
    using as_stream_sel(3,4) [of c5] unfolding s5 by simp_all
  ultimately show ?thesis using new s5 r(2,3) by (intro exI [of _ res] exI [of _ c5] exI [of _ w4] exI [of _ ks']) simp
qed

text \<open>A packet is new exactly if its position has not arrived.\<close>

lemma new_iff:
  assumes "str_holds (as_stream c) 1 data (first_gap R) ks" "set ks = {j \<in> R. first_gap R < j}" "finite R" "str_window R k"
  shows "(tr_seqno_cmp (fwd 50000 1 k) (rc_nextExpectedSeqNo c) \<ge> 0 \<and> SPList_find (rc_plist c) (int (unat (fwd 50000 1 k))) < 0)
    \<longleftrightarrow> k \<notin> R"
proof -
  let ?n = "first_gap R"
  have e: "rc_nextExpectedSeqNo c = fwd 50000 1 ?n" "spl_holds (rc_plist c) 1 data ks" "\<forall>j \<in> set ks. j < ?n + 200"
    using assms(1) by (auto simp: str_holds_def)
  have near: "k < ?n + 200" "?n < k + 200" "\<forall>j \<in> R. j < k + 200" using assms(4) by (simp_all add: str_window_def)
  have cmp: "tr_seqno_cmp (fwd 50000 1 k) (rc_nextExpectedSeqNo c) \<ge> 0 \<longleftrightarrow> ?n \<le> k"
    unfolding e(1) using tr_cmp_at [OF one_in_space near(1,2)] by auto
  have kk: "k \<in> R" if "k < ?n" using below_first_gap [OF that] .
  show ?thesis
  proof (cases "?n \<le> k")
    case True
    have nr: "Packet_List.near k ks"
      using near e(3) assms(2) by fastforce
    have "SPList_find (rc_plist c) (seq_at 1 k) < 0 \<longleftrightarrow> k \<notin> set ks"
      using spl_find_holds [OF e(2) nr] seq_at_range(1) [of 1 k] by auto
    moreover have "k \<in> set ks \<longleftrightarrow> k \<in> R"
      using True first_gap_not_in [OF assms(3)] unfolding assms(2) by (auto simp: order_le_less)
    ultimately show ?thesis using cmp True by (simp add: seq_at_def)
  qed (use cmp kk in simp)
qed

lemma last_diff:
  assumes "last_at s 1 m" "m \<le> k" "k < m + 100"
  shows "\<not> tr_seqno_diff (fwd 50000 1 k) s > 100"
proof -
  have "unat (tr_seqno_diff (fwd 50000 1 k) s) = Suc k - m"
  proof (cases "m = 0 \<and> s = 0")
    case True
    then show ?thesis using assms(3) by (simp add: tr_seqno_diff_def unat_fwd)
  next
    case False
    have s: "s = fwd 50000 1 (if m = 0 then 49999 else m - 1)" using False assms(1) by (auto simp: last_at_def)
    have "fwd 50000 1 k = fwd 50000 s (Suc k - m)"
    proof (cases "m = 0")
      case True
      then show ?thesis using s fwd_round [of 1 k] by simp
    next
      case m: False
      then have "m - 1 + (Suc k - m) = k" using assms(2) by simp
      then show ?thesis using s m fwd_fwd [of 50000 1 "m - 1" "Suc k - m"] by simp
    qed
    moreover have "in_space 50000 s" unfolding s by (rule fwd_in_space) simp_all
    ultimately show ?thesis using tr_seqno_diff_fwd [of s "Suc k - m"] assms(3) by simp
  qed
  then show ?thesis using assms(3) by (simp add: word_less_nat_alt)
qed

section \<open>The whole handler\<close>

lemma data_tail_stream:
  assumes f: "find_connection (m_rcrtcs w) tid addr \<noteq> None" and key: "c_tid c = tid" "c_addr c = addr"
    and c: "str_conn (as_stream c) 1 data R" "R \<noteq> {}" and st: "rc_state c \<noteq> RCRT_S_FIN_RETX_WAIT"
  shows "\<exists>w' c'. rcr_data_tail e send c w = Some w' \<and> find_connection (m_rcrtcs w') tid addr = Some c'
    \<and> as_stream c' = as_stream c \<and> rc_state c' \<noteq> RCRT_S_FIN_RETX_WAIT \<and> rcr_up w' = rcr_up w"
proof -
  define c1 where "c1 = (if u16list_isEmpty (rc_missingList c)
                 then (if rc_state c = RCRT_S_NACK_WAIT then c\<lparr>rc_state := RCRT_S_ACTIVE\<rparr> else c)
                 else (if rc_state c = RCRT_S_ACTIVE then c\<lparr>rc_state := RCRT_S_NACK_WAIT\<rparr> else c))"
  have c1: "as_stream c1 = as_stream c" "rc_state c1 \<noteq> RCRT_S_FIN_RETX_WAIT" "c_tid c1 = tid" "c_addr c1 = addr"
    using st key by (simp_all add: c1_def as_stream_def)
  have n: "\<not> (u16list_isEmpty (rc_missingList c) \<and> rc_state c = RCRT_S_FIN_RETX_WAIT)" using st by simp
  have put: "find_connection (m_rcrtcs (rcr_put d v)) tid addr = Some d \<and> rcr_up (rcr_put d v) = rcr_up v"
    if "c_tid d = tid" "c_addr d = addr" "m_rcrtcs v = m_rcrtcs w" for d v
    using find_upd_connection [of "m_rcrtcs w" d] f that by (simp add: rcr_put_def is_connection_def)
  show ?thesis
  proof (cases send)
    case True
    have "str_conn (as_stream c1) 1 data R" using c(1) c1(1) by simp
    from stream_none_void [OF this c(2)] have v: "none_void c1" .
    have ul: "ul_inv (rc_missingList c1)"
      using str_conn_fields(3) [OF c(1)] arg_cong [OF c1(1), of missingList] by simp
    obtain c2 w2 where s: "send_FEEDBACK (v_fpu e) (v_now e) c1 w = Some (c2, w2)" "same_stream c1 c2"
      "m_rcrtcs w2 = m_rcrtcs w" "rcr_up w2 = rcr_up w"
      using send_FEEDBACK_stream [OF ul v] by blast
    let ?c3 = "if tv_sec (alarm_time c2) = 0 then RCRT_Timer_start (v_now e) (feedback_timeout (v_fpu e) c2) c2 else c2"
    have c3: "same_stream c1 ?c3" using s(2) by simp
    have "rcr_data_tail e send c w = Some (rcr_put ?c3 w2)"
      using True unfolding rcr_data_tail_def if_not_P [OF n] Let_def c1_def [symmetric] by (simp add: s(1))
    moreover note put [of ?c3 w2]
    ultimately show ?thesis using same_stream_key [OF c3] c3 c1 s(3,4)
      by (intro exI [of _ "rcr_put ?c3 w2"] exI [of _ ?c3]) (simp add: same_stream_def)
  next
    case False
    then have "rcr_data_tail e send c w = Some (rcr_put c1 w)"
      unfolding rcr_data_tail_def if_not_P [OF n] Let_def c1_def [symmetric] by simp
    then show ?thesis using put [OF c1(3,4) refl] c1 by (intro exI [of _ "rcr_put c1 w"] exI [of _ c1]) simp
  qed
qed

lemma wants_feedback_total: "2 \<le> length payload \<Longrightarrow> \<exists>b. rcr_wants_feedback e flag seqno payload n r c w = Some b"
  by (auto simp: rcr_wants_feedback_def rmsg_rate_def)

lemma rcr_data_step:
  assumes f: "find_connection (m_rcrtcs w) tid addr = Some c" and c: "str_conn (as_stream c) 1 data R"
    and st: "rc_state c \<noteq> RCRT_S_FIN_RETX_WAIT"
    and win: "str_window R k" "k < seen R + 100" and p: "12 \<le> length payload" "drop 8 payload = data k"
  shows "\<exists>w' c'. rcr_receive_data e flag tid addr (fwd 50000 1 k) payload w = Some w'
    \<and> find_connection (m_rcrtcs w') tid addr = Some c' \<and> str_conn (as_stream c') 1 data (insert k R)
    \<and> rc_state c' \<noteq> RCRT_S_FIN_RETX_WAIT
    \<and> rcr_up w' = rcr_up w @ map (\<lambda>k. (tid, addr, data k)) [first_gap R..<first_gap (insert k R)]"
proof -
  let ?s = "fwd 50000 1 k" and ?R = "insert k R"
  note s = str_conn_fields [OF c]
  obtain ks where ks: "str_holds (as_stream c) 1 data (first_gap R) ks" "set ks = {j \<in> R. first_gap R < j}"
    "last_at (lastRecvSeqNo c) 1 (seen R)"
    using c by (auto simp: str_conn_def)
  have key: "c_tid c = tid" "c_addr c = addr" using find_connection_Some [OF f] by simp_all
  have "\<not> (tr_seqno_cmp ?s (lastRecvSeqNo c) > 0 \<and> tr_seqno_diff ?s (lastRecvSeqNo c) > 100)"
  proof
    assume a: "tr_seqno_cmp ?s (lastRecvSeqNo c) > 0 \<and> tr_seqno_diff ?s (lastRecvSeqNo c) > 100"
    have "seen R < k + 201"
    proof (cases "seen R = 0")
      case False
      then show ?thesis using seen_in [of R] s(2) win(1) by (auto simp: str_window_def dest!: bspec)
    qed simp
    then have "seen R \<le> k" using last_at_cmp(1) [OF one_in_space ks(3), of k] a win(2) by simp
    then show False using last_diff [OF ks(3) _ win(2)] a by simp
  qed
  note guard = if_not_P [OF this]
  define c1 where "c1 = (if tr_seqno_cmp ?s (rc_nextExpectedSeqNo c) \<ge> 0 \<and> SPList_find (rc_plist c) (int (unat ?s)) < 0
      then c\<lparr>totalRecvPackets := totalRecvPackets c + 1\<rparr> else c)"
  have a1: "as_stream c1 = as_stream c" "rc_state c1 = rc_state c" "c_tid c1 = tid" "c_addr c1 = addr"
    using key by (simp_all add: c1_def as_stream_def)
  have "str_conn (as_stream c1) 1 data R" using c a1(1) by simp
  from note_seqno_stream [OF this win(1)] obtain n c2 where
    n: "rcr_note_seqno e flag ?s c1 = Some (n, c2)" "noted c1 c2 R k" by blast
  have eqs: "rc_plist c1 = rc_plist c" "rc_nextExpectedSeqNo c1 = rc_nextExpectedSeqNo c" "lastRecvSeqNo c1 = lastRecvSeqNo c"
    by (simp_all add: c1_def)
  then have c2: "c_tid c2 = tid" "c_addr c2 = addr" "rc_state c2 = rc_state c" "rc_plist c2 = rc_plist c"
    "rc_nextExpectedSeqNo c2 = rc_nextExpectedSeqNo c" "lastRecvSeqNo c2 = (if seen R \<le> k then ?s else lastRecvSeqNo c)"
    "ul_inv (rc_missingList c2)" "\<exists>ms. ul_values (rc_missingList c2) = map (fwd 50000 1) ms \<and> sorted_wrt (<) ms
        \<and> set ms = {..<seen ?R} - ?R"
    using n(2) a1 unfolding noted_def by simp_all
  have h2: "str_holds (as_stream c2) 1 data (first_gap R) ks" using ks(1) c2(4,5) by (simp add: str_holds_def)
  have last: "last_at (lastRecvSeqNo c2) 1 (seen ?R)" unfolding c2(6) by (rule last_at_insert [OF s(2) ks(3)])
  have fin: "finite ?R" using s(2) by simp
  have f2: "find_connection (m_rcrtcs w) (c_tid c2) (c_addr c2) \<noteq> None" using f c2(1,2) by simp
  have ups: "ups (as_stream c2) data js = map (\<lambda>k. (tid, addr, data k)) js" for js
    using c2(1,2) by (simp add: ups_def)
  obtain res c3 w3 ks' where r: "(if tr_seqno_cmp ?s (rc_nextExpectedSeqNo c) \<ge> 0 \<and> SPList_find (rc_plist c) (int (unat ?s)) < 0
        then rcr_new_packet e flag ?s payload c2 w else Some (0, c2, w)) = Some (res, c3, w3)"
      "find_connection (m_rcrtcs w3) tid addr \<noteq> None" "rc_state c3 = rc_state c" "c_tid c3 = tid" "c_addr c3 = addr"
      "rc_missingList c3 = rc_missingList c2" "lastRecvSeqNo c3 = lastRecvSeqNo c2"
      "str_holds (as_stream c3) 1 data (first_gap ?R) ks'" "set ks' = {j \<in> ?R. first_gap ?R < j}"
      "rcr_up w3 = rcr_up w @ map (\<lambda>k. (tid, addr, data k)) [first_gap R..<first_gap ?R]"
  proof (cases "k \<in> R")
    case True
    then have same: "?R = R" by auto
    note old = new_iff [OF ks(1,2) s(2) win(1)]
    then have neg: "\<not> (tr_seqno_cmp ?s (rc_nextExpectedSeqNo c) \<ge> 0 \<and> SPList_find (rc_plist c) (int (unat ?s)) < 0)"
      using old True by blast
    show thesis
      by (rule that [OF if_not_P [OF neg]]) (use same f c2(1-3) h2 ks(2) in simp_all)
  next
    case False
    note new = new_iff [OF ks(1,2) s(2) win(1)]
    obtain res c3 w3 ks' where t: "rcr_new_packet e flag ?s payload c2 w = Some (res, c3, w3)"
      "find_connection (m_rcrtcs w3) (c_tid c2) (c_addr c2) = Some c3" "rc_state c3 = rc_state c2"
      "rc_missingList c3 = rc_missingList c2" "lastRecvSeqNo c3 = lastRecvSeqNo c2"
      "str_holds (as_stream c3) 1 data (first_gap ?R) ks'" "set ks' = {j \<in> ?R. first_gap ?R < j}"
      "rcr_up w3 = rcr_up w @ ups (as_stream c2) data [first_gap R..<first_gap ?R]"
      using new_packet_stream [OF h2 ks(2) s(2) win(1) p f2, of e flag] by (elim exE conjE) (rule that)
    show thesis
      by (rule that [of res c3 w3 ks'])
        (use t new False c2(1-3) find_connection_Some [OF t(2)] ups in simp_all)
  qed
  have c3: "str_conn (as_stream c3) 1 data ?R"
    unfolding str_conn_def using fin last r(6-9) c2(7,8) by auto
  obtain b where b: "rcr_wants_feedback e flag ?s payload n res c3 w3 = Some b"
    using wants_feedback_total [of payload] p(1) by fastforce
  have st3: "rc_state c3 \<noteq> RCRT_S_FIN_RETX_WAIT" using st r(3) by simp
  from data_tail_stream [OF r(2,4,5) c3 _ st3, of e b] obtain w' c' where w': "rcr_data_tail e b c3 w3 = Some w'"
    "find_connection (m_rcrtcs w') tid addr = Some c'" "as_stream c' = as_stream c3" "rc_state c' \<noteq> RCRT_S_FIN_RETX_WAIT"
    "rcr_up w' = rcr_up w3" by auto
  have "rcr_receive_data e flag tid addr ?s payload w = Some w'"
    unfolding rcr_receive_data_def f option.case guard Let_def c1_def [symmetric] n(1) bind.bind_lunit prod.case r(1) b w'(1) ..
  then show ?thesis using w'(2-5) c3 r(10) by (intro exI [of _ w'] exI [of _ c']) simp
qed

section \<open>A stream through the receiver\<close>

definition rcr_data_flags :: "u8 set" where
  "rcr_data_flags = {RCRT_FLAG_DATA, RCRT_FLAG_DATA OR RCRT_FLAG_ACK_REQ, RCRT_FLAG_DATA_RETX,
     RCRT_FLAG_DATA_RETX OR RCRT_FLAG_ACK_REQ}"

definition rcr_sealed :: "u16 \<Rightarrow> bytes \<Rightarrow> bool" where
  "rcr_sealed tid p \<longleftrightarrow> 6 \<le> length p \<and> tr_checksum_check p (of_nat (length p - 6)) = Some 1 \<and> tr_packet_getTid p = tid"

definition rcr_data_packet :: "u16 \<Rightarrow> u16 \<Rightarrow> bytes \<Rightarrow> bytes \<Rightarrow> bool" where
  "rcr_data_packet tid seqno msg p \<longleftrightarrow> rcr_sealed tid p \<and> tr_packet_getSeqno p = seqno
    \<and> tr_packet_getFlag p \<in> rcr_data_flags \<and> 12 \<le> length (tr_packet_getPayload p) \<and> drop 8 (tr_packet_getPayload p) = msg"

definition rcr_syn_packet :: "u16 \<Rightarrow> bytes \<Rightarrow> bool" where
  "rcr_syn_packet tid p \<longleftrightarrow> rcr_sealed tid p \<and> tr_packet_getFlag p = RCRT_FLAG_SYN \<and> 2 \<le> length (tr_packet_getPayload p)"

text \<open>Arrivals: the position, the environment of the call, the packet; at most a hundred numbers are skipped at once.\<close>

fun rcr_schedule :: "u16 \<Rightarrow> (nat \<Rightarrow> bytes) \<Rightarrow> nat set \<Rightarrow> (nat \<times> rcr_env \<times> bytes) list \<Rightarrow> bool" where
  "rcr_schedule tid data R [] = True"
| "rcr_schedule tid data R ((k, e, p) # xs) = (str_window R k \<and> k < seen R + 100
     \<and> rcr_data_packet tid (fwd 50000 1 k) (data k) p \<and> rcr_schedule tid data (insert k R) xs)"

primrec rcr_receive_all :: "u16 \<Rightarrow> (rcr_env \<times> bytes) list \<Rightarrow> rcr_world \<Rightarrow> rcr_world option" where
  "rcr_receive_all addr [] w = Some w"
| "rcr_receive_all addr (x # xs) w = do {
     w' \<leftarrow> rcrtransport_receive (fst x) (snd x) addr w;
     rcr_receive_all addr xs w'
   }"

lemma rcr_flags: "f \<in> rcr_data_flags \<Longrightarrow> f \<noteq> RCRT_FLAG_SYN \<and> f \<noteq> RCRT_FLAG_FIN" "RCRT_FLAG_SYN \<noteq> RCRT_FLAG_FIN"
  by (auto simp: rcr_data_flags_def consts_defs)

lemma rcr_receive_data_packet:
  "rcr_data_packet tid seqno msg p \<Longrightarrow> rcrtransport_receive e p addr w
    = rcr_receive_data e (tr_packet_getFlag p) tid addr seqno (tr_packet_getPayload p) w"
  using rcr_flags(1) [of "tr_packet_getFlag p"]
  by (simp add: rcr_data_packet_def rcr_sealed_def rcrtransport_receive_def rcr_data_flags_def del: of_nat_diff)

lemma rcr_receive_all_conn:
  assumes "find_connection (m_rcrtcs w) tid addr = Some c" "str_conn (as_stream c) 1 data R"
    "rc_state c \<noteq> RCRT_S_FIN_RETX_WAIT" "rcr_schedule tid data R xs"
  shows "\<exists>w'. rcr_receive_all addr (map snd xs) w = Some w' \<and> first_gap R \<le> first_gap (R \<union> fst ` set xs)
    \<and> rcr_up w' = rcr_up w @ map (\<lambda>k. (tid, addr, data k)) [first_gap R..<first_gap (R \<union> fst ` set xs)]"
  using assms
proof (induction xs arbitrary: R c w)
  case (Cons x xs)
  obtain k e p where x: "x = (k, e, p)" by (cases x)
  let ?R = "insert k R"
  have s: "str_window R k" "k < seen R + 100" "rcr_data_packet tid (fwd 50000 1 k) (data k) p" "rcr_schedule tid data ?R xs"
    using Cons.prems(4) x by auto
  have p: "12 \<le> length (tr_packet_getPayload p)" "drop 8 (tr_packet_getPayload p) = data k"
    using s(3) by (simp_all add: rcr_data_packet_def)
  from rcr_data_step [OF Cons.prems(1-3) s(1,2) p, of e "tr_packet_getFlag p"]
  obtain w1 c1 where d0: "rcr_receive_data e (tr_packet_getFlag p) tid addr (fwd 50000 1 k) (tr_packet_getPayload p) w = Some w1"
    and d: "find_connection (m_rcrtcs w1) tid addr = Some c1" "str_conn (as_stream c1) 1 data ?R"
      "rc_state c1 \<noteq> RCRT_S_FIN_RETX_WAIT"
      "rcr_up w1 = rcr_up w @ map (\<lambda>k. (tid, addr, data k)) [first_gap R..<first_gap ?R]"
    by blast
  have step: "rcrtransport_receive e p addr w = Some w1"
    using d0 rcr_receive_data_packet [OF s(3)] by simp
  from Cons.IH [OF d(1-3) s(4)] obtain w' where r: "rcr_receive_all addr (map snd xs) w1 = Some w'"
    "first_gap ?R \<le> first_gap (?R \<union> fst ` set xs)"
    "rcr_up w' = rcr_up w1 @ map (\<lambda>k. (tid, addr, data k)) [first_gap ?R..<first_gap (?R \<union> fst ` set xs)]"
    by blast
  have le: "first_gap R \<le> first_gap ?R"
    by (rule first_gap_mono [OF str_conn_fields(2) [OF d(2)]]) auto
  have "[first_gap R..<first_gap ?R] @ [first_gap ?R..<first_gap (?R \<union> fst ` set xs)]
      = [first_gap R..<first_gap (?R \<union> fst ` set xs)]"
    using upt_add_eq_append [OF le, of "first_gap (?R \<union> fst ` set xs) - first_gap ?R"] r(2) by simp
  then have "map (\<lambda>k. (tid, addr, data k)) [first_gap R..<first_gap ?R]
      @ map (\<lambda>k. (tid, addr, data k)) [first_gap ?R..<first_gap (?R \<union> fst ` set xs)]
      = map (\<lambda>k. (tid, addr, data k)) [first_gap R..<first_gap (?R \<union> fst ` set xs)]"
    by (simp only: flip: map_append)
  then show ?case using step d(4) r le x by (intro exI [of _ w']) simp
qed simp

lemma allocate_any: "\<exists>w'. allocate_rate_fairly F u = Some w' \<and> map unrated (m_rcrtcs w') = map unrated (m_rcrtcs u)
    \<and> rcr_up w' = rcr_up u"
  using allocate_rate_fairly_total [of F u] allocate_rated [OF _ rated_refl] by (fastforce simp: rated_def)

lemma adjust_rates_result:
  "\<exists>w'. adjust_rates_at_node_join F now req w = Some w' \<and> map unrated (m_rcrtcs w') = map unrated (m_rcrtcs w)
    \<and> rcr_up w' = rcr_up w"
  (is "?P w")
proof -
  have then_alloc: "\<exists>w'. (do { v \<leftarrow> allocate_rate_fairly F u; Some (f v) }) = Some w'
      \<and> map unrated (m_rcrtcs w') = map unrated (m_rcrtcs w) \<and> rcr_up w' = rcr_up w"
    if "map unrated (m_rcrtcs u) = map unrated (m_rcrtcs w)" "rcr_up u = rcr_up w"
      "\<And>v. m_rcrtcs (f v) = m_rcrtcs v \<and> rcr_up (f v) = rcr_up v" for u f
    using allocate_any [of F u] that by auto
  show ?thesis
    unfolding adjust_rates_at_node_join_def Let_def
    by (rule then_alloc) (simp_all add: recalculate_rho_def)
qed

text \<open>The request for a connection: a fresh one is found, numbered from 1 on, and nothing goes up.\<close>

lemma rcr_syn_new:
  assumes "rcr_syn_packet tid p" "find_connection (m_rcrtcs w) tid addr = None"
  shows "\<exists>w' c. rcrtransport_receive e p addr w = Some w' \<and> find_connection (m_rcrtcs w') tid addr = Some c
    \<and> str_conn (as_stream c) 1 data {} \<and> rc_state c \<noteq> RCRT_S_FIN_RETX_WAIT \<and> rcr_up w' = rcr_up w"
proof -
  obtain rate where rate: "rmsg_rate (tr_packet_getPayload p) = Some rate"
    using assms(1) by (simp add: rcr_syn_packet_def rmsg_rate_def)
  have rcv: "rcrtransport_receive e p addr w = rcr_receive_syn e tid addr (tr_packet_getPayload p) w"
    using assms(1) by (simp add: rcr_syn_packet_def rcr_sealed_def rcrtransport_receive_def del: of_nat_diff)
  have f: "\<not> find_connection (m_rcrtcs w) tid addr \<noteq> None" using assms(2) by simp
  let ?F = "v_fpu e" and ?now = "v_now e"
  let ?req = "if rate = 0 then 20 else rate"
  let ?w1 = "if bootup_time_ms w = 0 then w\<lparr>bootup_time_ms := of_nat (gettimeofday_ms ?now) - 1\<rparr> else w"
  let ?cs = "add_connection (m_rcrtcs ?w1) (v_mem e) tid addr"
  let ?c = "(hd ?cs)\<lparr>pktrate := init_packetrate, goodput := init_packetrate, loss_ewma := init_loss_ewma,
                 loss_ali := init_loss_ali (loss_ali (v_mem e)), connection_type := PROTOCOL_RCR_TRANSPORT,
                 lastRecvSeqNo := 0, lastSentAckSeqNo := 0, nextAckSeqNo := 0, rc_nextExpectedSeqNo := 1,
                 rc_state := RCRT_S_ACTIVE, rc_deletePending := False, rc_timeoutCount := 0, congestion_ewma := d_int 0,
                 feedback_fid_list := replicate FID_LIST_LEN 0, feedback_senttime := replicate FID_LIST_LEN 0,
                 feedback_fid := 0, feedback_idx := -1, last_feedback_time := 0, next_nack_idx := 0,
                 rc_rtt := d_int 0, rc_rttvar := d_int 0, rc_alloc := False, fcount := 0, totalRetxPackets := 0,
                 rc_missingList := u16list_init (rc_missingList (v_mem e)), rc_plist := SPList_init (rc_plist (v_mem e)),
                 req_irate := ?req\<rparr>"
  let ?v = "?w1\<lparr>m_rcrtcs := ?c # tl ?cs, m_num_rtrc := m_num_rtrc ?w1 + 1\<rparr>"
  have new: "create_rcrt_connection e tid addr rate w = adjust_rates_at_node_join ?F ?now ?req ?v"
    unfolding create_rcrt_connection_def if_not_P [OF f] Let_def ..
  obtain u where u: "adjust_rates_at_node_join ?F ?now ?req ?v = Some u" "map unrated (m_rcrtcs u) = map unrated (m_rcrtcs ?v)"
    "rcr_up u = rcr_up ?v"
    using adjust_rates_result by blast
  have k: "c_tid ?c = tid" "c_addr ?c = addr" by (simp_all add: add_connection_def)
  have "find_connection (m_rcrtcs ?v) tid addr = Some ?c" using k by (simp add: is_connection_def)
  from find_unrated [OF u(2) this] obtain c where c: "find_connection (m_rcrtcs u) tid addr = Some c" "unrated c = unrated ?c"
    by blast
  have "as_stream c = as_stream (unrated c)" "rc_state c = rc_state (unrated c)" by (simp_all add: as_stream_def)
  then have cs: "as_stream c = as_stream ?c" "rc_state c = RCRT_S_ACTIVE" unfolding c(2) by (simp_all add: as_stream_def)
  obtain c1 w2 where s: "r_send_SYN_ACK ?now c u = Some (c1, w2)"
    by (cases "update_feedback_send_info ?now u c") (simp add: r_send_SYN_ACK_def Let_def tr_calculate_checksum_eq)
  have s1: "same_stream c c1" "m_rcrtcs w2 = m_rcrtcs u" "rcr_up w2 = rcr_up u"
    using s feedback_info_stream [of c ?now u]
    by (auto simp: r_send_SYN_ACK_def Let_def rcr_write_def split: bind_splits prod.split_asm)
  have k1: "c_tid c1 = tid" "c_addr c1 = addr" using same_stream_key [OF s1(1)] find_connection_Some [OF c(1)] by simp_all
  have "rcr_receive_syn e tid addr (tr_packet_getPayload p) w = Some (rcr_put c1 w2)"
    unfolding rcr_receive_syn_def assms(2) option.case rate bind.bind_lunit new u(1) c(1) s prod.case ..
  moreover have "find_connection (m_rcrtcs (rcr_put c1 w2)) tid addr = Some c1"
    using find_upd_connection [of "m_rcrtcs u" c1] c(1) k1 s1(2) by (simp add: rcr_put_def is_connection_def)
  moreover have gap: "first_gap {} = 0" by (rule first_gap_eqI) simp_all
  have "str_conn (as_stream ?c) 1 data {}"
    by (simp add: str_conn_def str_holds_def seen_def gap fwd_0 spl_holds_def SPList_init_def last_at_def)
  then have "str_conn (as_stream c1) 1 data {}" using s1(1) cs(1) by (simp add: same_stream_def)
  moreover have "rc_state c1 \<noteq> RCRT_S_FIN_RETX_WAIT" using s1(1) cs(2) by (simp add: same_stream_def)
  moreover have "rcr_up (rcr_put c1 w2) = rcr_up w" using s1(3) u(3) by (simp add: rcr_put_def)
  ultimately show ?thesis unfolding rcv by blast
qed


section \<open>In order delivery\<close>

text \<open>A request of task 7 at 20 ms per packet, and packets 1 to 3 with the fields of the protocol zero; the last is a retransmission.\<close>

definition rcr_sample_syn :: bytes where
  "rcr_sample_syn = [7, 0, 0, 0, 0x02, 0xe3, 20, 0]"

definition rcr_sample_packet :: "nat \<Rightarrow> bytes" where
  "rcr_sample_packet k = (if k = 0 then [7, 0, 1, 0, 0x01, 0xb6, 0, 0, 0, 0, 0, 0, 0, 0, 65, 0, 0, 0]
     else if k = 1 then [7, 0, 2, 0, 0x21, 0x94, 0, 0, 0, 0, 0, 0, 0, 0, 66, 0, 0, 0]
     else [7, 0, 3, 0, 0x01, 0xb2, 0, 0, 0, 0, 0, 0, 0, 0, 67, 0, 0, 0])"

definition rcr_sample_data :: "nat \<Rightarrow> bytes" where
  "rcr_sample_data k = drop 8 (tr_packet_getPayload (rcr_sample_packet k))"

lemmas rcr_sample_eval = rcr_sample_syn_def rcr_sample_packet_def tr_packet_getTid_def tr_packet_getSeqno_def
  tr_packet_getFlag_def tr_packet_getPayload_def get16le_def get8_def consts_defs rcr_data_flags_def

lemma rcr_sample_data: "rcr_sample_data 0 = [65, 0, 0, 0]" "rcr_sample_data (Suc 0) = [66, 0, 0, 0]"
  "rcr_sample_data 2 = [67, 0, 0, 0]"
  by (simp_all add: rcr_sample_data_def rcr_sample_packet_def tr_packet_getPayload_def)

lemma rcr_sample_packets:
  "rcr_syn_packet 7 rcr_sample_syn" "rcr_data_packet 7 1 [65, 0, 0, 0] (rcr_sample_packet 0)"
  "rcr_data_packet 7 2 [66, 0, 0, 0] (rcr_sample_packet 1)" "rcr_data_packet 7 3 [67, 0, 0, 0] (rcr_sample_packet 2)"
  unfolding rcr_syn_packet_def rcr_data_packet_def rcr_sealed_def
  by (simp_all add: rcr_sample_eval checksum_eval word_eq_unat unat_mk16)

lemma rcr_sample_fwd: "fwd 50000 1 0 = 1" "fwd 50000 1 (Suc 0) = 2" "fwd 50000 1 2 = 3"
  by (simp_all add: word_eq_unat unat_fwd)

lemma rcr_sample_schedule:
  "rcr_schedule 7 rcr_sample_data {} [(0, rcr_sample_env, rcr_sample_packet 0), (2, rcr_sample_env, rcr_sample_packet 2),
     (1, rcr_sample_env, rcr_sample_packet 1)]"
  using rcr_sample_packets rcr_sample_fwd first_gap_sample
  by (simp add: str_window_def seen_def rcr_sample_data insert_commute)

text \<open>
  C10: from the request of a connection on, whatever the order, the losses and the repetitions in the window, and whatever
  rates, round trip times and losses the receiver estimates meanwhile, the application gets exactly the data of the positions
  before the first one that never arrived, each once and in the order of the stream, and every call returns.
\<close>

theorem rcrt_in_order:
  assumes "find_connection (m_rcrtcs w) tid addr = None" "rcr_syn_packet tid syn" "rcr_schedule tid data {} xs"
  shows "\<exists>w'. rcr_receive_all addr ((e, syn) # map snd xs) w = Some w'
    \<and> rcr_up w' = rcr_up w @ map (\<lambda>k. (tid, addr, data k)) [0..<first_gap (fst ` set xs)]"
proof -
  from rcr_syn_new [OF assms(2,1), of e data] obtain w1 c where s: "rcrtransport_receive e syn addr w = Some w1"
    "find_connection (m_rcrtcs w1) tid addr = Some c" "str_conn (as_stream c) 1 data {}" "rc_state c \<noteq> RCRT_S_FIN_RETX_WAIT"
    "rcr_up w1 = rcr_up w"
    by blast
  from rcr_receive_all_conn [OF s(2-4) assms(3)] show ?thesis using s(1,5) first_gap_sample(1) by auto
qed

theorem rcrt_in_order_witness:
  "\<exists>w'. rcr_receive_all 3 [(rcr_sample_env, rcr_sample_syn), (rcr_sample_env, rcr_sample_packet 0),
       (rcr_sample_env, rcr_sample_packet 2), (rcr_sample_env, rcr_sample_packet 1)] rcr_empty = Some w'
    \<and> rcr_up w' = [(7, 3, [65, 0, 0, 0]), (7, 3, [66, 0, 0, 0]), (7, 3, [67, 0, 0, 0])]"
proof -
  have none: "find_connection (m_rcrtcs rcr_empty) 7 3 = None" by (simp add: rcr_empty_def)
  have up: "rcr_up rcr_empty = []" by (simp add: rcr_empty_def)
  have "[0..<3] = [0, Suc 0, 2 :: nat]" by (simp add: upt_rec)
  then show ?thesis
    using rcrt_in_order [OF none rcr_sample_packets(1) rcr_sample_schedule, of rcr_sample_env] first_gap_sample(4)
    by (simp add: insert_commute up rcr_sample_data)
qed

end
