(* ===== verification/Serial_Line.thy ===== *)
theory Serial_Line
  imports Timeval
begin

text \<open>
  The serial protocol between a PC and the mote attached to it (src/tools/sf/serialsource.c): frames between sync bytes, with
  escapes and a cyclic redundancy check; queues of received packets; acknowledgements. The struct of the source is a
  record. Its last fields are the line: what the calls of \<open>read\<close>, \<open>select\<close>, \<open>write\<close> and \<open>fcntl\<close> will give, the bytes
  written so far, and the heap. When the list of reads is used up nothing more ever arrives; when the lists of writes
  and of \<open>fcntl\<close> are used up every further call succeeds. The messages to the callback are texts and are left out.
\<close>

unbundle bit_operations_syntax

section \<open>Constants and state\<close>

definition BUFSIZE :: nat where [consts_defs]: "BUFSIZE = 256"
definition MTU :: nat where [consts_defs]: "MTU = 256"
definition ACK_TIMEOUT :: int where [consts_defs]: "ACK_TIMEOUT = 1000000"
definition SYNC_BYTE :: u8 where [consts_defs]: "SYNC_BYTE = 0x7e"
definition ESCAPE_BYTE :: u8 where [consts_defs]: "ESCAPE_BYTE = 0x7d"
definition P_ACK :: u8 where [consts_defs]: "P_ACK = 64"
definition P_PACKET_ACK :: u8 where [consts_defs]: "P_PACKET_ACK = 65"
definition P_PACKET_NO_ACK :: u8 where [consts_defs]: "P_PACKET_NO_ACK = 66"

datatype read_result = R_Data bytes | R_Again | R_Intr | R_Error
datatype write_result = W_Wrote nat | W_Intr | W_Error
datatype wait_result = S_Ready | S_Timeout | S_Intr | S_Error

text \<open>A received packet: the memory it was allocated with, and the length that counts.\<close>

record packet_list =
  pl_packet :: bytes
  pl_len :: u8

definition sizeof_packet_list :: nat where "sizeof_packet_list = 12"

record serial_source =
  non_blocking :: bool
  rs_buffer :: bytes
  bufpos :: nat
  bufused :: nat
  rs_packet :: bytes
  in_sync :: bool
  rs_escaped :: bool
  rs_count :: nat
  rs_queue :: "u8 \<Rightarrow> packet_list list"
  ws_seqno :: u8
  ws_escaped :: bytes
  escapeptr :: nat
  ws_crc :: u16
  line_in :: "read_result list"
  line_waits :: "(timeval \<times> wait_result) list"
  line_writes :: "write_result list"
  line_fcntl :: "bool list"
  line_out :: bytes
  heap_bytes :: "nat \<Rightarrow> u8"
  heap_room :: nat

section \<open>Opening\<close>

definition baud_rates :: "nat set" where
  "baud_rates = {50, 75, 110, 134, 150, 200, 300, 600, 1200, 1800, 2400, 4800, 9600, 19200, 38400, 57600, 115200, 230400,
     460800, 500000, 576000, 921600, 1000000, 1152000, 1500000, 2000000, 2500000, 3000000, 3500000, 4000000}"

text \<open>The constants \<open>B50\<close> to \<open>B4000000\<close> of the system are a parameter.\<close>

definition parse_baudrate :: "(nat \<Rightarrow> nat) \<Rightarrow> nat \<Rightarrow> nat" where
  "parse_baudrate B requested = (if requested \<in> baud_rates then B requested else 0)"

text \<open>
  The result of \<open>malloc\<close> is cleared only as far as the size of a pointer, which is the descriptor, so every other field keeps
  what the memory held.
\<close>

definition open_serial_source :: "(nat \<Rightarrow> nat) \<Rightarrow> bool \<Rightarrow> bool \<Rightarrow> nat \<Rightarrow> bool \<Rightarrow> serial_source \<Rightarrow> serial_source option" where
  "open_serial_source B device_ok settings_ok baud_rate nonblocking mem =
    (if parse_baudrate B baud_rate = 0 then None
     else if \<not> device_ok then None
     else if \<not> settings_ok then None
     else Some (mem\<lparr>non_blocking := nonblocking, ws_seqno := 37\<rparr>))"

section \<open>Queues of packets\<close>

text \<open>
  An entry is allocated with \<open>sizeof *packet\<close>, one byte, and filled with a struct: this is defined only where
  the allocator rounds up that far.
\<close>

definition push_protocol_packet :: "u8 \<Rightarrow> bytes \<Rightarrow> u8 \<Rightarrow> serial_source \<Rightarrow> serial_source option" where
  "push_protocol_packet ty packet len s =
    (if heap_room s < sizeof_packet_list then None
     else Some (s\<lparr>rs_queue := (rs_queue s)(ty := rs_queue s ty @ [\<lparr>pl_packet = packet, pl_len = len\<rparr>])\<rparr>))"

definition pop_protocol_packet :: "u8 \<Rightarrow> serial_source \<Rightarrow> packet_list option \<times> serial_source" where
  "pop_protocol_packet ty s =
    (case rs_queue s ty of
       [] \<Rightarrow> (None, s)
     | entry # rest \<Rightarrow> (Some entry, s\<lparr>rs_queue := (rs_queue s)(ty := rest)\<rparr>))"

definition packet_available :: "u8 \<Rightarrow> serial_source \<Rightarrow> bool" where
  "packet_available ty s \<longleftrightarrow> rs_queue s ty \<noteq> []"

definition serial_source_empty :: "serial_source \<Rightarrow> bool" where
  "serial_source_empty s \<longleftrightarrow> bufpos s \<ge> bufused s \<and> \<not> packet_available P_PACKET_NO_ACK s"

section \<open>The cyclic redundancy check\<close>

definition crc_step :: "u16 \<Rightarrow> u16" where
  "crc_step crc = (if crc AND 0x8000 \<noteq> 0 then push_bit 1 crc XOR 0x1021 else push_bit 1 crc)"

definition crc_byte :: "u16 \<Rightarrow> u8 \<Rightarrow> u16" where
  "crc_byte crc b = (crc_step ^^ 8) (crc XOR push_bit 8 (ucast b))"

definition crc_packet :: "bytes \<Rightarrow> u16" where
  "crc_packet data = foldl crc_byte 0 data"

section \<open>Writing\<close>

text \<open>The loop of \<open>source_write\<close>; a \<open>write\<close> takes at most what it is given.\<close>

fun write_loop :: "bytes \<Rightarrow> write_result list \<Rightarrow> bytes \<Rightarrow> bool \<times> write_result list \<times> bytes" where
  "write_loop [] ws out = (True, ws, out)"
| "write_loop buf [] out = (True, [], out @ buf)"
| "write_loop buf (W_Wrote n # ws) out = write_loop (drop n buf) ws (out @ take n buf)"
| "write_loop buf (W_Intr # ws) out = write_loop buf ws out"
| "write_loop buf (W_Error # ws) out = (False, ws, out)"

definition fcntl_source :: "serial_source \<Rightarrow> bool \<times> serial_source" where
  "fcntl_source s = (case line_fcntl s of [] \<Rightarrow> (True, s) | ok # oks \<Rightarrow> (ok, s\<lparr>line_fcntl := oks\<rparr>))"

definition source_write :: "bytes \<Rightarrow> serial_source \<Rightarrow> int \<times> serial_source" where
  "source_write buf s =
    (case fcntl_source s of (ok, s1) \<Rightarrow>
       if \<not> ok then (-1, s1)
       else case write_loop buf (line_writes s1) (line_out s1) of (all, ws, out) \<Rightarrow>
         (if all then int (length buf) else -1, snd (fcntl_source (s1\<lparr>line_writes := ws, line_out := out\<rparr>))))"

definition escape_add :: "u8 \<Rightarrow> serial_source \<Rightarrow> serial_source option" where
  "escape_add b s =
    (if escapeptr s < length (ws_escaped s)
     then Some (s\<lparr>ws_escaped := (ws_escaped s)[escapeptr s := b], escapeptr := escapeptr s + 1\<rparr>)
     else None)"

definition init_escaper :: "nat \<Rightarrow> serial_source \<Rightarrow> serial_source option" where
  "init_escaper n s =
    escape_add SYNC_BYTE (s\<lparr>ws_escaped := map (heap_bytes s) [0..<n * 2 + 2], escapeptr := 0, ws_crc := 0\<rparr>)"

definition terminate_escaper :: "serial_source \<Rightarrow> serial_source option" where
  "terminate_escaper s = escape_add SYNC_BYTE s"

definition escape_byte :: "u8 \<Rightarrow> serial_source \<Rightarrow> serial_source option" where
  "escape_byte b s =
    (let s1 = s\<lparr>ws_crc := crc_byte (ws_crc s) b\<rparr>
     in if b = SYNC_BYTE \<or> b = ESCAPE_BYTE then do {
          s2 \<leftarrow> escape_add ESCAPE_BYTE s1;
          escape_add (b XOR 0x20) s2
        } else escape_add b s1)"

primrec escape_bytes :: "bytes \<Rightarrow> serial_source \<Rightarrow> serial_source option" where
  "escape_bytes [] s = Some s"
| "escape_bytes (b # bs) s = do { s1 \<leftarrow> escape_byte b s; escape_bytes bs s1 }"

definition write_framed_packet :: "u8 \<Rightarrow> u8 \<Rightarrow> bytes \<Rightarrow> serial_source \<Rightarrow> (int \<times> serial_source) option" where
  "write_framed_packet packet_type first_byte packet s = do {
     s1 \<leftarrow> init_escaper (length packet + 4) s;
     s2 \<leftarrow> escape_byte packet_type s1;
     s3 \<leftarrow> escape_byte first_byte s2;
     s4 \<leftarrow> escape_bytes packet s3;
     let crc = ws_crc s4;
     s5 \<leftarrow> escape_byte (lo8 crc) s4;
     s6 \<leftarrow> escape_byte (hi8 crc) s5;
     s7 \<leftarrow> terminate_escaper s6;
     let (n, s8) = source_write (take (escapeptr s7) (ws_escaped s7)) s7;
     Some (if n < 0 then -1 else 0, s8)
   }"

section \<open>Reading\<close>

text \<open>
  A \<open>read\<close> of nothing counts as no data in the non-blocking mode and is repeated in the blocking one, which waits for ever
  when nothing comes any more.
\<close>

fun buggyread :: "bool \<Rightarrow> read_result list \<Rightarrow> (read_result \<times> read_result list) option" where
  "buggyread nb [] = (if nb then Some (R_Again, []) else None)"
| "buggyread nb (R_Data bs # rs) =
     (if take BUFSIZE bs \<noteq> [] then Some (R_Data (take BUFSIZE bs), rs)
      else if nb then Some (R_Again, rs) else buggyread nb rs)"
| "buggyread nb (r # rs) = Some (r, rs)"

lemma buggyread_shorter: "buggyread nb rs = Some (r, rs') \<Longrightarrow> r \<noteq> R_Again \<Longrightarrow> length rs' < length rs"
  by (induction nb rs rule: buggyread.induct) (auto split: if_splits)

function refill :: "bool \<Rightarrow> read_result list \<Rightarrow> (bytes option \<times> read_result list) option" where
  "refill nb rs =
    (case buggyread nb rs of
       None \<Rightarrow> None
     | Some (R_Data bs, rs') \<Rightarrow> Some (Some bs, rs')
     | Some (R_Again, rs') \<Rightarrow> Some (None, rs')
     | Some (R_Intr, rs') \<Rightarrow> refill nb rs'
     | Some (R_Error, rs') \<Rightarrow> refill nb rs')"
  by pat_completeness auto
termination
  by (relation "measure (\<lambda>(nb, rs). length rs)") (auto dest: buggyread_shorter)

declare refill.simps [simp del]

definition read_byte :: "serial_source \<Rightarrow> (u8 option \<times> serial_source) option" where
  "read_byte s = do {
     (more, s1) \<leftarrow> (if bufpos s \<ge> bufused s then do {
         (data, rs) \<leftarrow> refill (non_blocking s) (line_in s);
         Some (case data of
             None \<Rightarrow> (False, s\<lparr>line_in := rs\<rparr>)
           | Some bs \<Rightarrow> (True, s\<lparr>line_in := rs, rs_buffer := bs @ drop (length bs) (rs_buffer s), bufpos := 0,
                              bufused := length bs\<rparr>))
       } else Some (True, s));
     Some (if more then (Some (rs_buffer s1 ! bufpos s1), s1\<lparr>bufpos := bufpos s1 + 1\<rparr>) else (None, s1))
   }"

text \<open>A packet that wants an acknowledgement gets it, and joins those that do not.\<close>

definition process_packet :: "bytes \<Rightarrow> serial_source \<Rightarrow> serial_source option" where
  "process_packet packet s =
    (let len = length packet; move = (\<lambda>offset. drop offset packet @ drop (len - offset) packet) in
     if get8 packet 0 = P_PACKET_ACK then do {
       (r, s1) \<leftarrow> write_framed_packet P_ACK (get8 packet 1) [] s;
       push_protocol_packet P_PACKET_NO_ACK (move 2) (of_nat (len - 2)) s1
     } else push_protocol_packet (get8 packet 0) (move 1) (of_nat (len - 1)) s)"

text \<open>The end of a frame; the result tells whether a packet was processed.\<close>

definition end_of_frame :: "serial_source \<Rightarrow> (bool \<times> serial_source) option" where
  "end_of_frame s =
    (let n = rs_count s; s1 = s\<lparr>rs_count := 0\<rparr>; received = take (n - 2) (rs_packet s);
         read_crc = mk16 (rs_packet s ! (n - 1)) (rs_packet s ! (n - 2))
     in if n < 4 then Some (False, s1)
        else if read_crc = crc_packet received then do {
          s2 \<leftarrow> process_packet received s1;
          Some (True, s2)
        } else Some (False, s1))"

text \<open>One byte in the loop of \<open>read_and_process\<close>; the result tells whether the function returns.\<close>

definition receive_byte :: "u8 \<Rightarrow> serial_source \<Rightarrow> (bool \<times> serial_source) option" where
  "receive_byte byte s =
    (let store = (\<lambda>b s. Some (False, s\<lparr>rs_packet := (rs_packet s)[rs_count s := b], rs_count := rs_count s + 1\<rparr>)) in
     if \<not> in_sync s then
       Some (False, if byte = SYNC_BYTE then s\<lparr>in_sync := True, rs_count := 0, rs_escaped := False\<rparr> else s)
     else if rs_count s \<ge> MTU then Some (False, s\<lparr>in_sync := False\<rparr>)
     else if rs_escaped s then
       (if byte = SYNC_BYTE then Some (False, s\<lparr>in_sync := False\<rparr>)
        else store (byte XOR 0x20) (s\<lparr>rs_escaped := False\<rparr>))
     else if byte = ESCAPE_BYTE then Some (False, s\<lparr>rs_escaped := True\<rparr>)
     else if byte = SYNC_BYTE then end_of_frame s
     else store byte s)"

partial_function (option) read_and_process :: "serial_source \<Rightarrow> serial_source option" where
  "read_and_process s = do {
     (byte, s1) \<leftarrow> read_byte s;
     (case byte of
        None \<Rightarrow> Some s1
      | Some b \<Rightarrow> do {
          (processed, s2) \<leftarrow> receive_byte b s1;
          (if processed then Some s2 else read_and_process s2)
        })
   }"

section \<open>Waiting, reading and writing packets\<close>

text \<open>
  A deadline that has passed, an error of \<open>select\<close> and its timeout all end the wait. Each round reads the clock. Without a
  deadline the wait lasts until something comes.
\<close>

fun wait_loop :: "timeval option \<Rightarrow> (timeval \<times> wait_result) list \<Rightarrow> (bool \<times> (timeval \<times> wait_result) list) option" where
  "wait_loop deadline [] = (if deadline = None then None else Some (False, []))"
| "wait_loop deadline ((now, r) # ws) =
    (let expired = (case deadline of None \<Rightarrow> False
         | Some d \<Rightarrow> tv_sec d - tv_sec now - (if tv_usec d - tv_usec now < 0 then 1 else 0) < 0)
     in if expired then Some (False, ws)
        else case r of
            S_Ready \<Rightarrow> Some (True, ws)
          | S_Intr \<Rightarrow> wait_loop deadline ws
          | _ \<Rightarrow> Some (False, ws))"

definition source_wait :: "timeval option \<Rightarrow> serial_source \<Rightarrow> (bool \<times> serial_source) option" where
  "source_wait deadline s =
    (if bufpos s < bufused s then Some (True, s)
     else do {
       (ready, ws) \<leftarrow> wait_loop deadline (line_waits s);
       Some (ready, s\<lparr>line_waits := ws\<rparr>)
     })"

partial_function (option) read_serial_packet :: "serial_source \<Rightarrow> (bytes option \<times> serial_source) option" where
  "read_serial_packet s = do {
     s1 \<leftarrow> read_and_process s;
     (case pop_protocol_packet P_PACKET_NO_ACK s1 of
        (Some entry, s2) \<Rightarrow> Some (Some (take (unat (pl_len entry)) (pl_packet entry)), s2)
      | (None, s2) \<Rightarrow>
          (if non_blocking s2 \<and> serial_source_empty s2 then Some (None, s2)
           else do {
             (ready, s3) \<leftarrow> source_wait None s2;
             read_serial_packet s3
           }))
   }"

definition add_us :: "timeval \<Rightarrow> int \<Rightarrow> timeval" where
  "add_us tv us =
    (let sec = tv_sec tv + us div 1000000; usec = tv_usec tv + us mod 1000000
     in if usec > 1000000 then \<lparr>tv_sec = sec + 1, tv_usec = usec - 1000000\<rparr> else \<lparr>tv_sec = sec, tv_usec = usec\<rparr>)"

partial_function (option) await_ack :: "timeval \<Rightarrow> serial_source \<Rightarrow> (int \<times> serial_source) option" where
  "await_ack deadline s = do {
     s1 \<leftarrow> read_and_process s;
     (case pop_protocol_packet P_ACK s1 of
        (Some entry, s2) \<Rightarrow>
          (if get8 (pl_packet entry) 0 = ws_seqno s2 then Some (0, s2) else await_ack deadline s2)
      | (None, s2) \<Rightarrow> do {
          (ready, s3) \<leftarrow> source_wait (Some deadline) s2;
          (if ready then await_ack deadline s3 else Some (1, s3))
        })
   }"

definition write_serial_packet :: "timeval \<Rightarrow> bytes \<Rightarrow> serial_source \<Rightarrow> (int \<times> serial_source) option" where
  "write_serial_packet now packet s = do {
     let s1 = s\<lparr>ws_seqno := ws_seqno s + 1\<rparr>;
     (r, s2) \<leftarrow> write_framed_packet P_PACKET_ACK (ws_seqno s1) packet s1;
     (if r < 0 then Some (-1, s2) else await_ack (add_us now ACK_TIMEOUT) s2)
   }"

end
