(* ===== verification/Serial_Deframe.thy ===== *)
theory Serial_Deframe
  imports Serial_Line
begin

text \<open>
  The frames of the serial protocol on their own: an automaton that takes frames from a stream of bytes, which finds its way into
  the stream from any state, and what the cyclic redundancy check detects.
\<close>

unbundle bit_operations_syntax

section \<open>Frames and the automaton\<close>

definition esc :: "u8 \<Rightarrow> bytes" where
  "esc b = (if b = SYNC_BYTE \<or> b = ESCAPE_BYTE then [ESCAPE_BYTE, b XOR 0x20] else [b])"

definition sealed :: "bytes \<Rightarrow> bytes" where
  "sealed d = d @ [lo8 (crc_packet d), hi8 (crc_packet d)]"

definition frame_body :: "bytes \<Rightarrow> bytes" where
  "frame_body d = concat (map esc (sealed d))"

definition frame :: "bytes \<Rightarrow> bytes" where
  "frame d = SYNC_BYTE # frame_body d @ [SYNC_BYTE]"

text \<open>The automaton looks for a sync byte, or collects a frame; the flag says that the last byte was an escape.\<close>

datatype deframer = Hunting | In_Frame bool bytes

definition good_frame :: "bytes \<Rightarrow> bool" where
  "good_frame bs \<longleftrightarrow> 4 \<le> length bs \<and> bs = sealed (take (length bs - 2) bs)"

fun deframe_step :: "deframer \<Rightarrow> u8 \<Rightarrow> deframer \<times> bytes list" where
  "deframe_step Hunting b = (if b = SYNC_BYTE then In_Frame False [] else Hunting, [])"
| "deframe_step (In_Frame e bs) b =
    (if MTU \<le> length bs then (Hunting, [])
     else if e then (if b = SYNC_BYTE then Hunting else In_Frame False (bs @ [b XOR 0x20]), [])
     else if b = ESCAPE_BYTE then (In_Frame True bs, [])
     else if b = SYNC_BYTE then (In_Frame False [], if good_frame bs then [take (length bs - 2) bs] else [])
     else (In_Frame False (bs @ [b]), []))"

fun deframe :: "deframer \<Rightarrow> bytes \<Rightarrow> deframer \<times> bytes list" where
  "deframe x [] = (x, [])"
| "deframe x (b # bs) =
    (case deframe_step x b of (x1, ps) \<Rightarrow> case deframe x1 bs of (x2, qs) \<Rightarrow> (x2, ps @ qs))"

lemma deframe_append:
  "deframe x (a @ b) = (case deframe x a of (x1, ps) \<Rightarrow> case deframe x1 b of (x2, qs) \<Rightarrow> (x2, ps @ qs))"
  by (induction a arbitrary: x) (auto split: prod.splits)

lemma xor_escape: "(b XOR 0x20) XOR 0x20 = (b :: u8)"
  by (simp add: xor.assoc)

lemma escaped_not_sync: "b = SYNC_BYTE \<or> b = ESCAPE_BYTE \<Longrightarrow> b XOR 0x20 \<noteq> SYNC_BYTE"
  by (auto simp: consts_defs)

lemma sync_escape: "SYNC_BYTE \<noteq> ESCAPE_BYTE"
  by (simp add: consts_defs)

lemma deframe_esc:
  "length bs < MTU \<Longrightarrow> deframe (In_Frame False bs) (esc b) = (In_Frame False (bs @ [b]), [])"
  using escaped_not_sync [of b] sync_escape by (auto simp: esc_def xor_escape)

lemma deframe_escs:
  "length bs + length cs \<le> MTU \<Longrightarrow> deframe (In_Frame False bs) (concat (map esc cs)) = (In_Frame False (bs @ cs), [])"
  by (induction cs arbitrary: bs) (simp_all add: deframe_append deframe_esc)

text \<open>Between frames the automaton is looking for a sync byte, or has just seen one.\<close>

definition idle :: "deframer \<Rightarrow> bool" where
  "idle x \<longleftrightarrow> x = Hunting \<or> x = In_Frame False []"

lemma good_sealed: "2 \<le> length d \<Longrightarrow> good_frame (sealed d)"
  by (simp add: good_frame_def sealed_def)

lemma good_frame_sealed: "good_frame (d @ [l, h]) \<longleftrightarrow> 2 \<le> length d \<and> mk16 h l = crc_packet d"
proof -
  have "l = lo8 c \<and> h = hi8 c \<longleftrightarrow> mk16 h l = c" for c
    using lo8_mk16 [of h l] hi8_mk16 [of h l] by auto
  then show ?thesis by (auto simp: good_frame_def sealed_def)
qed

lemma deframe_open: "idle x \<Longrightarrow> deframe_step x SYNC_BYTE = (In_Frame False [], [])"
  using sync_escape by (auto simp: idle_def good_frame_def consts_defs)

lemma deframe_raw:
  assumes "idle x" "length bs < MTU"
  shows "deframe x (SYNC_BYTE # concat (map esc bs) @ [SYNC_BYTE])
    = (In_Frame False [], if good_frame bs then [take (length bs - 2) bs] else [])"
  using assms deframe_escs [of "[]" bs] deframe_open [OF assms(1)] sync_escape by (simp add: deframe_append)

lemma deframe_frame:
  assumes "idle x" "2 \<le> length d" "length d \<le> 253"
  shows "deframe x (frame d) = (In_Frame False [], [d])"
  using deframe_raw [OF assms(1), of "sealed d"] good_sealed [OF assms(2)] assms(3)
  by (simp add: frame_def frame_body_def sealed_def MTU_def)

lemma deframe_frames:
  "idle x \<Longrightarrow> \<forall>d \<in> set ds. 2 \<le> length d \<and> length d \<le> 253 \<Longrightarrow>
    \<exists>x'. deframe x (concat (map frame ds)) = (x', ds) \<and> idle x'"
proof (induction ds arbitrary: x)
  case (Cons d ds)
  have "idle (In_Frame False [])" by (simp add: idle_def)
  then obtain x' where "deframe (In_Frame False []) (concat (map frame ds)) = (x', ds)" "idle x'"
    using Cons.IH [of "In_Frame False []"] Cons.prems(2) by auto
  then show ?case using deframe_frame [OF Cons.prems(1), of d] Cons.prems(2) by (simp add: deframe_append)
qed simp

text \<open>From any state a frame leaves the automaton between frames, so the next one is taken.\<close>

lemma no_sync_in_esc: "SYNC_BYTE \<notin> set (concat (map esc cs))"
proof -
  have "SYNC_BYTE \<notin> set (esc c)" for c using escaped_not_sync [of c] sync_escape by (auto simp: esc_def)
  then show ?thesis by simp
qed

lemma hunting_on: "SYNC_BYTE \<notin> set cs \<Longrightarrow> deframe Hunting cs = (Hunting, [])"
  by (induction cs) auto

lemma deframe_any_frame:
  assumes "length d \<le> 253"
  shows "\<exists>ps. deframe x (frame d) = (In_Frame False [], ps)"
proof -
  obtain x1 ps where s: "deframe_step x SYNC_BYTE = (x1, ps)" by (cases "deframe_step x SYNC_BYTE") simp
  have d: "deframe x (frame d) = (case deframe x1 (frame_body d @ [SYNC_BYTE]) of (x2, qs) \<Rightarrow> (x2, ps @ qs))"
    by (simp add: frame_def s)
  have "idle x1" using s sync_escape by (cases x) (auto simp: idle_def split: if_split_asm)
  then consider "x1 = Hunting" | "x1 = In_Frame False []" by (auto simp: idle_def)
  then show ?thesis
  proof cases
    case 1
    then show ?thesis using hunting_on [OF no_sync_in_esc] by (simp add: d frame_body_def deframe_append)
  next
    case 2
    have "deframe (In_Frame False []) (frame_body d) = (In_Frame False (sealed d), [])"
      using deframe_escs [of "[]" "sealed d"] assms by (simp add: frame_body_def sealed_def MTU_def)
    then show ?thesis using 2 assms sync_escape by (simp add: d deframe_append sealed_def MTU_def)
  qed
qed

lemma deframe_resync:
  assumes "length d \<le> 253" "\<forall>d \<in> set ds. 2 \<le> length d \<and> length d \<le> 253"
  shows "\<exists>x' ps. deframe x (frame d @ concat (map frame ds)) = (x', ps @ ds)"
proof -
  obtain ps where "deframe x (frame d) = (In_Frame False [], ps)" using deframe_any_frame [OF assms(1)] by blast
  moreover obtain x' where "deframe (In_Frame False []) (concat (map frame ds)) = (x', ds)"
    using deframe_frames [OF _ assms(2), of "In_Frame False []"] by (auto simp: idle_def)
  ultimately show ?thesis by (simp add: deframe_append)
qed

text \<open>A frame whose content fills the whole buffer, or more, is dropped.\<close>

lemma tail_without: "x \<notin> set es \<Longrightarrow> \<exists>b bs. es @ [x] = b # bs \<and> (bs = [] \<or> (\<exists>cs. bs = cs @ [x] \<and> x \<notin> set cs))"
  by (cases es) auto

lemma deframe_too_long:
  assumes "idle x" "254 \<le> length d"
  shows "snd (deframe x (frame d)) = []"
proof -
  let ?u = "take 256 (sealed d)" and ?v = "drop 256 (sealed d)"
  have l: "length ?u = 256" using assms(2) by (simp add: sealed_def)
  have u: "deframe (In_Frame False []) (concat (map esc ?u)) = (In_Frame False ?u, [])"
    using deframe_escs [of "[]" ?u] l by (simp add: MTU_def)
  have "frame_body d = concat (map esc ?u) @ concat (map esc ?v)"
    unfolding frame_body_def concat_append [symmetric] map_append [symmetric] append_take_drop_id ..
  then have f: "deframe x (frame d) = deframe (In_Frame False ?u) (concat (map esc ?v) @ [SYNC_BYTE])"
    using deframe_open [OF assms(1)] u by (simp add: frame_def deframe_append del: append_take_drop_id)
  obtain b bs where b: "concat (map esc ?v) @ [SYNC_BYTE] = b # bs"
    and bs: "bs = [] \<or> (\<exists>es. bs = es @ [SYNC_BYTE] \<and> SYNC_BYTE \<notin> set es)"
    using tail_without [OF no_sync_in_esc [of ?v]] by blast
  have h: "snd (deframe Hunting cs) = []" if "cs = [] \<or> (\<exists>es. cs = es @ [SYNC_BYTE] \<and> SYNC_BYTE \<notin> set es)" for cs
    using that hunting_on by (auto simp: deframe_append)
  show ?thesis unfolding f b using h [OF bs] l by (simp add: MTU_def split: prod.split)
qed

section \<open>What the check detects\<close>

lemma xor_cancel: "a XOR d = b XOR d \<longleftrightarrow> a = (b :: u16)" "d XOR a = d XOR b \<longleftrightarrow> a = b"
proof -
  have e: "(x XOR d) XOR d = x" for x by (simp add: xor.assoc)
  show "a XOR d = b XOR d \<longleftrightarrow> a = b"
  proof
    assume "a XOR d = b XOR d"
    then have "(a XOR d) XOR d = (b XOR d) XOR d" by (rule arg_cong)
    then show "a = b" unfolding e .
  qed simp
  then show "d XOR a = d XOR b \<longleftrightarrow> a = b" unfolding xor.commute [of d] .
qed

lemma xor_zero_iff: "a XOR b = 0 \<longleftrightarrow> a = (b :: u16)"
  using xor_cancel(1) [of a b b] by simp

text \<open>A step of the check is linear and has no kernel, and a byte in the low half only moves up in eight steps.\<close>

definition crc_mask :: "u16 \<Rightarrow> u16" where
  "crc_mask c = (if bit c 15 then 0x1021 else 0)"

lemma crc_step_eq: "crc_step c = push_bit 1 c XOR crc_mask c"
proof -
  have "(c AND 0x8000 \<noteq> 0) = bit c 15"
    using and_exp_eq_0_iff_not_bit [of c 15] by simp
  then show ?thesis by (simp add: crc_step_def crc_mask_def)
qed

lemma crc_step_xor: "crc_step (a XOR b) = crc_step a XOR crc_step b"
proof -
  have "crc_mask (a XOR b) = crc_mask a XOR crc_mask b" by (simp add: crc_mask_def bit_xor_iff)
  then show ?thesis by (simp add: crc_step_eq push_bit_xor ac_simps)
qed

lemma crc_step_zero: "crc_step c = 0 \<longleftrightarrow> c = 0"
proof
  assume z: "crc_step c = 0"
  have "bit (crc_step c) 0 = bit c 15"
    unfolding crc_step_eq bit_xor_iff bit_push_bit_iff crc_mask_def by simp
  then have n: "\<not> bit c 15" using z by simp
  then have p: "push_bit 1 c = 0" using z by (simp add: crc_step_eq crc_mask_def)
  have "\<not> bit c n" if "n < 16" for n
  proof (cases "n = 15")
    case False
    then have "Suc n < 16" using that by simp
    moreover have "\<not> bit (push_bit 1 c) (Suc n)" using p by simp
    ultimately show ?thesis unfolding bit_push_bit_iff by simp
  qed (use n in simp)
  then show "c = 0" by (intro bit_word_eqI) simp
qed (simp add: crc_step_eq crc_mask_def)

lemma crc_steps_xor: "(crc_step ^^ n) (a XOR b) = (crc_step ^^ n) a XOR (crc_step ^^ n) b"
  by (induction n) (simp_all add: crc_step_xor)

lemma crc_steps_inj: "(crc_step ^^ n) a = (crc_step ^^ n) b \<longleftrightarrow> a = b"
proof -
  have "(crc_step ^^ n) c = 0 \<longleftrightarrow> c = 0" for c by (induction n) (simp_all add: crc_step_zero)
  from this [of "a XOR b"] show ?thesis by (simp add: crc_steps_xor xor_zero_iff)
qed

lemma crc_steps_low: "n \<le> 8 \<Longrightarrow> (crc_step ^^ n) (ucast (b :: u8)) = push_bit n (ucast b :: u16)"
proof (induction n)
  case (Suc n)
  have "\<not> bit (push_bit n (ucast b) :: u16) 15"
    using Suc.prems bit_imp_le_length [of b "15 - n"] by (auto simp: bit_push_bit_iff bit_ucast_iff)
  then have "crc_step (push_bit n (ucast b)) = push_bit 1 (push_bit n (ucast b) :: u16)"
    by (simp add: crc_step_eq crc_mask_def del: push_bit_of_Suc_0)
  also have "\<dots> = push_bit (Suc n) (ucast b)" by (simp only: push_bit_push_bit) simp
  finally show ?case using Suc by simp
qed simp

lemma crc_byte_inj: "crc_byte c b = crc_byte c' b \<longleftrightarrow> c = c'"
  by (simp add: crc_byte_def crc_steps_inj xor_cancel)

lemma crc_bytes_inj: "foldl crc_byte c bs = foldl crc_byte c' bs \<longleftrightarrow> c = c'"
  by (induction bs arbitrary: c c') (simp_all add: crc_byte_inj)

lemma crc_two: "crc_byte (crc_byte c x) y = (crc_step ^^ 16) (c XOR push_bit 8 (ucast x) XOR ucast y)"
proof -
  have "crc_byte (crc_byte c x) y = (crc_step ^^ 8) ((crc_step ^^ 8) (c XOR push_bit 8 (ucast x)) XOR (crc_step ^^ 8) (ucast y))"
    unfolding crc_byte_def crc_steps_low [OF order_refl] ..
  also have "\<dots> = (crc_step ^^ 8) ((crc_step ^^ 8) ((c XOR push_bit 8 (ucast x)) XOR ucast y))"
    unfolding crc_steps_xor ..
  also have "\<dots> = (crc_step ^^ (8 + 8)) ((c XOR push_bit 8 (ucast x)) XOR ucast y)" unfolding funpow_add by simp
  finally show ?thesis by (simp add: xor.assoc)
qed

lemma two_bytes_eq:
  "push_bit 8 (ucast x) XOR ucast y = (push_bit 8 (ucast x') XOR ucast y' :: u16) \<longleftrightarrow> x = x' \<and> y = y'"
  for x x' y y' :: u8
proof
  assume e: "push_bit 8 (ucast x) XOR ucast y = (push_bit 8 (ucast x') XOR ucast y' :: u16)"
  have "bit x n = bit x' n" if "n < 8" for n
  proof -
    have "bit (push_bit 8 (ucast x) XOR ucast y :: u16) (n + 8) = bit x n"
      "bit (push_bit 8 (ucast x') XOR ucast y' :: u16) (n + 8) = bit x' n"
      using that by (auto simp: bit_xor_iff bit_push_bit_iff bit_ucast_iff dest: bit_imp_le_length)
    then show ?thesis using e by simp
  qed
  moreover have "bit y n = bit y' n" if "n < 8" for n
  proof -
    have "bit (push_bit 8 (ucast x) XOR ucast y :: u16) n = bit y n"
      "bit (push_bit 8 (ucast x') XOR ucast y' :: u16) n = bit y' n"
      using that by (auto simp: bit_xor_iff bit_push_bit_iff bit_ucast_iff)
    then show ?thesis using e by simp
  qed
  ultimately show "x = x' \<and> y = y'" by (auto intro!: bit_word_eqI)
qed simp

lemma crc_burst: "crc_packet (a @ x # y # b) = crc_packet (a @ x' # y' # b) \<longleftrightarrow> x = x' \<and> y = y'"
proof -
  have "crc_packet (a @ x # y # b) = crc_packet (a @ x' # y' # b)
    \<longleftrightarrow> crc_byte (crc_byte (crc_packet a) x) y = crc_byte (crc_byte (crc_packet a) x') y'"
    by (simp add: crc_packet_def crc_bytes_inj)
  also have "\<dots> \<longleftrightarrow> push_bit 8 (ucast x) XOR ucast y = (push_bit 8 (ucast x') XOR ucast y' :: u16)"
    unfolding crc_two crc_steps_inj xor_cancel ..
  finally show ?thesis using two_bytes_eq by simp
qed

text \<open>A frame with one or two neighbouring bytes of its content changed is dropped, and the automaton is between frames.\<close>

definition damaged_frame :: "bytes \<Rightarrow> bytes \<Rightarrow> bytes" where
  "damaged_frame d d' = SYNC_BYTE # concat (map esc (d' @ [lo8 (crc_packet d), hi8 (crc_packet d)])) @ [SYNC_BYTE]"

lemma deframe_damaged:
  assumes "idle x" "(x1, y1) \<noteq> (x2, y2)" "length a + length b \<le> 251"
  shows "deframe x (damaged_frame (a @ x1 # y1 # b) (a @ x2 # y2 # b)) = (In_Frame False [], [])"
proof -
  let ?c = "crc_packet (a @ x1 # y1 # b)" and ?d = "a @ x2 # y2 # b"
  have "\<not> good_frame (?d @ [lo8 ?c, hi8 ?c])"
    unfolding good_frame_sealed using crc_burst [of a x2 y2 b x1 y1] assms(2) by auto
  moreover have "length (?d @ [lo8 ?c, hi8 ?c]) < MTU" using assms(3) by (simp add: MTU_def)
  note raw = deframe_raw [OF assms(1) this]
  ultimately show ?thesis unfolding damaged_frame_def raw by (simp only: if_False)
qed

end
