(* ===== verification/Serial_Frames.thy ===== *)
theory Serial_Frames
  imports Serial_Deframe
begin

text \<open>
  The serial protocol at work: what is written is a frame and fits its buffer, and the receiver of the code implements the
  automaton of theory Serial_Deframe, so it hands out what was sent, whatever way the bytes come in.
\<close>

unbundle bit_operations_syntax

section \<open>What is written\<close>

text \<open>Only the escaper changes: \<open>out\<close> is added to its buffer, and its check becomes \<open>crc\<close>.\<close>

definition added :: "bytes \<Rightarrow> u16 \<Rightarrow> serial_source \<Rightarrow> serial_source \<Rightarrow> bool" where
  "added out crc s s' \<longleftrightarrow> (\<exists>m. s' = s\<lparr>ws_escaped := m, escapeptr := escapeptr s + length out, ws_crc := crc\<rparr>
    \<and> take (escapeptr s + length out) m = take (escapeptr s) (ws_escaped s) @ out \<and> length m = length (ws_escaped s))"

lemma added_refl: "added [] (ws_crc s) s s"
  unfolding added_def by (rule exI [of _ "ws_escaped s"]) simp

lemma added_trans: "added a c s s1 \<Longrightarrow> added b d s1 s2 \<Longrightarrow> added (a @ b) d s s2"
  by (auto simp: added_def add.assoc)

lemma added_fields: "added a c s s1 \<Longrightarrow> escapeptr s1 = escapeptr s + length a \<and> length (ws_escaped s1) = length (ws_escaped s) \<and> ws_crc s1 = c"
  by (auto simp: added_def)

lemma escape_add_ok:
  assumes "escapeptr s < length (ws_escaped s)"
  shows "\<exists>s'. escape_add b s = Some s' \<and> added [b] (ws_crc s) s s'"
  using assms by (auto simp: escape_add_def added_def take_Suc_conv_app_nth intro!: exI [of _ "(ws_escaped s)[escapeptr s := b]"])

lemma length_esc: "length (esc b) \<le> 2"
  by (simp add: esc_def)

lemma escape_byte_ok:
  assumes "escapeptr s + 2 \<le> length (ws_escaped s)"
  shows "\<exists>s'. escape_byte b s = Some s' \<and> added (esc b) (crc_byte (ws_crc s) b) s s'"
proof -
  let ?s1 = "s\<lparr>ws_crc := crc_byte (ws_crc s) b\<rparr>"
  have one: "\<exists>s'. escape_add x ?s1 = Some s' \<and> added [x] (crc_byte (ws_crc s) b) s s'" for x
    using escape_add_ok [of ?s1 x] assms by (auto simp: added_def)
  show ?thesis
  proof (cases "b = SYNC_BYTE \<or> b = ESCAPE_BYTE")
    case True
    obtain s2 where s2: "escape_add ESCAPE_BYTE ?s1 = Some s2" "added [ESCAPE_BYTE] (crc_byte (ws_crc s) b) s s2"
      using one by blast
    then obtain s3 where "escape_add (b XOR 0x20) s2 = Some s3" "added [b XOR 0x20] (crc_byte (ws_crc s) b) s2 s3"
      using escape_add_ok [of s2 "b XOR 0x20"] added_fields [OF s2(2)] assms by auto
    then show ?thesis using True s2 added_trans [OF s2(2)] by (fastforce simp: escape_byte_def Let_def esc_def)
  next
    case False
    then show ?thesis using one [of b] by (simp add: escape_byte_def Let_def esc_def)
  qed
qed

lemma escape_bytes_ok:
  "escapeptr s + 2 * length bs \<le> length (ws_escaped s) \<Longrightarrow>
    \<exists>s'. escape_bytes bs s = Some s' \<and> added (concat (map esc bs)) (foldl crc_byte (ws_crc s) bs) s s'"
proof (induction bs arbitrary: s)
  case Nil
  show ?case by (simp add: added_refl)
next
  case (Cons b bs)
  obtain s1 where s1: "escape_byte b s = Some s1" "added (esc b) (crc_byte (ws_crc s) b) s s1"
    using escape_byte_ok [of s b] Cons.prems by auto
  obtain s2 where "escape_bytes bs s1 = Some s2" "added (concat (map esc bs)) (foldl crc_byte (ws_crc s1) bs) s1 s2"
    using Cons.IH [of s1] Cons.prems added_fields [OF s1(2)] length_esc [of b] by auto
  then show ?case using s1 added_trans [OF s1(2)] added_fields [OF s1(2)] by auto
qed

text \<open>The buffer is large enough for every frame, and what is written from it is the frame.\<close>

lemma escape_bytes_append: "escape_bytes (a @ b) s = do { s1 \<leftarrow> escape_bytes a s; escape_bytes b s1 }"
  by (induction a arbitrary: s) (simp_all split: bind_splits)

lemma length_concat_esc: "length (concat (map esc bs)) \<le> 2 * length bs"
proof (induction bs)
  case (Cons b bs)
  then show ?case using length_esc [of b] by simp
qed simp

lemma write_framed_packet_eq:
  "\<exists>m c. write_framed_packet ty b p s =
    (case source_write (frame (ty # b # p)) (s\<lparr>ws_escaped := m, escapeptr := length (frame (ty # b # p)), ws_crc := c\<rparr>)
     of (n, s') \<Rightarrow> Some (if n < 0 then -1 else 0, s'))"
proof -
  let ?d = "ty # b # p" and ?n = "length p + 4"
  let ?s0 = "s\<lparr>ws_escaped := map (heap_bytes s) [0..<?n * 2 + 2], escapeptr := 0, ws_crc := 0\<rparr>"
  obtain s1 where s1: "init_escaper ?n s = Some s1" "added [SYNC_BYTE] 0 ?s0 s1"
    using escape_add_ok [of ?s0 SYNC_BYTE] by (auto simp: init_escaper_def)
  have f1: "escapeptr s1 = 1" "length (ws_escaped s1) = 2 * length p + 10" "ws_crc s1 = 0"
    using added_fields [OF s1(2)] by simp_all
  obtain s4 where s4: "escape_bytes ?d s1 = Some s4" "added (concat (map esc ?d)) (crc_packet ?d) s1 s4"
    using escape_bytes_ok [of s1 ?d] f1 by (auto simp: crc_packet_def)
  have f4: "escapeptr s4 \<le> 2 * length p + 5" "length (ws_escaped s4) = 2 * length p + 10" "ws_crc s4 = crc_packet ?d"
    using added_fields [OF s4(2)] f1 length_concat_esc [of ?d] by (simp_all del: concat.simps list.map)
  let ?e = "[lo8 (crc_packet ?d), hi8 (crc_packet ?d)]"
  obtain s6 c where s6: "escape_bytes ?e s4 = Some s6" "added (concat (map esc ?e)) c s4 s6"
    using escape_bytes_ok [of s4 ?e] f4 by auto
  have f6: "escapeptr s6 < length (ws_escaped s6)"
    using added_fields [OF s6(2)] f4 length_concat_esc [of ?e] by (simp del: concat.simps list.map)
  obtain s7 where s7: "terminate_escaper s6 = Some s7" "added [SYNC_BYTE] (ws_crc s6) s6 s7"
    using escape_add_ok [OF f6] by (auto simp: terminate_escaper_def)
  have "added (frame ?d) (ws_crc s6) ?s0 s7"
    using added_trans [OF added_trans [OF added_trans [OF s1(2) s4(2)] s6(2)] s7(2)]
    by (simp add: frame_def frame_body_def sealed_def)
  then obtain m where m: "s7 = s\<lparr>ws_escaped := m, escapeptr := length (frame ?d), ws_crc := ws_crc s6\<rparr>"
    "take (escapeptr s7) (ws_escaped s7) = frame ?d"
    by (auto simp: added_def)
  obtain sa sb where sab: "escape_byte ty s1 = Some sa" "escape_byte b sa = Some sb" "escape_bytes p sb = Some s4"
    using s4(1) by (auto split: bind_splits)
  obtain sc where sc: "escape_byte (lo8 (crc_packet ?d)) s4 = Some sc" "escape_byte (hi8 (crc_packet ?d)) sc = Some s6"
    using s6(1) by (auto split: bind_splits)
  have "write_framed_packet ty b p s = (case source_write (take (escapeptr s7) (ws_escaped s7)) s7
      of (n, s') \<Rightarrow> Some (if n < 0 then -1 else 0, s'))"
    unfolding write_framed_packet_def Let_def
    by (simp add: s1(1) sab sc s7(1) f4(3) split: prod.split)
  then show ?thesis unfolding m(2) using m(1) by blast
qed

section \<open>Onto the line\<close>

definition line_ok :: "serial_source \<Rightarrow> bool" where
  "line_ok s \<longleftrightarrow> W_Error \<notin> set (line_writes s) \<and> False \<notin> set (line_fcntl s)"

text \<open>Writing changes the escaper and the line; where no write fails, \<open>bs\<close> is added to what went out.\<close>

definition unwritten :: "serial_source \<Rightarrow> serial_source" where
  "unwritten s = s\<lparr>ws_escaped := [], escapeptr := 0, ws_crc := 0, line_writes := [], line_fcntl := [], line_out := []\<rparr>"

definition wrote :: "bytes \<Rightarrow> serial_source \<Rightarrow> serial_source \<Rightarrow> bool" where
  "wrote bs s s' \<longleftrightarrow> unwritten s' = unwritten s \<and> (line_ok s \<longrightarrow> line_ok s' \<and> line_out s' = line_out s @ bs)"

lemma wrote_fields:
  assumes "wrote bs s s'"
  shows "rs_queue s' = rs_queue s \<and> non_blocking s' = non_blocking s \<and> ws_seqno s' = ws_seqno s \<and> heap_room s' = heap_room s
    \<and> line_waits s' = line_waits s \<and> rs_buffer s' = rs_buffer s \<and> bufpos s' = bufpos s \<and> bufused s' = bufused s
    \<and> line_in s' = line_in s \<and> in_sync s' = in_sync s \<and> rs_escaped s' = rs_escaped s \<and> rs_count s' = rs_count s
    \<and> rs_packet s' = rs_packet s"
  using assms by (cases s; cases s') (simp add: wrote_def unwritten_def)

lemma write_loop_ok:
  "W_Error \<notin> set ws \<Longrightarrow> \<exists>ws'. write_loop buf ws out = (True, ws', out @ buf) \<and> set ws' \<subseteq> set ws"
proof (induction buf ws out rule: write_loop.induct)
  case (3 b bs n ws out)
  then obtain ws' where "write_loop (drop n (b # bs)) ws (out @ take n (b # bs))
      = (True, ws', (out @ take n (b # bs)) @ drop n (b # bs))" "set ws' \<subseteq> set ws"
    by auto
  then show ?case by (auto simp del: drop_Cons' take_Cons')
qed auto

lemma fcntl_source_ok:
  assumes "fcntl_source s = (ok, s')"
  shows "unwritten s' = unwritten s" "line_ok s \<longrightarrow> ok \<and> line_ok s'" "line_out s' = line_out s" "line_writes s' = line_writes s"
proof -
  have "\<exists>oks. s' = s\<lparr>line_fcntl := oks\<rparr> \<and> (line_ok s \<longrightarrow> ok \<and> line_ok s')"
  proof (cases "line_fcntl s")
    case Nil
    then have "s' = s\<lparr>line_fcntl := line_fcntl s\<rparr>" "ok" using assms by (simp_all add: fcntl_source_def)
    then show ?thesis by (intro exI [of _ "line_fcntl s"]) simp
  next
    case (Cons o1 oks)
    then have "s' = s\<lparr>line_fcntl := oks\<rparr>" "ok = o1" using assms by (simp_all add: fcntl_source_def)
    then show ?thesis using Cons by (intro exI [of _ oks]) (simp add: line_ok_def)
  qed
  then show "unwritten s' = unwritten s" "line_ok s \<longrightarrow> ok \<and> line_ok s'" "line_out s' = line_out s" "line_writes s' = line_writes s"
    by (auto simp: unwritten_def)
qed

lemma source_write_ok:
  assumes "source_write buf s = (n, s')"
  shows "wrote buf s s'" "line_ok s \<longrightarrow> n = int (length buf)"
proof -
  obtain ok s1 where f: "fcntl_source s = (ok, s1)" by (cases "fcntl_source s")
  note s1 = fcntl_source_ok [OF f]
  have "wrote buf s s' \<and> (line_ok s \<longrightarrow> n = int (length buf))"
  proof (cases ok)
    case False
    then have "s' = s1" using assms f by (simp add: source_write_def)
    then show ?thesis using False s1 by (simp add: wrote_def)
  next
    case True
    obtain all ws out where w: "write_loop buf (line_writes s1) (line_out s1) = (all, ws, out)"
      by (cases "write_loop buf (line_writes s1) (line_out s1)")
    define s2 where "s2 = s1\<lparr>line_writes := ws, line_out := out\<rparr>"
    have r: "s' = snd (fcntl_source s2)" "n = (if all then int (length buf) else -1)"
      using assms True by (simp_all add: source_write_def f w s2_def)
    obtain ok2 where f2: "fcntl_source s2 = (ok2, s')" using r(1) by (cases "fcntl_source s2") simp
    note s3 = fcntl_source_ok [OF f2]
    have u: "unwritten s' = unwritten s" using s1(1) s3(1) by (simp add: s2_def unwritten_def)
    show ?thesis
    proof (cases "line_ok s")
      case True
      then obtain ws' where "write_loop buf (line_writes s1) (line_out s1) = (True, ws', line_out s1 @ buf)"
        "set ws' \<subseteq> set (line_writes s1)"
        using write_loop_ok [of "line_writes s1" buf "line_out s1"] s1(2) by (auto simp: line_ok_def)
      then have "all" "out = line_out s @ buf" "line_ok s2"
        using w s1(2,3) True by (auto simp: line_ok_def s2_def)
      then show ?thesis using u r(2) s3 by (simp add: wrote_def s2_def)
    qed (use u in \<open>simp add: wrote_def\<close>)
  qed
  then show "wrote buf s s'" "line_ok s \<longrightarrow> n = int (length buf)" by simp_all
qed

lemma write_framed_packet_ok:
  "\<exists>r s'. write_framed_packet ty b p s = Some (r, s') \<and> wrote (frame (ty # b # p)) s s' \<and> r \<in> {-1, 0} \<and> (line_ok s \<longrightarrow> r = 0)"
proof -
  let ?f = "frame (ty # b # p)"
  obtain m c where e: "write_framed_packet ty b p s =
    (case source_write ?f (s\<lparr>ws_escaped := m, escapeptr := length ?f, ws_crc := c\<rparr>)
     of (n, s') \<Rightarrow> Some (if n < 0 then -1 else 0, s'))"
    using write_framed_packet_eq by blast
  define t where "t = s\<lparr>ws_escaped := m, escapeptr := length ?f, ws_crc := c\<rparr>"
  obtain n s' where w: "source_write ?f t = (n, s')" by (cases "source_write ?f t")
  have t: "line_ok t = line_ok s" "line_out t = line_out s" "unwritten t = unwritten s"
    by (simp_all add: line_ok_def t_def unwritten_def)
  have "wrote ?f s s'" using source_write_ok(1) [OF w] t by (simp add: wrote_def)
  moreover have "line_ok s \<longrightarrow> \<not> n < 0" using source_write_ok(2) [OF w] t(1) by simp
  moreover have "write_framed_packet ty b p s = Some (if n < 0 then -1 else 0, s')"
    unfolding e t_def [symmetric] w by simp
  ultimately show ?thesis by (intro exI [of _ "if n < 0 then -1 else 0"] exI [of _ s']) simp
qed

section \<open>The receiver implements the automaton\<close>

definition rx_of :: "serial_source \<Rightarrow> deframer" where
  "rx_of s = (if in_sync s then In_Frame (rs_escaped s) (take (rs_count s) (rs_packet s)) else Hunting)"

definition source_ok :: "serial_source \<Rightarrow> bool" where
  "source_ok s \<longleftrightarrow> length (rs_packet s) = MTU \<and> (in_sync s \<longrightarrow> rs_count s \<le> MTU) \<and> length (rs_buffer s) = BUFSIZE
    \<and> bufused s \<le> BUFSIZE \<and> sizeof_packet_list \<le> heap_room s"

text \<open>What a good frame puts into the queues, and its acknowledgement.\<close>

definition entry_from :: "nat \<Rightarrow> bytes \<Rightarrow> packet_list" where
  "entry_from k d = \<lparr>pl_packet = drop k d @ drop (length d - k) d, pl_len = of_nat (length d - k)\<rparr>"

definition enqueue :: "bytes \<Rightarrow> (u8 \<Rightarrow> packet_list list) \<Rightarrow> u8 \<Rightarrow> packet_list list" where
  "enqueue d q = (if get8 d 0 = P_PACKET_ACK then q(P_PACKET_NO_ACK := q P_PACKET_NO_ACK @ [entry_from 2 d])
     else q(get8 d 0 := q (get8 d 0) @ [entry_from 1 d]))"

definition acks :: "bytes \<Rightarrow> bytes" where
  "acks d = (if get8 d 0 = P_PACKET_ACK then frame [P_ACK, get8 d 1] else [])"

definition same_in :: "serial_source \<Rightarrow> serial_source \<Rightarrow> bool" where
  "same_in s s' \<longleftrightarrow> rs_buffer s' = rs_buffer s \<and> bufpos s' = bufpos s \<and> bufused s' = bufused s \<and> line_in s' = line_in s"

definition took :: "bytes list \<Rightarrow> serial_source \<Rightarrow> serial_source \<Rightarrow> bool" where
  "took ps s s' \<longleftrightarrow> rs_queue s' = fold enqueue ps (rs_queue s) \<and> non_blocking s' = non_blocking s \<and> ws_seqno s' = ws_seqno s
    \<and> heap_room s' = heap_room s \<and> line_waits s' = line_waits s
    \<and> (line_ok s \<longrightarrow> line_ok s' \<and> line_out s' = line_out s @ concat (map acks ps))"

lemma took_refl [simp]: "took [] s s"
  by (simp add: took_def)

lemma took_trans: "took ps s s1 \<Longrightarrow> took qs s1 s2 \<Longrightarrow> took (ps @ qs) s s2"
  by (simp add: took_def)

lemma process_packet_ok:
  assumes "sizeof_packet_list \<le> heap_room s"
  shows "\<exists>s'. process_packet d s = Some s' \<and> took [d] s s' \<and> same_in s s' \<and> in_sync s' = in_sync s
    \<and> rs_escaped s' = rs_escaped s \<and> rs_count s' = rs_count s \<and> rs_packet s' = rs_packet s"
proof (cases "get8 d 0 = P_PACKET_ACK")
  case True
  obtain r s1 where w: "write_framed_packet P_ACK (get8 d 1) [] s = Some (r, s1)" "wrote (frame [P_ACK, get8 d 1]) s s1"
    using write_framed_packet_ok by blast
  have "line_ok s \<longrightarrow> line_ok s1 \<and> line_out s1 = line_out s @ acks d" using w(2) True by (simp add: wrote_def acks_def)
  then show ?thesis using assms True w(1) wrote_fields [OF w(2)]
    by (simp add: process_packet_def Let_def push_protocol_packet_def took_def same_in_def enqueue_def entry_from_def line_ok_def)
next
  case False
  then show ?thesis using assms
    by (simp add: process_packet_def Let_def push_protocol_packet_def took_def same_in_def enqueue_def entry_from_def acks_def
        line_ok_def)
qed

lemma good_frame_count:
  assumes "n \<le> length p" "4 \<le> n"
  shows "good_frame (take n p) \<longleftrightarrow> mk16 (p ! (n - 1)) (p ! (n - 2)) = crc_packet (take (n - 2) p)"
proof -
  have "take n p = take (n - 2) p @ [p ! (n - 2), p ! (n - 1)]"
    using assms take_Suc_conv_app_nth [of "n - 2" p] take_Suc_conv_app_nth [of "n - 1" p]
    by (simp add: numeral_2_eq_2 Suc_diff_Suc)
  moreover have "2 \<le> n - 2" using assms by simp
  ultimately show ?thesis using good_frame_sealed [of "take (n - 2) p"] assms by simp
qed

lemma end_of_frame_ok:
  assumes "source_ok s" "in_sync s" "\<not> rs_escaped s"
  shows "\<exists>s'. end_of_frame s = Some (good_frame (take (rs_count s) (rs_packet s)), s')
    \<and> took (if good_frame (take (rs_count s) (rs_packet s)) then [take (rs_count s - 2) (rs_packet s)] else []) s s'
    \<and> same_in s s' \<and> source_ok s' \<and> rx_of s' = In_Frame False []"
proof -
  let ?s1 = "s\<lparr>rs_count := 0\<rparr>" and ?d = "take (rs_count s - 2) (rs_packet s)"
  have ok: "rs_count s \<le> length (rs_packet s)" using assms by (simp add: source_ok_def)
  have s1: "source_ok ?s1" "same_in s ?s1" "took [] s ?s1" "rx_of ?s1 = In_Frame False []"
    using assms by (simp_all add: source_ok_def same_in_def took_def rx_of_def line_ok_def)
  show ?thesis
  proof (cases "good_frame (take (rs_count s) (rs_packet s))")
    case True
    then have n: "4 \<le> rs_count s" using ok by (simp add: good_frame_def)
    obtain s2 where s2: "process_packet ?d ?s1 = Some s2" "took [?d] ?s1 s2" "same_in ?s1 s2" "in_sync s2 = in_sync ?s1"
      "rs_escaped s2 = rs_escaped ?s1" "rs_count s2 = rs_count ?s1" "rs_packet s2 = rs_packet ?s1"
      using process_packet_ok [of ?s1 ?d] s1(1) by (auto simp: source_ok_def)
    have "took [?d] s s2" using took_trans [OF s1(3) s2(2)] by simp
    moreover have "source_ok s2" "rx_of s2 = In_Frame False []" "same_in s s2"
      using s1(1,2) s2(2-7) assms by (simp_all add: source_ok_def rx_of_def same_in_def took_def)
    ultimately show ?thesis
      using True n good_frame_count [OF ok n] s2(1) by (simp add: end_of_frame_def Let_def)
  next
    case False
    then have "end_of_frame s = Some (False, ?s1)"
      using good_frame_count [OF ok] by (simp add: end_of_frame_def Let_def not_less)
    then show ?thesis using False s1 by simp
  qed
qed

lemma take_store: "n < length p \<Longrightarrow> take (Suc n) (p[n := c]) = take n p @ [c]"
  by (simp add: take_Suc_conv_app_nth)

text \<open>A step that leaves the queues and the line alone.\<close>

lemma quiet_step:
  assumes "rs_queue s' = rs_queue s" "non_blocking s' = non_blocking s" "ws_seqno s' = ws_seqno s" "heap_room s' = heap_room s"
    "line_waits s' = line_waits s" "line_writes s' = line_writes s" "line_fcntl s' = line_fcntl s" "line_out s' = line_out s"
  shows "took [] s s'"
  using assms by (simp add: took_def line_ok_def)

lemma receive_byte_ok:
  assumes ok: "source_ok s" and d: "deframe_step (rx_of s) b = (x, ps)"
  shows "\<exists>s'. receive_byte b s = Some (ps \<noteq> [], s') \<and> rx_of s' = x \<and> took ps s s' \<and> same_in s s' \<and> source_ok s'"
proof -
  have len: "length (rs_packet s) = MTU" using ok by (simp add: source_ok_def)
  consider "\<not> in_sync s" | "in_sync s" "MTU \<le> rs_count s" | "in_sync s" "rs_count s < MTU" "rs_escaped s"
    | "in_sync s" "rs_count s < MTU" "\<not> rs_escaped s"
    by linarith
  then show ?thesis
  proof cases
    case 1
    then show ?thesis using ok d
      by (auto simp: receive_byte_def Let_def rx_of_def source_ok_def same_in_def intro!: quiet_step split: if_split_asm)
  next
    case 2
    then have "x = Hunting" "ps = []" using d len by (simp_all add: rx_of_def)
    then show ?thesis using 2 ok
      by (auto simp: receive_byte_def Let_def rx_of_def source_ok_def same_in_def intro!: quiet_step)
  next
    case 3
    then show ?thesis using ok d len
      by (auto simp: receive_byte_def Let_def rx_of_def source_ok_def same_in_def take_store min_def
          intro!: quiet_step split: if_split_asm)
  next
    case 4
    show ?thesis
    proof (cases "b = SYNC_BYTE")
      case True
      have l: "length (take (rs_count s) (rs_packet s)) < MTU" "take (rs_count s - 2) (rs_packet s)
          = take (length (take (rs_count s) (rs_packet s)) - 2) (take (rs_count s) (rs_packet s))"
        using 4(2) len by (auto simp: min_def)
      have "receive_byte b s = end_of_frame s" using 4 True sync_escape by (simp add: receive_byte_def Let_def)
      moreover have "x = In_Frame False []" "ps = (if good_frame (take (rs_count s) (rs_packet s))
          then [take (rs_count s - 2) (rs_packet s)] else [])"
        using d 4 True l sync_escape by (simp_all add: rx_of_def split: if_split_asm)
      ultimately show ?thesis using end_of_frame_ok [OF ok 4(1,3)] by auto
    next
      case False
      then show ?thesis using 4 ok d len
        by (auto simp: receive_byte_def Let_def rx_of_def source_ok_def same_in_def take_store min_def
            intro!: quiet_step split: if_split_asm)
    qed
  qed
qed

end
