(* ===== verification/Serial_Delivery.thy ===== *)
theory Serial_Delivery
  imports Serial_Frames
begin

text \<open>
  Packets in and out of a serial source (src/tools/sf/serialsource.c) in the non-blocking mode that the serial forwarder uses:
  however the bytes are cut up by the calls of \<open>read\<close>, every packet of a good frame is handed to the client once and in
  order, also those that come in while a write waits for its acknowledgement; and what the result of a write says.
\<close>

section \<open>Bytes still to be read\<close>

definition read_data :: "read_result \<Rightarrow> bytes" where
  "read_data r = (case r of R_Data bs \<Rightarrow> take BUFSIZE bs | _ \<Rightarrow> [])"

definition pending :: "serial_source \<Rightarrow> bytes" where
  "pending s = drop (bufpos s) (take (bufused s) (rs_buffer s)) @ concat (map read_data (line_in s))"

lemma buggyread_ok:
  "\<exists>r rs'. buggyread True rs = Some (r, rs') \<and> concat (map read_data rs) = read_data r @ concat (map read_data rs')
    \<and> (rs' = [] \<or> length rs' < length rs) \<and> length rs' \<le> length rs
    \<and> (\<forall>bs. r = R_Data bs \<longrightarrow> bs \<noteq> [] \<and> length bs \<le> BUFSIZE \<and> read_data r = bs)"
proof (cases rs)
  case (Cons r rs')
  then show ?thesis by (cases r) (auto simp: read_data_def)
qed (simp add: read_data_def)

lemma refill_ok:
  "\<exists>r rs'. refill True rs = Some (r, rs') \<and> length rs' \<le> length rs
    \<and> (case r of None \<Rightarrow> concat (map read_data rs) = concat (map read_data rs') \<and> (rs' = [] \<or> length rs' < length rs)
       | Some bs \<Rightarrow> concat (map read_data rs) = bs @ concat (map read_data rs') \<and> bs \<noteq> [] \<and> length bs \<le> BUFSIZE)"
proof (induction "length rs" arbitrary: rs rule: less_induct)
  case less
  obtain r rs1 where b: "buggyread True rs = Some (r, rs1)" "concat (map read_data rs) = read_data r @ concat (map read_data rs1)"
    "rs1 = [] \<or> length rs1 < length rs" "length rs1 \<le> length rs" "\<forall>bs. r = R_Data bs \<longrightarrow> bs \<noteq> [] \<and> length bs \<le> BUFSIZE \<and> read_data r = bs"
    using buggyread_ok by blast
  have e: "refill True rs = (case Some (r, rs1) of None \<Rightarrow> None | Some (R_Data bs, rs') \<Rightarrow> Some (Some bs, rs')
     | Some (R_Again, rs') \<Rightarrow> Some (None, rs') | Some (R_Intr, rs') \<Rightarrow> refill True rs' | Some (R_Error, rs') \<Rightarrow> refill True rs')"
    using refill.simps [of True rs] unfolding b(1) .
  have on: ?case if "refill True rs = refill True rs1" "r \<noteq> R_Again" "\<forall>bs. r \<noteq> R_Data bs"
  proof -
    have s: "length rs1 < length rs" using buggyread_shorter [OF b(1) that(2)] .
    have e0: "read_data r = []" using that(2,3) by (cases r) (simp_all add: read_data_def)
    obtain q rs' where q: "refill True rs1 = Some (q, rs')" "length rs' \<le> length rs1"
      "case q of None \<Rightarrow> concat (map read_data rs1) = concat (map read_data rs') \<and> (rs' = [] \<or> length rs' < length rs1)
         | Some bs \<Rightarrow> concat (map read_data rs1) = bs @ concat (map read_data rs') \<and> bs \<noteq> [] \<and> length bs \<le> BUFSIZE"
      using less [OF s] by blast
    then show ?thesis using that(1) b(2) s e0
      by (intro exI [of _ q] exI [of _ rs']) (cases q; simp)
  qed
  show ?case
  proof (cases r)
    case (R_Data bs)
    then show ?thesis using e b by auto
  next
    case R_Again
    then show ?thesis using e b by (auto simp: read_data_def)
  qed (use e on in auto)
qed

lemma read_byte_ok:
  assumes ok: "source_ok s" "non_blocking s"
  shows "\<exists>r s'. read_byte s = Some (r, s') \<and> source_ok s' \<and> took [] s s' \<and> rx_of s' = rx_of s
    \<and> length (line_in s') \<le> length (line_in s)
    \<and> (case r of None \<Rightarrow> pending s' = pending s \<and> bufused s' \<le> bufpos s' \<and> (line_in s' = [] \<or> length (line_in s') < length (line_in s))
       | Some b \<Rightarrow> pending s = b # pending s')"
proof (cases "bufused s \<le> bufpos s")
  case False
  then have l: "bufpos s < length (take (bufused s) (rs_buffer s))" using ok(1) by (simp add: source_ok_def)
  have "pending s = rs_buffer s ! bufpos s # pending (s\<lparr>bufpos := bufpos s + 1\<rparr>)"
    using Cons_nth_drop_Suc [OF l] False by (simp add: pending_def)
  then show ?thesis using False ok by (simp add: read_byte_def source_ok_def took_def rx_of_def line_ok_def)
next
  case True
  obtain r rs where r: "refill True (line_in s) = Some (r, rs)" "length rs \<le> length (line_in s)"
    "case r of None \<Rightarrow> concat (map read_data (line_in s)) = concat (map read_data rs) \<and> (rs = [] \<or> length rs < length (line_in s))
       | Some bs \<Rightarrow> concat (map read_data (line_in s)) = bs @ concat (map read_data rs) \<and> bs \<noteq> [] \<and> length bs \<le> BUFSIZE"
    using refill_ok by blast
  show ?thesis
  proof (cases r)
    case None
    then show ?thesis using True r ok
      by (simp add: read_byte_def pending_def source_ok_def took_def rx_of_def line_ok_def)
  next
    case (Some bs)
    let ?s1 = "s\<lparr>line_in := rs, rs_buffer := bs @ drop (length bs) (rs_buffer s), bufpos := 0, bufused := length bs\<rparr>"
    have bs: "bs \<noteq> []" "length bs \<le> BUFSIZE" "concat (map read_data (line_in s)) = bs @ concat (map read_data rs)"
      using r(3) Some by simp_all
    then obtain b bs' where b: "bs = b # bs'" by (cases bs) auto
    have "read_byte s = Some (Some b, ?s1\<lparr>bufpos := 1\<rparr>)"
      using True r(1) ok(2) Some b by (simp add: read_byte_def)
    moreover have "pending s = b # pending (?s1\<lparr>bufpos := 1\<rparr>)" using True bs(3) b by (simp add: pending_def)
    moreover have "source_ok (?s1\<lparr>bufpos := 1\<rparr>)" using ok(1) bs(2) by (simp add: source_ok_def)
    ultimately show ?thesis using r(2) by (simp add: took_def rx_of_def line_ok_def)
  qed
qed

section \<open>Reading frames\<close>

lemma same_in_pending: "same_in s s' \<Longrightarrow> pending s' = pending s \<and> line_in s' = line_in s"
  by (simp add: same_in_def pending_def)

lemma deframe_step_one: "deframe_step x b = (x', ps) \<Longrightarrow> length ps \<le> 1 \<and> (\<forall>d \<in> set ps. 2 \<le> length d \<and> length d \<le> 253)"
  by (cases x) (auto simp: good_frame_def MTU_def split: if_split_asm)

text \<open>A call takes a piece of what is pending, with at most one packet in it; without one it has read all there is now.\<close>

lemma read_and_process_ok:
  assumes "source_ok s" "non_blocking s"
  shows "\<exists>s' bs ps. read_and_process s = Some s' \<and> pending s = bs @ pending s' \<and> deframe (rx_of s) bs = (rx_of s', ps)
    \<and> took ps s s' \<and> source_ok s' \<and> length (line_in s') \<le> length (line_in s) \<and> length ps \<le> 1 \<and> (ps \<noteq> [] \<longrightarrow> bs \<noteq> [])
    \<and> (ps = [] \<longrightarrow> bufused s' \<le> bufpos s' \<and> (line_in s' = [] \<or> length (line_in s') < length (line_in s)))"
  using assms
proof (induction "length (pending s)" arbitrary: s rule: less_induct)
  case less
  obtain r s1 where r: "read_byte s = Some (r, s1)" "source_ok s1" "took [] s s1" "rx_of s1 = rx_of s"
    "length (line_in s1) \<le> length (line_in s)"
    "case r of None \<Rightarrow> pending s1 = pending s \<and> bufused s1 \<le> bufpos s1 \<and> (line_in s1 = [] \<or> length (line_in s1) < length (line_in s))
       | Some b \<Rightarrow> pending s = b # pending s1"
    using read_byte_ok [OF less.prems] by blast
  show ?case
  proof (cases r)
    case None
    then show ?thesis using r by (intro exI [of _ s1] exI [of _ "[]"]) (simp add: read_and_process.simps [of s])
  next
    case (Some b)
    obtain x ps where d: "deframe_step (rx_of s1) b = (x, ps)" by (cases "deframe_step (rx_of s1) b")
    obtain s2 where s2: "receive_byte b s1 = Some (ps \<noteq> [], s2)" "rx_of s2 = x" "took ps s1 s2" "same_in s1 s2" "source_ok s2"
      using receive_byte_ok [OF r(2) d] by blast
    have p: "pending s = [b] @ pending s2" "line_in s2 = line_in s1" using r(6) Some same_in_pending [OF s2(4)] by simp_all
    have t: "took ps s s2" using took_trans [OF r(3) s2(3)] by simp
    show ?thesis
    proof (cases "ps = []")
      case False
      then have "read_and_process s = Some s2" using r(1) s2(1) Some by (simp add: read_and_process.simps [of s])
      moreover have "deframe (rx_of s) [b] = (rx_of s2, ps)" using d r(4) s2(2) by simp
      ultimately show ?thesis using p t s2 r(5) False deframe_step_one [OF d]
        by (intro exI [of _ s2] exI [of _ "[b]"] exI [of _ ps]) simp
    next
      case True
      have "non_blocking s2" using t less.prems(2) by (simp add: took_def)
      moreover have "length (pending s2) < length (pending s)" using p(1) by simp
      ultimately obtain s' bs qs where i: "read_and_process s2 = Some s'" "pending s2 = bs @ pending s'"
        "deframe (rx_of s2) bs = (rx_of s', qs)" "took qs s2 s'" "source_ok s'" "length (line_in s') \<le> length (line_in s2)"
        "length qs \<le> 1" "qs = [] \<longrightarrow> bufused s' \<le> bufpos s' \<and> (line_in s' = [] \<or> length (line_in s') < length (line_in s2))"
        using less.hyps [OF _ s2(5)] by blast
      have "read_and_process s = Some s'" using r(1) s2(1) Some True i(1) by (simp add: read_and_process.simps [of s])
      moreover have "deframe (rx_of s) (b # bs) = (rx_of s', qs)" using d r(4) s2(2) True i(3) by simp
      moreover have "took qs s s'" using took_trans [OF t i(4)] True by simp
      ultimately show ?thesis using p i r(5) by (intro exI [of _ s'] exI [of _ "b # bs"] exI [of _ qs]) auto
    qed
  qed
qed

section \<open>What a client gets\<close>

definition client_packets :: "(u8 \<Rightarrow> packet_list list) \<Rightarrow> bytes list" where
  "client_packets q = map (\<lambda>e. take (unat (pl_len e)) (pl_packet e)) (q P_PACKET_NO_ACK)"

definition ack_numbers :: "(u8 \<Rightarrow> packet_list list) \<Rightarrow> bytes" where
  "ack_numbers q = map (\<lambda>e. get8 (pl_packet e) 0) (q P_ACK)"

definition deliver :: "bytes \<Rightarrow> bytes list" where
  "deliver d = (if get8 d 0 = P_PACKET_ACK then [drop 2 d] else if get8 d 0 = P_PACKET_NO_ACK then [drop 1 d] else [])"

definition acknowledged :: "bytes \<Rightarrow> bytes" where
  "acknowledged d = (if get8 d 0 = P_ACK then [get8 d 1] else [])"

definition frames_in :: "serial_source \<Rightarrow> bytes list" where
  "frames_in s = snd (deframe (rx_of s) (pending s))"

text \<open>The packets still to be handed out, the acknowledgements still to be seen, and what will have been written.\<close>

definition incoming :: "serial_source \<Rightarrow> bytes list" where
  "incoming s = client_packets (rs_queue s) @ concat (map deliver (frames_in s))"

definition acks_in :: "serial_source \<Rightarrow> bytes" where
  "acks_in s = ack_numbers (rs_queue s) @ concat (map acknowledged (frames_in s))"

definition outgoing :: "serial_source \<Rightarrow> bytes" where
  "outgoing s = line_out s @ concat (map acks (frames_in s))"

lemma packet_types: "P_PACKET_ACK \<noteq> P_PACKET_NO_ACK" "P_PACKET_ACK \<noteq> P_ACK" "P_PACKET_NO_ACK \<noteq> P_ACK"
  by (simp_all add: consts_defs)

lemma client_enqueue:
  assumes "2 \<le> length d" "length d \<le> 253"
  shows "client_packets (enqueue d q) = client_packets q @ deliver d" "ack_numbers (enqueue d q) = ack_numbers q @ acknowledged d"
proof -
  have l: "unat (of_nat (length d - k) :: u8) = length d - k" for k using assms by (simp only: unat_of_nat_u8) simp
  have "take (length d - k) (drop k d @ drop (length d - k) d) = drop k d" for k by simp
  then have e: "take (unat (pl_len (entry_from k d))) (pl_packet (entry_from k d)) = drop k d" for k
    unfolding entry_from_def by (simp only: packet_list.simps l)
  have a: "get8 (pl_packet (entry_from 1 d)) 0 = get8 d 1"
    using assms by (simp add: entry_from_def get8_def nth_append)
  show "client_packets (enqueue d q) = client_packets q @ deliver d" "ack_numbers (enqueue d q) = ack_numbers q @ acknowledged d"
    using packet_types e a
    by (simp_all add: enqueue_def client_packets_def deliver_def ack_numbers_def acknowledged_def del: One_nat_def)
qed

lemma deframe_lengths: "deframe x bs = (x', ps) \<Longrightarrow> \<forall>d \<in> set ps. 2 \<le> length d \<and> length d \<le> 253"
proof (induction bs arbitrary: x x' ps)
  case (Cons b bs)
  obtain x1 qs where d: "deframe_step x b = (x1, qs)" by (cases "deframe_step x b")
  obtain rs where "deframe x1 bs = (x', rs)" "ps = qs @ rs" using Cons.prems d by (auto split: prod.split_asm)
  then show ?case using Cons.IH deframe_step_one [OF d] by auto
qed simp

lemma client_fold:
  "\<forall>d \<in> set ps. 2 \<le> length d \<and> length d \<le> 253 \<Longrightarrow>
    client_packets (fold enqueue ps q) = client_packets q @ concat (map deliver ps)
    \<and> ack_numbers (fold enqueue ps q) = ack_numbers q @ concat (map acknowledged ps)"
  by (induction ps arbitrary: q) (simp_all add: client_enqueue)

text \<open>Taking a piece of what is pending moves packets into the queues, and changes none of the three.\<close>

lemma taken_same:
  assumes "pending s = bs @ pending s'" "deframe (rx_of s) bs = (rx_of s', ps)" "took ps s s'"
  shows "incoming s' = incoming s" "acks_in s' = acks_in s"
    "line_ok s \<longrightarrow> line_ok s' \<and> outgoing s' = outgoing s" "frames_in s = ps @ frames_in s'"
proof -
  show f: "frames_in s = ps @ frames_in s'"
    unfolding frames_in_def assms(1) by (simp add: deframe_append assms(2) split: prod.split)
  have q: "rs_queue s' = fold enqueue ps (rs_queue s)" using assms(3) by (simp add: took_def)
  note c = client_fold [OF deframe_lengths [OF assms(2)], of "rs_queue s"]
  show "incoming s' = incoming s" "acks_in s' = acks_in s" using c by (simp_all add: incoming_def acks_in_def f q)
  show "line_ok s \<longrightarrow> line_ok s' \<and> outgoing s' = outgoing s" using assms(3) by (simp add: outgoing_def f took_def)
qed

definition work :: "serial_source \<Rightarrow> nat" where
  "work s = length (line_in s) + length (pending s)"

text \<open>Popping, and the read of a packet.\<close>

lemma pop_client:
  assumes "pop_protocol_packet P_PACKET_NO_ACK s = (r, s')"
  shows "frames_in s' = frames_in s" "source_ok s' = source_ok s" "non_blocking s' = non_blocking s" "pending s' = pending s"
    "line_in s' = line_in s" "acks_in s' = acks_in s" "line_ok s' = line_ok s" "outgoing s' = outgoing s"
    "bufpos s' = bufpos s" "bufused s' = bufused s" "rx_of s' = rx_of s" "ws_seqno s' = ws_seqno s" "line_waits s' = line_waits s"
    "incoming s = (case r of None \<Rightarrow> [] | Some e \<Rightarrow> [take (unat (pl_len e)) (pl_packet e)]) @ incoming s'"
    "r = None \<longleftrightarrow> \<not> packet_available P_PACKET_NO_ACK s" "r = None \<Longrightarrow> s' = s"
proof -
  show f: "frames_in s' = frames_in s" "source_ok s' = source_ok s" "non_blocking s' = non_blocking s" "pending s' = pending s"
    "line_in s' = line_in s" "line_ok s' = line_ok s"
    "bufpos s' = bufpos s" "bufused s' = bufused s" "rx_of s' = rx_of s" "ws_seqno s' = ws_seqno s" "line_waits s' = line_waits s"
    using assms by (auto simp: pop_protocol_packet_def frames_in_def rx_of_def pending_def source_ok_def line_ok_def
        split: list.split_asm)
  show "incoming s = (case r of None \<Rightarrow> [] | Some e \<Rightarrow> [take (unat (pl_len e)) (pl_packet e)]) @ incoming s'"
    "r = None \<longleftrightarrow> \<not> packet_available P_PACKET_NO_ACK s" "acks_in s' = acks_in s" "outgoing s' = outgoing s" "r = None \<Longrightarrow> s' = s"
    using assms f(1) packet_types by (auto simp: pop_protocol_packet_def incoming_def client_packets_def packet_available_def
        acks_in_def ack_numbers_def outgoing_def split: list.split_asm)
qed

lemma no_packet: "\<not> packet_available P_PACKET_NO_ACK s \<Longrightarrow> client_packets (rs_queue s) = []"
  by (simp add: packet_available_def client_packets_def)

lemma read_serial_packet_ok:
  assumes "source_ok s" "non_blocking s"
  shows "\<exists>r s'. read_serial_packet s = Some (r, s') \<and> source_ok s' \<and> non_blocking s'
    \<and> incoming s = (case r of None \<Rightarrow> [] | Some p \<Rightarrow> [p]) @ incoming s' \<and> acks_in s' = acks_in s
    \<and> (line_ok s \<longrightarrow> line_ok s' \<and> outgoing s' = outgoing s) \<and> work s' \<le> work s
    \<and> (r = None \<longrightarrow> client_packets (rs_queue s') = [] \<and> (work s' < work s \<or> pending s' = []))
    \<and> (\<exists>qs. frames_in s = qs @ frames_in s')"
  using assms
proof (induction "length (pending s)" arbitrary: s rule: less_induct)
  case less
  obtain s1 bs ps where s1: "read_and_process s = Some s1" "pending s = bs @ pending s1" "deframe (rx_of s) bs = (rx_of s1, ps)"
    "took ps s s1" "source_ok s1" "length (line_in s1) \<le> length (line_in s)" "ps \<noteq> [] \<longrightarrow> bs \<noteq> []"
    "ps = [] \<longrightarrow> bufused s1 \<le> bufpos s1 \<and> (line_in s1 = [] \<or> length (line_in s1) < length (line_in s))"
    using read_and_process_ok [OF less.prems] by blast
  note same = taken_same [OF s1(2-4)]
  have nb: "non_blocking s1" using s1(4) less.prems(2) by (simp add: took_def)
  have w: "work s1 \<le> work s" using s1(2,6) by (simp add: work_def)
  obtain r s2 where p: "pop_protocol_packet P_PACKET_NO_ACK s1 = (r, s2)" by (cases "pop_protocol_packet P_PACKET_NO_ACK s1")
  note pop = pop_client [OF p]
  show ?case
  proof (cases r)
    case (Some e)
    then have "read_serial_packet s = Some (Some (take (unat (pl_len e)) (pl_packet e)), s2)"
      using s1(1) p by (simp add: read_serial_packet.simps [of s])
    then show ?thesis using Some pop same s1(5) nb w by (simp add: work_def)
  next
    case None
    then have s2: "s2 = s1" "\<not> packet_available P_PACKET_NO_ACK s1" using pop by auto
    have e: "serial_source_empty s1 \<longleftrightarrow> bufused s1 \<le> bufpos s1" using s2(2) by (simp add: serial_source_empty_def)
    show ?thesis
    proof (cases "bufused s1 \<le> bufpos s1")
      case True
      then have "read_serial_packet s = Some (None, s1)"
        using s1(1) p None s2 e nb by (simp add: read_serial_packet.simps [of s])
      moreover have "work s1 < work s \<or> pending s1 = []"
      proof (cases "ps = []")
        case True
        then show ?thesis using s1(2,8) \<open>bufused s1 \<le> bufpos s1\<close> by (auto simp: work_def pending_def)
      next
        case False
        then show ?thesis using s1(2,6,7) by (cases bs) (simp_all add: work_def)
      qed
      ultimately show ?thesis using same s1(5) nb w no_packet [OF s2(2)] by simp
    next
      case False
      then have ps: "bs \<noteq> []" using s1(7,8) by blast
      have "read_serial_packet s = read_serial_packet s1"
        using s1(1) p None s2 e nb False by (simp add: read_serial_packet.simps [of s] source_wait_def)
      moreover have "length (pending s1) < length (pending s)" using ps s1(2) by (cases bs) simp_all
      ultimately show ?thesis using less.hyps [OF _ s1(5) nb] same w by (fastforce intro: order_trans less_le_trans)
    qed
  qed
qed

text \<open>A client that asks \<open>n\<close> times.\<close>

primrec read_many :: "nat \<Rightarrow> serial_source \<Rightarrow> (bytes list \<times> serial_source) option" where
  "read_many 0 s = Some ([], s)"
| "read_many (Suc n) s = do {
     (r, s1) \<leftarrow> read_serial_packet s;
     (ps, s2) \<leftarrow> read_many n s1;
     Some ((case r of None \<Rightarrow> [] | Some p \<Rightarrow> [p]) @ ps, s2)
   }"

lemma nothing_pending: "pending s = [] \<Longrightarrow> client_packets (rs_queue s) = [] \<Longrightarrow> incoming s = []"
  by (simp add: incoming_def frames_in_def)

lemma read_many_ok:
  assumes "source_ok s" "non_blocking s"
  shows "\<exists>ps s'. read_many n s = Some (ps, s') \<and> source_ok s' \<and> non_blocking s' \<and> incoming s = ps @ incoming s'
    \<and> (line_ok s \<longrightarrow> line_ok s' \<and> outgoing s' = outgoing s)
    \<and> (work s + length (incoming s) \<le> n \<longrightarrow> incoming s' = []) \<and> (\<exists>qs. frames_in s = qs @ frames_in s')"
  using assms
proof (induction n arbitrary: s)
  case 0
  then show ?case by simp
next
  case (Suc n)
  obtain r s1 where r: "read_serial_packet s = Some (r, s1)" "source_ok s1" "non_blocking s1"
    "incoming s = (case r of None \<Rightarrow> [] | Some p \<Rightarrow> [p]) @ incoming s1" "line_ok s \<longrightarrow> line_ok s1 \<and> outgoing s1 = outgoing s"
    "work s1 \<le> work s" "r = None \<longrightarrow> client_packets (rs_queue s1) = [] \<and> (work s1 < work s \<or> pending s1 = [])"
    "\<exists>qs. frames_in s = qs @ frames_in s1"
    using read_serial_packet_ok [OF Suc.prems] by blast
  obtain ps s2 where i: "read_many n s1 = Some (ps, s2)" "source_ok s2" "non_blocking s2" "incoming s1 = ps @ incoming s2"
    "line_ok s1 \<longrightarrow> line_ok s2 \<and> outgoing s2 = outgoing s1" "work s1 + length (incoming s1) \<le> n \<longrightarrow> incoming s2 = []"
    "\<exists>qs. frames_in s1 = qs @ frames_in s2"
    using Suc.IH [OF r(2,3)] by blast
  have "incoming s2 = []" if "work s + length (incoming s) \<le> Suc n"
  proof (cases "r = None \<and> pending s1 = []")
    case True
    then show ?thesis using nothing_pending [of s1] r(7) i(4) by simp
  next
    case False
    then have "work s1 + length (incoming s1) \<le> n" using that r(4,6,7) by (cases r) auto
    then show ?thesis using i(6) by blast
  qed
  moreover have "\<exists>qs. frames_in s = qs @ frames_in s2" using r(8) i(7) by (metis append.assoc)
  ultimately show ?case using r i by (intro exI [of _ "(case r of None \<Rightarrow> [] | Some p \<Rightarrow> [p]) @ ps"] exI [of _ s2]) simp
qed

section \<open>Waiting for an acknowledgement\<close>

lemma pop_ack:
  assumes "pop_protocol_packet P_ACK s = (r, s')"
  shows "source_ok s' = source_ok s" "non_blocking s' = non_blocking s" "pending s' = pending s" "incoming s' = incoming s"
    "line_ok s' = line_ok s" "outgoing s' = outgoing s" "line_out s' = line_out s" "ws_seqno s' = ws_seqno s" "line_waits s' = line_waits s"
    "bufpos s' = bufpos s" "bufused s' = bufused s"
    "acks_in s = (case r of None \<Rightarrow> [] | Some e \<Rightarrow> [get8 (pl_packet e) 0]) @ acks_in s'"
    "length (rs_queue s P_ACK) = length (rs_queue s' P_ACK) + (if r = None then 0 else 1)"
proof -
  have f: "frames_in s' = frames_in s" "line_out s' = line_out s"
    using assms by (auto simp: pop_protocol_packet_def frames_in_def rx_of_def pending_def split: list.split_asm)
  then show "source_ok s' = source_ok s" "non_blocking s' = non_blocking s" "pending s' = pending s"
    "line_ok s' = line_ok s" "line_out s' = line_out s" "ws_seqno s' = ws_seqno s" "line_waits s' = line_waits s"
    "bufpos s' = bufpos s" "bufused s' = bufused s"
    using assms by (auto simp: pop_protocol_packet_def pending_def source_ok_def line_ok_def split: list.split_asm)
  show "acks_in s = (case r of None \<Rightarrow> [] | Some e \<Rightarrow> [get8 (pl_packet e) 0]) @ acks_in s'" "incoming s' = incoming s"
    "outgoing s' = outgoing s" "length (rs_queue s P_ACK) = length (rs_queue s' P_ACK) + (if r = None then 0 else 1)"
    using assms f packet_types by (auto simp: pop_protocol_packet_def incoming_def client_packets_def
        acks_in_def ack_numbers_def outgoing_def split: list.split_asm)
qed

lemma wait_loop_ok: "\<exists>r ws'. wait_loop (Some d) ws = Some (r, ws') \<and> length ws' \<le> length ws \<and> (r \<longrightarrow> length ws' < length ws)"
proof (induction ws)
  case (Cons w ws)
  obtain now r where w: "w = (now, r)" by (cases w)
  let ?e = "tv_sec d - tv_sec now - (if tv_usec d - tv_usec now < 0 then 1 else 0) < 0"
  show ?case
  proof (cases "\<not> ?e \<and> r = S_Intr")
    case True
    then have "wait_loop (Some d) (w # ws) = wait_loop (Some d) ws" by (simp add: w)
    moreover obtain r' ws' where "wait_loop (Some d) ws = Some (r', ws')" "length ws' \<le> length ws" "r' \<longrightarrow> length ws' < length ws"
      using Cons.IH by blast
    ultimately show ?thesis by (intro exI [of _ r'] exI [of _ ws']) simp
  next
    case False
    then show ?thesis by (cases r) (auto simp: w)
  qed
qed (auto intro: exI [of _ False])

lemma queue_growth: "length (fold enqueue ps q P_ACK) \<le> length (q P_ACK) + length ps"
proof (induction ps arbitrary: q)
  case (Cons p ps)
  have "length (enqueue p q P_ACK) \<le> Suc (length (q P_ACK))" by (simp add: enqueue_def)
  then show ?case using Cons [of "enqueue p q"] by simp
qed simp

lemma waits_same: "source_ok (s\<lparr>line_waits := ws\<rparr>) = source_ok s" "incoming (s\<lparr>line_waits := ws\<rparr>) = incoming s"
  "acks_in (s\<lparr>line_waits := ws\<rparr>) = acks_in s" "line_ok (s\<lparr>line_waits := ws\<rparr>) = line_ok s"
  "outgoing (s\<lparr>line_waits := ws\<rparr>) = outgoing s"
  by (simp_all add: source_ok_def incoming_def acks_in_def outgoing_def frames_in_def rx_of_def pending_def line_ok_def)

definition waiting :: "serial_source \<Rightarrow> nat" where
  "waiting s = 2 * length (pending s) + length (rs_queue s P_ACK) + length (line_waits s)"

lemma await_ack_ok:
  assumes "source_ok s" "non_blocking s"
  shows "\<exists>r s' xs. await_ack d s = Some (r, s') \<and> r \<in> {0, 1} \<and> source_ok s' \<and> non_blocking s' \<and> ws_seqno s' = ws_seqno s
    \<and> incoming s' = incoming s \<and> (line_ok s \<longrightarrow> line_ok s' \<and> outgoing s' = outgoing s \<and> (\<exists>out. line_out s' = line_out s @ out))
    \<and> ws_seqno s \<notin> set xs \<and> acks_in s = xs @ (if r = 0 then [ws_seqno s] else []) @ acks_in s'"
  using assms
proof (induction "waiting s" arbitrary: s rule: less_induct)
  case less
  obtain s1 bs ps where s1: "read_and_process s = Some s1" "pending s = bs @ pending s1" "deframe (rx_of s) bs = (rx_of s1, ps)"
    "took ps s s1" "source_ok s1" "length ps \<le> 1" "ps \<noteq> [] \<longrightarrow> bs \<noteq> []" "ps = [] \<longrightarrow> bufused s1 \<le> bufpos s1"
    using read_and_process_ok [OF less.prems] by blast
  note same = taken_same [OF s1(2-4)]
  have nb: "non_blocking s1" "ws_seqno s1 = ws_seqno s" "line_waits s1 = line_waits s"
    using s1(4) less.prems(2) by (simp_all add: took_def)
  have out: "line_ok s \<longrightarrow> (\<exists>out. line_out s1 = line_out s @ out)" using s1(4) by (auto simp: took_def)
  have q: "length (rs_queue s1 P_ACK) \<le> length (rs_queue s P_ACK) + length ps"
    using queue_growth [of ps "rs_queue s"] s1(4) by (simp add: took_def)
  have m: "waiting s1 \<le> waiting s" "ps \<noteq> [] \<longrightarrow> waiting s1 < waiting s"
    using q s1(2,6,7) nb(3) by (cases bs; cases ps; simp add: waiting_def)+
  obtain r s2 where p: "pop_protocol_packet P_ACK s1 = (r, s2)" by (cases "pop_protocol_packet P_ACK s1")
  note pop = pop_ack [OF p]
  have go: ?case if t: "await_ack d s = await_ack d t" "waiting t < waiting s" "source_ok t" "non_blocking t" "ws_seqno t = ws_seqno s"
    "incoming t = incoming s" "line_ok s \<longrightarrow> line_ok t \<and> outgoing t = outgoing s \<and> (\<exists>out. line_out t = line_out s @ out)"
    "acks_in s = as @ acks_in t" "ws_seqno s \<notin> set as" for t as
  proof -
    obtain r s' xs where i: "await_ack d t = Some (r, s')" "r \<in> {0, 1}" "source_ok s'" "non_blocking s'" "ws_seqno s' = ws_seqno t"
      "incoming s' = incoming t" "line_ok t \<longrightarrow> line_ok s' \<and> outgoing s' = outgoing t \<and> (\<exists>out. line_out s' = line_out t @ out)"
      "ws_seqno t \<notin> set xs" "acks_in t = xs @ (if r = 0 then [ws_seqno t] else []) @ acks_in s'"
      using less.hyps [OF t(2-4)] by blast
    show ?thesis using t i by (intro exI [of _ r] exI [of _ s'] exI [of _ "as @ xs"]) auto
  qed
  show ?case
  proof (cases r)
    case (Some e)
    have a: "acks_in s = get8 (pl_packet e) 0 # acks_in s2" using pop(12) Some same(2) by simp
    show ?thesis
    proof (cases "get8 (pl_packet e) 0 = ws_seqno s2")
      case True
      then have "await_ack d s = Some (0, s2)" using s1(1) p Some by (simp add: await_ack.simps [of d s])
      then show ?thesis using a True pop s1(5) nb same out by (intro exI [of _ 0] exI [of _ s2] exI [of _ "[]"]) auto
    next
      case False
      have "await_ack d s = await_ack d s2" using s1(1) p Some False by (simp add: await_ack.simps [of d s])
      moreover have "waiting s2 < waiting s" using m(1) pop(3,9,13) Some by (simp add: waiting_def)
      ultimately show ?thesis using a False pop s1(5) nb same out
        by (intro go [of s2 "[get8 (pl_packet e) 0]"]) auto
    qed
  next
    case None
    have w2: "waiting s2 = waiting s1" using pop(3,9,13) None by (simp add: waiting_def)
    obtain ready s3 where w: "source_wait (Some d) s2 = Some (ready, s3)" "\<exists>ws. s3 = s2\<lparr>line_waits := ws\<rparr>"
      "ready \<longrightarrow> waiting s3 < waiting s2 \<or> (s3 = s2 \<and> bufpos s2 < bufused s2)"
    proof (cases "bufpos s2 < bufused s2")
      case True
      then show ?thesis by (intro that [of True s2]) (auto simp: source_wait_def intro: exI [of _ "line_waits s2"])
    next
      case False
      obtain ok ws where "wait_loop (Some d) (line_waits s2) = Some (ok, ws)" "ok \<longrightarrow> length ws < length (line_waits s2)"
        using wait_loop_ok by blast
      then show ?thesis using False
        by (intro that [of ok "s2\<lparr>line_waits := ws\<rparr>"]) (auto simp: source_wait_def waiting_def pending_def)
    qed
    have s3: "source_ok s3" "non_blocking s3" "ws_seqno s3 = ws_seqno s" "incoming s3 = incoming s" "acks_in s3 = acks_in s"
      "line_ok s \<longrightarrow> line_ok s3 \<and> outgoing s3 = outgoing s \<and> (\<exists>out. line_out s3 = line_out s @ out)"
      using w(2) pop None s1(5) nb same out
      by (auto simp: waits_same)
    show ?thesis
    proof (cases ready)
      case True
      have "waiting s3 < waiting s"
        using w(3) True w2 m s1(8) pop(10,11) by (cases "ps = []") auto
      moreover have "await_ack d s = await_ack d s3" using s1(1) p None w(1) True by (simp add: await_ack.simps [of d s])
      ultimately show ?thesis using s3 by (intro go [of s3 "[]"]) auto
    next
      case False
      then have "await_ack d s = Some (1, s3)" using s1(1) p None w(1) by (simp add: await_ack.simps [of d s])
      then show ?thesis using s3 by (intro exI [of _ 1] exI [of _ s3] exI [of _ "[]"]) auto
    qed
  qed
qed

section \<open>Between two ends of a line\<close>

primrec send_packets :: "(u8 \<times> bytes) list \<Rightarrow> serial_source \<Rightarrow> serial_source option" where
  "send_packets [] s = Some s"
| "send_packets (p # ps) s = do {
     (r, s1) \<leftarrow> write_framed_packet P_PACKET_ACK (fst p) (snd p) s;
     send_packets ps s1
   }"

definition sent_content :: "u8 \<times> bytes \<Rightarrow> bytes" where
  "sent_content p = P_PACKET_ACK # fst p # snd p"

definition frames_of :: "(u8 \<times> bytes) list \<Rightarrow> bytes" where
  "frames_of ps = concat (map (\<lambda>p. frame (sent_content p)) ps)"

lemma send_packets_ok:
  "line_ok s \<Longrightarrow> \<exists>s'. send_packets ps s = Some s' \<and> line_out s' = line_out s @ frames_of ps"
proof (induction ps arbitrary: s)
  case (Cons p ps)
  obtain r s1 where w: "write_framed_packet P_PACKET_ACK (fst p) (snd p) s = Some (r, s1)" "wrote (frame (sent_content p)) s s1"
    using write_framed_packet_ok unfolding sent_content_def by blast
  have "line_ok s1" "line_out s1 = line_out s @ frame (sent_content p)" using w(2) Cons.prems by (simp_all add: wrote_def)
  then show ?case using Cons.IH [of s1] w(1) by (auto simp: frames_of_def)
qed (simp add: frames_of_def)

lemma sent_deliver: "deliver (sent_content p) = [snd p]" "acks (sent_content p) = frame [P_ACK, fst p]"
  by (simp_all add: deliver_def sent_content_def acks_def get8_def)

lemma read_frames:
  assumes "source_ok s" "non_blocking s" "frames_in s = qs @ ds" "\<forall>d \<in> set ds. deliver d \<noteq> []"
    "work s + length (incoming s) \<le> n"
  shows "\<exists>s'. read_many n s = Some (client_packets (rs_queue s) @ concat (map deliver (qs @ ds)), s')
    \<and> (line_ok s \<longrightarrow> qs = [] \<longrightarrow> line_out s' = line_out s @ concat (map acks ds))"
proof -
  have i: "incoming s = client_packets (rs_queue s) @ concat (map deliver (qs @ ds))" using assms(3) by (simp add: incoming_def)
  obtain ps s' fs where s': "read_many n s = Some (ps, s')" "incoming s = ps @ incoming s'" "incoming s' = []"
    "line_ok s \<longrightarrow> outgoing s' = outgoing s" "frames_in s = fs @ frames_in s'"
    using read_many_ok [OF assms(1,2), of n] assms(5) by blast
  have "frames_in s' = []" if "qs = []"
  proof -
    have "set (frames_in s') \<subseteq> set ds" using s'(5) assms(3) that by auto
    moreover have "\<forall>d \<in> set (frames_in s'). deliver d = []" using s'(3) by (simp add: incoming_def)
    ultimately show ?thesis using assms(4) by (cases "frames_in s'") auto
  qed
  then have "line_ok s \<longrightarrow> qs = [] \<longrightarrow> line_out s' = line_out s @ concat (map acks ds)"
    using s'(4) assms(3) by (auto simp: outgoing_def)
  then show ?thesis using s'(1-3) i by simp
qed

lemma write_serial_packet_ok:
  assumes "source_ok s" "non_blocking s"
  shows "\<exists>r s' xs. write_serial_packet now p s = Some (r, s') \<and> r \<in> {-1, 0, 1} \<and> ws_seqno s' = ws_seqno s + 1
    \<and> source_ok s' \<and> non_blocking s'
    \<and> incoming s' = incoming s \<and> ws_seqno s' \<notin> set xs \<and> acks_in s = xs @ (if r = 0 then [ws_seqno s'] else []) @ acks_in s'
    \<and> (line_ok s \<longrightarrow> r \<noteq> -1 \<and> (\<exists>out. line_out s' = line_out s @ frame (sent_content (ws_seqno s', p)) @ out
        \<and> out @ concat (map acks (frames_in s')) = concat (map acks (frames_in s))))"
proof -
  let ?s1 = "s\<lparr>ws_seqno := ws_seqno s + 1\<rparr>"
  obtain r s2 where w: "write_framed_packet P_PACKET_ACK (ws_seqno ?s1) p ?s1 = Some (r, s2)"
    "wrote (frame (sent_content (ws_seqno s + 1, p))) ?s1 s2" "r \<in> {-1, 0}" "line_ok ?s1 \<longrightarrow> r = 0"
    using write_framed_packet_ok [of P_PACKET_ACK "ws_seqno ?s1" p ?s1] by (auto simp: sent_content_def)
  note fields = wrote_fields [OF w(2)]
  have l: "line_ok ?s1 = line_ok s" by (simp add: line_ok_def)
  have ok: "source_ok s2" "non_blocking s2" "ws_seqno s2 = ws_seqno s + 1"
    using fields assms by (simp_all add: source_ok_def)
  have same: "frames_in s2 = frames_in s" "incoming s2 = incoming s" "acks_in s2 = acks_in s"
    using fields by (simp_all add: incoming_def acks_in_def frames_in_def rx_of_def pending_def)
  have out: "line_ok s \<longrightarrow> line_ok s2 \<and> line_out s2 = line_out s @ frame (sent_content (ws_seqno s + 1, p))"
    using w(2) l by (simp add: wrote_def)
  show ?thesis
  proof (cases "r < 0")
    case True
    then have "write_serial_packet now p s = Some (-1, s2)" using w(1) by (simp add: write_serial_packet_def)
    then show ?thesis using ok same w(4) l True by (intro exI [of _ "-1"] exI [of _ s2] exI [of _ "[]"]) auto
  next
    case False
    obtain r' s' xs where a: "await_ack (add_us now ACK_TIMEOUT) s2 = Some (r', s')" "r' \<in> {0, 1}" "source_ok s'" "non_blocking s'" "ws_seqno s' = ws_seqno s2"
      "incoming s' = incoming s2"
      "line_ok s2 \<longrightarrow> line_ok s' \<and> outgoing s' = outgoing s2 \<and> (\<exists>out. line_out s' = line_out s2 @ out)"
      "ws_seqno s2 \<notin> set xs" "acks_in s2 = xs @ (if r' = 0 then [ws_seqno s2] else []) @ acks_in s'"
      using await_ack_ok [OF ok(1,2)] by blast
    have "write_serial_packet now p s = Some (r', s')" using w(1) a(1) False by (simp add: write_serial_packet_def)
    moreover have "line_ok s \<longrightarrow> (\<exists>o1. line_out s' = line_out s @ frame (sent_content (ws_seqno s', p)) @ o1
        \<and> o1 @ concat (map acks (frames_in s')) = concat (map acks (frames_in s)))"
      using out a(5,7) ok(3) same(1) by (auto simp: outgoing_def)
    ultimately show ?thesis using a ok same by (intro exI [of _ r'] exI [of _ s'] exI [of _ xs]) auto
  qed
qed

section \<open>Properties\<close>

definition sample_source :: "bool \<Rightarrow> read_result list \<Rightarrow> serial_source" where
  "sample_source nb rs = \<lparr>non_blocking = nb, rs_buffer = replicate 256 0, bufpos = 0, bufused = 0, rs_packet = replicate 256 0,
     in_sync = False, rs_escaped = False, rs_count = 0, rs_queue = (\<lambda>_. []), ws_seqno = 37, ws_escaped = [], escapeptr = 0,
     ws_crc = 0, line_in = rs, line_waits = [(\<lparr>tv_sec = 5, tv_usec = 0\<rparr>, S_Ready)], line_writes = [W_Wrote 3, W_Intr],
     line_fcntl = [True], line_out = [], heap_bytes = (\<lambda>_. 0), heap_room = 12\<rparr>"

lemma sample_source_ok: "source_ok (sample_source nb rs)" "non_blocking (sample_source nb rs) = nb"
  "idle (rx_of (sample_source nb rs))" "client_packets (rs_queue (sample_source nb rs)) = []" "line_ok (sample_source nb rs)"
  "pending (sample_source nb rs) = concat (map read_data rs)"
  by (simp_all add: sample_source_def source_ok_def MTU_def BUFSIZE_def sizeof_packet_list_def rx_of_def idle_def
      client_packets_def line_ok_def pending_def)

definition sample_sent :: "(u8 \<times> bytes) list" where
  "sample_sent = [(38, [1, 0x7e]), (39, [])]"

lemma length_frame: "length (frame d) \<le> 2 * length d + 6"
  using length_concat_esc [of "sealed d"] by (simp add: frame_def frame_body_def sealed_def)

lemma sample_sent_length: "length (frames_of sample_sent) \<le> 256"
  using length_frame [of "sent_content (38, [1, 0x7e])"] length_frame [of "sent_content (39, [])"]
  by (simp add: frames_of_def sample_sent_def sent_content_def)

text \<open>
  C14: what one end writes the other end gets: whatever way the bytes are cut up by the calls of \<open>write\<close> and \<open>read\<close>,
  interrupted or without data in between, a client that asks often enough is handed exactly the packets, in order, and each is
  acknowledged with its number.
\<close>

theorem serial_round_trip:
  assumes "line_ok t" "\<forall>p \<in> set ps. length (snd p) \<le> 251"
    and "source_ok s" "non_blocking s" "line_ok s" "idle (rx_of s)" "client_packets (rs_queue s) = []"
    and "pending s = frames_of ps" "work s + length ps \<le> n"
  shows "(\<exists>t'. send_packets ps t = Some t' \<and> line_out t' = line_out t @ frames_of ps)
    \<and> (\<exists>s'. read_many n s = Some (map snd ps, s') \<and> line_out s' = line_out s @ concat (map (\<lambda>p. frame [P_ACK, fst p]) ps))"
proof -
  have "\<forall>d \<in> set (map sent_content ps). 2 \<le> length d \<and> length d \<le> 253" using assms(2) by (simp add: sent_content_def)
  from deframe_frames [OF assms(6) this] have f: "frames_in s = map sent_content ps"
    unfolding frames_in_def assms(8) frames_of_def by (auto simp: comp_def)
  have d: "concat (map deliver (map sent_content ps)) = map snd ps" "concat (map acks (map sent_content ps)) = concat (map (\<lambda>p. frame [P_ACK, fst p]) ps)"
    by (induction ps) (simp_all add: sent_deliver)
  have "\<forall>d \<in> set (map sent_content ps). deliver d \<noteq> []" by (simp add: sent_deliver)
  moreover have "length (incoming s) = length ps" unfolding incoming_def f assms(7) d by simp
  ultimately show ?thesis
    using read_frames [OF assms(3,4), of "[]" "map sent_content ps" n] f d assms(5,7,9) send_packets_ok [OF assms(1), of ps] by simp
qed

theorem serial_round_trip_witness:
  "\<exists>t' s'. send_packets sample_sent (sample_source True []) = Some t'
    \<and> read_many 400 (sample_source True [R_Data (take 5 (line_out t')), R_Intr, R_Again, R_Data (drop 5 (line_out t'))])
      = Some ([[1, 0x7e], []], s')
    \<and> line_out s' = frame [P_ACK, 38] @ frame [P_ACK, 39]"
proof -
  let ?b = "frames_of sample_sent"
  let ?s = "sample_source True [R_Data (take 5 ?b), R_Intr, R_Again, R_Data (drop 5 ?b)]"
  have p: "pending ?s = ?b" using sample_sent_length by (simp add: sample_source_ok read_data_def BUFSIZE_def)
  have w: "work ?s + length sample_sent \<le> 400"
    unfolding work_def p using sample_sent_length by (simp add: sample_source_def sample_sent_def)
  have out: "line_out (sample_source nb rs) = []" for nb rs by (simp add: sample_source_def)
  have l: "\<forall>p \<in> set sample_sent. length (snd p) \<le> 251" by (simp add: sample_sent_def)
  show ?thesis
    using serial_round_trip [OF sample_source_ok(5) [of True "[]"] l sample_source_ok(1) _ sample_source_ok(5,3,4) p w]
    by (auto simp: sample_source_ok(2) out) (simp_all add: sample_sent_def)
qed

text \<open>
  C16: whatever state the receiver is in and whatever noise is on the line, one frame is enough to find it again: all
  packets after that one are handed out in order, behind what the noise happened to give.
\<close>

theorem serial_resynchronises:
  assumes "source_ok s" "non_blocking s" "pending s = noise @ frame d @ frames_of ps"
    and "length d \<le> 253" "\<forall>p \<in> set ps. length (snd p) \<le> 251" "work s + length (incoming s) \<le> n"
  shows "\<exists>xs s'. read_many n s = Some (xs @ map snd ps, s')"
proof -
  obtain x qs where x: "deframe (rx_of s) noise = (x, qs)" by (cases "deframe (rx_of s) noise")
  have "\<forall>d \<in> set (map sent_content ps). 2 \<le> length d \<and> length d \<le> 253" using assms(5) by (simp add: sent_content_def)
  from deframe_resync [OF assms(4) this, of x] obtain x' rs where
    "deframe x (frame d @ frames_of ps) = (x', rs @ map sent_content ps)"
    by (auto simp: frames_of_def comp_def)
  then have f: "frames_in s = (qs @ rs) @ map sent_content ps"
    unfolding frames_in_def assms(3) using x by (simp add: deframe_append [of _ noise])
  have d: "concat (map deliver (map sent_content ps)) = map snd ps" by (induction ps) (simp_all add: sent_deliver)
  have "\<forall>d \<in> set (map sent_content ps). deliver d \<noteq> []" by (simp add: sent_deliver)
  from read_frames [OF assms(1,2) f this assms(6)] obtain s' where
    "read_many n s = Some (client_packets (rs_queue s) @ concat (map deliver ((qs @ rs) @ map sent_content ps)), s')"
    by blast
  then show ?thesis using d by auto
qed

theorem serial_resynchronises_witness:
  "\<exists>n xs s'. read_many n ((sample_source True [R_Data (1 # 0x7e # 2 # 0x7d # []), R_Data (frame [0x41]), R_Data (frames_of sample_sent)])
      \<lparr>in_sync := True, rs_escaped := True, rs_count := 256\<rparr>)
    = Some (xs @ [[1, 0x7e], []], s')"
proof -
  let ?s = "(sample_source True [R_Data (1 # 0x7e # 2 # 0x7d # []), R_Data (frame [0x41]), R_Data (frames_of sample_sent)])
      \<lparr>in_sync := True, rs_escaped := True, rs_count := 256\<rparr>"
  have ok: "source_ok ?s" "non_blocking ?s"
    using sample_source_ok(1,2) by (simp_all add: source_ok_def MTU_def)
  have l: "length (frame [0x41]) \<le> 8" using length_frame [of "[0x41]"] by simp
  have p: "pending ?s = [1, 0x7e, 2, 0x7d] @ frame [0x41] @ frames_of sample_sent"
    using sample_sent_length l by (simp add: pending_def sample_source_def read_data_def BUFSIZE_def)
  have d: "length [0x41 :: u8] \<le> 253" "\<forall>p \<in> set sample_sent. length (snd p) \<le> 251" by (simp_all add: sample_sent_def)
  have "map snd sample_sent = [[1, 0x7e], []]" by (simp add: sample_sent_def)
  then show ?thesis using serial_resynchronises [OF ok p d order_refl] by auto
qed

text \<open>
  C17: a frame in which one or two neighbouring bytes of the content were changed is never taken for a packet, and the
  packets behind it still arrive.
\<close>

theorem serial_damage_detected:
  assumes "source_ok s" "non_blocking s" "idle (rx_of s)" "client_packets (rs_queue s) = []"
    and "(x1, y1) \<noteq> (x2, y2)" "length a + length b \<le> 251"
    and "pending s = damaged_frame (a @ x1 # y1 # b) (a @ x2 # y2 # b) @ frames_of ps"
    and "\<forall>p \<in> set ps. length (snd p) \<le> 251" "work s + length ps \<le> n"
  shows "\<exists>s'. read_many n s = Some (map snd ps, s')"
proof -
  have "\<forall>d \<in> set (map sent_content ps). 2 \<le> length d \<and> length d \<le> 253" using assms(8) by (simp add: sent_content_def)
  moreover have "idle (In_Frame False [])" by (simp add: idle_def)
  ultimately obtain x' where "deframe (In_Frame False []) (frames_of ps) = (x', map sent_content ps)"
    using deframe_frames [of "In_Frame False []" "map sent_content ps"] by (auto simp: frames_of_def comp_def)
  then have f: "frames_in s = [] @ map sent_content ps"
    unfolding frames_in_def assms(7) using deframe_damaged [OF assms(3,5,6)] by (simp add: deframe_append)
  have d: "concat (map deliver (map sent_content ps)) = map snd ps" by (induction ps) (simp_all add: sent_deliver)
  have "work s + length (incoming s) \<le> n" unfolding incoming_def f assms(4) using assms(9) d by simp
  moreover have "\<forall>d \<in> set (map sent_content ps). deliver d \<noteq> []" by (simp add: sent_deliver)
  ultimately show ?thesis using read_frames [OF assms(1,2) f] assms(4) d by auto
qed

theorem serial_damage_detected_witness:
  "\<exists>n s'. read_many n (sample_source True [R_Data (damaged_frame [65, 1, 2, 3] [65, 1, 3, 2]), R_Data (frames_of sample_sent)])
    = Some ([[1, 0x7e], []], s')"
proof -
  let ?s = "sample_source True [R_Data (damaged_frame [65, 1, 2, 3] [65, 1, 3, 2]), R_Data (frames_of sample_sent)]"
  have "length (damaged_frame [65, 1, 2, 3] [65, 1, 3, 2]) \<le> 256"
    using length_concat_esc [of "[65, 1, 3, 2] @ [lo8 (crc_packet [65, 1, 2, 3]), hi8 (crc_packet [65, 1, 2, 3])]"]
    by (simp add: damaged_frame_def)
  then have p: "pending ?s = damaged_frame ([65, 1] @ 2 # 3 # []) ([65, 1] @ 3 # 2 # []) @ frames_of sample_sent"
    using sample_sent_length by (simp add: sample_source_ok read_data_def BUFSIZE_def)
  have d: "\<forall>p \<in> set sample_sent. length (snd p) \<le> 251" "((2 :: u8), (3 :: u8)) \<noteq> (3, 2)" "length [65 :: u8, 1] + length ([] :: bytes) \<le> 251"
    by (simp_all add: sample_sent_def)
  have "map snd sample_sent = [[1, 0x7e], []]" by (simp add: sample_sent_def)
  then show ?thesis
    using serial_damage_detected [OF sample_source_ok(1) _ sample_source_ok(3,4) d(2,3) p d(1) order_refl] sample_source_ok(2) by auto
qed

text \<open>
  C18: a write in the non-blocking mode always returns. It returns 0 exactly if the number it sent was acknowledged in time, 1
  if not, and -1 only if the line failed; packets that come in while it waits are kept for the client, in order,
  and acknowledged.
\<close>

theorem serial_write_result:
  assumes "source_ok s" "non_blocking s"
  shows "\<exists>r s' xs. write_serial_packet now p s = Some (r, s') \<and> r \<in> {-1, 0, 1} \<and> ws_seqno s' = ws_seqno s + 1
    \<and> incoming s' = incoming s \<and> ws_seqno s' \<notin> set xs \<and> acks_in s = xs @ (if r = 0 then [ws_seqno s'] else []) @ acks_in s'
    \<and> (line_ok s \<longrightarrow> r \<noteq> -1 \<and> (\<exists>out. line_out s' = line_out s @ frame (sent_content (ws_seqno s', p)) @ out
        \<and> out @ concat (map acks (frames_in s')) = concat (map acks (frames_in s))))"
  using write_serial_packet_ok [OF assms, of now p] by blast

theorem serial_write_result_witness:
  "\<exists>s'. write_serial_packet \<lparr>tv_sec = 1, tv_usec = 0\<rparr> [1, 2, 3] (sample_source True [R_Data (frame [P_ACK, 37]), R_Again]) = Some (1, s')
    \<and> ws_seqno s' = 38 \<and> (\<exists>out. line_out s' = frame [P_PACKET_ACK, 38, 1, 2, 3] @ out)"
proof -
  let ?s = "sample_source True [R_Data (frame [P_ACK, 37]), R_Again]"
  have l: "length (frame [P_ACK, 37]) \<le> 256" using length_frame [of "[P_ACK, 37]"] by simp
  have f: "frames_in ?s = [[P_ACK, 37]]"
    using deframe_frame [OF sample_source_ok(3), of "[P_ACK, 37]"] l
    by (simp add: frames_in_def sample_source_ok(6) read_data_def BUFSIZE_def)
  have a: "acks_in ?s = [37]"
    unfolding acks_in_def f by (simp add: ack_numbers_def sample_source_def acknowledged_def get8_def)
  have s: "ws_seqno ?s + 1 = 38" "line_out ?s = []" by (simp_all add: sample_source_def)
  obtain r s' xs where w: "write_serial_packet \<lparr>tv_sec = 1, tv_usec = 0\<rparr> [1, 2, 3] ?s = Some (r, s')" "r \<in> {-1, 0, 1}"
    "ws_seqno s' = ws_seqno ?s + 1" "acks_in ?s = xs @ (if r = 0 then [ws_seqno s'] else []) @ acks_in s'" "r \<noteq> -1"
    "\<exists>out. line_out s' = line_out ?s @ frame (sent_content (ws_seqno s', [1, 2, 3])) @ out"
    using serial_write_result [OF sample_source_ok(1), of True "[R_Data (frame [P_ACK, 37]), R_Again]" "\<lparr>tv_sec = 1, tv_usec = 0\<rparr>" "[1, 2, 3]"]
      sample_source_ok(2,5) by auto
  have "r \<noteq> 0"
  proof
    assume "r = 0"
    then have "38 \<in> set (acks_in ?s)" unfolding w(4) using w(3) s(1) by simp
    then show False unfolding a by simp
  qed
  then have "r = 1" using w(2,5) by simp
  then show ?thesis using w(1,3,6) s by (simp add: sent_content_def)
qed

text \<open>
  When nothing comes any more, a write in the non-blocking mode returns 1, and one in the blocking mode never
  returns: the deadline is computed and never looked at, since the read before it waits without one.
\<close>

theorem serial_blocking_write_hangs:
  assumes "line_in s = []" "bufused s \<le> bufpos s" "line_ok s" "line_waits s = []" "rs_queue s P_ACK = []"
  shows "case write_serial_packet now p s of None \<Rightarrow> \<not> non_blocking s | Some (r, s') \<Rightarrow> non_blocking s \<and> r = 1"
proof -
  let ?s1 = "s\<lparr>ws_seqno := ws_seqno s + 1\<rparr>"
  obtain r s2 where w: "write_framed_packet P_PACKET_ACK (ws_seqno ?s1) p ?s1 = Some (r, s2)"
    "wrote (frame (sent_content (ws_seqno s + 1, p))) ?s1 s2" "line_ok ?s1 \<longrightarrow> r = 0"
    using write_framed_packet_ok [of P_PACKET_ACK "ws_seqno ?s1" p ?s1] by (auto simp: sent_content_def)
  note fields = wrote_fields [OF w(2)]
  have "r = 0" using w(3) assms(3) by (simp add: line_ok_def)
  then have e: "write_serial_packet now p s = await_ack (add_us now ACK_TIMEOUT) s2"
    using w(1) by (simp add: write_serial_packet_def)
  have b: "read_byte s2 = (if non_blocking s then Some (None, s2\<lparr>line_in := []\<rparr>) else None)"
    using fields assms by (simp add: read_byte_def refill.simps)
  then have rp: "read_and_process s2 = (if non_blocking s then Some (s2\<lparr>line_in := []\<rparr>) else None)"
    by (simp add: read_and_process.simps [of s2])
  show ?thesis unfolding e using rp fields assms
    by (simp add: await_ack.simps [of _ s2] pop_protocol_packet_def source_wait_def)
qed

theorem serial_blocking_write_hangs_witness:
  "write_serial_packet \<lparr>tv_sec = 1, tv_usec = 0\<rparr> [1, 2, 3] ((sample_source False [])\<lparr>line_waits := []\<rparr>) = None
    \<and> map_option fst (write_serial_packet \<lparr>tv_sec = 1, tv_usec = 0\<rparr> [1, 2, 3] ((sample_source True [])\<lparr>line_waits := []\<rparr>)) = Some 1"
proof -
  have "case write_serial_packet \<lparr>tv_sec = 1, tv_usec = 0\<rparr> [1, 2, 3] ((sample_source nb [])\<lparr>line_waits := []\<rparr>) of
      None \<Rightarrow> \<not> nb | Some (r, s') \<Rightarrow> nb \<and> r = 1" for nb
  proof -
    let ?s = "(sample_source nb [])\<lparr>line_waits := []\<rparr>"
    have "line_in ?s = []" "bufused ?s \<le> bufpos ?s" "line_ok ?s" "line_waits ?s = []" "rs_queue ?s P_ACK = []"
      by (simp_all add: sample_source_def line_ok_def)
    from serial_blocking_write_hangs [OF this, of "\<lparr>tv_sec = 1, tv_usec = 0\<rparr>" "[1, 2, 3]"]
    show ?thesis by (auto simp: sample_source_ok(2) split: option.splits)
  qed
  from this [of False] this [of True] show ?thesis by (auto split: option.splits)
qed

end
