(* ===== verification/Serial_Forwarder.thy ===== *)
theory Serial_Forwarder
  imports Serial_Delivery "HOL-Library.Sublist"
begin

text \<open>
  The serial forwarder (src/tools/sf/sf.c) and the protocol on its sockets (src/tools/sf/sfsource.c), which the tools of the
  master speak as well. A socket is a record of what its reads and writes will give and of what was written; when the list of
  reads is used up a read waits for ever. A result \<open>None\<close> never comes; \<open>Inl\<close> is the end of the program with that code.
\<close>

section \<open>Sockets\<close>

datatype sock_read = SR_Data bytes | SR_Intr | SR_Error | SR_End

record sock =
  sk_in :: "sock_read list"
  sk_writes :: "write_result list"
  sk_out :: bytes

text \<open>What a read leaves of the data that are there comes with the next one.\<close>

function saferead_loop :: "nat \<Rightarrow> sock_read list \<Rightarrow> bytes \<Rightarrow> (int \<times> bytes \<times> sock_read list) option" where
  "saferead_loop n evs buf =
    (if n = 0 then Some (int (length buf), buf, evs)
     else case evs of
       [] \<Rightarrow> None
     | SR_Data [] # evs' \<Rightarrow> saferead_loop n evs' buf
     | SR_Data (b # bs) # evs' \<Rightarrow>
         saferead_loop (n - length (take n (b # bs))) (if drop n (b # bs) = [] then evs' else SR_Data (drop n (b # bs)) # evs')
           (buf @ take n (b # bs))
     | SR_Intr # evs' \<Rightarrow> saferead_loop n evs' buf
     | SR_Error # evs' \<Rightarrow> Some (-1, buf, evs')
     | SR_End # evs' \<Rightarrow> Some (int (length buf), buf, evs'))"
  by pat_completeness auto
termination
  by (relation "measure (\<lambda>(n, evs, buf). n + length evs)") (auto simp: min_def)

declare saferead_loop.simps [simp del]

definition saferead :: "nat \<Rightarrow> sock \<Rightarrow> (int \<times> bytes \<times> sock) option" where
  "saferead n k = do {
     (r, buf, evs) \<leftarrow> saferead_loop n (sk_in k) [];
     Some (r, buf, k\<lparr>sk_in := evs\<rparr>)
   }"

definition safewrite :: "bytes \<Rightarrow> sock \<Rightarrow> int \<times> sock" where
  "safewrite buf k =
    (case write_loop buf (sk_writes k) (sk_out k) of (all, ws, out) \<Rightarrow>
       (if all then int (length buf) else -1, k\<lparr>sk_writes := ws, sk_out := out\<rparr>))"

text \<open>The greeting: both sides send \<open>T\<close> and a version, take the lower one, and from version \<open>!\<close> on exchange their platforms.\<close>

definition init_sf_source :: "u32 \<Rightarrow> sock \<Rightarrow> (int \<times> sock) option" where
  "init_sf_source platform k =
    (let (r1, k1) = safewrite [84, 33] k in
     if r1 \<noteq> 2 then Some (-1, k1)
     else do {
       (r2, check, k2) \<leftarrow> saferead 2 k1;
       (if r2 \<noteq> 2 \<or> get8 check 0 \<noteq> 84 \<or> sint (get8 check 1) < 32 then Some (-1, k2)
        else if (if 33 < sint (get8 check 1) then 33 else sint (get8 check 1)) = 33 then
          (let (r3, k3) = safewrite [ucast platform, ucast (drop_bit 8 platform), ucast (drop_bit 16 platform),
                                     ucast (drop_bit 24 platform)] k2
           in if r3 \<noteq> 4 then Some (-1, k3)
              else do {
                (r4, nonce, k4) \<leftarrow> saferead 4 k3;
                Some (if r4 \<noteq> 4 then -1 else 0, k4)
              })
        else Some (0, k2))
     })"

text \<open>A packet on a socket is its length in one byte and that many bytes.\<close>

definition read_sf_packet :: "sock \<Rightarrow> (bytes option \<times> sock) option" where
  "read_sf_packet k = do {
     (r, l, k1) \<leftarrow> saferead 1 k;
     (if r \<noteq> 1 then Some (None, k1)
      else do {
        (r, packet, k2) \<leftarrow> saferead (unat (get8 l 0)) k1;
        Some (if r \<noteq> int (unat (get8 l 0)) then None else Some packet, k2)
      })
   }"

definition write_sf_packet :: "bytes \<Rightarrow> sock \<Rightarrow> int \<times> sock" where
  "write_sf_packet packet k =
    (let l = of_nat (length packet) :: u8; (r1, k1) = safewrite [l] k in
     if r1 \<noteq> 1 then (-1, k1)
     else let (r2, k2) = safewrite (take (unat l) packet) k1
       in (if r2 \<noteq> int (unat l) then -1 else 0, k2))"

section \<open>The forwarder\<close>

record client =
  cl_fd :: int
  cl_sock :: sock

record forwarder =
  fw_src :: serial_source
  packets_read :: int
  packets_written :: int
  num_clients :: int
  clients :: "client list"

type_synonym fw_result = "(int + forwarder) option"

definition fw_then :: "fw_result \<Rightarrow> (forwarder \<Rightarrow> fw_result) \<Rightarrow> fw_result" where
  "fw_then x f = (case x of None \<Rightarrow> None | Some (Inl code) \<Rightarrow> Some (Inl code) | Some (Inr w) \<Rightarrow> f w)"

definition sf_add_client :: "int \<Rightarrow> sock \<Rightarrow> forwarder \<Rightarrow> forwarder" where
  "sf_add_client fd k w = w\<lparr>clients := \<lparr>cl_fd = fd, cl_sock = k\<rparr> # clients w, num_clients := num_clients w + 1\<rparr>"

definition sf_new_client :: "u32 \<Rightarrow> int \<Rightarrow> sock \<Rightarrow> forwarder \<Rightarrow> fw_result" where
  "sf_new_client platform fd k w = do {
     (r, k1) \<leftarrow> init_sf_source platform k;
     Some (Inr (if r < 0 then w else sf_add_client fd k1 w))
   }"

text \<open>The loops over the clients; the one removed makes the counter go down.\<close>

fun sf_dispatch_loop :: "bytes \<Rightarrow> client list \<Rightarrow> int \<Rightarrow> client list \<times> int" where
  "sf_dispatch_loop packet [] n = ([], n)"
| "sf_dispatch_loop packet (c # cs) n =
    (case write_sf_packet packet (cl_sock c) of (r, k) \<Rightarrow>
       if r \<ge> 0 then (case sf_dispatch_loop packet cs n of (cs', n') \<Rightarrow> (c\<lparr>cl_sock := k\<rparr> # cs', n'))
       else sf_dispatch_loop packet cs (n - 1))"

definition sf_dispatch_packet :: "bytes \<Rightarrow> forwarder \<Rightarrow> forwarder" where
  "sf_dispatch_packet packet w =
    (case sf_dispatch_loop packet (clients w) (num_clients w) of (cs, n) \<Rightarrow> w\<lparr>clients := cs, num_clients := n\<rparr>)"

definition check_serial :: "forwarder \<Rightarrow> fw_result" where
  "check_serial w = do {
     (p, s) \<leftarrow> read_serial_packet (fw_src w);
     let w1 = w\<lparr>fw_src := s\<rparr>;
     Some (Inr (case p of None \<Rightarrow> w1 | Some packet \<Rightarrow> sf_dispatch_packet packet (w1\<lparr>packets_read := packets_read w1 + 1\<rparr>)))
   }"

text \<open>The clock is read once for every packet written.\<close>

definition forward_packet :: "(int \<Rightarrow> timeval) \<Rightarrow> bytes \<Rightarrow> forwarder \<Rightarrow> fw_result" where
  "forward_packet clock packet w = do {
     (ok, s) \<leftarrow> write_serial_packet (clock (packets_written w)) packet (fw_src w);
     Some (if ok < 0 then Inl 2 else Inr (w\<lparr>fw_src := s, packets_written := packets_written w + 1\<rparr>))
   }"

text \<open>\<open>passed\<close> holds the clients the loop is done with, the last one first.\<close>

fun sf_check_clients_loop :: "(int \<Rightarrow> timeval) \<Rightarrow> int set \<Rightarrow> client list \<Rightarrow> client list \<Rightarrow> forwarder \<Rightarrow> fw_result" where
  "sf_check_clients_loop clock ready passed [] w = Some (Inr (w\<lparr>clients := rev passed\<rparr>))"
| "sf_check_clients_loop clock ready passed (c # cs) w =
    (if cl_fd c \<in> ready then do {
       (p, k) \<leftarrow> read_sf_packet (cl_sock c);
       (case p of
          Some packet \<Rightarrow> fw_then (forward_packet clock packet w)
            (sf_check_clients_loop clock ready (c\<lparr>cl_sock := k\<rparr> # passed) cs)
        | None \<Rightarrow> sf_check_clients_loop clock ready passed cs (w\<lparr>num_clients := num_clients w - 1\<rparr>))
     } else sf_check_clients_loop clock ready (c # passed) cs w)"

definition sf_check_clients :: "(int \<Rightarrow> timeval) \<Rightarrow> int set \<Rightarrow> forwarder \<Rightarrow> fw_result" where
  "sf_check_clients clock ready w = sf_check_clients_loop clock ready [] (clients w) w"

text \<open>A round of the main loop: whether \<open>select\<close> failed, the descriptors it reports, and what \<open>accept\<close> gives.\<close>

record fw_event =
  ev_failed :: bool
  ev_serial :: bool
  ev_server :: bool
  ev_accept :: "(int \<times> sock) option"
  ev_ready :: "int set"

definition fw_round :: "u32 \<Rightarrow> (int \<Rightarrow> timeval) \<Rightarrow> fw_event \<Rightarrow> forwarder \<Rightarrow> fw_result" where
  "fw_round platform clock e w =
    fw_then (if serial_source_empty (fw_src w) then Some (Inr w) else check_serial w) (\<lambda>w1.
      if ev_failed e then Some (Inr w1)
      else fw_then (if ev_serial e then check_serial w1 else Some (Inr w1)) (\<lambda>w2.
        fw_then (if ev_server e then
                   (case ev_accept e of None \<Rightarrow> Some (Inr w2) | Some (fd, k) \<Rightarrow> sf_new_client platform fd k w2)
                 else Some (Inr w2))
          (sf_check_clients clock (ev_ready e))))"

fun fw_rounds :: "u32 \<Rightarrow> (int \<Rightarrow> timeval) \<Rightarrow> fw_event list \<Rightarrow> forwarder \<Rightarrow> fw_result" where
  "fw_rounds platform clock [] w = Some (Inr w)"
| "fw_rounds platform clock (e # es) w = fw_then (fw_round platform clock e w) (fw_rounds platform clock es)"

section \<open>Packets on a socket\<close>

definition sock_data :: "sock_read \<Rightarrow> bytes" where
  "sock_data e = (case e of SR_Data bs \<Rightarrow> bs | _ \<Rightarrow> [])"

definition sock_bytes :: "sock \<Rightarrow> bytes" where
  "sock_bytes k = concat (map sock_data (sk_in k))"

text \<open>No error and no end of the connection is among the reads.\<close>

definition clean :: "sock_read list \<Rightarrow> bool" where
  "clean evs \<longleftrightarrow> SR_Error \<notin> set evs \<and> SR_End \<notin> set evs"

lemma saferead_loop_ok:
  "clean evs \<Longrightarrow> (if length (concat (map sock_data evs)) < n then saferead_loop n evs buf = None
    else \<exists>evs'. saferead_loop n evs buf = Some (int (length buf + n), buf @ take n (concat (map sock_data evs)), evs')
      \<and> concat (map sock_data evs') = drop n (concat (map sock_data evs)) \<and> clean evs')"
proof (induction n evs buf rule: saferead_loop.induct)
  case (1 n evs buf)
  show ?case
  proof (cases "n = 0")
    case True
    then show ?thesis using "1.prems" by (simp add: saferead_loop.simps [of 0])
  next
    case False
    show ?thesis
    proof (cases evs)
      case Nil
      then show ?thesis using False by (simp add: saferead_loop.simps)
    next
      case (Cons e es)
      then have cl: "clean es" "e \<noteq> SR_Error" "e \<noteq> SR_End" using "1.prems" by (auto simp: clean_def)
      consider "e = SR_Data []" | b bs where "e = SR_Data (b # bs)" | "e = SR_Intr"
        using cl(2,3) by (cases e; metis list.exhaust)
      then show ?thesis
      proof cases
        case 1
        have e: "saferead_loop n evs buf = saferead_loop n es buf"
          and d: "concat (map sock_data evs) = concat (map sock_data es)"
          unfolding saferead_loop.simps [of n evs] using 1 Cons False by (simp_all add: sock_data_def)
        show ?thesis unfolding e d by (rule "1.IH"(1) [OF False Cons 1 refl cl(1)])
      next
        case (2 b bs)
        obtain xs where xs: "xs = b # bs" by blast
        let ?es = "if drop n xs = [] then es else SR_Data (drop n xs) # es"
        have cl': "clean ?es" using cl(1) by (simp add: clean_def)
        have d: "concat (map sock_data ?es) = drop n xs @ concat (map sock_data es)" by (simp add: sock_data_def)
        have e: "saferead_loop n evs buf = saferead_loop (n - length (take n xs)) ?es (buf @ take n xs)"
          unfolding saferead_loop.simps [of n evs] using 2 Cons False xs by simp
        have a: "concat (map sock_data evs) = xs @ concat (map sock_data es)" using 2 Cons xs by (simp add: sock_data_def)
        have l: "length (take n xs) + length (drop n xs) = length xs" by simp
        note ih = "1.IH"(2) [OF False Cons 2 refl, folded xs, OF cl']
        show ?thesis
        proof (cases "length (xs @ concat (map sock_data es)) < n")
          case True
          then have "length (concat (map sock_data es)) < n - length xs" by simp
          then show ?thesis using ih True unfolding e d a by (simp split: if_split_asm)
        next
          case False
          show ?thesis
          proof (cases "length xs \<le> n")
            case True
            then have "\<not> length (concat (map sock_data es)) < n - length xs" "length buf + length xs + (n - length xs) = length buf + n"
              using False by simp_all
            then show ?thesis using ih True False unfolding e d a by (simp split: if_split_asm)
          next
            case n: False
            then have "length buf + min (length xs) n = length buf + n" by simp
            then show ?thesis using ih n False unfolding e d a by (simp split: if_split_asm)
          qed
        qed
      next
        case 3
        have e: "saferead_loop n evs buf = saferead_loop n es buf"
          and d: "concat (map sock_data evs) = concat (map sock_data es)"
          unfolding saferead_loop.simps [of n evs] using 3 Cons False by (simp_all add: sock_data_def)
        show ?thesis unfolding e d by (rule "1.IH"(3) [OF False Cons 3 cl(1)])
      qed
    qed
  qed
qed

lemma saferead_ok:
  assumes "clean (sk_in k)" "n \<le> length (sock_bytes k)"
  shows "\<exists>k'. saferead n k = Some (int n, take n (sock_bytes k), k') \<and> sock_bytes k' = drop n (sock_bytes k) \<and> clean (sk_in k')
    \<and> sk_out k' = sk_out k"
  using saferead_loop_ok [OF assms(1), of n "[]"] assms(2) by (auto simp: saferead_def sock_bytes_def)

lemma saferead_blocks: "clean (sk_in k) \<Longrightarrow> length (sock_bytes k) < n \<Longrightarrow> saferead n k = None"
  using saferead_loop_ok [of "sk_in k" n "[]"] by (simp add: saferead_def sock_bytes_def)

lemma saferead_out: "saferead n k = Some (r, buf, k') \<Longrightarrow> sk_out k' = sk_out k"
  by (auto simp: saferead_def split: bind_splits)

lemma write_loop_all: "write_loop buf ws out = (all, ws', out') \<Longrightarrow> all \<Longrightarrow> out' = out @ buf"
  by (induction buf ws out rule: write_loop.induct) (auto split: if_split_asm)

lemma safewrite_full: "safewrite buf k = (r, k') \<Longrightarrow> r = int (length buf) \<Longrightarrow> sk_out k' = sk_out k @ buf"
  using write_loop_all by (auto simp: safewrite_def split: prod.split_asm if_split_asm)

definition on_socket :: "bytes \<Rightarrow> bytes" where
  "on_socket p = of_nat (length p) # take (length p mod 256) p"

lemma write_sf_packet_full:
  assumes "write_sf_packet p k = (r, k')" "0 \<le> r"
  shows "sk_out k' = sk_out k @ on_socket p"
proof -
  let ?l = "of_nat (length p) :: u8"
  obtain r1 k1 where w1: "safewrite [?l] k = (r1, k1)" by (cases "safewrite [?l] k")
  obtain r2 k2 where w2: "safewrite (take (unat ?l) p) k1 = (r2, k2)" by (cases "safewrite (take (unat ?l) p) k1")
  have u: "unat ?l = length p mod 256" by (rule unat_of_nat_u8)
  then have l: "length (take (unat ?l) p) = unat ?l" by simp
  have "r1 = 1" "r2 = int (unat ?l)" "k' = k2"
    using assms w1 w2 by (auto simp: write_sf_packet_def Let_def split: if_split_asm)
  then show ?thesis using safewrite_full [OF w1] safewrite_full [OF w2] l u by (simp add: on_socket_def)
qed

lemma write_sf_packet_ok:
  assumes "W_Error \<notin> set (sk_writes k)"
  shows "\<exists>k'. write_sf_packet p k = (0, k') \<and> sk_out k' = sk_out k @ on_socket p \<and> W_Error \<notin> set (sk_writes k')"
proof -
  have w: "\<exists>k'. safewrite b k = (int (length b), k') \<and> W_Error \<notin> set (sk_writes k')" if "W_Error \<notin> set (sk_writes k)" for b k
    using write_loop_ok [OF that, of b "sk_out k"] that by (auto simp: safewrite_def)
  let ?l = "of_nat (length p) :: u8"
  obtain k1 where k1: "safewrite [?l] k = (1, k1)" "W_Error \<notin> set (sk_writes k1)" using w [OF assms, of "[?l]"] by auto
  have "length (take (unat ?l) p) = unat ?l" by (simp add: unat_of_nat_u8)
  then obtain k2 where k2: "safewrite (take (unat ?l) p) k1 = (int (unat ?l), k2)" "W_Error \<notin> set (sk_writes k2)"
    using w [OF k1(2), of "take (unat ?l) p"] by auto
  have "write_sf_packet p k = (0, k2)" using k1 k2 by (simp add: write_sf_packet_def Let_def)
  then show ?thesis using write_sf_packet_full k2(2) by auto
qed

lemma read_sf_packet_ok:
  assumes "clean (sk_in k)" "sock_bytes k = on_socket p @ rest"
  shows "\<exists>k'. read_sf_packet k = Some (Some (take (length p mod 256) p), k') \<and> sock_bytes k' = rest \<and> clean (sk_in k')"
proof -
  obtain k1 where k1: "saferead 1 k = Some (1, [of_nat (length p)], k1)"
    "sock_bytes k1 = take (length p mod 256) p @ rest" "clean (sk_in k1)"
    using saferead_ok [OF assms(1), of 1] assms(2) by (auto simp: on_socket_def)
  have u: "unat (of_nat (length p) :: u8) = length p mod 256" by (rule unat_of_nat_u8)
  have l: "length (take (length p mod 256) p) = length p mod 256" by simp
  obtain k2 where "saferead (length p mod 256) k1 = Some (int (length p mod 256), take (length p mod 256) p, k2)"
    "sock_bytes k2 = rest" "clean (sk_in k2)"
    using saferead_ok [OF k1(3), of "length p mod 256"] k1(2) l by auto
  moreover have "get8 [of_nat (length p)] 0 = of_nat (length p)" by (simp add: get8_def)
  ultimately show ?thesis unfolding read_sf_packet_def k1(1) bind.bind_lunit prod.case by (simp only: u) simp
qed

lemma read_sf_packet_out: "read_sf_packet k = Some (p, k') \<Longrightarrow> sk_out k' = sk_out k"
  by (auto simp: read_sf_packet_def split: bind_splits if_split_asm dest!: saferead_out)

section \<open>Clients served\<close>

text \<open>A connection goes wrong only when a write to it or a read from it fails, or when the client closes it.\<close>

definition broken :: "client \<Rightarrow> bool" where
  "broken c \<longleftrightarrow> W_Error \<in> set (sk_writes (cl_sock c)) \<or> \<not> clean (sk_in (cl_sock c))"

text \<open>
  Clients with the packets each of them is due, and the clients that are left, in the same order: these have been sent their
  packets, and the others were dropped because their connection went wrong.
\<close>

inductive served :: "(client \<times> bytes list) list \<Rightarrow> client list \<Rightarrow> bool" where
  none: "served [] []"
| dropped: "served cs cs' \<Longrightarrow> broken c \<Longrightarrow> served ((c, ps) # cs) cs'"
| kept: "served cs cs' \<Longrightarrow> cl_fd c' = cl_fd c \<Longrightarrow> (broken c' \<Longrightarrow> broken c) \<Longrightarrow>
    sk_out (cl_sock c') = sk_out (cl_sock c) @ concat (map on_socket ps) \<Longrightarrow> served ((c, ps) # cs) (c' # cs')"

inductive_cases served_NilE: "served [] cs'"
inductive_cases served_ConsE: "served (c # cs) cs'"

abbreviation due :: "bytes list \<Rightarrow> client list \<Rightarrow> (client \<times> bytes list) list" where
  "due ps cs \<equiv> map (\<lambda>c. (c, ps)) cs"

lemma served_same: "served (due [] cs) ds \<Longrightarrow> served (due [] (c # cs)) (c # ds)"
  by (auto intro: served.kept)

lemma served_refl: "served (due [] cs) cs"
  by (induction cs) (auto intro: served.none served_same [simplified])

lemma served_trans: "served xs b \<Longrightarrow> served (due qs b) c \<Longrightarrow> served (map (\<lambda>(c, ps). (c, ps @ qs)) xs) c"
proof (induction xs b arbitrary: c rule: served.induct)
  case none
  then show ?case by (auto elim: served_NilE intro: served.none)
next
  case (dropped cs cs' d ps)
  then show ?case by (auto intro: served.dropped)
next
  case (kept cs cs' d' d ps)
  from kept.prems have "served ((d', qs) # due qs cs') c" by simp
  then consider "served (due qs cs') c" "broken d'"
    | e es where "c = e # es" "served (due qs cs') es" "cl_fd e = cl_fd d'" "broken e \<Longrightarrow> broken d'"
        "sk_out (cl_sock e) = sk_out (cl_sock d') @ concat (map on_socket qs)"
    by (auto elim: served_ConsE)
  then show ?case
  proof cases
    case 1
    then show ?thesis using kept.IH kept.hyps(3) by (auto intro: served.dropped)
  next
    case (2 e es)
    then show ?thesis using kept.IH [OF 2(2)] kept.hyps(2-4) by (auto intro!: served.kept)
  qed
qed

lemma served_append: "served xs a \<Longrightarrow> served ys b \<Longrightarrow> served (xs @ ys) (a @ b)"
  by (induction xs a rule: served.induct) (auto intro: served.intros)

lemma served_split: "served (xs @ ys) c \<Longrightarrow> \<exists>c1 c2. c = c1 @ c2 \<and> served xs c1 \<and> served ys c2"
proof (induction xs arbitrary: c)
  case (Cons x xs)
  obtain d ps where x: "x = (d, ps)" by (cases x)
  from Cons.prems have "served ((d, ps) # xs @ ys) c" by (simp add: x)
  then consider "served (xs @ ys) c" "broken d"
    | e es where "c = e # es" "served (xs @ ys) es" "cl_fd e = cl_fd d" "broken e \<Longrightarrow> broken d"
        "sk_out (cl_sock e) = sk_out (cl_sock d) @ concat (map on_socket ps)"
    by (auto elim: served_ConsE)
  then show ?case
  proof cases
    case 1
    then obtain c1 c2 where "c = c1 @ c2" "served xs c1" "served ys c2" using Cons.IH by blast
    then show ?thesis using 1(2) x by (blast intro: served.dropped)
  next
    case (2 e es)
    obtain c1 c2 where c: "es = c1 @ c2" "served xs c1" "served ys c2" using Cons.IH [OF 2(2)] by blast
    then have "c = (e # c1) @ c2" "served (x # xs) (e # c1)"
      using 2 x by (auto intro!: served.kept)
    then show ?thesis using c(3) by blast
  qed
qed (auto intro: served.none)

text \<open>A client whose connection does not go wrong is still there.\<close>

lemma served_stays: "served xs cs \<Longrightarrow> (c, ps) \<in> set xs \<Longrightarrow> \<not> broken c \<Longrightarrow>
    \<exists>c' \<in> set cs. cl_fd c' = cl_fd c \<and> sk_out (cl_sock c') = sk_out (cl_sock c) @ concat (map on_socket ps)"
  by (induction xs cs rule: served.induct) auto

text \<open>What the operations leave of what is to come on a connection.\<close>

lemma write_loop_later: "write_loop buf ws out = (all, ws', out') \<Longrightarrow> set ws' \<subseteq> set ws"
  by (induction buf ws out rule: write_loop.induct) (auto split: if_split_asm)

lemma safewrite_later: "safewrite buf k = (r, k') \<Longrightarrow> set (sk_writes k') \<subseteq> set (sk_writes k) \<and> sk_in k' = sk_in k"
  using write_loop_later [of buf "sk_writes k" "sk_out k"]
  by (cases "write_loop buf (sk_writes k) (sk_out k)") (auto simp: safewrite_def)

lemma write_sf_packet_later:
  assumes "write_sf_packet p k = (r, k')"
  shows "set (sk_writes k') \<subseteq> set (sk_writes k)" "sk_in k' = sk_in k"
  using assms unfolding write_sf_packet_def Let_def
  by (auto split: prod.split_asm if_split_asm dest!: safewrite_later)

lemma write_sf_packet_fails: "write_sf_packet p k = (r, k') \<Longrightarrow> r < 0 \<Longrightarrow> W_Error \<in> set (sk_writes k)"
  using write_sf_packet_ok [of k p] by fastforce

lemma saferead_clean:
  assumes "saferead n k = Some (r, buf, k')" "clean (sk_in k)"
  shows "r = int n" "clean (sk_in k')" "sk_writes k' = sk_writes k"
proof -
  have n: "n \<le> length (sock_bytes k)" using saferead_blocks [OF assms(2), of n] assms(1) by fastforce
  show "r = int n" "clean (sk_in k')" using saferead_ok [OF assms(2) n] assms(1) by auto
  show "sk_writes k' = sk_writes k" using assms(1) by (auto simp: saferead_def split: bind_splits)
qed

lemma read_sf_packet_later:
  assumes "read_sf_packet k = Some (p, k')" "clean (sk_in k)"
  shows "p \<noteq> None" "clean (sk_in k')" "sk_writes k' = sk_writes k"
proof -
  obtain r l k1 where k1: "saferead 1 k = Some (r, l, k1)"
    using assms(1) by (auto simp: read_sf_packet_def split: bind_splits)
  note one = saferead_clean [OF k1 assms(2)]
  obtain r2 b k2 where k2: "saferead (unat (get8 l 0)) k1 = Some (r2, b, k2)"
    using assms(1) k1 one(1) by (auto simp: read_sf_packet_def split: bind_splits)
  note two = saferead_clean [OF k2 one(2)]
  have "p = Some b \<and> k' = k2"
    using assms(1) unfolding read_sf_packet_def k1 bind.bind_lunit prod.case k2 using one(1) two(1) by simp
  then show "p \<noteq> None" "clean (sk_in k')" "sk_writes k' = sk_writes k" using one two by simp_all
qed

definition fw_ok :: "forwarder \<Rightarrow> bool" where
  "fw_ok w \<longleftrightarrow> source_ok (fw_src w) \<and> non_blocking (fw_src w) \<and> num_clients w = int (length (clients w))"

text \<open>
  A step of the forwarder takes the packets \<open>ps\<close> from the mote and sends them to its clients; the clients \<open>js\<close> join in front,
  and each of them is due what was taken since.
\<close>

definition fw_step :: "bytes list \<Rightarrow> (client \<times> bytes list) list \<Rightarrow> forwarder \<Rightarrow> forwarder \<Rightarrow> bool" where
  "fw_step ps js w w' \<longleftrightarrow> fw_ok w' \<and> incoming (fw_src w) = ps @ incoming (fw_src w')
    \<and> packets_read w' = packets_read w + int (length ps)
    \<and> served (js @ due ps (clients w)) (clients w') \<and> (\<forall>(c, qs) \<in> set js. suffix qs ps)"

lemma fw_step_refl: "fw_ok w \<Longrightarrow> fw_step [] [] w w"
  using served_refl by (simp add: fw_step_def)

lemma fw_step_trans:
  assumes "fw_step ps js u v" "fw_step qs ks v w"
  shows "fw_step (ps @ qs) (ks @ map (\<lambda>(c, rs). (c, rs @ qs)) js) u w"
proof -
  have v: "served (js @ due ps (clients u)) (clients v)" using assms(1) by (simp add: fw_step_def)
  obtain c1 c2 where c: "clients w = c1 @ c2" "served ks c1" "served (due qs (clients v)) c2"
    using served_split [of ks "due qs (clients v)" "clients w"] assms(2) by (auto simp: fw_step_def)
  have "served (map (\<lambda>(c, rs). (c, rs @ qs)) js @ due (ps @ qs) (clients u)) c2"
    using served_trans [OF v c(3)] by (simp add: comp_def)
  from served_append [OF c(2) this] show ?thesis using assms c(1) by (fastforce simp: fw_step_def suffix_def)
qed

definition fw_steps :: "fw_result \<Rightarrow> forwarder \<Rightarrow> client list \<Rightarrow> bool" where
  "fw_steps x w cs \<longleftrightarrow> (\<forall>w'. x = Some (Inr w') \<longrightarrow> (\<exists>ps js. fw_step ps js w w' \<and> map fst js = cs))"

lemma fw_then_steps:
  assumes "fw_steps x w cs" "\<And>w'. fw_ok w' \<Longrightarrow> fw_steps (f w') w' ds"
  shows "fw_steps (fw_then x f) w (ds @ cs)"
  unfolding fw_steps_def
proof (intro allI impI)
  fix w2
  assume "fw_then x f = Some (Inr w2)"
  then obtain w1 where w1: "x = Some (Inr w1)" "f w1 = Some (Inr w2)"
    by (auto simp: fw_then_def split: option.split_asm sum.split_asm)
  obtain ps js where ps: "fw_step ps js w w1" "map fst js = cs" using assms(1) w1(1) by (auto simp: fw_steps_def)
  then obtain qs ks where qs: "fw_step qs ks w1 w2" "map fst ks = ds"
    using assms(2) [of w1] w1(2) by (auto simp: fw_steps_def fw_step_def)
  have "map fst (ks @ map (\<lambda>(c, rs). (c, rs @ qs)) js) = ds @ cs" using ps(2) qs(2) by (auto simp: comp_def case_prod_beta)
  then show "\<exists>ps js. fw_step ps js w w2 \<and> map fst js = ds @ cs" using fw_step_trans [OF ps(1) qs(1)] by blast
qed

lemma fw_stay_steps: "fw_ok w \<Longrightarrow> fw_steps (Some (Inr w)) w []"
  using fw_step_refl by (fastforce simp: fw_steps_def)

lemma sf_dispatch_loop_ok:
  "sf_dispatch_loop p cs n = (cs', n') \<Longrightarrow> served (due [p] cs) cs' \<and> n' - int (length cs') = n - int (length cs)"
proof (induction p cs n arbitrary: cs' n' rule: sf_dispatch_loop.induct)
  case (2 p c cs n)
  obtain r k where w: "write_sf_packet p (cl_sock c) = (r, k)" by (cases "write_sf_packet p (cl_sock c)")
  show ?case
  proof (cases "0 \<le> r")
    case True
    obtain ds m where d: "sf_dispatch_loop p cs n = (ds, m)" by (cases "sf_dispatch_loop p cs n")
    then have "cs' = c\<lparr>cl_sock := k\<rparr> # ds" "n' = m" using "2.prems" w True by simp_all
    moreover have "broken (c\<lparr>cl_sock := k\<rparr>) \<Longrightarrow> broken c" using write_sf_packet_later [OF w] by (auto simp: broken_def)
    ultimately show ?thesis using "2.IH"(1) [OF w [symmetric] True d] write_sf_packet_full [OF w True]
      by (auto intro!: served.kept)
  next
    case False
    then have "broken c" using write_sf_packet_fails [OF w] by (simp add: broken_def)
    then show ?thesis using "2.IH"(2) [OF w [symmetric] False] "2.prems" w False by (auto intro: served.dropped)
  qed
qed (auto intro: served.none)

lemma check_serial_steps:
  assumes "fw_ok w"
  shows "\<exists>w'. check_serial w = Some (Inr w')" "fw_steps (check_serial w) w []"
proof -
  obtain p s where r: "read_serial_packet (fw_src w) = Some (p, s)" "source_ok s" "non_blocking s"
    "incoming (fw_src w) = (case p of None \<Rightarrow> [] | Some p \<Rightarrow> [p]) @ incoming s"
    using read_serial_packet_ok [of "fw_src w"] assms by (auto simp: fw_ok_def)
  show "\<exists>w'. check_serial w = Some (Inr w')" using r(1) by (simp add: check_serial_def Let_def)
  show "fw_steps (check_serial w) w []"
  proof (cases p)
    case None
    then have "check_serial w = Some (Inr (w\<lparr>fw_src := s\<rparr>))" using r(1) by (simp add: check_serial_def)
    moreover have "fw_step [] [] w (w\<lparr>fw_src := s\<rparr>)"
      using r assms None served_refl by (auto simp: fw_step_def fw_ok_def)
    ultimately show ?thesis by (fastforce simp: fw_steps_def)
  next
    case (Some q)
    let ?w1 = "w\<lparr>fw_src := s, packets_read := packets_read w + 1\<rparr>"
    obtain cs n where d: "sf_dispatch_loop q (clients w) (num_clients w) = (cs, n)"
      by (cases "sf_dispatch_loop q (clients w) (num_clients w)")
    have "check_serial w = Some (Inr (?w1\<lparr>clients := cs, num_clients := n\<rparr>))"
      using r(1) Some d by (simp add: check_serial_def sf_dispatch_packet_def)
    moreover have "fw_step [q] [] w (?w1\<lparr>clients := cs, num_clients := n\<rparr>)"
      using r assms Some sf_dispatch_loop_ok [OF d] by (auto simp: fw_step_def fw_ok_def)
    ultimately show ?thesis by (fastforce simp: fw_steps_def)
  qed
qed

text \<open>The clients of a round, or of several, that were accepted and completed the greeting, the last one first.\<close>

definition greeted :: "u32 \<Rightarrow> fw_event \<Rightarrow> client list" where
  "greeted platform e =
    (if ev_failed e \<or> \<not> ev_server e then []
     else case ev_accept e of None \<Rightarrow> []
       | Some (fd, k) \<Rightarrow> (case init_sf_source platform k of None \<Rightarrow> []
           | Some (r, k1) \<Rightarrow> if r < 0 then [] else [\<lparr>cl_fd = fd, cl_sock = k1\<rparr>]))"

definition joining :: "u32 \<Rightarrow> fw_event list \<Rightarrow> client list" where
  "joining platform es = concat (map (greeted platform) (rev es))"

lemma sf_new_client_steps:
  assumes "fw_ok w" "\<not> ev_failed e" "ev_server e" "ev_accept e = Some (fd, k)"
  shows "fw_steps (sf_new_client platform fd k w) w (greeted platform e)"
  unfolding fw_steps_def
proof (intro allI impI)
  fix w'
  assume "sf_new_client platform fd k w = Some (Inr w')"
  then obtain r k1 where r: "init_sf_source platform k = Some (r, k1)" "w' = (if r < 0 then w else sf_add_client fd k1 w)"
    by (auto simp: sf_new_client_def split: bind_splits)
  have g: "greeted platform e = (if r < 0 then [] else [\<lparr>cl_fd = fd, cl_sock = k1\<rparr>])"
    using assms(2-4) r(1) by (simp add: greeted_def)
  show "\<exists>ps js. fw_step ps js w w' \<and> map fst js = greeted platform e"
  proof (cases "r < 0")
    case True
    then show ?thesis using g r(2) fw_step_refl [OF assms(1)] by fastforce
  next
    case False
    have "served (due [] (\<lparr>cl_fd = fd, cl_sock = k1\<rparr> # clients w)) (\<lparr>cl_fd = fd, cl_sock = k1\<rparr> # clients w)"
      by (rule served_refl)
    then have "fw_step [] (due [] [\<lparr>cl_fd = fd, cl_sock = k1\<rparr>]) w w'"
      using assms(1) False r(2) by (simp add: fw_step_def fw_ok_def sf_add_client_def)
    then show ?thesis using g False by (intro exI conjI) (assumption, simp)
  qed
qed

lemma forward_packet_ok:
  assumes "source_ok (fw_src w)" "non_blocking (fw_src w)"
  shows "\<exists>x. forward_packet clock p w = Some x \<and> (\<forall>w'. x = Inr w' \<longrightarrow> source_ok (fw_src w') \<and> non_blocking (fw_src w')
    \<and> incoming (fw_src w') = incoming (fw_src w) \<and> packets_read w' = packets_read w \<and> clients w' = clients w
    \<and> num_clients w' = num_clients w)"
  using write_serial_packet_ok [OF assms, of "clock (packets_written w)" p] by (auto simp: forward_packet_def)

lemma sf_check_clients_loop_ok:
  "sf_check_clients_loop clock ready passed cs w = Some (Inr w') \<Longrightarrow> source_ok (fw_src w) \<Longrightarrow> non_blocking (fw_src w) \<Longrightarrow>
    num_clients w = int (length passed + length cs) \<Longrightarrow>
    fw_ok w' \<and> incoming (fw_src w') = incoming (fw_src w) \<and> packets_read w' = packets_read w
    \<and> (\<exists>ds. clients w' = rev passed @ ds \<and> served (due [] cs) ds)"
proof (induction cs arbitrary: passed w)
  case Nil
  then show ?case by (auto simp: fw_ok_def incoming_def intro: served.none)
next
  case (Cons c cs)
  show ?case
  proof (cases "cl_fd c \<in> ready")
    case False
    then have "sf_check_clients_loop clock ready (c # passed) cs w = Some (Inr w')" using Cons.prems(1) by simp
    from Cons.IH [OF this Cons.prems(2,3)] show ?thesis using Cons.prems(4) by (auto intro: served_same [simplified])
  next
    case True
    obtain p k where r: "read_sf_packet (cl_sock c) = Some (p, k)"
      using Cons.prems(1) True by (auto split: bind_splits)
    show ?thesis
    proof (cases p)
      case None
      then have "broken c" using read_sf_packet_later(1) [OF r] by (auto simp: broken_def)
      moreover have "sf_check_clients_loop clock ready passed cs (w\<lparr>num_clients := num_clients w - 1\<rparr>) = Some (Inr w')"
        using Cons.prems(1) True r None by simp
      note Cons.IH [OF this]
      ultimately show ?thesis using Cons.prems(2-4) by (auto intro: served.dropped)
    next
      case (Some q)
      obtain x where x: "forward_packet clock q w = Some x" "\<forall>w'. x = Inr w' \<longrightarrow> source_ok (fw_src w') \<and> non_blocking (fw_src w')
          \<and> incoming (fw_src w') = incoming (fw_src w) \<and> packets_read w' = packets_read w \<and> clients w' = clients w
          \<and> num_clients w' = num_clients w"
        using forward_packet_ok [OF Cons.prems(2,3)] by blast
      obtain w1 where w1: "x = Inr w1" using Cons.prems(1) True r Some x(1) by (cases x) (auto simp: fw_then_def)
      have e: "sf_check_clients_loop clock ready (c\<lparr>cl_sock := k\<rparr> # passed) cs w1 = Some (Inr w')"
        using Cons.prems(1) True r Some x(1) w1 by (simp add: fw_then_def)
      have w1_ok: "source_ok (fw_src w1)" "non_blocking (fw_src w1)" "num_clients w1 = int (length (c\<lparr>cl_sock := k\<rparr> # passed) + length cs)"
        "incoming (fw_src w1) = incoming (fw_src w)" "packets_read w1 = packets_read w"
        using x(2) w1 Cons.prems(4) by simp_all
      obtain ds where ds: "clients w' = rev (c\<lparr>cl_sock := k\<rparr> # passed) @ ds" "served (due [] cs) ds" "fw_ok w'"
        "incoming (fw_src w') = incoming (fw_src w1)" "packets_read w' = packets_read w1"
        using Cons.IH [OF e w1_ok(1-3)] by blast
      have "broken (c\<lparr>cl_sock := k\<rparr>) \<Longrightarrow> broken c" using read_sf_packet_later [OF r] by (auto simp: broken_def)
      then have "served (due [] (c # cs)) (c\<lparr>cl_sock := k\<rparr> # ds)"
        using ds(2) read_sf_packet_out [OF r] by (auto intro!: served.kept)
      then show ?thesis using ds w1_ok(4,5) by auto
    qed
  qed
qed

lemma sf_check_clients_steps:
  assumes "fw_ok w"
  shows "fw_steps (sf_check_clients clock ready w) w []"
  unfolding fw_steps_def
proof (intro allI impI)
  fix w'
  assume "sf_check_clients clock ready w = Some (Inr w')"
  then have "fw_step [] [] w w'"
    using sf_check_clients_loop_ok [of clock ready "[]" "clients w" w w'] assms
    by (auto simp: sf_check_clients_def fw_step_def fw_ok_def)
  then show "\<exists>ps js. fw_step ps js w w' \<and> map fst js = []" by fastforce
qed

lemma fw_round_steps:
  assumes ok: "fw_ok w"
  shows "fw_steps (fw_round platform clock e w) w (greeted platform e)"
proof (cases "ev_failed e")
  case True
  then have "fw_steps (fw_round platform clock e w) w ([] @ [])"
    unfolding fw_round_def by (intro fw_then_steps) (auto simp: ok intro: fw_stay_steps check_serial_steps)
  then show ?thesis using True by (simp add: greeted_def)
next
  case False
  have new: "fw_steps (if ev_server e then
                   (case ev_accept e of None \<Rightarrow> Some (Inr w2) | Some (fd, k) \<Rightarrow> sf_new_client platform fd k w2)
                 else Some (Inr w2)) w2 (greeted platform e)" if "fw_ok w2" for w2
    using sf_new_client_steps [OF that False] fw_stay_steps [OF that]
    by (cases "ev_accept e") (auto simp: greeted_def)
  have "fw_steps (fw_round platform clock e w) w ((([] @ greeted platform e) @ []) @ [])"
    unfolding fw_round_def if_not_P [OF False]
    by (intro fw_then_steps new sf_check_clients_steps) (auto simp: ok intro: fw_stay_steps check_serial_steps)
  then show ?thesis by simp
qed

lemma fw_rounds_steps: "fw_ok w \<Longrightarrow> fw_steps (fw_rounds platform clock es w) w (joining platform es)"
proof (induction es arbitrary: w)
  case (Cons e es)
  show ?case using fw_then_steps [OF fw_round_steps [OF Cons.prems] Cons.IH] by (simp add: joining_def)
qed (simp add: fw_stay_steps joining_def)

section \<open>Properties\<close>

text \<open>
  C32: on a socket, however its reads and writes cut up the bytes, what one side writes as a packet the other reads as
  that packet and no byte more, provided it has less than 256 bytes; of a longer one only the length modulo 256 is
  written, and the write is reported as a success.
\<close>

theorem sf_packet_round_trip:
  assumes "W_Error \<notin> set (sk_writes a)" "clean (sk_in b)"
  shows "\<exists>a' bs. write_sf_packet p a = (0, a') \<and> sk_out a' = sk_out a @ bs
    \<and> (\<forall>rest. sock_bytes b = bs @ rest \<longrightarrow>
         (\<exists>b'. read_sf_packet b = Some (Some (if length p < 256 then p else take (length p mod 256) p), b') \<and> sock_bytes b' = rest))"
proof -
  obtain a' where a: "write_sf_packet p a = (0, a')" "sk_out a' = sk_out a @ on_socket p"
    using write_sf_packet_ok [OF assms(1)] by blast
  have e: "take (length p mod 256) p = (if length p < 256 then p else take (length p mod 256) p)" by simp
  have "\<exists>b'. read_sf_packet b = Some (Some (take (length p mod 256) p), b') \<and> sock_bytes b' = rest"
    if "sock_bytes b = on_socket p @ rest" for rest
    using read_sf_packet_ok [OF assms(2) that] by blast
  then show ?thesis unfolding e [symmetric] using a by blast
qed

theorem sf_packet_round_trip_witness:
  "\<exists>a' b'. write_sf_packet [1, 2] \<lparr>sk_in = [], sk_writes = [W_Wrote 1, W_Intr, W_Wrote 1], sk_out = []\<rparr> = (0, a')
    \<and> read_sf_packet \<lparr>sk_in = [SR_Intr, SR_Data (take 2 (sk_out a')), SR_Data (drop 2 (sk_out a') @ [7])], sk_writes = [], sk_out = []\<rparr>
      = Some (Some [1, 2], b') \<and> sock_bytes b' = [7]"
proof -
  let ?b = "\<lambda>bs. \<lparr>sk_in = [SR_Intr, SR_Data (take 2 bs), SR_Data (drop 2 bs @ [7])], sk_writes = [], sk_out = []\<rparr>"
  have b: "clean (sk_in (?b bs))" "sock_bytes (?b bs) = bs @ [7]" for bs
    by (simp_all add: clean_def sock_bytes_def sock_data_def)
  let ?a = "\<lparr>sk_in = [], sk_writes = [W_Wrote 1, W_Intr, W_Wrote 1], sk_out = []\<rparr>"
  have a: "W_Error \<notin> set (sk_writes ?a)" by simp
  obtain a' bs where w: "write_sf_packet [1, 2] ?a = (0, a')" "sk_out a' = sk_out ?a @ bs"
    using sf_packet_round_trip [OF a b(1), of "[1, 2]" "[]"] by blast
  obtain a2 bs2 where r: "write_sf_packet [1, 2] ?a = (0, a2)" "sk_out a2 = sk_out ?a @ bs2"
    "\<forall>rest. sock_bytes (?b bs) = bs2 @ rest \<longrightarrow> (\<exists>b'. read_sf_packet (?b bs) = Some (Some [1, 2], b') \<and> sock_bytes b' = rest)"
    using sf_packet_round_trip [OF a b(1), of "[1, 2]" bs] by auto
  have "bs2 = bs" using w r(1,2) by simp
  then show ?thesis using w r(3) b(2) [of bs] by auto
qed

text \<open>
  C15: in every run of the forwarder no packet of the mote is lost, doubled or put out of order: what it took from the serial
  source was written, packet by packet, to every client that was there, and to every client that was accepted and completed the
  greeting from the moment it joined. A client is missing at the end only if its connection went wrong, no other client is there,
  and the numbers of clients and of packets read are right.
\<close>

theorem forwarder_serves_clients:
  assumes "fw_ok w" "fw_rounds platform clock es w = Some (Inr w')"
  shows "\<exists>ps js. incoming (fw_src w) = ps @ incoming (fw_src w') \<and> packets_read w' = packets_read w + int (length ps)
    \<and> map fst js = joining platform es \<and> (\<forall>(c, qs) \<in> set js. suffix qs ps)
    \<and> served (js @ map (\<lambda>c. (c, ps)) (clients w)) (clients w') \<and> num_clients w' = int (length (clients w'))"
proof -
  obtain ps js where "fw_step ps js w w'" "map fst js = joining platform es"
    using fw_rounds_steps [OF assms(1), of platform clock es] assms(2) by (auto simp: fw_steps_def)
  then show ?thesis unfolding fw_step_def fw_ok_def by blast
qed

definition sample_forwarder :: forwarder where
  "sample_forwarder = \<lparr>fw_src = sample_source True [R_Data (frame [P_PACKET_NO_ACK, 9, 8, 7])], packets_read = 0, packets_written = 0,
     num_clients = 1, clients = [\<lparr>cl_fd = 5, cl_sock = \<lparr>sk_in = [SR_Data [2, 1]], sk_writes = [W_Wrote 1], sk_out = []\<rparr>\<rparr>]\<rparr>"

definition sample_event :: "int set \<Rightarrow> fw_event" where
  "sample_event ready = \<lparr>ev_failed = False, ev_serial = True, ev_server = False, ev_accept = None, ev_ready = ready\<rparr>"

lemma sample_forwarder_ok: "fw_ok sample_forwarder"
  using sample_source_ok(1,2) by (simp add: fw_ok_def sample_forwarder_def)

theorem forwarder_serves_clients_witness:
  "\<exists>w' ps. fw_rounds 1 (\<lambda>_. clear_timeval) [sample_event {}] sample_forwarder = Some (Inr w')
    \<and> incoming (fw_src sample_forwarder) = ps @ incoming (fw_src w') \<and> packets_read w' = int (length ps)
    \<and> (\<exists>c \<in> set (clients w'). cl_fd c = 5 \<and> sk_out (cl_sock c) = concat (map on_socket ps))"
proof -
  have e: "serial_source_empty (fw_src sample_forwarder)"
    by (simp add: sample_forwarder_def sample_source_def serial_source_empty_def packet_available_def)
  obtain w1 where w1: "check_serial sample_forwarder = Some (Inr w1)" using check_serial_steps(1) [OF sample_forwarder_ok] by blast
  have "sf_check_clients_loop clock {} passed cs w = Some (Inr (w\<lparr>clients := rev passed @ cs\<rparr>))" for clock passed cs w
    by (induction cs arbitrary: passed) simp_all
  then have "fw_rounds 1 (\<lambda>_. clear_timeval) [sample_event {}] sample_forwarder = Some (Inr (w1\<lparr>clients := clients w1\<rparr>))"
    using w1 e by (simp add: fw_round_def fw_then_def sample_event_def sf_check_clients_def)
  then obtain w' where w': "fw_rounds 1 (\<lambda>_. clear_timeval) [sample_event {}] sample_forwarder = Some (Inr w')" by blast
  obtain ps js where "incoming (fw_src sample_forwarder) = ps @ incoming (fw_src w')"
    "packets_read w' = packets_read sample_forwarder + int (length ps)" "map fst js = joining 1 [sample_event {}]"
    "served (js @ map (\<lambda>c. (c, ps)) (clients sample_forwarder)) (clients w')"
    using forwarder_serves_clients [OF sample_forwarder_ok w'] by blast
  moreover have "joining 1 [sample_event {}] = []" by (simp add: joining_def greeted_def sample_event_def)
  moreover have "\<not> broken c" if "c \<in> set (clients sample_forwarder)" for c
    using that by (simp add: sample_forwarder_def broken_def clean_def)
  ultimately show ?thesis
    using w' served_stays [of "map (\<lambda>c. (c, ps)) (clients sample_forwarder)" "clients w'" "hd (clients sample_forwarder)" ps]
    by (auto simp: sample_forwarder_def)
qed

text \<open>
  A client that has sent a part of a packet stops the forwarder for all of them: the read of the rest waits without a
  limit, whatever else is ready.
\<close>

theorem forwarder_stopped_by_client:
  assumes "clients w = pre @ c # post" "\<forall>d \<in> set pre. cl_fd d \<notin> ready" "cl_fd c \<in> ready" "clean (sk_in (cl_sock c))"
    and "sock_bytes (cl_sock c) = l # part" "length part < unat l"
  shows "sf_check_clients clock ready w = None"
proof -
  obtain k1 where k1: "saferead 1 (cl_sock c) = Some (1, [l], k1)" "sock_bytes k1 = part" "clean (sk_in k1)"
    using saferead_ok [OF assms(4), of 1] assms(5) by auto
  have "saferead (unat l) k1 = None" using saferead_blocks [OF k1(3)] k1(2) assms(6) by simp
  then have n: "read_sf_packet (cl_sock c) = None" using k1(1) by (simp add: read_sf_packet_def get8_def)
  have "sf_check_clients_loop clock ready passed (pre @ c # post) w = None" for passed
    using assms(2) by (induction pre arbitrary: passed) (simp_all add: assms(3) n)
  then show ?thesis by (simp add: sf_check_clients_def assms(1))
qed

theorem forwarder_stopped_by_client_witness:
  "sf_check_clients (\<lambda>_. clear_timeval) {5} sample_forwarder = None"
  using forwarder_stopped_by_client [of sample_forwarder "[]" "\<lparr>cl_fd = 5, cl_sock = \<lparr>sk_in = [SR_Data [2, 1]], sk_writes = [W_Wrote 1], sk_out = []\<rparr>\<rparr>"
      "[]" "{5}" 2 "[1]" "\<lambda>_. clear_timeval"]
  by (simp add: sample_forwarder_def clean_def sock_bytes_def sock_data_def)

end
