(* ===== verification/Run_Length.thy ===== *)
theory Run_Length
  imports Prelude
begin

text \<open>
  The run-length codes for images: the programs that try them out (src/devel/image/rle) and the decoders of the application that
  collects images (src/apps/imaging/imaging.c). A file is the list of its numbers; how numbers are written as text is left out.
  The encoders with a threshold give up exactness: a number comes back with an error of at most twice the threshold.
\<close>

section \<open>Constants\<close>

definition MIN_RUN :: nat where [consts_defs]: "MIN_RUN = 2"
definition MAX_RUN :: nat where [consts_defs]: "MAX_RUN = 128"
definition BUF_SIZE :: nat where [consts_defs]: "BUF_SIZE = 65536"

section \<open>PackBits\<close>

text \<open>The numbers read while a run goes on: its length, what is left, and the number that ended it.\<close>

fun scan_run :: "u8 \<Rightarrow> nat \<Rightarrow> bytes \<Rightarrow> nat \<times> bytes \<times> u8 option" where
  "scan_run val runlen [] = (runlen, [], None)"
| "scan_run val runlen (x # xs) =
    (if x \<noteq> val then (runlen, xs, Some x)
     else if MAX_RUN = runlen + 1 then (runlen + 1, xs, None)
     else scan_run val (runlen + 1) xs)"

lemma scan_run_shorter: "scan_run v n xs = (m, rest, nxt) \<Longrightarrow> length rest \<le> length xs"
  by (induction v n xs rule: scan_run.induct) (auto split: if_split_asm)

definition write_last :: "bytes \<Rightarrow> bytes" where
  "write_last buf =
    (if length buf = 0 then []
     else if length buf \<le> MAX_RUN then of_nat (length buf - 1) # buf
     else of_nat (MAX_RUN - 1) # take MAX_RUN buf @ of_nat (length buf - MAX_RUN - 1) # drop MAX_RUN buf)"

function packbit_encode :: "bytes \<Rightarrow> bytes \<Rightarrow> bytes" where
  "packbit_encode buf [] = write_last buf"
| "packbit_encode buf (val # xs) =
    (let prev = buf @ [val]; runlen = length prev in
     if runlen \<ge> MIN_RUN \<and> val = prev ! (runlen - MIN_RUN) then
       (case scan_run val MIN_RUN xs of (m, rest, nxt) \<Rightarrow>
          (if runlen > MIN_RUN then of_nat (runlen - MIN_RUN - 1) # take (runlen - MIN_RUN) prev else [])
          @ (1 - of_nat m) # val # packbit_encode (case nxt of None \<Rightarrow> [] | Some x \<Rightarrow> [x]) rest)
     else if runlen = MAX_RUN + 1 then
       of_nat (MAX_RUN - 1) # take MAX_RUN prev @ packbit_encode [prev ! MAX_RUN] xs
     else packbit_encode prev xs)"
  by pat_completeness auto
termination
  by (relation "measure (\<lambda>(buf, xs). length xs)") (auto dest!: scan_run_shorter [OF sym])

text \<open>A block that is too short is copied as far as it goes.\<close>

function packbit_decode :: "bytes \<Rightarrow> bytes" where
  "packbit_decode [] = []"
| "packbit_decode (b # bs) =
    (if sint b < 0 then (case bs of [] \<Rightarrow> [] | v # rest \<Rightarrow> replicate (nat (1 - sint b)) v @ packbit_decode rest)
     else take (nat (1 + sint b)) bs @ packbit_decode (drop (nat (1 + sint b)) bs))"
  by pat_completeness auto
termination
  by (relation "measure length") auto

section \<open>PackBits with a threshold\<close>

definition max8 :: "u8 \<Rightarrow> u8 \<Rightarrow> u8" where
  "max8 a b = (if a > b then a else b)"

definition min8 :: "u8 \<Rightarrow> u8 \<Rightarrow> u8" where
  "min8 a b = (if a > b then b else a)"

text \<open>The limits are computed in an \<open>int\<close> and cut to a byte when they are passed on.\<close>

definition within :: "int \<Rightarrow> u8 \<Rightarrow> u8 \<Rightarrow> bool" where
  "within thresh p val \<longleftrightarrow> val \<le> max8 p (p + word_of_int thresh) \<and> val \<ge> min8 p (p - word_of_int thresh)"

fun scan_run_t :: "int \<Rightarrow> u8 \<Rightarrow> nat \<Rightarrow> nat \<Rightarrow> bytes \<Rightarrow> nat \<times> nat \<times> bytes \<times> u8 option" where
  "scan_run_t t val runlen tot [] = (runlen, tot, [], None)"
| "scan_run_t t val runlen tot (x # xs) =
    (if \<not> within t val x then (runlen, tot, xs, Some x)
     else if MAX_RUN = runlen + 1 then (runlen + 1, tot + unat x, xs, None)
     else scan_run_t t val (runlen + 1) (tot + unat x) xs)"

lemma scan_run_t_shorter: "scan_run_t t v n s xs = (m, s', rest, nxt) \<Longrightarrow> length rest \<le> length xs"
  by (induction t v n s xs rule: scan_run_t.induct) (auto split: if_split_asm)

function packbit_encode_t :: "int \<Rightarrow> bytes \<Rightarrow> bytes \<Rightarrow> bytes" where
  "packbit_encode_t t buf [] = write_last buf"
| "packbit_encode_t t buf (val # xs) =
    (let prev = buf @ [val]; runlen = length prev; p = prev ! (runlen - MIN_RUN) in
     if runlen \<ge> MIN_RUN \<and> within t p val then
       (case scan_run_t t p MIN_RUN (unat p + unat val) xs of (m, tot, rest, nxt) \<Rightarrow>
          (if runlen > MIN_RUN then of_nat (runlen - MIN_RUN - 1) # take (runlen - MIN_RUN) prev else [])
          @ (1 - of_nat m) # of_nat (tot div m) # packbit_encode_t t (case nxt of None \<Rightarrow> [] | Some x \<Rightarrow> [x]) rest)
     else if runlen = MAX_RUN + 1 then
       of_nat (MAX_RUN - 1) # take MAX_RUN prev @ packbit_encode_t t [prev ! MAX_RUN] xs
     else packbit_encode_t t prev xs)"
  by pat_completeness auto
termination
  by (relation "measure (\<lambda>(t, buf, xs). length xs)") (auto dest!: scan_run_t_shorter [OF sym])

section \<open>The decoder of the application\<close>

text \<open>\<open>None\<close> is the end of the program with a message. A byte that is left alone at the end is not looked at.\<close>

function decode_loop :: "bytes \<Rightarrow> bytes \<Rightarrow> bytes option" where
  "decode_loop out inp =
    (case inp of
       b # v # rest \<Rightarrow>
         (if sint b = -128 then decode_loop out (v # rest)
          else if sint b < 0 then
            (if length out + nat (1 - sint b) \<ge> BUF_SIZE then None
             else decode_loop (out @ replicate (nat (1 - sint b)) v) rest)
          else if length out + min (nat (1 + sint b)) (length (v # rest)) \<ge> BUF_SIZE then None
          else decode_loop (out @ take (nat (1 + sint b)) (v # rest)) (drop (nat (1 + sint b)) (v # rest)))
     | _ \<Rightarrow> Some out)"
  by pat_completeness auto
termination
  by (relation "measure (\<lambda>(out, inp). length inp)") (auto simp: nat_add_distrib)

declare decode_loop.simps [simp del]

definition decode_packbits :: "bytes \<Rightarrow> bytes option" where
  "decode_packbits inp = (if length inp > BUF_SIZE then None else decode_loop [] inp)"

section \<open>The simple code\<close>

text \<open>A run is its value and its length. Without any input the code writes two bytes that were never set.\<close>

fun simple_loop :: "u8 \<Rightarrow> nat \<Rightarrow> bytes \<Rightarrow> bytes" where
  "simple_loop prev runlen [] = [prev, of_nat runlen]"
| "simple_loop prev runlen (val # xs) =
    (if val = prev then
       (if runlen = 254 then prev # of_nat runlen # simple_loop prev 1 xs else simple_loop prev (runlen + 1) xs)
     else prev # of_nat runlen # simple_loop val 1 xs)"

definition simple_encode :: "bytes \<Rightarrow> bytes option" where
  "simple_encode xs = (case xs of [] \<Rightarrow> None | val # rest \<Rightarrow> Some (simple_loop val 1 rest))"

fun simple_loop_t :: "int \<Rightarrow> u8 \<Rightarrow> nat \<Rightarrow> nat \<Rightarrow> bytes \<Rightarrow> bytes" where
  "simple_loop_t t prev runlen tot [] = [of_nat (tot div runlen), of_nat runlen]"
| "simple_loop_t t prev runlen tot (val # xs) =
    (if within t prev val then
       (if runlen = 254 then of_nat (tot div runlen) # of_nat runlen # simple_loop_t t val 1 (unat val) xs
        else simple_loop_t t prev (runlen + 1) (tot + unat val) xs)
     else of_nat (tot div runlen) # of_nat runlen # simple_loop_t t val 1 (unat val) xs)"

definition simple_encode_t :: "int \<Rightarrow> bytes \<Rightarrow> bytes option" where
  "simple_encode_t t xs = (case xs of [] \<Rightarrow> None | val # rest \<Rightarrow> Some (simple_loop_t t val 1 (unat val) rest))"

fun simple_decode :: "bytes \<Rightarrow> bytes" where
  "simple_decode (val # runlen # rest) = replicate (unat runlen) val @ simple_decode rest"
| "simple_decode _ = []"

text \<open>
  The decoder of the application writes into the rest of a buffer, \<open>room\<close> bytes; \<open>None\<close> is a read behind the input or a write
  behind the buffer. Its own limit stops it only after more than \<open>BUF_SIZE\<close> bytes.
\<close>

fun decode_rle_loop :: "nat \<Rightarrow> bytes \<Rightarrow> bytes \<Rightarrow> bytes option" where
  "decode_rle_loop room out [] = Some out"
| "decode_rle_loop room out [val] = None"
| "decode_rle_loop room out (val # runlen # rest) =
    (let n = length out + unat runlen
     in if min n (BUF_SIZE + 1) > room then None
        else if n > BUF_SIZE then Some (take (BUF_SIZE + 1) (out @ replicate (unat runlen) val))
        else decode_rle_loop room (out @ replicate (unat runlen) val) rest)"

definition decode_rle :: "nat \<Rightarrow> bytes \<Rightarrow> bytes option" where
  "decode_rle room inp = decode_rle_loop room [] inp"

section \<open>PackBits comes back\<close>

lemma sint_small: "n < 128 \<Longrightarrow> sint (of_nat n :: u8) = int n"
  by (simp add: sint_u8 unat_of_nat_u8)

lemma sint_neg: "1 \<le> n \<Longrightarrow> n \<le> 128 \<Longrightarrow> sint (- of_nat n :: u8) = - int n"
proof -
  assume n: "1 \<le> n" "n \<le> 128"
  have "(of_nat (256 - n) :: u8) = - of_nat n" using n by (subst of_nat_diff) simp_all
  then have "unat (- of_nat n :: u8) = (256 - n) mod 256" using unat_of_nat_u8 [of "256 - n"] by (simp only:)
  then show ?thesis using n by (simp add: sint_u8)
qed

lemma sint_run: "2 \<le> m \<Longrightarrow> m \<le> 128 \<Longrightarrow> sint (1 - of_nat m :: u8) = 1 - int m"
  using sint_neg [of "m - 1"] by (simp add: of_nat_diff)

lemma decode_copy:
  assumes "1 \<le> length bs" "length bs \<le> 128"
  shows "packbit_decode (of_nat (length bs - 1) # bs @ rest) = bs @ packbit_decode rest"
proof -
  obtain k where k: "length bs = Suc k" "k < 128" using assms by (cases "length bs") auto
  have "sint (of_nat k :: u8) = int k" using sint_small [OF k(2)] .
  then have "packbit_decode (of_nat k # bs @ rest) = take (Suc k) (bs @ rest) @ packbit_decode (drop (Suc k) (bs @ rest))"
    by (simp add: nat_add_distrib)
  then show ?thesis using k(1) by simp
qed

lemma decode_run:
  assumes "2 \<le> m" "m \<le> 128"
  shows "packbit_decode ((1 - of_nat m) # v # rest) = replicate m v @ packbit_decode rest"
  using sint_run [OF assms] assms by simp

text \<open>A scan splits what is there into the run, the number behind it and the rest.\<close>

definition opt_list :: "'a option \<Rightarrow> 'a list" where
  "opt_list x = (case x of None \<Rightarrow> [] | Some a \<Rightarrow> [a])"

lemma scan_run_t_ok:
  "scan_run_t t v n s xs = (m, s', rest, nxt) \<Longrightarrow> n < 128 \<Longrightarrow>
    n \<le> m \<and> m \<le> 128 \<and> (\<exists>run. xs = run @ opt_list nxt @ rest \<and> length run = m - n \<and> (\<forall>x \<in> set run. within t v x)
      \<and> s' = s + sum_list (map unat run))"
proof (induction t v n s xs rule: scan_run_t.induct)
  case (1 t v n s)
  then show ?case by (auto simp: opt_list_def)
next
  case (2 t v n s x xs)
  show ?case
  proof (cases "\<not> within t v x")
    case True
    then show ?thesis using 2 by (auto simp: opt_list_def)
  next
    case w: False
    show ?thesis
    proof (cases "MAX_RUN = n + 1")
      case True
      then show ?thesis using 2 w by (auto simp: opt_list_def MAX_RUN_def intro!: exI [of _ "[x]"])
    next
      case False
      then have "n + 1 < 128" using 2(3) by (simp add: MAX_RUN_def)
      from 2(1) [OF _ False _ this] 2(2) w False obtain run where r: "n + 1 \<le> m" "m \<le> 128" "xs = run @ opt_list nxt @ rest"
        "length run = m - (n + 1)" "\<forall>x \<in> set run. within t v x" "s' = s + unat x + sum_list (map unat run)"
        by auto
      then show ?thesis using w by (auto intro!: exI [of _ "x # run"])
    qed
  qed
qed

text \<open>With the threshold 0 the programs do the same.\<close>

lemma within_zero: "within 0 p x \<longleftrightarrow> x = p"
  by (auto simp: within_def max8_def min8_def)

lemma scan_run_zero: "\<exists>s'. scan_run_t 0 v n s xs = (case scan_run v n xs of (m, rest, nxt) \<Rightarrow> (m, s', rest, nxt))
    \<and> (s = n * unat v \<longrightarrow> (case scan_run v n xs of (m, rest, nxt) \<Rightarrow> s' = m * unat v))"
proof (induction v n xs arbitrary: s rule: scan_run.induct)
  case (2 v n x xs)
  show ?case
  proof (cases "x = v \<and> MAX_RUN \<noteq> n + 1")
    case True
    then show ?thesis using 2(1) [of "s + unat v"] by (auto simp: within_zero add.commute)
  next
    case False
    then show ?thesis by (auto simp: within_zero) (metis add.commute mult_Suc)
  qed
qed simp

lemma write_last_decode:
  assumes "length buf \<le> 128"
  shows "packbit_decode (write_last buf) = buf"
  using decode_copy [of buf "[]"] assms by (cases "buf = []") (simp_all add: write_last_def MAX_RUN_def Suc_le_eq)

definition close_to :: "int \<Rightarrow> u8 \<Rightarrow> u8 \<Rightarrow> bool" where
  "close_to d a b \<longleftrightarrow> \<bar>uint a - uint b\<bar> \<le> d"

lemma close_to_refl: "0 \<le> d \<Longrightarrow> list_all2 (close_to d) xs xs"
  by (simp add: list_all2_same close_to_def)

text \<open>The limits do not wrap to the other side, and an average of numbers within them is within them.\<close>

lemma uint_word_of_int_u8: "uint (word_of_int k :: u8) = k mod 256"
  by (simp add: unsigned_of_int take_bit_eq_mod)

lemma within_bounds:
  assumes "within t p x" "0 \<le> t"
  shows "uint p - t \<le> uint x" "uint x \<le> uint p + t"
proof -
  have p: "0 \<le> uint p" "uint p < 256" using uint_bounded [of p] by simp_all
  have "uint (p + word_of_int t) = (uint p + t) mod 256" using uint_word_of_int_u8 [of "uint p + t"] by simp
  then have hi: "uint (p + word_of_int t) \<le> uint p + t" using p(1) assms(2) by (simp add: zmod_le_nonneg_dividend)
  have "uint (p - word_of_int t) = (uint p - t) mod 256" using uint_word_of_int_u8 [of "uint p - t"] by simp
  then have lo: "uint p - t \<le> uint (p - word_of_int t)"
    using p assms(2) by (cases "t \<le> uint p") simp_all
  show "uint p - t \<le> uint x" "uint x \<le> uint p + t"
    using assms(1,2) hi lo by (auto simp: within_def max8_def min8_def word_le_def word_less_def split: if_split_asm)
qed

lemma average_bounds:
  fixes xs :: bytes
  assumes "\<forall>x \<in> set xs. lo \<le> uint x \<and> uint x \<le> hi" "xs \<noteq> []"
  shows "lo \<le> uint (of_nat (sum_list (map unat xs) div length xs) :: u8)" "uint (of_nat (sum_list (map unat xs) div length xs) :: u8) \<le> hi"
proof -
  let ?n = "int (length xs)" and ?s = "int (sum_list (map unat xs))"
  have s: "lo * ?n \<le> ?s \<and> ?s \<le> hi * ?n \<and> ?s \<le> 255 * ?n" using assms(1)
  proof (induction xs)
    case (Cons x xs)
    have "uint x < 256" using uint_bounded [of x] by simp
    then have "int (unat x) = uint x" "uint x \<le> 255" by simp_all
    then show ?case using Cons by (simp add: algebra_simps)
  qed simp
  have n: "0 < ?n" using assms(2) by simp
  have d: "int (sum_list (map unat xs) div length xs) = ?s div ?n" by (simp add: zdiv_int)
  have "?s div ?n \<le> 255" using s n zdiv_mono1 [of ?s "255 * ?n" ?n] by simp
  then have "sum_list (map unat xs) div length xs < 256" unfolding d [symmetric] by simp
  then have u: "uint (of_nat (sum_list (map unat xs) div length xs) :: u8) = ?s div ?n"
    unfolding d [symmetric] uint_nat unat_of_nat_u8 by simp
  have "lo = lo * ?n div ?n" "hi = hi * ?n div ?n" using n by simp_all
  then show "lo \<le> uint (of_nat (sum_list (map unat xs) div length xs) :: u8)"
    "uint (of_nat (sum_list (map unat xs) div length xs) :: u8) \<le> hi"
    unfolding u using s n zdiv_mono1 [of "lo * ?n" ?s ?n] zdiv_mono1 [of ?s "hi * ?n" ?n] by simp_all
qed

text \<open>A run and what it is decoded to.\<close>

lemma run_close:
  assumes "\<forall>x \<in> set run. within t p x" "0 \<le> t" "run \<noteq> []"
  shows "list_all2 (close_to (2 * t)) run (replicate (length run) (of_nat (sum_list (map unat run) div length run)))"
proof -
  have b: "\<forall>x \<in> set run. uint p - t \<le> uint x \<and> uint x \<le> uint p + t" using within_bounds assms(1,2) by blast
  note a = average_bounds [OF b assms(3)]
  have "close_to (2 * t) x (of_nat (sum_list (map unat run) div length run))" if "x \<in> set run" for x
    using a bspec [OF b that] unfolding close_to_def by linarith
  then show ?thesis by (simp add: list_all2_conv_all_nth)
qed

lemma within_self: "within t p p"
  by (auto simp: within_def max8_def min8_def not_less)

lemma two_last:
  assumes "MIN_RUN \<le> length (buf @ [val])"
  shows "buf @ [val] = take (length (buf @ [val]) - MIN_RUN) (buf @ [val]) @ [(buf @ [val]) ! (length (buf @ [val]) - MIN_RUN), val]"
proof -
  have "buf \<noteq> []" using assms by (auto simp: MIN_RUN_def)
  then obtain b x where "buf = b @ [x]" by (metis rev_exhaust)
  then show ?thesis by (simp add: MIN_RUN_def nth_append)
qed

lemma copy_head: "length bs \<le> 128 \<Longrightarrow>
  packbit_decode ((if 0 < length bs then of_nat (length bs - 1) # bs else []) @ rest) = bs @ packbit_decode rest"
  using decode_copy [of bs rest] by (simp add: Suc_le_eq)

section \<open>The structure of the code\<close>

text \<open>The blocks of a code and what they stand for: the numbers left at the end, a run behind some that are copied, a full copy.\<close>

inductive packed :: "int \<Rightarrow> bytes \<Rightarrow> bytes \<Rightarrow> bool" for t where
  at_end: "length buf \<le> 128 \<Longrightarrow> packed t buf (write_last buf)"
| a_run: "length k \<le> 127 \<Longrightarrow> 2 \<le> length run \<Longrightarrow> length run \<le> 128 \<Longrightarrow> \<forall>x \<in> set run. within t p x \<Longrightarrow> packed t xs code \<Longrightarrow>
    packed t (k @ run @ xs) ((if 0 < length k then of_nat (length k - 1) # k else [])
      @ (1 - of_nat (length run)) # of_nat (sum_list (map unat run) div length run) # code)"
| a_copy: "length k = 128 \<Longrightarrow> xs \<noteq> [] \<Longrightarrow> packed t xs code \<Longrightarrow> packed t (k @ xs) (127 # k @ code)"

lemma packbit_packed: "length buf \<le> 128 \<Longrightarrow> packed t (buf @ xs) (packbit_encode_t t buf xs)"
proof (induction "length xs" arbitrary: buf xs rule: less_induct)
  case less
  show ?case
  proof (cases xs)
    case Nil
    then show ?thesis using packed.at_end [OF less.prems] by simp
  next
    case (Cons val ys)
    define prev where "prev = buf @ [val]"
    define n where "n = length prev"
    define p where "p = prev ! (n - MIN_RUN)"
    have n: "n \<le> 129" "1 \<le> n" "buf @ xs = prev @ ys" using less.prems Cons by (simp_all add: n_def prev_def)
    have enc: "packbit_encode_t t buf xs = (if n \<ge> MIN_RUN \<and> within t p val then
       (case scan_run_t t p MIN_RUN (unat p + unat val) ys of (m, tot, rest, nxt) \<Rightarrow>
          (if n > MIN_RUN then of_nat (n - MIN_RUN - 1) # take (n - MIN_RUN) prev else [])
          @ (1 - of_nat m) # of_nat (tot div m) # packbit_encode_t t (opt_list nxt) rest)
     else if n = MAX_RUN + 1 then of_nat (MAX_RUN - 1) # take MAX_RUN prev @ packbit_encode_t t [prev ! MAX_RUN] ys
     else packbit_encode_t t prev ys)"
      unfolding Cons packbit_encode_t.simps(2) Let_def prev_def [symmetric] n_def [symmetric] p_def [symmetric] opt_list_def ..
    consider "MIN_RUN \<le> n" "within t p val" | "\<not> (MIN_RUN \<le> n \<and> within t p val)" "n = 129"
      | "\<not> (MIN_RUN \<le> n \<and> within t p val)" "n \<le> 128"
      using n(1) by linarith
    then show ?thesis
    proof cases
      case 1
      obtain m tot rest nxt where sc: "scan_run_t t p MIN_RUN (unat p + unat val) ys = (m, tot, rest, nxt)"
        by (cases "scan_run_t t p MIN_RUN (unat p + unat val) ys")
      obtain run where run: "2 \<le> m" "m \<le> 128" "ys = run @ opt_list nxt @ rest" "length run = m - 2"
        "\<forall>x \<in> set run. within t p x" "tot = unat p + unat val + sum_list (map unat run)"
        using scan_run_t_ok [OF sc] by (auto simp: MIN_RUN_def)
      define k where "k = take (n - MIN_RUN) prev"
      have k: "length k = n - MIN_RUN" "length k \<le> 128" using n(1) by (simp_all add: k_def n_def MIN_RUN_def)
      have split: "buf @ xs = k @ (p # val # run) @ opt_list nxt @ rest"
        using two_last [of buf val] 1(1) run(3) unfolding n(3) k_def p_def n_def prev_def by simp
      have full: "length (p # val # run) = m" "tot = sum_list (map unat (p # val # run))" using run by simp_all
      have w: "\<forall>x \<in> set (p # val # run). within t p x" using run(5) 1(2) within_self by simp
      have e: "packbit_encode_t t buf xs = (if 0 < length k then of_nat (length k - 1) # k else [])
          @ (1 - of_nat m) # of_nat (tot div m) # packbit_encode_t t (opt_list nxt) rest"
        unfolding enc k_def [symmetric] using 1 sc k(1) by (simp add: MIN_RUN_def)
      have "length rest < length xs" "length (opt_list nxt) \<le> 128"
        using run(3) Cons by (auto simp: opt_list_def split: option.split)
      note ih = less.hyps [OF this]
      have "length k \<le> 127" using k(1) n(1) by (simp add: MIN_RUN_def)
      from packed.a_run [OF this _ _ w ih] show ?thesis unfolding e split full using run(1,2) full by simp
    next
      case 2
      have p: "prev = take 128 prev @ [prev ! 128]" using 2(2) take_Suc_conv_app_nth [of 128 prev] by (simp add: n_def)
      have l: "length (take 128 prev) = 128" using 2(2) by (simp add: n_def)
      have e: "packbit_encode_t t buf xs = 127 # take 128 prev @ packbit_encode_t t [prev ! 128] ys"
        unfolding enc if_not_P [OF 2(1)] using 2(2) by (simp add: MAX_RUN_def)
      have "packed t ([prev ! 128] @ ys) (packbit_encode_t t [prev ! 128] ys)"
        by (rule less.hyps) (simp_all add: Cons)
      moreover have "buf @ xs = take 128 prev @ [prev ! 128] @ ys" unfolding n(3) by (subst p) simp
      ultimately show ?thesis unfolding e using packed.a_copy [OF l, of "[prev ! 128] @ ys"] by simp
    next
      case 3
      have "packed t (prev @ ys) (packbit_encode_t t prev ys)"
        by (rule less.hyps) (use 3 in \<open>simp_all add: Cons n_def\<close>)
      then show ?thesis unfolding enc n(3) using 3 by (auto simp: MAX_RUN_def)
    qed
  qed
qed

text \<open>What it decodes to, how long it is, and that the application decodes it as well.\<close>

lemma packed_close:
  assumes t: "0 \<le> t"
  shows "packed t xs code \<Longrightarrow> list_all2 (close_to (2 * t)) xs (packbit_decode code)"
proof (induction rule: packed.induct)
  case (at_end buf)
  then show ?case using write_last_decode close_to_refl [of "2 * t" buf] t by simp
next
  case (a_run k run p xs code)
  have d: "packbit_decode ((if 0 < length k then of_nat (length k - 1) # k else [])
      @ (1 - of_nat (length run)) # of_nat (sum_list (map unat run) div length run) # code)
    = k @ replicate (length run) (of_nat (sum_list (map unat run) div length run)) @ packbit_decode code"
    using copy_head [of k] a_run.hyps(1) decode_run [OF a_run.hyps(2,3)] by simp
  have "list_all2 (close_to (2 * t)) run (replicate (length run) (of_nat (sum_list (map unat run) div length run)))"
    by (rule run_close [OF a_run.hyps(4) t]) (use a_run.hyps(2) in auto)
  then show ?case unfolding d using a_run.IH close_to_refl [of "2 * t" k] t by (intro list_all2_appendI) simp_all
next
  case (a_copy k xs code)
  have "packbit_decode (127 # k @ code) = k @ packbit_decode code" using decode_copy [of k code] a_copy.hyps(1) by simp
  then show ?case using a_copy.IH close_to_refl [of "2 * t" k] t by (simp add: list_all2_appendI)
qed

lemma packed_length: "packed t xs code \<Longrightarrow> 3 * length code \<le> 4 * length xs + 2"
proof (induction rule: packed.induct)
  case (at_end buf)
  then show ?case by (cases buf) (auto simp: write_last_def MAX_RUN_def)
next
  case (a_run k run p xs code)
  moreover have "1 \<le> length k \<or> k = []" by (cases k) simp_all
  ultimately show ?case by auto
next
  case (a_copy k xs code)
  then show ?case by simp
qed

lemma close_to_length: "list_all2 (close_to d) xs ys \<Longrightarrow> length ys = length xs"
  by (simp add: list_all2_lengthD)

lemma close_to_zero: "list_all2 (close_to 0) xs ys \<Longrightarrow> ys = xs"
  by (auto simp: list_all2_conv_all_nth close_to_def intro!: nth_equalityI word_uint_eqI)

lemma decode_loop_more:
  assumes "b \<noteq> -128"
  shows "decode_loop out (b # v # rest) = (if sint b < 0 then
      (if length out + nat (1 - sint b) \<ge> BUF_SIZE then None else decode_loop (out @ replicate (nat (1 - sint b)) v) rest)
    else if length out + min (nat (1 + sint b)) (length (v # rest)) \<ge> BUF_SIZE then None
    else decode_loop (out @ take (nat (1 + sint b)) (v # rest)) (drop (nat (1 + sint b)) (v # rest)))"
proof -
  have "sint b \<noteq> -128"
  proof
    assume "sint b = -128"
    moreover have "b = word_of_int (sint b)" by simp
    ultimately have "b = word_of_int (-128)" by (simp only:)
    then show False using assms by simp
  qed
  then show ?thesis by (simp add: decode_loop.simps [of out])
qed

lemma decode_loop_copy:
  assumes "1 \<le> length bs" "length bs \<le> 128" "length out + length bs < BUF_SIZE"
  shows "decode_loop out (of_nat (length bs - 1) # bs @ rest) = decode_loop (out @ bs) rest"
proof -
  obtain k where k: "length bs = Suc k" "k < 128" using assms by (cases "length bs") auto
  obtain v bs' where b: "bs = v # bs'" using k(1) by (cases bs) auto
  have s: "sint (of_nat k :: u8) = int k" using sint_small [OF k(2)] .
  have n: "(of_nat k :: u8) \<noteq> -128"
  proof
    assume "(of_nat k :: u8) = -128"
    then have "sint (of_nat k :: u8) = -128" by simp
    then show False using s by simp
  qed
  have "nat (1 + int k) = Suc k" by simp
  then have "decode_loop out (of_nat k # bs @ rest) = decode_loop (out @ take (Suc k) (bs @ rest)) (drop (Suc k) (bs @ rest))"
    using decode_loop_more [OF n, of out v "bs' @ rest"] s k(1) assms(3) b by simp
  then show ?thesis using k(1) by simp
qed

lemma decode_loop_run:
  assumes "2 \<le> m" "m \<le> 128" "length out + m < BUF_SIZE"
  shows "decode_loop out ((1 - of_nat m) # v # rest) = decode_loop (out @ replicate m v) rest"
proof -
  note s = sint_run [OF assms(1,2)]
  have "(1 - of_nat m :: u8) \<noteq> -128"
  proof
    assume "(1 - of_nat m :: u8) = -128"
    then have "sint (1 - of_nat m :: u8) = -128" by simp
    then show False using s assms(1,2) by simp
  qed
  from decode_loop_more [OF this, of out v rest] show ?thesis using s assms by simp
qed

lemma packed_decode_loop:
  "packed t xs code \<Longrightarrow> length out + length xs < BUF_SIZE \<Longrightarrow> decode_loop out code = Some (out @ packbit_decode code)"
proof (induction arbitrary: out rule: packed.induct)
  case (at_end buf)
  have "decode_loop out (write_last buf) = Some (out @ buf)"
    using decode_loop_copy [of buf out "[]"] at_end
    by (cases "buf = []") (simp_all add: write_last_def MAX_RUN_def Suc_le_eq decode_loop.simps [of _ "[]"])
  then show ?case using write_last_decode [OF at_end(1)] by simp
next
  case (a_run k run p xs code)
  let ?v = "of_nat (sum_list (map unat run) div length run) :: u8"
  have l: "length out + length k < BUF_SIZE" "length (out @ k) + length run < BUF_SIZE" using a_run.prems by simp_all
  have "decode_loop out ((if 0 < length k then of_nat (length k - 1) # k else []) @ (1 - of_nat (length run)) # ?v # code)
      = decode_loop (out @ k) ((1 - of_nat (length run)) # ?v # code)"
    using decode_loop_copy [of k out] a_run.hyps(1) l(1) by (simp add: Suc_le_eq)
  also have "\<dots> = decode_loop ((out @ k) @ replicate (length run) ?v) code"
    by (rule decode_loop_run [OF a_run.hyps(2,3) l(2)])
  also have "\<dots> = Some (((out @ k) @ replicate (length run) ?v) @ packbit_decode code)"
    by (rule a_run.IH) (use a_run.prems in simp)
  finally show ?case using copy_head [of k] a_run.hyps(1) decode_run [OF a_run.hyps(2,3)] by simp
next
  case (a_copy k xs code)
  have "decode_loop out (127 # k @ code) = decode_loop (out @ k) code"
    using decode_loop_copy [of k out code] a_copy by simp
  also have "\<dots> = Some ((out @ k) @ packbit_decode code)" by (rule a_copy.IH) (use a_copy.prems in simp)
  finally show ?case using decode_copy [of k code] a_copy.hyps(1) by simp
qed

text \<open>The two encoders agree where the threshold is 0.\<close>

lemma packbit_zero: "packbit_encode_t 0 buf xs = packbit_encode buf xs"
proof (induction "length xs" arbitrary: buf xs rule: less_induct)
  case less
  show ?case
  proof (cases xs)
    case (Cons val ys)
    obtain m rest nxt where sc: "scan_run val MIN_RUN ys = (m, rest, nxt)" by (cases "scan_run val MIN_RUN ys")
    obtain s' where st: "scan_run_t 0 val MIN_RUN (unat val + unat val) ys = (m, s', rest, nxt)" "s' = m * unat val"
      using scan_run_zero [of val MIN_RUN "unat val + unat val" ys] sc by (auto simp: MIN_RUN_def)
    have m: "2 \<le> m" using scan_run_t_ok [OF st(1)] by (simp add: MIN_RUN_def)
    have ih: "packbit_encode_t 0 b rest = packbit_encode b rest" for b
      by (rule less.hyps) (use scan_run_shorter [OF sc] Cons in simp)
    have ih2: "packbit_encode_t 0 b ys = packbit_encode b ys" for b
      by (rule less.hyps) (simp add: Cons)
    have v: "(of_nat (s' div m) :: u8) = val" using st(2) m by simp
    show ?thesis
    proof (cases "val = (buf @ [val]) ! (length (buf @ [val]) - MIN_RUN)")
      case True
      then show ?thesis unfolding Cons packbit_encode_t.simps(2) packbit_encode.simps(2) Let_def True [symmetric] within_zero
        using sc st(1) v ih ih2 by simp
    next
      case False
      then show ?thesis unfolding Cons packbit_encode_t.simps(2) packbit_encode.simps(2) Let_def within_zero using ih2 by simp
    qed
  qed simp
qed

section \<open>The simple code comes back\<close>

text \<open>A run being counted is kept as its first value, its length and its sum.\<close>

lemma simple_decode_run:
  assumes "length r \<le> 254"
  shows "simple_decode (v # of_nat (length r) # code) = replicate (length r) v @ simple_decode code"
  using assms by (simp add: unat_of_nat_u8)

lemma simple_loop_t_close:
  assumes t: "0 \<le> t"
  shows "r \<noteq> [] \<Longrightarrow> length r \<le> 254 \<Longrightarrow> \<forall>x \<in> set r. within t p x \<Longrightarrow>
    list_all2 (close_to (2 * t)) (r @ xs) (simple_decode (simple_loop_t t p (length r) (sum_list (map unat r)) xs))"
proof (induction xs arbitrary: p r)
  case Nil
  then show ?case using run_close [OF Nil(3) t Nil(1)] by (simp add: unat_of_nat_u8)
next
  case (Cons x xs)
  have close: "list_all2 (close_to (2 * t)) r (replicate (length r) (of_nat (sum_list (map unat r) div length r)))"
    by (rule run_close [OF Cons.prems(3) t Cons.prems(1)])
  have one: "list_all2 (close_to (2 * t)) ([x] @ xs) (simple_decode (simple_loop_t t x 1 (unat x) xs))"
    using Cons.IH [of "[x]" x] by (simp add: within_self)
  show ?case
  proof (cases "within t p x \<and> length r \<noteq> 254")
    case True
    then have "list_all2 (close_to (2 * t)) ((r @ [x]) @ xs)
        (simple_decode (simple_loop_t t p (length (r @ [x])) (sum_list (map unat (r @ [x]))) xs))"
      by (intro Cons.IH) (use Cons.prems in auto)
    then show ?thesis using True by simp
  next
    case False
    then have "simple_loop_t t p (length r) (sum_list (map unat r)) (x # xs)
        = of_nat (sum_list (map unat r) div length r) # of_nat (length r) # simple_loop_t t x 1 (unat x) xs"
      by auto
    then show ?thesis using list_all2_appendI [OF close one] simple_decode_run [OF Cons.prems(2)] by simp
  qed
qed

lemma simple_loop_t_length: "length (simple_loop_t t p n s xs) \<le> 2 * length xs + 2" "even (length (simple_loop_t t p n s xs))"
  by (induction t p n s xs rule: simple_loop_t.induct) auto

lemma simple_loop_zero: "1 \<le> n \<Longrightarrow> simple_loop_t 0 p n (n * unat p) xs = simple_loop p n xs"
proof (induction xs arbitrary: p n)
  case (Cons x xs)
  have "(n + 1) * unat p = n * unat p + unat p" by simp
  then show ?case using Cons.IH [of "n + 1" p] Cons.IH [of 1 x] Cons.prems by (auto simp: within_zero add.commute)
qed simp

lemma simple_encode_zero: "simple_encode_t 0 xs = simple_encode xs"
  using simple_loop_zero [of 1] by (simp add: simple_encode_t_def simple_encode_def split: list.split)

lemma decode_rle_loop_ok:
  "even (length code) \<Longrightarrow> length out + length (simple_decode code) \<le> min BUF_SIZE room \<Longrightarrow>
    decode_rle_loop room out code = Some (out @ simple_decode code)"
proof (induction code arbitrary: out rule: simple_decode.induct)
  case (1 val n rest)
  have "decode_rle_loop room (out @ replicate (unat n) val) rest
      = Some ((out @ replicate (unat n) val) @ simple_decode rest)"
    by (rule "1.IH") (use "1.prems" in simp_all)
  then show ?case using "1.prems"(2) by (simp add: Let_def)
qed simp_all

lemma simple_encode_t_close:
  assumes "0 \<le> t" "simple_encode_t t xs = Some code"
  shows "list_all2 (close_to (2 * t)) xs (simple_decode code)" "length code \<le> 2 * length xs" "even (length code)"
proof -
  obtain x ys where xs: "xs = x # ys" "code = simple_loop_t t x 1 (unat x) ys"
    using assms(2) by (cases xs) (simp_all add: simple_encode_t_def)
  show "list_all2 (close_to (2 * t)) xs (simple_decode code)"
    using simple_loop_t_close [OF assms(1), of "[x]" x ys] xs by (simp add: within_self)
  show "length code \<le> 2 * length xs" "even (length code)"
    using simple_loop_t_length [of t x 1 "unat x" ys] xs by simp_all
qed

section \<open>The codes\<close>

text \<open>
  C34: What the PackBits program writes for a file it reads back as the same file, and the code is at most a third longer (and two
  bytes); the program with a threshold writes the same where the threshold is 0.
\<close>

theorem packbits_round_trip:
  "packbit_decode (packbit_encode [] xs) = xs \<and> 3 * length (packbit_encode [] xs) \<le> 4 * length xs + 2
    \<and> packbit_encode_t 0 [] xs = packbit_encode [] xs"
proof -
  have p: "packed 0 xs (packbit_encode [] xs)" using packbit_packed [of "[]" 0 xs] packbit_zero [of "[]" xs] by simp
  have "list_all2 (close_to 0) xs (packbit_decode (packbit_encode [] xs))" using packed_close [OF _ p] by simp
  from close_to_zero [OF this] packed_length [OF p] packbit_zero [of "[]" xs] show ?thesis by simp
qed

text \<open>
  C37: The code of an image, made with any threshold, is read by the application that collects images as by the program of the
  trials: as many numbers as there were, each off by at most twice the threshold. It is so for up to 49150 numbers, because the
  application stops where the code is longer than its buffer.
\<close>

theorem image_comes_back:
  assumes "0 \<le> t" "length xs \<le> 49150"
  shows "\<exists>ys. decode_packbits (packbit_encode_t t [] xs) = Some ys \<and> ys = packbit_decode (packbit_encode_t t [] xs)
    \<and> list_all2 (close_to (2 * t)) xs ys"
proof -
  have p: "packed t xs (packbit_encode_t t [] xs)" using packbit_packed [of "[]" t xs] by simp
  have "decode_loop [] (packbit_encode_t t [] xs) = Some ([] @ packbit_decode (packbit_encode_t t [] xs))"
    by (rule packed_decode_loop [OF p]) (use assms(2) in \<open>simp add: BUF_SIZE_def\<close>)
  moreover have "\<not> length (packbit_encode_t t [] xs) > BUF_SIZE" using packed_length [OF p] assms(2) by (simp add: BUF_SIZE_def)
  ultimately show ?thesis using packed_close [OF assms(1) p] by (simp add: decode_packbits_def)
qed

lemma image_comes_back_witness:
  "\<exists>ys. decode_packbits (packbit_encode_t 1 [] [7, 8, 6, 20]) = Some ys \<and> ys = packbit_decode (packbit_encode_t 1 [] [7, 8, 6, 20])
    \<and> list_all2 (close_to (2 * 1)) [7, 8, 6, 20] ys"
  by (rule image_comes_back) simp_all

text \<open>
  C35: The simple code, made with any threshold, is read back as as many numbers, each off by at most twice the threshold; it has
  at most two bytes for a number, and the program without a threshold writes what the other one writes with the threshold 0.
\<close>

theorem simple_code_comes_back:
  assumes "0 \<le> t" "simple_encode_t t xs = Some code"
  shows "list_all2 (close_to (2 * t)) xs (simple_decode code) \<and> length code \<le> 2 * length xs
    \<and> simple_encode_t 0 xs = simple_encode xs"
  using simple_encode_t_close [OF assms] simple_encode_zero by blast

lemma simple_code_comes_back_witness:
  "list_all2 (close_to (2 * 1)) [7, 8, 20] (simple_decode [7, 2, 20, 1]) \<and> length [7, 2, 20, 1 :: u8] \<le> 2 * length [7, 8, 20 :: u8]
    \<and> simple_encode_t 0 [7, 8, 20] = simple_encode [7, 8, 20]"
proof (rule simple_code_comes_back)
  show "simple_encode_t 1 [7, 8, 20] = Some [7, 2, 20, 1]" by code_simp
qed simp

text \<open>
  The application reads the same numbers into a buffer that has room for them. Where there is less room than its own limit, it
  writes behind the buffer.
\<close>

lemma simple_image_comes_back:
  assumes "0 \<le> t" "simple_encode_t t xs = Some code" "length xs \<le> min BUF_SIZE room"
  shows "decode_rle room code = Some (simple_decode code)"
proof -
  note c = simple_encode_t_close [OF assms(1,2)]
  show ?thesis using decode_rle_loop_ok [OF c(3), of "[]" room] close_to_length [OF c(1)] assms(3) by (simp add: decode_rle_def)
qed

lemma decode_rle_overrun: "0 < n \<Longrightarrow> n \<le> 255 \<Longrightarrow> room < n \<Longrightarrow> decode_rle room [v, of_nat n] = None"
  by (simp add: decode_rle_def unat_of_nat_u8 BUF_SIZE_def Let_def)

end
