(* ===== verification/Spec2Isabelle.thy ===== *)
theory Spec2Isabelle
  imports Tenet_Api Trd_Transport Stream_Transport Packet_Transport Daemon_Closing Rcrt_Delivery Serial_Forwarder Run_Length
begin

text \<open>
  Tenet: tasking of a network of sensor motes. Applications run on masters (PCs); they describe a task as a chain of
  tasklets, the master sends it to the motes, and the motes send their readings back. This development models the code
  of the master that all of this goes through, and the protocol code that masters and motes share.

  The parts and how they interact. An application (src/master/tasklib) turns a text into a task packet and writes it to
  a socket. The transport daemon (src/master/transport) reads it, gives it a task identifier, enters identifier and client in
  a table, and sends it: to all motes by the dissemination protocol (src/master/trd, shared parts in
  src/mote/lib/trd), which cuts it into fragments, keeps recent packets in tables and exchanges
  summaries of them under a Trickle timer, or to one node by the packet transport, which acknowledges and
  retransmits. All packets between a master and its network pass a serial line and the serial forwarder (src/tools/sf). A mote takes the packet apart into tasklets (src/mote/lib/TaskInstallerM.nc). Its readings come
  back as a stream, whose receiver on the master orders packets and asks for missing ones, or over the rate-controlled
  transport, which also tells each mote how fast to send; the daemon looks the identifier up and writes the data to the client that owns the task, where the library decodes the
  attributes.

  Theories and files. A function of the code is a definition of the same name, with the state it changes passed in and
  returned; the globals of a file are the fields of one record.
    Prelude: bytes, fields of packets, lemmas on lists, options and words.
    Timeval (master/include/timeval.c): the arithmetic behind all timers.
    Seqno_Space: the interface of a circle of sequence numbers, with its instances Tr_Seqno (mote/lib/transport/tr_seqno.c,
    1..50000) and Trd_Seqno (mote/lib/trd/trd_seqno.c, 1..5000).
    Checksum (mote/lib/transport/tr_packet.c and tr_checksum.c, mote/lib/trd/trd_checksum.c): headers and checksums.
    Metalist, Nodecache, Trd_Table (mote/lib/trd), Trd_Memory, Trd_Timer, Trd_State, Trd, Trd_Fragment, Trd_Transport
    (master/trd): the dissemination, from its tables up to whole messages.
    U16list, Packet_List, Connection_List, Stream_Transport, Packet_Transport, Tcmp (master/transport): lists of missing
    numbers, early packets and connections; the stream and the packet protocol; ping and trace route.
    Routing_Layer (master/transport/routinglayer.c, master/include/tosmsg.c): link and routing headers.
    Task_Consts, Task_Elements, Task_Parser, Task_Spec, Task_Language, Task_Install (master/tasklib/element_construct.c, tp.c,
    lexer.l, parser.y; mote/lib/TaskInstallerM.nc): the tasking language from text to installed tasklets, with a reference
    definition of what a description denotes.
    Response, App_Link, Tenet_Api (master/tasklib/response.c, tenetAPI.c, transportAPI.c; master/transport/tr_if.c,
    trsource.c): the library of the applications and its socket.
    Tid_List (master/transport/tidlist.c): the table of transactions.
    Daemon (master/transport/transportmain.c, client.c, service.c): the daemon that puts the transports together.
    Daemon_Safety, Daemon_Sessions, Daemon_Closing: what every round of it keeps, what it does for a task of all motes,
    and what it does for single nodes and when a task or a client goes.
    Floating: arithmetic of doubles over a rounding function. Estimators (master/transport/connectionlist.c): estimates of rates and
    losses. Rcrt_Rates, Rcrt (master/transport/rcrtransport.c, rcrtmaster.h; mote/lib/transport/rcrtransport.h): the
    rate-controlled transport, its sharing and adaptation of rates, its receiver and timers. Rcrt_Control: bounds and fairness of
    the rates. Rcrt_Closing: what its handlers keep. Rcrt_Delivery: its receiver as a refinement of the stream receiver.
    Serial_Line, Serial_Deframe, Serial_Frames, Serial_Delivery (tools/sf/serialsource.c): the serial protocol to the mote that
    is attached to a PC, with its receiver as a refinement of an automaton over bytes. Serial_Forwarder (tools/sf/sf.c,
    sfsource.c): the program that shares this mote among clients, and the protocol on its sockets. Run_Length (src/devel/image/rle,
    src/apps/imaging/imaging.c): the run-length codes for images.

  What the lemmas show. The data structures refine abstract ones: the ring buffer a bounded queue, the linked lists lists, the
  table of origins a finite map. Every operation keeps the invariant of its component; the state machine of
  the dissemination and the daemon keep theirs in every reachable state (inductive relations with locales that collect what
  their steps have in common). The protocols do their work: a disseminated message is put together again as it was,
  a stream arrives in order without gaps under loss, repetition and reordering within the window, a
  packet is delivered and acknowledged or reported as lost after six copies, a ping and a trace route end with all
  their results. The rate-controlled receiver simulates the stream receiver, so it delivers in order too; sharing out its
  rate ends, is max-min fair in exact arithmetic, and the total rate stays in its bounds under any rounding. On the serial
  line packets arrive as they were sent, the receiver finds its way back from any state, and damage is detected; the
  forwarder hands every packet to every client whose connection works. The run-length codes give images back, exactly or with an error of at most
  twice the threshold. The grammar of tasks is unambiguous, and the parser builds the packet of the tasklets a description denotes by the
  usage texts, except for three tasklets where it departs from them. The composition lemmas go through several components: from the text of a task to the tasklets a mote installs, and
  from a packet of the router to the bytes on the socket of the owner. Where the code goes wrong, a lemma states exactly when:
  an overrun, a loop that does not end, an answer that never comes.

  Conventions and bounds. Machine integers are words of their width; an \<open>int\<close> that cannot overflow is an \<open>int\<close> or a
  \<open>nat\<close>. Packets are the lists of their bytes and are read at the offsets of the packed structs. A result \<open>None\<close> is
  undefined behaviour (a read or write outside an object, a use of freed memory) or a loop that does not end; a theorem
  that an operation succeeds says that its result is not \<open>None\<close>. No definition uses fuel: a loop that may not
  end is a partial function. The clock, random numbers, the contents of new memory, bytes nobody writes,
  whether a write to a descriptor succeeds, and the results of \<open>select\<close> are arguments. Allocation succeeds. A write to a
  socket succeeds or fails as a whole. All allocations of one call return memory with the same contents. A struct that is
  written over the end of a buffer counts as an overrun if any of its bytes, padding included, does not fit. Pointers are
  kept in an \<open>int\<close> by the timers, so the master is a 32-bit build; the byte order of PCs and motes is
  little-endian, and \<open>hxs\<close> on the PC is \<open>htons\<close>. A callback of a transport into the daemon is handled when the call that makes it
  returns. Floating-point numbers are rationals with infinities and NaN; the rounding function and what a
  conversion out of range gives are arguments (exact arithmetic is the instance of the witnesses), and the sign of zero is not kept. What the generated scanner and parser do is an argument of the application library, related to the grammar by the
  hypothesis \<open>generated_from\<close> and instantiated with a decision procedure for the grammar.

  What is not modelled. The daemon theories take the rate-controlled transport as an argument, and the theories Rcrt model it
  on its own; its answer when memory is short (r_send_SYN_NACK) and its logs are left out. The beacons of a base station (multihoplqibase.c), opening of sockets and the handshake,
  options, printing (element_usage.c, task_error.c) and the service calls of the library (serviceAPI.c, service_if.c) are left out: input,
  output or thin wrappers. The C++ router (src/master/router), the programs that print packets (src/tools), the applications (src/apps) and
  trials (src/devel) except the run-length codes are programs of their own. The motes run nesC code and platform headers that this
  development covers only where it is shared with the master, and for the installation of tasks.
\<close>

end
